(* ===== verification/BD_Prelude.thy ===== *)
theory BD_Prelude
  imports Main "HOL-Library.Sublist"
begin

text \<open>
  Shared vocabulary of the development: the part of the JavaScript runtime that the
  modelled sources use (string methods, \<open>parseInt\<close>, truthiness defaults) and the
  collections of facts the component theories build on.

  A JavaScript string is a \<^typ>\<open>string\<close>, a list of code units; the model covers the code
  units below 256.  \<open>js_ws\<close> and \<open>js_lower\<close> are exact on that range (white space includes
  U+00A0, lower-casing the Latin-1 letters).  A finite JavaScript integer is an \<^typ>\<open>int\<close>; a
  number that may be \<open>NaN\<close> or infinite is an \<^typ>\<open>int option\<close> with \<^term>\<open>None\<close> for those.
\<close>

named_theorems js_defs \<open>definitions of the JavaScript primitives\<close>
named_theorems sql_simps \<open>lookup laws of the table operations\<close>

section \<open>Characters\<close>

definition js_ws :: "char \<Rightarrow> bool" where
  "js_ws c = (of_char c \<in> set [9, 10, 11, 12, 13, 32, 160 :: nat])"

definition is_digit :: "char \<Rightarrow> bool" where
  "is_digit c = (48 \<le> (of_char c :: nat) \<and> (of_char c :: nat) \<le> 57)"

definition is_upper_az :: "char \<Rightarrow> bool" where
  "is_upper_az c = (65 \<le> (of_char c :: nat) \<and> (of_char c :: nat) \<le> 90)"

definition is_lower_az :: "char \<Rightarrow> bool" where
  "is_lower_az c = (97 \<le> (of_char c :: nat) \<and> (of_char c :: nat) \<le> 122)"

definition is_alpha :: "char \<Rightarrow> bool" where
  "is_alpha c = (is_upper_az c \<or> is_lower_az c)"

definition is_alnum :: "char \<Rightarrow> bool" where
  "is_alnum c = (is_alpha c \<or> is_digit c)"

definition is_hex :: "char \<Rightarrow> bool" where
  "is_hex c = (let n = (of_char c :: nat)
     in (48 \<le> n \<and> n \<le> 57) \<or> (97 \<le> n \<and> n \<le> 102) \<or> (65 \<le> n \<and> n \<le> 70))"

definition js_lower_char :: "char \<Rightarrow> char" where
  "js_lower_char c = (let n = (of_char c :: nat)
     in if (65 \<le> n \<and> n \<le> 90) \<or> (192 \<le> n \<and> n \<le> 222 \<and> n \<noteq> 215) then char_of (n + 32) else c)"

lemmas char_class_defs [js_defs] =
  js_ws_def is_digit_def is_upper_az_def is_lower_az_def is_alpha_def is_alnum_def is_hex_def

section \<open>String methods\<close>

definition js_trim_start :: "string \<Rightarrow> string" where
  "js_trim_start s = dropWhile js_ws s"

definition js_trim :: "string \<Rightarrow> string" where
  "js_trim s = rev (dropWhile js_ws (rev (dropWhile js_ws s)))"

definition js_lower :: "string \<Rightarrow> string" where
  "js_lower s = map js_lower_char s"

definition startsWith :: "string \<Rightarrow> string \<Rightarrow> bool" where
  "startsWith s p = (take (length p) s = p)"

definition endsWith :: "string \<Rightarrow> string \<Rightarrow> bool" where
  "endsWith s p = (length p \<le> length s \<and> drop (length s - length p) s = p)"

fun split_on :: "char \<Rightarrow> string \<Rightarrow> string list" where
  "split_on d [] = [[]]"
| "split_on d (c # cs) =
     (if c = d then [] # split_on d cs
      else (case split_on d cs of [] \<Rightarrow> [[c]] | p # ps \<Rightarrow> (c # p) # ps))"

fun join_with :: "string \<Rightarrow> string list \<Rightarrow> string" where
  "join_with d [] = []"
| "join_with d [p] = p"
| "join_with d (p # q # ps) = p @ d @ join_with d (q # ps)"

lemma split_on_ne [simp]: "split_on d s \<noteq> []"
  by (induction s) (auto split: list.splits)

lemma join_split_on: "join_with [d] (split_on d s) = s"
proof (induction s)
  case Nil
  show ?case by simp
next
  case (Cons c s)
  obtain p ps where sp: "split_on d s = p # ps"
    by (cases "split_on d s") auto
  with Cons.IH show ?case by (cases ps) auto
qed

lemma split_on_no_sep: "d \<notin> set s \<Longrightarrow> split_on d s = [s]"
  by (induction s) auto

lemma split_on_parts: "p \<in> set (split_on d s) \<Longrightarrow> d \<notin> set p"
  by (induction s arbitrary: p) (auto split: list.splits if_splits)

lemma split_on_append_sep:
  "d \<notin> set p \<Longrightarrow> split_on d (p @ d # s) = p # split_on d s"
  by (induction p) (auto split: list.splits)

lemma split_join:
  assumes "ps \<noteq> []" and "\<forall>p \<in> set ps. d \<notin> set p"
  shows "split_on d (join_with [d] ps) = ps"
  using assms
proof (induction "[d]" ps rule: join_with.induct)
  case 1
  then show ?case by simp
next
  case (2 p)
  then show ?case by (simp add: split_on_no_sep)
next
  case (3 p q ps)
  then show ?case by (simp add: split_on_append_sep)
qed

lemma startsWith_append [simp]: "startsWith (p @ s) p"
  by (simp add: startsWith_def)

lemma startsWith_iff: "startsWith s p \<longleftrightarrow> (\<exists>r. s = p @ r)"
  unfolding startsWith_def by (metis append_eq_conv_conj append_take_drop_id)

lemma endsWith_iff: "endsWith s p \<longleftrightarrow> (\<exists>r. s = r @ p)"
  unfolding endsWith_def
  by (metis append_eq_conv_conj append_take_drop_id diff_add_inverse2 le_add2 length_append)

lemma length_js_lower [simp]: "length (js_lower s) = length s"
  by (simp add: js_lower_def)

lemma set_dropWhile_subset: "set (dropWhile P xs) \<subseteq> set xs"
  by (induction xs) auto

lemma set_js_trim: "set (js_trim s) \<subseteq> set s"
  unfolding js_trim_def
  using set_dropWhile_subset [of js_ws "rev (dropWhile js_ws s)"] set_dropWhile_subset [of js_ws s]
  by auto

lemma dropWhile_hd: "dropWhile P xs \<noteq> [] \<Longrightarrow> \<not> P (hd (dropWhile P xs))"
  by (induction xs) auto

lemma js_trim_last: "js_trim s \<noteq> [] \<Longrightarrow> \<not> js_ws (last (js_trim s))"
  unfolding js_trim_def
  using dropWhile_hd [of js_ws "rev (dropWhile js_ws s)"] by (simp add: last_rev)

lemma js_trim_hd: "js_trim s \<noteq> [] \<Longrightarrow> \<not> js_ws (hd (js_trim s))"
proof -
  assume ne: "js_trim s \<noteq> []"
  let ?t = "dropWhile js_ws s"
  have "suffix (dropWhile js_ws (rev ?t)) (rev ?t)" by (rule suffix_dropWhile)
  then have "prefix (js_trim s) ?t" by (simp add: js_trim_def suffix_to_prefix)
  then obtain r where r: "?t = js_trim s @ r" by (auto simp: prefix_def)
  with ne have "hd ?t = hd (js_trim s)" "?t \<noteq> []" by auto
  with dropWhile_hd [of js_ws s] show ?thesis by simp
qed

lemma js_trim_id: "t = [] \<or> (\<not> js_ws (hd t) \<and> \<not> js_ws (last t)) \<Longrightarrow> js_trim t = t"
proof -
  assume a: "t = [] \<or> (\<not> js_ws (hd t) \<and> \<not> js_ws (last t))"
  have d: "xs \<noteq> [] \<Longrightarrow> \<not> js_ws (hd xs) \<Longrightarrow> dropWhile js_ws xs = xs" for xs
    by (cases xs) auto
  show ?thesis
  proof (cases "t = []")
    case False
    then have "dropWhile js_ws t = t" "dropWhile js_ws (rev t) = rev t"
      using a d [of t] d [of "rev t"] by (auto simp: hd_rev)
    then show ?thesis by (simp add: js_trim_def)
  qed (simp add: js_trim_def)
qed

lemma js_trim_idem [simp]: "js_trim (js_trim s) = js_trim s"
  using js_trim_hd [of s] js_trim_last [of s] by (intro js_trim_id) blast

lemma find_SomeD: "find P xs = Some x \<Longrightarrow> x \<in> set xs \<and> P x"
  by (induction xs) (auto split: if_splits)

lemma find_append: "find P (xs @ ys) = (case find P xs of None \<Rightarrow> find P ys | Some x \<Rightarrow> Some x)"
  by (induction xs) auto

lemma length_filter_filter_le: "length (filter P (filter Q xs)) \<le> length (filter P xs)"
  by (induction xs) auto

lemma length_filter_map_le:
  assumes "\<And>x. P (f x) \<Longrightarrow> P x"
  shows "length (filter P (map f xs)) \<le> length (filter P xs)"
  using assms by (induction xs) auto

section \<open>Numbers\<close>

text \<open>
  \<open>parseInt(s, 10)\<close>: skip leading white space, an optional sign, then the longest run of
  decimal digits; \<open>NaN\<close> without a digit.  A value of 2 to the 1024 or more is infinite, so
  \<open>Number.isFinite\<close> refuses it: both cases are \<^term>\<open>None\<close>.  Below that bound the value is exact
  up to 2 to the 53, and every caller clamps its result far below.
\<close>

definition nat_of_digits :: "string \<Rightarrow> nat" where
  "nat_of_digits ds = foldl (\<lambda>a d. 10 * a + (of_char d - 48)) 0 ds"

definition parse_sign :: "string \<Rightarrow> bool \<times> string" where
  "parse_sign t = (case t of [] \<Rightarrow> (False, [])
     | c # r \<Rightarrow> if c = CHR ''-'' then (True, r) else if c = CHR ''+'' then (False, r) else (False, t))"

definition parseInt :: "string \<Rightarrow> int option" where
  "parseInt s = (let (neg, u) = parse_sign (js_trim_start s); ds = takeWhile is_digit u
     in if ds = [] then None
        else let v = int (nat_of_digits ds)
             in if 2 ^ 1024 \<le> v then None else Some (if neg then - v else v))"

fun show_nat :: "nat \<Rightarrow> string" where
  "show_nat n = (if n < 10 then [char_of (48 + n)] else show_nat (n div 10) @ [char_of (48 + n mod 10)])"

declare show_nat.simps [simp del]

definition show_int :: "int \<Rightarrow> string" where
  "show_int i = (if i < 0 then CHR ''-'' # show_nat (nat (- i)) else show_nat (nat i))"

lemma of_char_digit: "(n::nat) < 10 \<Longrightarrow> (of_char (char_of (48 + n) :: char) :: nat) = 48 + n"
  by simp

lemma is_digit_char_of: "(n::nat) < 10 \<Longrightarrow> is_digit (char_of (48 + n))"
  by (simp add: is_digit_def)

lemma show_nat_digits: "c \<in> set (show_nat n) \<Longrightarrow> is_digit c"
proof (induction n rule: show_nat.induct)
  case (1 n)
  show ?case
  proof (cases "n < 10")
    case True
    with "1.prems" show ?thesis by (simp add: show_nat.simps [of n] is_digit_char_of)
  next
    case False
    with "1" show ?thesis
      by (auto simp: show_nat.simps [of n] is_digit_char_of)
  qed
qed

lemma show_nat_ne [simp]: "show_nat n \<noteq> []"
  by (simp add: show_nat.simps [of n])

lemma nat_of_show_nat [simp]: "nat_of_digits (show_nat n) = n"
proof (induction n rule: show_nat.induct)
  case (1 n)
  show ?case
  proof (cases "n < 10")
    case True
    then show ?thesis by (simp add: show_nat.simps [of n] nat_of_digits_def)
  next
    case False
    with "1.IH" show ?thesis by (simp add: show_nat.simps [of n] nat_of_digits_def)
  qed
qed

lemma digit_not_ws: "is_digit c \<Longrightarrow> \<not> js_ws c"
  by (auto simp: is_digit_def js_ws_def)

lemma digit_not_sign: "is_digit c \<Longrightarrow> c \<noteq> CHR ''-'' \<and> c \<noteq> CHR ''+''"
  by (auto simp: is_digit_def)

lemma parseInt_show_nat:
  assumes "n < 2 ^ 1024"
  shows "parseInt (show_nat n) = Some (int n)"
proof -
  obtain c r where cr: "show_nat n = c # r" by (cases "show_nat n") auto
  have dig: "is_digit c" using show_nat_digits [of c n] cr by simp
  have trim: "js_trim_start (show_nat n) = show_nat n"
    using digit_not_ws [OF dig] by (simp add: js_trim_start_def cr)
  have sign: "parse_sign (show_nat n) = (False, show_nat n)"
    using digit_not_sign [OF dig] by (simp add: parse_sign_def cr)
  have tw: "takeWhile is_digit (show_nat n) = show_nat n"
    by (simp add: takeWhile_eq_all_conv show_nat_digits)
  from assms have b: "\<not> (2 ^ 1024 \<le> int n)"
    by (metis not_le of_nat_less_iff of_nat_numeral of_nat_power)
  show ?thesis unfolding parseInt_def using b by (simp add: trim sign tw Let_def del: power_numeral)
qed

section \<open>Truthiness defaults\<close>

text \<open>\<open>x || d\<close> on an optional string, and \<open>Number(x) || d\<close> on an optional number.\<close>

definition or_str :: "string option \<Rightarrow> string \<Rightarrow> string" where
  "or_str x d = (case x of None \<Rightarrow> d | Some s \<Rightarrow> if s = [] then d else s)"

definition num_or :: "int option \<Rightarrow> int \<Rightarrow> int" where
  "num_or x d = (case x of None \<Rightarrow> d | Some n \<Rightarrow> if n = 0 then d else n)"

definition null_if_empty :: "string \<Rightarrow> string option" where
  "null_if_empty s = (if s = [] then None else Some s)"

definition coalesce :: "'a option \<Rightarrow> 'a option \<Rightarrow> 'a option" where
  "coalesce a b = (case a of None \<Rightarrow> b | Some _ \<Rightarrow> a)"

lemma coalesce_simps [simp]: "coalesce None b = b" "coalesce (Some x) b = Some x"
  by (simp_all add: coalesce_def)

lemma coalesce_some [simp]: "coalesce a (Some x) \<noteq> None"
  by (cases a) simp_all

lemma coalesce_ne: "b \<noteq> None \<Longrightarrow> coalesce a b \<noteq> None"
  by (cases a) simp_all

lemma coalesce_ex [simp]: "(\<exists>y. coalesce a (Some x) = Some y)"
  by (cases a) simp_all

lemma num_or_None [simp]: "num_or None d = d"
  by (simp add: num_or_def)

lemma num_or_Some [simp]: "n \<noteq> 0 \<Longrightarrow> num_or (Some n) d = n"
  by (simp add: num_or_def)

end
