(* ===== verification/Sql_Tables.thy ===== *)
theory Sql_Tables
  imports BD_Prelude
begin

text \<open>
  Tables of the two database engines.  A table with a primary key is an association list in
  row order; \<open>tbl_ok\<close> says that the key is unique.  The operations are the statement forms the
  sources use: \<open>SELECT ... WHERE key\<close>, \<open>UPDATE ... WHERE\<close>, \<open>INSERT ... ON CONFLICT DO UPDATE\<close>,
  \<open>DELETE ... WHERE\<close>.  Their effect on look-ups (\<^const>\<open>map_of\<close>) is what the components reason
  with; the lemmas are in the collection \<open>sql_simps\<close>.
\<close>

type_synonym ('k, 'r) table = "('k \<times> 'r) list"

definition tbl_ok :: "('k, 'r) table \<Rightarrow> bool" where
  "tbl_ok t = distinct (map fst t)"

definition tbl_update :: "('k \<Rightarrow> 'r \<Rightarrow> bool) \<Rightarrow> ('r \<Rightarrow> 'r) \<Rightarrow> ('k, 'r) table \<Rightarrow> ('k, 'r) table" where
  "tbl_update p f t = map (\<lambda>(k, r). (k, if p k r then f r else r)) t"

definition tbl_delete :: "('k \<Rightarrow> 'r \<Rightarrow> bool) \<Rightarrow> ('k, 'r) table \<Rightarrow> ('k, 'r) table" where
  "tbl_delete p t = filter (\<lambda>(k, r). \<not> p k r) t"

definition tbl_select :: "('k \<Rightarrow> 'r \<Rightarrow> bool) \<Rightarrow> ('k, 'r) table \<Rightarrow> ('k \<times> 'r) list" where
  "tbl_select p t = filter (\<lambda>(k, r). p k r) t"

definition tbl_upsert :: "'k \<Rightarrow> 'r \<Rightarrow> ('r \<Rightarrow> 'r) \<Rightarrow> ('k, 'r) table \<Rightarrow> ('k, 'r) table" where
  "tbl_upsert k new merge t =
     (case map_of t k of
        None \<Rightarrow> t @ [(k, new)]
      | Some _ \<Rightarrow> tbl_update (\<lambda>k' _. k' = k) merge t)"

lemma fst_tbl_update [simp]: "map fst (tbl_update p f t) = map fst t"
  by (induction t) (auto simp: tbl_update_def)

lemma tbl_ok_update [simp]: "tbl_ok (tbl_update p f t) = tbl_ok t"
  by (simp add: tbl_ok_def)

lemma tbl_ok_delete: "tbl_ok t \<Longrightarrow> tbl_ok (tbl_delete p t)"
  by (induction t) (auto simp: tbl_ok_def tbl_delete_def)

lemma tbl_ok_upsert: "tbl_ok t \<Longrightarrow> tbl_ok (tbl_upsert k new merge t)"
  by (auto simp: tbl_upsert_def tbl_ok_def map_of_eq_None_iff split: option.splits)

lemma tbl_ok_Nil [simp]: "tbl_ok []"
  by (simp add: tbl_ok_def)

lemmas tbl_ok_intros = tbl_ok_delete tbl_ok_upsert

lemma map_of_tbl_update [sql_simps]:
  "map_of (tbl_update p f t) k = map_option (\<lambda>r. if p k r then f r else r) (map_of t k)"
  by (induction t) (auto simp: tbl_update_def)

lemma map_of_tbl_delete [sql_simps]:
  assumes "tbl_ok t"
  shows "map_of (tbl_delete p t) k =
    (case map_of t k of None \<Rightarrow> None | Some r \<Rightarrow> if p k r then None else Some r)"
  using assms
proof (induction t)
  case Nil
  then show ?case by (simp add: tbl_delete_def)
next
  case (Cons x t)
  obtain k' r where x: "x = (k', r)" by (cases x)
  have d: "k' \<notin> fst ` set t" and ok: "tbl_ok t" using Cons.prems x by (auto simp: tbl_ok_def)
  have "map_of (tbl_delete p t) k' = None"
    using d by (auto simp: map_of_eq_None_iff tbl_delete_def image_iff)
  with Cons.IH [OF ok] x show ?case by (auto simp: tbl_delete_def)
qed

lemma map_of_tbl_upsert [sql_simps]:
  "map_of (tbl_upsert k new merge t) k' =
    (if k' = k then Some (case map_of t k of None \<Rightarrow> new | Some r \<Rightarrow> merge r) else map_of t k')"
  by (auto simp: tbl_upsert_def map_add_def map_of_tbl_update split: option.splits)

lemma tbl_select_iff:
  assumes "tbl_ok t"
  shows "(k, r) \<in> set (tbl_select p t) \<longleftrightarrow> map_of t k = Some r \<and> p k r"
  using assms by (auto simp: tbl_select_def tbl_ok_def map_of_eq_Some_iff)

end
