(* ===== verification/Session_Policy.thy ===== *)
theory Session_Policy
  imports BD_Prelude
begin

text \<open>
  \<open>src/web-nodejs/lib/sessionPolicy.js\<close>: the idle and absolute lifetime of a panel session
  resolved from the environment, and the sanitisers of the client metadata that is stored
  with a session.  Times are milliseconds.
\<close>

definition MIN_IDLE_MS :: int where "MIN_IDLE_MS = 60 * 1000"
definition MAX_IDLE_MS :: int where "MAX_IDLE_MS = 24 * 60 * 60 * 1000"
definition DEFAULT_IDLE_MS :: int where "DEFAULT_IDLE_MS = 30 * 60 * 1000"
definition MIN_MAX_AGE_MS :: int where "MIN_MAX_AGE_MS = 5 * 60 * 1000"
definition MAX_MAX_AGE_MS :: int where "MAX_MAX_AGE_MS = 7 * 24 * 60 * 60 * 1000"
definition DEFAULT_MAX_AGE_MS :: int where "DEFAULT_MAX_AGE_MS = 24 * 60 * 60 * 1000"
definition DEFAULT_WARN_BEFORE_MS :: int where "DEFAULT_WARN_BEFORE_MS = 60 * 1000"

lemmas policy_consts = MIN_IDLE_MS_def MAX_IDLE_MS_def DEFAULT_IDLE_MS_def MIN_MAX_AGE_MS_def
  MAX_MAX_AGE_MS_def DEFAULT_MAX_AGE_MS_def DEFAULT_WARN_BEFORE_MS_def

text \<open>An environment variable that is not set is \<^term>\<open>None\<close>; \<open>parseInt(undefined)\<close> is \<open>NaN\<close>.\<close>

record session_env =
  SESSION_IDLE_TIMEOUT :: "string option"
  SESSION_MAX_AGE :: "string option"
  SESSION_IDLE_WARN_MS :: "string option"

record session_policy =
  idleTimeoutMs :: int
  maxAgeMs :: int
  warnBeforeMs :: int

definition parsePositiveInt :: "string option \<Rightarrow> int \<Rightarrow> int" where
  "parsePositiveInt raw fallback =
     (case Option.bind raw parseInt of
        None \<Rightarrow> fallback
      | Some n \<Rightarrow> if n > 0 then n else fallback)"

definition clamp :: "int \<Rightarrow> int \<Rightarrow> int \<Rightarrow> int" where
  "clamp n lo hi = min hi (max lo n)"

definition resolveSessionPolicy :: "session_env \<Rightarrow> session_policy" where
  "resolveSessionPolicy env =
     (let idle = clamp (parsePositiveInt (SESSION_IDLE_TIMEOUT env) DEFAULT_IDLE_MS) MIN_IDLE_MS MAX_IDLE_MS;
          age0 = clamp (parsePositiveInt (SESSION_MAX_AGE env) DEFAULT_MAX_AGE_MS) MIN_MAX_AGE_MS MAX_MAX_AGE_MS;
          age = (if age0 < idle then idle else age0);
          warn = clamp (parsePositiveInt (SESSION_IDLE_WARN_MS env) DEFAULT_WARN_BEFORE_MS)
                   (15 * 1000) (min idle (10 * 60 * 1000))
      in \<lparr>idleTimeoutMs = idle, maxAgeMs = age, warnBeforeMs = warn\<rparr>)"

text \<open>The frozen table \<open>END_REASONS\<close>; the reasons are the strings stored in the database.\<close>

definition LOGOUT :: string where "LOGOUT = ''logout''"
definition REPLACED :: string where "REPLACED = ''replaced''"
definition IDLE :: string where "IDLE = ''idle''"
definition MAX_AGE :: string where "MAX_AGE = ''max_age''"
definition REVOKED :: string where "REVOKED = ''revoked''"
definition DESTROYED :: string where "DESTROYED = ''destroyed''"

definition sanitizeUserAgent :: "string \<Rightarrow> string" where
  "sanitizeUserAgent ua =
     (let s = js_trim ua
      in if s = [] then [] else if length s > 512 then take 512 s else s)"

definition sanitizeIp :: "string \<Rightarrow> string" where
  "sanitizeIp ip =
     (let s = js_trim ip;
          s' = (if startsWith s ''::ffff:'' then drop 7 s else s)
      in if length s' > 128 then take 128 s' else s')"

text \<open>The fingerprint must match \<open>/^[A-Za-z0-9_.=+/-]{8,128}$/\<close>.\<close>

definition fingerprint_char :: "char \<Rightarrow> bool" where
  "fingerprint_char c = (is_alnum c \<or> c \<in> set ''_.=+/-'')"

definition sanitizeFingerprint :: "string \<Rightarrow> string" where
  "sanitizeFingerprint fp =
     (let s = js_trim fp
      in if s = [] then []
         else if \<not> (8 \<le> length s \<and> length s \<le> 128 \<and> list_all fingerprint_char s) then []
         else s)"

section \<open>Bounds of the policy and of the stored metadata\<close>

lemma clamp_le: "clamp n lo hi \<le> hi"
  by (simp add: clamp_def)

lemma clamp_ge: "lo \<le> hi \<Longrightarrow> lo \<le> clamp n lo hi"
  by (simp add: clamp_def)

lemma clamp_id: "lo \<le> n \<Longrightarrow> n \<le> hi \<Longrightarrow> clamp n lo hi = n"
  by (simp add: clamp_def)

lemma policy_idle_bounds:
  "MIN_IDLE_MS \<le> idleTimeoutMs (resolveSessionPolicy env)"
  "idleTimeoutMs (resolveSessionPolicy env) \<le> MAX_IDLE_MS"
  by (simp_all add: resolveSessionPolicy_def Let_def clamp_le clamp_ge policy_consts)

lemma policy_age_bounds:
  "idleTimeoutMs (resolveSessionPolicy env) \<le> maxAgeMs (resolveSessionPolicy env)"
  "MIN_MAX_AGE_MS \<le> maxAgeMs (resolveSessionPolicy env)"
  "maxAgeMs (resolveSessionPolicy env) \<le> MAX_MAX_AGE_MS"
  by (auto simp: resolveSessionPolicy_def Let_def clamp_def policy_consts)

lemma policy_warn_bounds:
  "15 * 1000 \<le> warnBeforeMs (resolveSessionPolicy env)"
  "warnBeforeMs (resolveSessionPolicy env) \<le> idleTimeoutMs (resolveSessionPolicy env)"
  by (auto simp: resolveSessionPolicy_def Let_def clamp_def policy_consts)

lemma sanitizeIp_length: "length (sanitizeIp ip) \<le> 128"
  by (simp add: sanitizeIp_def Let_def)

lemma sanitizeUserAgent_length: "length (sanitizeUserAgent ua) \<le> 512"
  by (simp add: sanitizeUserAgent_def Let_def)

lemma sanitizeFingerprint_shape:
  "sanitizeFingerprint fp = [] \<or>
   (8 \<le> length (sanitizeFingerprint fp) \<and> length (sanitizeFingerprint fp) \<le> 128 \<and>
    list_all fingerprint_char (sanitizeFingerprint fp))"
  by (simp add: sanitizeFingerprint_def Let_def)

end
