(* ===== verification/Session_Store.thy ===== *)
theory Session_Store
  imports Sql_Tables Session_Policy
begin

text \<open>
  \<open>src/web-nodejs/services/databaseSessionStore.js\<close>: the express-session store of the web
  console on SQLite and on PostgreSQL.  The two engines keep the same columns; they differ in
  the type of \<open>is_active\<close> (an integer on SQLite, a boolean on PostgreSQL), which is the type
  parameter of the row record, and in the SQL text of every statement.

  \<open>now\<close> is the reading of \<open>Date.now()\<close> in the handler, \<open>db\<close> the clock of the database engine
  (\<open>datetime('now')\<close>, \<open>NOW()\<close>).  \<open>JSON.parse\<close> and \<open>JSON.stringify\<close> are inverse on session data,
  so the column \<open>session_json\<close> holds the session object itself and \<open>'{}'\<close> is the object without
  fields.  Failures of the database driver are not modelled.
\<close>

section \<open>Data\<close>

record session_user =
  su_id :: int
  su_username :: string
  su_role :: string
  su_language :: "string option"

record sess =
  has_cookie :: bool
  cookie_expires :: "int option"
  createdAt :: "int option"
  lastActivityAt :: "int option"
  userId :: "int option"
  sess_user :: "session_user option"
  sess_username :: "string option"
  loginIp :: string
  loginUserAgent :: string
  clientFingerprint :: string
  lastSeenIp :: string
  sess_extra :: "(string \<times> string) list"

definition empty_sess :: sess where
  "empty_sess = \<lparr>has_cookie = False, cookie_expires = None, createdAt = None, lastActivityAt = None, userId = None,
     sess_user = None, sess_username = None, loginIp = [], loginUserAgent = [],
     clientFingerprint = [], lastSeenIp = [], sess_extra = []\<rparr>"

record 'b panel_row =
  session_json :: sess
  expires_at :: int
  updated_at :: int
  user_id :: "int option"
  username :: "string option"
  ip_address :: "string option"
  user_agent :: "string option"
  client_fingerprint :: "string option"
  created_at :: "int option"
  last_activity_at :: "int option"
  ended_at :: "int option"
  end_reason :: "string option"
  is_active :: 'b

type_synonym sid = string
type_synonym sqlite_sessions = "(sid, int panel_row) table"
type_synonym pg_sessions = "(sid, bool panel_row) table"

record store_cfg =
  st_idle :: int
  st_maxAge :: int

record session_meta =
  m_userId :: "int option"
  m_username :: "string option"
  m_ip :: string
  m_userAgent :: string
  m_fingerprint :: string
  m_createdAt :: "int option"
  m_lastActivityAt :: "int option"

text \<open>The constructor: explicit timeouts win over the policy, and the store keeps
  \<open>idle >= 1 minute\<close> and \<open>maxAge >= idle\<close>.\<close>

definition make_store :: "int option \<Rightarrow> int option \<Rightarrow> int option \<Rightarrow> session_env \<Rightarrow> store_cfg" where
  "make_store idle_arg maxAge_arg ttl_arg env =
     (let policy = resolveSessionPolicy env;
          idle = max 60000 (num_or idle_arg (idleTimeoutMs policy))
      in \<lparr>st_idle = idle,
          st_maxAge = max idle (num_or maxAge_arg (num_or ttl_arg (maxAgeMs policy)))\<rparr>)"

section \<open>Expiry\<close>

definition expiresAt :: "store_cfg \<Rightarrow> int \<Rightarrow> sess \<Rightarrow> int" where
  "expiresAt cfg now s =
     (case (if has_cookie s then cookie_expires s else None) of
        Some t \<Rightarrow> t
      | None \<Rightarrow>
          let created = num_or (createdAt s) now;
              absolute = created + st_maxAge cfg;
              idle = now + st_idle cfg
          in min absolute idle)"

text \<open>\<open>rowExpired\<close> gives the reason, or \<^term>\<open>None\<close> for a live row.  The test of \<open>is_active\<close>
  is the engine's; it is the first argument.\<close>

definition rowExpired :: "('b \<Rightarrow> bool) \<Rightarrow> store_cfg \<Rightarrow> 'b panel_row option \<Rightarrow> int \<Rightarrow> string option" where
  "rowExpired active cfg orow now =
     (case orow of
        None \<Rightarrow> Some DESTROYED
      | Some row \<Rightarrow>
          if \<not> active (is_active row) then Some (or_str (end_reason row) REVOKED)
          else
            let created = num_or (created_at row) 0;
                last = num_or (last_activity_at row) (if created \<noteq> 0 then created else now)
            in if created \<noteq> 0 \<and> now - created > st_maxAge cfg then Some MAX_AGE
               else if last \<noteq> 0 \<and> now - last > st_idle cfg then Some IDLE
               else if expires_at row \<le> now then
                 (if created \<noteq> 0 \<and> now - created > st_maxAge cfg then Some MAX_AGE else Some IDLE)
               else None)"

definition sqlite_active :: "int \<Rightarrow> bool" where
  "sqlite_active n = (n = 1)"

definition pg_active :: "bool \<Rightarrow> bool" where
  "pg_active b = b"

section \<open>The SQLite statements\<close>

definition sqlite_markEnded :: "int \<Rightarrow> int \<Rightarrow> sid \<Rightarrow> string \<Rightarrow> sqlite_sessions \<Rightarrow> sqlite_sessions" where
  "sqlite_markEnded now db sid reason t =
     tbl_update (\<lambda>k r. k = sid \<and> is_active r = 1)
       (\<lambda>r. r\<lparr>is_active := 0, ended_at := Some now,
              end_reason := coalesce (end_reason r) (Some reason), updated_at := db\<rparr>) t"

definition sqlite_get :: "store_cfg \<Rightarrow> int \<Rightarrow> int \<Rightarrow> sid \<Rightarrow> sqlite_sessions \<Rightarrow> sess option \<times> sqlite_sessions" where
  "sqlite_get cfg now db sid t =
     (case map_of t sid of
        None \<Rightarrow> (None, t)
      | Some row \<Rightarrow>
          (case rowExpired sqlite_active cfg (Some row) now of
             Some reason \<Rightarrow>
               (None, if is_active row = 1 then sqlite_markEnded now db sid reason t else t)
           | None \<Rightarrow> (Some (session_json row), t)))"

definition session_username :: "sess \<Rightarrow> string option" where
  "session_username s =
     (case sess_user s of
        Some u \<Rightarrow> if su_username u \<noteq> [] then Some (su_username u)
                   else Option.bind (sess_username s) null_if_empty
      | None \<Rightarrow> Option.bind (sess_username s) null_if_empty)"

definition sqlite_set :: "store_cfg \<Rightarrow> int \<Rightarrow> int \<Rightarrow> sid \<Rightarrow> sess \<Rightarrow> sqlite_sessions \<Rightarrow> sqlite_sessions" where
  "sqlite_set cfg now db sid s t =
     (let exp = expiresAt cfg now s;
          created = num_or (createdAt s) now;
          lastA = num_or (lastActivityAt s) now;
          uid = userId s;
          name = session_username s;
          ip = sanitizeIp (loginIp s);
          ua = sanitizeUserAgent (loginUserAgent s);
          fp = sanitizeFingerprint (clientFingerprint s)
      in tbl_upsert sid
           \<lparr>session_json = s, expires_at = exp, updated_at = db, user_id = uid, username = name,
            ip_address = null_if_empty ip, user_agent = null_if_empty ua,
            client_fingerprint = null_if_empty fp, created_at = Some created,
            last_activity_at = Some lastA, ended_at = None, end_reason = None, is_active = 1\<rparr>
           (\<lambda>r. r\<lparr>session_json := s, expires_at := exp, updated_at := db,
              user_id := coalesce uid (user_id r), username := coalesce name (username r),
              ip_address := coalesce (Option.bind (null_if_empty ip) null_if_empty) (ip_address r),
              user_agent := coalesce (Option.bind (null_if_empty ua) null_if_empty) (user_agent r),
              client_fingerprint := coalesce (Option.bind (null_if_empty fp) null_if_empty) (client_fingerprint r),
              created_at := coalesce (created_at r) (Some created),
              last_activity_at := Some lastA,
              is_active := (if is_active r = 0 then 0 else 1)\<rparr>) t)"

definition sqlite_touch :: "store_cfg \<Rightarrow> int \<Rightarrow> int \<Rightarrow> sid \<Rightarrow> sess \<Rightarrow> sqlite_sessions \<Rightarrow> sqlite_sessions" where
  "sqlite_touch cfg now db sid s t =
     tbl_update (\<lambda>k r. k = sid \<and> is_active r = 1)
       (\<lambda>r. r\<lparr>expires_at := expiresAt cfg now s,
              last_activity_at := Some (num_or (lastActivityAt s) now), updated_at := db\<rparr>) t"

definition sqlite_destroy :: "int \<Rightarrow> int \<Rightarrow> sid \<Rightarrow> sqlite_sessions \<Rightarrow> sqlite_sessions" where
  "sqlite_destroy now db sid t =
     tbl_update (\<lambda>k r. k = sid)
       (\<lambda>r. r\<lparr>session_json := empty_sess, end_reason := coalesce (end_reason r) (Some DESTROYED),
              updated_at := db\<rparr>)
       (sqlite_markEnded now db sid DESTROYED t)"

datatype store_error = UserIdRequired

type_synonym replaced_row = "sid \<times> string option \<times> string option \<times> string option"

definition sqlite_activate ::
  "store_cfg \<Rightarrow> int \<Rightarrow> int \<Rightarrow> sid \<Rightarrow> session_meta \<Rightarrow> sqlite_sessions
     \<Rightarrow> store_error + (replaced_row list \<times> sqlite_sessions)" where
  "sqlite_activate cfg now db sid meta t =
     (case m_userId meta of
        None \<Rightarrow> Inl UserIdRequired
      | Some uid \<Rightarrow>
          let name = Option.bind (m_username meta) null_if_empty;
              ip = sanitizeIp (m_ip meta);
              ua = sanitizeUserAgent (m_userAgent meta);
              fp = sanitizeFingerprint (m_fingerprint meta);
              created = num_or (m_createdAt meta) now;
              lastA = num_or (m_lastActivityAt meta) now;
              exp = min (created + st_maxAge cfg) (now + st_idle cfg);
              others = (\<lambda>k r. user_id r = Some uid \<and> is_active r = 1 \<and> k \<noteq> sid);
              replaced = map (\<lambda>(k, r). (k, ip_address r, user_agent r, username r)) (tbl_select others t);
              t1 = tbl_update others
                     (\<lambda>r. r\<lparr>is_active := 0, ended_at := Some now, end_reason := Some REPLACED,
                            updated_at := db\<rparr>) t;
              t2 = tbl_update (\<lambda>k r. k = sid)
                     (\<lambda>r. r\<lparr>user_id := Some uid, username := name, ip_address := null_if_empty ip,
                            user_agent := null_if_empty ua, client_fingerprint := null_if_empty fp,
                            created_at := Some created, last_activity_at := Some lastA,
                            expires_at := exp, ended_at := None, end_reason := None,
                            is_active := 1, updated_at := db\<rparr>) t1
          in Inr (replaced, t2))"

definition sqlite_endSession :: "int \<Rightarrow> int \<Rightarrow> sid \<Rightarrow> string \<Rightarrow> sqlite_sessions \<Rightarrow> sqlite_sessions" where
  "sqlite_endSession now db sid reason t =
     tbl_update (\<lambda>k r. k = sid) (\<lambda>r. r\<lparr>session_json := empty_sess, updated_at := db\<rparr>)
       (sqlite_markEnded now db sid reason t)"

definition day_ms :: int where "day_ms = 24 * 60 * 60 * 1000"

definition stale :: "store_cfg \<Rightarrow> int \<Rightarrow> int \<Rightarrow> 'b panel_row \<Rightarrow> bool" where
  "stale cfg now clock r =
     (expires_at r \<le> clock
      \<or> (case created_at r of None \<Rightarrow> False | Some c \<Rightarrow> now - c > st_maxAge cfg)
      \<or> (case last_activity_at r of None \<Rightarrow> False | Some l \<Rightarrow> now - l > st_idle cfg))"

definition sqlite_cleanup :: "store_cfg \<Rightarrow> int \<Rightarrow> int \<Rightarrow> sqlite_sessions \<Rightarrow> sqlite_sessions" where
  "sqlite_cleanup cfg now db t =
     tbl_delete (\<lambda>k r. user_id r = None \<and> expires_at r \<le> now - day_ms)
       (tbl_update (\<lambda>k r. is_active r = 1 \<and> stale cfg now now r)
          (\<lambda>r. r\<lparr>is_active := 0, ended_at := coalesce (ended_at r) (Some now),
                 end_reason := coalesce (end_reason r) (Some IDLE), updated_at := db\<rparr>) t)"

section \<open>The PostgreSQL statements\<close>

definition pg_markEnded :: "int \<Rightarrow> int \<Rightarrow> sid \<Rightarrow> string \<Rightarrow> pg_sessions \<Rightarrow> pg_sessions" where
  "pg_markEnded now db sid reason t =
     tbl_update (\<lambda>k r. k = sid \<and> is_active r)
       (\<lambda>r. r\<lparr>is_active := False, ended_at := Some now,
              end_reason := coalesce (end_reason r) (Some reason), updated_at := db\<rparr>) t"

definition pg_get :: "store_cfg \<Rightarrow> int \<Rightarrow> int \<Rightarrow> sid \<Rightarrow> pg_sessions \<Rightarrow> sess option \<times> pg_sessions" where
  "pg_get cfg now db sid t =
     (case map_of t sid of
        None \<Rightarrow> (None, t)
      | Some row \<Rightarrow>
          (case rowExpired pg_active cfg (Some row) now of
             Some reason \<Rightarrow> (None, if is_active row then pg_markEnded now db sid reason t else t)
           | None \<Rightarrow> (Some (session_json row), t)))"

text \<open>The insert wraps the metadata in \<open>NULLIF(..., '')\<close>; the conflict branch applies
  \<open>NULLIF\<close> again to the values of \<open>EXCLUDED\<close>.\<close>

definition pg_set :: "store_cfg \<Rightarrow> int \<Rightarrow> int \<Rightarrow> sid \<Rightarrow> sess \<Rightarrow> pg_sessions \<Rightarrow> pg_sessions" where
  "pg_set cfg now db sid s t =
     (let exp = expiresAt cfg now s;
          created = num_or (createdAt s) now;
          lastA = num_or (lastActivityAt s) now;
          excluded =
            \<lparr>session_json = s, expires_at = exp, updated_at = db, user_id = userId s,
             username = session_username s,
             ip_address = null_if_empty (sanitizeIp (loginIp s)),
             user_agent = null_if_empty (sanitizeUserAgent (loginUserAgent s)),
             client_fingerprint = null_if_empty (sanitizeFingerprint (clientFingerprint s)),
             created_at = Some created, last_activity_at = Some lastA,
             ended_at = None, end_reason = None, is_active = True\<rparr>
      in tbl_upsert sid excluded
           (\<lambda>r. r\<lparr>session_json := session_json excluded, expires_at := expires_at excluded,
              updated_at := db,
              user_id := coalesce (user_id excluded) (user_id r),
              username := coalesce (username excluded) (username r),
              ip_address := coalesce (Option.bind (ip_address excluded) null_if_empty) (ip_address r),
              user_agent := coalesce (Option.bind (user_agent excluded) null_if_empty) (user_agent r),
              client_fingerprint :=
                coalesce (Option.bind (client_fingerprint excluded) null_if_empty) (client_fingerprint r),
              created_at := coalesce (created_at r) (created_at excluded),
              last_activity_at := last_activity_at excluded,
              is_active := (if is_active r = False then False else True)\<rparr>) t)"

definition pg_touch :: "store_cfg \<Rightarrow> int \<Rightarrow> int \<Rightarrow> sid \<Rightarrow> sess \<Rightarrow> pg_sessions \<Rightarrow> pg_sessions" where
  "pg_touch cfg now db sid s t =
     tbl_update (\<lambda>k r. k = sid \<and> is_active r)
       (\<lambda>r. r\<lparr>expires_at := expiresAt cfg now s,
              last_activity_at := Some (num_or (lastActivityAt s) now), updated_at := db\<rparr>) t"

definition pg_destroy :: "int \<Rightarrow> int \<Rightarrow> sid \<Rightarrow> pg_sessions \<Rightarrow> pg_sessions" where
  "pg_destroy now db sid t =
     tbl_update (\<lambda>k r. k = sid)
       (\<lambda>r. r\<lparr>session_json := empty_sess, end_reason := coalesce (end_reason r) (Some DESTROYED),
              updated_at := db\<rparr>)
       (pg_markEnded now db sid DESTROYED t)"

definition pg_activate ::
  "store_cfg \<Rightarrow> int \<Rightarrow> int \<Rightarrow> sid \<Rightarrow> session_meta \<Rightarrow> pg_sessions
     \<Rightarrow> store_error + (replaced_row list \<times> pg_sessions)" where
  "pg_activate cfg now db sid meta t =
     (case m_userId meta of
        None \<Rightarrow> Inl UserIdRequired
      | Some uid \<Rightarrow>
          let name = Option.bind (m_username meta) null_if_empty;
              ip = sanitizeIp (m_ip meta);
              ua = sanitizeUserAgent (m_userAgent meta);
              fp = sanitizeFingerprint (m_fingerprint meta);
              created = num_or (m_createdAt meta) now;
              lastA = num_or (m_lastActivityAt meta) now;
              exp = min (created + st_maxAge cfg) (now + st_idle cfg);
              others = (\<lambda>k r. user_id r = Some uid \<and> is_active r \<and> k \<noteq> sid);
              ended = (\<lambda>r. r\<lparr>is_active := False, ended_at := Some now, end_reason := Some REPLACED,
                            updated_at := db\<rparr>);
              prev = map (\<lambda>(k, r). (k, ended r)) (tbl_select others t);
              t1 = tbl_update others ended t;
              t2 = tbl_update (\<lambda>k r. k = sid)
                     (\<lambda>r. r\<lparr>user_id := Some uid, username := name, ip_address := null_if_empty ip,
                            user_agent := null_if_empty ua, client_fingerprint := null_if_empty fp,
                            created_at := Some created, last_activity_at := Some lastA,
                            expires_at := exp, ended_at := None, end_reason := None,
                            is_active := True, updated_at := db\<rparr>) t1
          in Inr (map (\<lambda>(k, r). (k, ip_address r, user_agent r, username r)) prev, t2))"

definition pg_endSession :: "int \<Rightarrow> int \<Rightarrow> sid \<Rightarrow> string \<Rightarrow> pg_sessions \<Rightarrow> pg_sessions" where
  "pg_endSession now db sid reason t =
     tbl_update (\<lambda>k r. k = sid) (\<lambda>r. r\<lparr>session_json := empty_sess, updated_at := db\<rparr>)
       (pg_markEnded now db sid reason t)"

definition pg_cleanup :: "store_cfg \<Rightarrow> int \<Rightarrow> int \<Rightarrow> pg_sessions \<Rightarrow> pg_sessions" where
  "pg_cleanup cfg now db t =
     tbl_delete (\<lambda>k r. user_id r = None \<and> expires_at r \<le> db - day_ms)
       (tbl_update (\<lambda>k r. is_active r \<and> stale cfg now db r)
          (\<lambda>r. r\<lparr>is_active := False, ended_at := coalesce (ended_at r) (Some now),
                 end_reason := coalesce (end_reason r) (Some IDLE), updated_at := db\<rparr>) t)"

section \<open>Listing\<close>

text \<open>\<open>ORDER BY COALESCE(last_activity_at, created_at) DESC\<close> puts null keys last on both
  engines; ties keep row order.\<close>

definition list_key :: "'b panel_row \<Rightarrow> int option" where
  "list_key r = coalesce (last_activity_at r) (created_at r)"

definition order_rows :: "(sid \<times> 'b panel_row) list \<Rightarrow> (sid \<times> 'b panel_row) list" where
  "order_rows rs =
     sort_key (\<lambda>(k, r). - the (list_key r)) (filter (\<lambda>(k, r). list_key r \<noteq> None) rs)
     @ filter (\<lambda>(k, r). list_key r = None) rs"

definition listUserSessions ::
  "('b \<Rightarrow> bool) \<Rightarrow> int \<Rightarrow> bool \<Rightarrow> int option \<Rightarrow> (sid, 'b panel_row) table \<Rightarrow> (sid \<times> 'b panel_row) list" where
  "listUserSessions active uid includeEnded limit t =
     (let lim = min 200 (max 1 (num_or limit 50))
      in take (nat lim)
           (order_rows (tbl_select (\<lambda>k r. user_id r = Some uid \<and> (includeEnded \<or> active (is_active r))) t)))"

end
