(* ===== verification/Session_Spec.thy ===== *)
theory Session_Spec
  imports Session_Store
begin

text \<open>
  What the session store promises, without its columns: an abstract store maps a session id to
  its owner, its liveness, its data and its three times.  The locale \<open>session_backend\<close> is the
  contract of an engine: every operation of the engine acts on the abstract store as the
  specification says.  The facts about single sessions per account, expiry and ended sessions
  are proved once for the contract; the two interpretations at the end discharge it for the
  SQLite and for the PostgreSQL statements.
\<close>

section \<open>The abstract store\<close>

record abs_session =
  a_owner :: "int option"
  a_live :: bool
  a_data :: sess
  a_created :: "int option"
  a_last :: "int option"
  a_expires :: int
  a_reason :: "string option"

type_synonym abs_store = "sid \<Rightarrow> abs_session option"

definition abs_row :: "('b \<Rightarrow> bool) \<Rightarrow> 'b panel_row \<Rightarrow> abs_session" where
  "abs_row active r = \<lparr>a_owner = user_id r, a_live = active (is_active r), a_data = session_json r,
     a_created = created_at r, a_last = last_activity_at r, a_expires = expires_at r,
     a_reason = end_reason r\<rparr>"

definition abs_table :: "('b \<Rightarrow> bool) \<Rightarrow> (sid, 'b panel_row) table \<Rightarrow> abs_store" where
  "abs_table active t = (\<lambda>k. map_option (abs_row active) (map_of t k))"

definition spec_upd :: "sid \<Rightarrow> (abs_session \<Rightarrow> abs_session) \<Rightarrow> abs_store \<Rightarrow> abs_store" where
  "spec_upd sid f m = m(sid := map_option f (m sid))"

definition end_with :: "string \<Rightarrow> abs_session \<Rightarrow> abs_session" where
  "end_with reason a =
     (if a_live a then a\<lparr>a_live := False, a_reason := coalesce (a_reason a) (Some reason)\<rparr> else a)"

definition spec_expired :: "store_cfg \<Rightarrow> abs_session \<Rightarrow> int \<Rightarrow> string option" where
  "spec_expired cfg a now =
     (if \<not> a_live a then Some (or_str (a_reason a) REVOKED)
      else if (case a_created a of None \<Rightarrow> False | Some c \<Rightarrow> c \<noteq> 0 \<and> now - c > st_maxAge cfg)
        then Some MAX_AGE
      else if now - num_or (a_last a) (num_or (a_created a) now) > st_idle cfg \<and>
              num_or (a_last a) (num_or (a_created a) now) \<noteq> 0
        then Some IDLE
      else if a_expires a \<le> now then Some IDLE else None)"

definition spec_get :: "store_cfg \<Rightarrow> int \<Rightarrow> sid \<Rightarrow> abs_store \<Rightarrow> sess option \<times> abs_store" where
  "spec_get cfg now sid m =
     (case m sid of
        None \<Rightarrow> (None, m)
      | Some a \<Rightarrow> (case spec_expired cfg a now of
                     None \<Rightarrow> (Some (a_data a), m)
                   | Some reason \<Rightarrow> (None, spec_upd sid (end_with reason) m)))"

definition spec_set :: "store_cfg \<Rightarrow> int \<Rightarrow> sid \<Rightarrow> sess \<Rightarrow> abs_store \<Rightarrow> abs_store" where
  "spec_set cfg now sid s m = m(sid \<mapsto>
     (case m sid of
        None \<Rightarrow> \<lparr>a_owner = userId s, a_live = True, a_data = s,
                  a_created = Some (num_or (createdAt s) now),
                  a_last = Some (num_or (lastActivityAt s) now),
                  a_expires = expiresAt cfg now s, a_reason = None\<rparr>
      | Some a \<Rightarrow> a\<lparr>a_owner := coalesce (userId s) (a_owner a), a_data := s,
                  a_created := coalesce (a_created a) (Some (num_or (createdAt s) now)),
                  a_last := Some (num_or (lastActivityAt s) now),
                  a_expires := expiresAt cfg now s\<rparr>))"

definition spec_touch :: "store_cfg \<Rightarrow> int \<Rightarrow> sid \<Rightarrow> sess \<Rightarrow> abs_store \<Rightarrow> abs_store" where
  "spec_touch cfg now sid s m =
     spec_upd sid (\<lambda>a. if a_live a
       then a\<lparr>a_expires := expiresAt cfg now s, a_last := Some (num_or (lastActivityAt s) now)\<rparr>
       else a) m"

definition spec_destroy :: "sid \<Rightarrow> abs_store \<Rightarrow> abs_store" where
  "spec_destroy sid m =
     spec_upd sid (\<lambda>a. a\<lparr>a_live := False, a_data := empty_sess,
                         a_reason := coalesce (a_reason a) (Some DESTROYED)\<rparr>) m"

definition spec_endSession :: "sid \<Rightarrow> string \<Rightarrow> abs_store \<Rightarrow> abs_store" where
  "spec_endSession sid reason m = spec_upd sid (\<lambda>a. (end_with reason a)\<lparr>a_data := empty_sess\<rparr>) m"

definition spec_activate :: "store_cfg \<Rightarrow> int \<Rightarrow> sid \<Rightarrow> int \<Rightarrow> session_meta \<Rightarrow> abs_store \<Rightarrow> abs_store" where
  "spec_activate cfg now sid uid meta m = (\<lambda>k. map_option (\<lambda>a.
     if k = sid then
       a\<lparr>a_owner := Some uid, a_live := True, a_reason := None,
         a_created := Some (num_or (m_createdAt meta) now),
         a_last := Some (num_or (m_lastActivityAt meta) now),
         a_expires := min (num_or (m_createdAt meta) now + st_maxAge cfg) (now + st_idle cfg)\<rparr>
     else if a_owner a = Some uid \<and> a_live a then a\<lparr>a_live := False, a_reason := Some REPLACED\<rparr>
     else a) (m k))"

definition abs_stale :: "store_cfg \<Rightarrow> int \<Rightarrow> abs_session \<Rightarrow> bool" where
  "abs_stale cfg now a =
     (a_expires a \<le> now
      \<or> (case a_created a of None \<Rightarrow> False | Some c \<Rightarrow> now - c > st_maxAge cfg)
      \<or> (case a_last a of None \<Rightarrow> False | Some l \<Rightarrow> now - l > st_idle cfg))"

definition spec_cleanup :: "store_cfg \<Rightarrow> int \<Rightarrow> abs_store \<Rightarrow> abs_store" where
  "spec_cleanup cfg now m = (\<lambda>k. case m k of
       None \<Rightarrow> None
     | Some a \<Rightarrow> if a_owner a = None \<and> a_expires a \<le> now - day_ms then None
                  else Some (if abs_stale cfg now a then end_with IDLE a else a))"

lemmas spec_defs = spec_upd_def spec_get_def spec_set_def spec_touch_def spec_destroy_def
  spec_endSession_def spec_activate_def spec_cleanup_def end_with_def

section \<open>Single active session per account\<close>

definition exclusive :: "abs_store \<Rightarrow> bool" where
  "exclusive m = (\<forall>k k' a a' u. m k = Some a \<and> m k' = Some a' \<and> a_live a \<and> a_live a'
      \<and> a_owner a = Some u \<and> a_owner a' = Some u \<longrightarrow> k = k')"

lemma exclusiveD:
  "exclusive m \<Longrightarrow> m k = Some a \<Longrightarrow> m k' = Some a' \<Longrightarrow> a_live a \<Longrightarrow> a_live a'
   \<Longrightarrow> a_owner a = Some u \<Longrightarrow> a_owner a' = Some u \<Longrightarrow> k = k'"
  unfolding exclusive_def by blast

text \<open>A change that creates no live session and gives no live session a new owner keeps it.\<close>

definition shrinks :: "abs_store \<Rightarrow> abs_store \<Rightarrow> bool" where
  "shrinks m m' = (\<forall>k a'. m' k = Some a' \<longrightarrow> a_live a' \<longrightarrow> a_owner a' \<noteq> None \<longrightarrow>
      (\<exists>a. m k = Some a \<and> a_live a \<and> a_owner a = a_owner a'))"

lemma exclusive_shrinks:
  assumes ex: "exclusive m" and sh: "shrinks m m'"
  shows "exclusive m'"
  unfolding exclusive_def
proof (intro allI impI, elim conjE)
  fix k k' a a' u
  assume h: "m' k = Some a" "m' k' = Some a'" "a_live a" "a_live a'"
    "a_owner a = Some u" "a_owner a' = Some u"
  obtain b where b: "m k = Some b" "a_live b" "a_owner b = Some u"
    using sh h(1,3,5) unfolding shrinks_def by fastforce
  obtain b' where b': "m k' = Some b'" "a_live b'" "a_owner b' = Some u"
    using sh h(2,4,6) unfolding shrinks_def by fastforce
  show "k = k'" using exclusiveD [OF ex b(1) b'(1) b(2) b'(2) b(3) b'(3)] .
qed

lemma shrinks_upd:
  assumes "\<And>a. m sid = Some a \<Longrightarrow> a_live (f a) \<Longrightarrow> a_live a \<and> a_owner (f a) = a_owner a"
  shows "shrinks m (spec_upd sid f m)"
  unfolding shrinks_def spec_upd_def
proof (intro allI impI)
  fix k a'
  assume h: "(m(sid := map_option f (m sid))) k = Some a'" "a_live a'" "a_owner a' \<noteq> None"
  show "\<exists>a. m k = Some a \<and> a_live a \<and> a_owner a = a_owner a'"
  proof (cases "k = sid")
    case True
    with h obtain b where "m sid = Some b" "a' = f b" by auto
    with assms [of b] h True show ?thesis by simp
  next
    case False
    with h show ?thesis by simp
  qed
qed

lemma shrinks_get: "shrinks m (snd (spec_get cfg now sid m))"
proof (cases "\<exists>a reason. m sid = Some a \<and> spec_expired cfg a now = Some reason")
  case True
  then obtain a reason where "m sid = Some a" "spec_expired cfg a now = Some reason" by blast
  then show ?thesis
    by (auto simp: spec_get_def end_with_def intro!: shrinks_upd split: if_splits)
next
  case False
  then have "snd (spec_get cfg now sid m) = m"
    by (auto simp: spec_get_def split: option.splits)
  then show ?thesis by (auto simp: shrinks_def)
qed

lemma shrinks_touch: "shrinks m (spec_touch cfg now sid s m)"
  unfolding spec_touch_def by (rule shrinks_upd) (auto split: if_splits)

lemma shrinks_destroy: "shrinks m (spec_destroy sid m)"
  unfolding spec_destroy_def by (rule shrinks_upd) simp

lemma shrinks_endSession: "shrinks m (spec_endSession sid reason m)"
  unfolding spec_endSession_def by (rule shrinks_upd) (auto simp: end_with_def split: if_splits)

lemma shrinks_cleanup: "shrinks m (spec_cleanup cfg now m)"
  by (auto simp: shrinks_def spec_cleanup_def end_with_def split: option.splits if_splits)

text \<open>A save of a session object that belongs to the row's owner (or to nobody).\<close>

definition save_ok :: "sid \<Rightarrow> sess \<Rightarrow> abs_store \<Rightarrow> bool" where
  "save_ok sid s m = (userId s = None \<or> (\<exists>a. m sid = Some a \<and> a_owner a = userId s))"

lemma shrinks_set: "save_ok sid s m \<Longrightarrow> shrinks m (spec_set cfg now sid s m)"
  by (auto simp: shrinks_def save_ok_def spec_set_def split: if_splits option.splits)
     (auto simp: coalesce_def split: option.splits)

lemma activate_sole_live:
  "spec_activate cfg now sid uid meta m k = Some a \<Longrightarrow> a_live a \<Longrightarrow> a_owner a = Some uid \<Longrightarrow> k = sid"
  by (auto simp: spec_activate_def split: if_splits)

lemma activate_other_owner:
  "spec_activate cfg now sid uid meta m k = Some a' \<Longrightarrow> a_live a' \<Longrightarrow> a_owner a' = Some u \<Longrightarrow> u \<noteq> uid
   \<Longrightarrow> k \<noteq> sid \<and> m k = Some a'"
  by (cases "m k"; cases "k = sid") (auto simp: spec_activate_def split: if_splits)

lemma spec_set_other: "k \<noteq> sid \<Longrightarrow> spec_set cfg now sid s m k = m k"
  by (simp add: spec_set_def)

text \<open>A login stores the session and then activates it; it may start from any session object.\<close>

lemma exclusive_login:
  assumes "exclusive m"
  shows "exclusive (spec_activate cfg now sid uid meta (spec_set cfg now sid s m))"
  unfolding exclusive_def
proof (intro allI impI, elim conjE)
  fix k k' a a' u
  let ?m = "spec_activate cfg now sid uid meta (spec_set cfg now sid s m)"
  assume h: "?m k = Some a" "?m k' = Some a'" "a_live a" "a_live a'" "a_owner a = Some u" "a_owner a' = Some u"
  show "k = k'"
  proof (cases "u = uid")
    case True
    with h activate_sole_live show ?thesis by metis
  next
    case False
    have "k \<noteq> sid \<and> spec_set cfg now sid s m k = Some a"
      by (rule activate_other_owner [OF h(1,3,5) False])
    moreover have "k' \<noteq> sid \<and> spec_set cfg now sid s m k' = Some a'"
      by (rule activate_other_owner [OF h(2,4,6) False])
    ultimately have "m k = Some a" "m k' = Some a'" by (auto simp: spec_set_other)
    with assms h show ?thesis by (blast intro: exclusiveD)
  qed
qed

section \<open>Operations as data\<close>

datatype session_op =
    OpGet sid
  | OpSave sid sess
  | OpTouch sid sess
  | OpDestroy sid
  | OpEnd sid string
  | OpLogin sid sess int session_meta
  | OpCleanup

fun spec_op :: "store_cfg \<Rightarrow> int \<Rightarrow> session_op \<Rightarrow> abs_store \<Rightarrow> abs_store" where
  "spec_op cfg now (OpGet sid) m = snd (spec_get cfg now sid m)"
| "spec_op cfg now (OpSave sid s) m = spec_set cfg now sid s m"
| "spec_op cfg now (OpTouch sid s) m = spec_touch cfg now sid s m"
| "spec_op cfg now (OpDestroy sid) m = spec_destroy sid m"
| "spec_op cfg now (OpEnd sid reason) m = spec_endSession sid reason m"
| "spec_op cfg now (OpLogin sid s uid meta) m =
     spec_activate cfg now sid uid meta (spec_set cfg now sid s m)"
| "spec_op cfg now OpCleanup m = spec_cleanup cfg now m"

fun op_ok :: "session_op \<Rightarrow> abs_store \<Rightarrow> bool" where
  "op_ok (OpSave sid s) m = save_ok sid s m"
| "op_ok _ m = True"

lemma spec_op_exclusive:
  assumes "exclusive m" and "op_ok op m"
  shows "exclusive (spec_op cfg now op m)"
proof (cases op)
  case (OpLogin sid s uid meta)
  with assms(1) show ?thesis by (simp add: exclusive_login)
qed (use assms in \<open>auto intro: exclusive_shrinks shrinks_get shrinks_touch shrinks_destroy
       shrinks_endSession shrinks_cleanup shrinks_set\<close>)

text \<open>An ended session is ended for good: only a login on the same id can make it live.\<close>

definition dead_at :: "sid \<Rightarrow> abs_store \<Rightarrow> bool" where
  "dead_at sid m = (\<forall>a. m sid = Some a \<longrightarrow> \<not> a_live a)"

fun revives :: "sid \<Rightarrow> session_op \<Rightarrow> bool" where
  "revives sid (OpLogin sid' s uid meta) = (sid' = sid)"
| "revives sid _ = False"

lemma spec_op_dead:
  assumes "m sid = Some a" and "\<not> a_live a" and "a_owner a \<noteq> None" and "\<not> revives sid op"
  shows "\<exists>a'. spec_op cfg now op m sid = Some a' \<and> \<not> a_live a' \<and> a_owner a' \<noteq> None"
proof (cases op)
  case (OpGet sid')
  with assms show ?thesis
    by (cases "sid' = sid") (auto simp: spec_get_def spec_upd_def end_with_def split: option.splits)
next
  case (OpCleanup)
  with assms show ?thesis by (auto simp: spec_cleanup_def end_with_def)
next
  case (OpSave sid' s)
  with assms show ?thesis by (cases "sid' = sid"; cases "userId s") (auto simp: spec_set_def)
next
  case (OpTouch sid' s)
  with assms show ?thesis by (cases "sid' = sid") (auto simp: spec_touch_def spec_upd_def)
next
  case (OpDestroy sid')
  with assms show ?thesis by (cases "sid' = sid") (auto simp: spec_destroy_def spec_upd_def)
next
  case (OpEnd sid' reason)
  with assms show ?thesis by (cases "sid' = sid") (auto simp: spec_endSession_def spec_upd_def end_with_def)
next
  case (OpLogin sid' s uid meta)
  with assms show ?thesis by (simp add: spec_activate_def spec_set_other)
qed

section \<open>The contract of an engine\<close>

locale session_backend =
  fixes view :: "'t \<Rightarrow> abs_store"
    and invar :: "'t \<Rightarrow> bool"
    and get_op :: "store_cfg \<Rightarrow> int \<Rightarrow> int \<Rightarrow> sid \<Rightarrow> 't \<Rightarrow> sess option \<times> 't"
    and set_op :: "store_cfg \<Rightarrow> int \<Rightarrow> int \<Rightarrow> sid \<Rightarrow> sess \<Rightarrow> 't \<Rightarrow> 't"
    and touch_op :: "store_cfg \<Rightarrow> int \<Rightarrow> int \<Rightarrow> sid \<Rightarrow> sess \<Rightarrow> 't \<Rightarrow> 't"
    and destroy_op :: "int \<Rightarrow> int \<Rightarrow> sid \<Rightarrow> 't \<Rightarrow> 't"
    and activate_op :: "store_cfg \<Rightarrow> int \<Rightarrow> int \<Rightarrow> sid \<Rightarrow> session_meta \<Rightarrow> 't
          \<Rightarrow> store_error + (replaced_row list \<times> 't)"
    and end_op :: "int \<Rightarrow> int \<Rightarrow> sid \<Rightarrow> string \<Rightarrow> 't \<Rightarrow> 't"
    and cleanup_op :: "store_cfg \<Rightarrow> int \<Rightarrow> int \<Rightarrow> 't \<Rightarrow> 't"
  assumes get_view: "invar t \<Longrightarrow> fst (get_op cfg now db sid t) = fst (spec_get cfg now sid (view t))
        \<and> view (snd (get_op cfg now db sid t)) = snd (spec_get cfg now sid (view t))"
    and set_view: "invar t \<Longrightarrow> view (set_op cfg now db sid s t) = spec_set cfg now sid s (view t)"
    and touch_view: "invar t \<Longrightarrow> view (touch_op cfg now db sid s t) = spec_touch cfg now sid s (view t)"
    and destroy_view: "invar t \<Longrightarrow> view (destroy_op now db sid t) = spec_destroy sid (view t)"
    and activate_view: "invar t \<Longrightarrow> m_userId meta = Some uid \<Longrightarrow>
          \<exists>rs t'. activate_op cfg now db sid meta t = Inr (rs, t') \<and> invar t'
            \<and> view t' = spec_activate cfg now sid uid meta (view t)"
    and end_view: "invar t \<Longrightarrow> view (end_op now db sid reason t) = spec_endSession sid reason (view t)"
    and cleanup_view: "invar t \<Longrightarrow> view (cleanup_op cfg now now t) = spec_cleanup cfg now (view t)"
    and get_invar: "invar t \<Longrightarrow> invar (snd (get_op cfg now db sid t))"
    and set_invar: "invar t \<Longrightarrow> invar (set_op cfg now db sid s t)"
    and touch_invar: "invar t \<Longrightarrow> invar (touch_op cfg now db sid s t)"
    and destroy_invar: "invar t \<Longrightarrow> invar (destroy_op now db sid t)"
    and end_invar: "invar t \<Longrightarrow> invar (end_op now db sid reason t)"
    and cleanup_invar: "invar t \<Longrightarrow> invar (cleanup_op cfg now db t)"
begin

lemma get_live:
  assumes "invar t" and "fst (get_op cfg now db sid t) = Some s"
  shows "\<exists>a. view t sid = Some a \<and> a_data a = s \<and> spec_expired cfg a now = None"
proof (cases "view t sid")
  case None
  with assms get_view [of t cfg now db sid] show ?thesis by (simp add: spec_get_def)
next
  case (Some a)
  with assms get_view [of t cfg now db sid] show ?thesis
    by (cases "spec_expired cfg a now") (simp_all add: spec_get_def)
qed

lemma get_expired_ends:
  assumes "invar t" and "fst (get_op cfg now db sid t) = None"
  shows "dead_at sid (view (snd (get_op cfg now db sid t)))"
proof (cases "view t sid")
  case None
  with assms get_view [of t cfg now db sid] show ?thesis by (simp add: spec_get_def dead_at_def)
next
  case (Some a)
  with assms get_view [of t cfg now db sid] show ?thesis
    by (cases "spec_expired cfg a now")
       (simp_all add: spec_get_def dead_at_def spec_upd_def end_with_def)
qed

lemma get_ended:
  assumes "invar t" and "dead_at sid (view t)"
  shows "fst (get_op cfg now db sid t) = None"
  using assms get_view [of t cfg now db sid]
  by (cases "view t sid") (simp_all add: spec_get_def dead_at_def spec_expired_def)

lemma end_then_get:
  "invar t \<Longrightarrow> fst (get_op cfg now' db' sid (end_op now db sid reason t)) = None"
  by (rule get_ended) (auto simp: end_invar end_view dead_at_def spec_endSession_def spec_upd_def end_with_def)

lemma destroy_then_get:
  "invar t \<Longrightarrow> fst (get_op cfg now' db' sid (destroy_op now db sid t)) = None"
  by (rule get_ended) (auto simp: destroy_invar destroy_view dead_at_def spec_destroy_def spec_upd_def)

lemma login_sole:
  assumes inv: "invar t" and uid: "m_userId meta = Some uid"
    and act: "activate_op cfg now db sid meta (set_op cfg now db sid s t) = Inr (rs, t')"
    and k: "view t' k = Some a" "a_live a" "a_owner a = Some uid"
  shows "k = sid"
  using activate_view [OF set_invar [OF inv, of cfg now db sid s] uid, of cfg now db sid] act k
  by (auto dest: activate_sole_live)

lemma login_live:
  assumes inv: "invar t" and uid: "m_userId meta = Some uid"
    and act: "activate_op cfg now db sid meta (set_op cfg now db sid s t) = Inr (rs, t')"
  shows "\<exists>a. view t' sid = Some a \<and> a_live a \<and> a_owner a = Some uid \<and> a_data a = s"
  using activate_view [OF set_invar [OF inv, of cfg now db sid s] uid, of cfg now db sid] act
  by (auto simp: spec_activate_def set_view [OF inv] spec_set_def split: option.splits)

end

section \<open>The two engines implement the contract\<close>

definition sqlite_ok :: "sqlite_sessions \<Rightarrow> bool" where
  "sqlite_ok t = (tbl_ok t \<and> (\<forall>k r. map_of t k = Some r \<longrightarrow> is_active r = 0 \<or> is_active r = 1))"

abbreviation sqlite_view :: "sqlite_sessions \<Rightarrow> abs_store" where
  "sqlite_view \<equiv> abs_table sqlite_active"

abbreviation pg_view :: "pg_sessions \<Rightarrow> abs_store" where
  "pg_view \<equiv> abs_table pg_active"

lemma rowExpired_spec:
  "rowExpired active cfg (Some r) now = spec_expired cfg (abs_row active r) now"
  by (auto simp: rowExpired_def spec_expired_def abs_row_def num_or_def Let_def split: option.splits)

lemma abs_table_app: "abs_table active t k = map_option (abs_row active) (map_of t k)"
  by (simp add: abs_table_def)

lemmas view_simps = abs_table_app map_of_tbl_update map_of_tbl_upsert abs_row_def

lemma sqlite_okD: "sqlite_ok t \<Longrightarrow> map_of t k = Some r \<Longrightarrow> is_active r = 0 \<or> is_active r = 1"
  unfolding sqlite_ok_def by blast

lemma sqlite_ok_update:
  assumes "sqlite_ok t" and "\<And>k r. is_active r = 0 \<or> is_active r = 1 \<Longrightarrow> p k r \<Longrightarrow> is_active (f r) = 0 \<or> is_active (f r) = 1"
  shows "sqlite_ok (tbl_update p f t)"
  unfolding sqlite_ok_def
proof (intro conjI allI impI)
  show "tbl_ok (tbl_update p f t)" using assms(1) by (simp add: sqlite_ok_def)
  fix k r assume "map_of (tbl_update p f t) k = Some r"
  then obtain r0 where "map_of t k = Some r0" "r = (if p k r0 then f r0 else r0)"
    by (auto simp: map_of_tbl_update)
  with assms sqlite_okD [OF assms(1)] show "is_active r = 0 \<or> is_active r = 1" by metis
qed

lemma sqlite_ok_upsert:
  assumes "sqlite_ok t" and "is_active new = 0 \<or> is_active new = 1"
    and "\<And>r. is_active (merge r) = 0 \<or> is_active (merge r) = 1"
  shows "sqlite_ok (tbl_upsert k new merge t)"
  using assms by (auto simp: sqlite_ok_def tbl_ok_upsert map_of_tbl_upsert split: if_splits option.splits)

lemma sqlite_ok_delete: "sqlite_ok t \<Longrightarrow> sqlite_ok (tbl_delete p t)"
  by (auto simp: sqlite_ok_def tbl_ok_delete map_of_tbl_delete split: option.splits if_splits)

lemmas sqlite_ok_intros = sqlite_ok_update sqlite_ok_upsert sqlite_ok_delete

lemma sqlite_markEnded_ok: "sqlite_ok t \<Longrightarrow> sqlite_ok (sqlite_markEnded now db sid reason t)"
  unfolding sqlite_markEnded_def by (rule sqlite_ok_update) simp_all

lemma sqlite_markEnded_view:
  "sqlite_view (sqlite_markEnded now db sid reason t) = spec_upd sid (end_with reason) (sqlite_view t)"
  by (rule ext, rename_tac k, case_tac "map_of t k")
     (auto simp: sqlite_markEnded_def view_simps spec_upd_def end_with_def sqlite_active_def)

lemma pg_markEnded_view:
  "pg_view (pg_markEnded now db sid reason t) = spec_upd sid (end_with reason) (pg_view t)"
  by (rule ext, rename_tac k, case_tac "map_of t k")
     (auto simp: pg_markEnded_def view_simps spec_upd_def end_with_def pg_active_def)

lemma end_with_dead: "\<not> a_live a \<Longrightarrow> end_with reason a = a"
  by (simp add: end_with_def)

lemma spec_upd_dead: "m sid = Some a \<Longrightarrow> \<not> a_live a \<Longrightarrow> spec_upd sid (end_with reason) m = m"
  by (auto simp: spec_upd_def end_with_dead)

lemma spec_upd_comp: "spec_upd sid f (spec_upd sid g m) = spec_upd sid (f \<circ> g) m"
  by (simp add: spec_upd_def option.map_comp)

lemma abs_table_key_update:
  assumes "\<And>r. abs_row active (f r) = g (abs_row active r)"
  shows "abs_table active (tbl_update (\<lambda>k r. k = sid) f t) = spec_upd sid g (abs_table active t)"
  by (rule ext, rename_tac k, case_tac "map_of t k")
     (auto simp: spec_upd_def abs_table_app map_of_tbl_update assms)

interpretation sq: session_backend sqlite_view sqlite_ok sqlite_get sqlite_set sqlite_touch
  sqlite_destroy sqlite_activate sqlite_endSession sqlite_cleanup
proof (unfold_locales, goal_cases)
  case (1 t cfg now db sid)
  show ?case
  proof (cases "map_of t sid")
    case None
    then show ?thesis by (simp add: sqlite_get_def spec_get_def abs_table_app)
  next
    case (Some r)
    have v: "sqlite_view t sid = Some (abs_row sqlite_active r)" using Some by (simp add: abs_table_app)
    show ?thesis
      by (cases "spec_expired cfg (abs_row sqlite_active r) now"; cases "is_active r = 1")
         (auto simp: sqlite_get_def spec_get_def Some v rowExpired_spec sqlite_markEnded_view
            abs_row_def sqlite_active_def spec_upd_dead)
  qed
next
  case (2 t cfg now db sid s)
  show ?case
    by (rule ext, rename_tac k, case_tac "map_of t sid")
       (use sqlite_okD [OF 2] in \<open>auto simp: sqlite_set_def spec_set_def Let_def view_simps sqlite_active_def\<close>)
next
  case (3 t cfg now db sid s)
  show ?case
    by (rule ext, rename_tac k, case_tac "map_of t k")
       (auto simp: sqlite_touch_def spec_touch_def view_simps spec_upd_def sqlite_active_def)
next
  case (4 t now db sid)
  show ?case
    unfolding sqlite_destroy_def spec_destroy_def
    by (subst abs_table_key_update [where g = "\<lambda>a. a\<lparr>a_data := empty_sess,
          a_reason := coalesce (a_reason a) (Some DESTROYED)\<rparr>"])
       (auto simp: abs_row_def sqlite_markEnded_view spec_upd_comp end_with_def coalesce_def
          intro!: arg_cong [where f = "\<lambda>f. spec_upd sid f (sqlite_view t)"] split: option.splits)
next
  case (5 t meta uid cfg now db sid)
  then show ?case
    by (auto simp: sqlite_activate_def Let_def spec_activate_def view_simps sqlite_active_def
        option.map_comp o_def intro!: sqlite_ok_update option.map_cong ext)
next
  case (6 t now db sid reason)
  show ?case
    unfolding sqlite_endSession_def spec_endSession_def
    by (subst abs_table_key_update [where g = "\<lambda>a. a\<lparr>a_data := empty_sess\<rparr>"])
       (auto simp: abs_row_def sqlite_markEnded_view spec_upd_comp o_def)
next
  case (7 t cfg now)
  show ?case
    by (rule ext, rename_tac k, case_tac "map_of t k")
       (use 7 in \<open>auto simp: sqlite_cleanup_def spec_cleanup_def sqlite_ok_def view_simps map_of_tbl_delete
        stale_def abs_stale_def end_with_def sqlite_active_def\<close>)
next
  case (8 t cfg now db sid)
  then show ?case by (auto simp: sqlite_get_def sqlite_markEnded_ok split: option.splits)
next
  case (9 t cfg now db sid s)
  then show ?case by (auto simp: sqlite_set_def Let_def intro!: sqlite_ok_upsert split: if_splits)
next
  case (10 t cfg now db sid s)
  then show ?case by (auto simp: sqlite_touch_def intro!: sqlite_ok_update)
next
  case (11 t now db sid)
  then show ?case by (auto simp: sqlite_destroy_def intro!: sqlite_ok_update sqlite_markEnded_ok)
next
  case (12 t now db sid reason)
  then show ?case by (auto simp: sqlite_endSession_def intro!: sqlite_ok_update sqlite_markEnded_ok)
next
  case (13 t cfg now db)
  then show ?case by (auto simp: sqlite_cleanup_def intro!: sqlite_ok_update sqlite_ok_delete)
qed

interpretation pg: session_backend pg_view tbl_ok pg_get pg_set pg_touch
  pg_destroy pg_activate pg_endSession pg_cleanup
proof (unfold_locales, goal_cases)
  case (1 t cfg now db sid)
  show ?case
  proof (cases "map_of t sid")
    case None
    then show ?thesis by (simp add: pg_get_def spec_get_def abs_table_app)
  next
    case (Some r)
    have v: "pg_view t sid = Some (abs_row pg_active r)" using Some by (simp add: abs_table_app)
    show ?thesis
      by (cases "spec_expired cfg (abs_row pg_active r) now"; cases "is_active r")
         (auto simp: pg_get_def spec_get_def Some v rowExpired_spec pg_markEnded_view
            abs_row_def pg_active_def spec_upd_dead)
  qed
next
  case (2 t cfg now db sid s)
  show ?case
    by (rule ext, rename_tac k, case_tac "map_of t sid")
       (auto simp: pg_set_def spec_set_def Let_def view_simps pg_active_def)
next
  case (3 t cfg now db sid s)
  show ?case
    by (rule ext, rename_tac k, case_tac "map_of t k")
       (auto simp: pg_touch_def spec_touch_def view_simps spec_upd_def pg_active_def)
next
  case (4 t now db sid)
  show ?case
    unfolding pg_destroy_def spec_destroy_def
    by (subst abs_table_key_update [where g = "\<lambda>a. a\<lparr>a_data := empty_sess,
          a_reason := coalesce (a_reason a) (Some DESTROYED)\<rparr>"])
       (auto simp: abs_row_def pg_markEnded_view spec_upd_comp end_with_def coalesce_def
          intro!: arg_cong [where f = "\<lambda>f. spec_upd sid f (pg_view t)"] split: option.splits)
next
  case (5 t meta uid cfg now db sid)
  then show ?case
    by (auto simp: pg_activate_def Let_def spec_activate_def view_simps pg_active_def
        option.map_comp o_def intro!: option.map_cong ext)
next
  case (6 t now db sid reason)
  show ?case
    unfolding pg_endSession_def spec_endSession_def
    by (subst abs_table_key_update [where g = "\<lambda>a. a\<lparr>a_data := empty_sess\<rparr>"])
       (auto simp: abs_row_def pg_markEnded_view spec_upd_comp o_def)
next
  case (7 t cfg now)
  show ?case
    by (rule ext, rename_tac k, case_tac "map_of t k")
       (use 7 in \<open>auto simp: pg_cleanup_def spec_cleanup_def view_simps map_of_tbl_delete
        stale_def abs_stale_def end_with_def pg_active_def\<close>)
next
  case (8 t cfg now db sid)
  then show ?case by (auto simp: pg_get_def pg_markEnded_def split: option.splits)
next
  case (9 t cfg now db sid s)
  then show ?case by (simp add: pg_set_def Let_def tbl_ok_upsert)
next
  case (13 t cfg now db)
  then show ?case by (simp add: pg_cleanup_def tbl_ok_delete)
qed (simp_all add: pg_touch_def pg_destroy_def pg_endSession_def pg_markEnded_def)

end
