(* ===== verification/Panel_Session.thy ===== *)
theory Panel_Session
  imports Session_Spec
begin

text \<open>
  \<open>src/web-nodejs/services/panelSessionService.js\<close> and the session gate of
  \<open>src/web-nodejs/server.js\<close>: stamping an authenticated session, sliding its idle window,
  noting an address change, and the middleware that ends an expired session before a route
  runs.  The attached store is an argument (its \<open>set\<close>, \<open>activateExclusiveSession\<close>,
  \<open>endSession\<close> and \<open>destroy\<close>); \<open>sqlite_store\<close> and \<open>pg_store\<close> are the two instances.
\<close>

section \<open>The attached store\<close>

record 't store_ops =
  st_set :: "int \<Rightarrow> sid \<Rightarrow> sess \<Rightarrow> 't \<Rightarrow> 't"
  st_activate :: "int \<Rightarrow> sid \<Rightarrow> session_meta \<Rightarrow> 't \<Rightarrow> store_error + (replaced_row list \<times> 't)"
  st_end :: "int \<Rightarrow> sid \<Rightarrow> string \<Rightarrow> 't \<Rightarrow> 't"
  st_destroy :: "int \<Rightarrow> sid \<Rightarrow> 't \<Rightarrow> 't"

definition sqlite_store :: "store_cfg \<Rightarrow> sqlite_sessions store_ops" where
  "sqlite_store cfg = \<lparr>st_set = (\<lambda>now. sqlite_set cfg now now),
     st_activate = (\<lambda>now. sqlite_activate cfg now now),
     st_end = (\<lambda>now. sqlite_endSession now now), st_destroy = (\<lambda>now. sqlite_destroy now now)\<rparr>"

definition pg_store :: "store_cfg \<Rightarrow> pg_sessions store_ops" where
  "pg_store cfg = \<lparr>st_set = (\<lambda>now. pg_set cfg now now),
     st_activate = (\<lambda>now. pg_activate cfg now now),
     st_end = (\<lambda>now. pg_endSession now now), st_destroy = (\<lambda>now. pg_destroy now now)\<rparr>"

definition attachStore :: "store_cfg option \<Rightarrow> session_policy \<Rightarrow> session_env \<Rightarrow> session_policy" where
  "attachStore cfg policy env =
     (case cfg of
        None \<Rightarrow> policy
      | Some c \<Rightarrow> if st_idle c \<noteq> 0 \<and> st_maxAge c \<noteq> 0
          then \<lparr>idleTimeoutMs = st_idle c, maxAgeMs = st_maxAge c,
                warnBeforeMs = warnBeforeMs (resolveSessionPolicy env)\<rparr>
          else policy)"

section \<open>Requests\<close>

record http_req =
  rq_path :: string
  rq_ip :: string
  rq_remote :: string
  rq_user_agent :: string
  rq_accept :: string
  rq_fp_header :: string

record client_meta =
  cm_ip :: string
  cm_userAgent :: string
  cm_fingerprint :: string

fun first_truthy :: "string list \<Rightarrow> string" where
  "first_truthy [] = []"
| "first_truthy (s # ss) = (if s \<noteq> [] then s else first_truthy ss)"

definition clientMetaFromRequest :: "http_req \<Rightarrow> string \<Rightarrow> string \<Rightarrow> client_meta" where
  "clientMetaFromRequest req body_clientFingerprint body_fingerprint =
     \<lparr>cm_ip = sanitizeIp (first_truthy [rq_ip req, rq_remote req]),
      cm_userAgent = sanitizeUserAgent (rq_user_agent req),
      cm_fingerprint = sanitizeFingerprint
        (first_truthy [body_clientFingerprint, body_fingerprint, rq_fp_header req])\<rparr>"

section \<open>Establishing an authenticated session\<close>

text \<open>The optional \<open>extra\<close> fields that routes assign: a \<open>username\<close> and fields this service
  does not read.\<close>

record session_extra =
  ex_username :: "string option"
  ex_fields :: "(string \<times> string) list"

definition stamp_session ::
  "session_policy \<Rightarrow> int \<Rightarrow> session_user \<Rightarrow> client_meta \<Rightarrow> session_extra option \<Rightarrow> sess \<Rightarrow> sess" where
  "stamp_session pol now u meta extra s0 =
     (let s1 = s0\<lparr>userId := Some (su_id u),
                  sess_user := Some (u\<lparr>su_language := Option.bind (su_language u) null_if_empty\<rparr>),
                  createdAt := Some now, lastActivityAt := Some now, loginIp := cm_ip meta,
                  loginUserAgent := cm_userAgent meta, clientFingerprint := cm_fingerprint meta\<rparr>;
          s2 = (case extra of
                  None \<Rightarrow> s1
                | Some e \<Rightarrow> s1\<lparr>sess_username := coalesce (ex_username e) (sess_username s1),
                               sess_extra := ex_fields e @ sess_extra s1\<rparr>)
      in if has_cookie s2
         then s2\<lparr>cookie_expires := Some (now + min (idleTimeoutMs pol) (maxAgeMs pol))\<rparr>
         else s2)"

definition establishAuthenticatedSession ::
  "session_policy \<Rightarrow> 't store_ops option \<Rightarrow> int \<Rightarrow> sid \<Rightarrow> session_user \<Rightarrow> client_meta
     \<Rightarrow> session_extra option \<Rightarrow> sess \<Rightarrow> 't \<Rightarrow> store_error + (replaced_row list \<times> sess \<times> 't)" where
  "establishAuthenticatedSession pol store now sid u meta extra s0 t =
     (let s = stamp_session pol now u meta extra s0
      in case store of
           None \<Rightarrow> Inr ([], s, t)
         | Some ops \<Rightarrow>
             let t1 = st_set ops now sid s t
             in case st_activate ops now sid
                  \<lparr>m_userId = Some (su_id u), m_username = Some (su_username u), m_ip = cm_ip meta,
                   m_userAgent = cm_userAgent meta, m_fingerprint = cm_fingerprint meta,
                   m_createdAt = Some now, m_lastActivityAt = Some now\<rparr> t1 of
                  Inl e \<Rightarrow> Inl e
                | Inr (rs, t2) \<Rightarrow> Inr (rs, s, t2))"

definition endCurrentSession :: "'t store_ops option \<Rightarrow> int \<Rightarrow> sid \<Rightarrow> string \<Rightarrow> 't \<Rightarrow> 't" where
  "endCurrentSession store now sid reason t =
     (if sid = [] then t else case store of None \<Rightarrow> t | Some ops \<Rightarrow> st_end ops now sid reason t)"

section \<open>Activity\<close>

definition logged_in :: "sess \<Rightarrow> bool" where
  "logged_in s = (case userId s of None \<Rightarrow> False | Some n \<Rightarrow> n \<noteq> 0)"

text \<open>\<open>touchActivity\<close> gives \<^term>\<open>None\<close> for \<open>{ ok: true }\<close> and the reason otherwise, with the
  session object as it leaves it.\<close>

definition touchActivity :: "session_policy \<Rightarrow> int \<Rightarrow> sess \<Rightarrow> string option \<times> sess" where
  "touchActivity pol now s =
     (if \<not> logged_in s then (None, s)
      else
        let created = num_or (createdAt s) now;
            s1 = (if createdAt s = None \<or> createdAt s = Some 0 then s\<lparr>createdAt := Some created\<rparr> else s)
        in if now - created > maxAgeMs pol then (Some MAX_AGE, s1)
           else if now - num_or (lastActivityAt s1) created > idleTimeoutMs pol then (Some IDLE, s1)
           else
             let s2 = s1\<lparr>lastActivityAt := Some now\<rparr>
             in if has_cookie s2 then
                  let remainingAbsolute = created + maxAgeMs pol - now;
                      nextIdle = min (idleTimeoutMs pol) remainingAbsolute
                  in if nextIdle \<le> 0 then (Some MAX_AGE, s2)
                     else (None, s2\<lparr>cookie_expires := Some (now + nextIdle)\<rparr>)
                else (None, s2))"

record audit_entry =
  au_user :: int
  au_action :: string
  au_details :: string
  au_ip :: string

definition noteIpChange :: "http_req \<Rightarrow> sess \<Rightarrow> sess \<times> audit_entry option" where
  "noteIpChange req s =
     (if \<not> logged_in s \<or> loginIp s = [] then (s, None)
      else
        let currentIp = sanitizeIp (first_truthy [rq_ip req, rq_remote req])
        in if currentIp = [] \<or> currentIp = loginIp s then (s, None)
           else if lastSeenIp s = currentIp then (s, None)
           else
             let details = ''IP change during session: loginIp='' @ loginIp s @ '' currentIp='' @ currentIp
                   @ '' ua='' @ take 160 (sanitizeUserAgent (rq_user_agent req))
             in (s\<lparr>lastSeenIp := currentIp\<rparr>,
                 Some \<lparr>au_user = the (userId s), au_action = ''session_ip_change'',
                       au_details = details, au_ip = currentIp\<rparr>))"

section \<open>The session gate of the server\<close>

datatype gate_response =
    Next
  | Unauthorized401 string
  | RedirectLogin

definition wants_json :: "http_req \<Rightarrow> bool" where
  "wants_json req = (startsWith (rq_path req) ''/api/'' \<or> sublist ''application/json'' (rq_accept req))"

definition session_gate ::
  "session_policy \<Rightarrow> 't store_ops \<Rightarrow> int \<Rightarrow> http_req \<Rightarrow> sid \<Rightarrow> sess \<Rightarrow> 't
     \<Rightarrow> gate_response \<times> sess \<times> audit_entry list \<times> 't" where
  "session_gate pol store now req sid s t =
     (if \<not> logged_in s then (Next, s, [], t)
      else case touchActivity pol now s of
        (Some reason, s') \<Rightarrow>
          (if wants_json req
           then Unauthorized401 (if reason = ''idle'' then ''session_idle'' else ''session_expired'')
           else RedirectLogin,
           s',
           [\<lparr>au_user = the (userId s'), au_action = ''session_expired'',
             au_details = ''reason='' @ reason, au_ip = rq_ip req\<rparr>],
           st_destroy store now sid (endCurrentSession (Some store) now sid reason t))
      | (None, s') \<Rightarrow>
          (case noteIpChange req s' of
             (s'', None) \<Rightarrow> (Next, s'', [], t)
           | (s'', Some e) \<Rightarrow> (Next, s'', [e], t)))"

section \<open>The public view of a session row\<close>

record session_view =
  sv_id :: sid
  sv_current :: bool
  sv_username :: "string option"
  sv_ip :: "string option"
  sv_userAgent :: "string option"
  sv_fingerprint :: "string option"
  sv_createdAt :: "int option"
  sv_lastActivityAt :: "int option"
  sv_endedAt :: "int option"
  sv_endReason :: "string option"
  sv_active :: bool
  sv_expiresAt :: "int option"

definition or_null_num :: "int option \<Rightarrow> int option" where
  "or_null_num x = (case x of None \<Rightarrow> None | Some n \<Rightarrow> if n = 0 then None else Some n)"

text \<open>\<open>dates\<close> says that the driver returns \<open>expires_at\<close> as a \<open>Date\<close> (PostgreSQL), which is
  truthy at every time; SQLite returns the number.\<close>

definition publicSessionView :: "bool \<Rightarrow> ('b \<Rightarrow> bool) \<Rightarrow> sid \<Rightarrow> (sid \<times> 'b panel_row) \<Rightarrow> session_view" where
  "publicSessionView dates active currentSid kr = (case kr of (k, r) \<Rightarrow>
     \<lparr>sv_id = k, sv_current = (k = currentSid),
      sv_username = Option.bind (username r) null_if_empty,
      sv_ip = Option.bind (ip_address r) null_if_empty,
      sv_userAgent = Option.bind (user_agent r) null_if_empty,
      sv_fingerprint = Option.bind (client_fingerprint r) null_if_empty,
      sv_createdAt = or_null_num (created_at r), sv_lastActivityAt = or_null_num (last_activity_at r),
      sv_endedAt = or_null_num (ended_at r), sv_endReason = Option.bind (end_reason r) null_if_empty,
      sv_active = active (is_active r), sv_expiresAt = (if dates then Some (expires_at r) else or_null_num (Some (expires_at r)))\<rparr>)"

definition listSessionsForUser ::
  "bool \<Rightarrow> ('b \<Rightarrow> bool) \<Rightarrow> (sid, 'b panel_row) table option \<Rightarrow> int \<Rightarrow> sid \<Rightarrow> bool \<Rightarrow> int option \<Rightarrow> session_view list" where
  "listSessionsForUser dates active store uid currentSid includeEnded limit =
     (case store of
        None \<Rightarrow> []
      | Some t \<Rightarrow> map (publicSessionView dates active currentSid) (listUserSessions active uid includeEnded limit t))"

end
