(* ===== verification/Session_Runs.thy ===== *)
theory Session_Runs
  imports Panel_Session
begin

text \<open>
  Sequences of session operations on the two engines, and the properties of the session
  subsystem: one active session per account, ended sessions stay ended, expiry, agreement of
  the engines, the sliding window of \<open>touchActivity\<close> and the session gate.
\<close>

section \<open>Runs\<close>

fun sqlite_op :: "store_cfg \<Rightarrow> int \<Rightarrow> session_op \<Rightarrow> sqlite_sessions \<Rightarrow> sqlite_sessions" where
  "sqlite_op cfg now (OpGet sid) t = snd (sqlite_get cfg now now sid t)"
| "sqlite_op cfg now (OpSave sid s) t = sqlite_set cfg now now sid s t"
| "sqlite_op cfg now (OpTouch sid s) t = sqlite_touch cfg now now sid s t"
| "sqlite_op cfg now (OpDestroy sid) t = sqlite_destroy now now sid t"
| "sqlite_op cfg now (OpEnd sid reason) t = sqlite_endSession now now sid reason t"
| "sqlite_op cfg now (OpLogin sid s uid meta) t =
     (case sqlite_activate cfg now now sid (meta\<lparr>m_userId := Some uid\<rparr>) (sqlite_set cfg now now sid s t) of
        Inl e \<Rightarrow> t | Inr (rs, t') \<Rightarrow> t')"
| "sqlite_op cfg now OpCleanup t = sqlite_cleanup cfg now now t"

fun pg_op :: "store_cfg \<Rightarrow> int \<Rightarrow> session_op \<Rightarrow> pg_sessions \<Rightarrow> pg_sessions" where
  "pg_op cfg now (OpGet sid) t = snd (pg_get cfg now now sid t)"
| "pg_op cfg now (OpSave sid s) t = pg_set cfg now now sid s t"
| "pg_op cfg now (OpTouch sid s) t = pg_touch cfg now now sid s t"
| "pg_op cfg now (OpDestroy sid) t = pg_destroy now now sid t"
| "pg_op cfg now (OpEnd sid reason) t = pg_endSession now now sid reason t"
| "pg_op cfg now (OpLogin sid s uid meta) t =
     (case pg_activate cfg now now sid (meta\<lparr>m_userId := Some uid\<rparr>) (pg_set cfg now now sid s t) of
        Inl e \<Rightarrow> t | Inr (rs, t') \<Rightarrow> t')"
| "pg_op cfg now OpCleanup t = pg_cleanup cfg now now t"

fun sqlite_run :: "store_cfg \<Rightarrow> (int \<times> session_op) list \<Rightarrow> sqlite_sessions \<Rightarrow> sqlite_sessions" where
  "sqlite_run cfg [] t = t"
| "sqlite_run cfg ((now, op) # ops) t = sqlite_run cfg ops (sqlite_op cfg now op t)"

fun pg_run :: "store_cfg \<Rightarrow> (int \<times> session_op) list \<Rightarrow> pg_sessions \<Rightarrow> pg_sessions" where
  "pg_run cfg [] t = t"
| "pg_run cfg ((now, op) # ops) t = pg_run cfg ops (pg_op cfg now op t)"

fun spec_run :: "store_cfg \<Rightarrow> (int \<times> session_op) list \<Rightarrow> abs_store \<Rightarrow> abs_store" where
  "spec_run cfg [] m = m"
| "spec_run cfg ((now, op) # ops) m = spec_run cfg ops (spec_op cfg now op m)"

text \<open>A save outside a login carries the session object that was loaded for its own row: it
  names no account or the account of the row.\<close>

fun op_allowed :: "session_op \<Rightarrow> (sid, 'b panel_row) table \<Rightarrow> bool" where
  "op_allowed (OpSave sid s) t =
     (userId s = None \<or> (case map_of t sid of None \<Rightarrow> False | Some r \<Rightarrow> user_id r = userId s))"
| "op_allowed _ t = True"

fun sqlite_run_ok :: "store_cfg \<Rightarrow> (int \<times> session_op) list \<Rightarrow> sqlite_sessions \<Rightarrow> bool" where
  "sqlite_run_ok cfg [] t = True"
| "sqlite_run_ok cfg ((now, op) # ops) t =
     (op_allowed op t \<and> sqlite_run_ok cfg ops (sqlite_op cfg now op t))"

fun pg_run_ok :: "store_cfg \<Rightarrow> (int \<times> session_op) list \<Rightarrow> pg_sessions \<Rightarrow> bool" where
  "pg_run_ok cfg [] t = True"
| "pg_run_ok cfg ((now, op) # ops) t = (op_allowed op t \<and> pg_run_ok cfg ops (pg_op cfg now op t))"

lemma spec_activate_uid: "spec_activate cfg now sid uid (meta\<lparr>m_userId := x\<rparr>) m = spec_activate cfg now sid uid meta m"
  by (simp add: spec_activate_def cong: if_cong)

lemma sqlite_op_refines:
  assumes "sqlite_ok t"
  shows "sqlite_view (sqlite_op cfg now op t) = spec_op cfg now op (sqlite_view t)"
    and "sqlite_ok (sqlite_op cfg now op t)"
proof (atomize (full), cases op)
  case (OpLogin sid s uid meta)
  let ?meta = "meta\<lparr>m_userId := Some uid\<rparr>"
  let ?t1 = "sqlite_set cfg now now sid s t"
  have "\<exists>rs t'. sqlite_activate cfg now now sid ?meta ?t1 = Inr (rs, t') \<and> sqlite_ok t'
      \<and> sqlite_view t' = spec_activate cfg now sid uid ?meta (sqlite_view ?t1)"
    by (rule sq.activate_view [OF sq.set_invar [OF assms]]) simp
  then obtain rs t' where "sqlite_activate cfg now now sid ?meta ?t1 = Inr (rs, t')" "sqlite_ok t'"
      "sqlite_view t' = spec_activate cfg now sid uid ?meta (sqlite_view ?t1)"
    by blast
  then show "sqlite_view (sqlite_op cfg now op t) = spec_op cfg now op (sqlite_view t) \<and> sqlite_ok (sqlite_op cfg now op t)"
    by (simp add: OpLogin spec_activate_uid sq.set_view [OF assms])
qed (use assms sq.get_view in \<open>simp_all add: sq.set_view sq.touch_view sq.destroy_view sq.end_view
       sq.cleanup_view sq.get_invar sq.set_invar sq.touch_invar sq.destroy_invar sq.end_invar sq.cleanup_invar\<close>)

lemma pg_op_refines:
  assumes "tbl_ok t"
  shows "pg_view (pg_op cfg now op t) = spec_op cfg now op (pg_view t)"
    and "tbl_ok (pg_op cfg now op t)"
proof (atomize (full), cases op)
  case (OpLogin sid s uid meta)
  let ?meta = "meta\<lparr>m_userId := Some uid\<rparr>"
  let ?t1 = "pg_set cfg now now sid s t"
  have "\<exists>rs t'. pg_activate cfg now now sid ?meta ?t1 = Inr (rs, t') \<and> tbl_ok t'
      \<and> pg_view t' = spec_activate cfg now sid uid ?meta (pg_view ?t1)"
    by (rule pg.activate_view [OF pg.set_invar [OF assms]]) simp
  then obtain rs t' where "pg_activate cfg now now sid ?meta ?t1 = Inr (rs, t')" "tbl_ok t'"
      "pg_view t' = spec_activate cfg now sid uid ?meta (pg_view ?t1)"
    by blast
  then show "pg_view (pg_op cfg now op t) = spec_op cfg now op (pg_view t) \<and> tbl_ok (pg_op cfg now op t)"
    by (simp add: OpLogin spec_activate_uid pg.set_view [OF assms])
qed (use assms pg.get_view in \<open>simp_all add: pg.set_view pg.touch_view pg.destroy_view pg.end_view
       pg.cleanup_view pg.get_invar pg.set_invar pg.touch_invar pg.destroy_invar pg.end_invar pg.cleanup_invar\<close>)

lemma sqlite_run_refines:
  "sqlite_ok t \<Longrightarrow> sqlite_view (sqlite_run cfg ops t) = spec_run cfg ops (sqlite_view t) \<and> sqlite_ok (sqlite_run cfg ops t)"
  by (induction cfg ops t rule: sqlite_run.induct) (simp_all add: sqlite_op_refines)

lemma pg_run_refines:
  "tbl_ok t \<Longrightarrow> pg_view (pg_run cfg ops t) = spec_run cfg ops (pg_view t) \<and> tbl_ok (pg_run cfg ops t)"
  by (induction cfg ops t rule: pg_run.induct) (simp_all add: pg_op_refines)

lemma op_allowed_ok: "op_allowed op t \<Longrightarrow> op_ok op (abs_table active t)"
  by (cases op) (auto simp: save_ok_def abs_table_app abs_row_def split: option.splits)

lemma sqlite_run_exclusive:
  "sqlite_ok t \<Longrightarrow> exclusive (sqlite_view t) \<Longrightarrow> sqlite_run_ok cfg ops t
   \<Longrightarrow> exclusive (sqlite_view (sqlite_run cfg ops t))"
  by (induction cfg ops t rule: sqlite_run.induct)
     (simp_all add: sqlite_op_refines spec_op_exclusive op_allowed_ok)

lemma pg_run_exclusive:
  "tbl_ok t \<Longrightarrow> exclusive (pg_view t) \<Longrightarrow> pg_run_ok cfg ops t \<Longrightarrow> exclusive (pg_view (pg_run cfg ops t))"
  by (induction cfg ops t rule: pg_run.induct)
     (simp_all add: pg_op_refines spec_op_exclusive op_allowed_ok)

lemma empty_ok [simp]: "sqlite_ok []" "exclusive (abs_table active [])"
  by (simp_all add: sqlite_ok_def exclusive_def abs_table_app)

lemma all_eq_length:
  assumes "distinct (map fst xs)" and "\<And>x y. x \<in> set xs \<Longrightarrow> y \<in> set xs \<Longrightarrow> fst x = fst y"
  shows "length xs \<le> 1"
proof (cases xs)
  case (Cons x ys)
  show ?thesis
  proof (cases ys)
    case (Cons y zs)
    with \<open>xs = x # ys\<close> assms(1) assms(2) [of x y] show ?thesis by simp
  qed (simp add: Cons)
qed simp

lemma exclusive_count:
  assumes ok: "tbl_ok t" and ex: "exclusive (abs_table active t)"
  shows "length (filter (\<lambda>(k, r). active (is_active r) \<and> user_id r = Some u) t) \<le> 1"
proof (rule all_eq_length)
  show "distinct (map fst (filter (\<lambda>(k, r). active (is_active r) \<and> user_id r = Some u) t))"
    using ok by (simp add: tbl_ok_def distinct_map_filter)
  fix x y
  assume x: "x \<in> set (filter (\<lambda>(k, r). active (is_active r) \<and> user_id r = Some u) t)"
    and y: "y \<in> set (filter (\<lambda>(k, r). active (is_active r) \<and> user_id r = Some u) t)"
  have "map_of t (fst z) = Some (snd z)" if "z \<in> set t" for z
    using ok that by (simp add: tbl_ok_def)
  with x y have "abs_table active t (fst x) = Some (abs_row active (snd x))"
      "abs_table active t (fst y) = Some (abs_row active (snd y))"
    by (auto simp: abs_table_app)
  with ex x y show "fst x = fst y"
    by (auto simp: abs_row_def dest: exclusiveD)
qed

lemma spec_run_dead:
  assumes "m sid = Some a" "\<not> a_live a" "a_owner a \<noteq> None" "list_all (\<lambda>(now, op). \<not> revives sid op) ops"
  shows "\<exists>a'. spec_run cfg ops m sid = Some a' \<and> \<not> a_live a' \<and> a_owner a' \<noteq> None"
  using assms
proof (induction cfg ops m arbitrary: a rule: spec_run.induct)
  case (1 cfg m)
  then show ?case by auto
next
  case (2 cfg now op ops m)
  from spec_op_dead [of m sid a op cfg now, OF "2.prems"(1-3)] "2.prems"(4)
  obtain a' where "spec_op cfg now op m sid = Some a'" "\<not> a_live a'" "a_owner a' \<noteq> None" by auto
  with "2.IH" "2.prems"(4) show ?case by simp
qed

lemma spec_op_keeps:
  assumes "m sid = Some a" "a_owner a \<noteq> None"
  shows "\<exists>a'. spec_op cfg now op m sid = Some a' \<and> a_owner a' \<noteq> None"
proof (cases op)
  case (OpGet sid')
  with assms show ?thesis
    by (cases "m sid'") (auto simp: spec_get_def spec_upd_def end_with_def split: option.splits if_splits)
next
  case (OpSave sid' s)
  with assms show ?thesis by (cases "sid' = sid"; cases "userId s") (auto simp: spec_set_def)
next
  case (OpTouch sid' s)
  with assms show ?thesis by (cases "sid' = sid") (auto simp: spec_touch_def spec_upd_def)
next
  case (OpDestroy sid')
  with assms show ?thesis by (cases "sid' = sid") (auto simp: spec_destroy_def spec_upd_def)
next
  case (OpEnd sid' reason)
  with assms show ?thesis by (cases "sid' = sid") (auto simp: spec_endSession_def spec_upd_def end_with_def)
next
  case (OpLogin sid' s uid meta)
  with assms show ?thesis by (cases "sid' = sid") (auto simp: spec_activate_def spec_set_def)
next
  case OpCleanup
  with assms show ?thesis by (auto simp: spec_cleanup_def end_with_def)
qed

lemma spec_run_keeps:
  assumes "m sid = Some a" "a_owner a \<noteq> None"
  shows "\<exists>a'. spec_run cfg ops m sid = Some a' \<and> a_owner a' \<noteq> None"
  using assms
proof (induction cfg ops m arbitrary: a rule: spec_run.induct)
  case (2 cfg now op ops m)
  from spec_op_keeps [of m sid a, OF "2.prems"] obtain a' where
    "spec_op cfg now op m sid = Some a'" "a_owner a' \<noteq> None" by metis
  with "2.IH" show ?case by simp
qed auto


section \<open>Properties\<close>

text \<open>C1: one active session per account on SQLite.  Whatever operations run on an empty store
  (look-ups, saves of loaded sessions, touches, logouts, logins, clean-ups, in any order and at
  any times), no account has more than one active row.\<close>

theorem sqlite_single_session:
  assumes "sqlite_run_ok cfg ops []"
  shows "length (filter (\<lambda>(k, r). is_active r = 1 \<and> user_id r = Some u) (sqlite_run cfg ops [])) \<le> 1"
proof -
  have "exclusive (sqlite_view (sqlite_run cfg ops []))"
    by (rule sqlite_run_exclusive) (simp_all add: assms)
  moreover have "tbl_ok (sqlite_run cfg ops [])"
    using sqlite_run_refines [of "[]" cfg ops] by (simp add: sqlite_ok_def)
  ultimately show ?thesis
    using exclusive_count [of "sqlite_run cfg ops []" sqlite_active u] by (simp add: sqlite_active_def)
qed

definition demo_cfg :: store_cfg where
  "demo_cfg = \<lparr>st_idle = 1800000, st_maxAge = 86400000\<rparr>"

definition demo_meta :: session_meta where
  "demo_meta = \<lparr>m_userId = None, m_username = Some ''ann'', m_ip = ''10.0.0.5'', m_userAgent = ''ff'',
     m_fingerprint = [], m_createdAt = None, m_lastActivityAt = None\<rparr>"

definition demo_ops :: "(int \<times> session_op) list" where
  "demo_ops = [(1000, OpLogin ''a'' empty_sess 7 demo_meta), (2000, OpTouch ''a'' empty_sess),
     (3000, OpLogin ''b'' empty_sess 7 demo_meta), (4000, OpSave ''a'' empty_sess), (5000, OpGet ''a'')]"

theorem sqlite_single_session_witness:
  "sqlite_run_ok demo_cfg demo_ops [] \<and>
   length (filter (\<lambda>(k, r). is_active r = 1 \<and> user_id r = Some 7) (sqlite_run demo_cfg demo_ops [])) \<le> 1"
proof -
  have h: "sqlite_run_ok demo_cfg demo_ops []" by code_simp
  show ?thesis using h sqlite_single_session [OF h, of 7] by simp
qed

text \<open>one active session per account on PostgreSQL.\<close>

theorem pg_single_session:
  assumes "pg_run_ok cfg ops []"
  shows "length (filter (\<lambda>(k, r). is_active r \<and> user_id r = Some u) (pg_run cfg ops [])) \<le> 1"
proof -
  have "exclusive (pg_view (pg_run cfg ops []))"
    by (rule pg_run_exclusive) (simp_all add: assms)
  moreover have "tbl_ok (pg_run cfg ops [])"
    using pg_run_refines [of "[]" cfg ops] by simp
  ultimately show ?thesis
    using exclusive_count [of "pg_run cfg ops []" pg_active u] by (simp add: pg_active_def)
qed

theorem pg_single_session_witness:
  "pg_run_ok demo_cfg demo_ops [] \<and>
   length (filter (\<lambda>(k, r). is_active r \<and> user_id r = Some 7) (pg_run demo_cfg demo_ops [])) \<le> 1"
proof -
  have h: "pg_run_ok demo_cfg demo_ops []" by code_simp
  show ?thesis using h pg_single_session [OF h, of 7] by simp
qed

text \<open>C2: the two engines are interchangeable.  After the same operations from an empty store,
  a look-up of any session id at any time gives the same answer on SQLite and on PostgreSQL.\<close>

theorem backends_agree:
  "fst (sqlite_get cfg now db sid (sqlite_run cfg ops [])) = fst (pg_get cfg now db' sid (pg_run cfg ops []))"
proof -
  have s: "sqlite_ok (sqlite_run cfg ops [])" "sqlite_view (sqlite_run cfg ops []) = spec_run cfg ops (sqlite_view [])"
    using sqlite_run_refines [of "[]" cfg ops] by simp_all
  have p: "tbl_ok (pg_run cfg ops [])" "pg_view (pg_run cfg ops []) = spec_run cfg ops (pg_view [])"
    using pg_run_refines [of "[]" cfg ops] by simp_all
  have "sqlite_view [] = pg_view []" by (rule ext) (simp add: abs_table_app)
  with s p sq.get_view [OF s(1), of cfg now db sid] pg.get_view [OF p(1), of cfg now db' sid]
  show ?thesis by simp
qed

text \<open>an ended session never comes back.  Once the row of an account's session is inactive,
  a look-up finds nothing after any further operations, late saves and touches of the same session
  included; only a new login on the same id could revive it.\<close>

theorem ended_session_stays_ended:
  assumes "sqlite_ok t" and "map_of t sid = Some r" and "is_active r = 0" and "user_id r = Some u"
    and "list_all (\<lambda>(now, op). \<not> revives sid op) ops"
  shows "fst (sqlite_get cfg now db sid (sqlite_run cfg ops t)) = None"
proof -
  have "sqlite_view t sid = Some (abs_row sqlite_active r)"
    using assms(2) by (simp add: abs_table_app)
  moreover have "\<not> a_live (abs_row sqlite_active r)" "a_owner (abs_row sqlite_active r) \<noteq> None"
    using assms(3,4) by (simp_all add: abs_row_def sqlite_active_def)
  ultimately obtain a where "spec_run cfg ops (sqlite_view t) sid = Some a" "\<not> a_live a"
    using spec_run_dead assms(5) by blast
  with sqlite_run_refines [OF assms(1), of cfg ops]
  have "dead_at sid (sqlite_view (sqlite_run cfg ops t))" "sqlite_ok (sqlite_run cfg ops t)"
    by (simp_all add: dead_at_def)
  then show ?thesis by (simp add: sq.get_ended)
qed

definition demo_dead_row :: "int panel_row" where
  "demo_dead_row = \<lparr>session_json = empty_sess, expires_at = 9000000, updated_at = 0, user_id = Some 7,
     username = None, ip_address = None, user_agent = None, client_fingerprint = None,
     created_at = Some 1000, last_activity_at = Some 1000, ended_at = Some 2000,
     end_reason = Some ''logout'', is_active = 0\<rparr>"

theorem ended_session_stays_ended_witness:
  "fst (sqlite_get demo_cfg 5000 5000 ''a''
     (sqlite_run demo_cfg [(3000, OpSave ''a'' empty_sess), (4000, OpTouch ''a'' empty_sess)]
        [(''a'', demo_dead_row)])) = None"
  by (rule ended_session_stays_ended [where r = demo_dead_row and u = 7])
     (auto simp: sqlite_ok_def tbl_ok_def demo_dead_row_def)

text \<open>a look-up returns only live, unexpired sessions.  A session is handed to a request only
  if its row is active, its stored expiry is in the future, it is not older than the absolute
  lifetime and its last activity is within the idle window.\<close>

theorem sqlite_get_fresh:
  assumes "sqlite_ok t" and "fst (sqlite_get cfg now db sid t) = Some s"
  shows "\<exists>r. map_of t sid = Some r \<and> session_json r = s \<and> is_active r = 1 \<and> now < expires_at r
     \<and> (num_or (created_at r) 0 = 0 \<or> now - num_or (created_at r) 0 \<le> st_maxAge cfg)
     \<and> (num_or (last_activity_at r) 0 = 0 \<or> now - num_or (last_activity_at r) 0 \<le> st_idle cfg)"
proof -
  obtain r where r: "map_of t sid = Some r" "session_json r = s"
      "spec_expired cfg (abs_row sqlite_active r) now = None"
    using sq.get_live [OF assms] by (auto simp: abs_table_app abs_row_def)
  then show ?thesis
    by (auto simp: spec_expired_def abs_row_def sqlite_active_def num_or_def
        split: if_splits option.splits)
qed

theorem sqlite_get_fresh_witness:
  "\<exists>r. map_of (sqlite_run demo_cfg demo_ops []) ''b'' = Some r \<and> session_json r = empty_sess \<and> is_active r = 1
     \<and> 6000 < expires_at r
     \<and> (num_or (created_at r) 0 = 0 \<or> 6000 - num_or (created_at r) 0 \<le> st_maxAge demo_cfg)
     \<and> (num_or (last_activity_at r) 0 = 0 \<or> 6000 - num_or (last_activity_at r) 0 \<le> st_idle demo_cfg)"
proof (rule sqlite_get_fresh)
  show "sqlite_ok (sqlite_run demo_cfg demo_ops [])"
    using sqlite_run_refines [of "[]" demo_cfg demo_ops] by simp
  show "fst (sqlite_get demo_cfg 6000 6000 ''b'' (sqlite_run demo_cfg demo_ops [])) = Some empty_sess"
    by code_simp
qed


text \<open>session history is kept.  Rows that belong to an account are never deleted: whatever
  operations follow, clean-up included, the row is still there and still belongs to an account.\<close>

theorem authenticated_rows_kept:
  assumes "sqlite_ok t" and "map_of t sid = Some r" and "user_id r = Some u"
  shows "\<exists>r'. map_of (sqlite_run cfg ops t) sid = Some r' \<and> user_id r' \<noteq> None"
proof -
  have "sqlite_view t sid = Some (abs_row sqlite_active r)" "a_owner (abs_row sqlite_active r) \<noteq> None"
    using assms(2,3) by (simp_all add: abs_table_app abs_row_def)
  then obtain a where "spec_run cfg ops (sqlite_view t) sid = Some a" "a_owner a \<noteq> None"
    using spec_run_keeps by blast
  with sqlite_run_refines [OF assms(1), of cfg ops] have
    "sqlite_view (sqlite_run cfg ops t) sid = Some a" "a_owner a \<noteq> None" by simp_all
  then show ?thesis by (auto simp: abs_table_app abs_row_def)
qed

theorem authenticated_rows_kept_witness:
  "\<exists>r'. map_of (sqlite_run demo_cfg [(99999999999, OpCleanup), (99999999999, OpDestroy ''a'')]
     [(''a'', demo_dead_row)]) ''a'' = Some r' \<and> user_id r' \<noteq> None"
  by (rule authenticated_rows_kept [where r = demo_dead_row and u = 7])
     (auto simp: sqlite_ok_def tbl_ok_def demo_dead_row_def)

text \<open>The window that one accepted request leaves.\<close>

lemma touchActivity_ok:
  assumes "logged_in s" and "touchActivity pol now s = (None, s')"
  shows "createdAt s' = Some (num_or (createdAt s) now)" and "lastActivityAt s' = Some now"
    and "logged_in s'" and "has_cookie s' = has_cookie s"
    and "now \<le> num_or (createdAt s) now + maxAgeMs pol"
    and "has_cookie s \<Longrightarrow> cookie_expires s' =
          Some (now + min (idleTimeoutMs pol) (num_or (createdAt s) now + maxAgeMs pol - now))
          \<and> 0 < min (idleTimeoutMs pol) (num_or (createdAt s) now + maxAgeMs pol - now)"
  using assms
  by (auto simp: touchActivity_def Let_def logged_in_def num_or_def split: if_splits option.splits)

text \<open>activity slides the idle window but not the absolute one.  An accepted request moves the
  cookie expiry to at most the idle timeout from now and never past creation plus the absolute
  lifetime.\<close>

theorem touch_window:
  assumes "logged_in s" and "has_cookie s" and "touchActivity pol now s = (None, s')"
  shows "\<exists>e. cookie_expires s' = Some e \<and> now < e \<and> e \<le> now + idleTimeoutMs pol
     \<and> e \<le> num_or (createdAt s) now + maxAgeMs pol \<and> lastActivityAt s' = Some now"
  using touchActivity_ok [OF assms(1,3)] assms(2) by auto

definition demo_policy :: session_policy where
  "demo_policy = \<lparr>idleTimeoutMs = 1800000, maxAgeMs = 86400000, warnBeforeMs = 60000\<rparr>"

definition demo_sess :: sess where
  "demo_sess = empty_sess\<lparr>has_cookie := True, userId := Some 7, createdAt := Some 1000,
     lastActivityAt := Some 1000\<rparr>"

theorem touch_window_witness:
  "\<exists>e. cookie_expires (snd (touchActivity demo_policy 86000000 (demo_sess\<lparr>lastActivityAt := Some 85000000\<rparr>))) = Some e
     \<and> 86000000 < e \<and> e \<le> 86000000 + idleTimeoutMs demo_policy
     \<and> e \<le> num_or (createdAt (demo_sess\<lparr>lastActivityAt := Some 85000000\<rparr>)) 86000000 + maxAgeMs demo_policy
     \<and> lastActivityAt (snd (touchActivity demo_policy 86000000 (demo_sess\<lparr>lastActivityAt := Some 85000000\<rparr>))) = Some 86000000"
  by (rule touch_window)
     (simp_all add: demo_sess_def demo_policy_def empty_sess_def logged_in_def touchActivity_def Let_def)

text \<open>A chain of accepted requests on one session.\<close>

fun touches :: "session_policy \<Rightarrow> int list \<Rightarrow> sess \<Rightarrow> sess option" where
  "touches pol [] s = Some s"
| "touches pol (now # ts) s =
     (case touchActivity pol now s of (None, s') \<Rightarrow> touches pol ts s' | (Some _, _) \<Rightarrow> None)"

text \<open>no amount of activity carries a session past its absolute lifetime: every request of an
  accepted chain happens within the maximal age of the session's creation, and the creation time
  never moves.\<close>

theorem absolute_lifetime:
  assumes "logged_in s" and "createdAt s = Some c" and "c \<noteq> 0" and "touches pol ts s = Some s'"
  shows "list_all (\<lambda>now. now \<le> c + maxAgeMs pol) ts \<and> createdAt s' = Some c"
  using assms
proof (induction pol ts s rule: touches.induct)
  case (1 pol s)
  then show ?case by simp
next
  case (2 pol now ts s)
  obtain s1 where t: "touchActivity pol now s = (None, s1)" "touches pol ts s1 = Some s'"
    using "2.prems"(4) by (auto split: prod.splits option.splits)
  note ok = touchActivity_ok [OF "2.prems"(1) t(1)]
  have "createdAt s1 = Some c" "logged_in s1" "now \<le> c + maxAgeMs pol"
    using ok "2.prems"(2,3) by simp_all
  with "2.IH" [OF t(1) [symmetric]] t "2.prems"(3) show ?case by simp
qed

theorem absolute_lifetime_witness:
  "list_all (\<lambda>now. now \<le> 1000 + maxAgeMs demo_policy) [5000, 6000]
   \<and> createdAt (the (touches demo_policy [5000, 6000] demo_sess)) = Some 1000"
  by (rule absolute_lifetime [where s = demo_sess])
     (simp_all add: demo_sess_def demo_policy_def empty_sess_def logged_in_def touchActivity_def Let_def)


section \<open>Login and the session gate on a store\<close>

lemma filter_upsert_other:
  assumes "\<And>r. \<not> p k r"
  shows "filter (\<lambda>(k', r). p k' r) (tbl_upsert k new merge t) = filter (\<lambda>(k', r). p k' r) t"
proof -
  have u: "filter (\<lambda>(k', r). p k' r) (tbl_update (\<lambda>k' _. k' = k) merge t) = filter (\<lambda>(k', r). p k' r) t"
    using assms by (induction t) (auto simp: tbl_update_def split: if_splits)
  show ?thesis using assms u by (simp add: tbl_upsert_def split: option.splits)
qed

lemma sqlite_set_others:
  "tbl_select (\<lambda>k r. user_id r = Some uid \<and> is_active r = 1 \<and> k \<noteq> sid) (sqlite_set cfg now db sid s t)
   = tbl_select (\<lambda>k r. user_id r = Some uid \<and> is_active r = 1 \<and> k \<noteq> sid) t"
  unfolding tbl_select_def sqlite_set_def Let_def by (rule filter_upsert_other) simp

text \<open>a login ends exactly the account's other sessions and its own session is usable at once:
  the list of replaced sessions is the list of the account's other active rows, and a look-up
  within the idle window returns the stamped session.\<close>

theorem establish_replaces_and_serves:
  assumes "sqlite_ok t" and "0 < now" and "0 < st_idle cfg" and "0 < st_maxAge cfg"
    and "establishAuthenticatedSession pol (Some (sqlite_store cfg)) now sid u meta extra s0 t = Inr (rs, s, t')"
    and "now \<le> now'" and "now' < now + st_idle cfg" and "now' < now + st_maxAge cfg"
  shows "map fst rs = map fst (filter (\<lambda>(k, r). user_id r = Some (su_id u) \<and> is_active r = 1 \<and> k \<noteq> sid) t)
     \<and> fst (sqlite_get cfg now' now' sid t') = Some s"
proof -
  let ?m = "\<lparr>m_userId = Some (su_id u), m_username = Some (su_username u), m_ip = cm_ip meta,
     m_userAgent = cm_userAgent meta, m_fingerprint = cm_fingerprint meta,
     m_createdAt = Some now, m_lastActivityAt = Some now\<rparr>"
  let ?t1 = "sqlite_set cfg now now sid s t"
  have act: "sqlite_activate cfg now now sid ?m ?t1 = Inr (rs, t')"
    using assms(5) by (auto simp: establishAuthenticatedSession_def sqlite_store_def Let_def split: sum.splits)
  have "\<exists>rs' t2. sqlite_activate cfg now now sid ?m ?t1 = Inr (rs', t2) \<and> sqlite_ok t2
      \<and> sqlite_view t2 = spec_activate cfg now sid (su_id u) ?m (sqlite_view ?t1)"
    by (rule sq.activate_view [OF sq.set_invar [OF assms(1)]]) simp
  then have v: "sqlite_ok t'" "sqlite_view t' = spec_activate cfg now sid (su_id u) ?m (spec_set cfg now sid s (sqlite_view t))"
    using act by (simp_all add: sq.set_view [OF assms(1)])
  have r: "map fst rs = map fst (tbl_select (\<lambda>k r. user_id r = Some (su_id u) \<and> is_active r = 1 \<and> k \<noteq> sid) ?t1)"
    using act by (auto simp: sqlite_activate_def Let_def o_def case_prod_unfold)
  have "fst (spec_get cfg now' sid (sqlite_view t')) = Some s"
    using assms(2,3,4,6-8)
    by (simp add: v(2) spec_get_def spec_activate_def spec_set_def spec_expired_def split: option.splits)
  with r sq.get_view [OF v(1), of cfg now' now' sid] show ?thesis
    by (simp add: sqlite_set_others) (simp add: tbl_select_def)
qed

definition demo_user :: session_user where
  "demo_user = \<lparr>su_id = 7, su_username = ''ann'', su_role = ''operator'', su_language = None\<rparr>"

definition demo_client :: client_meta where
  "demo_client = \<lparr>cm_ip = ''10.0.0.5'', cm_userAgent = ''ff'', cm_fingerprint = []\<rparr>"

definition demo_login :: "store_error + (replaced_row list \<times> sess \<times> sqlite_sessions)" where
  "demo_login = establishAuthenticatedSession demo_policy (Some (sqlite_store demo_cfg)) 6000 ''c'' demo_user
     demo_client None empty_sess (sqlite_run demo_cfg demo_ops [])"

theorem establish_replaces_and_serves_witness:
  "map fst [(''b'', Some ''10.0.0.5'', Some ''ff'', Some ''ann'')] =
     map fst (filter (\<lambda>(k, r). user_id r = Some (su_id demo_user) \<and> is_active r = 1 \<and> k \<noteq> ''c'')
                (sqlite_run demo_cfg demo_ops []))
   \<and> fst (sqlite_get demo_cfg 7000 7000 ''c'' (snd (snd (projr demo_login)))) = Some (fst (snd (projr demo_login)))"
proof (rule establish_replaces_and_serves)
  show "sqlite_ok (sqlite_run demo_cfg demo_ops [])"
    using sqlite_run_refines [of "[]" demo_cfg demo_ops] by simp
  have "\<not> isl demo_login" by code_simp
  moreover have "fst (projr demo_login) = [(''b'', Some ''10.0.0.5'', Some ''ff'', Some ''ann'')]" by code_simp
  ultimately show "establishAuthenticatedSession demo_policy (Some (sqlite_store demo_cfg)) 6000 ''c'' demo_user
     demo_client None empty_sess (sqlite_run demo_cfg demo_ops [])
     = Inr ([(''b'', Some ''10.0.0.5'', Some ''ff'', Some ''ann'')], fst (snd (projr demo_login)), snd (snd (projr demo_login)))"
    unfolding demo_login_def by (metis prod.collapse sum.collapse(2))
qed (simp_all add: demo_cfg_def)

text \<open>C31: the session gate fails closed.  When the gate does not let a request of a logged-in session
  through, the session is ended in the store before the response: no later look-up finds it.\<close>

theorem session_gate_fails_closed:
  assumes "sqlite_ok t"
    and "session_gate pol (sqlite_store cfg) now req sid s t = (resp, s', audit, t')"
    and "resp \<noteq> Next"
  shows "fst (sqlite_get cfg now' db' sid t') = None"
proof -
  obtain reason where "t' = sqlite_destroy now now sid (endCurrentSession (Some (sqlite_store cfg)) now sid reason t)"
    using assms(2,3) by (auto simp: session_gate_def sqlite_store_def split: if_splits prod.splits option.splits)
  moreover have "sqlite_ok (endCurrentSession (Some (sqlite_store cfg)) now sid reason t)"
    using assms(1) by (simp add: endCurrentSession_def sqlite_store_def sq.end_invar)
  ultimately show ?thesis by (simp add: sq.destroy_then_get)
qed

definition demo_req :: http_req where
  "demo_req = \<lparr>rq_path = ''/api/devices'', rq_ip = ''10.0.0.5'', rq_remote = [], rq_user_agent = ''ff'',
     rq_accept = [], rq_fp_header = []\<rparr>"

theorem session_gate_fails_closed_witness:
  "fst (session_gate demo_policy (sqlite_store demo_cfg) 5000000 demo_req ''b'' demo_sess
          (sqlite_run demo_cfg demo_ops [])) = Unauthorized401 ''session_idle''
   \<and> fst (sqlite_get demo_cfg 5000000 5000000 ''b''
       (snd (snd (snd (session_gate demo_policy (sqlite_store demo_cfg) 5000000 demo_req ''b'' demo_sess
          (sqlite_run demo_cfg demo_ops [])))))) = None"
proof
  show r: "fst (session_gate demo_policy (sqlite_store demo_cfg) 5000000 demo_req ''b'' demo_sess
          (sqlite_run demo_cfg demo_ops [])) = Unauthorized401 ''session_idle''"
    by code_simp
  have "sqlite_ok (sqlite_run demo_cfg demo_ops [])"
    using sqlite_run_refines [of "[]" demo_cfg demo_ops] by simp
  from session_gate_fails_closed [OF this, of demo_policy demo_cfg 5000000 demo_req "''b''" demo_sess] r
  show "fst (sqlite_get demo_cfg 5000000 5000000 ''b''
       (snd (snd (snd (session_gate demo_policy (sqlite_store demo_cfg) 5000000 demo_req ''b'' demo_sess
          (sqlite_run demo_cfg demo_ops [])))))) = None"
    by (metis gate_response.distinct(1) prod.collapse)
qed

text \<open>the resolved session policy is consistent whatever the environment holds: the idle timeout
  lies between one minute and one day, the absolute lifetime is at least the idle timeout and at
  most seven days, and the warning comes at least 15 seconds and at most the idle timeout before.\<close>

theorem session_policy_consistent:
  "60000 \<le> idleTimeoutMs (resolveSessionPolicy env) \<and> idleTimeoutMs (resolveSessionPolicy env) \<le> 86400000
   \<and> idleTimeoutMs (resolveSessionPolicy env) \<le> maxAgeMs (resolveSessionPolicy env)
   \<and> maxAgeMs (resolveSessionPolicy env) \<le> 604800000
   \<and> 15000 \<le> warnBeforeMs (resolveSessionPolicy env)
   \<and> warnBeforeMs (resolveSessionPolicy env) \<le> idleTimeoutMs (resolveSessionPolicy env)"
  using policy_idle_bounds [of env] policy_age_bounds [of env] policy_warn_bounds [of env]
  by (simp add: policy_consts)

end
