(* ===== verification/Permissions.thy ===== *)
theory Permissions
  imports Panel_Session "HOL-Library.AList"
begin

text \<open>
  \<open>src/web-nodejs/middleware/auth.js\<close> and \<open>src/web-nodejs/services/rolePermissionService.js\<close>: the
  role-permission map, the permission snapshot of a request, the guards of the routes and the
  cache in front of the permission service of the Go server.

  The role of a request is an optional string.  Roles are assumed not to be names of properties of
  \<open>Object.prototype\<close>, on which the plain-object look-up of the source would find a function.
  The permission service of the Go server is an argument: its answer to one request.
\<close>

section \<open>The default map\<close>

datatype role_perms = AllPermissions | PermissionSet "string list"

definition server_admin_permissions :: "string list" where
  "server_admin_permissions =
    [''server.config'', ''server.keys'', ''server.attestation'', ''blocklist.edit'', ''user.view'',
     ''device.view'', ''remote_target.view'', ''audit.view'', ''metrics.view'', ''enrollment.manage'']"

definition global_admin_permissions :: "string list" where
  "global_admin_permissions =
    [''user.view'', ''user.create'', ''user.edit'', ''user.delete'',
     ''org.create'', ''org.edit'', ''org.delete'', ''org.manage_users'', ''org.manage_devices'',
     ''device.view'', ''device.connect'', ''device.edit'', ''device.delete'',
     ''remote_target.view'', ''remote_target.connect'', ''remote_target.edit'',
     ''remote_target.delete'', ''remote_target.test'', ''guest.create'',
     ''device.ban'', ''device.change_id'', ''device.connection_mode'',
     ''audit.view'', ''metrics.view'', ''cdap.view'', ''cdap.command'', ''chat.access'',
     ''enrollment.manage'', ''enrollment.approve'', ''branding.edit'',
     ''billing.view'', ''billing.manage'', ''billing.reports'', ''billing.export'']"

definition operator_permissions :: "string list" where
  "operator_permissions =
    [''device.view'', ''device.connect'', ''device.edit'', ''device.connection_mode'',
     ''remote_target.view'', ''remote_target.connect'', ''remote_target.test'', ''guest.create'',
     ''user.view'', ''audit.view'', ''metrics.view'', ''cdap.view'', ''cdap.command'',
     ''enrollment.approve'', ''chat.access'', ''org.manage_devices'', ''billing.view'', ''billing.reports'']"

definition viewer_permissions :: "string list" where
  "viewer_permissions =
    [''device.view'', ''remote_target.view'', ''audit.view'', ''metrics.view'', ''cdap.view'', ''chat.access'']"

definition guest_issuer_permissions :: "string list" where
  "guest_issuer_permissions = [''device.view'', ''guest.create'']"

definition DEFAULT_ROLE_PERMISSIONS :: "string \<Rightarrow> role_perms option" where
  "DEFAULT_ROLE_PERMISSIONS role =
     (if role = ''super_admin'' \<or> role = ''admin'' then Some AllPermissions
      else if role = ''server_admin'' then Some (PermissionSet server_admin_permissions)
      else if role = ''global_admin'' then Some (PermissionSet global_admin_permissions)
      else if role = ''operator'' then Some (PermissionSet operator_permissions)
      else if role = ''viewer'' then Some (PermissionSet viewer_permissions)
      else if role = ''guest_issuer'' then Some (PermissionSet guest_issuer_permissions)
      else if role = ''pro'' then Some (PermissionSet [])
      else None)"

section \<open>Permission tests\<close>

definition isProRole :: "string option \<Rightarrow> bool" where
  "isProRole role = (role = Some ''pro'')"

definition proRoleBlocksPermission :: "string option \<Rightarrow> string \<Rightarrow> bool" where
  "proRoleBlocksPermission role permission =
     (if \<not> isProRole role then False
      else startsWith permission ''device.'' \<or> startsWith permission ''remote_target.''
           \<or> permission = ''org.manage_devices'')"

definition isSuperAdminRole :: "string option \<Rightarrow> bool" where
  "isSuperAdminRole role = (role = Some ''super_admin'' \<or> role = Some ''admin'')"

text \<open>\<open>null\<close> and \<open>undefined\<close> in the map are both falsy, so they deny.\<close>

definition roleHasPermission :: "string option \<Rightarrow> string \<Rightarrow> bool" where
  "roleHasPermission role permission =
     (if proRoleBlocksPermission role permission then False
      else if isSuperAdminRole role then True
      else case Option.bind role DEFAULT_ROLE_PERMISSIONS of
             Some (PermissionSet ps) \<Rightarrow> permission \<in> set ps
           | _ \<Rightarrow> False)"

text \<open>The part of a request the guards read: its session, if any, and the snapshot that
  \<open>loadEffectivePermissions\<close> attached.\<close>

record guard_req =
  g_path :: string
  g_session :: "sess option"
  g_effective :: "string list option"
  g_loaded :: bool
  g_load_error :: bool

definition req_role :: "guard_req \<Rightarrow> string option" where
  "req_role req = Option.bind (g_session req) (\<lambda>s. map_option su_role (sess_user s))"

definition requestHasPermission :: "guard_req \<Rightarrow> string \<Rightarrow> bool" where
  "requestHasPermission req permission =
     (let role = req_role req
      in if proRoleBlocksPermission role permission then False
         else if isSuperAdminRole role then True
         else case g_effective req of
                Some ps \<Rightarrow> permission \<in> set ps
              | None \<Rightarrow> if g_loaded req \<and> g_load_error req then False
                         else roleHasPermission role permission)"

section \<open>The permission cache\<close>

text \<open>An answer of the Go server: success flag, the permission array if there is one (its
  elements that are not strings are dropped by the source), and the error text.\<close>

record api_result =
  ar_success :: bool
  ar_permissions :: "string option list option"
  ar_error :: "string option"

datatype perm_error = ResolveFailed string | NoRole

definition toPermissionSet :: "api_result option \<Rightarrow> string \<Rightarrow> perm_error + string list" where
  "toPermissionSet result role =
     (case result of
        None \<Rightarrow> Inl (ResolveFailed (''Failed to resolve effective permissions for role '' @ role))
      | Some r \<Rightarrow>
          (case (if ar_success r then ar_permissions r else None) of
             None \<Rightarrow> Inl (ResolveFailed (''Failed to resolve effective permissions for role '' @ role
                       @ (case ar_error r of None \<Rightarrow> [] | Some e \<Rightarrow> if e = [] then [] else '': '' @ e)))
           | Some ps \<Rightarrow> Inr (List.map_filter id ps)))"

definition CACHE_TTL_MS :: int where "CACHE_TTL_MS = 1000"

text \<open>The module state: the cache, and the roles with a request in flight together with the
  callers that wait for it.  A caller is a number.\<close>

record cache_entry =
  ce_permissions :: "string list"
  ce_expiresAt :: int

record perm_cache =
  pc_cache :: "(string \<times> cache_entry) list"
  pc_inFlight :: "(string \<times> nat list) list"

definition empty_perm_cache :: perm_cache where
  "empty_perm_cache = \<lparr>pc_cache = [], pc_inFlight = []\<rparr>"

datatype lookup_outcome =
    Answer "string list"
  | Waiting bool
  | Refused perm_error

text \<open>\<open>getEffectivePermissions\<close> up to its first suspension: a fresh cache entry answers; a request
  in flight is joined; otherwise a request is started (\<open>Waiting True\<close>).\<close>

definition cache_hit :: "int \<Rightarrow> string \<Rightarrow> perm_cache \<Rightarrow> string list option" where
  "cache_hit now role st =
     (case map_of (pc_cache st) role of
        None \<Rightarrow> None
      | Some e \<Rightarrow> if ce_expiresAt e > now then Some (ce_permissions e) else None)"

definition getEffectivePermissions ::
  "int \<Rightarrow> nat \<Rightarrow> string option \<Rightarrow> perm_cache \<Rightarrow> lookup_outcome \<times> perm_cache" where
  "getEffectivePermissions now caller orole st =
     (if orole = None \<or> orole = Some [] then (Refused NoRole, st)
      else let role = the orole in
      case cache_hit now role st of
        Some ps \<Rightarrow> (Answer ps, st)
      | None \<Rightarrow>
          (case map_of (pc_inFlight st) role of
             Some ws \<Rightarrow> (Waiting False, st\<lparr>pc_inFlight := AList.update role (ws @ [caller]) (pc_inFlight st)\<rparr>)
           | None \<Rightarrow> (Waiting True, st\<lparr>pc_inFlight := AList.update role [caller] (pc_inFlight st)\<rparr>)))"

text \<open>The continuation when the Go server answers: a good answer is cached and given to every
  waiting caller, a bad one is thrown to every waiting caller; the request leaves \<open>inFlight\<close>.\<close>

definition requestSettled ::
  "int \<Rightarrow> string \<Rightarrow> api_result option \<Rightarrow> perm_cache \<Rightarrow> (nat \<times> (perm_error + string list)) list \<times> perm_cache" where
  "requestSettled now role result st =
     (case map_of (pc_inFlight st) role of
        None \<Rightarrow> ([], st)
      | Some ws \<Rightarrow>
          let r = toPermissionSet result role;
              st' = (case r of
                       Inl _ \<Rightarrow> st
                     | Inr ps \<Rightarrow> st\<lparr>pc_cache := AList.update role
                         \<lparr>ce_permissions = ps, ce_expiresAt = now + CACHE_TTL_MS\<rparr> (pc_cache st)\<rparr>)
          in (map (\<lambda>w. (w, r)) ws, st'\<lparr>pc_inFlight := AList.delete role (pc_inFlight st')\<rparr>))"

definition invalidateRole :: "string \<Rightarrow> perm_cache \<Rightarrow> perm_cache" where
  "invalidateRole role st =
     (if role = [] then st else st\<lparr>pc_cache := AList.delete role (pc_cache st)\<rparr>)"

definition clearCache :: "perm_cache \<Rightarrow> perm_cache" where
  "clearCache st = st\<lparr>pc_cache := []\<rparr>"

text \<open>\<open>loadEffectivePermissions\<close> after the service answered with \<open>resolved\<close>.\<close>

definition loadEffectivePermissions :: "(string \<Rightarrow> perm_error + string list) \<Rightarrow> guard_req \<Rightarrow> guard_req" where
  "loadEffectivePermissions resolved req =
     (let req' = req\<lparr>g_loaded := True\<rparr>
      in case req_role req of
           None \<Rightarrow> req'
         | Some role \<Rightarrow>
             if role = [] \<or> role = ''super_admin'' \<or> role = ''admin'' then req'
             else case resolved role of
                    Inr ps \<Rightarrow> req'\<lparr>g_effective := Some ps\<rparr>
                  | Inl e \<Rightarrow> req'\<lparr>g_load_error := True\<rparr>)"

definition roleHasEffectivePermission ::
  "(string option \<Rightarrow> perm_error + string list) \<Rightarrow> string option \<Rightarrow> string \<Rightarrow> perm_error + bool" where
  "roleHasEffectivePermission resolved role permission =
     (if proRoleBlocksPermission role permission then Inr False
      else if isSuperAdminRole role then Inr True
      else case resolved role of Inl e \<Rightarrow> Inl e | Inr ps \<Rightarrow> Inr (permission \<in> set ps))"

section \<open>The guards\<close>

text \<open>What a guard does with a request: pass it on, answer JSON with a status and a code,
  redirect, or render an error page.  The second component of a guard's result says whether the
  session was destroyed.\<close>

datatype guard_outcome =
    Pass
  | Json nat string
  | Redirect string
  | Render nat string

definition req_logged_in :: "guard_req \<Rightarrow> bool" where
  "req_logged_in req = (case g_session req of None \<Rightarrow> False | Some s \<Rightarrow> logged_in s)"

definition is_api :: "guard_req \<Rightarrow> bool" where
  "is_api req = startsWith (g_path req) ''/api/''"

definition requireAuth :: "guard_req \<Rightarrow> guard_outcome \<times> bool" where
  "requireAuth req =
     (if \<not> req_logged_in req then
        (if is_api req then Json 401 ''session_required'' else Redirect ''/login?expired=1'', False)
      else if req_role req = Some ''pro'' then
        (if is_api req then Json 403 ''Pro accounts can only access the RustDesk desktop client API''
         else Redirect ''/login'', True)
      else (Pass, False))"

definition requireRole :: "string \<Rightarrow> guard_req \<Rightarrow> guard_outcome" where
  "requireRole role req =
     (if \<not> req_logged_in req then (if is_api req then Json 401 ''Unauthorized'' else Redirect ''/login'')
      else if isSuperAdminRole (req_role req) then Pass
      else if req_role req \<noteq> Some role then
        (if is_api req then Json 403 ''Forbidden'' else Render 403 ''errors/403'')
      else Pass)"

definition optionalAuth :: "guard_req \<Rightarrow> session_user option" where
  "optionalAuth req = (if req_logged_in req then Option.bind (g_session req) sess_user else None)"

definition guestOnly :: "guard_req \<Rightarrow> guard_outcome" where
  "guestOnly req = (if req_logged_in req then Redirect ''/'' else Pass)"

definition requireAdmin :: "guard_req \<Rightarrow> guard_outcome" where
  "requireAdmin req =
     (if \<not> req_logged_in req then (if is_api req then Json 401 ''Unauthorized'' else Redirect ''/login'')
      else
        let userRole = req_role req;
            allowed = (isSuperAdminRole userRole \<or> userRole = Some ''global_admin'' \<or> userRole = Some ''server_admin'')
        in if \<not> allowed then
             (if is_api req then Json 403 ''Admin access required'' else Render 403 ''errors/403'')
           else Pass)"

definition requirePermission :: "string \<Rightarrow> guard_req \<Rightarrow> guard_outcome" where
  "requirePermission permission req =
     (if \<not> req_logged_in req then (if is_api req then Json 401 ''Unauthorized'' else Redirect ''/login'')
      else if g_loaded req \<and> g_load_error req then
        (if is_api req then Json 503 ''permission_service_unavailable'' else Render 503 ''errors/500'')
      else if \<not> requestHasPermission req permission then
        (if is_api req then Json 403 (''Permission denied: '' @ permission) else Render 403 ''errors/403'')
      else Pass)"

text \<open>\<open>requireRdClientAuth\<close>; the redirect target is computed by \<open>rdClientLoginRedirect\<close>, an
  argument here.\<close>

definition requireRdClientAuth :: "string option \<Rightarrow> string \<Rightarrow> guard_req \<Rightarrow> guard_outcome \<times> bool" where
  "requireRdClientAuth permission loginUrl req =
     (if \<not> req_logged_in req then
        (if is_api req then Json 401 ''Unauthorized. Please log in.'' else Redirect loginUrl, False)
      else if req_role req = Some ''pro'' then
        (if is_api req then Json 403 ''Pro accounts can only access the RustDesk desktop client API''
         else Redirect loginUrl, True)
      else case permission of
             None \<Rightarrow> (Pass, False)
           | Some p \<Rightarrow>
               if p = [] then (Pass, False)
               else if \<not> requestHasPermission req p then
                 (if is_api req then Json 403 (''Permission denied: '' @ p) else Render 403 ''errors/403'', False)
               else (Pass, False))"

definition rdClientGuestOnly :: "string option \<Rightarrow> guard_req \<Rightarrow> guard_outcome" where
  "rdClientGuestOnly safeReturn req =
     (if req_logged_in req \<and> req_role req \<noteq> Some ''pro'' \<and> requestHasPermission req ''device.connect''
      then Redirect (case safeReturn of None \<Rightarrow> ''/remote'' | Some d \<Rightarrow> d)
      else Pass)"


section \<open>The cache as a system with concurrent callers\<close>

text \<open>The module state with two histories: the requests that were sent and not yet answered, and
  the good answers with their times.\<close>

record perm_sys =
  sy_state :: perm_cache
  sy_fetches :: "string list"
  sy_log :: "(string \<times> string list \<times> int) list"

definition perm_init :: perm_sys where
  "perm_init = \<lparr>sy_state = empty_perm_cache, sy_fetches = [], sy_log = []\<rparr>"

inductive perm_step :: "perm_sys \<Rightarrow> perm_sys \<Rightarrow> bool" where
  call: "getEffectivePermissions now c role (sy_state s) = (out, st') \<Longrightarrow>
     perm_step s (s\<lparr>sy_state := st',
       sy_fetches := (if out = Waiting True then the role # sy_fetches s else sy_fetches s)\<rparr>)"
| settle: "role \<in> set (sy_fetches s) \<Longrightarrow> requestSettled now role result (sy_state s) = (outs, st') \<Longrightarrow>
     perm_step s (s\<lparr>sy_state := st', sy_fetches := remove1 role (sy_fetches s),
       sy_log := (case toPermissionSet result role of Inr ps \<Rightarrow> (role, ps, now) # sy_log s | Inl _ \<Rightarrow> sy_log s)\<rparr>)"
| invalidate: "perm_step s (s\<lparr>sy_state := invalidateRole role (sy_state s)\<rparr>)"
| clear: "perm_step s (s\<lparr>sy_state := clearCache (sy_state s)\<rparr>)"

inductive perm_reachable :: "perm_sys \<Rightarrow> bool" where
  init: "perm_reachable perm_init"
| step: "perm_reachable s \<Longrightarrow> perm_step s s' \<Longrightarrow> perm_reachable s'"

definition perm_inv :: "perm_sys \<Rightarrow> bool" where
  "perm_inv s = (set (sy_fetches s) = dom (map_of (pc_inFlight (sy_state s))) \<and> distinct (sy_fetches s)
     \<and> (\<forall>role e. map_of (pc_cache (sy_state s)) role = Some e \<longrightarrow>
          (role, ce_permissions e, ce_expiresAt e - CACHE_TTL_MS) \<in> set (sy_log s)))"

lemma getEffectivePermissions_cases:
  assumes "getEffectivePermissions now c orole st = (out, st')"
  obtains (unchanged) "st' = st" "out \<noteq> Waiting True"
  | (joined) role ws where "orole = Some role" "out = Waiting False" "map_of (pc_inFlight st) role = Some ws"
      "st' = st\<lparr>pc_inFlight := AList.update role (ws @ [c]) (pc_inFlight st)\<rparr>"
  | (started) role where "orole = Some role" "out = Waiting True" "map_of (pc_inFlight st) role = None"
      "st' = st\<lparr>pc_inFlight := AList.update role [c] (pc_inFlight st)\<rparr>"
proof (cases "orole = None \<or> orole = Some []")
  case True
  with assms show thesis by (intro unchanged) (auto simp: getEffectivePermissions_def)
next
  case False
  then obtain role where role: "orole = Some role" "role \<noteq> []" by auto
  show thesis
  proof (cases "cache_hit now role st")
    case (Some ps)
    with assms role show thesis by (intro unchanged) (auto simp: getEffectivePermissions_def)
  next
    case None
    with assms role joined started show thesis
      by (cases "map_of (pc_inFlight st) role") (auto simp: getEffectivePermissions_def)
  qed
qed

lemma perm_inv_call:
  assumes "perm_inv s" and "getEffectivePermissions now c role (sy_state s) = (out, st')"
  shows "perm_inv (s\<lparr>sy_state := st',
       sy_fetches := (if out = Waiting True then the role # sy_fetches s else sy_fetches s)\<rparr>)"
  using assms(2)
proof (cases rule: getEffectivePermissions_cases)
  case unchanged
  with assms(1) show ?thesis by (simp add: perm_inv_def)
next
  case (joined role ws)
  with assms(1) show ?thesis by (auto simp: perm_inv_def update_conv')
next
  case (started role)
  with assms(1) show ?thesis by (auto simp: perm_inv_def update_conv')
qed

lemma dom_if_None: "dom (\<lambda>x. if x = k then None else m x) = dom m - {k}"
  by (auto split: if_splits)

lemma perm_inv_settle:
  assumes "perm_inv s" and "role \<in> set (sy_fetches s)"
    and "requestSettled now role result (sy_state s) = (outs, st')"
  shows "perm_inv (s\<lparr>sy_state := st', sy_fetches := remove1 role (sy_fetches s),
       sy_log := (case toPermissionSet result role of Inr ps \<Rightarrow> (role, ps, now) # sy_log s | Inl _ \<Rightarrow> sy_log s)\<rparr>)"
proof -
  obtain ws where ws: "map_of (pc_inFlight (sy_state s)) role = Some ws"
    using assms(1,2) by (auto simp: perm_inv_def)
  show ?thesis
  proof (cases "toPermissionSet result role")
    case (Inl e)
    with assms(1,3) ws show ?thesis
      by (auto simp: perm_inv_def requestSettled_def Let_def delete_conv' dom_if_None split: if_splits)
  next
    case (Inr ps)
    with assms(1,3) ws show ?thesis
      by (auto simp: perm_inv_def requestSettled_def Let_def update_conv' delete_conv' dom_if_None
          split: if_splits)
  qed
qed

lemma perm_inv_step: "perm_step s s' \<Longrightarrow> perm_inv s \<Longrightarrow> perm_inv s'"
proof (induction rule: perm_step.induct)
  case (invalidate s role)
  then show ?case by (auto simp: perm_inv_def invalidateRole_def delete_conv')
next
  case (clear s)
  then show ?case by (auto simp: perm_inv_def clearCache_def)
qed (simp_all add: perm_inv_call perm_inv_settle)

lemma perm_inv_reachable: "perm_reachable s \<Longrightarrow> perm_inv s"
proof (induction rule: perm_reachable.induct)
  case init
  show ?case by (simp add: perm_init_def perm_inv_def empty_perm_cache_def)
next
  case (step s s')
  then show ?case by (blast intro: perm_inv_step)
qed

section \<open>Properties\<close>

text \<open>concurrent callers share one request.  However calls, answers and invalidations interleave,
  there is at most one outstanding request to the Go server per role.\<close>

theorem one_fetch_per_role:
  assumes "perm_reachable s"
  shows "distinct (sy_fetches s)"
  using perm_inv_reachable [OF assms] by (simp add: perm_inv_def)

definition perm_demo1 :: perm_sys where
  "perm_demo1 = perm_init\<lparr>sy_state := snd (getEffectivePermissions 0 1 (Some ''viewer'') empty_perm_cache),
     sy_fetches := [''viewer'']\<rparr>"

lemma perm_demo1_reachable: "perm_reachable perm_demo1"
proof -
  have g: "getEffectivePermissions 0 1 (Some ''viewer'') (sy_state perm_init)
      = (Waiting True, snd (getEffectivePermissions 0 1 (Some ''viewer'') empty_perm_cache))"
    by (simp add: getEffectivePermissions_def cache_hit_def perm_init_def empty_perm_cache_def)
  show ?thesis
    using perm_reachable.step [OF perm_reachable.init perm_step.call [OF g]]
    by (simp add: perm_demo1_def perm_init_def)
qed

theorem one_fetch_per_role_witness:
  "sy_fetches perm_demo1 = [''viewer''] \<and> distinct (sy_fetches perm_demo1)"
  using one_fetch_per_role [OF perm_demo1_reachable] by (simp add: perm_demo1_def)

text \<open>a permission set served from the cache is at most one second old: it is a set that the Go
  server gave for this role less than the cache lifetime ago.\<close>

theorem cached_permissions_fresh:
  assumes "perm_reachable s"
    and "getEffectivePermissions now c (Some role) (sy_state s) = (Answer ps, st')"
  shows "\<exists>time. (role, ps, time) \<in> set (sy_log s) \<and> now < time + 1000"
proof -
  obtain e where "map_of (pc_cache (sy_state s)) role = Some e" "ce_expiresAt e > now" "ps = ce_permissions e"
    using assms(2) by (auto simp: getEffectivePermissions_def cache_hit_def Let_def split: if_splits option.splits)
  with perm_inv_reachable [OF assms(1)] show ?thesis
    by (intro exI [of _ "ce_expiresAt e - CACHE_TTL_MS"]) (simp add: perm_inv_def CACHE_TTL_MS_def)
qed

definition perm_demo2 :: perm_sys where
  "perm_demo2 = \<lparr>sy_state = \<lparr>pc_cache = [(''viewer'', \<lparr>ce_permissions = [''device.view''], ce_expiresAt = 1500\<rparr>)],
     pc_inFlight = []\<rparr>, sy_fetches = [], sy_log = [(''viewer'', [''device.view''], 500)]\<rparr>"

lemma perm_demo2_reachable: "perm_reachable perm_demo2"
proof -
  have r: "requestSettled 500 ''viewer'' (Some \<lparr>ar_success = True, ar_permissions = Some [Some ''device.view''], ar_error = None\<rparr>)
      (sy_state perm_demo1) = ([(1, Inr [''device.view''])], sy_state perm_demo2)"
    by (simp add: perm_demo1_def perm_demo2_def requestSettled_def getEffectivePermissions_def cache_hit_def
        empty_perm_cache_def toPermissionSet_def List.map_filter_def CACHE_TTL_MS_def)
  have "''viewer'' \<in> set (sy_fetches perm_demo1)" by (simp add: perm_demo1_def)
  from perm_reachable.step [OF perm_demo1_reachable perm_step.settle [OF this r]]
  show ?thesis
    by (simp add: perm_demo1_def perm_demo2_def perm_init_def toPermissionSet_def List.map_filter_def)
qed

theorem cached_permissions_fresh_witness:
  "\<exists>time. (''viewer'', [''device.view''], time) \<in> set (sy_log perm_demo2) \<and> 1400 < time + 1000"
  by (rule cached_permissions_fresh [OF perm_demo2_reachable, where c = 2 and st' = "sy_state perm_demo2"])
     (simp add: getEffectivePermissions_def cache_hit_def perm_demo2_def)

lemma load_role [simp]: "req_role (loadEffectivePermissions f req) = req_role req"
  "req_logged_in (loadEffectivePermissions f req) = req_logged_in req"
  by (auto simp: loadEffectivePermissions_def req_role_def req_logged_in_def Let_def split: option.splits sum.splits)

text \<open>C33: the decision of a guarded panel route.  A request that enters the pipeline without a
  snapshot passes \<open>requirePermission\<close> exactly when it is logged in and its role is a super-admin role,
  or the permission service answered for its role with a set that holds the permission and the role
  is not the blocked \<open>pro\<close> role.  The static default map never grants, and a failed look-up denies.\<close>

theorem permission_decision:
  assumes "g_effective req = None" and "\<not> g_load_error req"
  shows "requirePermission p (loadEffectivePermissions resolved req) = Pass \<longleftrightarrow>
    req_logged_in req \<and>
    (isSuperAdminRole (req_role req) \<or>
     (\<exists>role ps. req_role req = Some role \<and> role \<noteq> [] \<and> resolved role = Inr ps \<and> p \<in> set ps
        \<and> \<not> proRoleBlocksPermission (Some role) p))"
proof (cases "req_role req")
  case None
  with assms show ?thesis
    by (simp add: requirePermission_def requestHasPermission_def loadEffectivePermissions_def Let_def
        isSuperAdminRole_def proRoleBlocksPermission_def isProRole_def roleHasPermission_def)
       (simp add: req_role_def req_logged_in_def)
next
  case (Some role)
  have sup: "isSuperAdminRole (Some role) \<Longrightarrow> \<not> proRoleBlocksPermission (Some role) p"
    by (auto simp: isSuperAdminRole_def proRoleBlocksPermission_def isProRole_def)
  have empty: "roleHasPermission (Some []) p = False"
    by (simp add: roleHasPermission_def isSuperAdminRole_def proRoleBlocksPermission_def isProRole_def
        DEFAULT_ROLE_PERMISSIONS_def)
  have ld: "loadEffectivePermissions resolved req =
      (if role = [] \<or> isSuperAdminRole (Some role) then req\<lparr>g_loaded := True\<rparr>
       else case resolved role of Inr ps \<Rightarrow> req\<lparr>g_loaded := True, g_effective := Some ps\<rparr>
          | Inl e \<Rightarrow> req\<lparr>g_loaded := True, g_load_error := True\<rparr>)"
    using Some by (auto simp: loadEffectivePermissions_def isSuperAdminRole_def Let_def)
  have fields: "req_role (req\<lparr>g_loaded := a\<rparr>) = Some role" "req_logged_in (req\<lparr>g_loaded := a\<rparr>) = req_logged_in req"
    "req_role (req\<lparr>g_loaded := a, g_effective := b\<rparr>) = Some role"
    "req_logged_in (req\<lparr>g_loaded := a, g_effective := b\<rparr>) = req_logged_in req"
    "req_logged_in (req\<lparr>g_loaded := a, g_load_error := c\<rparr>) = req_logged_in req" for a b c
    using Some by (simp_all add: req_role_def req_logged_in_def)
  show ?thesis
    unfolding ld using assms Some sup empty
    by (cases "resolved role")
       (auto simp: requirePermission_def requestHasPermission_def fields Let_def isSuperAdminRole_def)
qed

definition demo_guard_req :: guard_req where
  "demo_guard_req = \<lparr>g_path = ''/api/devices'',
     g_session = Some (empty_sess\<lparr>userId := Some 7,
       sess_user := Some \<lparr>su_id = 7, su_username = ''ann'', su_role = ''operator'', su_language = None\<rparr>\<rparr>),
     g_effective = None, g_loaded = False, g_load_error = False\<rparr>"

theorem permission_decision_witness:
  "requirePermission ''device.connect'' (loadEffectivePermissions (\<lambda>r. Inl NoRole) demo_guard_req) = Pass \<longleftrightarrow>
    req_logged_in demo_guard_req \<and>
    (isSuperAdminRole (req_role demo_guard_req) \<or>
     (\<exists>role ps. req_role demo_guard_req = Some role \<and> role \<noteq> [] \<and> (Inl NoRole :: perm_error + string list) = Inr ps
        \<and> ''device.connect'' \<in> set ps \<and> \<not> proRoleBlocksPermission (Some role) ''device.connect''))"
  by (rule permission_decision) (simp_all add: demo_guard_req_def)

text \<open>a \<open>pro\<close> account never gets a device permission on the panel, whatever the permission service
  or the snapshot of the request says, and \<open>requireAuth\<close> destroys its session.\<close>

theorem pro_accounts_excluded:
  assumes "req_role req = Some ''pro''" and "req_logged_in req"
  shows "\<not> requestHasPermission req (''device.'' @ x) \<and> \<not> requestHasPermission req (''remote_target.'' @ x)
    \<and> fst (requireAuth req) \<noteq> Pass \<and> snd (requireAuth req)"
  using assms
  by (auto simp: requestHasPermission_def proRoleBlocksPermission_def isProRole_def requireAuth_def
      startsWith_def Let_def)

theorem pro_accounts_excluded_witness:
  "\<not> requestHasPermission (demo_guard_req\<lparr>g_session := Some (empty_sess\<lparr>userId := Some 7,
       sess_user := Some \<lparr>su_id = 7, su_username = ''ann'', su_role = ''pro'', su_language = None\<rparr>\<rparr>),
       g_effective := Some [''device.view'']\<rparr>) (''device.'' @ ''view'')"
  using pro_accounts_excluded [of "demo_guard_req\<lparr>g_session := Some (empty_sess\<lparr>userId := Some 7,
       sess_user := Some \<lparr>su_id = 7, su_username = ''ann'', su_role = ''pro'', su_language = None\<rparr>\<rparr>),
       g_effective := Some [''device.view'']\<rparr>" "''view''"]
  by (simp add: req_role_def req_logged_in_def logged_in_def demo_guard_req_def)

text \<open>separation of duties in the default map: permissions grow from viewer to operator to global
  admin, while a server admin can neither connect to nor edit devices and a global admin can touch
  no server setting.\<close>

theorem default_roles_separated:
  "set viewer_permissions \<subseteq> set operator_permissions \<and> set operator_permissions \<subseteq> set global_admin_permissions
   \<and> \<not> roleHasPermission (Some ''server_admin'') ''device.connect''
   \<and> \<not> roleHasPermission (Some ''server_admin'') ''device.edit''
   \<and> \<not> roleHasPermission (Some ''global_admin'') ''server.config''
   \<and> \<not> roleHasPermission (Some ''global_admin'') ''server.keys''
   \<and> roleHasPermission (Some ''admin'') p"
proof (intro conjI)
  show "set viewer_permissions \<subseteq> set operator_permissions" by code_simp
  show "set operator_permissions \<subseteq> set global_admin_permissions" by code_simp
  show "\<not> roleHasPermission (Some ''server_admin'') ''device.connect''" by code_simp
  show "\<not> roleHasPermission (Some ''server_admin'') ''device.edit''" by code_simp
  show "\<not> roleHasPermission (Some ''global_admin'') ''server.config''" by code_simp
  show "\<not> roleHasPermission (Some ''global_admin'') ''server.keys''" by code_simp
  show "roleHasPermission (Some ''admin'') p"
    by (simp add: roleHasPermission_def isSuperAdminRole_def proRoleBlocksPermission_def isProRole_def)
qed

end
