(* ===== verification/Auth_Db.thy ===== *)
theory Auth_Db
  imports Sql_Tables
begin

text \<open>
  The account part of the database adapter (\<open>services/dbAdapter.js\<close>): users, second factor,
  client access tokens, login attempts and lockouts, and the access-control tables that a deleted
  user takes with it.  The schema gives the constraints: \<open>users.username\<close> is \<open>UNIQUE\<close>, \<open>users.id\<close>
  is \<open>AUTOINCREMENT\<close> (ids are never reused), and the tables that reference \<open>users(id)\<close> do so with
  \<open>ON DELETE CASCADE\<close> (\<open>foreign_keys = ON\<close>).

  Both engines run the same statements; they differ in the type \<open>'t\<close> of a timestamp column.
  SQLite keeps text and compares it as text, PostgreSQL keeps instants and reads a text without a
  zone in the time zone of its session.
\<close>

section \<open>Timestamps\<close>

text \<open>SQLite text: \<open>datetime('now')\<close> is written with seconds, a value the services format with
  \<open>toISOString().replace('T', ' ').replace('Z', '')\<close> with milliseconds.  The order is the order of
  the texts: on the same second the longer text is the greater one.\<close>

datatype sql_text = Secs int | Millis int

fun text_less :: "sql_text \<Rightarrow> sql_text \<Rightarrow> bool" where
  "text_less (Secs a) (Secs b) = (a < b)"
| "text_less (Millis a) (Millis b) = (a < b)"
| "text_less (Secs a) (Millis b) = (a \<le> b div 1000)"
| "text_less (Millis a) (Secs b) = (a div 1000 < b)"

definition sqlite_now :: "int \<Rightarrow> sql_text" where
  "sqlite_now now = Secs (now div 1000)"

definition utc_text :: "int \<Rightarrow> sql_text" where
  "utc_text ms = Millis ms"

text \<open>PostgreSQL: an instant in milliseconds.  A text without a zone, written in UTC, becomes the
  instant that shows this text in the session's zone, \<open>tz\<close> milliseconds east of UTC.\<close>

definition pg_timestamptz :: "int \<Rightarrow> int \<Rightarrow> int" where
  "pg_timestamptz tz ms = ms - tz"

section \<open>Rows\<close>

text \<open>The recovery-code column holds JSON; a text that does not parse is kept as it is.\<close>

datatype recovery_col = CodesJson "string list" | BadJson string

record user_row =
  u_username :: string
  u_password_hash :: string
  u_role :: string
  u_auth_provider :: string
  u_last_login :: "int option"
  u_language :: "string option"
  u_totp_secret :: "string option"
  u_totp_enabled :: bool
  u_recovery_codes :: "recovery_col option"
  u_profile :: "(string, string) table"

record 't token_row =
  t_token :: string
  t_token_hash :: string
  t_user_id :: int
  t_client_id :: string
  t_client_uuid :: string
  t_expires_at :: 't
  t_last_used :: "'t option"
  t_ip_address :: string
  t_revoked :: bool

record 't attempt_row =
  at_username :: string
  at_ip :: string
  at_success :: bool
  at_created :: 't

record 't lockout_row =
  l_locked_until :: 't
  l_attempts :: nat

record user_group_row =
  ug_guid :: string
  ug_name :: string
  ug_note :: string
  ug_team :: string

record device_group_row =
  dg_guid :: string
  dg_name :: string
  dg_note :: string
  dg_team :: string
  dg_source_type :: string
  dg_tag_filter :: string

record folder_row =
  f_name :: string
  f_color :: string
  f_icon :: string
  f_sort :: int

record 't auth_db =
  db_users :: "(int, user_row) table"
  db_user_seq :: int
  db_tokens :: "'t token_row list"
  db_attempts :: "'t attempt_row list"
  db_lockouts :: "(string, 't lockout_row) table"
  db_user_groups :: "(int, user_group_row) table"
  db_ug_seq :: int
  db_ug_members :: "(int \<times> int) list"
  db_device_groups :: "(int, device_group_row) table"
  db_dg_seq :: int
  db_dg_members :: "(int \<times> string) list"
  db_dg_users :: "(int \<times> int) list"
  db_dg_groups :: "(int \<times> int) list"
  db_peer_grants :: "(int \<times> string) list"
  db_folders :: "(int, folder_row) table"
  db_folder_seq :: int
  db_assignments :: "(string, int) table"

definition empty_auth_db :: "'t auth_db" where
  "empty_auth_db = \<lparr>db_users = [], db_user_seq = 0, db_tokens = [], db_attempts = [], db_lockouts = [],
     db_user_groups = [], db_ug_seq = 0, db_ug_members = [], db_device_groups = [], db_dg_seq = 0,
     db_dg_members = [], db_dg_users = [], db_dg_groups = [], db_peer_grants = [],
     db_folders = [], db_folder_seq = 0, db_assignments = []\<rparr>"

datatype db_error = UniqueViolation string | ForeignKeyViolation string


section \<open>Users\<close>

definition getUserByUsername :: "string \<Rightarrow> 't auth_db \<Rightarrow> (int \<times> user_row) option" where
  "getUserByUsername name db = find (\<lambda>(i, u). u_username u = name) (db_users db)"

definition getUserById :: "int \<Rightarrow> 't auth_db \<Rightarrow> user_row option" where
  "getUserById i db = map_of (db_users db) i"

definition createUser ::
  "string \<Rightarrow> string \<Rightarrow> string \<Rightarrow> string \<Rightarrow> 't auth_db \<Rightarrow> db_error + int \<times> 't auth_db" where
  "createUser name hash role authProvider db =
     (if getUserByUsername name db \<noteq> None then Inl (UniqueViolation ''users.username'')
      else let i = db_user_seq db + 1;
               row = \<lparr>u_username = name, u_password_hash = hash, u_role = role,
                 u_auth_provider = (if authProvider = [] then ''local'' else authProvider),
                 u_last_login = None, u_language = None, u_totp_secret = None, u_totp_enabled = False,
                 u_recovery_codes = None, u_profile = []\<rparr>
           in Inr (i, db\<lparr>db_users := db_users db @ [(i, row)], db_user_seq := i\<rparr>))"

definition update_user :: "int \<Rightarrow> (user_row \<Rightarrow> user_row) \<Rightarrow> 't auth_db \<Rightarrow> 't auth_db" where
  "update_user i f db = db\<lparr>db_users := tbl_update (\<lambda>k _. k = i) f (db_users db)\<rparr>"

definition set_if :: "'a option \<Rightarrow> ('a \<Rightarrow> 'r \<Rightarrow> 'r) \<Rightarrow> 'r \<Rightarrow> 'r" where
  "set_if x f r = (case x of None \<Rightarrow> r | Some v \<Rightarrow> f v r)"

definition syncUserFromGo ::
  "int \<Rightarrow> string option \<Rightarrow> string option \<Rightarrow> string option \<Rightarrow> 't auth_db \<Rightarrow> 't auth_db" where
  "syncUserFromGo i role authProvider passwordHash =
     update_user i (\<lambda>u. set_if passwordHash (\<lambda>h u. u\<lparr>u_password_hash := h\<rparr>)
       (set_if authProvider (\<lambda>p u. u\<lparr>u_auth_provider := p\<rparr>)
         (set_if role (\<lambda>r u. u\<lparr>u_role := r\<rparr>) u)))"

definition updateUserPassword :: "int \<Rightarrow> string \<Rightarrow> 't auth_db \<Rightarrow> 't auth_db" where
  "updateUserPassword i hash = update_user i (\<lambda>u. u\<lparr>u_password_hash := hash\<rparr>)"

definition touchLastLogin :: "int \<Rightarrow> int \<Rightarrow> 't auth_db \<Rightarrow> 't auth_db" where
  "touchLastLogin now i = update_user i (\<lambda>u. u\<lparr>u_last_login := Some now\<rparr>)"

definition hasUsers :: "'t auth_db \<Rightarrow> bool" where
  "hasUsers db = (db_users db \<noteq> [])"

definition updateUserRole :: "int \<Rightarrow> string \<Rightarrow> 't auth_db \<Rightarrow> 't auth_db" where
  "updateUserRole i role = update_user i (\<lambda>u. u\<lparr>u_role := role\<rparr>)"

definition updateUserLanguage :: "int \<Rightarrow> string option \<Rightarrow> 't auth_db \<Rightarrow> 't auth_db" where
  "updateUserLanguage i lang = update_user i (\<lambda>u. u\<lparr>u_language := lang\<rparr>)"

definition profile_fields :: "string list" where
  "profile_fields = [''first_name'', ''last_name'', ''email'', ''phone'', ''role_display'', ''avatar_url'']"

text \<open>\<open>body\<close> holds the own properties of the request body, a null value as \<^term>\<open>None\<close>.\<close>

definition updateUserProfile :: "int \<Rightarrow> (string \<times> string option) list \<Rightarrow> 't auth_db \<Rightarrow> 't auth_db" where
  "updateUserProfile i body =
     update_user i (\<lambda>u. u\<lparr>u_profile := fold (\<lambda>k p. case map_of body k of
         None \<Rightarrow> p
       | Some v \<Rightarrow> let s = take 200 (case v of None \<Rightarrow> [] | Some x \<Rightarrow> x) in tbl_upsert k s (\<lambda>_. s) p)
       profile_fields (u_profile u)\<rparr>)"

text \<open>The three statements, then what the cascade of the last one removes.\<close>

definition deleteUser :: "int \<Rightarrow> 't auth_db \<Rightarrow> 't auth_db" where
  "deleteUser i db =
     db\<lparr>db_ug_members := filter (\<lambda>(g, u). u \<noteq> i) (db_ug_members db),
        db_dg_users := filter (\<lambda>(g, u). u \<noteq> i) (db_dg_users db),
        db_users := tbl_delete (\<lambda>k _. k = i) (db_users db),
        db_tokens := filter (\<lambda>t. t_user_id t \<noteq> i) (db_tokens db),
        db_peer_grants := filter (\<lambda>(u, p). u \<noteq> i) (db_peer_grants db)\<rparr>"

definition countAdmins :: "'t auth_db \<Rightarrow> nat" where
  "countAdmins db = length (filter (\<lambda>(i, u). u_role u = ''admin'' \<or> u_role u = ''super_admin'') (db_users db))"


section \<open>Second factor\<close>

definition saveTotpSecret :: "int \<Rightarrow> string \<Rightarrow> 't auth_db \<Rightarrow> 't auth_db" where
  "saveTotpSecret i secret = update_user i (\<lambda>u. u\<lparr>u_totp_secret := Some secret\<rparr>)"

definition enableTotp :: "int \<Rightarrow> string list \<Rightarrow> 't auth_db \<Rightarrow> 't auth_db" where
  "enableTotp i codes =
     update_user i (\<lambda>u. u\<lparr>u_totp_enabled := True, u_recovery_codes := Some (CodesJson codes)\<rparr>)"

definition db_disableTotp :: "int \<Rightarrow> 't auth_db \<Rightarrow> 't auth_db" where
  "db_disableTotp i =
     update_user i (\<lambda>u. u\<lparr>u_totp_enabled := False, u_totp_secret := None, u_recovery_codes := None\<rparr>)"

definition useRecoveryCode :: "int \<Rightarrow> string list \<Rightarrow> 't auth_db \<Rightarrow> 't auth_db" where
  "useRecoveryCode i codes = update_user i (\<lambda>u. u\<lparr>u_recovery_codes := Some (CodesJson codes)\<rparr>)"


section \<open>Access tokens\<close>

text \<open>\<open>hash\<close> is SHA-256 (\<open>lib/tokenHash.js\<close>), a parameter.  \<open>token\<close> is \<open>UNIQUE\<close> and so is a
  non-null \<open>token_hash\<close>; \<open>user_id\<close> references \<open>users(id)\<close>.\<close>

definition createAccessToken ::
  "(string \<Rightarrow> string) \<Rightarrow> string \<Rightarrow> int \<Rightarrow> string \<Rightarrow> string \<Rightarrow> 't \<Rightarrow> string \<Rightarrow> 't auth_db \<Rightarrow> db_error + 't auth_db" where
  "createAccessToken hash token userId clientId clientUuid expires ip db =
     (if map_of (db_users db) userId = None then Inl (ForeignKeyViolation ''access_tokens.user_id'')
      else if \<exists>r \<in> set (db_tokens db). t_token r = token then Inl (UniqueViolation ''access_tokens.token'')
      else if \<exists>r \<in> set (db_tokens db). t_token_hash r = hash token then Inl (UniqueViolation ''access_tokens.token_hash'')
      else Inr (db\<lparr>db_tokens := db_tokens db @
        [\<lparr>t_token = token, t_token_hash = hash token, t_user_id = userId, t_client_id = clientId,
          t_client_uuid = clientUuid, t_expires_at = expires, t_last_used = None, t_ip_address = ip,
          t_revoked = False\<rparr>]\<rparr>))"

text \<open>\<open>alive\<close> is the engine's reading of \<open>expires_at > now\<close>.\<close>

definition select_token :: "('t \<Rightarrow> bool) \<Rightarrow> (string \<Rightarrow> string) \<Rightarrow> string \<Rightarrow> 't auth_db \<Rightarrow> 't token_row option" where
  "select_token alive hash token db =
     (case find (\<lambda>r. t_token_hash r = hash token \<and> \<not> t_revoked r \<and> alive (t_expires_at r)) (db_tokens db) of
        Some r \<Rightarrow> Some r
      | None \<Rightarrow> find (\<lambda>r. t_token r = token \<and> \<not> t_revoked r \<and> alive (t_expires_at r)) (db_tokens db))"

definition sqlite_getAccessToken :: "(string \<Rightarrow> string) \<Rightarrow> int \<Rightarrow> string \<Rightarrow> sql_text auth_db \<Rightarrow> sql_text token_row option" where
  "sqlite_getAccessToken hash now = select_token (\<lambda>e. text_less (sqlite_now now) e) hash"

definition pg_getAccessToken :: "(string \<Rightarrow> string) \<Rightarrow> int \<Rightarrow> string \<Rightarrow> int auth_db \<Rightarrow> int token_row option" where
  "pg_getAccessToken hash now = select_token (\<lambda>e. e > now) hash"

definition update_tokens :: "('t token_row \<Rightarrow> bool) \<Rightarrow> ('t token_row \<Rightarrow> 't token_row) \<Rightarrow> 't auth_db \<Rightarrow> 't auth_db" where
  "update_tokens p f db = db\<lparr>db_tokens := map (\<lambda>r. if p r then f r else r) (db_tokens db)\<rparr>"

definition touchAccessToken :: "(string \<Rightarrow> string) \<Rightarrow> 't \<Rightarrow> string \<Rightarrow> 't auth_db \<Rightarrow> 't auth_db" where
  "touchAccessToken hash stamp token =
     update_tokens (\<lambda>r. t_token_hash r = hash token \<or> t_token r = token) (\<lambda>r. r\<lparr>t_last_used := Some stamp\<rparr>)"

definition revokeAccessToken :: "(string \<Rightarrow> string) \<Rightarrow> string \<Rightarrow> 't auth_db \<Rightarrow> 't auth_db" where
  "revokeAccessToken hash token =
     update_tokens (\<lambda>r. t_token_hash r = hash token \<or> t_token r = token) (\<lambda>r. r\<lparr>t_revoked := True\<rparr>)"

definition revokeUserClientTokens :: "int \<Rightarrow> string \<Rightarrow> 't auth_db \<Rightarrow> 't auth_db" where
  "revokeUserClientTokens userId clientUuid =
     update_tokens (\<lambda>r. t_user_id r = userId \<and> t_client_uuid r = clientUuid) (\<lambda>r. r\<lparr>t_revoked := True\<rparr>)"

definition revokeAllUserTokens :: "int \<Rightarrow> 't auth_db \<Rightarrow> 't auth_db" where
  "revokeAllUserTokens userId = update_tokens (\<lambda>r. t_user_id r = userId) (\<lambda>r. r\<lparr>t_revoked := True\<rparr>)"

definition delete_tokens :: "('t token_row \<Rightarrow> bool) \<Rightarrow> 't auth_db \<Rightarrow> 't auth_db" where
  "delete_tokens p db = db\<lparr>db_tokens := filter (\<lambda>r. \<not> p r) (db_tokens db)\<rparr>"

definition sqlite_cleanupExpiredTokens :: "int \<Rightarrow> sql_text auth_db \<Rightarrow> sql_text auth_db" where
  "sqlite_cleanupExpiredTokens now = delete_tokens (\<lambda>r. text_less (t_expires_at r) (sqlite_now now) \<or> t_revoked r)"

definition pg_cleanupExpiredTokens :: "int \<Rightarrow> int auth_db \<Rightarrow> int auth_db" where
  "pg_cleanupExpiredTokens now = delete_tokens (\<lambda>r. t_expires_at r < now \<or> t_revoked r)"


section \<open>Login attempts and lockouts\<close>

definition recordLoginAttempt :: "'t \<Rightarrow> string \<Rightarrow> string \<Rightarrow> bool \<Rightarrow> 't auth_db \<Rightarrow> 't auth_db" where
  "recordLoginAttempt stamp name ip ok db =
     db\<lparr>db_attempts := db_attempts db @ [\<lparr>at_username = name, at_ip = ip, at_success = ok, at_created = stamp\<rparr>]\<rparr>"

definition count_failures :: "('t attempt_row \<Rightarrow> bool) \<Rightarrow> 't auth_db \<Rightarrow> nat" where
  "count_failures p db = length (filter (\<lambda>a. \<not> at_success a \<and> p a) (db_attempts db))"

definition sqlite_countRecentFailedAttempts :: "int \<Rightarrow> string \<Rightarrow> int \<Rightarrow> sql_text auth_db \<Rightarrow> nat" where
  "sqlite_countRecentFailedAttempts now name mins =
     count_failures (\<lambda>a. at_username a = name \<and> text_less (Secs (now div 1000 - mins * 60)) (at_created a))"

definition sqlite_countRecentFailedAttemptsFromIp :: "int \<Rightarrow> string \<Rightarrow> int \<Rightarrow> sql_text auth_db \<Rightarrow> nat" where
  "sqlite_countRecentFailedAttemptsFromIp now ip mins =
     count_failures (\<lambda>a. at_ip a = ip \<and> text_less (Secs (now div 1000 - mins * 60)) (at_created a))"

definition pg_countRecentFailedAttempts :: "int \<Rightarrow> string \<Rightarrow> int \<Rightarrow> int auth_db \<Rightarrow> nat" where
  "pg_countRecentFailedAttempts now name mins =
     count_failures (\<lambda>a. at_username a = name \<and> at_created a > now - mins * 60000)"

definition pg_countRecentFailedAttemptsFromIp :: "int \<Rightarrow> string \<Rightarrow> int \<Rightarrow> int auth_db \<Rightarrow> nat" where
  "pg_countRecentFailedAttemptsFromIp now ip mins =
     count_failures (\<lambda>a. at_ip a = ip \<and> at_created a > now - mins * 60000)"

definition lockAccount :: "string \<Rightarrow> 't \<Rightarrow> nat \<Rightarrow> 't auth_db \<Rightarrow> 't auth_db" where
  "lockAccount name until count db =
     db\<lparr>db_lockouts := tbl_upsert name \<lparr>l_locked_until = until, l_attempts = count\<rparr>
          (\<lambda>r. r\<lparr>l_locked_until := until, l_attempts := count\<rparr>) (db_lockouts db)\<rparr>"

definition select_lockout :: "('t \<Rightarrow> bool) \<Rightarrow> string \<Rightarrow> 't auth_db \<Rightarrow> 't lockout_row option" where
  "select_lockout alive name db =
     (case map_of (db_lockouts db) name of
        None \<Rightarrow> None
      | Some r \<Rightarrow> if alive (l_locked_until r) then Some r else None)"

definition sqlite_getAccountLockout :: "int \<Rightarrow> string \<Rightarrow> sql_text auth_db \<Rightarrow> sql_text lockout_row option" where
  "sqlite_getAccountLockout now = select_lockout (\<lambda>e. text_less (sqlite_now now) e)"

definition pg_getAccountLockout :: "int \<Rightarrow> string \<Rightarrow> int auth_db \<Rightarrow> int lockout_row option" where
  "pg_getAccountLockout now = select_lockout (\<lambda>e. e > now)"

definition clearAccountLockout :: "string \<Rightarrow> 't auth_db \<Rightarrow> 't auth_db" where
  "clearAccountLockout name db = db\<lparr>db_lockouts := tbl_delete (\<lambda>k _. k = name) (db_lockouts db)\<rparr>"

definition delete_attempts :: "('t \<Rightarrow> bool) \<Rightarrow> 't auth_db \<Rightarrow> 't auth_db" where
  "delete_attempts old db = db\<lparr>db_attempts := filter (\<lambda>a. \<not> old (at_created a)) (db_attempts db)\<rparr>"

definition sqlite_cleanupOldLoginAttempts :: "int \<Rightarrow> sql_text auth_db \<Rightarrow> sql_text auth_db" where
  "sqlite_cleanupOldLoginAttempts now = delete_attempts (\<lambda>c. text_less c (Secs (now div 1000 - 86400)))"

definition pg_cleanupOldLoginAttempts :: "int \<Rightarrow> int auth_db \<Rightarrow> int auth_db" where
  "pg_cleanupOldLoginAttempts now = delete_attempts (\<lambda>c. c < now - 86400000)"

definition resetAdminPassword :: "string \<Rightarrow> 't auth_db \<Rightarrow> (int \<times> user_row) option \<times> 't auth_db" where
  "resetAdminPassword hash db =
     (case find (\<lambda>(i, u). u_role u = ''admin'') (sort_key fst (db_users db)) of
        None \<Rightarrow> (None, db)
      | Some (i, u) \<Rightarrow> (Some (i, u), updateUserPassword i hash db))"


section \<open>Integrity\<close>

text \<open>What the constraints of the schema keep: unique keys and names, ids at most the sequence, and
  every reference to a user points to a row.\<close>

definition user_ids :: "'t auth_db \<Rightarrow> int list" where
  "user_ids db = map fst (db_users db)"

definition auth_ok :: "'t auth_db \<Rightarrow> bool" where
  "auth_ok db =
     (tbl_ok (db_users db) \<and> distinct (map (\<lambda>(i, u). u_username u) (db_users db))
      \<and> (\<forall>i \<in> set (user_ids db). i \<le> db_user_seq db)
      \<and> (\<forall>t \<in> set (db_tokens db). t_user_id t \<in> set (user_ids db))
      \<and> (\<forall>(g, u) \<in> set (db_ug_members db). u \<in> set (user_ids db))
      \<and> (\<forall>(g, u) \<in> set (db_dg_users db). u \<in> set (user_ids db))
      \<and> (\<forall>(u, p) \<in> set (db_peer_grants db). u \<in> set (user_ids db))
      \<and> distinct (map t_token (db_tokens db)) \<and> distinct (map t_token_hash (db_tokens db)))"

definition refers_to_user :: "int \<Rightarrow> 't auth_db \<Rightarrow> bool" where
  "refers_to_user i db =
     ((\<exists>t \<in> set (db_tokens db). t_user_id t = i) \<or> (\<exists>(g, u) \<in> set (db_ug_members db). u = i)
      \<or> (\<exists>(g, u) \<in> set (db_dg_users db). u = i) \<or> (\<exists>(u, p) \<in> set (db_peer_grants db). u = i))"

lemma user_ids_update [simp]: "user_ids (update_user i f db) = user_ids db"
  by (simp add: user_ids_def update_user_def)

lemma update_user_others [simp]:
  "db_tokens (update_user i f db) = db_tokens db" "db_user_seq (update_user i f db) = db_user_seq db"
  "db_ug_members (update_user i f db) = db_ug_members db" "db_dg_users (update_user i f db) = db_dg_users db"
  "db_peer_grants (update_user i f db) = db_peer_grants db"
  "db_attempts (update_user i f db) = db_attempts db" "db_lockouts (update_user i f db) = db_lockouts db"
  by (simp_all add: update_user_def)

lemma tbl_update_names:
  assumes "\<And>u. u_username (f u) = u_username u"
  shows "map (\<lambda>(i, u). u_username u) (tbl_update p f t) = map (\<lambda>(i, u). u_username u) t"
  using assms by (auto simp: tbl_update_def)

lemma auth_ok_update_user:
  assumes "auth_ok db" and "\<And>u. u_username (f u) = u_username u"
  shows "auth_ok (update_user i f db)"
  using assms by (simp add: auth_ok_def update_user_def user_ids_def tbl_update_names)

lemma map_of_update_user: "map_of (db_users (update_user i f db)) k =
    (if k = i then map_option f (map_of (db_users db) k) else map_of (db_users db) k)"
  by (simp add: update_user_def sql_simps option.map_ident)

lemma getUserById_update [simp]:
  "getUserById k (update_user i f db) = (if k = i then map_option f (getUserById k db) else getUserById k db)"
  by (simp add: getUserById_def map_of_update_user)

lemma user_id_iff: "i \<in> set (user_ids db) \<longleftrightarrow> getUserById i db \<noteq> None"
  by (auto simp: user_ids_def getUserById_def map_of_eq_None_iff)

lemma getUserByUsername_Some:
  assumes "tbl_ok (db_users db)" and "getUserByUsername n db = Some (i, u)"
  shows "getUserById i db = Some u" and "u_username u = n"
  using assms
  by (auto simp: getUserByUsername_def getUserById_def tbl_ok_def dest!: find_SomeD)

lemma getUserByUsername_iff:
  assumes "auth_ok db"
  shows "getUserByUsername n db = Some (i, u) \<longleftrightarrow> getUserById i db = Some u \<and> u_username u = n"
proof
  assume "getUserByUsername n db = Some (i, u)"
  with assms show "getUserById i db = Some u \<and> u_username u = n"
    by (auto simp: auth_ok_def dest: getUserByUsername_Some)
next
  assume r: "getUserById i db = Some u \<and> u_username u = n"
  then have mem: "(i, u) \<in> set (db_users db)"
    by (auto simp: getUserById_def dest: map_of_SomeD)
  have inj: "inj_on (\<lambda>(i, u). u_username u) (set (db_users db))"
    using assms by (auto simp: auth_ok_def distinct_map)
  obtain x where x: "find (\<lambda>(i, u). u_username u = n) (db_users db) = Some x"
    using mem r by (cases "find (\<lambda>(i, u). u_username u = n) (db_users db)") (auto simp: find_None_iff)
  have "x \<in> set (db_users db)" "u_username (snd x) = n"
    using find_SomeD [OF x] by (auto split: prod.splits)
  then have "x = (i, u)"
    using inj_onD [OF inj, of x "(i, u)"] mem r by (simp add: case_prod_beta)
  with x show "getUserByUsername n db = Some (i, u)" by (simp add: getUserByUsername_def)
qed

lemma auth_ok_createUser:
  assumes "auth_ok db" and "createUser n h r p db = Inr (j, db')"
  shows "auth_ok db'" and "getUserById j db = None" and "\<not> refers_to_user j db'"
    and "j = db_user_seq db + 1"
proof -
  have none: "getUserByUsername n db = None"
    using assms(2) by (cases "getUserByUsername n db") (auto simp: createUser_def)
  have j: "j = db_user_seq db + 1"
    and tbls: "db_tokens db' = db_tokens db" "db_ug_members db' = db_ug_members db"
      "db_dg_users db' = db_dg_users db" "db_peer_grants db' = db_peer_grants db" "db_user_seq db' = j"
    and usr: "\<exists>u. db_users db' = db_users db @ [(j, u)] \<and> u_username u = n"
    using assms(2) by (auto simp: createUser_def Let_def split: if_splits)
  have fresh: "j \<notin> set (user_ids db)" using assms(1) j by (auto simp: auth_ok_def)
  then show "getUserById j db = None" using user_id_iff by fastforce
  show "j = db_user_seq db + 1" by (rule j)
  have "n \<notin> (\<lambda>(i, u). u_username u) ` set (db_users db)"
    using none by (auto simp: getUserByUsername_def find_None_iff)
  with fresh assms(1) j usr tbls show "auth_ok db'"
    by (fastforce simp: auth_ok_def user_ids_def tbl_ok_def)
  show "\<not> refers_to_user j db'"
    using fresh assms(1) tbls by (auto simp: refers_to_user_def auth_ok_def)
qed

lemma auth_ok_deleteUser:
  assumes "auth_ok db"
  shows "auth_ok (deleteUser i db)" and "\<not> refers_to_user i (deleteUser i db)"
    and "getUserById k (deleteUser i db) = (if k = i then None else getUserById k db)"
proof -
  have t: "tbl_ok (db_users db)" using assms by (simp add: auth_ok_def)
  show g: "getUserById k (deleteUser i db) = (if k = i then None else getUserById k db)" for k
    by (simp add: getUserById_def deleteUser_def map_of_tbl_delete [OF t] split: option.splits)
  then have ids: "set (user_ids (deleteUser i db)) = set (user_ids db) - {i}"
    by (auto simp: user_id_iff split: if_splits)
  show "\<not> refers_to_user i (deleteUser i db)"
    by (auto simp: refers_to_user_def deleteUser_def)
  have "distinct (map (\<lambda>(i, u). u_username u) (tbl_delete (\<lambda>k _. k = i) (db_users db)))"
    using assms by (auto simp: auth_ok_def tbl_delete_def distinct_map inj_on_def)
  with assms t show "auth_ok (deleteUser i db)"
    unfolding auth_ok_def ids
    by (auto simp: deleteUser_def tbl_ok_delete distinct_map inj_on_def)
qed

lemma token_update_facts [simp]:
  "db_users (update_tokens p f db) = db_users db" "user_ids (update_tokens p f db) = user_ids db"
  "getUserById k (update_tokens p f db) = getUserById k db"
  by (simp_all add: update_tokens_def user_ids_def getUserById_def)

lemma auth_ok_update_tokens:
  assumes "auth_ok db" and "\<And>r. t_token (f r) = t_token r" "\<And>r. t_token_hash (f r) = t_token_hash r"
    "\<And>r. t_user_id (f r) = t_user_id r"
  shows "auth_ok (update_tokens p f db)"
proof -
  have "map t_token (map (\<lambda>r. if p r then f r else r) (db_tokens db)) = map t_token (db_tokens db)"
    "map t_token_hash (map (\<lambda>r. if p r then f r else r) (db_tokens db)) = map t_token_hash (db_tokens db)"
    using assms(2,3) by auto
  with assms show ?thesis by (auto simp: auth_ok_def update_tokens_def user_ids_def simp del: map_map)
qed

lemma auth_ok_createAccessToken:
  assumes "auth_ok db" and "createAccessToken hash token i c cu e ip db = Inr db'"
  shows "auth_ok db'"
proof -
  obtain row where row: "db' = db\<lparr>db_tokens := db_tokens db @ [row]\<rparr>" "t_user_id row = i"
      "\<forall>r \<in> set (db_tokens db). t_token r \<noteq> t_token row \<and> t_token_hash r \<noteq> t_token_hash row"
    and u: "i \<in> set (user_ids db)"
    using assms(2) by (auto simp: createAccessToken_def user_id_iff getUserById_def split: if_splits)
  then have ids: "user_ids db' = user_ids db" by (simp add: user_ids_def)
  have "\<forall>r \<in> set (db_tokens db). t_token row \<noteq> t_token r \<and> t_token_hash row \<noteq> t_token_hash r"
    using row(3) by fastforce
  with assms(1) row u show ?thesis unfolding auth_ok_def ids by (simp add: image_iff)
qed

lemma auth_ok_empty [simp]: "auth_ok empty_auth_db"
  by (simp add: auth_ok_def empty_auth_db_def user_ids_def)

text \<open>a deleted account leaves nothing behind.  After \<open>deleteUser\<close> no token, group membership,
  device-group access or device grant mentions the account, its id is not given to a later account,
  and the later account starts without any of them.\<close>

theorem deleted_account_leaves_nothing:
  assumes "auth_ok db" and "getUserById i db \<noteq> None"
    and "createUser n h r p (deleteUser i db) = Inr (j, db')"
  shows "auth_ok db' \<and> j \<noteq> i \<and> getUserById i db' = None \<and> \<not> refers_to_user i db' \<and> \<not> refers_to_user j db'"
proof -
  note del = auth_ok_deleteUser [OF assms(1), of i]
  note new = auth_ok_createUser [OF del(1) assms(3)]
  have "i \<le> db_user_seq db" using assms(1,2) by (auto simp: auth_ok_def user_id_iff)
  then have ji: "j \<noteq> i" using new(4) by (simp add: deleteUser_def)
  have db': "\<exists>u. db' = (deleteUser i db)\<lparr>db_users := db_users (deleteUser i db) @ [(j, u)], db_user_seq := j\<rparr>"
    using assms(3) by (auto simp: createUser_def Let_def split: if_splits)
  then have "getUserById i db' = getUserById i (deleteUser i db)"
    using ji by (auto simp: getUserById_def map_add_def split: option.splits)
  moreover have "refers_to_user i db' = refers_to_user i (deleteUser i db)"
    using db' by (auto simp: refers_to_user_def)
  ultimately show ?thesis using del new ji by simp
qed

definition demo_users :: "int auth_db" where
  "demo_users = empty_auth_db\<lparr>db_users := [(1, \<lparr>u_username = ''ann'', u_password_hash = ''h'', u_role = ''admin'',
       u_auth_provider = ''local'', u_last_login = None, u_language = None, u_totp_secret = None,
       u_totp_enabled = False, u_recovery_codes = None, u_profile = []\<rparr>)],
     db_user_seq := 1, db_peer_grants := [(1, ''dev1'')], db_dg_users := [(4, 1)]\<rparr>"

theorem deleted_account_leaves_nothing_witness:
  "\<not> refers_to_user 1 (snd (projr (createUser ''ann'' ''g'' ''viewer'' [] (deleteUser 1 demo_users))))"
proof -
  have ok: "auth_ok demo_users" by code_simp
  have ex: "getUserById 1 demo_users \<noteq> None" by code_simp
  have "createUser ''ann'' ''g'' ''viewer'' [] (deleteUser 1 demo_users) =
    Inr (2, snd (projr (createUser ''ann'' ''g'' ''viewer'' [] (deleteUser 1 demo_users))))" by code_simp
  from deleted_account_leaves_nothing [OF ok ex this] show ?thesis by simp
qed

end
