(* ===== verification/Auth_Tokens.thy ===== *)
theory Auth_Tokens
  imports Auth_Db
begin

text \<open>
  Client access tokens and brute-force protection (the last two sections of
  \<open>services/authService.js\<close>), over the database facade.  The record \<open>adapter\<close> holds the facade
  operations that the two engines implement differently; \<open>sqlite_adapter\<close> and \<open>pg_adapter\<close> are the
  two back ends.  The locale \<open>auth_adapter\<close> states what the service relies on; it is interpreted on
  SQLite and on PostgreSQL with a session in UTC.  A PostgreSQL session in another zone does not
  satisfy it, because the service writes UTC texts without a zone into \<open>TIMESTAMPTZ\<close> columns.
\<close>

section \<open>The facade\<close>

record 't adapter =
  ad_text :: "int \<Rightarrow> 't"
  ad_now :: "int \<Rightarrow> 't"
  ad_getAccessToken :: "(string \<Rightarrow> string) \<Rightarrow> int \<Rightarrow> string \<Rightarrow> 't auth_db \<Rightarrow> 't token_row option"
  ad_cleanupExpiredTokens :: "int \<Rightarrow> 't auth_db \<Rightarrow> 't auth_db"
  ad_countRecentFailedAttempts :: "int \<Rightarrow> string \<Rightarrow> int \<Rightarrow> 't auth_db \<Rightarrow> nat"
  ad_countRecentFailedAttemptsFromIp :: "int \<Rightarrow> string \<Rightarrow> int \<Rightarrow> 't auth_db \<Rightarrow> nat"
  ad_getAccountLockout :: "int \<Rightarrow> string \<Rightarrow> 't auth_db \<Rightarrow> 't lockout_row option"
  ad_cleanupOldLoginAttempts :: "int \<Rightarrow> 't auth_db \<Rightarrow> 't auth_db"
  ad_date_of :: "'t \<Rightarrow> int option"

fun text_date :: "sql_text \<Rightarrow> int option" where
  "text_date (Secs s) = Some (s * 1000)"
| "text_date (Millis m) = Some m"

definition sqlite_adapter :: "sql_text adapter" where
  "sqlite_adapter = \<lparr>ad_text = utc_text, ad_now = sqlite_now,
     ad_getAccessToken = sqlite_getAccessToken,
     ad_cleanupExpiredTokens = sqlite_cleanupExpiredTokens,
     ad_countRecentFailedAttempts = sqlite_countRecentFailedAttempts,
     ad_countRecentFailedAttemptsFromIp = sqlite_countRecentFailedAttemptsFromIp,
     ad_getAccountLockout = sqlite_getAccountLockout,
     ad_cleanupOldLoginAttempts = sqlite_cleanupOldLoginAttempts, ad_date_of = text_date\<rparr>"

text \<open>On PostgreSQL the driver gives a \<open>Date\<close>; what \<open>new Date(date + 'Z')\<close> makes of its text is
  implementation-defined and is the parameter \<open>reparse\<close>.\<close>

definition pg_adapter :: "int \<Rightarrow> (int \<Rightarrow> int option) \<Rightarrow> int adapter" where
  "pg_adapter tz reparse = \<lparr>ad_text = pg_timestamptz tz, ad_now = (\<lambda>now. now),
     ad_getAccessToken = pg_getAccessToken,
     ad_cleanupExpiredTokens = pg_cleanupExpiredTokens,
     ad_countRecentFailedAttempts = pg_countRecentFailedAttempts,
     ad_countRecentFailedAttemptsFromIp = pg_countRecentFailedAttemptsFromIp,
     ad_getAccountLockout = pg_getAccountLockout,
     ad_cleanupOldLoginAttempts = pg_cleanupOldLoginAttempts, ad_date_of = reparse\<rparr>"


section \<open>Limits\<close>

record auth_env =
  ev_token_days :: "string option"
  ev_max_failed :: "string option"
  ev_lockout_minutes :: "string option"
  ev_ip_limit :: "string option"
  ev_window :: "string option"

definition env_int :: "string option \<Rightarrow> int \<Rightarrow> int" where
  "env_int raw d = num_or (Option.bind raw parseInt) d"

definition TOKEN_EXPIRY_DAYS :: "auth_env \<Rightarrow> int" where
  "TOKEN_EXPIRY_DAYS e = env_int (ev_token_days e) 7"

definition MAX_FAILED_ATTEMPTS :: "auth_env \<Rightarrow> int" where
  "MAX_FAILED_ATTEMPTS e = env_int (ev_max_failed e) 10"

definition LOCKOUT_MINUTES :: "auth_env \<Rightarrow> int" where
  "LOCKOUT_MINUTES e = env_int (ev_lockout_minutes e) 15"

definition IP_RATE_LIMIT :: "auth_env \<Rightarrow> int" where
  "IP_RATE_LIMIT e = env_int (ev_ip_limit e) 30"

definition ATTEMPT_WINDOW_MINUTES :: "auth_env \<Rightarrow> int" where
  "ATTEMPT_WINDOW_MINUTES e = env_int (ev_window e) 15"


section \<open>Tokens\<close>

text \<open>\<open>token\<close> is the outcome of \<open>crypto.randomBytes(32).toString('hex')\<close>.  The older tokens of the
  client are revoked before the insert, also when the insert fails.\<close>

definition generateAccessToken ::
  "'t adapter \<Rightarrow> auth_env \<Rightarrow> (string \<Rightarrow> string) \<Rightarrow> int \<Rightarrow> string \<Rightarrow> int \<Rightarrow> string \<Rightarrow> string \<Rightarrow> string
     \<Rightarrow> 't auth_db \<Rightarrow> (db_error + string) \<times> 't auth_db" where
  "generateAccessToken A env hash now token userId clientId clientUuid ip db =
     (let db1 = revokeUserClientTokens userId clientUuid db;
          expires = ad_text A (now + TOKEN_EXPIRY_DAYS env * 24 * 60 * 60 * 1000)
      in case createAccessToken hash token userId clientId clientUuid expires ip db1 of
           Inl e \<Rightarrow> (Inl e, db1)
         | Inr db2 \<Rightarrow> (Inr token, db2))"

record token_user =
  tu_id :: int
  tu_username :: string
  tu_role :: string
  tu_clientId :: string
  tu_clientUuid :: string

definition validateAccessToken ::
  "'t adapter \<Rightarrow> (string \<Rightarrow> string) \<Rightarrow> int \<Rightarrow> string \<Rightarrow> 't auth_db \<Rightarrow> token_user option \<times> 't auth_db" where
  "validateAccessToken A hash now token db =
     (if length token \<noteq> 64 then (None, db)
      else case ad_getAccessToken A hash now token db of
        None \<Rightarrow> (None, db)
      | Some r \<Rightarrow>
          (case getUserById (t_user_id r) db of
             None \<Rightarrow> (None, db)
           | Some u \<Rightarrow>
               (Some \<lparr>tu_id = t_user_id r, tu_username = u_username u, tu_role = u_role u,
                  tu_clientId = t_client_id r, tu_clientUuid = t_client_uuid r\<rparr>,
                touchAccessToken hash (ad_now A now) token db)))"

definition revokeClientTokens :: "int \<Rightarrow> string \<Rightarrow> string \<Rightarrow> 't auth_db \<Rightarrow> 't auth_db" where
  "revokeClientTokens userId clientId clientUuid db =
     (if clientId \<noteq> [] \<and> clientUuid \<noteq> [] then revokeUserClientTokens userId clientUuid db
      else revokeAllUserTokens userId db)"


section \<open>Brute-force protection\<close>

datatype brute_result = NotBlocked | Blocked string "int option"

definition ceil_div :: "int \<Rightarrow> int \<Rightarrow> int" where
  "ceil_div a b = - ((- a) div b)"

definition checkBruteForce ::
  "'t adapter \<Rightarrow> auth_env \<Rightarrow> int \<Rightarrow> string \<Rightarrow> string \<Rightarrow> 't auth_db \<Rightarrow> brute_result" where
  "checkBruteForce A env now username ip db =
     (case (if username = [] then None else ad_getAccountLockout A now username db) of
        Some r \<Rightarrow> Blocked ''Account temporarily locked due to too many failed attempts''
          (map_option (\<lambda>d. max (ceil_div (d - now) 1000) 1) (ad_date_of A (l_locked_until r)))
      | None \<Rightarrow>
          if ip \<noteq> [] \<and> int (ad_countRecentFailedAttemptsFromIp A now ip (ATTEMPT_WINDOW_MINUTES env) db) \<ge> IP_RATE_LIMIT env
          then Blocked ''Too many failed attempts from this IP address'' (Some (ATTEMPT_WINDOW_MINUTES env * 60))
          else NotBlocked)"

definition recordAttempt ::
  "'t adapter \<Rightarrow> auth_env \<Rightarrow> int \<Rightarrow> string \<Rightarrow> string \<Rightarrow> bool \<Rightarrow> 't auth_db \<Rightarrow> 't auth_db" where
  "recordAttempt A env now username ip ok db =
     (let db1 = recordLoginAttempt (ad_now A now) username ip ok db in
      if ok then clearAccountLockout username db1
      else let failedCount = ad_countRecentFailedAttempts A now username (ATTEMPT_WINDOW_MINUTES env) db1 in
           if int failedCount \<ge> MAX_FAILED_ATTEMPTS env
           then lockAccount username (ad_text A (now + LOCKOUT_MINUTES env * 60 * 1000)) failedCount db1
           else db1)"

definition cleanupHousekeeping :: "'t adapter \<Rightarrow> int \<Rightarrow> 't auth_db \<Rightarrow> 't auth_db" where
  "cleanupHousekeeping A now db = ad_cleanupOldLoginAttempts A now (ad_cleanupExpiredTokens A now db)"


section \<open>Runs of token operations\<close>

datatype token_op =
    Generate string int string string string
  | Validate string
  | RevokeClient int string string
  | RevokeToken string
  | DeleteAccount int
  | Housekeeping

fun token_step :: "'t adapter \<Rightarrow> auth_env \<Rightarrow> (string \<Rightarrow> string) \<Rightarrow> int \<times> token_op \<Rightarrow> 't auth_db \<Rightarrow> 't auth_db" where
  "token_step A env hash (now, Generate token uid cid cuuid ip) db =
     snd (generateAccessToken A env hash now token uid cid cuuid ip db)"
| "token_step A env hash (now, Validate token) db = snd (validateAccessToken A hash now token db)"
| "token_step A env hash (now, RevokeClient uid cid cuuid) db = revokeClientTokens uid cid cuuid db"
| "token_step A env hash (now, RevokeToken token) db = revokeAccessToken hash token db"
| "token_step A env hash (now, DeleteAccount uid) db = deleteUser uid db"
| "token_step A env hash (now, Housekeeping) db = cleanupHousekeeping A now db"

definition token_run :: "'t adapter \<Rightarrow> auth_env \<Rightarrow> (string \<Rightarrow> string) \<Rightarrow> (int \<times> token_op) list \<Rightarrow> 't auth_db \<Rightarrow> 't auth_db" where
  "token_run A env hash ops db = fold (token_step A env hash) ops db"

text \<open>No usable row for a token, and the token is not drawn again.\<close>

definition token_dead :: "(string \<Rightarrow> string) \<Rightarrow> string \<Rightarrow> 't auth_db \<Rightarrow> bool" where
  "token_dead hash token db =
     list_all (\<lambda>r. t_revoked r \<or> (t_token_hash r \<noteq> hash token \<and> t_token r \<noteq> token)) (db_tokens db)"

fun redraws :: "(string \<Rightarrow> string) \<Rightarrow> string \<Rightarrow> token_op \<Rightarrow> bool" where
  "redraws hash token (Generate t uid cid cuuid ip) = (t = token \<or> hash t = hash token)"
| "redraws hash token _ = False"

definition live_rows :: "int \<Rightarrow> string \<Rightarrow> 't auth_db \<Rightarrow> 't token_row list" where
  "live_rows uid cuuid db =
     filter (\<lambda>r. \<not> t_revoked r \<and> t_user_id r = uid \<and> t_client_uuid r = cuuid) (db_tokens db)"


section \<open>What the service relies on\<close>

lemma select_token_sound:
  assumes "select_token alive hash token db = Some r"
  shows "r \<in> set (db_tokens db)" "\<not> t_revoked r" "alive (t_expires_at r)"
    "t_token_hash r = hash token \<or> t_token r = token"
  using assms by (auto simp: select_token_def split: option.splits dest!: find_SomeD)

locale auth_adapter =
  fixes A :: "'t adapter"
    and alive :: "int \<Rightarrow> 't \<Rightarrow> bool"
    and recent :: "int \<Rightarrow> int \<Rightarrow> 't \<Rightarrow> bool"
  assumes get_token: "ad_getAccessToken A hash now = select_token (alive now) hash"
    and get_lockout: "ad_getAccountLockout A now = select_lockout (alive now)"
    and alive_text: "now < e \<Longrightarrow> alive now (ad_text A e)"
    and dead_text: "e + 1000 \<le> now \<Longrightarrow> \<not> alive now (ad_text A e)"
    and failed: "ad_countRecentFailedAttempts A now name mins db
      = count_failures (\<lambda>a. at_username a = name \<and> recent now mins (at_created a)) db"
    and recent_now: "now - mins * 60000 + 1000 \<le> t \<Longrightarrow> recent now mins (ad_now A t)"
    and old_now: "t \<le> now - mins * 60000 \<Longrightarrow> \<not> recent now mins (ad_now A t)"
    and cleanup_tokens: "\<exists>p. ad_cleanupExpiredTokens A now db = delete_tokens p db"
    and cleanup_attempts: "\<exists>q. ad_cleanupOldLoginAttempts A now db = delete_attempts q db"
begin

lemma generated_token_found:
  assumes g: "generateAccessToken A env hash now token uid cid cuuid ip db = (Inr token, db')"
    and live: "now' < now + TOKEN_EXPIRY_DAYS env * 24 * 60 * 60 * 1000"
  shows "\<exists>r. ad_getAccessToken A hash now' token db' = Some r \<and> t_user_id r = uid
    \<and> t_client_id r = cid \<and> t_client_uuid r = cuuid \<and> db_users db' = db_users db"
proof -
  let ?e = "ad_text A (now + TOKEN_EXPIRY_DAYS env * 24 * 60 * 60 * 1000)"
  let ?db = "revokeUserClientTokens uid cuuid db"
  obtain row where row: "db' = ?db\<lparr>db_tokens := db_tokens ?db @ [row]\<rparr>" "t_token_hash row = hash token"
      "\<not> t_revoked row" "t_expires_at row = ?e" "t_user_id row = uid" "t_client_id row = cid" "t_client_uuid row = cuuid"
    and fresh: "\<forall>r \<in> set (db_tokens ?db). t_token_hash r \<noteq> hash token"
    using g by (auto simp: generateAccessToken_def Let_def createAccessToken_def split: if_splits sum.splits)
  have "find (\<lambda>r. t_token_hash r = hash token \<and> \<not> t_revoked r \<and> alive now' (t_expires_at r)) (db_tokens ?db) = None"
    using fresh by (auto simp: find_None_iff)
  moreover have "alive now' ?e" by (rule alive_text [OF live])
  ultimately have "ad_getAccessToken A hash now' token db' = Some row"
    using row by (simp add: get_token select_token_def find_append)
  with row show ?thesis by (simp add: revokeUserClientTokens_def)
qed

lemma validate_generated:
  assumes g: "generateAccessToken A env hash now token uid cid cuuid ip db = (Inr token, db')"
    and live: "now' < now + TOKEN_EXPIRY_DAYS env * 24 * 60 * 60 * 1000" and len: "length token = 64"
    and u: "getUserById uid db = Some u"
  shows "fst (validateAccessToken A hash now' token db') = Some \<lparr>tu_id = uid, tu_username = u_username u,
    tu_role = u_role u, tu_clientId = cid, tu_clientUuid = cuuid\<rparr>"
proof -
  obtain r where r: "ad_getAccessToken A hash now' token db' = Some r" "t_user_id r = uid"
      "t_client_id r = cid" "t_client_uuid r = cuuid" "db_users db' = db_users db"
    using generated_token_found [OF g live] by blast
  then have "getUserById uid db' = Some u" using u by (simp add: getUserById_def)
  with r len show ?thesis by (simp add: validateAccessToken_def)
qed

lemma validate_needs_live:
  assumes "fst (validateAccessToken A hash now token db) = Some tu"
  shows "\<exists>r \<in> set (db_tokens db). \<not> t_revoked r \<and> alive now (t_expires_at r)
    \<and> (t_token_hash r = hash token \<or> t_token r = token) \<and> t_user_id r = tu_id tu"
proof -
  obtain r where "ad_getAccessToken A hash now token db = Some r" "t_user_id r = tu_id tu"
    using assms by (auto simp: validateAccessToken_def split: if_splits option.splits)
  then show ?thesis using select_token_sound [of "alive now" hash token db r] by (auto simp: get_token)
qed

lemma lockout_blocks:
  assumes n: "name \<noteq> []" and l: "map_of (db_lockouts db) name = Some r"
    and r: "l_locked_until r = ad_text A e" and t: "now < e"
  shows "checkBruteForce A env now name ip db \<noteq> NotBlocked"
  using n l r alive_text [OF t] by (simp add: checkBruteForce_def get_lockout select_lockout_def)

lemma failure_locks:
  assumes "int (ad_countRecentFailedAttempts A now name (ATTEMPT_WINDOW_MINUTES env) db) + 1 \<ge> MAX_FAILED_ATTEMPTS env"
    and "ATTEMPT_WINDOW_MINUTES env \<ge> 1"
  shows "\<exists>r. map_of (db_lockouts (recordAttempt A env now name ip False db)) name = Some r
    \<and> l_locked_until r = ad_text A (now + LOCKOUT_MINUTES env * 60 * 1000)"
proof -
  let ?w = "ATTEMPT_WINDOW_MINUTES env"
  let ?db = "recordLoginAttempt (ad_now A now) name ip False db"
  have "recent now ?w (ad_now A now)"
    using assms(2) by (intro recent_now) simp
  then have "ad_countRecentFailedAttempts A now name ?w ?db = ad_countRecentFailedAttempts A now name ?w db + 1"
    by (simp add: failed count_failures_def recordLoginAttempt_def)
  with assms(1) show ?thesis
    by (auto simp: recordAttempt_def Let_def lockAccount_def map_of_tbl_upsert split: option.splits)
qed

end

lemma createAccessToken_row:
  assumes "createAccessToken hash t uid cid cuuid e ip db = Inr db'"
  obtains row where "db_tokens db' = db_tokens db @ [row]" "t_user_id row = uid" "t_client_uuid row = cuuid"
  using assms by (force simp: createAccessToken_def split: if_splits)

lemma revoke_live: "live_rows u c (revokeUserClientTokens u c db) = []"
proof -
  have "filter (\<lambda>r. \<not> t_revoked r \<and> t_user_id r = u \<and> t_client_uuid r = c)
      (map (\<lambda>r. if t_user_id r = u \<and> t_client_uuid r = c then r\<lparr>t_revoked := True\<rparr> else r) xs) = []" for xs
    by (induction xs) simp_all
  then show ?thesis by (simp add: live_rows_def revokeUserClientTokens_def update_tokens_def)
qed

lemma live_filter_le:
  assumes "db_tokens db' = filter p (db_tokens db)"
  shows "length (live_rows u c db') \<le> length (live_rows u c db)"
  unfolding live_rows_def assms by (rule length_filter_filter_le)

lemma live_update_le:
  assumes "\<And>r. t_revoked r \<Longrightarrow> t_revoked (f r)" "\<And>r. t_user_id (f r) = t_user_id r"
    "\<And>r. t_client_uuid (f r) = t_client_uuid r"
  shows "length (live_rows u c (update_tokens p f db)) \<le> length (live_rows u c db)"
proof -
  have "length (filter Q (map (\<lambda>r. if p r then f r else r) (db_tokens db))) \<le> length (filter Q (db_tokens db))"
    if "Q = (\<lambda>r. \<not> t_revoked r \<and> t_user_id r = u \<and> t_client_uuid r = c)" for Q
    using assms that by (intro length_filter_map_le) (auto split: if_splits)
  then show ?thesis by (simp add: live_rows_def update_tokens_def)
qed

context auth_adapter
begin

lemma housekeeping_tokens: "\<exists>p. db_tokens (cleanupHousekeeping A now db) = filter p (db_tokens db)"
proof -
  obtain p where p: "ad_cleanupExpiredTokens A now db = delete_tokens p db" using cleanup_tokens by blast
  obtain q where "ad_cleanupOldLoginAttempts A now (delete_tokens p db) = delete_attempts q (delete_tokens p db)"
    using cleanup_attempts by blast
  then have "db_tokens (cleanupHousekeeping A now db) = filter (\<lambda>r. \<not> p r) (db_tokens db)"
    by (simp add: cleanupHousekeeping_def p delete_tokens_def delete_attempts_def)
  then show ?thesis by blast
qed

lemma dead_step:
  assumes "token_dead hash token db" and "\<not> redraws hash token op"
  shows "token_dead hash token (token_step A env hash (now, op) db)"
proof (cases op)
  case (Generate t uid cid cuuid ip)
  with assms show ?thesis
    by (auto simp: generateAccessToken_def createAccessToken_def Let_def token_dead_def list_all_iff
        revokeUserClientTokens_def update_tokens_def split: sum.splits if_splits)
next
  case Housekeeping
  obtain p where "db_tokens (cleanupHousekeeping A now db) = filter p (db_tokens db)"
    using housekeeping_tokens by blast
  with assms Housekeeping show ?thesis by (auto simp: token_dead_def list_all_iff)
qed (use assms in \<open>auto simp: validateAccessToken_def touchAccessToken_def revokeClientTokens_def
  revokeUserClientTokens_def revokeAllUserTokens_def revokeAccessToken_def deleteUser_def
  update_tokens_def token_dead_def list_all_iff split: option.splits\<close>)

lemma dead_run:
  assumes "token_dead hash token db" and "list_all (\<lambda>(now, op). \<not> redraws hash token op) ops"
  shows "token_dead hash token (token_run A env hash ops db)"
  using assms
proof (induction ops arbitrary: db)
  case Nil
  then show ?case by (simp add: token_run_def)
next
  case (Cons x ops)
  then show ?case
    using dead_step [of hash token db "snd x" env "fst x"] by (cases x) (simp add: token_run_def)
qed

lemma dead_refused:
  assumes "token_dead hash token db"
  shows "fst (validateAccessToken A hash now token db) = None"
proof (rule ccontr)
  assume "fst (validateAccessToken A hash now token db) \<noteq> None"
  then obtain tu where "fst (validateAccessToken A hash now token db) = Some tu" by auto
  from validate_needs_live [OF this] assms show False by (auto simp: token_dead_def list_all_iff)
qed

lemma live_step:
  assumes "length (live_rows u c db) \<le> 1"
  shows "length (live_rows u c (token_step A env hash (now, op) db)) \<le> 1"
proof (cases op)
  case (Generate t uid cid cuuid ip)
  let ?db = "revokeUserClientTokens uid cuuid db"
  have "length (live_rows u c ?db) \<le> length (live_rows u c db)"
    unfolding revokeUserClientTokens_def by (rule live_update_le) simp_all
  with assms have le: "length (live_rows u c ?db) \<le> 1" by linarith
  have nil: "u = uid \<Longrightarrow> c = cuuid \<Longrightarrow> live_rows u c ?db = []"
    using revoke_live by blast
  show ?thesis
  proof (cases "createAccessToken hash t uid cid cuuid
      (ad_text A (now + TOKEN_EXPIRY_DAYS env * 24 * 60 * 60 * 1000)) ip ?db")
    case (Inl e)
    with Generate le show ?thesis by (simp add: generateAccessToken_def)
  next
    case (Inr db')
    then obtain row where "db_tokens db' = db_tokens ?db @ [row]" "t_user_id row = uid" "t_client_uuid row = cuuid"
      by (rule createAccessToken_row)
    then have "live_rows u c db' = live_rows u c ?db @ (if \<not> t_revoked row \<and> uid = u \<and> cuuid = c then [row] else [])"
      by (simp add: live_rows_def)
    moreover have "live_rows u c (token_step A env hash (now, op) db) = live_rows u c db'"
      using Generate Inr by (simp add: generateAccessToken_def)
    ultimately show ?thesis using le nil by (cases "uid = u \<and> cuuid = c") auto
  qed
next
  case Housekeeping
  obtain p where "db_tokens (cleanupHousekeeping A now db) = filter p (db_tokens db)"
    using housekeeping_tokens by blast
  from live_filter_le [OF this, of u c] assms Housekeeping show ?thesis by simp
next
  case (DeleteAccount i)
  have "db_tokens (deleteUser i db) = filter (\<lambda>t. t_user_id t \<noteq> i) (db_tokens db)" by (simp add: deleteUser_def)
  from live_filter_le [OF this, of u c] assms DeleteAccount show ?thesis by simp
qed (use assms in \<open>auto simp: validateAccessToken_def touchAccessToken_def revokeClientTokens_def
  revokeUserClientTokens_def revokeAllUserTokens_def revokeAccessToken_def
  split: option.splits intro: order_trans [OF live_update_le]\<close>)

lemma live_run:
  "length (live_rows u c db) \<le> 1 \<Longrightarrow> length (live_rows u c (token_run A env hash ops db)) \<le> 1"
proof (induction ops arbitrary: db)
  case Nil
  then show ?case by (simp add: token_run_def)
next
  case (Cons x ops)
  then show ?case using live_step [of u c db env hash "fst x" "snd x"] by (cases x) (simp add: token_run_def)
qed

end

lemma text_clock:
  "text_less (sqlite_now now) (utc_text e) \<longleftrightarrow> now div 1000 \<le> e div 1000"
  by (simp add: sqlite_now_def utc_text_def)

interpretation sqa: auth_adapter sqlite_adapter "\<lambda>now e. text_less (sqlite_now now) e"
  "\<lambda>now mins c. text_less (Secs (now div 1000 - mins * 60)) c"
proof unfold_locales
  fix now e :: int
  show "now < e \<Longrightarrow> text_less (sqlite_now now) (ad_text sqlite_adapter e)"
    by (simp add: sqlite_adapter_def text_clock zdiv_mono1)
  show "e + 1000 \<le> now \<Longrightarrow> \<not> text_less (sqlite_now now) (ad_text sqlite_adapter e)"
    by (simp add: sqlite_adapter_def text_clock)
next
  fix now mins t :: int
  show "now - mins * 60000 + 1000 \<le> t \<Longrightarrow> text_less (Secs (now div 1000 - mins * 60)) (ad_now sqlite_adapter t)"
    by (simp add: sqlite_adapter_def sqlite_now_def)
  show "t \<le> now - mins * 60000 \<Longrightarrow> \<not> text_less (Secs (now div 1000 - mins * 60)) (ad_now sqlite_adapter t)"
    by (simp add: sqlite_adapter_def sqlite_now_def)
qed (auto simp: sqlite_adapter_def sqlite_getAccessToken_def sqlite_getAccountLockout_def
    sqlite_countRecentFailedAttempts_def sqlite_cleanupExpiredTokens_def sqlite_cleanupOldLoginAttempts_def)

interpretation pga: auth_adapter "pg_adapter 0 reparse" "\<lambda>now e. now < e"
  "\<lambda>now mins c. now - mins * 60000 < c" for reparse
  by unfold_locales (auto simp: pg_adapter_def pg_timestamptz_def pg_getAccessToken_def pg_getAccountLockout_def
    pg_countRecentFailedAttempts_def pg_cleanupExpiredTokens_def pg_cleanupOldLoginAttempts_def)


section \<open>Properties\<close>

text \<open>a client token is good for its lifetime.  A token that \<open>generateAccessToken\<close> issued on
  SQLite is accepted until it expires, and names the account, its present role and the client it
  was issued to.\<close>

theorem issued_token_validates:
  assumes "generateAccessToken sqlite_adapter env hash now token uid cid cuuid ip db = (Inr token, db')"
    and "now' < now + TOKEN_EXPIRY_DAYS env * 24 * 60 * 60 * 1000" and "length token = 64"
    and "getUserById uid db = Some u"
  shows "fst (validateAccessToken sqlite_adapter hash now' token db') =
    Some \<lparr>tu_id = uid, tu_username = u_username u, tu_role = u_role u, tu_clientId = cid, tu_clientUuid = cuuid\<rparr>"
  by (rule sqa.validate_generated [OF assms])

definition demo_env :: auth_env where
  "demo_env = \<lparr>ev_token_days = None, ev_max_failed = Some ''3'', ev_lockout_minutes = None, ev_ip_limit = None, ev_window = None\<rparr>"

definition demo_db :: "'t auth_db" where
  "demo_db = empty_auth_db\<lparr>db_users := [(1, \<lparr>u_username = ''ann'', u_password_hash = ''h'', u_role = ''operator'',
       u_auth_provider = ''local'', u_last_login = None, u_language = None, u_totp_secret = None,
       u_totp_enabled = False, u_recovery_codes = None, u_profile = []\<rparr>)], db_user_seq := 1\<rparr>"

definition demo_token :: string where
  "demo_token = replicate 64 CHR ''a''"

definition demo_issued :: "sql_text auth_db" where
  "demo_issued = snd (generateAccessToken sqlite_adapter demo_env (\<lambda>s. s) 1000 demo_token 1 ''c'' ''u'' [] demo_db)"

theorem issued_token_validates_witness:
  "map_option tu_role (fst (validateAccessToken sqlite_adapter (\<lambda>s. s) 604800999 demo_token demo_issued)) = Some ''operator''"
proof -
  have g: "generateAccessToken sqlite_adapter demo_env (\<lambda>s. s) 1000 demo_token 1 ''c'' ''u'' [] demo_db = (Inr demo_token, demo_issued)"
    by code_simp
  have u: "getUserById 1 (demo_db :: sql_text auth_db) = Some (snd (hd (db_users (demo_db :: sql_text auth_db))))" by code_simp
  have l: "(604800999 :: int) < 1000 + TOKEN_EXPIRY_DAYS demo_env * 24 * 60 * 60 * 1000" by code_simp
  have n: "length demo_token = 64" by code_simp
  have r: "u_role (snd (hd (db_users (demo_db :: sql_text auth_db)))) = ''operator''" by code_simp
  show ?thesis using issued_token_validates [OF g l n u] r by simp
qed

text \<open>revocation is final.  Once no usable row of a token is left (it was revoked, its client
  logged out, or its account was deleted), the token is refused after every later run of token
  operations, as long as the random generator does not draw it again.\<close>

theorem revoked_token_stays_refused:
  assumes "token_dead hash token db" and "list_all (\<lambda>(now, op). \<not> redraws hash token op) ops"
  shows "fst (validateAccessToken sqlite_adapter hash now token (token_run sqlite_adapter env hash ops db)) = None"
  using sqa.dead_refused [OF sqa.dead_run [OF assms]] .

theorem revoked_token_stays_refused_witness:
  "fst (validateAccessToken sqlite_adapter (\<lambda>s. s) 5000 demo_token
     (token_run sqlite_adapter demo_env (\<lambda>s. s)
        [(3000, Generate (replicate 64 CHR ''b'') 1 ''c'' ''u'' []), (4000, Validate demo_token), (4500, Housekeeping)]
        (revokeClientTokens 1 ''c'' ''u'' demo_issued))) = None"
  by (rule revoked_token_stays_refused) code_simp+

text \<open>one usable token per client.  In every run of token operations from a database with at
  most one, an account has at most one unrevoked token for a client installation.\<close>

theorem one_token_per_client:
  assumes "length (live_rows uid cuuid db) \<le> 1"
  shows "length (live_rows uid cuuid (token_run sqlite_adapter env hash ops db)) \<le> 1"
  by (rule sqa.live_run [OF assms])

theorem one_token_per_client_witness:
  "length (live_rows 1 ''u'' (token_run sqlite_adapter demo_env (\<lambda>s. s)
     [(3000, Generate (replicate 64 CHR ''b'') 1 ''c'' ''u'' []), (4000, Generate (replicate 64 CHR ''d'') 1 ''c'' ''u'' [])]
     demo_issued)) \<le> 1"
  by (rule one_token_per_client) code_simp

text \<open>C36: The account lockout on SQLite. When the failures of an account inside the window, the present one
  included, reach the limit, recording this failure locks the account: until the end of the lockout every check by
  \<open>checkBruteForce\<close> blocks the account, whatever address the attempt comes from. The account has a name
  and the window is at least a minute. The claim is about SQLite and about callers of
  \<open>checkBruteForce\<close>, which are the routes of the client API. On PostgreSQL the end of the lockout is
  shifted by the zone of the database (\<open>pg_lockout_void_east_of_utc\<close>), and the panel login does not
  call the check (\<open>panel_login_ignores_lockout\<close>).\<close>

theorem failures_lock_account:
  assumes "name \<noteq> []" and "ATTEMPT_WINDOW_MINUTES env \<ge> 1"
    and "int (sqlite_countRecentFailedAttempts now name (ATTEMPT_WINDOW_MINUTES env) db) + 1 \<ge> MAX_FAILED_ATTEMPTS env"
    and "now' < now + LOCKOUT_MINUTES env * 60 * 1000"
  shows "checkBruteForce sqlite_adapter env now' name ip' (recordAttempt sqlite_adapter env now name ip False db) \<noteq> NotBlocked"
proof -
  have "int (ad_countRecentFailedAttempts sqlite_adapter now name (ATTEMPT_WINDOW_MINUTES env) db) + 1 \<ge> MAX_FAILED_ATTEMPTS env"
    using assms(3) by (simp add: sqlite_adapter_def)
  from sqa.failure_locks [OF this assms(2), of ip] obtain r where
    "map_of (db_lockouts (recordAttempt sqlite_adapter env now name ip False db)) name = Some r"
    "l_locked_until r = ad_text sqlite_adapter (now + LOCKOUT_MINUTES env * 60 * 1000)" by blast
  from sqa.lockout_blocks [OF assms(1) this assms(4)] show ?thesis .
qed

definition demo_two_failures :: "sql_text auth_db" where
  "demo_two_failures = recordAttempt sqlite_adapter demo_env 2000 ''ann'' ''ip1'' False
     (recordAttempt sqlite_adapter demo_env 1000 ''ann'' ''ip1'' False demo_db)"

theorem failures_lock_account_witness:
  "checkBruteForce sqlite_adapter demo_env 3000 ''ann'' ''ip2'' demo_two_failures = NotBlocked \<and>
   checkBruteForce sqlite_adapter demo_env 900000 ''ann'' ''ip2''
     (recordAttempt sqlite_adapter demo_env 3000 ''ann'' ''ip1'' False demo_two_failures) \<noteq> NotBlocked"
proof
  show "checkBruteForce sqlite_adapter demo_env 3000 ''ann'' ''ip2'' demo_two_failures = NotBlocked" by code_simp
  show "checkBruteForce sqlite_adapter demo_env 900000 ''ann'' ''ip2''
     (recordAttempt sqlite_adapter demo_env 3000 ''ann'' ''ip1'' False demo_two_failures) \<noteq> NotBlocked"
    by (rule failures_lock_account) code_simp+
qed

text \<open>on PostgreSQL the lockout depends on the time zone of the database session.  The service
  writes the end of the lockout as a UTC text without a zone; in a session at least the length of
  the lockout east of UTC the stored instant has already passed, and a failing login never blocks
  the account.\<close>

theorem pg_lockout_void_east_of_utc:
  assumes "LOCKOUT_MINUTES env * 60 * 1000 \<le> tz" and "now \<le> now'"
    and "map_of (db_lockouts db) name = None"
  shows "pg_getAccountLockout now' name (recordAttempt (pg_adapter tz reparse) env now name ip False db) = None"
  using assms
  by (simp add: recordAttempt_def Let_def pg_adapter_def pg_getAccountLockout_def select_lockout_def
      lockAccount_def map_of_tbl_upsert pg_timestamptz_def recordLoginAttempt_def)

theorem pg_lockout_void_east_of_utc_witness:
  "pg_getAccountLockout 1000 ''ann'' (recordAttempt (pg_adapter 7200000 Some) demo_env 1000 ''ann'' [] False demo_db) = None"
  by (rule pg_lockout_void_east_of_utc) code_simp+

end
