(* ===== verification/Auth_Service.thy ===== *)
theory Auth_Service
  imports Auth_Db
begin

text \<open>
  Password authentication (\<open>services/authService.js\<close>): reading the answers of the Go server, the two
  stored hash formats, the provider-bound login flow and the accounts it provisions.

  bcrypt, PBKDF2 and the random unusable hash are parameters (record \<open>crypto_ops\<close>), and so are the
  answers of the Go server (record \<open>go_server\<close>).  A request is a value of \<open>http_result\<close>: a
  transport error or time-out, or a status with the parsed body (\<^term>\<open>None\<close> when the body is not JSON).
  The steps of one login run without another writer in between.
\<close>

section \<open>Answers of the Go server\<close>

record go_body =
  gb_token :: "string option"
  gb_role :: "string option"
  gb_auth_provider :: "string option"
  gb_requires_2fa :: bool
  gb_partial_token :: "string option"
  gb_authenticated :: bool
  gb_error :: "string option"

datatype http_result = TransportError | Http int "go_body option"

record go_server =
  go_login :: "string \<Rightarrow> string \<Rightarrow> http_result"
  go_ldap_verify :: "string \<Rightarrow> string \<Rightarrow> http_result"

definition truthy :: "string option \<Rightarrow> bool" where
  "truthy s = (s \<noteq> None \<and> s \<noteq> Some [])"

datatype go_answer = GoAccepted go_body | GoRejected bool "string option" | GoUnreachable

text \<open>The flag of \<^const>\<open>GoRejected\<close> is \<open>rateLimited\<close>.\<close>

definition authenticateViaGo :: "http_result \<Rightarrow> go_answer" where
  "authenticateViaGo resp =
     (case resp of
        TransportError \<Rightarrow> GoUnreachable
      | Http st None \<Rightarrow> GoUnreachable
      | Http st (Some b) \<Rightarrow>
          if st = 200 then GoAccepted b
          else if st = 401 \<or> st = 400 then GoRejected False (gb_error b)
          else if st = 429 then GoRejected True (gb_error b)
          else GoUnreachable)"

definition verifyTotpViaGo :: "http_result \<Rightarrow> go_answer" where
  "verifyTotpViaGo resp =
     (case resp of
        TransportError \<Rightarrow> GoUnreachable
      | Http st None \<Rightarrow> GoUnreachable
      | Http st (Some b) \<Rightarrow>
          if st = 200 \<and> truthy (gb_token b) then GoAccepted b
          else if st = 401 \<or> st = 400 then GoRejected False (gb_error b)
          else if st = 429 then GoRejected True (gb_error b)
          else GoUnreachable)"

record go_result =
  gr_role :: string
  gr_auth_provider :: "string option"
  gr_requires2fa :: bool
  gr_partial_token :: "string option"

definition tryGoServerAuth :: "http_result \<Rightarrow> go_result option" where
  "tryGoServerAuth resp =
     (case resp of
        Http st (Some b) \<Rightarrow>
          if st \<noteq> 200 then None
          else if truthy (gb_token b) \<and> truthy (gb_role b) then
            Some \<lparr>gr_role = the (gb_role b), gr_auth_provider = gb_auth_provider b,
              gr_requires2fa = False, gr_partial_token = None\<rparr>
          else if gb_requires_2fa b then
            Some \<lparr>gr_role = ''admin'', gr_auth_provider = None, gr_requires2fa = True, gr_partial_token = None\<rparr>
          else None
      | _ \<Rightarrow> None)"

definition tryLdapVerifyOnGo :: "http_result \<Rightarrow> bool" where
  "tryLdapVerifyOnGo resp = (case resp of Http st (Some b) \<Rightarrow> st = 200 \<and> gb_authenticated b | _ \<Rightarrow> False)"

record sso_status =
  sso_ldap :: bool
  sso_oidc :: bool
  sso_any :: bool

definition no_sso :: sso_status where
  "no_sso = \<lparr>sso_ldap = False, sso_oidc = False, sso_any = False\<rparr>"

definition SSO_STATUS_TTL_MS :: int where "SSO_STATUS_TTL_MS = 60000"

datatype sso_response = SsoError | SsoHttp int "sso_status option"

text \<open>The cache holds the time of the request and its value; errors are not cached.\<close>

definition getGoSSOStatus ::
  "int \<Rightarrow> sso_response \<Rightarrow> (int \<times> sso_status) option \<Rightarrow> sso_status \<times> (int \<times> sso_status) option" where
  "getGoSSOStatus now resp cache =
     (if (\<exists>c. cache = Some c \<and> now - fst c < SSO_STATUS_TTL_MS) then (snd (the cache), cache)
      else case resp of
        SsoError \<Rightarrow> (no_sso, cache)
      | SsoHttp st body \<Rightarrow>
          let value = (if st = 200 then (case body of None \<Rightarrow> no_sso | Some v \<Rightarrow> v) else no_sso)
          in (value, Some (now, value)))"

definition GO_HEALTH_CACHE_TTL :: int where "GO_HEALTH_CACHE_TTL = 10000"

text \<open>\<open>resp\<close> is the status, or \<^term>\<open>None\<close> for an error, a time-out or a bad URL; \<open>done\<close> the time it
  arrives.\<close>

definition checkGoServerHealth :: "int \<Rightarrow> int \<Rightarrow> int option \<Rightarrow> (bool \<times> int) option \<Rightarrow> bool \<times> (bool \<times> int) option" where
  "checkGoServerHealth now done resp cache =
     (if (\<exists>c. cache = Some c \<and> now - snd c < GO_HEALTH_CACHE_TTL) then (fst (the cache), cache)
      else let ok = (case resp of None \<Rightarrow> False | Some st \<Rightarrow> 200 \<le> st \<and> st < 400)
           in (ok, Some (ok, done)))"


section \<open>Password hashes\<close>

record crypto_ops =
  bcrypt_compare :: "string \<Rightarrow> string \<Rightarrow> bool"
  hashPassword :: "string \<Rightarrow> string"
  unusablePasswordHash :: string
  pbkdf2Sync :: "string \<Rightarrow> nat list \<Rightarrow> int \<Rightarrow> nat \<Rightarrow> nat list"

definition hex_string :: "nat \<Rightarrow> string \<Rightarrow> bool" where
  "hex_string n s = (length s = n \<and> list_all is_hex s)"

definition PBKDF2_MODERN_PREFIX :: string where "PBKDF2_MODERN_PREFIX = ''pbkdf2-sha256$''"

definition isPBKDF2Hash :: "string \<Rightarrow> bool" where
  "isPBKDF2Hash hash =
     (if hash = [] \<or> startsWith hash ''$2b$'' \<or> startsWith hash ''$2a$'' then False
      else if startsWith hash PBKDF2_MODERN_PREFIX then True
      else let parts = split_on CHR '':'' hash
           in length parts = 2 \<and> hex_string 32 (parts ! 0) \<and> hex_string 64 (parts ! 1))"

definition hex_val :: "char \<Rightarrow> nat" where
  "hex_val c = (let n = of_char c in if n \<le> 57 then n - 48 else if n \<le> 70 then n - 55 else n - 87)"

text \<open>\<open>Buffer.from(s, 'hex')\<close>: pairs of hex digits up to the first pair that is not one.\<close>

fun hex_decode :: "string \<Rightarrow> nat list" where
  "hex_decode (a # b # cs) = (if is_hex a \<and> is_hex b then (16 * hex_val a + hex_val b) # hex_decode cs else [])"
| "hex_decode _ = []"

datatype auth_error = DbError db_error | BufferLengths

text \<open>\<open>crypto.timingSafeEqual\<close> throws on buffers of different lengths.\<close>

definition timingSafeEqual :: "nat list \<Rightarrow> nat list \<Rightarrow> auth_error + bool" where
  "timingSafeEqual a b = (if length a \<noteq> length b then Inl BufferLengths else Inr (a = b))"

definition verifyPBKDF2 :: "crypto_ops \<Rightarrow> string \<Rightarrow> string \<Rightarrow> auth_error + bool" where
  "verifyPBKDF2 C password stored =
     (if startsWith stored PBKDF2_MODERN_PREFIX then
        let parts = split_on CHR ''$'' stored in
        if length parts \<noteq> 4 then Inr False
        else case parseInt (parts ! 1) of
          None \<Rightarrow> Inr False
        | Some iter \<Rightarrow>
            if iter \<le> 0 \<or> iter > 10000000 then Inr False
            else let salt = hex_decode (parts ! 2); expected = hex_decode (parts ! 3) in
                 if salt = [] \<or> expected = [] then Inr False
                 else let derived = pbkdf2Sync C password salt iter (length expected) in
                      if length derived = length expected then timingSafeEqual expected derived else Inr False
      else
        let parts = split_on CHR '':'' stored in
        if length parts \<noteq> 2 then Inr False
        else timingSafeEqual (hex_decode (parts ! 1)) (pbkdf2Sync C password (hex_decode (parts ! 0)) 100000 32))"

definition verifyPasswordEx :: "crypto_ops \<Rightarrow> string \<Rightarrow> string \<Rightarrow> auth_error + bool \<times> bool" where
  "verifyPasswordEx C password hash =
     (if isPBKDF2Hash hash then
        (case verifyPBKDF2 C password hash of Inl e \<Rightarrow> Inl e | Inr v \<Rightarrow> Inr (v, True))
      else Inr (bcrypt_compare C password hash, False))"

definition verifyPassword :: "crypto_ops \<Rightarrow> string \<Rightarrow> string \<Rightarrow> auth_error + bool" where
  "verifyPassword C password hash = (case verifyPasswordEx C password hash of Inl e \<Rightarrow> Inl e | Inr (v, _) \<Rightarrow> Inr v)"


section \<open>Identity providers\<close>

definition normalizeAuthProvider :: "string option \<Rightarrow> string" where
  "normalizeAuthProvider provider =
     (let value = js_lower (js_trim (or_str provider ''local''))
      in if value \<in> {''local'', ''ldap'', ''oidc''} then value else ''local'')"

definition inferAuthProviderFromSSO :: "go_result \<Rightarrow> sso_status \<Rightarrow> string" where
  "inferAuthProviderFromSSO g sso =
     (if truthy (gr_auth_provider g) then normalizeAuthProvider (gr_auth_provider g)
      else if sso_ldap sso \<and> \<not> sso_oidc sso then ''ldap''
      else if sso_oidc sso \<and> \<not> sso_ldap sso then ''oidc''
      else ''local'')"

definition isExternalAuthProvider :: "string option \<Rightarrow> bool" where
  "isExternalAuthProvider provider =
     (let p = normalizeAuthProvider provider in p = ''ldap'' \<or> p = ''oidc'')"

definition isExternalAuthResult :: "go_result \<Rightarrow> bool" where
  "isExternalAuthResult g = isExternalAuthProvider (gr_auth_provider g)"


section \<open>Accounts from the Go server\<close>

text \<open>The user object is the row with its id; the copy that the function returns carries the new role
  and provider.\<close>

definition syncLocalUserFromGoResult ::
  "crypto_ops \<Rightarrow> int \<times> user_row \<Rightarrow> go_result \<Rightarrow> string option \<Rightarrow> sso_status \<Rightarrow> 't auth_db
     \<Rightarrow> (int \<times> user_row) \<times> 't auth_db" where
  "syncLocalUserFromGoResult C user g password sso db =
     (let (i, u) = user;
          provider = inferAuthProviderFromSSO g sso;
          role = (if gr_role g = [] then u_role u else gr_role g);
          oldProvider = normalizeAuthProvider (Some (u_auth_provider u));
          sProvider = (if provider \<noteq> oldProvider then Some provider else None);
          sRole = (if role \<noteq> [] \<and> role \<noteq> u_role u then Some role else None);
          sHash = (if truthy password \<and> provider = ''local'' then Some (hashPassword C (the password))
                   else if provider \<noteq> ''local'' \<and> provider \<noteq> oldProvider then Some (unusablePasswordHash C)
                   else None)
      in if sProvider = None \<and> sRole = None \<and> sHash = None then (user, db)
         else ((i, u\<lparr>u_role := (case sRole of None \<Rightarrow> u_role u | Some r \<Rightarrow> r),
                     u_auth_provider := (case sProvider of Some p \<Rightarrow> p
                       | None \<Rightarrow> if u_auth_provider u = [] then ''local'' else u_auth_provider u)\<rparr>),
               syncUserFromGo i sRole sProvider sHash db))"

definition provisionLocalUserFromGo ::
  "crypto_ops \<Rightarrow> string \<Rightarrow> string \<Rightarrow> go_result \<Rightarrow> sso_status \<Rightarrow> 't auth_db
     \<Rightarrow> (auth_error + (int \<times> user_row) option) \<times> 't auth_db" where
  "provisionLocalUserFromGo C username password g sso db =
     (let provider = inferAuthProviderFromSSO g sso;
          role = (if gr_role g = [] then ''viewer'' else gr_role g);
          hash = (if provider = ''local'' then hashPassword C password else unusablePasswordHash C)
      in case getUserByUsername username db of
           Some user \<Rightarrow> (let (user', db') = syncLocalUserFromGoResult C user g None sso db in (Inr (Some user'), db'))
         | None \<Rightarrow>
             (case createUser username hash role provider db of
                Inl e \<Rightarrow>
                  (case getUserByUsername username db of
                     None \<Rightarrow> (Inl (DbError e), db)
                   | Some user \<Rightarrow> (let (user', db') = syncLocalUserFromGoResult C user g None sso db in (Inr (Some user'), db')))
              | Inr (i, db') \<Rightarrow>
                  (case getUserByUsername username db' of
                     None \<Rightarrow> (Inr None, db')
                   | Some (j, u) \<Rightarrow>
                       if u_auth_provider u \<noteq> provider \<or> u_role u \<noteq> role
                       then (Inr (Some (j, u\<lparr>u_auth_provider := provider, u_role := role\<rparr>)),
                             syncUserFromGo j (Some role) (Some provider) None db')
                       else (Inr (Some (j, u)), db'))))"

record auth_user =
  a_id :: int
  a_username :: string
  a_role :: string
  a_language :: "string option"
  a_totpRequired :: bool
  a_goPartialToken :: "string option"

definition authSuccessFromUser :: "int \<times> user_row \<Rightarrow> go_result option \<Rightarrow> auth_user option" where
  "authSuccessFromUser user g =
     (let (i, u) = user; lang = Option.bind (u_language u) null_if_empty in
      if u_role u = ''pro'' then None
      else if u_totp_enabled u then
        Some \<lparr>a_id = i, a_username = u_username u, a_role = u_role u, a_language = lang, a_totpRequired = True,
          a_goPartialToken = (case g of None \<Rightarrow> None | Some r \<Rightarrow> gr_partial_token r)\<rparr>
      else
        Some \<lparr>a_id = i, a_username = u_username u, a_role = u_role u, a_language = lang,
          a_totpRequired = (case g of None \<Rightarrow> False | Some r \<Rightarrow> gr_requires2fa r), a_goPartialToken = None\<rparr>)"


section \<open>Login\<close>

datatype auth_result = AuthNull | AuthFailure string | AuthOk auth_user

text \<open>The common end of the three branches: the success object, and \<open>last_login\<close> unless a second
  factor is due.\<close>

definition finish_login ::
  "int \<Rightarrow> int \<times> user_row \<Rightarrow> go_result option \<Rightarrow> 't auth_db \<Rightarrow> (auth_error + auth_result) \<times> 't auth_db" where
  "finish_login now user g db =
     (case authSuccessFromUser user g of
        None \<Rightarrow> (Inr AuthNull, db)
      | Some r \<Rightarrow> (Inr (AuthOk r), if a_totpRequired r then db else touchLastLogin now (fst user) db))"

definition login_ldap ::
  "crypto_ops \<Rightarrow> go_server \<Rightarrow> sso_status \<Rightarrow> int \<Rightarrow> int \<times> user_row \<Rightarrow> string \<Rightarrow> string \<Rightarrow> 't auth_db
     \<Rightarrow> (auth_error + auth_result) \<times> 't auth_db" where
  "login_ldap C G sso now user username password db =
     (case tryGoServerAuth (go_login G username password) of
        None \<Rightarrow> (Inr AuthNull, db)
      | Some g \<Rightarrow>
          let (user', db') = syncLocalUserFromGoResult C user g None sso db
          in finish_login now user' (Some g) db')"

definition login_local ::
  "crypto_ops \<Rightarrow> go_server \<Rightarrow> sso_status \<Rightarrow> int \<Rightarrow> int \<times> user_row \<Rightarrow> string \<Rightarrow> string \<Rightarrow> 't auth_db
     \<Rightarrow> (auth_error + auth_result) \<times> 't auth_db" where
  "login_local C G sso now user username password db =
     (case verifyPasswordEx C password (u_password_hash (snd user)) of
        Inl e \<Rightarrow> (Inl e, db)
      | Inr (valid, needsMigration) \<Rightarrow>
          if \<not> valid then
            (case tryGoServerAuth (go_login G username password) of
               Some g \<Rightarrow>
                 if isExternalAuthResult g then (Inr (AuthFailure ''username_collision''), db)
                 else let (user', db') = syncLocalUserFromGoResult C user g (Some password) sso db
                      in finish_login now user' None db'
             | None \<Rightarrow>
                 if sso_ldap sso \<and> tryLdapVerifyOnGo (go_ldap_verify G username password)
                 then (Inr (AuthFailure ''username_collision''), db)
                 else (Inr AuthNull, db))
          else if needsMigration then
            finish_login now user None (updateUserPassword (fst user) (hashPassword C password) db)
          else finish_login now user None db)"

definition login_unknown ::
  "crypto_ops \<Rightarrow> go_server \<Rightarrow> sso_status \<Rightarrow> bool \<Rightarrow> int \<Rightarrow> string \<Rightarrow> string \<Rightarrow> 't auth_db
     \<Rightarrow> (auth_error + auth_result) \<times> 't auth_db" where
  "login_unknown C G sso autoCreateEnv now username password db =
     (if autoCreateEnv \<or> sso_any sso then
        (case tryGoServerAuth (go_login G username password) of
           None \<Rightarrow> (Inr AuthNull, db)
         | Some g \<Rightarrow>
             (case provisionLocalUserFromGo C username password g sso db of
                (Inl e, db') \<Rightarrow> (Inl e, db')
              | (Inr None, db') \<Rightarrow> (Inr AuthNull, db')
              | (Inr (Some user), db') \<Rightarrow> finish_login now user (Some g) db'))
      else (Inr AuthNull, db))"

definition authenticate ::
  "crypto_ops \<Rightarrow> go_server \<Rightarrow> sso_status \<Rightarrow> bool \<Rightarrow> int \<Rightarrow> string \<Rightarrow> string \<Rightarrow> 't auth_db
     \<Rightarrow> (auth_error + auth_result) \<times> 't auth_db" where
  "authenticate C G sso autoCreateEnv now username password db =
     (if js_trim username = [] then (Inr AuthNull, db)
      else case getUserByUsername username db of
        Some user \<Rightarrow>
          let provider = normalizeAuthProvider (Some (u_auth_provider (snd user))) in
          if provider = ''oidc'' then (Inr AuthNull, db)
          else if provider = ''ldap'' then login_ldap C G sso now user username password db
          else login_local C G sso now user username password db
      | None \<Rightarrow> login_unknown C G sso autoCreateEnv now username password db)"



section \<open>Lemmas\<close>

lemma normalize_cases: "normalizeAuthProvider p = ''local'' \<or> normalizeAuthProvider p = ''ldap'' \<or> normalizeAuthProvider p = ''oidc''"
  by (auto simp: normalizeAuthProvider_def Let_def)

lemma hex_decode_length: "list_all is_hex s \<Longrightarrow> length (hex_decode s) = length s div 2"
  by (induction s rule: hex_decode.induct) auto

lemma verifyPBKDF2_total:
  assumes "isPBKDF2Hash hash" and "\<And>p s i n. length (pbkdf2Sync C p s i n) = n"
  shows "\<exists>v. verifyPBKDF2 C password hash = Inr v"
proof (cases "startsWith hash PBKDF2_MODERN_PREFIX")
  case True
  then show ?thesis
    by (auto simp: verifyPBKDF2_def Let_def timingSafeEqual_def assms(2) split: option.splits)
next
  case False
  let ?h = "split_on CHR '':'' hash"
  have "length ?h = 2" and "hex_string 64 (?h ! 1)"
    using assms(1) False by (simp_all add: isPBKDF2Hash_def Let_def split: if_splits)
  then have "length (hex_decode (?h ! 1)) = 32"
    by (simp add: hex_string_def hex_decode_length)
  with False \<open>length ?h = 2\<close> show ?thesis
    by (simp add: verifyPBKDF2_def timingSafeEqual_def assms(2) Let_def)
qed

lemma verifyPasswordEx_total:
  assumes "\<And>p s i n. length (pbkdf2Sync C p s i n) = n"
  obtains v m where "verifyPasswordEx C password hash = Inr (v, m)"
proof (cases "isPBKDF2Hash hash")
  case True
  from verifyPBKDF2_total [OF this, of C password] assms obtain v where "verifyPBKDF2 C password hash = Inr v" by blast
  with True that show ?thesis by (simp add: verifyPasswordEx_def)
next
  case False
  with that show ?thesis by (simp add: verifyPasswordEx_def)
qed

lemma sync_user_facts:
  assumes "syncLocalUserFromGoResult C (i, u) g p sso db = (user', db')"
  shows "fst user' = i" "u_username (snd user') = u_username u" "u_totp_enabled (snd user') = u_totp_enabled u"
    "u_role (snd user') = (if gr_role g = [] then u_role u else gr_role g)"
    "\<exists>f. db' = update_user i f db \<and> (\<forall>v. u_username (f v) = u_username v)
       \<and> (\<forall>v. u_role (f v) = u_role v \<or> u_role (f v) = gr_role g)
       \<and> (\<not> truthy p \<longrightarrow> (\<forall>v. u_password_hash (f v) = u_password_hash v \<or> u_password_hash (f v) = unusablePasswordHash C))"
proof -
  show "fst user' = i" "u_username (snd user') = u_username u" "u_totp_enabled (snd user') = u_totp_enabled u"
    "u_role (snd user') = (if gr_role g = [] then u_role u else gr_role g)"
    using assms by (auto simp: syncLocalUserFromGoResult_def Let_def split: if_splits)
  have id: "update_user i (\<lambda>v. v) db = db"
    by (simp add: update_user_def tbl_update_def)
  let ?sync = "\<lambda>r a h v. set_if h (\<lambda>h u. u\<lparr>u_password_hash := h\<rparr>)
       (set_if a (\<lambda>p u. u\<lparr>u_auth_provider := p\<rparr>) (set_if r (\<lambda>r u. u\<lparr>u_role := r\<rparr>) v))"
  obtain r a h where db': "db' = db \<or> db' = update_user i (?sync r a h) db"
    and r: "r = None \<or> r = Some (gr_role g)" and h: "\<not> truthy p \<Longrightarrow> h = None \<or> h = Some (unusablePasswordHash C)"
    using assms
    by (auto simp: syncLocalUserFromGoResult_def syncUserFromGo_def Let_def split: if_splits)
  show "\<exists>f. db' = update_user i f db \<and> (\<forall>v. u_username (f v) = u_username v)
       \<and> (\<forall>v. u_role (f v) = u_role v \<or> u_role (f v) = gr_role g)
       \<and> (\<not> truthy p \<longrightarrow> (\<forall>v. u_password_hash (f v) = u_password_hash v \<or> u_password_hash (f v) = unusablePasswordHash C))"
  proof (cases "db' = db")
    case True
    with id show ?thesis by (intro exI [of _ "\<lambda>v. v"]) simp
  next
    case False
    with db' r h show ?thesis
      by (intro exI [of _ "?sync r a h"]) (auto simp: set_if_def split: option.splits)
  qed
qed


lemma authSuccess_facts:
  assumes "authSuccessFromUser user g = Some r"
  shows "a_id r = fst user" "a_username r = u_username (snd user)" "a_role r = u_role (snd user)"
    "a_role r \<noteq> ''pro''" "u_totp_enabled (snd user) \<Longrightarrow> a_totpRequired r"
  using assms by (auto simp: authSuccessFromUser_def Let_def split: prod.splits if_splits)

lemma finish_login_ok:
  assumes "finish_login now user g db = (Inr (AuthOk r), db')"
  shows "authSuccessFromUser user g = Some r" and "db' = (if a_totpRequired r then db else touchLastLogin now (fst user) db)"
  using assms by (auto simp: finish_login_def split: option.splits)

lemma finish_login_inr: "\<exists>x. fst (finish_login now user g db) = Inr x"
  by (auto simp: finish_login_def split: option.splits)

lemma finish_login_update:
  "\<exists>f. snd (finish_login now user g db) = update_user (fst user) f db \<and> (\<forall>v. u_username (f v) = u_username v)
     \<and> (\<forall>v. u_role (f v) = u_role v) \<and> (\<forall>v. u_password_hash (f v) = u_password_hash v)"
proof -
  have id: "update_user (fst user) (\<lambda>v. v) db = db" by (simp add: update_user_def tbl_update_def)
  show ?thesis
  proof (cases "snd (finish_login now user g db) = db")
    case True
    with id show ?thesis by (intro exI [of _ "\<lambda>v. v"]) simp
  next
    case False
    then have "snd (finish_login now user g db) = touchLastLogin now (fst user) db"
      by (auto simp: finish_login_def split: option.splits if_splits)
    then show ?thesis
      by (intro exI [of _ "\<lambda>u. u\<lparr>u_last_login := Some now\<rparr>"]) (simp add: touchLastLogin_def)
  qed
qed

lemma update_user_comp: "update_user i f (update_user i g db) = update_user i (\<lambda>v. f (g v)) db"
proof -
  have "tbl_update (\<lambda>k _. k = i) f (tbl_update (\<lambda>k _. k = i) g t) = tbl_update (\<lambda>k _. k = i) (\<lambda>v. f (g v)) t"
    for t :: "(int, user_row) table"
    by (induction t) (auto simp: tbl_update_def)
  then show ?thesis by (simp add: update_user_def)
qed

text \<open>The whole login changes at most the row of the account, never its name, or adds one account.\<close>

lemma login_existing_update:
  assumes "getUserByUsername username db = Some (i, u)"
  shows "\<exists>f. snd (authenticate C G sso auto now username password db) = update_user i f db
    \<and> (\<forall>v. u_username (f v) = u_username v)"
proof -
  have id: "\<exists>f. db = update_user i f db \<and> (\<forall>v. u_username (f v) = u_username v)"
    by (rule exI [of _ "\<lambda>v. v"]) (simp add: update_user_def tbl_update_def)
  have fin: "\<exists>f. snd (finish_login now user g (update_user i h db)) = update_user i f db
      \<and> (\<forall>v. u_username (f v) = u_username v)"
    if ui: "fst user = i" and uh: "\<And>v. u_username (h v) = u_username v" for user :: "int \<times> user_row" and g h
  proof -
    obtain f where "snd (finish_login now user g (update_user i h db)) = update_user i f (update_user i h db)"
        "\<forall>v. u_username (f v) = u_username v"
      using finish_login_update [of now user g "update_user i h db"] ui by blast
    then show ?thesis
      using uh by (intro exI [of _ "\<lambda>v. f (h v)"]) (simp add: update_user_comp)
  qed
  have sync: "\<exists>f. snd (let (user', db') = syncLocalUserFromGoResult C (i, u) g p sso db in finish_login now user' g' db')
      = update_user i f db \<and> (\<forall>v. u_username (f v) = u_username v)" for g p g'
  proof -
    obtain user' db' where s: "syncLocalUserFromGoResult C (i, u) g p sso db = (user', db')" by fastforce
    obtain h where "db' = update_user i h db" "\<forall>v. u_username (h v) = u_username v"
      using sync_user_facts(5) [OF s] by blast
    with fin [of user' h g'] sync_user_facts(1) [OF s] s show ?thesis by simp
  qed
  have fin0: "\<exists>f. snd (finish_login now (i, u) None db) = update_user i f db \<and> (\<forall>v. u_username (f v) = u_username v)"
    using finish_login_update [of now "(i, u)" None db] by auto
  have mig: "\<exists>f. snd (finish_login now (i, u) None (updateUserPassword i h db)) = update_user i f db
      \<and> (\<forall>v. u_username (f v) = u_username v)" for h
    using fin [of "(i, u)" "\<lambda>v. v\<lparr>u_password_hash := h\<rparr>" None] by (simp add: updateUserPassword_def)
  show ?thesis
    using assms id sync fin0 mig
    by (auto simp: authenticate_def login_ldap_def login_local_def Let_def split: option.splits sum.splits prod.splits if_splits)
qed


lemma provision_cases:
  assumes "auth_ok db" and "getUserByUsername username db = None"
  obtains i u db' where
    "provisionLocalUserFromGo C username password g sso db = (Inr (Some (i, u)), db')" "auth_ok db'"
    "u_username u = username" "u_totp_enabled u = False"
    "u_role u = (if gr_role g = [] then ''viewer'' else gr_role g)"
    "inferAuthProviderFromSSO g sso \<noteq> ''local'' \<Longrightarrow> u_password_hash u = unusablePasswordHash C"
    "getUserById i db' = Some u" "getUserById i db = None"
proof -
  let ?p = "inferAuthProviderFromSSO g sso"
  let ?r = "if gr_role g = [] then ''viewer'' else gr_role g"
  let ?h = "if ?p = ''local'' then hashPassword C password else unusablePasswordHash C"
  let ?i = "db_user_seq db + 1"
  define u where "u = \<lparr>u_username = username, u_password_hash = ?h, u_role = ?r, u_auth_provider = ?p,
    u_last_login = None, u_language = None, u_totp_secret = None, u_totp_enabled = False, u_recovery_codes = None, u_profile = []\<rparr>"
  define db' where "db' = db\<lparr>db_users := db_users db @ [(?i, u)], db_user_seq := ?i\<rparr>"
  have "?p \<noteq> []"
    using normalize_cases [of "gr_auth_provider g"] by (auto simp: inferAuthProviderFromSSO_def)
  then have cr: "createUser username ?h ?r ?p db = Inr (?i, db')"
    using assms(2) by (simp add: createUser_def u_def db'_def Let_def)
  note ok = auth_ok_createUser [OF assms(1) cr]
  have "map_of (db_users db) ?i = None" using ok(2) by (simp add: getUserById_def)
  then have g: "getUserById ?i db' = Some u" by (simp add: getUserById_def db'_def map_add_def)
  then have "getUserByUsername username db' = Some (?i, u)"
    using getUserByUsername_iff [OF ok(1)] by (simp add: u_def)
  then have "provisionLocalUserFromGo C username password g sso db = (Inr (Some (?i, u)), db')"
    using assms(2) cr by (simp add: provisionLocalUserFromGo_def Let_def u_def)
  then show ?thesis using that ok g by (simp add: u_def)
qed

lemma normalize_not: "normalizeAuthProvider p \<noteq> ''oidc'' \<Longrightarrow> normalizeAuthProvider p \<noteq> ''ldap'' \<Longrightarrow> normalizeAuthProvider p = ''local''"
  using normalize_cases by blast


section \<open>Properties\<close>

text \<open>C34: no login without a verified password.  When \<open>authenticate\<close> succeeds, the result is for the
  account of that name and not a \<open>pro\<close> account.  A local account had its own hash verified, or the Go
  server accepted the password without an external provider; an LDAP account was accepted by the Go
  server; an OIDC account never logs in with a password; an unknown name was accepted by the Go
  server while provisioning is switched on.\<close>

theorem login_needs_verified_password:
  assumes "auth_ok db" and "authenticate C G sso auto now username password db = (Inr (AuthOk r), db')"
  shows "a_username r = username \<and> a_role r \<noteq> ''pro'' \<and>
    (case getUserByUsername username db of
       Some (i, u) \<Rightarrow>
         a_id r = i \<and> normalizeAuthProvider (Some (u_auth_provider u)) \<noteq> ''oidc'' \<and>
         ((normalizeAuthProvider (Some (u_auth_provider u)) = ''local''
             \<and> (\<exists>m. verifyPasswordEx C password (u_password_hash u) = Inr (True, m)))
          \<or> (\<exists>g. tryGoServerAuth (go_login G username password) = Some g
               \<and> (normalizeAuthProvider (Some (u_auth_provider u)) = ''local'' \<longrightarrow> \<not> isExternalAuthResult g)))
     | None \<Rightarrow> (auto \<or> sso_any sso) \<and> tryGoServerAuth (go_login G username password) \<noteq> None)"
proof (cases "getUserByUsername username db")
  case None
  have l: "login_unknown C G sso auto now username password db = (Inr (AuthOk r), db')"
    using assms(2) None by (auto simp: authenticate_def split: if_splits)
  then obtain g where g: "auto \<or> sso_any sso" "tryGoServerAuth (go_login G username password) = Some g"
    by (auto simp: login_unknown_def split: if_splits option.splits)
  obtain i u db1 where pr: "provisionLocalUserFromGo C username password g sso db = (Inr (Some (i, u)), db1)"
      "u_username u = username"
    using provision_cases [OF assms(1) None, of C password g sso] by metis
  from l g pr have "finish_login now (i, u) (Some g) db1 = (Inr (AuthOk r), db')"
    by (simp add: login_unknown_def)
  from authSuccess_facts [OF finish_login_ok(1) [OF this]] None g pr show ?thesis by simp
next
  case (Some x)
  obtain i u where x: "x = (i, u)" by (cases x)
  have un: "u_username u = username"
    using getUserByUsername_Some [of db username i u] assms(1) Some x by (simp add: auth_ok_def)
  have sync: "a_username r = username \<and> a_role r \<noteq> ''pro'' \<and> a_id r = i"
    if "(case syncLocalUserFromGoResult C (i, u) g p sso db of (user', d) \<Rightarrow> finish_login now user' g' d) = (Inr (AuthOk r), db')"
    for g p g'
  proof -
    obtain user' d where s: "syncLocalUserFromGoResult C (i, u) g p sso db = (user', d)" by fastforce
    with that have "finish_login now user' g' d = (Inr (AuthOk r), db')" by simp
    from authSuccess_facts [OF finish_login_ok(1) [OF this]] sync_user_facts [OF s] un show ?thesis by simp
  qed
  have plain: "a_username r = username \<and> a_role r \<noteq> ''pro'' \<and> a_id r = i"
    if "finish_login now (i, u) None d = (Inr (AuthOk r), db')" for d
    using authSuccess_facts [OF finish_login_ok(1) [OF that]] un by simp
  show ?thesis
    using assms(2) Some x sync plain
    by (auto simp: authenticate_def login_ldap_def login_local_def Let_def
        dest!: normalize_not split: if_splits option.splits sum.splits)
qed

definition demo_crypto :: crypto_ops where
  "demo_crypto = \<lparr>bcrypt_compare = (\<lambda>p h. h = ''$2b$'' @ p), hashPassword = (\<lambda>p. ''$2b$'' @ p),
     unusablePasswordHash = ''$2b$#'', pbkdf2Sync = (\<lambda>p s i n. replicate n (length p))\<rparr>"

definition demo_go :: "http_result \<Rightarrow> go_server" where
  "demo_go resp = \<lparr>go_login = (\<lambda>u p. resp), go_ldap_verify = (\<lambda>u p. TransportError)\<rparr>"

definition demo_account :: "string \<Rightarrow> string \<Rightarrow> string \<Rightarrow> bool \<Rightarrow> int auth_db" where
  "demo_account provider role hash totp = empty_auth_db\<lparr>db_users := [(1, \<lparr>u_username = ''ann'', u_password_hash = hash,
       u_role = role, u_auth_provider = provider, u_last_login = None, u_language = None, u_totp_secret = None,
       u_totp_enabled = totp, u_recovery_codes = None, u_profile = []\<rparr>)], db_user_seq := 1\<rparr>"

theorem login_needs_verified_password_witness:
  "\<exists>m. verifyPasswordEx demo_crypto ''pw'' ''$2b$pw'' = Inr (True, m)"
proof -
  let ?db = "demo_account ''local'' ''viewer'' ''$2b$pw'' False"
  let ?r = "\<lparr>a_id = 1, a_username = ''ann'', a_role = ''viewer'', a_language = None, a_totpRequired = False, a_goPartialToken = None\<rparr>"
  have "auth_ok ?db" by code_simp
  moreover have "authenticate demo_crypto (demo_go TransportError) no_sso False 5 ''ann'' ''pw'' ?db = (Inr (AuthOk ?r), touchLastLogin 5 1 ?db)"
    by code_simp
  ultimately have "case getUserByUsername ''ann'' ?db of
       Some (i, u) \<Rightarrow> (\<exists>m. verifyPasswordEx demo_crypto ''pw'' (u_password_hash u) = Inr (True, m))
         \<or> (\<exists>g. tryGoServerAuth TransportError = Some g) | None \<Rightarrow> False"
    using login_needs_verified_password [of ?db demo_crypto "demo_go TransportError" no_sso False 5 "''ann''" "''pw''" ?r]
    by (auto simp: demo_go_def no_sso_def split: option.splits)
  then show ?thesis by (simp add: demo_account_def getUserByUsername_def empty_auth_db_def tryGoServerAuth_def)
qed


text \<open>a local account that proves its password keeps its role.  The login succeeds, needs the
  second factor exactly when the account has one, and changes neither role nor provider of any
  account.\<close>

theorem local_login_result:
  assumes "auth_ok db" and "js_trim username \<noteq> []" and "getUserByUsername username db = Some (i, u)"
    and "normalizeAuthProvider (Some (u_auth_provider u)) = ''local''"
    and "verifyPasswordEx C password (u_password_hash u) = Inr (True, m)" and "u_role u \<noteq> ''pro''"
    and "authenticate C G sso auto now username password db = (res, db')"
  shows "(\<exists>r. res = Inr (AuthOk r) \<and> a_id r = i \<and> a_role r = u_role u \<and> a_totpRequired r = u_totp_enabled u)
    \<and> map_option u_role (getUserById k db') = map_option u_role (getUserById k db)
    \<and> map_option u_auth_provider (getUserById k db') = map_option u_auth_provider (getUserById k db)"
proof -
  define d where "d = (if m then updateUserPassword i (hashPassword C password) db else db)"
  have res: "(res, db') = finish_login now (i, u) None d"
    using assms(2-5,7) by (auto simp: authenticate_def login_local_def d_def)
  have "\<exists>r. res = Inr (AuthOk r) \<and> a_id r = i \<and> a_role r = u_role u \<and> a_totpRequired r = u_totp_enabled u"
    using res assms(6) by (auto simp: finish_login_def authSuccessFromUser_def Let_def split: if_splits)
  moreover have "db' = d \<or> db' = touchLastLogin now i d"
    using res by (auto simp: finish_login_def split: option.splits if_splits)
  ultimately show ?thesis
    by (auto simp: d_def updateUserPassword_def touchLastLogin_def option.map_comp comp_def)
qed

theorem local_login_result_witness:
  "\<exists>r. fst (authenticate demo_crypto (demo_go TransportError) no_sso False 5 ''ann'' ''pw''
       (demo_account ''local'' ''viewer'' ''$2b$pw'' True)) = Inr (AuthOk r) \<and> a_totpRequired r"
proof -
  let ?db = "demo_account ''local'' ''viewer'' ''$2b$pw'' True"
  have a: "auth_ok ?db" "js_trim ''ann'' \<noteq> []"
      "getUserByUsername ''ann'' ?db = Some (1, snd (hd (db_users ?db)))"
      "normalizeAuthProvider (Some (u_auth_provider (snd (hd (db_users ?db))))) = ''local''"
      "verifyPasswordEx demo_crypto ''pw'' (u_password_hash (snd (hd (db_users ?db)))) = Inr (True, False)"
      "u_role (snd (hd (db_users ?db))) \<noteq> ''pro''"
    by code_simp+
  have t: "u_totp_enabled (snd (hd (db_users ?db)))" by code_simp
  show ?thesis
    using local_login_result [OF a surjective_pairing, of "demo_go TransportError" no_sso False 5 0] t by auto
qed

text \<open>C35: The demand for the second factor cannot be lost on the way. When the password of an account with
  TOTP switched on is accepted, whether the local hash, the directory or the Go server verified it and whatever the
  Go server answers about a second factor, the result that \<open>authenticate\<close> hands to the routes carries
  the flag that demands a TOTP code. What the panel does with the flag is the subject of
  \<open>Auth_Routes\<close>.\<close>

theorem second_factor_demanded:
  assumes "getUserByUsername username db = Some (i, u)" and "u_totp_enabled u"
    and "authenticate C G sso auto now username password db = (Inr (AuthOk r), db')"
  shows "a_totpRequired r"
proof -
  have fin: "a_totpRequired r" if "finish_login now user g d = (Inr (AuthOk r), db')" "u_totp_enabled (snd user)" for user g d
    using authSuccess_facts(5) [OF finish_login_ok(1) [OF that(1)] that(2)] .
  have sync: "a_totpRequired r"
    if "(case syncLocalUserFromGoResult C (i, u) g p sso db of (user', d) \<Rightarrow> finish_login now user' g' d) = (Inr (AuthOk r), db')"
    for g p g'
  proof -
    obtain user' d where s: "syncLocalUserFromGoResult C (i, u) g p sso db = (user', d)" by fastforce
    with that fin [of user' g' d] sync_user_facts(3) [OF s] assms(2) show ?thesis by simp
  qed
  show ?thesis
    using assms fin sync
    by (auto simp: authenticate_def login_ldap_def login_local_def Let_def split: if_splits option.splits sum.splits)
qed

theorem second_factor_demanded_witness:
  "map_sum (\<lambda>e. e) (\<lambda>x. case x of AuthOk r \<Rightarrow> a_totpRequired r | _ \<Rightarrow> False)
     (fst (authenticate demo_crypto (demo_go TransportError) no_sso False 5 ''ann'' ''pw''
       (demo_account ''local'' ''viewer'' ''$2b$pw'' True))) = Inr True"
proof -
  let ?db = "demo_account ''local'' ''viewer'' ''$2b$pw'' True"
  let ?r = "\<lparr>a_id = 1, a_username = ''ann'', a_role = ''viewer'', a_language = None, a_totpRequired = True, a_goPartialToken = None\<rparr>"
  have g: "getUserByUsername ''ann'' ?db = Some (1, snd (hd (db_users ?db)))" "u_totp_enabled (snd (hd (db_users ?db)))"
    by code_simp+
  have a: "authenticate demo_crypto (demo_go TransportError) no_sso False 5 ''ann'' ''pw'' ?db = (Inr (AuthOk ?r), ?db)"
    by code_simp
  show ?thesis using second_factor_demanded [OF g a] a by simp
qed

text \<open>passwords of directory accounts are never stored.  For an account of an external provider,
  and for a new account that the Go server reports from one, the stored hash afterwards is the one
  from before or the unusable hash.\<close>

theorem external_password_not_stored:
  assumes "auth_ok db" and "getUserByUsername username db = Some (i, u)"
    and "isExternalAuthProvider (Some (u_auth_provider u))"
    and "authenticate C G sso auto now username password db = (res, db')"
    and "getUserById i db' = Some u'"
  shows "u_password_hash u' = u_password_hash u \<or> u_password_hash u' = unusablePasswordHash C"
proof -
  have iu: "getUserById i db = Some u" using getUserByUsername_iff [OF assms(1)] assms(2) by simp
  have np: "normalizeAuthProvider (Some (u_auth_provider u)) \<noteq> ''local''"
    using assms(3) by (auto simp: isExternalAuthProvider_def Let_def)
  consider (same) "db' = db"
    | (ldap) g where "(let (user', d) = syncLocalUserFromGoResult C (i, u) g None sso db in finish_login now user' (Some g) d) = (res, db')"
    using assms(2,4) np normalize_not [of "Some (u_auth_provider u)"]
    by (auto simp: authenticate_def login_ldap_def Let_def split: if_splits option.splits)
  then show ?thesis
  proof cases
    case same
    with iu assms(5) show ?thesis by simp
  next
    case ldap
    obtain user' d where s: "syncLocalUserFromGoResult C (i, u) g None sso db = (user', d)" by fastforce
    obtain f where f: "d = update_user i f db"
        "\<forall>v. u_password_hash (f v) = u_password_hash v \<or> u_password_hash (f v) = unusablePasswordHash C"
      using sync_user_facts(5) [OF s] by (auto simp: truthy_def)
    obtain h where h: "db' = update_user i h d" "\<forall>v. u_password_hash (h v) = u_password_hash v"
      using finish_login_update [of now user' "Some g" d] ldap s sync_user_facts(1) [OF s] by (metis case_prod_conv snd_conv)
    have "u' = h (f u)" using assms(5) iu f(1) h(1) by simp
    with f(2) h(2) show ?thesis by metis
  qed
qed

definition demo_ok_body :: "string \<Rightarrow> go_body" where
  "demo_ok_body provider = \<lparr>gb_token = Some ''jwt'', gb_role = Some ''operator'', gb_auth_provider = Some provider,
     gb_requires_2fa = False, gb_partial_token = None, gb_authenticated = False, gb_error = None\<rparr>"

theorem external_password_not_stored_witness:
  "u_password_hash (snd (hd (db_users (snd (authenticate demo_crypto (demo_go (Http 200 (Some (demo_ok_body ''ldap'')))) no_sso False 5 ''ann'' ''pw''
     (demo_account ''ldap'' ''viewer'' ''$2b$x'' False)))))) \<in> {''$2b$x'', ''$2b$#''}"
proof -
  let ?db = "demo_account ''ldap'' ''viewer'' ''$2b$x'' False"
  let ?G = "demo_go (Http 200 (Some (demo_ok_body ''ldap'')))"
  let ?db' = "snd (authenticate demo_crypto ?G no_sso False 5 ''ann'' ''pw'' ?db)"
  have a: "auth_ok ?db" "getUserByUsername ''ann'' ?db = Some (1, snd (hd (db_users ?db)))"
      "isExternalAuthProvider (Some (u_auth_provider (snd (hd (db_users ?db)))))" by code_simp+
  have u: "getUserById 1 ?db' = Some (snd (hd (db_users ?db')))" by code_simp
  have e: "u_password_hash (snd (hd (db_users ?db))) = ''$2b$x''" "unusablePasswordHash demo_crypto = ''$2b$#''" by code_simp+
  show ?thesis using external_password_not_stored [OF a surjective_pairing u] e by simp
qed

text \<open>a login always returns, and keeps the database consistent.  Given that PBKDF2 derives as many
  bytes as it is asked for, no branch throws, and names, ids and references stay as the schema
  demands.\<close>

theorem login_returns:
  assumes "auth_ok db" and "\<And>p s i n. length (pbkdf2Sync C p s i n) = n"
    and "authenticate C G sso auto now username password db = (res, db')"
  shows "(\<exists>x. res = Inr x) \<and> auth_ok db'"
proof (cases "getUserByUsername username db")
  case None
  have keep: "auth_ok (snd (finish_login now user g d))" if ok: "auth_ok d" for user g and d :: "'a auth_db"
    using finish_login_update [of now user g d] auth_ok_update_user [OF ok] by metis
  show ?thesis
  proof (cases "tryGoServerAuth (go_login G username password)")
    case (Some g)
    obtain i u d where pr: "provisionLocalUserFromGo C username password g sso db = (Inr (Some (i, u)), d)" "auth_ok d"
      using provision_cases [OF assms(1) None, of C password g sso] by metis
    with assms(1,3) None Some keep [OF pr(2), of "(i, u)" "Some g"] finish_login_inr [of now "(i, u)" "Some g" d] show ?thesis
      by (auto simp: authenticate_def login_unknown_def split: if_splits)
  qed (use assms(1,3) None in \<open>auto simp: authenticate_def login_unknown_def split: if_splits\<close>)
next
  case (Some x)
  obtain i u where x: "x = (i, u)" by (cases x)
  obtain v m where v: "verifyPasswordEx C password (u_password_hash u) = Inr (v, m)"
    using verifyPasswordEx_total [OF assms(2)] .
  have "\<exists>x. res = Inr x"
    using assms(3) Some x v
    by (auto simp: authenticate_def login_ldap_def login_local_def Let_def finish_login_def
        split: if_splits option.splits prod.splits)
  moreover obtain f where "db' = update_user i f db" "\<forall>v. u_username (f v) = u_username v"
    using login_existing_update [of username db i u C G sso auto now password] assms(3) Some x by auto
  ultimately show ?thesis using auth_ok_update_user [OF assms(1), of f i] by simp
qed

theorem login_returns_witness:
  "auth_ok (snd (authenticate demo_crypto (demo_go (Http 200 (Some (demo_ok_body ''local'')))) no_sso True 5 ''bob'' ''pw''
     (demo_account ''local'' ''viewer'' ''$2b$x'' False)))"
proof -
  have ok: "auth_ok (demo_account ''local'' ''viewer'' ''$2b$x'' False)" by code_simp
  have p: "length (pbkdf2Sync demo_crypto p s i n) = n" for p s i n by (simp add: demo_crypto_def)
  show ?thesis using login_returns [OF ok p surjective_pairing] by blast
qed

text \<open>the Go server's demand for a second factor makes an administrator.  When a local account's
  own hash does not match and the Go server accepts the password but asks for the second factor
  (status 200 with \<open>requires_2fa\<close> and no token), the login succeeds at once, without a second factor,
  with the role \<open>admin\<close>, whatever the account's role was.\<close>

theorem go_second_factor_bypass:
  assumes "js_trim username \<noteq> []" and "getUserByUsername username db = Some (i, u)"
    and "normalizeAuthProvider (Some (u_auth_provider u)) = ''local''" and "\<not> u_totp_enabled u"
    and "verifyPasswordEx C password (u_password_hash u) = Inr (False, m)"
    and "go_login G username password = Http 200 (Some b)" and "\<not> truthy (gb_token b)" and "gb_requires_2fa b"
  shows "\<exists>r. fst (authenticate C G sso auto now username password db) = Inr (AuthOk r)
    \<and> a_role r = ''admin'' \<and> \<not> a_totpRequired r"
proof -
  let ?g = "\<lparr>gr_role = ''admin'', gr_auth_provider = None, gr_requires2fa = True, gr_partial_token = None\<rparr>"
  have g: "tryGoServerAuth (go_login G username password) = Some ?g" "\<not> isExternalAuthResult ?g"
    using assms(6-8)
    by (simp_all add: tryGoServerAuth_def isExternalAuthResult_def isExternalAuthProvider_def normalizeAuthProvider_def
        or_str_def js_lower_def js_lower_char_def js_trim_def js_ws_def Let_def)
  obtain user' d where s: "syncLocalUserFromGoResult C (i, u) ?g (Some password) sso db = (user', d)" by fastforce
  from sync_user_facts [OF s] assms(4)
  have u': "u_role (snd user') = ''admin''" "\<not> u_totp_enabled (snd user')" by simp_all
  have "fst (authenticate C G sso auto now username password db) = fst (finish_login now user' None d)"
    using assms(1-3,5) g s by (simp add: authenticate_def login_local_def)
  with u' show ?thesis
    by (auto simp: finish_login_def authSuccessFromUser_def Let_def split: prod.splits)
qed

definition demo_2fa_body :: go_body where
  "demo_2fa_body = \<lparr>gb_token = None, gb_role = None, gb_auth_provider = None, gb_requires_2fa = True,
     gb_partial_token = Some ''p'', gb_authenticated = False, gb_error = None\<rparr>"

theorem go_second_factor_bypass_witness:
  "\<exists>r. fst (authenticate demo_crypto (demo_go (Http 200 (Some demo_2fa_body))) no_sso False 5 ''ann'' ''pw''
     (demo_account ''local'' ''viewer'' ''$2b$old'' False)) = Inr (AuthOk r) \<and> a_role r = ''admin'' \<and> \<not> a_totpRequired r"
  by (rule go_second_factor_bypass [where i = 1 and u = "snd (hd (db_users (demo_account ''local'' ''viewer'' ''$2b$old'' False)))"
      and m = False and b = demo_2fa_body]) code_simp+

end
