(* ===== verification/Auth_Accounts.thy ===== *)
theory Auth_Accounts
  imports Auth_Service
begin

text \<open>
  The rest of \<open>services/authService.js\<close> that changes accounts: the bootstrap administrator with its
  credentials file, the local copy of accounts authenticated by the Go server, password changes and
  strength, TOTP and recovery codes.  The TOTP algorithm (otplib) and the random generator are
  parameters.
\<close>

section \<open>Accounts authenticated by the Go server\<close>

definition EMERGENCY_ADMIN_ROLES :: "string list" where
  "EMERGENCY_ADMIN_ROLES = [''admin'', ''super_admin'']"

definition ensureLocalUserFromGo ::
  "crypto_ops \<Rightarrow> string \<Rightarrow> string \<Rightarrow> string \<Rightarrow> string option \<Rightarrow> 't auth_db \<Rightarrow> (int \<times> user_row) option \<times> 't auth_db" where
  "ensureLocalUserFromGo C username password role authProvider db =
     (let provider = normalizeAuthProvider authProvider;
          shouldSyncHash = (role \<in> set EMERGENCY_ADMIN_ROLES \<and> provider = ''local'')
      in case getUserByUsername username db of
           None \<Rightarrow>
             (case createUser username (if provider = ''local'' then hashPassword C password else unusablePasswordHash C)
                     role provider db of
                Inl e \<Rightarrow> (None, db)
              | Inr (i, db') \<Rightarrow> (getUserByUsername username db', db'))
         | Some (i, u) \<Rightarrow>
             if shouldSyncHash then
               let db1 = updateUserPassword i (hashPassword C password) db in
               if u_role u \<noteq> role then (Some (i, u\<lparr>u_role := role\<rparr>), updateUserRole i role db1)
               else (Some (i, u), db1)
             else (Some (i, u), db))"


section \<open>The credentials file\<close>

definition line_term :: "char \<Rightarrow> bool" where
  "line_term c = (of_char c \<in> set [10, 13 :: nat])"

definition pw_label :: string where "pw_label = ''Admin Password:''"

text \<open>The match of the multi-line pattern of the label, optional white space and the rest of the line,
  trimmed: at a line start, after the label, the white space is skipped (it may cross lines) and the
  rest of that line is the password.\<close>

fun find_password :: "bool \<Rightarrow> string \<Rightarrow> string option" where
  "find_password start [] = None"
| "find_password start (c # cs) =
     (let rest = dropWhile js_ws (drop (length pw_label) (c # cs)) in
      if start \<and> startsWith (c # cs) pw_label \<and> rest \<noteq> []
      then null_if_empty (js_trim (takeWhile (\<lambda>x. \<not> line_term x) rest))
      else find_password (line_term c) cs)"

text \<open>The candidate directories in order; \<open>read dir\<close> is the content of \<open>dir/.admin_credentials\<close>.\<close>

record admin_paths =
  ap_keysPath :: string
  ap_keysData :: string
  ap_dataDir :: string
  ap_windows :: bool
  ap_docker :: bool

definition addCandidate :: "string \<Rightarrow> string list \<Rightarrow> string list" where
  "addCandidate d ds = (if d = [] \<or> d \<in> set ds then ds else ds @ [d])"

definition credential_dirs :: "admin_paths \<Rightarrow> string list" where
  "credential_dirs p =
     fold addCandidate
       ([ap_keysPath p, ''/opt/rustdesk'', ap_keysData p, ap_dataDir p, ''/opt/betterdesk'',
         ''/opt/betterdesk/data'', ''/opt/rustdesk/data'']
        @ (if ap_windows p then map (join_with [CHR 0x5C])
             [[''C:'', ''BetterDesk''], [''C:'', ''BetterDesk'', ''data''], [''C:'', ''RustDesk''], [''C:'', ''RustDesk'', ''data'']] else [])
        @ (if ap_docker p then [''/app/data''] else [])) []"

fun first_password :: "(string \<Rightarrow> string option) \<Rightarrow> string list \<Rightarrow> string option" where
  "first_password read [] = None"
| "first_password read (d # ds) =
     (case Option.bind (read d) (find_password True) of
        Some pw \<Rightarrow> Some pw
      | None \<Rightarrow> first_password read ds)"

definition readAdminCredentialsFile :: "admin_paths \<Rightarrow> (string \<Rightarrow> string option) \<Rightarrow> string option" where
  "readAdminCredentialsFile p read = first_password read (credential_dirs p)"

definition nl :: string where "nl = [CHR 0x0A]"

definition credsContent :: "string \<Rightarrow> string \<Rightarrow> string \<Rightarrow> string" where
  "credsContent username password timestamp =
     ''Admin Username: '' @ username @ nl @ ''Admin Password: '' @ password @ nl @
     ''Generated by: BetterDesk Console (Node.js)'' @ nl @ ''Timestamp: '' @ timestamp @ nl"


section \<open>The bootstrap administrator\<close>

record docker_env =
  de_docker :: string
  de_dbType :: string
  de_authMode :: string
  de_legacy_exists :: bool

definition dockerUsesGoOwnedAdminBootstrap :: "docker_env \<Rightarrow> bool" where
  "dockerUsesGoOwnedAdminBootstrap e =
     (if js_lower (de_docker e) \<noteq> ''true'' then False
      else if js_lower (de_dbType e) = ''postgres'' \<or> js_lower (de_dbType e) = ''postgresql'' then True
      else if js_lower (de_authMode e) = ''legacy'' then False
      else if js_lower (de_authMode e) = ''consolidated'' then True
      else \<not> de_legacy_exists e)"

datatype admin_error = BootstrapTimeout | AdminDb db_error | AdminCrypto auth_error

text \<open>\<open>polls\<close> are the states of the shared database at the checks before the deadline.\<close>

definition waitForDockerBootstrapAdmin ::
  "docker_env \<Rightarrow> 't auth_db \<Rightarrow> 't auth_db list \<Rightarrow> admin_error + bool \<times> 't auth_db" where
  "waitForDockerBootstrapAdmin e db polls =
     (if \<not> dockerUsesGoOwnedAdminBootstrap e then Inr (False, db)
      else case find hasUsers (db # polls) of
             None \<Rightarrow> Inl BootstrapTimeout
           | Some d \<Rightarrow> Inr (True, d))"

datatype verify_status = Verified | Recovered | Failed | Missing

definition verifyAdminPasswordHash ::
  "crypto_ops \<Rightarrow> int \<Rightarrow> string \<Rightarrow> string \<Rightarrow> 't auth_db \<Rightarrow> verify_status \<times> 't auth_db" where
  "verifyAdminPasswordHash C i hash plain db =
     (if bcrypt_compare C plain hash then (Verified, db)
      else let retry = hashPassword C plain; db' = updateUserPassword i retry db
           in (if bcrypt_compare C plain retry then Recovered else Failed, db'))"

record admin_env =
  ae_username :: "string option"
  ae_password :: "string option"
  ae_force :: bool
  ae_docker :: docker_env
  ae_random :: string
  ae_timestamp :: string

text \<open>\<open>reads\<close> are the results of the first reading of the credentials file and of the five retries.  The
  result holds the content written to \<open>.admin_credentials\<close>, if any.\<close>

definition ensureDefaultAdmin ::
  "crypto_ops \<Rightarrow> admin_env \<Rightarrow> string option list \<Rightarrow> 't auth_db list \<Rightarrow> 't auth_db
     \<Rightarrow> (admin_error + bool) \<times> 't auth_db \<times> string option" where
  "ensureDefaultAdmin C e reads polls db =
     (let name = or_str (ae_username e) ''admin'';
          pw0 = or_str (ae_password e) (or_str (Option.bind (if reads = [] then None else Some (hd reads)) (\<lambda>r. r)) [])
      in case waitForDockerBootstrapAdmin (ae_docker e) db polls of
           Inl err \<Rightarrow> (Inl err, db, None)
         | Inr (waited, d) \<Rightarrow>
             if waited \<or> hasUsers d then
               (if pw0 = [] then (Inr False, d, None)
                else case getUserByUsername name d of
                  None \<Rightarrow> (Inr False, d, None)
                | Some (i, u) \<Rightarrow>
                    if isPBKDF2Hash (u_password_hash u) then
                      (case verifyPBKDF2 C pw0 (u_password_hash u) of
                         Inl err \<Rightarrow> (Inl (AdminCrypto err), d, None)
                       | Inr v \<Rightarrow> (Inr False, if v then updateUserPassword i (hashPassword C pw0) d else d, None))
                    else if ae_force e then (Inr False, updateUserPassword i (hashPassword C pw0) d, None)
                    else (Inr False, d, None))
             else
               let pw1 = (if pw0 \<noteq> [] then pw0
                          else case find truthy (take 5 (tl reads)) of None \<Rightarrow> [] | Some r \<Rightarrow> the r);
                   password = (if pw1 = [] then ae_random e else pw1);
                   file = (if pw1 = [] then Some (credsContent name password (ae_timestamp e)) else None)
               in case createUser name (hashPassword C password) ''admin'' ''local'' d of
                    Inl err \<Rightarrow> (Inl (AdminDb err), d, file)
                  | Inr (i, d1) \<Rightarrow>
                      (case getUserByUsername name d1 of
                         None \<Rightarrow> (Inr True, d1, file)
                       | Some (j, u) \<Rightarrow>
                           (Inr True, snd (verifyAdminPasswordHash C j (u_password_hash u) password d1), file)))"


section \<open>Password changes\<close>

datatype change_result = ChangeOk | ChangeError string

definition changePassword ::
  "crypto_ops \<Rightarrow> int \<Rightarrow> string \<Rightarrow> string \<Rightarrow> 't auth_db \<Rightarrow> (auth_error + change_result) \<times> 't auth_db" where
  "changePassword C i current new db =
     (case getUserById i db of
        None \<Rightarrow> (Inr (ChangeError ''User not found''), db)
      | Some u \<Rightarrow>
          (case verifyPassword C current (u_password_hash u) of
             Inl e \<Rightarrow> (Inl e, db)
           | Inr valid \<Rightarrow>
               if \<not> valid then (Inr (ChangeError ''Current password is incorrect''), db)
               else if length new < 8 then (Inr (ChangeError ''Password must be at least 8 characters''), db)
               else (Inr ChangeOk, updateUserPassword i (hashPassword C new) db)))"

record strength =
  st_score :: nat
  st_feedback :: "string list"
  st_strength :: string

definition strength_check :: "bool \<Rightarrow> string \<Rightarrow> nat \<times> string list \<Rightarrow> nat \<times> string list" where
  "strength_check ok msg r = (if ok then (fst r + 1, snd r) else (fst r, snd r @ [msg]))"

definition validatePasswordStrength :: "string \<Rightarrow> strength" where
  "validatePasswordStrength pw =
     (let r1 = strength_check (length pw \<ge> 8) ''Use at least 8 characters'' (0, []);
          r2 = (if length pw \<ge> 12 then (fst r1 + 1, snd r1) else r1);
          r3 = strength_check (list_ex is_lower_az pw) ''Add lowercase letters'' r2;
          r4 = strength_check (list_ex is_upper_az pw) ''Add uppercase letters'' r3;
          r5 = strength_check (list_ex is_digit pw) ''Add numbers'' r4;
          r6 = strength_check (list_ex (\<lambda>c. \<not> is_alnum c) pw) ''Add special characters'' r5
      in \<lparr>st_score = fst r6, st_feedback = snd r6,
          st_strength = (if fst r6 \<le> 2 then ''weak'' else if fst r6 \<le> 4 then ''medium'' else ''strong'')\<rparr>)"


section \<open>Second factor\<close>

text \<open>\<open>verify token secret\<close> is otplib's \<open>authenticator.verify\<close>; \<open>secret\<close> and \<open>codes\<close> are random draws.
  \<open>toUpperCase\<close> is exact below 256 except on the three letters whose upper case is longer or lies
  outside this range.\<close>

definition js_upper_char :: "char \<Rightarrow> char" where
  "js_upper_char c = (let n = (of_char c :: nat)
     in if (97 \<le> n \<and> n \<le> 122) \<or> (224 \<le> n \<and> n \<le> 254 \<and> n \<noteq> 247) then char_of (n - 32) else c)"

definition js_upper :: "string \<Rightarrow> string" where
  "js_upper s = map js_upper_char s"

definition generateTotpSetup :: "int \<Rightarrow> string \<Rightarrow> 't auth_db \<Rightarrow> string option \<times> 't auth_db" where
  "generateTotpSetup i secret db =
     (case getUserById i db of
        None \<Rightarrow> (None, db)
      | Some u \<Rightarrow> (Some secret, saveTotpSecret i secret db))"

definition recovery_code :: "string \<Rightarrow> string" where
  "recovery_code hex8 = take 4 (js_upper hex8) @ ''-'' @ drop 4 (js_upper hex8)"

definition generateRecoveryCodes :: "string list \<Rightarrow> string list" where
  "generateRecoveryCodes draws = map recovery_code draws"

datatype totp_result = TotpError string | TotpEnabled "string list"

definition verifyAndEnableTotp ::
  "(string \<Rightarrow> string \<Rightarrow> bool) \<Rightarrow> int \<Rightarrow> string \<Rightarrow> string list \<Rightarrow> 't auth_db \<Rightarrow> totp_result \<times> 't auth_db" where
  "verifyAndEnableTotp verify i token draws db =
     (case getUserById i db of
        None \<Rightarrow> (TotpError ''TOTP not set up'', db)
      | Some u \<Rightarrow>
          if \<not> truthy (u_totp_secret u) then (TotpError ''TOTP not set up'', db)
          else if \<not> verify token (the (u_totp_secret u)) then (TotpError ''Invalid verification code'', db)
          else let codes = generateRecoveryCodes draws in (TotpEnabled codes, enableTotp i codes db))"

definition verifyTotpCode :: "(string \<Rightarrow> string \<Rightarrow> bool) \<Rightarrow> int \<Rightarrow> string \<Rightarrow> 't auth_db \<Rightarrow> bool" where
  "verifyTotpCode verify i token db =
     (case getUserById i db of
        None \<Rightarrow> False
      | Some u \<Rightarrow> u_totp_enabled u \<and> truthy (u_totp_secret u) \<and> verify token (the (u_totp_secret u)))"

fun remove_first :: "('a \<Rightarrow> bool) \<Rightarrow> 'a list \<Rightarrow> 'a list option" where
  "remove_first p [] = None"
| "remove_first p (x # xs) = (if p x then Some xs else map_option ((#) x) (remove_first p xs))"

definition verifyRecoveryCode :: "int \<Rightarrow> string \<Rightarrow> 't auth_db \<Rightarrow> bool \<times> 't auth_db" where
  "verifyRecoveryCode i code db =
     (case getUserById i db of
        None \<Rightarrow> (False, db)
      | Some u \<Rightarrow>
          if \<not> u_totp_enabled u then (False, db)
          else case u_recovery_codes u of
                 Some (CodesJson codes) \<Rightarrow>
                   (case remove_first (\<lambda>c. js_upper c = js_upper (js_trim code)) codes of
                      None \<Rightarrow> (False, db)
                    | Some rest \<Rightarrow> (True, useRecoveryCode i rest db))
               | _ \<Rightarrow> (False, db))"

definition disableTotp :: "int \<Rightarrow> 't auth_db \<Rightarrow> 't auth_db" where
  "disableTotp i db = db_disableTotp i db"

definition isTotpEnabled :: "int \<Rightarrow> 't auth_db \<Rightarrow> bool" where
  "isTotpEnabled i db = (case getUserById i db of None \<Rightarrow> False | Some u \<Rightarrow> u_totp_enabled u)"



section \<open>Lemmas\<close>

text \<open>What the service relies on of bcrypt: a fresh hash has the bcrypt prefix and verifies.\<close>

definition bcrypt_law :: "crypto_ops \<Rightarrow> bool" where
  "bcrypt_law C = (\<forall>p. startsWith (hashPassword C p) ''$2b$'' \<and> bcrypt_compare C p (hashPassword C p))"

lemma bcrypt_fresh:
  assumes "bcrypt_law C"
  shows "verifyPasswordEx C p (hashPassword C p) = Inr (True, False)" and "\<not> isPBKDF2Hash (hashPassword C p)"
  using assms by (auto simp: bcrypt_law_def verifyPasswordEx_def isPBKDF2Hash_def)

lemma find_password_skip:
  assumes "list_all (\<lambda>c. \<not> line_term c) xs" and "line_term n"
  shows "find_password False (xs @ n # ys) = find_password True ys"
  using assms by (induction xs) (auto simp: Let_def)

lemma find_password_here:
  assumes "pw \<noteq> []" "\<not> js_ws (hd pw)" "js_trim pw = pw" "list_all (\<lambda>c. \<not> line_term c) pw" "line_term n"
  shows "find_password True (''Admin Password: '' @ pw @ n # ys) = Some pw"
proof -
  obtain c cs where pw: "pw = c # cs" using assms(1) by (cases pw) auto
  have lab: "''Admin Password: '' @ pw @ n # ys = CHR ''A'' # ''dmin Password: '' @ pw @ n # ys" by simp
  have d: "drop (length pw_label) (CHR ''A'' # ''dmin Password: '' @ pw @ n # ys) = CHR '' '' # pw @ n # ys"
    by (simp add: pw_label_def)
  have dw: "dropWhile js_ws (CHR '' '' # pw @ n # ys) = pw @ n # ys"
    using assms(2) by (simp add: pw js_ws_def)
  have sw: "startsWith (CHR ''A'' # ''dmin Password: '' @ pw @ n # ys) pw_label"
    by (simp add: startsWith_def pw_label_def)
  have tw: "takeWhile (\<lambda>x. \<not> line_term x) (pw @ n # ys) = pw"
    using assms(4,5) by (simp add: list_all_iff takeWhile_append2)
  show ?thesis
    unfolding lab find_password.simps Let_def d dw using sw tw assms(1,3) by (simp add: null_if_empty_def pw)
qed

lemma credentials_roundtrip:
  assumes "list_all (\<lambda>c. \<not> line_term c) username"
    and "pw \<noteq> []" "\<not> js_ws (hd pw)" "js_trim pw = pw" "list_all (\<lambda>c. \<not> line_term c) pw"
  shows "find_password True (credsContent username pw ts) = Some pw"
proof -
  let ?n = "CHR 0x0A"
  let ?rest = "''Admin Password: '' @ pw @ ?n # ''Generated by: BetterDesk Console (Node.js)'' @ nl @ ''Timestamp: '' @ ts @ nl"
  have n: "line_term ?n" by (simp add: line_term_def)
  have c: "credsContent username pw ts = CHR ''A'' # (''dmin Username: '' @ username) @ ?n # ?rest"
    by (simp add: credsContent_def nl_def)
  have "\<not> startsWith (CHR ''A'' # (''dmin Username: '' @ username) @ ?n # ?rest) pw_label"
    by (simp add: startsWith_def pw_label_def)
  then have "find_password True (credsContent username pw ts) = find_password False ((''dmin Username: '' @ username) @ ?n # ?rest)"
    unfolding c by (simp add: Let_def line_term_def)
  also have "\<dots> = find_password True ?rest"
    using assms(1) n by (intro find_password_skip) (simp_all add: line_term_def)
  also have "\<dots> = Some pw" by (rule find_password_here [OF assms(2-5) n])
  finally show ?thesis .
qed

lemma remove_first_facts:
  assumes "remove_first p xs = Some ys"
  shows "length xs = Suc (length ys)" and "set ys \<subseteq> set xs"
    and "\<And>z. z \<in> set xs \<Longrightarrow> \<not> p z \<Longrightarrow> z \<in> set ys"
  using assms by (induction xs arbitrary: ys) (auto split: if_splits)

lemma remove_first_None: "remove_first p xs = None \<longleftrightarrow> (\<forall>x \<in> set xs. \<not> p x)"
  by (induction xs) auto

lemma remove_first_distinct:
  assumes "remove_first (\<lambda>c. f c = k) xs = Some ys" and "distinct (map f xs)"
  shows "\<forall>y \<in> set ys. f y \<noteq> k" and "distinct (map f ys)"
  using assms
proof (induction xs arbitrary: ys)
  case (Cons x xs)
  {
    case 1
    with Cons show ?case by (fastforce split: if_splits)
  next
    case 2
    with Cons show ?case
      using remove_first_facts(2) [of "\<lambda>c. f c = k" xs] by (fastforce split: if_splits)
  }
qed simp_all


section \<open>Properties\<close>

text \<open>a fresh installation has one usable administrator.  On a database without users (and not
  owned by the Go server's Docker bootstrap) \<open>ensureDefaultAdmin\<close> creates exactly one account, the
  configured or generated password logs it in as \<open>admin\<close>, and a generated password is in the
  credentials file in the form that \<open>readAdminCredentialsFile\<close> reads.\<close>

theorem bootstrap_admin_usable:
  assumes "bcrypt_law C" and "auth_ok db" and "\<not> hasUsers db" and "\<not> dockerUsesGoOwnedAdminBootstrap (ae_docker e)"
    and "js_trim (or_str (ae_username e) ''admin'') \<noteq> []"
    and "list_all (\<lambda>c. \<not> line_term c) (or_str (ae_username e) ''admin'')"
    and "ae_random e \<noteq> []" "\<not> js_ws (hd (ae_random e))" "js_trim (ae_random e) = ae_random e"
      "list_all (\<lambda>c. \<not> line_term c) (ae_random e)"
    and "ensureDefaultAdmin C e reads polls db = (res, db', file)"
  shows "res = Inr True \<and> length (db_users db') = 1 \<and>
    (\<exists>pw r. fst (authenticate C G sso auto now (or_str (ae_username e) ''admin'') pw db') = Inr (AuthOk r)
       \<and> a_role r = ''admin'' \<and> (file = None \<or> (pw = ae_random e \<and> Option.bind file (find_password True) = Some pw)))"
proof -
  let ?name = "or_str (ae_username e) ''admin''"
  define pw0 where "pw0 = or_str (ae_password e) (or_str (Option.bind (if reads = [] then None else Some (hd reads)) (\<lambda>r. r)) [])"
  define pw1 where "pw1 = (if pw0 \<noteq> [] then pw0 else case find truthy (take 5 (tl reads)) of None \<Rightarrow> [] | Some r \<Rightarrow> the r)"
  define pw where "pw = (if pw1 = [] then ae_random e else pw1)"
  define u where "u = \<lparr>u_username = ?name, u_password_hash = hashPassword C pw, u_role = ''admin'',
    u_auth_provider = ''local'', u_last_login = None, u_language = None, u_totp_secret = None,
    u_totp_enabled = False, u_recovery_codes = None, u_profile = []\<rparr>"
  define d where "d = db\<lparr>db_users := [(db_user_seq db + 1, u)], db_user_seq := db_user_seq db + 1\<rparr>"
  have none: "db_users db = []" using assms(3) by (simp add: hasUsers_def)
  have cr: "createUser ?name (hashPassword C pw) ''admin'' ''local'' db = Inr (db_user_seq db + 1, d)"
    by (simp add: createUser_def getUserByUsername_def none u_def d_def Let_def)
  have g: "getUserByUsername ?name d = Some (db_user_seq db + 1, u)"
    by (simp add: getUserByUsername_def d_def u_def)
  have ver: "verifyAdminPasswordHash C (db_user_seq db + 1) (u_password_hash u) pw d = (Verified, d)"
    using assms(1) by (simp add: verifyAdminPasswordHash_def u_def bcrypt_law_def)
  have "ensureDefaultAdmin C e reads polls db =
      (Inr True, d, if pw1 = [] then Some (credsContent ?name (ae_random e) (ae_timestamp e)) else None)"
    using assms(4) none cr g ver
    unfolding ensureDefaultAdmin_def Let_def pw0_def [symmetric] pw1_def [symmetric] pw_def [symmetric]
    by (simp add: waitForDockerBootstrapAdmin_def hasUsers_def pw_def)
  with assms(11) have r: "res = Inr True" "db' = d"
      "file = (if pw1 = [] then Some (credsContent ?name (ae_random e) (ae_timestamp e)) else None)" by auto
  have ok: "auth_ok d" using auth_ok_createUser(1) [OF assms(2) cr] .
  have loc: "normalizeAuthProvider (Some (u_auth_provider u)) = ''local''"
    by (simp add: u_def normalizeAuthProvider_def or_str_def js_lower_def js_lower_char_def js_trim_def js_ws_def Let_def)
  have v: "verifyPasswordEx C pw (u_password_hash u) = Inr (True, False)"
    using bcrypt_fresh(1) [OF assms(1)] by (simp add: u_def)
  have "\<exists>r. fst (authenticate C G sso auto now ?name pw d) = Inr (AuthOk r) \<and> a_role r = ''admin''"
    using assms(5) g loc v
    by (simp add: authenticate_def login_local_def finish_login_def authSuccessFromUser_def Let_def) (simp add: u_def)
  moreover have "file = None \<or> (pw = ae_random e \<and> Option.bind file (find_password True) = Some pw)"
    using r(3) credentials_roundtrip [OF assms(6) assms(7-10)] by (simp add: pw_def)
  ultimately show ?thesis using r by (auto simp: d_def)
qed

definition demo_admin_env :: admin_env where
  "demo_admin_env = \<lparr>ae_username = None, ae_password = None, ae_force = False,
     ae_docker = \<lparr>de_docker = [], de_dbType = ''sqlite'', de_authMode = [], de_legacy_exists = False\<rparr>,
     ae_random = ''0badcafe'', ae_timestamp = ''t''\<rparr>"

theorem bootstrap_admin_usable_witness:
  "length (db_users (fst (snd (ensureDefaultAdmin demo_crypto demo_admin_env [None] [] (empty_auth_db :: int auth_db))))) = 1"
proof -
  have b: "bcrypt_law demo_crypto" by (simp add: bcrypt_law_def demo_crypto_def startsWith_def)
  have h: "auth_ok (empty_auth_db :: int auth_db)" "\<not> hasUsers (empty_auth_db :: int auth_db)"
    "\<not> dockerUsesGoOwnedAdminBootstrap (ae_docker demo_admin_env)"
    "js_trim (or_str (ae_username demo_admin_env) ''admin'') \<noteq> []"
    "list_all (\<lambda>c. \<not> line_term c) (or_str (ae_username demo_admin_env) ''admin'')"
    "ae_random demo_admin_env \<noteq> []" "\<not> js_ws (hd (ae_random demo_admin_env))"
    "js_trim (ae_random demo_admin_env) = ae_random demo_admin_env"
    "list_all (\<lambda>c. \<not> line_term c) (ae_random demo_admin_env)"
    by code_simp+
  show ?thesis
    using bootstrap_admin_usable [OF b h, of "[None]" "[]" _ _ _ "demo_go TransportError" no_sso False 0]
    by (metis prod.collapse)
qed

text \<open>a restart never changes a password.  When the database has users and no forced update is
  requested, \<open>ensureDefaultAdmin\<close> leaves it as it is, or only re-hashes the default administrator's
  password after verifying the same password against the old format.\<close>

theorem restart_keeps_passwords:
  assumes "hasUsers db" and "\<not> ae_force e" and "ensureDefaultAdmin C e reads polls db = (res, db', file)"
  shows "file = None \<and> (db' = db \<or>
    (\<exists>i u pw. getUserByUsername (or_str (ae_username e) ''admin'') db = Some (i, u) \<and> isPBKDF2Hash (u_password_hash u)
       \<and> verifyPBKDF2 C pw (u_password_hash u) = Inr True \<and> db' = updateUserPassword i (hashPassword C pw) db))"
proof -
  have "\<exists>w. waitForDockerBootstrapAdmin (ae_docker e) db polls = Inr (w, db)"
    using assms(1) by (auto simp: waitForDockerBootstrapAdmin_def)
  with assms show ?thesis
    by (auto simp: ensureDefaultAdmin_def Let_def split: if_splits option.splits sum.splits)
qed

theorem restart_keeps_passwords_witness:
  "fst (snd (ensureDefaultAdmin demo_crypto (demo_admin_env\<lparr>ae_username := Some ''ann'', ae_password := Some ''other''\<rparr>) [] []
     (demo_account ''local'' ''admin'' ''$2b$pw'' False))) = demo_account ''local'' ''admin'' ''$2b$pw'' False"
proof -
  let ?db = "demo_account ''local'' ''admin'' ''$2b$pw'' False"
  let ?e = "demo_admin_env\<lparr>ae_username := Some ''ann'', ae_password := Some ''other''\<rparr>"
  have h: "hasUsers ?db" "\<not> ae_force ?e" by code_simp+
  have "\<not> (\<exists>i u. getUserByUsername ''ann'' ?db = Some (i, u) \<and> isPBKDF2Hash (u_password_hash u))"
    by (auto simp: demo_account_def getUserByUsername_def empty_auth_db_def isPBKDF2Hash_def startsWith_def)
  then show ?thesis
    using restart_keeps_passwords [OF h, of demo_crypto "[]" "[]"] by (auto simp: or_str_def) (metis prod.collapse)
qed

text \<open>changing a password replaces exactly one hash.  A successful change was authorised by the
  current password, the new password verifies afterwards, and no other account changes; a refused
  change leaves the database as it was.\<close>

theorem password_change_effect:
  assumes "bcrypt_law C" and "changePassword C i current new db = (res, db')"
  shows "(res = Inr ChangeOk \<and> (\<exists>u. getUserById i db = Some u \<and> verifyPassword C current (u_password_hash u) = Inr True
            \<and> map_option (\<lambda>u'. verifyPassword C new (u_password_hash u')) (getUserById i db') = Some (Inr True))
          \<and> length new \<ge> 8 \<and> (\<forall>k. k \<noteq> i \<longrightarrow> getUserById k db' = getUserById k db))
    \<or> (res \<noteq> Inr ChangeOk \<and> db' = db)"
proof -
  have v: "verifyPassword C new (hashPassword C new) = Inr True"
    using bcrypt_fresh(1) [OF assms(1), of new] by (simp add: verifyPassword_def)
  show ?thesis
    using assms(2) v
    by (auto simp: changePassword_def updateUserPassword_def split: option.splits sum.splits if_splits)
qed

theorem password_change_effect_witness:
  "fst (changePassword demo_crypto 1 ''pw'' ''longer password'' (demo_account ''local'' ''admin'' ''$2b$pw'' False)) = Inr ChangeOk
   \<and> length ''longer password'' \<ge> 8"
proof -
  let ?db = "demo_account ''local'' ''admin'' ''$2b$pw'' False"
  have b: "bcrypt_law demo_crypto" by (simp add: bcrypt_law_def demo_crypto_def startsWith_def)
  have "fst (changePassword demo_crypto 1 ''pw'' ''longer password'' ?db) = Inr ChangeOk" by code_simp
  then show ?thesis
    using password_change_effect [OF b, of 1 "''pw''" "''longer password''" ?db] by (metis prod.collapse)
qed

text \<open>a recovery code works once.  When the codes of an account differ (in upper case), a code that
  was accepted is refused the next time, exactly one code is used up, and every other code stays.\<close>

theorem recovery_code_single_use:
  assumes "getUserById i db = Some u" and "u_recovery_codes u = Some (CodesJson codes)"
    and "distinct (map js_upper codes)" and "verifyRecoveryCode i code db = (True, db')"
  shows "\<not> fst (verifyRecoveryCode i code db') \<and>
    (\<exists>rest. map_option u_recovery_codes (getUserById i db') = Some (Some (CodesJson rest))
       \<and> length codes = Suc (length rest)
       \<and> (\<forall>c \<in> set codes. js_upper c \<noteq> js_upper (js_trim code) \<longrightarrow> c \<in> set rest))"
proof -
  let ?p = "\<lambda>c. js_upper c = js_upper (js_trim code)"
  obtain rest where rest: "remove_first ?p codes = Some rest" "db' = useRecoveryCode i rest db" "u_totp_enabled u"
    using assms(1,2,4) by (auto simp: verifyRecoveryCode_def split: if_splits option.splits)
  have "remove_first ?p rest = None"
    using remove_first_distinct(1) [OF rest(1) assms(3)] by (simp add: remove_first_None)
  then have "\<not> fst (verifyRecoveryCode i code db')"
    using rest assms(1) by (simp add: verifyRecoveryCode_def useRecoveryCode_def)
  with rest assms(1) remove_first_facts [OF rest(1)] show ?thesis by (simp add: useRecoveryCode_def)
qed

definition demo_recovery :: "int auth_db" where
  "demo_recovery = enableTotp 1 [''AB12-CD34'', ''0000-FFFF''] (demo_account ''local'' ''admin'' ''$2b$pw'' False)"

theorem recovery_code_single_use_witness:
  "fst (verifyRecoveryCode 1 '' ab12-cd34 '' demo_recovery)
   \<and> \<not> fst (verifyRecoveryCode 1 '' ab12-cd34 '' (snd (verifyRecoveryCode 1 '' ab12-cd34 '' demo_recovery)))"
proof -
  have u: "getUserById 1 demo_recovery = Some (snd (hd (db_users demo_recovery)))"
    "u_recovery_codes (snd (hd (db_users demo_recovery))) = Some (CodesJson [''AB12-CD34'', ''0000-FFFF''])"
    "distinct (map js_upper [''AB12-CD34'', ''0000-FFFF''])" by code_simp+
  have t: "fst (verifyRecoveryCode 1 '' ab12-cd34 '' demo_recovery)" by code_simp
  then have "verifyRecoveryCode 1 '' ab12-cd34 '' demo_recovery = (True, snd (verifyRecoveryCode 1 '' ab12-cd34 '' demo_recovery))"
    by (metis prod.collapse)
  from recovery_code_single_use [OF u this] t show ?thesis by simp
qed

end
