(* ===== verification/Ssrf_Guard.thy ===== *)
theory Ssrf_Guard
  imports BD_Prelude
begin

text \<open>
  The guard of server-side requests (\<open>lib/ssrfGuard.js\<close>) with the address syntax of Node's \<open>net\<close>
  module, and the parsing of \<open>TRUST_PROXY\<close> (\<open>lib/parseTrustProxy.js\<close>).  DNS and the URL parser are
  parameters.
\<close>

section \<open>Address syntax\<close>

definition octet_ok :: "string \<Rightarrow> bool" where
  "octet_ok s = (s \<noteq> [] \<and> length s \<le> 3 \<and> list_all is_digit s \<and> nat_of_digits s \<le> 255 \<and> (length s = 1 \<or> hd s \<noteq> CHR ''0''))"

definition isIPv4 :: "string \<Rightarrow> bool" where
  "isIPv4 s = (let ps = split_on CHR ''.'' s in length ps = 4 \<and> list_all octet_ok ps)"

definition hextet_ok :: "string \<Rightarrow> bool" where
  "hextet_ok s = (s \<noteq> [] \<and> length s \<le> 4 \<and> list_all is_hex s)"

fun split_double :: "string \<Rightarrow> (string \<times> string) option" where
  "split_double (a # b # cs) =
     (if a = CHR '':'' \<and> b = CHR '':'' then Some ([], cs)
      else map_option (\<lambda>(l, r). (a # l, r)) (split_double (b # cs)))"
| "split_double _ = None"

definition segs :: "string \<Rightarrow> string list" where
  "segs s = (if s = [] then [] else split_on CHR '':'' s)"

text \<open>The number of 16-bit groups, where the last segment may be a dotted IPv4 address.\<close>

definition groups_v4 :: "string list \<Rightarrow> nat option" where
  "groups_v4 ps =
     (if ps \<noteq> [] \<and> isIPv4 (last ps) \<and> list_all hextet_ok (butlast ps) then Some (length ps + 1)
      else if list_all hextet_ok ps then Some (length ps) else None)"

definition zone_char :: "char \<Rightarrow> bool" where
  "zone_char c = (is_alnum c \<or> c \<in> set ''-.:'')"

definition isIPv6 :: "string \<Rightarrow> bool" where
  "isIPv6 s =
     (let a = takeWhile (\<lambda>c. c \<noteq> CHR ''%'') s; z = dropWhile (\<lambda>c. c \<noteq> CHR ''%'') s in
      (z = [] \<or> (length z > 1 \<and> list_all zone_char (tl z))) \<and>
      (case split_double a of
         None \<Rightarrow> groups_v4 (segs a) = Some 8
       | Some (l, r) \<Rightarrow>
           list_all hextet_ok (segs l) \<and>
           (case groups_v4 (segs r) of None \<Rightarrow> False | Some n \<Rightarrow> length (segs l) + n \<le> 7)))"

definition isIP :: "string \<Rightarrow> bool" where
  "isIP s = (isIPv4 s \<or> isIPv6 s)"


section \<open>Blocked addresses\<close>

definition BLOCKED_HOSTNAMES :: "string list" where
  "BLOCKED_HOSTNAMES = [''localhost'', ''localhost.localdomain'', ''metadata.google.internal'', ''metadata.goog'']"

definition octets :: "string \<Rightarrow> int option list" where
  "octets ip = map parseInt (split_on CHR ''.'' ip)"

definition blockedIPv4 :: "bool \<Rightarrow> string \<Rightarrow> bool" where
  "blockedIPv4 allowPrivate ip =
     (let os = octets ip in
      if length os \<noteq> 4 \<or> list_ex (\<lambda>n. n = None) os then True
      else let a = the (os ! 0); b = the (os ! 1) in
        if a = 127 then True
        else if a = 169 \<and> b = 254 then True
        else if allowPrivate then False
        else if a = 0 \<or> a = 10 \<or> a = 127 then True
        else if a = 172 \<and> b \<ge> 16 \<and> b \<le> 31 then True
        else if a = 192 \<and> b = 168 then True
        else if a = 100 \<and> b \<ge> 64 \<and> b \<le> 127 then True
        else if a = 198 \<and> (b = 18 \<or> b = 19) then True
        else False)"

definition isBlockedIp :: "bool \<Rightarrow> string \<Rightarrow> bool" where
  "isBlockedIp allowPrivate ip =
     (if ip = [] then True
      else if isIPv4 ip then blockedIPv4 allowPrivate ip
      else if isIPv6 ip then
        let n = js_lower ip in
        if n = ''::1'' then True
        else if startsWith n ''fe80:'' then True
        else if \<not> allowPrivate \<and> (startsWith n ''fc'' \<or> startsWith n ''fd'') then True
        else if startsWith n ''::ffff:'' \<and> isIPv4 (drop 7 n) then blockedIPv4 allowPrivate (drop 7 n)
        else False
      else False)"


section \<open>Hosts and URLs\<close>

definition normalizeHostname :: "string \<Rightarrow> string" where
  "normalizeHostname host =
     (let h = js_lower (js_trim host) in
      if startsWith h ''['' \<and> endsWith h '']'' then butlast (tl h) else h)"

datatype ssrf_error = MissingHostname | BlockedHostname string | BlockedAddress string
  | DnsFailed string | NoRecords string | ResolvesToBlocked string string
  | UrlRequired | InvalidUrl | BadProtocol | UrlCredentials

definition assertSafeHostname :: "bool \<Rightarrow> string \<Rightarrow> ssrf_error + string" where
  "assertSafeHostname allowPrivate host =
     (let clean = normalizeHostname host in
      if clean = [] then Inl MissingHostname
      else if clean \<in> set BLOCKED_HOSTNAMES then Inl (BlockedHostname clean)
      else if isIP clean \<and> isBlockedIp allowPrivate clean then Inl (BlockedAddress clean)
      else Inr clean)"

text \<open>\<open>dns host\<close> is the outcome of \<open>dns.lookup(host, {all: true})\<close>: the addresses, or \<^term>\<open>None\<close> for an
  error.\<close>

definition assertSafeResolvedHost ::
  "(string \<Rightarrow> string list option) \<Rightarrow> bool \<Rightarrow> string \<Rightarrow> ssrf_error + string" where
  "assertSafeResolvedHost dns allowPrivate host =
     (case assertSafeHostname allowPrivate host of
        Inl e \<Rightarrow> Inl e
      | Inr clean \<Rightarrow>
          if isIP clean then Inr clean
          else case dns clean of
                 None \<Rightarrow> Inl (DnsFailed clean)
               | Some records \<Rightarrow>
                   if records = [] then Inl (NoRecords clean)
                   else case find (isBlockedIp allowPrivate) records of
                          Some bad \<Rightarrow> Inl (ResolvesToBlocked clean bad)
                        | None \<Rightarrow> Inr clean)"

record parsed_url =
  pu_protocol :: string
  pu_username :: string
  pu_password :: string
  pu_hostname :: string

definition assertSafeHttpUrl ::
  "(string \<Rightarrow> parsed_url option) \<Rightarrow> (string \<Rightarrow> string list option) \<Rightarrow> bool \<Rightarrow> string \<Rightarrow> ssrf_error + parsed_url" where
  "assertSafeHttpUrl parse dns allowPrivate url =
     (if url = [] then Inl UrlRequired
      else case parse url of
        None \<Rightarrow> Inl InvalidUrl
      | Some p \<Rightarrow>
          if pu_protocol p \<noteq> ''http:'' \<and> pu_protocol p \<noteq> ''https:'' then Inl BadProtocol
          else if pu_username p \<noteq> [] \<or> pu_password p \<noteq> [] then Inl UrlCredentials
          else case assertSafeResolvedHost dns allowPrivate (pu_hostname p) of
                 Inl e \<Rightarrow> Inl e
               | Inr _ \<Rightarrow> Inr p)"

definition assertSafeMonitoringUrl ::
  "(string \<Rightarrow> parsed_url option) \<Rightarrow> (string \<Rightarrow> string list option) \<Rightarrow> string \<Rightarrow> ssrf_error + parsed_url" where
  "assertSafeMonitoringUrl parse dns url = assertSafeHttpUrl parse dns True url"


section \<open>TRUST_PROXY\<close>

datatype trust_proxy = TrustNone | TrustHops int | TrustText string

definition parseTrustProxy :: "string option \<Rightarrow> trust_proxy" where
  "parseTrustProxy raw =
     (case raw of
        None \<Rightarrow> TrustNone
      | Some s \<Rightarrow>
          let trimmed = js_trim s; lower = js_lower trimmed in
          if trimmed = [] then TrustNone
          else if lower \<in> set [''false'', ''0'', ''no'', ''off''] then TrustNone
          else if lower \<in> set [''true'', ''1'', ''yes'', ''y'', ''on''] then TrustHops 1
          else case parseInt trimmed of
                 Some n \<Rightarrow> if show_int n = trimmed then TrustHops n else TrustText trimmed
               | None \<Rightarrow> TrustText trimmed)"


section \<open>Lemmas\<close>

definition show_ip :: "nat \<Rightarrow> nat \<Rightarrow> nat \<Rightarrow> nat \<Rightarrow> string" where
  "show_ip a b c d = join_with ''.'' [show_nat a, show_nat b, show_nat c, show_nat d]"

lemma show_nat_no_dot: "CHR ''.'' \<notin> set (show_nat n)"
  using show_nat_digits [of "CHR ''.''" n] by (auto simp: is_digit_def)

lemma split_show_ip: "split_on CHR ''.'' (show_ip a b c d) = [show_nat a, show_nat b, show_nat c, show_nat d]"
  unfolding show_ip_def by (rule split_join) (auto simp: show_nat_no_dot)

lemma octets_show_ip:
  assumes "a \<le> 255" "b \<le> 255" "c \<le> 255" "d \<le> 255"
  shows "octets (show_ip a b c d) = [Some (int a), Some (int b), Some (int c), Some (int d)]"
proof -
  have "n \<le> 255 \<Longrightarrow> parseInt (show_nat n) = Some (int n)" for n
    by (rule parseInt_show_nat) (rule le_less_trans, assumption, simp add: power_strict_mono)
  with assms show ?thesis by (simp add: octets_def split_show_ip)
qed


lemma octet_ok_show: "n \<le> 255 \<Longrightarrow> octet_ok (show_nat n)"
proof -
  assume n: "n \<le> 255"
  have dig: "list_all is_digit (show_nat n)" by (simp add: list_all_iff show_nat_digits)
  have "length (show_nat n) \<le> 3 \<and> (length (show_nat n) = 1 \<or> hd (show_nat n) \<noteq> CHR ''0'')"
  proof -
    consider "n < 10" | "10 \<le> n" "n < 100" | "100 \<le> n" by linarith
    then show ?thesis
    proof cases
      case 1
      then show ?thesis by (simp add: show_nat.simps [of n])
    next
      case 2
      have "(of_char (char_of (48 + n div 10) :: char) :: nat) = 48 + n div 10" using 2 by simp
      then have "char_of (48 + n div 10) \<noteq> (CHR ''0'' :: char)" using 2 by (intro notI) auto
      moreover have "n div 10 < 10" using 2 by linarith
      ultimately show ?thesis using 2 by (simp add: show_nat.simps [of n] show_nat.simps [of "n div 10"])
    next
      case 3
      have "(of_char (char_of (48 + n div 10 div 10) :: char) :: nat) = 48 + n div 10 div 10" using n by simp
      then have "char_of (48 + n div 10 div 10) \<noteq> (CHR ''0'' :: char)" using 3 by (intro notI) auto
      moreover have "n div 10 div 10 < 10" "\<not> n div 10 < 10" using 3 n by linarith+
      ultimately show ?thesis using 3 n
        by (simp add: show_nat.simps [of n] show_nat.simps [of "n div 10"] show_nat.simps [of "n div 10 div 10"])
    qed
  qed
  with n dig show ?thesis by (simp add: octet_ok_def)
qed

lemma isIPv4_show:
  assumes "a \<le> 255" "b \<le> 255" "c \<le> 255" "d \<le> 255"
  shows "isIPv4 (show_ip a b c d)"
  using assms by (simp add: isIPv4_def split_show_ip octet_ok_show)

lemma show_ip_ne [simp]: "show_ip a b c d \<noteq> []"
  by (simp add: show_ip_def)

lemma blocked_show_ip:
  assumes "a \<le> 255" "b \<le> 255" "c \<le> 255" "d \<le> 255"
  shows "isBlockedIp False (show_ip a b c d) \<longleftrightarrow>
    a = 0 \<or> a = 10 \<or> a = 127 \<or> (a = 169 \<and> b = 254) \<or> (a = 172 \<and> 16 \<le> b \<and> b \<le> 31) \<or> (a = 192 \<and> b = 168)
    \<or> (a = 100 \<and> 64 \<le> b \<and> b \<le> 127) \<or> (a = 198 \<and> (b = 18 \<or> b = 19))"
proof -
  have "isBlockedIp False (show_ip a b c d) = blockedIPv4 False (show_ip a b c d)"
    using isIPv4_show [OF assms] by (simp add: isBlockedIp_def)
  then show ?thesis by (auto simp: blockedIPv4_def octets_show_ip [OF assms] Let_def)
qed

lemma resolved_not_blocked:
  assumes "assertSafeResolvedHost dns ap host = Inr clean"
  shows "clean = normalizeHostname host" and "isIP clean \<Longrightarrow> \<not> isBlockedIp ap clean"
    and "\<not> isIP clean \<Longrightarrow> \<exists>rs. dns clean = Some rs \<and> (\<forall>r \<in> set rs. \<not> isBlockedIp ap r)"
proof -
  have h: "assertSafeHostname ap host = Inr clean"
    using assms by (auto simp: assertSafeResolvedHost_def split: sum.splits if_splits option.splits)
  then show "clean = normalizeHostname host" and "isIP clean \<Longrightarrow> \<not> isBlockedIp ap clean"
    by (auto simp: assertSafeHostname_def Let_def split: if_splits)
  assume "\<not> isIP clean"
  with assms h show "\<exists>rs. dns clean = Some rs \<and> (\<forall>r \<in> set rs. \<not> isBlockedIp ap r)"
    by (auto simp: assertSafeResolvedHost_def find_None_iff split: if_splits option.splits)
qed


section \<open>Properties\<close>

text \<open>C38: A URL that passes the guard, with private targets not allowed, has no private address in dotted
  form. It is an http or https URL without credentials, and no IPv4 address in the usual dotted notation that is its
  host, or to which its host name resolves, lies in a loopback, private, link-local, shared or benchmark range or in
  the range of address 0. The claim is about the dotted notation: an IPv4 address that is mapped into IPv6 and
  written in hexadecimal is not recognised (\<open>ssrf_guard_misses_loopback\<close>), and nothing is said of a
  second resolution at the time of the request.\<close>

theorem ssrf_guard_blocks_private:
  assumes "assertSafeHttpUrl parse dns False url = Inr p"
    and "a \<le> 255" "b \<le> 255" "c \<le> 255" "d \<le> 255"
    and "normalizeHostname (pu_hostname p) = show_ip a b c d
      \<or> (\<not> isIP (normalizeHostname (pu_hostname p)) \<and> dns (normalizeHostname (pu_hostname p)) = Some records
          \<and> show_ip a b c d \<in> set records)"
  shows "pu_protocol p \<in> {''http:'', ''https:''} \<and> pu_username p = [] \<and> pu_password p = []
    \<and> a \<noteq> 0 \<and> a \<noteq> 10 \<and> a \<noteq> 127 \<and> \<not> (a = 169 \<and> b = 254) \<and> \<not> (a = 172 \<and> 16 \<le> b \<and> b \<le> 31)
    \<and> \<not> (a = 192 \<and> b = 168) \<and> \<not> (a = 100 \<and> 64 \<le> b \<and> b \<le> 127) \<and> \<not> (a = 198 \<and> (b = 18 \<or> b = 19))"
proof -
  have basic: "pu_protocol p \<in> {''http:'', ''https:''} \<and> pu_username p = [] \<and> pu_password p = []"
    and r: "\<exists>clean. assertSafeResolvedHost dns False (pu_hostname p) = Inr clean"
    using assms(1) by (auto simp: assertSafeHttpUrl_def split: if_splits option.splits sum.splits)
  from r obtain clean where clean: "assertSafeResolvedHost dns False (pu_hostname p) = Inr clean" by blast
  have "\<not> isBlockedIp False (show_ip a b c d)"
    using resolved_not_blocked [OF clean] assms(6) isIPv4_show [OF assms(2-5)] by (auto simp: isIP_def)
  with basic blocked_show_ip [OF assms(2-5)] show ?thesis by simp
qed

theorem ssrf_guard_blocks_private_witness:
  "assertSafeHttpUrl (\<lambda>u. Some \<lparr>pu_protocol = ''https:'', pu_username = [], pu_password = [], pu_hostname = ''example.org''\<rparr>)
     (\<lambda>h. Some [''93.184.215.14'']) False ''https://example.org'' =
     Inr \<lparr>pu_protocol = ''https:'', pu_username = [], pu_password = [], pu_hostname = ''example.org''\<rparr> \<and> (93 :: nat) \<noteq> 10"
proof -
  let ?p = "\<lparr>pu_protocol = ''https:'', pu_username = [], pu_password = [], pu_hostname = ''example.org''\<rparr>"
  have g: "assertSafeHttpUrl (\<lambda>u. Some ?p) (\<lambda>h. Some [''93.184.215.14'']) False ''https://example.org'' = Inr ?p" by code_simp
  have n: "\<not> isIP (normalizeHostname (pu_hostname ?p))" by code_simp
  have i: "show_ip 93 184 215 14 = ''93.184.215.14''" by code_simp
  have "(93 :: nat) \<noteq> 10"
    using ssrf_guard_blocks_private [OF g, of 93 184 215 14 "[''93.184.215.14'']"] n i by simp
  with g show ?thesis by blast
qed

text \<open>the guard has holes.  The loopback address in the hexadecimal form of an IPv4-mapped IPv6
  address, the form a URL parser gives to \<open>[::ffff:127.0.0.1]\<close>, and the unspecified IPv6 address pass
  even without \<open>allowPrivate\<close>, and with \<open>allowPrivate\<close> also \<open>0.0.0.0\<close> passes, while the dotted form is
  blocked.\<close>

theorem ssrf_guard_misses_loopback:
  "assertSafeHostname False ''[::ffff:7f00:1]'' = Inr ''::ffff:7f00:1''
   \<and> assertSafeHostname False ''[::]'' = Inr ''::''
   \<and> assertSafeHostname True ''0.0.0.0'' = Inr ''0.0.0.0''
   \<and> assertSafeHostname False ''[::ffff:127.0.0.1]'' = Inl (BlockedAddress ''::ffff:127.0.0.1'')"
  by code_simp

end
