(* ===== verification/Auth_Routes.thy ===== *)
theory Auth_Routes
  imports Session_Runs Permissions Auth_Tokens Auth_Accounts Ssrf_Guard
begin

text \<open>
  \<open>src/web-nodejs/routes/auth.routes.js\<close> behind the session middleware of \<open>server.js\<close>: login, the
  second factor, logout, password change, TOTP management and the end of an OIDC login.  A handler
  takes the time, the request, the browser's session and the state of the console and gives the
  response with the session and the state it leaves.

  The record \<open>services\<close> holds what the handlers call: the parameters of \<open>Auth_Service\<close>, the attached
  session store, the answers of the Go server, and \<open>req.session.regenerate\<close> of express-session,
  which destroys the session and gives a new id and object, or fails.  The rate limiters in front
  of the handlers and the mirroring of changes to the Go server (which ignores failures) are left
  out.  \<open>recordAttempt\<close> is not awaited by the handlers; it is run at its place.
\<close>

section \<open>State\<close>

record log_entry =
  le_user :: "int option"
  le_action :: string
  le_details :: string
  le_ip :: string

record ('s, 't) console =
  con_sessions :: 's
  con_db :: "'t auth_db"
  con_log :: "log_entry list"

text \<open>The session object of a browser between requests: the fields of the session store, and the
  fields of a login that waits for its second factor.\<close>

record browser =
  br_sid :: sid
  br_sess :: sess
  br_pending :: "(auth_user \<times> client_meta) option"
  br_goPartialToken :: "string option"

definition no_browser :: browser where
  "no_browser = \<lparr>br_sid = [], br_sess = empty_sess, br_pending = None, br_goPartialToken = None\<rparr>"

record oidc_exchange =
  ox_token :: string
  ox_username :: string
  ox_role :: string
  ox_return_url :: string

record ('s, 't) services =
  w_crypto :: crypto_ops
  w_go :: go_server
  w_goTotp :: "string \<Rightarrow> string \<Rightarrow> http_result"
  w_sso :: sso_status
  w_autoCreate :: bool
  w_adapter :: "'t adapter"
  w_env :: auth_env
  w_policy :: session_policy
  w_store :: "'s store_ops"
  w_regenerate :: "int \<Rightarrow> sid \<Rightarrow> 's \<Rightarrow> (sid \<times> sess \<times> 's) option"
  w_otp :: "string \<Rightarrow> string \<Rightarrow> bool"
  w_exchange :: "string \<Rightarrow> oidc_exchange option"
  w_randomHash :: string

datatype route_response =
    RespError int string
  | RespTotpRequired
  | RespLoggedIn string string nat
  | RespOk
  | RespData "string list"
  | RespRedirect string
  | RespGuard guard_outcome
  | RespGate gate_response

definition add_log :: "int option \<Rightarrow> string \<Rightarrow> string \<Rightarrow> http_req \<Rightarrow> ('s, 't) console \<Rightarrow> ('s, 't) console" where
  "add_log who action details req c =
     c\<lparr>con_log := con_log c @ [\<lparr>le_user = who, le_action = action, le_details = details, le_ip = rq_ip req\<rparr>]\<rparr>"

definition record_attempt ::
  "('s, 't) services \<Rightarrow> int \<Rightarrow> string \<Rightarrow> http_req \<Rightarrow> bool \<Rightarrow> ('s, 't) console \<Rightarrow> ('s, 't) console" where
  "record_attempt W now name req ok c =
     c\<lparr>con_db := recordAttempt (w_adapter W) (w_env W) now name (rq_ip req) ok (con_db c)\<rparr>"

definition meta_text :: "client_meta \<Rightarrow> string" where
  "meta_text meta = ''; ip='' @ cm_ip meta @ ''; ua='' @ take 160 (cm_userAgent meta)"

definition replace_note :: "replaced_row list \<Rightarrow> string" where
  "replace_note rs = (if rs = [] then [] else ''; replaced='' @ show_nat (length rs) @ '' prior session(s)'')"

definition log_replaced ::
  "string \<Rightarrow> int \<Rightarrow> client_meta \<Rightarrow> replaced_row list \<Rightarrow> http_req \<Rightarrow> ('s, 't) console \<Rightarrow> ('s, 't) console" where
  "log_replaced what i meta rs req c =
     (if rs = [] then c
      else add_log (Some i) ''session_replaced''
        (what @ '' replaced '' @ show_nat (length rs) @ '' prior session(s); newIp='' @ cm_ip meta) req c)"


section \<open>Opening a session\<close>

definition as_session_user :: "auth_user \<Rightarrow> session_user" where
  "as_session_user a = \<lparr>su_id = a_id a, su_username = a_username a, su_role = a_role a, su_language = a_language a\<rparr>"

text \<open>\<open>regenerate\<close> followed by \<open>establishAuthenticatedSession\<close>: \<^term>\<open>None\<close> when the first fails.  The
  session object is stamped before the store is called, so it stays stamped when the store refuses.\<close>

definition open_session ::
  "('s, 't) services \<Rightarrow> int \<Rightarrow> session_user \<Rightarrow> client_meta \<Rightarrow> session_extra option \<Rightarrow> browser \<Rightarrow> ('s, 't) console
     \<Rightarrow> ((store_error + replaced_row list) \<times> browser \<times> ('s, 't) console) option" where
  "open_session W now u meta extra br c =
     (case w_regenerate W now (br_sid br) (con_sessions c) of
        None \<Rightarrow> None
      | Some (sid', s0, t0) \<Rightarrow>
          (case establishAuthenticatedSession (w_policy W) (Some (w_store W)) now sid' u meta extra s0 t0 of
             Inl e \<Rightarrow>
               Some (Inl e, \<lparr>br_sid = sid', br_sess = stamp_session (w_policy W) now u meta extra s0,
                             br_pending = None, br_goPartialToken = None\<rparr>, c\<lparr>con_sessions := t0\<rparr>)
           | Inr (rs, s, t) \<Rightarrow>
               Some (Inr rs, \<lparr>br_sid = sid', br_sess = s, br_pending = None, br_goPartialToken = None\<rparr>,
                     c\<lparr>con_sessions := t\<rparr>)))"


section \<open>Login\<close>

record login_body =
  lb_username :: string
  lb_password :: string
  lb_clientFingerprint :: string
  lb_fingerprint :: string

definition finish_password_login ::
  "('s, 't) services \<Rightarrow> int \<Rightarrow> http_req \<Rightarrow> auth_user \<Rightarrow> client_meta \<Rightarrow> browser \<Rightarrow> ('s, 't) console
     \<Rightarrow> route_response \<times> browser \<times> ('s, 't) console" where
  "finish_password_login W now req a meta br c =
     (case open_session W now (as_session_user a) meta None br c of
        None \<Rightarrow> (RespError 500 ''Server error'', br, c)
      | Some (Inl e, br', c') \<Rightarrow> (RespError 500 ''Server error'', br', c')
      | Some (Inr rs, br', c') \<Rightarrow>
          let c1 = add_log (Some (a_id a)) ''login''
                ((((''User logged in'' @ meta_text meta) @ ''; fingerprint='')
                  @ or_str (Some (cm_fingerprint meta)) ''none'') @ replace_note rs) req c';
              c2 = log_replaced ''New login'' (a_id a) meta rs req c1
          in (RespLoggedIn (a_username a) (a_role a) (length rs), br', c2))"

definition post_login ::
  "('s, 't) services \<Rightarrow> int \<Rightarrow> http_req \<Rightarrow> login_body \<Rightarrow> browser \<Rightarrow> ('s, 't) console
     \<Rightarrow> route_response \<times> browser \<times> ('s, 't) console" where
  "post_login W now req body br c =
     (let name = lb_username body; password = lb_password body;
          meta = clientMetaFromRequest req (lb_clientFingerprint body) (lb_fingerprint body)
      in if name = [] \<or> password = [] then (RespError 400 ''auth.invalid_credentials'', br, c)
         else if length name > 128 \<or> length password > 128 then (RespError 400 ''auth.invalid_credentials'', br, c)
         else case authenticate (w_crypto W) (w_go W) (w_sso W) (w_autoCreate W) now name password (con_db c) of
           (Inl e, db) \<Rightarrow> (RespError 500 ''errors.server_error'', br, c\<lparr>con_db := db\<rparr>)
         | (Inr (AuthFailure code), db) \<Rightarrow>
             let c1 = add_log None ''login_failed'' ((''Username collision: '' @ name) @ meta_text meta) req
                        (record_attempt W now name req False (c\<lparr>con_db := db\<rparr>))
             in (if code = ''username_collision'' then RespError 409 ''username_collision''
                 else RespError 401 ''auth.invalid_credentials'', br, c1)
         | (Inr AuthNull, db) \<Rightarrow>
             let c1 = add_log None ''login_failed'' ((''Username: '' @ name) @ meta_text meta) req
                        (record_attempt W now name req False (c\<lparr>con_db := db\<rparr>))
             in (RespError 401 ''auth.invalid_credentials'', br, c1)
         | (Inr (AuthOk a), db) \<Rightarrow>
             let c1 = record_attempt W now name req True (c\<lparr>con_db := db\<rparr>)
             in if a_role a = ''pro'' then (RespError 403 ''auth.pro_only_account'', br, c1)
                else if a_totpRequired a then
                  (RespTotpRequired,
                   br\<lparr>br_pending := Some (a, meta),
                      br_goPartialToken := (if truthy (a_goPartialToken a) then a_goPartialToken a
                                            else br_goPartialToken br)\<rparr>, c1)
                else finish_password_login W now req a meta br c1)"


section \<open>Second factor\<close>

definition finalizeLoginSession ::
  "('s, 't) services \<Rightarrow> int \<Rightarrow> http_req \<Rightarrow> auth_user \<Rightarrow> client_meta \<Rightarrow> string \<Rightarrow> browser \<Rightarrow> ('s, 't) console
     \<Rightarrow> route_response \<times> browser \<times> ('s, 't) console" where
  "finalizeLoginSession W now req a meta how br c =
     (case open_session W now (as_session_user a) meta None br c of
        None \<Rightarrow> (RespError 500 ''Server error'', br, c)
      | Some (Inl e, br', c') \<Rightarrow> (RespError 500 ''Server error'', br', c')
      | Some (Inr rs, br', c') \<Rightarrow>
          let c1 = c'\<lparr>con_db := touchLastLogin now (a_id a) (con_db c')\<rparr>;
              c2 = add_log (Some (a_id a)) ''login''
                ((((''User logged in (2FA: '' @ how) @ '')'') @ meta_text meta) @ replace_note rs) req c1;
              c3 = log_replaced ''2FA login'' (a_id a) meta rs req c2
          in (RespLoggedIn (a_username a) (a_role a) (length rs), br', c3))"

text \<open>The answer of the Go server to a delegated second factor: \<^term>\<open>None\<close> when nothing was delegated.\<close>

definition delegated_answer :: "('s, 't) services \<Rightarrow> browser \<Rightarrow> string \<Rightarrow> string \<Rightarrow> go_answer option" where
  "delegated_answer W br code recoveryCode =
     (if truthy (br_goPartialToken br)
      then Some (verifyTotpViaGo (w_goTotp W (the (br_goPartialToken br)) (first_truthy [code, recoveryCode])))
      else None)"

definition verify_local_factor ::
  "('s, 't) services \<Rightarrow> int \<Rightarrow> string \<Rightarrow> string \<Rightarrow> 't auth_db \<Rightarrow> bool \<times> string \<times> 't auth_db" where
  "verify_local_factor W i code recoveryCode db =
     (if recoveryCode \<noteq> [] then
        let (ok, db') = verifyRecoveryCode i recoveryCode db in (ok, ''recovery'', db')
      else if code \<noteq> [] then (verifyTotpCode (w_otp W) i code db, ''totp'', db)
      else (False, ''totp'', db))"

definition verify_pending_locally ::
  "('s, 't) services \<Rightarrow> int \<Rightarrow> http_req \<Rightarrow> string \<Rightarrow> string \<Rightarrow> auth_user \<Rightarrow> client_meta \<Rightarrow> browser \<Rightarrow> ('s, 't) console
     \<Rightarrow> route_response \<times> browser \<times> ('s, 't) console" where
  "verify_pending_locally W now req code recoveryCode a meta br c =
     (let (verified, how, db) = verify_local_factor W (a_id a) code recoveryCode (con_db c);
          c1 = c\<lparr>con_db := db\<rparr>
      in if \<not> verified then
           (RespError 401 ''auth.totp_invalid_code'', br,
            add_log (Some (a_id a)) ''totp_failed'' (''Method: '' @ how) req c1)
         else finalizeLoginSession W now req a meta (how @ '' (local)'') br c1)"

definition post_totp_verify ::
  "('s, 't) services \<Rightarrow> int \<Rightarrow> http_req \<Rightarrow> string \<Rightarrow> string \<Rightarrow> browser \<Rightarrow> ('s, 't) console
     \<Rightarrow> route_response \<times> browser \<times> ('s, 't) console" where
  "post_totp_verify W now req code recoveryCode br c =
     (case br_pending br of
        None \<Rightarrow> (RespError 400 ''auth.totp_session_expired'', br, c)
      | Some (a, meta) \<Rightarrow>
          if a_id a = 0 then (RespError 400 ''auth.totp_session_expired'', br, c)
          else case delegated_answer W br code recoveryCode of
            Some (GoRejected limited e) \<Rightarrow>
              if limited then (RespError 429 ''auth.totp_rate_limited'', br, c)
              else (RespError 401 ''auth.totp_invalid_code'', br,
                    add_log (Some (a_id a)) ''totp_failed'' ''Go server rejected TOTP'' req c)
          | Some (GoAccepted b) \<Rightarrow> finalizeLoginSession W now req a meta ''totp (Go delegated)'' br c
          | _ \<Rightarrow> verify_pending_locally W now req code recoveryCode a meta br c)"


section \<open>Logout\<close>

definition post_logout ::
  "('s, 't) services \<Rightarrow> int \<Rightarrow> http_req \<Rightarrow> browser \<Rightarrow> ('s, 't) console \<Rightarrow> browser \<times> ('s, 't) console" where
  "post_logout W now req br c =
     (let c1 = (if logged_in (br_sess br)
                then add_log (userId (br_sess br)) ''logout'' ''User logged out'' req c else c);
          t = endCurrentSession (Some (w_store W)) now (br_sid br) LOGOUT (con_sessions c1)
      in (no_browser, c1\<lparr>con_sessions := st_destroy (w_store W) now (br_sid br) t\<rparr>))"


section \<open>The end of an OIDC login\<close>

definition isSafeReturnUrl :: "string \<Rightarrow> bool" where
  "isSafeReturnUrl u =
     (if u = [] then False
      else if list_ex (\<lambda>c. c = CHR 0x0D \<or> c = CHR 0x0A \<or> c = CHR 0x00) u then False
      else if \<not> startsWith u ''/'' then False
      else if startsWith u ''//'' \<or> startsWith u (''/'' @ [CHR 0x5C]) then False
      else True)"

definition oidc_local_user ::
  "string \<Rightarrow> oidc_exchange \<Rightarrow> 't auth_db \<Rightarrow> (int \<times> user_row) option \<times> 't auth_db" where
  "oidc_local_user hash ox db =
     (case getUserByUsername (ox_username ox) db of
        None \<Rightarrow>
          let db' = (case createUser (ox_username ox) hash (or_str (Some (ox_role ox)) ''viewer'') ''oidc'' db of
                       Inl e \<Rightarrow> db | Inr (i, d) \<Rightarrow> d)
          in (getUserByUsername (ox_username ox) db', db')
      | Some (i, u) \<Rightarrow>
          let db' = syncUserFromGo i (Some (or_str (Some (ox_role ox)) (u_role u))) (Some ''oidc'') None db
          in (getUserByUsername (ox_username ox) db', db'))"

definition get_oidc_session ::
  "('s, 't) services \<Rightarrow> int \<Rightarrow> http_req \<Rightarrow> string \<Rightarrow> browser \<Rightarrow> ('s, 't) console
     \<Rightarrow> route_response \<times> browser \<times> ('s, 't) console" where
  "get_oidc_session W now req code br c =
     (if code = [] then (RespRedirect ''/login?error=oidc_invalid'', br, c)
      else case w_exchange W code of
        None \<Rightarrow> (RespRedirect ''/login?error=oidc_invalid'', br, c)
      | Some ox \<Rightarrow>
          if ox_token ox = [] \<or> ox_username ox = [] then (RespRedirect ''/login?error=oidc_invalid'', br, c)
          else case oidc_local_user (w_randomHash W) ox (con_db c) of
            (None, db) \<Rightarrow> (RespRedirect ''/login?error=oidc_error'', br, c\<lparr>con_db := db\<rparr>)
          | (Some (i, u), db) \<Rightarrow>
              let c1 = c\<lparr>con_db := db\<rparr>;
                  role = or_str (Some (ox_role ox)) (or_str (Some (u_role u)) ''viewer'');
                  meta = clientMetaFromRequest req [] [];
                  su = \<lparr>su_id = i, su_username = u_username u, su_role = role, su_language = u_language u\<rparr>;
                  extra = \<lparr>ex_username = Some (u_username u),
                           ex_fields = [(''role'', role), (''goToken'', ox_token ox), (''authMethod'', ''oidc'')]\<rparr>
              in case open_session W now su meta (Some extra) br c1 of
                   None \<Rightarrow> (RespRedirect ''/login?error=oidc_error'', br, c1)
                 | Some (Inl e, br', c') \<Rightarrow> (RespRedirect ''/login?error=oidc_error'', br', c')
                 | Some (Inr rs, br', c') \<Rightarrow>
                     let c2 = c'\<lparr>con_sessions := st_set (w_store W) now (br_sid br') (br_sess br') (con_sessions c'),
                                 con_db := touchLastLogin now i (con_db c')\<rparr>;
                         c3 = add_log (Some i) ''login''
                           ((''User logged in via OIDC'' @ meta_text meta) @ replace_note rs) req c2;
                         c4 = log_replaced ''OIDC login'' i meta rs req c3
                     in (RespRedirect (if isSafeReturnUrl (ox_return_url ox) then ox_return_url ox else ''/''), br', c4))"

definition isPrivateClientIp :: "string \<Rightarrow> bool" where
  "isPrivateClientIp rawIp =
     (let ip0 = js_lower (js_trim rawIp);
          ip = (if startsWith ip0 ''::ffff:'' then drop 7 ip0 else ip0)
      in if isIPv4 ip then
           (let os = map nat_of_digits (split_on CHR ''.'' ip)
            in os ! 0 = 10 \<or> (os ! 0 = 172 \<and> os ! 1 \<ge> 16 \<and> os ! 1 \<le> 31) \<or> (os ! 0 = 192 \<and> os ! 1 = 168) \<or> os ! 0 = 127)
         else if isIPv6 ip then ip = ''::1'' \<or> startsWith ip ''fc'' \<or> startsWith ip ''fd''
         else False)"


section \<open>Account settings\<close>

text \<open>A handler behind \<open>requireAuth\<close>: a refused session is destroyed when the guard says so.\<close>

definition behind_auth ::
  "('s, 't) services \<Rightarrow> int \<Rightarrow> string \<Rightarrow> browser \<Rightarrow> ('s, 't) console
     \<Rightarrow> (int \<Rightarrow> route_response \<times> ('s, 't) console) \<Rightarrow> route_response \<times> browser \<times> ('s, 't) console" where
  "behind_auth W now path br c handler =
     (case requireAuth \<lparr>g_path = path, g_session = Some (br_sess br), g_effective = None, g_loaded = False,
                        g_load_error = False\<rparr> of
        (Pass, _) \<Rightarrow> (let (resp, c') = handler (the (userId (br_sess br))) in (resp, br, c'))
      | (outcome, destroyed) \<Rightarrow>
          if destroyed
          then (RespGuard outcome, no_browser, c\<lparr>con_sessions := st_destroy (w_store W) now (br_sid br) (con_sessions c)\<rparr>)
          else (RespGuard outcome, br, c))"

definition post_password ::
  "('s, 't) services \<Rightarrow> http_req \<Rightarrow> string \<Rightarrow> string \<Rightarrow> string \<Rightarrow> ('s, 't) console \<Rightarrow> int
     \<Rightarrow> route_response \<times> ('s, 't) console" where
  "post_password W req current new confirm c i =
     (if current = [] \<or> new = [] then (RespError 400 ''auth.password_required'', c)
      else if new \<noteq> confirm then (RespError 400 ''auth.passwords_mismatch'', c)
      else case changePassword (w_crypto W) i current new (con_db c) of
        (Inl e, db) \<Rightarrow> (RespError 500 ''errors.server_error'', c\<lparr>con_db := db\<rparr>)
      | (Inr (ChangeError e), db) \<Rightarrow> (RespError 400 e, c\<lparr>con_db := db\<rparr>)
      | (Inr ChangeOk, db) \<Rightarrow>
          (RespOk, add_log (Some i) ''password_changed'' ''Password changed'' req (c\<lparr>con_db := db\<rparr>)))"

definition post_totp_setup :: "string \<Rightarrow> ('s, 't) console \<Rightarrow> int \<Rightarrow> route_response \<times> ('s, 't) console" where
  "post_totp_setup secret c i =
     (if isTotpEnabled i (con_db c) then (RespError 400 ''auth.totp_already_enabled'', c)
      else case generateTotpSetup i secret (con_db c) of
        (None, db) \<Rightarrow> (RespError 400 ''User not found'', c\<lparr>con_db := db\<rparr>)
      | (Some sec, db) \<Rightarrow> (RespData [sec], c\<lparr>con_db := db\<rparr>))"

definition post_totp_enable ::
  "('s, 't) services \<Rightarrow> http_req \<Rightarrow> string \<Rightarrow> string list \<Rightarrow> ('s, 't) console \<Rightarrow> int \<Rightarrow> route_response \<times> ('s, 't) console" where
  "post_totp_enable W req code draws c i =
     (if length code \<noteq> 6 then (RespError 400 ''auth.totp_invalid_code'', c)
      else case verifyAndEnableTotp (w_otp W) i code draws (con_db c) of
        (TotpError e, db) \<Rightarrow> (RespError 400 e, c\<lparr>con_db := db\<rparr>)
      | (TotpEnabled codes, db) \<Rightarrow>
          (RespData codes, add_log (Some i) ''totp_enabled'' ''2FA enabled'' req (c\<lparr>con_db := db\<rparr>)))"

definition post_totp_disable ::
  "('s, 't) services \<Rightarrow> http_req \<Rightarrow> string \<Rightarrow> ('s, 't) console \<Rightarrow> int \<Rightarrow> route_response \<times> ('s, 't) console" where
  "post_totp_disable W req password c i =
     (if password = [] then (RespError 400 ''auth.password_required'', c)
      else case getUserById i (con_db c) of
        None \<Rightarrow> (RespError 404 ''users.not_found'', c)
      | Some u \<Rightarrow>
          (case verifyPassword (w_crypto W) password (u_password_hash u) of
             Inl e \<Rightarrow> (RespError 500 ''errors.server_error'', c)
           | Inr valid \<Rightarrow>
               if \<not> valid then (RespError 401 ''auth.invalid_credentials'', c)
               else (RespOk, add_log (Some i) ''totp_disabled'' ''2FA disabled'' req
                       (c\<lparr>con_db := disableTotp i (con_db c)\<rparr>))))"


section \<open>Requests of one browser\<close>

text \<open>The routes of this file; \<open>ReqPage\<close> stands for a request to any other route, which passes the
  session middleware and does not change who is logged in.  The random draws of a handler are part
  of its request.\<close>

datatype request =
    ReqLogin login_body
  | ReqTotp string string
  | ReqLogout
  | ReqOidc string
  | ReqPassword string string string
  | ReqTotpSetup string
  | ReqTotpEnable string "string list"
  | ReqTotpDisable string
  | ReqPage

definition route ::
  "('s, 't) services \<Rightarrow> int \<Rightarrow> http_req \<Rightarrow> request \<Rightarrow> browser \<Rightarrow> ('s, 't) console
     \<Rightarrow> route_response \<times> browser \<times> ('s, 't) console" where
  "route W now req rq br c =
     (case rq of
        ReqLogin body \<Rightarrow> post_login W now req body br c
      | ReqTotp code recoveryCode \<Rightarrow> post_totp_verify W now req code recoveryCode br c
      | ReqLogout \<Rightarrow> (RespOk, post_logout W now req br c)
      | ReqOidc code \<Rightarrow> get_oidc_session W now req code br c
      | ReqPassword current new confirm \<Rightarrow>
          behind_auth W now (rq_path req) br c (post_password W req current new confirm c)
      | ReqTotpSetup secret \<Rightarrow> behind_auth W now (rq_path req) br c (post_totp_setup secret c)
      | ReqTotpEnable code draws \<Rightarrow> behind_auth W now (rq_path req) br c (post_totp_enable W req code draws c)
      | ReqTotpDisable password \<Rightarrow> behind_auth W now (rq_path req) br c (post_totp_disable W req password c)
      | ReqPage \<Rightarrow> (RespOk, br, c))"

definition audit_log :: "audit_entry \<Rightarrow> log_entry" where
  "audit_log e = \<lparr>le_user = Some (au_user e), le_action = au_action e, le_details = au_details e, le_ip = au_ip e\<rparr>"

definition handle_request ::
  "('s, 't) services \<Rightarrow> int \<Rightarrow> http_req \<Rightarrow> request \<Rightarrow> browser \<Rightarrow> ('s, 't) console
     \<Rightarrow> route_response \<times> browser \<times> ('s, 't) console" where
  "handle_request W now req rq br c =
     (case session_gate (w_policy W) (w_store W) now req (br_sid br) (br_sess br) (con_sessions c) of
        (g, s, audit, t) \<Rightarrow>
          let c1 = c\<lparr>con_sessions := t, con_log := con_log c @ map audit_log audit\<rparr>
          in if g = Next then route W now req rq (br\<lparr>br_sess := s\<rparr>) c1 else (RespGate g, no_browser, c1))"

text \<open>A visit: the requests of one browser, each with what everybody else did to the console before
  it.\<close>

type_synonym ('s, 't) event = "int \<times> http_req \<times> request \<times> (('s, 't) console \<Rightarrow> ('s, 't) console)"

fun visit :: "('s, 't) services \<Rightarrow> ('s, 't) event list \<Rightarrow> browser \<times> ('s, 't) console \<Rightarrow> browser \<times> ('s, 't) console" where
  "visit W [] st = st"
| "visit W ((now, req, rq, others) # evs) (br, c) = visit W evs (snd (handle_request W now req rq br (others c)))"


section \<open>Where a logged-in session comes from\<close>

definition password_ok :: "('s, 't) services \<Rightarrow> int \<Rightarrow> login_body \<Rightarrow> 't auth_db \<Rightarrow> auth_user \<Rightarrow> bool" where
  "password_ok W now body db a =
     (fst (authenticate (w_crypto W) (w_go W) (w_sso W) (w_autoCreate W) now (lb_username body) (lb_password body) db)
        = Inr (AuthOk a))"

definition factor_ok :: "('s, 't) services \<Rightarrow> browser \<Rightarrow> string \<Rightarrow> string \<Rightarrow> 't auth_db \<Rightarrow> auth_user \<Rightarrow> bool" where
  "factor_ok W br code recoveryCode db a =
     (map_option fst (br_pending br) = Some a \<and>
      ((\<exists>b. delegated_answer W br code recoveryCode = Some (GoAccepted b))
       \<or> fst (verify_local_factor W (a_id a) code recoveryCode db)))"

definition exchange_ok :: "('s, 't) services \<Rightarrow> string \<Rightarrow> 't auth_db \<Rightarrow> int \<Rightarrow> bool" where
  "exchange_ok W code db i =
     (\<exists>ox u. w_exchange W code = Some ox \<and> fst (oidc_local_user (w_randomHash W) ox db) = Some (i, u))"

lemmas route_defs = post_login_def finish_password_login_def post_totp_verify_def verify_pending_locally_def
  finalizeLoginSession_def post_logout_def get_oidc_session_def behind_auth_def open_session_def

lemma con_sel [simp]:
  "con_db (add_log a b d req c) = con_db c" "con_sessions (add_log a b d req c) = con_sessions c"
  "con_db (log_replaced w i m rs req c) = con_db c" "con_sessions (log_replaced w i m rs req c) = con_sessions c"
  "con_sessions (record_attempt W now name req ok c) = con_sessions c"
  by (simp_all add: add_log_def log_replaced_def record_attempt_def)

lemma stamp_userId: "userId (stamp_session pol now u meta extra s) = Some (su_id u)"
  by (auto simp: stamp_session_def Let_def split: option.splits)

lemma establish_session:
  "establishAuthenticatedSession pol (Some ops) now sid u meta extra s t = Inr (rs, s', t')
     \<Longrightarrow> s' = stamp_session pol now u meta extra s"
  by (auto simp: establishAuthenticatedSession_def Let_def split: sum.splits)

lemma open_session_user:
  assumes "open_session W now u meta extra br c = Some (r, br', c')"
  shows "userId (br_sess br') = Some (su_id u)" "br_pending br' = None" "br_goPartialToken br' = None"
    "con_db c' = con_db c"
  using assms
  by (auto simp: open_session_def stamp_userId split: option.splits sum.splits dest!: establish_session)

lemma finish_password_login_user:
  assumes "finish_password_login W now req a meta br c = (resp, br', c')"
  shows "br' = br \<or> (userId (br_sess br') = Some (a_id a) \<and> br_pending br' = None \<and> br_goPartialToken br' = None)"
proof (cases "open_session W now (as_session_user a) meta None br c")
  case (Some r)
  then obtain x br1 c1 where r: "open_session W now (as_session_user a) meta None br c = Some (x, br1, c1)"
    by (cases r) auto
  with assms have "br' = br1" by (auto simp: finish_password_login_def Let_def split: sum.splits)
  with open_session_user [OF r] show ?thesis by (simp add: as_session_user_def)
qed (use assms in \<open>simp add: finish_password_login_def\<close>)

lemma finalizeLoginSession_user:
  assumes "finalizeLoginSession W now req a meta how br c = (resp, br', c')"
  shows "br' = br \<or> (userId (br_sess br') = Some (a_id a) \<and> br_pending br' = None \<and> br_goPartialToken br' = None)"
proof (cases "open_session W now (as_session_user a) meta None br c")
  case (Some r)
  then obtain x br1 c1 where r: "open_session W now (as_session_user a) meta None br c = Some (x, br1, c1)"
    by (cases r) auto
  with assms have "br' = br1" by (auto simp: finalizeLoginSession_def Let_def split: sum.splits)
  with open_session_user [OF r] show ?thesis by (simp add: as_session_user_def)
qed (use assms in \<open>simp add: finalizeLoginSession_def\<close>)

lemma post_login_effect:
  assumes "post_login W now req body br c = (resp, br', c')"
  obtains (same) "br' = br"
  | (demanded) a meta where "password_ok W now body (con_db c) a" "a_totpRequired a" "br_sess br' = br_sess br"
      "br_pending br' = Some (a, meta)"
      "br_goPartialToken br' = (if truthy (a_goPartialToken a) then a_goPartialToken a else br_goPartialToken br)"
  | (opened) a where "password_ok W now body (con_db c) a" "\<not> a_totpRequired a"
      "userId (br_sess br') = Some (a_id a)" "br_pending br' = None" "br_goPartialToken br' = None"
proof -
  obtain res db where r: "authenticate (w_crypto W) (w_go W) (w_sso W) (w_autoCreate W) now (lb_username body)
      (lb_password body) (con_db c) = (res, db)" by (cases "authenticate (w_crypto W) (w_go W) (w_sso W)
      (w_autoCreate W) now (lb_username body) (lb_password body) (con_db c)")
  show thesis
  proof (cases "\<exists>a. res = Inr (AuthOk a)")
    case False
    with assms r have "br' = br"
      by (auto simp: post_login_def Let_def split: if_splits sum.splits auth_result.splits)
    then show thesis by (rule same)
  next
    case True
    then obtain a where a: "res = Inr (AuthOk a)" ..
    with r have ok: "password_ok W now body (con_db c) a" by (simp add: password_ok_def)
    let ?meta = "clientMetaFromRequest req (lb_clientFingerprint body) (lb_fingerprint body)"
    let ?c1 = "record_attempt W now (lb_username body) req True (c\<lparr>con_db := db\<rparr>)"
    consider "br' = br" | "a_totpRequired a" "br' = br\<lparr>br_pending := Some (a, ?meta), br_goPartialToken :=
          (if truthy (a_goPartialToken a) then a_goPartialToken a else br_goPartialToken br)\<rparr>"
      | "\<not> a_totpRequired a" "finish_password_login W now req a ?meta br ?c1 = (resp, br', c')"
      using assms r a by (auto simp: post_login_def Let_def split: if_splits)
    then show thesis
    proof cases
      case 1
      then show ?thesis by (rule same)
    next
      case 2
      then show ?thesis by (intro demanded [OF ok, of ?meta]) simp_all
    next
      case 3
      from finish_password_login_user [OF 3(2)] show ?thesis
        using same opened [OF ok 3(1)] by blast
    qed
  qed
qed

lemma verify_pending_locally_effect:
  assumes "verify_pending_locally W now req code rc a meta br c = (resp, br', c')"
  shows "br' = br \<or> (fst (verify_local_factor W (a_id a) code rc (con_db c))
      \<and> userId (br_sess br') = Some (a_id a) \<and> br_pending br' = None \<and> br_goPartialToken br' = None)"
proof -
  obtain ok how db where v: "verify_local_factor W (a_id a) code rc (con_db c) = (ok, how, db)"
    by (cases "verify_local_factor W (a_id a) code rc (con_db c)") auto
  show ?thesis
  proof (cases ok)
    case False
    with assms v show ?thesis by (simp add: verify_pending_locally_def)
  next
    case True
    with assms v have "finalizeLoginSession W now req a meta (how @ '' (local)'') br (c\<lparr>con_db := db\<rparr>) = (resp, br', c')"
      by (simp add: verify_pending_locally_def)
    from finalizeLoginSession_user [OF this] True v show ?thesis by auto
  qed
qed

lemma post_totp_verify_effect:
  assumes "post_totp_verify W now req code rc br c = (resp, br', c')"
  obtains (same) "br' = br"
  | (opened) a meta where "br_pending br = Some (a, meta)" "factor_ok W br code rc (con_db c) a"
      "userId (br_sess br') = Some (a_id a)" "br_pending br' = None" "br_goPartialToken br' = None"
proof (cases "br_pending br")
  case None
  with assms show thesis by (intro same) (simp add: post_totp_verify_def)
next
  case (Some p)
  obtain a meta where p: "br_pending br = Some (a, meta)" using Some by (cases p) auto
  consider "br' = br"
    | b where "delegated_answer W br code rc = Some (GoAccepted b)"
        "finalizeLoginSession W now req a meta ''totp (Go delegated)'' br c = (resp, br', c')"
    | "verify_pending_locally W now req code rc a meta br c = (resp, br', c')"
    using assms p by (auto simp: post_totp_verify_def split: if_splits option.splits go_answer.splits)
  then show thesis
  proof cases
    case 1
    then show ?thesis by (rule same)
  next
    case 2
    then have "factor_ok W br code rc (con_db c) a" by (auto simp: factor_ok_def p)
    then show ?thesis using finalizeLoginSession_user [OF 2(2)] same opened [OF p] by blast
  next
    case 3
    from verify_pending_locally_effect [OF 3] show ?thesis
      using same opened [OF p] by (auto simp: factor_ok_def p)
  qed
qed

lemma get_oidc_session_effect:
  assumes "get_oidc_session W now req code br c = (resp, br', c')"
  obtains (same) "br' = br"
  | (opened) i where "exchange_ok W code (con_db c) i" "userId (br_sess br') = Some i" "br_pending br' = None"
      "br_goPartialToken br' = None"
proof (cases "w_exchange W code")
  case None
  with assms show thesis by (intro same) (simp add: get_oidc_session_def split: if_splits)
next
  case (Some ox)
  obtain user db where u: "oidc_local_user (w_randomHash W) ox (con_db c) = (user, db)"
    by (cases "oidc_local_user (w_randomHash W) ox (con_db c)")
  show thesis
  proof (cases user)
    case None
    with assms Some u show thesis by (intro same) (auto simp: get_oidc_session_def split: if_splits)
  next
    case (Some iu)
    obtain i row where iu: "user = Some (i, row)" using Some by (cases iu) auto
    have ex: "exchange_ok W code (con_db c) i" using \<open>w_exchange W code = Some ox\<close> u iu by (auto simp: exchange_ok_def)
    from assms \<open>w_exchange W code = Some ox\<close> u iu consider "br' = br"
      | su meta extra r c1 c2 where "open_session W now su meta extra br c1 = Some (r, br', c2)" "su_id su = i"
      by (auto simp: get_oidc_session_def Let_def split: if_splits option.splits sum.splits)
    then show thesis
    proof cases
      case 1
      then show ?thesis by (rule same)
    next
      case 2
      then show ?thesis using open_session_user [OF 2(1)] opened [OF ex] by simp
    qed
  qed
qed

lemma behind_auth_effect:
  "behind_auth W now path br c h = (resp, br', c') \<Longrightarrow> br' = br \<or> br' = no_browser"
  by (auto simp: behind_auth_def split: if_splits guard_outcome.splits prod.splits)

lemma touchActivity_userId: "userId (snd (touchActivity pol now s)) = userId s"
  by (simp add: touchActivity_def Let_def)

lemma noteIpChange_userId: "userId (fst (noteIpChange req s)) = userId s"
  by (simp add: noteIpChange_def Let_def)

lemma session_gate_userId:
  assumes "session_gate pol store now req sid s t = (Next, s', audit, t')"
  shows "userId s' = userId s"
proof (cases "logged_in s")
  case True
  obtain r s1 where t: "touchActivity pol now s = (r, s1)" by (cases "touchActivity pol now s")
  obtain s2 e where n: "noteIpChange req s1 = (s2, e)" by (cases "noteIpChange req s1")
  have "s' = s2" using assms True t n by (auto simp: session_gate_def split: option.splits if_splits)
  then show ?thesis
    using touchActivity_userId [of pol now s] noteIpChange_userId [of req s1] t n by simp
qed (use assms in \<open>simp add: session_gate_def\<close>)

lemma factor_ok_sess [simp]: "factor_ok W (br\<lparr>br_sess := s\<rparr>) code rc db a = factor_ok W br code rc db a"
  by (simp add: factor_ok_def delegated_answer_def)

text \<open>What one request can do to the login state of the browser.\<close>

lemma handle_request_effect:
  assumes "handle_request W now req rq br c = (resp, br', c')"
  obtains (same) "userId (br_sess br') = userId (br_sess br)" "br_pending br' = br_pending br"
      "br_goPartialToken br' = br_goPartialToken br"
  | (gone) "br' = no_browser"
  | (demanded) body a meta where "rq = ReqLogin body" "password_ok W now body (con_db c) a" "a_totpRequired a"
      "userId (br_sess br') = userId (br_sess br)" "br_pending br' = Some (a, meta)"
      "br_goPartialToken br' = (if truthy (a_goPartialToken a) then a_goPartialToken a else br_goPartialToken br)"
  | (password) body a where "rq = ReqLogin body" "password_ok W now body (con_db c) a" "\<not> a_totpRequired a"
      "userId (br_sess br') = Some (a_id a)" "br_pending br' = None" "br_goPartialToken br' = None"
  | (factor) code rc a meta where "rq = ReqTotp code rc" "br_pending br = Some (a, meta)"
      "factor_ok W br code rc (con_db c) a"
      "userId (br_sess br') = Some (a_id a)" "br_pending br' = None" "br_goPartialToken br' = None"
  | (oidc) code i where "rq = ReqOidc code" "exchange_ok W code (con_db c) i"
      "userId (br_sess br') = Some i" "br_pending br' = None" "br_goPartialToken br' = None"
proof -
  obtain g s audit t where gate:
    "session_gate (w_policy W) (w_store W) now req (br_sid br) (br_sess br) (con_sessions c) = (g, s, audit, t)"
    by (cases "session_gate (w_policy W) (w_store W) now req (br_sid br) (br_sess br) (con_sessions c)") auto
  define br1 where "br1 = br\<lparr>br_sess := s\<rparr>"
  define c1 where "c1 = c\<lparr>con_sessions := t, con_log := con_log c @ map audit_log audit\<rparr>"
  show thesis
  proof (cases "g = Next")
    case False
    with assms gate show thesis by (intro gone) (simp add: handle_request_def)
  next
    case True
    have u: "userId (br_sess br1) = userId (br_sess br)" "br_pending br1 = br_pending br"
        "br_goPartialToken br1 = br_goPartialToken br" "con_db c1 = con_db c"
      using session_gate_userId gate True by (auto simp: br1_def c1_def)
    have step: "route W now req rq br1 c1 = (resp, br', c')"
      using assms gate True by (simp add: handle_request_def br1_def c1_def)
    have keep: "br' = br1 \<Longrightarrow> thesis" using same u by simp
    show thesis
    proof (cases rq)
      case (ReqLogin body)
      with step have "post_login W now req body br1 c1 = (resp, br', c')" by (simp add: route_def)
      then show thesis
        by (rule post_login_effect)
          (use keep u demanded [OF ReqLogin] password [OF ReqLogin] in auto)
    next
      case (ReqTotp code rc)
      with step have "post_totp_verify W now req code rc br1 c1 = (resp, br', c')" by (simp add: route_def)
      then show thesis
        by (rule post_totp_verify_effect)
          (use keep u factor [OF ReqTotp] in \<open>auto simp: br1_def\<close>)
    next
      case (ReqOidc code)
      with step have "get_oidc_session W now req code br1 c1 = (resp, br', c')" by (simp add: route_def)
      then show thesis
        by (rule get_oidc_session_effect) (use keep u oidc [OF ReqOidc] in auto)
    next
      case ReqLogout
      with step show thesis by (intro gone) (simp add: route_def post_logout_def Let_def)
    next
      case ReqPage
      with step show thesis by (intro keep) (simp add: route_def)
    qed (use step keep gone in \<open>auto simp: route_def dest: behind_auth_effect\<close>)
  qed
qed

lemma visit_append: "visit W (xs @ ys) st = visit W ys (visit W xs st)"
proof (induction xs arbitrary: st)
  case (Cons x xs)
  then show ?case by (cases x; cases st) simp
qed simp

text \<open>The event that opened the session of account \<open>i\<close>, seen in the state in which it was handled: a
  password login without second factor, the second factor of a login that asked for it, or the end
  of an OIDC login.\<close>

definition demanded_by ::
  "('s, 't) services \<Rightarrow> ('s, 't) console \<Rightarrow> ('s, 't) event list \<Rightarrow> auth_user \<Rightarrow> bool" where
  "demanded_by W c0 evs a =
     (\<exists>pre now req body others post. evs = pre @ (now, req, ReqLogin body, others) # post
        \<and> password_ok W now body (con_db (others (snd (visit W pre (no_browser, c0))))) a \<and> a_totpRequired a)"

definition opened_by ::
  "('s, 't) services \<Rightarrow> ('s, 't) console \<Rightarrow> ('s, 't) event list \<Rightarrow> ('s, 't) event \<Rightarrow> int \<Rightarrow> bool" where
  "opened_by W c0 pre ev i =
     (case ev of (now, req, rq, others) \<Rightarrow>
        let (br, c) = visit W pre (no_browser, c0); db = con_db (others c)
        in (\<exists>body a. rq = ReqLogin body \<and> password_ok W now body db a \<and> \<not> a_totpRequired a \<and> a_id a = i)
         \<or> (\<exists>code rc a. rq = ReqTotp code rc \<and> factor_ok W br code rc db a \<and> demanded_by W c0 pre a \<and> a_id a = i)
         \<or> (\<exists>code. rq = ReqOidc code \<and> exchange_ok W code db i))"

lemma demanded_by_append: "demanded_by W c0 evs a \<Longrightarrow> demanded_by W c0 (evs @ [ev]) a"
  unfolding demanded_by_def by (metis append_Cons append_assoc)

lemma pending_demanded:
  assumes "br_pending (fst (visit W evs (no_browser, c0))) = Some (a, meta)"
  shows "demanded_by W c0 evs a"
  using assms
proof (induction evs arbitrary: meta rule: rev_induct)
  case Nil
  then show ?case by (simp add: no_browser_def)
next
  case (snoc ev evs)
  obtain now req rq others where ev: "ev = (now, req, rq, others)" by (cases ev) auto
  obtain br c where st: "visit W evs (no_browser, c0) = (br, c)" by (cases "visit W evs (no_browser, c0)")
  obtain resp br' c' where h: "handle_request W now req rq br (others c) = (resp, br', c')"
    by (cases "handle_request W now req rq br (others c)") auto
  have p: "br_pending br' = Some (a, meta)" using snoc.prems by (simp add: visit_append ev st h)
  from h show ?case
  proof (cases rule: handle_request_effect)
    case same
    with p snoc.IH [of meta] st show ?thesis by (simp add: demanded_by_append)
  next
    case (demanded body b m)
    with p have "b = a" by simp
    with demanded st show ?thesis unfolding demanded_by_def ev by (metis snd_conv)
  qed (use p in \<open>simp_all add: no_browser_def\<close>)
qed

lemma logout_gone: "handle_request W now req ReqLogout br c = (resp, br', c') \<Longrightarrow> br' = no_browser"
  by (auto simp: handle_request_def route_def post_logout_def Let_def split: prod.splits if_splits)

lemma no_browser_user [simp]: "userId (br_sess no_browser) = None"
  by (simp add: no_browser_def empty_sess_def)

text \<open>C3: every logged-in session goes back to a login.  Take any requests of a browser that starts
  without a session, in any order and with anything happening to the console in between.  If its
  session then belongs to an account, some request opened it and no logout followed: a login whose
  password was verified for this account without a demand for a second factor; or a verified second
  factor of this account after an earlier login of the same browser had verified the password and
  demanded it; or an OIDC exchange in which the Go server named the account.\<close>

theorem session_goes_back_to_login:
  assumes "userId (br_sess (fst (visit W evs (no_browser, c0)))) = Some i"
  shows "\<exists>pre ev post. evs = pre @ ev # post \<and> opened_by W c0 pre ev i
    \<and> list_all (\<lambda>(now, req, rq, others). rq \<noteq> ReqLogout) post"
  using assms
proof (induction evs rule: rev_induct)
  case Nil
  then show ?case by (simp add: no_browser_def empty_sess_def)
next
  case (snoc ev evs)
  obtain now req rq others where ev: "ev = (now, req, rq, others)" by (cases ev) auto
  obtain br c where st: "visit W evs (no_browser, c0) = (br, c)" by (cases "visit W evs (no_browser, c0)")
  obtain resp br' c' where h: "handle_request W now req rq br (others c) = (resp, br', c')"
    by (cases "handle_request W now req rq br (others c)") auto
  have u: "userId (br_sess br') = Some i" using snoc.prems by (simp add: visit_append ev st h)
  have new: "opened_by W c0 evs ev i \<Longrightarrow> ?case" by (intro exI [of _ evs] exI [of _ ev] exI [of _ "[]"]) simp
  from h show ?case
  proof (cases rule: handle_request_effect)
    case same
    with u st snoc.IH obtain pre e post where "evs = pre @ e # post" "opened_by W c0 pre e i"
      "list_all (\<lambda>(now, req, rq, others). rq \<noteq> ReqLogout) post" by auto
    moreover have "rq \<noteq> ReqLogout" using h u by (auto dest: logout_gone)
    ultimately show ?thesis by (intro exI [of _ pre] exI [of _ e] exI [of _ "post @ [ev]"]) (simp add: ev)
  next
    case gone
    with u show ?thesis by (simp add: no_browser_def empty_sess_def)
  next
    case (demanded body a meta)
    with u st snoc.IH obtain pre e post where "evs = pre @ e # post" "opened_by W c0 pre e i"
      "list_all (\<lambda>(now, req, rq, others). rq \<noteq> ReqLogout) post" by auto
    with demanded show ?thesis by (intro exI [of _ pre] exI [of _ e] exI [of _ "post @ [ev]"]) (simp add: ev)
  next
    case (password body a)
    with u st show ?thesis by (intro new) (auto simp: opened_by_def ev)
  next
    case (factor code rc a meta)
    with st pending_demanded [of W evs c0 a meta] have "demanded_by W c0 evs a" by simp
    with factor u st show ?thesis by (intro new) (auto simp: opened_by_def ev)
  next
    case (oidc code j)
    with u st show ?thesis by (intro new) (auto simp: opened_by_def ev)
  qed
qed

definition demo_services :: "http_result \<Rightarrow> (sqlite_sessions, int) services" where
  "demo_services resp = \<lparr>w_crypto = demo_crypto, w_go = demo_go resp, w_goTotp = (\<lambda>t c. TransportError), w_sso = no_sso,
     w_autoCreate = False, w_adapter = pg_adapter 0 Some, w_env = demo_env, w_policy = demo_policy,
     w_store = sqlite_store demo_cfg,
     w_regenerate = (\<lambda>now sid t. Some (sid @ ''n'', empty_sess, sqlite_destroy now now sid t)),
     w_otp = (\<lambda>token secret. token = secret), w_exchange = (\<lambda>code. None), w_randomHash = ''$2b$#''\<rparr>"

definition demo_body :: login_body where
  "demo_body = \<lparr>lb_username = ''ann'', lb_password = ''pw'', lb_clientFingerprint = [], lb_fingerprint = []\<rparr>"

definition demo_console :: "bool \<Rightarrow> (sqlite_sessions, int) console" where
  "demo_console totp = \<lparr>con_sessions = [], con_db = demo_account ''local'' ''viewer'' ''$2b$pw'' totp, con_log = []\<rparr>"

theorem session_goes_back_to_login_witness:
  "\<exists>pre ev post. [(5, demo_req, ReqLogin demo_body, \<lambda>c. c)] = pre @ ev # post
    \<and> opened_by (demo_services TransportError) (demo_console False) pre ev 1
    \<and> list_all (\<lambda>(now, req, rq, others). rq \<noteq> ReqLogout) post"
proof (rule session_goes_back_to_login)
  show "userId (br_sess (fst (visit (demo_services TransportError) [(5, demo_req, ReqLogin demo_body, \<lambda>c. c)]
      (no_browser, demo_console False)))) = Some 1"
    by code_simp
qed


section \<open>The second factor of the Go server\<close>

lemma finish_login_token:
  assumes "fst (finish_login now user g db) = Inr (AuthOk a)" "\<forall>r. g = Some r \<longrightarrow> gr_partial_token r = None"
  shows "a_goPartialToken a = None"
  using assms
  by (cases user) (auto simp: finish_login_def authSuccessFromUser_def Let_def split: option.splits if_splits)

lemma tryGo_token: "tryGoServerAuth resp = Some g \<Longrightarrow> gr_partial_token g = None"
  by (auto simp: tryGoServerAuth_def split: http_result.splits option.splits if_splits)

lemma authenticate_token:
  assumes "fst (authenticate C G sso ac now name pw db) = Inr (AuthOk a)"
  shows "a_goPartialToken a = None"
proof -
  have l: "fst (login_ldap C G sso now user name pw db) = Inr (AuthOk a) \<Longrightarrow> a_goPartialToken a = None" for user
    by (auto simp: login_ldap_def split: option.splits prod.splits dest!: tryGo_token dest: finish_login_token)
  have m: "fst (login_local C G sso now user name pw db) = Inr (AuthOk a) \<Longrightarrow> a_goPartialToken a = None" for user
    by (auto simp: login_local_def Let_def split: sum.splits if_splits option.splits prod.splits
        dest: finish_login_token)
  have n: "fst (login_unknown C G sso ac now name pw db) = Inr (AuthOk a) \<Longrightarrow> a_goPartialToken a = None"
    by (auto simp: login_unknown_def split: if_splits option.splits prod.splits sum.splits dest!: tryGo_token
        dest: finish_login_token)
  show ?thesis using assms l m n
    by (auto simp: authenticate_def Let_def split: if_splits option.splits)
qed

lemma visit_token: "br_goPartialToken (fst (visit W evs (no_browser, c0))) = None"
proof (induction evs rule: rev_induct)
  case Nil
  then show ?case by (simp add: no_browser_def)
next
  case (snoc ev evs)
  obtain now req rq others where ev: "ev = (now, req, rq, others)" by (cases ev) auto
  obtain br c where st: "visit W evs (no_browser, c0) = (br, c)" by (cases "visit W evs (no_browser, c0)")
  obtain resp br' c' where h: "handle_request W now req rq br (others c) = (resp, br', c')"
    by (cases "handle_request W now req rq br (others c)") auto
  have old: "br_goPartialToken br = None" using snoc.IH st by simp
  from h have "br_goPartialToken br' = None"
  proof (cases rule: handle_request_effect)
    case (demanded body a meta)
    then have "a_goPartialToken a = None" by (auto simp: password_ok_def intro: authenticate_token)
    with demanded old show ?thesis by (simp add: truthy_def)
  qed (use old in \<open>simp_all add: no_browser_def\<close>)
  then show ?case by (simp add: visit_append ev st h)
qed

text \<open>a second factor that only the Go server knows can never be given.  \<open>authenticate\<close> drops the
  partial token of the Go server, so no browser ever holds one and the delegated verification never
  runs; when the password login of an account without local TOTP demands the second factor (as for a
  directory account that has 2FA on the Go server), every code and every recovery code is refused.\<close>

theorem go_second_factor_unusable:
  assumes "visit W evs (no_browser, c0) = (br, c)" and "br_pending br = Some (a, meta)"
    and "getUserById (a_id a) (con_db c) = Some u" and "\<not> u_totp_enabled u" and "a_id a \<noteq> 0"
  shows "delegated_answer W br code rc = None
    \<and> fst (post_totp_verify W now req code rc br c) = RespError 401 ''auth.totp_invalid_code''
    \<and> fst (snd (post_totp_verify W now req code rc br c)) = br"
proof -
  have d: "delegated_answer W br code rc = None"
    using visit_token [of W evs c0] assms(1) by (simp add: delegated_answer_def truthy_def)
  have "fst (verify_local_factor W (a_id a) code rc (con_db c)) = False"
    using assms(3,4) by (simp add: verify_local_factor_def verifyRecoveryCode_def verifyTotpCode_def)
  then obtain how db where "verify_local_factor W (a_id a) code rc (con_db c) = (False, how, db)"
    by (cases "verify_local_factor W (a_id a) code rc (con_db c)") auto
  with d show ?thesis by (simp add: post_totp_verify_def assms verify_pending_locally_def)
qed

definition demo_ldap_visit :: "browser \<times> (sqlite_sessions, int) console" where
  "demo_ldap_visit = visit (demo_services (Http 200 (Some demo_2fa_body))) [(5, demo_req, ReqLogin demo_body, \<lambda>c. c)]
     (no_browser, \<lparr>con_sessions = [], con_db = demo_account ''ldap'' ''viewer'' ''$2b$x'' False, con_log = []\<rparr>)"

theorem go_second_factor_unusable_witness:
  "map_option (a_id \<circ> fst) (br_pending (fst demo_ldap_visit)) = Some 1
   \<and> fst (post_totp_verify (demo_services (Http 200 (Some demo_2fa_body))) 9 demo_req ''123456'' []
        (fst demo_ldap_visit) (snd demo_ldap_visit)) = RespError 401 ''auth.totp_invalid_code''"
proof
  show p: "map_option (a_id \<circ> fst) (br_pending (fst demo_ldap_visit)) = Some 1" by code_simp
  then obtain a meta where a: "br_pending (fst demo_ldap_visit) = Some (a, meta)" "a_id a = 1" by auto
  have "map_option u_totp_enabled (getUserById 1 (con_db (snd demo_ldap_visit))) = Some False" by code_simp
  then obtain u where u: "getUserById 1 (con_db (snd demo_ldap_visit)) = Some u" "\<not> u_totp_enabled u" by auto
  have "visit (demo_services (Http 200 (Some demo_2fa_body))) [(5, demo_req, ReqLogin demo_body, \<lambda>c. c)]
     (no_browser, \<lparr>con_sessions = [], con_db = demo_account ''ldap'' ''viewer'' ''$2b$x'' False, con_log = []\<rparr>)
     = (fst demo_ldap_visit, snd demo_ldap_visit)" by (simp add: demo_ldap_visit_def)
  from go_second_factor_unusable [OF this a(1)] a(2) u
  show "fst (post_totp_verify (demo_services (Http 200 (Some demo_2fa_body))) 9 demo_req ''123456'' []
        (fst demo_ldap_visit) (snd demo_ldap_visit)) = RespError 401 ''auth.totp_invalid_code''" by simp
qed


section \<open>The brute-force tracker and the panel login\<close>

definition retrack :: "(string, 't lockout_row) table \<Rightarrow> 't attempt_row list \<Rightarrow> 't auth_db \<Rightarrow> 't auth_db" where
  "retrack L A db = db\<lparr>db_lockouts := L, db_attempts := A\<rparr>"

lemma retrack_get [simp]:
  "getUserByUsername n (retrack L A db) = getUserByUsername n db"
  by (simp add: getUserByUsername_def retrack_def)

lemma retrack_update: "update_user i f (retrack L A db) = retrack L A (update_user i f db)"
  by (simp add: update_user_def retrack_def)

lemma retrack_create:
  "createUser n h r p (retrack L A db) = map_sum id (map_prod id (retrack L A)) (createUser n h r p db)"
proof (cases "getUserByUsername n db = None")
  case True
  then show ?thesis by (simp add: createUser_def Let_def) (simp add: retrack_def)
qed (simp add: createUser_def)

lemmas retrack_simps = retrack_update retrack_create syncUserFromGo_def touchLastLogin_def updateUserPassword_def

lemma retrack_finish:
  "finish_login now user g (retrack L A db) = map_prod id (retrack L A) (finish_login now user g db)"
  by (simp add: finish_login_def retrack_simps split: option.split)

lemma retrack_sync:
  "syncLocalUserFromGoResult C user g p sso (retrack L A db)
     = map_prod id (retrack L A) (syncLocalUserFromGoResult C user g p sso db)"
  by (cases user) (simp add: syncLocalUserFromGoResult_def Let_def retrack_simps)

lemma retrack_provision:
  "provisionLocalUserFromGo C n pw g sso (retrack L A db)
     = map_prod id (retrack L A) (provisionLocalUserFromGo C n pw g sso db)"
proof (cases "getUserByUsername n db")
  case (Some user)
  then show ?thesis by (simp add: provisionLocalUserFromGo_def Let_def retrack_sync case_prod_unfold)
next
  case None
  let ?p = "inferAuthProviderFromSSO g sso"
  let ?r = "if gr_role g = [] then ''viewer'' else gr_role g"
  let ?h = "if ?p = ''local'' then hashPassword C pw else unusablePasswordHash C"
  obtain i db1 where cr: "createUser n ?h ?r ?p db = Inr (i, db1)"
    using None by (simp add: createUser_def Let_def)
  have cr': "createUser n ?h ?r ?p (retrack L A db) = Inr (i, retrack L A db1)"
    unfolding retrack_create cr by simp
  show ?thesis
    unfolding provisionLocalUserFromGo_def Let_def retrack_get None option.case cr cr' sum.case prod.case
    by (cases "getUserByUsername n db1") (auto simp: syncUserFromGo_def retrack_update)
qed

lemma retrack_authenticate:
  "authenticate C G sso ac now n pw (retrack L A db) = map_prod id (retrack L A) (authenticate C G sso ac now n pw db)"
proof -
  have l: "login_ldap C G sso now user n pw (retrack L A db) = map_prod id (retrack L A) (login_ldap C G sso now user n pw db)"
    for user by (simp add: login_ldap_def Let_def retrack_sync retrack_finish case_prod_unfold split: option.split)
  have m: "login_local C G sso now user n pw (retrack L A db) = map_prod id (retrack L A) (login_local C G sso now user n pw db)"
    for user
    by (simp add: login_local_def Let_def retrack_sync retrack_finish retrack_simps case_prod_unfold
        split: option.split sum.split)
  have u: "login_unknown C G sso ac now n pw (retrack L A db) = map_prod id (retrack L A) (login_unknown C G sso ac now n pw db)"
    by (auto simp: login_unknown_def retrack_provision retrack_finish case_prod_unfold split: option.split sum.split)
  show ?thesis by (simp add: authenticate_def Let_def l m u split: option.split)
qed

lemma open_session_db:
  "open_session W now u meta extra br (c\<lparr>con_db := d\<rparr>)
     = map_option (map_prod id (map_prod id (\<lambda>x. x\<lparr>con_db := d\<rparr>))) (open_session W now u meta extra br c)"
  by (simp add: open_session_def split: option.split sum.split)

text \<open>the panel login does not look at the brute-force tracker.  Whatever lockouts and failed attempts
  are recorded, the response and the session are the same: a locked account logs in with the right
  password, and guessing is not slowed down by the lockout.\<close>

theorem panel_login_ignores_lockout:
  "fst (post_login W now req body br (c\<lparr>con_db := retrack L A (con_db c)\<rparr>)) = fst (post_login W now req body br c)
   \<and> fst (snd (post_login W now req body br (c\<lparr>con_db := retrack L A (con_db c)\<rparr>)))
      = fst (snd (post_login W now req body br c))"
proof -
  let ?auth = "authenticate (w_crypto W) (w_go W) (w_sso W) (w_autoCreate W) now (lb_username body) (lb_password body)"
  obtain res db where r: "?auth (con_db c) = (res, db)" by (cases "?auth (con_db c)")
  then have r': "?auth (retrack L A (con_db c)) = (res, retrack L A db)" by (simp add: retrack_authenticate)
  have fin: "fst (finish_password_login W now req a meta br (x\<lparr>con_db := d\<rparr>)) = fst (finish_password_login W now req a meta br (x\<lparr>con_db := d'\<rparr>))
      \<and> fst (snd (finish_password_login W now req a meta br (x\<lparr>con_db := d\<rparr>)))
        = fst (snd (finish_password_login W now req a meta br (x\<lparr>con_db := d'\<rparr>)))" for a meta x d d'
    by (simp add: finish_password_login_def open_session_db Let_def split: option.split sum.split)
  show ?thesis
    using r r' fin
    by (auto simp: post_login_def Let_def record_attempt_def split: sum.split auth_result.split)
qed


section \<open>A login on SQLite\<close>

lemma post_login_opened:
  assumes "post_login W now req body br c = (RespLoggedIn n role k, br', c')"
  obtains a meta rs c1 c2 where "open_session W now (as_session_user a) meta None br c1 = Some (Inr rs, br', c2)"
    "con_sessions c1 = con_sessions c" "con_sessions c' = con_sessions c2"
proof -
  obtain a db where a: "authenticate (w_crypto W) (w_go W) (w_sso W) (w_autoCreate W) now (lb_username body)
      (lb_password body) (con_db c) = (Inr (AuthOk a), db)"
    using assms by (auto simp: post_login_def Let_def split: if_splits sum.splits auth_result.splits prod.splits)
  let ?meta = "clientMetaFromRequest req (lb_clientFingerprint body) (lb_fingerprint body)"
  let ?c1 = "record_attempt W now (lb_username body) req True (c\<lparr>con_db := db\<rparr>)"
  from assms a have f: "finish_password_login W now req a ?meta br ?c1 = (RespLoggedIn n role k, br', c')"
    by (simp add: post_login_def Let_def split: if_splits)
  then obtain rs c2 where "open_session W now (as_session_user a) ?meta None br ?c1 = Some (Inr rs, br', c2)"
      "con_sessions c' = con_sessions c2"
    by (auto simp: finish_password_login_def Let_def split: option.splits sum.splits)
  with that show thesis by simp
qed

lemma sqlite_open_session:
  assumes "open_session W now u meta extra br c = Some (Inr rs, br', c')" and "w_store W = sqlite_store cfg"
    and "w_regenerate W now (br_sid br) (con_sessions c) = Some (sid', s0, t0)"
  shows "br_sid br' = sid' \<and> (\<exists>m. m_userId m = Some (su_id u) \<and>
    sqlite_activate cfg now now sid' m (sqlite_set cfg now now sid' (br_sess br') t0) = Inr (rs, con_sessions c'))"
proof -
  let ?m = "\<lparr>m_userId = Some (su_id u), m_username = Some (su_username u), m_ip = cm_ip meta,
     m_userAgent = cm_userAgent meta, m_fingerprint = cm_fingerprint meta,
     m_createdAt = Some now, m_lastActivityAt = Some now\<rparr>"
  have "br_sid br' = sid'"
    "sqlite_activate cfg now now sid' ?m (sqlite_set cfg now now sid' (br_sess br') t0) = Inr (rs, con_sessions c')"
    using assms
    by (auto simp: open_session_def establishAuthenticatedSession_def sqlite_store_def Let_def split: sum.splits)
  moreover have "m_userId ?m = Some (su_id u)" by simp
  ultimately show ?thesis by blast
qed

text \<open>a login leaves the account with one session under a new id.  When \<open>regenerate\<close> does what
  express-session documents (destroys the session and gives a fresh id), then after a login that
  answers with success the browser has the fresh id, a look-up of the id it had before finds nothing
  (an id planted before the login is worthless), and no other active row belongs to the account.\<close>

theorem login_renews_session:
  assumes "w_store W = sqlite_store cfg" and "sqlite_ok (con_sessions c)"
    and "w_regenerate W now (br_sid br) (con_sessions c)
           = Some (sid', s0, sqlite_destroy now now (br_sid br) (con_sessions c))"
    and "sid' \<noteq> br_sid br"
    and "post_login W now req body br c = (RespLoggedIn n role k, br', c')"
  shows "br_sid br' = sid' \<and> fst (sqlite_get cfg now' db' (br_sid br) (con_sessions c')) = None
    \<and> (\<forall>sid r. map_of (con_sessions c') sid = Some r \<longrightarrow> is_active r = 1
          \<longrightarrow> user_id r = userId (br_sess br') \<longrightarrow> sid = sid')"
proof -
  obtain a meta rs c1 c2 where o: "open_session W now (as_session_user a) meta None br c1 = Some (Inr rs, br', c2)"
    "con_sessions c1 = con_sessions c" "con_sessions c' = con_sessions c2"
    using assms(5) by (rule post_login_opened)
  let ?t0 = "sqlite_destroy now now (br_sid br) (con_sessions c)"
  obtain m where m: "br_sid br' = sid'" "m_userId m = Some (a_id a)"
    "sqlite_activate cfg now now sid' m (sqlite_set cfg now now sid' (br_sess br') ?t0) = Inr (rs, con_sessions c')"
    using sqlite_open_session [OF o(1) assms(1), of sid' s0 ?t0] assms(3) o by (auto simp: as_session_user_def)
  have ok0: "sqlite_ok ?t0" using assms(2) by (rule sq.destroy_invar)
  have v: "sqlite_ok (con_sessions c')" "sqlite_view (con_sessions c')
      = spec_activate cfg now sid' (a_id a) m (spec_set cfg now sid' (br_sess br') (spec_destroy (br_sid br) (sqlite_view (con_sessions c))))"
    using sq.activate_view [OF sq.set_invar [OF ok0, of cfg now now sid' "br_sess br'"] m(2), of cfg now now sid'] m(3)
    by (auto simp: sq.set_view [OF ok0] sq.destroy_view [OF assms(2)])
  have "dead_at (br_sid br) (sqlite_view (con_sessions c'))"
    using assms(4) by (auto simp: v(2) dead_at_def spec_activate_def spec_set_def spec_destroy_def spec_upd_def)
  then have old: "fst (sqlite_get cfg now' db' (br_sid br) (con_sessions c')) = None"
    by (rule sq.get_ended [OF v(1)])
  have "userId (br_sess br') = Some (a_id a)" using open_session_user(1) [OF o(1)] by (simp add: as_session_user_def)
  moreover have "sid = sid'" if r: "map_of (con_sessions c') sid = Some r" "is_active r = 1" "user_id r = Some (a_id a)" for sid r
    by (rule sq.login_sole [OF ok0 m(2) m(3), of sid "abs_row sqlite_active r"])
      (use r in \<open>simp_all add: abs_table_app abs_row_def sqlite_active_def\<close>)
  ultimately show ?thesis using m(1) old by auto
qed

definition demo_browser :: browser where
  "demo_browser = no_browser\<lparr>br_sid := ''x''\<rparr>"

definition demo_login_result :: "route_response \<times> browser \<times> (sqlite_sessions, int) console" where
  "demo_login_result = post_login (demo_services TransportError) 5 demo_req demo_body demo_browser (demo_console False)"

theorem login_renews_session_witness:
  "fst demo_login_result = RespLoggedIn ''ann'' ''viewer'' 0
   \<and> br_sid (fst (snd demo_login_result)) = ''xn''
   \<and> fst (sqlite_get demo_cfg 6 6 ''x'' (con_sessions (snd (snd demo_login_result)))) = None"
proof -
  have r: "fst demo_login_result = RespLoggedIn ''ann'' ''viewer'' 0" by code_simp
  let ?W = "demo_services TransportError" and ?c = "demo_console False"
  have d: "post_login ?W 5 demo_req demo_body demo_browser ?c
      = (RespLoggedIn ''ann'' ''viewer'' 0, fst (snd demo_login_result), snd (snd demo_login_result))"
    using r by (metis demo_login_result_def prod.collapse)
  have "w_store ?W = sqlite_store demo_cfg" "sqlite_ok (con_sessions ?c)"
    by (simp_all add: demo_services_def demo_console_def)
  moreover have "w_regenerate ?W 5 (br_sid demo_browser) (con_sessions ?c)
      = Some (''xn'', empty_sess, sqlite_destroy 5 5 (br_sid demo_browser) (con_sessions ?c))"
    by (simp add: demo_services_def demo_browser_def)
  moreover have "br_sid demo_browser = ''x''" by (simp add: demo_browser_def)
  ultimately show ?thesis
    using login_renews_session [OF _ _ _ _ d, of demo_cfg "''xn''" empty_sess 6 6] r by simp
qed

end
