(* ===== verification/Groups_Db.thy ===== *)
theory Groups_Db
  imports Auth_Db "HOL-Library.List_Lexorder" "HOL-Library.Char_ord"
begin

text \<open>
  Groups, folders and device grants in the database adapter (\<open>services/dbAdapter.js\<close>, the user-group,
  device-group, peer-grant and folder sections).  \<open>device_groups.guid\<close> and \<open>user_groups.guid\<close> are
  \<open>UNIQUE\<close>; the access tables are keyed by pairs, so \<open>INSERT OR IGNORE\<close> keeps one row per pair.
  Random guids are arguments.
\<close>

section \<open>Normalised lists\<close>

text \<open>\<open>Array.from(new Set(xs))\<close> keeps the first of equal elements.\<close>

definition js_unique :: "'a list \<Rightarrow> 'a list" where
  "js_unique xs = rev (remdups (rev xs))"

lemma set_js_unique [simp]: "set (js_unique xs) = set xs"
  by (simp add: js_unique_def)

lemma distinct_js_unique [simp]: "distinct (js_unique xs)"
  by (simp add: js_unique_def)

lemma js_unique_distinct [simp]: "distinct xs \<Longrightarrow> js_unique xs = xs"
  by (simp add: js_unique_def distinct_remdups_id)

lemma length_js_unique_le: "length (js_unique xs) \<le> length xs"
  by (simp add: js_unique_def) (metis length_remdups_leq length_rev)

definition clean_names :: "string list \<Rightarrow> string list" where
  "clean_names xs = js_unique (filter (\<lambda>s. s \<noteq> []) (map js_trim xs))"

definition clean_name :: "string \<Rightarrow> bool" where
  "clean_name s = (s \<noteq> [] \<and> js_trim s = s)"

lemma clean_names_id: "distinct xs \<Longrightarrow> \<forall>s \<in> set xs. clean_name s \<Longrightarrow> clean_names xs = xs"
proof -
  assume d: "distinct xs" and c: "\<forall>s \<in> set xs. clean_name s"
  have "map js_trim xs = xs" using c by (simp add: clean_name_def map_idI)
  then have "filter (\<lambda>s. s \<noteq> []) (map js_trim xs) = xs"
    using c by (simp add: clean_name_def filter_id_conv)
  with d show ?thesis by (simp add: clean_names_def)
qed

definition insert_or_ignore :: "'a \<Rightarrow> 'a list \<Rightarrow> 'a list" where
  "insert_or_ignore x xs = (if x \<in> set xs then xs else xs @ [x])"

lemma set_insert_or_ignore [simp]: "set (insert_or_ignore x xs) = insert x (set xs)"
  by (auto simp: insert_or_ignore_def)


section \<open>User groups\<close>

definition getUserGroupByGuid :: "string \<Rightarrow> 't auth_db \<Rightarrow> (int \<times> user_group_row) option" where
  "getUserGroupByGuid guid db = find (\<lambda>(i, g). ug_guid g = guid) (db_user_groups db)"

definition createUserGroup ::
  "string \<Rightarrow> string \<Rightarrow> string \<Rightarrow> string \<Rightarrow> string \<Rightarrow> 't auth_db \<Rightarrow> db_error + 't auth_db" where
  "createUserGroup random guid name note team db =
     (let g = (if guid = [] then random else guid) in
      if getUserGroupByGuid g db \<noteq> None then Inl (UniqueViolation ''user_groups.guid'')
      else Inr (db\<lparr>db_user_groups := db_user_groups db @
             [(db_ug_seq db + 1, \<lparr>ug_guid = g, ug_name = name, ug_note = note, ug_team = team\<rparr>)],
           db_ug_seq := db_ug_seq db + 1\<rparr>))"

definition updateUserGroup ::
  "string \<Rightarrow> string option \<Rightarrow> string option \<Rightarrow> string option \<Rightarrow> 't auth_db \<Rightarrow> 't auth_db" where
  "updateUserGroup guid name note team db =
     db\<lparr>db_user_groups := tbl_update (\<lambda>_ g. ug_guid g = guid)
          (\<lambda>g. set_if team (\<lambda>x g. g\<lparr>ug_team := x\<rparr>) (set_if note (\<lambda>x g. g\<lparr>ug_note := x\<rparr>)
                 (set_if name (\<lambda>x g. g\<lparr>ug_name := x\<rparr>) g))) (db_user_groups db)\<rparr>"

definition deleteUserGroup :: "string \<Rightarrow> 't auth_db \<Rightarrow> 't auth_db" where
  "deleteUserGroup guid db =
     (case getUserGroupByGuid guid db of
        None \<Rightarrow> db
      | Some (i, g) \<Rightarrow>
          db\<lparr>db_ug_members := filter (\<lambda>(k, u). k \<noteq> i) (db_ug_members db),
             db_dg_groups := filter (\<lambda>(d, k). k \<noteq> i) (db_dg_groups db),
             db_user_groups := tbl_delete (\<lambda>_ g. ug_guid g = guid) (db_user_groups db)\<rparr>)"

definition getUserGroupsForUser :: "int \<Rightarrow> 't auth_db \<Rightarrow> user_group_row list" where
  "getUserGroupsForUser userId db =
     sort_key ug_name (map snd (filter (\<lambda>(i, g). (i, userId) \<in> set (db_ug_members db)) (db_user_groups db)))"

definition setUserGroupMemberships :: "int \<Rightarrow> string list \<Rightarrow> 't auth_db \<Rightarrow> user_group_row list \<times> 't auth_db" where
  "setUserGroupMemberships userId guids db =
     (case map_of (db_users db) userId of
        None \<Rightarrow> ([], db)
      | Some _ \<Rightarrow>
          let kept = filter (\<lambda>(g, u). u \<noteq> userId) (db_ug_members db);
              db' = db\<lparr>db_ug_members := fold (\<lambda>guid m. case getUserGroupByGuid guid db of
                        None \<Rightarrow> m | Some (i, g) \<Rightarrow> insert_or_ignore (i, userId) m) (take 100 (clean_names guids)) kept\<rparr>
          in (getUserGroupsForUser userId db', db'))"

definition getUsernamesByUserGroupGuid :: "string \<Rightarrow> 't auth_db \<Rightarrow> string list" where
  "getUsernamesByUserGroupGuid guid db =
     (let g = js_trim guid in
      if g = [] then []
      else sort (map (\<lambda>(i, u). u_username u)
             (filter (\<lambda>(i, u). \<exists>(k, gr) \<in> set (db_user_groups db). ug_guid gr = g \<and> (k, i) \<in> set (db_ug_members db))
               (db_users db))))"


section \<open>Device groups\<close>

text \<open>The row with the two access lists, as the adapter returns it.  \<open>folder_id\<close> is no column of the
  table; a caller may add it.\<close>

record group_view =
  gv_guid :: string
  gv_name :: string
  gv_note :: string
  gv_team :: string
  gv_source_type :: string
  gv_tag_filter :: string
  gv_allowed_users :: "string list"
  gv_allowed_groups :: "string list"
  gv_folder_id :: "string option"

definition dg_find :: "string \<Rightarrow> 't auth_db \<Rightarrow> (int \<times> device_group_row) option" where
  "dg_find guid db = find (\<lambda>(i, g). dg_guid g = guid) (db_device_groups db)"

definition allowed_users_of :: "int \<Rightarrow> 't auth_db \<Rightarrow> string list" where
  "allowed_users_of g db =
     sort (map (\<lambda>(i, u). u_username u) (filter (\<lambda>(i, u). (g, i) \<in> set (db_dg_users db)) (db_users db)))"

definition allowed_groups_of :: "int \<Rightarrow> 't auth_db \<Rightarrow> string list" where
  "allowed_groups_of g db =
     map ug_guid (sort_key ug_name (map snd (filter (\<lambda>(i, r). (g, i) \<in> set (db_dg_groups db)) (db_user_groups db))))"

definition group_view_of :: "int \<Rightarrow> device_group_row \<Rightarrow> 't auth_db \<Rightarrow> group_view" where
  "group_view_of i g db = \<lparr>gv_guid = dg_guid g, gv_name = dg_name g, gv_note = dg_note g, gv_team = dg_team g,
     gv_source_type = (if dg_source_type g = [] then ''manual'' else dg_source_type g),
     gv_tag_filter = dg_tag_filter g, gv_allowed_users = allowed_users_of i db,
     gv_allowed_groups = allowed_groups_of i db, gv_folder_id = None\<rparr>"

definition getAllDeviceGroups :: "'t auth_db \<Rightarrow> group_view list" where
  "getAllDeviceGroups db =
     map (\<lambda>(i, g). group_view_of i g db) (sort_key (\<lambda>(i, g). dg_name g) (db_device_groups db))"

definition getDeviceGroupByGuid :: "string \<Rightarrow> 't auth_db \<Rightarrow> group_view option" where
  "getDeviceGroupByGuid guid db = map_option (\<lambda>(i, g). group_view_of i g db) (dg_find guid db)"

record group_fields =
  gf_guid :: string
  gf_name :: string
  gf_note :: string
  gf_team :: string
  gf_source_type :: string
  gf_tag_filter :: string

definition createDeviceGroup :: "string \<Rightarrow> group_fields \<Rightarrow> 't auth_db \<Rightarrow> db_error + device_group_row \<times> 't auth_db" where
  "createDeviceGroup random d db =
     (let g = (if gf_guid d = [] then random else gf_guid d);
          row = \<lparr>dg_guid = g, dg_name = gf_name d, dg_note = gf_note d, dg_team = gf_team d,
            dg_source_type = (if gf_source_type d = ''tag'' then ''tag'' else ''manual''),
            dg_tag_filter = (if gf_source_type d = ''tag'' then gf_tag_filter d else [])\<rparr>
      in if dg_find g db \<noteq> None then Inl (UniqueViolation ''device_groups.guid'')
         else Inr (row, db\<lparr>db_device_groups := db_device_groups db @ [(db_dg_seq db + 1, row)],
                db_dg_seq := db_dg_seq db + 1\<rparr>))"

definition updateDeviceGroup ::
  "string \<Rightarrow> string option \<Rightarrow> string option \<Rightarrow> string option \<Rightarrow> string option \<Rightarrow> string option \<Rightarrow> 't auth_db \<Rightarrow> 't auth_db" where
  "updateDeviceGroup guid name note team source tag db =
     db\<lparr>db_device_groups := tbl_update (\<lambda>_ g. dg_guid g = guid)
          (\<lambda>g. set_if tag (\<lambda>x g. g\<lparr>dg_tag_filter := take 50 x\<rparr>)
            (set_if source (\<lambda>x g. g\<lparr>dg_source_type := (if x = ''tag'' then ''tag'' else ''manual'')\<rparr>)
              (set_if team (\<lambda>x g. g\<lparr>dg_team := x\<rparr>) (set_if note (\<lambda>x g. g\<lparr>dg_note := x\<rparr>)
                (set_if name (\<lambda>x g. g\<lparr>dg_name := x\<rparr>) g))))) (db_device_groups db)\<rparr>"

definition deleteDeviceGroup :: "string \<Rightarrow> 't auth_db \<Rightarrow> 't auth_db" where
  "deleteDeviceGroup guid db =
     (case dg_find guid db of
        None \<Rightarrow> db
      | Some (i, g) \<Rightarrow>
          db\<lparr>db_dg_members := filter (\<lambda>(k, p). k \<noteq> i) (db_dg_members db),
             db_dg_users := filter (\<lambda>(k, u). k \<noteq> i) (db_dg_users db),
             db_dg_groups := filter (\<lambda>(k, u). k \<noteq> i) (db_dg_groups db),
             db_device_groups := tbl_delete (\<lambda>_ g. dg_guid g = guid) (db_device_groups db)\<rparr>)"

definition addDeviceToGroup :: "string \<Rightarrow> string \<Rightarrow> 't auth_db \<Rightarrow> 't auth_db" where
  "addDeviceToGroup guid peer db =
     (case dg_find guid db of None \<Rightarrow> db
      | Some (i, g) \<Rightarrow> db\<lparr>db_dg_members := insert_or_ignore (i, peer) (db_dg_members db)\<rparr>)"

definition removeDeviceFromGroup :: "string \<Rightarrow> string \<Rightarrow> 't auth_db \<Rightarrow> 't auth_db" where
  "removeDeviceFromGroup guid peer db =
     (case dg_find guid db of None \<Rightarrow> db
      | Some (i, g) \<Rightarrow> db\<lparr>db_dg_members := filter (\<lambda>x. x \<noteq> (i, peer)) (db_dg_members db)\<rparr>)"

definition getDeviceGroupMembers :: "string \<Rightarrow> 't auth_db \<Rightarrow> string list" where
  "getDeviceGroupMembers guid db =
     (case dg_find guid db of None \<Rightarrow> []
      | Some (i, g) \<Rightarrow> map snd (filter (\<lambda>(k, p). k = i) (db_dg_members db)))"

definition setDeviceGroupUserAccess :: "string \<Rightarrow> string list \<Rightarrow> 't auth_db \<Rightarrow> 't auth_db" where
  "setDeviceGroupUserAccess guid names db =
     (case dg_find guid db of
        None \<Rightarrow> db
      | Some (i, g) \<Rightarrow>
          let kept = filter (\<lambda>(k, u). k \<noteq> i) (db_dg_users db)
          in db\<lparr>db_dg_users := fold (\<lambda>name m. case getUserByUsername name db of
                 None \<Rightarrow> m | Some (u, r) \<Rightarrow> insert_or_ignore (i, u) m) (clean_names names) kept\<rparr>)"

definition setDeviceGroupUserGroupAccess :: "string \<Rightarrow> string list \<Rightarrow> 't auth_db \<Rightarrow> 't auth_db" where
  "setDeviceGroupUserGroupAccess guid guids db =
     (case dg_find guid db of
        None \<Rightarrow> db
      | Some (i, g) \<Rightarrow>
          let kept = filter (\<lambda>(k, u). k \<noteq> i) (db_dg_groups db)
          in db\<lparr>db_dg_groups := fold (\<lambda>ug m. case getUserGroupByGuid ug db of
                 None \<Rightarrow> m | Some (u, r) \<Rightarrow> insert_or_ignore (i, u) m) (take 100 (clean_names guids)) kept\<rparr>)"


section \<open>Device grants\<close>

definition getUserPeerGrants :: "int \<Rightarrow> 't auth_db \<Rightarrow> string list" where
  "getUserPeerGrants userId db = sort (map snd (filter (\<lambda>(u, p). u = userId) (db_peer_grants db)))"

text \<open>The \<open>DELETE\<close> runs before the transaction of the inserts; an insert for a missing account fails on
  the foreign key.\<close>

definition setUserPeerGrants :: "int \<Rightarrow> string list \<Rightarrow> 't auth_db \<Rightarrow> (db_error + string list) \<times> 't auth_db" where
  "setUserPeerGrants userId ids db =
     (let normalized = take 500 (clean_names ids);
          db1 = db\<lparr>db_peer_grants := filter (\<lambda>(u, p). u \<noteq> userId) (db_peer_grants db)\<rparr>
      in if normalized \<noteq> [] \<and> map_of (db_users db) userId = None
         then (Inl (ForeignKeyViolation ''user_peer_grants.user_id''), db1)
         else (Inr normalized, db1\<lparr>db_peer_grants := db_peer_grants db1 @ map (Pair userId) normalized\<rparr>))"


section \<open>Folders\<close>

definition getAllFolders :: "'t auth_db \<Rightarrow> (int \<times> folder_row) list" where
  "getAllFolders db = sort_key (\<lambda>(i, f). f_sort f) (sort_key (\<lambda>(i, f). f_name f) (db_folders db))"

definition getFolderById :: "int \<Rightarrow> 't auth_db \<Rightarrow> folder_row option" where
  "getFolderById i db = map_of (db_folders db) i"

definition createFolder :: "string \<Rightarrow> string \<Rightarrow> string \<Rightarrow> int \<Rightarrow> 't auth_db \<Rightarrow> int \<times> 't auth_db" where
  "createFolder name color icon sort_order db =
     (let i = db_folder_seq db + 1 in
      (i, db\<lparr>db_folders := db_folders db @ [(i, \<lparr>f_name = name,
             f_color = (if color = [] then ''#6366f1'' else color),
             f_icon = (if icon = [] then ''folder'' else icon), f_sort = sort_order\<rparr>)], db_folder_seq := i\<rparr>))"

definition updateFolder ::
  "int \<Rightarrow> string option \<Rightarrow> string option \<Rightarrow> string option \<Rightarrow> int option \<Rightarrow> 't auth_db \<Rightarrow> 't auth_db" where
  "updateFolder i name color icon sort_order db =
     db\<lparr>db_folders := tbl_update (\<lambda>k _. k = i)
          (\<lambda>f. set_if sort_order (\<lambda>x f. f\<lparr>f_sort := x\<rparr>) (set_if icon (\<lambda>x f. f\<lparr>f_icon := x\<rparr>)
                 (set_if color (\<lambda>x f. f\<lparr>f_color := x\<rparr>) (set_if name (\<lambda>x f. f\<lparr>f_name := x\<rparr>) f)))) (db_folders db)\<rparr>"

definition deleteFolder :: "int \<Rightarrow> 't auth_db \<Rightarrow> 't auth_db" where
  "deleteFolder i db =
     db\<lparr>db_assignments := tbl_delete (\<lambda>_ f. f = i) (db_assignments db),
        db_folders := tbl_delete (\<lambda>k _. k = i) (db_folders db)\<rparr>"

definition assignDeviceToFolder :: "string \<Rightarrow> int option \<Rightarrow> 't auth_db \<Rightarrow> 't auth_db" where
  "assignDeviceToFolder dev folder db =
     (case folder of
        None \<Rightarrow> db\<lparr>db_assignments := tbl_delete (\<lambda>k _. k = dev) (db_assignments db)\<rparr>
      | Some f \<Rightarrow> db\<lparr>db_assignments := tbl_upsert dev f (\<lambda>_. f) (db_assignments db)\<rparr>)"

definition assignDevicesToFolder :: "string list \<Rightarrow> int option \<Rightarrow> 't auth_db \<Rightarrow> 't auth_db" where
  "assignDevicesToFolder devs folder db = fold (\<lambda>dev. assignDeviceToFolder dev folder) devs db"

definition unassignDevicesFromFolder :: "int \<Rightarrow> 't auth_db \<Rightarrow> 't auth_db" where
  "unassignDevicesFromFolder f db = db\<lparr>db_assignments := tbl_delete (\<lambda>_ g. g = f) (db_assignments db)\<rparr>"

text \<open>The adapter returns an object from device id to folder id, not an array of rows.\<close>

datatype assignments_value = AsObject "(string, int) table" | AsRows "(string \<times> int) list"

definition getAllFolderAssignments :: "'t auth_db \<Rightarrow> assignments_value" where
  "getAllFolderAssignments db = AsObject (db_assignments db)"

end
