(* ===== verification/Device_Scope.thy ===== *)
theory Device_Scope
  imports Groups_Db Permissions
begin

text \<open>
  Which devices a user sees: \<open>services/deviceGroupService.js\<close> and \<open>services/userScopeService.js\<close> over
  the group tables.  A scope is an optional list of device ids; \<^term>\<open>None\<close> (null in the code) means
  every device.  \<open>JSON.parse\<close> of a tag column is the parameter \<open>json\<close>: the array of strings, or
  \<^term>\<open>None\<close> when the text is no JSON array.  The adapter's reads do not fail in the model, so the
  branches that catch their errors do not occur.
\<close>

section \<open>Normalisation\<close>

datatype 'a list_value = JMissing | JText string | JArray "'a list"

datatype guid_item = GuidText string | GuidObject "string option"

fun list_or_split :: "(string \<Rightarrow> 'a) \<Rightarrow> 'a list_value \<Rightarrow> 'a list" where
  "list_or_split f JMissing = map f (split_on CHR '','' [])"
| "list_or_split f (JText s) = map f (split_on CHR '','' s)"
| "list_or_split f (JArray xs) = xs"

definition normalizeTags :: "(string \<Rightarrow> string list option) \<Rightarrow> string list_value \<Rightarrow> string list" where
  "normalizeTags json v =
     filter (\<lambda>t. t \<noteq> []) (map js_trim
       (case v of
          JMissing \<Rightarrow> []
        | JArray xs \<Rightarrow> xs
        | JText s \<Rightarrow> if s = [] then [] else case json s of Some xs \<Rightarrow> xs | None \<Rightarrow> split_on CHR '','' s))"

definition normalizeUsernames :: "string list_value \<Rightarrow> string list" where
  "normalizeUsernames v = take 100 (clean_names (list_or_split (\<lambda>s. s) v))"

fun guid_text :: "guid_item \<Rightarrow> string" where
  "guid_text (GuidText s) = s"
| "guid_text (GuidObject g) = or_str g []"

definition normalizeGroupGuids :: "guid_item list_value \<Rightarrow> string list" where
  "normalizeGroupGuids v = take 100 (clean_names (map guid_text (list_or_split GuidText v)))"

record group_body =
  gb_guid :: "string option"
  gb_name :: "string option"
  gb_source_type :: "string option"
  gb_dynamic :: bool
  gb_tag_filter :: "string option"
  gb_tag :: "string option"
  gb_allowed_users :: "string list_value"
  gb_allowed_groups :: "guid_item list_value"
  gb_note :: "string option option"
  gb_team :: "string option option"

record group_payload =
  gp_guid :: string
  gp_name :: string
  gp_source_type :: string
  gp_tag_filter :: string
  gp_allowed_users :: "string list"
  gp_allowed_groups :: "string list"
  gp_note :: "string option"
  gp_team :: "string option"

text \<open>The outer option of \<open>note\<close> and \<open>team_id\<close> is the presence of the property in the body.\<close>

definition normalizeGroupPayload :: "group_body \<Rightarrow> group_payload" where
  "normalizeGroupPayload b =
     (let sourceType = (if gb_source_type b = Some ''tag'' \<or> gb_dynamic b then ''tag'' else ''manual'')
      in \<lparr>gp_guid = take 64 (js_trim (or_str (gb_guid b) [])),
          gp_name = take 80 (js_trim (or_str (gb_name b) [])),
          gp_source_type = sourceType,
          gp_tag_filter = (if sourceType = ''tag''
            then take 50 (js_trim (or_str (gb_tag_filter b) (or_str (gb_tag b) []))) else []),
          gp_allowed_users = normalizeUsernames (gb_allowed_users b),
          gp_allowed_groups = normalizeGroupGuids (gb_allowed_groups b),
          gp_note = map_option (\<lambda>n. take 512 (js_trim (or_str n []))) (gb_note b),
          gp_team = map_option (\<lambda>n. take 64 (js_trim (or_str n []))) (gb_team b)\<rparr>)"

definition buildDeviceGroupCreateFields :: "group_payload \<Rightarrow> group_fields" where
  "buildDeviceGroupCreateFields p = \<lparr>gf_guid = [], gf_name = gp_name p, gf_note = or_str (gp_note p) [],
     gf_team = or_str (gp_team p) [], gf_source_type = gp_source_type p, gf_tag_filter = gp_tag_filter p\<rparr>"


section \<open>Devices, folders and groups\<close>

record device =
  dv_id :: string
  dv_tags :: "string list_value"
  dv_folder_id :: "string option"

definition hasTag :: "(string \<Rightarrow> string list option) \<Rightarrow> device \<Rightarrow> string \<Rightarrow> bool" where
  "hasTag json d tag =
     (let expected = js_lower (js_trim tag) in
      if expected = [] then False
      else list_ex (\<lambda>t. js_lower t = expected) (normalizeTags json (dv_tags d)))"

definition folderIdFromGroupGuid :: "string \<Rightarrow> int option" where
  "folderIdFromGroupGuid v =
     (let t = js_trim v; digits = drop 7 t in
      if js_lower (take 7 t) = ''folder_'' \<and> digits \<noteq> [] \<and> list_all is_digit digits then parseInt digits else None)"

definition getGroupFolderId :: "group_view \<Rightarrow> int option" where
  "getGroupFolderId g =
     (case gv_folder_id g of
        Some s \<Rightarrow> (if s = [] then folderIdFromGroupGuid (gv_guid g)
                  else case parseInt s of Some i \<Rightarrow> Some i | None \<Rightarrow> folderIdFromGroupGuid (gv_guid g))
      | None \<Rightarrow> folderIdFromGroupGuid (gv_guid g))"

record scope_user =
  sc_id :: int
  sc_username :: string
  sc_role :: "string option"
  sc_user_groups :: "string list option"

definition unscoped_role :: "scope_user \<Rightarrow> bool" where
  "unscoped_role u = (isSuperAdminRole (sc_role u) \<or> sc_role u = Some ''global_admin'' \<or> sc_role u = Some ''server_admin'')"

definition acl_users :: "group_view \<Rightarrow> string list" where
  "acl_users g = normalizeUsernames (JArray (gv_allowed_users g))"

definition acl_groups :: "group_view \<Rightarrow> string list" where
  "acl_groups g = normalizeGroupGuids (JArray (map GuidText (gv_allowed_groups g)))"

definition groupAllowedForUser :: "group_view \<Rightarrow> scope_user option \<Rightarrow> bool" where
  "groupAllowedForUser g user =
     (case user of
        None \<Rightarrow> True
      | Some u \<Rightarrow>
          if unscoped_role u then True
          else if acl_users g = [] \<and> acl_groups g = [] then True
          else if sc_username u \<in> set (acl_users g) then True
          else list_ex (\<lambda>guid. guid \<in> set (normalizeGroupGuids
                 (case sc_user_groups u of None \<Rightarrow> JMissing | Some gs \<Rightarrow> JArray (map GuidText gs)))) (acl_groups g))"

definition getUserAccessContext :: "'t auth_db \<Rightarrow> scope_user \<Rightarrow> scope_user" where
  "getUserAccessContext db u =
     (if sc_id u = 0 \<or> unscoped_role u then u
      else case sc_user_groups u of
             Some _ \<Rightarrow> u
           | None \<Rightarrow> u\<lparr>sc_user_groups :=
               Some (filter (\<lambda>g. g \<noteq> []) (map ug_guid (getUserGroupsForUser (sc_id u) db)))\<rparr>)"

definition getGroupPeerIds ::
  "(string \<Rightarrow> string list option) \<Rightarrow> 't auth_db \<Rightarrow> group_view \<Rightarrow> device list \<Rightarrow> string list" where
  "getGroupPeerIds json db g devices =
     (case getGroupFolderId g of
        Some f \<Rightarrow> js_unique (map dv_id (filter (\<lambda>d. Option.bind (dv_folder_id d) parseInt = Some f) devices))
      | None \<Rightarrow>
          js_unique ((if gv_guid g = [] then [] else getDeviceGroupMembers (gv_guid g) db) @
            (if (gv_source_type g = ''tag'') \<and> gv_tag_filter g \<noteq> []
             then map dv_id (filter (\<lambda>d. hasTag json d (gv_tag_filter g)) devices) else [])))"

record enriched_group =
  eg_group :: group_view
  eg_member_count :: nat

definition enrichGroups ::
  "(string \<Rightarrow> string list option) \<Rightarrow> 't auth_db \<Rightarrow> group_view list \<Rightarrow> device list \<Rightarrow> enriched_group list" where
  "enrichGroups json db groups devices =
     map (\<lambda>g. \<lparr>eg_group = g\<lparr>gv_source_type := (if gv_source_type g = [] then ''manual'' else gv_source_type g)\<rparr>,
               eg_member_count = length (getGroupPeerIds json db g devices)\<rparr>) groups"


section \<open>The scope of a user\<close>

record scope_cache =
  scc_value :: "bool option"
  scc_at :: int

datatype setting_read = SettingFails | Setting "string option"

definition isDeviceScopeRestrictedDefault ::
  "int \<Rightarrow> string option \<Rightarrow> setting_read \<Rightarrow> scope_cache \<Rightarrow> bool \<times> scope_cache" where
  "isDeviceScopeRestrictedDefault now env read c =
     (let envRestricted = (js_lower (or_str env ''open'') = ''restricted'') in
      case scc_value c of
        Some v \<Rightarrow> if now - scc_at c < 30000 then (v, c)
                  else (case read of
                          SettingFails \<Rightarrow> (envRestricted, c)
                        | Setting s \<Rightarrow>
                            let r = (if s = None \<or> s = Some [] then envRestricted else js_lower (the s) = ''restricted'')
                            in (r, \<lparr>scc_value = Some r, scc_at = now\<rparr>))
      | None \<Rightarrow>
          (case read of
             SettingFails \<Rightarrow> (envRestricted, c)
           | Setting s \<Rightarrow>
               let r = (if s = None \<or> s = Some [] then envRestricted else js_lower (the s) = ''restricted'')
               in (r, \<lparr>scc_value = Some r, scc_at = now\<rparr>)))"

definition invalidateDeviceScopeDefaultCache :: scope_cache where
  "invalidateDeviceScopeDefaultCache = \<lparr>scc_value = None, scc_at = 0\<rparr>"

definition group_restricted :: "group_view \<Rightarrow> bool" where
  "group_restricted g = (acl_users g \<noteq> [] \<or> acl_groups g \<noteq> [])"

definition ids_of_groups ::
  "(string \<Rightarrow> string list option) \<Rightarrow> 't auth_db \<Rightarrow> group_view list \<Rightarrow> device list \<Rightarrow> string list" where
  "ids_of_groups json db gs devices = js_unique (concat (map (\<lambda>g. getGroupPeerIds json db g devices) gs))"

definition getDeviceScopeForUser ::
  "(string \<Rightarrow> string list option) \<Rightarrow> bool \<Rightarrow> 't auth_db \<Rightarrow> scope_user option \<Rightarrow> device list \<Rightarrow> string list option" where
  "getDeviceScopeForUser json restrictedDefault db user devices =
     (case user of
        None \<Rightarrow> None
      | Some u \<Rightarrow>
          if sc_id u = 0 \<or> unscoped_role u then None
          else
            let access = Some (getUserAccessContext db u);
                restricted = filter group_restricted (getAllDeviceGroups db);
                grants = getUserPeerGrants (sc_id u) db
            in if restricted = [] \<and> grants = [] then (if restrictedDefault then Some [] else None)
               else
                 let allowedIds = js_unique (ids_of_groups json db (filter (\<lambda>g. groupAllowedForUser g access) restricted) devices @ grants);
                     restrictedIds = ids_of_groups json db (filter (\<lambda>g. \<not> groupAllowedForUser g access) restricted) devices
                 in if restrictedDefault then Some allowedIds
                    else Some (js_unique (filter (\<lambda>i. i \<noteq> [] \<and> (i \<notin> set restrictedIds \<or> i \<in> set allowedIds)) (map dv_id devices))))"

definition filterDevicesByScope :: "device list \<Rightarrow> string list option \<Rightarrow> device list" where
  "filterDevicesByScope devices scope =
     (case scope of None \<Rightarrow> devices | Some ids \<Rightarrow> filter (\<lambda>d. dv_id d \<in> set ids) devices)"

definition userCanAccessDevice ::
  "(string \<Rightarrow> string list option) \<Rightarrow> bool \<Rightarrow> 't auth_db \<Rightarrow> scope_user option \<Rightarrow> device option \<Rightarrow> device list option \<Rightarrow> bool" where
  "userCanAccessDevice json restrictedDefault db user dev allDevices =
     (let devices = (case allDevices of Some ds \<Rightarrow> ds | None \<Rightarrow> (case dev of Some d \<Rightarrow> [d] | None \<Rightarrow> []))
      in case getDeviceScopeForUser json restrictedDefault db user devices of
           None \<Rightarrow> True
         | Some ids \<Rightarrow> (case dev of None \<Rightarrow> False | Some d \<Rightarrow> dv_id d \<in> set ids))"

record scope_count =
  sn_count :: nat
  sn_restricted :: bool

definition countEffectiveScope ::
  "(string \<Rightarrow> string list option) \<Rightarrow> bool \<Rightarrow> 't auth_db \<Rightarrow> scope_user option \<Rightarrow> device list \<Rightarrow> scope_count" where
  "countEffectiveScope json restrictedDefault db user devices =
     (case getDeviceScopeForUser json restrictedDefault db user devices of
        None \<Rightarrow> \<lparr>sn_count = length devices, sn_restricted = False\<rparr>
      | Some ids \<Rightarrow> \<lparr>sn_count = length ids, sn_restricted = True\<rparr>)"


section \<open>Who is responsible for a device\<close>

datatype scope_error = NotIterable

definition collectAclUsernames :: "'t auth_db \<Rightarrow> group_view option \<Rightarrow> string list \<Rightarrow> string list" where
  "collectAclUsernames db grp target =
     (case grp of
        None \<Rightarrow> target
      | Some g \<Rightarrow> js_unique (target @ acl_users g @ concat (map (\<lambda>guid. getUsernamesByUserGroupGuid guid db) (acl_groups g))))"

text \<open>The loop \<open>for (const row of assignments || [])\<close> over an object that is no array throws a
  \<open>TypeError\<close>.\<close>

fun folder_of_device :: "string \<Rightarrow> assignments_value \<Rightarrow> scope_error + int option" where
  "folder_of_device dev (AsObject m) = Inl NotIterable"
| "folder_of_device dev (AsRows rows) = Inr (map_option snd (find (\<lambda>(d, f). d = dev) rows))"

definition resolveOperatorUsernamesForDevice ::
  "(string \<Rightarrow> string list option) \<Rightarrow> assignments_value \<Rightarrow> 't auth_db \<Rightarrow> device list \<Rightarrow> string \<Rightarrow> scope_error + string list" where
  "resolveOperatorUsernamesForDevice json assignments db devices deviceId =
     (let cleanId = js_trim deviceId in
      if cleanId = [] then Inr []
      else case folder_of_device cleanId assignments of
             Inl e \<Rightarrow> Inl e
           | Inr folder \<Rightarrow>
               let names = (case folder of None \<Rightarrow> []
                     | Some f \<Rightarrow> collectAclUsernames db (getDeviceGroupByGuid (''folder_'' @ show_int f) db) [])
               in Inr (fold (\<lambda>g acc. if cleanId \<in> set (getGroupPeerIds json db g devices)
                                     then collectAclUsernames db (Some g) acc else acc) (getAllDeviceGroups db) names))"

definition resolveFolderNameForDevice :: "assignments_value \<Rightarrow> 't auth_db \<Rightarrow> string \<Rightarrow> scope_error + string" where
  "resolveFolderNameForDevice assignments db deviceId =
     (let cleanId = js_trim deviceId in
      if cleanId = [] then Inr []
      else case folder_of_device cleanId assignments of
             Inl e \<Rightarrow> Inl e
           | Inr None \<Rightarrow> Inr []
           | Inr (Some f) \<Rightarrow> Inr (case getFolderById f db of None \<Rightarrow> [] | Some r \<Rightarrow> f_name r))"


section \<open>Per-user scope (userScopeService)\<close>

definition folderGroupGuid :: "int \<Rightarrow> string" where
  "folderGroupGuid i = ''folder_'' @ show_int i"

definition normalizeFolderIds :: "int option list \<Rightarrow> int list" where
  "normalizeFolderIds vs = take 200 (js_unique (map the (filter (\<lambda>v. v \<noteq> None) vs)))"

definition normalizePeerIds :: "string list_value \<Rightarrow> string list" where
  "normalizePeerIds v = take 500 (clean_names (list_or_split (\<lambda>s. s) v))"

text \<open>The payload names no \<open>team_id\<close>, so an existing group keeps its team.\<close>

definition ensureFolderMirrorGroup :: "int \<Rightarrow> folder_row \<Rightarrow> 't auth_db \<Rightarrow> group_view option \<times> 't auth_db" where
  "ensureFolderMirrorGroup i f db =
     (let guid = folderGroupGuid i; note = ''BetterDesk folder access scope'' in
      case getDeviceGroupByGuid guid db of
        Some g \<Rightarrow>
          let db' = updateDeviceGroup guid (Some (f_name f)) (Some note) None (Some ''manual'') (Some []) db
          in (getDeviceGroupByGuid guid db', db')
      | None \<Rightarrow>
          (case createDeviceGroup [] \<lparr>gf_guid = guid, gf_name = f_name f, gf_note = note, gf_team = [],
                  gf_source_type = ''manual'', gf_tag_filter = []\<rparr> db of
             Inl e \<Rightarrow> (None, db)
           | Inr (row, db') \<Rightarrow>
               (Some \<lparr>gv_guid = dg_guid row, gv_name = dg_name row, gv_note = dg_note row, gv_team = dg_team row,
                  gv_source_type = dg_source_type row, gv_tag_filter = dg_tag_filter row,
                  gv_allowed_users = [], gv_allowed_groups = [], gv_folder_id = None\<rparr>, db')))"

definition getUserFolderIds :: "string \<Rightarrow> 't auth_db \<Rightarrow> int list" where
  "getUserFolderIds uname db =
     (if uname = [] then []
      else map fst (filter (\<lambda>(i, f). case getDeviceGroupByGuid (folderGroupGuid i) db of
             None \<Rightarrow> False | Some g \<Rightarrow> uname \<in> set (acl_users g)) (getAllFolders db)))"

definition sync_folder :: "string \<Rightarrow> int list \<Rightarrow> int \<times> folder_row \<Rightarrow> 't auth_db \<Rightarrow> 't auth_db" where
  "sync_folder uname selected folder db =
     (case ensureFolderMirrorGroup (fst folder) (snd folder) db of
        (None, db') \<Rightarrow> db'
      | (Some g, db') \<Rightarrow>
          let current = acl_users g; want = (fst folder \<in> set selected); has = (uname \<in> set current)
          in if want \<and> \<not> has then setDeviceGroupUserAccess (gv_guid g) (current @ [uname]) db'
             else if \<not> want \<and> has then setDeviceGroupUserAccess (gv_guid g) (filter (\<lambda>n. n \<noteq> uname) current) db'
             else db')"

definition syncUserFolderAccess :: "string \<Rightarrow> int option list \<Rightarrow> 't auth_db \<Rightarrow> int list \<times> 't auth_db" where
  "syncUserFolderAccess uname folderIds db =
     (if uname = [] then ([], db)
      else let selected = normalizeFolderIds folderIds
           in (selected, fold (sync_folder uname selected) (getAllFolders db) db))"

definition getUserPeerGrantIds :: "int \<Rightarrow> 't auth_db \<Rightarrow> string list" where
  "getUserPeerGrantIds uid db = (if uid = 0 then [] else getUserPeerGrants uid db)"

definition syncUserPeerGrants :: "int \<Rightarrow> string list_value \<Rightarrow> 't auth_db \<Rightarrow> (db_error + string list) \<times> 't auth_db" where
  "syncUserPeerGrants uid peerIds db =
     (if uid = 0 then (Inr [], db)
      else let normalized = normalizePeerIds peerIds in
           case setUserPeerGrants uid normalized db of
             (Inl e, db') \<Rightarrow> (Inl e, db')
           | (Inr _, db') \<Rightarrow> (Inr normalized, db'))"



section \<open>Lemmas\<close>

lemma set_ids_of_groups: "set (ids_of_groups json db gs devices) = (\<Union>g \<in> set gs. set (getGroupPeerIds json db g devices))"
  by (simp add: ids_of_groups_def)

lemma scope_cases:
  fixes db :: "'t auth_db" and u :: scope_user
  assumes "sc_id u \<noteq> 0" "\<not> unscoped_role u"
  defines "R \<equiv> filter group_restricted (getAllDeviceGroups db)"
    and "ok \<equiv> (\<lambda>g. groupAllowedForUser g (Some (getUserAccessContext db u)))"
    and "grants \<equiv> getUserPeerGrants (sc_id u) db"
  shows "getDeviceScopeForUser json rd db (Some u) devices =
    (if R = [] \<and> grants = [] then (if rd then Some [] else None)
     else if rd then Some (js_unique (ids_of_groups json db (filter ok R) devices @ grants))
     else Some (js_unique (filter (\<lambda>i. i \<noteq> [] \<and> (i \<notin> set (ids_of_groups json db (filter (\<lambda>g. \<not> ok g) R) devices)
        \<or> i \<in> set (ids_of_groups json db (filter ok R) devices @ grants))) (map dv_id devices))))"
  using assms(1,2) unfolding R_def ok_def grants_def
  by (simp add: getDeviceScopeForUser_def Let_def cong: if_cong)

lemma grants_row:
  assumes "setUserPeerGrants uid ids db = (Inr norm, db')"
  shows "norm = take 500 (clean_names ids)"
    and "db_peer_grants db' = filter (\<lambda>(u, p). u \<noteq> uid) (db_peer_grants db) @ map (Pair uid) norm"
  using assms by (auto simp: setUserPeerGrants_def Let_def split: if_splits)

lemma filter_grants:
  "filter (\<lambda>(u, p). u = v) (filter (\<lambda>(u, p). u \<noteq> uid) xs @ map (Pair uid) ys)
    = (if v = uid then map (Pair uid) ys else filter (\<lambda>(u, p). u = v) xs)"
  for xs :: "(int \<times> string) list"
proof -
  have "filter (\<lambda>(u, p). u = v) (map (Pair uid) ys) = (if v = uid then map (Pair uid) ys else [])"
    by (induction ys) auto
  moreover have "filter (\<lambda>(u, p). u = v) (filter (\<lambda>(u, p). u \<noteq> uid) xs) = (if v = uid then [] else filter (\<lambda>(u, p). u = v) xs)"
    by (induction xs) auto
  ultimately show ?thesis by simp
qed

lemma grants_roundtrip:
  assumes "setUserPeerGrants uid ids db = (Inr norm, db')"
  shows "set (getUserPeerGrants uid db') = set norm"
  unfolding getUserPeerGrants_def grants_row(2) [OF assms] filter_grants by (simp add: image_image)

lemma grants_others:
  assumes "setUserPeerGrants uid ids db = (Inr norm, db')" and "v \<noteq> uid"
  shows "getUserPeerGrants v db' = getUserPeerGrants v db"
  unfolding getUserPeerGrants_def grants_row(2) [OF assms(1)] filter_grants using assms(2) by simp

lemma clean_names_clean: "s \<in> set (clean_names xs) \<Longrightarrow> clean_name s"
  by (auto simp: clean_names_def clean_name_def)

lemma scope_of_grant:
  assumes "sc_id u \<noteq> 0" "\<not> unscoped_role u" "d \<in> set devices" "dv_id d \<noteq> []"
    and "dv_id d \<in> set (getUserPeerGrants (sc_id u) db)"
  shows "userCanAccessDevice json rd db (Some u) (Some d) (Some devices)"
proof -
  have "getUserPeerGrants (sc_id u) db \<noteq> []" using assms(5) by auto
  then show ?thesis
    using assms(3-5)
    unfolding userCanAccessDevice_def Let_def scope_cases [OF assms(1,2)] by auto
qed

lemma sole_user:
  assumes "auth_ok db" and "allowed_users_of g db = [u_username u]" and "getUserById i db = Some u"
  shows "filter (\<lambda>(k, v). (g, k) \<in> set (db_dg_users db)) (db_users db) = [(i, u)]"
proof -
  let ?f = "filter (\<lambda>(k, v). (g, k) \<in> set (db_dg_users db)) (db_users db)"
  have "length ?f = 1" using arg_cong [OF assms(2), of length] by (simp add: allowed_users_of_def)
  then obtain k v where kv: "?f = [(k, v)]" by (cases ?f) auto
  then have mem: "(k, v) \<in> set (db_users db)" by (metis filter_is_subset list.set_intros(1) subsetD)
  have name: "u_username v = u_username u" using assms(2) kv by (simp add: allowed_users_of_def)
  have "map_of (db_users db) k = Some v"
    using mem assms(1) by (simp add: auth_ok_def tbl_ok_def)
  then have "getUserById k db = Some v" by (simp add: getUserById_def)
  then have "getUserByUsername (u_username u) db = Some (k, v)" "getUserByUsername (u_username u) db = Some (i, u)"
    using getUserByUsername_iff [OF assms(1)] name assms(3) by simp_all
  with kv show ?thesis by simp
qed

lemma allowed_users_deleted:
  assumes "filter (\<lambda>(k, v). (g, k) \<in> set (db_dg_users db)) (db_users db) = [(i, u)]"
  shows "allowed_users_of g (deleteUser i db) = []"
proof -
  have "k = i" if "(k, v) \<in> set (db_users db)" "(g, k) \<in> set (db_dg_users db)" for k v
  proof -
    have "(k, v) \<in> set (filter (\<lambda>(k, v). (g, k) \<in> set (db_dg_users db)) (db_users db))" using that by simp
    with assms show ?thesis by simp
  qed
  then have "filter (\<lambda>(k, v). (g, k) \<in> set (db_dg_users (deleteUser i db))) (db_users (deleteUser i db)) = []"
    by (auto simp: deleteUser_def tbl_delete_def filter_empty_conv)
  then show ?thesis by (simp add: allowed_users_of_def)
qed


section \<open>Properties\<close>

text \<open>C37: what a scoped user sees.  For a user that is not an administrator, a listed device is
  accessible exactly when a restricted group that admits the user holds it, or the user has a grant
  for it, or the default is open and no restricted group that excludes the user holds it.  A group is
  restricted when it has an access list.\<close>

theorem device_scope_meaning:
  assumes "sc_id u \<noteq> 0" and "\<not> unscoped_role u" and "d \<in> set devices" and "dv_id d \<noteq> []"
  shows "userCanAccessDevice json rd db (Some u) (Some d) (Some devices) \<longleftrightarrow>
    (\<exists>g \<in> set (getAllDeviceGroups db). group_restricted g
        \<and> groupAllowedForUser g (Some (getUserAccessContext db u)) \<and> dv_id d \<in> set (getGroupPeerIds json db g devices))
    \<or> dv_id d \<in> set (getUserPeerGrants (sc_id u) db)
    \<or> (\<not> rd \<and> \<not> (\<exists>g \<in> set (getAllDeviceGroups db). group_restricted g
        \<and> \<not> groupAllowedForUser g (Some (getUserAccessContext db u)) \<and> dv_id d \<in> set (getGroupPeerIds json db g devices)))"
proof -
  let ?R = "filter group_restricted (getAllDeviceGroups db)"
  have mem: "dv_id d \<in> dv_id ` set devices" using assms(3) by simp
  show ?thesis
  proof (cases "?R = [] \<and> getUserPeerGrants (sc_id u) db = []")
    case True
    then have "\<forall>g \<in> set (getAllDeviceGroups db). \<not> group_restricted g" by (simp add: filter_empty_conv)
    with True show ?thesis
      unfolding userCanAccessDevice_def Let_def scope_cases [OF assms(1,2)] by auto
  next
    case False
    then show ?thesis
      using mem assms(4)
      unfolding userCanAccessDevice_def Let_def scope_cases [OF assms(1,2)]
      by (simp add: set_ids_of_groups) blast
  qed
qed

definition demo_scope_db :: "int auth_db" where
  "demo_scope_db = empty_auth_db\<lparr>
     db_users := map (\<lambda>(i, n). (i, \<lparr>u_username = n, u_password_hash = [], u_role = ''operator'', u_auth_provider = ''local'',
       u_last_login = None, u_language = None, u_totp_secret = None, u_totp_enabled = False, u_recovery_codes = None,
       u_profile = []\<rparr>)) [(1, ''ann''), (2, ''bob'')], db_user_seq := 2,
     db_device_groups := [(1, \<lparr>dg_guid = ''g1'', dg_name = ''Lab'', dg_note = [], dg_team = [], dg_source_type = ''manual'', dg_tag_filter = []\<rparr>)],
     db_dg_seq := 1, db_dg_members := [(1, ''d1'')], db_dg_users := [(1, 1)]\<rparr>"

definition demo_device :: device where
  "demo_device = \<lparr>dv_id = ''d1'', dv_tags = JMissing, dv_folder_id = None\<rparr>"

definition demo_bob :: scope_user where
  "demo_bob = \<lparr>sc_id = 2, sc_username = ''bob'', sc_role = Some ''operator'', sc_user_groups = None\<rparr>"

theorem device_scope_meaning_witness:
  "\<not> userCanAccessDevice (\<lambda>s. None) False demo_scope_db (Some demo_bob) (Some demo_device) (Some [demo_device])"
proof -
  have g: "set (getAllDeviceGroups demo_scope_db) = {hd (getAllDeviceGroups demo_scope_db)}" by code_simp
  have r: "group_restricted (hd (getAllDeviceGroups demo_scope_db))" by code_simp
  have n: "\<not> groupAllowedForUser (hd (getAllDeviceGroups demo_scope_db)) (Some (getUserAccessContext demo_scope_db demo_bob))" by code_simp
  have m: "dv_id demo_device \<in> set (getGroupPeerIds (\<lambda>s. None) demo_scope_db (hd (getAllDeviceGroups demo_scope_db)) [demo_device])" by code_simp
  have p: "dv_id demo_device \<notin> set (getUserPeerGrants (sc_id demo_bob) demo_scope_db)" by code_simp
  have h: "sc_id demo_bob \<noteq> 0" "\<not> unscoped_role demo_bob" "demo_device \<in> set [demo_device]" "dv_id demo_device \<noteq> []" by code_simp+
  show ?thesis
    using device_scope_meaning [OF h, of "\<lambda>s. None" False demo_scope_db] r n m p unfolding g by blast
qed

text \<open>a grant makes its device visible.  After \<open>syncUserPeerGrants\<close> has stored the grants of a
  user, every listed device among them is accessible to that user, whatever groups exist and
  whichever default is set, and the grants of other users are untouched.\<close>

theorem granted_device_visible:
  assumes "syncUserPeerGrants (sc_id u) ids db = (Inr granted, db')" and "sc_id u \<noteq> 0" and "\<not> unscoped_role u"
    and "d \<in> set devices" and "dv_id d \<noteq> []" and "dv_id d \<in> set granted"
  shows "userCanAccessDevice json rd db' (Some u) (Some d) (Some devices)
    \<and> (\<forall>v. v \<noteq> sc_id u \<longrightarrow> getUserPeerGrants v db' = getUserPeerGrants v db)"
proof -
  have s: "\<exists>x. setUserPeerGrants (sc_id u) (normalizePeerIds ids) db = (Inr x, db')" and g: "granted = normalizePeerIds ids"
    using assms(1,2) by (auto simp: syncUserPeerGrants_def Let_def split: prod.splits sum.splits)
  then obtain x where x: "setUserPeerGrants (sc_id u) (normalizePeerIds ids) db = (Inr x, db')" by blast
  have "clean_names (normalizePeerIds ids) = normalizePeerIds ids"
    by (intro clean_names_id ballI)
       (auto simp: normalizePeerIds_def clean_names_def intro!: clean_names_clean dest!: in_set_takeD)
  moreover have "length (normalizePeerIds ids) \<le> 500" by (simp add: normalizePeerIds_def)
  ultimately have x': "x = granted" using grants_row(1) [OF x] g by simp
  have "dv_id d \<in> set (getUserPeerGrants (sc_id u) db')"
    using grants_roundtrip [OF x] x' assms(6) by simp
  then have "userCanAccessDevice json rd db' (Some u) (Some d) (Some devices)"
    using scope_of_grant [OF assms(2-5)] by blast
  moreover have "getUserPeerGrants v db' = getUserPeerGrants v db" if "v \<noteq> sc_id u" for v
    using x that by (rule grants_others)
  ultimately show ?thesis by blast
qed

definition demo_grant_db :: "int auth_db" where
  "demo_grant_db = snd (syncUserPeerGrants 2 (JText '' d1 , d2,d1'') demo_scope_db)"

theorem granted_device_visible_witness:
  "userCanAccessDevice (\<lambda>s. None) False demo_grant_db (Some demo_bob) (Some demo_device) (Some [demo_device])"
proof -
  have g: "syncUserPeerGrants (sc_id demo_bob) (JText '' d1 , d2,d1'') demo_scope_db = (Inr [''d1'', ''d2''], demo_grant_db)" by code_simp
  have h: "sc_id demo_bob \<noteq> 0" "\<not> unscoped_role demo_bob" "demo_device \<in> set [demo_device]" "dv_id demo_device \<noteq> []"
    "dv_id demo_device \<in> set [''d1'', ''d2'']" by code_simp+
  show ?thesis using granted_device_visible [OF g h] by blast
qed

text \<open>deleting an account can open a group.  A device group whose access list holds one user and no
  user group is restricted; when that account is deleted, the group has no access list any more and
  counts as unrestricted.\<close>

theorem deleting_last_user_opens_group:
  assumes "auth_ok db" and "allowed_users_of g db = [u_username u]" and "getUserById i db = Some u"
    and "allowed_groups_of g db = []" and "clean_name (u_username u)"
  shows "group_restricted (group_view_of g row db) \<and> \<not> group_restricted (group_view_of g row (deleteUser i db))"
proof
  have "acl_users (group_view_of g row db) = [u_username u]"
    using assms(2,5) clean_names_id [of "[u_username u]"]
    by (simp add: acl_users_def normalizeUsernames_def group_view_of_def)
  then show "group_restricted (group_view_of g row db)" by (simp add: group_restricted_def)
  have rows: "filter (\<lambda>(k, v). (g, k) \<in> set (db_dg_users db)) (db_users db) = [(i, u)]"
    by (rule sole_user [OF assms(1,2,3)])
  have "allowed_users_of g (deleteUser i db) = []"
    by (rule allowed_users_deleted [OF rows])
  moreover have "allowed_groups_of g (deleteUser i db) = []"
    using assms(4) by (simp add: allowed_groups_of_def deleteUser_def)
  ultimately show "\<not> group_restricted (group_view_of g row (deleteUser i db))"
    by (simp add: group_restricted_def acl_users_def acl_groups_def group_view_of_def normalizeUsernames_def
        normalizeGroupGuids_def clean_names_def js_unique_def)
qed

theorem deleting_last_user_opens_group_witness:
  "\<not> group_restricted (group_view_of 1 (snd (hd (db_device_groups demo_scope_db))) (deleteUser 1 demo_scope_db)) \<and>
   userCanAccessDevice (\<lambda>s. None) False (deleteUser 1 demo_scope_db) (Some demo_bob) (Some demo_device) (Some [demo_device])"
proof -
  let ?u = "snd (hd (db_users demo_scope_db))"
  have h: "auth_ok demo_scope_db" "allowed_users_of 1 demo_scope_db = [u_username ?u]" "getUserById 1 demo_scope_db = Some ?u"
    "allowed_groups_of 1 demo_scope_db = []" "clean_name (u_username ?u)" by code_simp+
  have "userCanAccessDevice (\<lambda>s. None) False (deleteUser 1 demo_scope_db) (Some demo_bob) (Some demo_device) (Some [demo_device])"
    by code_simp
  then show ?thesis using deleting_last_user_opens_group [OF h] by blast
qed

text \<open>the responsible operators of a device are never found.  The adapter returns the folder
  assignments as an object, the service iterates over rows, so for every device id that is not blank
  the look-up throws, whatever is stored.\<close>

theorem operator_lookup_always_throws:
  assumes "js_trim deviceId \<noteq> []"
  shows "resolveOperatorUsernamesForDevice json (getAllFolderAssignments db) db devices deviceId = Inl NotIterable
    \<and> resolveFolderNameForDevice (getAllFolderAssignments db) db deviceId = Inl NotIterable"
  using assms
  by (simp add: resolveOperatorUsernamesForDevice_def resolveFolderNameForDevice_def getAllFolderAssignments_def)

theorem operator_lookup_always_throws_witness:
  "resolveFolderNameForDevice (getAllFolderAssignments (assignDeviceToFolder ''d1'' (Some 3) demo_scope_db))
     (assignDeviceToFolder ''d1'' (Some 3) demo_scope_db) ''d1'' = Inl NotIterable"
proof -
  have "js_trim ''d1'' \<noteq> []" by code_simp
  from operator_lookup_always_throws [OF this, of "\<lambda>s. None" "assignDeviceToFolder ''d1'' (Some 3) demo_scope_db" "[]"]
  show ?thesis by blast
qed

end
