(* ===== verification/Env_Config.thy ===== *)
theory Env_Config
  imports BD_Prelude
begin

text \<open>
  The configuration file \<open>.env\<close>: the merge of a new template on update (\<open>lib/envMerge.js\<close>) and the
  validated edits from the panel (\<open>lib/managementCapabilities.js\<close>).  A file is its text; writing it
  replaces the text.  Paths are POSIX paths, \<open>path.resolve\<close> of an absolute path is \<open>resolve_abs\<close>.
\<close>

section \<open>Lines\<close>

definition NL :: char where "NL = CHR 0x0A"
definition CR :: char where "CR = CHR 0x0D"

definition strip_cr :: "string \<Rightarrow> string" where
  "strip_cr p = (if p \<noteq> [] \<and> last p = CR then butlast p else p)"

text \<open>\<open>split(/\<dots>/)\<close> on an optional carriage return and a newline.\<close>

definition split_lines :: "string \<Rightarrow> string list" where
  "split_lines s = (let ps = split_on NL s in map strip_cr (butlast ps) @ [last ps])"

definition line_end :: "char \<Rightarrow> bool" where
  "line_end c = (c = NL \<or> c = CR)"


section \<open>Merging a template (envMerge.js)\<close>

datatype env_entry = EBlank string | EComment string | EPair string string string

definition after_eq :: "string \<Rightarrow> string \<times> string" where
  "after_eq raw = (takeWhile (\<lambda>c. c \<noteq> CHR ''='') raw, tl (dropWhile (\<lambda>c. c \<noteq> CHR ''='') raw))"

definition parse_line :: "string \<Rightarrow> env_entry" where
  "parse_line raw =
     (let trimmed = js_trim raw in
      if trimmed = [] then EBlank raw
      else if startsWith trimmed ''#'' then EComment raw
      else if CHR ''='' \<notin> set raw then EComment raw
      else let key = js_trim (fst (after_eq raw)); value = snd (after_eq raw) in
           if key = [] then EComment raw else EPair key value raw)"

fun entry_pair :: "env_entry \<Rightarrow> (string \<times> string) option" where
  "entry_pair (EPair k v raw) = Some (k, v)"
| "entry_pair _ = None"

definition pairs_of :: "env_entry list \<Rightarrow> (string \<times> string) list" where
  "pairs_of es = List.map_filter entry_pair es"

text \<open>The \<open>Map\<close> of the entries: the last pair of a key wins.\<close>

definition env_map :: "env_entry list \<Rightarrow> string \<Rightarrow> string option" where
  "env_map es = map_of (rev (pairs_of es))"

definition parseEnvLines :: "string \<Rightarrow> env_entry list" where
  "parseEnvLines content = map parse_line (split_lines content)"

fun entry_raw :: "env_entry \<Rightarrow> string" where
  "entry_raw (EBlank r) = r"
| "entry_raw (EComment r) = r"
| "entry_raw (EPair k v r) = r"

record merge_state =
  ms_content :: string
  ms_pending :: string
  ms_added :: "string list"

definition merge_step :: "(string \<Rightarrow> string option) \<Rightarrow> env_entry \<Rightarrow> merge_state \<Rightarrow> merge_state" where
  "merge_step existing entry st =
     (case entry of
        EPair key value raw \<Rightarrow>
          if existing key \<noteq> None then st
          else \<lparr>ms_content = ms_content st @ ms_pending st @ key @ ''='' @ value @ [NL],
                ms_pending = [], ms_added = ms_added st @ [key]\<rparr>
      | _ \<Rightarrow> st\<lparr>ms_pending := ms_pending st @ entry_raw entry @ [NL]\<rparr>)"

definition mergeEnv :: "string \<Rightarrow> string \<Rightarrow> string \<times> string list" where
  "mergeEnv existingContent templateContent =
     (let existing = env_map (parseEnvLines existingContent);
          content = (if existingContent \<noteq> [] \<and> last existingContent \<noteq> NL then existingContent @ [NL] else existingContent);
          st = fold (merge_step existing) (parseEnvLines templateContent)
                 \<lparr>ms_content = content, ms_pending = [], ms_added = []\<rparr>
      in (ms_content st, ms_added st))"

definition buildFreshEnv :: "string \<Rightarrow> string" where
  "buildFreshEnv t = (if t \<noteq> [] \<and> last t = NL then t else t @ [NL])"

definition upsert_line :: "string \<Rightarrow> string \<Rightarrow> string \<Rightarrow> string" where
  "upsert_line key value line =
     (let trimmed = js_trim line; before = fst (after_eq line) in
      if trimmed = [] \<or> startsWith trimmed ''#'' then line
      else if CHR ''='' \<notin> set line \<or> before = [] then line
      else if js_trim before \<noteq> key then line
      else key @ ''='' @ value)"

definition upsert_hits :: "string \<Rightarrow> string \<Rightarrow> bool" where
  "upsert_hits key line =
     (let trimmed = js_trim line; before = fst (after_eq line) in
      trimmed \<noteq> [] \<and> \<not> startsWith trimmed ''#'' \<and> CHR ''='' \<in> set line \<and> before \<noteq> [] \<and> js_trim before = key)"

definition upsertEnvKey :: "string \<Rightarrow> string \<Rightarrow> string \<Rightarrow> string" where
  "upsertEnvKey existing key value =
     (let ls = split_lines existing; content = join_with [NL] (map (upsert_line key value) ls) in
      if \<not> list_ex (upsert_hits key) ls then
        (if content \<noteq> [] \<and> last content \<noteq> NL then content @ [NL] else content) @ key @ ''='' @ value @ [NL]
      else if content = [] \<or> last content \<noteq> NL then content @ [NL]
      else content)"

fun replace_all :: "string \<Rightarrow> string \<Rightarrow> string \<Rightarrow> string" where
  "replace_all token val [] = []"
| "replace_all token val (c # cs) =
     (if startsWith (c # cs) token then val @ replace_all token val (drop (length token - 1) cs)
      else c # replace_all token val cs)"

definition applySubstitutions :: "string \<Rightarrow> (string \<times> string) list \<Rightarrow> string" where
  "applySubstitutions text subs = fold (\<lambda>(k, v) out. replace_all (''__'' @ k @ ''__'') v out) subs text"

text \<open>A configuration value counts as missing when it is undefined, null or the empty string; \<open>config\<close> is
  the text of the fields of the configuration object.\<close>

fun first_nonempty :: "string option list \<Rightarrow> string" where
  "first_nonempty [] = []"
| "first_nonempty (v # vs) = (case v of Some t \<Rightarrow> if t \<noteq> [] then t else first_nonempty vs | None \<Rightarrow> first_nonempty vs)"

definition pick :: "(string \<Rightarrow> string option) \<Rightarrow> string \<Rightarrow> string option list \<Rightarrow> string" where
  "pick envMap key fallbacks = first_nonempty (envMap key # fallbacks)"

definition below_dir :: "string \<Rightarrow> string \<Rightarrow> string option" where
  "below_dir dir tail = Some (if dir \<noteq> [] then dir @ tail else [])"

definition buildEnvSubstitutions ::
  "(string \<Rightarrow> string option) \<Rightarrow> (string \<Rightarrow> string option) \<Rightarrow> string \<Rightarrow> (string \<times> string) list" where
  "buildEnvSubstitutions envMap config randomKey =
     (let p = pick envMap;
          rustdeskDir = p ''RUSTDESK_DIR'' [config ''rustdeskDir'', config ''keysPath''];
          goPort = p ''GO_API_PORT'' [config ''goApiPort'', Some ''21114''];
          apiPort = p ''API_PORT'' [config ''apiPort'', Some ''21121''];
          dbType = p ''DB_TYPE'' [config ''dbType'', Some ''sqlite''];
          sslCert = p ''SSL_CERT_PATH'' [config ''sslCertPath'', below_dir rustdeskDir ''/ssl/betterdesk.crt''];
          sslKey = p ''SSL_KEY_PATH'' [config ''sslKeyPath'', below_dir rustdeskDir ''/ssl/betterdesk.key''];
          vaultKey = p ''REMOTE_TARGET_VAULT_KEY'' [config ''remoteTargetVaultKey'', Some randomKey];
          goApiBase = ''http://localhost:'' @ goPort @ ''/api''
      in [(''RUSTDESK_DIR'', rustdeskDir),
          (''PUB_KEY_PATH'', p ''PUB_KEY_PATH'' [config ''pubKeyPath'', below_dir rustdeskDir ''/id_ed25519.pub'']),
          (''API_KEY_PATH'', p ''API_KEY_PATH'' [config ''apiKeyPath'', below_dir rustdeskDir ''/.api_key'']),
          (''DB_TYPE'', dbType),
          (''DB_PATH'', p ''DB_PATH'' [config ''dbPath'', below_dir rustdeskDir ''/db_v2.sqlite3'']),
          (''DATABASE_URL'', p ''DATABASE_URL'' [config ''databaseUrl'']),
          (''DATA_DIR'', p ''DATA_DIR'' [config ''dataDir'']),
          (''GO_API_PORT'', goPort),
          (''HBBS_API_URL'', p ''HBBS_API_URL'' [Some goApiBase]),
          (''BETTERDESK_API_URL'', p ''BETTERDESK_API_URL'' [Some goApiBase]),
          (''API_PORT'', apiPort),
          (''DEFAULT_ADMIN_PASSWORD'', p ''DEFAULT_ADMIN_PASSWORD'' []),
          (''SESSION_SECRET'', p ''SESSION_SECRET'' [config ''sessionSecret'']),
          (''ORG_PEER_VAULT_KEY'', p ''ORG_PEER_VAULT_KEY'' []),
          (''REMOTE_TARGET_VAULT_KEY'', vaultKey),
          (''GUACD_ADDRESS'', p ''GUACD_ADDRESS'' [Some ''127.0.0.1:4822'']),
          (''SSL_CERT_PATH'', sslCert),
          (''SSL_KEY_PATH'', sslKey)])"

text \<open>A placeholder: two underscores, characters other than underscores, two underscores.\<close>

fun has_placeholder :: "string \<Rightarrow> bool" where
  "has_placeholder [] = False"
| "has_placeholder (c # cs) =
     ((startsWith (c # cs) ''__'' \<and> takeWhile (\<lambda>x. x \<noteq> CHR ''_'') (tl cs) \<noteq> []
         \<and> startsWith (dropWhile (\<lambda>x. x \<noteq> CHR ''_'') (tl cs)) ''__'')
      \<or> has_placeholder cs)"

definition assertResolvedSubstitutions :: "(string \<times> string) list \<Rightarrow> string option" where
  "assertResolvedSubstitutions subs = map_option fst (find (\<lambda>(k, v). has_placeholder v) subs)"

datatype merge_mode = FreshMode | MergeMode
datatype merge_error = TemplateNotFound | UnresolvedSubstitution string

text \<open>\<open>template\<close> is the text of the template, \<^term>\<open>None\<close> for a missing file; \<open>target\<close> the file that is
  read and replaced.\<close>

definition mergeEnvFile ::
  "bool \<Rightarrow> (string \<times> string) list \<Rightarrow> string option \<Rightarrow> string option
     \<Rightarrow> (merge_error + (merge_mode \<times> string list)) \<times> string option" where
  "mergeEnvFile freshInstall subs template target =
     (case template of
        None \<Rightarrow> (Inl TemplateNotFound, target)
      | Some t \<Rightarrow>
          (case assertResolvedSubstitutions subs of
             Some k \<Rightarrow> (Inl (UnresolvedSubstitution k), target)
           | None \<Rightarrow>
               let templateRaw = applySubstitutions t subs;
                   existing = (case target of None \<Rightarrow> [] | Some c \<Rightarrow> c)
               in if freshInstall \<or> js_trim existing = [] then
                    (Inr (FreshMode, rev (remdups (rev (map fst (pairs_of (parseEnvLines templateRaw)))))),
                     Some (buildFreshEnv templateRaw))
                  else let (content, added) = mergeEnv existing templateRaw
                       in (Inr (MergeMode, added), Some content)))"


section \<open>Editing from the panel (managementCapabilities.js)\<close>

definition key_char :: "char \<Rightarrow> bool" where
  "key_char c = (is_upper_az c \<or> is_digit c \<or> c = CHR ''_'')"

text \<open>A line of the form white space, key, equals sign, value; the value has no line terminator.\<close>

definition match_env :: "string \<Rightarrow> (string \<times> string) option" where
  "match_env line =
     (let t = dropWhile js_ws line; k = takeWhile key_char t; rest = dropWhile key_char t in
      if k \<noteq> [] \<and> is_upper_az (hd k) \<and> rest \<noteq> [] \<and> hd rest = CHR ''='' \<and> list_all (\<lambda>c. \<not> line_end c) (tl rest)
      then Some (k, tl rest) else None)"

text \<open>A line of the template that names a key, commented out or not.\<close>

definition match_example :: "string \<Rightarrow> string option" where
  "match_example line =
     (let t = dropWhile js_ws line;
          u = dropWhile js_ws (if t \<noteq> [] \<and> hd t = CHR ''#'' then tl t else t);
          k = takeWhile key_char u; rest = dropWhile js_ws (dropWhile key_char u)
      in if k \<noteq> [] \<and> is_upper_az (hd k) \<and> rest \<noteq> [] \<and> hd rest = CHR ''='' then Some k else None)"

definition parseEnvKeys :: "string option \<Rightarrow> string list" where
  "parseEnvKeys example = (case example of None \<Rightarrow> [] | Some c \<Rightarrow> List.map_filter match_example (split_lines c))"

definition BOOLEAN_KEYS :: "string list" where
  "BOOLEAN_KEYS = [''API_ENABLED'', ''RUSTDESK_API_PROXY'', ''RUSTDESK_API_DISABLE_TOTP'',
     ''RUSTDESK_API_DISABLE_TOTP_ACKNOWLEDGED'', ''SMTP_SECURE'', ''SMTP_TLS_VERIFY'', ''TRUST_PROXY'',
     ''HTTPS_ENABLED'', ''HTTP_REDIRECT_HTTPS'', ''P2P_FIRST'', ''ALWAYS_USE_RELAY'', ''SAME_NAT_RELAY'',
     ''ALLOW_SHARED_NAT_INITIATOR'', ''LOGGED_IN_ONLY_INITIATOR'', ''OPERATOR_ONLY_OUTBOUND'', ''CDAP_ENABLED'',
     ''CDAP_TLS'', ''CDAP_TLS_REQUIRED'', ''BILLING_REQUIRE_SYNCED_CLOCK'', ''BILLING_TRUST_OS_NTP'',
     ''BILLING_REQUIRE_WORK_REPORT'', ''STORE_ADMIN_CREDENTIALS'']"

definition PORT_KEYS :: "string list" where
  "PORT_KEYS = [''PORT'', ''HTTPS_PORT'', ''SMTP_PORT'', ''API_PORT'', ''GO_API_PORT'', ''CLIENT_API_PORT'', ''CHAT_PORT'']"

definition PATH_KEYS :: "string list" where
  "PATH_KEYS = [''RUSTDESK_DIR'', ''KEYS_PATH'', ''PUB_KEY_PATH'', ''API_KEY_PATH'', ''DB_PATH'', ''DATA_DIR'',
     ''SSL_CERT_PATH'', ''SSL_KEY_PATH'', ''SSL_CA_PATH'']"

definition ENUM_VALUES :: "(string \<times> string list) list" where
  "ENUM_VALUES = [(''DB_TYPE'', [''sqlite'', ''postgres'', ''postgresql'']),
     (''NODE_ENV'', [''development'', ''test'', ''production'']),
     (''LOG_LEVEL'', [''error'', ''warn'', ''info'', ''debug'']),
     (''SERVER_BACKEND'', [''betterdesk'', ''rustdesk'']),
     (''RUSTDESK_API_TLS'', [''auto'', ''true'', ''false'']),
     (''UPDATE_GITHUB_BRANCH'', [''main'', ''dev'']),
     (''CDAP_TLS'', [''Y'', ''N'', ''y'', ''n'', ''true'', ''false'', ''1'', ''0''])]"

fun norm_parts :: "string list \<Rightarrow> string list \<Rightarrow> string list" where
  "norm_parts acc [] = rev acc"
| "norm_parts acc (p # ps) =
     (if p = [] \<or> p = ''.'' then norm_parts acc ps
      else if p = ''..'' then norm_parts (tl acc) ps
      else norm_parts (p # acc) ps)"

definition path_parts :: "string \<Rightarrow> string list" where
  "path_parts p = norm_parts [] (split_on CHR ''/'' p)"

definition resolve_abs :: "string \<Rightarrow> string" where
  "resolve_abs p = CHR ''/'' # join_with ''/'' (path_parts p)"

definition isPathWithin :: "string \<Rightarrow> string \<Rightarrow> bool" where
  "isPathWithin candidate root =
     (resolve_abs candidate = resolve_abs root \<or> startsWith (resolve_abs candidate) (resolve_abs root @ ''/''))"

record env_paths =
  ep_console :: string
  ep_server :: string
  ep_data :: string

datatype env_error = NotAllowlisted string | ControlCharacter string | PathNotAbsolute string
  | PathOutsideRoots string | InvalidPort string | InvalidValue string | InvalidBoolean string | NoChanges

definition validateEnvKey :: "string list \<Rightarrow> string \<Rightarrow> env_error + string" where
  "validateEnvKey allowed key = (if key \<in> set allowed then Inr key else Inl (NotAllowlisted key))"

definition validateEnvValue :: "env_paths \<Rightarrow> string \<Rightarrow> string \<Rightarrow> env_error + string" where
  "validateEnvValue paths key raw =
     (if list_ex (\<lambda>c. c = CHR 0x00 \<or> line_end c) raw then Inl (ControlCharacter key)
      else if key \<in> set PATH_KEYS \<and> \<not> startsWith raw ''/'' then Inl (PathNotAbsolute key)
      else if key \<in> set PATH_KEYS \<and>
              \<not> list_ex (isPathWithin raw) [ep_console paths, ep_server paths, ep_data paths, ''/etc/letsencrypt'']
        then Inl (PathOutsideRoots key)
      else if key \<in> set PORT_KEYS \<and>
              \<not> (raw \<noteq> [] \<and> length raw \<le> 5 \<and> list_all is_digit raw \<and> nat_of_digits raw \<ge> 1 \<and> nat_of_digits raw \<le> 65535)
        then Inl (InvalidPort key)
      else if (case map_of ENUM_VALUES key of None \<Rightarrow> False | Some vs \<Rightarrow> raw \<notin> set vs) then Inl (InvalidValue key)
      else if key \<in> set BOOLEAN_KEYS \<and>
              js_lower raw \<notin> set [''true'', ''false'', ''1'', ''0'', ''yes'', ''no'', ''on'', ''off'', ''y'', ''n'']
        then Inl (InvalidBoolean key)
      else Inr raw)"

fun validate_entries :: "string list \<Rightarrow> env_paths \<Rightarrow> (string \<times> string) list \<Rightarrow> env_error + (string \<times> string) list" where
  "validate_entries allowed paths [] = Inr []"
| "validate_entries allowed paths ((k, v) # cs) =
     (case validateEnvKey allowed k of
        Inl e \<Rightarrow> Inl e
      | Inr _ \<Rightarrow>
          (case validateEnvValue paths k v of
             Inl e \<Rightarrow> Inl e
           | Inr raw \<Rightarrow>
               (case validate_entries allowed paths cs of Inl e \<Rightarrow> Inl e | Inr r \<Rightarrow> Inr ((k, raw) # r))))"

definition validateEnvChanges :: "string list \<Rightarrow> env_paths \<Rightarrow> (string \<times> string) list \<Rightarrow> env_error + (string \<times> string) list" where
  "validateEnvChanges allowed paths changes =
     (case validate_entries allowed paths changes of
        Inl e \<Rightarrow> Inl e
      | Inr v \<Rightarrow> if v = [] then Inl NoChanges else Inr v)"

definition readEnvFile :: "string option \<Rightarrow> string \<Rightarrow> string option" where
  "readEnvFile content =
     (case content of None \<Rightarrow> (\<lambda>_. None) | Some c \<Rightarrow> map_of (rev (List.map_filter match_env (split_lines c))))"

definition rewrite_line :: "(string \<times> string) list \<Rightarrow> string \<Rightarrow> string" where
  "rewrite_line validated line =
     (case match_env line of
        None \<Rightarrow> line
      | Some (k, v) \<Rightarrow> (case map_of validated k of None \<Rightarrow> line | Some new \<Rightarrow> k @ ''='' @ new))"

definition seen_keys :: "string list \<Rightarrow> string list" where
  "seen_keys ls = map fst (List.map_filter match_env ls)"

fun strip_trailing_nl :: "string \<Rightarrow> string" where
  "strip_trailing_nl s = rev (dropWhile (\<lambda>c. c = NL) (rev s))"

definition edited_text :: "(string \<times> string) list \<Rightarrow> string \<Rightarrow> string" where
  "edited_text validated existing =
     (let ls = (if existing = [] then [] else split_lines existing);
          output = map (rewrite_line validated) ls
            @ map (\<lambda>(k, v). k @ ''='' @ v) (filter (\<lambda>(k, v). k \<notin> set (seen_keys ls)) validated)
      in strip_trailing_nl (join_with [NL] output) @ [NL])"

text \<open>The files of the directory: the text by path.  The backup is written before the new text replaces
  the file.\<close>

definition applyEnvChanges ::
  "string list \<Rightarrow> env_paths \<Rightarrow> string \<Rightarrow> string \<Rightarrow> (string \<times> string) list \<Rightarrow> (string \<Rightarrow> string option)
     \<Rightarrow> (env_error + string) \<times> (string \<Rightarrow> string option)" where
  "applyEnvChanges allowed paths envPath stamp changes files =
     (case validateEnvChanges allowed paths changes of
        Inl e \<Rightarrow> (Inl e, files)
      | Inr validated \<Rightarrow>
          let existing = (case files envPath of None \<Rightarrow> [] | Some c \<Rightarrow> c);
              backup = envPath @ ''.bak.'' @ stamp
          in (Inr backup, files(backup \<mapsto> existing, envPath \<mapsto> edited_text validated existing)))"

definition restoreEnvBackup ::
  "string \<Rightarrow> string \<Rightarrow> (string \<Rightarrow> string option) \<Rightarrow> bool \<times> (string \<Rightarrow> string option)" where
  "restoreEnvBackup envPath backup files =
     (if \<not> startsWith backup (envPath @ ''.bak.'') \<or> resolve_abs backup \<noteq> backup \<or> files backup = None
      then (False, files)
      else (True, files(envPath := files backup)))"


section \<open>Reading a text line by line\<close>

text \<open>What both parsers do with a text: read every line, keep what the line says.\<close>

definition read_lines :: "(string \<Rightarrow> 'a option) \<Rightarrow> string \<Rightarrow> 'a list" where
  "read_lines rd s = List.map_filter rd (split_lines s)"

definition unlines :: "string list \<Rightarrow> string" where
  "unlines ls = concat (map (\<lambda>l. l @ [NL]) ls)"

lemma map_filter_append: "List.map_filter f (xs @ ys) = List.map_filter f xs @ List.map_filter f ys"
  by (simp add: List.map_filter_def)

text \<open>A line that survives being written and split again; a text all of whose lines do.\<close>

definition clean_line :: "string \<Rightarrow> bool" where
  "clean_line l = (NL \<notin> set l \<and> (l = [] \<or> last l \<noteq> CR))"

definition clean_text :: "string \<Rightarrow> bool" where
  "clean_text s = list_all clean_line (split_lines s)"

lemma NL_CR [simp]: "NL \<noteq> CR" "CR \<noteq> NL"
  by (simp_all add: NL_def CR_def)

lemma split_on_append: "split_on d (a @ d # b) = split_on d a @ split_on d b"
proof (induction a)
  case (Cons c a)
  then show ?case by (cases "split_on d a") auto
qed simp

lemma join_with_last: "ps \<noteq> [] \<Longrightarrow> \<exists>pre. join_with d ps = pre @ last ps"
proof (induction d ps rule: join_with.induct)
  case (3 d p q ps)
  then show ?case by (metis append_assoc join_with.simps(3) last_ConsR list.discI)
qed auto

lemma last_split_on: "last (split_on d s) = [] \<or> (s \<noteq> [] \<and> last (last (split_on d s)) = last s)"
proof -
  obtain pre where "s = pre @ last (split_on d s)"
    using join_with_last [of "split_on d s" "[d]"] join_split_on [of d s] by auto
  then show ?thesis by (metis append_is_Nil_conv last_appendR)
qed

lemma split_lines_clean: "s = [] \<or> last s \<noteq> CR \<Longrightarrow> split_lines s = map strip_cr (split_on NL s)"
proof -
  assume "s = [] \<or> last s \<noteq> CR"
  then have "strip_cr (last (split_on NL s)) = last (split_on NL s)"
    using last_split_on [of NL s] by (auto simp: strip_cr_def)
  moreover have "map strip_cr (split_on NL s)
      = map strip_cr (butlast (split_on NL s)) @ [strip_cr (last (split_on NL s))]"
    by (metis append_butlast_last_id list.simps(8) list.simps(9) map_append split_on_ne)
  ultimately show ?thesis by (simp add: split_lines_def Let_def)
qed

lemma split_lines_append: "split_lines (a @ NL # b) = map strip_cr (split_on NL a) @ split_lines b"
  by (simp add: split_lines_def split_on_append butlast_append Let_def)

lemma split_lines_nil [simp]: "split_lines [] = [[]]"
  by (simp add: split_lines_def)

lemma strip_cr_clean [simp]: "clean_line l \<Longrightarrow> strip_cr l = l"
  by (auto simp: strip_cr_def clean_line_def)

lemma split_lines_no_NL: "l \<in> set (split_lines s) \<Longrightarrow> NL \<notin> set l"
proof -
  have sub: "set (strip_cr p) \<subseteq> set p" for p by (auto simp: strip_cr_def dest: in_set_butlastD)
  have parts: "p \<in> set (split_on NL s) \<Longrightarrow> NL \<notin> set p" for p by (rule split_on_parts)
  assume "l \<in> set (split_lines s)"
  then consider p where "p \<in> set (split_on NL s)" "l = strip_cr p" | "l = last (split_on NL s)"
    by (auto simp: split_lines_def Let_def dest: in_set_butlastD)
  then show ?thesis using sub parts by cases (blast, simp)
qed

lemma clean_text_last: "clean_text s \<Longrightarrow> s = [] \<or> last s \<noteq> CR"
proof (rule ccontr)
  assume c: "clean_text s" and "\<not> (s = [] \<or> last s \<noteq> CR)"
  then have s: "s \<noteq> []" "last s = CR" by auto
  have "last (split_on NL s) \<noteq> []"
  proof
    assume "last (split_on NL s) = []"
    with s show False
    proof (induction s)
      case (Cons c s)
      then show ?case by (cases "split_on NL s") (auto split: if_splits)
    qed simp
  qed
  with s last_split_on [of NL s] have "last (last (split_on NL s)) = CR" by auto
  moreover have "last (split_on NL s) \<in> set (split_lines s)" by (simp add: split_lines_def Let_def)
  ultimately show False using c \<open>last (split_on NL s) \<noteq> []\<close>
    by (auto simp: clean_text_def list_all_iff clean_line_def)
qed

lemma join_clean_last:
  "list_all clean_line ls \<Longrightarrow> join_with [NL] ls = [] \<or> last (join_with [NL] ls) \<noteq> CR"
proof (induction "[NL]" ls rule: join_with.induct)
  case (3 p q ps)
  then show ?case by (cases "join_with [NL] (q # ps) = []") auto
qed (auto simp: clean_line_def)

locale line_reader =
  fixes rd :: "string \<Rightarrow> 'a option"
  assumes rd_empty: "rd [] = None"
begin

lemma read_nil [simp]: "read_lines rd [] = []"
  by (simp add: read_lines_def rd_empty map_filter_simps)

lemma read_append:
  assumes "a = [] \<or> last a \<noteq> CR"
  shows "read_lines rd (a @ NL # b) = read_lines rd a @ read_lines rd b"
  using split_lines_clean [OF assms]
  by (simp add: read_lines_def split_lines_append List.map_filter_def)

lemma read_end: "a = [] \<or> last a \<noteq> CR \<Longrightarrow> read_lines rd (a @ [NL]) = read_lines rd a"
  using read_append [of a "[]"] by simp

lemma read_end_replicate: "read_lines rd (a @ NL # replicate n NL) = read_lines rd (a @ [NL])"
proof (induction n)
  case (Suc n)
  have eq: "a @ NL # replicate (Suc n) NL = (a @ NL # replicate n NL) @ [NL]"
    by (simp add: replicate_append_same)
  have "last (a @ NL # replicate n NL) \<noteq> CR" by (cases n) auto
  then show ?case unfolding eq using Suc read_end [of "a @ NL # replicate n NL"] by metis
qed simp

lemma read_line: "clean_line l \<Longrightarrow> read_lines rd l = List.map_filter rd [l]"
  by (auto simp: read_lines_def split_lines_def clean_line_def split_on_no_sep)

lemma read_unlines:
  assumes "list_all clean_line ls"
  shows "read_lines rd (unlines ls) = List.map_filter rd ls"
  using assms
proof (induction ls)
  case (Cons l ls)
  then have c: "clean_line l" "l = [] \<or> last l \<noteq> CR" by (auto simp: clean_line_def)
  have "read_lines rd (unlines (l # ls)) = read_lines rd (l @ NL # unlines ls)" by (simp add: unlines_def)
  also have "\<dots> = List.map_filter rd [l] @ List.map_filter rd ls"
    using Cons read_append [OF c(2)] read_line [OF c(1)] by simp
  finally show ?case by (simp add: List.map_filter_def)
qed (simp add: unlines_def map_filter_simps)

lemma read_join:
  assumes "list_all clean_line ls"
  shows "read_lines rd (join_with [NL] ls) = List.map_filter rd ls"
  using assms
proof (induction "[NL]" ls rule: join_with.induct)
  case (3 p q ps)
  then have c: "clean_line p" "p = [] \<or> last p \<noteq> CR" by (auto simp: clean_line_def)
  have "read_lines rd (join_with [NL] (p # q # ps)) = List.map_filter rd [p] @ List.map_filter rd (q # ps)"
    using 3 read_append [OF c(2)] read_line [OF c(1)] by simp
  then show ?case by (simp add: List.map_filter_def)
qed (simp_all add: read_line map_filter_simps)

lemma read_strip_trailing:
  assumes "s = [] \<or> last s \<noteq> CR"
  shows "read_lines rd (strip_trailing_nl s @ [NL]) = read_lines rd s"
proof -
  have "rev (takeWhile (\<lambda>c. c = NL) (rev s)) = replicate (length (takeWhile (\<lambda>c. c = NL) (rev s))) NL"
    by (metis (mono_tags, lifting) replicate_length_same rev_replicate set_takeWhileD)
  then obtain n where n: "s = strip_trailing_nl s @ replicate n NL"
    by (metis rev_append rev_rev_ident strip_trailing_nl.simps takeWhile_dropWhile_id)
  show ?thesis
  proof (cases n)
    case 0
    with n have "strip_trailing_nl s = s" by simp
    then show ?thesis using read_end [OF assms] by simp
  next
    case (Suc m)
    with n have "s = strip_trailing_nl s @ NL # replicate m NL" by simp
    then show ?thesis by (metis read_end_replicate)
  qed
qed

end

interpretation pair_reader: line_reader "\<lambda>l. entry_pair (parse_line l)"
  by unfold_locales (simp add: parse_line_def js_trim_def)

interpretation env_reader: line_reader match_env
  by unfold_locales (simp add: match_env_def)

lemma pairs_parse: "pairs_of (parseEnvLines s) = read_lines (\<lambda>l. entry_pair (parse_line l)) s"
  by (simp add: pairs_of_def parseEnvLines_def read_lines_def List.map_filter_def filter_map comp_def)

lemma readEnvFile_lines: "readEnvFile (Some c) = map_of (rev (read_lines match_env c))"
  by (simp add: readEnvFile_def read_lines_def)


section \<open>Merging keeps what is configured\<close>

lemma js_trim_empty: "js_trim s = [] \<longleftrightarrow> dropWhile js_ws s = []"
proof -
  have "dropWhile js_ws s \<noteq> [] \<Longrightarrow> \<not> js_ws (hd (dropWhile js_ws s))" by (rule hd_dropWhile)
  then show ?thesis by (auto simp: js_trim_def dest: set_dropWhileD) (metis list.set_sel(1))
qed

lemma js_trim_same_hd: "js_trim s \<noteq> [] \<Longrightarrow> hd (js_trim s) = hd (dropWhile js_ws s)"
proof -
  assume ne: "js_trim s \<noteq> []"
  obtain r where "dropWhile js_ws s = js_trim s @ r"
    unfolding js_trim_def by (metis rev_append rev_rev_ident takeWhile_dropWhile_id)
  with ne show ?thesis by simp
qed

lemma trim_comment: "startsWith (js_trim s) ''#'' \<longleftrightarrow> dropWhile js_ws s \<noteq> [] \<and> hd (dropWhile js_ws s) = CHR ''#''"
  using js_trim_same_hd [of s] js_trim_empty [of s]
  by (cases "js_trim s") (auto simp: startsWith_def)

lemma dropWhile_ws_append: "js_trim a \<noteq> [] \<Longrightarrow> dropWhile js_ws (a @ b) = dropWhile js_ws a @ b"
  by (auto simp: js_trim_empty)

lemma list_all_not_mem: "d \<notin> set xs \<Longrightarrow> list_all (\<lambda>c. c \<noteq> d) xs"
  by (induction xs) auto

lemma takeWhile_dropWhile_keys:
  assumes "list_all P k" "\<not> P c"
  shows "takeWhile P (k @ c # r) = k" "dropWhile P (k @ c # r) = c # r"
  using assms by (induction k) auto

lemma after_eq_sep: "CHR ''='' \<notin> set b \<Longrightarrow> after_eq (b @ CHR ''='' # v) = (b, v)"
  using list_all_not_mem [of "CHR ''=''" b] by (simp add: after_eq_def takeWhile_dropWhile_keys)

lemma parse_pair_iff:
  "entry_pair (parse_line raw) = Some (k, v) \<longleftrightarrow>
     (\<exists>before. raw = before @ CHR ''='' # v \<and> CHR ''='' \<notin> set before \<and> k = js_trim before \<and> k \<noteq> []
        \<and> hd k \<noteq> CHR ''#'')"
proof (cases "CHR ''='' \<in> set raw")
  case False
  then show ?thesis by (auto simp: parse_line_def Let_def)
next
  case True
  then obtain before rest where raw: "raw = before @ CHR ''='' # rest" "CHR ''='' \<notin> set before"
    by (meson split_list_first)
  then have ae: "after_eq raw = (before, rest)" by (simp add: after_eq_sep)
  have uniq: "before' @ CHR ''='' # v = raw \<Longrightarrow> CHR ''='' \<notin> set before' \<Longrightarrow> before' = before \<and> v = rest"
    for before' using ae after_eq_sep [of before' v] by auto
  show ?thesis
  proof (cases "js_trim before = []")
    case True
    with ae uniq show ?thesis by (auto simp: parse_line_def Let_def)
  next
    case ne: False
    then have dw: "dropWhile js_ws raw = dropWhile js_ws before @ CHR ''='' # rest" "dropWhile js_ws before \<noteq> []"
      unfolding raw(1) using dropWhile_ws_append [OF ne] js_trim_empty by auto
    then have "js_trim raw \<noteq> []" by (simp add: js_trim_empty)
    moreover have "startsWith (js_trim raw) ''#'' \<longleftrightarrow> hd (js_trim before) = CHR ''#''"
      using dw js_trim_same_hd [OF ne] by (simp add: trim_comment)
    moreover have "CHR ''='' \<in> set raw" by (simp add: raw(1))
    ultimately have "entry_pair (parse_line raw) = (if hd (js_trim before) = CHR ''#'' then None else Some (js_trim before, rest))"
      unfolding parse_line_def Let_def ae fst_conv snd_conv using ne by simp
    then have "?thesis \<longleftrightarrow> ((hd (js_trim before) \<noteq> CHR ''#'' \<and> js_trim before = k \<and> rest = v) \<longleftrightarrow>
        (\<exists>b. raw = b @ CHR ''='' # v \<and> CHR ''='' \<notin> set b \<and> k = js_trim b \<and> k \<noteq> [] \<and> hd k \<noteq> CHR ''#''))"
      by simp
    then show ?thesis using raw uniq ne by blast
  qed
qed

lemma reparse_pair:
  assumes "entry_pair (parse_line raw) = Some (k, v)"
  shows "entry_pair (parse_line (k @ ''='' @ v)) = Some (k, v)"
    and "clean_line raw \<Longrightarrow> clean_line (k @ ''='' @ v)"
proof -
  obtain before where b: "raw = before @ CHR ''='' # v" "CHR ''='' \<notin> set before" "k = js_trim before" "k \<noteq> []"
      "hd k \<noteq> CHR ''#''"
    using assms unfolding parse_pair_iff by blast
  have sub: "set k \<subseteq> set before" unfolding b(3) by (rule set_js_trim)
  with b show "entry_pair (parse_line (k @ ''='' @ v)) = Some (k, v)"
    unfolding parse_pair_iff by (intro exI [of _ k]) auto
  assume "clean_line raw"
  with b sub show "clean_line (k @ ''='' @ v)" by (auto simp: clean_line_def split: if_splits)
qed

lemma parse_pair_value: "parse_line raw = EPair k v r \<Longrightarrow> entry_pair (parse_line raw) = Some (k, v) \<and> r = raw"
  by (auto simp: parse_line_def Let_def split: if_splits)

lemma parse_not_pair: "entry_pair (parse_line raw) = None \<Longrightarrow> entry_raw (parse_line raw) = raw"
  by (auto simp: parse_line_def Let_def split: if_splits)

text \<open>The lines the loop appends: the template's missing pairs, with the comments that precede them.\<close>

lemma merge_fold:
  assumes "list_all clean_line ls" "ms_pending st = unlines P" "list_all clean_line P"
    "List.map_filter (\<lambda>l. entry_pair (parse_line l)) P = []"
  shows "\<exists>L. ms_content (fold (merge_step E) (map parse_line ls) st) = ms_content st @ unlines L
    \<and> list_all clean_line L
    \<and> List.map_filter (\<lambda>l. entry_pair (parse_line l)) L
        = filter (\<lambda>(k, v). E k = None) (List.map_filter (\<lambda>l. entry_pair (parse_line l)) ls)"
  using assms
proof (induction ls arbitrary: st P)
  case Nil
  then show ?case by (intro exI [of _ "[]"]) (simp add: unlines_def map_filter_simps)
next
  case (Cons l ls)
  let ?f = "\<lambda>l. entry_pair (parse_line l)"
  have c: "clean_line l" "list_all clean_line ls" using Cons.prems by auto
  consider (other) "?f l = None" | (pair) k v where "?f l = Some (k, v)" by (metis option.exhaust surj_pair)
  then show ?case
  proof cases
    case other
    then have step: "merge_step E (parse_line l) st = st\<lparr>ms_pending := unlines (P @ [l])\<rparr>"
      using Cons.prems(2) parse_not_pair [OF other]
      by (cases "parse_line l") (auto simp: merge_step_def unlines_def)
    show ?thesis
      using Cons.IH [of "st\<lparr>ms_pending := unlines (P @ [l])\<rparr>" "P @ [l]"] c Cons.prems other step
      by (simp add: List.map_filter_def)
  next
    case pair
    then have pl: "parse_line l = EPair k v l"
      by (cases "parse_line l") (auto dest: parse_pair_value)
    show ?thesis
    proof (cases "E k = None")
      case False
      then have "merge_step E (parse_line l) st = st" by (simp add: merge_step_def pl)
      moreover have "\<not> (E k = None)" by (rule False)
      ultimately show ?thesis using Cons.IH [of st P] c Cons.prems pair by (simp add: map_filter_simps del: not_None_eq)
    next
      case True
      define st' where "st' = merge_step E (parse_line l) st"
      have st': "ms_content st' = ms_content st @ unlines (P @ [k @ ''='' @ v])" "ms_pending st' = unlines []"
        using True Cons.prems(2) by (simp_all add: st'_def merge_step_def pl unlines_def)
      obtain L where L: "ms_content (fold (merge_step E) (map parse_line ls) st') = ms_content st' @ unlines L"
          "list_all clean_line L" "List.map_filter ?f L = filter (\<lambda>(k, v). E k = None) (List.map_filter ?f ls)"
        using Cons.IH [of st' "[]"] c st'(2) by (auto simp: map_filter_simps)
      show ?thesis
        using L st'(1) Cons.prems reparse_pair [OF pair] c(1) True pair
        by (intro exI [of _ "P @ [k @ ''='' @ v] @ L"])
           (simp add: unlines_def st'_def [symmetric] List.map_filter_def)
    qed
  qed
qed

lemma map_of_missing:
  "map_of (filter (\<lambda>(k, v). E k = None) xs) k = (if E k = None then map_of xs k else None)"
  by (induction xs) auto

lemma template_lines_clean: "clean_text t \<Longrightarrow> list_all clean_line (split_lines t)"
  by (simp add: clean_text_def)

text \<open>updating a configuration never changes a setting: after merging a template into an existing
  file, every key of the old file reads as before and every other key of the template reads as the
  template says.
\<close>

theorem merge_keeps_settings:
  assumes "existingContent = [] \<or> last existingContent \<noteq> CR" and "clean_text templateContent"
  shows "env_map (parseEnvLines (fst (mergeEnv existingContent templateContent)))
       = env_map (parseEnvLines templateContent) ++ env_map (parseEnvLines existingContent)"
proof -
  let ?f = "\<lambda>l. entry_pair (parse_line l)"
  let ?E = "env_map (parseEnvLines existingContent)"
  let ?base = "if existingContent \<noteq> [] \<and> last existingContent \<noteq> NL then existingContent @ [NL] else existingContent"
  obtain L where L: "fst (mergeEnv existingContent templateContent) = ?base @ unlines L" "list_all clean_line L"
      "List.map_filter ?f L = filter (\<lambda>(k, v). ?E k = None) (List.map_filter ?f (split_lines templateContent))"
    using merge_fold [OF template_lines_clean [OF assms(2)], of "\<lparr>ms_content = ?base, ms_pending = [], ms_added = []\<rparr>" "[]" ?E]
    by (auto simp: mergeEnv_def Let_def parseEnvLines_def unlines_def map_filter_simps)
  have base: "read_lines ?f (?base @ unlines L) = read_lines ?f existingContent @ read_lines ?f (unlines L)"
  proof (cases "existingContent = [] \<or> last existingContent \<noteq> NL")
    case True
    then show ?thesis using pair_reader.read_append [OF assms(1)] by auto
  next
    case False
    then obtain a where a: "existingContent = a @ [NL]" by (metis append_butlast_last_id)
    then show ?thesis
      by (simp add: read_lines_def split_lines_append List.map_filter_def pair_reader.rd_empty)
  qed
  have "read_lines ?f (fst (mergeEnv existingContent templateContent))
      = read_lines ?f existingContent @ filter (\<lambda>(k, v). ?E k = None) (read_lines ?f templateContent)"
    using L base pair_reader.read_unlines [OF L(2)] by (simp add: read_lines_def)
  then show ?thesis
    by (auto simp: env_map_def pairs_parse rev_filter map_of_missing map_add_def fun_eq_iff split: option.splits)
qed

theorem merge_keeps_settings_witness:
  "env_map (parseEnvLines (fst (mergeEnv ''PORT=1'' ''HOST=h''))) ''PORT'' = Some ''1''"
proof -
  have "clean_text ''HOST=h''" by code_simp
  moreover have "last ''PORT=1'' \<noteq> CR" by code_simp
  ultimately have "env_map (parseEnvLines (fst (mergeEnv ''PORT=1'' ''HOST=h''))) ''PORT''
      = (env_map (parseEnvLines ''HOST=h'') ++ env_map (parseEnvLines ''PORT=1'')) ''PORT''"
    using merge_keeps_settings [of "''PORT=1''" "''HOST=h''"] by simp
  also have "\<dots> = Some ''1''" by code_simp
  finally show ?thesis .
qed


section \<open>Editing reads back\<close>

definition env_key :: "string \<Rightarrow> bool" where
  "env_key k = (k \<noteq> [] \<and> is_upper_az (hd k) \<and> list_all key_char k)"

lemma key_char_plain: "key_char c \<Longrightarrow> \<not> js_ws c \<and> c \<noteq> CHR ''='' \<and> \<not> line_end c"
  by (auto simp: key_char_def line_end_def NL_def CR_def is_upper_az_def is_digit_def js_ws_def)

lemma match_env_pair:
  assumes "env_key k" "list_all (\<lambda>c. \<not> line_end c) v"
  shows "match_env (k @ ''='' @ v) = Some (k, v)" and "clean_line (k @ ''='' @ v)"
proof -
  have k: "k \<noteq> []" "is_upper_az (hd k)" "list_all key_char k" using assms(1) by (auto simp: env_key_def)
  then have "\<not> js_ws (hd k)" using key_char_plain by (cases k) auto
  with k(1) have "dropWhile js_ws (k @ ''='' @ v) = k @ CHR ''='' # v" by (cases k) auto
  moreover have "\<not> key_char CHR ''=''" using key_char_plain by blast
  ultimately show "match_env (k @ ''='' @ v) = Some (k, v)"
    using k assms(2) by (simp add: match_env_def Let_def takeWhile_dropWhile_keys)
  have le: "list_all (\<lambda>c. \<not> line_end c) (k @ ''='' @ v)"
  proof -
    have "list_all (\<lambda>c. \<not> line_end c) k" using k(3) key_char_plain by (auto simp: list_all_iff)
    moreover have "\<not> line_end CHR ''=''" by (simp add: line_end_def NL_def CR_def)
    ultimately show ?thesis using assms(2) by simp
  qed
  moreover have "last (k @ ''='' @ v) \<in> set (k @ ''='' @ v)" by (rule last_in_set) simp
  ultimately show "clean_line (k @ ''='' @ v)" unfolding clean_line_def list_all_iff line_end_def by blast
qed

lemma parseEnvKeys_key: "k \<in> set (parseEnvKeys example) \<Longrightarrow> env_key k"
proof -
  have "match_example l = Some k \<Longrightarrow> env_key k" for l
    by (auto simp: match_example_def env_key_def Let_def list_all_iff dest: set_takeWhileD split: if_splits)
  then show "k \<in> set (parseEnvKeys example) \<Longrightarrow> env_key k"
    by (auto simp: parseEnvKeys_def List.map_filter_def split: option.splits)
qed

lemma validateEnvValue_plain:
  "validateEnvValue paths k v = Inr r \<Longrightarrow> r = v \<and> list_all (\<lambda>c. \<not> line_end c) v"
  by (auto simp: validateEnvValue_def list_all_iff list_ex_iff split: if_splits)

lemma validate_entries_ok:
  "validate_entries allowed paths cs = Inr r
     \<Longrightarrow> r = cs \<and> list_all (\<lambda>(k, v). k \<in> set allowed \<and> validateEnvValue paths k v = Inr v) cs"
proof (induction cs arbitrary: r)
  case (Cons c cs)
  obtain k v where c: "c = (k, v)" by (cases c)
  from Cons.prems obtain raw r' where
    "k \<in> set allowed" "validateEnvValue paths k v = Inr raw" "validate_entries allowed paths cs = Inr r'"
    "r = (k, raw) # r'"
    by (auto simp: c validateEnvKey_def split: if_splits sum.splits)
  with Cons.IH [of r'] show ?case using validateEnvValue_plain [of paths k v raw] by (auto simp: c)
qed simp

lemma rewrite_line_match:
  assumes "list_all (\<lambda>(k, v). env_key k \<and> list_all (\<lambda>c. \<not> line_end c) v) new"
  shows "match_env (rewrite_line new l)
       = map_option (\<lambda>(k, v). (k, case map_of new k of None \<Rightarrow> v | Some n \<Rightarrow> n)) (match_env l)"
    and "clean_line l \<Longrightarrow> clean_line (rewrite_line new l)"
proof -
  have new: "env_key k \<and> list_all (\<lambda>c. \<not> line_end c) n" if "map_of new k = Some n" for k n
    using assms map_of_SomeD [OF that] by (auto simp: list_all_iff)
  show "match_env (rewrite_line new l)
       = map_option (\<lambda>(k, v). (k, case map_of new k of None \<Rightarrow> v | Some n \<Rightarrow> n)) (match_env l)"
    using new match_env_pair(1) by (auto simp: rewrite_line_def split: option.splits)
  show "clean_line l \<Longrightarrow> clean_line (rewrite_line new l)"
    using new match_env_pair(2) by (auto simp: rewrite_line_def split: option.splits)
qed

lemma map_of_rewritten:
  "map_of (map (\<lambda>(k, v). (k, case f k of None \<Rightarrow> v | Some n \<Rightarrow> n)) xs) k
     = (case f k of None \<Rightarrow> map_of xs k | Some n \<Rightarrow> if k \<in> fst ` set xs then Some n else None)"
  by (induction xs) (auto split: option.splits)

lemma map_of_unseen:
  "map_of (filter (\<lambda>(k, v). k \<notin> A) xs) k = (if k \<in> A then None else map_of xs k)"
  by (induction xs) auto

lemma map_of_rev_distinct: "distinct (map fst xs) \<Longrightarrow> map_of (rev xs) = map_of xs"
proof (induction xs)
  case (Cons x xs)
  then have "fst x \<notin> dom (map_of xs)" by (simp add: dom_map_of_conv_image_fst)
  with Cons show ?case by (simp add: map_add_upd_left) 
qed simp

lemma map_of_edited:
  assumes "distinct (map fst new)"
  shows "map_of (rev (map (\<lambda>(k, v). (k, case map_of new k of None \<Rightarrow> v | Some n \<Rightarrow> n)) old
                       @ filter (\<lambda>(k, v). k \<notin> set (map fst old)) new)) k
       = (map_of (rev old) ++ map_of new) k"
proof -
  let ?rest = "filter (\<lambda>(k, v). k \<notin> set (map fst old)) new"
  have rest: "map_of (rev ?rest) k = (if k \<in> set (map fst old) then None else map_of new k)"
    using map_of_unseen [of "set (map fst old)" "rev new" k] map_of_rev_distinct [OF assms]
    by (simp add: rev_filter)
  show ?thesis
  proof (cases "k \<in> set (map fst old)")
    case True
    then show ?thesis using rest
      by (auto simp: map_add_def rev_map map_of_rewritten split: option.splits)
  next
    case False
    then have "map_of (rev old) k = None" by (simp add: map_of_eq_None_iff)
    with False rest show ?thesis
      by (simp add: map_add_def rev_map map_of_rewritten split: option.splits)
  qed
qed

lemma map_filter_rewrite:
  "List.map_filter match_env (map (rewrite_line new) ls)
     = map (\<lambda>(k, v). (k, case map_of new k of None \<Rightarrow> v | Some n \<Rightarrow> n)) (List.map_filter match_env ls)"
  if "list_all (\<lambda>(k, v). env_key k \<and> list_all (\<lambda>c. \<not> line_end c) v) new"
  by (induction ls) (auto simp: map_filter_simps rewrite_line_match(1) [OF that] split: option.splits)

lemma map_filter_pairs:
  "list_all (\<lambda>(k, v). env_key k \<and> list_all (\<lambda>c. \<not> line_end c) v) new
     \<Longrightarrow> List.map_filter match_env (map (\<lambda>(k, v). k @ ''='' @ v) new) = new
        \<and> list_all clean_line (map (\<lambda>(k, v). k @ ''='' @ v) new)"
proof (induction new)
  case (Cons c cs)
  obtain k v where c: "c = (k, v)" by (cases c)
  with Cons show ?case using match_env_pair [of k v] by (simp add: map_filter_simps)
qed (simp add: map_filter_simps)

lemma edited_text_reads:
  assumes new: "list_all (\<lambda>(k, v). env_key k \<and> list_all (\<lambda>c. \<not> line_end c) v) new"
    and "distinct (map fst new)" and "clean_text existing"
  shows "readEnvFile (Some (edited_text new existing)) = readEnvFile (Some existing) ++ map_of new"
proof -
  define ls where "ls = (if existing = [] then [] else split_lines existing)"
  define add where "add = filter (\<lambda>(k, v). k \<notin> set (map fst (read_lines match_env existing))) new"
  have old: "List.map_filter match_env ls = read_lines match_env existing"
    by (simp add: ls_def read_lines_def env_reader.rd_empty map_filter_simps)
  have add: "list_all (\<lambda>(k, v). env_key k \<and> list_all (\<lambda>c. \<not> line_end c) v) add"
    using new by (auto simp: add_def list_all_iff)
  let ?out = "map (rewrite_line new) ls @ map (\<lambda>(k, v). k @ ''='' @ v) add"
  have cl: "list_all clean_line ls" using assms(3) by (simp add: ls_def clean_text_def)
  then have "list_all clean_line (map (rewrite_line new) ls)"
    using rewrite_line_match(2) [OF new] by (simp add: list_all_iff)
  then have clean: "list_all clean_line ?out" using map_filter_pairs [OF add] by simp
  note strip = env_reader.read_strip_trailing [OF join_clean_last [OF clean]]
  have "edited_text new existing = strip_trailing_nl (join_with [NL] ?out) @ [NL]"
    by (simp add: edited_text_def Let_def ls_def [symmetric] seen_keys_def old add_def)
  then have "read_lines match_env (edited_text new existing) = List.map_filter match_env ?out"
    using strip env_reader.read_join [OF clean] by simp
  also have "\<dots> = map (\<lambda>(k, v). (k, case map_of new k of None \<Rightarrow> v | Some n \<Rightarrow> n)) (read_lines match_env existing) @ add"
    using map_filter_rewrite [OF new, of ls] map_filter_pairs [OF add] old by (simp only: map_filter_append simp_thms)
  finally show ?thesis
    unfolding readEnvFile_lines add_def by (intro ext) (simp only: map_of_edited [OF assms(2)])
qed


section \<open>Paths stay within the roots\<close>

lemma norm_parts_subset: "set (norm_parts acc ps) \<subseteq> set acc \<union> {q \<in> set ps. q \<noteq> []}"
proof (induction acc ps rule: norm_parts.induct)
  case (2 acc p ps)
  have "set (tl acc) \<subseteq> set acc" by (cases acc) auto
  with 2 show ?case by auto
qed simp

lemma path_parts_ok: "p \<in> set (path_parts s) \<Longrightarrow> p \<noteq> [] \<and> CHR ''/'' \<notin> set p"
  using norm_parts_subset [of "[]" "split_on CHR ''/'' s"] split_on_parts [of p "CHR ''/''" s]
  by (auto simp: path_parts_def)

lemma split_join_parts: "path_parts s \<noteq> [] \<Longrightarrow> split_on CHR ''/'' (join_with ''/'' (path_parts s)) = path_parts s"
  using path_parts_ok by (intro split_join) auto

lemma join_parts_empty: "join_with ''/'' (path_parts s) = [] \<Longrightarrow> path_parts s = []"
proof (rule ccontr)
  assume "join_with ''/'' (path_parts s) = []" "path_parts s \<noteq> []"
  then have "path_parts s = [[]]" using split_join_parts [of s] by simp
  then show False using path_parts_ok [of "[]" s] by simp
qed

text \<open>A path the textual test accepts lies below the root, component by component.\<close>

lemma isPathWithin_prefix:
  assumes "isPathWithin candidate root"
  shows "prefix (path_parts root) (path_parts candidate)"
proof (cases "path_parts root = []")
  case False
  let ?jc = "join_with ''/'' (path_parts candidate)" and ?jr = "join_with ''/'' (path_parts root)"
  from assms consider "?jc = ?jr" | r where "?jc = ?jr @ CHR ''/'' # r"
    by (auto simp: isPathWithin_def resolve_abs_def startsWith_iff)
  then show ?thesis
  proof cases
    case 1
    then show ?thesis using False join_parts_empty split_join_parts by (metis join_with.simps(1) prefix_order.refl)
  next
    case 2
    then have "path_parts candidate \<noteq> []" by auto
    then have "path_parts candidate = split_on CHR ''/'' (?jr @ CHR ''/'' # r)" using split_join_parts 2 by metis
    then show ?thesis using split_join_parts [OF False] by (simp add: split_on_append)
  qed
qed simp

definition env_roots :: "env_paths \<Rightarrow> string list" where
  "env_roots paths = [ep_console paths, ep_server paths, ep_data paths, ''/etc/letsencrypt'']"

lemma validateEnvValue_path:
  "validateEnvValue paths k v = Inr v \<Longrightarrow> k \<in> set PATH_KEYS
     \<Longrightarrow> list_ex (\<lambda>root. prefix (path_parts root) (path_parts v)) (env_roots paths)"
proof -
  assume v: "validateEnvValue paths k v = Inr v" and k: "k \<in> set PATH_KEYS"
  have "list_ex (isPathWithin v) (env_roots paths)"
    using v k unfolding validateEnvValue_def env_roots_def by (auto split: if_splits)
  then show ?thesis using isPathWithin_prefix by (auto simp: list_ex_iff)
qed

lemma applyEnvChanges_ok:
  assumes "applyEnvChanges allowed paths envPath stamp changes files = (Inr backup, files')"
  shows "list_all (\<lambda>(k, v). k \<in> set allowed \<and> validateEnvValue paths k v = Inr v) changes"
    and "backup = envPath @ ''.bak.'' @ stamp"
    and "files' = files(backup \<mapsto> (case files envPath of None \<Rightarrow> [] | Some c \<Rightarrow> c),
                        envPath \<mapsto> edited_text changes (case files envPath of None \<Rightarrow> [] | Some c \<Rightarrow> c))"
proof -
  from assms obtain validated where v: "validateEnvChanges allowed paths changes = Inr validated"
    by (auto simp: applyEnvChanges_def Let_def split: sum.splits)
  then have e: "validate_entries allowed paths changes = Inr validated"
    by (auto simp: validateEnvChanges_def split: sum.splits if_splits)
  from validate_entries_ok [OF e] show
    "list_all (\<lambda>(k, v). k \<in> set allowed \<and> validateEnvValue paths k v = Inr v) changes" by blast
  have vc: "validated = changes" using validate_entries_ok [OF e] by blast
  show "backup = envPath @ ''.bak.'' @ stamp"
    "files' = files(backup \<mapsto> (case files envPath of None \<Rightarrow> [] | Some c \<Rightarrow> c),
                        envPath \<mapsto> edited_text changes (case files envPath of None \<Rightarrow> [] | Some c \<Rightarrow> c))"
    using assms v unfolding applyEnvChanges_def Let_def vc by auto
qed

text \<open>C39: An edit from the panel that is accepted takes effect and nothing else changes, if the edited keys are distinct
  and the file is of clean text: no line has a carriage return at its end apart from the one of a CR LF line ending.
  The file read back has the new values for the edited keys and the old values for all others.  A new value of one of
  the nine keys in \<open>PATH_KEYS\<close> is one of the installation's roots or lies below one, by the components of the path;
  other keys whose value happens to be a path are not confined.  If the path of the backup is a normalised absolute
  path, restoring the backup brings the old text back.\<close>

theorem env_edit_reads_back:
  assumes "applyEnvChanges (parseEnvKeys example) paths envPath stamp changes files = (Inr backup, files')"
    and "distinct (map fst changes)" and "clean_text (case files envPath of None \<Rightarrow> [] | Some c \<Rightarrow> c)"
  shows "readEnvFile (files' envPath) = readEnvFile (files envPath) ++ map_of changes
    \<and> (\<forall>k v. map_of changes k = Some v \<longrightarrow> k \<in> set PATH_KEYS
          \<longrightarrow> list_ex (\<lambda>root. prefix (path_parts root) (path_parts v)) (env_roots paths))
    \<and> (resolve_abs backup = backup
          \<longrightarrow> restoreEnvBackup envPath backup files'
              = (True, files'(envPath \<mapsto> (case files envPath of None \<Rightarrow> [] | Some c \<Rightarrow> c))))"
proof (intro conjI impI allI)
  let ?old = "case files envPath of None \<Rightarrow> [] | Some c \<Rightarrow> c"
  note ok = applyEnvChanges_ok [OF assms(1)]
  have "list_all (\<lambda>(k, v). env_key k \<and> list_all (\<lambda>c. \<not> line_end c) v) changes"
    using ok(1) parseEnvKeys_key validateEnvValue_plain by (fastforce simp: list_all_iff)
  then have "readEnvFile (Some (edited_text changes ?old)) = readEnvFile (Some ?old) ++ map_of changes"
    by (rule edited_text_reads [OF _ assms(2,3)])
  moreover have "readEnvFile (Some ?old) = readEnvFile (files envPath)"
    by (cases "files envPath") (simp_all add: readEnvFile_def env_reader.rd_empty map_filter_simps)
  ultimately show "readEnvFile (files' envPath) = readEnvFile (files envPath) ++ map_of changes"
    using ok(3) by simp
  show "list_ex (\<lambda>root. prefix (path_parts root) (path_parts v)) (env_roots paths)"
    if "map_of changes k = Some v" "k \<in> set PATH_KEYS" for k v
    using ok(1) map_of_SomeD [OF that(1)] validateEnvValue_path [OF _ that(2)] by (auto simp: list_all_iff)
  assume "resolve_abs backup = backup"
  then show "restoreEnvBackup envPath backup files' = (True, files'(envPath \<mapsto> ?old))"
    using ok(2,3) startsWith_append [of "envPath @ ''.bak.''" stamp] by (simp add: restoreEnvBackup_def)
qed

theorem env_edit_reads_back_witness:
  "readEnvFile (snd (applyEnvChanges (parseEnvKeys (Some ''HOST=a'')) \<lparr>ep_console = ''/c'', ep_server = ''/s'', ep_data = ''/d''\<rparr>
      ''/c/.env'' ''t'' [(''HOST'', ''b'')] [''/c/.env'' \<mapsto> ''PORT=1'']) ''/c/.env'') ''PORT'' = Some ''1''"
proof -
  let ?r = "applyEnvChanges (parseEnvKeys (Some ''HOST=a'')) \<lparr>ep_console = ''/c'', ep_server = ''/s'', ep_data = ''/d''\<rparr>
      ''/c/.env'' ''t'' [(''HOST'', ''b'')] [''/c/.env'' \<mapsto> ''PORT=1'']"
  have ok: "fst ?r = Inr ''/c/.env.bak.t''" by code_simp
  have "?r = (Inr ''/c/.env.bak.t'', snd ?r)" using ok by (metis prod.collapse)
  moreover have "clean_text ''PORT=1''" by code_simp
  moreover have "distinct (map fst [(''HOST'', ''b'')])" by simp
  ultimately have e: "readEnvFile (snd ?r ''/c/.env'')
      = readEnvFile ([''/c/.env'' \<mapsto> ''PORT=1''] ''/c/.env'') ++ map_of [(''HOST'', ''b'')]"
    using conjunct1 [OF env_edit_reads_back [of "Some ''HOST=a''" "\<lparr>ep_console = ''/c'', ep_server = ''/s'', ep_data = ''/d''\<rparr>"
        "''/c/.env''" "''t''" "[(''HOST'', ''b'')]" "[''/c/.env'' \<mapsto> ''PORT=1'']" "''/c/.env.bak.t''" "snd ?r"]]
    by (simp only: fun_upd_same option.case)
  show ?thesis unfolding e by code_simp
qed

end
