(* ===== verification/Relay_Frames.thy ===== *)
theory Relay_Frames
  imports BD_Prelude "HOL-Library.Word"
begin

text \<open>
  The framing of the RustDesk relay protocol in \<open>src/web-nodejs/services/wsRelay.js\<close>: a header of one
  to four bytes, little endian, whose two lowest bits give its own length and whose other bits give
  the length of the payload.  \<open>encodeRelayFrame\<close> writes a frame, the decoder cuts a stream of chunks
  into payloads.  The decoder keeps a buffer that is longer than its data; fresh memory
  (\<open>Buffer.allocUnsafe\<close>) has unspecified contents, so the allocator is an argument.

  The specification is \<open>parse\<close>, which cuts a complete byte list.  The decoder refines it: whatever
  the chunks and whatever the allocator puts into fresh memory, it yields the payloads of the
  concatenated stream and keeps its unfinished rest.
\<close>

unbundle bit_operations_syntax

type_synonym byte = "8 word"

section \<open>Encoding\<close>

definition MAX_RELAY_FRAME_SIZE :: nat where
  "MAX_RELAY_FRAME_SIZE = 64 * 1024 * 1024"

datatype frame_error =
    InvalidFrameSize nat
  | BufferExceedsMaximum
  | InvalidPayloadLength nat

definition le_bytes :: "nat \<Rightarrow> 32 word \<Rightarrow> byte list" where
  "le_bytes n v = map (\<lambda>i. ucast (drop_bit (8 * i) v)) [0..<n]"

text \<open>Shifts and the bitwise or of JavaScript work on 32 bits.\<close>

definition frame_header :: "nat \<Rightarrow> byte list" where
  "frame_header len =
     (let n = (of_nat len :: 32 word) in
      if len \<le> 0x3F then le_bytes 1 (push_bit 2 n)
      else if len \<le> 0x3FFF then le_bytes 2 (push_bit 2 n OR 1)
      else if len \<le> 0x3FFFFF then le_bytes 3 (n * 4 + 2)
      else le_bytes 4 (n * 4 + 3))"

definition encodeRelayFrame :: "byte list \<Rightarrow> frame_error + byte list" where
  "encodeRelayFrame payload =
     (if length payload > MAX_RELAY_FRAME_SIZE then Inl (InvalidFrameSize (length payload))
      else Inr (frame_header (length payload) @ payload))"


section \<open>The decoder\<close>

record decoder =
  dc_buffer :: "byte list"
  dc_len :: nat

definition new_decoder :: decoder where
  "new_decoder = \<lparr>dc_buffer = [], dc_len = 0\<rparr>"

definition header_len :: "byte \<Rightarrow> nat" where
  "header_len b = unat (b AND 3) + 1"

text \<open>The loop that adds up the header bytes.\<close>

definition encoded_at :: "byte list \<Rightarrow> nat \<Rightarrow> nat \<Rightarrow> nat" where
  "encoded_at buf off h = (\<Sum>i\<leftarrow>[0..<h]. unat (buf ! (off + i)) * 2 ^ (8 * i))"

text \<open>\<open>buffer.copy\<close> onto a position of another buffer.\<close>

definition copy_at :: "byte list \<Rightarrow> nat \<Rightarrow> byte list \<Rightarrow> byte list" where
  "copy_at dst off src = take off dst @ src @ drop (off + length src) dst"

text \<open>The loop over the complete frames: their payloads and the offset behind them.\<close>

function scan :: "byte list \<Rightarrow> nat \<Rightarrow> nat \<Rightarrow> frame_error + byte list list \<times> nat" where
  "scan buf dataLen offset =
     (if offset < dataLen then
        let h = header_len (buf ! offset) in
        if dataLen - offset < h then Inr ([], offset)
        else let payloadLen = encoded_at buf offset h div 4 in
          if payloadLen > MAX_RELAY_FRAME_SIZE then Inl (InvalidPayloadLength payloadLen)
          else if dataLen - offset - h < payloadLen then Inr ([], offset)
          else case scan buf dataLen (offset + h + payloadLen) of
            Inl e \<Rightarrow> Inl e
          | Inr (fs, o') \<Rightarrow> Inr (take payloadLen (drop (offset + h) buf) # fs, o')
      else Inr ([], offset))"
  by pat_completeness auto
termination
  by (relation "measure (\<lambda>(buf, dataLen, offset). dataLen - offset)") (auto simp: header_len_def)

declare scan.simps [simp del]

definition feed :: "(nat \<Rightarrow> byte list) \<Rightarrow> byte list \<Rightarrow> decoder \<Rightarrow> (frame_error + byte list list) \<times> decoder" where
  "feed alloc incoming d =
     (let needed = dc_len d + length incoming in
      if needed > MAX_RELAY_FRAME_SIZE + 4 then (Inl BufferExceedsMaximum, d)
      else
        let b1 = (if needed > length (dc_buffer d)
                  then copy_at (alloc (min (MAX_RELAY_FRAME_SIZE + 4)
                                         (max needed (max (length (dc_buffer d) * 2) 4096))))
                         0 (take (dc_len d) (dc_buffer d))
                  else dc_buffer d);
            b2 = copy_at b1 (dc_len d) incoming
        in case scan b2 needed 0 of
             Inl e \<Rightarrow> (Inl e, \<lparr>dc_buffer = b2, dc_len = needed\<rparr>)
           | Inr (frames, offset) \<Rightarrow>
               let remaining = needed - offset;
                   b3 = (if offset > 0 \<and> remaining > 0
                         then copy_at b2 0 (take remaining (drop offset b2)) else b2);
                   len3 = (if offset > 0 then remaining else needed)
               in (Inr frames,
                   \<lparr>dc_buffer = (if len3 = 0 \<and> length b3 > 1024 * 1024 then [] else b3), dc_len = len3\<rparr>))"

text \<open>A connection feeds the chunks one by one and stops at the first error.\<close>

fun feed_all :: "(nat \<Rightarrow> byte list) \<Rightarrow> byte list list \<Rightarrow> decoder \<Rightarrow> frame_error + byte list list \<times> decoder" where
  "feed_all alloc [] d = Inr ([], d)"
| "feed_all alloc (c # cs) d =
     (case feed alloc c d of
        (Inl e, d') \<Rightarrow> Inl e
      | (Inr fs, d') \<Rightarrow>
          (case feed_all alloc cs d' of
             Inl e \<Rightarrow> Inl e
           | Inr (gs, d'') \<Rightarrow> Inr (fs @ gs, d'')))"


section \<open>The specification\<close>

function parse :: "byte list \<Rightarrow> frame_error + byte list list \<times> byte list" where
  "parse bs =
     (if bs = [] then Inr ([], [])
      else let h = header_len (hd bs) in
        if length bs < h then Inr ([], bs)
        else let n = encoded_at bs 0 h div 4 in
          if n > MAX_RELAY_FRAME_SIZE then Inl (InvalidPayloadLength n)
          else if length bs < h + n then Inr ([], bs)
          else case parse (drop (h + n) bs) of
            Inl e \<Rightarrow> Inl e
          | Inr (fs, r) \<Rightarrow> Inr (take n (drop h bs) # fs, r))"
  by pat_completeness auto
termination
  by (relation "measure length") (auto simp: header_len_def)

declare parse.simps [simp del]

definition decoder_ok :: "decoder \<Rightarrow> bool" where
  "decoder_ok d = (dc_len d \<le> length (dc_buffer d) \<and> length (dc_buffer d) \<le> MAX_RELAY_FRAME_SIZE + 4)"

definition pending_bytes :: "decoder \<Rightarrow> byte list" where
  "pending_bytes d = take (dc_len d) (dc_buffer d)"

lemma header_len_pos [simp]: "0 < header_len b" "header_len b \<noteq> 0"
  by (simp_all add: header_len_def)

lemma encoded_at_shift:
  assumes "off + h \<le> n" "n \<le> length buf"
  shows "encoded_at buf off h = encoded_at (drop off (take n buf)) 0 h"
proof -
  have "map (\<lambda>i. unat (buf ! (off + i)) * 2 ^ (8 * i)) [0..<h]
      = map (\<lambda>i. unat (drop off (take n buf) ! i) * 2 ^ (8 * i)) [0..<h]"
    using assms by (intro map_cong) auto
  then show ?thesis by (simp only: encoded_at_def add_0)
qed

lemma scan_step:
  assumes "off < n" "h = header_len (buf ! off)" "h \<le> n - off" "p = encoded_at buf off h div 4"
    "p \<le> MAX_RELAY_FRAME_SIZE" "p \<le> n - off - h"
  shows "scan buf n off = (case scan buf n (off + h + p) of
      Inl e \<Rightarrow> Inl e | Inr (fs, o') \<Rightarrow> Inr (take p (drop (off + h) buf) # fs, o'))"
  using assms(1,3,5,6) unfolding assms(4) unfolding assms(2)
  by (subst scan.simps) (simp add: Let_def not_less)

lemma parse_step:
  assumes "bs \<noteq> []" "h = header_len (hd bs)" "h \<le> length bs" "p = encoded_at bs 0 h div 4"
    "p \<le> MAX_RELAY_FRAME_SIZE" "h + p \<le> length bs"
  shows "parse bs = (case parse (drop (h + p) bs) of
      Inl e \<Rightarrow> Inl e | Inr (fs, r) \<Rightarrow> Inr (take p (drop h bs) # fs, r))"
  using assms(1,3,5,6) unfolding assms(4) unfolding assms(2)
  by (subst parse.simps) (simp add: Let_def not_less)

text \<open>The loop with its offset is the specification on the bytes behind the offset.\<close>

lemma scan_parse:
  assumes "n \<le> length buf" "off \<le> n"
  shows "scan buf n off = (case parse (drop off (take n buf)) of
           Inl e \<Rightarrow> Inl e | Inr (fs, r) \<Rightarrow> Inr (fs, n - length r))"
  using assms
proof (induction buf n off rule: scan.induct)
  case (1 buf n off)
  let ?bs = "drop off (take n buf)"
  show ?case
  proof (cases "off < n")
    case False
    with 1 have "off = n" by simp
    then show ?thesis by (simp add: scan.simps [of buf n n] parse.simps [of "[]"])
  next
    case True
    then have ne: "?bs \<noteq> []" and hd: "hd ?bs = buf ! off" and len: "length ?bs = n - off"
      using 1 by (auto simp: hd_drop_conv_nth)
    let ?h = "header_len (buf ! off)"
    show ?thesis
    proof (cases "n - off < ?h")
      case short: True
      with True ne hd len 1(2,3) show ?thesis
        by (simp add: scan.simps [of buf n off] parse.simps [of ?bs] Let_def)
    next
      case long: False
      then have enc: "encoded_at buf off ?h = encoded_at ?bs 0 ?h"
        using 1(2) True by (intro encoded_at_shift) auto
      let ?p = "encoded_at buf off ?h div 4"
      show ?thesis
      proof (cases "?p > MAX_RELAY_FRAME_SIZE \<or> n - off - ?h < ?p")
        case True
        with \<open>off < n\<close> ne hd len long enc 1(2,3) show ?thesis
          by (auto simp: scan.simps [of buf n off] parse.simps [of ?bs] Let_def)
      next
        case False
        have len3: "?p \<le> MAX_RELAY_FRAME_SIZE" "?p \<le> n - off - ?h" "?h \<le> n - off" using False long by linarith+
        have d: "drop (?h + ?p) ?bs = drop (off + ?h + ?p) (take n buf)" by (simp add: ac_simps)
        have "?p \<le> n - (?h + off)" using len3 by linarith
        then have t: "take ?p (drop ?h ?bs) = take ?p (drop (off + ?h) buf)"
          unfolding drop_drop by (simp only: drop_take take_take min_absorb1 add.commute [of ?h off])
        have IH: "scan buf n (off + ?h + ?p) = (case parse (drop (off + ?h + ?p) (take n buf)) of
            Inl e \<Rightarrow> Inl e | Inr (fs, r) \<Rightarrow> Inr (fs, n - length r))"
          using 1(1) [OF True refl long refl] False len3 True 1(2) by auto
        have q: "parse ?bs = (case parse (drop (?h + ?p) ?bs) of
            Inl e \<Rightarrow> Inl e | Inr (fs, r) \<Rightarrow> Inr (take ?p (drop ?h ?bs) # fs, r))"
        proof (rule parse_step [OF ne])
          show "?h = header_len (hd ?bs)" by (simp only: hd)
          show "?h \<le> length ?bs" "?h + ?p \<le> length ?bs" unfolding len using len3 by linarith+
          show "?p = encoded_at ?bs 0 ?h div 4" by (simp only: enc)
          show "?p \<le> MAX_RELAY_FRAME_SIZE" by (rule len3(1))
        qed
        show ?thesis
          unfolding scan_step [OF True refl len3(3) refl len3(1,2)] q d t IH
          by (cases "parse (drop (off + ?h + ?p) (take n buf))") (simp_all add: case_prod_unfold)
      qed
    qed
  qed
qed

lemma parse_stuck:
  "bs = [] \<or> length bs < header_len (hd bs)
     \<or> (encoded_at bs 0 (header_len (hd bs)) div 4 \<le> MAX_RELAY_FRAME_SIZE
         \<and> length bs < header_len (hd bs) + encoded_at bs 0 (header_len (hd bs)) div 4)
   \<Longrightarrow> parse bs = Inr ([], bs)"
  by (auto simp: parse.simps [of bs] Let_def)

lemma parse_rest:
  assumes "parse bs = Inr (fs, r)"
  shows "suffix r bs" and "parse r = Inr ([], r)"
proof -
  have "suffix r bs \<and> parse r = Inr ([], r)"
    using assms
  proof (induction bs arbitrary: fs rule: parse.induct)
    case (1 bs)
    let ?h = "header_len (hd bs)" and ?n = "encoded_at bs 0 (header_len (hd bs)) div 4"
    consider "bs = []" | "bs \<noteq> []" "length bs < ?h" | "bs \<noteq> []" "\<not> length bs < ?h" "?n > MAX_RELAY_FRAME_SIZE"
      | "bs \<noteq> []" "\<not> length bs < ?h" "\<not> ?n > MAX_RELAY_FRAME_SIZE" "length bs < ?h + ?n"
      | "bs \<noteq> []" "\<not> length bs < ?h" "\<not> ?n > MAX_RELAY_FRAME_SIZE" "\<not> length bs < ?h + ?n" by blast
    then show ?case
    proof cases
      case 5
      with 1(2) obtain gs where g: "parse (drop (?h + ?n) bs) = Inr (gs, r)"
        by (auto simp: parse.simps [of bs] Let_def split: sum.splits)
      from 1(1) [OF 5(1) refl 5(2) refl 5(3,4) g] show ?thesis using suffix_drop suffix_order.trans by blast
    next
      case 3
      with 1(2) show ?thesis by (simp add: parse.simps [of bs])
    qed (use 1(2) parse_stuck [of bs] in auto)
  qed
  then show "suffix r bs" "parse r = Inr ([], r)" by auto
qed

lemma encoded_at_append: "off + h \<le> length a \<Longrightarrow> encoded_at (a @ b) off h = encoded_at a off h"
proof -
  assume "off + h \<le> length a"
  then have "map (\<lambda>i. unat ((a @ b) ! (off + i)) * 2 ^ (8 * i)) [0..<h] = map (\<lambda>i. unat (a ! (off + i)) * 2 ^ (8 * i)) [0..<h]"
    by (intro map_cong) (auto simp: nth_append)
  then show ?thesis by (simp only: encoded_at_def)
qed

text \<open>More bytes only matter for the unfinished rest.\<close>

lemma parse_append:
  "parse (a @ b) = (case parse a of
     Inl e \<Rightarrow> Inl e
   | Inr (fs, r) \<Rightarrow> (case parse (r @ b) of Inl e \<Rightarrow> Inl e | Inr (gs, r') \<Rightarrow> Inr (fs @ gs, r')))"
proof (induction a rule: parse.induct)
  case (1 a)
  let ?h = "header_len (hd a)" and ?n = "encoded_at a 0 (header_len (hd a)) div 4"
  have id: "parse (a @ b) = (case parse (a @ b) of Inl e \<Rightarrow> Inl e | Inr (gs, r') \<Rightarrow> Inr ([] @ gs, r'))"
    by (auto split: sum.splits)
  consider "a = []" | "a \<noteq> []" "length a < ?h" | "a \<noteq> []" "\<not> length a < ?h" "?n > MAX_RELAY_FRAME_SIZE"
    | "a \<noteq> []" "\<not> length a < ?h" "\<not> ?n > MAX_RELAY_FRAME_SIZE" "length a < ?h + ?n"
    | "a \<noteq> []" "\<not> length a < ?h" "\<not> ?n > MAX_RELAY_FRAME_SIZE" "\<not> length a < ?h + ?n" by blast
  then show ?case
  proof cases
    case 1
    then show ?thesis using id by (simp add: parse.simps [of "[]"])
  next
    case 2
    then have "parse a = Inr ([], a)" by (intro parse_stuck) simp
    with id show ?thesis by simp
  next
    case 3
    then have "encoded_at (a @ b) 0 ?h = encoded_at a 0 ?h" by (intro encoded_at_append) simp
    with 3 show ?thesis by (simp add: parse.simps [of "a @ b"] parse.simps [of a] Let_def)
  next
    case 4
    then have "parse a = Inr ([], a)" by (intro parse_stuck) simp
    with id show ?thesis by simp
  next
    case 5
    then have e: "encoded_at (a @ b) 0 ?h = encoded_at a 0 ?h" by (intro encoded_at_append) simp
    have d: "drop (?h + ?n) (a @ b) = drop (?h + ?n) a @ b" "take ?n (drop ?h (a @ b)) = take ?n (drop ?h a)"
      using 5 by auto
    note IH = 1 [OF 5(1) refl 5(2) refl 5(3,4)]
    show ?thesis
      using 5 e d IH
      by (auto simp: parse.simps [of "a @ b"] parse.simps [of a] Let_def split: sum.splits prod.splits)
  qed
qed

section \<open>The decoder refines the specification\<close>

lemma copy_at_props:
  assumes "off + length src \<le> length dst"
  shows "length (copy_at dst off src) = length dst" "take (off + length src) (copy_at dst off src) = take off dst @ src"
  using assms by (auto simp: copy_at_def)

lemma feed_refines:
  assumes "decoder_ok d" and "\<And>n. length (alloc n) = n"
    and fits: "length (pending_bytes d) + length c \<le> MAX_RELAY_FRAME_SIZE + 4"
  shows "case parse (pending_bytes d @ c) of
      Inl e \<Rightarrow> fst (feed alloc c d) = Inl e
    | Inr (fs, r) \<Rightarrow> \<exists>d'. feed alloc c d = (Inr fs, d') \<and> decoder_ok d' \<and> pending_bytes d' = r"
proof -
  let ?M = "MAX_RELAY_FRAME_SIZE + 4"
  define needed where "needed = dc_len d + length c"
  have len: "length (pending_bytes d) = dc_len d" and le: "dc_len d \<le> length (dc_buffer d)" "length (dc_buffer d) \<le> ?M"
    using assms(1) by (auto simp: decoder_ok_def pending_bytes_def)
  have nM: "needed \<le> ?M" using fits len by (simp add: needed_def)
  define b1 where "b1 = (if needed > length (dc_buffer d)
      then copy_at (alloc (min ?M (max needed (max (length (dc_buffer d) * 2) 4096)))) 0 (take (dc_len d) (dc_buffer d))
      else dc_buffer d)"
  have b1: "needed \<le> length b1" "length b1 \<le> ?M" "take (dc_len d) b1 = pending_bytes d"
  proof -
    let ?a = "alloc (min ?M (max needed (max (length (dc_buffer d) * 2) 4096)))"
    have "length ?a = min ?M (max needed (max (length (dc_buffer d) * 2) 4096))" by (rule assms(2))
    then have a: "length ?a \<le> ?M" "needed \<le> length ?a" using nM by (simp_all only: min.cobounded1 min.bounded_iff max.cobounded1 simp_thms)
    have "dc_len d \<le> needed" by (simp add: needed_def)
    then have la: "0 + length (pending_bytes d) \<le> length ?a" using a(2) len by simp
    have b: "b1 = (if needed > length (dc_buffer d) then copy_at ?a 0 (pending_bytes d) else dc_buffer d)"
      by (simp add: b1_def pending_bytes_def)
    show "needed \<le> length b1" "length b1 \<le> ?M" "take (dc_len d) b1 = pending_bytes d"
    proof -
      have grown: "length (copy_at ?a 0 (pending_bytes d)) = length ?a" "take (dc_len d) (copy_at ?a 0 (pending_bytes d)) = pending_bytes d"
        using copy_at_props [OF la] len by simp_all
      show "needed \<le> length b1" using grown(1) a(2) by (simp add: b)
      show "length b1 \<le> ?M" using grown(1) a(1) le(2) by (simp add: b)
      show "take (dc_len d) b1 = pending_bytes d" using grown(2) by (simp add: b) (simp add: pending_bytes_def)
    qed
  qed
  define b2 where "b2 = copy_at b1 (dc_len d) c"
  have b2: "length b2 = length b1" "take needed b2 = pending_bytes d @ c"
    using copy_at_props [of "dc_len d" c b1] b1 by (simp_all add: b2_def needed_def)
  have nlen: "length (pending_bytes d @ c) = needed" using len by (simp add: needed_def)
  have sc: "scan b2 needed 0 = (case parse (pending_bytes d @ c) of Inl e \<Rightarrow> Inl e | Inr (fs, r) \<Rightarrow> Inr (fs, needed - length r))"
    using scan_parse [of needed b2 0] b1(1) b2 by simp
  have fd: "feed alloc c d = (case scan b2 needed 0 of
             Inl e \<Rightarrow> (Inl e, \<lparr>dc_buffer = b2, dc_len = needed\<rparr>)
           | Inr (frames, offset) \<Rightarrow>
               let remaining = needed - offset;
                   b3 = (if offset > 0 \<and> remaining > 0
                         then copy_at b2 0 (take remaining (drop offset b2)) else b2);
                   len3 = (if offset > 0 then remaining else needed)
               in (Inr frames,
                   \<lparr>dc_buffer = (if len3 = 0 \<and> length b3 > 1024 * 1024 then [] else b3), dc_len = len3\<rparr>))"
    unfolding feed_def Let_def b2_def b1_def needed_def using nM [unfolded needed_def] by simp
  show ?thesis
  proof (cases "parse (pending_bytes d @ c)")
    case (Inl e)
    then show ?thesis by (simp add: fd sc)
  next
    case (Inr p)
    obtain fs r where r: "parse (pending_bytes d @ c) = Inr (fs, r)" using Inr by (cases p) auto
    obtain q where q: "pending_bytes d @ c = q @ r" using parse_rest(1) [OF r] by (auto simp: suffix_def)
    then have lr: "length r \<le> needed" "needed - length r = length q" "needed - length q = length r"
      "needed = length q + length r" using nlen by auto
    have dr: "take (length r) (drop (length q) b2) = r"
      using b2(2) q nlen by (metis append_eq_conv_conj drop_take length_append diff_add_inverse)
    have l3: "0 + length r \<le> length b2" using lr(1) b1(1) b2(1) by simp
    have sc': "scan b2 needed 0 = Inr (fs, length q)" unfolding sc r by (simp add: lr(2))
    show ?thesis
    proof (cases "length q > 0 \<and> length r > 0")
      case True
      then have "feed alloc c d = (Inr fs, \<lparr>dc_buffer = copy_at b2 0 r, dc_len = length r\<rparr>)"
        unfolding fd sc' by (simp add: Let_def lr(3) dr)
      with r copy_at_props [OF l3] b1 b2 l3 show ?thesis by (simp add: decoder_ok_def pending_bytes_def)
    next
      case False
      then consider "q = []" "r = pending_bytes d @ c" | "r = []" "length q > 0" using q by auto
      then show ?thesis
      proof cases
        case 1
        then have "feed alloc c d = (Inr fs, \<lparr>dc_buffer = (if needed = 0 \<and> length b2 > 1024 * 1024 then [] else b2), dc_len = needed\<rparr>)"
          unfolding fd sc' by (simp add: Let_def)
        with r 1 b1 b2 show ?thesis by (auto simp: decoder_ok_def pending_bytes_def)
      next
        case 2
        then have "feed alloc c d = (Inr fs, \<lparr>dc_buffer = (if length b2 > 1024 * 1024 then [] else b2), dc_len = 0\<rparr>)"
          unfolding fd sc' by (simp add: Let_def lr(4))
        with r 2 b1 b2 show ?thesis by (auto simp: decoder_ok_def pending_bytes_def)
      qed
    qed
  qed
qed

lemma feed_overflow:
  "length (pending_bytes d) + length c > MAX_RELAY_FRAME_SIZE + 4 \<Longrightarrow> decoder_ok d
     \<Longrightarrow> feed alloc c d = (Inl BufferExceedsMaximum, d)"
  by (simp add: feed_def decoder_ok_def pending_bytes_def)

lemma new_decoder_ok: "decoder_ok new_decoder" "pending_bytes new_decoder = []"
  by (simp_all add: decoder_ok_def new_decoder_def pending_bytes_def)

lemma parse_not_overflow: "parse bs \<noteq> Inl BufferExceedsMaximum"
proof (induction bs rule: parse.induct)
  case (1 bs)
  then show ?case by (subst parse.simps) (auto simp: Let_def split: sum.splits)
qed

text \<open>Between two chunks the decoder holds bytes that contain no complete frame.\<close>

definition decoder_inv :: "decoder \<Rightarrow> bool" where
  "decoder_inv d = (decoder_ok d \<and> parse (pending_bytes d) = Inr ([], pending_bytes d))"

lemma new_decoder_inv: "decoder_inv new_decoder"
  using new_decoder_ok parse_stuck [of "[]"] by (simp add: decoder_inv_def)

lemma feed_step:
  assumes "decoder_inv d" and "\<And>n. length (alloc n) = n" and "feed alloc c d = (Inr fs, d')"
  shows "parse (pending_bytes d @ c) = Inr (fs, pending_bytes d')" "decoder_inv d'"
proof -
  have ok: "decoder_ok d" using assms(1) by (simp add: decoder_inv_def)
  have fits: "length (pending_bytes d) + length c \<le> MAX_RELAY_FRAME_SIZE + 4"
    using feed_overflow [OF _ ok, of c alloc] assms(3) by (cases "length (pending_bytes d) + length c \<le> MAX_RELAY_FRAME_SIZE + 4") auto
  note r = feed_refines [OF ok assms(2) fits]
  show "parse (pending_bytes d @ c) = Inr (fs, pending_bytes d')"
    using r assms(3) by (cases "parse (pending_bytes d @ c)") auto
  then show "decoder_inv d'" using r assms(3) parse_rest(2) by (auto simp: decoder_inv_def)
qed

lemma feed_run:
  assumes "decoder_inv d" "\<And>n. length (alloc n) = n" "parse (pending_bytes d @ c) = Inr (fs, r)"
    "length (pending_bytes d) + length c \<le> MAX_RELAY_FRAME_SIZE + 4"
  obtains d' where "feed alloc c d = (Inr fs, d')" "pending_bytes d' = r" "decoder_inv d'"
proof -
  have "decoder_ok d" using assms(1) by (simp add: decoder_inv_def)
  from feed_refines [OF this assms(2,4)] assms(3) obtain d' where "feed alloc c d = (Inr fs, d')" "pending_bytes d' = r" by auto
  with feed_step(2) [OF assms(1,2) this(1)] that show thesis by blast
qed

lemma feed_error:
  assumes "decoder_inv d" and "\<And>n. length (alloc n) = n" and "feed alloc c d = (Inl e, d')"
  shows "e = BufferExceedsMaximum \<and> length (pending_bytes d) + length c > MAX_RELAY_FRAME_SIZE + 4
    \<or> parse (pending_bytes d @ c) = Inl e"
proof (cases "length (pending_bytes d) + length c \<le> MAX_RELAY_FRAME_SIZE + 4")
  case True
  have ok: "decoder_ok d" using assms(1) by (simp add: decoder_inv_def)
  from feed_refines [OF ok assms(2) True] assms(3) show ?thesis by (cases "parse (pending_bytes d @ c)") auto
next
  case False
  with feed_overflow [of d c alloc] assms show ?thesis by (simp add: decoder_inv_def)
qed

lemma feed_all_refines:
  assumes "decoder_inv d" and "\<And>n. length (alloc n) = n"
  shows "feed_all alloc cs d = Inl e \<Longrightarrow> e \<noteq> BufferExceedsMaximum \<Longrightarrow> parse (pending_bytes d @ concat cs) = Inl e"
    and "feed_all alloc cs d = Inr (fs, d') \<Longrightarrow> parse (pending_bytes d @ concat cs) = Inr (fs, pending_bytes d') \<and> decoder_inv d'"
  using assms(1)
proof (induction cs arbitrary: d fs)
  case (Cons c cs)
  {
    case 1
    obtain x d1 where x: "feed alloc c d = (x, d1)" by (cases "feed alloc c d")
    show ?case
    proof (cases x)
      case (Inl e')
      have "e' = e" using 1(1) unfolding feed_all.simps x Inl by simp
      with x Inl have "feed alloc c d = (Inl e, d1)" by simp
      from feed_error [OF 1(3) assms(2) this] 1(2) have "parse (pending_bytes d @ c) = Inl e" by simp
      then show ?thesis using parse_append [of "pending_bytes d @ c" "concat cs"] by simp
    next
      case (Inr gs)
      with 1 x have "feed_all alloc cs d1 = Inl e" by (simp split: sum.splits prod.splits)
      with Cons(1) [of d1] 1(2) feed_step [OF 1(3) assms(2)] x Inr have
        "parse (pending_bytes d1 @ concat cs) = Inl e" "parse (pending_bytes d @ c) = Inr (gs, pending_bytes d1)" by auto
      then show ?thesis using parse_append [of "pending_bytes d @ c" "concat cs"] by simp
    qed
  next
    case 2
    obtain x d1 where x: "feed alloc c d = (x, d1)" by (cases "feed alloc c d")
    from 2 x obtain gs hs where g: "x = Inr gs" "feed_all alloc cs d1 = Inr (hs, d')" "fs = gs @ hs"
      by (auto split: sum.splits prod.splits)
    with Cons(2) [of d1 hs] feed_step [OF 2(2) assms(2)] x have
      "parse (pending_bytes d1 @ concat cs) = Inr (hs, pending_bytes d')" "decoder_inv d'"
      "parse (pending_bytes d @ c) = Inr (gs, pending_bytes d1)" by auto
    then show ?case using parse_append [of "pending_bytes d @ c" "concat cs"] g by simp
  }
qed (auto simp: decoder_inv_def)

lemma feed_all_overflow:
  assumes "decoder_inv d" and "\<And>n. length (alloc n) = n" and "feed_all alloc cs d = Inl BufferExceedsMaximum"
  shows "length (pending_bytes d @ concat cs) > MAX_RELAY_FRAME_SIZE + 4"
  using assms(1,3)
proof (induction cs arbitrary: d)
  case (Cons c cs)
  obtain x d1 where x: "feed alloc c d = (x, d1)" by (cases "feed alloc c d")
  show ?case
  proof (cases x)
    case (Inl e)
    with x Cons(3) have "feed alloc c d = (Inl BufferExceedsMaximum, d1)" by simp
    from feed_error [OF Cons(2) assms(2) this] show ?thesis using parse_not_overflow by auto
  next
    case (Inr gs)
    note st = feed_step [OF Cons(2) assms(2), of c gs d1, unfolded x Inr, OF refl]
    from x Inr Cons(3) have "feed_all alloc cs d1 = Inl BufferExceedsMaximum" by (simp split: sum.splits prod.splits)
    from Cons(1) [OF st(2) this] parse_rest(1) [OF st(1), THEN suffix_length_le] show ?thesis by simp
  qed
qed simp


section \<open>Headers\<close>

lemma digits_sum: "(\<Sum>i\<leftarrow>[0..<n]. (x div b ^ i mod b) * b ^ i) = x mod (b::nat) ^ n"
proof (induction n)
  case (Suc n)
  then show ?case by (simp add: mod_mult2_eq mult.commute [of b])
qed simp

lemma le_bytes_value:
  assumes "unat v < 256 ^ n" "n \<le> 4"
  shows "encoded_at (le_bytes n v @ x) 0 n = unat v"
proof -
  have "unat ((le_bytes n v @ x) ! i) * 2 ^ (8 * i) = (unat v div 256 ^ i mod 256) * 256 ^ i" if "i < n" for i
  proof -
    have "(le_bytes n v @ x) ! i = ucast (drop_bit (8 * i) v)" using that by (simp add: le_bytes_def nth_append)
    moreover have "unat (ucast (drop_bit (8 * i) v) :: byte) = unat v div 2 ^ (8 * i) mod 256"
      by (simp only: unsigned_ucast_eq unat_drop_bit_eq) (simp add: take_bit_eq_mod drop_bit_eq_div)
    ultimately show ?thesis by (simp add: power_mult)
  qed
  then have "map (\<lambda>i. unat ((le_bytes n v @ x) ! (0 + i)) * 2 ^ (8 * i)) [0..<n]
      = map (\<lambda>i. (unat v div 256 ^ i mod 256) * 256 ^ i) [0..<n]" by (intro map_cong) auto
  then show ?thesis using digits_sum [of "unat v" 256 n] assms(1) by (simp only: encoded_at_def mod_less)
qed

lemma header_len_hd: "0 < n \<Longrightarrow> header_len (hd (le_bytes n v @ x)) = unat v mod 4 + 1"
proof -
  assume "0 < n"
  then have "hd (le_bytes n v @ x) = ucast v" by (simp add: le_bytes_def upt_conv_Cons)
  moreover have "unat ((ucast v :: byte) AND 3) = unat v mod 4"
  proof -
    have "(ucast v :: byte) AND 3 = take_bit 2 (ucast v)" by (simp add: take_bit_eq_mask mask_eq_exp_minus_1)
    then show ?thesis
      by (simp add: unsigned_take_bit_eq unsigned_ucast_eq) (simp add: take_bit_eq_mod)
  qed
  ultimately show ?thesis by (simp add: header_len_def)
qed

lemma unat_small: "x < 2 ^ 32 \<Longrightarrow> unat (of_nat x :: 32 word) = x"
  by (simp add: unat_of_nat take_bit_eq_mod)

text \<open>No header wraps around: its value is four times the length plus its own length minus one.\<close>

lemma frame_header_value:
  assumes "len \<le> MAX_RELAY_FRAME_SIZE"
  obtains n v where "frame_header len = le_bytes n v" "0 < n" "n \<le> 4" "unat v = len * 4 + (n - 1)" "unat v < 256 ^ n"
proof -
  let ?n = "of_nat len :: 32 word"
  have l: "len \<le> 67108864" using assms by (simp add: MAX_RELAY_FRAME_SIZE_def)
  have p: "push_bit 2 ?n = of_nat (len * 4)" by (simp add: push_bit_eq_mult)
  consider "len \<le> 0x3F" | "\<not> len \<le> 0x3F" "len \<le> 0x3FFF" | "\<not> len \<le> 0x3FFF" "len \<le> 0x3FFFFF" | "\<not> len \<le> 0x3FFFFF" by linarith
  then show thesis
  proof cases
    case 1
    have "unat (push_bit 2 ?n) = len * 4" unfolding p by (rule unat_small) (use 1 in simp)
    with 1 show ?thesis by (intro that [of 1 "push_bit 2 ?n"]) (simp_all add: frame_header_def Let_def)
  next
    case 2
    have "even (push_bit 2 ?n)" by (simp add: push_bit_eq_mult)
    then have "push_bit 2 ?n OR 1 = of_nat (len * 4 + 1)" by (simp add: or_one_eq) (simp add: push_bit_eq_mult)
    moreover have "unat (of_nat (len * 4 + 1) :: 32 word) = len * 4 + 1" by (rule unat_small) (use 2 in simp)
    ultimately have "unat (push_bit 2 ?n OR 1) = len * 4 + 1" by metis
    with 2 show ?thesis by (intro that [of 2 "push_bit 2 ?n OR 1"]) (simp_all add: frame_header_def Let_def)
  next
    case 3
    have "?n * 4 + 2 = of_nat (len * 4 + 2)" by simp
    moreover have "unat (of_nat (len * 4 + 2) :: 32 word) = len * 4 + 2" by (rule unat_small) (use 3 in simp)
    ultimately have "unat (?n * 4 + 2) = len * 4 + 2" by metis
    with 3 show ?thesis by (intro that [of 3 "?n * 4 + 2"]) (simp_all add: frame_header_def Let_def)
  next
    case 4
    have "?n * 4 + 3 = of_nat (len * 4 + 3)" by simp
    moreover have "unat (of_nat (len * 4 + 3) :: 32 word) = len * 4 + 3" by (rule unat_small) (use l in simp)
    ultimately have "unat (?n * 4 + 3) = len * 4 + 3" by metis
    with 4 l show ?thesis by (intro that [of 4 "?n * 4 + 3"]) (simp_all add: frame_header_def Let_def)
  qed
qed

lemma parse_frame:
  assumes "encodeRelayFrame p = Inr bs"
  shows "parse (bs @ x) = (case parse x of Inl e \<Rightarrow> Inl e | Inr (fs, r) \<Rightarrow> Inr (p # fs, r))"
proof -
  have len: "length p \<le> MAX_RELAY_FRAME_SIZE" and bs: "bs = frame_header (length p) @ p"
    using assms by (auto simp: encodeRelayFrame_def split: if_splits)
  obtain n v where h: "frame_header (length p) = le_bytes n v" "0 < n" "n \<le> 4" "unat v = length p * 4 + (n - 1)"
      "unat v < 256 ^ n" using frame_header_value [OF len] .
  have eq: "bs @ x = le_bytes n v @ (p @ x)" by (simp add: bs h)
  have hl: "header_len (hd (bs @ x)) = n" 
  proof -
    have "n = 1 \<or> n = 2 \<or> n = 3 \<or> n = 4" using h(2,3) by linarith
    then show ?thesis unfolding eq header_len_hd [OF h(2)] h(4) by auto
  qed
  have en: "encoded_at (bs @ x) 0 n = unat v" unfolding eq by (rule le_bytes_value [OF h(5,3)])
  have lb: "length (le_bytes n v) = n" by (simp add: le_bytes_def)
  have pl: "unat v div 4 = length p" using h by auto
  have "parse (bs @ x) = (case parse (drop (n + length p) (bs @ x)) of
      Inl e \<Rightarrow> Inl e | Inr (fs, r) \<Rightarrow> Inr (take (length p) (drop n (bs @ x)) # fs, r))"
  proof (rule parse_step)
    show "bs @ x \<noteq> []" using h(2) lb unfolding eq by auto
    show "n = header_len (hd (bs @ x))" by (simp only: hl)
    show "n \<le> length (bs @ x)" "n + length p \<le> length (bs @ x)" unfolding eq using lb by simp_all
    show "length p = encoded_at (bs @ x) 0 n div 4" by (simp only: en pl)
  qed (rule len)
  moreover have "take (length p) (drop n (bs @ x)) = p" "drop (n + length p) (bs @ x) = x"
    unfolding eq using lb by simp_all
  ultimately show ?thesis by (simp only:)
qed


section \<open>Round trips\<close>

fun encode_all :: "byte list list \<Rightarrow> frame_error + byte list" where
  "encode_all [] = Inr []"
| "encode_all (p # ps) =
     (case encodeRelayFrame p of
        Inl e \<Rightarrow> Inl e
      | Inr f \<Rightarrow> (case encode_all ps of Inl e \<Rightarrow> Inl e | Inr bs \<Rightarrow> Inr (f @ bs)))"

lemma parse_encode_all: "encode_all ps = Inr bs \<Longrightarrow> parse bs = Inr (ps, [])"
proof (induction ps arbitrary: bs)
  case Nil
  then show ?case using parse_stuck [of "[]"] by simp
next
  case (Cons p ps)
  then obtain f r where fr: "encodeRelayFrame p = Inr f" "encode_all ps = Inr r" "bs = f @ r"
    by (auto split: sum.splits)
  then show ?case using parse_frame [OF fr(1), of r] Cons(1) by simp
qed

lemma encode_all_append:
  "encode_all (ps @ qs) = (case encode_all ps of Inl e \<Rightarrow> Inl e
     | Inr a \<Rightarrow> (case encode_all qs of Inl e \<Rightarrow> Inl e | Inr b \<Rightarrow> Inr (a @ b)))"
  by (induction ps) (auto split: sum.splits)

lemma encode_all_total: "\<forall>p \<in> set ps. length p \<le> MAX_RELAY_FRAME_SIZE \<Longrightarrow> \<exists>bs. encode_all ps = Inr bs"
  by (induction ps) (auto simp: encodeRelayFrame_def)

lemma length_frame:
  assumes "encodeRelayFrame p = Inr f"
  shows "length p < length f" "length f \<le> length p + 4"
proof -
  have "length p \<le> MAX_RELAY_FRAME_SIZE" "f = frame_header (length p) @ p"
    using assms by (auto simp: encodeRelayFrame_def split: if_splits)
  then show "length p < length f" "length f \<le> length p + 4"
    using frame_header_value [of "length p"] by (auto simp: frame_header_def le_bytes_def Let_def)
qed

text \<open>What is left after a prefix of a stream of frames is shorter than a frame.\<close>

lemma parse_prefix_rest:
  assumes "encode_all ps = Inr (a @ b)" and "\<forall>p \<in> set ps. length p \<le> N"
  shows "\<exists>fs r. parse a = Inr (fs, r) \<and> (r = [] \<or> length r < N + 4)"
  using assms
proof (induction ps arbitrary: a)
  case Nil
  then show ?case using parse_stuck [of "[]"] by simp
next
  case (Cons p ps)
  then obtain f r where fr: "encodeRelayFrame p = Inr f" "encode_all ps = Inr r" "a @ b = f @ r"
    by (auto split: sum.splits)
  show ?case
  proof (cases "length f \<le> length a")
    case True
    then have a: "a = f @ drop (length f) a" and r: "r = drop (length f) a @ b"
      using fr(3) by (metis append_eq_append_conv_if append_take_drop_id, metis append_eq_append_conv_if)
    obtain fs q where "parse (drop (length f) a) = Inr (fs, q)" "q = [] \<or> length q < N + 4"
      using Cons(1) [of "drop (length f) a"] fr(2) Cons(3) unfolding r by auto
    then show ?thesis using parse_frame [OF fr(1), of "drop (length f) a"] by (subst a) simp
  next
    case False
    obtain fs q where q: "parse a = Inr (fs, q)"
      using parse_append [of a b] parse_encode_all [OF Cons(2)] by (auto split: sum.splits)
    then have "length q \<le> length a" using parse_rest(1) [OF q] by (simp add: suffix_length_le)
    moreover have "length f \<le> N + 4" using length_frame [OF fr(1)] Cons(3) by simp
    ultimately show ?thesis using q False by auto
  qed
qed


lemma feed_all_succeeds:
  assumes "\<And>n. length (alloc n) = n" "\<forall>p \<in> set ps. length p \<le> N" "N + k \<le> MAX_RELAY_FRAME_SIZE"
  shows "encode_all ps = Inr (a @ concat cs) \<Longrightarrow> parse a = Inr (gs, pending_bytes d) \<Longrightarrow> decoder_inv d
    \<Longrightarrow> \<forall>c \<in> set cs. length c \<le> k \<Longrightarrow> \<exists>fs d'. feed_all alloc cs d = Inr (fs, d')"
proof (induction cs arbitrary: a gs d)
  case (Cons c cs)
  obtain fs r where pr: "parse (a @ c) = Inr (fs, r)"
    using parse_prefix_rest [of ps "a @ c" "concat cs" N] Cons(2) assms(2) by auto
  obtain gs' r' where pa: "parse a = Inr (gs', r')" "r' = [] \<or> length r' < N + 4"
    using parse_prefix_rest [of ps a "concat (c # cs)" N] Cons(2) assms(2) by auto
  have fits: "length (pending_bytes d) + length c \<le> MAX_RELAY_FRAME_SIZE + 4"
    using pa Cons(3,5) assms(3) by auto
  have pd: "\<exists>hs. parse (pending_bytes d @ c) = Inr (hs, r)"
    using pr Cons(3) parse_append [of a c] by (auto split: sum.splits)
  have ok: "decoder_ok d" using Cons(4) by (simp add: decoder_inv_def)
  obtain hs d' where fd: "feed alloc c d = (Inr hs, d')" "pending_bytes d' = r"
    using feed_refines [OF ok assms(1) fits] pd by auto
  have "decoder_inv d'" using feed_step(2) [OF Cons(4) assms(1) fd(1)] .
  then obtain fs' d'' where "feed_all alloc cs d' = Inr (fs', d'')"
    using Cons(1) [of "a @ c" fs d'] Cons(2,5) pr fd(2) by auto
  then show ?case using fd(1) by simp
qed simp

lemma framed_roundtrip:
  assumes "\<And>n. length (alloc n) = n"
    and "encode_all ps = Inr (concat cs)"
    and "\<forall>p \<in> set ps. length p \<le> N" and "\<forall>c \<in> set cs. length c \<le> k"
    and "N + k \<le> MAX_RELAY_FRAME_SIZE"
  shows "\<exists>d. feed_all alloc cs new_decoder = Inr (ps, d) \<and> dc_len d = 0"
proof -
  note inv = new_decoder_inv and emp = new_decoder_ok(2)
  have "parse [] = Inr ([], pending_bytes new_decoder)" using parse_stuck [of "[]"] emp by simp
  then obtain fs d where fd: "feed_all alloc cs new_decoder = Inr (fs, d)"
    using feed_all_succeeds [OF assms(1,3,5), of "[]" cs "[]" new_decoder] assms(2,4) inv by auto
  then have "parse (concat cs) = Inr (fs, pending_bytes d)" "decoder_ok d"
    using feed_all_refines(2) [OF inv assms(1) fd] emp by (simp_all add: decoder_inv_def)
  moreover from this have "fs = ps" "pending_bytes d = []" using parse_encode_all [OF assms(2)] by simp_all
  ultimately show ?thesis using fd by (auto simp: pending_bytes_def decoder_ok_def)
qed

text \<open>C5: Round trip through the relay.  Payloads of at most \<open>N\<close> bytes are framed by
  \<open>encodeRelayFrame\<close>, and the bytes arrive in any chunks of at most \<open>k\<close> bytes, where \<open>N + k\<close> is within the
  frame limit.  Then the decoder returns exactly the payloads, in order, raises no error and keeps no
  byte back, whatever fresh buffers contain.\<close>

theorem relay_stream_roundtrip:
  assumes "\<And>n. length (alloc n) = n"
    and "encode_all ps = Inr (concat cs)"
    and "\<forall>p \<in> set ps. length p \<le> N" and "\<forall>c \<in> set cs. length c \<le> k"
    and "N + k \<le> MAX_RELAY_FRAME_SIZE"
  shows "\<exists>d. feed_all alloc cs new_decoder = Inr (ps, d) \<and> dc_len d = 0"
  using assms by (rule framed_roundtrip)

theorem relay_stream_roundtrip_witness:
  "\<exists>d. feed_all (\<lambda>n. replicate n 255) [[8, 1], [2, 0, 4], [], [3]] new_decoder = Inr ([[1, 2], [], [3]], d) \<and> dc_len d = 0"
proof (rule relay_stream_roundtrip [of _ _ _ 2 3])
  show "encode_all [[1, 2], [], [3]] = Inr (concat [[8, 1], [2, 0, 4], [], [3]])"
    by (simp add: encodeRelayFrame_def frame_header_def le_bytes_def MAX_RELAY_FRAME_SIZE_def)
qed (simp_all add: MAX_RELAY_FRAME_SIZE_def)

text \<open>C6: The incremental decoder is equivalent to cutting the whole stream at once.  For every sequence of
  chunks, whether well formed or not, the outcome is one of three: the payloads of the concatenated
  stream with its unfinished rest kept in the buffer, the specification's length error, or the
  refusal of a chunk that does not fit into the buffer limit.\<close>

theorem decoder_equivalent:
  assumes "\<And>n. length (alloc n) = n"
  shows "case feed_all alloc cs new_decoder of
      Inr (fs, d) \<Rightarrow> parse (concat cs) = Inr (fs, take (dc_len d) (dc_buffer d))
        \<and> dc_len d \<le> length (dc_buffer d) \<and> length (dc_buffer d) \<le> MAX_RELAY_FRAME_SIZE + 4
    | Inl BufferExceedsMaximum \<Rightarrow> length (concat cs) > MAX_RELAY_FRAME_SIZE + 4
    | Inl e \<Rightarrow> parse (concat cs) = Inl e"
proof (cases "feed_all alloc cs new_decoder")
  case (Inr q)
  then obtain fs d where "feed_all alloc cs new_decoder = Inr (fs, d)" by (cases q) auto
  with feed_all_refines(2) [OF new_decoder_inv assms this, unfolded new_decoder_ok(2)] show ?thesis
    by (simp add: decoder_inv_def decoder_ok_def pending_bytes_def)
next
  case (Inl e)
  show ?thesis
  proof (cases "e = BufferExceedsMaximum")
    case True
    with Inl feed_all_overflow [OF new_decoder_inv assms, of cs] new_decoder_ok(2) show ?thesis by simp
  next
    case False
    with Inl feed_all_refines(1) [OF new_decoder_inv assms Inl] new_decoder_ok(2) show ?thesis
      by (cases e) simp_all
  qed
qed

theorem decoder_equivalent_witness:
  "case feed_all (\<lambda>n. replicate n 0) [[8, 1], [2, 8]] new_decoder of
      Inr (fs, d) \<Rightarrow> parse (concat [[8, 1], [2, 8]]) = Inr (fs, take (dc_len d) (dc_buffer d))
        \<and> dc_len d \<le> length (dc_buffer d) \<and> length (dc_buffer d) \<le> MAX_RELAY_FRAME_SIZE + 4
    | Inl BufferExceedsMaximum \<Rightarrow> length (concat [[8, 1], [2, 8 :: byte]]) > MAX_RELAY_FRAME_SIZE + 4
    | Inl e \<Rightarrow> parse (concat [[8, 1], [2, 8]]) = Inl e"
  by (rule decoder_equivalent) simp

lemma length_largest:
  "length p = MAX_RELAY_FRAME_SIZE \<Longrightarrow> encodeRelayFrame p = Inr f \<Longrightarrow> length f = MAX_RELAY_FRAME_SIZE + 4"
  by (auto simp: encodeRelayFrame_def frame_header_def le_bytes_def MAX_RELAY_FRAME_SIZE_def Let_def)

lemma parse_nothing: "parse bs = Inr ([], r) \<Longrightarrow> r = bs"
  by (auto simp: parse.simps [of bs] Let_def split: if_splits sum.splits)

lemma parse_unfinished:
  assumes "parse (a @ c) = Inr ([p], [])" "c \<noteq> []"
  shows "parse a = Inr ([], a)"
proof -
  obtain fs r gs where p: "parse a = Inr (fs, r)" "parse (r @ c) = Inr (gs, [])" "fs @ gs = [p]"
    using assms(1) parse_append [of a c] by (auto split: sum.splits)
  have "gs \<noteq> []" using parse_nothing [of "r @ c" "[]"] p(2) assms(2) by auto
  then have "fs = []" using p(3) by (cases fs) auto
  then show ?thesis using p(1) parse_nothing by auto
qed

text \<open>The buffer limit counts what follows the frame.  A payload of the largest size that
  \<open>encodeRelayFrame\<close> accepts is refused by the decoder as soon as the chunk that completes its
  frame carries one byte more, although the stream is well formed.\<close>

theorem largest_frame_refused:
  assumes "\<And>n. length (alloc n) = n"
    and "length p = MAX_RELAY_FRAME_SIZE" and "encodeRelayFrame p = Inr (a @ c)" and "c \<noteq> []" and "x \<noteq> []"
  shows "feed_all alloc [a, c @ x] new_decoder = Inl BufferExceedsMaximum
    \<and> (\<exists>d. feed_all alloc [a, c] new_decoder = Inr ([p], d))"
proof -
  have len: "length a + length c = MAX_RELAY_FRAME_SIZE + 4"
    using length_largest [OF assms(2,3)] by simp
  have whole: "parse (a @ c) = Inr ([p], [])" using parse_encode_all [of "[p]" "a @ c"] assms(3) by simp
  have part: "parse a = Inr ([], a)" by (rule parse_unfinished [OF whole assms(4)])
  note emp = new_decoder_ok(2)
  have inv: "decoder_ok new_decoder" by (rule new_decoder_ok)
  obtain d where d: "feed alloc a new_decoder = (Inr [], d)" "pending_bytes d = a" "decoder_ok d"
    using feed_refines [OF inv assms(1), of a] part len emp by auto
  have "feed alloc (c @ x) d = (Inl BufferExceedsMaximum, d)"
    using feed_overflow [OF _ d(3), of "c @ x"] d(2) len assms(5) by (cases x) auto
  moreover obtain d' where "feed alloc c d = (Inr [p], d')"
    using feed_refines [OF d(3) assms(1), of c] whole len d(2) by auto
  ultimately show ?thesis using d(1) by simp
qed

theorem largest_frame_refused_witness:
  "\<exists>a c. encodeRelayFrame (replicate MAX_RELAY_FRAME_SIZE 7) = Inr (a @ c)
     \<and> feed_all (\<lambda>n. replicate n 0) [a, c @ [0]] new_decoder = Inl BufferExceedsMaximum"
proof -
  let ?p = "replicate MAX_RELAY_FRAME_SIZE 7 :: byte list"
  have e: "encodeRelayFrame ?p = Inr (frame_header MAX_RELAY_FRAME_SIZE @ ?p)" by (simp add: encodeRelayFrame_def)
  moreover have "?p \<noteq> []" by (simp add: MAX_RELAY_FRAME_SIZE_def)
  ultimately show ?thesis
    using largest_frame_refused [of "\<lambda>n. replicate n 0" ?p "frame_header MAX_RELAY_FRAME_SIZE" ?p "[0]"] by auto
qed

end
