(* ===== verification/Guest_Bridge.thy ===== *)
theory Guest_Bridge
  imports Relay_Frames
begin

text \<open>
  The WebSocket proxy of \<open>src/web-nodejs/services/wsRelay.js\<close> behind the upgrade: the connections of
  \<open>handleProxyConnection\<close> with their per-address counter, the filter that keeps a guest to the peer of
  its grant, the consumption of a grant, its revalidation and its revocation.

  Every handler of a connection is one step.  The message handler of a guest is cut in two where the
  code awaits \<open>consumeGuestSession\<close>: the first half suspends the message on a promise, the second half
  runs when the promise settles, and other steps may come between.  The decoder of protobuf messages
  is a parameter, as are the contents of fresh buffers.  \<open>tcp.destroyed\<close> is set by \<open>cleanup\<close>; a socket
  that closes by itself reports it by an event that runs \<open>cleanup\<close>.
\<close>

section \<open>Messages and grants\<close>

text \<open>The fields of a decoded rendezvous message that the proxy reads: the identifiers of its requests.\<close>

record rdv_message =
  punchHoleRequest :: "string option"
  requestRelay :: "string option"

type_synonym msg_decoder = "byte list \<Rightarrow> rdv_message option"

definition guestTargetMatches :: "rdv_message option \<Rightarrow> string \<Rightarrow> bool" where
  "guestTargetMatches message peerId =
     (case message of
        None \<Rightarrow> False
      | Some m \<Rightarrow>
          if peerId = [] then False
          else case (case punchHoleRequest m of None \<Rightarrow> requestRelay m | Some r \<Rightarrow> Some r) of
            None \<Rightarrow> True
          | Some i \<Rightarrow> i = peerId)"

definition opens_session :: "rdv_message \<Rightarrow> bool" where
  "opens_session m = (punchHoleRequest m \<noteq> None \<or> requestRelay m \<noteq> None)"

record grant =
  grant_id :: string
  expires_at :: "int option"

datatype label = Rendezvous | Relay

record proxy_options =
  messageTransport :: bool
  guestGrant :: "grant option"
  guestToken :: string
  guestPeerId :: string
  guestSessionId :: string

definition MAX_CONNECTIONS_PER_IP :: nat where "MAX_CONNECTIONS_PER_IP = 5"

definition GUEST_REVALIDATION_INTERVAL_MS :: int where "GUEST_REVALIDATION_INTERVAL_MS = 15000"


section \<open>Connections\<close>

record conn =
  clientIp :: string
  c_label :: label
  c_opts :: proxy_options
  relayDecoder :: decoder
  guestRendezvousDecoder :: decoder
  guestRelayBuffer :: "byte list"
  guestRelayValidated :: bool
  guestSessionConsumed :: bool
  guestOpenedReported :: bool
  guestValidationTimer :: "int option"
  idleTimer :: bool
  registered :: bool
  cleaned :: bool
  reported :: "(string \<times> string) list"
  tcp_out :: "byte list"
  ws_out :: "byte list list"
  suspended :: "(nat \<times> byte list) list"

record proxy =
  connectionsPerIp :: "string \<Rightarrow> nat option"
  conns :: "nat \<Rightarrow> conn option"
  conn_ids :: "nat list"
  activeGuestBridges :: "string \<Rightarrow> nat list option"
  guestSessionStates :: "string \<Rightarrow> nat option"
  promise_key :: "nat \<Rightarrow> string option"
  fulfilled :: "nat list"
  next_promise :: nat
  consume_posts :: "(string \<times> string) list"

definition empty_proxy :: proxy where
  "empty_proxy = \<lparr>connectionsPerIp = (\<lambda>_. None), conns = (\<lambda>_. None), conn_ids = [], activeGuestBridges = (\<lambda>_. None),
     guestSessionStates = (\<lambda>_. None), promise_key = (\<lambda>_. None), fulfilled = [], next_promise = 0, consume_posts = []\<rparr>"

text \<open>\<open>reportGuestEvent\<close> posts an audit event for a guest.\<close>

definition reportGuestEvent :: "string \<Rightarrow> string \<Rightarrow> conn \<Rightarrow> conn" where
  "reportGuestEvent event reason c =
     (if guestGrant (c_opts c) = None \<or> guestPeerId (c_opts c) = [] then c
      else c\<lparr>reported := reported c @ [(event, reason)]\<rparr>)"

text \<open>\<open>registerGuestBridge\<close>, the function it returns, and the part of \<open>cleanup\<close> on the connection itself.\<close>

definition registerGuestBridge :: "string \<Rightarrow> nat \<Rightarrow> proxy \<Rightarrow> proxy" where
  "registerGuestBridge gid cid p =
     (if gid = [] then p
      else p\<lparr>activeGuestBridges := (activeGuestBridges p)
               (gid \<mapsto> (case activeGuestBridges p gid of None \<Rightarrow> [] | Some bs \<Rightarrow> bs) @ [cid])\<rparr>)"

definition unregisterGuestBridge :: "string \<Rightarrow> nat \<Rightarrow> proxy \<Rightarrow> proxy" where
  "unregisterGuestBridge gid cid p =
     (case activeGuestBridges p gid of
        None \<Rightarrow> p
      | Some bs \<Rightarrow>
          let bs' = filter (\<lambda>i. i \<noteq> cid) bs in
          p\<lparr>activeGuestBridges := (activeGuestBridges p)(gid := (if bs' = [] then None else Some bs'))\<rparr>)"

definition close_conn :: "string \<Rightarrow> conn \<Rightarrow> conn" where
  "close_conn cause c =
     (let c1 = c\<lparr>cleaned := True, idleTimer := False, guestValidationTimer := None\<rparr> in
      if guestOpenedReported c then reportGuestEvent ''closed'' cause c1 else c1)"

definition conn_grant_id :: "conn \<Rightarrow> string" where
  "conn_grant_id c = (case guestGrant (c_opts c) of None \<Rightarrow> [] | Some g \<Rightarrow> grant_id g)"

definition cleanup :: "string \<Rightarrow> nat \<Rightarrow> proxy \<Rightarrow> proxy" where
  "cleanup cause cid p =
     (case conns p cid of
        None \<Rightarrow> p
      | Some c \<Rightarrow>
          if cleaned c then p
          else
            let p1 = (if registered c then unregisterGuestBridge (conn_grant_id c) cid p else p);
                count = (case connectionsPerIp p (clientIp c) of None \<Rightarrow> 1 | Some n \<Rightarrow> if n = 0 then 1 else n)
            in p1\<lparr>conns := (conns p)(cid \<mapsto> close_conn cause c),
                  connectionsPerIp := (connectionsPerIp p)
                    (clientIp c := (if count \<le> 1 then None else Some (count - 1)))\<rparr>)"

text \<open>A handler of one connection gives the connection's new state and, when it ends it, the cause.\<close>

definition finish :: "nat \<Rightarrow> conn \<times> string option \<Rightarrow> proxy \<Rightarrow> proxy" where
  "finish cid r p =
     (let p1 = p\<lparr>conns := (conns p)(cid \<mapsto> fst r)\<rparr> in
      case snd r of None \<Rightarrow> p1 | Some cause \<Rightarrow> cleanup cause cid p1)"

definition client_ip :: "string option \<Rightarrow> string option \<Rightarrow> string" where
  "client_ip forwarded remote =
     (let f = (case forwarded of None \<Rightarrow> [] | Some h \<Rightarrow> js_trim (hd (split_on CHR '','' h))) in
      if f \<noteq> [] then f else if remote = None \<or> remote = Some [] then ''unknown'' else the remote)"

definition new_conn :: "string \<Rightarrow> label \<Rightarrow> proxy_options \<Rightarrow> conn" where
  "new_conn ip lab opts =
     \<lparr>clientIp = ip, c_label = lab, c_opts = opts, relayDecoder = new_decoder, guestRendezvousDecoder = new_decoder,
      guestRelayBuffer = [], guestRelayValidated = False, guestSessionConsumed = False, guestOpenedReported = False,
      guestValidationTimer = None, idleTimer = False, registered = False, cleaned = False, reported = [],
      tcp_out = [], ws_out = [], suspended = []\<rparr>"

text \<open>The body of \<open>handleProxyConnection\<close> up to its event handlers; the first revalidation is a step of
  its own, when the answer comes.\<close>

definition handleProxyConnection ::
  "nat \<Rightarrow> string \<Rightarrow> label \<Rightarrow> proxy_options \<Rightarrow> proxy \<Rightarrow> proxy" where
  "handleProxyConnection cid ip lab opts p =
     (let currentCount = (case connectionsPerIp p ip of None \<Rightarrow> 0 | Some n \<Rightarrow> n) in
      if currentCount \<ge> MAX_CONNECTIONS_PER_IP then p
      else
        let c = new_conn ip lab opts;
            gid = conn_grant_id c;
            guest = (guestGrant opts \<noteq> None \<and> guestToken opts \<noteq> [] \<and> guestPeerId opts \<noteq> []);
            p1 = p\<lparr>connectionsPerIp := (connectionsPerIp p)(ip \<mapsto> currentCount + 1),
                    conns := (conns p)(cid \<mapsto> c\<lparr>registered := guest \<and> gid \<noteq> []\<rparr>),
                    conn_ids := conn_ids p @ [cid]\<rparr>
        in if guest then registerGuestBridge gid cid p1 else p1)"


section \<open>Traffic\<close>

text \<open>TCP to WebSocket.\<close>

definition on_tcp_data :: "(nat \<Rightarrow> byte list) \<Rightarrow> byte list \<Rightarrow> conn \<Rightarrow> conn \<times> string option" where
  "on_tcp_data alloc data c0 =
     (let c = c0\<lparr>idleTimer := True\<rparr> in
      if cleaned c then (c, None)
      else if \<not> messageTransport (c_opts c) then (c\<lparr>ws_out := ws_out c @ [data]\<rparr>, None)
      else case feed alloc data (relayDecoder c) of
        (Inl e, d) \<Rightarrow> (c\<lparr>relayDecoder := d\<rparr>, Some ''invalid-tcp-frame'')
      | (Inr fs, d) \<Rightarrow> (c\<lparr>relayDecoder := d, ws_out := ws_out c @ fs\<rparr>, None))"

text \<open>The loop over the frames of a guest: \<open>None\<close> when one is refused, otherwise whether one opens a
  session.\<close>

fun check_frames :: "msg_decoder \<Rightarrow> string \<Rightarrow> byte list list \<Rightarrow> bool option" where
  "check_frames dec peer [] = Some False"
| "check_frames dec peer (f # fs) =
     (case dec f of
        None \<Rightarrow> None
      | Some m \<Rightarrow>
          if \<not> guestTargetMatches (Some m) peer then None
          else map_option (\<lambda>o'. opens_session m \<or> o') (check_frames dec peer fs))"

datatype verdict = Refused string | Incomplete | Passed bool

definition guest_filter :: "msg_decoder \<Rightarrow> (nat \<Rightarrow> byte list) \<Rightarrow> byte list \<Rightarrow> conn \<Rightarrow> verdict \<times> conn" where
  "guest_filter dec alloc buf c =
     (if guestGrant (c_opts c) = None then (Passed False, c)
      else if c_label c = Rendezvous then
        (case feed alloc buf (guestRendezvousDecoder c) of
           (Inl e, d) \<Rightarrow> (Refused ''invalid-ws-frame'', c\<lparr>guestRendezvousDecoder := d\<rparr>)
         | (Inr fs, d) \<Rightarrow>
             ((case check_frames dec (guestPeerId (c_opts c)) fs of
                 None \<Rightarrow> Refused ''guest-target-mismatch''
               | Some opening \<Rightarrow> Passed opening), c\<lparr>guestRendezvousDecoder := d\<rparr>))
      else if \<not> guestRelayValidated c then
        (if length (guestRelayBuffer c) + length buf > 1024 * 1024 then (Refused ''guest-invalid-relay-frame'', c)
         else
           let c1 = c\<lparr>guestRelayBuffer := guestRelayBuffer c @ buf\<rparr> in
           case dec (guestRelayBuffer c1) of
             None \<Rightarrow> (Incomplete, c1)
           | Some m \<Rightarrow>
               if requestRelay m \<noteq> Some (guestPeerId (c_opts c)) then (Refused ''guest-target-mismatch'', c1)
               else (Passed True, c1\<lparr>guestRelayValidated := True\<rparr>))
      else (Passed False, c))"

definition write_tcp :: "byte list \<Rightarrow> conn \<Rightarrow> conn \<times> string option" where
  "write_tcp buf c =
     (if messageTransport (c_opts c) then
        (case encodeRelayFrame buf of
           Inl e \<Rightarrow> (c, Some ''invalid-ws-frame'')
         | Inr f \<Rightarrow> (c\<lparr>tcp_out := tcp_out c @ f\<rparr>, None))
      else (c\<lparr>tcp_out := tcp_out c @ buf\<rparr>, None))"

text \<open>The message handler after its \<open>await\<close>.\<close>

definition resume :: "bool \<Rightarrow> byte list \<Rightarrow> conn \<Rightarrow> conn \<times> string option" where
  "resume ok buf c =
     (if \<not> ok then (c, Some ''guest-use-rejected'')
      else if cleaned c then (c, None)
      else
        let c1 = c\<lparr>guestSessionConsumed := True\<rparr>;
            c2 = (if guestOpenedReported c1 then c1
                  else reportGuestEvent ''opened'' [] (c1\<lparr>guestOpenedReported := True\<rparr>))
        in write_tcp buf c2)"

text \<open>The handlers that wait for a promise continue in order; after one ends the connection the others
  have no effect.\<close>

fun resume_all :: "bool \<Rightarrow> byte list list \<Rightarrow> conn \<Rightarrow> conn \<times> string option" where
  "resume_all ok [] c = (c, None)"
| "resume_all ok (b # bs) c =
     (case resume ok b c of
        (c', None) \<Rightarrow> resume_all ok bs c'
      | (c', Some why) \<Rightarrow> (c', Some why))"

definition session_key :: "grant \<Rightarrow> string \<Rightarrow> string" where
  "session_key g sid = (if grant_id g = [] then ''unknown'' else grant_id g) @ [CHR 0x00] @ sid"

text \<open>\<open>consumeGuestSession\<close>: the promise to wait for.\<close>

definition consumeGuestSession :: "grant \<Rightarrow> string \<Rightarrow> string \<Rightarrow> string \<Rightarrow> proxy \<Rightarrow> nat \<times> proxy" where
  "consumeGuestSession g token peerId sid p =
     (let key = session_key g sid in
      case guestSessionStates p key of
        Some q \<Rightarrow> (q, p)
      | None \<Rightarrow>
          let q = next_promise p in
          (q, p\<lparr>guestSessionStates := (guestSessionStates p)(key \<mapsto> q), promise_key := (promise_key p)(q \<mapsto> key),
                next_promise := Suc q, consume_posts := consume_posts p @ [(token, peerId)]\<rparr>))"

text \<open>WebSocket to TCP.\<close>

definition on_ws_message :: "msg_decoder \<Rightarrow> (nat \<Rightarrow> byte list) \<Rightarrow> nat \<Rightarrow> byte list \<Rightarrow> proxy \<Rightarrow> proxy" where
  "on_ws_message dec alloc cid buf p =
     (case conns p cid of
        None \<Rightarrow> p
      | Some c0 \<Rightarrow>
          let c = c0\<lparr>idleTimer := True\<rparr> in
          if cleaned c then finish cid (c, None) p
          else case guest_filter dec alloc buf c of
            (Refused why, c1) \<Rightarrow> finish cid (c1, Some why) p
          | (Incomplete, c1) \<Rightarrow> finish cid (c1, None) p
          | (Passed opening, c1) \<Rightarrow>
              (case guestGrant (c_opts c1) of
                 None \<Rightarrow> finish cid (write_tcp buf c1) p
               | Some g \<Rightarrow>
                   if opening \<and> \<not> guestSessionConsumed c1 then
                     let (q, p1) = consumeGuestSession g (guestToken (c_opts c1)) (guestPeerId (c_opts c1))
                                     (guestSessionId (c_opts c1)) p
                     in if q \<in> set (fulfilled p1) then finish cid (resume True buf c1) p1
                        else finish cid (c1\<lparr>suspended := suspended c1 @ [(q, buf)]\<rparr>, None) p1
                   else finish cid (write_tcp buf c1) p))"

text \<open>A promise settles: the Go server has answered the request to consume the grant.\<close>

definition continue_conn :: "nat \<Rightarrow> bool \<Rightarrow> nat \<Rightarrow> proxy \<Rightarrow> proxy" where
  "continue_conn q ok cid p =
     (case conns p cid of
        None \<Rightarrow> p
      | Some c \<Rightarrow>
          finish cid
            (resume_all ok (map snd (filter (\<lambda>w. fst w = q) (suspended c)))
               (c\<lparr>suspended := filter (\<lambda>w. fst w \<noteq> q) (suspended c)\<rparr>)) p)"

definition settle :: "nat \<Rightarrow> bool \<Rightarrow> proxy \<Rightarrow> proxy" where
  "settle q ok p =
     (case promise_key p q of
        None \<Rightarrow> p
      | Some key \<Rightarrow>
          let p1 = p\<lparr>promise_key := (promise_key p)(q := None),
                     fulfilled := (if ok then q # fulfilled p else fulfilled p),
                     guestSessionStates := (if ok then guestSessionStates p
                                            else (guestSessionStates p)(key := None))\<rparr>
          in fold (continue_conn q ok) (conn_ids p1) p1)"


section \<open>Revalidation and revocation\<close>

text \<open>The answer to a revalidation request: \<open>None\<close> when the request failed.\<close>

definition revalidateGuestGrant :: "bool option \<Rightarrow> int \<Rightarrow> conn \<Rightarrow> conn \<times> string option" where
  "revalidateGuestGrant valid now c =
     (if cleaned c then (c, None)
      else if valid = Some False then (c, Some ''guest-grant-invalid'')
      else
        let remaining = (case guestGrant (c_opts c) of
                           None \<Rightarrow> 0
                         | Some g \<Rightarrow> (case expires_at g of None \<Rightarrow> 0 | Some e \<Rightarrow> e - now))
        in if remaining \<le> 0 then (c, Some ''guest-grant-expired'')
           else (c\<lparr>guestValidationTimer := Some (min GUEST_REVALIDATION_INTERVAL_MS remaining)\<rparr>, None))"

definition invalidateGuestGrant :: "string \<Rightarrow> proxy \<Rightarrow> nat \<times> proxy" where
  "invalidateGuestGrant gid p =
     (let p1 = p\<lparr>guestSessionStates := (\<lambda>key. if startsWith key (gid @ [CHR 0x00]) then None
                                            else guestSessionStates p key)\<rparr> in
      case activeGuestBridges p gid of
        None \<Rightarrow> (0, p1)
      | Some bs \<Rightarrow>
          let p2 = fold (cleanup ''guest-grant-revoked'') bs p1 in
          ((case activeGuestBridges p2 gid of None \<Rightarrow> 0 | Some bs' \<Rightarrow> length bs'), p2))"


section \<open>Runs\<close>

datatype proxy_event =
    Connect nat string label proxy_options
  | TcpData nat "byte list"
  | WsMessage nat "byte list"
  | Settle nat bool
  | KeyExpired string
  | Ended nat string
  | Revalidated nat "bool option" int
  | Revoke string

definition on_conn :: "nat \<Rightarrow> (conn \<Rightarrow> conn \<times> string option) \<Rightarrow> proxy \<Rightarrow> proxy" where
  "on_conn cid f p = (case conns p cid of None \<Rightarrow> p | Some c \<Rightarrow> finish cid (f c) p)"

text \<open>\<open>Ended\<close> stands for the events whose handler only runs \<open>cleanup\<close>: the closing and the errors of the
  two sockets and the idle timer.\<close>

fun proxy_step :: "msg_decoder \<Rightarrow> (nat \<Rightarrow> byte list) \<Rightarrow> proxy_event \<Rightarrow> proxy \<Rightarrow> proxy" where
  "proxy_step dec alloc (Connect cid ip lab opts) p =
     (if conns p cid = None \<and> cid \<notin> set (conn_ids p) then handleProxyConnection cid ip lab opts p else p)"
| "proxy_step dec alloc (TcpData cid data) p = on_conn cid (on_tcp_data alloc data) p"
| "proxy_step dec alloc (WsMessage cid buf) p = on_ws_message dec alloc cid buf p"
| "proxy_step dec alloc (Settle q ok) p = settle q ok p"
| "proxy_step dec alloc (KeyExpired key) p = p\<lparr>guestSessionStates := (guestSessionStates p)(key := None)\<rparr>"
| "proxy_step dec alloc (Ended cid cause) p = cleanup cause cid p"
| "proxy_step dec alloc (Revalidated cid valid now) p = on_conn cid (revalidateGuestGrant valid now) p"
| "proxy_step dec alloc (Revoke gid) p = snd (invalidateGuestGrant gid p)"

definition proxy_run :: "msg_decoder \<Rightarrow> (nat \<Rightarrow> byte list) \<Rightarrow> proxy_event list \<Rightarrow> proxy \<Rightarrow> proxy" where
  "proxy_run dec alloc evs p = fold (proxy_step dec alloc) evs p"


section \<open>What a handler may change\<close>

text \<open>A handler of a connection leaves its identity and its end alone; an ended connection carries no
  traffic any more.\<close>

definition evolves :: "conn \<Rightarrow> conn \<Rightarrow> bool" where
  "evolves c c' = (clientIp c' = clientIp c \<and> c_label c' = c_label c \<and> c_opts c' = c_opts c \<and> registered c' = registered c
     \<and> (cleaned c \<longrightarrow> cleaned c' \<and> tcp_out c' = tcp_out c \<and> ws_out c' = ws_out c))"

definition handles :: "conn \<Rightarrow> conn \<Rightarrow> bool" where
  "handles c c' = (evolves c c' \<and> cleaned c' = cleaned c)"

definition closed :: "string \<Rightarrow> conn \<Rightarrow> conn" where
  "closed why c = (if cleaned c then c else close_conn why c)"

lemma evolves_refl [simp]: "evolves c c"
  by (simp add: evolves_def)

lemma evolves_trans: "evolves a b \<Longrightarrow> evolves b c \<Longrightarrow> evolves a c"
  by (auto simp: evolves_def)

lemma handles_refl [simp]: "handles c c"
  by (simp add: handles_def)

lemma handles_trans: "handles a b \<Longrightarrow> handles b c \<Longrightarrow> handles a c"
  by (auto simp: handles_def intro: evolves_trans)

lemma close_conn_fields [simp]:
  "cleaned (close_conn w c)" "tcp_out (close_conn w c) = tcp_out c" "ws_out (close_conn w c) = ws_out c"
  "clientIp (close_conn w c) = clientIp c" "c_label (close_conn w c) = c_label c" "c_opts (close_conn w c) = c_opts c"
  "registered (close_conn w c) = registered c" "suspended (close_conn w c) = suspended c"
  "guestSessionConsumed (close_conn w c) = guestSessionConsumed c"
  "guestRendezvousDecoder (close_conn w c) = guestRendezvousDecoder c"
  by (simp_all add: close_conn_def reportGuestEvent_def Let_def)

lemma evolves_closed [simp]: "evolves c (closed w c)" "cleaned (closed w c)"
  by (simp_all add: closed_def evolves_def)

lemma handles_tcp_data: "handles c (fst (on_tcp_data alloc data c))"
  by (auto simp: on_tcp_data_def handles_def evolves_def Let_def split: prod.splits sum.splits)

lemma handles_filter: "\<not> cleaned c \<Longrightarrow> handles c (snd (guest_filter dec alloc buf c))"
  by (auto simp: guest_filter_def handles_def evolves_def Let_def split: prod.splits sum.splits option.splits)

lemma handles_write: "\<not> cleaned c \<Longrightarrow> handles c (fst (write_tcp buf c))"
  by (auto simp: write_tcp_def handles_def evolves_def split: sum.splits)

lemma handles_revalidate: "handles c (fst (revalidateGuestGrant v now c))"
  by (auto simp: revalidateGuestGrant_def handles_def evolves_def Let_def split: option.splits)

lemma handles_suspended: "handles c (c\<lparr>suspended := w\<rparr>)"
  by (simp add: handles_def evolves_def)

lemma handles_idle: "handles c (c\<lparr>idleTimer := b\<rparr>)"
  by (simp add: handles_def evolves_def)

lemma handles_resume: "handles c (fst (resume ok b c))"
proof -
  let ?c1 = "c\<lparr>guestSessionConsumed := True\<rparr>"
  let ?c2 = "if guestOpenedReported ?c1 then ?c1 else reportGuestEvent ''opened'' [] (?c1\<lparr>guestOpenedReported := True\<rparr>)"
  have "handles c ?c2" by (simp add: handles_def evolves_def reportGuestEvent_def)
  then show ?thesis
    using handles_trans [OF _ handles_write, of c ?c2 b] by (auto simp: resume_def Let_def handles_def)
qed

lemma handles_resume_all: "handles c (fst (resume_all ok bs c))"
proof (induction bs arbitrary: c)
  case (Cons b bs)
  obtain c' w where r: "resume ok b c = (c', w)" by (cases "resume ok b c")
  have "handles c c'" using handles_resume [of c ok b] r by simp
  with Cons [of c'] r show ?case by (cases w) (auto intro: handles_trans)
qed simp

lemma conns_unregister [simp]:
  "conns (unregisterGuestBridge g i p) = conns p" "connectionsPerIp (unregisterGuestBridge g i p) = connectionsPerIp p"
  "conn_ids (unregisterGuestBridge g i p) = conn_ids p"
  "guestSessionStates (unregisterGuestBridge g i p) = guestSessionStates p"
  by (simp_all add: unregisterGuestBridge_def Let_def split: option.splits)

lemma conns_register [simp]:
  "conns (registerGuestBridge g i p) = conns p" "connectionsPerIp (registerGuestBridge g i p) = connectionsPerIp p"
  "conn_ids (registerGuestBridge g i p) = conn_ids p"
  by (simp_all add: registerGuestBridge_def)

lemma conns_cleanup:
  "conns (cleanup w cid p) = (case conns p cid of None \<Rightarrow> conns p | Some c \<Rightarrow> (conns p)(cid \<mapsto> closed w c))"
  by (auto simp: cleanup_def closed_def Let_def split: option.splits)

definition final :: "conn \<times> string option \<Rightarrow> conn" where
  "final r = (case snd r of None \<Rightarrow> fst r | Some w \<Rightarrow> closed w (fst r))"

lemma conns_finish: "conns (finish cid r p) = (conns p)(cid \<mapsto> final r)"
  by (auto simp: finish_def final_def conns_cleanup Let_def split: option.splits)

lemma conn_ids_finish [simp]: "conn_ids (cleanup w cid p) = conn_ids p" "conn_ids (finish cid r p) = conn_ids p"
  by (simp_all add: finish_def cleanup_def Let_def split: option.splits)

lemma evolves_final: "handles c (fst r) \<Longrightarrow> evolves c (final r)"
  by (auto simp: final_def handles_def intro: evolves_trans split: option.splits)

text \<open>What steps do to one connection: it appears with its registration, and handlers may end it.\<close>

definition has_guest_grant :: "conn \<Rightarrow> bool" where
  "has_guest_grant c = (conn_grant_id c \<noteq> [] \<and> guestGrant (c_opts c) \<noteq> None \<and> guestToken (c_opts c) \<noteq> [] \<and> guestPeerId (c_opts c) \<noteq> [])"

definition steps_to :: "conn option \<Rightarrow> conn option \<Rightarrow> bool" where
  "steps_to x y =
     (case x of
        None \<Rightarrow> (case y of None \<Rightarrow> True | Some c' \<Rightarrow> registered c' = has_guest_grant c')
      | Some c \<Rightarrow> (\<exists>c'. y = Some c' \<and> evolves c c'))"

lemma evolves_registered: "evolves c c' \<Longrightarrow> registered c' = registered c \<and> has_guest_grant c' = has_guest_grant c"
  by (simp add: evolves_def has_guest_grant_def conn_grant_id_def)

lemma steps_to_refl [simp]: "steps_to x x"
  by (simp add: steps_to_def split: option.splits)

lemma steps_to_trans: "steps_to x y \<Longrightarrow> steps_to y z \<Longrightarrow> steps_to x z"
  by (auto simp: steps_to_def dest: evolves_registered intro: evolves_trans split: option.splits)

lemma steps_finish: "conns p cid = Some c \<Longrightarrow> handles c (fst r) \<Longrightarrow> steps_to (conns p i) (conns (finish cid r p) i)"
  by (auto simp: conns_finish steps_to_def evolves_final split: option.splits)

lemma steps_cleanup: "steps_to (conns p i) (conns (cleanup w cid p) i)"
  by (auto simp: conns_cleanup steps_to_def split: option.splits)

lemma steps_fold:
  assumes "\<And>x p. steps_to (conns p i) (conns (f x p) i)"
  shows "steps_to (conns p i) (conns (fold f xs p) i)"
proof (induction xs arbitrary: p)
  case (Cons x xs)
  show ?case using steps_to_trans [OF assms Cons] by simp
qed simp

lemma steps_continue: "steps_to (conns p i) (conns (continue_conn q ok cid p) i)"
proof (cases "conns p cid")
  case (Some c)
  have "handles c (fst (resume_all ok bs (c\<lparr>suspended := w\<rparr>)))" for bs w
    by (rule handles_trans [OF handles_suspended handles_resume_all])
  with Some show ?thesis by (simp add: continue_conn_def steps_finish)
qed (simp add: continue_conn_def)

lemma conns_consume [simp]: "conns (snd (consumeGuestSession g t pe s p)) = conns p"
  by (simp add: consumeGuestSession_def Let_def split: option.splits)


text \<open>The tables that the message handler leaves to \<open>finish\<close>.\<close>

definition same_tables :: "proxy \<Rightarrow> proxy \<Rightarrow> bool" where
  "same_tables p p1 = (conns p1 = conns p \<and> connectionsPerIp p1 = connectionsPerIp p \<and> conn_ids p1 = conn_ids p
     \<and> activeGuestBridges p1 = activeGuestBridges p)"

lemma same_tables_refl [simp]: "same_tables p p"
  by (simp add: same_tables_def)

lemma same_tables_consume: "same_tables p (snd (consumeGuestSession g t pe s p))"
  by (simp add: consumeGuestSession_def same_tables_def Let_def split: option.splits)

text \<open>The message handler on a live connection: what the filter decides and what follows from it.\<close>

lemma ws_message_cases:
  assumes "conns p cid = Some c0" "\<not> cleaned c0"
    and "guest_filter dec alloc buf (c0\<lparr>idleTimer := True\<rparr>) = (v, c1)"
  obtains (refused) why where "v = Refused why" "on_ws_message dec alloc cid buf p = finish cid (c1, Some why) p"
    | (incomplete) "v = Incomplete" "on_ws_message dec alloc cid buf p = finish cid (c1, None) p"
    | (written) op where "v = Passed op" "guestGrant (c_opts c1) = None \<or> \<not> op \<or> guestSessionConsumed c1"
        "on_ws_message dec alloc cid buf p = finish cid (write_tcp buf c1) p"
    | (resumed) p1 where "v = Passed True" "same_tables p p1" "on_ws_message dec alloc cid buf p = finish cid (resume True buf c1) p1"
    | (suspended) p1 q where "v = Passed True" "same_tables p p1" "\<not> guestSessionConsumed c1" "guestGrant (c_opts c1) \<noteq> None"
        "on_ws_message dec alloc cid buf p = finish cid (c1\<lparr>suspended := suspended c1 @ [(q, buf)]\<rparr>, None) p1"
proof -
  note unf = on_ws_message_def assms(1,3) Let_def
  show thesis
  proof (cases v)
    case (Refused why)
    then show ?thesis using that(1) [of why] assms(2) by (simp add: unf)
  next
    case Incomplete
    then show ?thesis using that(2) assms(2) by (simp add: unf)
  next
    case (Passed op)
    show ?thesis
    proof (cases "guestGrant (c_opts c1) = None \<or> \<not> op \<or> guestSessionConsumed c1")
      case True
      with Passed show ?thesis using that(3) [of op] assms(2) by (auto simp: unf split: option.splits)
    next
      case False
      then obtain g where g: "guestGrant (c_opts c1) = Some g" "op" "\<not> guestSessionConsumed c1" by auto
      obtain q p1 where q: "consumeGuestSession g (guestToken (c_opts c1)) (guestPeerId (c_opts c1)) (guestSessionId (c_opts c1)) p = (q, p1)"
        by fastforce
      have st: "same_tables p p1"
        using same_tables_consume [of p g "guestToken (c_opts c1)" "guestPeerId (c_opts c1)" "guestSessionId (c_opts c1)"] q by simp
      show ?thesis
      proof (cases "q \<in> set (fulfilled p1)")
        case True
        then show ?thesis using that(4) [OF _ st] g q Passed assms(2) by (simp add: unf)
      next
        case False
        then show ?thesis using that(5) [OF _ st, of q] g q Passed assms(2) by (simp add: unf)
      qed
    qed
  qed
qed

lemma ws_message_finish:
  assumes "conns p cid = Some c0"
  obtains r p1 where "on_ws_message dec alloc cid buf p = finish cid r p1" "same_tables p p1" "handles c0 (fst r)"
proof (cases "cleaned c0")
  case True
  with assms show thesis
    using that [of "(c0\<lparr>idleTimer := True\<rparr>, None)" p] handles_idle by (simp add: on_ws_message_def Let_def)
next
  case live: False
  let ?c = "c0\<lparr>idleTimer := True\<rparr>"
  obtain v c1 where f: "guest_filter dec alloc buf ?c = (v, c1)" by (cases "guest_filter dec alloc buf ?c")
  have "handles ?c c1" using handles_filter [of ?c dec alloc buf] live f by simp
  then have h: "handles c0 c1" using handles_trans [OF handles_idle] by blast
  then have live1: "\<not> cleaned c1" using live by (simp add: handles_def)
  from assms live f show thesis
  proof (cases rule: ws_message_cases)
    case refused
    then show ?thesis using that [of _ p] h by simp
  next
    case incomplete
    then show ?thesis using that [of _ p] h by simp
  next
    case written
    then show ?thesis using that [of _ p] handles_trans [OF h handles_write [OF live1]] by simp
  next
    case (resumed p1)
    then show ?thesis using that [of _ p1] handles_trans [OF h handles_resume] by simp
  next
    case (suspended p1)
    then show ?thesis using that [of _ p1] handles_trans [OF h handles_suspended] by simp
  qed
qed

lemma proxy_step_conn: "steps_to (conns p i) (conns (proxy_step dec alloc ev p) i)"
proof (cases ev)
  case (Connect cid ip lab opts)
  then show ?thesis
    by (auto simp: handleProxyConnection_def Let_def steps_to_def has_guest_grant_def conn_grant_id_def new_conn_def
        split: option.splits)
next
  case (TcpData cid data)
  then show ?thesis
    by (cases "conns p cid") (auto simp: on_conn_def steps_finish handles_tcp_data)
next
  case (WsMessage cid buf)
  show ?thesis
  proof (cases "conns p cid")
    case (Some c0)
    from ws_message_finish [OF this] obtain r p1 where
      r: "on_ws_message dec alloc cid buf p = finish cid r p1" "same_tables p p1" "handles c0 (fst r)" by metis
    then show ?thesis using steps_finish [of p1 cid c0 r i] Some by (simp add: WsMessage same_tables_def)
  qed (simp add: WsMessage on_ws_message_def)
next
  case (Settle q ok)
  have "steps_to (conns p i) (conns (fold (continue_conn q b) xs p1) i)" if "conns p1 = conns p" for p1 xs b
    using steps_fold [of i "continue_conn q b" p1 xs] steps_continue that by simp
  then show ?thesis by (simp add: Settle settle_def Let_def split: option.splits)
next
  case (Revalidated cid v now)
  then show ?thesis
    by (cases "conns p cid") (auto simp: on_conn_def steps_finish handles_revalidate)
next
  case (Revoke gid)
  have "steps_to (conns p i) (conns (fold (cleanup w) xs p1) i)" if "conns p1 = conns p" for p1 xs w
    using steps_fold [of i "cleanup w" p1 xs] steps_cleanup that by simp
  then show ?thesis by (simp add: Revoke invalidateGuestGrant_def Let_def split: option.splits)
qed (simp_all add: steps_cleanup)

lemma proxy_run_conn: "steps_to (conns p i) (conns (proxy_run dec alloc evs p) i)"
  unfolding proxy_run_def by (rule steps_fold) (rule proxy_step_conn)


section \<open>The tables agree with the connections\<close>

definition live_conns :: "proxy \<Rightarrow> string \<Rightarrow> nat list" where
  "live_conns p ip = filter (\<lambda>i. case conns p i of None \<Rightarrow> False | Some c \<Rightarrow> \<not> cleaned c \<and> clientIp c = ip) (conn_ids p)"

definition counts_ok :: "proxy \<Rightarrow> bool" where
  "counts_ok p = (\<forall>ip. length (live_conns p ip) \<le> MAX_CONNECTIONS_PER_IP
     \<and> connectionsPerIp p ip = (if live_conns p ip = [] then None else Some (length (live_conns p ip))))"

definition bridges_ok :: "proxy \<Rightarrow> bool" where
  "bridges_ok p = (\<forall>i c. conns p i = Some c \<and> registered c \<and> \<not> cleaned c \<longrightarrow>
     (\<exists>bs. activeGuestBridges p (conn_grant_id c) = Some bs \<and> i \<in> set bs))"

definition proxy_inv :: "proxy \<Rightarrow> bool" where
  "proxy_inv p = (distinct (conn_ids p) \<and> (\<forall>i. conns p i \<noteq> None \<longrightarrow> i \<in> set (conn_ids p)) \<and> counts_ok p \<and> bridges_ok p)"

lemma proxy_inv_tables: "same_tables p p1 \<Longrightarrow> proxy_inv p1 = proxy_inv p"
  by (simp add: same_tables_def proxy_inv_def counts_ok_def bridges_ok_def live_conns_def)

lemma proxy_inv_put:
  assumes "proxy_inv p" "conns p cid = Some c" "handles c c'"
  shows "proxy_inv (p\<lparr>conns := (conns p)(cid \<mapsto> c')\<rparr>)"
proof -
  let ?p = "p\<lparr>conns := (conns p)(cid \<mapsto> c')\<rparr>"
  have h: "clientIp c' = clientIp c" "cleaned c' = cleaned c" "registered c' = registered c" "conn_grant_id c' = conn_grant_id c"
    using assms(3) by (auto simp: handles_def evolves_def conn_grant_id_def)
  have "live_conns ?p ip = live_conns p ip" for ip
    unfolding live_conns_def using assms(2) h by (auto intro!: filter_cong)
  moreover have "bridges_ok ?p" using assms(1,2) h by (auto simp: proxy_inv_def bridges_ok_def)
  ultimately show ?thesis using assms(1,2) by (auto simp: proxy_inv_def counts_ok_def)
qed

lemma filter_remove1: "distinct xs \<Longrightarrow> i \<in> set xs \<Longrightarrow> P i \<Longrightarrow> (\<And>j. j \<noteq> i \<Longrightarrow> Q j = P j) \<Longrightarrow> \<not> Q i
    \<Longrightarrow> Suc (length (filter Q xs)) = length (filter P xs)"
proof (induction xs)
  case (Cons x xs)
  show ?case
  proof (cases "x = i")
    case True
    with Cons(2,5) have "filter Q xs = filter P xs" by (intro filter_cong refl) (metis distinct.simps(2))
    with True Cons show ?thesis by simp
  next
    case False
    with Cons have "Suc (length (filter Q xs)) = length (filter P xs)" by auto
    with Cons(5) [OF False] show ?thesis by simp
  qed
qed simp

lemma proxy_inv_bridge:
  "proxy_inv p \<Longrightarrow> conns p i = Some c \<Longrightarrow> registered c \<Longrightarrow> \<not> cleaned c
    \<Longrightarrow> \<exists>bs. activeGuestBridges p (conn_grant_id c) = Some bs \<and> i \<in> set bs"
  unfolding proxy_inv_def bridges_ok_def by blast

lemma unregister_others:
  "activeGuestBridges p g = Some bs \<Longrightarrow> i \<in> set bs \<Longrightarrow> i \<noteq> cid
    \<Longrightarrow> \<exists>bs'. activeGuestBridges (unregisterGuestBridge g' cid p) g = Some bs' \<and> i \<in> set bs'"
  by (auto simp: unregisterGuestBridge_def Let_def filter_empty_conv split: option.splits)

lemma cleanup_bridges:
  "activeGuestBridges p g = Some bs \<Longrightarrow> i \<in> set bs \<Longrightarrow> i \<noteq> cid
    \<Longrightarrow> \<exists>bs'. activeGuestBridges (cleanup w cid p) g = Some bs' \<and> i \<in> set bs'"
  by (simp add: cleanup_def Let_def unregister_others split: option.splits)

lemma proxy_inv_cleanup:
  assumes "proxy_inv p"
  shows "proxy_inv (cleanup w cid p)"
proof (cases "\<exists>c. conns p cid = Some c \<and> \<not> cleaned c")
  case True
  then obtain c where c: "conns p cid = Some c" "\<not> cleaned c" by blast
  let ?p = "cleanup w cid p"
  have cs: "conns ?p = (conns p)(cid \<mapsto> close_conn w c)" using c by (simp add: conns_cleanup closed_def)
  have ids: "cid \<in> set (conn_ids p)" "distinct (conn_ids p)" using assms c(1) by (auto simp: proxy_inv_def)
  let ?P = "\<lambda>i. case conns p i of None \<Rightarrow> False | Some d \<Rightarrow> \<not> cleaned d \<and> clientIp d = clientIp c"
  let ?Q = "\<lambda>i. case conns ?p i of None \<Rightarrow> False | Some d \<Rightarrow> \<not> cleaned d \<and> clientIp d = clientIp c"
  have "Suc (length (filter ?Q (conn_ids p))) = length (filter ?P (conn_ids p))"
    by (rule filter_remove1 [OF ids(2,1)]) (use c in \<open>simp_all add: cs\<close>)
  then have one: "length (live_conns p (clientIp c)) = Suc (length (live_conns ?p (clientIp c)))"
    by (simp add: live_conns_def)
  have other: "live_conns ?p ip = live_conns p ip" if "ip \<noteq> clientIp c" for ip
    unfolding live_conns_def using c that by (auto simp: cs intro!: filter_cong)
  have cp: "connectionsPerIp p (clientIp c) = Some (length (live_conns p (clientIp c)))"
    using assms one by (auto simp: proxy_inv_def counts_ok_def)
  have pos: "length (live_conns p (clientIp c)) \<noteq> 0" using one by simp
  have "connectionsPerIp ?p = (connectionsPerIp p)(clientIp c :=
      (if length (live_conns p (clientIp c)) \<le> 1 then None else Some (length (live_conns p (clientIp c)) - 1)))"
    using c pos by (simp add: cleanup_def Let_def cp)
  then have per: "connectionsPerIp ?p = (connectionsPerIp p)(clientIp c :=
      (if live_conns ?p (clientIp c) = [] then None else Some (length (live_conns ?p (clientIp c)))))"
    unfolding one by simp
  have cnt: "length (live_conns p ip) \<le> MAX_CONNECTIONS_PER_IP
      \<and> connectionsPerIp p ip = (if live_conns p ip = [] then None else Some (length (live_conns p ip)))" for ip
    using assms by (simp add: proxy_inv_def counts_ok_def)
  have "counts_ok ?p"
    unfolding counts_ok_def
  proof
    fix ip
    show "length (live_conns ?p ip) \<le> MAX_CONNECTIONS_PER_IP
      \<and> connectionsPerIp ?p ip = (if live_conns ?p ip = [] then None else Some (length (live_conns ?p ip)))"
      using cnt [of ip] one other [of ip] by (cases "ip = clientIp c") (simp_all add: per)
  qed
  moreover have "bridges_ok ?p"
    unfolding bridges_ok_def
  proof (intro allI impI)
    fix i d
    assume d: "conns ?p i = Some d \<and> registered d \<and> \<not> cleaned d"
    then have i: "i \<noteq> cid" "conns p i = Some d" by (auto simp: cs split: if_splits)
    with d proxy_inv_bridge [OF assms] obtain bs where "activeGuestBridges p (conn_grant_id d) = Some bs" "i \<in> set bs"
      by blast
    then show "\<exists>bs. activeGuestBridges ?p (conn_grant_id d) = Some bs \<and> i \<in> set bs"
      using cleanup_bridges i(1) by blast
  qed
  ultimately show ?thesis using assms c(1) by (auto simp: proxy_inv_def cs)
next
  case False
  then have "cleanup w cid p = p" by (auto simp: cleanup_def split: option.splits)
  with assms show ?thesis by simp
qed


lemma proxy_inv_finish:
  assumes "proxy_inv p" "conns p cid = Some c" "handles c (fst r)"
  shows "proxy_inv (finish cid r p)"
  using proxy_inv_put [OF assms] proxy_inv_cleanup by (simp add: finish_def Let_def split: option.splits)

lemma proxy_inv_connect:
  assumes "proxy_inv p" "conns p cid = None" "cid \<notin> set (conn_ids p)"
  shows "proxy_inv (handleProxyConnection cid ip lab opts p)"
proof (cases "(case connectionsPerIp p ip of None \<Rightarrow> 0 | Some n \<Rightarrow> n) \<ge> MAX_CONNECTIONS_PER_IP")
  case True
  then show ?thesis using assms(1) by (simp add: handleProxyConnection_def Let_def)
next
  case False
  let ?p = "handleProxyConnection cid ip lab opts p"
  let ?g = "guestGrant opts \<noteq> None \<and> guestToken opts \<noteq> [] \<and> guestPeerId opts \<noteq> []"
  let ?c = "(new_conn ip lab opts)\<lparr>registered := ?g \<and> conn_grant_id (new_conn ip lab opts) \<noteq> []\<rparr>"
  have cnt: "length (live_conns p x) \<le> MAX_CONNECTIONS_PER_IP"
      "connectionsPerIp p x = (if live_conns p x = [] then None else Some (length (live_conns p x)))" for x
    using assms(1) by (simp_all add: proxy_inv_def counts_ok_def)
  have cs: "conns ?p = (conns p)(cid \<mapsto> ?c)" and ids: "conn_ids ?p = conn_ids p @ [cid]"
    and per: "connectionsPerIp ?p = (connectionsPerIp p)(ip \<mapsto> Suc (length (live_conns p ip)))"
    using False cnt(2) [of ip] by (auto simp: handleProxyConnection_def Let_def)
  have live: "live_conns ?p x = live_conns p x @ (if x = ip then [cid] else [])" for x
    unfolding live_conns_def ids using assms(3) by (auto simp: cs new_conn_def intro!: filter_cong)
  have "length (live_conns p ip) < MAX_CONNECTIONS_PER_IP" using False cnt(2) [of ip] by (auto split: if_splits)
  then have "counts_ok ?p" using cnt unfolding counts_ok_def by (simp add: live per)
  moreover have "bridges_ok ?p"
    unfolding bridges_ok_def
  proof (intro allI impI)
    fix i d
    assume d: "conns ?p i = Some d \<and> registered d \<and> \<not> cleaned d"
    have act: "activeGuestBridges ?p = (if registered ?c then (activeGuestBridges p)(conn_grant_id (new_conn ip lab opts) \<mapsto>
        (case activeGuestBridges p (conn_grant_id (new_conn ip lab opts)) of None \<Rightarrow> [] | Some bs \<Rightarrow> bs) @ [cid]) else activeGuestBridges p)"
      using False by (auto simp: handleProxyConnection_def Let_def registerGuestBridge_def)
    show "\<exists>bs. activeGuestBridges ?p (conn_grant_id d) = Some bs \<and> i \<in> set bs"
    proof (cases "i = cid")
      case True
      with d have "d = ?c" "registered ?c" by (simp_all add: cs)
      then show ?thesis unfolding act by (simp add: True conn_grant_id_def)
    next
      case False
      with d proxy_inv_bridge [OF assms(1)] obtain bs where "activeGuestBridges p (conn_grant_id d) = Some bs" "i \<in> set bs"
        by (fastforce simp: cs)
      then show ?thesis
        unfolding act by (cases "conn_grant_id d = conn_grant_id (new_conn ip lab opts)") auto
    qed
  qed
  ultimately show ?thesis using assms by (auto simp: proxy_inv_def cs ids)
qed

lemma proxy_inv_continue: "proxy_inv p \<Longrightarrow> proxy_inv (continue_conn q ok cid p)"
proof (cases "conns p cid")
  case (Some c)
  assume "proxy_inv p"
  then show ?thesis
    unfolding continue_conn_def Some option.case
    using proxy_inv_finish [OF _ Some handles_trans [OF handles_suspended handles_resume_all]] by simp
qed (simp add: continue_conn_def)

lemma fold_preserves: "(\<And>x s. P s \<Longrightarrow> P (f x s)) \<Longrightarrow> P s \<Longrightarrow> P (fold f xs s)"
  by (induction xs arbitrary: s) auto

lemma proxy_inv_step: "proxy_inv p \<Longrightarrow> proxy_inv (proxy_step dec alloc ev p)"
proof (cases ev)
  case (Connect cid ip lab opts)
  assume "proxy_inv p"
  then show ?thesis using proxy_inv_connect by (simp add: Connect)
next
  case (TcpData cid data)
  assume "proxy_inv p"
  then show ?thesis
    using proxy_inv_finish handles_tcp_data by (simp add: TcpData on_conn_def split: option.splits)
next
  case (WsMessage cid buf)
  assume p: "proxy_inv p"
  show ?thesis
  proof (cases "conns p cid")
    case (Some c0)
    from ws_message_finish [OF this] obtain r p1 where
      r: "on_ws_message dec alloc cid buf p = finish cid r p1" "same_tables p p1" "handles c0 (fst r)" by metis
    then show ?thesis using proxy_inv_finish [of p1 cid c0 r] Some p proxy_inv_tables [OF r(2)]
      by (simp add: WsMessage same_tables_def)
  qed (use p in \<open>simp add: WsMessage on_ws_message_def\<close>)
next
  case (Settle q ok)
  assume p: "proxy_inv p"
  have "proxy_inv (fold (continue_conn q b) xs p1)" if "same_tables p p1" for p1 xs b
    using fold_preserves [of proxy_inv "continue_conn q b"] proxy_inv_continue proxy_inv_tables [OF that] p by blast
  then show ?thesis using p by (simp add: Settle settle_def Let_def same_tables_def split: option.splits)
next
  case (KeyExpired key)
  assume "proxy_inv p"
  then show ?thesis using proxy_inv_tables [of p "p\<lparr>guestSessionStates := (guestSessionStates p)(key := None)\<rparr>"]
    by (simp add: KeyExpired same_tables_def)
next
  case (Revalidated cid v now)
  assume "proxy_inv p"
  then show ?thesis
    using proxy_inv_finish handles_revalidate by (simp add: Revalidated on_conn_def split: option.splits)
next
  case (Revoke gid)
  assume p: "proxy_inv p"
  have "proxy_inv (fold (cleanup w) xs p1)" if "same_tables p p1" for p1 xs w
    using fold_preserves [of proxy_inv "cleanup w"] proxy_inv_cleanup proxy_inv_tables [OF that] p by blast
  moreover have "same_tables p (p\<lparr>guestSessionStates := h\<rparr>)" for h by (simp add: same_tables_def)
  moreover have "proxy_inv (p\<lparr>guestSessionStates := h\<rparr>)" for h
    using proxy_inv_tables [of p "p\<lparr>guestSessionStates := h\<rparr>"] p by (simp add: same_tables_def)
  ultimately show ?thesis by (simp add: Revoke invalidateGuestGrant_def Let_def split: option.splits)
qed (simp add: proxy_inv_cleanup)

lemma proxy_inv_run: "proxy_inv p \<Longrightarrow> proxy_inv (proxy_run dec alloc evs p)"
  unfolding proxy_run_def by (rule fold_preserves [where P = proxy_inv]) (rule proxy_inv_step)

lemma proxy_inv_empty: "proxy_inv empty_proxy"
  by (simp add: proxy_inv_def empty_proxy_def counts_ok_def bridges_ok_def live_conns_def)


text \<open>C14: The per-address limit of the proxy.  After any sequence of events there are at most five live
  connections from one address, and the counter of the address is exactly their number, so that no
  connection that ended, in whatever way, keeps a place occupied.\<close>

theorem proxy_connections_bounded:
  "let p = proxy_run dec alloc evs empty_proxy in
     length (live_conns p ip) \<le> 5
     \<and> connectionsPerIp p ip = (if live_conns p ip = [] then None else Some (length (live_conns p ip)))"
  using proxy_inv_run [OF proxy_inv_empty, of dec alloc evs]
  by (simp add: proxy_inv_def counts_ok_def Let_def MAX_CONNECTIONS_PER_IP_def)

lemma conns_fold_cleanup:
  "conns p i = Some c \<Longrightarrow> conns (fold (cleanup w) xs p) i = Some (if i \<in> set xs then closed w c else c)"
proof (induction xs arbitrary: p c)
  case (Cons x xs)
  have "closed w (closed w c) = closed w c" by (simp add: closed_def)
  moreover have "conns (cleanup w x p) i = Some (if i = x then closed w c else c)"
    using Cons(2) by (auto simp: conns_cleanup split: option.splits)
  ultimately show ?case using Cons(1) by simp
qed simp

lemma registered_run:
  assumes "conns (proxy_run dec alloc evs empty_proxy) i = Some c"
  shows "registered c = has_guest_grant c"
proof -
  have "conns empty_proxy i = None" by (simp add: empty_proxy_def)
  then show ?thesis using proxy_run_conn [of empty_proxy i dec alloc evs] assms by (simp add: steps_to_def)
qed

text \<open>C15: Revocation cuts a guest off.  When a grant is revoked, every connection that was opened with it
  is ended in that step, and whatever happens later, a suspended message included, no byte is sent
  over it in either direction any more.\<close>

theorem revoked_guest_cut_off:
  assumes "conns (proxy_run dec alloc evs empty_proxy) cid = Some c"
    and "guestGrant (c_opts c) = Some g" "grant_id g \<noteq> []" "guestToken (c_opts c) \<noteq> []" "guestPeerId (c_opts c) \<noteq> []"
  shows "\<exists>c'. conns (proxy_run dec alloc (evs @ Revoke (grant_id g) # later) empty_proxy) cid = Some c'
    \<and> cleaned c' \<and> tcp_out c' = tcp_out c \<and> ws_out c' = ws_out c"
proof -
  let ?p = "proxy_run dec alloc evs empty_proxy"
  let ?h = "\<lambda>key. if startsWith key (grant_id g @ [CHR 0x00]) then None else guestSessionStates ?p key"
  have gid: "conn_grant_id c = grant_id g" using assms(2) by (simp add: conn_grant_id_def)
  have reg: "registered c" using registered_run [OF assms(1)] assms gid by (simp add: has_guest_grant_def)
  have inv: "proxy_inv ?p" by (rule proxy_inv_run [OF proxy_inv_empty])
  obtain c1 where c1: "conns (snd (invalidateGuestGrant (grant_id g) ?p)) cid = Some c1" "cleaned c1"
      "tcp_out c1 = tcp_out c" "ws_out c1 = ws_out c"
  proof (cases "cleaned c")
    case True
    have "steps_to (conns ?p cid) (conns (proxy_step dec alloc (Revoke (grant_id g)) ?p) cid)" by (rule proxy_step_conn)
    then show ?thesis using True assms(1) that by (auto simp: steps_to_def evolves_def)
  next
    case False
    then obtain bs where bs: "activeGuestBridges ?p (grant_id g) = Some bs" "cid \<in> set bs"
      using proxy_inv_bridge [OF inv assms(1) reg] gid by auto
    have "conns (snd (invalidateGuestGrant (grant_id g) ?p)) cid = Some (closed ''guest-grant-revoked'' c)"
      using conns_fold_cleanup [of "?p\<lparr>guestSessionStates := ?h\<rparr>" cid c "''guest-grant-revoked''" bs] assms(1) bs
      by (simp add: invalidateGuestGrant_def Let_def)
    then show ?thesis using that [of "closed ''guest-grant-revoked'' c"] False by (simp add: closed_def)
  qed
  have "proxy_run dec alloc (evs @ Revoke (grant_id g) # later) empty_proxy
      = proxy_run dec alloc later (snd (invalidateGuestGrant (grant_id g) ?p))" by (simp add: proxy_run_def)
  then show ?thesis
    using proxy_run_conn [of "snd (invalidateGuestGrant (grant_id g) ?p)" cid dec alloc later] c1
    by (auto simp: steps_to_def evolves_def)
qed


section \<open>What a guest can send\<close>


definition frame_allowed :: "msg_decoder \<Rightarrow> string \<Rightarrow> bool \<Rightarrow> byte list \<Rightarrow> bool" where
  "frame_allowed dec peer consumed f =
     (case dec f of None \<Rightarrow> False
      | Some m \<Rightarrow> guestTargetMatches (Some m) peer \<and> (opens_session m \<longrightarrow> consumed))"

text \<open>The bytes on the wire consist of allowed frames and an unfinished rest; while the connection is live
  the filter has seen these bytes and those of a message that waits.\<close>

definition wire_ok :: "msg_decoder \<Rightarrow> conn \<Rightarrow> bool" where
  "wire_ok dec c = (case parse (tcp_out c) of
     Inl e \<Rightarrow> False
   | Inr (fs, r) \<Rightarrow> list_all (frame_allowed dec (guestPeerId (c_opts c)) (guestSessionConsumed c)) fs)"



lemma wire_ok_suspended [simp]: "wire_ok dec (c\<lparr>suspended := w\<rparr>) = wire_ok dec c"
  by (simp add: wire_ok_def split: sum.splits)









lemma resume_live:
  assumes "\<not> cleaned c"
  obtains c2 where "resume True buf c = write_tcp buf c2" "guestSessionConsumed c2" "handles c c2" "tcp_out c2 = tcp_out c"
    "suspended c2 = suspended c" "guestRendezvousDecoder c2 = guestRendezvousDecoder c"
proof -
  let ?c1 = "c\<lparr>guestSessionConsumed := True\<rparr>"
  let ?c2 = "if guestOpenedReported ?c1 then ?c1 else reportGuestEvent ''opened'' [] (?c1\<lparr>guestOpenedReported := True\<rparr>)"
  show thesis
    by (rule that [of ?c2]) (use assms in \<open>auto simp: resume_def Let_def reportGuestEvent_def handles_def evolves_def\<close>)
qed




















section \<open>A guest in action\<close>

text \<open>One guest; its messages are single bytes: 1 asks for its peer, 3 for another, and the two bytes
  4 and 3 together are a message without a request.\<close>

definition demo_grant :: grant where
  "demo_grant = \<lparr>grant_id = ''g'', expires_at = Some 60000\<rparr>"

definition demo_opts :: proxy_options where
  "demo_opts = \<lparr>messageTransport = False, guestGrant = Some demo_grant, guestToken = ''t'', guestPeerId = ''p'', guestSessionId = ''s''\<rparr>"

definition demo_dec :: msg_decoder where
  "demo_dec bs =
     (if bs = [1] then Some \<lparr>punchHoleRequest = Some ''p'', requestRelay = None\<rparr>
      else if bs = [3] then Some \<lparr>punchHoleRequest = Some ''other'', requestRelay = None\<rparr>
      else if bs = [4, 3] then Some \<lparr>punchHoleRequest = None, requestRelay = None\<rparr>
      else None)"

definition demo_connected :: proxy where
  "demo_connected = proxy_step demo_dec (\<lambda>n. []) (Connect 0 ''a'' Rendezvous demo_opts) empty_proxy"

lemma demo_connected_conn:
  "conns demo_connected 0 = Some ((new_conn ''a'' Rendezvous demo_opts)\<lparr>registered := True\<rparr>)"
  "conn_ids demo_connected = [0]" "guestSessionStates demo_connected = (\<lambda>_. None)" "next_promise demo_connected = 0"
  "fulfilled demo_connected = []"
  by (simp_all add: demo_connected_def handleProxyConnection_def empty_proxy_def MAX_CONNECTIONS_PER_IP_def demo_opts_def
      demo_grant_def conn_grant_id_def new_conn_def registerGuestBridge_def Let_def)

lemma demo_frames:
  "parse [4, 1, 8] = Inr ([[1]], [8])" "parse [8, 4, 3] = Inr ([[4, 3]], [])" "parse [4, 3, 4, 1, 8] = Inr ([[3], [1]], [8])"
  "parse [4, 3] = Inr ([[3]], [])"
  by (simp_all add: parse.simps header_len_def encoded_at_def MAX_RELAY_FRAME_SIZE_def Let_def)


lemma demo_decoded:
  "check_frames demo_dec ''p'' [[1]] = Some True" "check_frames demo_dec ''p'' [[4, 3]] = Some False"
  by (simp_all add: demo_dec_def guestTargetMatches_def opens_session_def)

abbreviation demo_first :: "(nat \<Rightarrow> byte list) \<Rightarrow> proxy" where
  "demo_first alloc \<equiv> proxy_run demo_dec alloc [Connect 0 ''a'' Rendezvous demo_opts, WsMessage 0 [4, 1, 8]] empty_proxy"

text \<open>The first message waits for the consumption; the filter keeps the header of the next frame.\<close>

lemma demo_first_conn:
  assumes "\<And>n. length (alloc n) = n"
  obtains c where "conns (demo_first alloc) 0 = Some c" "\<not> cleaned c" "c_opts c = demo_opts" "c_label c = Rendezvous"
    "suspended c = [(0, [4, 1, 8])]" "tcp_out c = []" "decoder_inv (guestRendezvousDecoder c)"
    "pending_bytes (guestRendezvousDecoder c) = [8]" "\<not> guestSessionConsumed c"
    "conn_ids (demo_first alloc) = [0]" "promise_key (demo_first alloc) 0 \<noteq> None"
proof -
  let ?c0 = "(new_conn ''a'' Rendezvous demo_opts)\<lparr>registered := True, idleTimer := True\<rparr>"
  have nd: "guestRendezvousDecoder ?c0 = new_decoder" by (simp add: new_conn_def)
  have "parse (pending_bytes new_decoder @ [4, 1, 8]) = Inr ([[1]], [8])" by (simp add: new_decoder_ok demo_frames)
  from feed_run [OF new_decoder_inv assms this] obtain d where
    d: "feed alloc [4, 1, 8] new_decoder = (Inr [[1]], d)" "pending_bytes d = [8]" "decoder_inv d"
    by (auto simp: new_decoder_ok MAX_RELAY_FRAME_SIZE_def)
  have f: "guest_filter demo_dec alloc [4, 1, 8] ?c0 = (Passed True, ?c0\<lparr>guestRendezvousDecoder := d\<rparr>)"
    unfolding guest_filter_def nd d by (simp add: new_conn_def demo_opts_def demo_decoded del: check_frames.simps)
  have "demo_first alloc = on_ws_message demo_dec alloc 0 [4, 1, 8] demo_connected"
    by (simp add: proxy_run_def demo_connected_def)
  also have "\<dots> = finish 0 (?c0\<lparr>guestRendezvousDecoder := d, suspended := [(0, [4, 1, 8])]\<rparr>, None)
      (snd (consumeGuestSession demo_grant ''t'' ''p'' ''s'' demo_connected))"
    using f by (simp add: on_ws_message_def demo_connected_conn new_conn_def demo_opts_def consumeGuestSession_def Let_def)
  finally have e: "demo_first alloc = \<dots>" .
  show thesis
    by (rule that [of "?c0\<lparr>guestRendezvousDecoder := d, suspended := [(0, [4, 1, 8])]\<rparr>"])
      (use d in \<open>simp_all add: e conns_finish final_def demo_connected_conn new_conn_def finish_def consumeGuestSession_def Let_def\<close>)
qed

text \<open>The filter loses its hold when a message arrives while an earlier one waits for the consumption
  of the grant: the later one is written first.  The filter judged the two chunks in the order of their
  arrival and found a request for the granted peer and a message without a request; in the order in
  which they are written, they begin with a request for another peer, and it goes out before the
  grant is consumed.\<close>

theorem guest_filter_race:
  assumes "\<And>n. length (alloc n) = n"
  shows "\<exists>c c'. conns (proxy_run demo_dec alloc
            [Connect 0 ''a'' Rendezvous demo_opts, WsMessage 0 [4, 1, 8], WsMessage 0 [4, 3]] empty_proxy) 0 = Some c
      \<and> \<not> guestSessionConsumed c \<and> guestPeerId (c_opts c) = ''p''
      \<and> parse (tcp_out c) = Inr ([[3]], []) \<and> map_option punchHoleRequest (demo_dec [3]) = Some (Some ''other'')
      \<and> conns (proxy_run demo_dec alloc
            [Connect 0 ''a'' Rendezvous demo_opts, WsMessage 0 [4, 1, 8], WsMessage 0 [4, 3], Settle 0 True] empty_proxy) 0 = Some c'
      \<and> parse (tcp_out c') = Inr ([[3], [1]], [8])"
proof -
  let ?p1 = "demo_first alloc"
  obtain c where c: "conns ?p1 0 = Some c" "\<not> cleaned c" "c_opts c = demo_opts" "c_label c = Rendezvous"
    "suspended c = [(0, [4, 1, 8])]" "tcp_out c = []" "decoder_inv (guestRendezvousDecoder c)"
    "pending_bytes (guestRendezvousDecoder c) = [8]" "\<not> guestSessionConsumed c"
    "conn_ids ?p1 = [0]" "promise_key ?p1 0 \<noteq> None" using demo_first_conn [OF assms] .
  have "parse (pending_bytes (guestRendezvousDecoder c) @ [4, 3]) = Inr ([[4, 3]], [])" by (simp add: c demo_frames)
  from feed_run [OF c(7) assms this] obtain d where
    d: "feed alloc [4, 3] (guestRendezvousDecoder c) = (Inr [[4, 3]], d)" by (auto simp: c MAX_RELAY_FRAME_SIZE_def)
  let ?c1 = "c\<lparr>idleTimer := True, guestRendezvousDecoder := d\<rparr>"
  let ?c2 = "?c1\<lparr>tcp_out := [4, 3]\<rparr>"
  have f: "guest_filter demo_dec alloc [4, 3] (c\<lparr>idleTimer := True\<rparr>) = (Passed False, ?c1)"
    by (simp add: guest_filter_def c d demo_opts_def demo_decoded del: check_frames.simps)
  let ?p2 = "on_ws_message demo_dec alloc 0 [4, 3] ?p1"
  have p2: "?p2 = ?p1\<lparr>conns := (conns ?p1)(0 \<mapsto> ?c2)\<rparr>"
    using f c by (simp add: on_ws_message_def Let_def write_tcp_def finish_def demo_opts_def)
  obtain c3 where c3: "resume True [4, 1, 8] (?c2\<lparr>suspended := []\<rparr>) = write_tcp [4, 1, 8] c3" "handles (?c2\<lparr>suspended := []\<rparr>) c3"
      "tcp_out c3 = [4, 3]"
    using resume_live [of "?c2\<lparr>suspended := []\<rparr>" "[4, 1, 8]"] c(2) by auto
  have o3: "\<not> messageTransport (c_opts c3)" using c3(2) c(3) by (simp add: handles_def evolves_def demo_opts_def)
  have "conns (settle 0 True ?p2) 0 = Some (c3\<lparr>tcp_out := [4, 3, 4, 1, 8]\<rparr>)"
    using c c3 o3 by (auto simp: p2 settle_def continue_conn_def conns_finish final_def write_tcp_def Let_def)
  moreover have "proxy_run demo_dec alloc [Connect 0 ''a'' Rendezvous demo_opts, WsMessage 0 [4, 1, 8], WsMessage 0 [4, 3]] empty_proxy = ?p2"
    "proxy_run demo_dec alloc [Connect 0 ''a'' Rendezvous demo_opts, WsMessage 0 [4, 1, 8], WsMessage 0 [4, 3], Settle 0 True] empty_proxy
       = settle 0 True ?p2" by (simp_all add: proxy_run_def)
  moreover have "conns ?p2 0 = Some ?c2" unfolding p2 by simp
  moreover have "guestPeerId demo_opts = ''p''" by (simp add: demo_opts_def)
  moreover have "map_option punchHoleRequest (demo_dec [3]) = Some (Some ''other'')" by (simp add: demo_dec_def)
  ultimately show ?thesis
    using c(3,9) by (intro exI [of _ ?c2] exI [of _ "c3\<lparr>tcp_out := [4, 3, 4, 1, 8]\<rparr>"]) (simp add: demo_frames)
qed


theorem guest_filter_race_witness:
  "\<exists>c c'. conns (proxy_run demo_dec (\<lambda>n. replicate n 0)
            [Connect 0 ''a'' Rendezvous demo_opts, WsMessage 0 [4, 1, 8], WsMessage 0 [4, 3]] empty_proxy) 0 = Some c
      \<and> \<not> guestSessionConsumed c \<and> guestPeerId (c_opts c) = ''p''
      \<and> parse (tcp_out c) = Inr ([[3]], []) \<and> map_option punchHoleRequest (demo_dec [3]) = Some (Some ''other'')
      \<and> conns (proxy_run demo_dec (\<lambda>n. replicate n 0)
            [Connect 0 ''a'' Rendezvous demo_opts, WsMessage 0 [4, 1, 8], WsMessage 0 [4, 3], Settle 0 True] empty_proxy) 0 = Some c'
      \<and> parse (tcp_out c') = Inr ([[3], [1]], [8])"
  by (rule guest_filter_race) simp



theorem revoked_guest_cut_off_witness:
  "\<exists>c'. conns (proxy_run demo_dec (\<lambda>n. replicate n 0)
      ([Connect 0 ''a'' Rendezvous demo_opts, WsMessage 0 [4, 1, 8]] @ Revoke ''g'' # [Settle 0 True]) empty_proxy) 0 = Some c'
    \<and> cleaned c' \<and> tcp_out c' = []"
proof -
  let ?al = "\<lambda>n. replicate n (0 :: byte)"
  have al: "length (?al n) = n" for n by simp
  obtain c where c: "conns (demo_first ?al) 0 = Some c" "c_opts c = demo_opts" "tcp_out c = []"
    by (rule demo_first_conn [of ?al, OF al])
  from revoked_guest_cut_off [OF c(1), of demo_grant "[Settle 0 True]"] c(2,3) show ?thesis
    by (auto simp: demo_opts_def demo_grant_def)
qed

end
