(* ===== verification/Ws_Upgrade.thy ===== *)
theory Ws_Upgrade
  imports Guest_Bridge Device_Scope Auth_Tokens
begin

text \<open>
  Who may open a WebSocket: the shared upgrade router (\<open>services/wsUpgradeRouter.js\<close>), the origin check
  (\<open>middleware/wsOrigin.js\<close>), the device credentials (\<open>lib/deviceTokenAuth.js\<close>) and the upgrade handlers
  of all services, in the order in which \<open>server.js\<close> registers them: \<open>wsRelay.js\<close>, \<open>bdRelay.js\<close>,
  \<open>chatRelay.js\<close>, \<open>remoteRelay.js\<close>, \<open>cdapTerminalProxy.js\<close>, \<open>serverTerminalProxy.js\<close>, \<open>cdapMediaProxy.js\<close>,
  \<open>meshAshxProxy.js\<close>, \<open>remoteTargetGateway.js\<close> and \<open>deviceStatusPush.js\<close>.

  A request carries its path and its query as \<open>URL\<close> splits them and the session that the session
  middleware loads for its cookie.  The answers of the Go server are parameters.  An exception that no
  handler catches is the outcome \<open>Thrown\<close>.
\<close>

section \<open>Requests\<close>

record ws_session =
  wss_userId :: int
  wss_user :: "scope_user option"
  wss_role :: "string option"

record ws_request =
  wr_url_ok :: bool
  wr_path :: string
  wr_query :: "(string \<times> string) list"
  wr_host :: "string option"
  wr_origin :: "string option"
  wr_cookie :: "string option"
  wr_authorization :: "string option"
  wr_session :: "ws_session option"

record device_token_row =
  dt_token_hash :: string
  dt_peer_id :: string
  dt_status :: string
  dt_max_uses :: int
  dt_use_count :: int
  dt_expires_at :: "int option"

text \<open>What the handlers consult.  \<open>we_device_tokens\<close> is \<^term>\<open>None\<close> when the query of the table fails with an
  error other than its absence; \<open>we_agent_token\<close> is the outcome of \<open>consumeRemoteAgentToken\<close>.\<close>

record 't ws_env =
  we_allowed_origins :: "string list"
  we_allow_missing :: bool
  we_now :: int
  we_hash :: "string \<Rightarrow> string"
  we_resolved :: "string option \<Rightarrow> perm_error + string list"
  we_guest_cookies :: "string list"
  we_validate :: "string \<Rightarrow> string \<Rightarrow> grant option option"
  we_device_tokens :: "device_token_row list option"
  we_access_token :: "string \<Rightarrow> 't token_row option"
  we_agent_token :: "string \<Rightarrow> string \<Rightarrow> bool"
  we_target :: "string \<Rightarrow> device option option"
  we_json :: "string \<Rightarrow> string list option"
  we_restricted_default :: bool
  we_db :: "'t auth_db"

datatype endpoint =
    EpProxy label proxy_options
  | EpBdRelay
  | EpBdSignal
  | EpChatAgent string
  | EpChatOperator string
  | EpRemoteAgent string
  | EpRemoteViewer string
  | EpCdapTerminal string
  | EpServerTerminal
  | EpCdapMedia string string
  | EpMesh string
  | EpRemoteTarget string
  | EpDeviceStatus
  | EpPanelEvents

datatype upgrade_outcome = Untouched | Turned_down nat | Accepted endpoint | Thrown


section \<open>The origin check\<close>

fun contains :: "string \<Rightarrow> string \<Rightarrow> bool" where
  "contains p [] = (p = [])"
| "contains p (c # cs) = (startsWith (c # cs) p \<or> contains p cs)"

definition parse_allowed_origins :: "string option \<Rightarrow> string list" where
  "parse_allowed_origins env = filter (\<lambda>s. s \<noteq> []) (map js_trim (split_on CHR '','' (or_str env [])))"

definition sameHostOrigin :: "ws_request \<Rightarrow> string list option" where
  "sameHostOrigin req =
     (case wr_host req of
        None \<Rightarrow> None
      | Some host \<Rightarrow> if host = [] then None else Some [''http://'' @ host, ''https://'' @ host])"

definition validateOrigin :: "'t ws_env \<Rightarrow> ws_request \<Rightarrow> bool" where
  "validateOrigin env req =
     (let origin = or_str (wr_origin req) [];
          cookies = or_str (wr_cookie req) []
      in if origin = [] then
           let hasSessionCookie = (contains ''bd.sid='' cookies \<or> contains ''betterdesk.sid='' cookies)
           in \<not> hasSessionCookie \<or> we_allow_missing env
         else (case sameHostOrigin req of None \<Rightarrow> False | Some os \<Rightarrow> origin \<in> set os)
              \<or> origin \<in> set (we_allowed_origins env))"

text \<open>\<open>enforceOrigin\<close> in front of a handler.\<close>

definition with_origin :: "'t ws_env \<Rightarrow> ws_request \<Rightarrow> upgrade_outcome \<Rightarrow> upgrade_outcome" where
  "with_origin env req k = (if validateOrigin env req then k else Turned_down 403)"


section \<open>Percent decoding\<close>

definition hex_val :: "char \<Rightarrow> nat" where
  "hex_val c =
     (let n = of_char c in
      if n \<le> 57 then n - 48 else if n \<le> 70 then n - 55 else n - 87)"

fun pct_byte :: "string \<Rightarrow> (nat \<times> string) option" where
  "pct_byte (p # a # b # r) = (if p = CHR ''%'' \<and> is_hex a \<and> is_hex b then Some (16 * hex_val a + hex_val b, r) else None)"
| "pct_byte _ = None"

text \<open>How many bytes follow a leading byte, and which second bytes are allowed: no overlong form, no
  surrogate, nothing beyond U+10FFFF.\<close>

definition utf8_tail :: "nat \<Rightarrow> nat option" where
  "utf8_tail b =
     (if b < 0x80 then Some 0 else if 0xC2 \<le> b \<and> b \<le> 0xDF then Some 1
      else if 0xE0 \<le> b \<and> b \<le> 0xEF then Some 2 else if 0xF0 \<le> b \<and> b \<le> 0xF4 then Some 3 else None)"

definition second_ok :: "nat \<Rightarrow> nat \<Rightarrow> bool" where
  "second_ok b x =
     ((if b = 0xE0 then 0xA0 else if b = 0xF0 then 0x90 else 0x80) \<le> x
      \<and> x \<le> (if b = 0xED then 0x9F else if b = 0xF4 then 0x8F else 0xBF))"

fun pct_tail :: "nat \<Rightarrow> string \<Rightarrow> (nat list \<times> string) option" where
  "pct_tail 0 s = Some ([], s)"
| "pct_tail (Suc n) s =
     (case pct_byte s of
        None \<Rightarrow> None
      | Some (b, r) \<Rightarrow>
          if b div 64 \<noteq> 2 then None
          else map_option (\<lambda>(bs, r'). (b # bs, r')) (pct_tail n r))"

lemma pct_byte_length: "pct_byte s = Some (b, r) \<Longrightarrow> length r < length s"
  by (induction s rule: pct_byte.induct) (auto split: if_splits)

lemma pct_tail_length: "pct_tail n s = Some (bs, r) \<Longrightarrow> length r \<le> length s"
  by (induction n arbitrary: s bs) (fastforce dest: pct_byte_length split: option.splits if_splits)+

text \<open>\<open>decodeURIComponent\<close>; \<^term>\<open>None\<close> is the exception it throws.  The decoded text is in UTF-8.\<close>

function decodeURIComponent :: "string \<Rightarrow> string option" where
  "decodeURIComponent s =
     (case s of
        [] \<Rightarrow> Some []
      | c # cs \<Rightarrow>
          if c \<noteq> CHR ''%'' then map_option ((#) c) (decodeURIComponent cs)
          else case pct_byte s of
            None \<Rightarrow> None
          | Some (b, r) \<Rightarrow>
              (case utf8_tail b of
                 None \<Rightarrow> None
               | Some n \<Rightarrow>
                   (case pct_tail n r of
                      None \<Rightarrow> None
                    | Some (bs, r') \<Rightarrow>
                        if bs \<noteq> [] \<and> \<not> second_ok b (hd bs) then None
                        else map_option ((@) (map char_of (b # bs))) (decodeURIComponent r'))))"
  by pat_completeness auto
termination
  by (relation "measure length") (auto dest!: pct_byte_length pct_tail_length)

declare decodeURIComponent.simps [simp del]


section \<open>Device credentials\<close>

definition validateEnrollmentRow :: "int \<Rightarrow> device_token_row option \<Rightarrow> string \<Rightarrow> bool" where
  "validateEnrollmentRow now row deviceId =
     (case row of
        None \<Rightarrow> False
      | Some r \<Rightarrow>
          if dt_status r = ''revoked'' \<or> dt_status r = ''expired'' then False
          else if dt_max_uses r > 0 \<and> dt_use_count r \<ge> dt_max_uses r then False
          else if (case dt_expires_at r of None \<Rightarrow> False | Some e \<Rightarrow> e < now) then False
          else if dt_peer_id r \<noteq> [] \<and> dt_peer_id r \<noteq> deviceId then False
          else True)"

definition verifyEnrollmentToken :: "'t ws_env \<Rightarrow> string \<Rightarrow> string \<Rightarrow> bool option" where
  "verifyEnrollmentToken env deviceId plainToken =
     map_option (\<lambda>rows. validateEnrollmentRow (we_now env)
                   (find (\<lambda>r. dt_token_hash r = we_hash env plainToken) rows) deviceId)
       (we_device_tokens env)"

text \<open>\<^term>\<open>None\<close> is a rejected promise.\<close>

definition verifyDeviceWsAuth :: "'t ws_env \<Rightarrow> string \<Rightarrow> string \<Rightarrow> bool option" where
  "verifyDeviceWsAuth env deviceId plainToken =
     (if deviceId = [] \<or> plainToken = [] \<or> length plainToken < 8 then Some False
      else case verifyEnrollmentToken env deviceId plainToken of
        None \<Rightarrow> None
      | Some ok \<Rightarrow>
          let bound = (\<lambda>t. case we_access_token env t of None \<Rightarrow> False | Some r \<Rightarrow> t_client_id r = deviceId)
          in Some (ok \<or> bound plainToken \<or> bound (we_hash env plainToken)))"

definition verifyAgentConnection :: "'t ws_env \<Rightarrow> string \<Rightarrow> string \<Rightarrow> bool option" where
  "verifyAgentConnection env deviceId token =
     (if token = [] then Some False
      else if we_agent_token env deviceId token then Some True
      else verifyDeviceWsAuth env deviceId token)"


section \<open>The handlers\<close>

definition query :: "ws_request \<Rightarrow> string \<Rightarrow> string" where
  "query req k = or_str (map_of (wr_query req) k) []"

text \<open>A path below a prefix that has exactly one more segment.\<close>

definition one_segment :: "string \<Rightarrow> string \<Rightarrow> string option" where
  "one_segment pre path =
     (if startsWith path pre then
        (let s = drop (length pre) path in if s \<noteq> [] \<and> CHR ''/'' \<notin> set s then Some s else None)
      else None)"

definition id_char :: "char \<Rightarrow> bool" where
  "id_char c = (is_alnum c \<or> c = CHR ''_'' \<or> c = CHR ''-'')"

definition id_format :: "nat \<Rightarrow> nat \<Rightarrow> string \<Rightarrow> bool" where
  "id_format lo hi s = (lo \<le> length s \<and> length s \<le> hi \<and> list_all id_char s)"

definition ws_logged_in :: "ws_request \<Rightarrow> bool" where
  "ws_logged_in req = (case wr_session req of None \<Rightarrow> False | Some s \<Rightarrow> wss_userId s \<noteq> 0)"

definition user_role :: "ws_request \<Rightarrow> string option" where
  "user_role req = (case wr_session req of None \<Rightarrow> None
     | Some s \<Rightarrow> (case wss_user s of None \<Rightarrow> None | Some u \<Rightarrow> sc_role u))"

definition ws_session_user :: "ws_request \<Rightarrow> scope_user option" where
  "ws_session_user req = (case wr_session req of None \<Rightarrow> None | Some s \<Rightarrow> wss_user s)"

text \<open>\<open>sessUser.role || req.session.role || ''\<close>.\<close>

definition role_or_flat :: "ws_request \<Rightarrow> string" where
  "role_or_flat req =
     (case user_role req of
        Some (c # cs) \<Rightarrow> c # cs
      | _ \<Rightarrow> (case wr_session req of None \<Rightarrow> [] | Some s \<Rightarrow> or_str (wss_role s) []))"

text \<open>A permission test whose failure counts as a denial.\<close>

definition permitted :: "'t ws_env \<Rightarrow> string option \<Rightarrow> string \<Rightarrow> bool" where
  "permitted env role perm = (roleHasEffectivePermission (we_resolved env) role perm = Inr True)"

definition cookie_token :: "string \<Rightarrow> string \<Rightarrow> string option" where
  "cookie_token raw name =
     (case find (\<lambda>p. startsWith p (name @ ''='')) (map js_trim (split_on CHR '';'' raw)) of
        None \<Rightarrow> Some []
      | Some p \<Rightarrow> map_option js_trim (decodeURIComponent (drop (length name + 1) p)))"

fun first_cookie :: "string \<Rightarrow> string list \<Rightarrow> string option" where
  "first_cookie raw [] = Some []"
| "first_cookie raw (n # ns) =
     (case cookie_token raw n of
        None \<Rightarrow> None
      | Some t \<Rightarrow> if t \<noteq> [] then Some t else first_cookie raw ns)"

text \<open>An exception in the search for the guest token leaves it empty.\<close>

definition guest_token :: "'t ws_env \<Rightarrow> ws_request \<Rightarrow> string" where
  "guest_token env req =
     (let g = (if query req ''guest'' \<noteq> [] then query req ''guest'' else query req ''t'') in
      if js_trim g \<noteq> [] then js_trim g
      else case first_cookie (or_str (wr_cookie req) []) (we_guest_cookies env @ [''bd.guest'', ''betterdesk.guest'']) of
        None \<Rightarrow> []
      | Some t \<Rightarrow> t)"

definition no_guest :: "bool \<Rightarrow> proxy_options" where
  "no_guest transport = \<lparr>messageTransport = transport, guestGrant = None, guestToken = [], guestPeerId = [], guestSessionId = []\<rparr>"

definition proxy_upgrade :: "'t ws_env \<Rightarrow> ws_request \<Rightarrow> upgrade_outcome" where
  "proxy_upgrade env req = with_origin env req
     (let lab = (if wr_path req = ''/ws/rendezvous'' then Rendezvous else Relay);
          transport = (lab = Relay \<and> query req ''transport'' = ''message'')
      in if ws_logged_in req then
           (if permitted env (user_role req) ''device.connect'' then Accepted (EpProxy lab (no_guest transport))
            else Turned_down 403)
         else
           let token = guest_token env req;
               peer = js_trim (query req ''peer_id'');
               sid = js_trim (query req ''guest_session'')
           in if token = [] then Turned_down 401
              else if \<not> id_format 3 64 peer \<or> sid = [] \<or> length sid > 128 then Turned_down 403
              else case we_validate env token peer of
                Some (Some g) \<Rightarrow>
                  Accepted (EpProxy lab \<lparr>messageTransport = transport, guestGrant = Some g, guestToken = token,
                                         guestPeerId = peer, guestSessionId = sid\<rparr>)
              | _ \<Rightarrow> Turned_down 401)"

definition bd_upgrade :: "'t ws_env \<Rightarrow> ws_request \<Rightarrow> upgrade_outcome" where
  "bd_upgrade env req = with_origin env req
     (Accepted (if wr_path req = ''/ws/bd-relay'' then EpBdRelay else EpBdSignal))"

text \<open>The token of a chat agent: the query, or the header \<open>Bearer\<close> with one word.\<close>

definition bearer_token :: "string \<Rightarrow> string" where
  "bearer_token h =
     (if startsWith h ''Bearer'' then
        (let r = drop 6 h; t = dropWhile js_ws r in
         if r = t \<or> t = [] \<or> list_ex js_ws t then [] else t)
      else [])"

definition chat_agent_upgrade :: "'t ws_env \<Rightarrow> ws_request \<Rightarrow> string \<Rightarrow> upgrade_outcome" where
  "chat_agent_upgrade env req dev = with_origin env req
     (let token = (if query req ''token'' \<noteq> [] then query req ''token'' else bearer_token (or_str (wr_authorization req) []))
      in case verifyDeviceWsAuth env dev token of
           None \<Rightarrow> Turned_down 500
         | Some ok \<Rightarrow> if ok then Accepted (EpChatAgent dev) else Turned_down 403)"

definition chat_operator_upgrade :: "'t ws_env \<Rightarrow> ws_request \<Rightarrow> string \<Rightarrow> upgrade_outcome" where
  "chat_operator_upgrade env req dev = with_origin env req
     (if \<not> ws_logged_in req then Turned_down 401
      else if permitted env (user_role req) ''chat.access'' then Accepted (EpChatOperator dev) else Turned_down 403)"

definition chat_upgrade :: "'t ws_env \<Rightarrow> ws_request \<Rightarrow> upgrade_outcome" where
  "chat_upgrade env req =
     (case one_segment ''/ws/chat/'' (wr_path req) of
        Some dev \<Rightarrow> chat_agent_upgrade env req dev
      | None \<Rightarrow> (case one_segment ''/ws/chat-operator/'' (wr_path req) of
                  Some dev \<Rightarrow> chat_operator_upgrade env req dev
                | None \<Rightarrow> Untouched))"

definition remote_agent_upgrade :: "'t ws_env \<Rightarrow> ws_request \<Rightarrow> string \<Rightarrow> upgrade_outcome" where
  "remote_agent_upgrade env req seg = with_origin env req
     (case decodeURIComponent seg of
        None \<Rightarrow> Thrown
      | Some dev \<Rightarrow>
          if \<not> id_format 3 64 dev then Turned_down 400
          else case verifyAgentConnection env dev (query req ''token'') of
            None \<Rightarrow> Turned_down 500
          | Some ok \<Rightarrow> if ok then Accepted (EpRemoteAgent dev) else Turned_down 403)"

definition remote_viewer_upgrade :: "'t ws_env \<Rightarrow> ws_request \<Rightarrow> string \<Rightarrow> upgrade_outcome" where
  "remote_viewer_upgrade env req dev = with_origin env req
     (if \<not> ws_logged_in req then Turned_down 401
      else if permitted env (user_role req) ''device.connect'' then Accepted (EpRemoteViewer dev) else Turned_down 403)"

definition remote_upgrade :: "'t ws_env \<Rightarrow> ws_request \<Rightarrow> upgrade_outcome" where
  "remote_upgrade env req =
     (case one_segment ''/ws/remote-agent/'' (wr_path req) of
        Some seg \<Rightarrow> remote_agent_upgrade env req seg
      | None \<Rightarrow> (case one_segment ''/ws/remote-viewer/'' (wr_path req) of
                  Some dev \<Rightarrow> remote_viewer_upgrade env req dev
                | None \<Rightarrow> Untouched))"

text \<open>The device of \<open>/api/cdap/devices/:id/<channel>\<close>.\<close>

definition cdap_device :: "nat \<Rightarrow> nat \<Rightarrow> string \<Rightarrow> string \<Rightarrow> string option" where
  "cdap_device lo hi channel path =
     (let pre = ''/api/cdap/devices/''; suf = CHR ''/'' # channel in
      if startsWith path pre \<and> endsWith (drop (length pre) path) suf then
        (let mid = drop (length pre) path; dev = take (length mid - length suf) mid in
         if id_format lo hi dev then Some dev else None)
      else None)"

definition cdap_terminal_upgrade :: "'t ws_env \<Rightarrow> ws_request \<Rightarrow> upgrade_outcome" where
  "cdap_terminal_upgrade env req =
     (case cdap_device 6 30 ''terminal'' (wr_path req) of
        None \<Rightarrow> Untouched
      | Some dev \<Rightarrow> with_origin env req
          (if \<not> ws_logged_in req then Turned_down 401
           else if role_or_flat req \<noteq> ''admin'' \<and> role_or_flat req \<noteq> ''super_admin'' then Turned_down 403
           else Accepted (EpCdapTerminal dev)))"

definition server_terminal_upgrade :: "'t ws_env \<Rightarrow> ws_request \<Rightarrow> upgrade_outcome" where
  "server_terminal_upgrade env req = with_origin env req
     (if \<not> ws_logged_in req then Turned_down 401
      else if role_or_flat req \<in> {''super_admin'', ''admin'', ''server_admin''} then Accepted EpServerTerminal
      else Turned_down 403)"

definition roleLevel :: "string \<Rightarrow> nat" where
  "roleLevel r = (if r \<in> {''super_admin'', ''admin''} then 5 else if r \<in> {''global_admin'', ''server_admin''} then 4
     else if r = ''operator'' then 2 else if r \<in> {''viewer'', ''pro''} then 1 else 0)"

definition cdap_media_upgrade :: "string \<Rightarrow> string \<Rightarrow> 't ws_env \<Rightarrow> ws_request \<Rightarrow> upgrade_outcome" where
  "cdap_media_upgrade channel minRole env req =
     (case cdap_device 1 64 channel (wr_path req) of
        None \<Rightarrow> Untouched
      | Some dev \<Rightarrow> with_origin env req
          (if \<not> ws_logged_in req then Turned_down 401
           else if roleLevel (role_or_flat req) < (if roleLevel minRole = 0 then 3 else roleLevel minRole) then Turned_down 403
           else Accepted (EpCdapMedia channel dev)))"

definition mesh_upgrade :: "'t ws_env \<Rightarrow> ws_request \<Rightarrow> upgrade_outcome" where
  "mesh_upgrade env req = with_origin env req
     (if wr_path req = ''/control.ashx'' \<and> \<not> ws_logged_in req then Turned_down 401
      else Accepted (EpMesh (wr_path req)))"

definition target_of :: "string \<Rightarrow> string option" where
  "target_of path =
     (if startsWith path ''/ws/remote-target/rt_'' then
        (let r = drop 21 path in
         if 8 \<le> length r \<and> length r \<le> 80 \<and> list_all (\<lambda>c. is_alnum c \<or> c = CHR ''-'') r then Some (''rt_'' @ r) else None)
      else None)"

definition remote_target_upgrade :: "'t ws_env \<Rightarrow> ws_request \<Rightarrow> upgrade_outcome" where
  "remote_target_upgrade env req =
     (case target_of (wr_path req) of
        None \<Rightarrow> Turned_down 404
      | Some t \<Rightarrow> with_origin env req
          (if \<not> (ws_logged_in req \<and> permitted env (Some (role_or_flat req)) ''remote_target.connect'') then Turned_down 403
           else case we_target env t of
             None \<Rightarrow> Turned_down 502
           | Some None \<Rightarrow> Turned_down 404
           | Some (Some dev) \<Rightarrow>
               if userCanAccessDevice (we_json env) (we_restricted_default env) (we_db env)
                    (ws_session_user req) (Some dev) None
               then Accepted (EpRemoteTarget t) else Turned_down 404))"

text \<open>\<open>authenticateUpgrade\<close> of the status pushes has no origin check.\<close>

definition device_status_upgrade :: "'t ws_env \<Rightarrow> ws_request \<Rightarrow> upgrade_outcome" where
  "device_status_upgrade env req = (if \<not> ws_logged_in req then Turned_down 401 else Accepted EpDeviceStatus)"

definition panel_events_upgrade :: "'t ws_env \<Rightarrow> ws_request \<Rightarrow> upgrade_outcome" where
  "panel_events_upgrade env req =
     (if \<not> ws_logged_in req then Turned_down 401
      else case roleHasEffectivePermission (we_resolved env) (user_role req) ''enrollment.approve'' of
        Inl e \<Rightarrow> Turned_down 503
      | Inr ok \<Rightarrow> if ok then Accepted EpPanelEvents else Turned_down 403)"


section \<open>The router\<close>

type_synonym 't ws_route = "(string \<Rightarrow> bool) \<times> ('t ws_env \<Rightarrow> ws_request \<Rightarrow> upgrade_outcome)"

definition registerUpgradeHandler ::
  "(string \<Rightarrow> bool) \<Rightarrow> ('t ws_env \<Rightarrow> ws_request \<Rightarrow> upgrade_outcome) \<Rightarrow> 't ws_route list \<Rightarrow> 't ws_route list" where
  "registerUpgradeHandler match handle routes = routes @ [(match, handle)]"

definition dispatch_upgrade :: "'t ws_route list \<Rightarrow> 't ws_env \<Rightarrow> ws_request \<Rightarrow> upgrade_outcome" where
  "dispatch_upgrade routes env req =
     (if \<not> wr_url_ok req then Turned_down 400
      else case find (\<lambda>r. fst r (wr_path req)) routes of
        None \<Rightarrow> Untouched
      | Some r \<Rightarrow> snd r env req)"

definition cdap_media_routes :: "'t ws_route list \<Rightarrow> 't ws_route list" where
  "cdap_media_routes routes =
     fold (\<lambda>(ch, minRole). registerUpgradeHandler (\<lambda>p. cdap_device 1 64 ch p \<noteq> None) (cdap_media_upgrade ch minRole))
       [(''desktop'', ''admin''), (''video'', ''operator''), (''files'', ''admin''), (''audio'', ''operator'')] routes"

definition console_routes :: "'t ws_route list" where
  "console_routes =
     registerUpgradeHandler (\<lambda>p. p = ''/ws/panel-events'') panel_events_upgrade
     (registerUpgradeHandler (\<lambda>p. p = ''/ws/device-status'') device_status_upgrade
     (registerUpgradeHandler (\<lambda>p. target_of p \<noteq> None) remote_target_upgrade
     (registerUpgradeHandler (\<lambda>p. p \<in> {''/agent.ashx'', ''/meshrelay.ashx'', ''/control.ashx''}) mesh_upgrade
     (cdap_media_routes
     (registerUpgradeHandler (\<lambda>p. p = ''/ws/server-management/terminal'') server_terminal_upgrade
     (registerUpgradeHandler (\<lambda>p. cdap_device 6 30 ''terminal'' p \<noteq> None) cdap_terminal_upgrade
     (registerUpgradeHandler (\<lambda>p. one_segment ''/ws/remote-agent/'' p \<noteq> None \<or> one_segment ''/ws/remote-viewer/'' p \<noteq> None) remote_upgrade
     (registerUpgradeHandler (\<lambda>p. one_segment ''/ws/chat/'' p \<noteq> None \<or> one_segment ''/ws/chat-operator/'' p \<noteq> None) chat_upgrade
     (registerUpgradeHandler (\<lambda>p. p = ''/ws/bd-relay'' \<or> p = ''/ws/bd-signal'') bd_upgrade
     (registerUpgradeHandler (\<lambda>p. p = ''/ws/rendezvous'' \<or> p = ''/ws/relay'') proxy_upgrade []))))))))))"

definition upgrade :: "'t ws_env \<Rightarrow> ws_request \<Rightarrow> upgrade_outcome" where
  "upgrade env req = dispatch_upgrade console_routes env req"


section \<open>What an accepted upgrade rests on\<close>

text \<open>A device credential: an enrollment token that is bound to the device or to none, neither revoked nor
  expired nor used up, or a client access token of the device.\<close>

definition holds_credential :: "'t ws_env \<Rightarrow> string \<Rightarrow> string \<Rightarrow> bool" where
  "holds_credential env dev t = (8 \<le> length t \<and>
     ((\<exists>rows r. we_device_tokens env = Some rows \<and> r \<in> set rows \<and> dt_token_hash r = we_hash env t
          \<and> dt_status r \<noteq> ''revoked'' \<and> dt_status r \<noteq> ''expired'' \<and> (dt_max_uses r > 0 \<longrightarrow> dt_use_count r < dt_max_uses r)
          \<and> (\<forall>e. dt_expires_at r = Some e \<longrightarrow> we_now env \<le> e) \<and> dt_peer_id r \<in> {[], dev})
      \<or> (\<exists>x r. x \<in> {t, we_hash env t} \<and> we_access_token env x = Some r \<and> t_client_id r = dev)))"

text \<open>The token that an agent sends, in the query or in the header.\<close>

definition sent_token :: "ws_request \<Rightarrow> string" where
  "sent_token req = (if query req ''token'' \<noteq> [] then query req ''token'' else bearer_token (or_str (wr_authorization req) []))"

text \<open>A token that a guest sends: in one of two parameters of the query, or in a cookie of the console.\<close>

definition sent_guest_token :: "'t ws_env \<Rightarrow> ws_request \<Rightarrow> string \<Rightarrow> bool" where
  "sent_guest_token env req t = (t \<in> {js_trim (query req ''guest''), js_trim (query req ''t'')}
     \<or> (\<exists>n \<in> set (we_guest_cookies env @ [''bd.guest'', ''betterdesk.guest'']). cookie_token (or_str (wr_cookie req) []) n = Some t))"

lemma first_cookie_sent: "first_cookie raw ns = Some t \<Longrightarrow> t \<noteq> [] \<Longrightarrow> \<exists>n \<in> set ns. cookie_token raw n = Some t"
  by (induction ns) (auto split: option.splits if_splits)

lemma guest_token_sent: "guest_token env req \<noteq> [] \<Longrightarrow> sent_guest_token env req (guest_token env req)"
  using first_cookie_sent [of "or_str (wr_cookie req) []" "we_guest_cookies env @ [''bd.guest'', ''betterdesk.guest'']"]
  unfolding guest_token_def sent_guest_token_def Let_def by (auto split: option.splits if_splits)

text \<open>What opens an endpoint.  The device of an endpoint is the one of the path, and the credential of an agent is the
  one that the request carries.  The channels of the BD client and of mesh agents are opened on the path alone: their
  users identify themselves in the messages that follow.\<close>

fun entitled :: "'t ws_env \<Rightarrow> ws_request \<Rightarrow> endpoint \<Rightarrow> bool" where
  "entitled env req (EpProxy lab opts) =
     (wr_path req = (if lab = Rendezvous then ''/ws/rendezvous'' else ''/ws/relay'') \<and>
      (if ws_logged_in req then permitted env (user_role req) ''device.connect'' \<and> guestGrant opts = None
       else guestToken opts \<noteq> [] \<and> sent_guest_token env req (guestToken opts)
        \<and> guestPeerId opts = js_trim (query req ''peer_id'') \<and> id_format 3 64 (guestPeerId opts) \<and> guestGrant opts \<noteq> None
        \<and> we_validate env (guestToken opts) (guestPeerId opts) = Some (guestGrant opts)))"
| "entitled env req EpBdRelay = (wr_path req = ''/ws/bd-relay'')"
| "entitled env req EpBdSignal = (wr_path req = ''/ws/bd-signal'')"
| "entitled env req (EpChatAgent dev) =
     (one_segment ''/ws/chat/'' (wr_path req) = Some dev \<and> holds_credential env dev (sent_token req))"
| "entitled env req (EpChatOperator dev) = (one_segment ''/ws/chat-operator/'' (wr_path req) = Some dev \<and> ws_logged_in req \<and> permitted env (user_role req) ''chat.access'')"
| "entitled env req (EpRemoteAgent dev) =
     (Option.bind (one_segment ''/ws/remote-agent/'' (wr_path req)) decodeURIComponent = Some dev \<and> id_format 3 64 dev
      \<and> (we_agent_token env dev (query req ''token'') \<or> holds_credential env dev (query req ''token'')))"
| "entitled env req (EpRemoteViewer dev) = (one_segment ''/ws/remote-viewer/'' (wr_path req) = Some dev \<and> ws_logged_in req \<and> permitted env (user_role req) ''device.connect'')"
| "entitled env req (EpCdapTerminal dev) = (cdap_device 6 30 ''terminal'' (wr_path req) = Some dev \<and> ws_logged_in req \<and> role_or_flat req \<in> {''admin'', ''super_admin''})"
| "entitled env req EpServerTerminal = (wr_path req = ''/ws/server-management/terminal'' \<and> ws_logged_in req \<and> role_or_flat req \<in> {''admin'', ''super_admin'', ''server_admin''})"
| "entitled env req (EpCdapMedia ch dev) =
     (cdap_device 1 64 ch (wr_path req) = Some dev \<and> ws_logged_in req \<and> (if ch \<in> {''desktop'', ''files''} then role_or_flat req \<in> {''admin'', ''super_admin''}
        else role_or_flat req \<in> {''admin'', ''super_admin'', ''global_admin'', ''server_admin'', ''operator''}))"
| "entitled env req (EpMesh path) =
     (wr_path req = path \<and> (path \<in> {''/agent.ashx'', ''/meshrelay.ashx''} \<or> path = ''/control.ashx'' \<and> ws_logged_in req))"
| "entitled env req (EpRemoteTarget t) =
     (target_of (wr_path req) = Some t \<and> ws_logged_in req \<and> permitted env (Some (role_or_flat req)) ''remote_target.connect''
      \<and> (\<exists>dev. we_target env t = Some (Some dev)
           \<and> userCanAccessDevice (we_json env) (we_restricted_default env) (we_db env)
               (ws_session_user req) (Some dev) None))"
| "entitled env req EpDeviceStatus = (wr_path req = ''/ws/device-status'' \<and> ws_logged_in req)"
| "entitled env req EpPanelEvents = (wr_path req = ''/ws/panel-events'' \<and> ws_logged_in req \<and> permitted env (user_role req) ''enrollment.approve'')"

lemma enrollment_row_valid:
  "validateEnrollmentRow now (Some r) dev \<Longrightarrow> dt_status r \<noteq> ''revoked'' \<and> dt_status r \<noteq> ''expired''
     \<and> (dt_max_uses r > 0 \<longrightarrow> dt_use_count r < dt_max_uses r) \<and> (\<forall>e. dt_expires_at r = Some e \<longrightarrow> now \<le> e) \<and> dt_peer_id r \<in> {[], dev}"
  by (auto simp: validateEnrollmentRow_def split: if_splits option.splits)

lemma device_auth_credential:
  assumes "verifyDeviceWsAuth env dev t = Some True"
  shows "holds_credential env dev t"
proof -
  have len: "8 \<le> length t" using assms by (auto simp: verifyDeviceWsAuth_def split: if_splits)
  obtain rows where rows: "we_device_tokens env = Some rows"
    using assms by (cases "we_device_tokens env") (auto simp: verifyDeviceWsAuth_def verifyEnrollmentToken_def split: if_splits)
  consider "validateEnrollmentRow (we_now env) (find (\<lambda>r. dt_token_hash r = we_hash env t) rows) dev"
    | x r where "x \<in> {t, we_hash env t}" "we_access_token env x = Some r" "t_client_id r = dev"
    using assms rows by (auto simp: verifyDeviceWsAuth_def verifyEnrollmentToken_def Let_def split: if_splits option.splits)
  then show ?thesis
  proof cases
    case 1
    then obtain r where r: "find (\<lambda>r. dt_token_hash r = we_hash env t) rows = Some r"
      by (auto simp: validateEnrollmentRow_def split: option.splits)
    then show ?thesis
      using len rows enrollment_row_valid [of "we_now env" r dev] 1 find_SomeD [OF r] by (auto simp: holds_credential_def)
  next
    case 2
    then show ?thesis using len by (auto simp: holds_credential_def)
  qed
qed

lemma with_origin_accepts: "with_origin env req k = Accepted ep \<longleftrightarrow> validateOrigin env req \<and> k = Accepted ep"
  by (simp add: with_origin_def)

lemma role_level:
  "5 \<le> roleLevel r \<longleftrightarrow> r \<in> {''admin'', ''super_admin''}"
  "2 \<le> roleLevel r \<longleftrightarrow> r \<in> {''admin'', ''super_admin'', ''global_admin'', ''server_admin'', ''operator''}"
  by (auto simp: roleLevel_def)

text \<open>Each handler accepts only what the request is entitled to, and only from an allowed origin.\<close>

lemmas upgrade_handler_defs =
  proxy_upgrade_def bd_upgrade_def chat_upgrade_def chat_agent_upgrade_def chat_operator_upgrade_def remote_upgrade_def
  remote_agent_upgrade_def remote_viewer_upgrade_def cdap_terminal_upgrade_def server_terminal_upgrade_def
  mesh_upgrade_def remote_target_upgrade_def

definition careful :: "(string \<Rightarrow> bool) \<Rightarrow> ('t ws_env \<Rightarrow> ws_request \<Rightarrow> upgrade_outcome) \<Rightarrow> bool" where
  "careful m h = (\<forall>env req ep. m (wr_path req) \<longrightarrow> h env req = Accepted ep \<longrightarrow> validateOrigin env req \<and> entitled env req ep)"

lemma careful_proxy: "careful (\<lambda>p. p = ''/ws/rendezvous'' \<or> p = ''/ws/relay'') proxy_upgrade"
  using guest_token_sent
  by (auto simp: careful_def proxy_upgrade_def with_origin_accepts no_guest_def Let_def split: if_splits option.splits)

lemma careful_bd: "careful (\<lambda>p. p = ''/ws/bd-relay'' \<or> p = ''/ws/bd-signal'') bd_upgrade"
  by (auto simp: careful_def bd_upgrade_def with_origin_accepts split: if_splits)

lemma careful_chat: "careful m chat_upgrade"
  by (auto simp: careful_def chat_upgrade_def chat_agent_upgrade_def chat_operator_upgrade_def with_origin_accepts Let_def sent_token_def
      split: if_splits option.splits bool.splits dest: device_auth_credential)

lemma careful_remote: "careful m remote_upgrade"
  by (auto simp: careful_def remote_upgrade_def remote_agent_upgrade_def remote_viewer_upgrade_def with_origin_accepts
      verifyAgentConnection_def split: if_splits option.splits dest: device_auth_credential)

lemma careful_terminals: "careful m cdap_terminal_upgrade" "careful (\<lambda>p. p = ''/ws/server-management/terminal'') server_terminal_upgrade"
  by (auto simp: careful_def cdap_terminal_upgrade_def server_terminal_upgrade_def with_origin_accepts
      split: if_splits option.splits)

lemma careful_media:
  assumes "if ch \<in> {''desktop'', ''files''} then m = ''admin'' else m = ''operator''"
  shows "careful m' (cdap_media_upgrade ch m)"
  unfolding careful_def
proof (intro allI impI)
  fix env :: "'a ws_env" and req ep
  assume a: "cdap_media_upgrade ch m env req = Accepted ep"
  obtain dev where d: "cdap_device 1 64 ch (wr_path req) = Some dev"
    using a by (cases "cdap_device 1 64 ch (wr_path req)") (simp_all add: cdap_media_upgrade_def)
  let ?lv = "if roleLevel m = 0 then 3 else roleLevel m"
  have lv: "?lv = (if ch \<in> {''desktop'', ''files''} then 5 else 2)" using assms by (simp add: roleLevel_def split: if_splits)
  have "validateOrigin env req \<and> ws_logged_in req \<and> ?lv \<le> roleLevel (role_or_flat req) \<and> ep = EpCdapMedia ch dev"
    using a unfolding cdap_media_upgrade_def d option.case with_origin_accepts by (simp only: not_less split: if_splits) simp_all
  then show "validateOrigin env req \<and> entitled env req ep"
    unfolding lv using d by (cases "ch \<in> {''desktop'', ''files''}") (auto simp only: entitled.simps role_level if_True if_False)
qed

lemma careful_mesh: "careful (\<lambda>p. p = ''/agent.ashx'' \<or> p = ''/meshrelay.ashx'' \<or> p = ''/control.ashx'') mesh_upgrade"
  by (auto simp: careful_def mesh_upgrade_def with_origin_accepts split: if_splits)

lemma careful_target: "careful m remote_target_upgrade"
  unfolding careful_def
proof (intro allI impI)
  fix env :: "'a ws_env" and req ep
  assume a: "remote_target_upgrade env req = Accepted ep"
  obtain t where t: "target_of (wr_path req) = Some t"
    using a by (cases "target_of (wr_path req)") (simp_all add: remote_target_upgrade_def)
  from a have v: "validateOrigin env req" and l: "ws_logged_in req \<and> permitted env (Some (role_or_flat req)) ''remote_target.connect''"
    unfolding remote_target_upgrade_def t by (simp_all add: with_origin_accepts split: if_splits)
  obtain dev where d: "we_target env t = Some (Some dev)"
    using a v l unfolding remote_target_upgrade_def t
    by (cases "we_target env t") (simp_all add: with_origin_accepts split: option.splits)
  then show "validateOrigin env req \<and> entitled env req ep"
    using a v l unfolding remote_target_upgrade_def t by (auto simp: with_origin_accepts t split: if_splits)
qed


lemma console_routes_list:
  "console_routes =
     [(\<lambda>p. p = ''/ws/rendezvous'' \<or> p = ''/ws/relay'', proxy_upgrade),
      (\<lambda>p. p = ''/ws/bd-relay'' \<or> p = ''/ws/bd-signal'', bd_upgrade),
      (\<lambda>p. one_segment ''/ws/chat/'' p \<noteq> None \<or> one_segment ''/ws/chat-operator/'' p \<noteq> None, chat_upgrade),
      (\<lambda>p. one_segment ''/ws/remote-agent/'' p \<noteq> None \<or> one_segment ''/ws/remote-viewer/'' p \<noteq> None, remote_upgrade),
      (\<lambda>p. cdap_device 6 30 ''terminal'' p \<noteq> None, cdap_terminal_upgrade),
      (\<lambda>p. p = ''/ws/server-management/terminal'', server_terminal_upgrade),
      (\<lambda>p. cdap_device 1 64 ''desktop'' p \<noteq> None, cdap_media_upgrade ''desktop'' ''admin''),
      (\<lambda>p. cdap_device 1 64 ''video'' p \<noteq> None, cdap_media_upgrade ''video'' ''operator''),
      (\<lambda>p. cdap_device 1 64 ''files'' p \<noteq> None, cdap_media_upgrade ''files'' ''admin''),
      (\<lambda>p. cdap_device 1 64 ''audio'' p \<noteq> None, cdap_media_upgrade ''audio'' ''operator''),
      (\<lambda>p. p \<in> {''/agent.ashx'', ''/meshrelay.ashx'', ''/control.ashx''}, mesh_upgrade),
      (\<lambda>p. target_of p \<noteq> None, remote_target_upgrade),
      (\<lambda>p. p = ''/ws/device-status'', device_status_upgrade),
      (\<lambda>p. p = ''/ws/panel-events'', panel_events_upgrade)]"
  unfolding console_routes_def cdap_media_routes_def registerUpgradeHandler_def by simp

lemma careful_routes: "list_all (\<lambda>r. careful (fst r) (snd r)) (take 12 console_routes)"
  unfolding console_routes_list
  by (simp add: careful_proxy careful_bd careful_chat careful_remote careful_terminals careful_media careful_mesh careful_target)

lemma careful_route:
  assumes "r \<in> set console_routes" "fst r path" "path \<noteq> ''/ws/device-status''" "path \<noteq> ''/ws/panel-events''"
  shows "careful (fst r) (snd r)"
proof -
  have "set console_routes = set (take 12 console_routes) \<union> set (drop 12 console_routes)"
    by (metis append_take_drop_id set_append)
  moreover have "r \<notin> set (drop 12 console_routes)" using assms(2-4) by (auto simp: console_routes_list)
  ultimately show ?thesis using assms(1) careful_routes by (auto simp: list_all_iff)
qed

lemma upgrade_route:
  fixes env :: "'t ws_env"
  assumes "upgrade env req = Accepted ep"
  obtains r where "r \<in> set console_routes" "fst r (wr_path req)" "snd r env req = Accepted ep"
proof -
  let ?f = "find (\<lambda>r. fst r (wr_path req)) (console_routes :: 't ws_route list)"
  obtain r where f: "?f = Some r" and ok: "wr_url_ok req"
    using assms unfolding upgrade_def dispatch_upgrade_def by (cases ?f) (auto split: if_splits)
  have "snd r env req = Accepted ep" using assms unfolding upgrade_def dispatch_upgrade_def f using ok by simp
  with that find_SomeD [OF f] show thesis by blast
qed

lemma status_routes:
  "r \<in> set console_routes \<Longrightarrow> fst r ''/ws/device-status'' \<Longrightarrow> snd r = device_status_upgrade"
  "r \<in> set console_routes \<Longrightarrow> fst r ''/ws/panel-events'' \<Longrightarrow> snd r = panel_events_upgrade"
  unfolding console_routes_list by (auto simp: one_segment_def cdap_device_def target_of_def startsWith_def)

text \<open>C4: What an accepted WebSocket upgrade rests on.  Whatever the request, if it is accepted then its path is the one of the
  endpoint it reaches and it is entitled to that endpoint.  The proxy needs a panel account with the permission to connect, or a
  grant that the Go server confirmed for a token which the request carries, in the query or a cookie, and for the peer that the
  request names.  A chat or remote agent carries a valid credential of the device in its path: an enrollment token that is bound
  to the device or to none, an access token of the device, or for the remote desktop a one-time token of it.  The operators'
  chat, the viewer and the stored targets need a login and the permission of the role, a target also a user whose scope
  contains its device; the terminals and media channels need a login with one of the roles that \<open>entitled\<close> lists; the panel events
  a login and the permission to approve enrollments, the device status and the control channel of mesh a login.  The channels
  of the BD client and of mesh agents have no check but the origin at this point: who uses them is settled by the messages that
  follow.  Except for the device status and the panel events, the origin of the request was allowed as well.\<close>

theorem upgrade_needs_authority:
  assumes "upgrade env req = Accepted ep"
  shows "entitled env req ep
    \<and> (wr_path req \<notin> {''/ws/device-status'', ''/ws/panel-events''} \<longrightarrow> validateOrigin env req)"
proof -
  obtain r where r: "r \<in> set console_routes" "fst r (wr_path req)" "snd r env req = Accepted ep"
    using upgrade_route [OF assms] .
  show ?thesis
  proof (cases "wr_path req \<in> {''/ws/device-status'', ''/ws/panel-events''}")
    case False
    then show ?thesis using careful_route [OF r(1,2)] r(2,3) by (auto simp: careful_def)
  next
    case True
    then show ?thesis
      using status_routes [OF r(1)] r(2,3)
      by (auto simp: device_status_upgrade_def panel_events_upgrade_def permitted_def split: if_splits sum.splits)
  qed
qed


definition demo_ws_env :: "nat ws_env" where
  "demo_ws_env = \<lparr>we_allowed_origins = [], we_allow_missing = False, we_now = 0, we_hash = (\<lambda>t. t), we_resolved = (\<lambda>_. Inr []),
     we_guest_cookies = [], we_validate = (\<lambda>t p. if t = ''tok'' \<and> p = ''dev1'' then Some (Some demo_grant) else Some None),
     we_device_tokens = Some [], we_access_token = (\<lambda>_. None), we_agent_token = (\<lambda>_ _. False), we_target = (\<lambda>_. None),
     we_json = (\<lambda>_. None), we_restricted_default = False, we_db = empty_auth_db\<rparr>"

definition demo_ws_request :: ws_request where
  "demo_ws_request = \<lparr>wr_url_ok = True, wr_path = ''/ws/rendezvous'',
     wr_query = [(''guest'', ''tok''), (''peer_id'', ''dev1''), (''guest_session'', ''s'')], wr_host = Some ''h'',
     wr_origin = Some ''https://h'', wr_cookie = None, wr_authorization = None, wr_session = None\<rparr>"

theorem upgrade_needs_authority_witness:
  "\<exists>ep. upgrade demo_ws_env demo_ws_request = Accepted ep \<and> entitled demo_ws_env demo_ws_request ep
    \<and> validateOrigin demo_ws_env demo_ws_request"
proof -
  have path: "wr_path demo_ws_request = ''/ws/rendezvous''" by (simp add: demo_ws_request_def)
  have "upgrade demo_ws_env demo_ws_request = Accepted (EpProxy Rendezvous \<lparr>messageTransport = False, guestGrant = Some demo_grant,
      guestToken = ''tok'', guestPeerId = ''dev1'', guestSessionId = ''s''\<rparr>)" (is "_ = Accepted ?ep")
    by code_simp
  moreover from upgrade_needs_authority [OF this] have "entitled demo_ws_env demo_ws_request ?ep \<and> validateOrigin demo_ws_env demo_ws_request"
    unfolding path by (simp del: entitled.simps)
  ultimately show ?thesis by blast
qed

text \<open>The status pushes open from any site.  A request for the device status that carries a session is
  accepted whatever its origin is, while the same request for the operators' chat is refused unless its
  origin is allowed.\<close>

theorem status_push_ignores_origin:
  assumes "ws_logged_in req"
  shows "upgrade env (req\<lparr>wr_url_ok := True, wr_path := ''/ws/device-status'', wr_origin := o'\<rparr>) = Accepted EpDeviceStatus
    \<and> (\<not> validateOrigin env req \<longrightarrow>
        upgrade env (req\<lparr>wr_url_ok := True, wr_path := ''/ws/chat-operator/panel''\<rparr>) = Turned_down 403)"
proof -
  let ?a = "req\<lparr>wr_url_ok := True, wr_path := ''/ws/device-status'', wr_origin := o'\<rparr>"
  let ?b = "req\<lparr>wr_url_ok := True, wr_path := ''/ws/chat-operator/panel''\<rparr>"
  have "upgrade env ?a = device_status_upgrade env ?a"
    by (simp add: upgrade_def dispatch_upgrade_def console_routes_list one_segment_def cdap_device_def target_of_def startsWith_def)
  moreover have "ws_logged_in ?a" using assms by (simp add: ws_logged_in_def)
  moreover have "upgrade env ?b = chat_operator_upgrade env ?b ''panel''"
    by (simp add: upgrade_def dispatch_upgrade_def console_routes_list one_segment_def startsWith_def chat_upgrade_def)
  moreover have "validateOrigin env ?b = validateOrigin env req" by (simp add: validateOrigin_def sameHostOrigin_def)
  ultimately show ?thesis by (simp add: device_status_upgrade_def chat_operator_upgrade_def with_origin_def)
qed

theorem status_push_ignores_origin_witness:
  "\<exists>req. upgrade demo_ws_env req = Accepted EpDeviceStatus \<and> \<not> validateOrigin demo_ws_env req"
proof -
  let ?req = "demo_ws_request\<lparr>wr_session := Some \<lparr>wss_userId = 1, wss_user = None, wss_role = None\<rparr>, wr_origin := Some ''https://evil''\<rparr>"
  have "ws_logged_in ?req" by (simp add: ws_logged_in_def)
  from status_push_ignores_origin [OF this, of demo_ws_env "Some ''https://evil''"] show ?thesis
    by (intro exI [of _ "?req\<lparr>wr_url_ok := True, wr_path := ''/ws/device-status'', wr_origin := Some ''https://evil''\<rparr>"])
      (simp add: validateOrigin_def sameHostOrigin_def demo_ws_request_def demo_ws_env_def or_str_def)
qed

lemma with_origin_throws: "with_origin env req k = Thrown \<longleftrightarrow> validateOrigin env req \<and> k = Thrown"
  by (simp add: with_origin_def)

lemma no_throw:
  "proxy_upgrade env req \<noteq> Thrown" "bd_upgrade env req \<noteq> Thrown" "chat_upgrade env req \<noteq> Thrown"
  "cdap_terminal_upgrade env req \<noteq> Thrown" "server_terminal_upgrade env req \<noteq> Thrown" "cdap_media_upgrade ch m env req \<noteq> Thrown"
  "mesh_upgrade env req \<noteq> Thrown" "device_status_upgrade env req \<noteq> Thrown" "panel_events_upgrade env req \<noteq> Thrown"
  by (simp_all add: proxy_upgrade_def bd_upgrade_def chat_upgrade_def chat_agent_upgrade_def chat_operator_upgrade_def
      cdap_terminal_upgrade_def server_terminal_upgrade_def cdap_media_upgrade_def mesh_upgrade_def device_status_upgrade_def
      panel_events_upgrade_def with_origin_throws Let_def split: option.splits sum.splits)

lemma no_throw_target: "remote_target_upgrade env req \<noteq> Thrown"
  by (simp add: remote_target_upgrade_def with_origin_throws split: option.splits)

lemma remote_throws:
  "remote_upgrade env req = Thrown \<longleftrightarrow>
     (\<exists>seg. one_segment ''/ws/remote-agent/'' (wr_path req) = Some seg \<and> decodeURIComponent seg = None \<and> validateOrigin env req)"
  by (auto simp: remote_upgrade_def remote_agent_upgrade_def remote_viewer_upgrade_def with_origin_throws split: option.splits if_splits)

lemma throwing_route:
  fixes env :: "'t ws_env"
  assumes "r \<in> set (console_routes :: 't ws_route list)" "snd r env req = Thrown"
  shows "remote_upgrade env req = Thrown"
  using assms unfolding console_routes_list by (auto simp: no_throw no_throw_target)

lemma agent_route:
  assumes "one_segment ''/ws/remote-agent/'' path = Some seg"
  shows "find (\<lambda>r. fst r path) console_routes
    = Some (\<lambda>p. one_segment ''/ws/remote-agent/'' p \<noteq> None \<or> one_segment ''/ws/remote-viewer/'' p \<noteq> None, remote_upgrade)"
proof -
  obtain r where r: "path = ''/ws/remote-agent/'' @ r"
    using assms by (auto simp: one_segment_def startsWith_iff split: if_splits)
  have "one_segment ''/ws/chat/'' path = None" "one_segment ''/ws/chat-operator/'' path = None"
    by (simp_all add: r one_segment_def startsWith_def)
  then show ?thesis using assms unfolding console_routes_list by (simp add: r)
qed

text \<open>The requests that stop the console.  The upgrade of exactly those requests ends in an exception
  that nothing catches whose last path segment behind \<open>/ws/remote-agent/\<close> is no well-formed percent
  encoding and whose origin passes; no credential is looked at before.\<close>

theorem upgrade_throws_iff:
  fixes env :: "'t ws_env"
  shows "upgrade env req = Thrown \<longleftrightarrow>
     wr_url_ok req \<and> validateOrigin env req
     \<and> (\<exists>seg. one_segment ''/ws/remote-agent/'' (wr_path req) = Some seg \<and> decodeURIComponent seg = None)"
proof
  let ?f = "find (\<lambda>r. fst r (wr_path req)) (console_routes :: 't ws_route list)"
  assume t: "upgrade env req = Thrown"
  then obtain r where f: "?f = Some r" and ok: "wr_url_ok req"
    unfolding upgrade_def dispatch_upgrade_def by (cases ?f) (auto split: if_splits)
  have "snd r env req = Thrown" using t unfolding upgrade_def dispatch_upgrade_def f using ok by simp
  then have "remote_upgrade env req = Thrown" using throwing_route find_SomeD [OF f] by blast
  then show "wr_url_ok req \<and> validateOrigin env req
     \<and> (\<exists>seg. one_segment ''/ws/remote-agent/'' (wr_path req) = Some seg \<and> decodeURIComponent seg = None)"
    using ok by (auto simp: remote_throws)
next
  assume a: "wr_url_ok req \<and> validateOrigin env req
     \<and> (\<exists>seg. one_segment ''/ws/remote-agent/'' (wr_path req) = Some seg \<and> decodeURIComponent seg = None)"
  then obtain seg where seg: "one_segment ''/ws/remote-agent/'' (wr_path req) = Some seg" by blast
  have "upgrade env req = remote_upgrade env req"
    unfolding upgrade_def dispatch_upgrade_def agent_route [OF seg] using a by simp
  then show "upgrade env req = Thrown" using a by (auto simp: remote_throws)
qed

text \<open>One such request needs no header at all.\<close>

lemma upgrade_throws_demo:
  "upgrade demo_ws_env (demo_ws_request\<lparr>wr_path := ''/ws/remote-agent/%zz'', wr_origin := None\<rparr>) = Thrown"
  by code_simp

end
