(* ===== verification/Json_Values.thy ===== *)
theory Json_Values
  imports BD_Prelude
begin

text \<open>
  The values that \<open>JSON.parse\<close> gives to the message handlers of the relays, with what the handlers do with
  them: reading a property, the tests for truth, and the conversion to a string.  Numbers are whole.
  Reading a property of \<open>null\<close> raises a \<open>TypeError\<close>, reading a missing one gives \<open>undefined\<close>.
\<close>

datatype json =
    JNull
  | JBool bool
  | JNum int
  | JStr string
  | JArr "json list"
  | JObj "(string \<times> json) list"

text \<open>\<open>v.name\<close>: \<open>Inl\<close> is the exception, \<^term>\<open>Inr None\<close> is \<open>undefined\<close>.\<close>

definition get_prop :: "json \<Rightarrow> string \<Rightarrow> unit + json option" where
  "get_prop v name = (case v of JNull \<Rightarrow> Inl () | JObj fs \<Rightarrow> Inr (map_of fs name) | _ \<Rightarrow> Inr None)"

text \<open>The property of a value that is not \<open>null\<close>.\<close>

definition field :: "json \<Rightarrow> string \<Rightarrow> json option" where
  "field v name = (case v of JObj fs \<Rightarrow> map_of fs name | _ \<Rightarrow> None)"

definition truthy :: "json option \<Rightarrow> bool" where
  "truthy v = (v \<notin> {None, Some JNull, Some (JBool False), Some (JNum 0), Some (JStr [])})"

text \<open>\<open>String(v)\<close>, \<^term>\<open>None\<close> for the \<open>TypeError\<close>: an object with a property \<open>toString\<close> of its own, which a
  parsed text can only give a value that is no function, has no primitive value.\<close>

fun js_string :: "json \<Rightarrow> string option" and js_item :: "json \<Rightarrow> string option" where
  "js_string JNull = Some ''null''"
| "js_string (JBool b) = Some (if b then ''true'' else ''false'')"
| "js_string (JNum n) = Some (show_int n)"
| "js_string (JStr s) = Some s"
| "js_string (JArr xs) = map_option (join_with '','') (those (map js_item xs))"
| "js_string (JObj fs) = (if ''toString'' \<in> fst ` set fs then None else Some ''[object Object]'')"
| "js_item JNull = Some []"
| "js_item (JBool b) = Some (if b then ''true'' else ''false'')"
| "js_item (JNum n) = Some (show_int n)"
| "js_item (JStr s) = Some s"
| "js_item (JArr xs) = map_option (join_with '','') (those (map js_item xs))"
| "js_item (JObj fs) = (if ''toString'' \<in> fst ` set fs then None else Some ''[object Object]'')"

text \<open>\<open>a || b\<close>, and \<open>String(a || '')\<close>.\<close>

definition or_else :: "json option \<Rightarrow> json option \<Rightarrow> json option" where
  "or_else a b = (if truthy a then a else b)"

definition text_or_empty :: "json option \<Rightarrow> string option" where
  "text_or_empty a = Option.bind (or_else a (Some (JStr []))) js_string"

definition is_array :: "json option \<Rightarrow> bool" where
  "is_array v = (case v of Some (JArr xs) \<Rightarrow> True | _ \<Rightarrow> False)"

text \<open>\<open>{ ...o, name: v }\<close> and \<open>delete o.name\<close>.\<close>

definition set_field :: "string \<Rightarrow> json \<Rightarrow> (string \<times> json) list \<Rightarrow> (string \<times> json) list" where
  "set_field name v fs =
     (if name \<in> fst ` set fs then map (\<lambda>(k, x). (k, if k = name then v else x)) fs else fs @ [(name, v)])"

definition delete_field :: "string \<Rightarrow> (string \<times> json) list \<Rightarrow> (string \<times> json) list" where
  "delete_field name fs = filter (\<lambda>(k, x). k \<noteq> name) fs"

lemma get_prop_throws [simp]: "get_prop v name = Inl () \<longleftrightarrow> v = JNull"
  by (cases v) (simp_all add: get_prop_def)

lemma get_prop_field: "v \<noteq> JNull \<Longrightarrow> get_prop v name = Inr (field v name)"
  by (cases v) (simp_all add: get_prop_def field_def)

lemma map_of_replace:
  "map_of (map (\<lambda>(k, x). (k, if k = name then v else x)) fs) k
     = (if k = name \<and> map_of fs k \<noteq> None then Some v else map_of fs k)"
  by (induction fs) (auto split: if_splits)

lemma map_of_set_field: "map_of (set_field name v fs) k = (if k = name then Some v else map_of fs k)"
proof (cases "name \<in> fst ` set fs")
  case True
  then have "map_of fs name \<noteq> None" by (simp add: map_of_eq_None_iff)
  with True show ?thesis by (simp add: set_field_def map_of_replace)
next
  case False
  then have "map_of fs name = None" by (simp add: map_of_eq_None_iff)
  with False show ?thesis by (simp add: set_field_def map_add_def split: option.splits)
qed

lemma map_of_delete_field: "map_of (delete_field name fs) k = (if k = name then None else map_of fs k)"
  unfolding delete_field_def by (induction fs) auto

end
