(* ===== verification/Event_System.thy ===== *)
theory Event_System
  imports Main
begin

text \<open>
  The relays are event systems: handlers run one after the other, each takes the state to a new one or
  raises an exception that ends the process.  Reachable states and runs are the same for all of them, and
  the locale states what an invariant of such a system has to satisfy; its lemmas are proved once and
  interpreted for each relay in its theory.
\<close>

inductive reachable :: "('e \<Rightarrow> 's \<Rightarrow> 's option) \<Rightarrow> 's \<Rightarrow> 's \<Rightarrow> bool" for step init where
  start: "reachable step init init"
| next_step: "reachable step init s \<Longrightarrow> step ev s = Some s' \<Longrightarrow> reachable step init s'"

inductive_cases reachableE: "reachable step init s"

fun run_events :: "('e \<Rightarrow> 's \<Rightarrow> 's option) \<Rightarrow> 'e list \<Rightarrow> 's \<Rightarrow> 's option" where
  "run_events step [] s = Some s"
| "run_events step (ev # evs) s = (case step ev s of None \<Rightarrow> None | Some s' \<Rightarrow> run_events step evs s')"

lemma run_reachable: "reachable step init s \<Longrightarrow> run_events step evs s = Some s' \<Longrightarrow> reachable step init s'"
  by (induction evs arbitrary: s) (auto split: option.splits intro: reachable.next_step)

lemma reachable_run: "reachable step init s \<Longrightarrow> \<exists>evs. run_events step evs init = Some s"
proof (induction rule: reachable.induct)
  case start
  have "run_events step [] init = Some init" by simp
  then show ?case ..
next
  case (next_step s ev s')
  then obtain evs where "run_events step evs init = Some s" by blast
  moreover have "run_events step (evs @ [ev]) t = Option.bind (run_events step evs t) (step ev)" for t
    by (induction evs arbitrary: t) (auto split: option.splits)
  ultimately show ?case using next_step by (intro exI [of _ "evs @ [ev]"]) simp
qed

locale event_invariant =
  fixes step :: "'e \<Rightarrow> 's \<Rightarrow> 's option" and init :: 's and inv :: "'s \<Rightarrow> bool"
  assumes inv_init: "inv init"
    and inv_step: "inv s \<Longrightarrow> step ev s = Some s' \<Longrightarrow> inv s'"
begin

lemma inv_reachable: "reachable step init s \<Longrightarrow> inv s"
  by (induction rule: reachable.induct) (auto intro: inv_init inv_step)

lemma inv_run: "inv s \<Longrightarrow> run_events step evs s = Some s' \<Longrightarrow> inv s'"
  by (induction evs arbitrary: s) (auto split: option.splits intro: inv_step)

end

end
