(* ===== verification/Remote_Relay.thy ===== *)
theory Remote_Relay
  imports Json_Values Event_System
begin

text \<open>
  The remote desktop relay of \<open>src/web-nodejs/services/remoteRelay.js\<close>: one session per device with its
  agent, its viewers, the streaming flag and the idle timer, and the single-use tokens of agents.

  Sockets are numbers with their \<open>readyState\<close> and what was sent to them; a message records the socket
  whose handler sent it.  A step is one event of a socket or of a timer; \<^term>\<open>None\<close> is an exception that
  leaves the handler and, since nothing catches it, ends the process.
\<close>

section \<open>State\<close>

definition MAX_BINARY_FRAME :: nat where "MAX_BINARY_FRAME = 2 * 1024 * 1024"

definition MAX_VIEWERS :: nat where "MAX_VIEWERS = 5"

definition AGENT_TOKEN_TTL_MS :: int where "AGENT_TOKEN_TTL_MS = 60 * 1000"

datatype ws_state = WsOpen | WsClosing | WsClosed

datatype relay_msg =
    MStart
  | MStop
  | MStreamStarted
  | MStreamStopped string
  | MAgentReady string
  | MSessionInfo bool bool
  | MAgentDisconnected
  | MFrame nat string
  | MAgentJson nat json
  | MInput nat json

datatype peer_role = AgentOf string | ViewerOf string

record rsession =
  agentWs :: "nat option"
  viewers :: "nat list"
  streaming :: bool
  idle_armed :: bool

record remote =
  sessions :: "string \<Rightarrow> rsession option"
  session_keys :: "string list"
  wstate :: "nat \<Rightarrow> ws_state"
  attached :: "nat \<Rightarrow> peer_role option"
  outbox :: "nat \<Rightarrow> relay_msg list"
  pendingAgentTokens :: "string \<Rightarrow> (string \<times> int) option"

definition empty_remote :: remote where
  "empty_remote = \<lparr>sessions = (\<lambda>_. None), session_keys = [], wstate = (\<lambda>_. WsClosed), attached = (\<lambda>_. None),
     outbox = (\<lambda>_. []), pendingAgentTokens = (\<lambda>_. None)\<rparr>"

definition new_session :: rsession where
  "new_session = \<lparr>agentWs = None, viewers = [], streaming = False, idle_armed = False\<rparr>"


section \<open>Helpers\<close>

definition getSession :: "string \<Rightarrow> remote \<Rightarrow> rsession \<times> remote" where
  "getSession dev s =
     (case sessions s dev of
        Some x \<Rightarrow> (x, s)
      | None \<Rightarrow> (new_session, s\<lparr>sessions := (sessions s)(dev \<mapsto> new_session), session_keys := session_keys s @ [dev]\<rparr>))"

definition put_session :: "string \<Rightarrow> rsession \<Rightarrow> remote \<Rightarrow> remote" where
  "put_session dev x s = s\<lparr>sessions := (sessions s)(dev \<mapsto> x)\<rparr>"

definition send_ws :: "relay_msg \<Rightarrow> nat \<Rightarrow> remote \<Rightarrow> remote" where
  "send_ws m w s = (if wstate s w = WsOpen then s\<lparr>outbox := (outbox s)(w := outbox s w @ [m])\<rparr> else s)"

definition broadcast :: "nat list \<Rightarrow> relay_msg \<Rightarrow> remote \<Rightarrow> remote" where
  "broadcast ws m s = fold (send_ws m) ws s"

text \<open>\<open>ws.close\<close> of an open socket; the event \<open>close\<close> comes later.\<close>

definition close_ws :: "nat \<Rightarrow> remote \<Rightarrow> remote" where
  "close_ws w s = (if wstate s w = WsOpen then s\<lparr>wstate := (wstate s)(w := WsClosing)\<rparr> else s)"

definition startAgentStream :: "string \<Rightarrow> rsession \<Rightarrow> remote \<Rightarrow> rsession \<times> remote" where
  "startAgentStream dev x s =
     (case agentWs x of
        None \<Rightarrow> (x, s)
      | Some a \<Rightarrow>
          if streaming x then (x, s)
          else (x\<lparr>streaming := True, idle_armed := False\<rparr>,
                broadcast (viewers x) MStreamStarted (send_ws MStart a s)))"

definition stopAgentStream :: "string \<Rightarrow> rsession \<Rightarrow> remote \<Rightarrow> rsession \<times> remote" where
  "stopAgentStream reason x s =
     (if \<not> streaming x then (x, s)
      else (x\<lparr>streaming := False\<rparr>,
            broadcast (viewers x) (MStreamStopped reason)
              (case agentWs x of None \<Rightarrow> s | Some a \<Rightarrow> send_ws MStop a s)))"

definition scheduleIdleClose :: "rsession \<Rightarrow> rsession" where
  "scheduleIdleClose x = x\<lparr>idle_armed := True\<rparr>"


section \<open>Agent tokens\<close>

definition issueRemoteAgentToken :: "int \<Rightarrow> string \<Rightarrow> string \<Rightarrow> remote \<Rightarrow> remote" where
  "issueRemoteAgentToken now dev token s =
     s\<lparr>pendingAgentTokens := (pendingAgentTokens s)(dev \<mapsto> (token, now + AGENT_TOKEN_TTL_MS))\<rparr>"

definition consumeRemoteAgentToken :: "int \<Rightarrow> string \<Rightarrow> string \<Rightarrow> remote \<Rightarrow> bool \<times> remote" where
  "consumeRemoteAgentToken now dev token s =
     (case pendingAgentTokens s dev of
        None \<Rightarrow> (False, s)
      | Some (t, expiresAt) \<Rightarrow>
          if token = [] then (False, s)
          else if now > expiresAt then (False, s\<lparr>pendingAgentTokens := (pendingAgentTokens s)(dev := None)\<rparr>)
          else if t \<noteq> token then (False, s)
          else (True, s\<lparr>pendingAgentTokens := (pendingAgentTokens s)(dev := None)\<rparr>))"


section \<open>Connections\<close>

definition attach :: "nat \<Rightarrow> peer_role \<Rightarrow> remote \<Rightarrow> remote" where
  "attach w r s = s\<lparr>wstate := (wstate s)(w := WsOpen), attached := (attached s)(w \<mapsto> r)\<rparr>"

definition handleAgentConnection :: "nat \<Rightarrow> string \<Rightarrow> remote \<Rightarrow> remote" where
  "handleAgentConnection w dev s0 =
     (let (x, s1) = getSession dev (attach w (AgentOf dev) s0);
          s2 = (case agentWs x of None \<Rightarrow> s1 | Some a \<Rightarrow> if wstate s1 a \<noteq> WsClosed then close_ws a s1 else s1);
          x1 = x\<lparr>streaming := False, agentWs := Some w\<rparr>;
          s3 = broadcast (viewers x1) (MAgentReady dev) s2;
          (x2, s4) = (if viewers x1 \<noteq> [] then startAgentStream dev x1 s3 else (scheduleIdleClose x1, s3))
      in put_session dev x2 s4)"

definition agent_binary :: "nat \<Rightarrow> string \<Rightarrow> string \<Rightarrow> remote \<Rightarrow> remote" where
  "agent_binary w dev data s =
     (if length data > MAX_BINARY_FRAME then s
      else broadcast (viewers (fst (getSession dev s))) (MFrame w data) s)"

text \<open>The message is what \<open>JSON.parse\<close> returns; \<^term>\<open>None\<close> when it throws.\<close>

definition agent_text :: "nat \<Rightarrow> string \<Rightarrow> json option \<Rightarrow> remote \<Rightarrow> remote option" where
  "agent_text w dev frame s =
     (case frame of
        None \<Rightarrow> Some s
      | Some f \<Rightarrow>
          (case get_prop f ''type'' of
             Inl _ \<Rightarrow> None
           | Inr t \<Rightarrow>
               if t = Some (JStr ''pong'') \<or> t = Some (JStr ''status'')
               then Some (broadcast (viewers (fst (getSession dev s))) (MAgentJson w f) s)
               else Some s))"

definition agent_close :: "nat \<Rightarrow> string \<Rightarrow> remote \<Rightarrow> remote" where
  "agent_close w dev s =
     (case sessions s dev of
        None \<Rightarrow> s
      | Some x \<Rightarrow>
          if agentWs x = Some w then
            broadcast (viewers x) MAgentDisconnected
              (put_session dev (x\<lparr>agentWs := None, streaming := False, idle_armed := False\<rparr>) s)
          else s)"

definition handleViewerConnection :: "nat \<Rightarrow> string \<Rightarrow> remote \<Rightarrow> remote" where
  "handleViewerConnection w dev s0 =
     (let (x, s1) = getSession dev s0 in
      if length (viewers x) \<ge> MAX_VIEWERS then s1
      else
        let s2 = attach w (ViewerOf dev) s1;
            x1 = x\<lparr>viewers := viewers x @ [w]\<rparr>;
            agentReady = (case agentWs x1 of None \<Rightarrow> False | Some a \<Rightarrow> wstate s2 a = WsOpen);
            s3 = send_ws (MSessionInfo agentReady (streaming x1)) w s2;
            (x2, s4) = (if agentReady \<and> \<not> streaming x1 then startAgentStream dev x1 s3 else (x1, s3))
        in put_session dev x2 s4)"

text \<open>The event for the agent: \<open>type\<close> becomes \<open>event_type\<close>, \<open>kind\<close> or \<open>unknown\<close>.\<close>

definition agent_event :: "json \<Rightarrow> json" where
  "agent_event f =
     JObj (delete_field ''event_type''
       (set_field ''type''
         (case or_else (field f ''event_type'') (or_else (field f ''kind'') (Some (JStr ''unknown''))) of
            None \<Rightarrow> JNull | Some v \<Rightarrow> v)
         (case f of JObj fs \<Rightarrow> fs | _ \<Rightarrow> [])))"

definition viewer_text :: "nat \<Rightarrow> string \<Rightarrow> json option \<Rightarrow> remote \<Rightarrow> remote option" where
  "viewer_text w dev frame s =
     (case frame of
        None \<Rightarrow> Some s
      | Some f \<Rightarrow>
          (case get_prop f ''type'' of
             Inl _ \<Rightarrow> None
           | Inr t \<Rightarrow>
               let x = fst (getSession dev s) in
               if t = Some (JStr ''stop'') then
                 (case stopAgentStream ''operator requested stop'' x s of (x1, s1) \<Rightarrow> Some (put_session dev x1 s1))
               else if t = Some (JStr ''input'') then
                 Some (case agentWs x of None \<Rightarrow> s | Some a \<Rightarrow> send_ws (MInput w (agent_event f)) a s)
               else Some s))"

definition viewer_close :: "nat \<Rightarrow> string \<Rightarrow> remote \<Rightarrow> remote" where
  "viewer_close w dev s =
     (case sessions s dev of
        None \<Rightarrow> s
      | Some x \<Rightarrow>
          let x1 = x\<lparr>viewers := filter (\<lambda>v. v \<noteq> w) (viewers x)\<rparr> in
          if viewers x1 = [] then
            (case stopAgentStream ''last viewer left'' x1 s of (x2, s1) \<Rightarrow> put_session dev (scheduleIdleClose x2) s1)
          else put_session dev x1 s)"

text \<open>The idle timer fires.\<close>

definition idle_timeout :: "string \<Rightarrow> remote \<Rightarrow> remote" where
  "idle_timeout dev s =
     (case sessions s dev of
        None \<Rightarrow> s
      | Some x \<Rightarrow>
          if \<not> idle_armed x then s
          else
            let s1 = put_session dev (x\<lparr>idle_armed := False\<rparr>) s in
            if viewers x = [] then (case agentWs x of None \<Rightarrow> s1 | Some a \<Rightarrow> close_ws a s1) else s1)"

record session_state =
  agentConnected :: bool
  viewerCount :: nat
  ss_streaming :: bool

definition getSessionState :: "string \<Rightarrow> remote \<Rightarrow> session_state option" where
  "getSessionState dev s =
     map_option (\<lambda>x. \<lparr>agentConnected = (case agentWs x of None \<Rightarrow> False | Some a \<Rightarrow> wstate s a = WsOpen),
                      viewerCount = length (viewers x), ss_streaming = streaming x\<rparr>) (sessions s dev)"

definition getActiveSessions :: "remote \<Rightarrow> string list" where
  "getActiveSessions s = session_keys s"


section \<open>Steps\<close>

datatype remote_event =
    AgentConnects nat string
  | ViewerConnects nat string
  | BinaryMessage nat string
  | TextMessage nat "json option"
  | SocketCloses nat
  | IdleTimerFires string

fun remote_step :: "remote_event \<Rightarrow> remote \<Rightarrow> remote option" where
  "remote_step (AgentConnects w dev) s = Some (if attached s w = None then handleAgentConnection w dev s else s)"
| "remote_step (ViewerConnects w dev) s = Some (if attached s w = None then handleViewerConnection w dev s else s)"
| "remote_step (BinaryMessage w data) s =
     (case attached s w of Some (AgentOf dev) \<Rightarrow> Some (if wstate s w = WsClosed then s else agent_binary w dev data s) | _ \<Rightarrow> Some s)"
| "remote_step (TextMessage w frame) s =
     (if wstate s w = WsClosed then Some s
      else case attached s w of
        None \<Rightarrow> Some s
      | Some (AgentOf dev) \<Rightarrow> agent_text w dev frame s
      | Some (ViewerOf dev) \<Rightarrow> viewer_text w dev frame s)"
| "remote_step (SocketCloses w) s =
     Some (if wstate s w = WsClosed then s
           else let s1 = s\<lparr>wstate := (wstate s)(w := WsClosed)\<rparr> in
             case attached s w of
               None \<Rightarrow> s1
             | Some (AgentOf dev) \<Rightarrow> agent_close w dev s1
             | Some (ViewerOf dev) \<Rightarrow> viewer_close w dev s1)"
| "remote_step (IdleTimerFires dev) s = Some (idle_timeout dev s)"

abbreviation remote_reachable :: "remote \<Rightarrow> bool" where
  "remote_reachable \<equiv> reachable remote_step empty_remote"

lemmas remote_reachable_step = reachable.next_step [where step = remote_step and init = empty_remote]



section \<open>What sending changes\<close>

lemma send_ws_fields [simp]:
  "sessions (send_ws m w s) = sessions s" "session_keys (send_ws m w s) = session_keys s" "wstate (send_ws m w s) = wstate s"
  "attached (send_ws m w s) = attached s" "pendingAgentTokens (send_ws m w s) = pendingAgentTokens s"
  by (simp_all add: send_ws_def)

lemma broadcast_fields [simp]:
  "sessions (broadcast ws m s) = sessions s" "session_keys (broadcast ws m s) = session_keys s" "wstate (broadcast ws m s) = wstate s"
  "attached (broadcast ws m s) = attached s" "pendingAgentTokens (broadcast ws m s) = pendingAgentTokens s"
  unfolding broadcast_def by (induction ws arbitrary: s) simp_all

lemma close_ws_fields [simp]:
  "sessions (close_ws w s) = sessions s" "session_keys (close_ws w s) = session_keys s" "attached (close_ws w s) = attached s"
  "outbox (close_ws w s) = outbox s" "wstate (close_ws w s) v = WsOpen \<longleftrightarrow> wstate s v = WsOpen \<and> v \<noteq> w"
  by (auto simp: close_ws_def)

lemma put_session_fields [simp]:
  "sessions (put_session dev x s) = (sessions s)(dev \<mapsto> x)" "session_keys (put_session dev x s) = session_keys s"
  "attached (put_session dev x s) = attached s" "outbox (put_session dev x s) = outbox s" "wstate (put_session dev x s) = wstate s"
  by (simp_all add: put_session_def)

lemma attach_fields [simp]:
  "sessions (attach w r s) = sessions s" "session_keys (attach w r s) = session_keys s" "outbox (attach w r s) = outbox s"
  "attached (attach w r s) = (attached s)(w \<mapsto> r)" "wstate (attach w r s) = (wstate s)(w := WsOpen)"
  by (simp_all add: attach_def)

lemma outbox_send: "outbox (send_ws m w s) v = outbox s v @ (if v = w \<and> wstate s w = WsOpen then [m] else [])"
  by (simp add: send_ws_def)

text \<open>Every open receiver that is listed once gets the message once.\<close>

lemma outbox_broadcast:
  "distinct ws \<Longrightarrow> outbox (broadcast ws m s) v = outbox s v @ (if v \<in> set ws \<and> wstate s v = WsOpen then [m] else [])"
proof (induction ws arbitrary: s)
  case (Cons w ws)
  have "outbox (broadcast (w # ws) m s) v = outbox (broadcast ws m (send_ws m w s)) v" by (simp add: broadcast_def)
  also have "\<dots> = outbox (send_ws m w s) v @ (if v \<in> set ws \<and> wstate s v = WsOpen then [m] else [])" using Cons by simp
  finally show ?case using Cons(2) by (auto simp: outbox_send)
qed (simp add: broadcast_def)


section \<open>The invariant\<close>

definition session_ok :: "remote \<Rightarrow> string \<Rightarrow> rsession \<Rightarrow> bool" where
  "session_ok s dev x = (length (viewers x) \<le> MAX_VIEWERS \<and> distinct (viewers x)
     \<and> (streaming x \<longrightarrow> agentWs x \<noteq> None \<and> viewers x \<noteq> [])
     \<and> (\<forall>v \<in> set (viewers x). attached s v = Some (ViewerOf dev))
     \<and> (\<forall>a. agentWs x = Some a \<longrightarrow> attached s a = Some (AgentOf dev))
     \<and> (\<forall>a. agentWs x = Some a \<and> viewers x = [] \<and> wstate s a = WsOpen \<longrightarrow> idle_armed x))"

text \<open>A frame or a report goes from an agent to a viewer of the same device, input from a viewer to an
  agent of the same device.\<close>

fun msg_ok :: "remote \<Rightarrow> nat \<Rightarrow> relay_msg \<Rightarrow> bool" where
  "msg_ok s w (MFrame src d) = (\<exists>dev. attached s w = Some (ViewerOf dev) \<and> attached s src = Some (AgentOf dev))"
| "msg_ok s w (MAgentJson src j) = (\<exists>dev. attached s w = Some (ViewerOf dev) \<and> attached s src = Some (AgentOf dev))"
| "msg_ok s w (MInput src j) = (\<exists>dev. attached s w = Some (AgentOf dev) \<and> attached s src = Some (ViewerOf dev))"
| "msg_ok s w _ = True"

definition sessions_ok :: "remote \<Rightarrow> bool" where
  "sessions_ok s = (\<forall>dev x. sessions s dev = Some x \<longrightarrow> session_ok s dev x)"

definition outbox_ok :: "remote \<Rightarrow> bool" where
  "outbox_ok s = (\<forall>w. \<forall>m \<in> set (outbox s w). msg_ok s w m)"

definition remote_inv :: "remote \<Rightarrow> bool" where
  "remote_inv s = (sessions_ok s \<and> outbox_ok s)"

lemma msg_ok_attached: "attached s' = attached s \<Longrightarrow> msg_ok s' w m = msg_ok s w m"
  by (cases m) simp_all

lemma outbox_ok_send: "outbox_ok s \<Longrightarrow> msg_ok s w m \<Longrightarrow> outbox_ok (send_ws m w s)"
  using msg_ok_attached [of "send_ws m w s" s] by (auto simp: outbox_ok_def outbox_send split: if_splits)

lemma outbox_ok_broadcast:
  "outbox_ok s \<Longrightarrow> (\<And>w. w \<in> set ws \<Longrightarrow> msg_ok s w m) \<Longrightarrow> outbox_ok (broadcast ws m s)"
proof (induction ws arbitrary: s)
  case (Cons w ws)
  have "msg_ok (send_ws m w s) v m = msg_ok s v m" for v by (rule msg_ok_attached) simp
  then have "outbox_ok (broadcast ws m (send_ws m w s))" using Cons outbox_ok_send [of s w m] by simp
  then show ?case by (simp add: broadcast_def)
qed (simp add: broadcast_def)

lemma outbox_ok_cong: "outbox s' = outbox s \<Longrightarrow> attached s' = attached s \<Longrightarrow> outbox_ok s' = outbox_ok s"
  using msg_ok_attached [of s' s] by (simp add: outbox_ok_def)

lemma outbox_ok_attach: "outbox_ok s \<Longrightarrow> attached s w = None \<Longrightarrow> outbox_ok (attach w r s)"
proof -
  assume s: "outbox_ok s" "attached s w = None"
  have "msg_ok (attach w r s) v m" if "msg_ok s v m" for v m using that s(2) by (cases m) auto
  with s(1) show ?thesis by (auto simp: outbox_ok_def)
qed

lemma sessions_ok_cong:
  "sessions s' = sessions s \<Longrightarrow> attached s' = attached s \<Longrightarrow> (\<And>w. wstate s' w = WsOpen \<Longrightarrow> wstate s w = WsOpen)
    \<Longrightarrow> sessions_ok s \<Longrightarrow> sessions_ok s'"
  by (simp add: sessions_ok_def session_ok_def)

lemma sessions_ok_put: "sessions_ok s \<Longrightarrow> session_ok s dev x \<Longrightarrow> sessions_ok (put_session dev x s)"
  by (auto simp: sessions_ok_def session_ok_def)

lemma sessions_ok_attach: "sessions_ok s \<Longrightarrow> attached s w = None \<Longrightarrow> sessions_ok (attach w r s)"
  by (auto simp: sessions_ok_def session_ok_def)

lemma getSession_ok:
  assumes "remote_inv s" "getSession dev s = (x, s')"
  shows "remote_inv s'" "session_ok s' dev x" "sessions s' dev = Some x" "attached s' = attached s" "wstate s' = wstate s"
    "outbox s' = outbox s"
proof -
  consider "sessions s dev = Some x" "s' = s"
    | "sessions s dev = None" "x = new_session" "s' = s\<lparr>sessions := (sessions s)(dev \<mapsto> new_session), session_keys := session_keys s @ [dev]\<rparr>"
    using assms(2) by (auto simp: getSession_def split: option.splits)
  then have "remote_inv s' \<and> session_ok s' dev x \<and> sessions s' dev = Some x \<and> attached s' = attached s \<and> wstate s' = wstate s
      \<and> outbox s' = outbox s"
  proof cases
    case 1
    then show ?thesis using assms(1) by (auto simp: remote_inv_def sessions_ok_def)
  next
    case 2
    have "session_ok s' dev new_session" by (simp add: session_ok_def new_session_def)
    moreover have "sessions_ok s'"
      using assms(1) 2 by (auto simp: remote_inv_def sessions_ok_def session_ok_def new_session_def)
    moreover have "outbox_ok s'" using assms(1) 2 outbox_ok_cong [of s' s] by (simp add: remote_inv_def)
    ultimately show ?thesis using 2 by (simp add: remote_inv_def)
  qed
  then show "remote_inv s'" "session_ok s' dev x" "sessions s' dev = Some x" "attached s' = attached s" "wstate s' = wstate s"
    "outbox s' = outbox s" by auto
qed

lemma getSession_viewers: "remote_inv s \<Longrightarrow> v \<in> set (viewers (fst (getSession dev s))) \<Longrightarrow> attached s v = Some (ViewerOf dev)"
  using getSession_ok [of s dev "fst (getSession dev s)" "snd (getSession dev s)"] by (simp add: session_ok_def)

text \<open>Starting and stopping a stream only sends control messages.\<close>

definition quiet :: "relay_msg \<Rightarrow> bool" where
  "quiet m = (\<forall>s w. msg_ok s w m)"

lemma quiet_msgs [simp]:
  "quiet MStart" "quiet MStop" "quiet MStreamStarted" "quiet (MStreamStopped r)" "quiet (MAgentReady d)" "quiet (MSessionInfo a b)"
  "quiet MAgentDisconnected"
  by (simp_all add: quiet_def)

lemma inv_send_quiet: "remote_inv s \<Longrightarrow> quiet m \<Longrightarrow> remote_inv (send_ws m w s)"
  using sessions_ok_cong [of "send_ws m w s" s] outbox_ok_send [of s w m] by (simp add: remote_inv_def quiet_def)

lemma inv_broadcast: "remote_inv s \<Longrightarrow> (\<And>w. w \<in> set ws \<Longrightarrow> msg_ok s w m) \<Longrightarrow> remote_inv (broadcast ws m s)"
  using sessions_ok_cong [of "broadcast ws m s" s] outbox_ok_broadcast [of s ws m] by (simp add: remote_inv_def)

lemma inv_broadcast_quiet: "remote_inv s \<Longrightarrow> quiet m \<Longrightarrow> remote_inv (broadcast ws m s)"
  by (rule inv_broadcast) (simp_all add: quiet_def)

lemma inv_put: "remote_inv s \<Longrightarrow> session_ok s dev x \<Longrightarrow> remote_inv (put_session dev x s)"
  using sessions_ok_put [of s dev x] outbox_ok_cong [of "put_session dev x s" s] by (simp add: remote_inv_def)

lemma inv_close: "remote_inv s \<Longrightarrow> remote_inv (close_ws w s)"
  using sessions_ok_cong [of "close_ws w s" s] outbox_ok_cong [of "close_ws w s" s] by (simp add: remote_inv_def)

lemma inv_attach: "remote_inv s \<Longrightarrow> attached s w = None \<Longrightarrow> remote_inv (attach w r s)"
  using sessions_ok_attach outbox_ok_attach by (simp add: remote_inv_def)

lemma session_ok_cong: "attached s' = attached s \<Longrightarrow> (\<And>w. wstate s' w = WsOpen \<Longrightarrow> wstate s w = WsOpen) \<Longrightarrow> session_ok s dev x \<Longrightarrow> session_ok s' dev x"
  by (simp add: session_ok_def)

lemma start_ok:
  assumes "startAgentStream dev x s = (x', s')" "remote_inv s"
  shows "remote_inv s'" "attached s' = attached s" "wstate s' = wstate s"
    "agentWs x' = agentWs x" "viewers x' = viewers x" "agentWs x \<noteq> None \<Longrightarrow> streaming x'"
  using assms by (auto simp: startAgentStream_def intro!: inv_broadcast_quiet inv_send_quiet split: option.splits if_splits)

lemma stop_ok:
  assumes "stopAgentStream reason x s = (x', s')" "remote_inv s"
  shows "remote_inv s'" "attached s' = attached s" "wstate s' = wstate s"
    "agentWs x' = agentWs x" "viewers x' = viewers x" "\<not> streaming x'" "idle_armed x' = idle_armed x"
  using assms by (auto simp: stopAgentStream_def intro!: inv_broadcast_quiet inv_send_quiet split: option.splits if_splits)


lemma inv_agent_connect:
  assumes "remote_inv s0" "attached s0 w = None"
  shows "remote_inv (handleAgentConnection w dev s0)"
proof -
  obtain x s1 where g: "getSession dev (attach w (AgentOf dev) s0) = (x, s1)" by fastforce
  note gs = getSession_ok [OF inv_attach [OF assms] g]
  define s2 where "s2 = (case agentWs x of None \<Rightarrow> s1 | Some a \<Rightarrow> if wstate s1 a \<noteq> WsClosed then close_ws a s1 else s1)"
  have s2: "remote_inv s2" "attached s2 = attached s1" using gs(1) inv_close by (auto simp: s2_def split: option.splits)
  let ?x1 = "x\<lparr>streaming := False, agentWs := Some w\<rparr>"
  define s3 where "s3 = broadcast (viewers ?x1) (MAgentReady dev) s2"
  have s3: "remote_inv s3" "attached s3 = attached s1" using s2 inv_broadcast_quiet by (simp_all add: s3_def)
  have w: "attached s3 w = Some (AgentOf dev)" using s3(2) gs(4) by simp
  obtain x2 s4 where x2: "(if viewers ?x1 \<noteq> [] then startAgentStream dev ?x1 s3 else (scheduleIdleClose ?x1, s3)) = (x2, s4)" by fastforce
  have "handleAgentConnection w dev s0
      = (case (if viewers ?x1 \<noteq> [] then startAgentStream dev ?x1 s3 else (scheduleIdleClose ?x1, s3)) of (x2, s4) \<Rightarrow> put_session dev x2 s4)"
    unfolding handleAgentConnection_def g Let_def prod.case s3_def s2_def ..
  then have "handleAgentConnection w dev s0 = put_session dev x2 s4" unfolding x2 by simp
  moreover have "remote_inv s4 \<and> session_ok s4 dev x2"
  proof (cases "viewers ?x1 = []")
    case True
    then have "x2 = scheduleIdleClose ?x1" "s4 = s3" using x2 by auto
    then show ?thesis using s3(1) w True by (simp add: session_ok_def scheduleIdleClose_def)
  next
    case False
    then have st: "startAgentStream dev ?x1 s3 = (x2, s4)" using x2 by simp
    note so = start_ok [OF st s3(1)]
    have "session_ok s4 dev x2"
      using gs(2) s3(2) so w False by (auto simp: session_ok_def)
    with so(1) show ?thesis by simp
  qed
  ultimately show ?thesis using inv_put by simp
qed

lemma inv_viewer_connect:
  assumes "remote_inv s0" "attached s0 w = None"
  shows "remote_inv (handleViewerConnection w dev s0)"
proof -
  obtain x s1 where g: "getSession dev s0 = (x, s1)" by fastforce
  note gs = getSession_ok [OF assms(1) g]
  show ?thesis
  proof (cases "length (viewers x) \<ge> MAX_VIEWERS")
    case True
    then show ?thesis using gs(1) by (simp add: handleViewerConnection_def g)
  next
    case False
    let ?s2 = "attach w (ViewerOf dev) s1" and ?x1 = "x\<lparr>viewers := viewers x @ [w]\<rparr>"
    let ?ready = "case agentWs x of None \<Rightarrow> False | Some a \<Rightarrow> wstate ?s2 a = WsOpen"
    let ?s3 = "send_ws (MSessionInfo ?ready (streaming x)) w ?s2"
    have fresh: "attached s1 w = None" using assms(2) gs(4) by simp
    have s3: "remote_inv ?s3" using gs(1) fresh by (intro inv_send_quiet inv_attach) simp_all
    have x1: "session_ok ?s3 dev ?x1" using gs(2) fresh False by (fastforce simp: session_ok_def)
    obtain x2 s4 where x2: "(if ?ready \<and> \<not> streaming x then startAgentStream dev ?x1 ?s3 else (?x1, ?s3)) = (x2, s4)" by fastforce
    have "handleViewerConnection w dev s0
        = (case (if ?ready \<and> \<not> streaming x then startAgentStream dev ?x1 ?s3 else (?x1, ?s3)) of (x2, s4) \<Rightarrow> put_session dev x2 s4)"
      using False unfolding handleViewerConnection_def g Let_def prod.case by simp
    then have "handleViewerConnection w dev s0 = put_session dev x2 s4" unfolding x2 by simp
    moreover have "remote_inv s4 \<and> session_ok s4 dev x2"
    proof (cases "?ready \<and> \<not> streaming x")
      case True
      then have st: "startAgentStream dev ?x1 ?s3 = (x2, s4)" using x2 by simp
      note so = start_ok [OF st s3]
      have "agentWs x \<noteq> None" using True by (auto split: option.splits)
      then have "session_ok s4 dev x2" using x1 so by (auto simp: session_ok_def)
      with so(1) show ?thesis by simp
    next
      case False
      then show ?thesis using x2 s3 x1 by (simp split: if_splits)
    qed
    ultimately show ?thesis using inv_put by simp
  qed
qed

lemma inv_closed_socket:
  assumes "remote_inv s"
  shows "remote_inv (s\<lparr>wstate := (wstate s)(w := WsClosed)\<rparr>)" (is "remote_inv ?s")
proof -
  have "sessions_ok ?s"
    by (rule sessions_ok_cong [of _ s]) (use assms in \<open>auto simp: remote_inv_def split: if_splits\<close>)
  then show ?thesis using assms outbox_ok_cong [of ?s s] by (simp add: remote_inv_def)
qed

lemma inv_session: "remote_inv s \<Longrightarrow> sessions s dev = Some x \<Longrightarrow> session_ok s dev x"
  by (simp add: remote_inv_def sessions_ok_def)

lemma inv_agent_close: "remote_inv s \<Longrightarrow> remote_inv (agent_close w dev s)"
proof (cases "\<exists>x. sessions s dev = Some x \<and> agentWs x = Some w")
  case True
  assume s: "remote_inv s"
  obtain x where x: "sessions s dev = Some x" "agentWs x = Some w" using True by blast
  have "session_ok s dev (x\<lparr>agentWs := None, streaming := False, idle_armed := False\<rparr>)"
    using inv_session [OF s x(1)] by (simp add: session_ok_def)
  with s x show ?thesis by (simp add: agent_close_def inv_broadcast_quiet inv_put)
qed (auto simp: agent_close_def split: option.splits)

lemma inv_viewer_close: "remote_inv s \<Longrightarrow> remote_inv (viewer_close w dev s)"
proof (cases "sessions s dev")
  case (Some x)
  assume s: "remote_inv s"
  let ?x1 = "x\<lparr>viewers := filter (\<lambda>v. v \<noteq> w) (viewers x)\<rparr>"
  note ok = inv_session [OF s Some]
  show ?thesis
  proof (cases "viewers ?x1 = []")
    case True
    obtain x2 s1 where st: "stopAgentStream ''last viewer left'' ?x1 s = (x2, s1)" by fastforce
    note so = stop_ok [OF st s]
    have "session_ok s1 dev (scheduleIdleClose x2)" using so ok True by (simp add: session_ok_def scheduleIdleClose_def)
    then have "remote_inv (put_session dev (scheduleIdleClose x2) s1)" using so(1) by (simp add: inv_put)
    then show ?thesis using st Some True by (simp add: viewer_close_def)
  next
    case False
    have "length (filter (\<lambda>v. v \<noteq> w) (viewers x)) \<le> length (viewers x)" by simp
    then have "session_ok s dev ?x1" using ok False unfolding session_ok_def by (auto simp del: length_filter_le)
    then show ?thesis using s Some False by (auto simp: viewer_close_def inv_put)
  qed
qed (simp add: viewer_close_def)

lemma inv_idle_timeout: "remote_inv s \<Longrightarrow> remote_inv (idle_timeout dev s)"
proof (cases "\<exists>x. sessions s dev = Some x \<and> idle_armed x")
  case True
  assume s: "remote_inv s"
  obtain x where x: "sessions s dev = Some x" "idle_armed x" using True by blast
  let ?x = "x\<lparr>idle_armed := False\<rparr>"
  note ok = inv_session [OF s x(1)]
  show ?thesis
  proof (cases "viewers x = [] \<and> agentWs x \<noteq> None")
    case False
    then have "session_ok s dev ?x" using ok by (auto simp: session_ok_def)
    then show ?thesis using s x False by (auto simp: idle_timeout_def Let_def inv_put split: option.splits)
  next
    case True
    then obtain a where a: "agentWs x = Some a" by auto
    have "session_ok (close_ws a s) dev ?x" using ok True a by (simp add: session_ok_def)
    moreover have "close_ws a (put_session dev ?x s) = put_session dev ?x (close_ws a s)" by (simp add: close_ws_def put_session_def)
    ultimately show ?thesis using s x True a by (simp add: idle_timeout_def Let_def inv_put inv_close)
  qed
qed (auto simp: idle_timeout_def split: option.splits)

lemma inv_agent_text:
  assumes "remote_inv s" "attached s w = Some (AgentOf dev)" "agent_text w dev frame s = Some s'"
  shows "remote_inv s'"
proof -
  have "remote_inv (broadcast (viewers (fst (getSession dev s))) (MAgentJson w f) s)" for f
    using assms(1,2) getSession_viewers by (intro inv_broadcast) auto
  with assms show ?thesis by (auto simp: agent_text_def split: option.splits sum.splits if_splits)
qed

lemma inv_viewer_text:
  assumes "remote_inv s" "attached s w = Some (ViewerOf dev)" "viewer_text w dev frame s = Some s'"
  shows "remote_inv s'"
proof (cases frame)
  case None
  then show ?thesis using assms by (simp add: viewer_text_def)
next
  case (Some f)
  let ?x = "fst (getSession dev s)"
  obtain t where t: "get_prop f ''type'' = Inr t" using assms(3) Some by (auto simp: viewer_text_def split: sum.splits)
  have ok: "session_ok s dev ?x"
  proof -
    have "session_ok (snd (getSession dev s)) dev ?x" "attached (snd (getSession dev s)) = attached s" "wstate (snd (getSession dev s)) = wstate s"
      using getSession_ok [OF assms(1), of dev ?x "snd (getSession dev s)"] by simp_all
    then show ?thesis using session_ok_cong [of s "snd (getSession dev s)"] by simp
  qed
  consider "t = Some (JStr ''stop'')" | "t = Some (JStr ''input'')" | "t \<noteq> Some (JStr ''stop'')" "t \<noteq> Some (JStr ''input'')" by blast
  then show ?thesis
  proof cases
    case 1
    obtain x1 s1 where st: "stopAgentStream ''operator requested stop'' ?x s = (x1, s1)" by fastforce
    note so = stop_ok [OF st assms(1)]
    have "session_ok s1 dev x1" using ok so by (simp add: session_ok_def)
    then have "remote_inv (put_session dev x1 s1)" using so(1) inv_put by blast
    then show ?thesis using assms(3) Some t 1 st by (simp add: viewer_text_def Let_def)
  next
    case 2
    have "remote_inv (send_ws (MInput w j) a s)" if "agentWs ?x = Some a" for a j
    proof -
      have "msg_ok s a (MInput w j)" using that ok assms(2) by (simp add: session_ok_def)
      then show ?thesis using assms(1) outbox_ok_send sessions_ok_cong [of "send_ws (MInput w j) a s" s] by (simp add: remote_inv_def)
    qed
    then show ?thesis using assms(1,3) Some t 2 by (auto simp: viewer_text_def Let_def split: option.splits)
  next
    case 3
    then show ?thesis using assms(1,3) Some t by (simp add: viewer_text_def Let_def)
  qed
qed

lemma remote_inv_step:
  assumes "remote_inv s" "remote_step ev s = Some s'"
  shows "remote_inv s'"
proof (cases ev)
  case (AgentConnects w dev)
  then show ?thesis using assms inv_agent_connect by (auto split: if_splits)
next
  case (ViewerConnects w dev)
  then show ?thesis using assms inv_viewer_connect by (auto split: if_splits)
next
  case (BinaryMessage w data)
  have "remote_inv (agent_binary w dev data s)" if "attached s w = Some (AgentOf dev)" for dev
    using assms(1) that getSession_viewers [OF assms(1)] unfolding agent_binary_def by (auto intro!: inv_broadcast)
  then show ?thesis using assms BinaryMessage by (auto split: option.splits peer_role.splits if_splits)
next
  case (TextMessage w frame)
  consider "wstate s w = WsClosed" | "attached s w = None" | dev where "wstate s w \<noteq> WsClosed" "attached s w = Some (AgentOf dev)"
    | dev where "wstate s w \<noteq> WsClosed" "attached s w = Some (ViewerOf dev)" by (metis option.exhaust peer_role.exhaust)
  then show ?thesis
  proof cases
    case (3 dev)
    then show ?thesis using assms(2) TextMessage inv_agent_text [OF assms(1) 3(2)] by simp
  next
    case (4 dev)
    then show ?thesis using assms(2) TextMessage inv_viewer_text [OF assms(1) 4(2)] by simp
  qed (use assms TextMessage in \<open>simp_all split: if_splits\<close>)
next
  case (SocketCloses w)
  let ?s1 = "s\<lparr>wstate := (wstate s)(w := WsClosed)\<rparr>"
  have s1: "remote_inv ?s1" by (rule inv_closed_socket [OF assms(1)])
  have s': "s' = (if wstate s w = WsClosed then s else case attached s w of None \<Rightarrow> ?s1
      | Some (AgentOf dev) \<Rightarrow> agent_close w dev ?s1 | Some (ViewerOf dev) \<Rightarrow> viewer_close w dev ?s1)"
    using assms(2) SocketCloses by (auto simp: Let_def split: if_splits)
  consider "wstate s w = WsClosed" | "attached s w = None" | dev where "attached s w = Some (AgentOf dev)"
    | dev where "attached s w = Some (ViewerOf dev)" by (metis option.exhaust peer_role.exhaust)
  then show ?thesis
    unfolding s' by cases (use assms(1) s1 inv_agent_close [OF s1] inv_viewer_close [OF s1] in \<open>simp_all\<close>)
next
  case (IdleTimerFires dev)
  then show ?thesis using assms inv_idle_timeout by auto
qed

interpretation remote_sys: event_invariant remote_step empty_remote remote_inv
proof
  show "remote_inv empty_remote" by (simp add: remote_inv_def sessions_ok_def outbox_ok_def empty_remote_def)
qed (rule remote_inv_step)

lemmas remote_inv_reachable = remote_sys.inv_reachable

section \<open>Properties\<close>

text \<open>C13: The sessions of the remote relay keep their shape in every state that the relay can reach: a
  device has at most five viewers, none of them twice; a session streams only while it has an agent and
  a viewer; and an agent whose socket is open and that nobody watches always has the timer armed that
  will close it.\<close>

theorem remote_session_invariant:
  assumes "remote_reachable s" "sessions s dev = Some x"
  shows "length (viewers x) \<le> 5 \<and> distinct (viewers x)
    \<and> (streaming x \<longrightarrow> agentWs x \<noteq> None \<and> viewers x \<noteq> [])
    \<and> (\<forall>a. agentWs x = Some a \<and> wstate s a = WsOpen \<and> viewers x = [] \<longrightarrow> idle_armed x)"
  using inv_session [OF remote_inv_reachable [OF assms(1)] assms(2)] by (auto simp: session_ok_def MAX_VIEWERS_def)

definition demo_watched :: remote where
  "demo_watched = handleViewerConnection 2 ''dev'' (handleAgentConnection 1 ''dev'' empty_remote)"

lemma demo_watched_reachable: "remote_reachable demo_watched"
proof -
  have "remote_step (AgentConnects 1 ''dev'') empty_remote = Some (handleAgentConnection 1 ''dev'' empty_remote)"
    by (simp add: empty_remote_def)
  then have "remote_reachable (handleAgentConnection 1 ''dev'' empty_remote)" by (rule remote_reachable_step [OF reachable.start])
  moreover have "remote_step (ViewerConnects 2 ''dev'') (handleAgentConnection 1 ''dev'' empty_remote) = Some demo_watched"
    unfolding demo_watched_def remote_step.simps by (subst if_P) (code_simp, rule refl)
  ultimately show ?thesis by (rule remote_reachable_step)
qed

theorem remote_session_invariant_witness:
  "\<exists>x. sessions demo_watched ''dev'' = Some x \<and> viewers x = [2] \<and> streaming x \<and> agentWs x \<noteq> None"
proof -
  let ?x = "\<lparr>agentWs = Some 1, viewers = [2], streaming = True, idle_armed = False\<rparr>"
  have "sessions demo_watched ''dev'' = Some ?x" by code_simp
  from this remote_session_invariant [OF demo_watched_reachable this] show ?thesis by auto
qed

text \<open>Devices do not mix.  Whatever happened, every screen frame and every report that a socket has
  received came from a socket that connected as the agent of the same device of which it is a viewer,
  and every input event that a socket has received came from a viewer of the device whose agent it is.\<close>

theorem remote_relay_isolates_devices:
  assumes "remote_reachable s"
  shows "(MFrame src d \<in> set (outbox s w) \<or> MAgentJson src j \<in> set (outbox s w) \<longrightarrow>
      (\<exists>dev. attached s w = Some (ViewerOf dev) \<and> attached s src = Some (AgentOf dev)))
    \<and> (MInput src j \<in> set (outbox s w) \<longrightarrow>
      (\<exists>dev. attached s w = Some (AgentOf dev) \<and> attached s src = Some (ViewerOf dev)))"
proof -
  have "\<forall>m \<in> set (outbox s w). msg_ok s w m" using remote_inv_reachable [OF assms] by (simp add: remote_inv_def outbox_ok_def)
  then show ?thesis by (metis msg_ok.simps(1-3))
qed

theorem remote_relay_isolates_devices_witness:
  "\<exists>s j. remote_reachable s \<and> MAgentJson 1 j \<in> set (outbox s 2)
     \<and> (\<exists>dev. attached s 2 = Some (ViewerOf dev) \<and> attached s 1 = Some (AgentOf dev))"
proof -
  let ?j = "JObj [(''type'', JStr ''status'')]"
  have "map_option (\<lambda>s. MAgentJson 1 ?j \<in> set (outbox s 2)) (remote_step (TextMessage 1 (Some ?j)) demo_watched) = Some True"
    by code_simp
  then obtain s where s: "remote_step (TextMessage 1 (Some ?j)) demo_watched = Some s" "MAgentJson 1 ?j \<in> set (outbox s 2)"
    unfolding map_option_eq_Some by blast
  have r: "remote_reachable s" by (rule remote_reachable_step [OF demo_watched_reachable s(1)])
  have d: "\<exists>dev. attached s 2 = Some (ViewerOf dev) \<and> attached s 1 = Some (AgentOf dev)"
    by (rule remote_relay_isolates_devices [OF r, of 1 "[]" 2 ?j, THEN conjunct1, rule_format, OF disjI2 [OF s(2)]])
  from r s(2) d show ?thesis by (intro exI [of _ s] exI [of _ ?j] conjI)
qed

text \<open>C20: A viewer gets a picture.  When an operator joins a device whose agent is connected and which has
  fewer than five viewers, the session streams, the agent was told to start unless it was streaming
  already, and the next frame of the agent, up to the size limit, reaches the new viewer.\<close>

theorem viewer_gets_frames:
  assumes "remote_reachable s" "sessions s dev = Some x" "agentWs x = Some a" "wstate s a = WsOpen"
    and "length (viewers x) < 5" "attached s w = None" "length data \<le> 2 * 1024 * 1024"
  shows "\<exists>s1 x1 s2. remote_step (ViewerConnects w dev) s = Some s1 \<and> sessions s1 dev = Some x1 \<and> streaming x1
    \<and> (streaming x \<or> last (outbox s1 a) = MStart)
    \<and> remote_step (BinaryMessage a data) s1 = Some s2 \<and> last (outbox s2 w) = MFrame a data"
proof -
  note ok = inv_session [OF remote_inv_reachable [OF assms(1)] assms(2)]
  let ?s2 = "attach w (ViewerOf dev) s" and ?x1 = "x\<lparr>viewers := viewers x @ [w]\<rparr>"
  have aw: "a \<noteq> w" "attached s a = Some (AgentOf dev)" using ok assms(3,6) by (auto simp: session_ok_def)
  have dist: "distinct (viewers x @ [w])" "a \<notin> set (viewers x @ [w])" using ok assms(6) aw by (auto simp: session_ok_def)
  let ?s3 = "send_ws (MSessionInfo True (streaming x)) w ?s2"
  let ?s1 = "handleViewerConnection w dev s"
  have h: "?s1 = (if streaming x then put_session dev ?x1 ?s3
      else put_session dev (?x1\<lparr>streaming := True, idle_armed := False\<rparr>) (broadcast (viewers x @ [w]) MStreamStarted (send_ws MStart a ?s3)))"
    using assms(2-5) aw(1) by (simp add: handleViewerConnection_def getSession_def MAX_VIEWERS_def startAgentStream_def Let_def)
  have s1: "remote_step (ViewerConnects w dev) s = Some ?s1" using assms(6) by simp
  let ?y = "if streaming x then ?x1 else ?x1\<lparr>streaming := True, idle_armed := False\<rparr>"
  have "sessions ?s1 dev = Some ?y" by (simp add: h)
  then obtain x1 where x1: "sessions ?s1 dev = Some x1" "streaming x1" "viewers x1 = viewers x @ [w]" by (rule that) simp_all
  have st: "wstate ?s1 a = WsOpen" "wstate ?s1 w = WsOpen" "attached ?s1 a = Some (AgentOf dev)"
    using assms(4) aw by (auto simp: h)
  have start: "streaming x \<or> last (outbox ?s1 a) = MStart"
    using dist aw assms(4) by (auto simp: h outbox_broadcast outbox_send)
  let ?s2' = "broadcast (viewers x1) (MFrame a data) ?s1"
  have "remote_step (BinaryMessage a data) ?s1 = Some ?s2'"
    using st x1 assms(7) by (simp add: agent_binary_def getSession_def MAX_BINARY_FRAME_def)
  moreover have "last (outbox ?s2' w) = MFrame a data" using x1(3) dist(1) st(2) by (simp add: outbox_broadcast)
  ultimately show ?thesis using s1 x1 start by blast
qed

lemma demo_agent_reachable: "remote_reachable (handleAgentConnection 1 ''dev'' empty_remote)"
  by (rule remote_reachable_step [OF reachable.start, where ev = "AgentConnects 1 ''dev''"]) (simp add: empty_remote_def)

theorem viewer_gets_frames_witness:
  "\<exists>s1 x1 s2. remote_step (ViewerConnects 2 ''dev'') (handleAgentConnection 1 ''dev'' empty_remote) = Some s1
    \<and> sessions s1 ''dev'' = Some x1 \<and> streaming x1 \<and> remote_step (BinaryMessage 1 ''px'') s1 = Some s2
    \<and> last (outbox s2 2) = MFrame 1 ''px''"
proof -
  let ?s = "handleAgentConnection 1 ''dev'' empty_remote"
  let ?x = "\<lparr>agentWs = Some 1, viewers = [], streaming = False, idle_armed = True\<rparr>"
  have x: "sessions ?s ''dev'' = Some ?x" by code_simp
  have w: "wstate ?s 1 = WsOpen" "attached ?s 2 = None" by code_simp+
  have e: "agentWs ?x = Some 1" "length (viewers ?x) < 5" "length ''px'' \<le> 2 * 1024 * 1024" by simp_all
  from viewer_gets_frames [OF demo_agent_reachable x e(1) w(1) e(2) w(2) e(3)] show ?thesis by blast
qed

text \<open>The messages that stop the console.  A step of the relay raises an exception that nothing catches
  exactly when a connected agent or viewer sends the JSON text \<open>null\<close>.\<close>

theorem remote_step_throws_iff:
  "remote_step ev s = None \<longleftrightarrow>
     (\<exists>w. ev = TextMessage w (Some JNull) \<and> wstate s w \<noteq> WsClosed \<and> attached s w \<noteq> None)"
proof -
  have a: "agent_text w dev frame s = None \<longleftrightarrow> frame = Some JNull" for w dev frame
    by (cases frame) (auto simp: agent_text_def get_prop_def split: json.splits if_splits)
  have v: "viewer_text w dev frame s = None \<longleftrightarrow> frame = Some JNull" for w dev frame
    by (cases frame) (auto simp: viewer_text_def get_prop_def Let_def split: json.splits if_splits prod.splits)
  show ?thesis
  proof (cases ev)
    case (TextMessage w frame)
    then show ?thesis using a v by (auto split: option.splits peer_role.splits)
  qed (auto split: option.splits peer_role.splits)
qed

section \<open>Single use\<close>

fun consume_all :: "string \<Rightarrow> (int \<times> string) list \<Rightarrow> remote \<Rightarrow> bool list" where
  "consume_all dev [] s = []"
| "consume_all dev ((now, token) # atts) s =
     (case consumeRemoteAgentToken now dev token s of (ok, s') \<Rightarrow> ok # consume_all dev atts s')"

lemma consume_none: "pendingAgentTokens s dev = None \<Longrightarrow> consume_all dev atts s = replicate (length atts) False"
  by (induction dev atts s rule: consume_all.induct) (auto simp: consumeRemoteAgentToken_def split: prod.splits)

lemma consume_pending:
  "pendingAgentTokens s dev = Some (t, e) \<Longrightarrow>
     length (filter id (consume_all dev atts s)) \<le> 1
     \<and> list_all2 (\<lambda>(now, token) ok. ok \<longrightarrow> token = t \<and> now \<le> e) atts (consume_all dev atts s)"
proof (induction dev atts s rule: consume_all.induct)
  case (2 dev now token atts s)
  obtain ok s' where c: "consumeRemoteAgentToken now dev token s = (ok, s')" by fastforce
  then consider "\<not> ok" "pendingAgentTokens s' dev = Some (t, e)" | "pendingAgentTokens s' dev = None" "ok \<longrightarrow> token = t \<and> now \<le> e"
    using 2(2) by (auto simp: consumeRemoteAgentToken_def split: if_splits)
  then show ?case
  proof cases
    case 1
    then show ?thesis using 2(1) [OF c [symmetric]] c by simp
  next
    case 2
    have "list_all2 P atts (replicate (length atts) False)" if "\<And>x. P x False" for P :: "int \<times> string \<Rightarrow> bool \<Rightarrow> bool"
      by (simp add: list_all2_conv_all_nth that)
    then have "list_all2 (\<lambda>(now, token) ok. ok \<longrightarrow> token = t \<and> now \<le> e) atts (replicate (length atts) False)" by auto
    then show ?thesis using 2 c consume_none [OF 2(1)] by simp
  qed
qed simp

text \<open>An agent token opens at most one connection.  After a token was issued for a device, among all
  later attempts with whatever tokens at most one succeeds, and it presents that very token within
  sixty seconds; the first attempt, if it does so, succeeds.\<close>

theorem remote_agent_token_single_use:
  assumes "token \<noteq> []"
  shows "let s' = issueRemoteAgentToken now dev token s in
      length (filter id (consume_all dev atts s')) \<le> 1
      \<and> list_all2 (\<lambda>(t, tok) ok. ok \<longrightarrow> tok = token \<and> t \<le> now + 60000) atts (consume_all dev atts s')
      \<and> (\<forall>t \<le> now + 60000. fst (consumeRemoteAgentToken t dev token s'))"
proof -
  let ?s = "issueRemoteAgentToken now dev token s"
  have p: "pendingAgentTokens ?s dev = Some (token, now + 60000)" by (simp add: issueRemoteAgentToken_def AGENT_TOKEN_TTL_MS_def)
  then have "fst (consumeRemoteAgentToken t dev token ?s)" if "t \<le> now + 60000" for t
    using that assms by (simp add: consumeRemoteAgentToken_def)
  with consume_pending [OF p, of atts] show ?thesis by (simp add: Let_def)
qed


theorem remote_agent_token_single_use_witness:
  "consume_all ''dev'' [(1, ''wrong''), (2, ''secret''), (3, ''secret'')] (issueRemoteAgentToken 0 ''dev'' ''secret'' empty_remote)
     = [False, True, False]
   \<and> length (filter id (consume_all ''dev'' [(1, ''wrong''), (2, ''secret''), (3, ''secret'')]
        (issueRemoteAgentToken 0 ''dev'' ''secret'' empty_remote))) \<le> 1"
  using remote_agent_token_single_use [of "''secret''" 0 "''dev''" empty_remote "[(1, ''wrong''), (2, ''secret''), (3, ''secret'')]"]
  by (simp add: Let_def issueRemoteAgentToken_def consumeRemoteAgentToken_def AGENT_TOKEN_TTL_MS_def)

end
