(* ===== verification/Bd_Relay.thy ===== *)
theory Bd_Relay
  imports Remote_Relay
begin

text \<open>
  The native relay of \<open>src/web-nodejs/services/bdRelay.js\<close>: sessions that pair two desktop clients by a
  token each, the signalling channel of the devices, the requests to devices over it, and the counter
  of connections per address.

  Sockets are as in \<open>Remote_Relay\<close>.  Random identifiers and tokens are arguments of the operations that
  draw them.  \<open>bd_issued\<close> is no state of the program: it remembers the tokens of every session ever
  created.  \<^term>\<open>None\<close> as the result of a step is an exception that leaves the handler.
\<close>

section \<open>State\<close>

definition MAX_RELAY_PER_IP :: nat where "MAX_RELAY_PER_IP = 10"

definition SESSION_TTL_MS :: int where "SESSION_TTL_MS = 60 * 1000"

definition REQUEST_TIMEOUT_MS :: int where "REQUEST_TIMEOUT_MS = 15 * 1000"

datatype bd_status = Pending | Active | Ended_session

datatype bd_role = Initiator | Target

record bd_session =
  initiatorId :: string
  targetId :: string
  initiatorWs :: "nat option"
  targetWs :: "nat option"
  initiatorToken :: string
  targetToken :: string
  createdAt :: int
  status :: bd_status

datatype bd_sock = RelaySock string bd_role string | SignalSock string

datatype bd_msg =
    BPaired string
  | BForward nat bool string
  | BWelcome string
  | BHeartbeatAck int
  | BRelayReady string string
  | BRequest string string json
  | BNotify json

datatype bd_answer = Resolved json | Rejected string

record bd =
  activeSessions :: "string \<Rightarrow> bd_session option"
  session_ids :: "string list"
  onlineDevices :: "string \<Rightarrow> nat option"
  bd_ip_count :: "string \<Rightarrow> nat"
  pendingRequests :: "string list"
  answers :: "(string \<times> bd_answer) list"
  bd_state :: "nat \<Rightarrow> ws_state"
  bd_attached :: "nat \<Rightarrow> bd_sock option"
  bd_ip :: "nat \<Rightarrow> string"
  bd_partner :: "nat \<Rightarrow> nat option"
  wait_timer :: "nat \<Rightarrow> bool"
  bd_outbox :: "nat \<Rightarrow> bd_msg list"
  bd_issued :: "string \<Rightarrow> (string \<times> string) option"

definition empty_bd :: bd where
  "empty_bd = \<lparr>activeSessions = (\<lambda>_. None), session_ids = [], onlineDevices = (\<lambda>_. None), bd_ip_count = (\<lambda>_. 0),
     pendingRequests = [], answers = [], bd_state = (\<lambda>_. WsClosed), bd_attached = (\<lambda>_. None), bd_ip = (\<lambda>_. []),
     bd_partner = (\<lambda>_. None), wait_timer = (\<lambda>_. False), bd_outbox = (\<lambda>_. []), bd_issued = (\<lambda>_. None)\<rparr>"

fun role_token :: "bd_role \<Rightarrow> bd_session \<Rightarrow> string" where
  "role_token Initiator x = initiatorToken x"
| "role_token Target x = targetToken x"

fun role_ws :: "bd_role \<Rightarrow> bd_session \<Rightarrow> nat option" where
  "role_ws Initiator x = initiatorWs x"
| "role_ws Target x = targetWs x"

fun set_role_ws :: "bd_role \<Rightarrow> nat \<Rightarrow> bd_session \<Rightarrow> bd_session" where
  "set_role_ws Initiator w x = x\<lparr>initiatorWs := Some w\<rparr>"
| "set_role_ws Target w x = x\<lparr>targetWs := Some w\<rparr>"

definition parse_role :: "string \<Rightarrow> bd_role option" where
  "parse_role r = (if r = ''initiator'' then Some Initiator else if r = ''target'' then Some Target else None)"


section \<open>Helpers\<close>

definition incIpCount :: "string \<Rightarrow> bd \<Rightarrow> bd" where
  "incIpCount ip s = s\<lparr>bd_ip_count := (bd_ip_count s)(ip := bd_ip_count s ip + 1)\<rparr>"

definition decIpCount :: "string \<Rightarrow> bd \<Rightarrow> bd" where
  "decIpCount ip s = s\<lparr>bd_ip_count := (bd_ip_count s)(ip := (if bd_ip_count s ip = 0 then 1 else bd_ip_count s ip) - 1)\<rparr>"

definition bd_send :: "bd_msg \<Rightarrow> nat \<Rightarrow> bd \<Rightarrow> bd" where
  "bd_send m w s = (if bd_state s w = WsOpen then s\<lparr>bd_outbox := (bd_outbox s)(w := bd_outbox s w @ [m])\<rparr> else s)"

definition bd_close :: "nat \<Rightarrow> bd \<Rightarrow> bd" where
  "bd_close w s = (if bd_state s w = WsOpen then s\<lparr>bd_state := (bd_state s)(w := WsClosing)\<rparr> else s)"

definition close_opt :: "nat option \<Rightarrow> bd \<Rightarrow> bd" where
  "close_opt o' s = (case o' of None \<Rightarrow> s | Some w \<Rightarrow> bd_close w s)"


section \<open>Sessions\<close>

definition createRelaySession :: "int \<Rightarrow> string \<Rightarrow> string \<Rightarrow> string \<Rightarrow> string \<Rightarrow> string \<Rightarrow> bd \<Rightarrow> bd" where
  "createRelaySession now sid itok ttok initId targId s =
     s\<lparr>activeSessions := (activeSessions s)(sid \<mapsto>
          \<lparr>initiatorId = initId, targetId = targId, initiatorWs = None, targetWs = None, initiatorToken = itok,
           targetToken = ttok, createdAt = now, status = Pending\<rparr>),
       session_ids := session_ids s @ [sid],
       bd_issued := (bd_issued s)(sid \<mapsto> (itok, ttok))\<rparr>"

record session_info =
  si_initiatorId :: string
  si_targetId :: string
  si_status :: bd_status
  si_createdAt :: int

definition getRelaySession :: "string \<Rightarrow> bd \<Rightarrow> session_info option" where
  "getRelaySession sid s =
     map_option (\<lambda>x. \<lparr>si_initiatorId = initiatorId x, si_targetId = targetId x, si_status = status x, si_createdAt = createdAt x\<rparr>)
       (activeSessions s sid)"

definition teardownSession :: "string \<Rightarrow> bd \<Rightarrow> bd" where
  "teardownSession sid s =
     (case activeSessions s sid of
        None \<Rightarrow> s
      | Some x \<Rightarrow> close_opt (targetWs x) (close_opt (initiatorWs x) (s\<lparr>activeSessions := (activeSessions s)(sid := None)\<rparr>)))"

definition activateRelay :: "string \<Rightarrow> nat \<Rightarrow> nat \<Rightarrow> bd \<Rightarrow> bd" where
  "activateRelay sid a b s =
     (let s1 = bd_send (BPaired sid) b (bd_send (BPaired sid) a s) in
      s1\<lparr>bd_partner := (bd_partner s1)(a \<mapsto> b, b \<mapsto> a)\<rparr>)"

text \<open>The rest of \<open>handleRelayConnection\<close> once the connection has its slot.\<close>

definition take_slot :: "nat \<Rightarrow> string \<Rightarrow> string \<Rightarrow> bd_role \<Rightarrow> string \<Rightarrow> bd_session \<Rightarrow> bd \<Rightarrow> bd" where
  "take_slot w ip sid role token x s =
     (let x1 = set_role_ws role w x;
          s1 = s\<lparr>bd_state := (bd_state s)(w := WsOpen), bd_attached := (bd_attached s)(w \<mapsto> RelaySock sid role token),
                 bd_ip := (bd_ip s)(w := ip), wait_timer := (wait_timer s)(w := True)\<rparr>
      in case (initiatorWs x1, targetWs x1) of
           (Some a, Some b) \<Rightarrow>
             activateRelay sid a b (s1\<lparr>activeSessions := (activeSessions s1)(sid \<mapsto> x1\<lparr>status := Active\<rparr>)\<rparr>)
         | _ \<Rightarrow> s1\<lparr>activeSessions := (activeSessions s1)(sid \<mapsto> x1)\<rparr>)"

text \<open>\<open>handleRelayConnection\<close>; parameters that are missing are empty.  A socket that is refused gets no
  handlers.\<close>

definition handleRelayConnection ::
  "nat \<Rightarrow> string \<Rightarrow> string \<Rightarrow> string \<Rightarrow> string \<Rightarrow> int \<Rightarrow> bd \<Rightarrow> bd option" where
  "handleRelayConnection w ip sid token roleText now s =
     (if sid = [] \<or> token = [] then Some s
      else case parse_role roleText of
        None \<Rightarrow> Some s
      | Some role \<Rightarrow>
          if bd_ip_count s ip \<ge> MAX_RELAY_PER_IP then Some s
          else case activeSessions s sid of
            None \<Rightarrow> Some s
          | Some x \<Rightarrow>
              if length token \<noteq> length (role_token role x) then None
              else if token \<noteq> role_token role x then Some s
              else if now - createdAt x > SESSION_TTL_MS \<and> status x = Pending
              then Some (s\<lparr>activeSessions := (activeSessions s)(sid := None)\<rparr>)
              else if role_ws role x \<noteq> None then Some (decIpCount ip (incIpCount ip s))
              else Some (take_slot w ip sid role token x (incIpCount ip s)))"

text \<open>The timer of the side that waits.  Its session object may have left the table; then its status is
  what it was, and \<open>teardownSession\<close> finds nothing.\<close>

definition wait_timeout :: "nat \<Rightarrow> bd \<Rightarrow> bd" where
  "wait_timeout w s =
     (if \<not> wait_timer s w then s
      else let s1 = s\<lparr>wait_timer := (wait_timer s)(w := False)\<rparr> in
        case bd_attached s w of
          Some (RelaySock sid role tok) \<Rightarrow>
            (case activeSessions s sid of
               Some x \<Rightarrow> if status x = Pending then teardownSession sid s1 else s1
             | None \<Rightarrow> s1)
        | _ \<Rightarrow> s1)"

definition relay_data :: "nat \<Rightarrow> bool \<Rightarrow> string \<Rightarrow> bd \<Rightarrow> bd" where
  "relay_data w isBinary data s =
     (case bd_partner s w of None \<Rightarrow> s | Some v \<Rightarrow> bd_send (BForward w isBinary data) v s)"

definition relay_gone :: "nat \<Rightarrow> string \<Rightarrow> bd \<Rightarrow> bd" where
  "relay_gone w sid s =
     teardownSession sid (decIpCount (bd_ip s w) (s\<lparr>wait_timer := (wait_timer s)(w := False)\<rparr>))"


section \<open>Signalling\<close>

definition notifyTarget :: "string \<Rightarrow> json \<Rightarrow> bd \<Rightarrow> bool \<times> bd" where
  "notifyTarget dev payload s =
     (case onlineDevices s dev of
        Some w \<Rightarrow> if bd_state s w = WsOpen then (True, bd_send (BNotify payload) w s) else (False, s)
      | None \<Rightarrow> (False, s))"

definition isDeviceOnline :: "string \<Rightarrow> bd \<Rightarrow> bool" where
  "isDeviceOnline dev s = (case onlineDevices s dev of Some w \<Rightarrow> bd_state s w = WsOpen | None \<Rightarrow> False)"

text \<open>\<open>handleSignalConnection\<close> after the credential was verified.\<close>

definition handleSignalConnection :: "nat \<Rightarrow> string \<Rightarrow> string \<Rightarrow> bd \<Rightarrow> bd" where
  "handleSignalConnection w ip dev s =
     (if bd_ip_count s ip \<ge> MAX_RELAY_PER_IP then s
      else
        let s1 = incIpCount ip s;
            s2 = (case onlineDevices s1 dev of None \<Rightarrow> s1 | Some old \<Rightarrow> bd_close old s1);
            s3 = s2\<lparr>onlineDevices := (onlineDevices s2)(dev \<mapsto> w), bd_state := (bd_state s2)(w := WsOpen),
                    bd_attached := (bd_attached s2)(w \<mapsto> SignalSock dev), bd_ip := (bd_ip s2)(w := ip)\<rparr>
        in bd_send (BWelcome dev) w s3)"

definition signal_gone :: "nat \<Rightarrow> string \<Rightarrow> bd \<Rightarrow> bd" where
  "signal_gone w dev s =
     (let s1 = decIpCount (bd_ip s w) s in
      if onlineDevices s1 dev = Some w then s1\<lparr>onlineDevices := (onlineDevices s1)(dev := None)\<rparr> else s1)"

definition requestFromDevice :: "string \<Rightarrow> string \<Rightarrow> string \<Rightarrow> json \<Rightarrow> bd \<Rightarrow> bd" where
  "requestFromDevice rid dev type payload s =
     (case onlineDevices s dev of
        Some w \<Rightarrow>
          if bd_state s w = WsOpen
          then bd_send (BRequest rid type payload) w (s\<lparr>pendingRequests := rid # pendingRequests s\<rparr>)
          else s\<lparr>answers := answers s @ [(rid, Rejected ''agent_offline'')]\<rparr>
      | None \<Rightarrow> s\<lparr>answers := answers s @ [(rid, Rejected ''agent_offline'')]\<rparr>)"

text \<open>The delay of the timer that \<open>requestFromDevice\<close> sets.\<close>

definition request_delay :: "int \<Rightarrow> int" where
  "request_delay timeoutMs = max 1000 (min 60000 timeoutMs)"

definition request_timeout :: "string \<Rightarrow> bd \<Rightarrow> bd" where
  "request_timeout rid s =
     (if rid \<in> set (pendingRequests s)
      then s\<lparr>pendingRequests := removeAll rid (pendingRequests s), answers := answers s @ [(rid, Rejected ''agent_timeout'')]\<rparr>
      else s)"

definition str_field :: "json \<Rightarrow> string \<Rightarrow> string option" where
  "str_field m k = (case field m k of Some (JStr v) \<Rightarrow> Some v | _ \<Rightarrow> None)"

text \<open>The answer of an agent settles the request; \<open>new Error\<close> of a value without a string raises an
  exception, and the request, already removed, is never settled.\<close>

definition command_answer :: "string \<Rightarrow> json \<Rightarrow> (string \<times> bd_answer) list" where
  "command_answer rid m =
     (if truthy (field m ''ok'')
      then [(rid, Resolved (case or_else (field m ''data'') (Some JNull) of Some v \<Rightarrow> v | None \<Rightarrow> JNull))]
      else case Option.bind (or_else (field m ''error'') (Some (JStr ''agent_error''))) js_string of
             Some e \<Rightarrow> [(rid, Rejected e)] | None \<Rightarrow> [])"

text \<open>\<open>handleSignalMessage\<close> runs inside a \<open>try\<close> that ignores every exception.\<close>

definition handleSignalMessage :: "int \<Rightarrow> string \<Rightarrow> nat \<Rightarrow> json \<Rightarrow> bd \<Rightarrow> bd" where
  "handleSignalMessage now dev w m s =
     (let ty = str_field m ''type'' in
      if ty = Some ''heartbeat'' then bd_send (BHeartbeatAck now) w s
      else if ty = Some ''relay_accept'' then
        (case str_field m ''session_id'' of
           None \<Rightarrow> s
         | Some sid \<Rightarrow>
             (case activeSessions s sid of
                None \<Rightarrow> s
              | Some x \<Rightarrow> if targetId x = dev \<and> status x = Pending then bd_send (BRelayReady sid (targetToken x)) w s else s))
      else if ty = Some ''relay_reject'' then
        (case str_field m ''session_id'' of
           None \<Rightarrow> s
         | Some sid \<Rightarrow>
             (case activeSessions s sid of
                None \<Rightarrow> s
              | Some x \<Rightarrow> if targetId x = dev then teardownSession sid s else s))
      else if ty = Some ''command_response'' then
        (case str_field m ''request_id'' of
           None \<Rightarrow> s
         | Some rid \<Rightarrow>
             if rid \<in> set (pendingRequests s) then
               s\<lparr>pendingRequests := removeAll rid (pendingRequests s), answers := answers s @ command_answer rid m\<rparr>
             else s)
      else s)"

text \<open>\<open>cleanupSessions\<close>.\<close>

definition cleanup_session :: "int \<Rightarrow> string \<Rightarrow> bd \<Rightarrow> bd" where
  "cleanup_session now sid s =
     (case activeSessions s sid of
        None \<Rightarrow> s
      | Some x \<Rightarrow> if status x = Pending \<and> now - createdAt x > SESSION_TTL_MS * 2 then teardownSession sid s else s)"

definition cleanupSessions :: "int \<Rightarrow> bd \<Rightarrow> bd" where
  "cleanupSessions now s =
     (let s1 = fold (cleanup_session now) (session_ids s) s in
      s1\<lparr>onlineDevices := (\<lambda>d. case onlineDevices s1 d of
           Some w \<Rightarrow> if bd_state s1 w = WsOpen then Some w else None | None \<Rightarrow> None)\<rparr>)"


section \<open>Steps\<close>

datatype bd_event =
    CreateSession int string string string string string
  | RelayConnects nat string string string string int
  | SignalConnects nat string string
  | Incoming nat bool string
  | SignalMessage int nat "json option"
  | SocketError nat
  | SocketClosed nat
  | WaitTimer nat
  | RelayIdle string
  | SendRequest string string string json
  | RequestTimer string
  | CleanupTimer int

definition socket_gone :: "nat \<Rightarrow> bd \<Rightarrow> bd" where
  "socket_gone w s =
     (case bd_attached s w of
        None \<Rightarrow> s
      | Some (RelaySock sid role tok) \<Rightarrow> relay_gone w sid s
      | Some (SignalSock dev) \<Rightarrow> signal_gone w dev s)"

text \<open>After an error the library emits \<open>close\<close> as well.  A fresh socket has a fresh number, a session and a
  request a fresh identifier.\<close>

fun bd_step :: "bd_event \<Rightarrow> bd \<Rightarrow> bd option" where
  "bd_step (CreateSession now sid itok ttok i t) s =
     Some (if bd_issued s sid = None then createRelaySession now sid itok ttok i t s else s)"
| "bd_step (RelayConnects w ip sid token role now) s =
     (if bd_attached s w = None then handleRelayConnection w ip sid token role now s else Some s)"
| "bd_step (SignalConnects w ip dev) s = Some (if bd_attached s w = None then handleSignalConnection w ip dev s else s)"
| "bd_step (Incoming w isBinary data) s = Some (if bd_state s w = WsClosed then s else relay_data w isBinary data s)"
| "bd_step (SignalMessage now w m) s =
     Some (case (bd_attached s w, m) of (Some (SignalSock dev), Some j) \<Rightarrow> handleSignalMessage now dev w j s | _ \<Rightarrow> s)"
| "bd_step (SocketError w) s =
     Some (if bd_state s w = WsClosed then s else socket_gone w (s\<lparr>bd_state := (bd_state s)(w := WsClosing)\<rparr>))"
| "bd_step (SocketClosed w) s =
     Some (if bd_state s w = WsClosed then s else socket_gone w (s\<lparr>bd_state := (bd_state s)(w := WsClosed)\<rparr>))"
| "bd_step (WaitTimer w) s = Some (wait_timeout w s)"
| "bd_step (RelayIdle sid) s =
     Some (case activeSessions s sid of Some x \<Rightarrow> if status x = Active then teardownSession sid s else s | None \<Rightarrow> s)"
| "bd_step (SendRequest rid dev type payload) s =
     Some (if rid \<in> fst ` set (answers s) \<union> set (pendingRequests s) then s else requestFromDevice rid dev type payload s)"
| "bd_step (RequestTimer rid) s = Some (request_timeout rid s)"
| "bd_step (CleanupTimer now) s = Some (cleanupSessions now s)"

abbreviation bd_reachable :: "bd \<Rightarrow> bool" where
  "bd_reachable \<equiv> reachable bd_step empty_bd"



section \<open>What most operations leave alone\<close>

fun forwards :: "bd_msg \<Rightarrow> bool" where
  "forwards (BForward src b d) = True"
| "forwards _ = False"

definition bd_shrinks :: "bd \<Rightarrow> bd \<Rightarrow> bool" where
  "bd_shrinks s s' = (bd_issued s' = bd_issued s \<and> bd_attached s' = bd_attached s \<and> bd_partner s' = bd_partner s
     \<and> (\<forall>sid. activeSessions s' sid = None \<or> activeSessions s' sid = activeSessions s sid)
     \<and> (\<forall>w m. m \<in> set (bd_outbox s' w) \<and> forwards m \<longrightarrow> m \<in> set (bd_outbox s w)))"

lemma bd_shrinks_refl [simp]: "bd_shrinks s s"
  by (simp add: bd_shrinks_def)

lemma bd_shrinks_trans: "bd_shrinks a b \<Longrightarrow> bd_shrinks b c \<Longrightarrow> bd_shrinks a c"
  unfolding bd_shrinks_def by metis

lemma bd_shrinks_fold: "(\<And>x s. bd_shrinks s (f x s)) \<Longrightarrow> bd_shrinks s (fold f xs s)"
  by (induction xs arbitrary: s) (auto intro: bd_shrinks_trans)

lemma bd_shrinks_basic:
  "bd_shrinks s (incIpCount ip s)" "bd_shrinks s (decIpCount ip s)" "bd_shrinks s (bd_close w s)" "bd_shrinks s (close_opt o' s)"
  "\<not> forwards m \<Longrightarrow> bd_shrinks s (bd_send m w s)"
  "bd_shrinks s (s\<lparr>bd_state := st\<rparr>)" "bd_shrinks s (s\<lparr>wait_timer := t\<rparr>)" "bd_shrinks s (s\<lparr>onlineDevices := d\<rparr>)"
  "bd_shrinks s (s\<lparr>pendingRequests := q\<rparr>)" "bd_shrinks s (s\<lparr>answers := an\<rparr>)"
  "bd_shrinks s (s\<lparr>pendingRequests := q, answers := an\<rparr>)" "bd_shrinks s (s\<lparr>activeSessions := (activeSessions s)(sid := None)\<rparr>)"
  by (auto simp: bd_shrinks_def incIpCount_def decIpCount_def bd_close_def close_opt_def bd_send_def split: option.splits if_splits)

lemma bd_shrinks_teardown: "bd_shrinks s (teardownSession sid s)"
proof (cases "activeSessions s sid")
  case (Some x)
  have "bd_shrinks s (close_opt b (close_opt a (s\<lparr>activeSessions := (activeSessions s)(sid := None)\<rparr>)))" for a b
    by (intro bd_shrinks_trans [OF bd_shrinks_trans [OF bd_shrinks_basic(12) bd_shrinks_basic(4)] bd_shrinks_basic(4)])
  with Some show ?thesis by (simp add: teardownSession_def)
qed (simp add: teardownSession_def)

lemma bd_shrinks_gone: "bd_shrinks s (relay_gone w sid s)" "bd_shrinks s (signal_gone w dev s)"
proof -
  show "bd_shrinks s (relay_gone w sid s)"
    unfolding relay_gone_def by (intro bd_shrinks_trans [OF bd_shrinks_trans [OF bd_shrinks_basic(7) bd_shrinks_basic(2)] bd_shrinks_teardown])
  show "bd_shrinks s (signal_gone w dev s)"
    unfolding signal_gone_def Let_def using bd_shrinks_trans [OF bd_shrinks_basic(2) bd_shrinks_basic(8)] bd_shrinks_basic(2) by simp
qed

lemma bd_shrinks_socket_gone: "bd_shrinks s (socket_gone w (s\<lparr>bd_state := st\<rparr>))"
  using bd_shrinks_trans [OF bd_shrinks_basic(6) bd_shrinks_gone(1)] bd_shrinks_trans [OF bd_shrinks_basic(6) bd_shrinks_gone(2)] bd_shrinks_basic(6)
  by (simp add: socket_gone_def split: option.splits bd_sock.splits)

lemma bd_shrinks_wait: "bd_shrinks s (wait_timeout w s)"
  using bd_shrinks_trans [OF bd_shrinks_basic(7) bd_shrinks_teardown] bd_shrinks_basic(7)
  by (simp add: wait_timeout_def Let_def split: option.splits bd_sock.splits)

lemma bd_shrinks_signal_message: "bd_shrinks s (handleSignalMessage now dev w m s)"
  by (simp add: handleSignalMessage_def Let_def bd_shrinks_basic bd_shrinks_teardown split: option.splits)

lemma bd_shrinks_cleanup: "bd_shrinks s (cleanupSessions now s)"
proof -
  have "bd_shrinks s (cleanup_session now sid s)" for sid s by (simp add: cleanup_session_def bd_shrinks_teardown split: option.splits)
  then have "bd_shrinks s (fold (cleanup_session now) xs s)" for xs s by (rule bd_shrinks_fold)
  then show ?thesis unfolding cleanupSessions_def Let_def using bd_shrinks_trans bd_shrinks_basic(8) by blast
qed

lemma bd_shrinks_request: "bd_shrinks s (requestFromDevice rid dev type payload s)" "bd_shrinks s (request_timeout rid s)"
  using bd_shrinks_trans [OF bd_shrinks_basic(9) bd_shrinks_basic(5), of "BRequest rid type payload"]
  by (simp_all add: requestFromDevice_def request_timeout_def bd_shrinks_basic split: option.splits)


section \<open>The invariant\<close>

definition token_of :: "bd_role \<Rightarrow> string \<times> string \<Rightarrow> string" where
  "token_of r p = (case r of Initiator \<Rightarrow> fst p | Target \<Rightarrow> snd p)"

definition paired :: "bd \<Rightarrow> nat \<Rightarrow> nat \<Rightarrow> bool" where
  "paired s v w = (\<exists>sid r r' t t'. bd_attached s v = Some (RelaySock sid r t) \<and> bd_attached s w = Some (RelaySock sid r' t') \<and> r \<noteq> r')"

definition slots_ok :: "bd \<Rightarrow> bool" where
  "slots_ok s = (\<forall>sid x. activeSessions s sid = Some x \<longrightarrow> bd_issued s sid = Some (initiatorToken x, targetToken x)
     \<and> (\<forall>r w. role_ws r x = Some w \<longleftrightarrow> (\<exists>t. bd_attached s w = Some (RelaySock sid r t))))"

definition tokens_ok :: "bd \<Rightarrow> bool" where
  "tokens_ok s = (\<forall>w sid r t. bd_attached s w = Some (RelaySock sid r t) \<longrightarrow> (\<exists>p. bd_issued s sid = Some p \<and> t = token_of r p))"

definition unique_ok :: "bd \<Rightarrow> bool" where
  "unique_ok s = (\<forall>v w sid r t t'. bd_attached s v = Some (RelaySock sid r t) \<and> bd_attached s w = Some (RelaySock sid r t') \<longrightarrow> v = w)"

definition pairs_ok :: "bd \<Rightarrow> bool" where
  "pairs_ok s = ((\<forall>v w. bd_partner s v = Some w \<longrightarrow> paired s v w)
     \<and> (\<forall>src b d w. BForward src b d \<in> set (bd_outbox s w) \<longrightarrow> paired s src w))"

definition bd_inv :: "bd \<Rightarrow> bool" where
  "bd_inv s = (slots_ok s \<and> tokens_ok s \<and> unique_ok s \<and> pairs_ok s)"

lemma bd_inv_shrinks:
  assumes "bd_inv s" "bd_shrinks s s'"
  shows "bd_inv s'"
proof -
  have f: "bd_issued s' = bd_issued s" "bd_attached s' = bd_attached s" "bd_partner s' = bd_partner s"
    using assms(2) by (simp_all add: bd_shrinks_def)
  have "activeSessions s' sid = Some x \<Longrightarrow> activeSessions s sid = Some x" for sid x
    using assms(2) unfolding bd_shrinks_def by (metis option.discI)
  then have "slots_ok s'" using assms(1) by (simp add: bd_inv_def slots_ok_def f)
  moreover have "BForward a b d \<in> set (bd_outbox s' w) \<Longrightarrow> BForward a b d \<in> set (bd_outbox s w)" for a b d w
    using assms(2) unfolding bd_shrinks_def by simp
  then have "pairs_ok s'" using assms(1) unfolding bd_inv_def pairs_ok_def paired_def f by blast
  ultimately show ?thesis using assms(1) by (simp add: bd_inv_def tokens_ok_def unique_ok_def f)
qed

lemma bd_inv_create:
  assumes "bd_inv s" "bd_issued s sid = None"
  shows "bd_inv (createRelaySession now sid itok ttok i t s)" (is "bd_inv ?s")
proof -
  have no: "bd_attached s w \<noteq> Some (RelaySock sid r tok)" for w r tok
    using assms unfolding bd_inv_def tokens_ok_def by fastforce
  have f: "bd_attached ?s = bd_attached s" "bd_partner ?s = bd_partner s" "bd_outbox ?s = bd_outbox s"
    "bd_issued ?s = (bd_issued s)(sid \<mapsto> (itok, ttok))"
    "activeSessions ?s = (activeSessions s)(sid \<mapsto> \<lparr>initiatorId = i, targetId = t, initiatorWs = None, targetWs = None,
        initiatorToken = itok, targetToken = ttok, createdAt = now, status = Pending\<rparr>)"
    by (simp_all add: createRelaySession_def)
  have "slots_ok ?s"
    unfolding slots_ok_def f
  proof (intro allI impI)
    fix sid' x
    assume x: "((activeSessions s)(sid \<mapsto> \<lparr>initiatorId = i, targetId = t, initiatorWs = None, targetWs = None,
        initiatorToken = itok, targetToken = ttok, createdAt = now, status = Pending\<rparr>)) sid' = Some x"
    show "((bd_issued s)(sid \<mapsto> (itok, ttok))) sid' = Some (initiatorToken x, targetToken x)
      \<and> (\<forall>r w. role_ws r x = Some w \<longleftrightarrow> (\<exists>t. bd_attached s w = Some (RelaySock sid' r t)))"
    proof (cases "sid' = sid")
      case True
      have "role_ws r x = None" for r using x True by (cases r) auto
      with True x no show ?thesis by auto
    next
      case False
      with x assms(1) show ?thesis by (auto simp: bd_inv_def slots_ok_def)
    qed
  qed
  moreover have "tokens_ok ?s" using assms no by (fastforce simp: bd_inv_def tokens_ok_def f)
  ultimately show ?thesis using assms(1) by (auto simp: bd_inv_def unique_ok_def pairs_ok_def paired_def f)
qed


lemma paired_mono: "paired s v u \<Longrightarrow> bd_attached s w = None \<Longrightarrow> bd_attached s' = (bd_attached s)(w \<mapsto> k) \<Longrightarrow> paired s' v u"
proof -
  assume a: "paired s v u" "bd_attached s w = None" "bd_attached s' = (bd_attached s)(w \<mapsto> k)"
  then have "v \<noteq> w" "u \<noteq> w" by (auto simp: paired_def)
  with a show ?thesis by (simp add: paired_def)
qed

lemma bd_inv_join:
  assumes inv: "bd_inv s" and x: "activeSessions s sid = Some x" and free: "role_ws role x = None" and new: "bd_attached s w = None"
    and tok: "token = role_token role x"
    and iss: "bd_issued s' = bd_issued s" and att: "bd_attached s' = (bd_attached s)(w \<mapsto> RelaySock sid role token)"
    and act: "activeSessions s' = (activeSessions s)(sid \<mapsto> y)"
    and y: "\<And>r. role_ws r y = (if r = role then Some w else role_ws r x)" "initiatorToken y = initiatorToken x" "targetToken y = targetToken x"
    and par: "\<And>v u. bd_partner s' v = Some u \<Longrightarrow> bd_partner s v = Some u \<or> (\<exists>r r'. role_ws r y = Some v \<and> role_ws r' y = Some u \<and> r \<noteq> r')"
    and out: "\<And>v m. m \<in> set (bd_outbox s' v) \<Longrightarrow> forwards m \<Longrightarrow> m \<in> set (bd_outbox s v)"
  shows "bd_inv s'"
proof -
  have old: "role_ws r x = Some v \<longleftrightarrow> (\<exists>t. bd_attached s v = Some (RelaySock sid r t))" for r v
    using inv x by (simp add: bd_inv_def slots_ok_def)
  have p: "bd_issued s sid = Some (initiatorToken x, targetToken x)" using inv x by (simp add: bd_inv_def slots_ok_def)
  have slots: "role_ws r y = Some v \<longleftrightarrow> (\<exists>t. bd_attached s' v = Some (RelaySock sid r t))" for r v
    using old [of r v] free new unfolding att y(1) by (cases "v = w"; cases "r = role") auto
  have "slots_ok s'"
    unfolding slots_ok_def
  proof (intro allI impI)
    fix sid' z
    assume z: "activeSessions s' sid' = Some z"
    show "bd_issued s' sid' = Some (initiatorToken z, targetToken z)
      \<and> (\<forall>r v. role_ws r z = Some v \<longleftrightarrow> (\<exists>t. bd_attached s' v = Some (RelaySock sid' r t)))"
    proof (cases "sid' = sid")
      case True
      with z have "z = y" by (simp add: act)
      then show ?thesis using slots p y(2,3) by (simp add: iss True)
    next
      case False
      then have "activeSessions s sid' = Some z" using z by (simp add: act)
      then have "bd_issued s sid' = Some (initiatorToken z, targetToken z)"
        and "role_ws r z = Some v \<longleftrightarrow> (\<exists>t. bd_attached s v = Some (RelaySock sid' r t))" for r v
        using inv by (auto simp: bd_inv_def slots_ok_def)
      then show ?thesis using False new by (simp add: iss att)
    qed
  qed
  moreover have "tokens_ok s'"
  proof -
    have "token = token_of role (initiatorToken x, targetToken x)" using tok by (cases role) (simp_all add: token_of_def)
    then show ?thesis using inv p by (auto simp: bd_inv_def tokens_ok_def iss att)
  qed
  moreover have "unique_ok s'"
  proof -
    have "bd_attached s v \<noteq> Some (RelaySock sid role t)" for v t using old [of role v] free by auto
    then show ?thesis using inv by (auto simp: bd_inv_def unique_ok_def att)
  qed
  moreover have "pairs_ok s'"
  proof -
    have "paired s' v u" if "bd_partner s' v = Some u" for v u
      using par [OF that]
    proof
      assume "bd_partner s v = Some u"
      then show ?thesis using inv paired_mono [OF _ new att] by (simp add: bd_inv_def pairs_ok_def)
    next
      assume "\<exists>r r'. role_ws r y = Some v \<and> role_ws r' y = Some u \<and> r \<noteq> r'"
      then show ?thesis using slots unfolding paired_def by blast
    qed
    moreover have "paired s' src v" if "BForward src b d \<in> set (bd_outbox s' v)" for src b d v
      using out [OF that] inv paired_mono [OF _ new att] by (auto simp: bd_inv_def pairs_ok_def)
    ultimately show ?thesis by (simp add: pairs_ok_def)
  qed
  ultimately show ?thesis by (simp add: bd_inv_def)
qed

lemma role_ws_set: "role_ws r (set_role_ws role w x) = (if r = role then Some w else role_ws r x)"
  "initiatorToken (set_role_ws role w x) = initiatorToken x" "targetToken (set_role_ws role w x) = targetToken x"
  by (cases r; cases role; simp)+

lemma role_ws_status [simp]: "role_ws r (x\<lparr>status := st\<rparr>) = role_ws r x"
  by (cases r) simp_all

lemma outbox_paired_msg: "m \<in> set (bd_outbox (bd_send (BPaired sid) b s) v) \<Longrightarrow> forwards m \<Longrightarrow> m \<in> set (bd_outbox s v)"
  by (auto simp: bd_send_def split: if_splits)

lemma activate_fields [simp]:
  "bd_issued (activateRelay sid a b s) = bd_issued s" "bd_attached (activateRelay sid a b s) = bd_attached s"
  "activeSessions (activateRelay sid a b s) = activeSessions s"
  "bd_partner (activateRelay sid a b s) = (bd_partner s)(a \<mapsto> b, b \<mapsto> a)"
  by (simp_all add: activateRelay_def bd_send_def Let_def)

lemma activate_outbox: "m \<in> set (bd_outbox (activateRelay sid a b s) v) \<Longrightarrow> forwards m \<Longrightarrow> m \<in> set (bd_outbox s v)"
  by (auto simp: activateRelay_def Let_def dest!: outbox_paired_msg)

lemma take_slot_inv:
  assumes inv: "bd_inv s" and new: "bd_attached s w = None" and x: "activeSessions s sid = Some x"
    and tok: "token = role_token role x" and free: "role_ws role x = None"
  shows "bd_inv (take_slot w ip sid role token x s)" (is "bd_inv ?s")
proof -
  let ?x1 = "set_role_ws role w x"
  show ?thesis
  proof (cases "\<exists>a b. initiatorWs ?x1 = Some a \<and> targetWs ?x1 = Some b")
    case True
    then obtain a b where ab: "initiatorWs ?x1 = Some a" "targetWs ?x1 = Some b" by blast
    then have rw: "role_ws Initiator ?x1 = Some a" "role_ws Target ?x1 = Some b" by simp_all
    show ?thesis
    proof (rule bd_inv_join [OF inv x free new tok, of ?s "?x1\<lparr>status := Active\<rparr>"])
      fix v u
      assume "bd_partner ?s v = Some u"
      then have "bd_partner s v = Some u \<or> (v = a \<and> u = b) \<or> (v = b \<and> u = a)"
        using ab by (auto simp: take_slot_def Let_def split: if_splits)
      then show "bd_partner s v = Some u
        \<or> (\<exists>r r'. role_ws r (?x1\<lparr>status := Active\<rparr>) = Some v \<and> role_ws r' (?x1\<lparr>status := Active\<rparr>) = Some u \<and> r \<noteq> r')"
        using rw unfolding role_ws_status by (metis bd_role.distinct(1))
    next
      fix v m
      assume "m \<in> set (bd_outbox ?s v)" "forwards m"
      then show "m \<in> set (bd_outbox s v)" using ab by (auto simp: take_slot_def Let_def dest!: activate_outbox)
    qed (use ab in \<open>simp_all add: take_slot_def Let_def role_ws_set\<close>)
  next
    case False
    then have s': "?s = s\<lparr>bd_state := (bd_state s)(w := WsOpen),
            bd_attached := (bd_attached s)(w \<mapsto> RelaySock sid role token), bd_ip := (bd_ip s)(w := ip),
            wait_timer := (wait_timer s)(w := True), activeSessions := (activeSessions s)(sid \<mapsto> ?x1)\<rparr>"
      by (auto simp: take_slot_def Let_def split: option.splits)
    show ?thesis
      by (rule bd_inv_join [OF inv x free new tok, of ?s ?x1]) (simp_all add: s' role_ws_set)
  qed
qed

lemma relay_connect_cases:
  assumes "handleRelayConnection w ip sid token roleText now s = Some s'"
  shows "bd_shrinks s s' \<or> (\<exists>role x. activeSessions s sid = Some x \<and> token = role_token role x \<and> role_ws role x = None
    \<and> s' = take_slot w ip sid role token x (incIpCount ip s))"
proof -
  have d: "bd_shrinks s (decIpCount ip (incIpCount ip s))" by (rule bd_shrinks_trans [OF bd_shrinks_basic(1,2)])
  show ?thesis
    using assms by (auto simp: handleRelayConnection_def d bd_shrinks_basic split: if_splits option.splits)
qed

lemma bd_inv_relay_connect:
  assumes inv: "bd_inv s" and new: "bd_attached s w = None" and h: "handleRelayConnection w ip sid token roleText now s = Some s'"
  shows "bd_inv s'"
  using relay_connect_cases [OF h]
proof (elim disjE exE conjE)
  fix role x
  assume x: "activeSessions s sid = Some x" "token = role_token role x" "role_ws role x = None"
    and s': "s' = take_slot w ip sid role token x (incIpCount ip s)"
  have "bd_inv (incIpCount ip s)" by (rule bd_inv_shrinks [OF inv bd_shrinks_basic(1)])
  then show ?thesis unfolding s' by (rule take_slot_inv) (use new x in \<open>simp_all add: incIpCount_def\<close>)
qed (rule bd_inv_shrinks [OF inv])

lemma bd_inv_signal_connect:
  assumes "bd_inv s" "bd_attached s w = None"
  shows "bd_inv (handleSignalConnection w ip dev s)"
proof (cases "bd_ip_count s ip \<ge> MAX_RELAY_PER_IP")
  case False
  let ?s1 = "incIpCount ip s"
  define s2 where "s2 = (case onlineDevices ?s1 dev of None \<Rightarrow> ?s1 | Some old \<Rightarrow> bd_close old ?s1)"
  have sh: "bd_shrinks s s2"
    using bd_shrinks_basic(1) [of s ip] bd_shrinks_trans [OF bd_shrinks_basic(1) bd_shrinks_basic(3)] by (auto simp: s2_def split: option.splits)
  have i2: "bd_inv s2" by (rule bd_inv_shrinks [OF assms(1) sh])
  have new: "bd_attached s2 w = None" using sh assms(2) by (simp add: bd_shrinks_def)
  let ?s3 = "s2\<lparr>onlineDevices := (onlineDevices s2)(dev \<mapsto> w), bd_state := (bd_state s2)(w := WsOpen),
                    bd_attached := (bd_attached s2)(w \<mapsto> SignalSock dev), bd_ip := (bd_ip s2)(w := ip)\<rparr>"
  have r: "bd_attached ?s3 v = Some (RelaySock sid r t) \<longleftrightarrow> bd_attached s2 v = Some (RelaySock sid r t)" for v sid r t
    using new by auto
  have "bd_inv ?s3"
    using i2 unfolding bd_inv_def slots_ok_def tokens_ok_def unique_ok_def pairs_ok_def paired_def r by simp
  then have "bd_inv (bd_send (BWelcome dev) w ?s3)" using bd_inv_shrinks bd_shrinks_basic(5) by fastforce
  then show ?thesis using False by (simp add: handleSignalConnection_def s2_def Let_def)
qed (use assms in \<open>simp add: handleSignalConnection_def\<close>)

lemma bd_inv_data:
  assumes "bd_inv s"
  shows "bd_inv (relay_data w b d s)"
proof (cases "bd_partner s w")
  case (Some v)
  have p: "paired s w v" using assms Some by (simp add: bd_inv_def pairs_ok_def)
  have "pairs_ok (bd_send (BForward w b d) v s)"
    using assms p by (auto simp: bd_inv_def pairs_ok_def paired_def bd_send_def split: if_splits)
  moreover have "slots_ok (bd_send m v s) = slots_ok s" "tokens_ok (bd_send m v s) = tokens_ok s" "unique_ok (bd_send m v s) = unique_ok s" for m
    by (simp_all add: slots_ok_def tokens_ok_def unique_ok_def bd_send_def)
  ultimately show ?thesis using assms Some by (simp add: relay_data_def bd_inv_def)
qed (use assms in \<open>simp add: relay_data_def\<close>)

lemma bd_inv_step:
  assumes "bd_inv s" "bd_step ev s = Some s'"
  shows "bd_inv s'"
proof (cases ev)
  case (CreateSession now sid itok ttok i t)
  then show ?thesis using assms bd_inv_create by (auto split: if_splits)
next
  case (RelayConnects w ip sid token role now)
  then show ?thesis using assms bd_inv_relay_connect by (auto split: if_splits)
next
  case (SignalConnects w ip dev)
  then show ?thesis using assms bd_inv_signal_connect by (auto split: if_splits)
next
  case (Incoming w b d)
  then show ?thesis using assms bd_inv_data by (auto split: if_splits)
next
  case (SignalMessage now w m)
  have "bd_shrinks s s'"
    using assms(2) bd_shrinks_signal_message by (auto simp: SignalMessage split: option.splits bd_sock.splits)
  then show ?thesis using assms(1) bd_inv_shrinks by blast
next
  case (RelayIdle sid)
  then have "bd_shrinks s s'" using assms(2) bd_shrinks_teardown by (auto split: option.splits if_splits)
  then show ?thesis using assms(1) bd_inv_shrinks by blast
qed (use assms bd_inv_shrinks [OF assms(1)] bd_shrinks_socket_gone bd_shrinks_wait bd_shrinks_request bd_shrinks_cleanup in \<open>auto split: if_splits\<close>)

interpretation bd_sys: event_invariant bd_step empty_bd bd_inv
proof
  show "bd_inv empty_bd" by (simp add: bd_inv_def slots_ok_def tokens_ok_def unique_ok_def pairs_ok_def empty_bd_def)
qed (rule bd_inv_step)

lemmas bd_inv_reachable = bd_sys.inv_reachable

section \<open>Properties\<close>

text \<open>C17: The native relay connects two holders of tokens and nobody else.  Whatever happened, a frame that
  a socket has received came from a socket of the same session on the other side, each of the two has
  presented the token that was issued for its side, and no third socket ever took part in the session:
  a token opens one connection.\<close>

theorem bd_relay_pairs_token_holders:
  assumes "bd_reachable s" "BForward src b d \<in> set (bd_outbox s w)"
  shows "\<exists>sid itok ttok. bd_issued s sid = Some (itok, ttok)
    \<and> (bd_attached s src = Some (RelaySock sid Initiator itok) \<and> bd_attached s w = Some (RelaySock sid Target ttok)
       \<or> bd_attached s src = Some (RelaySock sid Target ttok) \<and> bd_attached s w = Some (RelaySock sid Initiator itok))
    \<and> (\<forall>v r t. bd_attached s v = Some (RelaySock sid r t) \<longrightarrow> v \<in> {src, w})"
proof -
  have inv: "bd_inv s" by (rule bd_inv_reachable [OF assms(1)])
  then have "paired s src w" using assms(2) by (simp add: bd_inv_def pairs_ok_def)
  then obtain sid r r' t t' where at: "bd_attached s src = Some (RelaySock sid r t)" "bd_attached s w = Some (RelaySock sid r' t')" "r \<noteq> r'"
    by (auto simp: paired_def)
  have tk: "\<exists>p. bd_issued s sid = Some p \<and> x = token_of q p" if "bd_attached s v = Some (RelaySock sid q x)" for v q x
    using inv that by (auto simp: bd_inv_def tokens_ok_def)
  obtain itok ttok where p: "bd_issued s sid = Some (itok, ttok)" using tk [OF at(1)] by (metis surj_pair)
  have toks: "t = token_of r (itok, ttok)" "t' = token_of r' (itok, ttok)" using tk [OF at(1)] tk [OF at(2)] p by auto
  have "v \<in> {src, w}" if v: "bd_attached s v = Some (RelaySock sid q x)" for v q x
  proof -
    have "q = r \<or> q = r'" using at(3) by (cases q; cases r; cases r') auto
    then show ?thesis using inv v at(1,2) unfolding bd_inv_def unique_ok_def by blast
  qed
  then show ?thesis using p at toks by (cases r; cases r') (auto simp: token_of_def)
qed

definition demo_bd_events :: "bd_event list" where
  "demo_bd_events = [CreateSession 0 ''s'' ''i'' ''t'' ''a'' ''b'', RelayConnects 1 ''ip'' ''s'' ''i'' ''initiator'' 5,
     RelayConnects 2 ''ip'' ''s'' ''t'' ''target'' 6, Incoming 1 True ''px'']"

theorem bd_relay_pairs_token_holders_witness:
  "\<exists>s. run_events bd_step demo_bd_events empty_bd = Some s \<and> BForward 1 True ''px'' \<in> set (bd_outbox s 2)
     \<and> (\<exists>sid itok ttok. bd_issued s sid = Some (itok, ttok) \<and> (\<forall>v r t. bd_attached s v = Some (RelaySock sid r t) \<longrightarrow> v \<in> {1, 2}))"
proof -
  have "map_option (\<lambda>s. BForward 1 True ''px'' \<in> set (bd_outbox s 2)) (run_events bd_step demo_bd_events empty_bd) = Some True" by code_simp
  then obtain s where s: "run_events bd_step demo_bd_events empty_bd = Some s" "BForward 1 True ''px'' \<in> set (bd_outbox s 2)"
    unfolding map_option_eq_Some by blast
  from bd_relay_pairs_token_holders [OF run_reachable [OF reachable.start s(1)] s(2)] s show ?thesis by blast
qed

text \<open>The requests that stop the console.  A step of the native relay ends in an exception that nothing
  catches exactly when somebody joins a known session with a token of another length than the one
  issued for the side.\<close>

theorem bd_step_throws_iff:
  "bd_step ev s = None \<longleftrightarrow>
     (\<exists>w ip sid token roleText now role x. ev = RelayConnects w ip sid token roleText now \<and> bd_attached s w = None
        \<and> sid \<noteq> [] \<and> token \<noteq> [] \<and> parse_role roleText = Some role \<and> bd_ip_count s ip < MAX_RELAY_PER_IP
        \<and> activeSessions s sid = Some x \<and> length token \<noteq> length (role_token role x))"
proof (cases ev)
  case (RelayConnects w ip sid token roleText now)
  then show ?thesis by (auto simp: handleRelayConnection_def split: option.splits)
qed simp_all

text \<open>An error is counted twice.  When a socket of the relay fails, the handlers of its two events, the
  error and the closing that follows it, both release the place of the address: the counter falls by
  two for one connection, and the limit no longer holds.\<close>

theorem bd_error_releases_two_places:
  assumes "bd_attached s w = Some (RelaySock sid role tok)" "bd_state s w = WsOpen" "bd_ip_count s (bd_ip s w) = n + 2"
  shows "\<exists>s1 s2. bd_step (SocketError w) s = Some s1 \<and> bd_step (SocketClosed w) s1 = Some s2 \<and> bd_ip_count s2 (bd_ip s w) = n"
proof -
  have keep: "bd_ip_count (teardownSession sid t) = bd_ip_count t" "bd_ip (teardownSession sid t) = bd_ip t"
    "bd_attached (teardownSession sid t) = bd_attached t" for t
    by (simp_all add: teardownSession_def close_opt_def bd_close_def split: option.splits)
  have nc: "bd_state (teardownSession sid t) w \<noteq> WsClosed" if "bd_state t w \<noteq> WsClosed" for t
    using that by (auto simp: teardownSession_def close_opt_def bd_close_def split: option.splits)
  let ?e = "s\<lparr>bd_state := (bd_state s)(w := WsClosing)\<rparr>"
  let ?s1 = "relay_gone w sid ?e"
  have s1: "bd_step (SocketError w) s = Some ?s1" using assms(1,2) by (simp add: socket_gone_def)
  have f1: "bd_ip_count ?s1 (bd_ip s w) = n + 1" "bd_ip ?s1 w = bd_ip s w" "bd_attached ?s1 w = Some (RelaySock sid role tok)"
    using assms by (simp_all add: relay_gone_def keep decIpCount_def)
  have n1: "bd_state ?s1 w \<noteq> WsClosed" unfolding relay_gone_def by (rule nc) (simp add: decIpCount_def)
  let ?c = "?s1\<lparr>bd_state := (bd_state ?s1)(w := WsClosed)\<rparr>"
  have "bd_step (SocketClosed w) ?s1 = Some (relay_gone w sid ?c)" using n1 f1(3) by (simp add: socket_gone_def)
  moreover have "bd_ip_count (relay_gone w sid ?c) (bd_ip s w) = n"
    using f1(1,2) unfolding relay_gone_def [of w sid ?c] by (simp add: keep decIpCount_def)
  ultimately show ?thesis using s1 by blast
qed

definition demo_bd :: bd where
  "demo_bd = empty_bd\<lparr>bd_attached := (bd_attached empty_bd)(1 \<mapsto> RelaySock ''s'' Initiator ''i''),
     bd_state := (bd_state empty_bd)(1 := WsOpen), bd_ip_count := (bd_ip_count empty_bd)([] := 2)\<rparr>"

theorem bd_error_releases_two_places_witness:
  "\<exists>s1 s2. bd_step (SocketError 1) demo_bd = Some s1 \<and> bd_step (SocketClosed 1) s1 = Some s2 \<and> bd_ip_count s2 [] = 0"
  using bd_error_releases_two_places [of demo_bd 1 "''s''" Initiator "''i''" 0] by (simp add: demo_bd_def empty_bd_def)

text \<open>A late partner strands the side that waits.  When the second side arrives after the lifetime of
  the token, the session is dropped without closing the socket that waits in it; the timer of that
  socket then finds no session and leaves it open, with no timer left.\<close>

theorem bd_late_partner_strands_waiter:
  assumes "activeSessions s sid = Some x" "status x = Pending" "initiatorWs x = Some a" "bd_state s a = WsOpen"
    and "bd_attached s a = Some (RelaySock sid Initiator itok)"
    and "now - createdAt x > SESSION_TTL_MS" "sid \<noteq> []" "targetToken x \<noteq> []" "bd_ip_count s ip < MAX_RELAY_PER_IP" "bd_attached s w = None"
  shows "\<exists>s1 s2. bd_step (RelayConnects w ip sid (targetToken x) ''target'' now) s = Some s1 \<and> activeSessions s1 sid = None
    \<and> bd_step (WaitTimer a) s1 = Some s2 \<and> bd_state s2 a = WsOpen \<and> \<not> wait_timer s2 a"
proof -
  let ?s1 = "s\<lparr>activeSessions := (activeSessions s)(sid := None)\<rparr>"
  have "bd_step (RelayConnects w ip sid (targetToken x) ''target'' now) s = Some ?s1"
    using assms by (simp add: handleRelayConnection_def parse_role_def)
  moreover have "bd_step (WaitTimer a) ?s1 = Some (?s1\<lparr>wait_timer := (wait_timer s)(a := False)\<rparr>)"
    using assms(5) by (cases "wait_timer s a") (simp_all add: wait_timeout_def Let_def fun_upd_idem)
  ultimately show ?thesis using assms(4) by auto
qed

theorem bd_late_partner_strands_waiter_witness:
  "\<exists>s s1 s2. run_events bd_step [CreateSession 0 ''s'' ''i'' ''t'' ''a'' ''b'', RelayConnects 1 ''ip'' ''s'' ''i'' ''initiator'' 50000] empty_bd = Some s
    \<and> bd_step (RelayConnects 2 ''ip'' ''s'' ''t'' ''target'' 65000) s = Some s1
    \<and> bd_step (WaitTimer 1) s1 = Some s2 \<and> bd_state s2 1 = WsOpen"
proof -
  let ?x = "\<lparr>initiatorId = ''a'', targetId = ''b'', initiatorWs = Some 1, targetWs = None, initiatorToken = ''i'',
    targetToken = ''t'', createdAt = 0, status = Pending\<rparr>"
  obtain s where s: "run_events bd_step [CreateSession 0 ''s'' ''i'' ''t'' ''a'' ''b'', RelayConnects 1 ''ip'' ''s'' ''i'' ''initiator'' 50000] empty_bd = Some s"
    "activeSessions s ''s'' = Some ?x" "bd_state s 1 = WsOpen" "bd_attached s 1 = Some (RelaySock ''s'' Initiator ''i'')"
    "bd_ip_count s ''ip'' = 1" "bd_attached s 2 = None"
    by (simp add: empty_bd_def createRelaySession_def handleRelayConnection_def parse_role_def take_slot_def incIpCount_def
        MAX_RELAY_PER_IP_def SESSION_TTL_MS_def Let_def)
  from bd_late_partner_strands_waiter [OF s(2) _ _ s(3,4), of 65000 "''ip''" 2] s show ?thesis
    by (auto simp: SESSION_TTL_MS_def MAX_RELAY_PER_IP_def simp del: bd_step.simps run_events.simps)
qed

end
