(* ===== verification/Chat_Relay.thy ===== *)
theory Chat_Relay
  imports Remote_Relay
begin

text \<open>
  The chat relay of \<open>src/web-nodejs/services/chatRelay.js\<close>: a room per device with its agent, its operators
  and a bounded list of messages, the panel operators beside the rooms, and the calls to the Go server
  that store and load conversations.

  A load is a promise: the handler leaves a continuation, and its answer is a later event.  Messages are
  the JSON values that the code builds; an undefined field is left out, as \<open>JSON.stringify\<close> does.  The lists
  in an answer of the Go server are arrays or missing.  A step
  is \<^term>\<open>None\<close> when an exception leaves its handler.
\<close>

section \<open>State\<close>

definition MAX_TEXT_BYTES :: nat where "MAX_TEXT_BYTES = 8192"

definition HISTORY_LIMIT :: nat where "HISTORY_LIMIT = 500"

record room =
  room_agent :: "nat option"
  operatorWss :: "nat list"
  messages :: "json list"

datatype chat_role = ChatAgent string | ChatOperator string string

text \<open>What follows a load: the socket that gets the answer and what the handler remembers.\<close>

datatype continuation =
    AgentHistory nat string
  | AgentContacts nat
  | Contacts nat string
  | Groups nat
  | History nat "json option"
  | OperatorHistory nat "json option" string
  | GroupCreated nat string

record chat =
  rooms :: "string \<Rightarrow> room option"
  room_keys :: "string list"
  panelOperators :: "nat list"
  ch_state :: "nat \<Rightarrow> ws_state"
  ch_attached :: "nat \<Rightarrow> chat_role option"
  ch_outbox :: "nat \<Rightarrow> json list"
  ch_pending :: "continuation list"
  ch_posts :: "(string \<times> json) list"
  ch_gets :: "(string \<times> string) list"
  has_api :: bool

definition empty_chat :: "bool \<Rightarrow> chat" where
  "empty_chat api = \<lparr>rooms = (\<lambda>_. None), room_keys = [], panelOperators = [], ch_state = (\<lambda>_. WsClosed),
     ch_attached = (\<lambda>_. None), ch_outbox = (\<lambda>_. []), ch_pending = [], ch_posts = [], ch_gets = [], has_api = api\<rparr>"

definition new_room :: room where
  "new_room = \<lparr>room_agent = None, operatorWss = [], messages = []\<rparr>"


section \<open>Helpers\<close>

definition obj :: "(string \<times> json option) list \<Rightarrow> json" where
  "obj fs = JObj (map (\<lambda>(k, v). (k, the v)) (filter (\<lambda>(k, v). v \<noteq> None) fs))"

definition jor :: "json option \<Rightarrow> json \<Rightarrow> json option" where
  "jor a d = or_else a (Some d)"

definition getRoom :: "string \<Rightarrow> chat \<Rightarrow> room \<times> chat" where
  "getRoom dev s =
     (case rooms s dev of
        Some r \<Rightarrow> (r, s)
      | None \<Rightarrow> (new_room, s\<lparr>rooms := (rooms s)(dev \<mapsto> new_room), room_keys := room_keys s @ [dev]\<rparr>))"

definition put_room :: "string \<Rightarrow> room \<Rightarrow> chat \<Rightarrow> chat" where
  "put_room dev r s = s\<lparr>rooms := (rooms s)(dev \<mapsto> r)\<rparr>"

definition appendMessage :: "json \<Rightarrow> room \<Rightarrow> room" where
  "appendMessage m r =
     (let ms = messages r @ [m] in
      r\<lparr>messages := (if length ms > HISTORY_LIMIT then drop (length ms - HISTORY_LIMIT) ms else ms)\<rparr>)"

definition sendTo :: "json \<Rightarrow> nat \<Rightarrow> chat \<Rightarrow> chat" where
  "sendTo m w s = (if ch_state s w = WsOpen then s\<lparr>ch_outbox := (ch_outbox s)(w := ch_outbox s w @ [m])\<rparr> else s)"

definition send_except :: "nat option \<Rightarrow> json \<Rightarrow> nat \<Rightarrow> chat \<Rightarrow> chat" where
  "send_except ex m w s = (if Some w = ex then s else sendTo m w s)"

definition chat_broadcast :: "room \<Rightarrow> json \<Rightarrow> nat option \<Rightarrow> chat \<Rightarrow> chat" where
  "chat_broadcast r m ex s =
     fold (send_except ex m) (operatorWss r) (case room_agent r of None \<Rightarrow> s | Some a \<Rightarrow> send_except ex m a s)"

definition broadcastToPanelOperators :: "json \<Rightarrow> nat option \<Rightarrow> room option \<Rightarrow> chat \<Rightarrow> chat" where
  "broadcastToPanelOperators m ex r s =
     fold (send_except ex m)
       (filter (\<lambda>w. case r of None \<Rightarrow> True | Some x \<Rightarrow> w \<notin> set (operatorWss x)) (panelOperators s)) s"

text \<open>A broadcast to a room and to the panel operators that are not in it.\<close>

definition broadcast_both :: "room \<Rightarrow> json \<Rightarrow> nat option \<Rightarrow> chat \<Rightarrow> chat" where
  "broadcast_both r m ex s = broadcastToPanelOperators m ex (Some r) (chat_broadcast r m ex s)"

definition support_contact :: "int \<Rightarrow> json" where
  "support_contact now = obj [(''id'', Some (JStr ''operator'')), (''name'', Some (JStr ''Support'')), (''hostname'', Some (JStr [])),
     (''online'', Some (JBool True)), (''last_seen'', Some (JNum now)), (''unread'', Some (JNum 0)),
     (''avatar_color'', Some (JStr ''#4f6ef7'')), (''role'', Some (JStr ''operator''))]"

definition fallbackContacts :: "int \<Rightarrow> string \<Rightarrow> chat \<Rightarrow> json list" where
  "fallbackContacts now dev s =
     support_contact now #
     map (\<lambda>d. obj [(''id'', Some (JStr d)), (''name'', Some (JStr d)), (''hostname'', Some (JStr [])), (''online'', Some (JBool True)),
                   (''last_seen'', Some (JNum now)), (''unread'', Some (JNum 0)), (''avatar_color'', Some (JStr []))])
       (filter (\<lambda>d. d \<noteq> dev \<and> (case rooms s d of
            Some r \<Rightarrow> (case room_agent r of Some a \<Rightarrow> ch_state s a = WsOpen | None \<Rightarrow> False) | None \<Rightarrow> False)) (room_keys s))"

definition api_post :: "string \<Rightarrow> json \<Rightarrow> chat \<Rightarrow> chat" where
  "api_post path body s = (if has_api s then s\<lparr>ch_posts := ch_posts s @ [(path, body)]\<rparr> else s)"

definition api_get :: "string \<Rightarrow> json option \<Rightarrow> chat \<Rightarrow> chat" where
  "api_get path ident s =
     (case Option.bind ident js_string of
        Some i \<Rightarrow> if has_api s then s\<lparr>ch_gets := ch_gets s @ [(path, i)]\<rparr> else s
      | None \<Rightarrow> s)"

definition persistMessage :: "json \<Rightarrow> chat \<Rightarrow> chat" where
  "persistMessage m s =
     api_post ''/chat/messages''
       (obj [(''conversation_id'', or_else (field m ''conversation_id'') (jor (field m ''from'') (JStr ''operator''))),
             (''from_id'', jor (field m ''from'') (JStr ''unknown'')),
             (''from_name'', or_else (field m ''from_name'') (jor (field m ''from'') (JStr []))),
             (''to_id'', jor (field m ''to_id'') (JStr [])),
             (''text'', jor (field m ''text'') (JStr []))]) s"

text \<open>A load from the Go server: the answer comes with the event that names the continuation.\<close>

definition await_load :: "string \<Rightarrow> json option \<Rightarrow> continuation \<Rightarrow> chat \<Rightarrow> chat" where
  "await_load path ident k s = (api_get path ident s)\<lparr>ch_pending := ch_pending s @ [k]\<rparr>"

abbreviation loadHistory :: "json option \<Rightarrow> continuation \<Rightarrow> chat \<Rightarrow> chat" where
  "loadHistory \<equiv> await_load ''/chat/history/''"

abbreviation loadContacts :: "json option \<Rightarrow> continuation \<Rightarrow> chat \<Rightarrow> chat" where
  "loadContacts \<equiv> await_load ''/chat/contacts/''"

abbreviation loadGroups :: "json option \<Rightarrow> continuation \<Rightarrow> chat \<Rightarrow> chat" where
  "loadGroups \<equiv> await_load ''/chat/groups/''"

definition await_post :: "continuation \<Rightarrow> chat \<Rightarrow> chat" where
  "await_post k s = s\<lparr>ch_pending := ch_pending s @ [k]\<rparr>"

definition array_field :: "json option \<Rightarrow> string \<Rightarrow> json list option" where
  "array_field d k = (case d of Some v \<Rightarrow> (case field v k of Some (JArr xs) \<Rightarrow> Some xs | _ \<Rightarrow> None) | None \<Rightarrow> None)"

definition history_msg :: "json option \<Rightarrow> json list \<Rightarrow> json" where
  "history_msg conv ms = obj [(''type'', Some (JStr ''history'')), (''conversation_id'', conv), (''messages'', Some (JArr ms))]"

definition contacts_msg :: "json list \<Rightarrow> json" where
  "contacts_msg cs = obj [(''type'', Some (JStr ''contacts'')), (''contacts'', Some (JArr cs))]"

definition room_messages :: "string \<Rightarrow> chat \<Rightarrow> json list" where
  "room_messages dev s = (case rooms s dev of None \<Rightarrow> [] | Some r \<Rightarrow> messages r)"

fun continue_load :: "int \<Rightarrow> json option \<Rightarrow> continuation \<Rightarrow> chat \<Rightarrow> chat" where
  "continue_load now d (AgentHistory w dev) s =
     (case array_field d ''messages'' of
        Some ms \<Rightarrow> sendTo (history_msg (Some (JStr dev)) ms) w s
      | None \<Rightarrow> sendTo (history_msg None (room_messages dev s)) w s)"
| "continue_load now d (AgentContacts w) s =
     (case array_field d ''contacts'' of
        Some (c # cs) \<Rightarrow> sendTo (contacts_msg (c # cs)) w s
      | _ \<Rightarrow> sendTo (contacts_msg [support_contact now]) w s)"
| "continue_load now d (Contacts w dev) s =
     (case array_field d ''contacts'' of
        Some (c # cs) \<Rightarrow> sendTo (contacts_msg (c # cs)) w s
      | _ \<Rightarrow> sendTo (contacts_msg (fallbackContacts now dev s)) w s)"
| "continue_load now d (Groups w) s =
     (case array_field d ''groups'' of
        Some gs \<Rightarrow> sendTo (obj [(''type'', Some (JStr ''groups'')), (''groups'', Some (JArr gs))]) w s
      | None \<Rightarrow> s)"
| "continue_load now d (History w conv) s =
     (case array_field d ''messages'' of Some ms \<Rightarrow> sendTo (history_msg conv ms) w s | None \<Rightarrow> s)"
| "continue_load now d (OperatorHistory w conv dev) s =
     (case array_field d ''messages'' of
        Some ms \<Rightarrow> sendTo (history_msg conv ms) w s
      | None \<Rightarrow> if conv = Some (JStr dev) \<and> dev \<noteq> [] then sendTo (history_msg (Some (JStr dev)) (room_messages dev s)) w s else s)"
| "continue_load now d (GroupCreated w dev) s =
     (case d of
        None \<Rightarrow> s
      | Some v \<Rightarrow> loadGroups (Some (JStr dev)) (Groups w)
          (sendTo (JObj (fold (\<lambda>(k, x). set_field k x) (case v of JObj fs \<Rightarrow> fs | _ \<Rightarrow> []) [(''type'', JStr ''group_created'')])) w s))"


section \<open>Agents\<close>

definition status_msg :: "string option \<Rightarrow> bool \<Rightarrow> json" where
  "status_msg dev on = obj [(''type'', Some (JStr ''status'')), (''device_id'', map_option JStr dev), (''agent_connected'', Some (JBool on))]"

definition presence_msg :: "string \<Rightarrow> bool \<Rightarrow> json" where
  "presence_msg dev on = obj [(''type'', Some (JStr ''presence'')), (''device_id'', Some (JStr dev)), (''online'', Some (JBool on))]"

definition announce :: "string \<Rightarrow> bool \<Rightarrow> nat option \<Rightarrow> room \<Rightarrow> chat \<Rightarrow> chat" where
  "announce dev on ex r s =
     broadcastToPanelOperators (presence_msg dev on) None (Some r)
       (broadcastToPanelOperators (status_msg (Some dev) on) None (Some r)
         (chat_broadcast r (presence_msg dev on) ex (chat_broadcast r (status_msg None on) ex s)))"

definition ch_close :: "nat \<Rightarrow> chat \<Rightarrow> chat" where
  "ch_close w s = (if ch_state s w = WsOpen then s\<lparr>ch_state := (ch_state s)(w := WsClosing)\<rparr> else s)"

definition ch_attach :: "nat \<Rightarrow> chat_role \<Rightarrow> chat \<Rightarrow> chat" where
  "ch_attach w r s = s\<lparr>ch_state := (ch_state s)(w := WsOpen), ch_attached := (ch_attached s)(w \<mapsto> r)\<rparr>"

definition chat_agent_connects :: "nat \<Rightarrow> string \<Rightarrow> chat \<Rightarrow> chat" where
  "chat_agent_connects w dev s0 =
     (let (r, s1) = getRoom dev (ch_attach w (ChatAgent dev) s0);
          s2 = (case room_agent r of None \<Rightarrow> s1 | Some a \<Rightarrow> ch_close a s1);
          r1 = r\<lparr>room_agent := Some w\<rparr>;
          s3 = announce dev True (Some w) r1 (put_room dev r1 s2)
      in loadGroups (Some (JStr dev)) (Groups w) (loadContacts (Some (JStr dev)) (AgentContacts w)
           (loadHistory (Some (JStr dev)) (AgentHistory w dev) s3)))"

definition capabilities :: "json" where
  "capabilities = JArr (map JStr [''multi_conversation'', ''contacts'', ''groups'', ''history'', ''e2e_encryption'', ''read_receipts'',
     ''typing'', ''presence'', ''file_share''])"

definition welcome_msg :: "int \<Rightarrow> string \<Rightarrow> json" where
  "welcome_msg now dev = obj [(''type'', Some (JStr ''welcome'')), (''device_id'', Some (JStr dev)), (''server_time'', Some (JNum now)),
     (''capabilities'', Some capabilities)]"

text \<open>\<open>String(frame.text || '').slice(0, 2048)\<close>, which raises an exception for an object that has no string.\<close>

definition chat_text :: "json \<Rightarrow> json option" where
  "chat_text f = map_option (\<lambda>t. JStr (take 2048 t)) (text_or_empty (field f ''text''))"

definition agent_message :: "int \<Rightarrow> string \<Rightarrow> json \<Rightarrow> json \<Rightarrow> json" where
  "agent_message now dev body f = obj [(''type'', Some (JStr ''message'')), (''id'', Some (JNum now)), (''from'', Some (JStr dev)),
     (''from_name'', jor (field f ''from_name'') (JStr dev)), (''conversation_id'', jor (field f ''conversation_id'') (JStr ''operator'')),
     (''text'', Some body), (''timestamp'', jor (field f ''timestamp'') (JNum now))]"

definition online_flag :: "json \<Rightarrow> json" where
  "online_flag f = JBool (field f ''online'' \<noteq> Some (JBool False))"

definition file_id :: "int \<Rightarrow> json \<Rightarrow> json option" where
  "file_id now f = jor (field f ''file_id'') (JStr (''file_'' @ show_int now))"

definition chat_agent_frame :: "int \<Rightarrow> nat \<Rightarrow> string \<Rightarrow> json \<Rightarrow> chat \<Rightarrow> chat option" where
  "chat_agent_frame now w dev f s0 =
     (let ty = field f ''type'';
          (r, s) = getRoom dev s0;
          conv = (\<lambda>d. jor (field f ''conversation_id'') (JStr d))
      in if ty = Some (JStr ''message'') then
        map_option (\<lambda>body. let m = agent_message now dev body f; r1 = appendMessage m r
          in persistMessage m (broadcast_both r1 m (Some w) (put_room dev r1 s))) (chat_text f)
      else Some (
      if ty = Some (JStr ''hello'') then sendTo (welcome_msg now dev) w s
      else if ty = Some (JStr ''typing'') then
        broadcast_both r (obj [(''type'', Some (JStr ''typing'')), (''from'', Some (JStr dev)), (''conversation_id'', conv ''operator'')]) (Some w) s
      else if ty = Some (JStr ''get_contacts'') then loadContacts (jor (field f ''device_id'') (JStr dev)) (Contacts w dev) s
      else if ty = Some (JStr ''get_history'') then loadHistory (conv dev) (History w (field f ''conversation_id'')) s
      else if ty = Some (JStr ''mark_read'') then
        (if truthy (field f ''conversation_id'')
         then api_post ''/chat/read'' (obj [(''conversation_id'', field f ''conversation_id''), (''reader_id'', Some (JStr dev))]) s else s)
      else if ty = Some (JStr ''create_group'') then
        (if has_api s \<and> truthy (field f ''name'') \<and> truthy (field f ''member_ids'')
         then await_post (GroupCreated w dev)
                (api_post ''/chat/groups'' (obj [(''name'', field f ''name''), (''members'', field f ''member_ids''), (''created_by'', Some (JStr dev))]) s)
         else s)
      else if ty = Some (JStr ''key_exchange'') then
        broadcast_both r (obj [(''type'', Some (JStr ''key_exchange'')), (''from'', Some (JStr dev)), (''public_key'', field f ''public_key''),
          (''conversation_id'', conv dev)]) (Some w) s
      else if ty = Some (JStr ''read_receipt'') then
        let s1 = broadcast_both r (obj [(''type'', Some (JStr ''read_receipt'')), (''from'', Some (JStr dev)),
              (''message_ids'', jor (field f ''message_ids'') (JArr [])), (''conversation_id'', conv dev), (''timestamp'', Some (JNum now))]) (Some w) s
        in if truthy (field f ''conversation_id'')
           then api_post ''/chat/read'' (obj [(''conversation_id'', field f ''conversation_id''), (''reader_id'', Some (JStr dev)),
                  (''message_ids'', jor (field f ''message_ids'') (JArr []))]) s1 else s1
      else if ty = Some (JStr ''presence_update'') then
        broadcast_both r (obj [(''type'', Some (JStr ''presence'')), (''device_id'', Some (JStr dev)), (''online'', Some (online_flag f)),
          (''status'', jor (field f ''status'') (JStr ''available'')), (''timestamp'', Some (JNum now))]) (Some w) s
      else if ty = Some (JStr ''file_share'') then
        broadcast_both r (obj [(''type'', Some (JStr ''file_share'')), (''from'', Some (JStr dev)), (''from_name'', jor (field f ''from_name'') (JStr dev)),
          (''conversation_id'', conv ''operator''), (''file_id'', file_id now f),
          (''file_name_encrypted'', jor (field f ''file_name_encrypted'') (JStr [])), (''file_size'', jor (field f ''file_size'') (JNum 0)),
          (''encrypted_metadata'', jor (field f ''encrypted_metadata'') (JStr [])), (''timestamp'', Some (JNum now))]) (Some w) s
      else s))"

definition chat_agent_closes :: "nat \<Rightarrow> string \<Rightarrow> chat \<Rightarrow> chat" where
  "chat_agent_closes w dev s =
     (case rooms s dev of
        None \<Rightarrow> s
      | Some r \<Rightarrow>
          if room_agent r = Some w
          then (let r1 = r\<lparr>room_agent := None\<rparr> in announce dev False None r1 (put_room dev r1 s))
          else s)"


section \<open>Operators\<close>

definition handleOperatorConnection :: "nat \<Rightarrow> string \<Rightarrow> string \<Rightarrow> chat \<Rightarrow> chat" where
  "handleOperatorConnection w dev name s0 =
     (let (r, s1) = getRoom dev (ch_attach w (ChatOperator dev name) s0);
          r1 = r\<lparr>operatorWss := operatorWss r @ [w]\<rparr>;
          s2 = put_room dev r1 s1;
          s3 = (if dev = ''panel'' then s2\<lparr>panelOperators := panelOperators s2 @ [w]\<rparr> else s2);
          connected = (case room_agent r1 of None \<Rightarrow> False | Some a \<Rightarrow> ch_state s3 a = WsOpen);
          s4 = sendTo (status_msg None connected) w s3
      in if dev = ''panel'' then loadGroups (Some (JStr ''panel'')) (Groups w) (loadContacts (Some (JStr ''panel'')) (Contacts w ''panel'') s4)
         else loadHistory (Some (JStr dev)) (AgentHistory w dev) s4)"

text \<open>Where a frame of an operator goes: the room of its conversation when there is another one, otherwise
  the panel operators or the operator's own room.\<close>

definition deliver :: "nat \<Rightarrow> string \<Rightarrow> json option \<Rightarrow> json \<Rightarrow> chat \<Rightarrow> chat" where
  "deliver w dev conv m s =
     (case (case conv of Some (JStr c) \<Rightarrow> if c = dev then None else rooms s c | _ \<Rightarrow> None) of
        Some target \<Rightarrow> chat_broadcast target m (Some w) s
      | None \<Rightarrow>
          if dev = ''panel'' then broadcastToPanelOperators m (Some w) None s
          else (case rooms s dev of None \<Rightarrow> s | Some r \<Rightarrow> chat_broadcast r m (Some w) s))"

definition append_room :: "json option \<Rightarrow> string \<Rightarrow> chat \<Rightarrow> string" where
  "append_room conv dev s = (case conv of Some (JStr c) \<Rightarrow> if rooms s c \<noteq> None then c else dev | _ \<Rightarrow> dev)"

definition operator_message :: "int \<Rightarrow> string \<Rightarrow> json option \<Rightarrow> json \<Rightarrow> json" where
  "operator_message now name conv body = obj [(''type'', Some (JStr ''message'')), (''id'', Some (JNum now)), (''from'', Some (JStr ''operator'')),
     (''from_name'', Some (JStr name)), (''conversation_id'', conv), (''operator'', Some (JStr name)), (''to_id'', conv),
     (''text'', Some body), (''timestamp'', Some (JNum now))]"

definition operator_frame :: "int \<Rightarrow> nat \<Rightarrow> string \<Rightarrow> string \<Rightarrow> json \<Rightarrow> chat \<Rightarrow> chat option" where
  "operator_frame now w dev name f s0 =
     (let ty = field f ''type'';
          s = snd (getRoom dev s0);
          conv = jor (field f ''conversation_id'') (JStr dev)
      in if ty = Some (JStr ''message'') then
        map_option (\<lambda>body. let m = operator_message now name conv body;
            target = append_room conv dev s;
            s1 = (case rooms s target of None \<Rightarrow> s | Some r \<Rightarrow> put_room target (appendMessage m r) s)
          in persistMessage m (sendTo m w (deliver w dev conv m s1))) (chat_text f)
      else if ty = Some (JStr ''create_group'') then
        (case field f ''name'' of
           Some v \<Rightarrow>
             if has_api s \<and> truthy (Some v) \<and> is_array (field f ''member_ids'')
             then map_option (\<lambda>n. await_post (GroupCreated w dev)
                    (api_post ''/chat/groups'' (obj [(''name'', Some (JStr (take 120 n))), (''members'', field f ''member_ids''),
                       (''created_by'', Some (JStr name))]) s)) (js_string v)
             else Some s
         | None \<Rightarrow> Some s)
      else Some (
      if ty = Some (JStr ''hello'') then sendTo (welcome_msg now dev) w s
      else if ty = Some (JStr ''get_contacts'') then loadContacts (jor (field f ''device_id'') (JStr dev)) (Contacts w dev) s
      else if ty = Some (JStr ''get_groups'') then loadGroups (jor (field f ''device_id'') (JStr dev)) (Groups w) s
      else if ty = Some (JStr ''get_history'') then loadHistory conv (OperatorHistory w (field f ''conversation_id'') dev) s
      else if ty = Some (JStr ''typing'') then
        deliver w dev conv (obj [(''type'', Some (JStr ''typing'')), (''from'', Some (JStr ''operator'')), (''operator'', Some (JStr name)),
          (''conversation_id'', conv)]) s
      else if ty = Some (JStr ''key_exchange'') then
        deliver w dev conv (obj [(''type'', Some (JStr ''key_exchange'')), (''from'', Some (JStr ''operator'')), (''operator'', Some (JStr name)),
          (''public_key'', field f ''public_key''), (''conversation_id'', conv)]) s
      else if ty = Some (JStr ''read_receipt'') then
        api_post ''/chat/read'' (obj [(''conversation_id'', conv), (''reader_id'', Some (JStr name)), (''message_ids'', jor (field f ''message_ids'') (JArr []))])
          (deliver w dev conv (obj [(''type'', Some (JStr ''read_receipt'')), (''from'', Some (JStr ''operator'')), (''operator'', Some (JStr name)),
            (''message_ids'', jor (field f ''message_ids'') (JArr [])), (''conversation_id'', conv), (''timestamp'', Some (JNum now))]) s)
      else if ty = Some (JStr ''mark_read'') then
        (if truthy (field f ''conversation_id'')
         then api_post ''/chat/read'' (obj [(''conversation_id'', field f ''conversation_id''), (''reader_id'', Some (JStr name))]) s else s)
      else if ty = Some (JStr ''presence_update'') then
        let m = obj [(''type'', Some (JStr ''presence'')), (''device_id'', Some (JStr (''operator:'' @ name))), (''online'', Some (online_flag f)),
              (''status'', jor (field f ''status'') (JStr ''available'')), (''timestamp'', Some (JNum now))]
        in if dev = ''panel'' then broadcastToPanelOperators m (Some w) None s
           else (case rooms s dev of None \<Rightarrow> s | Some r \<Rightarrow> chat_broadcast r m (Some w) s)
      else if ty = Some (JStr ''file_share'') then
        deliver w dev conv (obj [(''type'', Some (JStr ''file_share'')), (''from'', Some (JStr ''operator'')), (''from_name'', Some (JStr name)),
          (''conversation_id'', conv), (''file_id'', file_id now f),
          (''file_name_encrypted'', jor (field f ''file_name_encrypted'') (JStr [])), (''file_size'', jor (field f ''file_size'') (JNum 0)),
          (''encrypted_metadata'', jor (field f ''encrypted_metadata'') (JStr [])), (''timestamp'', Some (JNum now))]) s
      else s))"

definition operator_closes :: "nat \<Rightarrow> string \<Rightarrow> chat \<Rightarrow> chat" where
  "operator_closes w dev s =
     (let s1 = s\<lparr>panelOperators := filter (\<lambda>v. v \<noteq> w) (panelOperators s)\<rparr> in
      case rooms s dev of
        None \<Rightarrow> s1
      | Some r \<Rightarrow> put_room dev (r\<lparr>operatorWss := filter (\<lambda>v. v \<noteq> w) (operatorWss r)\<rparr>) s1)"


section \<open>Reports and steps\<close>

record room_state =
  rs_agentConnected :: bool
  rs_operatorCount :: nat
  rs_messageCount :: nat
  rs_lastMessages :: "json list"

definition getRoomState :: "string \<Rightarrow> chat \<Rightarrow> room_state option" where
  "getRoomState dev s =
     map_option (\<lambda>r. \<lparr>rs_agentConnected = (case room_agent r of None \<Rightarrow> False | Some a \<Rightarrow> ch_state s a = WsOpen),
        rs_operatorCount = length (operatorWss r), rs_messageCount = length (messages r),
        rs_lastMessages = drop (length (messages r) - 20) (messages r)\<rparr>) (rooms s dev)"

datatype chat_event =
    AgentJoins nat string
  | OperatorJoins nat string string
  | ChatMessage int nat bool nat "json option"
  | LoadReturns int nat "json option"
  | ChatCloses nat

text \<open>\<open>ChatMessage\<close> carries the time, the socket, whether the frame is binary, its length and its parsed text.\<close>

definition chat_frame :: "int \<Rightarrow> nat \<Rightarrow> chat_role \<Rightarrow> json \<Rightarrow> chat \<Rightarrow> chat option" where
  "chat_frame now w role f s =
     (if f = JNull then None
      else case role of ChatAgent dev \<Rightarrow> chat_agent_frame now w dev f s | ChatOperator dev name \<Rightarrow> operator_frame now w dev name f s)"

fun chat_step :: "chat_event \<Rightarrow> chat \<Rightarrow> chat option" where
  "chat_step (AgentJoins w dev) s = Some (if ch_attached s w = None then chat_agent_connects w dev s else s)"
| "chat_step (OperatorJoins w dev name) s = Some (if ch_attached s w = None then handleOperatorConnection w dev name s else s)"
| "chat_step (ChatMessage now w isBinary len frame) s =
     (if ch_state s w = WsClosed \<or> isBinary \<or> len > MAX_TEXT_BYTES then Some s
      else case (ch_attached s w, frame) of
        (None, _) \<Rightarrow> Some s
      | (_, None) \<Rightarrow> Some s
      | (Some role, Some f) \<Rightarrow> chat_frame now w role f s)"
| "chat_step (LoadReturns now i d) s =
     Some (if i < length (ch_pending s)
           then continue_load now (if has_api s then d else None) (ch_pending s ! i)
                  (s\<lparr>ch_pending := take i (ch_pending s) @ drop (Suc i) (ch_pending s)\<rparr>)
           else s)"
| "chat_step (ChatCloses w) s =
     Some (if ch_state s w = WsClosed then s
           else let s1 = s\<lparr>ch_state := (ch_state s)(w := WsClosed)\<rparr> in
             case ch_attached s w of
               None \<Rightarrow> s1
             | Some (ChatAgent dev) \<Rightarrow> chat_agent_closes w dev s1
             | Some (ChatOperator dev name) \<Rightarrow> operator_closes w dev s1)"

abbreviation chat_reachable :: "bool \<Rightarrow> chat \<Rightarrow> bool" where
  "chat_reachable api \<equiv> reachable chat_step (empty_chat api)"



section \<open>The invariant\<close>

text \<open>Everything but the rooms and the panel operators is invisible to it.\<close>

lemma sendTo_fields [simp]:
  "rooms (sendTo m w s) = rooms s" "panelOperators (sendTo m w s) = panelOperators s" "ch_attached (sendTo m w s) = ch_attached s"
  "ch_state (sendTo m w s) = ch_state s" "has_api (sendTo m w s) = has_api s" "ch_pending (sendTo m w s) = ch_pending s"
  by (simp_all add: sendTo_def)

lemma send_except_fields [simp]:
  "rooms (send_except ex m w s) = rooms s" "panelOperators (send_except ex m w s) = panelOperators s"
  "ch_attached (send_except ex m w s) = ch_attached s" "ch_state (send_except ex m w s) = ch_state s"
  by (simp_all add: send_except_def)

lemma send_posts [simp]:
  "ch_posts (send_except ex m w s) = ch_posts s" "has_api (send_except ex m w s) = has_api s"
  "ch_posts (fold (send_except ex m) ws s) = ch_posts s" "has_api (fold (send_except ex m) ws s) = has_api s"
  "ch_posts (put_room dev r s) = ch_posts s" "has_api (put_room dev r s) = has_api s"
proof -
  show one: "ch_posts (send_except ex m w s) = ch_posts s" "has_api (send_except ex m w s) = has_api s" for w s
    by (simp_all add: send_except_def sendTo_def)
  show "ch_posts (fold (send_except ex m) ws s) = ch_posts s" "has_api (fold (send_except ex m) ws s) = has_api s"
    by (induction ws arbitrary: s) (simp_all add: one)
qed (simp_all add: put_room_def)

lemma fold_send_fields [simp]:
  "rooms (fold (send_except ex m) ws s) = rooms s" "panelOperators (fold (send_except ex m) ws s) = panelOperators s"
  "ch_attached (fold (send_except ex m) ws s) = ch_attached s" "ch_state (fold (send_except ex m) ws s) = ch_state s"
  by (induction ws arbitrary: s) simp_all

lemma chat_broadcast_fields [simp]:
  "rooms (chat_broadcast r m ex s) = rooms s" "panelOperators (chat_broadcast r m ex s) = panelOperators s"
  "ch_attached (chat_broadcast r m ex s) = ch_attached s" "ch_state (chat_broadcast r m ex s) = ch_state s"
  by (simp_all add: chat_broadcast_def split: option.splits)

lemma panel_broadcast_fields [simp]:
  "rooms (broadcastToPanelOperators m ex r s) = rooms s" "panelOperators (broadcastToPanelOperators m ex r s) = panelOperators s"
  "ch_attached (broadcastToPanelOperators m ex r s) = ch_attached s" "ch_state (broadcastToPanelOperators m ex r s) = ch_state s"
  by (simp_all add: broadcastToPanelOperators_def)

lemma broadcast_both_fields [simp]:
  "rooms (broadcast_both r m ex s) = rooms s" "panelOperators (broadcast_both r m ex s) = panelOperators s"
  "ch_attached (broadcast_both r m ex s) = ch_attached s" "ch_state (broadcast_both r m ex s) = ch_state s"
  "ch_posts (broadcast_both r m ex s) = ch_posts s" "has_api (broadcast_both r m ex s) = has_api s"
  by (simp_all add: broadcast_both_def broadcastToPanelOperators_def chat_broadcast_def split: option.splits)

lemma announce_fields [simp]:
  "rooms (announce dev on ex r s) = rooms s" "panelOperators (announce dev on ex r s) = panelOperators s"
  "ch_attached (announce dev on ex r s) = ch_attached s" "ch_state (announce dev on ex r s) = ch_state s"
  by (simp_all add: announce_def)

lemma api_fields [simp]:
  "rooms (api_post p b s) = rooms s" "panelOperators (api_post p b s) = panelOperators s" "ch_attached (api_post p b s) = ch_attached s"
  "rooms (api_get p i s) = rooms s" "panelOperators (api_get p i s) = panelOperators s" "ch_attached (api_get p i s) = ch_attached s"
  "rooms (await_load p i k s) = rooms s" "panelOperators (await_load p i k s) = panelOperators s" "ch_attached (await_load p i k s) = ch_attached s"
  "rooms (await_post k s) = rooms s" "panelOperators (await_post k s) = panelOperators s" "ch_attached (await_post k s) = ch_attached s"
  "rooms (persistMessage m s) = rooms s" "panelOperators (persistMessage m s) = panelOperators s" "ch_attached (persistMessage m s) = ch_attached s"
  by (simp_all add: api_post_def api_get_def await_load_def await_post_def persistMessage_def split: option.splits)

lemma ch_outbox_api [simp]:
  "ch_outbox (api_post p b s) = ch_outbox s" "ch_outbox (persistMessage m s) = ch_outbox s" "ch_outbox (await_load p i k s) = ch_outbox s"
  by (simp_all add: api_post_def persistMessage_def await_load_def api_get_def split: option.splits)

lemma put_room_fields [simp]:
  "rooms (put_room dev r s) = (rooms s)(dev \<mapsto> r)" "panelOperators (put_room dev r s) = panelOperators s"
  "ch_attached (put_room dev r s) = ch_attached s" "ch_state (put_room dev r s) = ch_state s" "ch_outbox (put_room dev r s) = ch_outbox s"
  by (simp_all add: put_room_def)

lemma continue_load_fields [simp]:
  "rooms (continue_load now d k s) = rooms s" "panelOperators (continue_load now d k s) = panelOperators s"
  "ch_attached (continue_load now d k s) = ch_attached s"
  by (cases k; auto split: option.splits list.splits)+

lemma deliver_fields [simp]:
  "rooms (deliver w dev conv m s) = rooms s" "panelOperators (deliver w dev conv m s) = panelOperators s"
  "ch_attached (deliver w dev conv m s) = ch_attached s"
  by (simp_all add: deliver_def split: option.splits json.splits)

definition room_ok :: "chat \<Rightarrow> string \<Rightarrow> room \<Rightarrow> bool" where
  "room_ok s dev r = (length (messages r) \<le> HISTORY_LIMIT \<and> distinct (operatorWss r)
     \<and> (\<forall>v \<in> set (operatorWss r). \<exists>n. ch_attached s v = Some (ChatOperator dev n))
     \<and> (\<forall>a. room_agent r = Some a \<longrightarrow> ch_attached s a = Some (ChatAgent dev)))"

definition chat_inv :: "chat \<Rightarrow> bool" where
  "chat_inv s = ((\<forall>dev r. rooms s dev = Some r \<longrightarrow> room_ok s dev r)
     \<and> distinct (panelOperators s) \<and> (\<forall>v \<in> set (panelOperators s). \<exists>n. ch_attached s v = Some (ChatOperator ''panel'' n)))"

lemma chat_inv_cong:
  "rooms s' = rooms s \<Longrightarrow> panelOperators s' = panelOperators s \<Longrightarrow> ch_attached s' = ch_attached s \<Longrightarrow> chat_inv s' = chat_inv s"
  by (simp add: chat_inv_def room_ok_def)

lemma chat_inv_sends [simp]:
  "chat_inv (sendTo m w s) = chat_inv s" "chat_inv (persistMessage m s) = chat_inv s" "chat_inv (broadcast_both r m ex s) = chat_inv s"
  "chat_inv (deliver w dev conv m s) = chat_inv s" "chat_inv (continue_load now d k s) = chat_inv s"
  "chat_inv (announce dev on ex r s) = chat_inv s" "chat_inv (s\<lparr>ch_pending := ks\<rparr>) = chat_inv s" "chat_inv (s\<lparr>ch_state := st\<rparr>) = chat_inv s"
  by (rule chat_inv_cong; simp)+

lemma room_ok_cong: "ch_attached s' = ch_attached s \<Longrightarrow> room_ok s' dev r = room_ok s dev r"
  by (simp add: room_ok_def)

lemma chat_inv_put: "chat_inv s \<Longrightarrow> room_ok s dev r \<Longrightarrow> chat_inv (put_room dev r s)"
  by (auto simp: chat_inv_def room_ok_def)

lemma chat_inv_getRoom:
  assumes "chat_inv s" "getRoom dev s = (r, s')"
  shows "chat_inv s'" "room_ok s' dev r" "rooms s' dev = Some r" "ch_attached s' = ch_attached s" "panelOperators s' = panelOperators s"
    "ch_state s' = ch_state s" "ch_outbox s' = ch_outbox s"
proof -
  have "chat_inv s' \<and> room_ok s' dev r \<and> rooms s' dev = Some r \<and> ch_attached s' = ch_attached s \<and> panelOperators s' = panelOperators s
      \<and> ch_state s' = ch_state s \<and> ch_outbox s' = ch_outbox s"
  proof (cases "rooms s dev")
    case None
    then have "r = new_room" "s' = s\<lparr>rooms := (rooms s)(dev \<mapsto> new_room), room_keys := room_keys s @ [dev]\<rparr>"
      using assms(2) by (simp_all add: getRoom_def)
    then show ?thesis using assms(1) by (auto simp: chat_inv_def room_ok_def new_room_def)
  next
    case (Some r')
    then show ?thesis using assms by (auto simp: getRoom_def chat_inv_def)
  qed
  then show "chat_inv s'" "room_ok s' dev r" "rooms s' dev = Some r" "ch_attached s' = ch_attached s" "panelOperators s' = panelOperators s"
    "ch_state s' = ch_state s" "ch_outbox s' = ch_outbox s" by auto
qed

lemma chat_inv_attach: "chat_inv s \<Longrightarrow> ch_attached s w = None \<Longrightarrow> chat_inv (ch_attach w k s)"
  by (fastforce simp: chat_inv_def room_ok_def ch_attach_def)

lemma room_ok_append: "room_ok s dev r \<Longrightarrow> room_ok s dev (appendMessage m r)"
  by (auto simp: room_ok_def appendMessage_def Let_def HISTORY_LIMIT_def)

lemma chat_inv_append: "chat_inv s \<Longrightarrow> rooms s dev = Some r \<Longrightarrow> chat_inv (put_room dev (appendMessage m r) s)"
  by (rule chat_inv_put) (auto simp: chat_inv_def intro: room_ok_append)

lemma chat_inv_agent_connects:
  assumes "chat_inv s" "ch_attached s w = None"
  shows "chat_inv (chat_agent_connects w dev s)"
proof -
  obtain r s1 where g: "getRoom dev (ch_attach w (ChatAgent dev) s) = (r, s1)" by fastforce
  note gs = chat_inv_getRoom [OF chat_inv_attach [OF assms] g]
  let ?s2 = "case room_agent r of None \<Rightarrow> s1 | Some a \<Rightarrow> ch_close a s1"
  have f: "rooms ?s2 = rooms s1" "panelOperators ?s2 = panelOperators s1" "ch_attached ?s2 = ch_attached s1"
    by (simp_all add: ch_close_def split: option.splits)
  have "room_ok ?s2 dev (r\<lparr>room_agent := Some w\<rparr>)" using gs(2,4) f(3) by (simp add: room_ok_def ch_attach_def)
  then have "chat_inv (put_room dev (r\<lparr>room_agent := Some w\<rparr>) ?s2)" using gs(1) chat_inv_cong [OF f] by (intro chat_inv_put) simp_all
  then show ?thesis
    unfolding chat_agent_connects_def g Let_def prod.case by (rule chat_inv_cong [THEN iffD2, rotated 3]) simp_all
qed

lemma chat_inv_operator_connects:
  assumes "chat_inv s" "ch_attached s w = None"
  shows "chat_inv (handleOperatorConnection w dev name s)"
proof -
  obtain r s1 where g: "getRoom dev (ch_attach w (ChatOperator dev name) s) = (r, s1)" by fastforce
  note gs = chat_inv_getRoom [OF chat_inv_attach [OF assms] g]
  have at: "ch_attached s1 w = Some (ChatOperator dev name)" using gs(4) by (simp add: ch_attach_def)
  have fresh: "w \<notin> set (operatorWss r)" "w \<notin> set (panelOperators s1)"
  proof -
    have "chat_inv s" by (rule assms(1))
    moreover have "rooms s dev = Some r \<or> operatorWss r = []" using g by (auto simp: getRoom_def ch_attach_def new_room_def split: option.splits)
    ultimately show "w \<notin> set (operatorWss r)" using assms(2) by (fastforce simp: chat_inv_def room_ok_def)
    show "w \<notin> set (panelOperators s1)" using assms gs(5) by (auto simp: chat_inv_def ch_attach_def)
  qed
  let ?r1 = "r\<lparr>operatorWss := operatorWss r @ [w]\<rparr>"
  let ?s3 = "if dev = ''panel'' then (put_room dev ?r1 s1)\<lparr>panelOperators := panelOperators s1 @ [w]\<rparr> else put_room dev ?r1 s1"
  have "room_ok s1 dev ?r1" using gs(2) at fresh(1) by (auto simp: room_ok_def)
  then have p: "chat_inv (put_room dev ?r1 s1)" using gs(1) chat_inv_put by blast
  have "chat_inv ?s3"
    using p fresh(2) at by (auto simp: chat_inv_def room_ok_def)
  then show ?thesis
    unfolding handleOperatorConnection_def g Let_def prod.case
    by (rule chat_inv_cong [THEN iffD2, rotated 3]) simp_all
qed


lemma chat_inv_agent_frame:
  assumes "chat_inv s" "chat_agent_frame now w dev f s = Some s'"
  shows "chat_inv s'"
proof -
  obtain r s1 where g: "getRoom dev s = (r, s1)" by fastforce
  note gs = chat_inv_getRoom [OF assms(1) g]
  show ?thesis
  proof (cases "field f ''type'' = Some (JStr ''message'')")
    case True
    then obtain body where "s' = persistMessage (agent_message now dev body f)
        (broadcast_both (appendMessage (agent_message now dev body f) r) (agent_message now dev body f) (Some w)
          (put_room dev (appendMessage (agent_message now dev body f) r) s1))"
      using assms(2) g by (auto simp: chat_agent_frame_def Let_def)
    moreover have "chat_inv (put_room dev (appendMessage (agent_message now dev body f) r) s1)"
      using gs(1,3) by (rule chat_inv_append)
    ultimately show ?thesis by simp
  next
    case False
    then have "rooms s' = rooms s1 \<and> panelOperators s' = panelOperators s1 \<and> ch_attached s' = ch_attached s1"
      using assms(2) g by (simp add: chat_agent_frame_def Let_def split: if_splits) auto
    then show ?thesis using gs(1) chat_inv_cong by metis
  qed
qed

lemma chat_inv_operator_frame:
  assumes "chat_inv s" "operator_frame now w dev name f s = Some s'"
  shows "chat_inv s'"
proof -
  obtain r s1 where g: "getRoom dev s = (r, s1)" by fastforce
  note gs = chat_inv_getRoom [OF assms(1) g]
  let ?conv = "jor (field f ''conversation_id'') (JStr dev)"
  let ?target = "append_room ?conv dev s1"
  show ?thesis
  proof (cases "field f ''type'' = Some (JStr ''message'')")
    case True
    then obtain body where e: "s' = persistMessage (operator_message now name ?conv body) (sendTo (operator_message now name ?conv body) w
        (deliver w dev ?conv (operator_message now name ?conv body)
          (case rooms s1 ?target of None \<Rightarrow> s1 | Some r \<Rightarrow> put_room ?target (appendMessage (operator_message now name ?conv body) r) s1)))"
      using assms(2) g by (auto simp: operator_frame_def Let_def)
    have "chat_inv (case rooms s1 ?target of None \<Rightarrow> s1 | Some r \<Rightarrow> put_room ?target (appendMessage (operator_message now name ?conv body) r) s1)"
      using gs(1) by (auto split: option.split intro: chat_inv_append)
    with e show ?thesis by simp
  next
    case False
    then have "rooms s' = rooms s1 \<and> panelOperators s' = panelOperators s1 \<and> ch_attached s' = ch_attached s1"
      using assms(2) g by (simp add: operator_frame_def Let_def split: if_splits option.splits) auto
    then show ?thesis using gs(1) chat_inv_cong by metis
  qed
qed

lemma chat_inv_frame: "chat_inv s \<Longrightarrow> chat_frame now w role f s = Some s' \<Longrightarrow> chat_inv s'"
  by (cases role) (auto simp: chat_frame_def split: if_splits intro: chat_inv_agent_frame chat_inv_operator_frame)

lemma chat_inv_agent_closes: "chat_inv s \<Longrightarrow> chat_inv (chat_agent_closes w dev s)"
  by (auto simp: chat_agent_closes_def Let_def chat_inv_def room_ok_def split: option.split)

lemma chat_inv_operator_closes: "chat_inv s \<Longrightarrow> chat_inv (operator_closes w dev s)"
  by (auto simp: operator_closes_def Let_def chat_inv_def room_ok_def split: option.split)

lemma chat_inv_step: "chat_inv s \<Longrightarrow> chat_step ev s = Some s' \<Longrightarrow> chat_inv s'"
proof (cases ev)
  case (AgentJoins w dev)
  assume "chat_inv s" "chat_step ev s = Some s'"
  then show ?thesis using AgentJoins chat_inv_agent_connects by (auto split: if_splits)
next
  case (OperatorJoins w dev name)
  assume "chat_inv s" "chat_step ev s = Some s'"
  then show ?thesis using OperatorJoins chat_inv_operator_connects by (auto split: if_splits)
next
  case (ChatMessage now w b len frame)
  assume "chat_inv s" "chat_step ev s = Some s'"
  then show ?thesis using ChatMessage by (auto split: if_splits option.splits intro: chat_inv_frame)
next
  case (LoadReturns now i d)
  assume "chat_inv s" "chat_step ev s = Some s'"
  then show ?thesis using LoadReturns by (auto split: if_splits)
next
  case (ChatCloses w)
  assume "chat_inv s" "chat_step ev s = Some s'"
  then show ?thesis using ChatCloses
    by (auto simp: Let_def split: if_splits option.splits chat_role.splits intro: chat_inv_agent_closes chat_inv_operator_closes)
qed

interpretation chat_sys: event_invariant chat_step "empty_chat api" chat_inv
proof
  show "chat_inv (empty_chat api)" by (simp add: chat_inv_def empty_chat_def)
  show "chat_inv s \<Longrightarrow> chat_step ev s = Some s' \<Longrightarrow> chat_inv s'" for s ev s' by (rule chat_inv_step)
qed

section \<open>Broadcasts\<close>

lemma fold_send_outbox:
  "distinct ws \<Longrightarrow> ch_outbox (fold (send_except ex m) ws s) v
     = ch_outbox s v @ (if v \<in> set ws \<and> Some v \<noteq> ex \<and> ch_state s v = WsOpen then [m] else [])"
proof (induction ws arbitrary: s)
  case (Cons u ws)
  have "ch_outbox (send_except ex m u s) v
      = ch_outbox s v @ (if v = u \<and> Some v \<noteq> ex \<and> ch_state s v = WsOpen then [m] else [])"
    by (simp add: send_except_def sendTo_def)
  with Cons show ?case by simp
qed simp

lemma chat_broadcast_outbox:
  assumes "distinct (operatorWss r)" "\<And>a. room_agent r = Some a \<Longrightarrow> a \<notin> set (operatorWss r)"
  shows "ch_outbox (chat_broadcast r m ex s) v = ch_outbox s v
     @ (if (v \<in> set (operatorWss r) \<or> room_agent r = Some v) \<and> Some v \<noteq> ex \<and> ch_state s v = WsOpen then [m] else [])"
proof (cases "room_agent r")
  case None
  then show ?thesis using assms(1) by (simp add: chat_broadcast_def fold_send_outbox)
next
  case (Some a)
  have "chat_broadcast r m ex s = fold (send_except ex m) (a # operatorWss r) s" using Some by (simp add: chat_broadcast_def)
  moreover have "distinct (a # operatorWss r)" using assms Some by simp
  ultimately show ?thesis using Some by (simp only: fold_send_outbox) auto
qed

lemma broadcast_both_outbox:
  assumes "distinct (operatorWss r)" "distinct (panelOperators s)"
    and "\<And>a. room_agent r = Some a \<Longrightarrow> a \<notin> set (operatorWss r) \<and> a \<notin> set (panelOperators s)"
  shows "ch_outbox (broadcast_both r m ex s) v = ch_outbox s v
     @ (if (v \<in> set (operatorWss r) \<or> v \<in> set (panelOperators s) \<or> room_agent r = Some v) \<and> Some v \<noteq> ex \<and> ch_state s v = WsOpen
        then [m] else [])"
  using assms by (auto simp: broadcast_both_def broadcastToPanelOperators_def fold_send_outbox chat_broadcast_outbox)

text \<open>In a state that satisfies the invariant the agent of a room is none of the operators.\<close>

lemma chat_inv_room:
  assumes "chat_inv s" "rooms s dev = Some r"
  shows "distinct (operatorWss r)" "distinct (panelOperators s)"
    "room_agent r = Some a \<Longrightarrow> a \<notin> set (operatorWss r) \<and> a \<notin> set (panelOperators s)"
  using assms by (fastforce simp: chat_inv_def room_ok_def)+

lemma appendMessage_fields [simp]: "operatorWss (appendMessage m r) = operatorWss r" "room_agent (appendMessage m r) = room_agent r"
  by (simp_all add: appendMessage_def Let_def)

lemma appendMessage_last: "last (messages (appendMessage m r)) = m"
  by (simp add: appendMessage_def Let_def HISTORY_LIMIT_def)

lemma agent_message_step:
  assumes "field f ''type'' = Some (JStr ''message'')" "chat_text f = Some body" "rooms s dev = Some r"
  shows "chat_agent_frame now w dev f s = Some (
    let m = agent_message now dev body f; r1 = appendMessage m r in persistMessage m (broadcast_both r1 m (Some w) (put_room dev r1 s)))"
  using assms by (simp add: chat_agent_frame_def getRoom_def Let_def)

lemma chat_frame_step:
  assumes "ch_attached s w = Some role" "ch_state s w \<noteq> WsClosed" "len \<le> MAX_TEXT_BYTES"
  shows "chat_step (ChatMessage now w False len (Some f)) s = chat_frame now w role f s"
  using assms by simp

section \<open>Properties\<close>

text \<open>C18: The rooms of the chat.  Whatever connects, sends and leaves, a room keeps at most 500 messages, its
  operators are sockets that connected as operators of its device and its agent one that connected as
  its agent, and the panel operators connected as operators of the panel; a socket of a room is
  therefore never also a panel operator, unless the room is the panel's own.\<close>

theorem chat_rooms_invariant:
  assumes "chat_reachable api s" "rooms s dev = Some r"
  shows "length (messages r) \<le> 500
     \<and> (\<forall>v \<in> set (operatorWss r). \<exists>n. ch_attached s v = Some (ChatOperator dev n))
     \<and> (\<forall>a. room_agent r = Some a \<longrightarrow> ch_attached s a = Some (ChatAgent dev))
     \<and> (dev \<noteq> ''panel'' \<longrightarrow> set (operatorWss r) \<inter> set (panelOperators s) = {})"
proof -
  have inv: "chat_inv s" using assms(1) by (rule chat_sys.inv_reachable)
  then have r: "room_ok s dev r" using assms(2) by (simp add: chat_inv_def)
  have "set (operatorWss r) \<inter> set (panelOperators s) = {}" if "dev \<noteq> ''panel''"
    using inv r that by (fastforce simp: chat_inv_def room_ok_def)
  with r show ?thesis by (simp add: room_ok_def HISTORY_LIMIT_def)
qed

lemmas chat_start = reachable.start [where step = chat_step and init = "empty_chat api" for api]
lemmas chat_next = reachable.next_step [where step = chat_step and init = "empty_chat api" for api]

text \<open>An agent and an operator of a device and an operator of the panel.\<close>

definition demo_chat :: chat where
  "demo_chat = the (run_events chat_step [AgentJoins 1 ''d'', OperatorJoins 2 ''d'' ''ann'', OperatorJoins 3 ''panel'' ''bob''] (empty_chat True))"

lemma demo_chat_reachable: "chat_reachable True demo_chat"
proof (rule run_reachable [OF chat_start])
  show "run_events chat_step [AgentJoins 1 ''d'', OperatorJoins 2 ''d'' ''ann'', OperatorJoins 3 ''panel'' ''bob''] (empty_chat True) = Some demo_chat"
    by (simp add: demo_chat_def)
qed

definition demo_message :: json where
  "demo_message = JObj [(''type'', JStr ''message''), (''text'', JStr ''hi'')]"

lemma demo_chat_state:
  "map_option operatorWss (rooms demo_chat ''d'') = Some [2]" "map_option room_agent (rooms demo_chat ''d'') = Some (Some 1)"
  "ch_attached demo_chat 1 = Some (ChatAgent ''d'')" "ch_state demo_chat 1 = WsOpen" "ch_state demo_chat 2 = WsOpen"
  "ch_state demo_chat 3 = WsOpen" "panelOperators demo_chat = [3]" "has_api demo_chat"
  by code_simp+

theorem chat_rooms_invariant_witness:
  "chat_reachable True demo_chat \<and> (\<exists>r. rooms demo_chat ''d'' = Some r \<and> length (messages r) \<le> 500 \<and> 3 \<notin> set (operatorWss r))"
proof -
  obtain r where r: "rooms demo_chat ''d'' = Some r" using demo_chat_state(1) by blast
  show ?thesis using chat_rooms_invariant [OF demo_chat_reachable r] demo_chat_reachable demo_chat_state(7) r by auto
qed

text \<open>C19: To whom a message of an agent goes. An agent that is attached to its device's room sends a frame of
  type \<open>message\<close> that carries a text and is not longer than \<open>MAX_TEXT_BYTES\<close>. Then the
  message, stamped with time and device, is sent once to every open socket other than the sender's that is an
  operator of the room, a panel operator, or the agent that has meanwhile taken the sender's place in the room, also
  when a socket is several of these, and nothing is sent to any other socket. It is the last of the room's messages,
  and it is posted to the Go server once when that is configured.\<close>

theorem chat_agent_message_delivered_once:
  assumes "chat_reachable api s" "rooms s dev = Some r" "ch_attached s w = Some (ChatAgent dev)" "ch_state s w \<noteq> WsClosed"
    and "len \<le> MAX_TEXT_BYTES" "field f ''type'' = Some (JStr ''message'')" "chat_text f = Some body"
  shows "\<exists>s' m r'. chat_step (ChatMessage now w False len (Some f)) s = Some s' \<and> m = agent_message now dev body f
     \<and> rooms s' dev = Some r' \<and> last (messages r') = m
     \<and> (\<forall>v. ch_outbox s' v = ch_outbox s v
          @ (if v \<noteq> w \<and> ch_state s v = WsOpen \<and> (v \<in> set (operatorWss r) \<or> v \<in> set (panelOperators s) \<or> room_agent r = Some v)
             then [m] else []))
     \<and> map fst (ch_posts s') = map fst (ch_posts s) @ (if has_api s then [''/chat/messages''] else [])"
proof -
  let ?m = "agent_message now dev body f"
  let ?r1 = "appendMessage ?m r"
  have inv: "chat_inv s" using assms(1) by (rule chat_sys.inv_reachable)
  note d = chat_inv_room [OF inv assms(2)]
  have "f \<noteq> JNull" using assms(6) by (auto simp: field_def)
  then have step: "chat_step (ChatMessage now w False len (Some f)) s
      = Some (persistMessage ?m (broadcast_both ?r1 ?m (Some w) (put_room dev ?r1 s)))"
    using chat_frame_step [OF assms(3-5)] agent_message_step [OF assms(6,7,2)] by (simp add: chat_frame_def Let_def)
  have out: "ch_outbox (broadcast_both ?r1 ?m (Some w) (put_room dev ?r1 s)) v = ch_outbox s v
      @ (if v \<noteq> w \<and> ch_state s v = WsOpen \<and> (v \<in> set (operatorWss r) \<or> v \<in> set (panelOperators s) \<or> room_agent r = Some v)
         then [?m] else [])" for v
    using d by (subst broadcast_both_outbox) auto
  have posts: "ch_posts (broadcast_both ?r1 ?m (Some w) (put_room dev ?r1 s)) = ch_posts s"
     "has_api (broadcast_both ?r1 ?m (Some w) (put_room dev ?r1 s)) = has_api s" by simp_all
  show ?thesis
    by (intro exI [of _ "persistMessage ?m (broadcast_both ?r1 ?m (Some w) (put_room dev ?r1 s))"] exI [of _ ?m] exI [of _ ?r1])
      (use step out posts in \<open>simp add: appendMessage_last persistMessage_def api_post_def\<close>)
qed

theorem chat_agent_message_delivered_once_witness:
  "\<exists>s'. chat_step (ChatMessage 7 1 False 40 (Some demo_message)) demo_chat = Some s'
     \<and> length (ch_outbox s' 2) = Suc (length (ch_outbox demo_chat 2)) \<and> length (ch_outbox s' 3) = Suc (length (ch_outbox demo_chat 3))
     \<and> ch_outbox s' 1 = ch_outbox demo_chat 1"
proof -
  obtain r where r: "rooms demo_chat ''d'' = Some r" "operatorWss r = [2]" using demo_chat_state(1) by auto
  have f: "field demo_message ''type'' = Some (JStr ''message'')" "chat_text demo_message = Some (JStr ''hi'')"
    "(40::nat) \<le> MAX_TEXT_BYTES" by code_simp+
  have "ch_state demo_chat 1 \<noteq> WsClosed" using demo_chat_state(4) by simp
  then show ?thesis
    using chat_agent_message_delivered_once [OF demo_chat_reachable r(1) demo_chat_state(3) _ f(3,1,2)] demo_chat_state r(2) by fastforce
qed

text \<open>A device reads every conversation.  The server checks the token of an agent against its own
  device, but loads any conversation that the agent names: whatever device the agent stands for, the
  stored messages of the conversation it asks for are sent to it.\<close>

theorem chat_agent_reads_any_history:
  assumes "ch_attached s w = Some (ChatAgent dev)" "ch_state s w = WsOpen" "has_api s" "c \<noteq> []"
    and "len \<le> MAX_TEXT_BYTES" "field f ''type'' = Some (JStr ''get_history'')" "field f ''conversation_id'' = Some (JStr c)"
  shows "\<exists>s1 s2. chat_step (ChatMessage now w False len (Some f)) s = Some s1
     \<and> ch_gets s1 = ch_gets s @ [(''/chat/history/'', c)]
     \<and> chat_step (LoadReturns now' (length (ch_pending s)) (Some (JObj [(''messages'', JArr ms)]))) s1 = Some s2
     \<and> ch_outbox s2 w = ch_outbox s w @ [history_msg (Some (JStr c)) ms]"
proof -
  obtain r s0 where g: "getRoom dev s = (r, s0)" by fastforce
  then have s0: "ch_gets s0 = ch_gets s" "ch_pending s0 = ch_pending s" "has_api s0" "ch_state s0 w = WsOpen" "ch_outbox s0 = ch_outbox s"
    using assms(2,3) by (auto simp: getRoom_def split: option.splits)
  define s1 where "s1 = loadHistory (Some (JStr c)) (History w (Some (JStr c))) s0"
  have "f \<noteq> JNull" using assms(6) by (auto simp: field_def)
  then have "chat_step (ChatMessage now w False len (Some f)) s = Some s1"
    using chat_frame_step [OF assms(1) _ assms(5)] assms(2,4,6,7) g
    by (simp add: chat_frame_def chat_agent_frame_def jor_def or_else_def truthy_def s1_def Let_def)
  moreover have p: "ch_pending s1 = ch_pending s @ [History w (Some (JStr c))]" "ch_gets s1 = ch_gets s @ [(''/chat/history/'', c)]"
    "has_api s1" "ch_state s1 w = WsOpen" "ch_outbox s1 = ch_outbox s"
    using s0 by (simp_all add: s1_def await_load_def api_get_def)
  moreover have "\<exists>s2. chat_step (LoadReturns now' (length (ch_pending s)) (Some (JObj [(''messages'', JArr ms)]))) s1 = Some s2
     \<and> ch_outbox s2 w = ch_outbox s w @ [history_msg (Some (JStr c)) ms]"
    using p by (simp add: nth_append array_field_def field_def sendTo_def)
  ultimately show ?thesis by blast
qed

theorem chat_agent_reads_any_history_witness:
  "\<exists>s1 s2. chat_step (ChatMessage 7 1 False 60 (Some (JObj [(''type'', JStr ''get_history''), (''conversation_id'', JStr ''other'')]))) demo_chat = Some s1
     \<and> ch_gets s1 = ch_gets demo_chat @ [(''/chat/history/'', ''other'')]
     \<and> chat_step (LoadReturns 8 (length (ch_pending demo_chat)) (Some (JObj [(''messages'', JArr [JStr ''secret''])]))) s1 = Some s2
     \<and> ch_outbox s2 1 = ch_outbox demo_chat 1 @ [history_msg (Some (JStr ''other'')) [JStr ''secret'']]"
proof (rule chat_agent_reads_any_history [OF demo_chat_state(3,4,8)])
  show "60 \<le> MAX_TEXT_BYTES" by code_simp
  show "''other'' \<noteq> []" by simp
qed (simp_all add: field_def)

text \<open>What stops the process.  An exception leaves a handler of the chat exactly when a connected socket
  sends a text frame of at most 8192 bytes that is \<open>null\<close>, that is a message whose text is an object with
  a property \<open>toString\<close>, or, from an operator with the Go server configured, the creation of a group
  under such a name.\<close>

theorem chat_step_throws_iff:
  "chat_step ev s = None \<longleftrightarrow>
     (\<exists>now w len f role. ev = ChatMessage now w False len (Some f) \<and> ch_attached s w = Some role \<and> ch_state s w \<noteq> WsClosed
        \<and> len \<le> MAX_TEXT_BYTES
        \<and> (f = JNull
           \<or> field f ''type'' = Some (JStr ''message'') \<and> text_or_empty (field f ''text'') = None
           \<or> (\<exists>dev name v. role = ChatOperator dev name \<and> field f ''type'' = Some (JStr ''create_group'') \<and> has_api s
                \<and> field f ''name'' = Some v \<and> truthy (Some v) \<and> is_array (field f ''member_ids'') \<and> js_string v = None)))"
proof -
  have a: "chat_agent_frame now w dev f s = None \<longleftrightarrow> field f ''type'' = Some (JStr ''message'') \<and> text_or_empty (field f ''text'') = None"
    for now w dev f
    by (cases "getRoom dev s") (simp add: chat_agent_frame_def Let_def chat_text_def)
  have api: "has_api (snd (getRoom dev s)) = has_api s" for dev by (simp add: getRoom_def split: option.splits)
  have o: "operator_frame now w dev name f s = None \<longleftrightarrow> field f ''type'' = Some (JStr ''message'') \<and> text_or_empty (field f ''text'') = None
      \<or> (\<exists>v. field f ''type'' = Some (JStr ''create_group'') \<and> has_api s
           \<and> field f ''name'' = Some v \<and> truthy (Some v) \<and> is_array (field f ''member_ids'') \<and> js_string v = None)"
    for now w dev name f
    by (auto simp: operator_frame_def Let_def chat_text_def api split: option.splits)
  have c: "chat_frame now w role f s = None \<longleftrightarrow> f = JNull
      \<or> field f ''type'' = Some (JStr ''message'') \<and> text_or_empty (field f ''text'') = None
      \<or> (\<exists>dev name v. role = ChatOperator dev name \<and> field f ''type'' = Some (JStr ''create_group'') \<and> has_api s
           \<and> field f ''name'' = Some v \<and> truthy (Some v) \<and> is_array (field f ''member_ids'') \<and> js_string v = None)"
    for now w role f
    by (cases role) (auto simp: chat_frame_def a o)
  show ?thesis
  proof (cases ev)
    case (ChatMessage now w b len frame)
    then show ?thesis by (cases frame; cases "ch_attached s w") (auto simp: c not_less)
  qed simp_all
qed

end
