(* ===== verification/Rd_Frames.thy ===== *)
theory Rd_Frames
  imports Relay_Frames
begin

text \<open>
  The framing of the web remote client, \<open>_encodeFrame\<close>, \<open>_decodeFrame\<close> and \<open>createStreamDecoder\<close> of
  \<open>src/web-nodejs/public/js/rdclient/protocol.js\<close>.  The browser and the proxy of
  \<open>src/web-nodejs/services/wsRelay.js\<close> implement the same format independently, with different limits and
  different buffers; this theory relates the two.

  \<open>cut_frames\<close> is the specification: it takes the complete frames off a byte list.  The locale states what a
  decoder of chunks has to satisfy for its results to depend on the concatenated stream only, and is
  interpreted on the decoder of the browser.
\<close>

section \<open>One frame\<close>

text \<open>\<open>None\<close> is the exception "Frame too large".\<close>

definition encodeFrame :: "byte list \<Rightarrow> byte list option" where
  "encodeFrame buf =
     (let len = length buf; n = (of_nat len :: 32 word) in
      if len \<le> 0x3F then Some (le_bytes 1 (push_bit 2 n) @ buf)
      else if len \<le> 0x3FFF then Some (le_bytes 2 (push_bit 2 n OR 1) @ buf)
      else if len \<le> 0x3FFFFF then Some (le_bytes 3 (push_bit 2 n OR 2) @ buf)
      else if len \<le> 0x3FFFFFFF then Some (le_bytes 4 (push_bit 2 n OR 3) @ buf)
      else None)"

text \<open>The header as a 32-bit number, put together with shifts and the bitwise or.\<close>

definition header_word :: "byte list \<Rightarrow> nat \<Rightarrow> nat \<Rightarrow> 32 word" where
  "header_word bytes offset headLen =
     (let n0 = ucast (bytes ! offset);
          n1 = (if headLen > 1 then n0 OR push_bit 8 (ucast (bytes ! (offset + 1))) else n0);
          n2 = (if headLen > 2 then n1 OR push_bit 16 (ucast (bytes ! (offset + 2))) else n1)
      in if headLen > 3 then n2 OR push_bit 24 (ucast (bytes ! (offset + 3))) else n2)"

definition decodeFrame :: "byte list \<Rightarrow> nat \<Rightarrow> (byte list \<times> nat) option" where
  "decodeFrame bytes offset =
     (if offset \<ge> length bytes then None
      else let headLen = header_len (bytes ! offset) in
        if offset + headLen > length bytes then None
        else let n = unat (drop_bit 2 (header_word bytes offset headLen)) in
          if offset + headLen + n > length bytes then None
          else Some (take n (drop (offset + headLen) bytes), headLen + n))"

lemma decodeFrame_consumed: "decodeFrame bytes offset = Some (d, c) \<Longrightarrow> 0 < c \<and> offset + c \<le> length bytes"
  by (auto simp: decodeFrame_def Let_def split: if_splits)


section \<open>The stream decoder\<close>

record stream_decoder =
  sd_buffer :: "byte list"
  sd_len :: nat

definition createStreamDecoder :: stream_decoder where
  "createStreamDecoder = \<lparr>sd_buffer = [], sd_len = 0\<rparr>"

definition sd_reset :: "stream_decoder \<Rightarrow> stream_decoder" where
  "sd_reset d = \<lparr>sd_buffer = [], sd_len = 0\<rparr>"

text \<open>The loop over the valid part of the buffer.\<close>

function sd_scan :: "byte list \<Rightarrow> nat \<Rightarrow> byte list list \<times> nat" where
  "sd_scan view offset =
     (if offset < length view then
        (case decodeFrame view offset of
           None \<Rightarrow> ([], offset)
         | Some (data, consumed) \<Rightarrow> (let (fs, o') = sd_scan view (offset + consumed) in (data # fs, o')))
      else ([], offset))"
  by pat_completeness auto
termination
  by (relation "measure (\<lambda>(view, offset). length view - offset)") (auto dest: decodeFrame_consumed)

declare sd_scan.simps [simp del]

definition sd_feed :: "byte list \<Rightarrow> stream_decoder \<Rightarrow> byte list list \<times> stream_decoder" where
  "sd_feed incoming d =
     (let needed = sd_len d + length incoming;
          b1 = (if needed > length (sd_buffer d)
                then copy_at (replicate (max needed (max (length (sd_buffer d) * 2) 4096)) 0) 0
                       (take (sd_len d) (sd_buffer d))
                else sd_buffer d);
          b2 = copy_at b1 (sd_len d) incoming;
          (frames, offset) = sd_scan (take needed b2) 0;
          remaining = needed - offset;
          b3 = (if offset > 0 \<and> remaining > 0 then copy_at b2 0 (take remaining (drop offset b2)) else b2);
          len3 = (if offset > 0 then remaining else needed)
      in (frames, \<lparr>sd_buffer = (if len3 = 0 \<and> length b3 > 65536 then [] else b3), sd_len = len3\<rparr>))"

definition sd_ok :: "stream_decoder \<Rightarrow> bool" where
  "sd_ok d = (sd_len d \<le> length (sd_buffer d))"

definition sd_pending :: "stream_decoder \<Rightarrow> byte list" where
  "sd_pending d = take (sd_len d) (sd_buffer d)"


section \<open>The specification\<close>

function cut_frames :: "byte list \<Rightarrow> byte list list \<times> byte list" where
  "cut_frames bs =
     (case decodeFrame bs 0 of
        None \<Rightarrow> ([], bs)
      | Some (data, consumed) \<Rightarrow> (let (fs, r) = cut_frames (drop consumed bs) in (data # fs, r)))"
  by pat_completeness auto
termination
  by (relation "measure length") (auto dest: decodeFrame_consumed)

declare cut_frames.simps [simp del]

lemma cut_frames_None: "decodeFrame bs 0 = None \<Longrightarrow> cut_frames bs = ([], bs)"
  by (simp add: cut_frames.simps [of bs])

lemma cut_frames_Some: "decodeFrame bs 0 = Some (d, c) \<Longrightarrow> cut_frames bs = (d # fst (cut_frames (drop c bs)), snd (cut_frames (drop c bs)))"
  by (simp add: cut_frames.simps [of bs] case_prod_unfold Let_def)

lemma header_word_drop:
  "off + h \<le> length bs \<Longrightarrow> 0 < h \<Longrightarrow> header_word bs off h = header_word (drop off bs) 0 h"
  by (auto simp: header_word_def Let_def)

lemma decodeFrame_drop: "decodeFrame bs off = decodeFrame (drop off bs) 0"
proof (cases "off < length bs \<and> off + header_len (bs ! off) \<le> length bs")
  case True
  then have "header_word bs off (header_len (bs ! off)) = header_word (drop off bs) 0 (header_len (bs ! off))"
    by (intro header_word_drop) simp_all
  with True show ?thesis by (simp add: decodeFrame_def Let_def) (auto simp: add.commute add.left_commute)
qed (auto simp: decodeFrame_def Let_def)

lemma header_word_append:
  "h \<le> length a \<Longrightarrow> 0 < h \<Longrightarrow> header_word (a @ b) 0 h = header_word a 0 h"
  by (auto simp: header_word_def Let_def nth_append)

lemma decodeFrame_append: "decodeFrame a 0 = Some (d, c) \<Longrightarrow> decodeFrame (a @ b) 0 = Some (d, c)"
proof -
  assume a: "decodeFrame a 0 = Some (d, c)"
  let ?h = "header_len (a ! 0)"
  have l: "0 < length a" "?h \<le> length a" using a by (auto simp: decodeFrame_def Let_def split: if_splits)
  then have "(a @ b) ! 0 = a ! 0" "header_word (a @ b) 0 ?h = header_word a 0 ?h"
    by (simp_all add: nth_append header_word_append)
  with a l show ?thesis by (auto simp: decodeFrame_def Let_def split: if_splits)
qed

lemma cut_frames_append: "cut_frames (a @ b) = (fst (cut_frames a) @ fst (cut_frames (snd (cut_frames a) @ b)), snd (cut_frames (snd (cut_frames a) @ b)))"
proof (induction a rule: cut_frames.induct)
  case (1 a)
  show ?case
  proof (cases "decodeFrame a 0")
    case None
    then show ?thesis by (simp add: cut_frames_None)
  next
    case (Some x)
    obtain d c where x: "x = (d, c)" by fastforce
    note s = Some [unfolded x]
    have "drop c (a @ b) = drop c a @ b" using decodeFrame_consumed [OF s] by simp
    then show ?thesis using 1 [OF Some x [symmetric]] cut_frames_Some [OF s] cut_frames_Some [OF decodeFrame_append [OF s, of b]] by simp
  qed
qed

lemma sd_scan_cut:
  "off \<le> length bs \<Longrightarrow> sd_scan bs off = (fst (cut_frames (drop off bs)), length bs - length (snd (cut_frames (drop off bs))))"
proof (induction bs off rule: sd_scan.induct)
  case (1 bs off)
  show ?case
  proof (cases "off < length bs")
    case True
    show ?thesis
    proof (cases "decodeFrame bs off")
      case None
      then show ?thesis using True cut_frames_None [of "drop off bs"] decodeFrame_drop [of bs off]
        by (simp add: sd_scan.simps [of bs off])
    next
      case (Some x)
      obtain d c where x: "x = (d, c)" by fastforce
      have s: "decodeFrame (drop off bs) 0 = Some (d, c)" using Some x decodeFrame_drop [of bs off] by simp
      have IH: "sd_scan bs (off + c) = (fst (cut_frames (drop (off + c) bs)), length bs - length (snd (cut_frames (drop (off + c) bs))))"
        using 1(1) [OF True Some x [symmetric]] decodeFrame_consumed [OF Some [unfolded x]] by simp
      have dr: "drop c (drop off bs) = drop (off + c) bs" by (simp add: add.commute)
      have st: "sd_scan bs off = (let (fs, o') = sd_scan bs (off + c) in (d # fs, o'))"
        using True Some x by (simp add: sd_scan.simps [of bs off])
      show ?thesis unfolding st IH cut_frames_Some [OF s] dr by simp
    qed
  next
    case False
    with 1(2) have "off = length bs" by simp
    then show ?thesis by (simp add: sd_scan.simps [of bs "length bs"] cut_frames_None decodeFrame_def)
  qed
qed

lemma cut_frames_suffix: "suffix (snd (cut_frames bs)) bs"
proof (induction bs rule: cut_frames.induct)
  case (1 bs)
  show ?case
  proof (cases "decodeFrame bs 0")
    case (Some x)
    obtain d c where x: "x = (d, c)" by fastforce
    have "suffix (snd (cut_frames (drop c bs))) bs" using 1 [OF Some x [symmetric]] suffix_drop suffix_order.trans by blast
    then show ?thesis using cut_frames_Some [OF Some [unfolded x]] by simp
  qed (simp add: cut_frames_None)
qed


section \<open>Decoders of chunks\<close>

primrec feed_chunks :: "('b list \<Rightarrow> 'd \<Rightarrow> 'b list list \<times> 'd) \<Rightarrow> 'b list list \<Rightarrow> 'd \<Rightarrow> 'b list list \<times> 'd" where
  "feed_chunks step [] d = ([], d)"
| "feed_chunks step (c # cs) d = (let (fs, d') = step c d; (gs, d'') = feed_chunks step cs d' in (fs @ gs, d''))"

locale chunk_decoder =
  fixes step :: "'b list \<Rightarrow> 'd \<Rightarrow> 'b list list \<times> 'd"
    and ok :: "'d \<Rightarrow> bool" and pending :: "'d \<Rightarrow> 'b list" and split :: "'b list \<Rightarrow> 'b list list \<times> 'b list"
  assumes step_ok: "ok d \<Longrightarrow> ok (snd (step c d))"
    and step_split: "ok d \<Longrightarrow> split (pending d @ c) = (fst (step c d), pending (snd (step c d)))"
    and split_append: "split (a @ b) = (fst (split a) @ fst (split (snd (split a) @ b)), snd (split (snd (split a) @ b)))"
begin

text \<open>Only the concatenation of the chunks matters.\<close>

lemma chunks_split:
  "ok d \<Longrightarrow> split (pending d) = ([], pending d) \<Longrightarrow>
     ok (snd (feed_chunks step cs d)) \<and> split (pending d @ concat cs) = (fst (feed_chunks step cs d), pending (snd (feed_chunks step cs d)))"
proof (induction cs arbitrary: d)
  case (Cons c cs)
  let ?d = "snd (step c d)"
  note one = step_split [OF Cons(2), of c]
  have "split (pending ?d) = ([], pending ?d)"
    using split_append [of "pending d @ c" "[]"] one by (auto simp: prod_eq_iff)
  then have IH: "ok (snd (feed_chunks step cs ?d))" "split (pending ?d @ concat cs) = (fst (feed_chunks step cs ?d), pending (snd (feed_chunks step cs ?d)))"
    using Cons(1) step_ok [OF Cons(2)] by auto
  have "split (pending d @ concat (c # cs)) = (fst (step c d) @ fst (feed_chunks step cs ?d), pending (snd (feed_chunks step cs ?d)))"
    using split_append [of "pending d @ c" "concat cs"] one IH(2) by simp
  with IH(1) show ?case by (simp add: case_prod_unfold Let_def)
qed simp

end


lemma sd_feed_refines:
  assumes "sd_ok d"
  shows "sd_ok (snd (sd_feed c d))"
    and "cut_frames (sd_pending d @ c) = (fst (sd_feed c d), sd_pending (snd (sd_feed c d)))"
proof -
  define P where "P = sd_pending d @ c"
  define r where "r = snd (cut_frames P)"
  define needed where "needed = sd_len d + length c"
  define b1 where "b1 = (if needed > length (sd_buffer d)
      then copy_at (replicate (max needed (max (length (sd_buffer d) * 2) 4096)) 0) 0 (take (sd_len d) (sd_buffer d))
      else sd_buffer d)"
  define b2 where "b2 = copy_at b1 (sd_len d) c"
  have le: "sd_len d \<le> length (sd_buffer d)" using assms by (simp add: sd_ok_def)
  have P: "length P = needed" using le by (simp add: P_def sd_pending_def needed_def)
  have b1: "needed \<le> length b1" "take (sd_len d) b1 = sd_pending d"
    using le by (auto simp: b1_def copy_at_def sd_pending_def needed_def)
  have b2: "length b2 = length b1" "take needed b2 = P"
    using copy_at_props [of "sd_len d" c b1] b1 by (auto simp: b2_def needed_def P_def)
  have r: "suffix r P" "length r \<le> needed" using cut_frames_suffix [of P] P
    by (auto simp: r_def dest: suffix_length_le)
  then have tail: "drop (needed - length r) P = r" using P by (auto simp: suffix_def)
  have scan: "sd_scan P 0 = (fst (cut_frames P), needed - length r)" using sd_scan_cut [of 0 P] P by (simp add: r_def)
  have feed: "sd_feed c d = (fst (cut_frames P),
      let offset = needed - length r;
          b3 = (if offset > 0 \<and> length r > 0 then copy_at b2 0 (take (length r) (drop offset b2)) else b2);
          len3 = (if offset > 0 then length r else needed)
      in \<lparr>sd_buffer = (if len3 = 0 \<and> length b3 > 65536 then [] else b3), sd_len = len3\<rparr>)"
    using scan b2(2) r(2) by (simp add: sd_feed_def Let_def flip: needed_def b1_def b2_def)
  have mid: "take (length r) (drop (needed - length r) b2) = r"
    using tail b2(2) r(2) by (metis drop_take diff_diff_cancel)
  show "sd_ok (snd (sd_feed c d))" using b1(1) b2(1) r(2) unfolding feed
    by (auto simp: sd_ok_def Let_def copy_at_def)
  show "cut_frames (sd_pending d @ c) = (fst (sd_feed c d), sd_pending (snd (sd_feed c d)))"
  proof (cases "needed - length r > 0")
    case True
    then have "sd_pending (snd (sd_feed c d)) = r" using mid by (auto simp: feed Let_def sd_pending_def copy_at_def)
    then show ?thesis by (simp add: feed prod_eq_iff r_def flip: P_def)
  next
    case False
    then have "r = P" using tail by simp
    moreover have "sd_pending (snd (sd_feed c d)) = P" using False b2(2) P by (auto simp: feed Let_def sd_pending_def)
    ultimately show ?thesis by (simp add: feed prod_eq_iff r_def flip: P_def)
  qed
qed

interpretation browser: chunk_decoder sd_feed sd_ok sd_pending cut_frames
  by unfold_locales (simp_all only: sd_feed_refines, rule cut_frames_append)


section \<open>The browser and the proxy\<close>

lemma nat_or_shift: "x < 2 ^ k \<Longrightarrow> x OR push_bit k y = x + y * 2 ^ k" for x y :: nat
proof -
  assume "x < 2 ^ k"
  then have x: "take_bit k x = x" by (simp add: take_bit_nat_eq_self)
  have "x AND push_bit k y = 0"
    by (rule bit_eqI) (metis bit_and_iff bit_push_bit_iff_nat bit_take_bit_iff bot_nat_0.not_eq_extremum not_less x bit_0_eq bot_apply bot_bool_def)
  then show ?thesis using disjunctive_add_eq_or [of x "push_bit k y"] by (simp add: push_bit_eq_mult)
qed

lemma unat_or_byte:
  fixes w :: "32 word" and b :: byte
  assumes "unat w < 2 ^ k" "k + 8 \<le> 32"
  shows "unat (w OR push_bit k (ucast b)) = unat w + unat b * 2 ^ k"
proof -
  have "unat b < 2 ^ LENGTH(8)" by (rule unsigned_less)
  then have "unat b < 2 ^ 8" by simp
  then have "unat b * 2 ^ k < 2 ^ 8 * 2 ^ k" by (simp only: mult_less_cancel2) simp
  also have "\<dots> \<le> 2 ^ 32" using assms(2) by (metis add.commute power_add power_increasing one_le_numeral)
  finally have "take_bit 32 (push_bit k (unat b)) = push_bit k (unat b)"
    by (intro take_bit_nat_eq_self) (simp add: push_bit_eq_mult)
  then have "unat (push_bit k (ucast b :: 32 word)) = push_bit k (unat b)"
    by (simp add: unsigned_push_bit_eq unsigned_ucast_eq take_bit_push_bit)
  then show ?thesis using nat_or_shift [OF assms(1)] by (simp add: unsigned_or_eq)
qed


lemma unat_byte: "unat (b :: byte) < 256"
proof -
  have "unat b < 2 ^ LENGTH(8)" by (rule unsigned_less)
  then show ?thesis by simp
qed

lemma header_word_value:
  assumes "0 < h" "h \<le> 4"
  shows "unat (header_word bs off h) = encoded_at bs off h"
proof -
  let ?b = "\<lambda>i. unat (bs ! (off + i))"
  let ?w0 = "ucast (bs ! off) :: 32 word"
  let ?w1 = "?w0 OR push_bit 8 (ucast (bs ! (off + 1)))"
  let ?w2 = "?w1 OR push_bit 16 (ucast (bs ! (off + 2)))"
  let ?w3 = "?w2 OR push_bit 24 (ucast (bs ! (off + 3)))"
  note lt = unat_byte [of "bs ! off"] unat_byte [of "bs ! (off + 1)"] unat_byte [of "bs ! (off + 2)"]
  have v0: "unat ?w0 = ?b 0" using lt(1) by (simp add: unsigned_ucast_eq take_bit_nat_eq_self)
  have v1: "unat ?w1 = ?b 0 + ?b 1 * 2 ^ 8" using unat_or_byte [of ?w0 8 "bs ! (off + 1)"] lt v0 by simp
  have v2: "unat ?w2 = ?b 0 + ?b 1 * 2 ^ 8 + ?b 2 * 2 ^ 16"
    using unat_or_byte [of ?w1 16 "bs ! (off + 2)"] lt v1 by simp
  have v3: "unat ?w3 = ?b 0 + ?b 1 * 2 ^ 8 + ?b 2 * 2 ^ 16 + ?b 3 * 2 ^ 24"
    using unat_or_byte [of ?w2 24 "bs ! (off + 3)"] lt v2 by simp
  have "h = 1 \<or> h = 2 \<or> h = 3 \<or> h = 4" using assms by linarith
  then show ?thesis
  proof (elim disjE)
    assume "h = 1" then show ?thesis using v0 by (simp add: header_word_def encoded_at_def)
  next
    assume "h = 2" then show ?thesis using v1 by (simp add: header_word_def encoded_at_def upt_rec numeral_2_eq_2)
  next
    assume "h = 3" then show ?thesis using v2 by (simp add: header_word_def encoded_at_def upt_rec)
  next
    assume "h = 4" then show ?thesis using v3 by (simp add: header_word_def encoded_at_def upt_rec numeral_3_eq_3)
  qed
qed

lemma header_len_le: "header_len b \<le> 4"
proof -
  have "b AND 3 = take_bit 2 b" by (simp add: take_bit_eq_mask mask_eq_exp_minus_1)
  then have "unat (b AND 3) = take_bit 2 (unat b)" by (simp add: unsigned_take_bit_eq)
  also have "\<dots> < 2 ^ 2" by (rule take_bit_nat_less_exp)
  finally show ?thesis by (simp add: header_len_def)
qed

lemma payload_length:
  "unat (drop_bit 2 (header_word bs 0 (header_len b))) = encoded_at bs 0 (header_len b) div 4"
  using header_word_value [of "header_len b" bs 0] header_len_le [of b]
  by (simp only: unat_drop_bit_eq) (simp add: drop_bit_eq_div)

text \<open>Where the proxy's cutter accepts a stream, the browser cuts it in the same way.\<close>

lemma parse_cut: "parse bs = Inr (fs, r) \<Longrightarrow> cut_frames bs = (fs, r)"
proof (induction bs arbitrary: fs rule: parse.induct)
  case (1 bs)
  let ?h = "header_len (hd bs)" and ?n = "encoded_at bs 0 (header_len (hd bs)) div 4"
  have dec: "decodeFrame bs 0 = (if length bs < ?h \<or> length bs < ?h + ?n then None
      else Some (take ?n (drop ?h bs), ?h + ?n))" if "bs \<noteq> []"
    using that payload_length [of bs "hd bs"] by (simp add: decodeFrame_def Let_def hd_conv_nth)
  consider "bs = []" | "bs \<noteq> []" "length bs < ?h" | "bs \<noteq> []" "\<not> length bs < ?h" "?n > MAX_RELAY_FRAME_SIZE"
    | "bs \<noteq> []" "\<not> length bs < ?h" "\<not> ?n > MAX_RELAY_FRAME_SIZE" "length bs < ?h + ?n"
    | "bs \<noteq> []" "\<not> length bs < ?h" "\<not> ?n > MAX_RELAY_FRAME_SIZE" "\<not> length bs < ?h + ?n" by blast
  then show ?case
  proof cases
    case 1
    then show ?thesis using \<open>parse bs = _\<close> by (simp add: parse.simps [of "[]"] cut_frames_None decodeFrame_def)
  next
    case 3
    with \<open>parse bs = _\<close> show ?thesis by (simp add: parse.simps [of bs])
  next
    case 5
    with 1(2) obtain gs where g: "parse (drop (?h + ?n) bs) = Inr (gs, r)" "fs = take ?n (drop ?h bs) # gs"
      by (auto simp: parse.simps [of bs] Let_def split: sum.splits)
    have "decodeFrame bs 0 = Some (take ?n (drop ?h bs), ?h + ?n)" using dec 5 by simp
    then show ?thesis using 1(1) [OF 5(1) refl 5(2) refl 5(3,4) g(1)] cut_frames_Some [of bs] g(2) by simp
  qed (use 1(2) parse_stuck [of bs] dec cut_frames_None [of bs] in auto)
qed


lemma push2_and: "push_bit 2 n AND 2 = 0" "push_bit 2 n AND 3 = 0" for n :: "32 word"
proof -
  have "push_bit 2 n AND mask 2 = take_bit 2 (push_bit 2 n)" by (simp only: take_bit_eq_mask)
  then show three: "push_bit 2 n AND 3 = 0" by (simp add: take_bit_push_bit mask_eq_exp_minus_1)
  have "push_bit 2 n AND 2 = (push_bit 2 n AND 3) AND 2" by (simp only: and.assoc) simp
  then show "push_bit 2 n AND 2 = 0" unfolding three by simp
qed

lemma header_or: "push_bit 2 n OR 2 = n * 4 + 2" "push_bit 2 n OR 3 = n * 4 + 3" for n :: "32 word"
  using disjunctive_add_eq_or [OF push2_and(1), of n] disjunctive_add_eq_or [OF push2_and(2), of n]
  by (simp_all add: push_bit_eq_mult)

lemma encodeFrame_relay: "length p \<le> MAX_RELAY_FRAME_SIZE \<Longrightarrow> encodeFrame p = Some (frame_header (length p) @ p)"
  by (simp add: encodeFrame_def frame_header_def Let_def header_or MAX_RELAY_FRAME_SIZE_def)

lemma encodeFrame_iff:
  "length p \<le> MAX_RELAY_FRAME_SIZE \<Longrightarrow> encodeFrame p = Some f \<longleftrightarrow> encodeRelayFrame p = Inr f"
  by (simp add: encodeFrame_relay encodeRelayFrame_def)

text \<open>The browser sends its messages one after the other.\<close>

primrec send_frames :: "byte list list \<Rightarrow> byte list option" where
  "send_frames [] = Some []"
| "send_frames (p # ps) = (case encodeFrame p of None \<Rightarrow> None
     | Some f \<Rightarrow> (case send_frames ps of None \<Rightarrow> None | Some bs \<Rightarrow> Some (f @ bs)))"

lemma send_frames_relay:
  "\<forall>p \<in> set ps. length p \<le> MAX_RELAY_FRAME_SIZE \<Longrightarrow> send_frames ps = Some bs \<longleftrightarrow> encode_all ps = Inr bs"
proof (induction ps arbitrary: bs)
  case (Cons p ps)
  then have "encodeFrame p = Some (frame_header (length p) @ p)" "encodeRelayFrame p = Inr (frame_header (length p) @ p)"
    by (simp_all add: encodeFrame_relay encodeRelayFrame_def)
  moreover obtain x where x: "encode_all ps = Inr x" using encode_all_total [of ps] Cons(2) by auto
  moreover have "send_frames ps = Some x" using Cons x by simp
  ultimately show ?case by simp
qed simp

lemma browser_chunks:
  "sd_ok (snd (feed_chunks sd_feed cs createStreamDecoder))"
  "cut_frames (concat cs)
     = (fst (feed_chunks sd_feed cs createStreamDecoder), sd_pending (snd (feed_chunks sd_feed cs createStreamDecoder)))"
proof -
  have "sd_ok createStreamDecoder" "sd_pending createStreamDecoder = []"
    by (simp_all add: createStreamDecoder_def sd_ok_def sd_pending_def)
  moreover have "cut_frames [] = ([], [])" by (simp add: cut_frames_None decodeFrame_def)
  ultimately show "sd_ok (snd (feed_chunks sd_feed cs createStreamDecoder))"
    "cut_frames (concat cs)
     = (fst (feed_chunks sd_feed cs createStreamDecoder), sd_pending (snd (feed_chunks sd_feed cs createStreamDecoder)))"
    using browser.chunks_split [of createStreamDecoder cs] by simp_all
qed

text \<open>C12: The stream decoder of the browser refines the cutting of a complete stream.  For every sequence of
  chunks it returns the complete frames of their concatenation and keeps exactly the unfinished rest, within
  its buffer; and on every stream that the cutter of the proxy accepts, the two agree.\<close>

theorem browser_decoder_refines:
  "cut_frames (concat cs)
     = (fst (feed_chunks sd_feed cs createStreamDecoder), sd_pending (snd (feed_chunks sd_feed cs createStreamDecoder)))
   \<and> sd_len (snd (feed_chunks sd_feed cs createStreamDecoder))
       \<le> length (sd_buffer (snd (feed_chunks sd_feed cs createStreamDecoder)))
   \<and> (case parse (concat cs) of Inl e \<Rightarrow> True | Inr q \<Rightarrow> q = cut_frames (concat cs))"
  using browser_chunks [of cs] parse_cut [of "concat cs"] by (auto simp: sd_ok_def split: sum.splits)

text \<open>C11: The browser and the proxy understand each other, although each has its own implementation, as long
  as messages and chunks are small enough. Let the messages be of at most \<open>N\<close> bytes each and the stream
  be cut into chunks of at most \<open>k\<close> bytes, with \<open>N + k\<close> not above
  \<open>MAX_RELAY_FRAME_SIZE\<close>. Then what the browser framed comes out of both decoders, and so does what the
  proxy framed: the messages exactly, in order, with nothing left over, wherever the cuts are. Beyond that size the
  claim is not made: the proxy refuses larger frames, and the largest one as soon as its last chunk carries bytes of
  the next (\<open>largest_frame_refused\<close>).\<close>

theorem browser_proxy_roundtrip:
  assumes "\<And>n. length (alloc n) = n"
    and "\<forall>p \<in> set ps. length p \<le> N" and "\<forall>c \<in> set cs. length c \<le> k" and "N + k \<le> MAX_RELAY_FRAME_SIZE"
    and "send_frames ps = Some (concat cs) \<or> encode_all ps = Inr (concat cs)"
  shows "(\<exists>d. feed_all alloc cs new_decoder = Inr (ps, d) \<and> dc_len d = 0)
    \<and> (\<exists>d. feed_chunks sd_feed cs createStreamDecoder = (ps, d) \<and> sd_len d = 0)"
proof
  have enc: "encode_all ps = Inr (concat cs)" using send_frames_relay [of ps "concat cs"] assms(2,4,5) by fastforce
  show "\<exists>d. feed_all alloc cs new_decoder = Inr (ps, d) \<and> dc_len d = 0"
    using assms(1) enc assms(2-4) by (rule framed_roundtrip)
  have "cut_frames (concat cs) = (ps, [])" using parse_cut [OF parse_encode_all [OF enc]] .
  then have "fst (feed_chunks sd_feed cs createStreamDecoder) = ps"
    "sd_pending (snd (feed_chunks sd_feed cs createStreamDecoder)) = []" using browser_chunks(2) [of cs] by simp_all
  then show "\<exists>d. feed_chunks sd_feed cs createStreamDecoder = (ps, d) \<and> sd_len d = 0"
    using browser_chunks(1) [of cs] by (intro exI [of _ "snd (feed_chunks sd_feed cs createStreamDecoder)"])
      (auto simp: sd_pending_def sd_ok_def prod_eq_iff)
qed

theorem browser_proxy_roundtrip_witness:
  "(\<exists>d. feed_all (\<lambda>n. replicate n 255) [[8, 1], [2, 0, 4], [3]] new_decoder = Inr ([[1, 2], [], [3]], d) \<and> dc_len d = 0)
    \<and> (\<exists>d. feed_chunks sd_feed [[8, 1], [2, 0, 4], [3]] createStreamDecoder = ([[1, 2], [], [3]], d) \<and> sd_len d = 0)"
proof (rule browser_proxy_roundtrip [of _ _ 2 _ 3])
  show "send_frames [[1, 2], [], [3]] = Some (concat [[8, 1], [2, 0, 4], [3]])
      \<or> encode_all [[1, 2], [], [3]] = Inr (concat [[8, 1], [2, 0, 4], [3]])"
    by (simp add: encodeFrame_def le_bytes_def)
qed (simp_all add: MAX_RELAY_FRAME_SIZE_def)

end
