(* ===== verification/Rd_Rendezvous.thy ===== *)
theory Rd_Rendezvous
  imports Rd_Frames BD_Prelude
begin

text \<open>
  How the web remote client finds the relay of a device: \<open>interpretPunchHoleResponse\<close> of
  \<open>src/web-nodejs/public/js/rdclient/punchhole-response.js\<close>, and \<open>_waitForRendezvousResponse\<close>,
  \<open>_waitForSignalRelayResponse\<close> and the choice of the relay in \<open>connect\<close> of
  \<open>src/web-nodejs/public/js/rdclient/client.js\<close>.

  The rendezvous connection is bridged to TCP, so the answers arrive in chunks that the stream decoder cuts into
  frames.  The protobuf decoder is an argument; a decoding error skips the frame.
\<close>

section \<open>The answer to a punch hole request\<close>

record punch_hole_response =
  ph_failure :: int
  ph_otherFailure :: string
  ph_relayServer :: string
  ph_socketAddr :: "byte list"
  ph_pk :: "byte list"

record relay_response =
  rr_refuseReason :: string
  rr_relayServer :: string
  rr_uuid :: string
  rr_pk :: "byte list"

record rendezvous_message =
  rm_keyExchange :: bool
  rm_hc :: bool
  rm_punchHoleResponse :: "punch_hole_response option"
  rm_relayResponse :: "relay_response option"

text \<open>A refusal, or the server, the identifier (empty when the client has to choose one) and the signed identity of
  the peer.\<close>

datatype answer = Refused string | Offered string string "byte list"

definition FAILURE_NAMES :: "int \<Rightarrow> string" where
  "FAILURE_NAMES n =
     (if n = 0 then ''Device not found'' else if n = 2 then ''Device offline''
      else if n = 3 then ''License mismatch'' else if n = 4 then ''Too many connections'' else [])"

definition interpretPunchHoleResponse :: "punch_hole_response option \<Rightarrow> answer" where
  "interpretPunchHoleResponse resp =
     (case resp of
        None \<Rightarrow> Refused ''Empty PunchHoleResponse''
      | Some r \<Rightarrow>
          let other = js_trim (ph_otherFailure r) in
          if ph_failure r = 2 \<or> ph_failure r = 3 \<or> ph_failure r = 4 \<or> other \<noteq> []
          then Refused (if other \<noteq> [] then other else FAILURE_NAMES (ph_failure r))
          else if ph_relayServer r \<noteq> [] \<or> ph_socketAddr r \<noteq> []
          then Offered (ph_relayServer r) [] (ph_pk r)
          else Refused (FAILURE_NAMES 0))"

definition relay_answer :: "string \<Rightarrow> relay_response \<Rightarrow> answer" where
  "relay_answer pre r =
     (if rr_refuseReason r \<noteq> [] then Refused (pre @ rr_refuseReason r)
      else Offered (rr_relayServer r) (rr_uuid r) (rr_pk r))"


section \<open>Waiting\<close>

text \<open>What one frame says: nothing yet, or the answer.\<close>

definition rendezvous_frame :: "(byte list \<Rightarrow> unit + rendezvous_message) \<Rightarrow> byte list \<Rightarrow> answer option" where
  "rendezvous_frame decode frame =
     (case decode frame of
        Inl _ \<Rightarrow> None
      | Inr m \<Rightarrow>
          if rm_keyExchange m then None
          else if rm_hc m then None
          else case rm_punchHoleResponse m of
              Some r \<Rightarrow> Some (interpretPunchHoleResponse (Some r))
            | None \<Rightarrow> map_option (relay_answer ''Relay refused: '') (rm_relayResponse m))"

definition signal_frame :: "(byte list \<Rightarrow> unit + rendezvous_message) \<Rightarrow> byte list \<Rightarrow> answer option" where
  "signal_frame decode frame =
     (case decode frame of
        Inl _ \<Rightarrow> None
      | Inr m \<Rightarrow>
          if rm_keyExchange m \<or> rm_hc m then None
          else map_option (relay_answer []) (rm_relayResponse m))"

text \<open>The loop over the frames of a chunk; the frames behind the answer are not looked at.\<close>

primrec first_answer :: "(byte list \<Rightarrow> answer option) \<Rightarrow> byte list list \<Rightarrow> answer option" where
  "first_answer says [] = None"
| "first_answer says (f # fs) = (case says f of Some a \<Rightarrow> Some a | None \<Rightarrow> first_answer says fs)"

text \<open>The handler over the chunks: the answer, the chunks that follow, and the decoder.  \<open>None\<close> is the timeout.\<close>

primrec wait_answer ::
  "(byte list \<Rightarrow> answer option) \<Rightarrow> byte list list \<Rightarrow> stream_decoder \<Rightarrow> (answer \<times> byte list list \<times> stream_decoder) option" where
  "wait_answer says [] d = None"
| "wait_answer says (c # cs) d =
     (let (frames, d') = sd_feed c d in
      case first_answer says frames of
        Some a \<Rightarrow> Some (a, cs, d')
      | None \<Rightarrow> wait_answer says cs d')"


section \<open>Connecting\<close>

datatype connect_result =
    ConnectError string
  | RelayWith string string "byte list"

definition or_text :: "string \<Rightarrow> string \<Rightarrow> string" where
  "or_text a b = (if a \<noteq> [] then a else b)"

text \<open>\<open>connect\<close> up to the relay: the identifier, the server and the signed identity it goes on with.  \<open>fresh\<close> is the
  identifier the client makes up if it has to.\<close>

definition choose_relay ::
  "(byte list \<Rightarrow> unit + rendezvous_message) \<Rightarrow> string \<Rightarrow> byte list list \<Rightarrow> connect_result" where
  "choose_relay decode fresh chunks =
     (case wait_answer (rendezvous_frame decode) chunks createStreamDecoder of
        None \<Rightarrow> ConnectError ''Rendezvous response timeout''
      | Some (Refused e, _) \<Rightarrow> ConnectError (''Connection refused: '' @ e)
      | Some (Offered server uuid pk, rest, d) \<Rightarrow>
          if uuid \<noteq> [] then RelayWith uuid server pk
          else case wait_answer (signal_frame decode) rest d of
              None \<Rightarrow> ConnectError ''RelayResponse timeout''
            | Some (Refused e, _) \<Rightarrow> ConnectError (''Relay refused: '' @ e)
            | Some (Offered server2 uuid2 pk2, _) \<Rightarrow> RelayWith (or_text uuid2 fresh) (or_text server2 server) pk2)"


section \<open>Properties\<close>

lemma first_answer_append:
  "first_answer says (a @ b) = (case first_answer says a of Some x \<Rightarrow> Some x | None \<Rightarrow> first_answer says b)"
  by (induction a) (auto split: option.splits)

lemma wait_answer_stream:
  assumes "sd_ok d" "cut_frames (sd_pending d) = ([], sd_pending d)"
  shows "map_option fst (wait_answer says cs d) = first_answer says (fst (cut_frames (sd_pending d @ concat cs)))"
  using assms
proof (induction cs arbitrary: d)
  case (Cons c cs)
  let ?d = "snd (sd_feed c d)"
  note one = sd_feed_refines [OF Cons(2), of c]
  have all: "fst (cut_frames (sd_pending d @ concat (c # cs)))
      = fst (sd_feed c d) @ fst (cut_frames (sd_pending ?d @ concat cs))"
    using cut_frames_append [of "sd_pending d @ c" "concat cs"] one(2) by simp
  have "cut_frames (sd_pending ?d) = ([], sd_pending ?d)"
    using cut_frames_append [of "sd_pending d @ c" "[]"] one(2) by (auto simp: prod_eq_iff)
  then have "map_option fst (wait_answer says cs ?d) = first_answer says (fst (cut_frames (sd_pending ?d @ concat cs)))"
    using Cons(1) [OF one(1)] by simp
  then show ?case unfolding all first_answer_append by (auto simp: case_prod_unfold Let_def split: option.splits)
qed simp

lemma fresh_decoder:
  "sd_ok createStreamDecoder" "sd_pending createStreamDecoder = []" "cut_frames [] = ([], [])"
  by (simp_all add: createStreamDecoder_def sd_ok_def sd_pending_def cut_frames_None decodeFrame_def)

text \<open>The answer of the rendezvous server does not depend on how TCP cuts the stream.  The client takes the first
  frame of the whole stream that carries an answer, skipping key exchanges, health checks and frames that do not
  decode, whatever the chunks.\<close>

theorem rendezvous_answer_is_first:
  "map_option fst (wait_answer (rendezvous_frame decode) cs createStreamDecoder)
     = first_answer (rendezvous_frame decode) (fst (cut_frames (concat cs)))"
  using wait_answer_stream [of createStreamDecoder "rendezvous_frame decode" cs] fresh_decoder by simp

text \<open>A device that is reported offline is never connected.  If the first answer of the server carries one of the
  failures offline, licence mismatch or licence overuse, or a text of its own, the client gives up with that reason,
  even when the answer also names a relay server.\<close>

theorem reported_failure_wins:
  assumes "first_answer (rendezvous_frame decode) (fst (cut_frames (concat cs))) = Some (interpretPunchHoleResponse (Some r))"
    and "ph_failure r \<in> {2, 3, 4} \<or> js_trim (ph_otherFailure r) \<noteq> []"
  shows "\<exists>reason. reason \<noteq> [] \<and> choose_relay decode fresh cs = ConnectError (''Connection refused: '' @ reason)"
proof -
  obtain reason where r: "interpretPunchHoleResponse (Some r) = Refused reason" "reason \<noteq> []"
    using assms(2) by (auto simp: interpretPunchHoleResponse_def FAILURE_NAMES_def Let_def)
  have "map_option fst (wait_answer (rendezvous_frame decode) cs createStreamDecoder) = Some (Refused reason)"
    using wait_answer_stream [of createStreamDecoder "rendezvous_frame decode" cs] fresh_decoder assms(1) r(1) by simp
  then show ?thesis using r(2) by (auto simp: choose_relay_def)
qed

definition demo_offline :: punch_hole_response where
  "demo_offline = \<lparr>ph_failure = 2, ph_otherFailure = [], ph_relayServer = ''relay'', ph_socketAddr = [], ph_pk = []\<rparr>"

definition demo_decode :: "byte list \<Rightarrow> unit + rendezvous_message" where
  "demo_decode f = (if f = [1] then Inr \<lparr>rm_keyExchange = True, rm_hc = False, rm_punchHoleResponse = None, rm_relayResponse = None\<rparr>
     else if f = [2] then Inr \<lparr>rm_keyExchange = False, rm_hc = False, rm_punchHoleResponse = Some demo_offline, rm_relayResponse = None\<rparr>
     else Inl ())"

lemma demo_cut: "fst (cut_frames (concat [[4, 1, 4], [2]])) = [[1], [2]]"
proof -
  have "parse [4, 1, 4, 2] = Inr ([[1], [2]], [])"
    by (rule parse_encode_all) (simp add: encodeRelayFrame_def frame_header_def le_bytes_def MAX_RELAY_FRAME_SIZE_def)
  from parse_cut [OF this] show ?thesis by simp
qed

theorem reported_failure_wins_witness:
  "\<exists>reason. reason \<noteq> [] \<and> choose_relay demo_decode ''u'' [[4, 1, 4], [2]] = ConnectError (''Connection refused: '' @ reason)"
proof (rule reported_failure_wins)
  show "first_answer (rendezvous_frame demo_decode) (fst (cut_frames (concat [[4, 1, 4], [2]])))
      = Some (interpretPunchHoleResponse (Some demo_offline))"
    unfolding demo_cut by (simp add: rendezvous_frame_def demo_decode_def)
qed (simp add: demo_offline_def)

end
