(* ===== verification/Rd_Sha256.thy ===== *)
theory Rd_Sha256
  imports BD_Prelude "HOL-Library.Word"
begin

text \<open>
  The hash function of the web remote client, \<open>RDCrypto._sha256Fallback\<close> and \<open>hashPassword\<close> of
  \<open>src/web-nodejs/public/js/rdclient/crypto.js\<close>.

  A JavaScript number is an \<^typ>\<open>int\<close> here; the bitwise operators convert their arguments to 32 bits and
  give a signed result (\<open>>>>\<close> an unsigned one), and the stores into a \<open>Uint32Array\<close> reduce modulo
  \<open>2 ^ 32\<close>.  The sums of the code stay exact, as the lemma on the rounds shows.  The reference is SHA-256 on
  32-bit words, with the padding of the standard.
\<close>

unbundle bit_operations_syntax

type_synonym u8 = "8 word"
type_synonym u32 = "32 word"


section \<open>Numbers\<close>

abbreviation wrd :: "int \<Rightarrow> u32" where "wrd \<equiv> word_of_int"

definition toInt32 :: "int \<Rightarrow> int" where "toInt32 x = sint (wrd x)"

definition toUint32 :: "int \<Rightarrow> int" where "toUint32 x = uint (wrd x)"

definition js_and :: "int \<Rightarrow> int \<Rightarrow> int" where "js_and x y = sint (wrd x AND wrd y)"

definition js_or :: "int \<Rightarrow> int \<Rightarrow> int" where "js_or x y = sint (wrd x OR wrd y)"

definition js_xor :: "int \<Rightarrow> int \<Rightarrow> int" where "js_xor x y = sint (wrd x XOR wrd y)"

definition js_not :: "int \<Rightarrow> int" where "js_not x = sint (NOT (wrd x))"

definition js_ushr :: "int \<Rightarrow> nat \<Rightarrow> int" where "js_ushr x n = uint (drop_bit n (wrd x))"

definition js_shl :: "int \<Rightarrow> nat \<Rightarrow> int" where "js_shl x n = sint (push_bit n (wrd x))"


section \<open>The code\<close>

definition rotr :: "int \<Rightarrow> nat \<Rightarrow> int" where "rotr x n = js_or (js_ushr x n) (js_shl x (32 - n))"

definition ch :: "int \<Rightarrow> int \<Rightarrow> int \<Rightarrow> int" where "ch x y z = js_xor (js_and x y) (js_and (js_not x) z)"

definition maj :: "int \<Rightarrow> int \<Rightarrow> int \<Rightarrow> int" where "maj x y z = js_xor (js_xor (js_and x y) (js_and x z)) (js_and y z)"

definition sigma0 :: "int \<Rightarrow> int" where "sigma0 x = js_xor (js_xor (rotr x 2) (rotr x 13)) (rotr x 22)"

definition sigma1 :: "int \<Rightarrow> int" where "sigma1 x = js_xor (js_xor (rotr x 6) (rotr x 11)) (rotr x 25)"

definition gamma0 :: "int \<Rightarrow> int" where "gamma0 x = js_xor (js_xor (rotr x 7) (rotr x 18)) (js_ushr x 3)"

definition gamma1 :: "int \<Rightarrow> int" where "gamma1 x = js_xor (js_xor (rotr x 17) (rotr x 19)) (js_ushr x 10)"

definition K :: "int list" where
  "K = concat [
    [0x428a2f98, 0x71374491, 0xb5c0fbcf, 0xe9b5dba5], [0x3956c25b, 0x59f111f1, 0x923f82a4, 0xab1c5ed5],
    [0xd807aa98, 0x12835b01, 0x243185be, 0x550c7dc3], [0x72be5d74, 0x80deb1fe, 0x9bdc06a7, 0xc19bf174],
    [0xe49b69c1, 0xefbe4786, 0x0fc19dc6, 0x240ca1cc], [0x2de92c6f, 0x4a7484aa, 0x5cb0a9dc, 0x76f988da],
    [0x983e5152, 0xa831c66d, 0xb00327c8, 0xbf597fc7], [0xc6e00bf3, 0xd5a79147, 0x06ca6351, 0x14292967],
    [0x27b70a85, 0x2e1b2138, 0x4d2c6dfc, 0x53380d13], [0x650a7354, 0x766a0abb, 0x81c2c92e, 0x92722c85],
    [0xa2bfe8a1, 0xa81a664b, 0xc24b8b70, 0xc76c51a3], [0xd192e819, 0xd6990624, 0xf40e3585, 0x106aa070],
    [0x19a4c116, 0x1e376c08, 0x2748774c, 0x34b0bcb5], [0x391c0cb3, 0x4ed8aa4a, 0x5b9cca4f, 0x682e6ff3],
    [0x748f82ee, 0x78a5636f, 0x84c87814, 0x8cc70208], [0x90befffa, 0xa4506ceb, 0xbef9a3f7, 0xc67178f2]]"

definition h_init :: "int list" where
  "h_init = [0x6a09e667, 0xbb67ae85] @ [0x3c6ef372, 0xa54ff53a] @ [0x510e527f, 0x9b05688c] @ [0x1f83d9ab, 0x5be0cd19]"

text \<open>\<open>view.setUint32(at, v, false)\<close> and \<open>view.getUint32(at, false)\<close>.\<close>

definition be32 :: "u32 \<Rightarrow> u8 list" where
  "be32 w = [ucast (drop_bit 24 w), ucast (drop_bit 16 w), ucast (drop_bit 8 w), ucast w]"

definition setUint32 :: "nat \<Rightarrow> int \<Rightarrow> u8 list \<Rightarrow> u8 list" where
  "setUint32 at v buf = take at buf @ be32 (wrd v) @ drop (at + 4) buf"

definition word_at :: "u8 list \<Rightarrow> nat \<Rightarrow> u32" where
  "word_at buf at = push_bit 24 (ucast (buf ! at)) OR push_bit 16 (ucast (buf ! (at + 1)))
     OR push_bit 8 (ucast (buf ! (at + 2))) OR ucast (buf ! (at + 3))"

definition getUint32 :: "nat \<Rightarrow> u8 list \<Rightarrow> int" where
  "getUint32 at buf = uint (word_at buf at)"

definition padLen :: "nat \<Rightarrow> nat" where
  "padLen msgLen = (if (msgLen + 8) mod 64 < 56 then 56 - (msgLen + 8) mod 64 + 8 else 120 - (msgLen + 8) mod 64 + 8)"

definition padded :: "u8 list \<Rightarrow> u8 list" where
  "padded message =
     (let msgLen = length message;
          bitLen = int (msgLen * 8);
          buf = (message @ replicate (padLen msgLen + 8) 0)[msgLen := 0x80]
      in setUint32 (length buf - 4) bitLen buf)"

definition W_step :: "nat \<Rightarrow> int list \<Rightarrow> int list" where
  "W_step i W = W[i := toUint32 (toInt32 (gamma1 (W ! (i - 2)) + W ! (i - 7) + gamma0 (W ! (i - 15)) + W ! (i - 16)))]"

definition W_of :: "u8 list \<Rightarrow> nat \<Rightarrow> int list" where
  "W_of buf offset = fold W_step [16..<64] (map (\<lambda>i. getUint32 (offset + i * 4) buf) [0..<16] @ replicate 48 0)"

record rounds =
  ra :: int
  rb :: int
  rc :: int
  rd :: int
  re :: int
  rf :: int
  rg :: int
  rh :: int

definition round_step :: "int list \<Rightarrow> nat \<Rightarrow> rounds \<Rightarrow> rounds" where
  "round_step W i s =
     (let t1 = toInt32 (rh s + sigma1 (re s) + ch (re s) (rf s) (rg s) + K ! i + W ! i);
          t2 = toInt32 (sigma0 (ra s) + maj (ra s) (rb s) (rc s))
      in \<lparr>ra = toInt32 (t1 + t2), rb = ra s, rc = rb s, rd = rc s,
          re = toInt32 (rd s + t1), rf = re s, rg = rf s, rh = rg s\<rparr>)"

definition to_rounds :: "int list \<Rightarrow> rounds" where
  "to_rounds h = \<lparr>ra = h ! 0, rb = h ! 1, rc = h ! 2, rd = h ! 3, re = h ! 4, rf = h ! 5, rg = h ! 6, rh = h ! 7\<rparr>"

definition js_block :: "u8 list \<Rightarrow> nat \<Rightarrow> int list \<Rightarrow> int list" where
  "js_block buf offset h =
     (let s = fold (round_step (W_of buf offset)) [0..<64] (to_rounds h)
      in map2 (\<lambda>x y. toInt32 (x + y)) h [ra s, rb s, rc s, rd s, re s, rf s, rg s, rh s])"

definition sha256Fallback :: "u8 list \<Rightarrow> u8 list" where
  "sha256Fallback message =
     (let buf = padded message;
          h = fold (\<lambda>b. js_block buf (b * 64)) [0..<length buf div 64] h_init
      in concat (map (\<lambda>x. be32 (wrd x)) h))"

text \<open>\<open>_sha256\<close> takes the native digest where the browser offers it, otherwise the function above.\<close>

definition sha256_of :: "(u8 list \<Rightarrow> u8 list) option \<Rightarrow> u8 list \<Rightarrow> u8 list" where
  "sha256_of subtle data = (case subtle of Some digest \<Rightarrow> digest data | None \<Rightarrow> sha256Fallback data)"

definition hashPassword :: "(u8 list \<Rightarrow> u8 list) option \<Rightarrow> u8 list \<Rightarrow> u8 list \<Rightarrow> u8 list \<Rightarrow> u8 list" where
  "hashPassword subtle password salt challenge =
     (let intermediate = sha256_of subtle (password @ salt)
      in sha256_of subtle (intermediate @ challenge))"


section \<open>The reference\<close>

definition Ch :: "u32 \<Rightarrow> u32 \<Rightarrow> u32 \<Rightarrow> u32" where "Ch x y z = (x AND y) XOR (NOT x AND z)"

definition Maj :: "u32 \<Rightarrow> u32 \<Rightarrow> u32 \<Rightarrow> u32" where "Maj x y z = (x AND y) XOR (x AND z) XOR (y AND z)"

definition Sig0 :: "u32 \<Rightarrow> u32" where "Sig0 x = word_rotr 2 x XOR word_rotr 13 x XOR word_rotr 22 x"

definition Sig1 :: "u32 \<Rightarrow> u32" where "Sig1 x = word_rotr 6 x XOR word_rotr 11 x XOR word_rotr 25 x"

definition small_sig0 :: "u32 \<Rightarrow> u32" where "small_sig0 x = word_rotr 7 x XOR word_rotr 18 x XOR drop_bit 3 x"

definition small_sig1 :: "u32 \<Rightarrow> u32" where "small_sig1 x = word_rotr 17 x XOR word_rotr 19 x XOR drop_bit 10 x"

text \<open>The message schedule: 16 words of the block, each later word from the four before it.\<close>

primrec schedule :: "nat \<Rightarrow> u32 list \<Rightarrow> u32 list" where
  "schedule 0 M = M"
| "schedule (Suc n) M =
     (let W = schedule n M; t = length M + n
      in W @ [small_sig1 (W ! (t - 2)) + W ! (t - 7) + small_sig0 (W ! (t - 15)) + W ! (t - 16)])"

definition ref_round :: "u32 list \<Rightarrow> u32 list \<Rightarrow> nat \<Rightarrow> u32 list" where
  "ref_round W v i =
     (let t1 = v ! 7 + Sig1 (v ! 4) + Ch (v ! 4) (v ! 5) (v ! 6) + wrd (K ! i) + W ! i;
          t2 = Sig0 (v ! 0) + Maj (v ! 0) (v ! 1) (v ! 2)
      in [t1 + t2, v ! 0, v ! 1, v ! 2, v ! 3 + t1, v ! 4, v ! 5, v ! 6])"

definition ref_block :: "u32 list \<Rightarrow> u32 list \<Rightarrow> u32 list" where
  "ref_block h M = map2 (+) h (foldl (ref_round (schedule 48 M)) h [0..<64])"

definition block_words :: "u8 list \<Rightarrow> nat \<Rightarrow> u32 list" where
  "block_words buf b = map (\<lambda>i. word_at buf (b * 64 + i * 4)) [0..<16]"

definition hash_padded :: "u8 list \<Rightarrow> u8 list" where
  "hash_padded buf =
     concat (map be32 (foldl (\<lambda>h b. ref_block h (block_words buf b)) (map wrd h_init) [0..<length buf div 64]))"

text \<open>The padding of the standard: a one bit, as few zeros as give whole blocks, and the length in bits as a
  64-bit number.\<close>

definition pad :: "u8 list \<Rightarrow> u8 list" where
  "pad m = m @ [0x80] @ replicate ((119 - length m mod 64) mod 64) 0
     @ be32 (wrd (int (length m * 8) div 2 ^ 32)) @ be32 (wrd (int (length m * 8)))"

definition sha256 :: "u8 list \<Rightarrow> u8 list" where
  "sha256 m = hash_padded (pad m)"


section \<open>The operators on words\<close>

named_theorems to_words

lemma wrd_ops [to_words]:
  "wrd (toInt32 x) = wrd x" "wrd (toUint32 x) = wrd x" "wrd (js_and x y) = wrd x AND wrd y" "wrd (js_or x y) = wrd x OR wrd y"
  "wrd (js_xor x y) = wrd x XOR wrd y" "wrd (js_not x) = NOT (wrd x)" "wrd (js_ushr x n) = drop_bit n (wrd x)"
  "wrd (js_shl x n) = push_bit n (wrd x)" "wrd (x + y) = wrd x + wrd y" "wrd (getUint32 at buf) = word_at buf at"
  by (simp_all add: toInt32_def toUint32_def js_and_def js_or_def js_xor_def js_not_def js_ushr_def js_shl_def getUint32_def
      del: of_int_sint) simp_all

lemma word_rotr_shifts:
  assumes "0 < n" "n < 32"
  shows "drop_bit n w OR push_bit (32 - n) w = word_rotr n (w :: u32)"
proof (rule bit_word_eqI)
  fix m assume "m < LENGTH(32)"
  then have m: "m < 32" by simp
  have "(m + n) mod 32 = (if m + n < 32 then m + n else m + n - 32)" using m assms(2) by (simp add: mod_if)
  then have r: "bit (word_rotr n w) m = bit w (if m + n < 32 then m + n else m + n - 32)"
    using m by (simp add: bit_word_rotr_iff)
  have l: "bit (drop_bit n w OR push_bit (32 - n) w) m = (bit w (m + n) \<or> 32 - n \<le> m \<and> bit w (m - (32 - n)))"
    using m by (simp add: bit_or_iff bit_drop_bit_eq bit_push_bit_iff add.commute)
  show "bit (drop_bit n w OR push_bit (32 - n) w) m = bit (word_rotr n w) m"
  proof (cases "m + n < 32")
    case True
    then have "\<not> 32 - n \<le> m" using assms(2) by simp
    then show ?thesis using l r True by simp
  next
    case False
    then have "m - (32 - n) = m + n - 32" "\<not> bit w (m + n)" "32 - n \<le> m" using assms(2) bit_imp_le_length [of w "m + n"] by auto
    then show ?thesis using l r False by simp
  qed
qed

lemma wrd_rotr [to_words]: "0 < n \<Longrightarrow> n < 32 \<Longrightarrow> wrd (rotr x n) = word_rotr n (wrd x)"
  by (simp add: rotr_def to_words word_rotr_shifts)

lemma wrd_functions [to_words]:
  "wrd (ch x y z) = Ch (wrd x) (wrd y) (wrd z)" "wrd (maj x y z) = Maj (wrd x) (wrd y) (wrd z)"
  "wrd (sigma0 x) = Sig0 (wrd x)" "wrd (sigma1 x) = Sig1 (wrd x)"
  "wrd (gamma0 x) = small_sig0 (wrd x)" "wrd (gamma1 x) = small_sig1 (wrd x)"
  by (simp_all add: ch_def maj_def sigma0_def sigma1_def gamma0_def gamma1_def Ch_def Maj_def Sig0_def Sig1_def
      small_sig0_def small_sig1_def to_words xor.assoc)

text \<open>The sums of a round are exact in a JavaScript number: they stay below \<open>2 ^ 53\<close>.\<close>

definition js32 :: "int \<Rightarrow> bool" where "js32 x = (- (2 ^ 31) \<le> x \<and> x < 2 ^ 32)"

lemma js32_signed: "js32 (sint (w :: u32))"
  using sint_ge [of w] sint_lt [of w] by (simp add: js32_def)

lemma js32_ops: "js32 (toInt32 x)" "js32 (ch x y z)" "js32 (maj x y z)" "js32 (sigma0 x)" "js32 (sigma1 x)" "js32 (gamma0 x)" "js32 (gamma1 x)"
  by (simp_all add: toInt32_def ch_def maj_def sigma0_def sigma1_def gamma0_def gamma1_def js_xor_def js32_signed)

lemma round_sums_exact:
  assumes "js32 h" "js32 k" "js32 w" "js32 d"
  shows "\<bar>h + sigma1 e + ch e f g + k + w\<bar> < 2 ^ 53" "\<bar>sigma0 a + maj a b c\<bar> < 2 ^ 53" "\<bar>d + toInt32 x\<bar> < 2 ^ 53"
proof -
  note b = js32_ops(1) [of x] js32_ops(2) [of e f g] js32_ops(3) [of a b c] js32_ops(4) [of a] js32_ops(5) [of e]
  show "\<bar>h + sigma1 e + ch e f g + k + w\<bar> < 2 ^ 53" using assms b by (auto simp: js32_def abs_less_iff)
  show "\<bar>sigma0 a + maj a b c\<bar> < 2 ^ 53" using b by (auto simp: js32_def abs_less_iff)
  show "\<bar>d + toInt32 x\<bar> < 2 ^ 53" using assms b by (auto simp: js32_def abs_less_iff)
qed

section \<open>One block\<close>

definition rounds_words :: "rounds \<Rightarrow> u32 list" where
  "rounds_words s = map wrd [ra s, rb s, rc s, rd s, re s, rf s, rg s, rh s]"

lemma round_step_words:
  "i < length W \<Longrightarrow> rounds_words (round_step W i s) = ref_round (map wrd W) (rounds_words s) i"
  by (simp add: rounds_words_def round_step_def ref_round_def Let_def to_words)

lemma rounds_words_fold:
  "\<forall>i \<in> set is. i < length W \<Longrightarrow>
     rounds_words (fold (round_step W) is s) = foldl (ref_round (map wrd W)) (rounds_words s) is"
  by (induction "is" arbitrary: s) (simp_all add: round_step_words)

lemma length_schedule [simp]: "length (schedule n M) = length M + n"
  by (induction n) (simp_all add: Let_def)

lemma take_W_step:
  "k < length W \<Longrightarrow> take (Suc k) (W_step k W)
     = take k W @ [toUint32 (toInt32 (gamma1 (W ! (k - 2)) + W ! (k - 7) + gamma0 (W ! (k - 15)) + W ! (k - 16)))]"
  by (simp add: W_step_def take_Suc_conv_app_nth)

lemma W_steps:
  assumes "length M = 16" "n \<le> 48"
  shows "length (fold W_step [16..<16 + n] (M @ replicate 48 0)) = 64
     \<and> map wrd (take (16 + n) (fold W_step [16..<16 + n] (M @ replicate 48 0))) = schedule n (map wrd M)"
  using assms(2)
proof (induction n)
  case 0
  then show ?case using assms(1) by simp
next
  case (Suc n)
  let ?W = "fold W_step [16..<16 + n] (M @ replicate 48 0)"
  have len: "length ?W = 64" and ih: "map wrd (take (16 + n) ?W) = schedule n (map wrd M)" using Suc by simp_all
  have at: "wrd (?W ! j) = schedule n (map wrd M) ! j" if "j < 16 + n" for j
  proof -
    have "schedule n (map wrd M) ! j = map wrd (take (16 + n) ?W) ! j" by (simp add: ih)
    then show ?thesis using that len Suc.prems by simp
  qed
  have step: "fold W_step [16..<16 + Suc n] (M @ replicate 48 0) = W_step (16 + n) ?W"
    using upt_Suc_append [of 16 "16 + n"] by (simp del: upt_Suc)
  have "take (16 + Suc n) (W_step (16 + n) ?W) = take (16 + n) ?W
      @ [toUint32 (toInt32 (gamma1 (?W ! (14 + n)) + ?W ! (9 + n) + gamma0 (?W ! (1 + n)) + ?W ! n))]"
    using take_W_step [of "16 + n" ?W] len Suc.prems by simp
  then have "map wrd (take (16 + Suc n) (W_step (16 + n) ?W)) = schedule (Suc n) (map wrd M)"
    using assms(1) by (simp add: ih to_words at Let_def)
  then show ?case unfolding step using len by (simp add: W_step_def)
qed

lemma W_of_words: "map wrd (W_of buf (b * 64)) = schedule 48 (block_words buf b)" "length (W_of buf (b * 64)) = 64"
proof -
  let ?M = "map (\<lambda>i. getUint32 (b * 64 + i * 4) buf) [0..<16]"
  have "length ?M = 16" by simp
  from W_steps [OF this order_refl [of 48]]
  have "length (W_of buf (b * 64)) = 64 \<and> map wrd (take 64 (W_of buf (b * 64))) = schedule 48 (map wrd ?M)"
    unfolding W_of_def by (simp only: numeral_plus_numeral semiring_norm)
  moreover have "map wrd ?M = block_words buf b" by (simp add: block_words_def to_words)
  ultimately show "map wrd (W_of buf (b * 64)) = schedule 48 (block_words buf b)" "length (W_of buf (b * 64)) = 64" by (metis order_refl take_all)+
qed

lemma list_of_8: "length h = 8 \<Longrightarrow> h = [h ! 0, h ! 1, h ! 2, h ! 3, h ! 4, h ! 5, h ! 6, h ! 7]"
  by (rule nth_equalityI) (auto simp: less_Suc_eq numeral_eq_Suc)

lemma to_rounds_words: "length h = 8 \<Longrightarrow> rounds_words (to_rounds h) = map wrd h"
  using list_of_8 [of h] by (metis (no_types, lifting) rounds_words_def to_rounds_def rounds.simps(1-8))

lemma length_js_block [simp]: "length h = 8 \<Longrightarrow> length (js_block buf off h) = 8"
  by (simp add: js_block_def Let_def)

lemma map2_words: "map wrd (map2 (\<lambda>x y. toInt32 (x + y)) xs ys) = map2 (+) (map wrd xs) (map wrd ys)"
  by (induction xs ys rule: list_induct2') (simp_all add: to_words)

lemma js_block_words:
  assumes "length h = 8"
  shows "map wrd (js_block buf (b * 64) h) = ref_block (map wrd h) (block_words buf b)"
proof -
  have ix: "\<forall>i \<in> set [0..<64]. i < length (W_of buf (b * 64))" by (simp add: W_of_words(2) del: upt_rec_numeral)
  let ?s = "fold (round_step (W_of buf (b * 64))) [0..<64] (to_rounds h)"
  have "rounds_words ?s = foldl (ref_round (schedule 48 (block_words buf b))) (map wrd h) [0..<64]"
    unfolding rounds_words_fold [OF ix] to_rounds_words [OF assms] W_of_words(1) ..
  then show ?thesis unfolding js_block_def Let_def map2_words ref_block_def by (simp add: rounds_words_def)
qed

lemma js_blocks_words:
  "length h = 8 \<Longrightarrow> map wrd (fold (\<lambda>b. js_block buf (b * 64)) bs h) = foldl (\<lambda>h b. ref_block h (block_words buf b)) (map wrd h) bs"
  by (induction bs arbitrary: h) (simp_all add: js_block_words)

lemma sha256Fallback_blocks: "sha256Fallback m = hash_padded (padded m)"
proof -
  have "length h_init = 8" by (simp add: h_init_def)
  then show ?thesis
    by (simp add: sha256Fallback_def hash_padded_def Let_def js_blocks_words [symmetric] comp_def)
qed

section \<open>Padding\<close>

lemma padded_eq:
  "padded m = m @ [0x80] @ replicate (padLen (length m) + 3) 0 @ be32 (wrd (int (length m * 8)))"
proof -
  have z: "replicate (padLen (length m) + 8) (0 :: u8) = 0 # replicate (padLen (length m) + 3) 0 @ replicate 4 0"
    by (simp add: replicate_add [symmetric] numeral_eq_Suc del: replicate_Suc) (simp add: replicate_app_Cons_same)
  have t: "take (4 + padLen (length m)) (0x80 # replicate (padLen (length m) + 3) 0 @ replicate 4 (0 :: u8))
      = 0x80 # replicate (padLen (length m) + 3) 0" by (simp add: add.commute [of 4] take_Cons')
  show ?thesis unfolding padded_def Let_def z by (simp add: setUint32_def t del: take_Cons')
qed

lemma be32_zero: "be32 0 = replicate 4 0"
  by (simp add: be32_def numeral_eq_Suc)

definition unlucky :: "nat \<Rightarrow> bool" where
  "unlucky n = (48 \<le> n mod 64 \<and> n mod 64 \<le> 55)"

lemma padLen_eq: "padLen n = (119 - n mod 64) mod 64 + 1 + (if unlucky n then 64 else 0)"
proof -
  have r: "n mod 64 < 64" by simp
  have "(n + 8) mod 64 = (n mod 64 + 8) mod 64" by (simp add: mod_add_left_eq)
  then have m: "(n + 8) mod 64 = (if n mod 64 < 56 then n mod 64 + 8 else n mod 64 - 56)"
    using r le_mod_geq [of 64 "n mod 64 + 8"] by auto
  have k: "(119 - n mod 64) mod 64 = (if n mod 64 \<le> 55 then 55 - n mod 64 else 119 - n mod 64)"
    using r le_mod_geq [of 64 "119 - n mod 64"] by auto
  show ?thesis using r unfolding padLen_def m k unlucky_def by auto
qed

lemma short_length: "length m < 2 ^ 29 \<Longrightarrow> wrd (int (length m * 8) div 2 ^ 32) = 0"
  by simp

section \<open>Properties\<close>

lemma pad_short: "length m < 2 ^ 29 \<Longrightarrow>
    pad m = m @ [0x80] @ replicate ((119 - length m mod 64) mod 64 + 4) 0 @ be32 (wrd (int (length m * 8)))"
  using short_length [of m] by (simp add: pad_def be32_zero replicate_add)

lemma fallback_sha256: "length m < 2 ^ 29 \<Longrightarrow> \<not> unlucky (length m) \<Longrightarrow> sha256Fallback m = sha256 m"
proof -
  assume m: "length m < 2 ^ 29" "\<not> unlucky (length m)"
  have "padLen (length m) + 3 = (119 - length m mod 64) mod 64 + 4" using m(2) by (simp add: padLen_eq)
  then have "padded m = pad m" by (simp only: padded_eq pad_short [OF m(1)])
  then show ?thesis by (simp add: sha256Fallback_blocks sha256_def)
qed

text \<open>C10: The hash function of the web client agrees with SHA-256.  For a message shorter than 512 MB whose
  length is not 48 to 55 modulo 64, the JavaScript code, with its signed 32-bit operators and unbounded
  sums, gives the digest that SHA-256 on 32-bit words gives.\<close>

theorem sha256_fallback_correct:
  assumes "length m < 2 ^ 29" "\<not> (48 \<le> length m mod 64 \<and> length m mod 64 \<le> 55)"
  shows "sha256Fallback m = sha256 m"
  using assms by (intro fallback_sha256) (simp_all add: unlucky_def)

theorem sha256_fallback_correct_witness: "sha256Fallback [97, 98, 99] = sha256 [97, 98, 99]"
  by (rule sha256_fallback_correct) simp_all

text \<open>The padding goes wrong for every eighth length.  For a message of 48 to 55 bytes modulo 64 the code
  hashes one block more than SHA-256: it puts 64 zero bytes between the message and its length, so the
  result is the SHA-256 compression of another padded text.\<close>

theorem sha256_fallback_extra_block:
  assumes "length m < 2 ^ 29" "48 \<le> length m mod 64" "length m mod 64 \<le> 55"
  shows "sha256Fallback m = hash_padded (padded m) \<and> sha256 m = hash_padded (pad m)
     \<and> length (padded m) = length (pad m) + 64
     \<and> padded m = take (length (pad m) - 8) (pad m) @ replicate 64 0 @ drop (length (pad m) - 8) (pad m)"
proof -
  let ?k = "(119 - length m mod 64) mod 64"
  have p: "padLen (length m) + 3 = ?k + 68" using assms(2,3) by (simp add: padLen_eq unlucky_def)
  have "replicate (?k + 68) (0 :: u8) = replicate ?k 0 @ replicate 64 0 @ replicate 4 0"
    by (simp only: replicate_add [symmetric] add.assoc numeral_plus_numeral semiring_norm)
  then have a: "padded m = m @ [0x80] @ replicate ?k 0 @ replicate 64 0 @ be32 0 @ be32 (wrd (int (length m * 8)))"
    by (simp only: padded_eq p be32_zero append_assoc)
  have b: "pad m = (m @ [0x80] @ replicate ?k 0) @ be32 0 @ be32 (wrd (int (length m * 8)))"
    using short_length [OF assms(1)] by (simp add: pad_def)
  have l: "length (be32 x) = 4" for x by (simp add: be32_def)
  have "take (length (pad m) - 8) (pad m) = m @ [0x80] @ replicate ?k 0"
    "drop (length (pad m) - 8) (pad m) = be32 0 @ be32 (wrd (int (length m * 8)))" unfolding b by (simp_all add: l)
  then show ?thesis using a b by (simp add: sha256Fallback_blocks sha256_def l)
qed

theorem sha256_fallback_extra_block_witness:
  "length (padded (replicate 48 0)) = length (pad (replicate 48 0)) + 64"
  using sha256_fallback_extra_block [of "replicate 48 0"] by simp

lemma length_sha256: "length (sha256 m) = 32"
proof -
  have "length (foldl (\<lambda>h b. ref_block h (block_words buf b)) h bs) = 8" if "length h = 8" for h bs buf
    using that
  proof (induction bs arbitrary: h)
    case (Cons b bs)
    have "length (foldl (ref_round W) v is) = 8" if "length v = 8" for W v "is"
      using that by (induction "is" arbitrary: v) (simp_all add: ref_round_def Let_def)
    then have "length (ref_block h (block_words buf b)) = 8" using Cons.prems by (simp add: ref_block_def)
    then show ?case using Cons.IH by simp
  qed simp
  then have e: "length (foldl (\<lambda>h b. ref_block h (block_words (pad m) b)) (map wrd h_init) bs) = 8" for bs by (simp add: h_init_def)
  have "length (concat (map be32 ws)) = 4 * length ws" for ws by (induction ws) (simp_all add: be32_def)
  then show ?thesis by (simp add: sha256_def hash_padded_def e)
qed

text \<open>The password hash of a login does not depend on whether the browser has the native digest, as long as
  neither of its two messages has one of the lengths above.\<close>

theorem hashPassword_portable:
  assumes "length password + length salt < 2 ^ 29" "length challenge < 2 ^ 28"
    and "\<not> unlucky (length password + length salt)" "\<not> unlucky (32 + length challenge)"
  shows "hashPassword None password salt challenge = hashPassword (Some sha256) password salt challenge"
proof -
  have "sha256Fallback (password @ salt) = sha256 (password @ salt)"
    using assms(1,3) by (intro fallback_sha256) simp_all
  moreover have "sha256Fallback (sha256 (password @ salt) @ challenge) = sha256 (sha256 (password @ salt) @ challenge)"
    using assms(2,4) by (intro fallback_sha256) (simp_all add: length_sha256)
  ultimately show ?thesis by (simp add: hashPassword_def sha256_of_def)
qed

end
