(* ===== verification/Rd_Crypto.thy ===== *)
theory Rd_Crypto
  imports Rd_Sha256
begin

text \<open>
  The encryption layer of the web remote client, \<open>RDCrypto\<close> of \<open>src/web-nodejs/public/js/rdclient/crypto.js\<close>:
  the formats of public keys, signed identities, the sealed symmetric key and the counters of the encrypted
  stream.

  \<open>tweetnacl\<close> and the generated protobuf decoders are arguments: \<^typ>\<open>unit\<close> in the type of a result stands
  for an exception.  A JavaScript counter is a number that stays exact up to \<open>2 ^ 53\<close> and does not grow beyond
  it; \<open>js_succ\<close> is its increment.
\<close>

section \<open>Libraries\<close>

record nacl =
  secretbox :: "u8 list \<Rightarrow> u8 list \<Rightarrow> u8 list \<Rightarrow> u8 list"
  secretbox_open :: "u8 list \<Rightarrow> u8 list \<Rightarrow> u8 list \<Rightarrow> u8 list option"
  box_seal :: "u8 list \<Rightarrow> u8 list \<Rightarrow> u8 list \<Rightarrow> u8 list \<Rightarrow> u8 list"
  sign_verify :: "u8 list \<Rightarrow> u8 list \<Rightarrow> u8 list \<Rightarrow> unit + bool"

text \<open>The message \<open>IdPk\<close>; a missing field has the empty value.\<close>

record idpk =
  ip_id :: string
  ip_pk :: "u8 list"


section \<open>Public keys\<close>

definition hex_value :: "char \<Rightarrow> nat" where
  "hex_value c = (if is_digit c then of_char c - 48 else if is_lower_az c then of_char c - 87 else of_char c - 55)"

definition strip_0x :: "string \<Rightarrow> string" where
  "strip_0x s = (if js_lower (take 2 s) = ''0x'' then drop 2 s else s)"

fun hex_pairs :: "string \<Rightarrow> u8 list" where
  "hex_pairs (a # b # r) = word_of_nat (hex_value a * 16 + hex_value b) # hex_pairs r"
| "hex_pairs _ = []"

definition hexToBytes :: "string \<Rightarrow> u8 list" where
  "hexToBytes hex = hex_pairs (strip_0x hex)"

definition b64_value :: "char \<Rightarrow> nat option" where
  "b64_value c =
     (if is_upper_az c then Some (of_char c - 65)
      else if is_lower_az c then Some (of_char c - 71)
      else if is_digit c then Some (of_char c + 4)
      else if c = CHR ''+'' then Some 62
      else if c = CHR ''/'' then Some 63
      else None)"

fun b64_groups :: "nat list \<Rightarrow> u8 list" where
  "b64_groups (a # b # c # d # r) =
     word_of_nat (a * 4 + b div 16) # word_of_nat (b mod 16 * 16 + c div 4) # word_of_nat (c mod 4 * 64 + d) # b64_groups r"
| "b64_groups [a, b, c] = [word_of_nat (a * 4 + b div 16), word_of_nat (b mod 16 * 16 + c div 4)]"
| "b64_groups [a, b] = [word_of_nat (a * 4 + b div 16)]"
| "b64_groups _ = []"

definition ascii_ws :: "char \<Rightarrow> bool" where
  "ascii_ws c = (of_char c \<in> {9, 10, 12, 13, 32 :: nat})"

definition strip_pad :: "string \<Rightarrow> string" where
  "strip_pad s =
     (if length s mod 4 = 0 \<and> s \<noteq> [] \<and> last s = CHR ''=''
      then (let t = butlast s in if t \<noteq> [] \<and> last t = CHR ''='' then butlast t else t)
      else s)"

text \<open>The decoder of the browser.\<close>

definition atob :: "string \<Rightarrow> u8 list option" where
  "atob s =
     (let data = strip_pad (filter (\<lambda>c. \<not> ascii_ws c) s) in
      if length data mod 4 = 1 \<or> \<not> list_all (\<lambda>c. b64_value c \<noteq> None) data then None
      else Some (b64_groups (map (the \<circ> b64_value) data)))"

definition b64_standard :: "char \<Rightarrow> char" where
  "b64_standard c = (if c = CHR ''-'' then CHR ''+'' else if c = CHR ''_'' then CHR ''/'' else c)"

definition b64_fill :: "string \<Rightarrow> string" where
  "b64_fill s = s @ replicate ((4 - length s mod 4) mod 4) (CHR ''='')"

definition decodeServerPublicKey :: "string \<Rightarrow> u8 list option" where
  "decodeServerPublicKey encoded =
     (let trimmed = js_trim encoded in
      if trimmed = [] then None
      else let hexBody = strip_0x trimmed in
        if length hexBody = 64 \<and> list_all is_hex hexBody then
          (let bytes = hexToBytes hexBody in if length bytes = 32 then Some bytes else None)
        else case atob (b64_fill (map b64_standard trimmed)) of
            None \<Rightarrow> None
          | Some bin \<Rightarrow> if length bin \<noteq> 32 then None else Some bin)"

definition hasDecodablePublicKey :: "string \<Rightarrow> bool" where
  "hasDecodablePublicKey encoded = (decodeServerPublicKey encoded \<noteq> None)"


section \<open>Signed identities\<close>

record signed_id =
  si_peerId :: string
  si_peerPk :: "u8 list"
  si_signature :: "u8 list"
  si_payload :: "u8 list"

definition parseSignedId :: "(u8 list \<Rightarrow> unit + idpk) \<Rightarrow> u8 list \<Rightarrow> signed_id option" where
  "parseSignedId decodeIdPk bytes =
     (if length bytes < 64 + 4 then None
      else case decodeIdPk (drop 64 bytes) of
          Inl _ \<Rightarrow> None
        | Inr m \<Rightarrow> if length (ip_pk m) \<noteq> 32 then None
            else Some \<lparr>si_peerId = ip_id m, si_peerPk = ip_pk m, si_signature = take 64 bytes, si_payload = drop 64 bytes\<rparr>)"

datatype pubkey = KeyBytes "u8 list" | KeyText string

definition key_bytes :: "pubkey \<Rightarrow> u8 list option" where
  "key_bytes k = (case k of KeyBytes b \<Rightarrow> if length b = 32 then Some b else None | KeyText t \<Rightarrow> decodeServerPublicKey t)"

definition verifySignedId :: "nacl \<Rightarrow> u8 list \<Rightarrow> u8 list \<Rightarrow> pubkey \<Rightarrow> bool" where
  "verifySignedId N signature payload publicKey =
     (if length signature \<noteq> 64 then False
      else if payload = [] then False
      else case key_bytes publicKey of
          None \<Rightarrow> False
        | Some k \<Rightarrow> (case sign_verify N payload signature k of Inl _ \<Rightarrow> False | Inr ok \<Rightarrow> ok))"

definition verifyAndDecodeIdPk :: "nacl \<Rightarrow> (u8 list \<Rightarrow> unit + idpk) \<Rightarrow> u8 list \<Rightarrow> pubkey \<Rightarrow> (string \<times> u8 list) option" where
  "verifyAndDecodeIdPk N decodeIdPk signedBytes publicKey =
     (case parseSignedId decodeIdPk signedBytes of
        None \<Rightarrow> None
      | Some p \<Rightarrow>
          if \<not> verifySignedId N (si_signature p) (si_payload p) publicKey then None
          else Some (si_peerId p, si_peerPk p))"


section \<open>The encrypted stream\<close>

record rdcrypto =
  secretKey :: "u8 list option"
  asymKeyPair :: "(u8 list \<times> u8 list) option"
  peerPk :: "u8 list option"
  enabled :: bool
  sendSeq :: nat
  recvSeq :: nat

definition new_rdcrypto :: rdcrypto where
  "new_rdcrypto = \<lparr>secretKey = None, asymKeyPair = None, peerPk = None, enabled = False, sendSeq = 0, recvSeq = 0\<rparr>"

datatype crypto_error = NoKeypair | NoSymmetricKey

text \<open>The keys come from the random generator.\<close>

definition generateKeyPair :: "u8 list \<times> u8 list \<Rightarrow> rdcrypto \<Rightarrow> rdcrypto" where
  "generateKeyPair kp c = c\<lparr>asymKeyPair := Some kp\<rparr>"

definition generateSymmetricKey :: "u8 list \<Rightarrow> rdcrypto \<Rightarrow> rdcrypto" where
  "generateSymmetricKey k c = c\<lparr>secretKey := Some k\<rparr>"

definition setPeerPublicKey :: "u8 list \<Rightarrow> rdcrypto \<Rightarrow> rdcrypto" where
  "setPeerPublicKey pk c = c\<lparr>peerPk := Some pk\<rparr>"

text \<open>The public key of this side and the sealed symmetric key.\<close>

definition createSymmetricKeyMsg :: "nacl \<Rightarrow> u8 list \<Rightarrow> rdcrypto \<Rightarrow> crypto_error + u8 list \<times> u8 list" where
  "createSymmetricKeyMsg N theirPk c =
     (case asymKeyPair c of
        None \<Rightarrow> Inl NoKeypair
      | Some (pk, sk) \<Rightarrow>
          (case secretKey c of
             None \<Rightarrow> Inl NoSymmetricKey
           | Some k \<Rightarrow> Inr (pk, box_seal N k (replicate 24 0) theirPk sk)))"

definition js_succ :: "nat \<Rightarrow> nat" where
  "js_succ n = (if n < 2 ^ 53 then n + 1 else n)"

primrec nonce_bytes :: "nat \<Rightarrow> nat \<Rightarrow> u8 list" where
  "nonce_bytes 0 val = []"
| "nonce_bytes (Suc i) val = word_of_int (js_and (int val) 0xFF) # nonce_bytes i (val div 256)"

definition counterNonce :: "nat \<Rightarrow> u8 list" where
  "counterNonce counter = nonce_bytes 8 counter @ replicate 16 0"

definition encrypt :: "nacl \<Rightarrow> u8 list \<Rightarrow> rdcrypto \<Rightarrow> crypto_error + u8 list \<times> rdcrypto" where
  "encrypt N plaintext c =
     (case secretKey c of
        None \<Rightarrow> Inl NoSymmetricKey
      | Some k \<Rightarrow>
          let c' = c\<lparr>sendSeq := js_succ (sendSeq c)\<rparr>
          in Inr (secretbox N plaintext (counterNonce (sendSeq c')) k, c'))"

definition decrypt :: "nacl \<Rightarrow> u8 list \<Rightarrow> rdcrypto \<Rightarrow> crypto_error + u8 list option \<times> rdcrypto" where
  "decrypt N data c =
     (case secretKey c of
        None \<Rightarrow> Inl NoSymmetricKey
      | Some k \<Rightarrow>
          let c' = c\<lparr>recvSeq := js_succ (recvSeq c)\<rparr>
          in Inr (secretbox_open N data (counterNonce (recvSeq c')) k, c'))"

definition enable :: "rdcrypto \<Rightarrow> rdcrypto" where
  "enable c = c\<lparr>enabled := True, sendSeq := 0, recvSeq := 0\<rparr>"

definition tryDecrypt :: "nacl \<Rightarrow> u8 list \<Rightarrow> rdcrypto \<Rightarrow> (u8 list \<times> nat) option" where
  "tryDecrypt N data c =
     (case secretKey c of
        None \<Rightarrow> None
      | Some k \<Rightarrow>
          let nextSeq = js_succ (recvSeq c)
          in case secretbox_open N data (counterNonce nextSeq) k of
               None \<Rightarrow> None
             | Some plaintext \<Rightarrow> Some (plaintext, nextSeq))"

definition commitDecrypt :: "nat \<Rightarrow> rdcrypto \<Rightarrow> rdcrypto" where
  "commitDecrypt s c = c\<lparr>recvSeq := s\<rparr>"

definition processIncoming :: "nacl \<Rightarrow> u8 list \<Rightarrow> rdcrypto \<Rightarrow> crypto_error + u8 list option \<times> rdcrypto" where
  "processIncoming N data c = (if \<not> enabled c then Inr (Some data, c) else decrypt N data c)"

definition processOutgoing :: "nacl \<Rightarrow> u8 list \<Rightarrow> rdcrypto \<Rightarrow> crypto_error + u8 list \<times> rdcrypto" where
  "processOutgoing N data c = (if \<not> enabled c then Inr (data, c) else encrypt N data c)"


section \<open>Nonces\<close>

text \<open>The eight bytes of a 64-bit counter, little endian.\<close>

definition le64 :: "64 word \<Rightarrow> u8 list" where
  "le64 v = map (\<lambda>i. ucast (drop_bit (8 * i) v)) [0..<8]"

lemma low_byte: "word_of_int (js_and (int v) 0xFF) = (word_of_nat v :: u8)"
proof (rule bit_word_eqI)
  fix n assume n: "n < LENGTH(8)"
  have m: "(0xFF :: u32) = mask 8" by (simp add: mask_eq_exp_minus_1)
  have "bit (js_and (int v) 0xFF) n = bit (int v) n"
    using n unfolding js_and_def by (simp add: bit_sint_iff) (simp add: m bit_simps)
  then show "bit (word_of_int (js_and (int v) 0xFF) :: u8) n = bit (word_of_nat v :: u8) n"
    using n by (simp add: bit_simps)
qed

lemma nonce_bytes_nth: "nonce_bytes n v = map (\<lambda>i. word_of_nat (v div 256 ^ i)) [0..<n]"
proof (induction n arbitrary: v)
  case (Suc n)
  have "map (\<lambda>i. word_of_nat (v div 256 ^ i) :: u8) [0..<Suc n]
      = word_of_nat v # map (\<lambda>i. word_of_nat (v div 256 div 256 ^ i)) [0..<n]"
    by (simp only: upt_conv_Cons [of 0 "Suc n"] flip: map_Suc_upt) (simp add: div_mult2_eq comp_def)
  then show ?case using Suc by (simp add: low_byte del: upt_Suc)
qed simp

lemma counterNonce_le64: "counterNonce c = le64 (word_of_nat c) @ replicate 16 0"
proof -
  have "(word_of_nat (c div 256 ^ i) :: u8) = ucast (drop_bit (8 * i) (word_of_nat c :: 64 word))" if "i < 8" for i
  proof (rule bit_word_eqI)
    fix n assume "n < LENGTH(8)"
    have "c div 256 ^ i = drop_bit (8 * i) c" by (simp add: drop_bit_eq_div power_mult)
    then show "bit (word_of_nat (c div 256 ^ i) :: u8) n = bit (ucast (drop_bit (8 * i) (word_of_nat c :: 64 word)) :: u8) n"
      using that \<open>n < LENGTH(8)\<close> by (simp add: bit_simps)
  qed
  then show ?thesis by (simp add: counterNonce_def nonce_bytes_nth le64_def cong: map_cong)
qed

lemma length_nonce [simp]: "length (nonce_bytes n v) = n" "length (counterNonce c) = 24"
  by (simp_all add: nonce_bytes_nth counterNonce_def)

lemma nonce_bytes_inj: "nonce_bytes n v = nonce_bytes n v' \<Longrightarrow> v < 256 ^ n \<Longrightarrow> v' < 256 ^ n \<Longrightarrow> v = v'"
proof (induction n arbitrary: v v')
  case (Suc n)
  have hd: "(word_of_nat v :: u8) = word_of_nat v'" and tl: "nonce_bytes n (v div 256) = nonce_bytes n (v' div 256)"
    using Suc(2) by (simp_all add: low_byte)
  from hd have "unat (word_of_nat v :: u8) = unat (word_of_nat v' :: u8)" by (rule arg_cong)
  then have "v mod 256 = v' mod 256" by (simp add: unat_of_nat take_bit_eq_mod)
  moreover have "v div 256 = v' div 256" using Suc(1) [OF tl] Suc(3,4) by (simp add: less_mult_imp_div_less mult.commute)
  ultimately show ?case by (metis div_mult_mod_eq)
qed simp

lemma counterNonce_inj: "c \<le> 2 ^ 53 \<Longrightarrow> c' \<le> 2 ^ 53 \<Longrightarrow> counterNonce c = counterNonce c' \<Longrightarrow> c = c'"
  using nonce_bytes_inj [of 8 c c'] by (simp add: counterNonce_def)


section \<open>Runs of the stream\<close>

primrec encrypt_all :: "nacl \<Rightarrow> u8 list list \<Rightarrow> rdcrypto \<Rightarrow> crypto_error + u8 list list \<times> rdcrypto" where
  "encrypt_all N [] c = Inr ([], c)"
| "encrypt_all N (p # ps) c =
     (case encrypt N p c of
        Inl e \<Rightarrow> Inl e
      | Inr (f, c') \<Rightarrow> (case encrypt_all N ps c' of Inl e \<Rightarrow> Inl e | Inr (fs, c'') \<Rightarrow> Inr (f # fs, c'')))"

primrec decrypt_all :: "nacl \<Rightarrow> u8 list list \<Rightarrow> rdcrypto \<Rightarrow> crypto_error + u8 list option list \<times> rdcrypto" where
  "decrypt_all N [] c = Inr ([], c)"
| "decrypt_all N (f # fs) c =
     (case decrypt N f c of
        Inl e \<Rightarrow> Inl e
      | Inr (p, c') \<Rightarrow> (case decrypt_all N fs c' of Inl e \<Rightarrow> Inl e | Inr (ps, c'') \<Rightarrow> Inr (p # ps, c'')))"

lemma encrypt_all_some:
  assumes "secretKey c = Some k"
  shows "\<exists>fs. encrypt_all N ps c = Inr (fs, c\<lparr>sendSeq := (js_succ ^^ length ps) (sendSeq c)\<rparr>) \<and> length fs = length ps
    \<and> (\<forall>i < length ps. fs ! i = secretbox N (ps ! i) (counterNonce ((js_succ ^^ Suc i) (sendSeq c))) k)"
  using assms
proof (induction ps arbitrary: c)
  case (Cons p ps)
  let ?c = "c\<lparr>sendSeq := js_succ (sendSeq c)\<rparr>"
  obtain fs where fs: "encrypt_all N ps ?c = Inr (fs, ?c\<lparr>sendSeq := (js_succ ^^ length ps) (sendSeq ?c)\<rparr>)"
      "length fs = length ps"
      "\<forall>i < length ps. fs ! i = secretbox N (ps ! i) (counterNonce ((js_succ ^^ Suc i) (sendSeq ?c))) k"
    using Cons(1) [of ?c] Cons(2) by auto
  let ?f = "secretbox N p (counterNonce (js_succ (sendSeq c))) k"
  have "(?f # fs) ! i = secretbox N ((p # ps) ! i) (counterNonce ((js_succ ^^ Suc i) (sendSeq c))) k"
    if "i < length (p # ps)" for i
    using fs(3) that by (cases i) (auto simp: funpow_swap1)
  with fs(1,2) Cons(2) show ?case by (auto simp: encrypt_def Let_def funpow_swap1)
qed simp

lemma js_succ_run: "x + n \<le> 2 ^ 53 \<Longrightarrow> (js_succ ^^ n) x = x + n"
  by (induction n) (auto simp: js_succ_def)


lemma js_succ_stuck: "(js_succ ^^ n) (2 ^ 53) = 2 ^ 53"
  by (induction n) (simp_all add: js_succ_def)

text \<open>C40: The nonces of a run of encryptions are its counters and do not repeat while the counter is exact.
  Take any messages that are encrypted one after another from a state with a key, with no new key exchange in
  between. Message \<open>i\<close> of the run is sealed under the 64-bit little-endian counter of its position,
  padded to 24 bytes; as long as the counter stays within \<open>2 ^ 53\<close> these nonces are pairwise different.
  At \<open>2 ^ 53\<close> the counter stops growing, and from then on every message is sealed under the same nonce.
  Switching the encryption on again sets the counter back, which a second key exchange does under the same key
  (\<open>second_key_exchange_reuses_nonce\<close>): a whole session is not covered.\<close>

theorem nonces_distinct_up_to_2_53:
  assumes "secretKey c = Some k" and "encrypt_all N ps c = Inr (fs, c')"
  shows "length fs = length ps
    \<and> (sendSeq c + length ps \<le> 2 ^ 53 \<longrightarrow>
         (\<forall>i < length ps. fs ! i
            = secretbox N (ps ! i) (le64 (word_of_nat (sendSeq c + Suc i)) @ replicate 16 0) k)
         \<and> distinct (map (\<lambda>i. le64 (word_of_nat (sendSeq c + Suc i)) @ replicate 16 0) [0..<length ps]))
    \<and> (sendSeq c = 2 ^ 53 \<longrightarrow> (\<forall>i < length ps. fs ! i = secretbox N (ps ! i) (counterNonce (2 ^ 53)) k))"
proof -
  have fs: "length fs = length ps"
      "\<forall>i < length ps. fs ! i = secretbox N (ps ! i) (counterNonce ((js_succ ^^ Suc i) (sendSeq c))) k"
    using encrypt_all_some [OF assms(1), of N ps] assms(2) by auto
  have run: "(js_succ ^^ Suc i) (sendSeq c) = sendSeq c + Suc i" if "sendSeq c + length ps \<le> 2 ^ 53" "i < length ps" for i
    using that by (intro js_succ_run) simp
  have "inj_on (\<lambda>i. counterNonce (sendSeq c + Suc i)) {0..<length ps}" if "sendSeq c + length ps \<le> 2 ^ 53"
    using that by (intro inj_onI) (auto dest!: counterNonce_inj [rotated 2])
  then have dist: "distinct (map (\<lambda>i. counterNonce (sendSeq c + Suc i)) [0..<length ps])"
    if "sendSeq c + length ps \<le> 2 ^ 53" using that by (simp add: distinct_map)
  have "sendSeq c = 2 ^ 53 \<Longrightarrow> i < length ps \<Longrightarrow> fs ! i = secretbox N (ps ! i) (counterNonce (2 ^ 53)) k" for i
    using fs(2) js_succ_stuck [of "Suc i"] by metis
  moreover have "fs ! i = secretbox N (ps ! i) (counterNonce (sendSeq c + Suc i)) k"
    if "sendSeq c + length ps \<le> 2 ^ 53" "i < length ps" for i using fs(2) run [OF that] that(2) by metis
  ultimately show ?thesis using fs(1) dist unfolding counterNonce_le64 by blast
qed

text \<open>What one side encrypts the other decrypts.  If the library opens what it seals, two sides with the
  same key and matching counters stay in step: a sequence of messages that is encrypted on one side and decrypted
  frame by frame on the other comes out unchanged, and the counters match again.\<close>

theorem encrypted_stream_roundtrip:
  assumes "\<And>m n k. secretbox_open N (secretbox N m n k) n k = Some m"
    and "secretKey a = Some k" and "secretKey b = Some k" and "recvSeq b = sendSeq a"
    and "encrypt_all N ps a = Inr (fs, a')"
  shows "\<exists>b'. decrypt_all N fs b = Inr (map Some ps, b') \<and> recvSeq b' = sendSeq a'"
  using assms(2-5)
proof (induction ps arbitrary: a b fs)
  case (Cons p ps)
  let ?a = "a\<lparr>sendSeq := js_succ (sendSeq a)\<rparr>" and ?b = "b\<lparr>recvSeq := js_succ (recvSeq b)\<rparr>"
  obtain gs where gs: "encrypt_all N ps ?a = Inr (gs, a')"
      "fs = secretbox N p (counterNonce (js_succ (sendSeq a))) k # gs"
    using Cons(2,5) by (auto simp: encrypt_def Let_def split: sum.splits)
  have "\<exists>b'. decrypt_all N gs ?b = Inr (map Some ps, b') \<and> recvSeq b' = sendSeq a'"
    using Cons(1) [of ?a ?b gs] Cons(2-4) gs(1) by simp
  then show ?case using gs(2) Cons(3,4) assms(1) by (auto simp: decrypt_def Let_def)
qed simp

text \<open>A concrete library for the witnesses: a frame is the nonce, the key and the message.\<close>

definition toy_nacl :: nacl where
  "toy_nacl = \<lparr>secretbox = (\<lambda>m n k. n @ k @ m),
     secretbox_open = (\<lambda>f n k. if take (length n + length k) f = n @ k then Some (drop (length n + length k) f) else None),
     box_seal = (\<lambda>m n pk sk. m), sign_verify = (\<lambda>p s k. Inr (take 32 s = k))\<rparr>"

lemma toy_open: "secretbox_open toy_nacl (secretbox toy_nacl m n k) n k = Some m"
  by (simp add: toy_nacl_def)

lemma toy_sealed: "secretbox_open toy_nacl f n k = Some m \<Longrightarrow> f = secretbox toy_nacl m n k"
  by (auto simp: toy_nacl_def split: if_splits) (metis append.assoc append_take_drop_id)

definition demo_crypto :: rdcrypto where
  "demo_crypto = new_rdcrypto\<lparr>secretKey := Some [7], enabled := True\<rparr>"

lemma demo_encrypt:
  "encrypt_all toy_nacl [[1], [2]] demo_crypto
     = Inr ([secretbox toy_nacl [1] (counterNonce 1) [7], secretbox toy_nacl [2] (counterNonce 2) [7]],
            demo_crypto\<lparr>sendSeq := 2\<rparr>)"
proof -
  have "js_succ 0 = 1" "js_succ 1 = 2" by (simp_all add: js_succ_def)
  then show ?thesis by (simp add: encrypt_def Let_def demo_crypto_def new_rdcrypto_def)
qed

theorem nonces_distinct_up_to_2_53_witness:
  "length [secretbox toy_nacl [1] (counterNonce 1) [7], secretbox toy_nacl [2] (counterNonce 2) [7]] = 2
   \<and> distinct (map (\<lambda>i. le64 (word_of_nat (0 + Suc i)) @ replicate 16 0) [0..<length [[1], [2 :: u8]]])"
proof -
  have k: "secretKey demo_crypto = Some [7]" "sendSeq demo_crypto = 0"
    by (simp_all add: demo_crypto_def new_rdcrypto_def)
  from nonces_distinct_up_to_2_53 [OF k(1) demo_encrypt] show ?thesis by (simp only: k(2)) simp
qed

theorem encrypted_stream_roundtrip_witness:
  "\<exists>b'. decrypt_all toy_nacl [secretbox toy_nacl [1] (counterNonce 1) [7], secretbox toy_nacl [2] (counterNonce 2) [7]]
      demo_crypto = Inr ([Some [1], Some [2]], b') \<and> recvSeq b' = 2"
proof -
  have k: "secretKey demo_crypto = Some [7]" "sendSeq demo_crypto = 0" "recvSeq demo_crypto = 0"
    by (simp_all add: demo_crypto_def new_rdcrypto_def)
  from encrypted_stream_roundtrip [OF toy_open k(1) k(1) _ demo_encrypt] k show ?thesis by simp
qed


section \<open>Formats of keys\<close>

text \<open>The encoders are the specification: base64 with the standard or the URL alphabet, and lower-case
  hexadecimal digits.\<close>

fun b64_sextets :: "nat list \<Rightarrow> nat list" where
  "b64_sextets (a # b # c # r) =
     a div 4 # (a mod 4 * 16 + b div 16) # (b mod 16 * 4 + c div 64) # c mod 64 # b64_sextets r"
| "b64_sextets [a, b] = [a div 4, a mod 4 * 16 + b div 16, b mod 16 * 4]"
| "b64_sextets [a] = [a div 4, a mod 4 * 16]"
| "b64_sextets [] = []"

definition b64_char :: "bool \<Rightarrow> nat \<Rightarrow> char" where
  "b64_char url n =
     (if n < 26 then char_of (n + 65) else if n < 52 then char_of (n + 71) else if n < 62 then char_of (n - 4)
      else if n = 62 then (if url then CHR ''-'' else CHR ''+'') else (if url then CHR ''_'' else CHR ''/''))"

definition base64 :: "bool \<Rightarrow> u8 list \<Rightarrow> string" where
  "base64 url bs = map (b64_char url) (b64_sextets (map unat bs))"

definition hex_char :: "nat \<Rightarrow> char" where
  "hex_char n = (if n < 10 then char_of (n + 48) else char_of (n + 87))"

definition to_hex :: "u8 list \<Rightarrow> string" where
  "to_hex bs = concat (map (\<lambda>b. [hex_char (unat b div 16), hex_char (unat b mod 16)]) bs)"

lemma unat_u8: "unat (b :: u8) < 256"
proof -
  have "unat b < 2 ^ LENGTH(8)" by (rule unsigned_less)
  then show ?thesis by simp
qed

lemma b64_groups_sextets: "\<forall>x \<in> set xs. x < 256 \<Longrightarrow> b64_groups (b64_sextets xs) = map word_of_nat xs"
proof (induction xs rule: b64_sextets.induct)
  case (1 a b c r)
  have q: "(a mod 4 * 16 + b div 16) div 16 = a mod 4" "(a mod 4 * 16 + b div 16) mod 16 = b div 16"
    "(b mod 16 * 4 + c div 64) div 4 = b mod 16" "(b mod 16 * 4 + c div 64) mod 4 = c div 64"
    "b div 16 mod 16 = b div 16" "c div 64 mod 4 = c div 64" using 1(2) by auto
  show ?case using 1 by (simp add: q del: of_nat_add of_nat_mult)
next
  case (2 a b)
  have q: "(a mod 4 * 16 + b div 16) div 16 = a mod 4" "(a mod 4 * 16 + b div 16) mod 16 = b div 16" "b div 16 mod 16 = b div 16"
    using 2 by auto
  show ?case by (simp add: q del: of_nat_add of_nat_mult)
qed simp_all

lemma sextets_small: "\<forall>x \<in> set xs. x < 256 \<Longrightarrow> \<forall>v \<in> set (b64_sextets xs). v < 64"
proof (induction xs rule: b64_sextets.induct)
  case (1 a b c r)
  have "a mod 4 * 16 + b div 16 < 64" "b mod 16 * 4 + c div 64 < 64" "a div 4 < 64"
    using 1(2) mod_less_divisor [of 4 a] mod_less_divisor [of 16 b] by auto
  with 1 show ?case by simp
next
  case (2 a b)
  have "a mod 4 * 16 + b div 16 < 64" "b mod 16 * 4 < 64" "a div 4 < 64"
    using 2 mod_less_divisor [of 4 a] mod_less_divisor [of 16 b] by auto
  then show ?case by simp
next
  case (3 a)
  have "a mod 4 * 16 < 64" using mod_less_divisor [of 4 a] by linarith
  with 3 show ?case by auto
qed simp

lemma length_sextets: "length (b64_sextets xs) = (length xs * 4 + 2) div 3"
  by (induction xs rule: b64_sextets.induct) simp_all

definition key_char_ok :: "nat \<Rightarrow> bool" where
  "key_char_ok n = (list_all (\<lambda>u. let c = b64_char u n in
     b64_value (b64_standard c) = Some n \<and> \<not> ascii_ws (b64_standard c) \<and> b64_standard c \<noteq> CHR ''=''
     \<and> \<not> js_ws c) [False, True])"

lemma key_chars: "n < 64 \<Longrightarrow> key_char_ok n"
proof -
  assume n: "n < 64"
  have "list_all key_char_ok [0..<64]" by code_simp
  with n show ?thesis by (simp add: list_all_iff)
qed


lemma js_trim_no_ws: "list_all (\<lambda>c. \<not> js_ws c) s \<Longrightarrow> js_trim s = s"
proof -
  assume a: "list_all (\<lambda>c. \<not> js_ws c) s"
  have dw: "dropWhile js_ws t = t" if "list_all (\<lambda>c. \<not> js_ws c) t" for t using that by (cases t) auto
  have "list_all (\<lambda>c. \<not> js_ws c) (rev s)" using a by (simp add: list_all_iff)
  then show ?thesis using dw [OF a] dw [of "rev s"] by (simp add: js_trim_def)
qed

lemma strip_pad_one: "length s mod 4 = 3 \<Longrightarrow> s \<noteq> [] \<Longrightarrow> last s \<noteq> CHR ''='' \<Longrightarrow> strip_pad (s @ ''='') = s"
proof -
  assume a: "length s mod 4 = 3" "s \<noteq> []" "last s \<noteq> CHR ''=''"
  have "length (s @ ''='') mod 4 = 0" using a(1) by simp presburger
  with a(2,3) show ?thesis by (simp add: strip_pad_def)
qed

lemma decode_base64:
  assumes "length key = 32" and "t = base64 url key \<or> t = base64 url key @ ''=''"
  shows "decodeServerPublicKey t = Some key"
proof -
  define xs where "xs = b64_sextets (map unat key)"
  define s where "s = map (b64_standard \<circ> b64_char url) xs"
  have small: "\<forall>v \<in> set xs. key_char_ok v"
    unfolding xs_def using sextets_small [of "map unat key"] key_chars by (simp add: unat_u8)
  have len: "length xs = 43" "length s = 43" using assms(1) by (simp_all add: xs_def s_def length_sextets)
  have ch: "b64_value (b64_standard (b64_char url v)) = Some v" "\<not> ascii_ws (b64_standard (b64_char url v))"
      "b64_standard (b64_char url v) \<noteq> CHR ''=''" "\<not> js_ws (b64_char url v)" if "v \<in> set xs" for v
    using small that by (cases url; auto simp: key_char_ok_def Let_def)+
  have "list_all (\<lambda>c. \<not> js_ws c) t" using assms(2) ch(4) by (auto simp: base64_def list_all_iff js_ws_def simp flip: xs_def)
  then have tr: "js_trim t = t" by (rule js_trim_no_ws)
  have lt: "length t = 43 \<or> length t = 44" using assms(2) len(1) by (auto simp: base64_def simp flip: xs_def)
  then have nohex: "length (strip_0x t) \<noteq> 64" "t \<noteq> []" by (auto simp: strip_0x_def)
  have fill: "b64_fill (map b64_standard t) = s @ ''=''"
    using assms(2) len by (auto simp: b64_fill_def base64_def s_def b64_standard_def simp flip: xs_def)
  have nows: "filter (\<lambda>c. \<not> ascii_ws c) (s @ ''='') = s @ ''=''"
    using ch(2) by (auto simp: filter_id_conv s_def ascii_ws_def)
  have noeq: "CHR ''='' \<notin> set s" using ch(3) by (fastforce simp: s_def)
  have "s \<noteq> []" using len(2) by auto
  moreover have "last s \<noteq> CHR ''=''" using last_in_set [OF calculation] noeq by metis
  ultimately have pad: "strip_pad (s @ ''='') = s" using len(2) by (intro strip_pad_one) simp_all
  have val: "map (the \<circ> b64_value) s = xs" using ch(1) by (auto simp: s_def intro: map_idI)
  have "list_all (\<lambda>c. b64_value c \<noteq> None) s" using ch(1) by (auto simp: s_def list_all_iff)
  then have "atob (s @ ''='') = Some (b64_groups xs)"
    using nows pad len(2) val by (simp add: atob_def Let_def)
  moreover have "b64_groups xs = key"
    using b64_groups_sextets [of "map unat key"] by (simp add: xs_def unat_u8 comp_def)
  ultimately show ?thesis
    using tr nohex fill assms(1) by (simp add: decodeServerPublicKey_def Let_def)
qed

definition hex_char_ok :: "nat \<Rightarrow> bool" where
  "hex_char_ok n = (let c = hex_char n in hex_value c = n \<and> is_hex c \<and> \<not> js_ws c)"

lemma hex_chars: "n < 16 \<Longrightarrow> hex_char_ok n"
proof -
  assume n: "n < 16"
  have "list_all hex_char_ok [0..<16]" by code_simp
  with n show ?thesis by (simp add: list_all_iff)
qed

lemma hex_not_x: "is_hex b \<Longrightarrow> js_lower_char b \<noteq> CHR ''x''"
proof
  assume h: "is_hex b" and b: "js_lower_char b = CHR ''x''"
  let ?n = "of_char b :: nat"
  have "of_char (js_lower_char b) = (120 :: nat)" unfolding b by simp
  moreover have "of_char (js_lower_char b) = (if 65 \<le> ?n \<and> ?n \<le> 70 then ?n + 32 else ?n)"
    using h by (auto simp: is_hex_def js_lower_char_def Let_def)
  ultimately show False using h by (auto simp: is_hex_def Let_def split: if_splits)
qed

lemma strip_hex: "list_all is_hex s \<Longrightarrow> strip_0x s = s"
proof (rule ccontr)
  assume h: "list_all is_hex s" and "strip_0x s \<noteq> s"
  then have "js_lower (take 2 s) = ''0x''" by (auto simp: strip_0x_def split: if_splits)
  then obtain a b r where s: "s = a # b # r" and b: "js_lower_char b = CHR ''x''"
    by (cases s; cases "tl s") (auto simp: js_lower_def)
  with h hex_not_x [of b] show False by simp
qed

lemma to_hex_props:
  "length (to_hex bs) = 2 * length bs" "list_all is_hex (to_hex bs)" "list_all (\<lambda>c. \<not> js_ws c) (to_hex bs)"
  "hex_pairs (to_hex bs) = bs"
proof -
  have d: "unat b div 16 < 16" for b :: u8 using unat_u8 [of b] by linarith
  have c: "hex_char_ok (unat b div 16)" "hex_char_ok (unat b mod 16)" for b :: u8
    by (rule hex_chars, rule d) (rule hex_chars, simp)
  show "length (to_hex bs) = 2 * length bs" by (induction bs) (simp_all add: to_hex_def)
  show "list_all is_hex (to_hex bs)" using c by (induction bs) (simp_all add: to_hex_def hex_char_ok_def Let_def)
  show "list_all (\<lambda>c. \<not> js_ws c) (to_hex bs)" using c by (induction bs) (simp_all add: to_hex_def hex_char_ok_def Let_def)
  show "hex_pairs (to_hex bs) = bs"
  proof (induction bs)
    case (Cons b bs)
    have "hex_value (hex_char (unat b div 16)) = unat b div 16" "hex_value (hex_char (unat b mod 16)) = unat b mod 16"
      using c [of b] by (simp_all add: hex_char_ok_def Let_def)
    with Cons show ?case by (simp add: to_hex_def del: of_nat_add of_nat_mult)
  qed (simp add: to_hex_def)
qed

lemma decode_hex:
  assumes "length key = 32" and "t = to_hex key \<or> t = ''0x'' @ to_hex key"
  shows "decodeServerPublicKey t = Some key"
proof -
  note h = to_hex_props [of key]
  have "list_all (\<lambda>c. \<not> js_ws c) t" using assms(2) h(3) by (auto simp: js_ws_def)
  then have tr: "js_trim t = t" by (rule js_trim_no_ws)
  have st: "strip_0x t = to_hex key"
    using assms(2) strip_hex [OF h(2)] by (auto simp: strip_0x_def js_lower_def js_lower_char_def)
  have "t \<noteq> []" using assms h(1) by auto
  then show ?thesis
    using tr st h assms(1) strip_hex [OF h(2)] by (simp add: decodeServerPublicKey_def hexToBytes_def Let_def)
qed

text \<open>A key of the server is read back from every format in use: base64 and its URL variant, with or without
  padding, and hexadecimal digits, with or without the prefix \<open>0x\<close>.  Decoding gives the 32 bytes of the key.\<close>

theorem server_key_formats_read_back:
  assumes "length key = 32"
    and "encoded \<in> {to_hex key, ''0x'' @ to_hex key, base64 url key, base64 url key @ ''=''}"
  shows "decodeServerPublicKey encoded = Some key \<and> hasDecodablePublicKey encoded"
  using assms decode_hex [of key encoded] decode_base64 [of key encoded url] by (auto simp: hasDecodablePublicKey_def)

theorem server_key_formats_read_back_witness:
  "decodeServerPublicKey (base64 True (replicate 32 251)) = Some (replicate 32 251)
   \<and> hasDecodablePublicKey (base64 True (replicate 32 251))"
  by (rule server_key_formats_read_back [where url = True]) simp_all

end
