(* ===== verification/Rd_Client.thy ===== *)
theory Rd_Client
  imports Rd_Crypto Event_System "HOL-Library.Monad_Syntax"
begin

text \<open>
  The session of the web remote client with a RustDesk peer, \<open>src/web-nodejs/public/js/rdclient/client.js\<close>: the
  handshake on the relay connection, the deferred key exchange, speculative decryption, login, second factor and
  the start and the end of a session.

  The state machine begins when \<open>connect\<close> has opened the relay connection.  An event is a frame from the relay
  together with the fresh keys it may use, an action of the user, the continuation of \<open>authenticate\<close> after its
  \<open>await\<close>, a message of another module (input, clipboard, video) or the end of the connection.  The protobuf
  codec is an argument; the serializer also fills in the options of a login request, which do not depend on the
  handshake.  \<open>None\<close> is an exception of the encryption layer; the invariant shows that none is raised.  Log
  messages are left out.
\<close>

section \<open>Messages\<close>

datatype misc = MiscClose string | MiscOther

record test_delay =
  td_time :: int
  td_fromClient :: bool
  td_lastDelay :: int
  td_targetBitrate :: int

text \<open>A decoded message.  The fields are those the dispatcher distinguishes, in its order; \<open>pm_media\<close> stands
  for audio, cursor and clipboard, \<open>pm_file\<close> for file responses and the file clipboard, and \<open>pm_unknown\<close> for
  fields without a handler.\<close>

record pmsg =
  pm_hash :: "(string \<times> string) option"
  pm_loginResponse :: "(string \<times> bool) option"
  pm_videoFrame :: bool
  pm_media :: bool
  pm_testDelay :: "test_delay option"
  pm_misc :: "misc option"
  pm_audioFormat :: bool
  pm_peerInfo :: bool
  pm_publicKey :: bool
  pm_file :: bool
  pm_signedId :: "u8 list option"
  pm_unknown :: bool

definition has_fields :: "pmsg \<Rightarrow> bool" where
  "has_fields m = (pm_hash m \<noteq> None \<or> pm_loginResponse m \<noteq> None \<or> pm_videoFrame m \<or> pm_media m
     \<or> pm_testDelay m \<noteq> None \<or> pm_misc m \<noteq> None \<or> pm_audioFormat m \<or> pm_peerInfo m \<or> pm_publicKey m
     \<or> pm_file m \<or> pm_signedId m \<noteq> None \<or> pm_unknown m)"

datatype outmsg =
    OPublicKey "u8 list" "u8 list"
  | OLoginRequest "u8 list" string
  | OAuth2FA string
  | OTestDelay int bool int int
  | OMisc string
  | OOther "u8 list"

record proto =
  decodeRendezvous :: "u8 list \<Rightarrow> unit + bool"
  decodeMessage :: "u8 list \<Rightarrow> unit + pmsg"
  decodeIdPk :: "u8 list \<Rightarrow> unit + idpk"
  serializeMessage :: "outmsg \<Rightarrow> u8 list"
  digest :: "(u8 list \<Rightarrow> u8 list) option"

datatype client_state =
    Connecting | WaitingPassword | Waiting2fa | Authenticating | Streaming | Disconnected | Failed

datatype client_event_out =
    PasswordRequired | EncryptionWarning | SignatureWarning string
  | TwofaError string | TwofaRequired | LoginError string | LoginSuccess | PeerInfoReceived
  | SessionStart | Latency int | DisconnectedBy string

record options =
  opt_deviceId :: string
  opt_serverPubKey :: string

text \<open>\<open>cl_sent\<close> records what was passed to the socket: the message and the bytes on the wire.\<close>

record rdclient =
  cl_state :: client_state
  cl_crypto :: rdcrypto
  cl_challenge :: string
  cl_salt :: string
  cl_password :: string
  relayFrameIdx :: nat
  relayConfirmReceived :: bool
  peerEncryptionConfirmed :: bool
  keyExchangePending :: bool
  keyExchangeDone :: bool
  peerSignedPk :: "u8 list option"
  relayOpen :: bool
  cl_logins :: "u8 list list"
  cl_sent :: "(outmsg \<times> u8 list) list"
  cl_emitted :: "client_event_out list"

definition emit :: "client_event_out \<Rightarrow> rdclient \<Rightarrow> rdclient" where
  "emit e c = c\<lparr>cl_emitted := cl_emitted c @ [e]\<rparr>"

definition setState :: "client_state \<Rightarrow> rdclient \<Rightarrow> rdclient" where
  "setState s c = c\<lparr>cl_state := s\<rparr>"

text \<open>The client when \<open>connect\<close> returns.\<close>

definition relay_started :: "u8 list option \<Rightarrow> rdclient" where
  "relay_started pk =
     \<lparr>cl_state = WaitingPassword, cl_crypto = new_rdcrypto, cl_challenge = [], cl_salt = [], cl_password = [],
      relayFrameIdx = 0, relayConfirmReceived = False, peerEncryptionConfirmed = False, keyExchangePending = False,
      keyExchangeDone = False, peerSignedPk = pk, relayOpen = True, cl_logins = [], cl_sent = [], cl_emitted = []\<rparr>"


section \<open>Sending\<close>

definition sendRelay :: "outmsg \<Rightarrow> u8 list \<Rightarrow> rdclient \<Rightarrow> rdclient" where
  "sendRelay m data c = (if relayOpen c then c\<lparr>cl_sent := cl_sent c @ [(m, data)]\<rparr> else c)"

definition sendPeerMessage :: "nacl \<Rightarrow> proto \<Rightarrow> outmsg \<Rightarrow> rdclient \<Rightarrow> rdclient option" where
  "sendPeerMessage N P m c =
     (let data = serializeMessage P m in
      if enabled (cl_crypto c) then
        (case processOutgoing N data (cl_crypto c) of
           Inl _ \<Rightarrow> None
         | Inr (sealed, cr) \<Rightarrow> Some (sendRelay m sealed (c\<lparr>cl_crypto := cr\<rparr>)))
      else Some (sendRelay m data c))"


section \<open>The end of a session\<close>

definition client_cleanup :: "rdclient \<Rightarrow> rdclient" where
  "client_cleanup c = c\<lparr>cl_password := [], relayOpen := False\<rparr>"

definition handleDisconnect :: "string \<Rightarrow> rdclient \<Rightarrow> rdclient" where
  "handleDisconnect reason c = emit (DisconnectedBy reason) (setState Disconnected (client_cleanup c))"

definition disconnect :: "rdclient \<Rightarrow> rdclient" where
  "disconnect c = setState Disconnected (client_cleanup c)"


section \<open>Handlers\<close>

definition is2faWrongError :: "string \<Rightarrow> bool" where
  "is2faWrongError err = (let e = js_lower err in sublist ''wrong 2fa'' e \<or> sublist ''invalid 2fa'' e)"

definition is2faRequiredError :: "string \<Rightarrow> bool" where
  "is2faRequiredError err =
     (if is2faWrongError err then False
      else let e = js_lower err
        in sublist ''2fa required'' e \<or> sublist ''totp'' e \<or> sublist ''verification code'' e)"

text \<open>The messages that tell the peer about the wanted stream.\<close>

definition startSession :: "nacl \<Rightarrow> proto \<Rightarrow> rdclient \<Rightarrow> rdclient option" where
  "startSession N P c = do {
     c1 \<leftarrow> sendPeerMessage N P (OMisc ''option'') (setState Streaming c);
     c2 \<leftarrow> sendPeerMessage N P (OMisc ''autoAdjustFps'') c1;
     c3 \<leftarrow> sendPeerMessage N P (OMisc ''refreshVideo'') c2;
     c4 \<leftarrow> sendPeerMessage N P (OMisc ''supportedEncoding'') c3;
     Some (emit SessionStart c4) }"

definition handleLoginResponse :: "nacl \<Rightarrow> proto \<Rightarrow> string \<Rightarrow> bool \<Rightarrow> rdclient \<Rightarrow> rdclient option" where
  "handleLoginResponse N P err hasPeerInfo c =
     (if err \<noteq> [] then
        if is2faWrongError err then Some (emit (TwofaError err) (setState Waiting2fa c))
        else if is2faRequiredError err then Some (emit TwofaRequired (setState Waiting2fa c))
        else Some (setState WaitingPassword (emit (LoginError err) c))
      else
        let c1 = emit LoginSuccess c
        in startSession N P (if hasPeerInfo then emit PeerInfoReceived c1 else c1))"

definition handlePeerInfo :: "nacl \<Rightarrow> proto \<Rightarrow> rdclient \<Rightarrow> rdclient option" where
  "handlePeerInfo N P c =
     (let c1 = emit PeerInfoReceived c
      in if cl_state c1 = WaitingPassword then startSession N P c1 else Some c1)"

definition handleTestDelay :: "nacl \<Rightarrow> proto \<Rightarrow> int \<Rightarrow> test_delay \<Rightarrow> rdclient \<Rightarrow> rdclient option" where
  "handleTestDelay N P now td c =
     (if \<not> td_fromClient td
      then sendPeerMessage N P (OTestDelay (td_time td) False (td_lastDelay td) (td_targetBitrate td)) c
      else Some (emit (Latency (now - td_time td)) c))"

definition handleMisc :: "misc \<Rightarrow> rdclient \<Rightarrow> rdclient" where
  "handleMisc m c = (case m of MiscClose r \<Rightarrow> handleDisconnect (''Remote: '' @ r) c | MiscOther \<Rightarrow> c)"

text \<open>What the client finds out about the identity of the peer.  Only the warnings depend on it.\<close>

definition signature_report :: "nacl \<Rightarrow> proto \<Rightarrow> options \<Rightarrow> signed_id \<Rightarrow> rdclient \<Rightarrow> rdclient" where
  "signature_report N P opts parsed c =
     (case peerSignedPk c of
        None \<Rightarrow> c
      | Some pk \<Rightarrow>
          if hasDecodablePublicKey (opt_serverPubKey opts) \<and> pk \<noteq> [] then
            (case verifyAndDecodeIdPk N (decodeIdPk P) pk (KeyText (opt_serverPubKey opts)) of
               None \<Rightarrow> emit (SignatureWarning ''Server-signed peer identity could not be verified.'') c
             | Some (peerId, identityPk) \<Rightarrow>
                 if verifySignedId N (si_signature parsed) (si_payload parsed) (KeyBytes identityPk) then c
                 else emit (SignatureWarning ''Ed25519 signature verification failed. Connection may be intercepted.'') c)
          else c)"

text \<open>The fresh keys: a key pair and a symmetric key.\<close>

type_synonym fresh = "(u8 list \<times> u8 list) \<times> u8 list"

definition prepare_keys :: "fresh \<Rightarrow> u8 list \<Rightarrow> rdclient \<Rightarrow> rdclient" where
  "prepare_keys fresh pk c =
     c\<lparr>cl_crypto := setPeerPublicKey pk (generateSymmetricKey (snd fresh) (generateKeyPair (fst fresh) (cl_crypto c))),
       keyExchangePending := True, keyExchangeDone := False\<rparr>"

definition handleSignedId :: "nacl \<Rightarrow> proto \<Rightarrow> options \<Rightarrow> fresh \<Rightarrow> u8 list \<Rightarrow> rdclient \<Rightarrow> rdclient" where
  "handleSignedId N P opts fresh idBytes c =
     (if idBytes = [] then c
      else case parseSignedId (decodeIdPk P) idBytes of
          None \<Rightarrow> c
        | Some parsed \<Rightarrow> prepare_keys fresh (si_peerPk parsed) (signature_report N P opts parsed c))"

definition completeKeyExchange :: "nacl \<Rightarrow> proto \<Rightarrow> rdclient \<Rightarrow> rdclient option" where
  "completeKeyExchange N P c =
     (if keyExchangeDone c then Some c
      else case peerPk (cl_crypto c) of
          None \<Rightarrow> Some c
        | Some pk \<Rightarrow>
            (case createSymmetricKeyMsg N pk (cl_crypto c) of
               Inl _ \<Rightarrow> None
             | Inr (ourPk, sealedKey) \<Rightarrow> do {
                 c1 \<leftarrow> sendPeerMessage N P (OPublicKey ourPk sealedKey) c;
                 Some (c1\<lparr>cl_crypto := (cl_crypto c1)\<lparr>enabled := True, sendSeq := 0, recvSeq := 0\<rparr>,
                   keyExchangePending := False, keyExchangeDone := True\<rparr>) }))"

definition dispatchMessage :: "nacl \<Rightarrow> proto \<Rightarrow> options \<Rightarrow> fresh \<Rightarrow> int \<Rightarrow> pmsg \<Rightarrow> rdclient \<Rightarrow> rdclient option" where
  "dispatchMessage N P opts fresh now m c =
     (case pm_hash m of
        Some (challenge, salt) \<Rightarrow>
          Some (emit PasswordRequired (setState WaitingPassword (c\<lparr>cl_challenge := challenge, cl_salt := salt\<rparr>)))
      | None \<Rightarrow>
     (case pm_loginResponse m of
        Some (err, hasPeerInfo) \<Rightarrow> handleLoginResponse N P err hasPeerInfo c
      | None \<Rightarrow>
        if pm_videoFrame m then sendPeerMessage N P (OMisc ''videoReceived'') c
        else if pm_media m then Some c
        else
     (case pm_testDelay m of
        Some td \<Rightarrow> handleTestDelay N P now td c
      | None \<Rightarrow>
     (case pm_misc m of
        Some mi \<Rightarrow> Some (handleMisc mi c)
      | None \<Rightarrow>
        if pm_audioFormat m then Some c
        else if pm_peerInfo m then handlePeerInfo N P c
        else if pm_publicKey m then Some c
        else if pm_file m then Some c
        else case pm_signedId m of
            Some idBytes \<Rightarrow> Some (handleSignedId N P opts fresh idBytes c)
          | None \<Rightarrow> Some c))))"


section \<open>Frames from the relay\<close>

definition is_plaintext :: "proto \<Rightarrow> u8 list \<Rightarrow> bool" where
  "is_plaintext P frame = (case decodeMessage P frame of Inl _ \<Rightarrow> False | Inr m \<Rightarrow> has_fields m)"

definition key_exchange_decision :: "nacl \<Rightarrow> proto \<Rightarrow> u8 list \<Rightarrow> rdclient \<Rightarrow> rdclient option" where
  "key_exchange_decision N P frame c =
     (if keyExchangePending c \<and> \<not> keyExchangeDone c then
        if is_plaintext P frame
        then Some (emit EncryptionWarning (c\<lparr>keyExchangePending := False, keyExchangeDone := False\<rparr>))
        else completeKeyExchange N P c
      else Some c)"

definition deliver_data :: "nacl \<Rightarrow> proto \<Rightarrow> options \<Rightarrow> fresh \<Rightarrow> int \<Rightarrow> u8 list \<Rightarrow> rdclient \<Rightarrow> rdclient option" where
  "deliver_data N P opts fresh now data c =
     (case decodeMessage P data of Inl _ \<Rightarrow> Some c | Inr m \<Rightarrow> dispatchMessage N P opts fresh now m c)"

definition open_frame :: "nacl \<Rightarrow> proto \<Rightarrow> options \<Rightarrow> fresh \<Rightarrow> int \<Rightarrow> u8 list \<Rightarrow> rdclient \<Rightarrow> rdclient option" where
  "open_frame N P opts fresh now frame c =
     (if secretKey (cl_crypto c) \<noteq> None \<and> keyExchangeDone c then
        (case tryDecrypt N frame (cl_crypto c) of
           Some (plaintext, s) \<Rightarrow>
             deliver_data N P opts fresh now plaintext
               (c\<lparr>cl_crypto := commitDecrypt s (cl_crypto c), peerEncryptionConfirmed := True\<rparr>)
         | None \<Rightarrow>
             if peerEncryptionConfirmed c then Some c else deliver_data N P opts fresh now frame c)
      else deliver_data N P opts fresh now frame c)"

definition handleRelayMessage :: "nacl \<Rightarrow> proto \<Rightarrow> options \<Rightarrow> fresh \<Rightarrow> int \<Rightarrow> u8 list \<Rightarrow> rdclient \<Rightarrow> rdclient option" where
  "handleRelayMessage N P opts fresh now frame c =
     (let c1 = c\<lparr>relayFrameIdx := relayFrameIdx c + 1\<rparr> in
      if \<not> relayConfirmReceived c1 \<and> decodeRendezvous P frame = Inr True
      then Some (c1\<lparr>relayConfirmReceived := True\<rparr>)
      else key_exchange_decision N P frame (c1\<lparr>relayConfirmReceived := True\<rparr>) \<bind> open_frame N P opts fresh now frame)"

text \<open>Empty frames are skipped.\<close>

definition handleRelayData :: "nacl \<Rightarrow> proto \<Rightarrow> options \<Rightarrow> fresh \<Rightarrow> int \<Rightarrow> u8 list \<Rightarrow> rdclient \<Rightarrow> rdclient option" where
  "handleRelayData N P opts fresh now frame c =
     (if frame \<noteq> [] then handleRelayMessage N P opts fresh now frame c else Some c)"


section \<open>The user\<close>

text \<open>The bytes of a string in UTF-8, for code units below 256.\<close>

definition utf8 :: "string \<Rightarrow> u8 list" where
  "utf8 s = concat (map (\<lambda>c. let n = (of_char c :: nat) in
     if n < 128 then [word_of_nat n] else [word_of_nat (192 + n div 64), word_of_nat (128 + n mod 64)]) s)"

definition client_hash :: "proto \<Rightarrow> string \<Rightarrow> rdclient \<Rightarrow> u8 list" where
  "client_hash P password c = hashPassword (digest P) (utf8 password) (utf8 (cl_salt c)) (utf8 (cl_challenge c))"

definition client_authenticate :: "proto \<Rightarrow> string \<Rightarrow> rdclient \<Rightarrow> rdclient" where
  "client_authenticate P password c =
     (let c1 = (setState Authenticating c)\<lparr>cl_password := password\<rparr>
      in c1\<lparr>cl_logins := cl_logins c1 @ [client_hash P password c1]\<rparr>)"

text \<open>\<open>authenticate\<close> after its awaits: the request goes out with the encryption of that moment.\<close>

definition login_ready :: "nacl \<Rightarrow> proto \<Rightarrow> options \<Rightarrow> rdclient \<Rightarrow> rdclient option" where
  "login_ready N P opts c =
     (case cl_logins c of
        [] \<Rightarrow> Some c
      | h # hs \<Rightarrow> sendPeerMessage N P (OLoginRequest h (opt_deviceId opts)) (c\<lparr>cl_logins := hs\<rparr>))"

definition submit2FA :: "nacl \<Rightarrow> proto \<Rightarrow> string \<Rightarrow> rdclient \<Rightarrow> rdclient option" where
  "submit2FA N P code c = sendPeerMessage N P (OAuth2FA (js_trim code)) (setState Authenticating c)"

definition relay_closed :: "string \<Rightarrow> rdclient \<Rightarrow> rdclient" where
  "relay_closed reason c =
     (let c1 = c\<lparr>relayOpen := False\<rparr>
      in if cl_state c1 \<noteq> Disconnected \<and> cl_state c1 \<noteq> Failed then handleDisconnect reason c1 else c1)"


section \<open>The state machine\<close>

datatype client_event =
    RelayFrame fresh int "u8 list"
  | Authenticate string
  | LoginReady
  | Submit2FA string
  | ModuleSends "u8 list"
  | RelayClosed string
  | RelayError string
  | UserDisconnects

fun client_step :: "nacl \<Rightarrow> proto \<Rightarrow> options \<Rightarrow> client_event \<Rightarrow> rdclient \<Rightarrow> rdclient option" where
  "client_step N P opts (RelayFrame fresh now frame) c =
     (if relayOpen c then handleRelayData N P opts fresh now frame c else Some c)"
| "client_step N P opts (Authenticate password) c = Some (client_authenticate P password c)"
| "client_step N P opts LoginReady c = login_ready N P opts c"
| "client_step N P opts (Submit2FA code) c = submit2FA N P code c"
| "client_step N P opts (ModuleSends payload) c = sendPeerMessage N P (OOther payload) c"
| "client_step N P opts (RelayClosed reason) c = Some (relay_closed reason c)"
| "client_step N P opts (RelayError e) c = Some (handleDisconnect (''Relay error: '' @ e) c)"
| "client_step N P opts UserDisconnects c = Some (disconnect c)"


section \<open>The invariant\<close>

definition client_inv :: "rdclient \<Rightarrow> bool" where
  "client_inv c =
     ((keyExchangeDone c \<longrightarrow> \<not> keyExchangePending c \<and> enabled (cl_crypto c))
      \<and> (keyExchangePending c \<longrightarrow> asymKeyPair (cl_crypto c) \<noteq> None \<and> peerPk (cl_crypto c) \<noteq> None
           \<and> secretKey (cl_crypto c) \<noteq> None)
      \<and> (enabled (cl_crypto c) \<longrightarrow> secretKey (cl_crypto c) \<noteq> None)
      \<and> (peerEncryptionConfirmed c \<longrightarrow> enabled (cl_crypto c)))"

text \<open>What sending and the interface leave alone: the keys, the receive counter and the flags of the
  handshake.\<close>

definition quiet :: "rdclient \<Rightarrow> rdclient \<Rightarrow> bool" where
  "quiet c c' =
     ((cl_crypto c')\<lparr>sendSeq := 0\<rparr> = (cl_crypto c)\<lparr>sendSeq := 0\<rparr>
      \<and> keyExchangePending c' = keyExchangePending c \<and> keyExchangeDone c' = keyExchangeDone c
      \<and> peerEncryptionConfirmed c' = peerEncryptionConfirmed c)"

lemma quiet_refl [simp]: "quiet c c"
  by (simp add: quiet_def)

lemma quiet_trans: "quiet a b \<Longrightarrow> quiet b c \<Longrightarrow> quiet a c"
  by (simp add: quiet_def)

lemma quiet_fields:
  "quiet c c' \<Longrightarrow> secretKey (cl_crypto c') = secretKey (cl_crypto c) \<and> asymKeyPair (cl_crypto c') = asymKeyPair (cl_crypto c)
     \<and> peerPk (cl_crypto c') = peerPk (cl_crypto c) \<and> enabled (cl_crypto c') = enabled (cl_crypto c)
     \<and> recvSeq (cl_crypto c') = recvSeq (cl_crypto c)"
  by (cases "cl_crypto c"; cases "cl_crypto c'") (simp add: quiet_def)

lemma quiet_inv: "quiet c c' \<Longrightarrow> client_inv c \<Longrightarrow> client_inv c'"
  using quiet_fields [of c c'] by (simp add: client_inv_def quiet_def)

lemma quiet_ui [simp]:
  "quiet c (emit e d) = quiet c d" "quiet c (setState s d) = quiet c d" "quiet c (client_cleanup d) = quiet c d"
  "quiet c (sendRelay m w d) = quiet c d" "quiet c (d\<lparr>cl_logins := l\<rparr>) = quiet c d" "quiet c (d\<lparr>cl_password := p\<rparr>) = quiet c d"
  "quiet c (d\<lparr>cl_challenge := x, cl_salt := y\<rparr>) = quiet c d" "quiet c (d\<lparr>relayOpen := b\<rparr>) = quiet c d"
  "quiet c (handleDisconnect r d) = quiet c d" "quiet c (disconnect d) = quiet c d"
  by (simp_all add: quiet_def emit_def setState_def client_cleanup_def sendRelay_def handleDisconnect_def disconnect_def)

text \<open>A step of a handler: it returns, it is quiet, and what it sends is sealed if encryption is on.\<close>

definition sealed_by :: "nacl \<Rightarrow> proto \<Rightarrow> u8 list \<Rightarrow> outmsg \<times> u8 list \<Rightarrow> bool" where
  "sealed_by N P k x = (\<exists>i. snd x = secretbox N (serializeMessage P (fst x)) (counterNonce i) k)"

definition sends_sealed :: "nacl \<Rightarrow> proto \<Rightarrow> rdclient \<Rightarrow> rdclient \<Rightarrow> bool" where
  "sends_sealed N P c c' =
     (\<exists>xs. cl_sent c' = cl_sent c @ xs
        \<and> (enabled (cl_crypto c) \<longrightarrow> (\<forall>x \<in> set xs. sealed_by N P (the (secretKey (cl_crypto c))) x)))"

definition key_ok :: "rdclient \<Rightarrow> bool" where
  "key_ok c = (enabled (cl_crypto c) \<longrightarrow> secretKey (cl_crypto c) \<noteq> None)"

definition safe_step :: "nacl \<Rightarrow> proto \<Rightarrow> rdclient \<Rightarrow> rdclient option \<Rightarrow> bool" where
  "safe_step N P c r = (key_ok c \<longrightarrow> (\<exists>c'. r = Some c' \<and> quiet c c' \<and> sends_sealed N P c c'))"

lemma key_ok_quiet: "quiet c d \<Longrightarrow> key_ok d = key_ok c"
  using quiet_fields [of c d] by (simp add: key_ok_def)

lemma sends_sealed_same: "cl_sent c' = cl_sent c \<Longrightarrow> sends_sealed N P c c'"
  by (simp add: sends_sealed_def)

lemma sent_ui [simp]:
  "cl_sent (emit e d) = cl_sent d" "cl_sent (setState s d) = cl_sent d" "cl_sent (client_cleanup d) = cl_sent d"
  "cl_sent (handleDisconnect r d) = cl_sent d" "cl_sent (disconnect d) = cl_sent d"
  by (simp_all add: emit_def setState_def client_cleanup_def handleDisconnect_def disconnect_def)

lemma safe_ui:
  "quiet c d \<Longrightarrow> cl_sent d = cl_sent c \<Longrightarrow> safe_step N P c (Some d)"
  by (simp add: safe_step_def sends_sealed_same)

lemma sends_sealed_trans:
  assumes "sends_sealed N P a b" "sends_sealed N P b c"
    and "enabled (cl_crypto a) \<longrightarrow> enabled (cl_crypto b) \<and> secretKey (cl_crypto b) = secretKey (cl_crypto a)"
  shows "sends_sealed N P a c"
proof -
  obtain xs ys where "cl_sent b = cl_sent a @ xs" "cl_sent c = cl_sent b @ ys"
      "enabled (cl_crypto a) \<longrightarrow> (\<forall>x \<in> set xs. sealed_by N P (the (secretKey (cl_crypto a))) x)"
      "enabled (cl_crypto b) \<longrightarrow> (\<forall>x \<in> set ys. sealed_by N P (the (secretKey (cl_crypto b))) x)"
    using assms(1,2) by (auto simp: sends_sealed_def)
  with assms(3) show ?thesis by (auto simp: sends_sealed_def intro!: exI [of _ "xs @ ys"])
qed

lemma safe_bind:
  assumes "safe_step N P c r" "\<And>d. safe_step N P d (f d)"
  shows "safe_step N P c (r \<bind> f)"
  unfolding safe_step_def
proof
  assume k: "key_ok c"
  then obtain d where d: "r = Some d" "quiet c d" "sends_sealed N P c d" using assms(1) by (auto simp: safe_step_def)
  then obtain e where "f d = Some e" "quiet d e" "sends_sealed N P d e"
    using assms(2) [of d] key_ok_quiet [OF d(2)] k by (auto simp: safe_step_def)
  with d show "\<exists>e. r \<bind> f = Some e \<and> quiet c e \<and> sends_sealed N P c e"
    using quiet_trans [OF d(2)] sends_sealed_trans [OF d(3)] quiet_fields [OF d(2)] by auto
qed

lemma safe_from: "quiet c d \<Longrightarrow> cl_sent d = cl_sent c \<Longrightarrow> safe_step N P d r \<Longrightarrow> safe_step N P c r"
  using quiet_fields [of c d] quiet_trans [of c d] by (auto simp: safe_step_def sends_sealed_def key_ok_def)

lemma safe_send: "safe_step N P c (sendPeerMessage N P m c)"
proof (cases "enabled (cl_crypto c)")
  case True
  then show ?thesis
    by (auto simp: safe_step_def key_ok_def sendPeerMessage_def processOutgoing_def encrypt_def Let_def sendRelay_def
        quiet_def sends_sealed_def sealed_by_def)
next
  case False
  then show ?thesis
    by (auto simp: safe_step_def sendPeerMessage_def sendRelay_def quiet_def sends_sealed_def)
qed

lemma safe_startSession: "safe_step N P c (startSession N P c)"
  unfolding startSession_def
  by (rule safe_from [of _ "setState Streaming c"], simp, simp) (intro safe_bind safe_send safe_ui; simp)

lemma safe_handlers:
  "safe_step N P c (handleLoginResponse N P err i c)" "safe_step N P c (handlePeerInfo N P c)"
  "safe_step N P c (handleTestDelay N P now td c)" "safe_step N P c (Some (handleMisc mi c))"
proof -
  show "safe_step N P c (handleLoginResponse N P err i c)"
    unfolding handleLoginResponse_def Let_def
    by (auto intro: safe_ui safe_from [OF _ _ safe_startSession])
  show "safe_step N P c (handlePeerInfo N P c)"
    unfolding handlePeerInfo_def Let_def by (auto intro: safe_ui safe_from [OF _ _ safe_startSession])
  show "safe_step N P c (handleTestDelay N P now td c)"
    unfolding handleTestDelay_def by (auto intro: safe_ui safe_send)
  show "safe_step N P c (Some (handleMisc mi c))"
    by (cases mi) (simp_all add: handleMisc_def safe_ui)
qed

lemma dispatch_safe:
  "pm_signedId m = None \<or> pm_hash m \<noteq> None \<Longrightarrow> safe_step N P c (dispatchMessage N P opts fresh now m c)"
  unfolding dispatchMessage_def
  by (auto split: option.split prod.split intro: safe_handlers safe_send safe_ui)


lemma dispatch_cases:
  "safe_step N P c (dispatchMessage N P opts fresh now m c)
   \<or> (\<exists>b. dispatchMessage N P opts fresh now m c = Some (handleSignedId N P opts fresh b c))"
proof (cases "pm_signedId m")
  case None
  then show ?thesis using dispatch_safe [of m] by simp
next
  case (Some b)
  then show ?thesis
    unfolding dispatchMessage_def by (auto split: option.split prod.split intro: safe_handlers safe_send safe_ui)
qed

lemma report_fields [simp]:
  "cl_crypto (signature_report N P opts x c) = cl_crypto c" "cl_sent (signature_report N P opts x c) = cl_sent c"
  "peerEncryptionConfirmed (signature_report N P opts x c) = peerEncryptionConfirmed c"
  "relayOpen (signature_report N P opts x c) = relayOpen c" "cl_state (signature_report N P opts x c) = cl_state c"
  by (auto simp: signature_report_def emit_def split: option.splits)

text \<open>What every event keeps: the invariant, encryption once it is on, and that nothing goes out in clear
  under encryption.\<close>

definition good :: "nacl \<Rightarrow> proto \<Rightarrow> rdclient \<Rightarrow> rdclient \<Rightarrow> bool" where
  "good N P c c' = (client_inv c' \<and> sends_sealed N P c c' \<and> (enabled (cl_crypto c) \<longrightarrow> enabled (cl_crypto c')))"

lemma inv_key_ok: "client_inv c \<Longrightarrow> key_ok c"
  by (simp add: client_inv_def key_ok_def)

lemma safe_good:
  assumes "safe_step N P c r" "client_inv c"
  obtains c' where "r = Some c'" "quiet c c'" "good N P c c'"
proof -
  obtain c' where c': "r = Some c'" "quiet c c'" "sends_sealed N P c c'"
    using assms inv_key_ok by (auto simp: safe_step_def)
  then have "good N P c c'" using quiet_inv [OF c'(2) assms(2)] quiet_fields [OF c'(2)] by (simp add: good_def)
  with c' show thesis by (intro that)
qed

lemma signedId_good: "client_inv c \<Longrightarrow> good N P c (handleSignedId N P opts fresh b c)"
  by (auto simp: good_def handleSignedId_def prepare_keys_def client_inv_def sends_sealed_def
      setPeerPublicKey_def generateSymmetricKey_def generateKeyPair_def split: option.splits)

lemma signedId_recv: "recvSeq (cl_crypto (handleSignedId N P opts fresh b c)) = recvSeq (cl_crypto c)"
  by (auto simp: handleSignedId_def prepare_keys_def setPeerPublicKey_def generateSymmetricKey_def generateKeyPair_def
      split: option.splits)

lemma deliver_good:
  assumes "client_inv c"
  obtains c' where "deliver_data N P opts fresh now data c = Some c'" "good N P c c'"
    "recvSeq (cl_crypto c') = recvSeq (cl_crypto c)"
proof (cases "decodeMessage P data")
  case (Inl u)
  then show thesis using assms by (intro that [of c]) (simp_all add: deliver_data_def good_def sends_sealed_def)
next
  case (Inr m)
  from dispatch_cases [of N P c opts fresh now m] show thesis
  proof
    assume "safe_step N P c (dispatchMessage N P opts fresh now m c)"
    from safe_good [OF this assms] obtain c' where
      "dispatchMessage N P opts fresh now m c = Some c'" "quiet c c'" "good N P c c'" .
    with Inr show thesis using quiet_fields [of c c'] by (intro that [of c']) (simp_all add: deliver_data_def)
  next
    assume "\<exists>b. dispatchMessage N P opts fresh now m c = Some (handleSignedId N P opts fresh b c)"
    then obtain b where "dispatchMessage N P opts fresh now m c = Some (handleSignedId N P opts fresh b c)" ..
    with Inr show thesis using signedId_good [OF assms, of N P opts fresh b] signedId_recv [of N P opts fresh b c]
      by (intro that [of "handleSignedId N P opts fresh b c"]) (simp_all add: deliver_data_def)
  qed
qed

lemma complete_good:
  assumes "client_inv c" "keyExchangePending c" "\<not> keyExchangeDone c"
  obtains c' where "completeKeyExchange N P c = Some c'" "good N P c c'"
    "secretKey (cl_crypto c') = secretKey (cl_crypto c)" "keyExchangeDone c'"
proof -
  obtain pk sk ourPk k where k: "peerPk (cl_crypto c) = Some pk" "asymKeyPair (cl_crypto c) = Some (ourPk, sk)"
      "secretKey (cl_crypto c) = Some k" using assms by (auto simp: client_inv_def)
  let ?m = "OPublicKey ourPk (box_seal N k (replicate 24 0) pk sk)"
  obtain c1 where c1: "sendPeerMessage N P ?m c = Some c1" "quiet c c1" "good N P c c1"
    using safe_good [OF safe_send assms(1)] .
  let ?c = "c1\<lparr>cl_crypto := (cl_crypto c1)\<lparr>enabled := True, sendSeq := 0, recvSeq := 0\<rparr>,
      keyExchangePending := False, keyExchangeDone := True\<rparr>"
  have "completeKeyExchange N P c = Some ?c"
    using assms(3) k c1(1) by (simp add: completeKeyExchange_def createSymmetricKeyMsg_def)
  moreover have "good N P c ?c"
    using c1(3) k quiet_fields [OF c1(2)] by (auto simp: good_def client_inv_def sends_sealed_def)
  ultimately show thesis using quiet_fields [OF c1(2)] by (intro that [of ?c]) simp_all
qed

lemma decision_good:
  assumes "client_inv c"
  obtains c' where "key_exchange_decision N P frame c = Some c'" "good N P c c'"
    "secretKey (cl_crypto c') = secretKey (cl_crypto c)"
proof (cases "keyExchangePending c \<and> \<not> keyExchangeDone c \<and> \<not> is_plaintext P frame")
  case True
  then show thesis using complete_good [OF assms, of N P] that by (auto simp: key_exchange_decision_def)
next
  case False
  then show thesis using assms
    by (intro that [of "if keyExchangePending c \<and> \<not> keyExchangeDone c
          then emit EncryptionWarning (c\<lparr>keyExchangePending := False, keyExchangeDone := False\<rparr>) else c"])
      (auto simp: key_exchange_decision_def good_def client_inv_def sends_sealed_def emit_def)
qed


lemma good_trans:
  "good N P a b \<Longrightarrow> good N P b c \<Longrightarrow> secretKey (cl_crypto b) = secretKey (cl_crypto a) \<Longrightarrow> good N P a c"
  using sends_sealed_trans [of N P a b c] by (auto simp: good_def)

lemma open_good:
  assumes "client_inv c"
  obtains c' where "open_frame N P opts fresh now frame c = Some c'" "good N P c c'"
proof (cases "secretKey (cl_crypto c) \<noteq> None \<and> keyExchangeDone c")
  case True
  show thesis
  proof (cases "tryDecrypt N frame (cl_crypto c)")
    case None
    from deliver_good [OF assms] obtain c' where
      "deliver_data N P opts fresh now frame c = Some c'" "good N P c c'" by blast
    with None True assms show thesis
      by (intro that [of "if peerEncryptionConfirmed c then c else c'"])
        (auto simp: open_frame_def good_def sends_sealed_def)
  next
    case (Some x)
    obtain p q where x: "x = (p, q)" by fastforce
    let ?c = "c\<lparr>cl_crypto := commitDecrypt q (cl_crypto c), peerEncryptionConfirmed := True\<rparr>"
    have g: "good N P c ?c" using assms True by (auto simp: good_def client_inv_def sends_sealed_def commitDecrypt_def)
    then have "client_inv ?c" by (simp only: good_def)
    from deliver_good [OF this] obtain c' where c': "deliver_data N P opts fresh now p ?c = Some c'" "good N P ?c c'"
      by blast
    have "good N P c c'" using good_trans [OF g c'(2)] by (simp add: commitDecrypt_def)
    with c' True Some x show thesis by (intro that [of c']) (simp_all add: open_frame_def)
  qed
next
  case False
  from deliver_good [OF assms] obtain c' where
    "deliver_data N P opts fresh now frame c = Some c'" "good N P c c'" by blast
  with False show thesis by (intro that [of c']) (auto simp: open_frame_def)
qed

lemma frame_good:
  assumes "client_inv c"
  shows "\<exists>c'. handleRelayData N P opts fresh now frame c = Some c' \<and> good N P c c'"
proof -
  let ?c = "c\<lparr>relayFrameIdx := relayFrameIdx c + 1, relayConfirmReceived := True\<rparr>"
  have i: "client_inv ?c" "good N P c ?c" "good N P c c"
    using assms by (simp_all add: client_inv_def good_def sends_sealed_def)
  obtain c1 where c1: "key_exchange_decision N P frame ?c = Some c1" "good N P ?c c1"
      "secretKey (cl_crypto c1) = secretKey (cl_crypto ?c)" using decision_good [OF i(1)] .
  obtain c2 where c2: "open_frame N P opts fresh now frame c1 = Some c2" "good N P c1 c2"
    using open_good [of c1 N P opts fresh now frame] c1(2) unfolding good_def by blast
  have "good N P c c2" using good_trans [OF good_trans [OF i(2) c1(2)] c2(2)] c1(3) by simp
  then show ?thesis using c1 c2 i by (auto simp: handleRelayData_def handleRelayMessage_def Let_def)
qed

lemma step_good:
  assumes "client_inv c"
  shows "\<exists>c'. client_step N P opts ev c = Some c' \<and> good N P c c'"
proof -
  have same: "good N P c c" using assms by (simp add: good_def sends_sealed_def)
  have ui: "good N P c d" if "quiet c d" "cl_sent d = cl_sent c" for d
    using safe_good [OF safe_ui [OF that] assms] by blast
  have send: "\<exists>c'. sendPeerMessage N P m d = Some c' \<and> good N P c c'" if "quiet c d" "cl_sent d = cl_sent c" for m d
    using safe_good [OF safe_from [OF that safe_send] assms] by blast
  show ?thesis
  proof (cases ev)
    case (RelayFrame fresh now frame)
    then show ?thesis using frame_good [OF assms] same by simp
  next
    case LoginReady
    then show ?thesis using same by (auto simp: login_ready_def intro: send split: list.split)
  next
    case (RelayClosed r)
    have "quiet c (relay_closed r c)" "cl_sent (relay_closed r c) = cl_sent c"
      by (simp_all add: relay_closed_def Let_def)
    then show ?thesis using ui RelayClosed by simp
  qed (simp_all add: ui send client_authenticate_def submit2FA_def Let_def)
qed

lemma started_inv: "client_inv (relay_started pk)"
  by (simp add: client_inv_def relay_started_def new_rdcrypto_def)

interpretation client: event_invariant "client_step N P opts" "relay_started pk" client_inv for N P opts pk
proof
  show "client_inv (relay_started pk)" by (rule started_inv)
  show "client_inv s'" if "client_inv s" "client_step N P opts ev s = Some s'" for s ev s'
    using step_good [OF that(1), of N P opts ev] that(2) by (auto simp: good_def)
qed

text \<open>C7: The session is well formed at all times and its handlers do not fail.  In every state that frames,
  users and modules can lead to, a finished key exchange means that encryption is on, a pending one that all keys
  are there, and encryption that there is a symmetric key; and every further event is handled without an exception
  of the encryption layer.\<close>

theorem client_session_invariant:
  assumes "reachable (client_step N P opts) (relay_started pk) c"
  shows "(keyExchangeDone c \<longrightarrow> \<not> keyExchangePending c \<and> enabled (cl_crypto c))
    \<and> (keyExchangePending c \<longrightarrow> asymKeyPair (cl_crypto c) \<noteq> None \<and> peerPk (cl_crypto c) \<noteq> None
         \<and> secretKey (cl_crypto c) \<noteq> None)
    \<and> (enabled (cl_crypto c) \<longrightarrow> secretKey (cl_crypto c) \<noteq> None)
    \<and> (peerEncryptionConfirmed c \<longrightarrow> enabled (cl_crypto c))
    \<and> (\<forall>ev. client_step N P opts ev c \<noteq> None)"
proof -
  have i: "client_inv c" using client.inv_reachable [OF assms] .
  have "client_step N P opts ev c \<noteq> None" for ev using step_good [OF i, of N P opts ev] by auto
  with i show ?thesis by (simp add: client_inv_def)
qed

text \<open>C8: Once encryption is on, nothing leaves in clear.  Whatever event a reachable client handles after its key
  exchange, the messages it adds to the wire are all sealed under the symmetric key of that moment and a counter
  nonce, and encryption stays on.\<close>

theorem encrypted_session_sends_sealed:
  assumes "reachable (client_step N P opts) (relay_started pk) c" and "enabled (cl_crypto c)"
    and "client_step N P opts ev c = Some c'"
  shows "\<exists>k xs. secretKey (cl_crypto c) = Some k \<and> cl_sent c' = cl_sent c @ xs \<and> enabled (cl_crypto c')
    \<and> (\<forall>(m, w) \<in> set xs. \<exists>i. w = secretbox N (serializeMessage P m) (counterNonce i) k)"
proof -
  have i: "client_inv c" using client.inv_reachable [OF assms(1)] .
  then obtain k where k: "secretKey (cl_crypto c) = Some k" using assms(2) by (auto simp: client_inv_def)
  have g: "good N P c c'" using step_good [OF i, of N P opts ev] assms(3) by auto
  then obtain xs where "cl_sent c' = cl_sent c @ xs" "\<forall>x \<in> set xs. sealed_by N P k x"
    using assms(2) k by (auto simp: good_def sends_sealed_def)
  with g assms(2) k show ?thesis by (auto simp: good_def sealed_by_def Ball_def case_prod_unfold)
qed


text \<open>C9: A session that has exchanged its keys and whose peer has confirmed the encryption accepts only what
  the peer sealed next. In every state that a relayed session can reach in which the key exchange is done and a
  frame has decrypted before, the next frame either is the sealing of some message under the session key and the
  next counter, and the counter advances, or it changes nothing but the number of frames and the note that one has
  arrived: clear text, forgeries and replays are dropped. The condition that the key exchange is done matters: a
  second signed identity of the peer opens the exchange again, and for the time until it is done the claim says
  nothing. The library is assumed to open only what sealing gives.\<close>

theorem confirmed_session_accepts_next_only:
  assumes "\<And>f n k m. secretbox_open N f n k = Some m \<Longrightarrow> f = secretbox N m n k"
    and "reachable (client_step N P opts) (relay_started pk) c"
    and "peerEncryptionConfirmed c" and "keyExchangeDone c"
    and "client_step N P opts (RelayFrame fresh now frame) c = Some c'"
  shows "\<exists>k. secretKey (cl_crypto c) = Some k
    \<and> ((\<exists>p. frame = secretbox N p (counterNonce (js_succ (recvSeq (cl_crypto c)))) k
            \<and> recvSeq (cl_crypto c') = js_succ (recvSeq (cl_crypto c)))
       \<or> c' = c \<or> c' = c\<lparr>relayFrameIdx := relayFrameIdx c + 1, relayConfirmReceived := True\<rparr>)"
proof -
  have i: "client_inv c" using client.inv_reachable [OF assms(2)] .
  then obtain k where k: "secretKey (cl_crypto c) = Some k" using assms(4) by (auto simp: client_inv_def)
  let ?c = "c\<lparr>relayFrameIdx := relayFrameIdx c + 1, relayConfirmReceived := True\<rparr>"
  have dec: "key_exchange_decision N P frame ?c = Some ?c" using assms(4) by (simp add: key_exchange_decision_def)
  show ?thesis
  proof (cases "relayOpen c \<and> frame \<noteq> [] \<and> (relayConfirmReceived c \<or> decodeRendezvous P frame \<noteq> Inr True)")
    case False
    then have "c' = c \<or> c' = ?c"
      using assms(5) by (auto simp: handleRelayData_def handleRelayMessage_def Let_def split: if_splits)
    then show ?thesis using k by blast
  next
    case True
    then have st: "open_frame N P opts fresh now frame ?c = Some c'"
      using assms(5) dec by (auto simp: handleRelayData_def handleRelayMessage_def Let_def)
    let ?n = "counterNonce (js_succ (recvSeq (cl_crypto c)))"
    show ?thesis
    proof (cases "secretbox_open N frame ?n k")
      case None
      then show ?thesis using st k assms(3,4) by (simp add: open_frame_def tryDecrypt_def Let_def)
    next
      case (Some p)
      let ?d = "?c\<lparr>cl_crypto := commitDecrypt (js_succ (recvSeq (cl_crypto c))) (cl_crypto c), peerEncryptionConfirmed := True\<rparr>"
      have del: "deliver_data N P opts fresh now p ?d = Some c'"
        using st k assms(4) Some by (simp add: open_frame_def tryDecrypt_def Let_def)
      have "client_inv ?d" using i assms(4) by (simp add: client_inv_def commitDecrypt_def)
      from deliver_good [OF this, of N P opts fresh now p] del have "recvSeq (cl_crypto c') = js_succ (recvSeq (cl_crypto c))"
        by (auto simp: commitDecrypt_def)
      then show ?thesis using k assms(1) [OF Some] by blast
    qed
  qed
qed


section \<open>What the handshake does not protect\<close>

text \<open>The outcome of the signature check has no effect on the session.  Whatever the library and the server key
  say about the identity of the peer, the client prepares the same keys and goes on; only its warnings differ.\<close>

theorem signature_check_only_warns:
  "(handleSignedId N P opts fresh idBytes c)\<lparr>cl_emitted := []\<rparr>
     = (handleSignedId N' P opts' fresh idBytes c)\<lparr>cl_emitted := []\<rparr>"
proof -
  have e: "(prepare_keys fresh pk d)\<lparr>cl_emitted := []\<rparr> = prepare_keys fresh pk (d\<lparr>cl_emitted := []\<rparr>)" for pk d
    by (simp add: prepare_keys_def)
  have "(signature_report M P o' x c)\<lparr>cl_emitted := []\<rparr> = c\<lparr>cl_emitted := []\<rparr>" for M o' x
    by (auto simp: signature_report_def emit_def split: option.splits)
  then show ?thesis by (auto simp: handleSignedId_def e split: option.splits)
qed

text \<open>Whoever controls the relay can switch encryption off and read the login.  While the key exchange is
  pending, a frame in clear with a hash challenge ends it, and the next login request of the user goes out in clear,
  computed from the salt and the challenge of that frame, even where the identity of the peer could be verified.\<close>

theorem clear_frame_downgrades_session:
  assumes "keyExchangePending c" and "\<not> keyExchangeDone c" and "\<not> enabled (cl_crypto c)"
    and "relayOpen c" and "relayConfirmReceived c" and "cl_logins c = []"
    and "frame \<noteq> []" and "decodeMessage P frame = Inr m" and "pm_hash m = Some (challenge, salt)"
    and "h = hashPassword (digest P) (utf8 password) (utf8 salt) (utf8 challenge)"
  shows "\<exists>c'. run_events (client_step N P opts) [RelayFrame fresh now frame, Authenticate password, LoginReady] c = Some c'
    \<and> cl_sent c' = cl_sent c @ [(OLoginRequest h (opt_deviceId opts), serializeMessage P (OLoginRequest h (opt_deviceId opts)))]
    \<and> \<not> enabled (cl_crypto c') \<and> \<not> keyExchangePending c'"
proof -
  let ?c = "c\<lparr>relayFrameIdx := relayFrameIdx c + 1, relayConfirmReceived := True\<rparr>"
  let ?d = "emit EncryptionWarning (?c\<lparr>keyExchangePending := False, keyExchangeDone := False\<rparr>)"
  let ?e = "emit PasswordRequired (setState WaitingPassword (?d\<lparr>cl_challenge := challenge, cl_salt := salt\<rparr>))"
  have "is_plaintext P frame" using assms(8,9) by (simp add: is_plaintext_def has_fields_def)
  then have "key_exchange_decision N P frame ?c = Some ?d" using assms(1,2) by (simp add: key_exchange_decision_def)
  moreover have "open_frame N P opts fresh now frame ?d = Some ?e"
    using assms(8,9) by (simp add: open_frame_def deliver_data_def dispatchMessage_def emit_def)
  ultimately have "client_step N P opts (RelayFrame fresh now frame) c = Some ?e"
    using assms(4,5,7) by (simp add: handleRelayData_def handleRelayMessage_def Let_def)
  then show ?thesis
    using assms(3,4,6,10)
    by (simp add: client_authenticate_def login_ready_def sendPeerMessage_def sendRelay_def setState_def emit_def
        client_hash_def Let_def)
qed


text \<open>A second key exchange reuses nonces.  When a signed identity arrives in a session that is already
  encrypted, the next frame that is not clear text makes the client seal its public key under the new symmetric key
  and the running counter, and then sets the counter back to zero under the same key: with the counter at zero, the
  next message of any module is sealed under the nonce of the public key.\<close>

theorem second_key_exchange_reuses_nonce:
  assumes "reachable (client_step N P opts) (relay_started pk) c"
    and "keyExchangePending c" and "enabled (cl_crypto c)" and "sendSeq (cl_crypto c) = 0"
    and "relayOpen c" and "relayConfirmReceived c"
    and "frame \<noteq> []" and "decodeMessage P frame = Inl ()"
    and "secretbox_open N frame (counterNonce 1) (the (secretKey (cl_crypto c))) = None"
  shows "\<exists>c' k m. run_events (client_step N P opts) [RelayFrame fresh now frame, ModuleSends payload] c = Some c'
    \<and> secretKey (cl_crypto c) = Some k
    \<and> cl_sent c' = cl_sent c @ [(m, secretbox N (serializeMessage P m) (counterNonce 1) k),
                              (OOther payload, secretbox N (serializeMessage P (OOther payload)) (counterNonce 1) k)]"
proof -
  have i: "client_inv c" using client.inv_reachable [OF assms(1)] .
  have nd: "\<not> keyExchangeDone c" using i assms(2) by (auto simp: client_inv_def)
  obtain their sk ourPk k where k: "peerPk (cl_crypto c) = Some their" "asymKeyPair (cl_crypto c) = Some (ourPk, sk)"
      "secretKey (cl_crypto c) = Some k" using i assms(2) by (auto simp: client_inv_def)
  let ?m = "OPublicKey ourPk (box_seal N k (replicate 24 0) their sk)"
  have one: "js_succ 0 = 1" by (simp add: js_succ_def)
  have np: "\<not> is_plaintext P frame" using assms(8) by (simp add: is_plaintext_def)
  let ?c = "c\<lparr>relayFrameIdx := relayFrameIdx c + 1, relayConfirmReceived := True\<rparr>"
  let ?d = "?c\<lparr>cl_sent := cl_sent c @ [(?m, secretbox N (serializeMessage P ?m) (counterNonce 1) k)],
      cl_crypto := (cl_crypto c)\<lparr>enabled := True, sendSeq := 0, recvSeq := 0\<rparr>,
      keyExchangePending := False, keyExchangeDone := True\<rparr>"
  have "key_exchange_decision N P frame ?c = Some ?d"
    using assms(2-5) nd k np one
    by (simp add: key_exchange_decision_def completeKeyExchange_def createSymmetricKeyMsg_def sendPeerMessage_def
        processOutgoing_def encrypt_def sendRelay_def Let_def)
  moreover have "open_frame N P opts fresh now frame ?d
      = (if peerEncryptionConfirmed c then Some ?d else deliver_data N P opts fresh now frame ?d)"
    using k assms(9) one by (simp add: open_frame_def tryDecrypt_def Let_def)
  moreover have "deliver_data N P opts fresh now frame ?d = Some ?d" using assms(8) by (simp add: deliver_data_def)
  ultimately have "client_step N P opts (RelayFrame fresh now frame) c = Some ?d"
    using assms(5-7) by (simp add: handleRelayData_def handleRelayMessage_def Let_def)
  then show ?thesis
    using k assms(5) one
    by (intro exI [of _ "?d\<lparr>cl_crypto := (cl_crypto ?d)\<lparr>sendSeq := 1\<rparr>,
          cl_sent := cl_sent ?d @ [(OOther payload, secretbox N (serializeMessage P (OOther payload)) (counterNonce 1) k)]\<rparr>"]
        exI [of _ k] exI [of _ ?m])
      (simp add: sendPeerMessage_def processOutgoing_def encrypt_def sendRelay_def Let_def)
qed

text \<open>The public key waits for the peer.  As long as no frame arrives, the client sends no public key and the key
  exchange is not finished, whatever the user and the modules do; a peer that waits for the public key before it
  sends anything never gets it.\<close>

theorem public_key_waits_for_peer:
  assumes "run_events (client_step N P opts) evs c = Some c'"
    and "\<forall>ev \<in> set evs. \<forall>fresh now frame. ev \<noteq> RelayFrame fresh now frame"
    and "keyExchangePending c" and "\<not> keyExchangeDone c" and "\<not> enabled (cl_crypto c)"
  shows "keyExchangePending c' \<and> \<not> keyExchangeDone c' \<and> \<not> enabled (cl_crypto c')
    \<and> (\<exists>xs. cl_sent c' = cl_sent c @ xs \<and> (\<forall>a b w. (OPublicKey a b, w) \<notin> set xs))"
  using assms
proof (induction evs arbitrary: c)
  case (Cons ev evs)
  obtain d where d: "client_step N P opts ev c = Some d" "run_events (client_step N P opts) evs d = Some c'"
    using Cons(2) by (auto split: option.splits)
  have one: "keyExchangePending d \<and> \<not> keyExchangeDone d \<and> \<not> enabled (cl_crypto d)
      \<and> (\<exists>xs. cl_sent d = cl_sent c @ xs \<and> (\<forall>a b w. (OPublicKey a b, w) \<notin> set xs))"
    using d(1) Cons(3-6)
    by (cases ev) (auto simp: client_authenticate_def login_ready_def submit2FA_def sendPeerMessage_def sendRelay_def
        relay_closed_def handleDisconnect_def disconnect_def client_cleanup_def setState_def emit_def Let_def
        split: list.splits if_splits)
  then obtain xs where xs: "cl_sent d = cl_sent c @ xs" "\<forall>a b w. (OPublicKey a b, w) \<notin> set xs" by blast
  obtain ys where "keyExchangePending c' \<and> \<not> keyExchangeDone c' \<and> \<not> enabled (cl_crypto c')"
      "cl_sent c' = cl_sent d @ ys" "\<forall>a b w. (OPublicKey a b, w) \<notin> set ys"
    using Cons(1) [OF d(2)] Cons(3) one by auto
  with xs show ?case by (auto intro!: exI [of _ "xs @ ys"])
qed simp



section \<open>Examples\<close>

text \<open>A small protocol: the frame \<open>[1]\<close> is a signed identity, \<open>[2]\<close> a hash challenge, everything else does not
  decode.\<close>

definition empty_pmsg :: pmsg where
  "empty_pmsg = \<lparr>pm_hash = None, pm_loginResponse = None, pm_videoFrame = False, pm_media = False, pm_testDelay = None,
     pm_misc = None, pm_audioFormat = False, pm_peerInfo = False, pm_publicKey = False, pm_file = False,
     pm_signedId = None, pm_unknown = False\<rparr>"

definition demo_proto :: proto where
  "demo_proto = \<lparr>decodeRendezvous = (\<lambda>_. Inl ()),
     decodeMessage = (\<lambda>f. if f = [1] then Inr (empty_pmsg\<lparr>pm_signedId := Some (replicate 68 5)\<rparr>)
       else if f = [2] then Inr (empty_pmsg\<lparr>pm_hash := Some (''c'', ''s'')\<rparr>) else Inl ()),
     decodeIdPk = (\<lambda>_. Inr \<lparr>ip_id = ''1'', ip_pk = replicate 32 9\<rparr>),
     serializeMessage = (\<lambda>m. case m of OPublicKey a b \<Rightarrow> [10] | OLoginRequest h u \<Rightarrow> 11 # h | _ \<Rightarrow> [12]),
     digest = Some (\<lambda>d. d)\<rparr>"

definition demo_options :: options where
  "demo_options = \<lparr>opt_deviceId = ''1'', opt_serverPubKey = []\<rparr>"

definition demo_keys :: fresh where
  "demo_keys = (([1], [2]), [3])"

abbreviation demo_run :: "client_event list \<Rightarrow> rdclient \<Rightarrow> rdclient option" where
  "demo_run \<equiv> run_events (client_step toy_nacl demo_proto demo_options)"

lemmas demo_defs = demo_proto_def demo_options_def demo_keys_def empty_pmsg_def toy_nacl_def relay_started_def
  new_rdcrypto_def handleRelayData_def handleRelayMessage_def key_exchange_decision_def is_plaintext_def has_fields_def
  open_frame_def deliver_data_def dispatchMessage_def handleSignedId_def parseSignedId_def signature_report_def
  prepare_keys_def setPeerPublicKey_def generateSymmetricKey_def generateKeyPair_def completeKeyExchange_def
  createSymmetricKeyMsg_def sendPeerMessage_def sendRelay_def emit_def setState_def tryDecrypt_def commitDecrypt_def
  counterNonce_def

definition prepared :: rdclient where
  "prepared = (relay_started None)\<lparr>relayFrameIdx := 1, relayConfirmReceived := True, keyExchangePending := True,
     cl_crypto := \<lparr>secretKey = Some [3], asymKeyPair = Some ([1], [2]), peerPk = Some (replicate 32 9), enabled = False,
       sendSeq = 0, recvSeq = 0\<rparr>\<rparr>"

lemma run_prepared: "demo_run [RelayFrame demo_keys 0 [1]] (relay_started None) = Some prepared"
  by (simp add: demo_defs prepared_def)

definition exchanged :: rdclient where
  "exchanged = prepared\<lparr>relayFrameIdx := 2, keyExchangePending := False, keyExchangeDone := True,
     cl_crypto := (cl_crypto prepared)\<lparr>enabled := True\<rparr>, cl_sent := [(OPublicKey [1] [3], [10])]\<rparr>"

lemma nonce_one: "nonce_bytes 8 (js_succ 0) = [1, 0, 0, 0, 0, 0, 0, 0]"
proof -
  have "nonce_bytes 8 1 = [1, 0, 0, 0, 0, 0, 0, 0]" by code_simp
  then show ?thesis by (simp add: js_succ_def)
qed

lemma run_exchanged: "demo_run [RelayFrame demo_keys 0 [99]] prepared = Some exchanged"
  using nonce_one by (simp add: demo_defs prepared_def exchanged_def Let_def)

lemma reachable_demo:
  "reachable (client_step toy_nacl demo_proto demo_options) (relay_started None) prepared"
  "reachable (client_step toy_nacl demo_proto demo_options) (relay_started None) exchanged"
proof -
  show p: "reachable (client_step toy_nacl demo_proto demo_options) (relay_started None) prepared"
    using run_reachable [OF reachable.start run_prepared] .
  show "reachable (client_step toy_nacl demo_proto demo_options) (relay_started None) exchanged"
    using run_reachable [OF p run_exchanged] .
qed


theorem client_session_invariant_witness:
  "keyExchangeDone exchanged \<and> enabled (cl_crypto exchanged) \<and> secretKey (cl_crypto exchanged) \<noteq> None
   \<and> client_step toy_nacl demo_proto demo_options (RelayFrame demo_keys 0 [7]) exchanged \<noteq> None"
proof -
  have "keyExchangeDone exchanged" by (simp add: exchanged_def)
  with client_session_invariant [OF reachable_demo(2)] show ?thesis by blast
qed

theorem encrypted_session_sends_sealed_witness:
  "\<exists>c' k xs. client_step toy_nacl demo_proto demo_options (ModuleSends [4]) exchanged = Some c'
     \<and> secretKey (cl_crypto exchanged) = Some k \<and> cl_sent c' = cl_sent exchanged @ xs
     \<and> (\<forall>(m, w) \<in> set xs. \<exists>i. w = secretbox toy_nacl (serializeMessage demo_proto m) (counterNonce i) k)"
proof -
  have e: "enabled (cl_crypto exchanged)" by (simp add: exchanged_def)
  have "client_inv exchanged" using client.inv_reachable [OF reachable_demo(2)] .
  then obtain c' where c': "client_step toy_nacl demo_proto demo_options (ModuleSends [4]) exchanged = Some c'"
    using step_good by blast
  from encrypted_session_sends_sealed [OF reachable_demo(2) e c'] c' show ?thesis by blast
qed

definition confirmed :: rdclient where
  "confirmed = the (demo_run [RelayFrame demo_keys 0 (secretbox toy_nacl [2] (counterNonce (js_succ 0)) [3])] exchanged)"

lemma run_confirmed:
  "demo_run [RelayFrame demo_keys 0 (secretbox toy_nacl [2] (counterNonce (js_succ 0)) [3])] exchanged = Some confirmed
   \<and> peerEncryptionConfirmed confirmed \<and> keyExchangeDone confirmed"
  unfolding confirmed_def using nonce_one by (simp add: demo_defs prepared_def exchanged_def Let_def)

theorem confirmed_session_accepts_next_only_witness:
  "\<exists>c' k. client_step toy_nacl demo_proto demo_options (RelayFrame demo_keys 0 [2]) confirmed = Some c'
    \<and> secretKey (cl_crypto confirmed) = Some k
    \<and> ((\<exists>p. [2] = secretbox toy_nacl p (counterNonce (js_succ (recvSeq (cl_crypto confirmed)))) k
            \<and> recvSeq (cl_crypto c') = js_succ (recvSeq (cl_crypto confirmed)))
       \<or> c' = confirmed \<or> c' = confirmed\<lparr>relayFrameIdx := relayFrameIdx confirmed + 1, relayConfirmReceived := True\<rparr>)"
proof -
  have r: "reachable (client_step toy_nacl demo_proto demo_options) (relay_started None) confirmed"
    using run_reachable [OF reachable_demo(2)] run_confirmed by blast
  then have "client_inv confirmed" by (rule client.inv_reachable)
  then obtain c' where c': "client_step toy_nacl demo_proto demo_options (RelayFrame demo_keys 0 [2]) confirmed = Some c'"
    using step_good by blast
  have flags: "peerEncryptionConfirmed confirmed" "keyExchangeDone confirmed" using run_confirmed by simp_all
  from confirmed_session_accepts_next_only [OF toy_sealed r flags c'] c' show ?thesis by blast
qed

theorem clear_frame_downgrades_session_witness:
  "\<exists>c'. demo_run [RelayFrame demo_keys 0 [2], Authenticate ''pw'', LoginReady] prepared = Some c'
    \<and> cl_sent c' = [(OLoginRequest (utf8 ''pw'' @ utf8 ''s'' @ utf8 ''c'') ''1'', 11 # utf8 ''pw'' @ utf8 ''s'' @ utf8 ''c'')]
    \<and> \<not> enabled (cl_crypto c') \<and> \<not> keyExchangePending c'"
proof -
  let ?h = "utf8 ''pw'' @ utf8 ''s'' @ utf8 ''c''"
  have h: "?h = hashPassword (digest demo_proto) (utf8 ''pw'') (utf8 ''s'') (utf8 ''c'')"
    by (simp add: hashPassword_def sha256_of_def demo_proto_def)
  have "decodeMessage demo_proto [2] = Inr (empty_pmsg\<lparr>pm_hash := Some (''c'', ''s'')\<rparr>)" by (simp add: demo_proto_def)
  from clear_frame_downgrades_session [OF _ _ _ _ _ _ _ this _ h, of prepared toy_nacl demo_options demo_keys 0]
  show ?thesis by (simp add: prepared_def relay_started_def demo_options_def demo_proto_def)
qed

definition renewed :: rdclient where
  "renewed = the (demo_run [RelayFrame demo_keys 0 [1]] exchanged)"

lemma run_renewed:
  "demo_run [RelayFrame demo_keys 0 [1]] exchanged = Some renewed
   \<and> keyExchangePending renewed \<and> enabled (cl_crypto renewed) \<and> sendSeq (cl_crypto renewed) = 0
   \<and> relayOpen renewed \<and> relayConfirmReceived renewed \<and> secretKey (cl_crypto renewed) = Some [3]"
  unfolding renewed_def using nonce_one by (simp add: demo_defs prepared_def exchanged_def Let_def)

theorem second_key_exchange_reuses_nonce_witness:
  "\<exists>c' k m. demo_run [RelayFrame demo_keys 0 [99], ModuleSends [4]] renewed = Some c'
    \<and> secretKey (cl_crypto renewed) = Some k
    \<and> cl_sent c' = cl_sent renewed @ [(m, secretbox toy_nacl (serializeMessage demo_proto m) (counterNonce 1) k),
        (OOther [4], secretbox toy_nacl (serializeMessage demo_proto (OOther [4])) (counterNonce 1) k)]"
proof (rule second_key_exchange_reuses_nonce)
  show "reachable (client_step toy_nacl demo_proto demo_options) (relay_started None) renewed"
    using run_reachable [OF reachable_demo(2)] run_renewed by blast
  have "js_succ 0 = 1" by (simp add: js_succ_def)
  then have "counterNonce 1 = [1, 0, 0, 0, 0, 0, 0, 0] @ replicate 16 0" using nonce_one by (simp add: counterNonce_def)
  then show "secretbox_open toy_nacl [99] (counterNonce 1) (the (secretKey (cl_crypto renewed))) = None"
    using run_renewed by (simp add: toy_nacl_def)
  show "decodeMessage demo_proto [99] = Inl ()" by (simp add: demo_proto_def)
qed (use run_renewed in simp_all)

theorem public_key_waits_for_peer_witness:
  "\<exists>c' xs. demo_run [Authenticate ''pw'', LoginReady, ModuleSends [4]] prepared = Some c'
    \<and> keyExchangePending c' \<and> \<not> keyExchangeDone c' \<and> cl_sent c' = cl_sent prepared @ xs
    \<and> (\<forall>a b w. (OPublicKey a b, w) \<notin> set xs)"
proof -
  have i: "client_inv prepared" using client.inv_reachable [OF reachable_demo(1)] .
  have "\<exists>c'. demo_run evs c = Some c'" if "client_inv c" for evs c
    using that
  proof (induction evs arbitrary: c)
    case (Cons ev evs)
    then obtain d where d: "client_step toy_nacl demo_proto demo_options ev c = Some d" "good toy_nacl demo_proto c d"
      using step_good by blast
    with Cons(1) [of d] show ?case by (auto simp: good_def)
  qed simp
  then obtain c' where c': "demo_run [Authenticate ''pw'', LoginReady, ModuleSends [4]] prepared = Some c'" using i by blast
  have "keyExchangePending prepared" "\<not> keyExchangeDone prepared" "\<not> enabled (cl_crypto prepared)"
    by (simp_all add: prepared_def relay_started_def)
  from public_key_waits_for_peer [OF c' _ this] c' show ?thesis by auto
qed

end
