(* ===== verification/Rd_File.thy ===== *)
theory Rd_File
  imports Rd_Client Rd_Frames Guest_Bridge
begin

text \<open>
  The second connection of the web remote client, for file transfer: \<open>RDFileConnection\<close> of
  \<open>src/web-nodejs/public/js/rdclient/file-connection.js\<close>.  It repeats the handshake of the desktop session with its
  own state, logs in with the password of that session and then carries file messages.

  The state machine begins when \<open>_doConnect\<close> waits for the login.  The promise of the login settles inside the
  handler of a frame and its continuation runs before the next event, so both are one step here.  The last section
  composes the connection with the proxy of \<open>src/web-nodejs/services/wsRelay.js\<close>.
\<close>

section \<open>State\<close>

datatype file_state = FcConnecting | FcAuthenticating | FcReady | FcDisconnected

datatype file_event_out =
    FcFile | Fc2faError string | Fc2faRequired | FcLoginError string | FcError string | FcReadyEvent | FcDisconnectedEvent string

record rdfile =
  fc_state :: file_state
  fc_crypto :: rdcrypto
  fc_challenge :: string
  fc_salt :: string
  fc_password :: string
  fc_confirmReceived :: bool
  fc_encryptionConfirmed :: bool
  fc_pending :: bool
  fc_done :: bool
  fc_loginWaiting :: bool
  fc_peerSignedPk :: "u8 list option"
  fc_open :: bool
  fc_logins :: "u8 list list"
  fc_sent :: "(outmsg \<times> u8 list) list"
  fc_emitted :: "file_event_out list"

definition file_started :: "string \<Rightarrow> u8 list option \<Rightarrow> rdfile" where
  "file_started password pk =
     \<lparr>fc_state = FcConnecting, fc_crypto = new_rdcrypto, fc_challenge = [], fc_salt = [], fc_password = password,
      fc_confirmReceived = False, fc_encryptionConfirmed = False, fc_pending = False, fc_done = False,
      fc_loginWaiting = True, fc_peerSignedPk = pk, fc_open = True, fc_logins = [], fc_sent = [], fc_emitted = []\<rparr>"

definition fc_emit :: "file_event_out \<Rightarrow> rdfile \<Rightarrow> rdfile" where
  "fc_emit e c = c\<lparr>fc_emitted := fc_emitted c @ [e]\<rparr>"

definition fc_sendRelay :: "outmsg \<Rightarrow> u8 list \<Rightarrow> rdfile \<Rightarrow> rdfile" where
  "fc_sendRelay m w c = (if fc_open c then c\<lparr>fc_sent := fc_sent c @ [(m, w)]\<rparr> else c)"


section \<open>Sending\<close>

definition fc_outgoing :: "nacl \<Rightarrow> proto \<Rightarrow> outmsg \<Rightarrow> rdfile \<Rightarrow> (u8 list \<times> rdfile) option" where
  "fc_outgoing N P m c =
     (if enabled (fc_crypto c) then
        (case processOutgoing N (serializeMessage P m) (fc_crypto c) of
           Inl _ \<Rightarrow> None
         | Inr (sealed, cr) \<Rightarrow> Some (sealed, c\<lparr>fc_crypto := cr\<rparr>))
      else Some (serializeMessage P m, c))"

definition sendPeerMessageRaw :: "nacl \<Rightarrow> proto \<Rightarrow> outmsg \<Rightarrow> rdfile \<Rightarrow> rdfile option" where
  "sendPeerMessageRaw N P m c = do { (data, c1) \<leftarrow> fc_outgoing N P m c; Some (fc_sendRelay m data c1) }"

text \<open>File messages, in contrast, get the header of a frame.\<close>

definition fc_sendPeerMessage :: "nacl \<Rightarrow> proto \<Rightarrow> outmsg \<Rightarrow> rdfile \<Rightarrow> rdfile option" where
  "fc_sendPeerMessage N P m c =
     (if fc_state c \<noteq> FcReady then Some c
      else do {
        (data, c1) \<leftarrow> fc_outgoing N P m c;
        framed \<leftarrow> encodeFrame data;
        Some (fc_sendRelay m framed c1) })"


section \<open>Login\<close>

definition fc_disconnect :: "rdfile \<Rightarrow> rdfile" where
  "fc_disconnect c = c\<lparr>fc_loginWaiting := False, fc_open := False, fc_state := FcDisconnected\<rparr>"

text \<open>The continuations of \<open>_doConnect\<close>: the login succeeded, or it was rejected.\<close>

definition login_resolved :: "rdfile \<Rightarrow> rdfile" where
  "login_resolved c = fc_emit FcReadyEvent (c\<lparr>fc_loginWaiting := False, fc_state := FcReady\<rparr>)"

definition login_rejected :: "string \<Rightarrow> rdfile \<Rightarrow> rdfile" where
  "login_rejected e c = fc_disconnect (fc_emit (FcError e) (c\<lparr>fc_loginWaiting := False\<rparr>))"

definition fc_authenticate :: "proto \<Rightarrow> string \<Rightarrow> rdfile \<Rightarrow> rdfile" where
  "fc_authenticate P password c =
     c\<lparr>fc_state := FcAuthenticating,
       fc_logins := fc_logins c @ [hashPassword (digest P) (utf8 password) (utf8 (fc_salt c)) (utf8 (fc_challenge c))]\<rparr>"

definition fc_login_ready :: "nacl \<Rightarrow> proto \<Rightarrow> options \<Rightarrow> rdfile \<Rightarrow> rdfile option" where
  "fc_login_ready N P opts c =
     (case fc_logins c of
        [] \<Rightarrow> Some c
      | h # hs \<Rightarrow> sendPeerMessageRaw N P (OLoginRequest h (opt_deviceId opts)) (c\<lparr>fc_logins := hs\<rparr>))"

definition fc_handleLoginResponse :: "string \<Rightarrow> rdfile \<Rightarrow> rdfile" where
  "fc_handleLoginResponse err c =
     (if err \<noteq> [] then
        let e = js_lower err in
        if sublist ''wrong 2fa'' e \<or> sublist ''invalid 2fa'' e then fc_emit (Fc2faError err) c
        else if sublist ''2fa required'' e \<or> sublist ''totp'' e then fc_emit Fc2faRequired c
        else let c1 = fc_emit (FcLoginError err) c in if fc_loginWaiting c1 then login_rejected err c1 else c1
      else if fc_loginWaiting c then login_resolved c else c)"


section \<open>Key exchange\<close>

definition fc_handleSignedId :: "proto \<Rightarrow> fresh \<Rightarrow> u8 list \<Rightarrow> rdfile \<Rightarrow> rdfile" where
  "fc_handleSignedId P fresh idBytes c =
     (if idBytes = [] then c
      else case parseSignedId (decodeIdPk P) idBytes of
          None \<Rightarrow> c
        | Some parsed \<Rightarrow>
            let c1 = c\<lparr>fc_crypto := setPeerPublicKey (si_peerPk parsed)
                         (generateSymmetricKey (snd fresh) (generateKeyPair (fst fresh) (fc_crypto c))),
                       fc_pending := True, fc_done := False\<rparr>
            in if fc_password c1 = [] \<and> fc_loginWaiting c1 then fc_authenticate P [] c1 else c1)"

definition fc_completeKeyExchange :: "nacl \<Rightarrow> proto \<Rightarrow> rdfile \<Rightarrow> rdfile option" where
  "fc_completeKeyExchange N P c =
     (if fc_done c then Some c
      else case peerPk (fc_crypto c) of
          None \<Rightarrow> Some c
        | Some pk \<Rightarrow>
            (case createSymmetricKeyMsg N pk (fc_crypto c) of
               Inl _ \<Rightarrow> None
             | Inr (ourPk, sealedKey) \<Rightarrow> do {
                 c1 \<leftarrow> sendPeerMessageRaw N P (OPublicKey ourPk sealedKey) c;
                 Some (c1\<lparr>fc_crypto := (fc_crypto c1)\<lparr>enabled := True, sendSeq := 0, recvSeq := 0\<rparr>,
                   fc_pending := False, fc_done := True\<rparr>) }))"


section \<open>Frames\<close>

definition fc_dispatchMessage :: "proto \<Rightarrow> fresh \<Rightarrow> pmsg \<Rightarrow> rdfile \<Rightarrow> rdfile" where
  "fc_dispatchMessage P fresh m c =
     (case pm_signedId m of
        Some b \<Rightarrow> fc_handleSignedId P fresh b c
      | None \<Rightarrow>
     (case pm_hash m of
        Some (challenge, salt) \<Rightarrow>
          let c1 = c\<lparr>fc_challenge := challenge, fc_salt := salt\<rparr> in fc_authenticate P (fc_password c1) c1
      | None \<Rightarrow>
     (case pm_loginResponse m of
        Some (err, i) \<Rightarrow> fc_handleLoginResponse err c
      | None \<Rightarrow> if pm_file m then fc_emit FcFile c else c)))"

definition fc_decision :: "nacl \<Rightarrow> proto \<Rightarrow> u8 list \<Rightarrow> rdfile \<Rightarrow> rdfile option" where
  "fc_decision N P frame c =
     (if fc_pending c \<and> \<not> fc_done c then
        if is_plaintext P frame then Some (c\<lparr>fc_pending := False, fc_done := False\<rparr>)
        else fc_completeKeyExchange N P c
      else Some c)"

definition fc_deliver :: "proto \<Rightarrow> fresh \<Rightarrow> u8 list \<Rightarrow> rdfile \<Rightarrow> rdfile" where
  "fc_deliver P fresh data c = (case decodeMessage P data of Inl _ \<Rightarrow> c | Inr m \<Rightarrow> fc_dispatchMessage P fresh m c)"

definition fc_open_frame :: "nacl \<Rightarrow> proto \<Rightarrow> fresh \<Rightarrow> u8 list \<Rightarrow> rdfile \<Rightarrow> rdfile" where
  "fc_open_frame N P fresh frame c =
     (if secretKey (fc_crypto c) \<noteq> None \<and> fc_done c then
        (case tryDecrypt N frame (fc_crypto c) of
           Some (plaintext, s) \<Rightarrow>
             fc_deliver P fresh plaintext (c\<lparr>fc_crypto := commitDecrypt s (fc_crypto c), fc_encryptionConfirmed := True\<rparr>)
         | None \<Rightarrow> if fc_encryptionConfirmed c then c else fc_deliver P fresh frame c)
      else fc_deliver P fresh frame c)"

definition fc_handleRelayMessage :: "nacl \<Rightarrow> proto \<Rightarrow> fresh \<Rightarrow> u8 list \<Rightarrow> rdfile \<Rightarrow> rdfile option" where
  "fc_handleRelayMessage N P fresh frame c =
     (if \<not> fc_confirmReceived c \<and> decodeRendezvous P frame = Inr True then Some (c\<lparr>fc_confirmReceived := True\<rparr>)
      else map_option (fc_open_frame N P fresh frame) (fc_decision N P frame (c\<lparr>fc_confirmReceived := True\<rparr>)))"

definition fc_submit2FA :: "nacl \<Rightarrow> proto \<Rightarrow> string \<Rightarrow> rdfile \<Rightarrow> rdfile option" where
  "fc_submit2FA N P code c = sendPeerMessageRaw N P (OAuth2FA (js_trim code)) c"

definition fc_timeout :: "rdfile \<Rightarrow> rdfile" where
  "fc_timeout c = (if fc_loginWaiting c then login_rejected ''File transfer login timeout (30s)'' c else c)"

definition fc_closed :: "rdfile \<Rightarrow> rdfile" where
  "fc_closed c =
     (let c1 = c\<lparr>fc_open := False\<rparr> in
      if fc_state c1 \<noteq> FcDisconnected
      then fc_emit (FcDisconnectedEvent ''File transfer relay closed'') (c1\<lparr>fc_state := FcDisconnected\<rparr>) else c1)"

datatype file_event =
    FFrame fresh "u8 list"
  | FLoginReady
  | FSend "u8 list"
  | F2fa string
  | FTimeout
  | FClosed
  | FDisconnect

fun file_step :: "nacl \<Rightarrow> proto \<Rightarrow> options \<Rightarrow> file_event \<Rightarrow> rdfile \<Rightarrow> rdfile option" where
  "file_step N P opts (FFrame fresh frame) c =
     (if fc_open c \<and> frame \<noteq> [] then fc_handleRelayMessage N P fresh frame c else Some c)"
| "file_step N P opts FLoginReady c = fc_login_ready N P opts c"
| "file_step N P opts (FSend payload) c = fc_sendPeerMessage N P (OOther payload) c"
| "file_step N P opts (F2fa code) c = fc_submit2FA N P code c"
| "file_step N P opts FTimeout c = Some (fc_timeout c)"
| "file_step N P opts FClosed c = Some (fc_closed c)"
| "file_step N P opts FDisconnect c =
     Some (if fc_loginWaiting c then login_rejected ''Disconnected'' c else fc_disconnect c)"


section \<open>Properties\<close>

lemma outgoing_state: "fc_outgoing N P m c = Some (d, c') \<Longrightarrow> fc_state c' = fc_state c"
  by (auto simp: fc_outgoing_def split: if_splits sum.splits)

lemma relay_state [simp]: "fc_state (fc_sendRelay m w c) = fc_state c"
  by (simp add: fc_sendRelay_def)

lemma raw_state: "sendPeerMessageRaw N P m c = Some c' \<Longrightarrow> fc_state c' = fc_state c"
  by (auto simp: sendPeerMessageRaw_def bind_eq_Some_conv) (erule outgoing_state)

lemma send_state: "fc_sendPeerMessage N P m c = Some c' \<Longrightarrow> fc_state c' = fc_state c"
  by (auto simp: fc_sendPeerMessage_def bind_eq_Some_conv split: if_splits) (drule outgoing_state, simp)

lemma complete_state: "fc_completeKeyExchange N P c = Some c' \<Longrightarrow> fc_state c' = fc_state c"
  by (auto simp: fc_completeKeyExchange_def bind_eq_Some_conv split: if_splits option.splits sum.splits)
    (erule raw_state)

lemma decision_state: "fc_decision N P frame c = Some c' \<Longrightarrow> fc_state c' = fc_state c"
  by (auto simp: fc_decision_def split: if_splits) (erule complete_state)

lemma signedId_not_ready: "fc_state c \<noteq> FcReady \<Longrightarrow> fc_state (fc_handleSignedId P fresh b c) \<noteq> FcReady"
  by (auto simp: fc_handleSignedId_def fc_authenticate_def Let_def split: option.splits)

lemma login_ready_iff:
  "fc_state c \<noteq> FcReady \<Longrightarrow> fc_state (fc_handleLoginResponse err c) = FcReady \<longleftrightarrow> err = [] \<and> fc_loginWaiting c"
  by (auto simp: fc_handleLoginResponse_def fc_emit_def login_rejected_def fc_disconnect_def login_resolved_def Let_def)

text \<open>The message that a frame stands for: its clear text if it opens, else the frame itself.\<close>

definition carries :: "proto \<Rightarrow> u8 list \<Rightarrow> pmsg \<Rightarrow> bool" where
  "carries P data m = (decodeMessage P data = Inr m \<and> pm_signedId m = None \<and> pm_hash m = None
     \<and> (\<exists>i. pm_loginResponse m = Some ([], i)))"

lemma deliver_ready:
  assumes "fc_state c \<noteq> FcReady" "fc_state (fc_deliver P fresh data c) = FcReady"
  shows "\<exists>m. carries P data m"
  using assms signedId_not_ready [OF assms(1)] login_ready_iff [OF assms(1)]
  by (auto simp: fc_deliver_def fc_dispatchMessage_def carries_def fc_authenticate_def fc_emit_def Let_def
      split: sum.splits option.splits if_splits)

lemma open_frame_cases:
  "fc_open_frame N P fresh frame d = d
   \<or> (\<exists>data e. fc_open_frame N P fresh frame d = fc_deliver P fresh data e \<and> fc_state e = fc_state d
        \<and> (data = frame \<or> (\<exists>n k. secretbox_open N frame n k = Some data)))"
proof (cases "tryDecrypt N frame (fc_crypto d)")
  case None
  then show ?thesis by (auto simp: fc_open_frame_def)
next
  case (Some x)
  then obtain p q where x: "x = (p, q)" "\<exists>n k. secretbox_open N frame n k = Some p"
    by (auto simp: tryDecrypt_def Let_def split: option.splits)
  let ?e = "d\<lparr>fc_crypto := commitDecrypt q (fc_crypto d), fc_encryptionConfirmed := True\<rparr>"
  have "fc_open_frame N P fresh frame d = fc_deliver P fresh p ?e \<or> fc_open_frame N P fresh frame d = fc_deliver P fresh frame d"
    using Some x(1) by (auto simp: fc_open_frame_def)
  moreover have "fc_state ?e = fc_state d" by simp
  ultimately show ?thesis using x(2) by metis
qed

text \<open>A file connection becomes ready only through a successful login.  The event that makes it ready is a frame,
  and that frame, or its clear text under the session key, is a login response without an error; no timeout, send,
  second factor or closing makes it ready.\<close>

theorem file_ready_only_after_login:
  assumes "file_step N P opts ev c = Some c'" and "fc_state c \<noteq> FcReady" and "fc_state c' = FcReady"
  shows "\<exists>fresh frame. ev = FFrame fresh frame
    \<and> (\<exists>data m. carries P data m \<and> (data = frame \<or> (\<exists>n k. secretbox_open N frame n k = Some data)))"
proof (cases ev)
  case (FFrame fresh frame)
  with assms obtain d where d: "c' = fc_open_frame N P fresh frame d" "fc_state d = fc_state c"
    by (auto simp: fc_handleRelayMessage_def dest: decision_state split: if_splits)
  with assms(2,3) have "c' \<noteq> d" by auto
  then obtain data e where e: "c' = fc_deliver P fresh data e" "fc_state e = fc_state d"
      "data = frame \<or> (\<exists>n k. secretbox_open N frame n k = Some data)"
    using open_frame_cases [of N P fresh frame d] d(1) by auto
  then have "\<exists>m. carries P data m" using deliver_ready [of e] assms(2,3) d(2) by simp
  with FFrame e(3) show ?thesis by blast
qed (use assms in \<open>auto simp: fc_login_ready_def fc_submit2FA_def fc_timeout_def fc_closed_def login_rejected_def fc_disconnect_def fc_emit_def Let_def
      dest: raw_state send_state split: list.splits if_splits\<close>)


section \<open>Through the proxy\<close>

lemma write_message:
  assumes "messageTransport (c_opts conn)" "length w \<le> MAX_RELAY_FRAME_SIZE"
  shows "\<exists>bs. write_tcp w conn = (conn\<lparr>tcp_out := tcp_out conn @ bs\<rparr>, None) \<and> parse bs = Inr ([w], [])"
proof -
  have e: "encodeRelayFrame w = Inr (frame_header (length w) @ w)" using assms(2) by (simp add: encodeRelayFrame_def)
  then have "parse (frame_header (length w) @ w) = Inr ([w], [])" by (intro parse_encode_all) simp
  with e assms(1) show ?thesis by (intro exI [of _ "frame_header (length w) @ w"]) (simp add: write_tcp_def)
qed

text \<open>File messages reach the peer with a header too many.  The relay connection of the browser uses the message
  transport, where the proxy frames every WebSocket message.  The messages of the handshake are handed over as they
  are and come out of the frames of the TCP stream unchanged; a file message already has the header of a frame when
  the proxy frames it, so what the peer takes out of the stream is the header followed by the message.\<close>

theorem file_message_framed_twice:
  assumes "fc_state c = FcReady" and "fc_open c" and "fc_outgoing N P m c = Some (data, c1)"
    and "length data + 4 \<le> MAX_RELAY_FRAME_SIZE" and "messageTransport (c_opts conn)"
  shows "\<exists>framed bs raw.
      fc_sendPeerMessage N P m c = Some (fc_sendRelay m framed c1)
    \<and> write_tcp framed conn = (conn\<lparr>tcp_out := tcp_out conn @ bs\<rparr>, None)
    \<and> parse bs = Inr ([frame_header (length data) @ data], []) \<and> frame_header (length data) @ data \<noteq> data
    \<and> sendPeerMessageRaw N P m c = Some (fc_sendRelay m data c1)
    \<and> write_tcp data conn = (conn\<lparr>tcp_out := tcp_out conn @ raw\<rparr>, None) \<and> parse raw = Inr ([data], [])"
proof -
  let ?f = "frame_header (length data) @ data"
  have len: "length data \<le> MAX_RELAY_FRAME_SIZE" using assms(4) by simp
  have enc: "encodeFrame data = Some ?f" by (rule encodeFrame_relay [OF len])
  have fr: "encodeRelayFrame data = Inr ?f" using len by (simp add: encodeRelayFrame_def)
  have "length ?f \<le> MAX_RELAY_FRAME_SIZE" "?f \<noteq> data" using length_frame [OF fr] assms(4) by auto
  moreover obtain bs where "write_tcp ?f conn = (conn\<lparr>tcp_out := tcp_out conn @ bs\<rparr>, None)" "parse bs = Inr ([?f], [])"
    using write_message [OF assms(5) calculation(1)] by blast
  moreover obtain raw where "write_tcp data conn = (conn\<lparr>tcp_out := tcp_out conn @ raw\<rparr>, None)" "parse raw = Inr ([data], [])"
    using write_message [OF assms(5) len] by blast
  ultimately show ?thesis
    using assms(1,3) enc by (auto simp: fc_sendPeerMessage_def sendPeerMessageRaw_def)
qed

definition demo_ready :: rdfile where
  "demo_ready = (file_started [] None)\<lparr>fc_state := FcReady, fc_loginWaiting := False\<rparr>"

definition demo_relay :: conn where
  "demo_relay = new_conn ''a'' Relay \<lparr>messageTransport = True, guestGrant = None, guestToken = [], guestPeerId = [], guestSessionId = []\<rparr>"

theorem file_message_framed_twice_witness:
  "\<exists>framed bs raw.
      fc_sendPeerMessage toy_nacl demo_proto (OOther []) demo_ready = Some (fc_sendRelay (OOther []) framed demo_ready)
    \<and> write_tcp framed demo_relay = (demo_relay\<lparr>tcp_out := tcp_out demo_relay @ bs\<rparr>, None)
    \<and> parse bs = Inr ([frame_header 1 @ [12]], []) \<and> frame_header 1 @ [12] \<noteq> [12]
    \<and> sendPeerMessageRaw toy_nacl demo_proto (OOther []) demo_ready = Some (fc_sendRelay (OOther []) [12] demo_ready)
    \<and> write_tcp [12] demo_relay = (demo_relay\<lparr>tcp_out := tcp_out demo_relay @ raw\<rparr>, None) \<and> parse raw = Inr ([[12]], [])"
proof -
  have o: "fc_outgoing toy_nacl demo_proto (OOther []) demo_ready = Some ([12], demo_ready)"
    by (simp add: fc_outgoing_def demo_ready_def file_started_def new_rdcrypto_def demo_proto_def)
  from file_message_framed_twice [OF _ _ o, of demo_relay] show ?thesis
    by (simp add: demo_ready_def file_started_def demo_relay_def new_conn_def MAX_RELAY_FRAME_SIZE_def)
qed

definition demo_login_proto :: proto where
  "demo_login_proto = demo_proto\<lparr>decodeMessage := (\<lambda>f. Inr (empty_pmsg\<lparr>pm_loginResponse := Some ([], True)\<rparr>))\<rparr>"

theorem file_ready_only_after_login_witness:
  "\<exists>fresh frame. FFrame demo_keys [7] = FFrame fresh frame
    \<and> (\<exists>data m. carries demo_login_proto data m \<and> (data = frame \<or> (\<exists>n k. secretbox_open toy_nacl frame n k = Some data)))"
proof (rule file_ready_only_after_login)
  show "file_step toy_nacl demo_login_proto demo_options (FFrame demo_keys [7]) (file_started [] None)
      = Some (login_resolved ((file_started [] None)\<lparr>fc_confirmReceived := True\<rparr>))"
    by (simp add: fc_handleRelayMessage_def fc_decision_def fc_open_frame_def fc_deliver_def fc_dispatchMessage_def
        fc_handleLoginResponse_def file_started_def demo_login_proto_def demo_proto_def empty_pmsg_def new_rdcrypto_def)
qed (simp_all add: file_started_def login_resolved_def fc_emit_def)

end
