(* ===== verification/Restart_Coordinator.thy ===== *)
theory Restart_Coordinator
  imports Event_System BD_Prelude
begin

text \<open>
  The transactions of settings that need a restart, \<open>src/web-nodejs/services/restartCoordinator.js\<close>.

  The state is one file, \<open>.restart-transaction.json\<close>, or no file.  The rollback of a change goes to the service
  that owns the setting; the services are an argument with the operations the coordinator calls, on a world of
  their own.  A request that fails is a value of the sum type with the code's error.  Rollbacks are awaited, so a
  cancellation reads the file at its start and writes it at its end, and several of them end in any order; the
  other operations are single transitions (the rollback inside a failed \<open>confirm\<close> and the health check inside
  \<open>getPublicStatus\<close> included).  Time stamps are left out.
\<close>

section \<open>Data\<close>

datatype descriptor =
    ConnectionMode string
  | AdvancedFile string string
  | BillingClock string
  | GoConfig string string
  | EnvConfig string string
  | UnknownDescriptor

record change =
  ch_key :: string
  ch_label :: string
  ch_rollback :: descriptor

text \<open>What a caller passes: the fields may be missing.\<close>

record change_request =
  cr_key :: "string option"
  cr_label :: string
  cr_rollback :: "descriptor option"

datatype phase = Pending | Restarting | Ready | PhaseFailed

record txn =
  tx_id :: string
  tx_user :: string
  tx_phase :: phase
  tx_changes :: "change list"
  tx_token :: "string option"
  tx_bootId :: "string option"
  tx_error :: "string option"
  tx_failures :: "(string \<times> string) list"

datatype restart_error =
    InvalidChange | NotReversible | AuthRequired | Owned | NotFound | TooManyChanges | NotCancelable
  | RollbackFailed "(string \<times> string) list" | NotPending | RestartThrew string | NotReady

definition MAX_CHANGES :: nat where "MAX_CHANGES = 32"

type_synonym state_file = "txn option"

text \<open>The answer to the browser.\<close>

record public_state =
  ps_id :: string
  ps_phase :: phase
  ps_changes :: "(string \<times> string) list"
  ps_error :: "string option"

definition publicState :: "txn \<Rightarrow> public_state" where
  "publicState t = \<lparr>ps_id = tx_id t, ps_phase = tx_phase t,
     ps_changes = map (\<lambda>c. (ch_key c, ch_label c)) (tx_changes t), ps_error = tx_error t\<rparr>"

definition operatorState :: "string option \<Rightarrow> state_file \<Rightarrow> public_state option" where
  "operatorState user f = (case f of None \<Rightarrow> None | Some t \<Rightarrow> if Some (tx_user t) \<noteq> user then None else Some (publicState t))"

definition getPending :: "string option \<Rightarrow> state_file \<Rightarrow> public_state option" where
  "getPending user f = operatorState user f"

definition getRawForOperator :: "string option \<Rightarrow> string \<Rightarrow> state_file \<Rightarrow> restart_error + txn" where
  "getRawForOperator user i f =
     (case f of
        None \<Rightarrow> Inl NotFound
      | Some t \<Rightarrow> if tx_id t \<noteq> i \<or> Some (tx_user t) \<noteq> user then Inl NotFound else Inr t)"


section \<open>Registering a change\<close>

definition assertChange :: "change_request \<Rightarrow> restart_error + change" where
  "assertChange r =
     (case cr_key r of
        None \<Rightarrow> Inl InvalidChange
      | Some k \<Rightarrow>
          (case cr_rollback r of
             None \<Rightarrow> Inl NotReversible
           | Some d \<Rightarrow> Inr \<lparr>ch_key = k, ch_label = (if cr_label r \<noteq> [] then cr_label r else k), ch_rollback = d\<rparr>))"

definition new_txn :: "string \<Rightarrow> string \<Rightarrow> txn" where
  "new_txn i user = \<lparr>tx_id = i, tx_user = user, tx_phase = Pending, tx_changes = [], tx_token = None, tx_bootId = None,
     tx_error = None, tx_failures = []\<rparr>"

definition find_change :: "string \<Rightarrow> change list \<Rightarrow> change option" where
  "find_change k cs = find (\<lambda>c. ch_key c = k) cs"

text \<open>The first change with the key gets the new label.\<close>

primrec set_label :: "string \<Rightarrow> string \<Rightarrow> change list \<Rightarrow> change list" where
  "set_label k l [] = []"
| "set_label k l (c # cs) = (if ch_key c = k then c\<lparr>ch_label := l\<rparr> # cs else c # set_label k l cs)"

definition add_change :: "change \<Rightarrow> txn \<Rightarrow> restart_error + txn" where
  "add_change c t =
     (case find_change (ch_key c) (tx_changes t) of
        Some _ \<Rightarrow> Inr (t\<lparr>tx_changes := set_label (ch_key c) (ch_label c) (tx_changes t)\<rparr>)
      | None \<Rightarrow>
          if length (tx_changes t) \<ge> MAX_CHANGES then Inl TooManyChanges
          else Inr (t\<lparr>tx_changes := tx_changes t @ [c]\<rparr>))"

definition registerChange :: "string option \<Rightarrow> string \<Rightarrow> change_request \<Rightarrow> state_file \<Rightarrow> restart_error + public_state \<times> state_file" where
  "registerChange user freshId r f =
     (case assertChange r of
        Inl e \<Rightarrow> Inl e
      | Inr c \<Rightarrow>
          (case user of
             None \<Rightarrow> Inl AuthRequired
           | Some u \<Rightarrow> if u = [] then Inl AuthRequired
               else
                 let state = (case f of Some t \<Rightarrow> if tx_phase t \<noteq> Pending then None else Some t | None \<Rightarrow> None) in
                 case state of
                   Some t \<Rightarrow> if tx_user t \<noteq> u then Inl Owned
                     else map_sum id (\<lambda>t'. (publicState t', Some t')) (add_change c t)
                 | None \<Rightarrow> map_sum id (\<lambda>t'. (publicState t', Some t')) (add_change c (new_txn freshId u))))"


section \<open>Rolling back\<close>

record 'w rollback_services =
  setConnectionMode :: "string \<Rightarrow> 'w \<Rightarrow> string option \<times> 'w"
  restoreBackup :: "string \<Rightarrow> string \<Rightarrow> 'w \<Rightarrow> string option \<times> 'w"
  restoreClockSettings :: "string \<Rightarrow> 'w \<Rightarrow> string option \<times> 'w"
  setConfig :: "string \<Rightarrow> string \<Rightarrow> 'w \<Rightarrow> (bool \<times> string) \<times> 'w"
  restoreEnv :: "string \<Rightarrow> string \<Rightarrow> 'w \<Rightarrow> string option \<times> 'w"
  canUsePrivilegedUpdate :: "'w \<Rightarrow> bool"
  invokePrivilegedUpdate :: "string \<Rightarrow> string \<Rightarrow> 'w \<Rightarrow> string option \<times> 'w"

definition rollbackChange :: "'w rollback_services \<Rightarrow> change \<Rightarrow> 'w \<Rightarrow> string option \<times> 'w" where
  "rollbackChange S c w =
     (case ch_rollback c of
        ConnectionMode s \<Rightarrow> setConnectionMode S s w
      | AdvancedFile i b \<Rightarrow> restoreBackup S i b w
      | BillingClock s \<Rightarrow> restoreClockSettings S s w
      | GoConfig k v \<Rightarrow>
          (case setConfig S k v w of
             ((True, e), w') \<Rightarrow> (None, w')
           | ((False, e), w') \<Rightarrow> (Some (if e \<noteq> [] then e else ''go_config_rollback_failed''), w'))
      | EnvConfig b p \<Rightarrow>
          (case restoreEnv S b p w of
             (None, w') \<Rightarrow> (None, w')
           | (Some e, w') \<Rightarrow> if \<not> canUsePrivilegedUpdate S w' then (Some e, w') else invokePrivilegedUpdate S p b w')
      | UnknownDescriptor \<Rightarrow> (Some ''unknown_restart_rollback'', w))"

text \<open>The loop collects the failures and goes on.\<close>

primrec rollback_list :: "'w rollback_services \<Rightarrow> change list \<Rightarrow> 'w \<Rightarrow> (string \<times> string) list \<times> 'w" where
  "rollback_list S [] w = ([], w)"
| "rollback_list S (c # cs) w =
     (let (e, w1) = rollbackChange S c w; (fs, w2) = rollback_list S cs w1
      in (case e of None \<Rightarrow> fs | Some m \<Rightarrow> (ch_key c, m) # fs, w2))"

definition rollbackStateChanges :: "'w rollback_services \<Rightarrow> txn \<Rightarrow> 'w \<Rightarrow> (string \<times> string) list \<times> 'w" where
  "rollbackStateChanges S t w = rollback_list S (rev (tx_changes t)) w"


section \<open>Cancelling\<close>

definition cancel_start :: "string option \<Rightarrow> string \<Rightarrow> state_file \<Rightarrow> restart_error + txn" where
  "cancel_start user i f =
     (case getRawForOperator user i f of
        Inl e \<Rightarrow> Inl e
      | Inr t \<Rightarrow> if tx_phase t \<noteq> Pending then Inl NotCancelable else Inr t)"

text \<open>The end of \<open>cancel\<close> works on the state it read at its start.\<close>

definition cancel_finish :: "txn \<Rightarrow> (string \<times> string) list \<Rightarrow> (restart_error + string) \<times> state_file" where
  "cancel_finish t failures =
     (if failures \<noteq> []
      then (Inl (RollbackFailed failures),
            Some (t\<lparr>tx_phase := PhaseFailed, tx_error := Some ''rollback_failed'', tx_failures := failures\<rparr>))
      else (Inr (tx_id t), None))"

text \<open>A cancellation during which no other request changes the file.\<close>

definition cancel :: "'w rollback_services \<Rightarrow> string option \<Rightarrow> string \<Rightarrow> state_file \<Rightarrow> 'w \<Rightarrow> (restart_error + string) \<times> state_file \<times> 'w" where
  "cancel S user i f w =
     (case cancel_start user i f of
        Inl e \<Rightarrow> (Inl e, f, w)
      | Inr t \<Rightarrow>
          let (failures, w') = rollbackStateChanges S t w; (r, f') = cancel_finish t failures
          in (r, f', w'))"


section \<open>Confirming\<close>

record restart_result =
  rs_daemonReload :: "bool option"
  rs_restarts :: "bool list"

definition restartResultFailed :: "restart_result \<Rightarrow> bool" where
  "restartResultFailed r = (rs_daemonReload r = Some False \<or> list_ex (\<lambda>ok. \<not> ok) (rs_restarts r))"

text \<open>\<open>Inl\<close> stands for an exception of the restart itself.\<close>

definition confirm ::
  "'w rollback_services \<Rightarrow> string option \<Rightarrow> string \<Rightarrow> string \<Rightarrow> string \<Rightarrow> string + restart_result \<Rightarrow> state_file \<Rightarrow> 'w \<Rightarrow>
     (restart_error + public_state \<times> string) \<times> state_file \<times> 'w" where
  "confirm S user i boot token result f w =
     (case getRawForOperator user i f of
        Inl e \<Rightarrow> (Inl e, f, w)
      | Inr t \<Rightarrow>
          if tx_phase t \<noteq> Pending \<and> tx_phase t \<noteq> PhaseFailed then (Inl NotPending, f, w)
          else
            let t1 = t\<lparr>tx_phase := Restarting, tx_bootId := Some boot, tx_token := Some token, tx_error := None\<rparr> in
            case result of
              Inl m \<Rightarrow>
                (Inl (RestartThrew m),
                 Some (t1\<lparr>tx_phase := PhaseFailed, tx_error := Some (if m \<noteq> [] then m else ''service_restart_failed'')\<rparr>), w)
            | Inr r \<Rightarrow>
                if restartResultFailed r then
                  let (failures, w') = rollbackStateChanges S t1 w;
                      t2 = t1\<lparr>tx_failures := failures, tx_phase := PhaseFailed,
                              tx_error := Some (if failures \<noteq> [] then ''service_restart_failed_rollback_failed''
                                                else ''service_restart_failed_rolled_back'')\<rparr>
                  in (Inr (publicState t2, token), Some t2, w')
                else (Inr (publicState t1, token), Some t1, w))"


section \<open>After the restart\<close>

definition getPublicStatus :: "string \<Rightarrow> string option \<Rightarrow> string \<Rightarrow> bool \<Rightarrow> state_file \<Rightarrow> public_state option \<times> state_file" where
  "getPublicStatus i token boot healthy f =
     (case f of
        None \<Rightarrow> (None, f)
      | Some t \<Rightarrow>
          if tx_id t \<noteq> i \<or> tx_token t \<noteq> token then (None, f)
          else
            let t' = (if tx_phase t = Restarting \<and> tx_bootId t \<noteq> Some boot \<and> healthy then t\<lparr>tx_phase := Ready\<rparr> else t)
            in (Some (publicState t'), Some t'))"

definition complete :: "string option \<Rightarrow> string \<Rightarrow> state_file \<Rightarrow> (restart_error + string) \<times> state_file" where
  "complete user i f =
     (case getRawForOperator user i f of
        Inl e \<Rightarrow> (Inl e, f)
      | Inr t \<Rightarrow> if tx_phase t \<noteq> Ready \<and> tx_phase t \<noteq> PhaseFailed then (Inl NotReady, f) else (Inr i, None))"

definition dismissFailed :: "string option \<Rightarrow> string \<Rightarrow> state_file \<Rightarrow> bool \<times> state_file" where
  "dismissFailed user key f =
     (case f of
        None \<Rightarrow> (False, f)
      | Some t \<Rightarrow>
          if tx_phase t \<noteq> PhaseFailed \<or> Some (tx_user t) \<noteq> user then (False, f)
          else if key \<noteq> [] \<and> \<not> list_ex (\<lambda>c. ch_key c = key) (tx_changes t) then (False, f)
          else (True, None))"


section \<open>Requests\<close>

text \<open>The file, the services' world and the cancellations whose rollbacks are under way.\<close>

record 'w coordinator =
  co_file :: state_file
  co_world :: 'w
  co_cancels :: "txn list"

datatype coordinator_request =
    Register "string option" string change_request
  | CancelStart "string option" string
  | CancelEnd nat
  | Confirm "string option" string string string "string + restart_result"
  | Status string "string option" string bool
  | Complete "string option" string
  | Dismiss "string option" string

fun restart_step :: "'w rollback_services \<Rightarrow> coordinator_request \<Rightarrow> 'w coordinator \<Rightarrow> 'w coordinator option" where
  "restart_step S (Register user i r) s =
     Some (case registerChange user i r (co_file s) of Inl e \<Rightarrow> s | Inr (p, f) \<Rightarrow> s\<lparr>co_file := f\<rparr>)"
| "restart_step S (CancelStart user i) s =
     Some (case cancel_start user i (co_file s) of Inl e \<Rightarrow> s | Inr t \<Rightarrow> s\<lparr>co_cancels := co_cancels s @ [t]\<rparr>)"
| "restart_step S (CancelEnd n) s =
     Some (if n < length (co_cancels s) then
             let t = co_cancels s ! n; (failures, w) = rollbackStateChanges S t (co_world s)
             in s\<lparr>co_cancels := take n (co_cancels s) @ drop (Suc n) (co_cancels s), co_world := w,
                  co_file := snd (cancel_finish t failures)\<rparr>
           else s)"
| "restart_step S (Confirm user i boot token result) s =
     Some (case confirm S user i boot token result (co_file s) (co_world s) of (r, f, w) \<Rightarrow> s\<lparr>co_file := f, co_world := w\<rparr>)"
| "restart_step S (Status i token boot healthy) s = Some (s\<lparr>co_file := snd (getPublicStatus i token boot healthy (co_file s))\<rparr>)"
| "restart_step S (Complete user i) s = Some (s\<lparr>co_file := snd (complete user i (co_file s))\<rparr>)"
| "restart_step S (Dismiss user key) s = Some (s\<lparr>co_file := snd (dismissFailed user key (co_file s))\<rparr>)"

definition idle :: "'w \<Rightarrow> 'w coordinator" where
  "idle w = \<lparr>co_file = None, co_world = w, co_cancels = []\<rparr>"


section \<open>The invariant\<close>

definition txn_ok :: "txn \<Rightarrow> bool" where
  "txn_ok t =
     (distinct (map ch_key (tx_changes t)) \<and> length (tx_changes t) \<le> MAX_CHANGES
      \<and> (tx_phase t = Pending \<longrightarrow> tx_token t = None \<and> tx_error t = None)
      \<and> (tx_phase t = Restarting \<or> tx_phase t = Ready \<longrightarrow> tx_token t \<noteq> None))"

definition coordinator_ok :: "'w coordinator \<Rightarrow> bool" where
  "coordinator_ok s = ((\<forall>t. co_file s = Some t \<longrightarrow> txn_ok t) \<and> (\<forall>t \<in> set (co_cancels s). txn_ok t))"

lemma keys_set_label [simp]: "map ch_key (set_label k l cs) = map ch_key cs" "length (set_label k l cs) = length cs"
  by (induction cs) auto

lemma find_change_None: "find_change k cs = None \<longleftrightarrow> k \<notin> ch_key ` set cs"
  by (auto simp: find_change_def find_None_iff)

lemma txn_ok_add: "txn_ok t \<Longrightarrow> add_change c t = Inr t' \<Longrightarrow> txn_ok t'"
  by (auto simp: add_change_def txn_ok_def find_change_None split: option.splits if_splits)

lemma txn_ok_new: "txn_ok (new_txn i u)"
  by (simp add: txn_ok_def new_txn_def)

lemma registered:
  assumes "registerChange user i r f = Inr (p, f')"
  obtains t c t' where "f = Some t \<or> (\<exists>u. t = new_txn i u)" "add_change c t = Inr t'" "f' = Some t'"
proof -
  obtain c where c: "assertChange r = Inr c" using assms by (cases "assertChange r") (simp_all add: registerChange_def)
  obtain u where u: "user = Some u" "u \<noteq> []"
    using assms c by (cases user) (auto simp: registerChange_def split: if_splits)
  let ?state = "case f of Some t \<Rightarrow> if tx_phase t \<noteq> Pending then None else Some t | None \<Rightarrow> None"
  show thesis
  proof (cases ?state)
    case None
    then show thesis using assms c u that [of "new_txn i u" c]
      by (cases "add_change c (new_txn i u)") (auto simp: registerChange_def)
  next
    case (Some t)
    then have "f = Some t" by (auto split: option.splits if_splits)
    with Some show thesis using assms c u that [of t c]
      by (cases "add_change c t") (auto simp: registerChange_def split: if_splits)
  qed
qed

lemma txn_ok_register:
  assumes "\<forall>t. f = Some t \<longrightarrow> txn_ok t" "registerChange user i r f = Inr (p, Some t')"
  shows "txn_ok t'"
  using assms(2)
proof (rule registered)
  fix t c t''
  assume "f = Some t \<or> (\<exists>u. t = new_txn i u)" "add_change c t = Inr t''" "Some t' = Some t''"
  then show "txn_ok t'" using assms(1) txn_ok_add [of t c t''] txn_ok_new by auto
qed

lemma txn_ok_finish: "txn_ok t \<Longrightarrow> snd (cancel_finish t fs) = Some t' \<Longrightarrow> txn_ok t'"
  by (auto simp: cancel_finish_def txn_ok_def split: if_splits)

lemma raw_some: "getRawForOperator user i f = Inr t \<Longrightarrow> f = Some t"
  by (auto simp: getRawForOperator_def split: option.splits if_splits)

lemma txn_ok_confirm:
  assumes "\<forall>t. f = Some t \<longrightarrow> txn_ok t" "confirm S user i boot token result f w = (r, Some t', w')"
  shows "txn_ok t'"
proof (cases "getRawForOperator user i f")
  case (Inl e)
  then show ?thesis using assms by (auto simp: confirm_def)
next
  case (Inr t)
  then have "txn_ok t" using assms(1) raw_some by blast
  then show ?thesis using Inr assms raw_some [OF Inr]
    by (auto simp: confirm_def txn_ok_def Let_def split: if_splits sum.splits prod.splits)
qed

lemma txn_ok_status: "\<forall>t. f = Some t \<longrightarrow> txn_ok t \<Longrightarrow> snd (getPublicStatus i token boot h f) = Some t' \<Longrightarrow> txn_ok t'"
  by (auto simp: getPublicStatus_def txn_ok_def Let_def split: option.splits if_splits)

lemma cancel_start_some: "cancel_start user i f = Inr t \<Longrightarrow> f = Some t"
  by (auto simp: cancel_start_def dest: raw_some split: sum.splits if_splits)

lemma coordinator_ok_step:
  assumes "coordinator_ok s" "restart_step S ev s = Some s'"
  shows "coordinator_ok s'"
proof (cases ev)
  case (Register user i r)
  show ?thesis
  proof (cases "registerChange user i r (co_file s)")
    case (Inr a)
    have "txn_ok t" if "snd a = Some t" for t
      using assms(1) Inr that by (intro txn_ok_register [of "co_file s" user i r "fst a"]) (auto simp: coordinator_ok_def prod_eq_iff)
    then show ?thesis using assms Register Inr by (auto simp: coordinator_ok_def split: prod.splits)
  qed (use assms Register in simp)
next
  case (CancelStart user i)
  show ?thesis
  proof (cases "cancel_start user i (co_file s)")
    case (Inr t)
    then have "txn_ok t" using assms(1) cancel_start_some [OF Inr] by (simp add: coordinator_ok_def)
    then show ?thesis using assms CancelStart Inr by (auto simp: coordinator_ok_def)
  qed (use assms CancelStart in simp)
next
  case (CancelEnd n)
  show ?thesis
  proof (cases "n < length (co_cancels s)")
    case True
    obtain failures w where r: "rollbackStateChanges S (co_cancels s ! n) (co_world s) = (failures, w)" by fastforce
    have t: "txn_ok (co_cancels s ! n)" using assms(1) True by (simp add: coordinator_ok_def)
    have "txn_ok t'" if "snd (cancel_finish (co_cancels s ! n) failures) = Some t'" for t'
      using txn_ok_finish [OF t that] .
    moreover have "\<forall>t' \<in> set (take n (co_cancels s)) \<union> set (drop (Suc n) (co_cancels s)). txn_ok t'"
      using assms(1) set_take_subset [of n "co_cancels s"] set_drop_subset [of "Suc n" "co_cancels s"]
      unfolding coordinator_ok_def by blast
    ultimately show ?thesis using assms(2) CancelEnd True r by (auto simp: coordinator_ok_def)
  qed (use assms CancelEnd in simp)
next
  case (Confirm user i boot token result)
  obtain r f w where c: "confirm S user i boot token result (co_file s) (co_world s) = (r, f, w)" by (metis prod_cases3)
  have before: "\<forall>t. co_file s = Some t \<longrightarrow> txn_ok t" using assms(1) by (simp add: coordinator_ok_def)
  have "txn_ok t" if "f = Some t" for t by (rule txn_ok_confirm [OF before c [unfolded that]])
  then show ?thesis using assms Confirm c by (auto simp: coordinator_ok_def)
next
  case (Status i token boot h)
  then show ?thesis using assms txn_ok_status by (fastforce simp: coordinator_ok_def)
next
  case (Complete user i)
  then show ?thesis using assms by (auto simp: coordinator_ok_def complete_def split: sum.splits if_splits)
next
  case (Dismiss user key)
  then show ?thesis using assms by (auto simp: coordinator_ok_def dismissFailed_def split: option.splits if_splits)
qed

interpretation restart: event_invariant "restart_step S" "idle w" coordinator_ok for S w
  by unfold_locales (simp add: coordinator_ok_def idle_def, rule coordinator_ok_step)


text \<open>C28: The persisted transaction is well formed at all times.  Whatever requests of whatever operators come in, with
  cancellations overlapping them, the file holds at most 32 changes of different settings, a pending transaction has
  neither a token nor an error, and one that restarts or is ready has the token its browser polls with.\<close>

theorem restart_transaction_invariant:
  assumes "reachable (restart_step S) (idle w) s" and "co_file s = Some t"
  shows "distinct (map ch_key (tx_changes t)) \<and> length (tx_changes t) \<le> 32
    \<and> (tx_phase t = Pending \<longrightarrow> tx_token t = None \<and> tx_error t = None)
    \<and> (tx_phase t = Restarting \<or> tx_phase t = Ready \<longrightarrow> tx_token t \<noteq> None)"
  using restart.inv_reachable [OF assms(1)] assms(2) by (auto simp: coordinator_ok_def txn_ok_def MAX_CHANGES_def)


section \<open>Cancelling restores the settings\<close>

text \<open>A panel page saves settings one by one: a save keeps what it replaces, changes the setting and hands out the
  descriptor of the rollback, which is registered under the key of the setting.\<close>

fun save_edits ::
  "('e \<Rightarrow> string) \<Rightarrow> ('e \<Rightarrow> 'w \<Rightarrow> descriptor \<times> 'w) \<Rightarrow> string \<Rightarrow> string \<Rightarrow> 'e list \<Rightarrow> state_file \<Rightarrow> 'w \<Rightarrow>
     restart_error + state_file \<times> 'w" where
  "save_edits key save user i [] f w = Inr (f, w)"
| "save_edits key save user i (e # es) f w =
     (case save e w of
        (d, w') \<Rightarrow>
          (case registerChange (Some user) i \<lparr>cr_key = Some (key e), cr_label = key e, cr_rollback = Some d\<rparr> f of
             Inl err \<Rightarrow> Inl err
           | Inr (_, f') \<Rightarrow> save_edits key save user i es f' w'))"

text \<open>What a cancellation relies on.  Settings live in stores (a file, or a value of a service), and \<open>look w s\<close> is what the
  store \<open>s\<close> holds; several settings may share a store, as the keys of \<open>.env\<close> do.  A save changes the store of its setting only,
  and its descriptor stands for all that the store held before, for as long as the backups are kept; a rollback puts
  the whole store back to that, whatever has happened to it since.\<close>

definition whole_stores ::
  "'w rollback_services \<Rightarrow> ('w \<Rightarrow> string \<Rightarrow> 'v) \<Rightarrow> (string \<Rightarrow> string) \<Rightarrow> ('e \<Rightarrow> string) \<Rightarrow> ('e \<Rightarrow> 'w \<Rightarrow> descriptor \<times> 'w) \<Rightarrow>
     (descriptor \<Rightarrow> string \<Rightarrow> 'v \<Rightarrow> 'w \<Rightarrow> bool) \<Rightarrow> bool" where
  "whole_stores S look store key save stands =
     ((\<forall>e w. stands (fst (save e w)) (store (key e)) (look w (store (key e))) (snd (save e w)))
      \<and> (\<forall>e w s. s \<noteq> store (key e) \<longrightarrow> look (snd (save e w)) s = look w s)
      \<and> (\<forall>e w d s v. stands d s v w \<longrightarrow> stands d s v (snd (save e w)))
      \<and> (\<forall>k l d s v w. stands d s v w \<longrightarrow>
           (\<exists>w'. rollbackChange S \<lparr>ch_key = k, ch_label = l, ch_rollback = d\<rparr> w = (None, w')
              \<and> look w' = (look w)(s := v) \<and> (\<forall>d' s' v'. stands d' s' v' w \<longrightarrow> stands d' s' v' w'))))"

lemma whole_storesD:
  assumes "whole_stores S look store key save stands"
  shows "stands (fst (save e w)) (store (key e)) (look w (store (key e))) (snd (save e w))"
    and "s \<noteq> store (key e) \<Longrightarrow> look (snd (save e w)) s = look w s"
    and "stands d s v w \<Longrightarrow> stands d s v (snd (save e w))"
    and "stands d s v w \<Longrightarrow> \<exists>w'. rollbackChange S \<lparr>ch_key = k, ch_label = l, ch_rollback = d\<rparr> w = (None, w')
       \<and> look w' = (look w)(s := v) \<and> (\<forall>d' s' v'. stands d' s' v' w \<longrightarrow> stands d' s' v' w')"
  using assms unfolding whole_stores_def by blast+

text \<open>What the changes of a transaction stand for: a list of stores and contents, one for each change in their order, whose
  first entry for a store is what it held before the edits.\<close>

definition stand_for :: "(string \<Rightarrow> string) \<Rightarrow> (descriptor \<Rightarrow> string \<Rightarrow> 'v \<Rightarrow> 'w \<Rightarrow> bool) \<Rightarrow> change list \<Rightarrow> (string \<times> 'v) list \<Rightarrow> 'w \<Rightarrow> bool" where
  "stand_for store stands cs vs w = list_all2 (\<lambda>c (s, v). s = store (ch_key c) \<and> stands (ch_rollback c) s v w) cs vs"

definition undoable :: "('w \<Rightarrow> string \<Rightarrow> 'v) \<Rightarrow> (string \<Rightarrow> string) \<Rightarrow> (descriptor \<Rightarrow> string \<Rightarrow> 'v \<Rightarrow> 'w \<Rightarrow> bool) \<Rightarrow> change list \<Rightarrow> 'w \<Rightarrow> 'w \<Rightarrow> bool" where
  "undoable look store stands cs w w0 =
     (\<exists>vs. stand_for store stands cs vs w \<and> (\<forall>s. look w0 s = (case map_of vs s of Some v \<Rightarrow> v | None \<Rightarrow> look w s)))"

lemma stand_for_label: "stand_for store stands cs vs w \<Longrightarrow> stand_for store stands (set_label k l cs) vs w"
  unfolding stand_for_def
proof (induction cs arbitrary: vs)
  case (Cons c cs)
  then show ?case by (cases vs) auto
qed simp

lemma stand_for_keys: "stand_for store stands cs vs w \<Longrightarrow> store ` ch_key ` set cs = fst ` set vs"
  unfolding stand_for_def
proof (induction cs arbitrary: vs)
  case (Cons c cs)
  then obtain v vs' where "vs = (store (ch_key c), v) # vs'" "store ` ch_key ` set cs = fst ` set vs'"
    by (cases vs) (auto simp del: image_iff)
  then show ?case by simp
qed simp

lemma undoable_save:
  assumes laws: "whole_stores S look store key save stands" and u: "undoable look store stands (tx_changes t) w w0"
    and add: "add_change \<lparr>ch_key = key e, ch_label = key e, ch_rollback = fst (save e w)\<rparr> t = Inr t'"
  shows "undoable look store stands (tx_changes t') (snd (save e w)) w0"
proof -
  let ?w = "snd (save e w)" and ?s = "store (key e)" and ?c = "\<lparr>ch_key = key e, ch_label = key e, ch_rollback = fst (save e w)\<rparr>"
  obtain vs where vs: "stand_for store stands (tx_changes t) vs w" "\<forall>s. look w0 s = (case map_of vs s of Some v \<Rightarrow> v | None \<Rightarrow> look w s)"
    using u unfolding undoable_def by blast
  have kept: "stand_for store stands (tx_changes t) vs ?w"
    using vs(1) unfolding stand_for_def by (rule list_all2_mono) (use whole_storesD(3) [OF laws] in auto)
  have other: "look ?w s = look w s" if "s \<noteq> ?s" for s using whole_storesD(2) [OF laws that] .
  show ?thesis
  proof (cases "find_change (key e) (tx_changes t)")
    case (Some d)
    then have t': "tx_changes t' = set_label (key e) (key e) (tx_changes t)" using add by (auto simp: add_change_def)
    have "key e \<in> ch_key ` set (tx_changes t)"
      using Some by (auto simp: find_change_def find_Some_iff in_set_conv_nth) (metis image_eqI nth_mem)
    then have "?s \<in> fst ` set vs" using stand_for_keys [OF vs(1)] by blast
    then have "map_of vs ?s \<noteq> None" by (simp add: map_of_eq_None_iff)
    then have "\<forall>s. look w0 s = (case map_of vs s of Some v \<Rightarrow> v | None \<Rightarrow> look ?w s)"
      using vs(2) other by (metis option.case_eq_if)
    then show ?thesis unfolding undoable_def t' using stand_for_label [OF kept] by blast
  next
    case None
    then have t': "tx_changes t' = tx_changes t @ [?c]" using add by (auto simp: add_change_def split: if_splits)
    have "stand_for store stands (tx_changes t @ [?c]) (vs @ [(?s, look w ?s)]) ?w"
      using kept whole_storesD(1) [OF laws] unfolding stand_for_def by (intro list_all2_appendI) simp_all
    moreover have "look w0 s = (case map_of (vs @ [(?s, look w ?s)]) s of Some v \<Rightarrow> v | None \<Rightarrow> look ?w s)" for s
      using vs(2) other [of s] by (cases "map_of vs s"; cases "s = ?s") (simp_all add: map_add_def)
    ultimately show ?thesis unfolding undoable_def t' by blast
  qed
qed

lemma register_pending:
  assumes "registerChange (Some u) i \<lparr>cr_key = Some k, cr_label = k, cr_rollback = Some d\<rparr> f = Inr (p, f')"
    and "f = None \<or> (\<exists>t. f = Some t \<and> tx_phase t = Pending)"
  shows "\<exists>t t'. (f = Some t \<or> (f = None \<and> t = new_txn i u)) \<and> tx_user t = u \<and> tx_phase t = Pending
    \<and> add_change \<lparr>ch_key = k, ch_label = k, ch_rollback = d\<rparr> t = Inr t' \<and> f' = Some t'"
  using assms
  by (auto simp: registerChange_def assertChange_def new_txn_def map_sum_def split: sum.splits option.splits if_splits)

lemma add_change_same:
  "add_change c t = Inr t' \<Longrightarrow> tx_user t' = tx_user t \<and> tx_phase t' = tx_phase t \<and> tx_id t' = tx_id t"
  by (auto simp: add_change_def split: option.splits if_splits)

lemma save_edits_undoable:
  assumes laws: "whole_stores S look store key save stands"
  shows "save_edits key save u i es f w = Inr (Some t, w1) \<Longrightarrow>
    (f = None \<and> w = w0) \<or> (\<exists>t0. f = Some t0 \<and> tx_phase t0 = Pending \<and> tx_user t0 = u \<and> tx_id t0 = i \<and> undoable look store stands (tx_changes t0) w w0) \<Longrightarrow>
    tx_phase t = Pending \<and> tx_user t = u \<and> tx_id t = i \<and> undoable look store stands (tx_changes t) w1 w0"
proof (induction es arbitrary: f w)
  case (Cons e es)
  obtain p f' where r: "registerChange (Some u) i \<lparr>cr_key = Some (key e), cr_label = key e, cr_rollback = Some (fst (save e w))\<rparr> f = Inr (p, f')"
      and rest: "save_edits key save u i es f' (snd (save e w)) = Inr (Some t, w1)"
    using Cons(2) by (auto split: sum.splits prod.splits)
  let ?c = "\<lparr>ch_key = key e, ch_label = key e, ch_rollback = fst (save e w)\<rparr>"
  obtain t0 t1 where t: "f = Some t0 \<or> (f = None \<and> t0 = new_txn i u)" "tx_user t0 = u" "tx_phase t0 = Pending"
      "add_change ?c t0 = Inr t1" "f' = Some t1"
    using register_pending [OF r] Cons(3) by blast
  have fresh: "undoable look store stands (tx_changes (new_txn i u)) w0 w0"
    unfolding undoable_def by (rule exI [of _ "[]"]) (simp add: stand_for_def new_txn_def)
  have "undoable look store stands (tx_changes t0) w w0 \<and> tx_id t0 = i"
    using t(1) Cons(3) fresh by (auto simp: new_txn_def)
  then have "undoable look store stands (tx_changes t1) (snd (save e w)) w0" "tx_id t0 = i"
    using undoable_save [OF laws _ t(4)] by simp_all
  then have "f' = Some t1 \<and> tx_phase t1 = Pending \<and> tx_user t1 = u \<and> tx_id t1 = i \<and> undoable look store stands (tx_changes t1) (snd (save e w)) w0"
    using add_change_same [OF t(4)] t by simp
  then show ?case using Cons(1) [OF rest] by blast
qed auto

text \<open>Undoing the last change first leaves each store at what its first change stands for.\<close>

lemma rollback_list_append:
  "rollback_list S (xs @ ys) w = (case rollback_list S xs w of (fs, w1) \<Rightarrow> (case rollback_list S ys w1 of (gs, w2) \<Rightarrow> (fs @ gs, w2)))"
  by (induction xs arbitrary: w) (auto split: prod.splits option.splits)

lemma rollback_last_first:
  assumes laws: "whole_stores S look store key save stands"
  shows "stand_for store stands cs vs w \<Longrightarrow>
    \<exists>w'. rollback_list S (rev cs) w = ([], w') \<and> (\<forall>s. look w' s = (case map_of vs s of Some v \<Rightarrow> v | None \<Rightarrow> look w s))
      \<and> (\<forall>d s v. stands d s v w \<longrightarrow> stands d s v w')"
proof (induction cs arbitrary: vs)
  case Nil
  then show ?case by (simp add: stand_for_def)
next
  case (Cons c cs)
  obtain s v vs' where vs: "vs = (s, v) # vs'" "s = store (ch_key c)" "stands (ch_rollback c) s v w" "stand_for store stands cs vs' w"
    using Cons.prems by (cases vs) (auto simp: stand_for_def)
  obtain w1 where w1: "rollback_list S (rev cs) w = ([], w1)" "\<forall>s. look w1 s = (case map_of vs' s of Some v \<Rightarrow> v | None \<Rightarrow> look w s)"
      "\<forall>d s v. stands d s v w \<longrightarrow> stands d s v w1"
    using Cons.IH [OF vs(4)] by blast
  have "stands (ch_rollback c) s v w1" using w1(3) vs(3) by blast
  moreover have "\<lparr>ch_key = ch_key c, ch_label = ch_label c, ch_rollback = ch_rollback c\<rparr> = c" by (cases c) simp
  ultimately obtain w2 where
    w2: "rollbackChange S c w1 = (None, w2)" "look w2 = (look w1)(s := v)" "\<forall>d' s' v'. stands d' s' v' w1 \<longrightarrow> stands d' s' v' w2"
    using whole_storesD(4) [OF laws, of "ch_rollback c" s v w1 "ch_key c" "ch_label c"] by metis
  have "rollback_list S (rev (c # cs)) w = ([], w2)" using w1(1) w2(1) by (simp add: rollback_list_append)
  then show ?case using w1(2,3) w2(2,3) vs(1) by auto
qed

text \<open>C29: Cancelling a transaction undoes its edits, also where settings share a file.  When no transaction is stored, an
  operator saves any number of settings, some of them several times and some in a common file such as \<open>.env\<close>, each save
  registered with a snapshot of the whole file or value that it replaced.  If all are accepted, and if a rollback works, puts back
  exactly the snapshot it is given and touches no other file or value, cancelling succeeds, removes the transaction and leaves
  every file and value as it was before the first edit: the changes are undone from the last to the first, so that the oldest
  snapshot of a file is the one that stays.\<close>

theorem cancel_restores_settings:
  assumes "whole_stores S look store key save stands"
    and "save_edits key save user i es None w0 = Inr (Some t, w1)"
  shows "\<exists>w2. cancel S (Some user) i (Some t) w1 = (Inr i, None, w2) \<and> look w2 = look w0"
proof -
  have t: "tx_phase t = Pending" "tx_user t = user" "tx_id t = i" "undoable look store stands (tx_changes t) w1 w0"
    using save_edits_undoable [OF assms(1,2), of w0] by simp_all
  then obtain vs where vs: "stand_for store stands (tx_changes t) vs w1" "\<forall>s. look w0 s = (case map_of vs s of Some v \<Rightarrow> v | None \<Rightarrow> look w1 s)"
    unfolding undoable_def by blast
  obtain w2 where w2: "rollback_list S (rev (tx_changes t)) w1 = ([], w2)" "\<forall>s. look w2 s = (case map_of vs s of Some v \<Rightarrow> v | None \<Rightarrow> look w1 s)"
    using rollback_last_first [OF assms(1) vs(1)] by blast
  have "look w2 = look w0" using vs(2) w2(2) by (intro ext) simp
  then show ?thesis
    using t w2(1) by (simp add: cancel_def cancel_start_def getRawForOperator_def cancel_finish_def rollbackStateChanges_def)
qed

text \<open>An example: a server with an environment file, which is backed up as a whole at each save, and values of the Go
  server.  Backups are numbered, and the number of one is the length of its path.\<close>

record demo_server =
  sv_env :: string
  sv_backups :: "nat \<Rightarrow> string"
  sv_next :: nat
  sv_config :: "string \<Rightarrow> string"

definition demo_store :: "string \<Rightarrow> string" where
  "demo_store k = (if startsWith k ''env:'' then ''.env'' else k)"

definition demo_look :: "demo_server \<Rightarrow> string \<Rightarrow> string" where
  "demo_look w s = (if s = ''.env'' then sv_env w else sv_config w s)"

definition demo_save :: "string \<times> string \<Rightarrow> demo_server \<Rightarrow> descriptor \<times> demo_server" where
  "demo_save e w =
     (if demo_store (fst e) = ''.env''
      then (EnvConfig (replicate (sv_next w) CHR ''b'') ''/c/.env'',
            w\<lparr>sv_env := snd e, sv_backups := (sv_backups w)(sv_next w := sv_env w), sv_next := Suc (sv_next w)\<rparr>)
      else (GoConfig (fst e) (sv_config w (fst e)), w\<lparr>sv_config := (sv_config w)(fst e := snd e)\<rparr>))"

definition demo_stands :: "descriptor \<Rightarrow> string \<Rightarrow> string \<Rightarrow> demo_server \<Rightarrow> bool" where
  "demo_stands d s v w =
     (case d of
        EnvConfig b p \<Rightarrow> s = ''.env'' \<and> length b < sv_next w \<and> sv_backups w (length b) = v
      | GoConfig k x \<Rightarrow> s = k \<and> k \<noteq> ''.env'' \<and> x = v
      | _ \<Rightarrow> False)"

definition demo_services :: "demo_server rollback_services" where
  "demo_services = \<lparr>setConnectionMode = (\<lambda>s w. (None, w)), restoreBackup = (\<lambda>i b w. (None, w)), restoreClockSettings = (\<lambda>s w. (None, w)),
     setConfig = (\<lambda>k v w. ((True, []), w\<lparr>sv_config := (sv_config w)(k := v)\<rparr>)),
     restoreEnv = (\<lambda>b p w. (None, w\<lparr>sv_env := sv_backups w (length b)\<rparr>)), canUsePrivilegedUpdate = (\<lambda>w. False),
     invokePrivilegedUpdate = (\<lambda>p b w. (None, w))\<rparr>"

lemma demo_whole_stores: "whole_stores demo_services demo_look demo_store fst demo_save demo_stands"
  unfolding whole_stores_def
proof (intro conjI allI impI)
  fix e :: "string \<times> string" and w s assume "s \<noteq> demo_store (fst e)"
  then show "demo_look (snd (demo_save e w)) s = demo_look w s"
    by (auto simp: demo_save_def demo_look_def demo_store_def)
next
  fix e :: "string \<times> string" and w show "demo_stands (fst (demo_save e w)) (demo_store (fst e)) (demo_look w (demo_store (fst e))) (snd (demo_save e w))"
    by (auto simp: demo_save_def demo_look_def demo_stands_def demo_store_def)
next
  fix e :: "string \<times> string" and w d s v assume "demo_stands d s v w"
  then show "demo_stands d s v (snd (demo_save e w))" by (cases d) (auto simp: demo_save_def demo_stands_def)
next
  fix k l d s v w assume st: "demo_stands d s v w"
  show "\<exists>w'. rollbackChange demo_services \<lparr>ch_key = k, ch_label = l, ch_rollback = d\<rparr> w = (None, w') \<and> demo_look w' = (demo_look w)(s := v)
      \<and> (\<forall>d' s' v'. demo_stands d' s' v' w \<longrightarrow> demo_stands d' s' v' w')"
  proof (cases d)
    case (GoConfig k x)
    let ?w = "w\<lparr>sv_config := (sv_config w)(k := x)\<rparr>"
    have "demo_look ?w = (demo_look w)(s := v)" using st GoConfig by (auto simp: demo_look_def demo_stands_def)
    moreover have "demo_stands d' s' v' w \<Longrightarrow> demo_stands d' s' v' ?w" for d' s' v' by (cases d') (auto simp: demo_stands_def)
    ultimately show ?thesis using GoConfig by (intro exI [of _ ?w]) (simp add: rollbackChange_def demo_services_def)
  next
    case (EnvConfig b p)
    let ?w = "w\<lparr>sv_env := sv_backups w (length b)\<rparr>"
    have "demo_look ?w = (demo_look w)(s := v)" using st EnvConfig by (auto simp: demo_look_def demo_stands_def)
    moreover have "demo_stands d' s' v' w \<Longrightarrow> demo_stands d' s' v' ?w" for d' s' v' by (cases d') (auto simp: demo_stands_def)
    ultimately show ?thesis using EnvConfig by (intro exI [of _ ?w]) (simp add: rollbackChange_def demo_services_def)
  qed (use st in \<open>simp_all add: demo_stands_def\<close>)
qed

definition demo_server_start :: demo_server where
  "demo_server_start = \<lparr>sv_env = ''A=1'', sv_backups = (\<lambda>n. []), sv_next = 0, sv_config = (\<lambda>k. ''old'')\<rparr>"

definition demo_edits :: "(string \<times> string) list" where
  "demo_edits = [(''env:A'', ''A=2''), (''port'', ''1''), (''env:B'', ''A=2B=3''), (''port'', ''2'')]"

lemma demo_saved:
  "\<exists>t w. save_edits fst demo_save ''u'' ''t'' demo_edits None demo_server_start = Inr (Some t, w) \<and> length (tx_changes t) = 3 \<and> sv_env w = ''A=2B=3''"
  by (simp add: demo_edits_def demo_save_def demo_store_def demo_server_start_def registerChange_def assertChange_def startsWith_def
      add_change_def find_change_def new_txn_def MAX_CHANGES_def publicState_def)

theorem cancel_restores_settings_witness:
  "\<exists>t w1 w2. save_edits fst demo_save ''u'' ''t'' demo_edits None demo_server_start = Inr (Some t, w1) \<and> sv_env w1 = ''A=2B=3''
     \<and> cancel demo_services (Some ''u'') ''t'' (Some t) w1 = (Inr ''t'', None, w2) \<and> demo_look w2 ''.env'' = ''A=1''"
proof -
  obtain t w1 where s: "save_edits fst demo_save ''u'' ''t'' demo_edits None demo_server_start = Inr (Some t, w1)" "sv_env w1 = ''A=2B=3''"
    using demo_saved by blast
  obtain w2 where "cancel demo_services (Some ''u'') ''t'' (Some t) w1 = (Inr ''t'', None, w2)" "demo_look w2 = demo_look demo_server_start"
    using cancel_restores_settings [OF demo_whole_stores s(1)] by blast
  moreover have "demo_look demo_server_start ''.env'' = ''A=1''" by (simp add: demo_look_def demo_server_start_def)
  ultimately show ?thesis using s by metis
qed

text \<open>The services of an idle console.\<close>

definition demo_settings :: "string \<Rightarrow> string" where
  "demo_settings k = ''old''"

definition go_services :: "(string \<Rightarrow> string) rollback_services" where
  "go_services = \<lparr>setConnectionMode = (\<lambda>s w. (None, w)), restoreBackup = (\<lambda>i b w. (None, w)), restoreClockSettings = (\<lambda>s w. (None, w)),
     setConfig = (\<lambda>k v w. ((True, []), w(k := v))), restoreEnv = (\<lambda>b p w. (None, w)), canUsePrivilegedUpdate = (\<lambda>w. False),
     invokePrivilegedUpdate = (\<lambda>p b w. (None, w))\<rparr>"

definition demo_request :: change_request where
  "demo_request = \<lparr>cr_key = Some ''port'', cr_label = [], cr_rollback = Some (GoConfig ''port'' ''old'')\<rparr>"

theorem restart_transaction_invariant_witness:
  "\<exists>s t. reachable (restart_step go_services) (idle demo_settings) s \<and> co_file s = Some t \<and> tx_phase t = Pending
     \<and> tx_token t = None \<and> length (tx_changes t) \<le> 32"
proof -
  let ?t = "(new_txn ''t'' ''u'')\<lparr>tx_changes :=
      [\<lparr>ch_key = ''port'', ch_label = ''port'', ch_rollback = GoConfig ''port'' ''old''\<rparr>]\<rparr>"
  let ?s = "(idle demo_settings)\<lparr>co_file := Some ?t\<rparr>"
  have "restart_step go_services (Register (Some ''u'') ''t'' demo_request) (idle demo_settings) = Some ?s"
    by (simp add: registerChange_def assertChange_def demo_request_def add_change_def find_change_def idle_def new_txn_def
        MAX_CHANGES_def)
  then have "run_events (restart_step go_services) [Register (Some ''u'') ''t'' demo_request] (idle demo_settings) = Some ?s"
    by simp
  then have r: "reachable (restart_step go_services) (idle demo_settings) ?s" by (rule run_reachable [OF reachable.start])
  have f: "co_file ?s = Some ?t" "tx_phase ?t = Pending" by (simp_all add: new_txn_def)
  from restart_transaction_invariant [OF r f(1)] show ?thesis
    using r f by (intro exI [of _ ?s] exI [of _ ?t]) blast
qed


section \<open>Overlapping operators\<close>

text \<open>A new change of any operator replaces a transaction that is not pending, whoever owns it: the record of a failed
  rollback, or of a restart whose browser is still polling, is gone.\<close>

theorem registering_drops_foreign_transaction:
  assumes "tx_phase t \<noteq> Pending" and "user \<noteq> tx_user t" and "user \<noteq> []" and "assertChange r = Inr c"
  shows "\<exists>p t'. registerChange (Some user) i r (Some t) = Inr (p, Some t') \<and> tx_id t' = i \<and> tx_user t' = user
    \<and> tx_changes t' = [c]"
  using assms by (simp add: registerChange_def add_change_def find_change_def new_txn_def MAX_CHANGES_def)

text \<open>A change that is registered while a cancellation rolls back is lost: the cancellation removes the file, and the
  new change is neither rolled back nor kept.\<close>

theorem cancellation_loses_concurrent_change:
  assumes "co_file s = Some t" and "tx_phase t = Pending" and "co_cancels s = []" and "tx_user t \<noteq> []"
    and "rollbackStateChanges S t (co_world s) = ([], w)"
    and "assertChange r = Inr c" and "ch_key c \<notin> ch_key ` set (tx_changes t)" and "length (tx_changes t) < MAX_CHANGES"
  shows "run_events (restart_step S)
     [CancelStart (Some (tx_user t)) (tx_id t), Register (Some (tx_user t)) i r, CancelEnd 0] s
   = Some (s\<lparr>co_file := None, co_world := w\<rparr>)"
proof -
  have "cancel_start (Some (tx_user t)) (tx_id t) (co_file s) = Inr t"
    using assms(1,2) by (simp add: cancel_start_def getRawForOperator_def)
  moreover have "registerChange (Some (tx_user t)) i r (Some t)
      = Inr (publicState (t\<lparr>tx_changes := tx_changes t @ [c]\<rparr>), Some (t\<lparr>tx_changes := tx_changes t @ [c]\<rparr>))"
    using assms(2,4,6-8) by (simp add: registerChange_def add_change_def find_change_None [THEN iffD2])
  ultimately show ?thesis using assms(1,3,5) by (simp add: cancel_finish_def)
qed

end
