(* ===== verification/Safe_Path.thy ===== *)
theory Safe_Path
  imports Env_Config
begin

text \<open>
  Path confinement: \<open>src/web-nodejs/lib/safePath.js\<close>.

  Paths are POSIX paths.  A resolved path is absolute and is determined by its components (\<open>path_parts\<close>,
  \<open>abs_path\<close>).  The file system is an argument (\<open>fsys\<close>): \<open>existsSync\<close>, and \<open>realpathSync\<close>, which is \<^term>\<open>None\<close> when
  it throws.  What an operation does to the file system is the call it makes (\<open>fs_call\<close>); a refused request is the
  error of the code.  An argument that is no string is refused like the empty string.
\<close>

section \<open>Paths\<close>

definition abs_path :: "string list \<Rightarrow> string" where
  "abs_path ps = CHR ''/'' # join_with ''/'' ps"

definition isAbsolute :: "string \<Rightarrow> bool" where
  "isAbsolute p = startsWith p ''/''"

text \<open>\<open>path.resolve(base, p)\<close> for an absolute base; \<open>path.resolve(p)\<close> has the working directory as its base.\<close>

definition path_resolve :: "string \<Rightarrow> string \<Rightarrow> string" where
  "path_resolve base p = resolve_abs (if isAbsolute p then p else base @ ''/'' @ p)"

text \<open>\<open>path.join\<close> of an absolute path and segments.\<close>

definition path_join :: "string \<Rightarrow> string list \<Rightarrow> string" where
  "path_join p segs = resolve_abs (join_with ''/'' (p # segs))"

text \<open>\<open>path.relative\<close> of two resolved paths.\<close>

fun strip_common :: "'a list \<Rightarrow> 'a list \<Rightarrow> 'a list \<times> 'a list" where
  "strip_common (x # xs) (y # ys) = (if x = y then strip_common xs ys else (x # xs, y # ys))"
| "strip_common xs ys = (xs, ys)"

definition path_relative :: "string \<Rightarrow> string \<Rightarrow> string" where
  "path_relative f t =
     (case strip_common (path_parts f) (path_parts t) of (a, b) \<Rightarrow> join_with ''/'' (replicate (length a) ''..'' @ b))"

record fsys =
  fs_cwd :: string
  fs_exists :: "string \<Rightarrow> bool"
  fs_realpath :: "string \<Rightarrow> string option"

datatype path_error =
    InvalidSegment | OutsideDirectory | PathRequired | InvalidPath | ResolvesOutside | OutsideRoots
  | ResolvesOutsideRoots | RelativeRequired | InvalidRelative | RefusedRoot | PathNotFound | FsError


section \<open>The checks\<close>

text \<open>The loop of \<open>normalizeComparablePath\<close>: up to the nearest directory that exists.\<close>

fun climb :: "fsys \<Rightarrow> string list \<Rightarrow> string list \<Rightarrow> string list \<times> string list" where
  "climb F ps segs =
     (if fs_exists F (abs_path ps) \<or> ps = [] then (ps, segs) else climb F (butlast ps) (last ps # segs))"

declare climb.simps [simp del]

definition normalizeComparablePath :: "fsys \<Rightarrow> string \<Rightarrow> string" where
  "normalizeComparablePath F p =
     (let normalized = path_resolve (fs_cwd F) p;
          (existing, unresolved) = climb F (path_parts normalized) []
      in if fs_exists F (abs_path existing) then
           (case fs_realpath F (abs_path existing) of
              Some r \<Rightarrow> path_join r unresolved
            | None \<Rightarrow> normalized)
         else normalized)"

definition isPathInsideRoot :: "fsys \<Rightarrow> string \<Rightarrow> string \<Rightarrow> bool" where
  "isPathInsideRoot F resolvedPath rootDir =
     (let rel = path_relative (normalizeComparablePath F rootDir) (normalizeComparablePath F resolvedPath)
      in rel = [] \<or> \<not> startsWith rel ''..'' \<and> \<not> isAbsolute rel)"

definition resolveChildPath :: "fsys \<Rightarrow> string \<Rightarrow> string \<Rightarrow> path_error + string" where
  "resolveChildPath F rootDir childName =
     (if childName = [] then Inl InvalidSegment
      else if CHR 0x00 \<in> set childName \<or> CHR ''/'' \<in> set childName \<or> CHR 0x5C \<in> set childName then Inl InvalidSegment
      else if childName = ''.'' \<or> childName = ''..'' then Inl InvalidSegment
      else
        let root = path_resolve (fs_cwd F) rootDir; target = path_resolve root childName in
        if \<not> isPathInsideRoot F target root then Inl OutsideDirectory else Inr target)"

definition resolvePathWithinRoot :: "fsys \<Rightarrow> string \<Rightarrow> string \<Rightarrow> path_error + string" where
  "resolvePathWithinRoot F userPath rootDir =
     (if userPath = [] then Inl PathRequired
      else if CHR 0x00 \<in> set userPath then Inl InvalidPath
      else
        let root = path_resolve (fs_cwd F) rootDir; abs = path_resolve (fs_cwd F) userPath in
        if \<not> isPathInsideRoot F abs root then Inl OutsideDirectory
        else if fs_exists F abs then
          (case fs_realpath F abs of
             None \<Rightarrow> Inl FsError
           | Some real \<Rightarrow> if \<not> isPathInsideRoot F real root then Inl ResolvesOutside else Inr real)
        else Inr abs)"

definition resolvePathWithinAnyRoot :: "fsys \<Rightarrow> string \<Rightarrow> string list \<Rightarrow> path_error + string" where
  "resolvePathWithinAnyRoot F userPath roots =
     (if userPath = [] then Inl PathRequired
      else if CHR 0x00 \<in> set userPath then Inl InvalidPath
      else
        let abs = path_resolve (fs_cwd F) userPath; normalizedRoots = map (path_resolve (fs_cwd F)) roots in
        if \<not> list_ex (isPathInsideRoot F abs) normalizedRoots then Inl OutsideRoots
        else if fs_exists F abs then
          (case fs_realpath F abs of
             None \<Rightarrow> Inl FsError
           | Some real \<Rightarrow>
               if \<not> list_ex (isPathInsideRoot F real) normalizedRoots then Inl ResolvesOutsideRoots else Inr real)
        else Inr abs)"

definition resolveLangFilePath :: "fsys \<Rightarrow> string \<Rightarrow> string \<Rightarrow> path_error + string" where
  "resolveLangFilePath F langDir code = resolveChildPath F (path_resolve (fs_cwd F) langDir) (code @ ''.json'')"

fun resolve_segments :: "fsys \<Rightarrow> string \<Rightarrow> string list \<Rightarrow> path_error + string" where
  "resolve_segments F current [] = Inr current"
| "resolve_segments F current (s # ss) =
     (case resolveChildPath F current s of Inl e \<Rightarrow> Inl e | Inr next \<Rightarrow> resolve_segments F next ss)"

definition resolvePathUnderRoot :: "fsys \<Rightarrow> string \<Rightarrow> string \<Rightarrow> path_error + string" where
  "resolvePathUnderRoot F rootDir relativePath =
     (if relativePath = [] then Inl RelativeRequired
      else if CHR 0x00 \<in> set relativePath then Inl InvalidRelative
      else
        let normalized = map (\<lambda>c. if c = CHR 0x5C then CHR ''/'' else c) relativePath in
        if isAbsolute normalized \<or> startsWith normalized ''/'' then Inl InvalidRelative
        else resolve_segments F (path_resolve (fs_cwd F) rootDir) (filter (\<lambda>s. s \<noteq> []) (split_on CHR ''/'' normalized)))"


section \<open>Confined operations\<close>

datatype fs_call =
    RmTree string | Unlink string | Mkdir string | Rename string string | ReadText string | WriteText string string

definition finalizedConfinedPath :: "fsys \<Rightarrow> string \<Rightarrow> string list \<Rightarrow> path_error + string" where
  "finalizedConfinedPath F userPath roots =
     (case resolvePathWithinAnyRoot F userPath roots of
        Inl e \<Rightarrow> Inl e
      | Inr p \<Rightarrow>
          let resolvedRoots = map (path_resolve (fs_cwd F)) roots in
          if fs_exists F p then
            (case fs_realpath F p of
               None \<Rightarrow> Inl FsError
             | Some real \<Rightarrow>
                 if \<not> list_ex (isPathInsideRoot F real) resolvedRoots then Inl ResolvesOutsideRoots else Inr real)
          else Inr p)"

definition finalizedConfinedPathWithinRoot :: "fsys \<Rightarrow> string \<Rightarrow> string \<Rightarrow> path_error + string" where
  "finalizedConfinedPathWithinRoot F userPath rootDir =
     (case resolvePathWithinRoot F userPath rootDir of
        Inl e \<Rightarrow> Inl e
      | Inr p \<Rightarrow>
          let root = path_resolve (fs_cwd F) rootDir in
          if fs_exists F p then
            (case fs_realpath F p of
               None \<Rightarrow> Inl FsError
             | Some real \<Rightarrow> if \<not> isPathInsideRoot F real root then Inl ResolvesOutside else Inr real)
          else Inr p)"

definition existsConfinedChild :: "fsys \<Rightarrow> string \<Rightarrow> string \<Rightarrow> path_error + bool" where
  "existsConfinedChild F rootDir childName = map_sum id (fs_exists F) (resolveChildPath F rootDir childName)"

definition removeConfinedChild :: "fsys \<Rightarrow> string \<Rightarrow> string \<Rightarrow> path_error + fs_call" where
  "removeConfinedChild F rootDir childName =
     (let root = path_resolve (fs_cwd F) rootDir in
      case resolveChildPath F root childName of
        Inl e \<Rightarrow> Inl e
      | Inr target \<Rightarrow>
          if target = root then Inl RefusedRoot
          else if \<not> fs_exists F target then Inl PathNotFound
          else Inr (RmTree target))"

definition readTextConfinedWithinRoot :: "fsys \<Rightarrow> string \<Rightarrow> string \<Rightarrow> path_error + fs_call" where
  "readTextConfinedWithinRoot F userPath rootDir = map_sum id ReadText (finalizedConfinedPathWithinRoot F userPath rootDir)"

definition existsConfinedWithinRoot :: "fsys \<Rightarrow> string \<Rightarrow> string \<Rightarrow> path_error + bool" where
  "existsConfinedWithinRoot F userPath rootDir =
     map_sum id (fs_exists F) (finalizedConfinedPathWithinRoot F userPath rootDir)"

definition renameConfinedWithinRoots :: "fsys \<Rightarrow> string \<Rightarrow> string \<Rightarrow> string list \<Rightarrow> path_error + fs_call" where
  "renameConfinedWithinRoots F oldPath newPath roots =
     (case finalizedConfinedPath F oldPath roots of
        Inl e \<Rightarrow> Inl e
      | Inr a \<Rightarrow> (case finalizedConfinedPath F newPath roots of Inl e \<Rightarrow> Inl e | Inr b \<Rightarrow> Inr (Rename a b)))"

definition unlinkConfinedWithinRoots :: "fsys \<Rightarrow> string \<Rightarrow> string list \<Rightarrow> path_error + fs_call" where
  "unlinkConfinedWithinRoots F userPath roots = map_sum id Unlink (finalizedConfinedPath F userPath roots)"

definition mkdirConfinedWithinRoots :: "fsys \<Rightarrow> string \<Rightarrow> string list \<Rightarrow> path_error + fs_call" where
  "mkdirConfinedWithinRoots F userPath roots = map_sum id Mkdir (finalizedConfinedPath F userPath roots)"

definition rmDirConfinedWithinRoots :: "fsys \<Rightarrow> string \<Rightarrow> string list \<Rightarrow> path_error + fs_call" where
  "rmDirConfinedWithinRoots F userPath roots = map_sum id RmTree (finalizedConfinedPath F userPath roots)"


section \<open>Components of paths\<close>

definition clean :: "string list \<Rightarrow> bool" where
  "clean ps = list_all (\<lambda>p. p \<noteq> [] \<and> p \<noteq> ''.'' \<and> p \<noteq> ''..'' \<and> CHR ''/'' \<notin> set p) ps"

lemma norm_parts_append: "norm_parts acc (xs @ ys) = norm_parts (rev (norm_parts acc xs)) ys"
  by (induction acc xs rule: norm_parts.induct) auto

lemma norm_parts_clean: "clean ps \<Longrightarrow> norm_parts acc ps = rev acc @ ps"
  by (induction ps arbitrary: acc) (auto simp: clean_def)

lemma clean_tl: "clean xs \<Longrightarrow> clean (tl xs)"
  by (cases xs) (auto simp: clean_def)

lemma norm_parts_is_clean:
  "clean acc \<Longrightarrow> list_all (\<lambda>p. CHR ''/'' \<notin> set p) ps \<Longrightarrow> clean (norm_parts acc ps)"
proof (induction acc ps rule: norm_parts.induct)
  case (1 acc)
  then show ?case by (simp add: clean_def list_all_rev)
next
  case (2 acc p ps)
  then show ?case using clean_tl [of acc] by (auto simp: clean_def)
qed

lemma clean_path_parts [simp]: "clean (path_parts p)"
  unfolding path_parts_def
  by (rule norm_parts_is_clean) (auto simp: clean_def list_all_iff dest: split_on_parts)

lemma path_parts_abs [simp]: "clean ps \<Longrightarrow> path_parts (abs_path ps) = ps"
proof (cases "ps = []")
  case False
  assume "clean ps"
  moreover from this have "split_on CHR ''/'' (join_with ''/'' ps) = ps"
    using False by (intro split_join) (auto simp: clean_def list_all_iff)
  ultimately show ?thesis by (simp add: path_parts_def abs_path_def norm_parts_clean)
qed (simp add: path_parts_def abs_path_def)

lemma resolve_abs_parts: "resolve_abs p = abs_path (path_parts p)"
  by (simp add: resolve_abs_def abs_path_def)

lemma parts_resolve_abs [simp]: "path_parts (resolve_abs p) = path_parts p"
  by (simp add: resolve_abs_parts)

lemma parts_slash: "path_parts (p @ CHR ''/'' # q) = norm_parts (rev (path_parts p)) (split_on CHR ''/'' q)"
  by (simp add: path_parts_def split_on_append norm_parts_append)

lemma parts_join: "clean segs \<Longrightarrow> path_parts (path_join r segs) = path_parts r @ segs"
proof (cases segs)
  case (Cons s ss)
  assume c: "clean segs"
  then have "split_on CHR ''/'' (join_with ''/'' segs) = segs"
    using Cons by (intro split_join) (auto simp: clean_def list_all_iff)
  with Cons c show ?thesis by (simp add: path_join_def parts_slash norm_parts_clean del: norm_parts.simps)
qed (simp add: path_join_def)

lemma parts_child:
  assumes "clean [s]"
  shows "path_parts (path_resolve r s) = path_parts r @ [s]"
proof -
  have "\<not> isAbsolute s" using assms by (cases s) (auto simp: clean_def isAbsolute_def startsWith_def)
  moreover have "split_on CHR ''/'' s = [s]" using assms by (intro split_on_no_sep) (simp add: clean_def)
  ultimately show ?thesis using assms by (simp add: path_resolve_def parts_slash norm_parts_clean del: norm_parts.simps)
qed

section \<open>What the check accepts\<close>

text \<open>Where a path leads, once the links of its existing part are resolved.\<close>

definition location :: "fsys \<Rightarrow> string \<Rightarrow> string list" where
  "location F p = path_parts (normalizeComparablePath F p)"

lemma strip_common_split:
  "strip_common xs ys = (a, b) \<Longrightarrow> \<exists>c. xs = c @ a \<and> ys = c @ b \<and> (a = [] \<or> b = [] \<or> hd a \<noteq> hd b)"
proof (induction xs ys rule: strip_common.induct)
  case (1 x xs y ys)
  show ?case
  proof (cases "x = y")
    case True
    then obtain c where "xs = c @ a" "ys = c @ b" "a = [] \<or> b = [] \<or> hd a \<noteq> hd b" using 1 by auto
    then show ?thesis using True by (intro exI [of _ "x # c"]) simp
  qed (use 1 in auto)
qed auto

lemma strip_common_prefix: "strip_common xs (xs @ ys) = ([], ys)"
  by (induction xs) (cases ys, auto)

lemma join_starts_with_head: "b \<noteq> [] \<Longrightarrow> \<exists>r. join_with ''/'' b = hd b @ r \<and> (r = [] \<or> hd r = CHR ''/'')"
  by (induction "''/''" b rule: join_with.induct) auto

lemma relative_below:
  assumes "clean b"
  shows "(let rel = join_with ''/'' b in rel = [] \<or> \<not> startsWith rel ''..'' \<and> \<not> isAbsolute rel)
     \<longleftrightarrow> b = [] \<or> \<not> startsWith (hd b) ''..''"
proof (cases "b = []")
  case False
  then obtain r where r: "join_with ''/'' b = hd b @ r" "r = [] \<or> hd r = CHR ''/''"
    using join_starts_with_head by blast
  have h: "hd b \<noteq> []" "hd b \<noteq> ''.''" "CHR ''/'' \<notin> set (hd b)"
    using assms False by (cases b; auto simp: clean_def)+
  obtain x xs where x: "hd b = x # xs" using h(1) by (cases "hd b") auto
  have "startsWith (hd b @ r) ''..'' \<longleftrightarrow> startsWith (hd b) ''..''"
    using h r(2) x by (cases xs; cases r) (auto simp: startsWith_def)
  then show ?thesis using False r(1) h x by (auto simp: Let_def isAbsolute_def startsWith_def)
qed simp

text \<open>Inside means below in the tree, except for names that begin with two dots directly below the root.\<close>

lemma isPathInsideRoot_iff:
  "isPathInsideRoot F p root \<longleftrightarrow>
     (\<exists>rest. location F p = location F root @ rest \<and> (rest = [] \<or> \<not> startsWith (hd rest) ''..''))"
proof -
  obtain a b where ab: "strip_common (location F root) (location F p) = (a, b)" by fastforce
  then obtain c where c: "location F root = c @ a" "location F p = c @ b" "a = [] \<or> b = [] \<or> hd a \<noteq> hd b"
    using strip_common_split by blast
  have cb: "clean b" using c(2) clean_path_parts [of "normalizeComparablePath F p"] by (simp add: location_def clean_def)
  have rel: "path_relative (normalizeComparablePath F root) (normalizeComparablePath F p)
      = join_with ''/'' (replicate (length a) ''..'' @ b)"
    using ab by (simp add: path_relative_def location_def)
  show ?thesis
  proof (cases a)
    case Nil
    then show ?thesis using relative_below [OF cb] rel c by (simp add: isPathInsideRoot_def)
  next
    case (Cons x xs)
    then obtain r where "join_with ''/'' (replicate (length a) ''..'' @ b) = ''..'' @ r"
      using join_starts_with_head [of "replicate (length a) ''..'' @ b"] by auto
    then have "\<not> isPathInsideRoot F p root" using rel by (simp add: isPathInsideRoot_def startsWith_def)
    moreover have "location F p \<noteq> location F root @ rest" for rest
      using c Cons by (cases b) auto
    ultimately show ?thesis by blast
  qed
qed

lemma inside_prefix: "isPathInsideRoot F p root \<Longrightarrow> prefix (location F root) (location F p)"
  by (auto simp: isPathInsideRoot_iff)

lemma isAbsolute_resolved [simp]: "isAbsolute (resolve_abs p)"
  by (simp add: isAbsolute_def resolve_abs_def startsWith_def)

lemma resolve_resolved [simp]: "path_resolve base (path_resolve base' p) = path_resolve base' p"
  by (simp add: path_resolve_def resolve_abs_parts [of "resolve_abs q" for q]) (simp add: resolve_abs_parts)

lemma location_resolved [simp]: "location F (path_resolve (fs_cwd F) p) = location F p"
  by (simp add: location_def normalizeComparablePath_def)

text \<open>What \<open>realpath\<close> is documented to do: its result exists, is resolved and is its own real path.\<close>

definition fs_lawful :: "fsys \<Rightarrow> bool" where
  "fs_lawful F = (\<forall>p r. fs_realpath F p = Some r \<longrightarrow> fs_exists F r \<and> fs_realpath F r = Some r \<and> resolve_abs r = r)"

text \<open>Where the system puts a path: an existing one at its real path, a new name in the place of its directory.  A symbolic
  link whose target does not exist (\<open>dangling\<close>) is neither; what is written through it goes to its target.\<close>

inductive puts :: "fsys \<Rightarrow> (string \<Rightarrow> bool) \<Rightarrow> string list \<Rightarrow> string list \<Rightarrow> bool" for F dangling where
  there: "fs_exists F (abs_path ps) \<Longrightarrow> fs_realpath F (abs_path ps) = Some r \<Longrightarrow> puts F dangling ps (path_parts r)"
| fresh: "\<not> fs_exists F (abs_path (ps @ [s])) \<Longrightarrow> \<not> dangling (abs_path (ps @ [s])) \<Longrightarrow> puts F dangling ps qs \<Longrightarrow>
    puts F dangling (ps @ [s]) (qs @ [s])"

definition lands :: "fsys \<Rightarrow> (string \<Rightarrow> bool) \<Rightarrow> string \<Rightarrow> string list \<Rightarrow> bool" where
  "lands F dangling p q = puts F dangling (path_parts (path_resolve (fs_cwd F) p)) q"

lemma puts_climb:
  "puts F dangling ps qs \<Longrightarrow> clean ps \<Longrightarrow> clean segs \<Longrightarrow>
    \<exists>ex un r. climb F ps segs = (ex, un) \<and> fs_exists F (abs_path ex) \<and> fs_realpath F (abs_path ex) = Some r
      \<and> path_parts (path_join r un) = qs @ segs"
proof (induction arbitrary: segs rule: puts.induct)
  case (there ps r)
  then show ?case by (subst climb.simps) (simp add: parts_join)
next
  case (fresh ps s qs)
  have "clean ps" "clean (s # segs)" using fresh.prems by (simp_all add: clean_def)
  from fresh.IH [OF this] show ?case using fresh.hyps(1) by (subst climb.simps) simp
qed

text \<open>The check of the code looks at that place.\<close>

lemma location_lands:
  assumes "lands F dangling p q"
  shows "location F p = q"
proof -
  have "clean []" by (simp add: clean_def)
  from puts_climb [OF assms [unfolded lands_def] clean_path_parts this] obtain ex un r where
    "climb F (path_parts (path_resolve (fs_cwd F) p)) [] = (ex, un)" "fs_exists F (abs_path ex)"
    "fs_realpath F (abs_path ex) = Some r" "path_parts (path_join r un) = q" by auto
  then show ?thesis by (simp add: location_def normalizeComparablePath_def Let_def)
qed

lemma within_any_root:
  assumes "resolvePathWithinAnyRoot F u roots = Inr p"
  shows "\<exists>root \<in> set roots. prefix (location F root) (location F p)"
    and "fs_lawful F \<Longrightarrow> fs_exists F p \<Longrightarrow> fs_realpath F p = Some p"
  using assms inside_prefix
  by (force simp: resolvePathWithinAnyRoot_def Let_def list_ex_iff fs_lawful_def split: if_splits option.splits)+

lemma finalized:
  assumes "finalizedConfinedPath F u roots = Inr p"
  shows "\<exists>root \<in> set roots. prefix (location F root) (location F p)"
    and "fs_lawful F \<Longrightarrow> fs_exists F p \<Longrightarrow> fs_realpath F p = Some p"
proof -
  obtain q where q: "resolvePathWithinAnyRoot F u roots = Inr q"
    using assms by (auto simp: finalizedConfinedPath_def split: sum.splits)
  show "\<exists>root \<in> set roots. prefix (location F root) (location F p)"
    using assms q within_any_root(1) [OF q] inside_prefix
    by (force simp: finalizedConfinedPath_def list_ex_iff split: if_splits option.splits)
  show "fs_realpath F p = Some p" if "fs_lawful F" "fs_exists F p"
    using assms q that by (auto simp: finalizedConfinedPath_def fs_lawful_def split: if_splits option.splits)
qed

primrec call_paths :: "fs_call \<Rightarrow> string list" where
  "call_paths (RmTree p) = [p]"
| "call_paths (Unlink p) = [p]"
| "call_paths (Mkdir p) = [p]"
| "call_paths (Rename p q) = [p, q]"
| "call_paths (ReadText p) = [p]"
| "call_paths (WriteText p t) = [p]"

lemma finalized_calls:
  assumes "Inr call \<in> {renameConfinedWithinRoots F u v roots, unlinkConfinedWithinRoots F u roots,
           mkdirConfinedWithinRoots F u roots, rmDirConfinedWithinRoots F u roots}"
    and "p \<in> set (call_paths call)"
  shows "\<exists>w. finalizedConfinedPath F w roots = Inr p"
  using assms
  by (auto simp: renameConfinedWithinRoots_def unlinkConfinedWithinRoots_def mkdirConfinedWithinRoots_def
      rmDirConfinedWithinRoots_def map_sum_def split: sum.splits)


section \<open>Children\<close>

lemma child_path:
  assumes "resolveChildPath F root s = Inr p"
  shows "path_parts p = path_parts (path_resolve (fs_cwd F) root) @ [s]"
    and "prefix (location F root) (location F p)" and "clean [s]"
    and "p = path_resolve base p"
proof -
  have s: "clean [s]" and p: "p = path_resolve (path_resolve (fs_cwd F) root) s"
    and i: "isPathInsideRoot F p (path_resolve (fs_cwd F) root)"
    using assms by (auto simp: resolveChildPath_def clean_def Let_def split: if_splits)
  show "path_parts p = path_parts (path_resolve (fs_cwd F) root) @ [s]" using p parts_child [OF s] by simp
  show "prefix (location F root) (location F p)" using inside_prefix [OF i] by simp
  show "clean [s]" by (rule s)
  show "p = path_resolve base p" using p by simp
qed

lemma resolve_segments_below:
  assumes "resolve_segments F cur ss = Inr p" and "cur = path_resolve base cur0"
  shows "path_parts p = path_parts cur @ ss \<and> prefix (location F cur) (location F p) \<and> clean ss"
  using assms
proof (induction ss arbitrary: cur base cur0)
  case (Cons s ss)
  then obtain q where q: "resolveChildPath F cur s = Inr q" "resolve_segments F q ss = Inr p"
    by (auto split: sum.splits)
  note c = child_path [OF q(1)]
  have "path_parts p = path_parts q @ ss \<and> prefix (location F q) (location F p) \<and> clean ss"
    using Cons(1) [OF q(2) c(4)] by blast
  moreover have "path_parts q = path_parts cur @ [s]" using c(1) Cons(3) by simp
  ultimately show ?case using c(2,3) by (auto simp: clean_def intro: prefix_order.trans)
qed (simp add: clean_def)

text \<open>A relative path resolved under a root adds its segments to the root, none of them \<open>.\<close> or \<open>..\<close>, and still leads
  below the root when links on the way are followed.\<close>

theorem relative_path_stays_below:
  assumes "resolvePathUnderRoot F root rel = Inr p"
  shows "\<exists>ss. clean ss \<and> path_parts p = path_parts (path_resolve (fs_cwd F) root) @ ss
    \<and> prefix (location F root) (location F p)"
proof -
  obtain ss where "resolve_segments F (path_resolve (fs_cwd F) root) ss = Inr p"
    using assms by (auto simp: resolvePathUnderRoot_def Let_def split: if_splits)
  from resolve_segments_below [OF this refl] show ?thesis by auto
qed

text \<open>Deleting a child never meets the test for the root itself: the test is dead.\<close>

theorem removed_child_is_not_the_root:
  "removeConfinedChild F root s \<noteq> Inl RefusedRoot"
proof
  assume r: "removeConfinedChild F root s = Inl RefusedRoot"
  have "resolveChildPath F q s \<noteq> Inl RefusedRoot" for q by (simp add: resolveChildPath_def Let_def)
  with r have "resolveChildPath F (path_resolve (fs_cwd F) root) s = Inr (path_resolve (fs_cwd F) root)"
    by (auto simp: removeConfinedChild_def Let_def split: sum.splits if_splits)
  from child_path(1) [OF this] show False by simp
qed

end
