(* ===== verification/File_Manager.thy ===== *)
theory File_Manager
  imports Safe_Path
begin

text \<open>
  The file browser and the service control of \<open>src/web-nodejs/services/serverManagement.js\<close>.

  Every operation resolves the path it is given with the helpers of \<open>Safe_Path\<close> and gives the call it makes to the
  file system.  What \<open>stat\<close>, \<open>lstat\<close> and \<open>readdir\<close> answer is an argument; an operation that throws gives an error.
  The collation of \<open>localeCompare\<close> is an argument too.  Texts are Latin-1, so their UTF-8 length is known.
\<close>

section \<open>Roots\<close>

record fm_env =
  betterdesk_path :: string
  console_path :: string
  home_dir :: string
  tmp_dir :: string
  allowed_roots :: string
  mutable_roots :: string

definition set_add :: "'a \<Rightarrow> 'a list \<Rightarrow> 'a list" where
  "set_add x xs = (if x \<in> set xs then xs else xs @ [x])"

definition add_extra :: "fsys \<Rightarrow> string \<Rightarrow> string list \<Rightarrow> string list" where
  "add_extra F extra roots =
     (if extra = [] then roots
      else fold (\<lambda>entry rs. let trimmed = js_trim entry in
                   if trimmed \<noteq> [] then set_add (path_resolve (fs_cwd F) trimmed) rs else rs) (split_on CHR '','' extra) roots)"

definition base_roots :: "fsys \<Rightarrow> fm_env \<Rightarrow> string list" where
  "base_roots F E =
     [path_resolve (fs_cwd F) (if betterdesk_path E \<noteq> [] then betterdesk_path E else ''/opt/rustdesk''),
      path_resolve (fs_cwd F) (if console_path E \<noteq> [] then console_path E else fs_cwd F)]"

definition getAllowedFileRoots :: "fsys \<Rightarrow> fm_env \<Rightarrow> string list" where
  "getAllowedFileRoots F E =
     add_extra F (allowed_roots E)
       (fold set_add (base_roots F E @ [path_resolve (fs_cwd F) (home_dir E), ''/var/log'', tmp_dir E, ''/tmp'', ''/var/tmp'']) [])"

definition getMutableFileRoots :: "fsys \<Rightarrow> fm_env \<Rightarrow> string list" where
  "getMutableFileRoots F E = add_extra F (mutable_roots E) (fold set_add (base_roots F E) [])"

definition resolvePath :: "fsys \<Rightarrow> fm_env \<Rightarrow> string \<Rightarrow> path_error + string" where
  "resolvePath F E p = resolvePathWithinAnyRoot F p (getAllowedFileRoots F E)"


section \<open>Files\<close>

datatype fm_error =
    BadPath path_error | NotDirectory | NotRegular | TooLargeToRead | NotText | TooLargeToWrite | RefusedFsRoot | StatFailed

record finfo =
  fi_dir :: bool
  fi_file :: bool
  fi_size :: nat

text \<open>An entry of a listing; without \<open>lstat\<close> the kind is the one of the directory entry.\<close>

record item =
  it_name :: string
  it_path :: string
  it_dir :: bool
  it_size :: nat

definition list_item :: "fsys \<Rightarrow> (string \<Rightarrow> finfo option) \<Rightarrow> string \<Rightarrow> string \<times> bool \<Rightarrow> item option" where
  "list_item F lstat p e =
     (case resolveChildPath F p (fst e) of
        Inl _ \<Rightarrow> None
      | Inr full \<Rightarrow>
          Some (case lstat full of
                  None \<Rightarrow> \<lparr>it_name = fst e, it_path = full, it_dir = snd e, it_size = 0\<rparr>
                | Some st \<Rightarrow> \<lparr>it_name = fst e, it_path = full, it_dir = fi_dir st, it_size = fi_size st\<rparr>))"

definition item_before :: "(string \<Rightarrow> string \<Rightarrow> int) \<Rightarrow> item \<Rightarrow> item \<Rightarrow> bool" where
  "item_before collate a b = (if it_dir a \<noteq> it_dir b then it_dir a else collate (it_name a) (it_name b) < 0)"

primrec insert_item :: "(string \<Rightarrow> string \<Rightarrow> int) \<Rightarrow> item \<Rightarrow> item list \<Rightarrow> item list" where
  "insert_item collate x [] = [x]"
| "insert_item collate x (y # ys) = (if item_before collate x y then x # y # ys else y # insert_item collate x ys)"

definition sort_items :: "(string \<Rightarrow> string \<Rightarrow> int) \<Rightarrow> item list \<Rightarrow> item list" where
  "sort_items collate xs = fold (insert_item collate) xs []"

definition listDirectory ::
  "fsys \<Rightarrow> fm_env \<Rightarrow> (string \<Rightarrow> finfo option) \<Rightarrow> (string \<Rightarrow> finfo option) \<Rightarrow> (string \<Rightarrow> (string \<times> bool) list) \<Rightarrow>
     (string \<Rightarrow> string \<Rightarrow> int) \<Rightarrow> string \<Rightarrow> fm_error + string \<times> string \<times> item list" where
  "listDirectory F E stat lstat readdir collate dirPath =
     (case resolvePath F E dirPath of
        Inl e \<Rightarrow> Inl (BadPath e)
      | Inr p \<Rightarrow>
          (case stat p of
             None \<Rightarrow> Inl StatFailed
           | Some st \<Rightarrow>
               if \<not> fi_dir st then Inl NotDirectory
               else Inr (p, abs_path (butlast (path_parts p)),
                         sort_items collate (List.map_filter (list_item F lstat p) (readdir p)))))"

definition FILE_MAX_BYTES :: nat where "FILE_MAX_BYTES = 8 * 1024 * 1024"

definition READ_PREVIEW_BYTES :: nat where "READ_PREVIEW_BYTES = 256 * 1024"

record preview =
  pv_path :: string
  pv_size :: nat
  pv_binary :: bool
  pv_truncated :: bool
  pv_content :: string

text \<open>\<open>bytes p\<close> is the content of the file; the decoding of UTF-8 is an argument.\<close>

definition readFilePreview ::
  "fsys \<Rightarrow> fm_env \<Rightarrow> (string \<Rightarrow> finfo option) \<Rightarrow> (string \<Rightarrow> string) \<Rightarrow> (string \<Rightarrow> string) \<Rightarrow> string \<Rightarrow> fm_error + preview" where
  "readFilePreview F E stat bytes decode filePath =
     (case resolvePath F E filePath of
        Inl e \<Rightarrow> Inl (BadPath e)
      | Inr p \<Rightarrow>
          (case stat p of
             None \<Rightarrow> Inl StatFailed
           | Some st \<Rightarrow>
               if \<not> fi_file st then Inl NotRegular
               else if fi_size st > FILE_MAX_BYTES then Inl TooLargeToRead
               else
                 let sliceBytes = min (fi_size st) READ_PREVIEW_BYTES;
                     data = take sliceBytes (bytes p);
                     buf = data @ replicate (sliceBytes - length data) CHR 0x00;
                     isBinary = (CHR 0x00 \<in> set buf)
                 in Inr \<lparr>pv_path = p, pv_size = fi_size st, pv_binary = isBinary,
                         pv_truncated = (fi_size st > sliceBytes),
                         pv_content = (if isBinary then [] else decode buf)\<rparr>))"

definition byteLength :: "string \<Rightarrow> nat" where
  "byteLength s = sum_list (map (\<lambda>c. if (of_char c :: nat) < 128 then 1 else 2) s)"

definition writeFile :: "fsys \<Rightarrow> fm_env \<Rightarrow> string \<Rightarrow> string option \<Rightarrow> fm_error + (string \<times> nat) \<times> fs_call" where
  "writeFile F E filePath content =
     (case resolvePathWithinAnyRoot F filePath (getMutableFileRoots F E) of
        Inl e \<Rightarrow> Inl (BadPath e)
      | Inr p \<Rightarrow>
          (case content of
             None \<Rightarrow> Inl NotText
           | Some t \<Rightarrow>
               if byteLength t > FILE_MAX_BYTES then Inl TooLargeToWrite
               else Inr ((p, byteLength t), WriteText p t)))"

fun drive_root :: "string \<Rightarrow> bool" where
  "drive_root [c, d] = (is_alpha c \<and> d = CHR '':'')"
| "drive_root [c, d, b] = (is_alpha c \<and> d = CHR '':'' \<and> b = CHR 0x5C)"
| "drive_root _ = False"

definition deletePath :: "fsys \<Rightarrow> fm_env \<Rightarrow> (string \<Rightarrow> finfo option) \<Rightarrow> string \<Rightarrow> fm_error + string \<times> fs_call" where
  "deletePath F E lstat p =
     (let roots = getMutableFileRoots F E in
      case resolvePathWithinAnyRoot F p roots of
        Inl e \<Rightarrow> Inl (BadPath e)
      | Inr q \<Rightarrow>
          if q = ''/'' \<or> drive_root q then Inl RefusedFsRoot
          else (case lstat q of
                  None \<Rightarrow> Inl StatFailed
                | Some st \<Rightarrow>
                    map_sum BadPath (Pair q)
                      (if fi_dir st then rmDirConfinedWithinRoots F p roots else unlinkConfinedWithinRoots F p roots)))"

definition makeDirectory :: "fsys \<Rightarrow> fm_env \<Rightarrow> string \<Rightarrow> fm_error + fs_call" where
  "makeDirectory F E p = map_sum BadPath id (mkdirConfinedWithinRoots F p (getMutableFileRoots F E))"

definition renamePath :: "fsys \<Rightarrow> fm_env \<Rightarrow> string \<Rightarrow> string \<Rightarrow> fm_error + fs_call" where
  "renamePath F E oldPath newPath = map_sum BadPath id (renameConfinedWithinRoots F oldPath newPath (getMutableFileRoots F E))"


section \<open>Services\<close>

datatype platform = Linux | Windows | OtherPlatform

datatype service_error = InvalidServiceName | NotAllowlisted | ActionNotAllowed | NotSupported

datatype service_call = Systemctl string string | Powershell string | Broker string

definition SERVICE_NAME_RE :: "string \<Rightarrow> bool" where
  "SERVICE_NAME_RE s = (1 \<le> length s \<and> length s \<le> 128 \<and> list_all (\<lambda>c. is_alnum c \<or> c \<in> set ''_.@:-'') s)"

definition ALLOWED_SERVICE_ACTIONS_LINUX :: "string list" where
  "ALLOWED_SERVICE_ACTIONS_LINUX = [''start'', ''stop'', ''restart'', ''reload'', ''enable'', ''disable'', ''status'']"

definition ALLOWED_SERVICE_ACTIONS_WINDOWS :: "string list" where
  "ALLOWED_SERVICE_ACTIONS_WINDOWS = [''start'', ''stop'', ''restart'', ''status'']"

definition ALLOWED_BETTERDESK_SERVICES :: "string list" where
  "ALLOWED_BETTERDESK_SERVICES =
     [''betterdesk-server'', ''betterdesk-server.service'', ''betterdesk-console'', ''betterdesk-console.service'',
      ''betterdesk'', ''betterdesk-api'', ''betterdesk-api.service'', ''betterdesk-go'', ''betterdesk-go.service'',
      ''rustdesksignal'', ''rustdesksignal.service'', ''rustdeskrelay'', ''rustdeskrelay.service'', ''hbbs'',
      ''hbbs.service'', ''hbbr'', ''hbbr.service'', ''BetterDeskServer'', ''BetterDeskConsole'', ''BetterDeskSignal'',
      ''BetterDeskRelay'']"

definition isAllowedBetterDeskService :: "string \<Rightarrow> bool" where
  "isAllowedBetterDeskService name = (name \<in> set ALLOWED_BETTERDESK_SERVICES)"

record service_row =
  sv_name :: string
  sv_load :: string
  sv_active :: string
  sv_sub :: string
  sv_description :: string

text \<open>\<open>s.split(/\s+/)\<close>.\<close>

fun ws_words :: "string \<Rightarrow> string list" where
  "ws_words [] = [[]]"
| "ws_words (c # cs) =
     (if js_ws c then
        (case cs of d # _ \<Rightarrow> if js_ws d then ws_words cs else [] # ws_words cs | [] \<Rightarrow> [[], []])
      else (case ws_words cs of w # ws \<Rightarrow> (c # w) # ws | [] \<Rightarrow> [[c]]))"

definition service_line :: "string \<Rightarrow> service_row option" where
  "service_line line =
     (case ws_words (js_trim line) of
        unit # load # active # sub # rest \<Rightarrow>
          if \<not> endsWith unit ''.service'' then None
          else Some \<lparr>sv_name = unit, sv_load = load, sv_active = active, sv_sub = sub, sv_description = join_with '' '' rest\<rparr>
      | _ \<Rightarrow> None)"

definition listServicesLinux :: "string \<Rightarrow> service_row list" where
  "listServicesLinux raw = List.map_filter service_line (split_on CHR 0x0A raw)"

definition listServices :: "string \<Rightarrow> service_row list" where
  "listServices raw = filter (\<lambda>s. isAllowedBetterDeskService (sv_name s)) (listServicesLinux raw)"

definition strip_service :: "string \<Rightarrow> string" where
  "strip_service name = (if endsWith name ''.service'' then take (length name - 8) name else name)"

definition controlServiceLinux :: "bool \<Rightarrow> string \<Rightarrow> string \<Rightarrow> service_error + service_call" where
  "controlServiceLinux canUsePrivilegedUpdate name action =
     (if \<not> SERVICE_NAME_RE name then Inl InvalidServiceName
      else if \<not> isAllowedBetterDeskService name then Inl NotAllowlisted
      else if action \<notin> set ALLOWED_SERVICE_ACTIONS_LINUX then Inl ActionNotAllowed
      else
        let brokerService = strip_service name in
        if action = ''restart'' \<and> brokerService \<in> {''betterdesk-server'', ''betterdesk-console''} \<and> canUsePrivilegedUpdate
        then Inr (Broker brokerService)
        else Inr (Systemctl action name))"

definition controlServiceWindows :: "string \<Rightarrow> string \<Rightarrow> service_error + service_call" where
  "controlServiceWindows name action =
     (if \<not> SERVICE_NAME_RE name then Inl InvalidServiceName
      else if \<not> isAllowedBetterDeskService name then Inl NotAllowlisted
      else if action \<notin> set ALLOWED_SERVICE_ACTIONS_WINDOWS then Inl ActionNotAllowed
      else
        let psAction = (if action = ''restart'' then ''Restart-Service'' else if action = ''start'' then ''Start-Service''
                        else if action = ''stop'' then ''Stop-Service'' else ''Get-Service'')
        in Inr (Powershell (psAction @ '' -Name '' @ [CHR 0x27]
                  @ concat (map (\<lambda>c. if c = CHR 0x27 then [c, c] else [c]) name) @ [CHR 0x27] @ '' | Out-String'')))"

definition controlService :: "platform \<Rightarrow> bool \<Rightarrow> string \<Rightarrow> string \<Rightarrow> service_error + service_call" where
  "controlService pf canUsePrivilegedUpdate name action =
     (case pf of
        Linux \<Rightarrow> controlServiceLinux canUsePrivilegedUpdate name action
      | Windows \<Rightarrow> controlServiceWindows name action
      | OtherPlatform \<Rightarrow> Inl NotSupported)"


section \<open>Changes stay within the mutable roots\<close>

text \<open>The calls that a request of the file browser can make.\<close>

definition file_changes :: "fsys \<Rightarrow> fm_env \<Rightarrow> (string \<Rightarrow> finfo option) \<Rightarrow> string \<Rightarrow> string \<Rightarrow> string option \<Rightarrow> (fm_error + fs_call) set" where
  "file_changes F E lstat u v content =
     {map_sum id snd (writeFile F E u content), map_sum id snd (deletePath F E lstat u), makeDirectory F E u, renamePath F E u v}"

lemma file_change_cases:
  assumes "Inr call \<in> file_changes F E lstat u v content" and "roots = getMutableFileRoots F E"
  shows "(\<exists>p t. call = WriteText p t \<and> resolvePathWithinAnyRoot F u roots = Inr p)
    \<or> Inr call \<in> {renameConfinedWithinRoots F u v roots, unlinkConfinedWithinRoots F u roots,
           mkdirConfinedWithinRoots F u roots, rmDirConfinedWithinRoots F u roots}"
  using assms
  by (auto simp: file_changes_def writeFile_def deletePath_def makeDirectory_def renamePath_def map_sum_def Let_def
      split: sum.splits option.splits if_splits)

text \<open>C21: Every change that the file browser makes is inside the directories it may change, except for what goes through a
  link whose target does not exist.  Whatever paths are given to write, delete, create or rename, with dots, links or
  relative parts: for each path of the call that results, the place where the system puts it is below the place of one of
  the mutable roots, and if something exists there the path is its own real path.  The place is defined without the
  code: the real path of what exists, and a new name in the place of its directory; a symbolic link whose target is missing has
  none, and writing through one does leave the roots (\<open>write_to_absent_path\<close>).  The hypotheses are what \<open>realpath\<close>
  documents, and that the roots have a place.\<close>

theorem file_changes_confined:
  assumes "fs_lawful F" and "Inr call \<in> file_changes F E lstat u v content" and "p \<in> set (call_paths call)"
    and "\<forall>root \<in> set (getMutableFileRoots F E). \<exists>r. lands F dangling root r" and "lands F dangling p q"
  shows "(\<exists>root \<in> set (getMutableFileRoots F E). \<exists>r. lands F dangling root r \<and> prefix r q)
    \<and> (fs_exists F p \<longrightarrow> fs_realpath F p = Some p)"
proof -
  let ?roots = "getMutableFileRoots F E"
  have "(\<exists>root \<in> set ?roots. prefix (location F root) (location F p)) \<and> (fs_exists F p \<longrightarrow> fs_realpath F p = Some p)"
    using file_change_cases [OF assms(2) refl]
  proof
    assume "\<exists>q t. call = WriteText q t \<and> resolvePathWithinAnyRoot F u ?roots = Inr q"
    then show ?thesis using within_any_root assms(1,3) by auto
  next
    assume "Inr call \<in> {renameConfinedWithinRoots F u v ?roots, unlinkConfinedWithinRoots F u ?roots,
           mkdirConfinedWithinRoots F u ?roots, rmDirConfinedWithinRoots F u ?roots}"
    from finalized_calls [OF this assms(3)] obtain w where "finalizedConfinedPath F w ?roots = Inr p" ..
    then show ?thesis using finalized assms(1) by blast
  qed
  then show ?thesis using assms(4) location_lands [OF assms(5)] location_lands [of F dangling] by metis
qed

text \<open>A console under \<open>/srv/bd\<close> with a file and a link to the file.\<close>

definition demo_real :: "string \<Rightarrow> string option" where
  "demo_real p = (if p = ''/srv/bd/link'' then Some ''/srv/bd/f''
                  else if p \<in> {''/'', ''/srv'', ''/srv/bd'', ''/srv/bd/f'', ''/etc''} then Some p else None)"

definition demo_fs :: fsys where
  "demo_fs = \<lparr>fs_cwd = ''/srv/bd'', fs_exists = (\<lambda>p. demo_real p \<noteq> None), fs_realpath = demo_real\<rparr>"

definition demo_fm :: fm_env where
  "demo_fm = \<lparr>betterdesk_path = ''/srv/bd'', console_path = [], home_dir = ''/root'', tmp_dir = ''/tmp'',
     allowed_roots = [], mutable_roots = []\<rparr>"

definition demo_lstat :: "string \<Rightarrow> finfo option" where
  "demo_lstat p = (if p = ''/srv/bd'' then Some \<lparr>fi_dir = True, fi_file = False, fi_size = 0\<rparr>
                   else Some \<lparr>fi_dir = False, fi_file = True, fi_size = 1\<rparr>)"

lemma demo_lawful: "fs_lawful demo_fs"
  by (auto simp: fs_lawful_def demo_fs_def demo_real_def resolve_abs_def path_parts_def split: if_splits)

lemma demo_mutable: "getMutableFileRoots demo_fs demo_fm = [''/srv/bd'']"
  by code_simp

lemma demo_delete_link: "deletePath demo_fs demo_fm demo_lstat ''sub/../link'' = Inr (''/srv/bd/f'', Unlink ''/srv/bd/f'')"
  by code_simp

lemma demo_lands: "lands demo_fs (\<lambda>p. False) ''/srv/bd'' [''srv'', ''bd'']" "lands demo_fs (\<lambda>p. False) ''/srv/bd/f'' [''srv'', ''bd'', ''f'']"
proof -
  have p: "path_parts (path_resolve (fs_cwd demo_fs) ''/srv/bd'') = [''srv'', ''bd'']" "path_parts ''/srv/bd'' = [''srv'', ''bd'']"
    "path_parts (path_resolve (fs_cwd demo_fs) ''/srv/bd/f'') = [''srv'', ''bd'', ''f'']" "path_parts ''/srv/bd/f'' = [''srv'', ''bd'', ''f'']"
    by code_simp+
  show "lands demo_fs (\<lambda>p. False) ''/srv/bd'' [''srv'', ''bd'']"
    using puts.there [of demo_fs "[''srv'', ''bd'']" "''/srv/bd''"] p by (simp add: lands_def demo_fs_def demo_real_def abs_path_def)
  show "lands demo_fs (\<lambda>p. False) ''/srv/bd/f'' [''srv'', ''bd'', ''f'']"
    using puts.there [of demo_fs "[''srv'', ''bd'', ''f'']" "''/srv/bd/f''"] p by (simp add: lands_def demo_fs_def demo_real_def abs_path_def)
qed

theorem file_changes_confined_witness:
  "Inr (Unlink ''/srv/bd/f'') \<in> file_changes demo_fs demo_fm demo_lstat ''sub/../link'' [] None
   \<and> (\<exists>r. lands demo_fs (\<lambda>p. False) ''/srv/bd'' r \<and> prefix r [''srv'', ''bd'', ''f''])"
proof -
  have c: "Inr (Unlink ''/srv/bd/f'') \<in> file_changes demo_fs demo_fm demo_lstat ''sub/../link'' [] None"
    by (simp add: file_changes_def demo_delete_link)
  have "\<forall>root \<in> set (getMutableFileRoots demo_fs demo_fm). \<exists>r. lands demo_fs (\<lambda>p. False) root r"
    using demo_lands(1) by (auto simp: demo_mutable)
  from file_changes_confined [OF demo_lawful c _ this demo_lands(2)] show ?thesis using c by (simp add: demo_mutable)
qed

text \<open>Listings: every entry shown leads below the directory that is listed.\<close>

lemma set_insert_item [simp]: "set (insert_item collate x xs) = insert x (set xs)"
  by (induction xs) auto

lemma set_sort_items [simp]: "set (sort_items collate xs) = set xs"
proof -
  have "set (fold (insert_item collate) xs acc) = set xs \<union> set acc" for acc
    by (induction xs arbitrary: acc) auto
  then show ?thesis by (simp add: sort_items_def)
qed

theorem listed_entries_inside:
  assumes "listDirectory F E stat lstat readdir collate d = Inr (p, parent, items)" and "x \<in> set items"
  shows "it_name x \<in> fst ` set (readdir p)" and "path_parts (it_path x) = path_parts (path_resolve (fs_cwd F) p) @ [it_name x]"
    and "prefix (location F p) (location F (it_path x))"
proof -
  have "items = sort_items collate (List.map_filter (list_item F lstat p) (readdir p))"
    using assms(1) by (auto simp: listDirectory_def split: sum.splits option.splits if_splits)
  then obtain e where e: "e \<in> set (readdir p)" "list_item F lstat p e = Some x"
    using assms(2) by (auto simp: List.map_filter_def)
  then obtain full where f: "resolveChildPath F p (fst e) = Inr full" "it_name x = fst e" "it_path x = full"
    by (auto simp: list_item_def split: sum.splits option.splits)
  show "it_name x \<in> fst ` set (readdir p)" using e f by simp
  show "path_parts (it_path x) = path_parts (path_resolve (fs_cwd F) p) @ [it_name x]"
    using child_path(1) [OF f(1)] f by simp
  show "prefix (location F p) (location F (it_path x))" using child_path(2) [OF f(1)] f by simp
qed

text \<open>Deleting follows links: what is deleted is the real path of the request, so for a link it is the file or the
  directory the link leads to, and the link stays.\<close>

theorem deletion_follows_links:
  assumes "fs_lawful F" and "fs_exists F (path_resolve (fs_cwd F) u)" and "deletePath F E lstat u = Inr (q, call)"
  shows "fs_realpath F (path_resolve (fs_cwd F) u) = Some q \<and> call \<in> {RmTree q, Unlink q}"
proof -
  let ?roots = "getMutableFileRoots F E"
  have r: "resolvePathWithinAnyRoot F u ?roots = Inr q"
    using assms(3) by (auto simp: deletePath_def Let_def map_sum_def split: sum.splits option.splits if_splits)
  have q: "fs_realpath F (path_resolve (fs_cwd F) u) = Some q"
    using r assms(2) by (auto simp: resolvePathWithinAnyRoot_def Let_def split: if_splits option.splits)
  then have "fs_exists F q" "fs_realpath F q = Some q" using assms(1) by (auto simp: fs_lawful_def)
  then have "finalizedConfinedPath F u ?roots \<in> {Inr q, Inl ResolvesOutsideRoots}"
    using r by (simp add: finalizedConfinedPath_def)
  then show ?thesis using q assms(3)
    by (auto simp: deletePath_def Let_def map_sum_def rmDirConfinedWithinRoots_def unlinkConfinedWithinRoots_def
        split: sum.splits option.splits if_splits)
qed

text \<open>A mutable root is itself accepted for deletion; only the root of the file system is refused.\<close>

theorem mutable_root_deleted:
  "deletePath demo_fs demo_fm demo_lstat ''/srv/bd'' = Inr (''/srv/bd'', RmTree ''/srv/bd'')"
  by code_simp

text \<open>A link whose target does not exist is no existing path for \<open>existsSync\<close>, so the check sees a new file below the root
  and the write goes to the path of the link; the file system then creates the target of the link.\<close>

theorem write_to_absent_path:
  assumes "\<not> fs_exists F (path_resolve (fs_cwd F) u)" and "writeFile F E u (Some t) = Inr (r, call)"
  shows "call = WriteText (path_resolve (fs_cwd F) u) t"
  using assms
  by (auto simp: writeFile_def resolvePathWithinAnyRoot_def Let_def split: sum.splits if_splits)

text \<open>A command only ever names a service of the list.\<close>

theorem service_commands_allowlisted:
  assumes "controlService pf b name action = Inr call"
  shows "name \<in> set ALLOWED_BETTERDESK_SERVICES \<and> action \<in> set ALLOWED_SERVICE_ACTIONS_LINUX
    \<and> (\<forall>a n. call = Systemctl a n \<longrightarrow> a = action \<and> n = name)"
proof -
  have w: "set ALLOWED_SERVICE_ACTIONS_WINDOWS \<subseteq> set ALLOWED_SERVICE_ACTIONS_LINUX"
    by (simp add: ALLOWED_SERVICE_ACTIONS_LINUX_def ALLOWED_SERVICE_ACTIONS_WINDOWS_def)
  show ?thesis
  proof (cases pf)
    case Linux
    then show ?thesis using assms
      by (auto simp: controlService_def controlServiceLinux_def isAllowedBetterDeskService_def Let_def split: if_splits)
  next
    case Windows
    then have "name \<in> set ALLOWED_BETTERDESK_SERVICES" "action \<in> set ALLOWED_SERVICE_ACTIONS_WINDOWS"
      "\<exists>c. call = Powershell c"
      using assms unfolding controlService_def controlServiceWindows_def isAllowedBetterDeskService_def
      by (simp_all only: platform.case Let_def split: if_splits) blast+
    then show ?thesis using w by auto
  qed (use assms in \<open>simp add: controlService_def\<close>)
qed

end
