(* ===== verification/File_Transfer.thy ===== *)
theory File_Transfer
  imports Complex_Main "HOL-Library.AList" Safe_Path Event_System
begin

text \<open>
  File transfers between the panel and the agents: \<open>src/web-nodejs/services/fileTransferService.js\<close> and its routes
  \<open>routes/fileTransfer.routes.js\<close>.

  The registry is a JavaScript \<open>Map\<close>, an association list in insertion order; the temporary files are a map from paths
  to contents.  Sizes are whole numbers, percentages exact.  The random identifier, the clock, the decoding of base64
  and the file system that resolves the temporary path are arguments.
\<close>

section \<open>Registry\<close>

datatype status = StPending | StActive | StCompleted | StFailed | StCancelled

record transfer =
  tr_id :: string
  tr_direction :: string
  tr_deviceId :: string
  tr_filename :: string
  tr_size :: int
  tr_mimeType :: string
  tr_status :: status
  tr_bytes :: int
  tr_totalChunks :: int
  tr_chunks :: nat
  tr_tempPath :: string
  tr_createdBy :: string
  tr_createdAt :: int
  tr_updatedAt :: int

record ft_state =
  ft_transfers :: "(string \<times> transfer) list"
  ft_files :: "string \<Rightarrow> string option"

datatype ft_error = FileTooLarge int | BadTempPath path_error | TransferNotFound | TransferIs status

definition MAX_CHUNK_SIZE :: int where "MAX_CHUNK_SIZE = 256 * 1024"

definition MAX_FILE_SIZE :: int where "MAX_FILE_SIZE = 4 * 1024 * 1024 * 1024"

definition TRANSFER_TIMEOUT_MS :: int where "TRANSFER_TIMEOUT_MS = 30 * 60 * 1000"

text \<open>\<open>path.basename\<close>: the last component, trailing slashes ignored.\<close>

definition path_basename :: "string \<Rightarrow> string" where
  "path_basename p = (case rev (filter (\<lambda>s. s \<noteq> []) (split_on CHR ''/'' p)) of [] \<Rightarrow> [] | s # _ \<Rightarrow> s)"

definition safeName :: "string \<Rightarrow> string" where
  "safeName filename =
     (let s = map (\<lambda>c. if is_alnum c \<or> c \<in> set ''._-'' then c else CHR ''_'') (path_basename (if filename \<noteq> [] then filename else ''file''))
      in if s \<noteq> [] then s else ''file'')"

text \<open>\<open>Math.ceil(size / MAX_CHUNK_SIZE) || 1\<close>.\<close>

definition total_chunks :: "int \<Rightarrow> int" where
  "total_chunks sz = (let n = - ((- sz) div MAX_CHUNK_SIZE) in if n = 0 then 1 else n)"

record transfer_args =
  ta_direction :: string
  ta_deviceId :: string
  ta_filename :: string
  ta_size :: int
  ta_mimeType :: string
  ta_createdBy :: string

definition createTransfer :: "fsys \<Rightarrow> string \<Rightarrow> string \<Rightarrow> int \<Rightarrow> transfer_args \<Rightarrow> ft_state \<Rightarrow> ft_error + transfer \<times> ft_state" where
  "createTransfer F dir i now a s =
     (if ta_size a > MAX_FILE_SIZE then Inl (FileTooLarge (ta_size a))
      else
        let name = safeName (ta_filename a) in
        case resolveChildPath F dir (i @ ''_'' @ name) of
          Inl e \<Rightarrow> Inl (BadTempPath e)
        | Inr tempPath \<Rightarrow>
            let t = \<lparr>tr_id = i, tr_direction = (if ta_direction a \<noteq> [] then ta_direction a else ''download''),
                     tr_deviceId = ta_deviceId a, tr_filename = name, tr_size = ta_size a,
                     tr_mimeType = (if ta_mimeType a \<noteq> [] then ta_mimeType a else ''application/octet-stream''),
                     tr_status = StPending, tr_bytes = 0, tr_totalChunks = total_chunks (ta_size a), tr_chunks = 0,
                     tr_tempPath = tempPath, tr_createdBy = (if ta_createdBy a \<noteq> [] then ta_createdBy a else ''system''),
                     tr_createdAt = now, tr_updatedAt = now\<rparr>
            in Inr (t, s\<lparr>ft_transfers := AList.update i t (ft_transfers s)\<rparr>))"

definition getTransfer :: "string \<Rightarrow> ft_state \<Rightarrow> transfer option" where
  "getTransfer i s = map_of (ft_transfers s) i"

text \<open>\<open>sort\<close> by descending time of creation is stable.\<close>

definition listTransfers :: "string \<Rightarrow> status option \<Rightarrow> string \<Rightarrow> ft_state \<Rightarrow> transfer list" where
  "listTransfers deviceId st direction s =
     sort_key (\<lambda>t. - tr_createdAt t)
       (filter (\<lambda>t. (deviceId = [] \<or> tr_deviceId t = deviceId) \<and> (st = None \<or> st = Some (tr_status t))
                  \<and> (direction = [] \<or> tr_direction t = direction)) (map snd (ft_transfers s)))"


section \<open>Chunks\<close>

datatype chunk_data = Raw string | Base64 string

definition buffer_of :: "(string \<Rightarrow> string) \<Rightarrow> chunk_data \<Rightarrow> string" where
  "buffer_of decode d = (case d of Raw b \<Rightarrow> b | Base64 t \<Rightarrow> decode t)"

definition percent :: "transfer \<Rightarrow> rat" where
  "percent t = of_int (tr_bytes t) / of_int (max (tr_size t) 1) * 100"

record progress =
  pg_id :: string
  pg_chunks :: nat
  pg_totalChunks :: int
  pg_bytes :: int
  pg_size :: int
  pg_percent :: rat
  pg_status :: status

definition progress_of :: "transfer \<Rightarrow> progress" where
  "progress_of t = \<lparr>pg_id = tr_id t, pg_chunks = tr_chunks t, pg_totalChunks = tr_totalChunks t, pg_bytes = tr_bytes t,
     pg_size = tr_size t, pg_percent = percent t, pg_status = tr_status t\<rparr>"

text \<open>\<open>open\<close> with the flag \<open>w\<close> empties the file, with \<open>a\<close> it appends to it and creates it when it is missing.\<close>

definition write_chunk :: "string \<Rightarrow> int \<Rightarrow> string \<Rightarrow> (string \<Rightarrow> string option) \<Rightarrow> string \<Rightarrow> string option" where
  "write_chunk p chunkIndex buffer files =
     files(p \<mapsto> (if chunkIndex = 0 then buffer else (case files p of Some old \<Rightarrow> old @ buffer | None \<Rightarrow> buffer)))"

definition count_chunk :: "int \<Rightarrow> string \<Rightarrow> transfer \<Rightarrow> transfer" where
  "count_chunk now buffer t =
     (let bytes = tr_bytes t + int (length buffer);
          st = (if tr_status t = StPending then StActive else tr_status t)
      in t\<lparr>tr_bytes := bytes, tr_chunks := tr_chunks t + 1, tr_updatedAt := now,
           tr_status := (if bytes \<ge> tr_size t then StCompleted else st)\<rparr>)"

definition receiveChunk :: "(string \<Rightarrow> string) \<Rightarrow> int \<Rightarrow> string \<Rightarrow> int \<Rightarrow> chunk_data \<Rightarrow> ft_state \<Rightarrow> ft_error + progress \<times> ft_state" where
  "receiveChunk decode now transferId chunkIndex d s =
     (case map_of (ft_transfers s) transferId of
        None \<Rightarrow> Inl TransferNotFound
      | Some t \<Rightarrow>
          if tr_status t = StCancelled \<or> tr_status t = StFailed then Inl (TransferIs (tr_status t))
          else
            let buffer = buffer_of decode d; t' = count_chunk now buffer t
            in Inr (progress_of t',
                    \<lparr>ft_transfers = AList.update transferId t' (ft_transfers s),
                     ft_files = write_chunk (tr_tempPath t) chunkIndex buffer (ft_files s)\<rparr>))"

definition cleanupTempFile :: "string \<Rightarrow> (string \<Rightarrow> string option) \<Rightarrow> string \<Rightarrow> string option" where
  "cleanupTempFile p files = (if p \<noteq> [] \<and> files p \<noteq> None then files(p := None) else files)"

definition cancelTransfer :: "int \<Rightarrow> string \<Rightarrow> ft_state \<Rightarrow> bool \<times> ft_state" where
  "cancelTransfer now transferId s =
     (case map_of (ft_transfers s) transferId of
        None \<Rightarrow> (False, s)
      | Some t \<Rightarrow>
          (True, \<lparr>ft_transfers = AList.update transferId (t\<lparr>tr_status := StCancelled, tr_updatedAt := now\<rparr>) (ft_transfers s),
                  ft_files = cleanupTempFile (tr_tempPath t) (ft_files s)\<rparr>))"

definition getProgress :: "string \<Rightarrow> ft_state \<Rightarrow> (progress \<times> string \<times> string) option" where
  "getProgress transferId s =
     map_option (\<lambda>t. (progress_of t, tr_filename t, tr_direction t)) (map_of (ft_transfers s) transferId)"

definition getCompletedFilePath :: "string \<Rightarrow> ft_state \<Rightarrow> string option" where
  "getCompletedFilePath transferId s =
     (case map_of (ft_transfers s) transferId of
        None \<Rightarrow> None
      | Some t \<Rightarrow> if tr_status t \<noteq> StCompleted then None
                  else if ft_files s (tr_tempPath t) = None then None else Some (tr_tempPath t))"


section \<open>The clean-up timer\<close>

definition timed_out :: "int \<Rightarrow> transfer \<Rightarrow> bool" where
  "timed_out now t = (tr_status t = StActive \<and> now - tr_updatedAt t > TRANSFER_TIMEOUT_MS)"

definition expire :: "int \<Rightarrow> transfer \<Rightarrow> transfer" where
  "expire now t = (if timed_out now t then t\<lparr>tr_status := StFailed\<rparr> else t)"

definition forgotten :: "int \<Rightarrow> transfer \<Rightarrow> bool" where
  "forgotten now t = (tr_status t \<in> {StCompleted, StFailed, StCancelled} \<and> now - tr_updatedAt t > 3600000)"

definition cleanup_tick :: "int \<Rightarrow> ft_state \<Rightarrow> ft_state" where
  "cleanup_tick now s =
     \<lparr>ft_transfers = filter (\<lambda>(i, t). \<not> forgotten now t) (map (\<lambda>(i, t). (i, expire now t)) (ft_transfers s)),
      ft_files = fold (\<lambda>(i, t). if timed_out now t then cleanupTempFile (tr_tempPath t) else id) (ft_transfers s) (ft_files s)\<rparr>"


section \<open>Messages of agents\<close>

datatype agent_msg =
    MInit string int string
  | MChunk string "int option" chunk_data
  | MCancel string
  | MBrowse string
  | MOther string

datatype agent_answer =
    InitAck string
  | ChunkAck progress
  | CancelAck string
  | BrowseForward string string
  | AnswerError ft_error
  | UnknownAction string

definition agent_args :: "string \<Rightarrow> string \<Rightarrow> int \<Rightarrow> string \<Rightarrow> transfer_args" where
  "agent_args deviceId filename sz mime =
     \<lparr>ta_direction = ''download'', ta_deviceId = deviceId,
      ta_filename = (if filename \<noteq> [] then filename else ''unknown''), ta_size = sz,
      ta_mimeType = (if mime \<noteq> [] then mime else ''application/octet-stream''),
      ta_createdBy = ''agent:'' @ deviceId\<rparr>"

definition handleWsMessage ::
  "fsys \<Rightarrow> string \<Rightarrow> (string \<Rightarrow> string) \<Rightarrow> string \<Rightarrow> int \<Rightarrow> string \<Rightarrow> agent_msg \<Rightarrow> ft_state \<Rightarrow> agent_answer \<times> ft_state" where
  "handleWsMessage F dir decode i now deviceId m s =
     (case m of
        MInit filename sz mime \<Rightarrow>
          (case createTransfer F dir i now (agent_args deviceId filename sz mime) s of
             Inl e \<Rightarrow> (AnswerError e, s)
           | Inr (t, s') \<Rightarrow> (InitAck (tr_id t), s'))
      | MChunk transferId chunkIndex d \<Rightarrow>
          (case receiveChunk decode now transferId (case chunkIndex of Some n \<Rightarrow> n | None \<Rightarrow> 0) d s of
             Inl e \<Rightarrow> (AnswerError e, s)
           | Inr (p, s') \<Rightarrow> (ChunkAck p, s'))
      | MCancel transferId \<Rightarrow> (CancelAck transferId, snd (cancelTransfer now transferId s))
      | MBrowse p \<Rightarrow> (BrowseForward deviceId p, s)
      | MOther a \<Rightarrow> (UnknownAction a, s))"


section \<open>Routes\<close>

datatype 'a reply = Reply nat 'a | Refused nat

record transfer_body =
  tb_direction :: string
  tb_device_id :: string
  tb_filename :: string
  tb_size :: string
  tb_mime_type :: string

definition post_args :: "string \<Rightarrow> transfer_body \<Rightarrow> transfer_args" where
  "post_args username b =
     \<lparr>ta_direction = tb_direction b, ta_deviceId = tb_device_id b, ta_filename = tb_filename b,
      ta_size = (case parseInt (tb_size b) of Some n \<Rightarrow> n | None \<Rightarrow> 0),
      ta_mimeType = (if tb_mime_type b \<noteq> [] then tb_mime_type b else ''application/octet-stream''),
      ta_createdBy = (if username \<noteq> [] then username else ''admin'')\<rparr>"

definition post_transfer :: "fsys \<Rightarrow> string \<Rightarrow> string \<Rightarrow> int \<Rightarrow> string \<Rightarrow> transfer_body \<Rightarrow> ft_state \<Rightarrow> transfer reply \<times> ft_state" where
  "post_transfer F dir i now username b s =
     (if tb_device_id b = [] \<or> tb_filename b = [] then (Refused 400, s)
      else if tb_direction b \<notin> {''upload'', ''download''} then (Refused 400, s)
      else case createTransfer F dir i now (post_args username b) s of
             Inl e \<Rightarrow> (Refused 400, s)
           | Inr (t, s') \<Rightarrow> (Reply 201 t, s'))"

definition post_cancel :: "int \<Rightarrow> string \<Rightarrow> ft_state \<Rightarrow> unit reply \<times> ft_state" where
  "post_cancel now i s = (case cancelTransfer now i s of (ok, s') \<Rightarrow> (if \<not> ok then Refused 404 else Reply 200 (), s'))"

definition get_download :: "string \<Rightarrow> ft_state \<Rightarrow> (string \<times> string) reply" where
  "get_download i s =
     (case getTransfer i s of
        None \<Rightarrow> Refused 404
      | Some t \<Rightarrow>
          if tr_status t \<noteq> StCompleted then Refused 400
          else (case getCompletedFilePath i s of None \<Rightarrow> Refused 404 | Some p \<Rightarrow> Reply 200 (p, tr_filename t)))"

definition get_file_transfer :: "string \<Rightarrow> string \<Rightarrow> ft_state \<Rightarrow> (progress \<times> string \<times> string) option reply" where
  "get_file_transfer deviceId i s =
     (case getTransfer i s of
        None \<Rightarrow> Refused 404
      | Some t \<Rightarrow> if tr_deviceId t \<noteq> deviceId then Refused 403 else Reply 200 (getProgress i s))"


section \<open>Runs\<close>

text \<open>The requests that change the registry, and the timer.  \<open>i\<close> is the identifier that \<open>createTransfer\<close> would draw.\<close>

datatype ft_event =
    PostTransfer string int string transfer_body
  | PostCancel int string
  | AgentMessage string int string agent_msg
  | Tick int

fun ft_step :: "fsys \<Rightarrow> string \<Rightarrow> (string \<Rightarrow> string) \<Rightarrow> ft_event \<Rightarrow> ft_state \<Rightarrow> ft_state option" where
  "ft_step F dir decode (PostTransfer i now username b) s = Some (snd (post_transfer F dir i now username b s))"
| "ft_step F dir decode (PostCancel now i) s = Some (snd (post_cancel now i s))"
| "ft_step F dir decode (AgentMessage i now d m) s = Some (snd (handleWsMessage F dir decode i now d m s))"
| "ft_step F dir decode (Tick now) s = Some (cleanup_tick now s)"

definition ft_init :: ft_state where
  "ft_init = \<lparr>ft_transfers = [], ft_files = Map.empty\<rparr>"

definition transfer_ok :: "fsys \<Rightarrow> string \<Rightarrow> string \<Rightarrow> transfer \<Rightarrow> bool" where
  "transfer_ok F dir i t =
     (tr_id t = i \<and> tr_size t \<le> MAX_FILE_SIZE \<and> tr_bytes t \<ge> 0
      \<and> resolveChildPath F dir (i @ ''_'' @ tr_filename t) = Inr (tr_tempPath t)
      \<and> (tr_status t = StPending \<longrightarrow> tr_bytes t = 0 \<and> tr_chunks t = 0)
      \<and> (tr_status t = StActive \<longrightarrow> tr_bytes t < tr_size t)
      \<and> (tr_status t = StCompleted \<longrightarrow> tr_bytes t \<ge> tr_size t))"

definition ft_ok :: "fsys \<Rightarrow> string \<Rightarrow> ft_state \<Rightarrow> bool" where
  "ft_ok F dir s =
     (distinct (map fst (ft_transfers s)) \<and> (\<forall>i t. map_of (ft_transfers s) i = Some t \<longrightarrow> transfer_ok F dir i t))"

lemma ft_ok_update:
  assumes "ft_ok F dir s" "transfer_ok F dir i t"
  shows "ft_ok F dir \<lparr>ft_transfers = AList.update i t (ft_transfers s), ft_files = fs\<rparr>"
  using assms by (auto simp: ft_ok_def AList.update_conv AList.distinct_update)

lemma ft_ok_lookup: "ft_ok F dir s \<Longrightarrow> map_of (ft_transfers s) i = Some t \<Longrightarrow> transfer_ok F dir i t"
  by (simp add: ft_ok_def)

lemma create_cases:
  assumes "createTransfer F dir i now a s = Inr (t, s')"
  shows "transfer_ok F dir i t \<and> s' = \<lparr>ft_transfers = AList.update i t (ft_transfers s), ft_files = ft_files s\<rparr>"
proof -
  obtain p where p: "resolveChildPath F dir (i @ ''_'' @ safeName (ta_filename a)) = Inr p"
    using assms by (auto simp: createTransfer_def Let_def split: if_splits sum.splits)
  show ?thesis using assms p by (auto simp: createTransfer_def Let_def transfer_ok_def split: if_splits)
qed

lemma ft_ok_create: "ft_ok F dir s \<Longrightarrow> createTransfer F dir i now a s = Inr (t, s') \<Longrightarrow> ft_ok F dir s'"
  using create_cases ft_ok_update by metis

lemma transfer_ok_count:
  "transfer_ok F dir i t \<Longrightarrow> tr_status t \<notin> {StCancelled, StFailed} \<Longrightarrow> transfer_ok F dir i (count_chunk now b t)"
  by (cases "tr_status t") (auto simp: transfer_ok_def count_chunk_def Let_def)

lemma receive_cases:
  assumes "receiveChunk decode now i n d s = Inr (p, s')"
  obtains t where "map_of (ft_transfers s) i = Some t" "tr_status t \<notin> {StCancelled, StFailed}"
    "s' = \<lparr>ft_transfers = AList.update i (count_chunk now (buffer_of decode d) t) (ft_transfers s),
           ft_files = write_chunk (tr_tempPath t) n (buffer_of decode d) (ft_files s)\<rparr>"
  using assms by (auto simp: receiveChunk_def Let_def split: option.splits if_splits)

lemma ft_ok_receive: "ft_ok F dir s \<Longrightarrow> receiveChunk decode now i n d s = Inr (p, s') \<Longrightarrow> ft_ok F dir s'"
  by (erule receive_cases) (simp add: ft_ok_update ft_ok_lookup transfer_ok_count)

lemma ft_ok_cancel:
  assumes "ft_ok F dir s"
  shows "ft_ok F dir (snd (cancelTransfer now i s))"
proof (cases "map_of (ft_transfers s) i")
  case (Some t)
  have "transfer_ok F dir i (t\<lparr>tr_status := StCancelled, tr_updatedAt := now\<rparr>)"
    using ft_ok_lookup [OF assms Some] by (simp add: transfer_ok_def)
  then show ?thesis using Some ft_ok_update [OF assms] by (simp add: cancelTransfer_def)
qed (use assms in \<open>simp add: cancelTransfer_def\<close>)

lemma map_of_expired:
  assumes "distinct (map fst xs)"
  shows "map_of (filter (\<lambda>(i, t). \<not> forgotten now t) (map (\<lambda>(i, t). (i, expire now t)) xs)) i
     = (case map_of xs i of None \<Rightarrow> None | Some t \<Rightarrow> if forgotten now (expire now t) then None else Some (expire now t))"
  using assms
proof (induction xs)
  case (Cons x xs)
  then show ?case by (cases x) (auto split: option.splits dest: map_of_SomeD simp: image_iff)
qed simp

lemma ft_ok_tick: "ft_ok F dir s \<Longrightarrow> ft_ok F dir (cleanup_tick now s)"
proof -
  assume s: "ft_ok F dir s"
  then have d: "distinct (map fst (ft_transfers s))" by (simp add: ft_ok_def)
  have "map fst (map (\<lambda>(i, t). (i, expire now t)) (ft_transfers s)) = map fst (ft_transfers s)" by (simp add: case_prod_unfold)
  with d have "distinct (map fst (filter (\<lambda>(i, t). \<not> forgotten now t) (map (\<lambda>(i, t). (i, expire now t)) (ft_transfers s))))"
    by (metis distinct_map_filter)
  moreover have "transfer_ok F dir i (expire now t)" if "map_of (ft_transfers s) i = Some t" for i t
    using ft_ok_lookup [OF s that] by (auto simp: expire_def transfer_ok_def)
  ultimately show ?thesis
    unfolding ft_ok_def cleanup_tick_def using map_of_expired [OF d] by (auto split: option.splits if_splits)
qed

text \<open>The transfer an event is about, and its time.\<close>

fun target :: "ft_event \<Rightarrow> string option" where
  "target (PostTransfer i now username b) = Some i"
| "target (PostCancel now i) = Some i"
| "target (AgentMessage i now d m) =
     (case m of MInit n sz mime \<Rightarrow> Some i | MChunk k n c \<Rightarrow> Some k | MCancel k \<Rightarrow> Some k | _ \<Rightarrow> None)"
| "target (Tick now) = None"

fun ev_time :: "ft_event \<Rightarrow> int" where
  "ev_time (PostTransfer i now username b) = now"
| "ev_time (PostCancel now i) = now"
| "ev_time (AgentMessage i now d m) = now"
| "ev_time (Tick now) = now"

text \<open>The identifier that an event draws for a new transfer.\<close>

fun drawn_id :: "ft_event \<Rightarrow> string option" where
  "drawn_id (PostTransfer i now username b) = Some i"
| "drawn_id (AgentMessage i now d m) = (case m of MInit n sz mime \<Rightarrow> Some i | _ \<Rightarrow> None)"
| "drawn_id _ = None"

lemma ft_step_cases:
  assumes "ft_step F dir decode ev s = Some s'"
  obtains (same) "s' = s"
  | (create) i now a t where "createTransfer F dir i now a s = Inr (t, s')" "target ev = Some i" "drawn_id ev = Some i"
  | (chunk) now i n d p where "receiveChunk decode now i n d s = Inr (p, s')" "target ev = Some i"
  | (cancel) now i where "s' = snd (cancelTransfer now i s)" "target ev = Some i"
  | (tick) now where "s' = cleanup_tick now s" "ev = Tick now"
proof (cases ev)
  case (PostTransfer i now u b)
  then show thesis using assms same create [of i now "post_args u b" "fst (projr (createTransfer F dir i now (post_args u b) s))"]
    by (cases "createTransfer F dir i now (post_args u b) s") (auto simp: post_transfer_def split: if_splits prod.splits)
next
  case (PostCancel now i)
  then show thesis using assms cancel [of now i] by (simp add: post_cancel_def split_beta)
next
  case (AgentMessage i now d m)
  show thesis
  proof (cases m)
    case (MInit n sz mime)
    let ?r = "createTransfer F dir i now (agent_args d n sz mime) s"
    from MInit show thesis using AgentMessage assms same create [of i now "agent_args d n sz mime" "fst (projr ?r)"]
      by (cases ?r) (auto simp: handleWsMessage_def split: prod.splits)
  next
    case (MChunk k n c)
    let ?n = "case n of Some n \<Rightarrow> n | None \<Rightarrow> 0"
    let ?r = "receiveChunk decode now k ?n c s"
    from MChunk show thesis using AgentMessage assms same chunk [of now k ?n c "fst (projr ?r)"]
      by (cases ?r) (auto simp: handleWsMessage_def split: prod.splits)
  next
    case (MCancel k)
    then show thesis using AgentMessage assms cancel [of now k] by (simp add: handleWsMessage_def)
  qed (use AgentMessage assms same in \<open>simp_all add: handleWsMessage_def\<close>)
next
  case (Tick now)
  then show thesis using assms tick [of now] by simp
qed

lemma ft_ok_step:
  assumes "ft_ok F dir s" "ft_step F dir decode ev s = Some s'"
  shows "ft_ok F dir s'"
  using assms(2)
proof (cases rule: ft_step_cases)
  case same
  with assms(1) show ?thesis by simp
next
  case (create i now a t)
  with assms(1) show ?thesis by (blast intro: ft_ok_create)
next
  case (chunk now i n d p)
  with assms(1) show ?thesis by (blast intro: ft_ok_receive)
next
  case (cancel now i)
  with assms(1) show ?thesis by (simp add: ft_ok_cancel)
next
  case (tick now)
  with assms(1) show ?thesis by (simp add: ft_ok_tick)
qed

interpretation transfers: event_invariant "ft_step F dir decode" ft_init "ft_ok F dir" for F dir decode
  by unfold_locales (simp add: ft_ok_def ft_init_def, rule ft_ok_step)

text \<open>The registry of transfers is well formed at all times, whatever the panel and the agents send.  A transfer
  keeps its identifier and its size limit, a pending one has received nothing, an active one is not complete yet, a
  completed one has received at least its size, and its temporary file is a direct child of the transfer directory that
  also leads below it when links are resolved, whatever file name was asked for.\<close>

theorem transfer_registry_invariant:
  assumes "reachable (ft_step F dir decode) ft_init s" and "getTransfer i s = Some t"
  shows "tr_id t = i \<and> tr_size t \<le> 4294967296
    \<and> (tr_status t = StPending \<longrightarrow> tr_bytes t = 0) \<and> (tr_status t = StActive \<longrightarrow> 0 \<le> tr_bytes t \<and> tr_bytes t < tr_size t)
    \<and> (tr_status t = StCompleted \<longrightarrow> tr_bytes t \<ge> tr_size t)
    \<and> (\<exists>name. path_parts (tr_tempPath t) = path_parts (path_resolve (fs_cwd F) dir) @ [i @ ''_'' @ name])
    \<and> prefix (location F dir) (location F (tr_tempPath t))"
proof -
  have t: "transfer_ok F dir i t"
    using transfers.inv_reachable [OF assms(1)] assms(2) by (auto simp: getTransfer_def intro: ft_ok_lookup)
  then have "resolveChildPath F dir (i @ ''_'' @ tr_filename t) = Inr (tr_tempPath t)" by (simp add: transfer_ok_def)
  from child_path(1,2) [OF this] show ?thesis using t by (auto simp: transfer_ok_def MAX_FILE_SIZE_def)
qed


section \<open>A file arrives as it was sent\<close>

text \<open>The state of one transfer in the middle: the part \<open>received\<close> of the file is in its temporary file, once the first
  chunk is there.\<close>

definition receiving :: "int \<Rightarrow> string \<Rightarrow> int \<Rightarrow> string \<Rightarrow> bool \<Rightarrow> string \<Rightarrow> ft_state \<Rightarrow> bool" where
  "receiving since p sz i started received s =
     (\<exists>t. map_of (ft_transfers s) i = Some t \<and> tr_tempPath t = p \<and> tr_size t = sz \<and> tr_bytes t = int (length received)
        \<and> tr_status t \<notin> {StCancelled, StFailed} \<and> since \<le> tr_updatedAt t \<and> (\<not> started \<longrightarrow> received = [])
        \<and> (started \<longrightarrow> ft_files s p = Some received \<and> (sz \<le> int (length received) \<longrightarrow> tr_status t = StCompleted)))"

lemma temp_paths_differ:
  assumes "ft_ok F dir s" "map_of (ft_transfers s) i = Some t" "map_of (ft_transfers s) j = Some u"
    and "i \<noteq> j" "length i = length j"
  shows "tr_tempPath t \<noteq> tr_tempPath u"
proof
  assume eq: "tr_tempPath t = tr_tempPath u"
  have "resolveChildPath F dir (i @ ''_'' @ tr_filename t) = Inr (tr_tempPath t)"
    "resolveChildPath F dir (j @ ''_'' @ tr_filename u) = Inr (tr_tempPath u)"
    using assms(1-3) by (auto simp: transfer_ok_def dest: ft_ok_lookup)
  from child_path(1) [OF this(1)] child_path(1) [OF this(2)] eq show False using assms(4,5) by simp
qed

lemma receiving_update_other:
  assumes "receiving since p sz i started received s" "i \<noteq> j" "fs p = ft_files s p"
  shows "receiving since p sz i started received \<lparr>ft_transfers = AList.update j u (ft_transfers s), ft_files = fs\<rparr>"
  using assms unfolding receiving_def by (simp add: AList.update_conv)

lemma cleaned_other: "p \<noteq> q \<Longrightarrow> cleanupTempFile q fs p = fs p"
  by (simp add: cleanupTempFile_def)

lemma tick_file:
  "(\<forall>(j, u) \<in> set xs. timed_out now u \<longrightarrow> tr_tempPath u \<noteq> p) \<Longrightarrow>
     fold (\<lambda>(i, t). if timed_out now t then cleanupTempFile (tr_tempPath t) else id) xs fs p = fs p"
  by (induction xs arbitrary: fs) (auto simp: cleaned_other split: prod.splits)

lemma receiving_tick:
  assumes "ft_ok F dir s" "receiving since p sz i started received s" "now \<le> since + TRANSFER_TIMEOUT_MS"
    and "\<forall>j \<in> fst ` set (ft_transfers s). length j = length i"
  shows "receiving since p sz i started received (cleanup_tick now s)"
proof -
  from assms(2) obtain t where t: "map_of (ft_transfers s) i = Some t" "tr_tempPath t = p" "since \<le> tr_updatedAt t"
    by (auto simp: receiving_def)
  have d: "distinct (map fst (ft_transfers s))" using assms(1) by (simp add: ft_ok_def)
  have keep: "\<not> timed_out now t" "\<not> forgotten now t"
    using assms(3) t(3) by (auto simp: timed_out_def forgotten_def TRANSFER_TIMEOUT_MS_def)
  have "tr_tempPath u \<noteq> p" if u: "(j, u) \<in> set (ft_transfers s)" "timed_out now u" for j u
  proof -
    have ju: "map_of (ft_transfers s) j = Some u" using u(1) d by simp
    then have "j \<noteq> i" using keep(1) u(2) t(1) by auto
    moreover have "length j = length i" using assms(4) u(1) by force
    ultimately show ?thesis using temp_paths_differ [OF assms(1) ju t(1)] t(2) by simp
  qed
  then have "ft_files (cleanup_tick now s) p = ft_files s p"
    unfolding cleanup_tick_def by (auto intro!: tick_file)
  moreover have "map_of (ft_transfers (cleanup_tick now s)) i = Some t"
    unfolding cleanup_tick_def using map_of_expired [OF d] t(1) keep by (simp add: expire_def)
  ultimately show ?thesis using assms(2) t(1) by (auto simp: receiving_def)
qed

lemma receiving_other_event:
  assumes "ft_ok F dir s" "receiving since p sz i started received s" "ft_step F dir decode ev s = Some s'"
    and "target ev \<noteq> Some i" "ev_time ev \<le> since + TRANSFER_TIMEOUT_MS"
    and "\<forall>j \<in> fst ` set (ft_transfers s). length j = length i"
  shows "receiving since p sz i started received s'"
  using assms(3)
proof (cases rule: ft_step_cases)
  case (create j now a t)
  then show ?thesis using create_cases [OF create(1)] receiving_update_other [OF assms(2)] assms(4) by auto
next
  case (chunk now j n d pr)
  from chunk(1) obtain u where u: "map_of (ft_transfers s) j = Some u"
    "s' = \<lparr>ft_transfers = AList.update j (count_chunk now (buffer_of decode d) u) (ft_transfers s),
           ft_files = write_chunk (tr_tempPath u) n (buffer_of decode d) (ft_files s)\<rparr>"
    by (rule receive_cases)
  have "j \<noteq> i" "length j = length i" using chunk(2) assms(4,6) map_of_SomeD [OF u(1)] by force+
  then have "tr_tempPath u \<noteq> p"
    using assms(2) temp_paths_differ [OF assms(1) u(1)] by (auto simp: receiving_def)
  then show ?thesis using u(2) receiving_update_other [OF assms(2)] \<open>j \<noteq> i\<close> by (simp add: write_chunk_def)
next
  case (cancel now j)
  show ?thesis
  proof (cases "map_of (ft_transfers s) j")
    case (Some u)
    have "j \<noteq> i" "length j = length i" using cancel(2) assms(4,6) map_of_SomeD [OF Some] by force+
    then have "tr_tempPath u \<noteq> p"
      using assms(2) temp_paths_differ [OF assms(1) Some] by (auto simp: receiving_def)
    then show ?thesis using cancel(1) Some receiving_update_other [OF assms(2)] \<open>j \<noteq> i\<close>
      by (simp add: cancelTransfer_def cleaned_other)
  qed (use cancel(1) assms(2) in \<open>simp add: cancelTransfer_def\<close>)
next
  case (tick now)
  then show ?thesis using receiving_tick [OF assms(1,2)] assms(5,6) by simp
qed (use assms(2) in simp)

lemma receiving_chunk:
  assumes "receiving since p sz i started received s" "since \<le> now" "n = 0 \<longleftrightarrow> \<not> started"
  shows "\<exists>s'. ft_step F dir decode (AgentMessage x now dev (MChunk i (Some n) d)) s = Some s'
    \<and> receiving since p sz i True (received @ buffer_of decode d) s'
    \<and> fst ` set (ft_transfers s') = fst ` set (ft_transfers s)"
proof -
  obtain t where t: "map_of (ft_transfers s) i = Some t" "tr_tempPath t = p" "tr_size t = sz"
      "tr_bytes t = int (length received)" "tr_status t \<notin> {StCancelled, StFailed}" "\<not> started \<longrightarrow> received = []"
      "started \<longrightarrow> ft_files s p = Some received"
    using assms(1) by (auto simp: receiving_def)
  let ?b = "buffer_of decode d"
  let ?s = "\<lparr>ft_transfers = AList.update i (count_chunk now ?b t) (ft_transfers s),
             ft_files = write_chunk p n ?b (ft_files s)\<rparr>"
  have "receiveChunk decode now i n d s = Inr (progress_of (count_chunk now ?b t), ?s)"
    using t(1,2,5) by (simp add: receiveChunk_def Let_def)
  then have step: "ft_step F dir decode (AgentMessage x now dev (MChunk i (Some n) d)) s = Some ?s"
    by (simp add: handleWsMessage_def)
  have "write_chunk p n ?b (ft_files s) p = Some (received @ ?b)"
    using t(6,7) assms(3) by (auto simp: write_chunk_def)
  then have "receiving since p sz i True (received @ ?b) ?s"
    using t assms(2) by (cases "tr_status t") (auto simp: receiving_def AList.update_conv count_chunk_def Let_def)
  moreover have "fst ` set (ft_transfers ?s) = fst ` set (ft_transfers s)"
    using map_of_SomeD [OF t(1)] by (force simp: AList.dom_update)
  ultimately show ?thesis using step by blast
qed

lemma known_key: "map_of xs i = Some t \<Longrightarrow> i \<in> fst ` set xs"
  by (force dest: map_of_SomeD)

lemma keys_step:
  assumes "ft_step F dir decode ev s = Some s'"
  shows "fst ` set (ft_transfers s') \<subseteq> fst ` set (ft_transfers s) \<union> set_option (drawn_id ev)"
  using assms
proof (cases rule: ft_step_cases)
  case (create i now a t)
  then show ?thesis using create_cases [OF create(1)] by (auto simp: AList.dom_update)
next
  case (chunk now i n d p)
  from chunk(1) show ?thesis by (rule receive_cases) (simp add: AList.dom_update known_key)
next
  case (cancel now i)
  then show ?thesis by (auto simp: cancelTransfer_def AList.dom_update split: option.splits dest: known_key)
next
  case (tick now)
  then show ?thesis by (force simp: cleanup_tick_def)
qed simp

lemma ft_step_total: "\<exists>s'. ft_step F dir decode ev s = Some s'"
  by (cases ev) simp_all

text \<open>The messages that carry the chunks of one transfer: an unused identifier, the time, the sender, index and data.\<close>

type_synonym sent_chunk = "string \<times> int \<times> string \<times> int \<times> chunk_data"

fun chunk_event :: "string \<Rightarrow> sent_chunk \<Rightarrow> ft_event" where
  "chunk_event i (x, now, dev, n, d) = AgentMessage x now dev (MChunk i (Some n) d)"

fun in_order :: "bool \<Rightarrow> sent_chunk list \<Rightarrow> bool" where
  "in_order started [] = True"
| "in_order started ((x, now, dev, n, d) # cs) = ((n = 0 \<longleftrightarrow> \<not> started) \<and> in_order True cs)"

definition sent_bytes :: "(string \<Rightarrow> string) \<Rightarrow> sent_chunk list \<Rightarrow> string" where
  "sent_bytes decode cs = concat (map (\<lambda>(x, now, dev, n, d). buffer_of decode d) cs)"

lemma receiving_run:
  assumes "ft_ok F dir s" "receiving since p sz i started received s"
    and "\<forall>j \<in> fst ` set (ft_transfers s). length j = length i"
    and "\<forall>ev \<in> set evs. since \<le> ev_time ev \<and> ev_time ev \<le> since + TRANSFER_TIMEOUT_MS
           \<and> (\<forall>j \<in> set_option (drawn_id ev). length j = length i)"
    and "filter (\<lambda>ev. target ev = Some i) evs = map (chunk_event i) cs" and "in_order started cs"
  shows "\<exists>s'. run_events (ft_step F dir decode) evs s = Some s'
    \<and> receiving since p sz i (started \<or> cs \<noteq> []) (received @ sent_bytes decode cs) s'"
  using assms
proof (induction evs arbitrary: s started received cs)
  case Nil
  then show ?case by (simp add: sent_bytes_def)
next
  case (Cons ev evs)
  have later: "\<forall>e \<in> set evs. since \<le> ev_time e \<and> ev_time e \<le> since + TRANSFER_TIMEOUT_MS
           \<and> (\<forall>j \<in> set_option (drawn_id e). length j = length i)" using Cons(5) by simp
  show ?case
  proof (cases "target ev = Some i")
    case True
    then obtain x now dev n d cs' where c: "cs = (x, now, dev, n, d) # cs'" "ev = chunk_event i (x, now, dev, n, d)"
        "filter (\<lambda>ev. target ev = Some i) evs = map (chunk_event i) cs'"
      using Cons(6) by (cases cs) auto
    have n: "n = 0 \<longleftrightarrow> \<not> started" "in_order True cs'" "since \<le> now" using Cons(5,7) c by auto
    obtain s1 where s1: "ft_step F dir decode ev s = Some s1"
        "receiving since p sz i True (received @ buffer_of decode d) s1"
        "fst ` set (ft_transfers s1) = fst ` set (ft_transfers s)"
      using receiving_chunk [OF Cons(3) n(3,1), of F dir decode x dev d] c(2) by auto
    have "\<exists>s'. run_events (ft_step F dir decode) evs s1 = Some s'
      \<and> receiving since p sz i (True \<or> cs' \<noteq> []) ((received @ buffer_of decode d) @ sent_bytes decode cs') s'"
      by (rule Cons(1) [OF ft_ok_step [OF Cons(2) s1(1)] s1(2) _ later c(3) n(2)]) (use s1(3) Cons(4) in simp)
    then show ?thesis using s1(1) c(1) by (simp add: sent_bytes_def)
  next
    case False
    obtain s1 where s1: "ft_step F dir decode ev s = Some s1" using ft_step_total by blast
    have keys: "\<forall>j \<in> fst ` set (ft_transfers s1). length j = length i"
      using keys_step [OF s1] Cons(4) bspec [OF Cons(5), of ev] by (meson UnE list.set_intros(1) subsetD)
    have "receiving since p sz i started received s1"
      by (rule receiving_other_event [OF Cons(2,3) s1 False _ Cons(4)]) (use Cons(5) in simp)
    then show ?thesis
      using Cons(1) [OF ft_ok_step [OF Cons(2) s1] _ keys later _ Cons(7)] Cons(6) False s1 by simp
  qed
qed

text \<open>C22: A file arrives as it was sent.  While a transfer is pending, let any requests of the panel, messages of
  agents and clean-ups come in within half an hour, among them for this transfer exactly its chunks, the first with
  index 0 and the others with another index.  Then the temporary file holds the chunks put together, and when they have the
  announced size the transfer is completed and offered for download.  Identifiers are drawn with a fixed length.\<close>

theorem file_arrives_as_sent:
  assumes "reachable (ft_step F dir decode) ft_init s" and "getTransfer i s = Some t" and "tr_status t = StPending"
    and "\<forall>j \<in> fst ` set (ft_transfers s). length j = length i"
    and "\<forall>ev \<in> set evs. tr_updatedAt t \<le> ev_time ev \<and> ev_time ev \<le> tr_updatedAt t + TRANSFER_TIMEOUT_MS
           \<and> (\<forall>j \<in> set_option (drawn_id ev). length j = length i)"
    and "filter (\<lambda>ev. target ev = Some i) evs = map (chunk_event i) cs" and "in_order False cs" and "cs \<noteq> []"
    and "int (length (sent_bytes decode cs)) = tr_size t"
  shows "\<exists>s'. run_events (ft_step F dir decode) evs s = Some s'
    \<and> ft_files s' (tr_tempPath t) = Some (sent_bytes decode cs)
    \<and> get_download i s' = Reply 200 (tr_tempPath t, tr_filename t)"
proof -
  have ok: "ft_ok F dir s" by (rule transfers.inv_reachable [OF assms(1)])
  then have "tr_bytes t = 0" using ft_ok_lookup [OF ok] assms(2,3) by (auto simp: getTransfer_def transfer_ok_def)
  then have "receiving (tr_updatedAt t) (tr_tempPath t) (tr_size t) i False [] s"
    using assms(2,3) by (simp add: receiving_def getTransfer_def)
  from receiving_run [OF ok this assms(4-7)] obtain s' where
    s': "run_events (ft_step F dir decode) evs s = Some s'"
    "receiving (tr_updatedAt t) (tr_tempPath t) (tr_size t) i True (sent_bytes decode cs) s'"
    using assms(8) by auto
  from s'(2) obtain t' where t': "map_of (ft_transfers s') i = Some t'" "tr_tempPath t' = tr_tempPath t"
    "tr_status t' = StCompleted" "ft_files s' (tr_tempPath t) = Some (sent_bytes decode cs)"
    using assms(9) by (auto simp: receiving_def)
  have "transfer_ok F dir i t'" "transfer_ok F dir i t"
    using ft_ok_lookup [OF transfers.inv_run [OF ok s'(1)] t'(1)] ft_ok_lookup [OF ok] assms(2) by (auto simp: getTransfer_def)
  then have "tr_filename t' = tr_filename t"
    using t'(2) child_path(1) [of F dir "i @ ''_'' @ tr_filename t" "tr_tempPath t"]
      child_path(1) [of F dir "i @ ''_'' @ tr_filename t'" "tr_tempPath t"] by (simp add: transfer_ok_def)
  then show ?thesis using s'(1) t' by (simp add: get_download_def getTransfer_def getCompletedFilePath_def)
qed

text \<open>An example: two transfers whose chunks arrive interleaved, with a clean-up in between.\<close>

definition demo_disk :: fsys where
  "demo_disk = \<lparr>fs_cwd = ''/'', fs_exists = (\<lambda>p. p \<in> {''/'', ''/srv'', ''/srv/t''}), fs_realpath = Some\<rparr>"

definition demo_post :: ft_event where
  "demo_post = PostTransfer ''a'' 0 ''admin'' \<lparr>tb_direction = ''download'', tb_device_id = ''d'', tb_filename = ''../x y'',
     tb_size = ''4'', tb_mime_type = []\<rparr>"

definition demo_transfer :: transfer where
  "demo_transfer = \<lparr>tr_id = ''a'', tr_direction = ''download'', tr_deviceId = ''d'', tr_filename = ''x_y'', tr_size = 4,
     tr_mimeType = ''application/octet-stream'', tr_status = StPending, tr_bytes = 0, tr_totalChunks = 1, tr_chunks = 0,
     tr_tempPath = ''/srv/t/a_x_y'', tr_createdBy = ''admin'', tr_createdAt = 0, tr_updatedAt = 0\<rparr>"

definition demo_registry :: ft_state where
  "demo_registry = \<lparr>ft_transfers = [(''a'', demo_transfer)], ft_files = Map.empty\<rparr>"

definition demo_chunks :: "sent_chunk list" where
  "demo_chunks = [(''-'', 1, ''d'', 0, Raw ''xy''), (''-'', 9, ''d'', 1, Base64 ''zw'')]"

definition demo_traffic :: "ft_event list" where
  "demo_traffic =
     [AgentMessage ''-'' 1 ''d'' (MChunk ''a'' (Some 0) (Raw ''xy'')),
      AgentMessage ''b'' 2 ''e'' (MInit ''y'' 2 []), AgentMessage ''-'' 3 ''e'' (MChunk ''b'' (Some 0) (Raw ''q'')), Tick 5,
      AgentMessage ''-'' 9 ''d'' (MChunk ''a'' (Some 1) (Base64 ''zw''))]"

lemma demo_posted: "ft_step demo_disk ''/srv/t'' id demo_post ft_init = Some demo_registry"
proof -
  have "resolveChildPath demo_disk ''/srv/t'' (''a'' @ ''_'' @ safeName ''../x y'') = Inr ''/srv/t/a_x_y''"
    "safeName ''../x y'' = ''x_y''" "parseInt ''4'' = Some 4" by code_simp+
  then show ?thesis
    by (simp add: demo_post_def post_transfer_def createTransfer_def post_args_def demo_registry_def ft_init_def
        demo_transfer_def total_chunks_def MAX_FILE_SIZE_def MAX_CHUNK_SIZE_def Let_def)
qed

lemma demo_registry_reachable: "reachable (ft_step demo_disk ''/srv/t'' id) ft_init demo_registry"
  by (rule run_reachable [OF reachable.start, of _ "[demo_post]"]) (simp add: demo_posted)

lemmas demo_transfer_defs = demo_registry_def demo_transfer_def demo_chunks_def demo_traffic_def sent_bytes_def buffer_of_def
  getTransfer_def TRANSFER_TIMEOUT_MS_def

theorem file_arrives_as_sent_witness:
  "\<exists>s'. run_events (ft_step demo_disk ''/srv/t'' id) demo_traffic demo_registry = Some s'
    \<and> ft_files s' ''/srv/t/a_x_y'' = Some ''xyzw''"
proof -
  have "\<exists>s'. run_events (ft_step demo_disk ''/srv/t'' id) demo_traffic demo_registry = Some s'
    \<and> ft_files s' (tr_tempPath demo_transfer) = Some (sent_bytes id demo_chunks)
    \<and> get_download ''a'' s' = Reply 200 (tr_tempPath demo_transfer, tr_filename demo_transfer)"
    by (rule file_arrives_as_sent [OF demo_registry_reachable]) (simp_all add: demo_transfer_defs)
  then show ?thesis by (auto simp: demo_transfer_defs)
qed

theorem transfer_registry_invariant_witness:
  "getTransfer ''a'' demo_registry = Some demo_transfer \<and> tr_bytes demo_transfer = 0
   \<and> prefix (location demo_disk ''/srv/t'') (location demo_disk (tr_tempPath demo_transfer))"
  using transfer_registry_invariant [OF demo_registry_reachable, of "''a''" demo_transfer] by (simp add: demo_transfer_defs)


section \<open>What the service does not check\<close>

text \<open>The first chunk sent twice: the file is emptied but the count goes on, so half of the file counts as all of it.\<close>

theorem repeated_first_chunk_completes:
  assumes "map_of (ft_transfers s) i = Some t" and "tr_status t = StPending" and "tr_bytes t = 0"
    and "tr_size t = 2 * int (length b)" and "b \<noteq> []"
  shows "\<exists>p1 s1 p2 s2. receiveChunk decode now i 0 (Raw b) s = Inr (p1, s1) \<and> receiveChunk decode now' i 0 (Raw b) s1 = Inr (p2, s2)
    \<and> ft_files s2 (tr_tempPath t) = Some b \<and> get_download i s2 = Reply 200 (tr_tempPath t, tr_filename t)"
  using assms
  by (simp add: receiveChunk_def Let_def buffer_of_def count_chunk_def write_chunk_def AList.update_conv get_download_def
      getTransfer_def getCompletedFilePath_def)

text \<open>The sender of a chunk or of a cancellation plays no part, although only the device of a transfer may read its
  progress.\<close>

theorem any_device_changes_transfer:
  assumes "map_of (ft_transfers s) i = Some t" and "tr_deviceId t \<noteq> dev"
  shows "get_file_transfer dev i s = Refused 403"
    and "handleWsMessage F dir decode x now dev (MCancel i) s = handleWsMessage F dir decode x now (tr_deviceId t) (MCancel i) s"
    and "handleWsMessage F dir decode x now dev (MChunk i n d) s = handleWsMessage F dir decode x now (tr_deviceId t) (MChunk i n d) s"
  using assms by (simp_all add: get_file_transfer_def getTransfer_def handleWsMessage_def)

text \<open>A completed transfer is forgotten after an hour, its file is not removed, and a pending one never ends.\<close>

theorem completed_file_stays:
  assumes "ft_transfers s = [(i, t)]" and "tr_status t = StCompleted" and "now - tr_updatedAt t > 3600000"
  shows "ft_transfers (cleanup_tick now s) = [] \<and> ft_files (cleanup_tick now s) = ft_files s"
  using assms by (simp add: cleanup_tick_def expire_def timed_out_def forgotten_def)

theorem pending_never_expires:
  assumes "tr_status t = StPending"
  shows "expire now t = t" and "\<not> forgotten now t"
  using assms by (simp_all add: expire_def timed_out_def forgotten_def)

end
