(* ===== verification/Branding_Css.thy ===== *)
theory Branding_Css
  imports BD_Prelude
begin

text \<open>
  The sanitisers of operator-supplied styles: \<open>src/web-nodejs/lib/stripUntilStable.js\<close>, and from
  \<open>services/brandingService.js\<close> the custom style sheet, colours, backgrounds and their small helpers.

  A regular expression is a matcher: it gives the rest of the text after a match at the front, or \<^term>\<open>None\<close>.  The ones
  modelled here are deterministic (after white space or a class of characters comes a character outside it), so the
  greedy match is the only one.  \<open>re_replace\<close> is \<open>replace\<close> with the flag \<open>g\<close>.  The loops that run until nothing
  changes are \<open>partial_function\<close>s: not returning is \<^term>\<open>None\<close>.
\<close>

section \<open>Matchers\<close>

definition is_word :: "char \<Rightarrow> bool" where
  "is_word c = (is_alnum c \<or> c = CHR ''_'')"

fun match_ci :: "string \<Rightarrow> string \<Rightarrow> string option" where
  "match_ci [] s = Some s"
| "match_ci (p # ps) (c # cs) = (if js_lower_char p = js_lower_char c then match_ci ps cs else None)"
| "match_ci (p # ps) [] = None"

definition skip_ws :: "string \<Rightarrow> string" where
  "skip_ws s = dropWhile js_ws s"

definition word_boundary :: "string \<Rightarrow> bool" where
  "word_boundary s = (case s of [] \<Rightarrow> True | c # _ \<Rightarrow> \<not> is_word c)"

text \<open>\<open>[^>]*>\<close>.\<close>

definition to_gt :: "string \<Rightarrow> string option" where
  "to_gt s = (case dropWhile (\<lambda>c. c \<noteq> CHR ''>'') s of [] \<Rightarrow> None | _ # r \<Rightarrow> Some r)"

fun match_char :: "char \<Rightarrow> string \<Rightarrow> string option" where
  "match_char d [] = None"
| "match_char d (c # cs) = (if c = d then Some cs else None)"

function re_replace :: "(string \<Rightarrow> string option) \<Rightarrow> string \<Rightarrow> string \<Rightarrow> string" where
  "re_replace m r [] = []"
| "re_replace m r (c # cs) =
     (case m (c # cs) of
        Some rest \<Rightarrow> if length rest \<le> length cs then r @ re_replace m r rest else c # re_replace m r cs
      | None \<Rightarrow> c # re_replace m r cs)"
  by pat_completeness auto
termination by (relation "measure (\<lambda>(m, r, s). length s)") auto


section \<open>Stripping until stable\<close>

partial_function (option) strip_loop :: "(string \<Rightarrow> string option) \<Rightarrow> string \<Rightarrow> string option" where
  "strip_loop pass s =
     (case pass s of None \<Rightarrow> None | Some t \<Rightarrow> if t = s then Some t else strip_loop pass t)"

declare strip_loop.simps [code]

fun run_replacers :: "(string \<Rightarrow> string option) list \<Rightarrow> string \<Rightarrow> string option" where
  "run_replacers [] s = Some s"
| "run_replacers (f # fs) s = Option.bind (f s) (run_replacers fs)"

definition stripUntilStable :: "string \<Rightarrow> (string \<Rightarrow> string option) list \<Rightarrow> string option" where
  "stripUntilStable input replacers = strip_loop (run_replacers replacers) input"

definition open_tag :: "string \<Rightarrow> string \<Rightarrow> string option" where
  "open_tag name s =
     Option.bind (match_char CHR ''<'' s) (\<lambda>a. Option.bind (match_ci name (skip_ws a)) (\<lambda>b.
       if word_boundary b then to_gt b else None))"

definition close_tag :: "string \<Rightarrow> string \<Rightarrow> string option" where
  "close_tag name s =
     Option.bind (match_char CHR ''<'' s) (\<lambda>a. Option.bind (match_char CHR ''/'' (skip_ws a)) (\<lambda>b.
       Option.bind (match_ci name (skip_ws b)) (\<lambda>c. if word_boundary c then to_gt c else None)))"

definition self_closing_tag :: "string \<Rightarrow> string \<Rightarrow> string option" where
  "self_closing_tag name s =
     Option.bind (match_char CHR ''<'' s) (\<lambda>a. Option.bind (match_ci name (skip_ws a)) (\<lambda>b.
       if word_boundary b
          \<and> match_char CHR ''/'' (skip_ws (rev (takeWhile (\<lambda>c. c \<noteq> CHR ''>'') b))) \<noteq> None
       then to_gt b else None))"

text \<open>The names that are stripped are letters only, so there is nothing to escape in the expressions.\<close>

definition strip_tag_pass :: "string \<Rightarrow> string \<Rightarrow> string" where
  "strip_tag_pass name s =
     re_replace (self_closing_tag name) [] (re_replace (close_tag name) [] (re_replace (open_tag name) [] s))"

definition stripTagName :: "string \<Rightarrow> string \<Rightarrow> string option" where
  "stripTagName input name = strip_loop (\<lambda>s. Some (strip_tag_pass name s)) input"


section \<open>The custom style sheet\<close>

definition style_tag :: "string \<Rightarrow> string option" where
  "style_tag s =
     Option.bind (match_char CHR ''<'' s) (\<lambda>a.
       let b = skip_ws a; c = (case match_char CHR ''/'' b of Some r \<Rightarrow> skip_ws r | None \<Rightarrow> b)
       in Option.bind (match_ci ''style'' c) to_gt)"

definition any_tag :: "string \<Rightarrow> string option" where
  "any_tag s = Option.bind (match_char CHR ''<'' s) to_gt"

text \<open>The value of an attribute: quoted, or up to white space or \<open>>\<close>.\<close>

definition attr_value :: "string \<Rightarrow> string" where
  "attr_value s =
     (case s of
        [] \<Rightarrow> []
      | c # r \<Rightarrow>
          if (c = CHR 0x22 \<or> c = CHR 0x27) \<and> c \<in> set r then tl (dropWhile (\<lambda>x. x \<noteq> c) r)
          else dropWhile (\<lambda>x. \<not> js_ws x \<and> x \<noteq> CHR ''>'') s)"

definition SVG_ON_ATTR :: "string \<Rightarrow> string option" where
  "SVG_ON_ATTR s =
     (case s of
        [] \<Rightarrow> None
      | w # _ \<Rightarrow>
          if \<not> js_ws w then None
          else Option.bind (match_ci ''on'' (skip_ws s)) (\<lambda>a.
            if a = [] \<or> \<not> is_alpha (hd a) then None
            else Option.bind (match_char CHR ''='' (skip_ws (dropWhile is_alpha a))) (\<lambda>b. Some (attr_value (skip_ws b)))))"

definition import_rule :: "string \<Rightarrow> string option" where
  "import_rule s =
     Option.bind (match_ci ''@import'' s) (\<lambda>a.
       if word_boundary a then
         Some (case dropWhile (\<lambda>c. c \<noteq> CHR '';'') a of [] \<Rightarrow> [] | _ # r \<Rightarrow> r)
       else None)"

definition name_colon :: "string \<Rightarrow> string \<Rightarrow> string option" where
  "name_colon name s = Option.bind (match_ci name s) (\<lambda>a. match_char CHR '':'' (skip_ws a))"

text \<open>\<open>(?:-\w+-)?behavior\s*:\<close>.\<close>

definition behavior_property :: "string \<Rightarrow> string option" where
  "behavior_property s =
     (case match_char CHR ''-'' s of
        None \<Rightarrow> name_colon ''behavior'' s
      | Some a \<Rightarrow>
          if a = [] \<or> \<not> is_word (hd a) then None
          else Option.bind (match_char CHR ''-'' (dropWhile is_word a)) (name_colon ''behavior''))"

definition script_scheme :: "string \<Rightarrow> string option" where
  "script_scheme s =
     (case match_ci ''javascript:'' s of Some r \<Rightarrow> Some r | None \<Rightarrow>
        (case match_ci ''data:'' s of Some r \<Rightarrow> Some r | None \<Rightarrow>
           (case match_ci ''vbscript:'' s of Some r \<Rightarrow> Some r | None \<Rightarrow> match_ci ''file:'' s)))"

text \<open>\<open>["']?\s*\<close>, and \<open>[^)]*\)\<close>.\<close>

definition skip_quote :: "string \<Rightarrow> string" where
  "skip_quote s = (case s of [] \<Rightarrow> [] | q # r \<Rightarrow> if q = CHR 0x22 \<or> q = CHR 0x27 then skip_ws r else s)"

definition to_paren :: "string \<Rightarrow> string option" where
  "to_paren s = (case dropWhile (\<lambda>x. x \<noteq> CHR '')'') s of [] \<Rightarrow> None | _ # r \<Rightarrow> Some r)"

text \<open>\<open>name\s*\(\<close>.\<close>

definition name_paren :: "string \<Rightarrow> string \<Rightarrow> string option" where
  "name_paren name s = Option.bind (match_ci name s) (\<lambda>a. match_char CHR ''('' (skip_ws a))"

definition script_url :: "string \<Rightarrow> string option" where
  "script_url s =
     Option.bind (name_paren ''url'' s) (\<lambda>b. Option.bind (script_scheme (skip_quote (skip_ws b))) to_paren)"

definition css_replacers :: "(string \<Rightarrow> string option) list" where
  "css_replacers =
     [\<lambda>s. Some (re_replace style_tag [] s), \<lambda>s. Some (re_replace any_tag [] s),
      \<lambda>s. stripTagName s ''script'', \<lambda>s. stripTagName s ''style'', \<lambda>s. Some (re_replace SVG_ON_ATTR '' '' s)]"

definition css_rules :: "string \<Rightarrow> string" where
  "css_rules css =
     re_replace script_url ''none'' (re_replace (name_colon ''-moz-binding'') [] (re_replace behavior_property []
       (re_replace (name_paren ''expression'') [] (re_replace import_rule [] css))))"

definition sanitizeCustomCss :: "string option \<Rightarrow> string option" where
  "sanitizeCustomCss v =
     (case v of
        None \<Rightarrow> Some []
      | Some s \<Rightarrow> map_option (\<lambda>css. take 20000 (css_rules css)) (stripUntilStable s css_replacers))"


section \<open>Colours and backgrounds\<close>

definition color_char :: "char \<Rightarrow> bool" where
  "color_char c = (is_alnum c \<or> c \<in> set ''#%.,()/-'' \<or> js_ws c)"

definition sanitizeCssColorValue :: "string option \<Rightarrow> string" where
  "sanitizeCssColorValue v =
     (case v of
        None \<Rightarrow> []
      | Some s \<Rightarrow>
          let t = js_trim s in
          if t = [] then []
          else take 400 (re_replace (name_paren ''url'') [] (re_replace (name_paren ''expression'') [] (filter color_char t))))"

text \<open>The URL parser is an argument: protocol, host name and the text of the URL.\<close>

definition validateBrandingUrl :: "(string \<Rightarrow> (string \<times> string \<times> string) option) \<Rightarrow> string option \<Rightarrow> string option" where
  "validateBrandingUrl parse v =
     (case v of
        None \<Rightarrow> Some []
      | Some s \<Rightarrow>
          let trimmed = js_trim s in
          if trimmed = [] then Some []
          else if startsWith trimmed ''//'' then None
          else if startsWith trimmed ''/'' then (if sublist ''..'' trimmed then None else Some trimmed)
          else (case parse trimmed of
                  None \<Rightarrow> None
                | Some (protocol, hostname, t) \<Rightarrow>
                    if protocol \<noteq> ''http:'' \<and> protocol \<noteq> ''https:'' then None
                    else if hostname = [] then None else Some t))"

text \<open>\<open>url.replace(/["()\\]/g, encodeURIComponent)\<close>: parentheses are among the characters \<open>encodeURIComponent\<close> keeps.\<close>

definition encode_url_char :: "char \<Rightarrow> string" where
  "encode_url_char c = (if c = CHR 0x22 then ''%22'' else if c = CHR 0x5C then ''%5C'' else [c])"

definition buildBackgroundValue ::
  "(string \<Rightarrow> (string \<times> string \<times> string) option) \<Rightarrow> string \<Rightarrow> string option \<Rightarrow> string option \<Rightarrow> string option \<Rightarrow> string" where
  "buildBackgroundValue parse kind color gradient imageUrl =
     (if kind = ''color'' then sanitizeCssColorValue color
      else if kind = ''gradient'' then sanitizeCssColorValue gradient
      else if kind = ''image'' then
        (case validateBrandingUrl parse imageUrl of
           None \<Rightarrow> []
         | Some url \<Rightarrow> if url = [] then []
             else ''url('' @ [CHR 0x22] @ concat (map encode_url_char url) @ [CHR 0x22] @ '')'')
      else [])"

definition normalizeBackgroundSize :: "string \<Rightarrow> string" where
  "normalizeBackgroundSize s =
     (if js_trim s \<in> {''contain'', ''repeat'', ''center'', ''auto'', ''cover''} then js_trim s else ''cover'')"

definition normalizeLoginPromoMode :: "string \<Rightarrow> string" where
  "normalizeLoginPromoMode mode =
     (let m = js_lower (js_trim mode) in if m \<in> {''classic'', ''single'', ''slides''} then m else ''slides'')"

definition resolveLoginPromoMode :: "string \<Rightarrow> bool \<Rightarrow> string" where
  "resolveLoginPromoMode storedMode hadExplicitMode =
     (if hadExplicitMode then normalizeLoginPromoMode storedMode else ''slides'')"


section \<open>The loops end\<close>

text \<open>A pass that returns and, when it changes the text, makes it shorter.\<close>

definition shrinking :: "(string \<Rightarrow> string option) \<Rightarrow> bool" where
  "shrinking f = (\<forall>s. \<exists>t. f s = Some t \<and> (t = s \<or> length t < length s))"

lemma shrinkingD: "shrinking f \<Longrightarrow> \<exists>t. f s = Some t \<and> (t = s \<or> length t < length s)"
  by (simp add: shrinking_def)

lemma strip_loop_ends:
  assumes "shrinking f"
  shows "\<exists>t. strip_loop f s = Some t \<and> f t = Some t \<and> (t = s \<or> length t < length s)"
proof (induction s rule: length_induct)
  case (1 s)
  obtain t where t: "f s = Some t" "t = s \<or> length t < length s" using shrinkingD [OF assms] by blast
  show ?case
  proof (cases "t = s")
    case True
    then show ?thesis using t by (simp add: strip_loop.simps [of f s])
  next
    case False
    then obtain u where "strip_loop f t = Some u" "f u = Some u" "u = t \<or> length u < length t" using 1 t by blast
    then show ?thesis using t False by (intro exI [of _ u]) (auto simp: strip_loop.simps [of f s])
  qed
qed

lemma shrinking_strip_loop: "shrinking f \<Longrightarrow> shrinking (strip_loop f)"
  using strip_loop_ends [of f] unfolding shrinking_def by meson

lemma run_replacers_shrinking:
  assumes "\<forall>f \<in> set fs. shrinking f"
  shows "shrinking (run_replacers fs)"
  using assms
proof (induction fs)
  case (Cons f fs)
  show ?case unfolding shrinking_def
  proof
    fix s
    obtain t where t: "f s = Some t" "t = s \<or> length t < length s" using Cons(2) shrinkingD by (metis list.set_intros(1))
    obtain u where "run_replacers fs t = Some u" "u = t \<or> length u < length t" using Cons shrinkingD by (metis list.set_intros(2))
    then show "\<exists>u. run_replacers (f # fs) s = Some u \<and> (u = s \<or> length u < length s)"
      using t by (intro exI [of _ u]) auto
  qed
qed (simp add: shrinking_def)

text \<open>When a whole pass changes nothing, no step of it does.\<close>

lemma run_replacers_fixed:
  assumes "\<forall>f \<in> set fs. shrinking f" "run_replacers fs s = Some s" "f \<in> set fs"
  shows "f s = Some s"
  using assms
proof (induction fs)
  case (Cons g gs)
  obtain t where t: "g s = Some t" "t = s \<or> length t < length s" using Cons(2) shrinkingD by (metis list.set_intros(1))
  have "shrinking (run_replacers gs)" using Cons(2) by (intro run_replacers_shrinking) simp
  then obtain u where u: "run_replacers gs t = Some u" "u = t \<or> length u < length t" using shrinkingD by blast
  have "u = s" using Cons(3) t(1) u(1) by simp
  then have "t = s" using t(2) u(2) by auto
  then show ?case using Cons t(1) by auto
qed simp

text \<open>Replacing a match by something shorter.\<close>

definition consumes :: "nat \<Rightarrow> (string \<Rightarrow> string option) \<Rightarrow> bool" where
  "consumes n m = (\<forall>s rest. m s = Some rest \<longrightarrow> suffix rest s \<and> length rest + n < length s)"

lemma consumesD: "consumes n m \<Longrightarrow> m s = Some rest \<Longrightarrow> suffix rest s \<and> length rest + n < length s"
  by (simp add: consumes_def)

lemma re_replace_shorter:
  assumes "consumes (length r) m"
  shows "re_replace m r s = s \<or> length (re_replace m r s) < length s"
  using assms
proof (induction m r s rule: re_replace.induct)
  case (2 m r c cs)
  show ?case
  proof (cases "m (c # cs)")
    case (Some rest)
    then have l: "length rest + length r < Suc (length cs)" using consumesD [OF 2(4)] by fastforce
    then have "re_replace m r rest = rest \<or> length (re_replace m r rest) < length rest"
      using 2(2) [OF Some] 2(4) by simp
    then show ?thesis using Some l by auto
  next
    case None
    then show ?thesis using 2(1) [OF None] 2(4) by auto
  qed
qed simp

lemma re_replace_fixed:
  assumes "consumes (length r) m" "re_replace m r s = s" "s = a @ b" "b \<noteq> []"
  shows "m b = None"
  using assms
proof (induction m r s arbitrary: a rule: re_replace.induct)
  case (2 m r c cs)
  show ?case
  proof (cases "m (c # cs)")
    case (Some rest)
    then have l: "length rest + length r < Suc (length cs)" using consumesD [OF 2(4)] by fastforce
    have "length (re_replace m r rest) \<le> length rest" using re_replace_shorter [OF 2(4), of rest] by auto
    moreover have "r @ re_replace m r rest = c # cs" using 2(5) Some l by simp
    then have "length r + length (re_replace m r rest) = Suc (length cs)" by (metis length_Cons length_append)
    ultimately show ?thesis using l by simp
  next
    case None
    then show ?thesis using 2(1) [OF None 2(4)] 2(5-7) by (cases a) auto
  qed
qed simp

lemma shrinking_replace_all: "consumes (length r) m \<Longrightarrow> shrinking (\<lambda>s. Some (re_replace m r s))"
  using re_replace_shorter by (simp add: shrinking_def)


section \<open>The matchers consume what they match\<close>

text \<open>\<open>tail_of n r s\<close>: \<open>r\<close> is what is left of \<open>s\<close> after \<open>n\<close> or more characters.\<close>

definition tail_of :: "nat \<Rightarrow> string \<Rightarrow> string \<Rightarrow> bool" where
  "tail_of n r s = (suffix r s \<and> length r + n \<le> length s)"

lemma tail_trans: "tail_of a y z \<Longrightarrow> tail_of b x y \<Longrightarrow> n \<le> a + b \<Longrightarrow> tail_of n x z"
  unfolding tail_of_def by (auto intro: suffix_order.trans)

lemma tail_refl [simp]: "tail_of 0 s s"
  by (simp add: tail_of_def)

lemma tail_dropWhile [simp]: "tail_of 0 (dropWhile P s) s"
  by (simp add: tail_of_def suffix_dropWhile length_dropWhile_le)

lemma tail_skip [simp]: "tail_of 0 (skip_ws s) s"
  by (simp add: skip_ws_def)

lemma tail_char: "match_char d s = Some r \<Longrightarrow> tail_of (Suc 0) r s"
  by (cases s) (auto simp: tail_of_def suffix_Cons split: if_splits)

lemma tail_ci: "match_ci p s = Some r \<Longrightarrow> tail_of (length p) r s"
  by (induction p s rule: match_ci.induct) (auto simp: tail_of_def suffix_Cons split: if_splits)

lemma tail_cut: "dropWhile P s = c # r \<Longrightarrow> tail_of (Suc 0) r s"
  using tail_dropWhile [of P s] by (auto simp: tail_of_def intro: suffix_ConsD)

lemma tail_to_gt: "to_gt s = Some r \<Longrightarrow> tail_of (Suc 0) r s"
  by (auto simp: to_gt_def split: list.splits intro: tail_cut)

lemma tail_after_skip: "tail_of n r (skip_ws s) \<Longrightarrow> tail_of n r s"
  by (rule tail_trans [OF tail_skip]) auto

lemma consumesI: "(\<And>s r. m s = Some r \<Longrightarrow> tail_of (Suc n) r s) \<Longrightarrow> consumes n m"
  by (force simp: consumes_def tail_of_def)

lemma open_tag_tail: "open_tag name s = Some r \<Longrightarrow> tail_of 2 r s"
proof -
  assume "open_tag name s = Some r"
  then obtain a b where "match_char CHR ''<'' s = Some a" "match_ci name (skip_ws a) = Some b" "to_gt b = Some r"
    by (auto simp: open_tag_def Option.bind_eq_Some_conv split: if_splits)
  then have "tail_of (Suc 0) a s" "tail_of (length name) b a" "tail_of (Suc 0) r b"
    by (auto intro: tail_char tail_after_skip tail_ci tail_to_gt)
  then show ?thesis by (auto intro: tail_trans)
qed

lemma self_closing_open: "self_closing_tag name s = Some r \<Longrightarrow> open_tag name s = Some r"
  by (auto simp: self_closing_tag_def open_tag_def Option.bind_eq_Some_conv split: if_splits)

lemma close_tag_tail: "close_tag name s = Some r \<Longrightarrow> tail_of 3 r s"
proof -
  assume "close_tag name s = Some r"
  then obtain a b c where "match_char CHR ''<'' s = Some a" "match_char CHR ''/'' (skip_ws a) = Some b"
      "match_ci name (skip_ws b) = Some c" "to_gt c = Some r"
    by (auto simp: close_tag_def Option.bind_eq_Some_conv split: if_splits)
  then have "tail_of (Suc 0) a s" "tail_of (Suc 0) b a" "tail_of (length name) c b" "tail_of (Suc 0) r c"
    by (auto intro: tail_char tail_after_skip tail_ci tail_to_gt)
  then have "tail_of 2 b s" "tail_of (Suc 0) r b" by (auto intro: tail_trans)
  then show ?thesis by (auto intro: tail_trans)
qed

lemma style_tag_tail: "style_tag s = Some r \<Longrightarrow> tail_of (Suc 0) r s"
proof -
  assume m: "style_tag s = Some r"
  then obtain a where a: "match_char CHR ''<'' s = Some a" by (auto simp: style_tag_def Option.bind_eq_Some_conv)
  let ?c = "case match_char CHR ''/'' (skip_ws a) of Some r \<Rightarrow> skip_ws r | None \<Rightarrow> skip_ws a"
  from m a obtain d where d: "match_ci ''style'' ?c = Some d" "to_gt d = Some r"
    by (auto simp: style_tag_def Option.bind_eq_Some_conv Let_def)
  have "tail_of 0 ?c a"
    by (auto split: option.split dest!: tail_char intro: tail_trans [OF tail_skip] tail_trans [OF _ tail_skip] tail_after_skip)
  then have "tail_of 5 d a" using tail_ci [OF d(1)] by (auto intro: tail_trans)
  then have "tail_of (Suc 0) r a" using tail_to_gt [OF d(2)] by (auto intro: tail_trans)
  then show ?thesis using tail_char [OF a] by (auto intro: tail_trans)
qed

lemma any_tag_tail: "any_tag s = Some r \<Longrightarrow> tail_of 2 r s"
  by (auto simp: any_tag_def Option.bind_eq_Some_conv dest!: tail_char tail_to_gt intro: tail_trans)

lemma tail_attr_value: "tail_of 0 (attr_value s) s"
proof (cases s)
  case (Cons c r)
  have "tail_of 0 (tl (dropWhile (\<lambda>x. x \<noteq> c) r)) s" if c: "c \<in> set r"
  proof -
    obtain d t where t: "dropWhile (\<lambda>x. x \<noteq> c) r = d # t" using c by (cases "dropWhile (\<lambda>x. x \<noteq> c) r") auto
    then have "tail_of (Suc 0) t r" by (rule tail_cut)
    then show ?thesis using t Cons by (auto simp: tail_of_def suffix_Cons)
  qed
  then show ?thesis using Cons by (auto simp: attr_value_def simp del: dropWhile.simps(2))
qed (simp add: attr_value_def)

lemma on_attr_tail: "SVG_ON_ATTR s = Some r \<Longrightarrow> tail_of 3 r s"
proof -
  assume m: "SVG_ON_ATTR s = Some r"
  then obtain w t where s: "s = w # t" "js_ws w" by (auto simp: SVG_ON_ATTR_def split: list.splits if_splits)
  with m obtain a b where ab: "match_ci ''on'' (skip_ws s) = Some a"
      "match_char CHR ''='' (skip_ws (dropWhile is_alpha a)) = Some b" "r = attr_value (skip_ws b)"
    by (auto simp: SVG_ON_ATTR_def Option.bind_eq_Some_conv split: if_splits)
  have "skip_ws s = skip_ws t" using s by (simp add: skip_ws_def)
  then have "tail_of 2 a t" using tail_ci [OF ab(1)] by (simp add: numeral_2_eq_2 tail_after_skip)
  moreover have "tail_of (Suc 0) t s" using s by (simp add: tail_of_def suffix_Cons)
  ultimately have "tail_of 3 a s" by (auto intro: tail_trans)
  moreover have "tail_of (Suc 0) b a" by (rule tail_trans [OF tail_dropWhile tail_after_skip [OF tail_char [OF ab(2)]]]) simp
  ultimately have "tail_of 3 b s" by (rule tail_trans) simp
  moreover have "tail_of 0 r b" unfolding ab(3) by (rule tail_after_skip [OF tail_attr_value])
  ultimately show ?thesis by (rule tail_trans) simp
qed

lemma strip_tag_shrinking: "shrinking (\<lambda>s. Some (strip_tag_pass name s))"
proof -
  have "consumes 0 (open_tag name)" "consumes 0 (close_tag name)" "consumes 0 (self_closing_tag name)"
    using open_tag_tail close_tag_tail self_closing_open by (fastforce intro!: consumesI simp: tail_of_def)+
  then have "shrinking (run_replacers [\<lambda>s. Some (re_replace (open_tag name) [] s), \<lambda>s. Some (re_replace (close_tag name) [] s),
      \<lambda>s. Some (re_replace (self_closing_tag name) [] s)])"
    by (intro run_replacers_shrinking) (auto intro: shrinking_replace_all [of "[]", simplified])
  then show ?thesis by (simp add: shrinking_def strip_tag_pass_def)
qed

lemma css_replacers_shrinking: "\<forall>f \<in> set css_replacers. shrinking f"
proof -
  have "consumes 0 style_tag" "consumes 0 any_tag" "consumes (length '' '') SVG_ON_ATTR"
    using style_tag_tail any_tag_tail on_attr_tail by (fastforce intro!: consumesI simp: tail_of_def)+
  then show ?thesis
    unfolding css_replacers_def stripTagName_def
    by (auto intro: shrinking_replace_all [of "[]", simplified] shrinking_replace_all
        intro!: shrinking_strip_loop strip_tag_shrinking)
qed


section \<open>What is left\<close>

text \<open>No \<open><\<close> is followed by a \<open>>\<close>.\<close>

definition no_tag :: "string \<Rightarrow> bool" where
  "no_tag s = (CHR ''>'' \<notin> set (dropWhile (\<lambda>c. c \<noteq> CHR ''<'') s))"

lemma no_tag_simps [simp]:
  "no_tag []" "no_tag (c # s) = (if c = CHR ''<'' then CHR ''>'' \<notin> set s else no_tag s)"
  by (auto simp: no_tag_def)

lemma no_gt_no_tag: "CHR ''>'' \<notin> set s \<Longrightarrow> no_tag s"
  by (induction s) auto

lemma to_gt_None: "to_gt s = None \<Longrightarrow> CHR ''>'' \<notin> set s"
  by (auto simp: to_gt_def split: list.splits)

lemma no_match_no_tag: "(\<And>a b. s = a @ b \<Longrightarrow> b \<noteq> [] \<Longrightarrow> any_tag b = None) \<Longrightarrow> no_tag s"
proof (induction s)
  case (Cons c s)
  have "no_tag s" using Cons(2) [of "c # a" for a] by (intro Cons(1)) auto
  moreover have "CHR ''>'' \<notin> set s" if "c = CHR ''<''"
    using Cons(2) [of "[]" "c # s"] that by (intro to_gt_None) (simp add: any_tag_def)
  ultimately show ?case by simp
qed simp

lemma no_tag_append: "no_tag (a @ b) \<Longrightarrow> no_tag a \<and> no_tag b"
  by (induction a) (auto simp: no_gt_no_tag)

lemma no_tag_suffix: "suffix r s \<Longrightarrow> no_tag s \<Longrightarrow> no_tag r"
  by (auto simp: suffix_def dest: no_tag_append)

lemma no_tag_prepend: "CHR ''<'' \<notin> set a \<Longrightarrow> no_tag (a @ b) = no_tag b"
  by (induction a) auto

lemma set_replace_all:
  assumes "\<And>s rest. m s = Some rest \<Longrightarrow> suffix rest s"
  shows "set (re_replace m r s) \<subseteq> set s \<union> set r"
  using assms
proof (induction m r s rule: re_replace.induct)
  case (2 m r c cs)
  show ?case
  proof (cases "\<exists>rest. m (c # cs) = Some rest \<and> length rest \<le> length cs")
    case True
    then obtain rest where rest: "m (c # cs) = Some rest" "length rest \<le> length cs" by blast
    have "set rest \<subseteq> set (c # cs)" by (rule set_mono_suffix [OF 2(4) [OF rest(1)]])
    then show ?thesis using 2(2) [OF rest 2(4)] rest by auto
  next
    case False
    then have "re_replace m r (c # cs) = c # re_replace m r cs" by (auto split: option.split)
    moreover have "set (re_replace m r cs) \<subseteq> set cs \<union> set r"
    proof (cases "m (c # cs)")
      case None
      then show ?thesis by (rule 2(1) [OF _ 2(4)])
    next
      case (Some rest)
      then show ?thesis using False by (intro 2(3) [OF Some _ 2(4)]) auto
    qed
    ultimately show ?thesis by auto
  qed
qed simp

lemma no_tag_replace_all:
  assumes "\<And>s rest. m s = Some rest \<Longrightarrow> suffix rest s" and "CHR ''<'' \<notin> set r" "CHR ''>'' \<notin> set r" and "no_tag s"
  shows "no_tag (re_replace m r s)"
  using assms
proof (induction m r s rule: re_replace.induct)
  case (2 m r c cs)
  have tail: "CHR ''>'' \<notin> set (re_replace m r cs)" if "CHR ''>'' \<notin> set cs"
    using set_replace_all [OF 2(4)] 2(6) that by blast
  have "no_tag cs" using 2(7) by (auto simp: no_gt_no_tag split: if_splits)
  show ?case
  proof (cases "\<exists>rest. m (c # cs) = Some rest \<and> length rest \<le> length cs")
    case True
    then obtain rest where rest: "m (c # cs) = Some rest" "length rest \<le> length cs" by blast
    have "no_tag (re_replace m r rest)"
      by (rule 2(2) [OF rest 2(4-6) no_tag_suffix [OF 2(4) [OF rest(1)] 2(7)]])
    then show ?thesis using rest 2(5) by (simp add: no_tag_prepend)
  next
    case False
    then have "re_replace m r (c # cs) = c # re_replace m r cs" by (auto split: option.split)
    moreover have "no_tag (re_replace m r cs)"
    proof (cases "m (c # cs)")
      case None
      then show ?thesis by (rule 2(1) [OF _ 2(4-6) \<open>no_tag cs\<close>])
    next
      case (Some rest)
      then show ?thesis using False by (intro 2(3) [OF Some _ 2(4-6) \<open>no_tag cs\<close>]) auto
    qed
    ultimately show ?thesis using tail 2(7) by (auto split: if_splits)
  qed
qed simp

lemma no_tag_take: "no_tag s \<Longrightarrow> no_tag (take n s)"
  using no_tag_append [of "take n s" "drop n s"] by simp

lemma bind_suffix:
  assumes "Option.bind (m s) f = Some r" "\<And>a. m s = Some a \<Longrightarrow> suffix a s" "\<And>a. f a = Some r \<Longrightarrow> suffix r a"
  shows "suffix r s"
proof -
  obtain a where "m s = Some a" "f a = Some r" using assms(1) by (auto simp: Option.bind_eq_Some_conv)
  then show ?thesis using assms(2,3) suffix_order.trans by blast
qed

lemma match_suffix:
  "match_ci p s = Some r \<Longrightarrow> suffix r s" "match_char d (skip_ws s) = Some r \<Longrightarrow> suffix r s" "to_paren s = Some r \<Longrightarrow> suffix r s"
  using tail_ci [of p s r] tail_after_skip [OF tail_char, of d s r] tail_cut [of "\<lambda>x. x \<noteq> CHR '')''" s]
  by (auto simp: tail_of_def to_paren_def split: list.splits)

lemma name_suffix:
  "name_colon name s = Some r \<Longrightarrow> suffix r s" "name_paren name s = Some r \<Longrightarrow> suffix r s"
  unfolding name_colon_def name_paren_def by (erule bind_suffix; erule match_suffix)+

lemma import_suffix:
  assumes "import_rule s = Some r"
  shows "suffix r s"
  using assms unfolding import_rule_def
proof (rule bind_suffix)
  fix a
  assume "(if word_boundary a then Some (case dropWhile (\<lambda>c. c \<noteq> CHR '';'') a of [] \<Rightarrow> [] | x # r \<Rightarrow> r) else None) = Some r"
  then show "suffix r a"
    using tail_cut [of "\<lambda>c. c \<noteq> CHR '';''" a] by (auto simp: tail_of_def split: list.splits if_splits)
qed (erule match_suffix)

lemma behavior_suffix: "behavior_property s = Some r \<Longrightarrow> suffix r s"
proof -
  assume m: "behavior_property s = Some r"
  show ?thesis
  proof (cases "match_char CHR ''-'' s")
    case None
    then show ?thesis using m by (auto simp: behavior_property_def intro: name_suffix)
  next
    case (Some a)
    with m obtain b where b: "match_char CHR ''-'' (dropWhile is_word a) = Some b" "name_colon ''behavior'' b = Some r"
      by (auto simp: behavior_property_def Option.bind_eq_Some_conv split: if_splits)
    have "suffix r b" "suffix b (dropWhile is_word a)" "suffix (dropWhile is_word a) a" "suffix a s"
      using name_suffix(1) [OF b(2)] tail_char [OF b(1)] tail_char [OF Some] by (auto simp: tail_of_def suffix_dropWhile)
    then show ?thesis by (blast intro: suffix_order.trans)
  qed
qed

lemma skip_quote_suffix: "suffix (skip_quote (skip_ws s)) s"
proof -
  have "suffix (skip_ws t) t" for t using tail_skip [of t] by (simp add: tail_of_def)
  moreover from this have "suffix (skip_quote t) t" for t
    by (auto simp: skip_quote_def suffix_Cons split: list.split)
  ultimately show ?thesis using suffix_order.trans by blast
qed

lemma script_scheme_suffix: "script_scheme s = Some r \<Longrightarrow> suffix r s"
  by (auto simp: script_scheme_def split: option.splits intro: match_suffix)

lemma script_url_suffix:
  assumes "script_url s = Some r"
  shows "suffix r s"
  using assms unfolding script_url_def
proof (rule bind_suffix)
  fix b
  assume "Option.bind (script_scheme (skip_quote (skip_ws b))) to_paren = Some r"
  then have "suffix r (skip_quote (skip_ws b))" by (rule bind_suffix) (erule script_scheme_suffix match_suffix)+
  then show "suffix r b" using skip_quote_suffix suffix_order.trans by blast
qed (erule name_suffix)

lemma no_tag_css_rules: "no_tag s \<Longrightarrow> no_tag (css_rules s)"
  unfolding css_rules_def
  by (intro no_tag_replace_all) (auto intro: name_suffix import_suffix behavior_suffix script_url_suffix)

text \<open>C24: Cleaning a custom style sheet always ends, whatever text it is given: the loops that strip tags until nothing
  changes make the text shorter with every change, the inner loop of \<open>stripTagName\<close> included.  The result has at most
  20000 characters, and no \<open><\<close> in it is followed by a \<open>>\<close>, so it contains no tag, not even one that came about by
  stripping another.\<close>

theorem custom_css_ends_without_tags:
  "\<exists>css. sanitizeCustomCss v = Some css \<and> length css \<le> 20000 \<and> (\<nexists>a b. css = a @ ''<'' @ b \<and> CHR ''>'' \<in> set b)"
proof (cases v)
  case (Some s)
  have "shrinking (run_replacers css_replacers)" by (rule run_replacers_shrinking [OF css_replacers_shrinking])
  then obtain t where t: "stripUntilStable s css_replacers = Some t" "run_replacers css_replacers t = Some t"
    using strip_loop_ends [of "run_replacers css_replacers" s] by (auto simp: stripUntilStable_def)
  have "(\<lambda>s. Some (re_replace any_tag [] s)) t = Some t"
    by (rule run_replacers_fixed [OF css_replacers_shrinking t(2)]) (simp add: css_replacers_def)
  moreover have "consumes 0 any_tag" using any_tag_tail by (fastforce intro!: consumesI simp: tail_of_def)
  ultimately have "no_tag t" using re_replace_fixed [of "[]" any_tag t] by (intro no_match_no_tag) auto
  then have n: "no_tag (take 20000 (css_rules t))" by (intro no_tag_take no_tag_css_rules)
  have "CHR ''>'' \<notin> set b" if "take 20000 (css_rules t) = a @ ''<'' @ b" for a b
    using no_tag_append [of a "''<'' @ b"] n that by simp
  then show ?thesis using Some t(1) by (auto simp: sanitizeCustomCss_def)
qed (simp add: sanitizeCustomCss_def)

text \<open>The rules after the loop are applied once each, so removing one forbidden construct can put another together.\<close>

theorem expression_reassembled:
  "sanitizeCustomCss (Some ''a{width:expexpression(ression(1)}'') = Some ''a{width:expression(1)}''"
proof -
  have "stripUntilStable ''a{width:expexpression(ression(1)}'' css_replacers = Some ''a{width:expexpression(ression(1)}''"
    "css_rules ''a{width:expexpression(ression(1)}'' = ''a{width:expression(1)}''" by code_simp+
  then show ?thesis by (simp add: sanitizeCustomCss_def)
qed

theorem import_reassembled:
  "sanitizeCustomCss (Some ''@im@import;port x;'') = Some ''@import x;''"
proof -
  have "stripUntilStable ''@im@import;port x;'' css_replacers = Some ''@im@import;port x;''"
    "css_rules ''@im@import;port x;'' = ''@import x;''" by code_simp+
  then show ?thesis by (simp add: sanitizeCustomCss_def)
qed

theorem url_reassembled:
  "sanitizeCssColorValue (Some ''uurl(rl(//evil/x)'') = ''url(//evil/x)''"
  by code_simp

text \<open>The text of a colour only has the characters of the list.\<close>

lemma re_replace_subset: "(\<And>s rest. m s = Some rest \<Longrightarrow> suffix rest s) \<Longrightarrow> set (re_replace m [] s) \<subseteq> set s"
  using set_replace_all [of m "[]" s] by auto

lemma filtered_subset: "set xs \<subseteq> set (filter P ys) \<Longrightarrow> list_all P xs"
  by (auto simp: list_all_iff)

theorem color_value_characters:
  "length (sanitizeCssColorValue v) \<le> 400 \<and> list_all color_char (sanitizeCssColorValue v)"
proof (cases v)
  case (Some s)
  let ?t = "filter color_char (js_trim s)"
  let ?e = "re_replace (name_paren ''expression'') [] ?t"
  have "set (re_replace (name_paren ''url'') [] ?e) \<subseteq> set ?e" "set ?e \<subseteq> set ?t"
    by (rule re_replace_subset, erule name_suffix)+
  then have "set (take 400 (re_replace (name_paren ''url'') [] ?e)) \<subseteq> set ?t"
    using set_take_subset [of 400 "re_replace (name_paren ''url'') [] ?e"] by blast
  then have "list_all color_char (take 400 (re_replace (name_paren ''url'') [] ?e))" by (rule filtered_subset)
  then show ?thesis using Some by (simp add: sanitizeCssColorValue_def Let_def)
qed (simp add: sanitizeCssColorValue_def)

end
