(* ===== verification/Device_Tags.thy ===== *)
theory Device_Tags
  imports Json_Values Event_System
begin

text \<open>
  Tags of devices and the address books: \<open>src/web-nodejs/services/tagManagementService.js\<close> and
  \<open>services/rustdeskAddressBookSync.js\<close>.

  Tags and address books come as JSON (\<open>Json_Values\<close>); \<open>JSON.parse\<close> is an argument, and \<^term>\<open>None\<close> as the result of an
  operation is the \<open>TypeError\<close> of \<open>String\<close> on an object without a primitive value.  The operations on address books
  return the object that the code turns into text.  The pool of \<open>mapWithConcurrency\<close> is a state machine of its workers.
\<close>

section \<open>Normal form of tags\<close>

definition MAX_TAG_LENGTH :: nat where "MAX_TAG_LENGTH = 50"

definition MAX_TAGS_PER_DEVICE :: nat where "MAX_TAGS_PER_DEVICE = 20"

definition control_char :: "char \<Rightarrow> bool" where
  "control_char c = (let n = (of_char c :: nat) in n \<le> 8 \<or> n = 11 \<or> n = 12 \<or> (14 \<le> n \<and> n \<le> 31))"

definition sanitizeTag :: "string \<Rightarrow> string" where
  "sanitizeTag s = take MAX_TAG_LENGTH (js_trim (filter (\<lambda>c. \<not> control_char c) s))"

text \<open>The set \<open>seen\<close> always holds the entries of the list.\<close>

definition uniquePush :: "string \<Rightarrow> string list \<Rightarrow> string list" where
  "uniquePush v xs = (let tag = sanitizeTag v in if tag = [] \<or> tag \<in> set xs then xs else xs @ [tag])"

fun push_items :: "json list \<Rightarrow> string list \<Rightarrow> string list option" where
  "push_items [] tags = Some tags"
| "push_items (x # xs) tags =
     (case text_or_empty (Some x) of None \<Rightarrow> None | Some s \<Rightarrow> push_items xs (uniquePush s tags))"

definition raw_tags :: "(string \<Rightarrow> json option) \<Rightarrow> json option \<Rightarrow> json list" where
  "raw_tags parse v =
     (case v of
        Some (JStr s) \<Rightarrow>
          let trimmed = js_trim s; parts = map JStr (split_on CHR '','' trimmed) in
          if trimmed = [] then []
          else if startsWith trimmed ''['' then
            (case parse trimmed of None \<Rightarrow> parts | Some (JArr xs) \<Rightarrow> xs | Some _ \<Rightarrow> [])
          else parts
      | Some (JArr xs) \<Rightarrow> xs
      | _ \<Rightarrow> [])"

definition normalize_tags :: "(string \<Rightarrow> json option) \<Rightarrow> json option \<Rightarrow> string list option" where
  "normalize_tags parse v = (if \<not> truthy v then Some [] else push_items (raw_tags parse v) [])"


section \<open>Renaming and deleting a tag\<close>

definition tagsEqual :: "string \<Rightarrow> string \<Rightarrow> bool" where
  "tagsEqual a b = (js_lower (js_trim a) = js_lower (js_trim b))"

definition deviceHasTag :: "(string \<Rightarrow> json option) \<Rightarrow> json option \<Rightarrow> string \<Rightarrow> bool option" where
  "deviceHasTag parse tags tag =
     (let expected = js_lower (sanitizeTag tag) in
      if expected = [] then Some False
      else map_option (list_ex (\<lambda>t. js_lower t = expected)) (normalize_tags parse tags))"

fun rename_loop :: "string \<Rightarrow> string \<Rightarrow> string list \<Rightarrow> string list \<Rightarrow> bool \<Rightarrow> string list \<times> bool" where
  "rename_loop from to next_tags [] replaced = (next_tags, replaced)"
| "rename_loop from to next_tags (tag # tags) replaced =
     (let hit = tagsEqual tag from; v = (if hit then to else tag); r = (replaced \<or> hit) in
      if js_lower v \<in> js_lower ` set next_tags then rename_loop from to next_tags tags r
      else if length (next_tags @ [v]) \<ge> MAX_TAGS_PER_DEVICE then (next_tags @ [v], r)
      else rename_loop from to (next_tags @ [v]) tags r)"

text \<open>Without a name the code returns the list of tags itself, not the object.\<close>

datatype rewrite_result = Rewritten "string list" bool | PlainTags "string list"

definition rewriteTagsRename :: "(string \<Rightarrow> json option) \<Rightarrow> json option \<Rightarrow> string \<Rightarrow> string \<Rightarrow> rewrite_result option" where
  "rewriteTagsRename parse tags fromTag toTag =
     (let from = sanitizeTag fromTag; to = sanitizeTag toTag in
      if from = [] \<or> to = [] then map_option PlainTags (normalize_tags parse tags)
      else map_option (\<lambda>ts. case rename_loop from to [] ts False of (n, r) \<Rightarrow> Rewritten n r) (normalize_tags parse tags))"

definition rewriteTagsDelete :: "(string \<Rightarrow> json option) \<Rightarrow> json option \<Rightarrow> string \<Rightarrow> (string list \<times> bool) option" where
  "rewriteTagsDelete parse tags tagToRemove =
     (let r = sanitizeTag tagToRemove in
      map_option (\<lambda>before. if r = [] then (before, False)
          else let next_tags = filter (\<lambda>t. \<not> tagsEqual t r) before in (next_tags, length next_tags \<noteq> length before))
        (normalize_tags parse tags))"


section \<open>The pool of workers\<close>

text \<open>A worker waits for the answer of the mapper on an item, or is done.  Starting the workers makes the first calls.\<close>

record 'b pool =
  po_index :: nat
  po_results :: "'b option list"
  po_workers :: "nat option list"

definition pool_start :: "nat \<Rightarrow> nat \<Rightarrow> 'b pool" where
  "pool_start concurrency n =
     (let limit = max 1 concurrency in
      \<lparr>po_index = min limit n, po_results = replicate n None, po_workers = map Some [0..<min limit n]\<rparr>)"

text \<open>The mapper's promise of worker \<open>w\<close> settles: the result is stored and the loop of the worker goes on.\<close>

definition pool_step :: "(nat \<Rightarrow> 'b) \<Rightarrow> nat \<Rightarrow> 'b pool \<Rightarrow> 'b pool option" where
  "pool_step mapper w p =
     (if w < length (po_workers p) then
        (case po_workers p ! w of
           None \<Rightarrow> None
         | Some current \<Rightarrow>
             let p' = p\<lparr>po_results := (po_results p)[current := Some (mapper current)]\<rparr> in
             Some (if po_index p < length (po_results p)
                   then p'\<lparr>po_index := po_index p + 1, po_workers := (po_workers p)[w := Some (po_index p)]\<rparr>
                   else p'\<lparr>po_workers := (po_workers p)[w := None]\<rparr>))
      else None)"

text \<open>The workers that wait.\<close>

definition busy :: "'b pool \<Rightarrow> nat set" where
  "busy p = {w. w < length (po_workers p) \<and> po_workers p ! w \<noteq> None}"


section \<open>Renaming and deleting across the devices\<close>

record 'w tag_run =
  tg_updated :: nat
  tg_skipped :: nat
  tg_errors :: "string list"
  tg_world :: 'w

type_synonym tagged_device = "string \<times> json option"

text \<open>What the mapper does to one device: \<open>new_tags\<close> is the rewritten list, \<^term>\<open>None\<close> when nothing changed.  The server
  is an argument that answers with success or not, on a world of its own.\<close>

definition store_tags ::
  "(string \<Rightarrow> string list \<Rightarrow> 'w \<Rightarrow> bool \<times> 'w) \<Rightarrow> string \<Rightarrow> string list option \<Rightarrow> 'w tag_run \<Rightarrow> 'w tag_run" where
  "store_tags setPeerTags i new_tags r =
     (case new_tags of
        None \<Rightarrow> r\<lparr>tg_skipped := tg_skipped r + 1\<rparr>
      | Some ts \<Rightarrow>
          (case setPeerTags i ts (tg_world r) of
             (False, w) \<Rightarrow> r\<lparr>tg_skipped := tg_skipped r + 1, tg_errors := tg_errors r @ [i], tg_world := w\<rparr>
           | (True, w) \<Rightarrow> r\<lparr>tg_updated := tg_updated r + 1, tg_world := w\<rparr>))"

definition rename_device ::
  "(string \<Rightarrow> json option) \<Rightarrow> (string \<Rightarrow> string list \<Rightarrow> 'w \<Rightarrow> bool \<times> 'w) \<Rightarrow> string \<Rightarrow> string \<Rightarrow> tagged_device \<Rightarrow> 'w tag_run \<Rightarrow> 'w tag_run option" where
  "rename_device parse setPeerTags a b d r =
     map_option (\<lambda>res. store_tags setPeerTags (fst d) (case res of Rewritten ts True \<Rightarrow> Some ts | _ \<Rightarrow> None) r)
       (rewriteTagsRename parse (snd d) a b)"

definition untag_device ::
  "(string \<Rightarrow> json option) \<Rightarrow> (string \<Rightarrow> string list \<Rightarrow> 'w \<Rightarrow> bool \<times> 'w) \<Rightarrow> string \<Rightarrow> tagged_device \<Rightarrow> 'w tag_run \<Rightarrow> 'w tag_run option" where
  "untag_device parse setPeerTags a d r =
     map_option (\<lambda>(ts, changed). store_tags setPeerTags (fst d) (if changed then Some ts else None) r)
       (rewriteTagsDelete parse (snd d) a)"

text \<open>The devices in the order in which the calls of the pool answer.\<close>

fun each_device :: "(tagged_device \<Rightarrow> 'w tag_run \<Rightarrow> 'w tag_run option) \<Rightarrow> tagged_device list \<Rightarrow> 'w tag_run \<Rightarrow> 'w tag_run option" where
  "each_device f [] r = Some r"
| "each_device f (d # ds) r = Option.bind (f d r) (each_device f ds)"

fun tag_targets :: "(string \<Rightarrow> json option) \<Rightarrow> string \<Rightarrow> tagged_device list \<Rightarrow> tagged_device list option" where
  "tag_targets parse tag [] = Some []"
| "tag_targets parse tag (d # ds) =
     Option.bind (deviceHasTag parse (snd d) tag) (\<lambda>has. map_option (\<lambda>ts. if has then d # ts else ts) (tag_targets parse tag ds))"

text \<open>A device group: guid, source and filter.\<close>

type_synonym tag_group = "string \<times> string \<times> string"

definition follows_tag :: "string \<Rightarrow> tag_group \<Rightarrow> bool" where
  "follows_tag tag g =
     (case g of (guid, source, flt) \<Rightarrow>
        (if source = [] then ''manual'' else source) = ''tag'' \<and> js_trim flt \<noteq> [] \<and> tagsEqual (js_trim flt) tag)"

definition rename_groups :: "(string \<Rightarrow> string \<Rightarrow> 'w \<Rightarrow> 'w) \<Rightarrow> string \<Rightarrow> string \<Rightarrow> tag_group list \<Rightarrow> 'w \<Rightarrow> nat \<times> 'w" where
  "rename_groups updateDeviceGroup a b groups w =
     (let hits = filter (follows_tag a) groups
      in (length hits, fold (\<lambda>(guid, source, flt). updateDeviceGroup guid b) hits w))"

datatype 'w rename_outcome =
    NotRenamed string
  | Renamed "'w tag_run" nat

text \<open>\<open>order\<close> is the order of the answers, a permutation of the targets.\<close>

definition renameTagAcrossScope ::
  "(string \<Rightarrow> json option) \<Rightarrow> (string \<Rightarrow> string list \<Rightarrow> 'w \<Rightarrow> bool \<times> 'w) \<Rightarrow> (string \<Rightarrow> string \<Rightarrow> 'w \<Rightarrow> 'w) \<Rightarrow>
     (tagged_device list \<Rightarrow> tagged_device list) \<Rightarrow> tagged_device list \<Rightarrow> tag_group list \<Rightarrow> string \<Rightarrow> string \<Rightarrow> 'w \<Rightarrow>
     'w rename_outcome option" where
  "renameTagAcrossScope parse setPeerTags updateDeviceGroup order devices groups fromTag toTag w =
     (let a = sanitizeTag fromTag; b = sanitizeTag toTag in
      if a = [] \<or> b = [] then Some (NotRenamed ''invalid_tag'')
      else if a = b then Some (NotRenamed ''identical'')
      else
        Option.bind (tag_targets parse a devices) (\<lambda>targets.
          map_option (\<lambda>r. let g = rename_groups updateDeviceGroup a b groups (tg_world r)
                           in Renamed (r\<lparr>tg_world := snd g\<rparr>) (fst g))
            (each_device (rename_device parse setPeerTags a b) (order targets)
               \<lparr>tg_updated = 0, tg_skipped = 0, tg_errors = [], tg_world = w\<rparr>)))"

definition deleteTagAcrossScope ::
  "(string \<Rightarrow> json option) \<Rightarrow> (string \<Rightarrow> string list \<Rightarrow> 'w \<Rightarrow> bool \<times> 'w) \<Rightarrow> (tagged_device list \<Rightarrow> tagged_device list) \<Rightarrow>
     tagged_device list \<Rightarrow> tag_group list \<Rightarrow> string \<Rightarrow> 'w \<Rightarrow> 'w rename_outcome option" where
  "deleteTagAcrossScope parse setPeerTags order devices groups tag w =
     (let target = sanitizeTag tag in
      if target = [] then Some (NotRenamed ''invalid_tag'')
      else
        Option.bind (tag_targets parse target devices) (\<lambda>targets.
          map_option (\<lambda>r. Renamed r (length (filter (\<lambda>(guid, source, flt).
                 (if source = [] then ''manual'' else source) = ''tag'' \<and> tagsEqual flt target) groups)))
            (each_device (untag_device parse setPeerTags target) (order targets)
               \<lparr>tg_updated = 0, tg_skipped = 0, tg_errors = [], tg_world = w\<rparr>)))"


section \<open>Address books\<close>

record address_book =
  ab_peers :: "json list"
  ab_tags :: "string list"
  ab_rest :: "(string \<times> json) list"

definition parse_object :: "json option \<Rightarrow> (string \<times> json) list" where
  "parse_object v = (case v of Some (JObj fs) \<Rightarrow> fs | _ \<Rightarrow> [])"

definition parseAddressBookData :: "(string \<Rightarrow> json option) \<Rightarrow> json option \<Rightarrow> address_book option" where
  "parseAddressBookData parse data =
     (let fs = (case data of
                  Some (JStr s) \<Rightarrow> if js_trim s \<noteq> [] then parse_object (parse s) else []
                | v \<Rightarrow> parse_object v)
      in map_option (\<lambda>tags. \<lparr>ab_peers = (case map_of fs ''peers'' of Some (JArr ps) \<Rightarrow> ps | _ \<Rightarrow> []), ab_tags = tags,
                             ab_rest = delete_field ''tags'' (delete_field ''peers'' fs)\<rparr>)
           (normalize_tags parse (map_of fs ''tags'')))"

definition is_object :: "json \<Rightarrow> bool" where
  "is_object v = (case v of JObj _ \<Rightarrow> True | JArr _ \<Rightarrow> True | _ \<Rightarrow> False)"

definition peer_id :: "json \<Rightarrow> string option" where
  "peer_id peer = map_option js_trim (text_or_empty (field peer ''id''))"

text \<open>\<open>filter\<close> with a predicate that may throw.\<close>

fun filter_opt :: "('a \<Rightarrow> bool option) \<Rightarrow> 'a list \<Rightarrow> 'a list option" where
  "filter_opt P [] = Some []"
| "filter_opt P (x # xs) =
     (case P x of None \<Rightarrow> None | Some b \<Rightarrow> map_option (\<lambda>ys. if b then x # ys else ys) (filter_opt P xs))"

definition keeps_peer :: "string set \<Rightarrow> string set \<Rightarrow> json \<Rightarrow> bool option" where
  "keeps_peer known visible peer =
     (if \<not> is_object peer then Some False
      else map_option (\<lambda>i. i \<noteq> [] \<and> \<not> (i \<in> known \<and> i \<notin> visible)) (peer_id peer))"

definition filterAddressBookPeersByScope ::
  "(string \<Rightarrow> json option) \<Rightarrow> json option \<Rightarrow> string set option \<Rightarrow> json list \<Rightarrow> address_book option" where
  "filterAddressBookPeersByScope parse data visibleIds knownDeviceIds =
     Option.bind (parseAddressBookData parse data) (\<lambda>ab.
       case visibleIds of
         None \<Rightarrow> Some ab
       | Some visible \<Rightarrow>
           Option.bind (those (map (\<lambda>i. map_option js_trim (text_or_empty (Some i))) knownDeviceIds)) (\<lambda>ids.
             map_option (\<lambda>ps. ab\<lparr>ab_peers := ps\<rparr>) (filter_opt (keeps_peer (set ids - {[]}) visible) (ab_peers ab))))"

fun tag_updates :: "(string \<Rightarrow> json option) \<Rightarrow> json list \<Rightarrow> string set \<Rightarrow> (string \<times> string list) list option" where
  "tag_updates parse [] seen = Some []"
| "tag_updates parse (peer # ps) seen =
     (if \<not> is_object peer then tag_updates parse ps seen
      else case peer_id peer of
             None \<Rightarrow> None
           | Some i \<Rightarrow>
               if i = [] \<or> i \<in> seen then tag_updates parse ps seen
               else (case peer of
                       JObj fs \<Rightarrow>
                         if map_of fs ''tags'' = None then tag_updates parse ps seen
                         else (case normalize_tags parse (map_of fs ''tags'') of
                                 None \<Rightarrow> None
                               | Some ts \<Rightarrow> map_option (\<lambda>us. (i, ts) # us) (tag_updates parse ps (insert i seen)))
                     | _ \<Rightarrow> tag_updates parse ps seen))"

definition collectPeerTagUpdates :: "(string \<Rightarrow> json option) \<Rightarrow> json option \<Rightarrow> (string \<times> string list) list option" where
  "collectPeerTagUpdates parse data =
     Option.bind (parseAddressBookData parse data) (\<lambda>ab. tag_updates parse (ab_peers ab) {})"

fun push_device_tags :: "(string \<Rightarrow> json option) \<Rightarrow> json option list \<Rightarrow> string list \<Rightarrow> string list option" where
  "push_device_tags parse [] tags = Some tags"
| "push_device_tags parse (d # ds) tags =
     Option.bind (normalize_tags parse d) (\<lambda>ts. push_device_tags parse ds (fold uniquePush ts tags))"

text \<open>The tags of the visible devices; their order is the one of \<open>localeCompare\<close>, which is an argument.\<close>

definition collectVisibleTags :: "(string \<Rightarrow> json option) \<Rightarrow> (string list \<Rightarrow> string list) \<Rightarrow> json option list \<Rightarrow> string list option" where
  "collectVisibleTags parse collate devices = map_option collate (push_device_tags parse devices [])"


section \<open>Merging the devices of the panel\<close>

definition field_or :: "json \<Rightarrow> string \<Rightarrow> string \<Rightarrow> json option" where
  "field_or d a b = or_else (field d a) (field d b)"

text \<open>\<open>if (!peer.name && v) peer.name = String(v)\<close>.\<close>

definition fill_field :: "string \<Rightarrow> json option \<Rightarrow> (string \<times> json) list \<Rightarrow> (string \<times> json) list option" where
  "fill_field name v fs =
     (if \<not> truthy (map_of fs name) \<and> truthy v then map_option (\<lambda>s. set_field name (JStr s) fs) (text_or_empty v) else Some fs)"

definition mergePeerFields :: "(string \<times> json) list \<Rightarrow> json \<Rightarrow> string list \<Rightarrow> json option" where
  "mergePeerFields fs device tags =
     Option.bind (text_or_empty (or_else (map_of fs ''id'') (field device ''id''))) (\<lambda>i.
     Option.bind (fill_field ''username'' (field_or device ''username'' ''user'') (set_field ''id'' (JStr i) fs)) (\<lambda>f1.
     Option.bind (fill_field ''hostname'' (field device ''hostname'') f1) (\<lambda>f2.
     Option.bind (fill_field ''alias'' (field_or device ''display_name'' ''note'') f2) (\<lambda>f3.
     map_option (\<lambda>f4. JObj (set_field ''tags'' (JArr (map JStr tags)) f4))
       (fill_field ''platform'' (field_or device ''platform'' ''os'') f3)))))"

fun banned_ids :: "json list \<Rightarrow> string set option" where
  "banned_ids [] = Some {}"
| "banned_ids (d # ds) =
     (case peer_id d of
        None \<Rightarrow> None
      | Some i \<Rightarrow>
          map_option (\<lambda>B. if i \<noteq> [] \<and> (truthy (field d ''banned'') \<or> truthy (field d ''soft_deleted'')) then insert i B else B)
            (banned_ids ds))"

text \<open>The first loop over the peers: their tags are put in normal form and added to the tags of the book.\<close>

fun prepare_peers :: "(string \<Rightarrow> json option) \<Rightarrow> json list \<Rightarrow> string list \<Rightarrow> (json list \<times> string list) option" where
  "prepare_peers parse [] tags = Some ([], tags)"
| "prepare_peers parse (peer # ps) tags =
     (case peer of
        JObj fs \<Rightarrow>
          Option.bind (normalize_tags parse (map_of fs ''tags'')) (\<lambda>ts.
            map_option (\<lambda>(qs, tags'). (JObj (set_field ''tags'' (JArr (map JStr ts)) fs) # qs, tags'))
              (prepare_peers parse ps (fold uniquePush ts tags)))
      | _ \<Rightarrow> map_option (\<lambda>(qs, tags'). (peer # qs, tags')) (prepare_peers parse ps tags))"

text \<open>\<open>peerById\<close>: the last peer with the identifier.\<close>

definition peer_index :: "string \<Rightarrow> json list \<Rightarrow> nat option" where
  "peer_index i ps = (case filter (\<lambda>k. peer_id (ps ! k) = Some i) [0..<length ps] of [] \<Rightarrow> None | ks \<Rightarrow> Some (last ks))"

definition merge_device ::
  "(string \<Rightarrow> json option) \<Rightarrow> bool \<Rightarrow> json \<Rightarrow> json list \<times> string list \<Rightarrow> (json list \<times> string list) option" where
  "merge_device parse includeDevices device st =
     (case st of (ps, tags) \<Rightarrow>
        Option.bind (peer_id device) (\<lambda>i.
          if i = [] then Some (ps, tags)
          else if peer_index i ps = None \<and> \<not> includeDevices then Some (ps, tags)
          else
            let old = (case peer_index i ps of None \<Rightarrow> [] | Some k \<Rightarrow> parse_object (Some (ps ! k))) in
            Option.bind (normalize_tags parse (map_of old ''tags'')) (\<lambda>own.
            Option.bind (normalize_tags parse (field device ''tags'')) (\<lambda>dev.
              map_option (\<lambda>peer. (case peer_index i ps of None \<Rightarrow> ps @ [peer] | Some k \<Rightarrow> ps[k := peer], fold uniquePush dev tags))
                (mergePeerFields old device (fold uniquePush dev own))))))"

fun merge_devices ::
  "(string \<Rightarrow> json option) \<Rightarrow> bool \<Rightarrow> json list \<Rightarrow> json list \<times> string list \<Rightarrow> (json list \<times> string list) option" where
  "merge_devices parse includeDevices [] st = Some st"
| "merge_devices parse includeDevices (d # ds) st =
     Option.bind (merge_device parse includeDevices d st) (merge_devices parse includeDevices ds)"

definition keeps_unbanned :: "string set \<Rightarrow> json \<Rightarrow> bool option" where
  "keeps_unbanned banned peer =
     (if \<not> is_object peer then Some False else map_option (\<lambda>i. i \<noteq> [] \<and> i \<notin> banned) (peer_id peer))"

definition mergeAddressBookData :: "(string \<Rightarrow> json option) \<Rightarrow> json option \<Rightarrow> json list \<Rightarrow> bool \<Rightarrow> address_book option" where
  "mergeAddressBookData parse data devices includeDevices =
     Option.bind (parseAddressBookData parse data) (\<lambda>ab.
     Option.bind (banned_ids devices) (\<lambda>banned.
     Option.bind (filter_opt (keeps_unbanned banned) (ab_peers ab)) (\<lambda>kept.
     Option.bind (prepare_peers parse kept (ab_tags ab)) (\<lambda>st.
       map_option (\<lambda>(ps, tags). ab\<lparr>ab_peers := ps, ab_tags := tags\<rparr>) (merge_devices parse includeDevices devices st)))))"

text \<open>The text of an address book, as an object.\<close>

definition ab_object :: "address_book \<Rightarrow> json" where
  "ab_object ab = JObj (ab_rest ab @ [(''peers'', JArr (ab_peers ab)), (''tags'', JArr (map JStr (ab_tags ab)))])"

datatype synced_book = RawData string | Synced address_book

text \<open>\<open>scope\<close> is what the scope lookup gives: \<^term>\<open>None\<close> when it throws, else the devices of the server and the set of
  visible devices, or no restriction.\<close>

definition buildSyncedAddressBook ::
  "(string \<Rightarrow> json option) \<Rightarrow> string \<Rightarrow> string \<Rightarrow> json list \<Rightarrow> (json list \<times> string set option) option \<Rightarrow> synced_book option" where
  "buildSyncedAddressBook parse role abData devices scope =
     (if role = ''pro'' then Some (RawData abData)
      else
        Option.bind (mergeAddressBookData parse (Some (JStr abData)) devices False) (\<lambda>merged.
          case scope of
            None \<Rightarrow> Some (Synced merged)
          | Some (allDevices, None) \<Rightarrow> Some (Synced merged)
          | Some (allDevices, Some visible) \<Rightarrow>
              (case filterAddressBookPeersByScope parse (Some (ab_object merged)) (Some visible)
                      (map (\<lambda>d. (case field d ''id'' of Some v \<Rightarrow> v | None \<Rightarrow> JNull)) allDevices) of
                 None \<Rightarrow> Some (Synced merged)
               | Some ab \<Rightarrow> Some (Synced ab))))"


section \<open>The pool ends and maps every item once\<close>

text \<open>Every item before the index is either waited for by exactly one worker or has its result.\<close>

definition pool_ok :: "nat \<Rightarrow> nat \<Rightarrow> (nat \<Rightarrow> 'b) \<Rightarrow> 'b pool \<Rightarrow> bool" where
  "pool_ok c n f p =
     (length (po_results p) = n \<and> po_index p \<le> n \<and> length (po_workers p) \<le> max 1 c
      \<and> (\<forall>v \<in> busy p. \<forall>w \<in> busy p. po_workers p ! v = po_workers p ! w \<longrightarrow> v = w)
      \<and> (\<forall>k. Some k \<in> set (po_workers p) \<longrightarrow> k < po_index p)
      \<and> (\<forall>k < n. po_results p ! k = (if k < po_index p \<and> Some k \<notin> set (po_workers p) then Some (f k) else None))
      \<and> (po_index p < n \<longrightarrow> None \<notin> set (po_workers p) \<and> po_workers p \<noteq> []))"

definition pool_left :: "nat \<Rightarrow> 'b pool \<Rightarrow> nat" where
  "pool_left n p = (n - po_index p) + card (busy p)"

lemma busy_finite [simp]: "finite (busy p)"
  by (simp add: busy_def)

lemma pool_ok_start: "pool_ok c n f (pool_start c n)"
  by (auto simp: pool_ok_def pool_start_def busy_def Let_def nth_append)

lemma busy_start: "busy (pool_start c n) = {..<min (max 1 c) n}"
  by (auto simp: busy_def pool_start_def Let_def)

lemma pool_left_start: "pool_left n (pool_start c n) = n"
  unfolding pool_left_def busy_start by (simp add: pool_start_def Let_def)

lemma pool_step_cases:
  assumes "pool_step f w p = Some q"
  obtains k where "w < length (po_workers p)" "po_workers p ! w = Some k"
    "q = p\<lparr>po_index := (if po_index p < length (po_results p) then po_index p + 1 else po_index p),
            po_results := (po_results p)[k := Some (f k)],
            po_workers := (po_workers p)[w := (if po_index p < length (po_results p) then Some (po_index p) else None)]\<rparr>"
  using assms by (auto simp: pool_step_def Let_def split: if_splits option.splits)

lemma set_updated:
  assumes "w < length xs"
  shows "x \<in> set (xs[w := y]) \<longleftrightarrow> x = y \<or> (\<exists>v < length xs. v \<noteq> w \<and> xs ! v = x)"
  using assms by (auto simp: in_set_conv_nth nth_list_update)

lemma pool_ok_step:
  assumes "pool_ok c n f p" "pool_step f w p = Some q"
  shows "pool_ok c n f q \<and> pool_left n p = Suc (pool_left n q)"
  using assms(2)
proof (rule pool_step_cases)
  fix k
  let ?new = "if po_index p < length (po_results p) then Some (po_index p) else None"
  assume w: "w < length (po_workers p)" "po_workers p ! w = Some k"
    and q: "q = p\<lparr>po_index := (if po_index p < length (po_results p) then po_index p + 1 else po_index p),
            po_results := (po_results p)[k := Some (f k)], po_workers := (po_workers p)[w := ?new]\<rparr>"
  have n: "length (po_results p) = n" "po_index p \<le> n" "length (po_workers p) \<le> max 1 c"
    and one: "\<And>v u. v \<in> busy p \<Longrightarrow> u \<in> busy p \<Longrightarrow> po_workers p ! v = po_workers p ! u \<Longrightarrow> v = u"
    and below: "\<And>j. Some j \<in> set (po_workers p) \<Longrightarrow> j < po_index p"
    and res: "\<And>j. j < n \<Longrightarrow> po_results p ! j = (if j < po_index p \<and> Some j \<notin> set (po_workers p) then Some (f j) else None)"
    using assms(1) by (auto simp: pool_ok_def)
  have k: "k < po_index p" using below [of k] w by (metis nth_mem)
  have own: "v = w" if "v < length (po_workers p)" "po_workers p ! v = Some k" for v
    using one [of v w] that w by (auto simp: busy_def)
  have others: "(\<exists>v < length (po_workers p). v \<noteq> w \<and> po_workers p ! v = Some j) \<longleftrightarrow> Some j \<in> set (po_workers p) \<and> j \<noteq> k" for j
  proof
    assume "\<exists>v < length (po_workers p). v \<noteq> w \<and> po_workers p ! v = Some j"
    then show "Some j \<in> set (po_workers p) \<and> j \<noteq> k" using own by (metis nth_mem)
  next
    assume "Some j \<in> set (po_workers p) \<and> j \<noteq> k"
    then obtain v where "v < length (po_workers p)" "po_workers p ! v = Some j" "j \<noteq> k" by (auto simp: in_set_conv_nth)
    then show "\<exists>v < length (po_workers p). v \<noteq> w \<and> po_workers p ! v = Some j" using w(2) by force
  qed
  have mem: "Some j \<in> set (po_workers q) \<longleftrightarrow> ?new = Some j \<or> (Some j \<in> set (po_workers p) \<and> j \<noteq> k)" for j
  proof -
    have "po_workers q = (po_workers p)[w := ?new]" using q by simp
    then show ?thesis using set_updated [OF w(1), of "Some j" ?new] others [of j] by auto
  qed
  have results: "po_results q ! j = (if j < po_index q \<and> Some j \<notin> set (po_workers q) then Some (f j) else None)" if j: "j < n" for j
  proof -
    have r: "po_results q ! j = (if j = k then Some (f k) else po_results p ! j)" using q j n(1) by (auto simp: nth_list_update)
    show ?thesis unfolding r res [OF j] mem using q n k j below [of j] by auto
  qed
  have same: "v = u" if vu: "v \<in> busy q" "u \<in> busy q" "po_workers q ! v = po_workers q ! u" for v u
  proof (rule ccontr)
    assume "v \<noteq> u"
    have fresh: "?new \<noteq> Some j" if "Some j \<in> set (po_workers p)" for j using below [OF that] by auto
    have old: "x \<in> busy p" "po_workers q ! x = po_workers p ! x" if "x \<in> busy q" "x \<noteq> w" for x
      using that q by (auto simp: busy_def)
    have new: "po_workers q ! w = ?new" using q w(1) by simp
    have notnew: "po_workers q ! x \<noteq> ?new" if x: "x \<in> busy q" "x \<noteq> w" for x
    proof -
      obtain j where "po_workers p ! x = Some j" using old [OF x] by (auto simp: busy_def)
      then show ?thesis using old [OF x] fresh [of j] by (auto simp: busy_def dest: nth_mem)
    qed
    consider "v = w" | "u = w" | "v \<noteq> w" "u \<noteq> w" by blast
    then show False
    proof cases
      case 1 then show False using notnew [of u] vu new \<open>v \<noteq> u\<close> by auto
    next
      case 2 then show False using notnew [of v] vu new \<open>v \<noteq> u\<close> by auto
    next
      case 3 then show False using one [of v u] old [of v] old [of u] vu \<open>v \<noteq> u\<close> by auto
    qed
  qed
  have "pool_ok c n f q"
    unfolding pool_ok_def
  proof (intro conjI allI impI ballI)
    show "k' < po_index q" if "Some k' \<in> set (po_workers q)" for k'
      using that mem [of k'] below [of k'] q by (auto split: if_splits)
    show "None \<notin> set (po_workers q)" "po_workers q \<noteq> []" if "po_index q < n"
      using that assms(1) q n(1) set_updated [OF w(1), of None ?new] w(1)
      by (auto simp: pool_ok_def split: if_splits dest: nth_mem)
  qed (use q n results same in \<open>auto split: if_splits\<close>)
  moreover have "pool_left n p = Suc (pool_left n q)"
  proof (cases "po_index p < n")
    case True
    then have "busy q = busy p" using q w n(1) by (auto simp: busy_def nth_list_update split: if_splits)
    then show ?thesis using True q n(1) by (simp add: pool_left_def)
  next
    case False
    then have b: "busy q = busy p - {w}" using q w n(1) by (auto simp: busy_def nth_list_update split: if_splits)
    have "w \<in> busy p" using w by (simp add: busy_def)
    then have "card (busy p) = Suc (card (busy q))" unfolding b using card_Suc_Diff1 [OF busy_finite, of w p] by simp
    moreover have "po_index q = n" "po_index p = n" using False q n(1,2) by auto
    ultimately show ?thesis by (simp add: pool_left_def)
  qed
  ultimately show ?thesis by blast
qed

lemma pool_run:
  "pool_ok c n f p \<Longrightarrow> run_events (pool_step f) ws p = Some q \<Longrightarrow> pool_ok c n f q \<and> pool_left n p = length ws + pool_left n q"
proof (induction ws arbitrary: p)
  case (Cons w ws)
  then obtain r where r: "pool_step f w p = Some r" "run_events (pool_step f) ws r = Some q" by (auto split: option.splits)
  then show ?case using pool_ok_step [OF Cons(2) r(1)] Cons(1) by auto
qed simp

text \<open>C26: Mapping with a pool of workers ends and maps every item exactly once.  Whatever the order in which the
  calls of the mapper answer, at most as many as the limit are under way, there is one answer per item, and as long as
  there were fewer answers than items some worker still waits, so nothing is lost; after the last answer every worker is done and the
  results stand in the order of the items.\<close>

theorem pool_maps_every_item_once:
  assumes "run_events (pool_step f) ws (pool_start c n) = Some p"
  shows "length ws \<le> n \<and> card (busy p) \<le> max 1 c \<and> (length ws < n \<longleftrightarrow> (\<exists>w. pool_step f w p \<noteq> None))
    \<and> (length ws = n \<longrightarrow> po_results p = map (\<lambda>k. Some (f k)) [0..<n])"
proof -
  have ok: "pool_ok c n f p" and len: "length ws + pool_left n p = n"
    using pool_run [OF pool_ok_start assms] pool_left_start [of n c, where 'a = 'a] by auto
  have "busy p \<subseteq> {..<length (po_workers p)}" by (auto simp: busy_def)
  then have "card (busy p) \<le> length (po_workers p)" using card_mono [of "{..<length (po_workers p)}" "busy p"] by simp
  then have c: "card (busy p) \<le> max 1 c" using ok by (simp add: pool_ok_def)
  have "(\<exists>w. pool_step f w p \<noteq> None) \<longleftrightarrow> busy p \<noteq> {}"
    by (auto simp: pool_step_def busy_def Let_def split: option.splits)
  moreover have "busy p \<noteq> {} \<longleftrightarrow> pool_left n p \<noteq> 0"
  proof
    assume "pool_left n p \<noteq> 0"
    then consider "po_index p < n" | "card (busy p) \<noteq> 0" by (auto simp: pool_left_def)
    then show "busy p \<noteq> {}"
    proof cases
      case 1
      then have "0 < length (po_workers p)" "None \<notin> set (po_workers p)" using ok by (auto simp: pool_ok_def)
      then have "0 \<in> busy p" by (cases "po_workers p"; cases "hd (po_workers p)") (auto simp: busy_def)
      then show ?thesis by blast
    qed auto
  qed (simp add: pool_left_def card_gt_0_iff)
  moreover have "po_results p = map (\<lambda>k. Some (f k)) [0..<n]" if "pool_left n p = 0"
  proof (rule nth_equalityI)
    have "busy p = {}" "po_index p = n" using that ok by (auto simp: pool_left_def pool_ok_def)
    then have "Some k \<notin> set (po_workers p)" for k by (auto simp: busy_def in_set_conv_nth)
    then show "po_results p ! k = map (\<lambda>k. Some (f k)) [0..<n] ! k" if "k < length (po_results p)" for k
      using ok that \<open>po_index p = n\<close> by (auto simp: pool_ok_def)
  qed (use ok in \<open>simp add: pool_ok_def\<close>)
  ultimately show ?thesis using len c by auto
qed

theorem pool_maps_every_item_once_witness:
  "\<exists>p. run_events (pool_step (\<lambda>k. k * k)) [1, 1, 0] (pool_start 2 3) = Some p \<and> po_results p = [Some 0, Some 1, Some 4]"
proof -
  let ?r = "run_events (pool_step (\<lambda>k. k * k)) [1, 1, 0] (pool_start 2 3 :: nat pool)"
  obtain p where p: "?r = Some p" by (auto simp: pool_step_def pool_start_def Let_def upt_rec)
  then show ?thesis using pool_maps_every_item_once [OF p] by (auto simp: upt_rec)
qed


section \<open>Renaming keeps the tags apart\<close>

definition sanitized :: "string \<Rightarrow> bool" where
  "sanitized t = (t \<noteq> [] \<and> length t \<le> 50)"

lemma sanitize_length: "length (sanitizeTag s) \<le> 50"
  by (simp add: sanitizeTag_def MAX_TAG_LENGTH_def)

lemma uniquePush_ok: "distinct xs \<Longrightarrow> list_all sanitized xs \<Longrightarrow> distinct (uniquePush v xs) \<and> list_all sanitized (uniquePush v xs)"
  using sanitize_length by (auto simp: uniquePush_def sanitized_def Let_def)

lemma push_items_ok:
  "push_items xs acc = Some ts \<Longrightarrow> distinct acc \<Longrightarrow> list_all sanitized acc \<Longrightarrow> distinct ts \<and> list_all sanitized ts"
  by (induction xs acc rule: push_items.induct) (auto simp: uniquePush_ok split: option.splits)

lemma normalize_tags_ok: "normalize_tags parse v = Some ts \<Longrightarrow> distinct ts \<and> list_all sanitized ts"
  using push_items_ok by (auto simp: normalize_tags_def split: if_splits)

definition renamed :: "string \<Rightarrow> string \<Rightarrow> string \<Rightarrow> string" where
  "renamed frm to t = (if tagsEqual t frm then to else t)"

lemma rename_loop_ok:
  assumes "rename_loop frm to acc ts r = (us, changed)" and "distinct (map js_lower acc)" "length acc < 20"
  shows "distinct (map js_lower us) \<and> length us \<le> 20 \<and> set us \<subseteq> set acc \<union> renamed frm to ` set ts
    \<and> (length acc + length ts \<le> 20 \<longrightarrow> js_lower ` set us = js_lower ` (set acc \<union> renamed frm to ` set ts)
         \<and> (changed \<longleftrightarrow> r \<or> list_ex (\<lambda>t. tagsEqual t frm) ts))"
  using assms
proof (induction frm to acc ts r rule: rename_loop.induct)
  case (2 frm to acc t ts r)
  let ?v = "renamed frm to t" and ?r = "r \<or> tagsEqual t frm"
  consider (seen) "js_lower ?v \<in> js_lower ` set acc"
    | (full) "js_lower ?v \<notin> js_lower ` set acc" "length (acc @ [?v]) \<ge> 20"
    | (next_one) "js_lower ?v \<notin> js_lower ` set acc" "length (acc @ [?v]) < 20"
    by linarith
  then show ?case
  proof cases
    case seen
    have l: "rename_loop frm to acc ts ?r = (us, changed)"
      using 2(3) seen by (simp add: renamed_def Let_def split: if_splits)
    have "distinct (map js_lower us) \<and> length us \<le> 20 \<and> set us \<subseteq> set acc \<union> renamed frm to ` set ts
      \<and> (length acc + length ts \<le> 20 \<longrightarrow> js_lower ` set us = js_lower ` (set acc \<union> renamed frm to ` set ts)
         \<and> (changed \<longleftrightarrow> ?r \<or> list_ex (\<lambda>t. tagsEqual t frm) ts))"
      using 2(1) [OF refl refl refl _ l 2(4,5)] seen by (simp add: renamed_def)
    then show ?thesis using seen by auto
  next
    case full
    have "us = acc @ [?v]" "changed = ?r"
      using 2(3) full by (auto simp: renamed_def MAX_TAGS_PER_DEVICE_def Let_def split: if_splits)
    then show ?thesis using full 2(4,5) by (cases ts) auto
  next
    case next_one
    have l: "rename_loop frm to (acc @ [?v]) ts ?r = (us, changed)"
      using 2(3) next_one by (simp add: renamed_def MAX_TAGS_PER_DEVICE_def Let_def split: if_splits)
    have "distinct (map js_lower us) \<and> length us \<le> 20 \<and> set us \<subseteq> set (acc @ [?v]) \<union> renamed frm to ` set ts
      \<and> (length (acc @ [?v]) + length ts \<le> 20 \<longrightarrow> js_lower ` set us = js_lower ` (set (acc @ [?v]) \<union> renamed frm to ` set ts)
         \<and> (changed \<longleftrightarrow> ?r \<or> list_ex (\<lambda>t. tagsEqual t frm) ts))"
      using 2(2) [OF refl refl refl _ _ l [unfolded renamed_def]] 2(4) next_one by (simp add: renamed_def MAX_TAGS_PER_DEVICE_def)
    then show ?thesis using next_one by auto
  qed
qed simp

text \<open>Renaming leaves at most twenty tags that differ also without regard to case.  A device with at most twenty tags
  keeps each of its tags or its new name; a device with more loses some.\<close>

theorem rename_keeps_tags:
  assumes "normalize_tags parse tags = Some ts" and "sanitizeTag a \<noteq> []" and "sanitizeTag b \<noteq> []"
    and "rewriteTagsRename parse tags a b = Some (Rewritten us changed)"
  shows "distinct (map js_lower us) \<and> length us \<le> 20
    \<and> (length ts \<le> 20 \<longrightarrow> js_lower ` set us = js_lower ` (renamed (sanitizeTag a) (sanitizeTag b) ` set ts)
         \<and> (changed \<longleftrightarrow> list_ex (\<lambda>t. tagsEqual t (sanitizeTag a)) ts))"
proof -
  have "rename_loop (sanitizeTag a) (sanitizeTag b) [] ts False = (us, changed)"
    using assms by (auto simp: rewriteTagsRename_def Let_def split: prod.splits)
  from rename_loop_ok [OF this] show ?thesis by simp
qed

theorem delete_removes_tag_only:
  assumes "normalize_tags parse tags = Some ts" and "sanitizeTag a \<noteq> []"
  shows "\<exists>us changed. rewriteTagsDelete parse tags a = Some (us, changed) \<and> us = filter (\<lambda>t. \<not> tagsEqual t (sanitizeTag a)) ts
    \<and> (changed \<longleftrightarrow> list_ex (\<lambda>t. tagsEqual t (sanitizeTag a)) ts)"
proof -
  have "length (filter (\<lambda>t. \<not> P t) xs) = length xs \<longleftrightarrow> \<not> list_ex P xs" for P and xs :: "string list"
    by (metis (no_types, lifting) filter_True length_filter_less list_ex_iff nless_le)
  then show ?thesis using assms by (auto simp: rewriteTagsDelete_def Let_def)
qed


section \<open>The address book a client gets\<close>

lemma filter_opt_all: "filter_opt P xs = Some ys \<Longrightarrow> y \<in> set ys \<Longrightarrow> P y = Some True \<and> y \<in> set xs"
  by (induction xs arbitrary: ys) (auto split: option.splits if_splits)

lemma filter_opt_total: "(\<And>x. x \<in> set xs \<Longrightarrow> P x \<noteq> None) \<Longrightarrow> \<exists>ys. filter_opt P xs = Some ys"
  by (induction xs) (auto split: option.splits)

lemma prepare_peers_ids: "prepare_peers parse ps tags = Some (qs, tags') \<Longrightarrow> map peer_id qs = map peer_id ps"
proof (induction ps arbitrary: tags qs tags')
  case (Cons p ps)
  then show ?case
    by (cases p) (auto simp: Option.bind_eq_Some_conv peer_id_def field_def map_of_set_field)
qed simp

lemma fill_field_keeps: "fill_field name v fs = Some gs \<Longrightarrow> k \<noteq> name \<Longrightarrow> map_of gs k = map_of fs k"
  by (auto simp: fill_field_def map_of_set_field split: if_splits)

lemma merged_peer_id:
  assumes "mergePeerFields fs d tags = Some q" "peer_id (JObj fs) = Some i" "i \<noteq> []"
  shows "peer_id q = Some i"
proof -
  obtain j f1 f2 f3 f4 where j: "text_or_empty (or_else (map_of fs ''id'') (field d ''id'')) = Some j"
    and f: "fill_field ''username'' (field_or d ''username'' ''user'') (set_field ''id'' (JStr j) fs) = Some f1"
      "fill_field ''hostname'' (field d ''hostname'') f1 = Some f2"
      "fill_field ''alias'' (field_or d ''display_name'' ''note'') f2 = Some f3"
      "fill_field ''platform'' (field_or d ''platform'' ''os'') f3 = Some f4"
    and q: "q = JObj (set_field ''tags'' (JArr (map JStr tags)) f4)"
    using assms(1) by (auto simp: mergePeerFields_def Option.bind_eq_Some_conv)
  have "truthy (map_of fs ''id'')"
  proof (rule ccontr)
    assume "\<not> truthy (map_of fs ''id'')"
    then show False using assms(2,3) by (simp add: peer_id_def field_def text_or_empty_def or_else_def js_trim_def)
  qed
  then have "js_trim j = i" using j assms(2) by (simp add: peer_id_def field_def text_or_empty_def or_else_def)
  moreover have "map_of f4 ''id'' = Some (JStr j)"
    using f [THEN fill_field_keeps, of "''id''"] by (simp add: map_of_set_field)
  ultimately show ?thesis using q
    by (auto simp: peer_id_def field_def map_of_set_field text_or_empty_def or_else_def truthy_def js_trim_def)
qed

lemma peer_index_some: "peer_index i ps = Some k \<Longrightarrow> k < length ps \<and> peer_id (ps ! k) = Some i"
proof -
  let ?ks = "filter (\<lambda>k. peer_id (ps ! k) = Some i) [0..<length ps]"
  assume "peer_index i ps = Some k"
  then have "?ks \<noteq> []" "k = last ?ks" by (auto simp: peer_index_def split: list.splits)
  then have "k \<in> set ?ks" by (metis last_in_set)
  then show ?thesis by simp
qed

lemma merge_device_ids:
  assumes "merge_device parse False d (ps, tags) = Some (qs, tags')"
  shows "map peer_id qs = map peer_id ps"
proof -
  obtain i where i: "peer_id d = Some i" using assms by (auto simp: merge_device_def Option.bind_eq_Some_conv)
  show ?thesis
  proof (cases "i = [] \<or> peer_index i ps = None")
    case True
    then show ?thesis using assms i by (auto simp: merge_device_def split: if_splits)
  next
    case False
    then obtain k where k: "peer_index i ps = Some k" "i \<noteq> []" by auto
    note at = peer_index_some [OF k(1)]
    obtain fs where fs: "ps ! k = JObj fs"
      using at k(2) by (cases "ps ! k") (auto simp: peer_id_def field_def text_or_empty_def or_else_def truthy_def js_trim_def)
    from assms i k fs obtain q t where "mergePeerFields fs d t = Some q" "qs = ps[k := q]"
      by (auto simp: merge_device_def Option.bind_eq_Some_conv parse_object_def)
    then show ?thesis using merged_peer_id [of fs d t q i] at fs k(2) by (simp add: map_update list_update_same_conv)
  qed
qed

lemma merge_devices_ids:
  "merge_devices parse False ds (ps, tags) = Some (qs, tags') \<Longrightarrow> map peer_id qs = map peer_id ps"
proof (induction ds arbitrary: ps tags)
  case (Cons d ds)
  then obtain ps1 tags1 where "merge_device parse False d (ps, tags) = Some (ps1, tags1)"
      "merge_devices parse False ds (ps1, tags1) = Some (qs, tags')"
    by (auto simp: Option.bind_eq_Some_conv)
  then show ?case using Cons(1) merge_device_ids by metis
qed simp

lemma merged_ids:
  assumes "mergeAddressBookData parse data devices False = Some ab" "peer \<in> set (ab_peers ab)"
  shows "\<exists>i B. peer_id peer = Some i \<and> i \<noteq> [] \<and> banned_ids devices = Some B \<and> i \<notin> B"
proof -
  from assms(1) obtain ab0 where a: "parseAddressBookData parse data = Some ab0"
    by (auto simp: mergeAddressBookData_def Option.bind_eq_Some_conv)
  with assms(1) obtain B where B: "banned_ids devices = Some B"
    by (auto simp: mergeAddressBookData_def Option.bind_eq_Some_conv)
  with a assms(1) obtain kept where kept: "filter_opt (keeps_unbanned B) (ab_peers ab0) = Some kept"
    by (auto simp: mergeAddressBookData_def Option.bind_eq_Some_conv)
  with a B assms(1) obtain ps tags where prep: "prepare_peers parse kept (ab_tags ab0) = Some (ps, tags)"
    by (auto simp: mergeAddressBookData_def Option.bind_eq_Some_conv)
  with a B kept assms(1) obtain ps' tags' where mg: "merge_devices parse False devices (ps, tags) = Some (ps', tags')"
      "ab = ab0\<lparr>ab_peers := ps', ab_tags := tags'\<rparr>"
    by (auto simp: mergeAddressBookData_def)
  have m: "banned_ids devices = Some B" "filter_opt (keeps_unbanned B) (ab_peers ab0) = Some kept"
      "prepare_peers parse kept (ab_tags ab0) = Some (ps, tags)"
      "merge_devices parse False devices (ps, tags) = Some (ps', tags')" "ab_peers ab = ps'"
    using B kept prep mg by simp_all
  have "map peer_id ps' = map peer_id kept"
    using prepare_peers_ids [OF m(3)] merge_devices_ids [OF m(4)] by simp
  then have "peer_id peer \<in> peer_id ` set kept" using assms(2) m(5) by (metis imageI list.set_map)
  then obtain p where p: "p \<in> set kept" "peer_id peer = peer_id p" by auto
  then have "keeps_unbanned B p = Some True" using filter_opt_all [OF m(2)] by simp
  then show ?thesis using p(2) m(1) by (auto simp: keeps_unbanned_def split: if_splits)
qed

lemma push_strings: "\<exists>us. push_items (map JStr ts) acc = Some us"
  by (induction ts arbitrary: acc) (auto simp: text_or_empty_def or_else_def truthy_def split: option.splits)

lemma delete_field_none: "map_of (delete_field name fs) name = None" "name \<noteq> k \<Longrightarrow> map_of (delete_field name fs) k = map_of fs k"
  by (induction fs) (auto simp: delete_field_def)

lemma parse_ab_object:
  assumes "map_of (ab_rest ab) ''peers'' = None" "map_of (ab_rest ab) ''tags'' = None"
  shows "\<exists>ab'. parseAddressBookData parse (Some (ab_object ab)) = Some ab' \<and> ab_peers ab' = ab_peers ab"
proof -
  obtain us where "push_items (map JStr (ab_tags ab)) [] = Some us" using push_strings by blast
  then show ?thesis using assms
    by (auto simp: parseAddressBookData_def ab_object_def parse_object_def normalize_tags_def raw_tags_def truthy_def map_add_def)
qed

lemma parsed_rest:
  "parseAddressBookData parse data = Some ab \<Longrightarrow> map_of (ab_rest ab) ''peers'' = None \<and> map_of (ab_rest ab) ''tags'' = None"
  by (auto simp: parseAddressBookData_def Let_def delete_field_none)

lemma merged_rest:
  assumes "mergeAddressBookData parse data devices b = Some ab"
  shows "map_of (ab_rest ab) ''peers'' = None \<and> map_of (ab_rest ab) ''tags'' = None"
proof -
  obtain ab0 where a: "parseAddressBookData parse data = Some ab0" "ab_rest ab = ab_rest ab0"
    using assms by (auto simp: mergeAddressBookData_def Option.bind_eq_Some_conv)
  then show ?thesis using parsed_rest [OF a(1)] by simp
qed

text \<open>The identifiers of the devices that the server knows, when all of them are texts.\<close>

definition text_id :: "json \<Rightarrow> bool" where
  "text_id d = (case field d ''id'' of Some (JStr s) \<Rightarrow> True | _ \<Rightarrow> False)"

definition device_id :: "json \<Rightarrow> string" where
  "device_id d = (case field d ''id'' of Some (JStr s) \<Rightarrow> js_trim s | _ \<Rightarrow> [])"

lemma known_ids:
  "\<forall>d \<in> set ds. text_id d \<Longrightarrow>
     those (map (\<lambda>i. map_option js_trim (text_or_empty (Some i))) (map (\<lambda>d. case field d ''id'' of Some v \<Rightarrow> v | None \<Rightarrow> JNull) ds))
       = Some (map device_id ds)"
proof (induction ds)
  case (Cons d ds)
  then obtain s where "field d ''id'' = Some (JStr s)" by (auto simp: text_id_def split: option.splits json.splits)
  then show ?case using Cons by (simp add: device_id_def text_or_empty_def or_else_def truthy_def)
qed simp

lemma scoped_peers:
  assumes "filterAddressBookPeersByScope parse (Some (ab_object ab)) (Some visible)
      (map (\<lambda>d. case field d ''id'' of Some v \<Rightarrow> v | None \<Rightarrow> JNull) ds) = Some ab'"
    and "map_of (ab_rest ab) ''peers'' = None" "map_of (ab_rest ab) ''tags'' = None" and "\<forall>d \<in> set ds. text_id d"
    and "peer \<in> set (ab_peers ab')"
  shows "peer \<in> set (ab_peers ab) \<and> (\<exists>i. peer_id peer = Some i \<and> (i \<in> device_id ` set ds \<longrightarrow> i \<in> visible))"
proof -
  obtain ab1 where ab1: "parseAddressBookData parse (Some (ab_object ab)) = Some ab1" "ab_peers ab1 = ab_peers ab"
    using parse_ab_object [OF assms(2,3)] by blast
  then obtain ps where ps: "filter_opt (keeps_peer (device_id ` set ds - {[]}) visible) (ab_peers ab) = Some ps" "ab_peers ab' = ps"
    using assms(1) known_ids [OF assms(4)] by (auto simp: filterAddressBookPeersByScope_def)
  from filter_opt_all [OF ps(1)] assms(5) ps(2) have
    "keeps_peer (device_id ` set ds - {[]}) visible peer = Some True" "peer \<in> set (ab_peers ab)" by auto
  then show ?thesis by (auto simp: keeps_peer_def split: if_splits)
qed

lemma scope_filter_returns:
  assumes "map_of (ab_rest ab) ''peers'' = None" "map_of (ab_rest ab) ''tags'' = None" "\<forall>d \<in> set ds. text_id d"
    and "\<And>p. p \<in> set (ab_peers ab) \<Longrightarrow> peer_id p \<noteq> None"
  shows "\<exists>ab'. filterAddressBookPeersByScope parse (Some (ab_object ab)) (Some visible)
      (map (\<lambda>d. case field d ''id'' of Some v \<Rightarrow> v | None \<Rightarrow> JNull) ds) = Some ab'"
proof -
  obtain ab1 where ab1: "parseAddressBookData parse (Some (ab_object ab)) = Some ab1" "ab_peers ab1 = ab_peers ab"
    using parse_ab_object [OF assms(1,2)] by blast
  have "keeps_peer K visible p \<noteq> None" if "p \<in> set (ab_peers ab)" for K p
    using assms(4) [OF that] by (cases "is_object p") (simp_all add: keeps_peer_def)
  then obtain ps where "filter_opt (keeps_peer (device_id ` set ds - {[]}) visible) (ab_peers ab) = Some ps"
    using filter_opt_total [of "ab_peers ab" "keeps_peer (device_id ` set ds - {[]}) visible"] by auto
  then show ?thesis using ab1 known_ids [OF assms(3)] by (simp add: filterAddressBookPeersByScope_def)
qed

text \<open>The address book of a client whose role is not \<open>pro\<close>, relative to the device list and to
  the scope handed in. When the scope of the user is known and restricted, every peer of the book has an identifier
  that is not marked banned or deleted in that list; and if the server knows a device of that identifier it is one
  that the user may see, whatever the stored book contained. The identifiers of the server's devices are texts.
  Devices that the list does not hold any more are not left out, and the role \<open>pro\<close> gets the book as it
  is stored.\<close>

theorem address_book_in_scope:
  assumes "buildSyncedAddressBook parse role abData devices (Some (allDevices, Some visible)) = Some (Synced ab)"
    and "\<forall>d \<in> set allDevices. text_id d" and "peer \<in> set (ab_peers ab)"
  shows "\<exists>i B. peer_id peer = Some i \<and> i \<noteq> [] \<and> banned_ids devices = Some B \<and> i \<notin> B
    \<and> (i \<in> device_id ` set allDevices \<longrightarrow> i \<in> visible)"
proof -
  let ?known = "map (\<lambda>d. case field d ''id'' of Some v \<Rightarrow> v | None \<Rightarrow> JNull) allDevices"
  from assms(1) have "role \<noteq> ''pro''" by (auto simp: buildSyncedAddressBook_def)
  with assms(1) obtain m where m: "mergeAddressBookData parse (Some (JStr abData)) devices False = Some m"
    by (auto simp: buildSyncedAddressBook_def Option.bind_eq_Some_conv)
  note rest = merged_rest [OF m]
  have ids: "peer_id p \<noteq> None" if "p \<in> set (ab_peers m)" for p using merged_ids [OF m that] by auto
  obtain ab' where f: "filterAddressBookPeersByScope parse (Some (ab_object m)) (Some visible) ?known = Some ab'"
    using scope_filter_returns [OF rest [THEN conjunct1] rest [THEN conjunct2] assms(2) ids] by blast
  then have "ab = ab'" using assms(1) m \<open>role \<noteq> ''pro''\<close> by (simp add: buildSyncedAddressBook_def)
  then have p: "peer \<in> set (ab_peers m)" "\<exists>i. peer_id peer = Some i \<and> (i \<in> device_id ` set allDevices \<longrightarrow> i \<in> visible)"
    using scoped_peers [OF f rest [THEN conjunct1] rest [THEN conjunct2] assms(2)] assms(3) by auto
  then show ?thesis using merged_ids [OF m p(1)] by auto
qed

text \<open>When the lookup of the scope fails, the book goes out with every peer it has.\<close>

theorem address_book_without_scope:
  "role \<noteq> ''pro'' \<Longrightarrow> buildSyncedAddressBook parse role abData devices None
     = map_option Synced (mergeAddressBookData parse (Some (JStr abData)) devices False)"
  by (cases "mergeAddressBookData parse (Some (JStr abData)) devices False") (simp_all add: buildSyncedAddressBook_def)

text \<open>An example: a stored book with two peers of which the user may see one.\<close>

definition book_device :: "string \<Rightarrow> json" where
  "book_device i = JObj [(''id'', JStr i)]"

definition demo_parse :: "string \<Rightarrow> json option" where
  "demo_parse s = Some (JObj [(''peers'', JArr [book_device ''1'', book_device ''2'', book_device ''own''])])"

definition demo_book :: address_book where
  "demo_book = \<lparr>ab_peers = [JObj [(''id'', JStr ''1''), (''tags'', JArr [])], JObj [(''id'', JStr ''own''), (''tags'', JArr [])]],
     ab_tags = [], ab_rest = []\<rparr>"

lemma demo_synced:
  "buildSyncedAddressBook demo_parse ''user'' ''book'' [book_device ''1''] (Some ([book_device ''1'', book_device ''2''], Some {''1''}))
     = Some (Synced demo_book)"
  by code_simp

theorem address_book_in_scope_witness:
  "\<exists>i. peer_id (hd (ab_peers demo_book)) = Some i
     \<and> (i \<in> device_id ` set [book_device ''1'', book_device ''2''] \<longrightarrow> i \<in> {''1''})"
proof -
  have "\<forall>d \<in> set [book_device ''1'', book_device ''2'']. text_id d" by (simp add: book_device_def text_id_def field_def)
  from address_book_in_scope [OF demo_synced this, of "hd (ab_peers demo_book)"] show ?thesis
    by (auto simp: demo_book_def)
qed

text \<open>With \<open>includeDevices\<close>, which is the default, a banned device is taken out and then added again.\<close>

theorem banned_device_added_back:
  "map_option ab_peers (mergeAddressBookData demo_parse None [JObj [(''id'', JStr ''9''), (''banned'', JBool True)]] True)
     = Some [JObj [(''id'', JStr ''9''), (''tags'', JArr [])]]"
  by code_simp


section \<open>A renaming reaches every device with the tag\<close>

lemma each_device_counts:
  assumes "each_device f ds r = Some r'"
    and "\<And>d q q'. f d q = Some q' \<Longrightarrow> tg_updated q' + tg_skipped q' = Suc (tg_updated q + tg_skipped q)"
  shows "tg_updated r' + tg_skipped r' = tg_updated r + tg_skipped r + length ds"
  using assms
proof (induction ds arbitrary: r)
  case (Cons d ds)
  then obtain q where "f d r = Some q" "each_device f ds q = Some r'" by (auto simp: Option.bind_eq_Some_conv)
  then show ?case using Cons by fastforce
qed simp

lemma store_tags_counts: "tg_updated (store_tags s i t r) + tg_skipped (store_tags s i t r) = Suc (tg_updated r + tg_skipped r)"
  by (auto simp: store_tags_def split: option.split prod.split bool.split)

theorem rename_counts_targets:
  assumes "renameTagAcrossScope parse setPeerTags updateDeviceGroup order devices groups a b w = Some (Renamed r n)"
    and "tag_targets parse (sanitizeTag a) devices = Some targets" and "length (order targets) = length targets"
  shows "tg_updated r + tg_skipped r = length targets"
proof -
  let ?f = "rename_device parse setPeerTags (sanitizeTag a) (sanitizeTag b)"
  obtain q where q: "each_device ?f (order targets) \<lparr>tg_updated = 0, tg_skipped = 0, tg_errors = [], tg_world = w\<rparr> = Some q"
    "tg_updated r = tg_updated q" "tg_skipped r = tg_skipped q"
    using assms(1,2) by (auto simp: renameTagAcrossScope_def Let_def split: if_splits)
  have "tg_updated s' + tg_skipped s' = Suc (tg_updated s + tg_skipped s)" if "?f d s = Some s'" for d s s'
    using that store_tags_counts by (auto simp: rename_device_def)
  from each_device_counts [OF q(1) this] show ?thesis using q(2,3) assms(3) by simp
qed

end
