(* ===== verification/Scheduled_Backup.thy ===== *)
theory Scheduled_Backup
  imports Complex_Main "HOL-Library.AList" Json_Values Safe_Path Event_System
begin

text \<open>
  Scheduled backups: \<open>src/web-nodejs/services/scheduledBackupService.js\<close>.

  The state is the flag \<open>running\<close>, the stored settings and the files of the destinations, each a list of names with
  content and time in the order of \<open>readdir\<close>.  What the environment does during a run, the archive that \<open>backupService\<close>
  makes and its validation included, is an argument (\<open>run_env\<close>): a failing call is an exception.  Settings are stored
  as values; the number a JSON value converts to is an argument, \<^term>\<open>None\<close> when it is not finite.
\<close>

section \<open>Configuration\<close>

definition DEFAULT_INTERVAL_HOURS :: int where "DEFAULT_INTERVAL_HOURS = 24"
definition DEFAULT_RETENTION :: int where "DEFAULT_RETENTION = 7"
definition MIN_INTERVAL_HOURS :: int where "MIN_INTERVAL_HOURS = 1"
definition MAX_INTERVAL_HOURS :: int where "MAX_INTERVAL_HOURS = 24 * 30"
definition MAX_RETENTION :: int where "MAX_RETENTION = 365"

record backup_config =
  bc_enabled :: bool
  bc_intervalHours :: int
  bc_retentionCount :: int
  bc_is_path :: bool
  bc_destinationPath :: string

definition js_round :: "rat \<Rightarrow> int" where
  "js_round x = \<lfloor>x + 1 / 2\<rfloor>"

definition normalizeConfig :: "(json option \<Rightarrow> rat option) \<Rightarrow> json \<Rightarrow> backup_config" where
  "normalizeConfig number v =
     (let is_path = (field v ''destinationType'' = Some (JStr ''path'')) in
      \<lparr>bc_enabled = (field v ''enabled'' \<in> {Some (JBool True), Some (JStr ''true'')}),
       bc_intervalHours = (case number (field v ''intervalHours'') of
           Some x \<Rightarrow> min MAX_INTERVAL_HOURS (max MIN_INTERVAL_HOURS (js_round x)) | None \<Rightarrow> DEFAULT_INTERVAL_HOURS),
       bc_retentionCount = (case number (field v ''retentionCount'') of
           Some x \<Rightarrow> min MAX_RETENTION (max 1 (js_round x)) | None \<Rightarrow> DEFAULT_RETENTION),
       bc_is_path = is_path,
       bc_destinationPath = (case field v ''destinationPath'' of Some (JStr p) \<Rightarrow> if is_path then js_trim p else [] | _ \<Rightarrow> [])\<rparr>)"

datatype backup_error =
    DestinationRequired | DestinationNotAbsolute | DestinationIsRoot | DestinationInProject
  | AlreadyRunning | DbFailed | CreateFailed | GeneratedInvalid | StoredInvalid | DiskFailed
  | BadSmbHost | BadSmbShare

text \<open>\<open>project\<close> is the resolved directory of the application; the separator is \<open>/\<close>.\<close>

definition validateDestinationPath :: "string \<Rightarrow> string \<Rightarrow> backup_error + string" where
  "validateDestinationPath project p =
     (let input = js_trim p; resolved = resolve_abs input in
      if input = [] then Inl DestinationRequired
      else if \<not> isAbsolute input then Inl DestinationNotAbsolute
      else if resolved = ''/'' then Inl DestinationIsRoot
      else if resolved = project \<or> startsWith resolved (project @ ''/'') then Inl DestinationInProject
      else Inr resolved)"

definition resolveDestination :: "string \<Rightarrow> string \<Rightarrow> backup_config \<Rightarrow> backup_error + string" where
  "resolveDestination project dflt c =
     (if \<not> bc_is_path c then Inr dflt else validateDestinationPath project (bc_destinationPath c))"


section \<open>State\<close>

record backup_status =
  bs_lastAttemptAt :: "int option"
  bs_lastSuccessAt :: "int option"
  bs_lastFile :: "(string \<times> string) option"
  bs_lastSha256 :: "string option"
  bs_valid :: "bool option"
  bs_lastPruned :: "nat option"
  bs_lastError :: "backup_error option"

type_synonym stored_file = "string \<times> int"

record backup_state =
  bk_running :: bool
  bk_config :: backup_config
  bk_status :: backup_status
  bk_dirs :: "string \<Rightarrow> (string \<times> stored_file) list"

record run_env =
  e_project :: string
  e_default :: string
  e_start :: int
  e_end :: int
  e_status_read :: bool
  e_attempt_saved :: bool
  e_config_read :: bool
  e_dir_made :: bool
  e_created :: "(string \<times> string) option"
  e_valid :: "string \<Rightarrow> bool"
  e_written :: bool
  e_read_back :: bool
  e_disk :: "string \<Rightarrow> string"
  e_digest :: "string \<Rightarrow> string"
  e_sidecar_written :: bool
  e_removes :: "string \<Rightarrow> bool"
  e_stats :: "string \<Rightarrow> bool"
  e_success_saved :: bool
  e_failure_saved :: bool


section \<open>Archives\<close>

definition is_archive :: "string \<Rightarrow> bool" where
  "is_archive name =
     (startsWith name ''betterdesk-backup-'' \<and> endsWith name ''.tar.gz'' \<and> length name \<ge> 25 \<and> list_all (\<lambda>c. c \<notin> {CHR 0x0A, CHR 0x0D}) name)"

definition sidecar :: "string \<Rightarrow> string" where
  "sidecar name = name @ ''.sha256''"

text \<open>Names with their times, the newest first.  An archive that cannot be read leaves no list at all.\<close>

definition listArchives :: "(string \<Rightarrow> bool) \<Rightarrow> (string \<times> stored_file) list \<Rightarrow> (string \<times> int) list" where
  "listArchives stats dir =
     (let found = filter (\<lambda>(n, f). is_archive n) dir in
      if list_all (\<lambda>(n, f). stats n) found then sort_key (\<lambda>(n, t). - t) (map (\<lambda>(n, d, t). (n, t)) found) else [])"

text \<open>Removing an archive, then its digest; \<open>force\<close> makes a missing file no error.\<close>

definition prune_one :: "(string \<Rightarrow> bool) \<Rightarrow> string \<Rightarrow> (string \<times> stored_file) list \<times> string list \<Rightarrow> (string \<times> stored_file) list \<times> string list" where
  "prune_one removes n st =
     (case st of (dir, deleted) \<Rightarrow>
        if \<not> removes n then (dir, deleted)
        else let dir1 = AList.delete n dir in
          if \<not> removes (sidecar n) then (dir1, deleted) else (AList.delete (sidecar n) dir1, deleted @ [n]))"

definition prune :: "(string \<Rightarrow> bool) \<Rightarrow> (string \<Rightarrow> bool) \<Rightarrow> int \<Rightarrow> (string \<times> stored_file) list \<Rightarrow> (string \<times> stored_file) list \<times> string list" where
  "prune stats removes retentionCount dir =
     fold (prune_one removes) (map fst (drop (nat retentionCount) (listArchives stats dir))) (dir, [])"


section \<open>A run\<close>

record backup_result =
  br_file :: "string \<times> string"
  br_sha256 :: string
  br_deleted :: "string list"

text \<open>What happens inside the \<open>try\<close>: the state, and the error or the result.\<close>

definition backup_body :: "run_env \<Rightarrow> backup_status \<Rightarrow> backup_state \<Rightarrow> (backup_error + backup_result) \<times> backup_state" where
  "backup_body E status s =
     (if \<not> e_config_read E then (Inl DbFailed, s)
      else case resolveDestination (e_project E) (e_default E) (bk_config s) of
        Inl e \<Rightarrow> (Inl e, s)
      | Inr dest \<Rightarrow>
         if \<not> e_dir_made E then (Inl DiskFailed, s)
         else
         (case e_created E of
            None \<Rightarrow> (Inl CreateFailed, s)
          | Some (name, buffer) \<Rightarrow>
              if \<not> e_valid E buffer then (Inl GeneratedInvalid, s)
              else if \<not> e_written E then (Inl DiskFailed, s)
              else
                let persisted = e_disk E buffer;
                    dir1 = AList.update name (persisted, e_end E) (bk_dirs s dest) in
                if \<not> e_read_back E then (Inl DiskFailed, s\<lparr>bk_dirs := (bk_dirs s)(dest := dir1)\<rparr>)
                else if \<not> e_valid E persisted then
                  (if \<not> e_removes E name then (Inl DiskFailed, s\<lparr>bk_dirs := (bk_dirs s)(dest := dir1)\<rparr>)
                   else (Inl StoredInvalid, s\<lparr>bk_dirs := (bk_dirs s)(dest := AList.delete name dir1)\<rparr>))
                else if \<not> e_sidecar_written E then (Inl DiskFailed, s\<lparr>bk_dirs := (bk_dirs s)(dest := dir1)\<rparr>)
                else
                  let digest = e_digest E persisted;
                      dir2 = AList.update (sidecar name) (digest @ ''  '' @ name @ [CHR 0x0A], e_end E) dir1;
                      (dir3, deleted) = prune (e_stats E) (e_removes E) (bc_retentionCount (bk_config s)) dir2;
                      s3 = s\<lparr>bk_dirs := (bk_dirs s)(dest := dir3)\<rparr> in
                  if \<not> e_success_saved E then (Inl DbFailed, s3)
                  else
                    (Inr \<lparr>br_file = (dest, name), br_sha256 = digest, br_deleted = deleted\<rparr>,
                     s3\<lparr>bk_status := status\<lparr>bs_lastSuccessAt := Some (e_end E), bs_lastFile := Some (dest, name),
                          bs_lastSha256 := Some digest, bs_valid := Some True, bs_lastPruned := Some (length deleted),
                          bs_lastError := None\<rparr>\<rparr>)))"

text \<open>\<open>createScheduledBackup\<close> after it has set the flag.\<close>

definition finish_backup :: "run_env \<Rightarrow> backup_state \<Rightarrow> (backup_error + backup_result) \<times> backup_state" where
  "finish_backup E s =
     (if \<not> e_status_read E then (Inl DbFailed, s)
      else
        let status = (bk_status s)\<lparr>bs_lastAttemptAt := Some (e_start E), bs_lastError := None\<rparr> in
        if \<not> e_attempt_saved E then (Inl DbFailed, s)
        else
          (case backup_body E status (s\<lparr>bk_status := status\<rparr>) of
             (Inr r, s') \<Rightarrow> (Inr r, s'\<lparr>bk_running := False\<rparr>)
           | (Inl e, s') \<Rightarrow>
               if e_failure_saved E
               then (Inl e, s'\<lparr>bk_status := status\<lparr>bs_valid := Some False, bs_lastError := Some e\<rparr>, bk_running := False\<rparr>)
               else (Inl DbFailed, s'\<lparr>bk_running := False\<rparr>)))"

definition begin_backup :: "backup_state \<Rightarrow> backup_error + backup_state" where
  "begin_backup s = (if bk_running s then Inl AlreadyRunning else Inr (s\<lparr>bk_running := True\<rparr>))"

definition createScheduledBackup :: "run_env \<Rightarrow> backup_state \<Rightarrow> (backup_error + backup_result) \<times> backup_state" where
  "createScheduledBackup E s =
     (case begin_backup s of Inl e \<Rightarrow> (Inl e, s) | Inr s' \<Rightarrow> finish_backup E s')"

datatype due = DueNow | SkipRunning | SkipDisabled | SkipNotDue

definition runIfDue :: "int \<Rightarrow> backup_state \<Rightarrow> due" where
  "runIfDue now s =
     (if bk_running s then SkipRunning
      else if \<not> bc_enabled (bk_config s) then SkipDisabled
      else case bs_lastAttemptAt (bk_status s) of
             None \<Rightarrow> DueNow
           | Some t \<Rightarrow> if now - t \<ge> bc_intervalHours (bk_config s) * 60 * 60 * 1000 then DueNow else SkipNotDue)"

definition saveConfig :: "string \<Rightarrow> (json option \<Rightarrow> rat option) \<Rightarrow> json \<Rightarrow> backup_state \<Rightarrow> backup_error + backup_state" where
  "saveConfig project number v s =
     (let c = normalizeConfig number v in
      case (if bc_is_path c then validateDestinationPath project (bc_destinationPath c) else Inr []) of
        Inl e \<Rightarrow> Inl e
      | Inr _ \<Rightarrow> Inr (s\<lparr>bk_config := c\<rparr>))"


section \<open>SMB shares\<close>

record smb_details =
  smb_host :: string
  smb_share :: string
  smb_domain :: string
  smb_username :: string
  smb_password :: string
  smb_mountPath :: string

definition smb_char :: "string \<Rightarrow> char \<Rightarrow> bool" where
  "smb_char extra c = (is_alnum c \<or> c \<in> set extra)"

text \<open>The fields as texts, missing ones empty.\<close>

definition validateSmbDetails :: "smb_details \<Rightarrow> backup_error + smb_details" where
  "validateSmbDetails v =
     (let host = js_trim (smb_host v); share = js_trim (smb_share v) in
      if host = [] \<or> \<not> list_all (smb_char ''._-'') host then Inl BadSmbHost
      else if share = [] \<or> \<not> list_all (smb_char ''$._-'') share then Inl BadSmbShare
      else Inr \<lparr>smb_host = host, smb_share = share, smb_domain = take 128 (js_trim (smb_domain v)),
                smb_username = take 128 (js_trim (smb_username v)), smb_password = take 512 (smb_password v),
                smb_mountPath = take 1024 (js_trim (smb_mountPath v))\<rparr>)"

definition mask_password :: "smb_details \<Rightarrow> smb_details" where
  "mask_password v = v\<lparr>smb_password := (if smb_password v \<noteq> [] then ''********'' else [])\<rparr>"

definition empty_smb :: smb_details where
  "empty_smb = \<lparr>smb_host = [], smb_share = [], smb_domain = [], smb_username = [], smb_password = [], smb_mountPath = []\<rparr>"

definition getSmbSettings :: "smb_details option \<Rightarrow> smb_details" where
  "getSmbSettings stored = mask_password (case stored of Some v \<Rightarrow> v | None \<Rightarrow> empty_smb)"

definition saveSmbSettings :: "smb_details \<Rightarrow> smb_details option \<Rightarrow> backup_error + smb_details \<times> smb_details option" where
  "saveSmbSettings v stored =
     (case validateSmbDetails v of
        Inl e \<Rightarrow> Inl e
      | Inr input \<Rightarrow>
          let input' = (if smb_password input = ''********''
                        then input\<lparr>smb_password := (case stored of Some w \<Rightarrow> smb_password w | None \<Rightarrow> [])\<rparr> else input)
          in Inr (mask_password input', Some input'))"

definition smb_arguments :: "smb_details \<Rightarrow> string list" where
  "smb_arguments smb =
     (let auth = (if smb_username smb \<noteq> []
                  then (if smb_domain smb \<noteq> [] then smb_domain smb @ [CHR 0x5C] else []) @ smb_username smb @ ''%'' @ smb_password smb
                  else [])
      in [''//'' @ smb_host smb @ ''/'' @ smb_share smb, if auth \<noteq> [] then ''-U'' else ''-N'']
         @ (if auth \<noteq> [] then [auth] else []) @ [''-c'', ''dir''])"


section \<open>Settings\<close>

theorem config_in_bounds:
  "let c = normalizeConfig number v in 1 \<le> bc_intervalHours c \<and> bc_intervalHours c \<le> 720
     \<and> 1 \<le> bc_retentionCount c \<and> bc_retentionCount c \<le> 365 \<and> (\<not> bc_is_path c \<longrightarrow> bc_destinationPath c = [])"
  by (auto simp: normalizeConfig_def Let_def MIN_INTERVAL_HOURS_def MAX_INTERVAL_HOURS_def MAX_RETENTION_def
      DEFAULT_INTERVAL_HOURS_def DEFAULT_RETENTION_def split: option.split json.split)

text \<open>Saving the settings that were read, with the password masked, keeps the stored password.\<close>

theorem masked_password_kept:
  assumes "saveSmbSettings (getSmbSettings (Some w)) (Some w) = Inr (shown, Some w')"
  shows "smb_password w' = smb_password w"
  using assms
  by (auto simp: saveSmbSettings_def getSmbSettings_def mask_password_def validateSmbDetails_def Let_def split: if_splits)


section \<open>What a successful run leaves\<close>

lemma sidecar_no_archive: "\<not> is_archive (sidecar n)"
proof
  assume "is_archive (sidecar n)"
  then obtain r where "n @ ''.sha256'' = r @ ''.tar.gz''" by (auto simp: is_archive_def sidecar_def endsWith_iff)
  then have "last (n @ ''.sha256'') = last (r @ ''.tar.gz'')" by simp
  then show False by simp
qed

lemma prune_fold:
  assumes "\<And>n. removes n"
  shows "fold (prune_one removes) ns (dir, del) = (filter (\<lambda>(n, f). n \<notin> set ns \<union> sidecar ` set ns) dir, del @ ns)"
proof (induction ns arbitrary: dir del)
  case (Cons n ns)
  have "prune_one removes n (dir, del) = (filter (\<lambda>(m, f). m \<notin> {n, sidecar n}) dir, del @ [n])"
    using assms by (auto simp: prune_one_def AList.delete_eq case_prod_unfold Let_def intro: filter_cong)
  then show ?case using Cons by (auto simp: case_prod_unfold intro: filter_cong)
qed simp

lemma set_listArchives:
  "(\<And>n. stats n) \<Longrightarrow> set (listArchives stats dir) = {(n, t). is_archive n \<and> (\<exists>d. (n, d, t) \<in> set dir)}"
  by (force simp: listArchives_def list_all_iff)

lemma sorted_listArchives: "sorted_wrt (\<lambda>a b. snd b \<le> snd a) (listArchives stats dir)"
proof -
  have "sorted (map (\<lambda>(n, t). - t) (sort_key (\<lambda>(n, t). - t) xs))" for xs :: "(string \<times> int) list" by (rule sorted_sort_key)
  then have "sorted_wrt (\<lambda>a b. snd b \<le> snd a) (sort_key (\<lambda>(n, t). - t) xs)" for xs :: "(string \<times> int) list"
    by (simp add: sorted_wrt_map case_prod_unfold)
  then show ?thesis by (simp add: listArchives_def Let_def)
qed

lemma distinct_listArchives:
  assumes "distinct (map fst dir)"
  shows "distinct (map fst (listArchives stats dir))"
proof -
  have "map fst (map (\<lambda>(n, d, t). (n, t)) (filter (\<lambda>(n, f). is_archive n) dir)) = map fst (filter (\<lambda>(n, f). is_archive n) dir)"
    by (simp add: case_prod_unfold)
  then have "distinct (map fst (map (\<lambda>(n, d, t). (n, t)) (filter (\<lambda>(n, f). is_archive n) dir)))"
    using distinct_map_filter [OF assms] by metis
  then have "distinct (map fst (sort_key (\<lambda>(n, t). - t) (map (\<lambda>(n, d, t). (n, t)) (filter (\<lambda>(n, f). is_archive n) dir))))"
    by (metis (no_types, lifting) distinct_map distinct_sort set_sort)
  then show ?thesis by (simp add: listArchives_def Let_def)
qed

lemma listArchives_filter:
  assumes "\<And>n. stats n"
  shows "listArchives stats (filter (\<lambda>(n, f). P n) dir) = filter (\<lambda>(n, t). P n) (listArchives stats dir)"
  using assms
  by (simp add: listArchives_def Let_def list_all_iff filter_sort filter_map o_def case_prod_unfold conj_commute)

lemma listArchives_ignores:
  assumes "\<And>n. stats n" "\<And>n. \<not> P n \<Longrightarrow> \<not> is_archive n"
  shows "listArchives stats (filter (\<lambda>(n, f). P n) dir) = listArchives stats dir"
proof -
  have "filter (\<lambda>(n, t). P n) (listArchives stats dir) = listArchives stats dir"
    using set_listArchives [of stats dir, OF assms(1)] assms(2) by (auto simp: filter_id_conv)
  then show ?thesis using listArchives_filter [of stats P dir, OF assms(1)] by simp
qed

lemma filter_not_dropped: "distinct (map fst L) \<Longrightarrow> filter (\<lambda>(n, t). n \<notin> fst ` set (drop k L)) L = take k L"
proof -
  assume d: "distinct (map fst L)"
  have "distinct (map fst (take k L @ drop k L))" using d by simp
  then have "fst ` set (take k L) \<inter> fst ` set (drop k L) = {}" by (simp only: map_append distinct_append set_map)
  then have "filter (\<lambda>(n, t). n \<notin> fst ` set (drop k L)) (take k L) = take k L"
    by (force simp: filter_id_conv case_prod_unfold)
  moreover have "filter (\<lambda>(n, t). n \<notin> fst ` set (drop k L)) (drop k L) = []" by (force simp: filter_empty_conv)
  ultimately have "filter (\<lambda>(n, t). n \<notin> fst ` set (drop k L)) (take k L @ drop k L) = take k L" by (simp only: filter_append append_Nil2)
  then show ?thesis by simp
qed

text \<open>Pruning leaves the newest archives.\<close>

lemma pruned_archives:
  assumes "\<And>n. stats n" "\<And>n. removes n" "distinct (map fst dir)"
  shows "listArchives stats (fst (prune stats removes k dir)) = take (nat k) (listArchives stats dir)"
proof -
  let ?L = "listArchives stats dir" and ?P = "\<lambda>n. n \<notin> fst ` set (drop (nat k) (listArchives stats dir))"
  have "listArchives stats (fst (prune stats removes k dir))
      = listArchives stats (filter (\<lambda>(n, f). n \<notin> sidecar ` fst ` set (drop (nat k) ?L)) (filter (\<lambda>(n, f). ?P n) dir))"
    unfolding prune_def prune_fold [OF assms(2)] by (auto simp: case_prod_unfold conj_commute intro: arg_cong filter_cong)
  also have "\<dots> = listArchives stats (filter (\<lambda>(n, f). ?P n) dir)"
    by (rule listArchives_ignores [OF assms(1)]) (auto simp: sidecar_no_archive)
  also have "\<dots> = filter (\<lambda>(n, t). ?P n) ?L" by (rule listArchives_filter [OF assms(1)])
  also have "\<dots> = take (nat k) ?L" by (rule filter_not_dropped [OF distinct_listArchives [OF assms(3)]])
  finally show ?thesis .
qed


lemma pruned_dir:
  assumes "\<And>n. removes n"
  shows "fst (prune stats removes k dir) =
    (let gone = fst ` set (drop (nat k) (listArchives stats dir)) in filter (\<lambda>(n, f). n \<notin> gone \<union> sidecar ` gone) dir)"
  unfolding prune_def prune_fold [OF assms] Let_def by (simp add: image_image)

lemma map_of_filter_key: "map_of (filter (\<lambda>(n, f). P n) xs) k = (if P k then map_of xs k else None)"
  by (induction xs) auto

lemma newest_in_take:
  assumes "sorted_wrt (\<lambda>a b. snd b \<le> snd a) L" "(n, t :: int) \<in> set L" "\<And>m u. (m, u) \<in> set L \<Longrightarrow> m \<noteq> n \<Longrightarrow> u < t" "0 < k"
  shows "n \<in> fst ` set (take k L)"
proof (cases L)
  case (Cons a L')
  have "fst a = n"
  proof (rule ccontr)
    assume other: "fst a \<noteq> n"
    then have "snd a < t" using assms(3) [of "fst a" "snd a"] Cons by simp
    moreover have "(n, t) \<in> set L'" using assms(2) Cons other by auto
    then have "t \<le> snd a" using assms(1) Cons by auto
    ultimately show False by simp
  qed
  then show ?thesis using Cons assms(4) by (cases k) auto
qed (use assms(2) in simp)

lemma newest_survives:
  assumes "\<And>n. stats n" "\<And>n. removes n" "distinct (map fst dir)" "0 < k"
    and new: "is_archive n" "(n, d, t) \<in> set dir"
    and older: "\<And>m e u. is_archive m \<Longrightarrow> (m, e, u) \<in> set dir \<Longrightarrow> m \<noteq> n \<Longrightarrow> u < t"
  shows "map_of (fst (prune stats removes k dir)) n = map_of dir n"
    and "map_of (fst (prune stats removes k dir)) (sidecar n) = map_of dir (sidecar n)"
proof -
  let ?L = "listArchives stats dir"
  let ?gone = "fst ` set (drop (nat k) ?L)"
  have mem: "(m, u) \<in> set ?L \<longleftrightarrow> is_archive m \<and> (\<exists>e. (m, e, u) \<in> set dir)" for m u
    using set_listArchives [of stats dir, OF assms(1)] by auto
  have "n \<in> fst ` set (take (nat k) ?L)"
    using older new assms(4) by (intro newest_in_take [OF sorted_listArchives, of n t]) (auto simp: mem)
  moreover have "distinct (map fst (take (nat k) ?L @ drop (nat k) ?L))"
    using distinct_listArchives [OF assms(3), of stats] by simp
  ultimately have "n \<notin> ?gone" by (auto simp only: map_append distinct_append set_map)
  have archives: "is_archive m" if m: "m \<in> ?gone" for m
  proof -
    obtain u where "(m, u) \<in> set (drop (nat k) ?L)" using m by force
    then have "(m, u) \<in> set ?L" by (rule in_set_dropD)
    then show ?thesis by (simp add: mem)
  qed
  have side: "m = n" if m: "sidecar m = sidecar n" for m using m by (simp add: sidecar_def)
  have "n \<notin> ?gone \<union> sidecar ` ?gone"
    using \<open>n \<notin> ?gone\<close> new(1) sidecar_no_archive by blast
  moreover have "sidecar n \<notin> ?gone \<union> sidecar ` ?gone"
  proof
    assume "sidecar n \<in> ?gone \<union> sidecar ` ?gone"
    then show False
    proof
      assume "sidecar n \<in> ?gone"
      then show False using archives sidecar_no_archive by metis
    next
      assume "sidecar n \<in> sidecar ` ?gone"
      then obtain m where "sidecar n = sidecar m" "m \<in> ?gone" by (rule imageE)
      then show False using side [of m] \<open>n \<notin> ?gone\<close> by simp
    qed
  qed
  ultimately show "map_of (fst (prune stats removes k dir)) n = map_of dir n"
    and "map_of (fst (prune stats removes k dir)) (sidecar n) = map_of dir (sidecar n)"
    unfolding pruned_dir [OF assms(2)] Let_def map_of_filter_key by (simp_all only: not_False_eq_True if_True)
qed

text \<open>The directory after the archive and its digest have been written.\<close>

definition with_archive :: "string \<Rightarrow> string \<Rightarrow> string \<Rightarrow> int \<Rightarrow> (string \<times> stored_file) list \<Rightarrow> (string \<times> stored_file) list" where
  "with_archive name content digest t dir =
     AList.update (sidecar name) (digest @ ''  '' @ name @ [CHR 0x0A], t) (AList.update name (content, t) dir)"

lemma update_mem: "(m, v) \<in> set (AList.update k w xs) \<Longrightarrow> m \<noteq> k \<Longrightarrow> (m, v) \<in> set xs"
  by (induction xs) (auto split: if_splits)

lemma listArchives_update: "\<not> is_archive k \<Longrightarrow> listArchives stats (AList.update k w xs) = listArchives stats xs"
proof -
  assume "\<not> is_archive k"
  then have "filter (\<lambda>(n, f). is_archive n) (AList.update k w xs) = filter (\<lambda>(n, f). is_archive n) xs"
    by (induction xs) auto
  then show ?thesis by (simp add: listArchives_def)
qed

lemma with_archive_lookup:
  "map_of (with_archive name c d t dir) name = Some (c, t)"
  "map_of (with_archive name c d t dir) (sidecar name) = Some (d @ ''  '' @ name @ [CHR 0x0A], t)"
  by (simp_all add: with_archive_def update_conv' sidecar_def)

lemma with_archive_older:
  assumes "is_archive m" "(m, v) \<in> set (with_archive name c d t dir)" "m \<noteq> name"
  shows "(m, v) \<in> set dir"
proof -
  have "m \<noteq> sidecar name" using assms(1) sidecar_no_archive by blast
  then show ?thesis using assms(2,3) update_mem unfolding with_archive_def by metis
qed

lemma backup_body_success:
  assumes "backup_body E st s = (Inr r, s')"
  obtains name buffer dest deleted dir where "e_created E = Some (name, buffer)" "br_file r = (dest, name)"
    "e_valid E (e_disk E buffer)" "bk_running s' = bk_running s" "bs_lastFile (bk_status s') = Some (dest, name)"
    "resolveDestination (e_project E) (e_default E) (bk_config s) = Inr dest"
    "prune (e_stats E) (e_removes E) (bc_retentionCount (bk_config s))
       (with_archive name (e_disk E buffer) (e_digest E (e_disk E buffer)) (e_end E) (bk_dirs s dest)) = (dir, deleted)"
    "bk_dirs s' = (bk_dirs s)(dest := dir)"
proof -
  obtain dest where dest: "resolveDestination (e_project E) (e_default E) (bk_config s) = Inr dest"
    using assms by (cases "resolveDestination (e_project E) (e_default E) (bk_config s)") (auto simp: backup_body_def split: if_splits)
  obtain name buffer where made: "e_created E = Some (name, buffer)"
    using assms dest by (cases "e_created E") (auto simp: backup_body_def split: if_splits)
  obtain dir deleted where pruned: "prune (e_stats E) (e_removes E) (bc_retentionCount (bk_config s))
       (with_archive name (e_disk E buffer) (e_digest E (e_disk E buffer)) (e_end E) (bk_dirs s dest)) = (dir, deleted)"
    by (cases "prune (e_stats E) (e_removes E) (bc_retentionCount (bk_config s))
       (with_archive name (e_disk E buffer) (e_digest E (e_disk E buffer)) (e_end E) (bk_dirs s dest))")
  note body = assms [unfolded backup_body_def dest made Let_def, simplified, folded with_archive_def]
  have parts: "e_valid E (e_disk E buffer)" "br_file r = (dest, name)"
    "s' = s\<lparr>bk_dirs := (bk_dirs s)(dest := dir), bk_status := bk_status s'\<rparr>" "bs_lastFile (bk_status s') = Some (dest, name)"
    using body pruned by (auto split: if_splits)
  show thesis
    by (rule that [OF made parts(2) parts(1) _ parts(4) dest pruned]) (subst parts(3), simp)+
qed

lemma finish_backup_success:
  assumes "createScheduledBackup E s = (Inr r, s')"
  obtains s0 st s1 where "backup_body E st s0 = (Inr r, s1)" "s' = s1\<lparr>bk_running := False\<rparr>"
    "bk_config s0 = bk_config s" "bk_dirs s0 = bk_dirs s"
proof -
  let ?st = "(bk_status s)\<lparr>bs_lastAttemptAt := Some (e_start E), bs_lastError := None\<rparr>"
  let ?s0 = "s\<lparr>bk_running := True, bk_status := ?st\<rparr>"
  obtain res s1 where body: "backup_body E ?st ?s0 = (res, s1)" by (cases "backup_body E ?st ?s0")
  have "backup_body E ?st ?s0 = (Inr r, s1) \<and> s' = s1\<lparr>bk_running := False\<rparr>"
    using assms body
    by (cases res) (simp_all add: createScheduledBackup_def begin_backup_def finish_backup_def Let_def split: if_splits)
  then show thesis using that [of ?st ?s0 s1] by simp
qed

text \<open>C32: A backup that reports success leaves a complete archive and keeps the newest ones, when the file
  system plays along. Assume that the status of every archive in the destination can be read and that every removal
  works (the code passes over a failed removal and reports success all the same), that the retention is positive,
  the names in the destination are distinct, the new file has the name of an archive, and every file that was there
  is older than the new archive (an archive with a later time would stay, and the new one might be pruned). Then the
  archive that was created validates and is on the disk under its name, with its digest beside it; of the archives
  in the destination, the new one included, exactly the newest are left, as many as are to be kept; and no other
  destination changes.\<close>

theorem backup_keeps_newest:
  assumes run: "createScheduledBackup E s = (Inr r, s')" and place: "br_file r = (dest, name)"
    and env: "\<And>n. e_stats E n" "\<And>n. e_removes E n" "is_archive name"
    and dir: "distinct (map fst (bk_dirs s dest))" "0 < bc_retentionCount (bk_config s)"
    and clock: "\<And>m e u. (m, e, u) \<in> set (bk_dirs s dest) \<Longrightarrow> u < e_end E"
  shows "\<exists>buffer. e_created E = Some (name, buffer) \<and> e_valid E (e_disk E buffer)
    \<and> map_of (bk_dirs s' dest) name = Some (e_disk E buffer, e_end E)
    \<and> map_of (bk_dirs s' dest) (sidecar name) = Some (e_digest E (e_disk E buffer) @ ''  '' @ name @ [CHR 0x0A], e_end E)
    \<and> listArchives (e_stats E) (bk_dirs s' dest)
       = take (nat (bc_retentionCount (bk_config s))) (listArchives (e_stats E) (AList.update name (e_disk E buffer, e_end E) (bk_dirs s dest)))
    \<and> (\<forall>d. d \<noteq> dest \<longrightarrow> bk_dirs s' d = bk_dirs s d)"
proof -
  obtain s0 st s1 where fin: "backup_body E st s0 = (Inr r, s1)" "s' = s1\<lparr>bk_running := False\<rparr>"
      "bk_config s0 = bk_config s" "bk_dirs s0 = bk_dirs s"
    using finish_backup_success [OF run] by blast
  obtain buffer deleted after where made: "e_created E = Some (name, buffer)" and valid: "e_valid E (e_disk E buffer)"
    and pruned: "prune (e_stats E) (e_removes E) (bc_retentionCount (bk_config s))
       (with_archive name (e_disk E buffer) (e_digest E (e_disk E buffer)) (e_end E) (bk_dirs s dest)) = (after, deleted)"
    and dirs: "bk_dirs s' = (bk_dirs s)(dest := after)"
    by (rule backup_body_success [OF fin(1)]) (use fin(2,3,4) place in simp)
  let ?d2 = "with_archive name (e_disk E buffer) (e_digest E (e_disk E buffer)) (e_end E) (bk_dirs s dest)"
  have after: "bk_dirs s' dest = fst (prune (e_stats E) (e_removes E) (bc_retentionCount (bk_config s)) ?d2)"
    using pruned dirs by simp
  have uniq: "distinct (map fst ?d2)" unfolding with_archive_def by (intro distinct_update dir)
  have new: "(name, e_disk E buffer, e_end E) \<in> set ?d2" by (rule map_of_SomeD [OF with_archive_lookup(1)])
  have older: "u < e_end E" if "is_archive m" "(m, e, u) \<in> set ?d2" "m \<noteq> name" for m e u
    by (rule clock [OF with_archive_older [OF that]])
  have kept: "map_of (bk_dirs s' dest) name = map_of ?d2 name" "map_of (bk_dirs s' dest) (sidecar name) = map_of ?d2 (sidecar name)"
    unfolding after using env uniq dir(2) new older by (blast intro: newest_survives)+
  have "listArchives (e_stats E) (bk_dirs s' dest) = take (nat (bc_retentionCount (bk_config s))) (listArchives (e_stats E) ?d2)"
    unfolding after by (rule pruned_archives [OF env(1,2) uniq])
  then have "listArchives (e_stats E) (bk_dirs s' dest)
      = take (nat (bc_retentionCount (bk_config s))) (listArchives (e_stats E) (AList.update name (e_disk E buffer, e_end E) (bk_dirs s dest)))"
    by (simp only: with_archive_def listArchives_update [OF sidecar_no_archive])
  moreover have "map_of (bk_dirs s' dest) name = Some (e_disk E buffer, e_end E)"
    unfolding kept(1) by (rule with_archive_lookup)
  moreover have "map_of (bk_dirs s' dest) (sidecar name) = Some (e_digest E (e_disk E buffer) @ ''  '' @ name @ [CHR 0x0A], e_end E)"
    unfolding kept(2) by (rule with_archive_lookup)
  ultimately show ?thesis using made valid dirs by (intro exI [of _ buffer]) simp
qed

definition backup_env :: run_env where
  "backup_env = \<lparr>e_project = ''/opt/app'', e_default = ''/data/b'', e_start = 90, e_end = 100, e_status_read = True, e_attempt_saved = True,
     e_config_read = True, e_dir_made = True, e_created = Some (''betterdesk-backup-3.tar.gz'', ''abc''), e_valid = (\<lambda>b. b = ''abc''),
     e_written = True, e_read_back = True, e_disk = (\<lambda>b. b), e_digest = (\<lambda>b. ''d''), e_sidecar_written = True,
     e_removes = (\<lambda>n. True), e_stats = (\<lambda>n. True), e_success_saved = True, e_failure_saved = True\<rparr>"

definition no_status :: backup_status where
  "no_status = \<lparr>bs_lastAttemptAt = None, bs_lastSuccessAt = None, bs_lastFile = None, bs_lastSha256 = None, bs_valid = None,
     bs_lastPruned = None, bs_lastError = None\<rparr>"

definition two_backups :: backup_state where
  "two_backups = \<lparr>bk_running = False,
     bk_config = \<lparr>bc_enabled = True, bc_intervalHours = 24, bc_retentionCount = 2, bc_is_path = False, bc_destinationPath = []\<rparr>,
     bk_status = no_status,
     bk_dirs = (\<lambda>d. if d = ''/data/b'' then [(''betterdesk-backup-1.tar.gz'', ''old'', 10), (''betterdesk-backup-1.tar.gz.sha256'', ''x'', 10),
        (''betterdesk-backup-2.tar.gz'', ''mid'', 20)] else [])\<rparr>"

theorem backup_keeps_newest_witness:
  "map fst (listArchives (e_stats backup_env) (bk_dirs (snd (createScheduledBackup backup_env two_backups)) ''/data/b''))
     = [''betterdesk-backup-3.tar.gz'', ''betterdesk-backup-2.tar.gz'']"
proof -
  let ?R = "createScheduledBackup backup_env two_backups"
  let ?r = "\<lparr>br_file = (''/data/b'', ''betterdesk-backup-3.tar.gz''), br_sha256 = ''d'', br_deleted = [''betterdesk-backup-1.tar.gz'']\<rparr>"
  have run: "?R = (Inr ?r, snd ?R)"
  proof (rule prod_eqI)
    show "fst ?R = fst (Inr ?r, snd ?R)" by code_simp
  qed simp
  have "listArchives (e_stats backup_env) (bk_dirs (snd ?R) ''/data/b'')
      = take (nat (bc_retentionCount (bk_config two_backups)))
         (listArchives (e_stats backup_env) (AList.update ''betterdesk-backup-3.tar.gz'' (''abc'', 100) (bk_dirs two_backups ''/data/b'')))"
    using backup_keeps_newest [OF run, of "''/data/b''" "''betterdesk-backup-3.tar.gz''"]
    by (force simp: backup_env_def two_backups_def is_archive_def startsWith_def endsWith_def)
  moreover have "map fst (take (nat (bc_retentionCount (bk_config two_backups)))
         (listArchives (e_stats backup_env) (AList.update ''betterdesk-backup-3.tar.gz'' (''abc'', 100) (bk_dirs two_backups ''/data/b''))))
      = [''betterdesk-backup-3.tar.gz'', ''betterdesk-backup-2.tar.gz'']"
    by code_simp
  ultimately show ?thesis by simp
qed

text \<open>The flag is released by every run whose status could be read and saved; otherwise it stays set for good.\<close>

theorem backup_flag:
  "bk_running (snd (createScheduledBackup E s)) = (bk_running s \<or> \<not> e_status_read E \<or> \<not> e_attempt_saved E)"
  by (auto simp: createScheduledBackup_def begin_backup_def finish_backup_def Let_def split: sum.splits prod.splits)

theorem unread_status_stops_backups:
  assumes "\<not> bk_running s" "\<not> e_status_read E \<or> \<not> e_attempt_saved E"
  shows "fst (createScheduledBackup E s) = Inl DbFailed
    \<and> (\<forall>E'. createScheduledBackup E' (snd (createScheduledBackup E s)) = (Inl AlreadyRunning, snd (createScheduledBackup E s)))
    \<and> (\<forall>now. runIfDue now (snd (createScheduledBackup E s)) = SkipRunning)"
  using assms by (auto simp: createScheduledBackup_def begin_backup_def finish_backup_def runIfDue_def Let_def)

text \<open>A run that fails other than in saving its success removes and changes no archive but its own.\<close>

theorem failed_backup_keeps_archives:
  assumes "fst (createScheduledBackup E s) = Inl e" "e_success_saved E" "\<And>b. e_created E \<noteq> Some (n, b)" "is_archive n"
  shows "map_of (bk_dirs (snd (createScheduledBackup E s)) d) n = map_of (bk_dirs s d) n"
proof (cases "bk_running s \<or> \<not> e_status_read E \<or> \<not> e_attempt_saved E")
  case True
  then show ?thesis by (auto simp: createScheduledBackup_def begin_backup_def finish_backup_def Let_def)
next
  case False
  let ?st = "(bk_status s)\<lparr>bs_lastAttemptAt := Some (e_start E), bs_lastError := None\<rparr>"
  let ?s0 = "s\<lparr>bk_running := True, bk_status := ?st\<rparr>"
  obtain res s1 where body: "backup_body E ?st ?s0 = (res, s1)" by (cases "backup_body E ?st ?s0")
  have dirs: "bk_dirs (snd (createScheduledBackup E s)) = bk_dirs s1" and "res = Inl e \<or> (\<exists>e'. res = Inl e')"
    using assms(1) body False
    by (cases res; simp add: createScheduledBackup_def begin_backup_def finish_backup_def Let_def split: if_splits)+
  then obtain e' where res: "res = Inl e'" by blast
  have "map_of (bk_dirs s1 d) n = map_of (bk_dirs s d) n"
  proof (cases "resolveDestination (e_project E) (e_default E) (bk_config s)")
    case (Inl x)
    then show ?thesis using body by (auto simp: backup_body_def split: if_splits)
  next
    case (Inr dest)
    show ?thesis
    proof (cases "e_created E")
      case None
      then show ?thesis using body Inr by (auto simp: backup_body_def split: if_splits)
    next
      case (Some p)
      then obtain name buffer where p: "e_created E = Some (name, buffer)" "name \<noteq> n" using assms(3) by (cases p) auto
      show ?thesis using body [unfolded res backup_body_def] Inr p assms(2)
        by (auto simp: Let_def update_conv' delete_conv' split: if_splits prod.splits)
    qed
  qed
  then show ?thesis using dirs by simp
qed

end
