(* ===== verification/Api_Guards.thy ===== *)
theory Api_Guards
  imports Json_Values
begin

text \<open>
  The guards in front of the HTTP routes: the stack of the client API that faces the internet
  (\<open>middleware/wanSecurity.js\<close>), the choice of a rate limiter in the panel (\<open>middleware/rateLimiter.js\<close> and its use in
  \<open>server.js\<close>), the protection against forged requests (\<open>middleware/csrf.js\<close>), the proxy to the Go server
  (\<open>middleware/goApiProxy.js\<close>), guest links (\<open>middleware/guestAccess.js\<close>) and the headers of \<open>middleware/security.js\<close>.

  The libraries \<open>express-rate-limit\<close> and \<open>csrf-csrf\<close> are arguments.  A request has the method in capitals, as Node's
  parser gives it, and headers of lower-case names.
\<close>

record api_request =
  aq_method :: string
  aq_path :: string
  aq_base :: string
  aq_url :: string
  aq_headers :: "string \<Rightarrow> string option"
  aq_ip :: "string option"
  aq_remote :: "string option"


section \<open>The client API on the internet (wanSecurity.js)\<close>

definition ALLOWED_PATHS :: "string list" where
  "ALLOWED_PATHS =
    [''/api/login'', ''/api/logout'', ''/api/currentUser'',
     ''/api/login-options'', ''/api/oidc/auth'', ''/api/oidc/auth-query'',
     ''/api/oidc/callback'', ''/api/auth/oidc/callback'', ''/api/heartbeat'',
     ''/api/sysinfo'', ''/api/sysinfo_ver'', ''/api/telemetry/key'',
     ''/api/branding'', ''/api/devices/register'', ''/api/devices/register/status'',
     ''/api/peers'', ''/api/audit'', ''/api/audit/conn'',
     ''/api/audit/file'', ''/api/audit/alarm'', ''/api/device-group'',
     ''/api/device-group/accessible'', ''/api/user/group'', ''/api/user-groups'',
     ''/api/strategies'', ''/api/strategies/assign'', ''/api/devices'',
     ''/api/ab'', ''/api/ab/personal'', ''/api/ab/tags'',
     ''/api/users'', ''/api/software'', ''/api/software/client-download-link'',
     ''/api/health'', ''/api/server/pubkey'', ''/api/server-key'',
     ''/api/server-key/fingerprint'', ''/api/group'', ''/api/group/get'',
     ''/api/peers/list'', ''/api/bd/register-request'', ''/api/bd/register-status'']"

definition ALLOWED_METHODS :: "(string \<times> string) list" where
  "ALLOWED_METHODS =
    [(''/api/login'', ''POST''), (''/api/logout'', ''POST''), (''/api/currentUser'', ''*''),
     (''/api/login-options'', ''GET''), (''/api/oidc/auth'', ''POST''), (''/api/oidc/auth-query'', ''GET''),
     (''/api/oidc/callback'', ''GET''), (''/api/auth/oidc/callback'', ''GET''), (''/api/heartbeat'', ''POST''),
     (''/api/sysinfo'', ''POST''), (''/api/sysinfo_ver'', ''POST''), (''/api/telemetry/key'', ''GET''),
     (''/api/branding'', ''GET''), (''/api/devices/register'', ''POST''), (''/api/devices/register/status'', ''GET''),
     (''/api/peers'', ''GET''), (''/api/audit'', ''GET''), (''/api/audit/conn'', ''*''),
     (''/api/audit/file'', ''*''), (''/api/audit/alarm'', ''*''), (''/api/device-group'', ''*''),
     (''/api/device-group/accessible'', ''GET''), (''/api/user/group'', ''GET''), (''/api/user-groups'', ''*''),
     (''/api/strategies'', ''*''), (''/api/strategies/assign'', ''POST''), (''/api/devices'', ''GET''),
     (''/api/ab'', ''*''), (''/api/ab/personal'', ''*''), (''/api/ab/tags'', ''GET''),
     (''/api/users'', ''GET''), (''/api/software'', ''GET''), (''/api/software/client-download-link'', ''GET''),
     (''/api/health'', ''GET''), (''/api/server/pubkey'', ''GET''), (''/api/server-key'', ''GET''),
     (''/api/server-key/fingerprint'', ''GET''), (''/api/group'', ''*''), (''/api/group/get'', ''*''),
     (''/api/peers/list'', ''*''), (''/api/bd/register-request'', ''POST''), (''/api/bd/register-status'', ''GET'')]"

definition PATH_BODY_LIMITS :: "(string \<times> nat) list" where
  "PATH_BODY_LIMITS =
    [(''/api/login'', 4096), (''/api/heartbeat'', 8192), (''/api/oidc/auth'', 4096),
     (''/api/sysinfo'', 8192), (''/api/sysinfo_ver'', 512), (''/api/ab'', 524288),
     (''/api/ab/personal'', 524288), (''/api/audit/conn'', 2048), (''/api/audit/file'', 4096),
     (''/api/audit/alarm'', 2048), (''/api/device-group'', 2048), (''/api/user-groups'', 2048),
     (''/api/strategies'', 4096), (''/api/group'', 2048), (''/api/group/get'', 2048),
     (''/api/peers/list'', 2048)]"

definition MAX_BODY_SIZE :: nat where "MAX_BODY_SIZE = 1024"

definition guid_char :: "char \<Rightarrow> bool" where
  "guid_char c = (is_digit c \<or> c \<in> set ''abcdef-'')"

text \<open>A path of the parts \<open>pre\<close>, 36 characters of a guid and \<open>post\<close>, letter case ignored.\<close>

definition guid_path :: "string \<Rightarrow> string \<Rightarrow> string \<Rightarrow> bool" where
  "guid_path pre post p =
     (let q = js_lower p in
      length q = length pre + 36 + length post \<and> take (length pre) q = pre \<and> drop (length pre + 36) q = post
        \<and> list_all guid_char (take 36 (drop (length pre) q)))"

definition peer_key_path :: "string \<Rightarrow> bool" where
  "peer_key_path p =
     (startsWith p ''/api/peer-key/''
      \<and> (let x = drop 14 p in 1 \<le> length x \<and> length x \<le> 32 \<and> list_all (\<lambda>c. is_alnum c \<or> c \<in> set ''_-'') x))"

definition ALLOWED_PATH_PATTERNS :: "(string \<Rightarrow> bool) list" where
  "ALLOWED_PATH_PATTERNS =
     [peer_key_path, guid_path ''/api/strategies/'' [], guid_path ''/api/strategies/'' ''/status'',
      guid_path ''/api/devices/'' ''/assign'']"

datatype guard_answer = Pass | Reply nat

definition pathWhitelist :: "api_request \<Rightarrow> guard_answer" where
  "pathWhitelist r =
     (if aq_path r \<notin> set ALLOWED_PATHS then
        if \<not> list_ex (\<lambda>pattern. pattern (aq_path r)) ALLOWED_PATH_PATTERNS then Reply 404
        else if aq_method r \<noteq> ''GET'' \<and> aq_method r \<noteq> ''OPTIONS'' then Reply 405 else Pass
      else case map_of ALLOWED_METHODS (aq_path r) of
        None \<Rightarrow> Pass
      | Some m \<Rightarrow> if m \<noteq> ''*'' \<and> aq_method r \<noteq> m \<and> aq_method r \<noteq> ''OPTIONS'' then Reply 405 else Pass)"

text \<open>The answer to a preflight request; the headers themselves are constants.\<close>

definition securityHeaders :: "api_request \<Rightarrow> guard_answer" where
  "securityHeaders r = (if aq_method r = ''OPTIONS'' then Reply 204 else Pass)"

definition js_includes :: "string \<Rightarrow> string \<Rightarrow> bool" where
  "js_includes s p = list_ex (\<lambda>i. startsWith (drop i s) p) [0..<Suc (length s)]"

definition jsonOnly :: "api_request \<Rightarrow> guard_answer" where
  "jsonOnly r =
     (if aq_method r = ''POST'' \<and> \<not> js_includes (or_str (aq_headers r ''content-type'') []) ''application/json''
      then Reply 415 else Pass)"

text \<open>The counting of the body: the size so far, whether it was refused, the answers sent for it.\<close>

record body_guard =
  bg_size :: nat
  bg_rejected :: bool
  bg_sent :: bool
  bg_answers :: "nat list"

definition body_limit :: "string \<Rightarrow> nat" where
  "body_limit path = (case map_of PATH_BODY_LIMITS path of Some n \<Rightarrow> if n = 0 then MAX_BODY_SIZE else n | None \<Rightarrow> MAX_BODY_SIZE)"

definition on_body_data :: "nat \<Rightarrow> nat \<Rightarrow> body_guard \<Rightarrow> body_guard" where
  "on_body_data maxSize n g =
     (if bg_rejected g then g
      else let g = g\<lparr>bg_size := bg_size g + n\<rparr> in
        if bg_size g > maxSize
        then g\<lparr>bg_rejected := True, bg_answers := bg_answers g @ (if bg_sent g then [] else [413]), bg_sent := True\<rparr>
        else g)"

definition bodySizeLimit :: "string \<Rightarrow> nat list \<Rightarrow> body_guard" where
  "bodySizeLimit path chunks =
     fold (on_body_data (body_limit path)) chunks \<lparr>bg_size = 0, bg_rejected = False, bg_sent = False, bg_answers = []\<rparr>"

datatype wan_limiter = WanGlobal | WanAudit | WanLogin

definition wan_max :: "wan_limiter \<Rightarrow> nat" where
  "wan_max l = (case l of WanGlobal \<Rightarrow> 60 | WanAudit \<Rightarrow> 20 | WanLogin \<Rightarrow> 5)"

definition wan_skip :: "wan_limiter \<Rightarrow> api_request \<Rightarrow> bool" where
  "wan_skip l r =
     (case l of WanGlobal \<Rightarrow> False
      | WanAudit \<Rightarrow> \<not> startsWith (aq_path r) ''/api/audit/'' \<or> aq_method r \<noteq> ''POST''
      | WanLogin \<Rightarrow> aq_path r \<noteq> ''/api/login'' \<and> aq_path r \<noteq> ''/api/logout'')"

definition wan_key :: "api_request \<Rightarrow> string" where
  "wan_key r = or_str (aq_ip r) ''unknown''"

text \<open>A limiter with its store: \<open>hit\<close> counts a request of a key and says whether it may pass.\<close>

type_synonym 's rate_hit = "wan_limiter \<Rightarrow> string \<Rightarrow> 's \<Rightarrow> bool \<times> 's"
type_synonym 's guard = "api_request \<Rightarrow> 's \<Rightarrow> guard_answer \<times> 's"

definition limiter :: "'s rate_hit \<Rightarrow> wan_limiter \<Rightarrow> 's guard" where
  "limiter hit l r s =
     (if wan_skip l r then (Pass, s)
      else case hit l (wan_key r) s of (ok, s') \<Rightarrow> (if ok then Pass else Reply 429, s'))"

definition plain :: "(api_request \<Rightarrow> guard_answer) \<Rightarrow> 's guard" where
  "plain f r s = (f r, s)"

text \<open>The guards in their order; the time limit, the log and the counting of the body answer nothing at once.\<close>

definition getWanMiddlewareStack :: "'s rate_hit \<Rightarrow> 's guard list" where
  "getWanMiddlewareStack hit =
     [plain securityHeaders, plain pathWhitelist, limiter hit WanGlobal, limiter hit WanAudit, limiter hit WanLogin, plain jsonOnly]"

primrec run_stack :: "'s guard list \<Rightarrow> 's guard" where
  "run_stack [] r s = (Pass, s)"
| "run_stack (m # ms) r s = (case m r s of (Pass, s') \<Rightarrow> run_stack ms r s' | (Reply n, s') \<Rightarrow> (Reply n, s'))"

definition wan_request :: "'s rate_hit \<Rightarrow> 's guard" where
  "wan_request hit = run_stack (getWanMiddlewareStack hit)"

primrec wan_run :: "'s rate_hit \<Rightarrow> api_request list \<Rightarrow> 's \<Rightarrow> guard_answer list \<times> 's" where
  "wan_run hit [] s = ([], s)"
| "wan_run hit (r # rs) s =
     (case wan_request hit r s of (a, s') \<Rightarrow> case wan_run hit rs s' of (as, s'') \<Rightarrow> (a # as, s''))"


section \<open>The limiters of the panel (rateLimiter.js)\<close>

definition PANEL_POLL_PATHS :: "string list" where
  "PANEL_POLL_PATHS =
    [''/api/stats'', ''/api/server/status'', ''/api/server/bandwidth'',
     ''/api/devices'', ''/api/audit/conn'', ''/api/dashboard/client-config'',
     ''/api/dashboard/activity'', ''/api/registrations/count'', ''/api/network/targets'',
     ''/api/tickets/stats'', ''/api/cdap/devices'', ''/api/users'',
     ''/api/audit-log'', ''/api/system/info'', ''/api/logs/recent'',
     ''/api/database/stats'', ''/api/docker/containers'', ''/api/settings/restart-status'',
     ''/api/folders'', ''/api/tags'', ''/api/device-groups'',
     ''/api/bd/notifications'']"

definition PANEL_READ_PATHS :: "string list" where
  "PANEL_READ_PATHS =
    [''/api/settings/audit'', ''/api/settings/info'', ''/api/settings/restart/pending'',
     ''/api/settings/device-scope'', ''/api/settings/connection-mode'', ''/api/settings/public-endpoints'',
     ''/api/settings/branding'', ''/api/settings/appearance'', ''/api/settings/branding/backgrounds'',
     ''/api/settings/branding/export'', ''/api/settings/branding/profiles'', ''/api/settings/themes'',
     ''/api/settings/fonts'', ''/api/settings/fonts/local'', ''/api/settings/backup/stats'',
     ''/api/settings/updates/channel'', ''/api/settings/updates/last-result'', ''/api/settings/updates/server-binary/status'',
     ''/api/settings/backup/retention'', ''/api/settings/enrollment'', ''/api/settings/client-sessions'',
     ''/api/settings/ldap'', ''/api/settings/oidc'', ''/api/settings/email/smtp'']"

definition PANEL_POLL_PREFIXES :: "string list" where
  "PANEL_POLL_PREFIXES = [''/api/dashboard/'', ''/api/panel/'']"

definition before_query :: "string \<Rightarrow> string" where
  "before_query url = takeWhile (\<lambda>c. c \<noteq> CHR ''?'') url"

definition resolveApiPath :: "api_request \<Rightarrow> string" where
  "resolveApiPath r =
     (let base = aq_base r; path = aq_path r; orig = before_query (aq_url r) in
      if base = ''/api'' \<or> startsWith base ''/api/'' then ''/api'' @ (if startsWith path ''/'' then path else ''/'' @ path)
      else if startsWith path ''/api/'' \<or> path = ''/api'' then path
      else if startsWith orig ''/api/'' \<or> orig = ''/api'' then orig
      else path)"

definition isPanelPollRequest :: "api_request \<Rightarrow> bool" where
  "isPanelPollRequest r =
     ((aq_method r = ''GET'' \<or> aq_method r = ''HEAD'')
      \<and> (resolveApiPath r \<in> set PANEL_POLL_PATHS \<or> list_ex (startsWith (resolveApiPath r)) PANEL_POLL_PREFIXES))"

definition isPanelReadRequest :: "api_request \<Rightarrow> bool" where
  "isPanelReadRequest r = ((aq_method r = ''GET'' \<or> aq_method r = ''HEAD'') \<and> resolveApiPath r \<in> set PANEL_READ_PATHS)"

definition isPanelPreferenceWrite :: "api_request \<Rightarrow> bool" where
  "isPanelPreferenceWrite r = (aq_method r = ''POST'' \<and> resolveApiPath r = ''/api/desktop/layout'')"

definition api_skip :: "api_request \<Rightarrow> bool" where
  "api_skip r = (isPanelPollRequest r \<or> isPanelReadRequest r \<or> isPanelPreferenceWrite r)"

datatype panel_limiter = WidgetLimiter | PanelReadLimiter | PanelPreferenceLimiter | ApiLimiter

text \<open>The request as the limiter of \<open>/api/\<close> sees it, and the limiters of \<open>server.js\<close> that count a request, in their
  order; \<open>mounted p path\<close> is Express's test whether a handler used at \<open>p\<close> sees a request for \<open>path\<close>.\<close>

definition at_api :: "api_request \<Rightarrow> api_request" where
  "at_api r = r\<lparr>aq_base := take 4 (aq_path r), aq_path := (if drop 4 (aq_path r) = [] then ''/'' else drop 4 (aq_path r))\<rparr>"

definition panel_limiters :: "(string \<Rightarrow> string \<Rightarrow> bool) \<Rightarrow> api_request \<Rightarrow> panel_limiter list" where
  "panel_limiters mounted r =
     map (\<lambda>p. WidgetLimiter) (filter (\<lambda>p. mounted p (aq_path r)) PANEL_POLL_PATHS)
     @ map (\<lambda>p. PanelReadLimiter) (filter (\<lambda>p. mounted p (aq_path r)) PANEL_READ_PATHS)
     @ (if mounted ''/api/panel'' (aq_path r) then [WidgetLimiter] else [])
     @ (if mounted ''/api/desktop/layout'' (aq_path r) then [PanelPreferenceLimiter] else [])
     @ (if mounted ''/api/'' (aq_path r) \<and> \<not> api_skip (at_api r) then [ApiLimiter] else [])"

definition defaultKeyGenerator :: "api_request \<Rightarrow> string" where
  "defaultKeyGenerator r = or_str (aq_ip r) (or_str (aq_headers r ''x-forwarded-for'') ''unknown'')"


section \<open>Forged requests (csrf.js)\<close>

definition SAFE_METHODS :: "string list" where "SAFE_METHODS = [''GET'', ''HEAD'', ''OPTIONS'']"

text \<open>The token for the views, whether the answer clears the cookie, and the cookie as later handlers see it.  The library
  makes a token of the cookie that came, or throws.\<close>

record csrf_page =
  cp_token :: "string option"
  cp_cleared :: bool
  cp_cookie :: "string option"

definition csrfTokenProvider :: "(string option \<Rightarrow> string option) \<Rightarrow> string \<Rightarrow> string option \<Rightarrow> csrf_page" where
  "csrfTokenProvider generateToken method cookie =
     (if method \<notin> set SAFE_METHODS then \<lparr>cp_token = None, cp_cleared = False, cp_cookie = cookie\<rparr>
      else case generateToken cookie of
        Some t \<Rightarrow> \<lparr>cp_token = Some t, cp_cleared = False, cp_cookie = cookie\<rparr>
      | None \<Rightarrow> \<lparr>cp_token = Some (case generateToken None of Some t \<Rightarrow> t | None \<Rightarrow> []), cp_cleared = True, cp_cookie = None\<rparr>)"

datatype csrf_answer = CsrfNext | CsrfCleared | CsrfError

definition safeCsrfProtection :: "bool \<Rightarrow> string \<Rightarrow> csrf_answer" where
  "safeCsrfProtection accepted method =
     (if \<not> accepted \<and> method \<in> set SAFE_METHODS then CsrfCleared else if accepted then CsrfNext else CsrfError)"

text \<open>The guard of \<open>server.js\<close>, and the token that the library compares with the cookie.\<close>

definition csrf_guard :: "(api_request \<Rightarrow> bool) \<Rightarrow> api_request \<Rightarrow> csrf_answer" where
  "csrf_guard accepted r =
     (if startsWith (aq_path r) ''/api/bd/'' then CsrfNext else safeCsrfProtection (accepted r) (aq_method r))"

definition getTokenFromRequest :: "string option \<Rightarrow> string option \<Rightarrow> string" where
  "getTokenFromRequest header body = or_str header (or_str body [])"


section \<open>The proxy to the Go server (goApiProxy.js)\<close>

definition HOP_BY_HOP :: "string list" where
  "HOP_BY_HOP = [''connection'', ''keep-alive'', ''proxy-authenticate'', ''proxy-authorization'', ''te'', ''trailers'',
     ''transfer-encoding'', ''upgrade'', ''host'']"

definition proxy_client_ip :: "api_request \<Rightarrow> string option" where
  "proxy_client_ip r =
     (let first = (case aq_headers r ''x-forwarded-for'' of
                     None \<Rightarrow> None | Some h \<Rightarrow> null_if_empty (js_trim (takeWhile (\<lambda>c. c \<noteq> CHR '','') h))) in
      case first of Some ip \<Rightarrow> Some ip
      | None \<Rightarrow> (case Option.bind (aq_headers r ''x-real-ip'') null_if_empty of Some ip \<Rightarrow> Some ip
         | None \<Rightarrow> (case Option.bind (aq_ip r) null_if_empty of Some ip \<Rightarrow> Some ip | None \<Rightarrow> Option.bind (aq_remote r) null_if_empty)))"

definition proxied_headers :: "string \<Rightarrow> api_request \<Rightarrow> string \<Rightarrow> string option" where
  "proxied_headers host r =
     (let h = (\<lambda>n. if n \<in> set HOP_BY_HOP then None else aq_headers r n);
          h1 = (case proxy_client_ip r of None \<Rightarrow> h
                | Some ip \<Rightarrow> h(''x-forwarded-for'' \<mapsto> (case Option.bind (aq_headers r ''x-forwarded-for'') null_if_empty of
                                                    Some f \<Rightarrow> f @ '', '' @ ip | None \<Rightarrow> ip),
                               ''x-real-ip'' \<mapsto> ip))
      in h1(''host'' \<mapsto> host))"

text \<open>The answer to the client: \<open>headersSent\<close> with the statuses, and whether the connection is gone.\<close>

record proxied =
  px_statuses :: "nat list"
  px_destroyed :: bool

datatype proxied_event = GoResponse nat | GoTimeout | GoError | ClientGone

definition proxied_step :: "proxied \<Rightarrow> proxied_event \<Rightarrow> proxied" where
  "proxied_step p e =
     (let sent = (px_statuses p \<noteq> []) in
      case e of
        GoResponse n \<Rightarrow> if sent \<or> px_destroyed p then p else p\<lparr>px_statuses := [n]\<rparr>
      | GoTimeout \<Rightarrow> if sent then p else p\<lparr>px_statuses := px_statuses p @ [504]\<rparr>
      | GoError \<Rightarrow> if \<not> sent \<and> \<not> px_destroyed p then p\<lparr>px_statuses := px_statuses p @ [502]\<rparr> else p
      | ClientGone \<Rightarrow> p\<lparr>px_destroyed := True\<rparr>)"


section \<open>Guest links (guestAccess.js)\<close>

definition MAX_COOKIE_AGE_MS :: int where "MAX_COOKIE_AGE_MS = 24 * 60 * 60 * 1000"

text \<open>The parameters \<open>guest\<close> and \<open>t\<close> of the query, and the cookie, as texts.\<close>

definition getGuestTokenFromQuery :: "string option \<Rightarrow> string option \<Rightarrow> string" where
  "getGuestTokenFromQuery guest t = js_trim (or_str guest (or_str t []))"

definition getGuestTokenFromCookie :: "string option \<Rightarrow> string" where
  "getGuestTokenFromCookie c = (case Option.bind c null_if_empty of Some v \<Rightarrow> js_trim v | None \<Rightarrow> [])"

definition getGuestToken :: "string option \<Rightarrow> string option \<Rightarrow> string option \<Rightarrow> string" where
  "getGuestToken guest t c =
     (if getGuestTokenFromQuery guest t \<noteq> [] then getGuestTokenFromQuery guest t else getGuestTokenFromCookie c)"

text \<open>The age of the cookie; the time of expiry is \<^term>\<open>None\<close> when there is none or it is no date.\<close>

definition guest_cookie_age :: "int \<Rightarrow> int option \<Rightarrow> int" where
  "guest_cookie_age now expiresAt =
     (case expiresAt of
        Some e \<Rightarrow> if e - now > 0 then min (e - now) MAX_COOKIE_AGE_MS else MAX_COOKIE_AGE_MS
      | None \<Rightarrow> MAX_COOKIE_AGE_MS)"

record guest_grant =
  gg_valid :: bool
  gg_peer_ids :: "string list option"
  gg_allowed_peer_ids :: "string list option"

text \<open>The Go server's answer to a validation is \<^term>\<open>None\<close> when the call fails.\<close>

definition attachGuestGrant :: "(string \<Rightarrow> string option \<Rightarrow> guest_grant option) \<Rightarrow> string \<Rightarrow> string option \<Rightarrow> (guest_grant \<times> string) option" where
  "attachGuestGrant validate token peerId =
     (if token = [] then None
      else case validate token (Option.bind peerId null_if_empty) of
        None \<Rightarrow> None
      | Some g \<Rightarrow> if gg_valid g then Some (g, token) else None)"

definition peerAllowedByGrant :: "guest_grant option \<Rightarrow> string \<Rightarrow> bool" where
  "peerAllowedByGrant g peerId =
     (case g of None \<Rightarrow> False
      | Some g \<Rightarrow> peerId \<noteq> []
          \<and> peerId \<in> set (case gg_peer_ids g of Some ids \<Rightarrow> ids
                           | None \<Rightarrow> (case gg_allowed_peer_ids g of Some ids \<Rightarrow> ids | None \<Rightarrow> [])))"


section \<open>Headers (security.js)\<close>

definition shouldSendStrictTransportSecurity :: "bool \<Rightarrow> bool \<Rightarrow> string option \<Rightarrow> bool" where
  "shouldSendStrictTransportSecurity httpsEnabled allowSelfSigned hsts =
     (let hstsEnv = js_lower (or_str hsts []) in
      if \<not> httpsEnabled then False
      else if hstsEnv \<in> {''false'', ''0'', ''off''} then False
      else if hstsEnv \<in> {''true'', ''1'', ''on''} then True
      else \<not> allowSelfSigned)"

definition allowRemoteUnsafeEval :: "string option \<Rightarrow> bool" where
  "allowRemoteUnsafeEval relax = (js_lower (or_str relax []) = ''true'' \<or> relax = Some ''1'')"

definition script_sources :: "string \<Rightarrow> string option \<Rightarrow> string \<Rightarrow> string list" where
  "script_sources nonce relax path =
     [[CHR 0x27] @ ''self'' @ [CHR 0x27], [CHR 0x27] @ ''nonce-'' @ nonce @ [CHR 0x27], ''https://cdn.jsdelivr.net'']
     @ (if startsWith path ''/remote'' \<and> allowRemoteUnsafeEval relax then [[CHR 0x27] @ ''unsafe-eval'' @ [CHR 0x27]] else [])"

definition cache_control :: "string \<Rightarrow> string" where
  "cache_control path =
     (if list_ex (startsWith path) [''/css/'', ''/js/'', ''/img/'', ''/fonts/''] then ''public, max-age=3600'' else ''no-store'')"


section \<open>The client API\<close>

text \<open>Every path of the list has its method, and no other has one.\<close>

theorem wan_tables_agree:
  "map fst ALLOWED_METHODS = ALLOWED_PATHS"
  by (simp only: ALLOWED_METHODS_def ALLOWED_PATHS_def list.map fst_conv)

text \<open>What the path list lets in.\<close>

definition wan_allowed :: "api_request \<Rightarrow> bool" where
  "wan_allowed r =
     ((aq_path r \<in> set ALLOWED_PATHS \<and> map_of ALLOWED_METHODS (aq_path r) \<in> {Some ''*'', Some (aq_method r)})
      \<or> (aq_path r \<notin> set ALLOWED_PATHS \<and> list_ex (\<lambda>p. p (aq_path r)) ALLOWED_PATH_PATTERNS \<and> aq_method r = ''GET''))"

lemma run_stack_pass:
  "run_stack ms r s = (Pass, s') \<Longrightarrow> m \<in> set ms \<Longrightarrow> \<exists>t t'. m r t = (Pass, t')"
  by (induction ms arbitrary: s) (auto split: prod.splits guard_answer.splits)

lemma plain_passes: "plain f r s = (Pass, s') \<Longrightarrow> f r = Pass" by (simp add: plain_def)

lemma listed_method: "p \<in> set ALLOWED_PATHS \<Longrightarrow> map_of ALLOWED_METHODS p \<noteq> None"
  by (metis list.set_map map_of_eq_None_iff wan_tables_agree)

lemma whitelist_passes: "pathWhitelist r = Pass \<Longrightarrow> aq_method r \<noteq> ''OPTIONS'' \<Longrightarrow> wan_allowed r"
  using listed_method [of "aq_path r"]
  by (auto simp: pathWhitelist_def wan_allowed_def split: if_splits option.splits)

theorem wan_passes_only_allowed:
  assumes "wan_request hit r s = (Pass, s')"
  shows "wan_allowed r \<and> aq_method r \<noteq> ''OPTIONS''
    \<and> (aq_method r = ''POST'' \<longrightarrow> js_includes (or_str (aq_headers r ''content-type'') []) ''application/json'')"
proof -
  have in_stack: "m \<in> set (getWanMiddlewareStack hit) \<Longrightarrow> \<exists>t t'. m r t = (Pass, t')" for m
    using run_stack_pass [OF assms [unfolded wan_request_def]] by blast
  have "securityHeaders r = Pass" "pathWhitelist r = Pass" "jsonOnly r = Pass"
    using in_stack [of "plain securityHeaders"] in_stack [of "plain pathWhitelist"] in_stack [of "plain jsonOnly"] plain_passes
    by (auto simp: getWanMiddlewareStack_def)
  then show ?thesis using whitelist_passes [of r] by (auto simp: securityHeaders_def jsonOnly_def split: if_splits)
qed


lemma login_step:
  assumes law: "\<And>l k s. fst (hit l k s) = (counted s l k < wan_max l)"
      "\<And>l k s l' k'. counted (snd (hit l k s)) l' k' = counted s l' k' + (if l' = l \<and> k' = k then 1 else 0)"
    and req: "wan_request hit r s = (a, s')"
  shows "counted s WanLogin k \<le> counted s' WanLogin k"
    and "a = Pass \<Longrightarrow> \<not> wan_skip WanLogin r \<Longrightarrow> wan_key r = k \<Longrightarrow> counted s WanLogin k < 5 \<and> counted s' WanLogin k = Suc (counted s WanLogin k)"
proof -
  have other: "limiter hit l r t = (b, t') \<Longrightarrow> l \<noteq> WanLogin \<Longrightarrow> counted t' WanLogin k = counted t WanLogin k" for l t b t'
    using law(2) [of l "wan_key r" t] by (auto simp: limiter_def split: if_splits prod.splits)
  have login: "limiter hit WanLogin r t = (b, t') \<Longrightarrow> counted t WanLogin k \<le> counted t' WanLogin k" for t b t'
    using law(2) [of WanLogin "wan_key r" t] by (auto simp: limiter_def split: if_splits prod.splits)
  have passed: "limiter hit WanLogin r t = (Pass, t') \<Longrightarrow> \<not> wan_skip WanLogin r \<Longrightarrow> wan_key r = k
      \<Longrightarrow> counted t WanLogin k < 5 \<and> counted t' WanLogin k = Suc (counted t WanLogin k)" for t t'
    using law(2) [of WanLogin "wan_key r" t] law(1) [of WanLogin "wan_key r" t]
    by (auto simp: limiter_def wan_max_def split: if_splits prod.splits)
  obtain b1 t1 where g: "limiter hit WanGlobal r s = (b1, t1)" by fastforce
  obtain b2 t2 where au: "limiter hit WanAudit r t1 = (b2, t2)" by fastforce
  obtain b3 t3 where lo: "limiter hit WanLogin r t2 = (b3, t3)" by fastforce
  note steps = req [unfolded wan_request_def getWanMiddlewareStack_def run_stack.simps plain_def prod.case g au lo]
  have same: "counted t1 WanLogin k = counted s WanLogin k" "counted t2 WanLogin k = counted s WanLogin k"
    using other [OF g] other [OF au] by simp_all
  show "counted s WanLogin k \<le> counted s' WanLogin k"
    using steps same login [OF lo]
    by (cases "securityHeaders r"; cases "pathWhitelist r"; cases b1; cases b2; cases b3; cases "jsonOnly r") simp_all
  assume a: "a = Pass" "\<not> wan_skip WanLogin r" "wan_key r = k"
  then have "b3 = Pass" "s' = t3"
    using steps
    by (cases "securityHeaders r"; cases "pathWhitelist r"; cases b1; cases b2; cases b3; cases "jsonOnly r"; simp)+
  then show "counted s WanLogin k < 5 \<and> counted s' WanLogin k = Suc (counted s WanLogin k)"
    using passed [of t2 t3] lo a same by simp
qed

definition passed_logins :: "string \<Rightarrow> api_request list \<Rightarrow> guard_answer list \<Rightarrow> nat" where
  "passed_logins k rs as = length (filter (\<lambda>(r, a). a = Pass \<and> wan_key r = k \<and> \<not> wan_skip WanLogin r) (zip rs as))"

lemma wan_run_logins:
  assumes law: "\<And>l k s. fst (hit l k s) = (counted s l k < wan_max l)"
      "\<And>l k s l' k'. counted (snd (hit l k s)) l' k' = counted s l' k' + (if l' = l \<and> k' = k then 1 else 0)"
  shows "passed_logins k rs (fst (wan_run hit rs s)) + min 5 (counted s WanLogin k) \<le> 5"
proof (induction rs arbitrary: s)
  case (Cons r rs)
  obtain a s' where step: "wan_request hit r s = (a, s')" by fastforce
  note l = login_step [OF law step, of k]
  have "passed_logins k (r # rs) (fst (wan_run hit (r # rs) s))
      = (if a = Pass \<and> wan_key r = k \<and> \<not> wan_skip WanLogin r then 1 else 0) + passed_logins k rs (fst (wan_run hit rs s'))"
    by (simp add: passed_logins_def step split: prod.split)
  then show ?case using Cons [of s'] l by (auto split: if_splits)
qed (simp add: passed_logins_def)

text \<open>C23: at most five logins and logouts of an address pass in one window of the limiter, whatever else comes: \<open>counted\<close> is
  the number of requests a key has had in the window, and the limiter lets a request pass below its maximum.\<close>

theorem wan_login_bound:
  assumes "\<And>l k s. fst (hit l k s) = (counted s l k < wan_max l)"
    and "\<And>l k s l' k'. counted (snd (hit l k s)) l' k' = counted s l' k' + (if l' = l \<and> k' = k then 1 else 0)"
  shows "length (filter (\<lambda>(r, a). a = Pass \<and> wan_key r = ip \<and> aq_path r \<in> {''/api/login'', ''/api/logout''})
           (zip rs (fst (wan_run hit rs s)))) \<le> 5"
proof -
  have "(\<lambda>(r, a). a = Pass \<and> wan_key r = ip \<and> aq_path r \<in> {''/api/login'', ''/api/logout''})
      = (\<lambda>(r, a). a = Pass \<and> wan_key r = ip \<and> \<not> wan_skip WanLogin r)"
    by (auto simp: fun_eq_iff wan_skip_def)
  then show ?thesis
    using wan_run_logins [where hit = hit and counted = counted, OF assms, of ip rs s] unfolding passed_logins_def by simp
qed

definition counting_hit :: "(wan_limiter \<Rightarrow> string \<Rightarrow> nat) rate_hit" where
  "counting_hit l k s = (s l k < wan_max l, s(l := (s l)(k := Suc (s l k))))"

definition login_request :: api_request where
  "login_request = \<lparr>aq_method = ''POST'', aq_path = ''/api/login'', aq_base = [], aq_url = ''/api/login'',
     aq_headers = [''content-type'' \<mapsto> ''application/json''], aq_ip = Some ''203.0.113.5'', aq_remote = None\<rparr>"

definition counted_logins :: "nat \<Rightarrow> wan_limiter \<Rightarrow> string \<Rightarrow> nat" where
  "counted_logins n l k = (if k = ''203.0.113.5'' \<and> l \<noteq> WanAudit then n else 0)"

lemma login_counted:
  assumes "n < 60"
  shows "wan_request counting_hit login_request (counted_logins n) = (if n < 5 then Pass else Reply 429, counted_logins (Suc n))"
proof -
  have "securityHeaders login_request = Pass" "pathWhitelist login_request = Pass" "jsonOnly login_request = Pass"
    "\<not> wan_skip WanGlobal login_request" "wan_skip WanAudit login_request" "\<not> wan_skip WanLogin login_request"
    "wan_key login_request = ''203.0.113.5''"
    by code_simp+
  moreover have passing: "fst (counting_hit WanGlobal ''203.0.113.5'' (counted_logins n))"
    "fst (counting_hit WanLogin ''203.0.113.5'' (snd (counting_hit WanGlobal ''203.0.113.5'' (counted_logins n)))) = (n < 5)"
    using assms by (simp_all add: counting_hit_def wan_max_def counted_logins_def)
  moreover have "snd (counting_hit WanLogin ''203.0.113.5'' (snd (counting_hit WanGlobal ''203.0.113.5'' (counted_logins n))))
      = counted_logins (Suc n)"
    by (auto simp: counting_hit_def counted_logins_def fun_eq_iff) (metis wan_limiter.exhaust)
  ultimately show ?thesis
    using assms
    by (simp add: wan_request_def getWanMiddlewareStack_def plain_def limiter_def split_beta passing)
qed

theorem wan_login_bound_witness:
  "let rs = [login_request, login_request, login_request, login_request, login_request, login_request];
       as = fst (wan_run counting_hit rs (\<lambda>l k. 0)) in
     as = [Pass, Pass, Pass, Pass, Pass, Reply 429]
     \<and> length (filter (\<lambda>(r, a). a = Pass \<and> wan_key r = ''203.0.113.5'' \<and> aq_path r \<in> {''/api/login'', ''/api/logout''}) (zip rs as)) \<le> 5"
proof -
  let ?rs = "[login_request, login_request, login_request, login_request, login_request, login_request]"
  have start: "(\<lambda>l k. 0) = counted_logins 0" by (simp add: counted_logins_def fun_eq_iff)
  have "length (filter (\<lambda>(r, a). a = Pass \<and> wan_key r = ''203.0.113.5'' \<and> aq_path r \<in> {''/api/login'', ''/api/logout''})
      (zip ?rs (fst (wan_run counting_hit ?rs (\<lambda>l k. 0))))) \<le> 5"
    by (rule wan_login_bound [where counted = "\<lambda>s. s"]) (auto simp: counting_hit_def)
  moreover have "fst (wan_run counting_hit ?rs (\<lambda>l k. 0)) = [Pass, Pass, Pass, Pass, Pass, Reply 429]"
    by (simp add: start login_counted)
  ultimately show ?thesis by (simp only: Let_def simp_thms)
qed

text \<open>A body is refused once its size is above the limit, and the refusal is answered once.\<close>

lemma body_data:
  "bg_rejected g \<Longrightarrow> fold (on_body_data m) ns g = g"
  by (induction ns) (simp_all add: on_body_data_def)

lemma body_run:
  "\<not> bg_rejected g \<Longrightarrow> \<not> bg_sent g \<Longrightarrow> bg_answers g = [] \<Longrightarrow> bg_size g \<le> m \<Longrightarrow>
     (let g' = fold (on_body_data m) ns g in
       bg_rejected g' = (m < bg_size g + sum_list ns) \<and> bg_answers g' = (if m < bg_size g + sum_list ns then [413] else [])
       \<and> (\<not> bg_rejected g' \<longrightarrow> bg_size g' = bg_size g + sum_list ns))"
proof (induction ns arbitrary: g)
  case (Cons n ns)
  show ?case
  proof (cases "m < bg_size g + n")
    case True
    then have "bg_rejected (on_body_data m n g)" "bg_answers (on_body_data m n g) = [413]"
      using Cons.prems by (simp_all add: on_body_data_def Let_def)
    then show ?thesis using True body_data by (simp add: Let_def)
  next
    case False
    then have "on_body_data m n g = g\<lparr>bg_size := bg_size g + n\<rparr>" using Cons.prems by (simp add: on_body_data_def Let_def)
    then show ?thesis using Cons.IH [of "g\<lparr>bg_size := bg_size g + n\<rparr>"] Cons.prems False by (simp add: Let_def add.assoc)
  qed
qed (simp add: Let_def)

theorem body_refused_once:
  "bg_rejected (bodySizeLimit path ns) = (body_limit path < sum_list ns)
   \<and> bg_answers (bodySizeLimit path ns) = (if body_limit path < sum_list ns then [413] else [])"
  using body_run [of "\<lparr>bg_size = 0, bg_rejected = False, bg_sent = False, bg_answers = []\<rparr>" "body_limit path" ns]
  by (simp add: bodySizeLimit_def Let_def)


text \<open>Neither the status of a strategy can be set over this port nor a strategy deleted or a device assigned: paths with an
  identifier are let through for \<open>GET\<close> only.\<close>

theorem identifier_paths_read_only:
  assumes "wan_request hit r s = (Pass, s')" "aq_path r \<notin> set ALLOWED_PATHS"
  shows "aq_method r = ''GET''"
  using wan_passes_only_allowed [OF assms(1)] assms(2) by (simp add: wan_allowed_def)


section \<open>The limiters of the panel\<close>

lemma resolve_at_api:
  "startsWith (aq_path r) ''/api/'' \<Longrightarrow> resolveApiPath (at_api r) = aq_path r"
proof -
  assume "startsWith (aq_path r) ''/api/''"
  then obtain x where x: "aq_path r = ''/api/'' @ x" by (metis append_take_drop_id startsWith_def)
  show ?thesis by (simp add: resolveApiPath_def at_api_def Let_def x startsWith_def)
qed

text \<open>Every request that changes something is counted, and so is every polled and every settings read; a request that only
  starts as the dashboard's do is counted by no limiter.\<close>

theorem panel_requests_limited:
  assumes express: "\<And>p path. mounted p path \<longleftrightarrow> path = p \<or> startsWith path (if endsWith p ''/'' then p else p @ ''/'')"
    and api: "startsWith (aq_path r) ''/api/''"
    and unlimited: "panel_limiters mounted r = []"
  shows "aq_method r \<in> {''GET'', ''HEAD''} \<and> startsWith (aq_path r) ''/api/dashboard/'' \<and> aq_path r \<notin> set PANEL_POLL_PATHS"
proof -
  have none: "\<not> mounted p (aq_path r)" if "p \<in> set PANEL_POLL_PATHS \<union> set PANEL_READ_PATHS" for p
    using unlimited that by (auto simp: panel_limiters_def filter_empty_conv)
  have parts: "(if mounted ''/api/panel'' (aq_path r) then [WidgetLimiter] else []) = []"
    "(if mounted ''/api/desktop/layout'' (aq_path r) then [PanelPreferenceLimiter] else []) = []"
    "(if mounted ''/api/'' (aq_path r) \<and> \<not> api_skip (at_api r) then [ApiLimiter] else []) = []"
    using unlimited unfolding panel_limiters_def append_is_Nil_conv by blast+
  have others: "\<not> mounted ''/api/panel'' (aq_path r)" "\<not> mounted ''/api/desktop/layout'' (aq_path r)"
    using parts(1,2) by (simp_all split: if_splits)
  have "mounted ''/api/'' (aq_path r)" using api express [of "''/api/''"] by (simp add: endsWith_def)
  then have skip: "api_skip (at_api r)" using parts(3) by (simp split: if_splits)
  have m: "aq_method (at_api r) = aq_method r" by (simp add: at_api_def)
  have polled: "aq_path r \<notin> set PANEL_POLL_PATHS" "aq_path r \<notin> set PANEL_READ_PATHS"
    using none [of "aq_path r"] express [of "aq_path r" "aq_path r"] by auto
  have "aq_path r \<noteq> ''/api/desktop/layout''" using others(2) express by metis
  moreover have "\<not> startsWith (aq_path r) ''/api/panel/''"
    using others(1) express [of "''/api/panel''" "aq_path r"] by (simp add: endsWith_def)
  ultimately show ?thesis
    using skip polled unfolding api_skip_def isPanelPollRequest_def isPanelReadRequest_def isPanelPreferenceWrite_def
      resolve_at_api [OF api] m PANEL_POLL_PREFIXES_def by auto
qed

definition stray_request :: api_request where
  "stray_request = \<lparr>aq_method = ''GET'', aq_path = ''/api/dashboard/x'', aq_base = [], aq_url = ''/api/dashboard/x'',
     aq_headers = Map.empty, aq_ip = Some ''203.0.113.5'', aq_remote = Some ''203.0.113.5''\<rparr>"

definition express_mounted :: "string \<Rightarrow> string \<Rightarrow> bool" where
  "express_mounted p path \<longleftrightarrow> path = p \<or> startsWith path (if endsWith p ''/'' then p else p @ ''/'')"

lemma stray_request_unlimited: "panel_limiters express_mounted stray_request = []"
  by code_simp

theorem panel_requests_limited_witness:
  "aq_method stray_request \<in> {''GET'', ''HEAD''} \<and> startsWith (aq_path stray_request) ''/api/dashboard/''
     \<and> aq_path stray_request \<notin> set PANEL_POLL_PATHS"
  by (rule panel_requests_limited [OF express_mounted_def _ stray_request_unlimited]) (simp add: stray_request_def startsWith_def)


section \<open>The proxy\<close>

text \<open>No header of one hop goes on, and the host is the server's.  The address the server is told is the client's to choose.\<close>

theorem proxied_headers_clean:
  "h \<in> set HOP_BY_HOP \<Longrightarrow> proxied_headers host r h = (if h = ''host'' then Some host else None)"
  by (auto simp: proxied_headers_def HOP_BY_HOP_def Let_def split: option.split)

theorem client_chooses_real_ip:
  assumes "aq_headers r ''x-forwarded-for'' = Some (ip @ rest)" "js_trim ip = ip" "ip \<noteq> []" "CHR '','' \<notin> set ip"
    and "rest = [] \<or> hd rest = CHR '',''"
  shows "proxied_headers host r ''x-real-ip'' = Some ip"
proof -
  have "takeWhile (\<lambda>c. c \<noteq> CHR '','') (ip @ rest) = ip"
    using assms(4,5) by (cases rest) (auto simp: takeWhile_append)
  then have "proxy_client_ip r = Some ip" using assms(1,2,3) by (simp add: proxy_client_ip_def null_if_empty_def)
  then show ?thesis by (simp add: proxied_headers_def Let_def)
qed

text \<open>Whatever the server and the two connections do, the client gets at most one answer, the first.\<close>

lemma proxied_settled: "px_statuses p \<noteq> [] \<Longrightarrow> px_statuses (foldl proxied_step p es) = px_statuses p"
proof (induction es arbitrary: p)
  case (Cons e es)
  have "px_statuses (proxied_step p e) = px_statuses p" using Cons.prems by (cases e) (simp_all add: proxied_step_def)
  then show ?case using Cons by simp
qed simp

theorem proxied_answer_once:
  "length (px_statuses (foldl proxied_step \<lparr>px_statuses = [], px_destroyed = d\<rparr> es)) \<le> 1"
proof (induction es arbitrary: d)
  case (Cons e es)
  show ?case
  proof (cases "px_statuses (proxied_step \<lparr>px_statuses = [], px_destroyed = d\<rparr> e) = []")
    case True
    then have "proxied_step \<lparr>px_statuses = [], px_destroyed = d\<rparr> e
        = \<lparr>px_statuses = [], px_destroyed = px_destroyed (proxied_step \<lparr>px_statuses = [], px_destroyed = d\<rparr> e)\<rparr>" by simp
    then show ?thesis using Cons.IH by (metis foldl_Cons)
  next
    case False
    have "length (px_statuses (proxied_step \<lparr>px_statuses = [], px_destroyed = d\<rparr> e)) \<le> 1"
      by (cases e) (simp_all add: proxied_step_def)
    then show ?thesis using proxied_settled [OF False] by simp
  qed
qed simp

text \<open>A guest's cookie lives for some time and at most a day, and no longer than the grant that has not ended.\<close>

theorem guest_cookie_age_bounds:
  "0 < guest_cookie_age now e \<and> guest_cookie_age now e \<le> MAX_COOKIE_AGE_MS"
  "now < t \<Longrightarrow> now + guest_cookie_age now (Some t) \<le> t"
  by (auto simp: guest_cookie_age_def MAX_COOKIE_AGE_MS_def split: option.split)

end
