(* ===== verification/Alert_Rules.thy ===== *)
theory Alert_Rules
  imports Complex_Main BD_Prelude
begin

text \<open>
  Alert rules: \<open>services/alertRulesEngine.js\<close> with the statements of \<open>services/dbAdapter.js\<close> it uses, on SQLite and on
  PostgreSQL.

  An evaluation reads the rules of a metric, and for each that applies looks for a recent alert, stores a new one and
  sends mail.  On PostgreSQL the time of an alert is an instant in milliseconds; on SQLite it is the text of
  \<open>toISOString\<close>, which the look-up compares with the text of \<open>datetime\<close>, byte by byte.  Numbers are rational, \<^term>\<open>None\<close>
  is \<open>NaN\<close>.
\<close>

section \<open>Conditions\<close>

definition DEFAULT_COOLDOWN_SECS :: int where "DEFAULT_COOLDOWN_SECS = 300"

definition compare_numbers :: "(rat \<Rightarrow> rat \<Rightarrow> bool) \<Rightarrow> rat option \<Rightarrow> rat option \<Rightarrow> bool" where
  "compare_numbers f a b = (case (a, b) of (Some x, Some y) \<Rightarrow> f x y | _ \<Rightarrow> False)"

definition OPS :: "(string \<times> (rat option \<Rightarrow> rat option \<Rightarrow> bool)) list" where
  "OPS = [(''gt'', compare_numbers (\<lambda>a b. a > b)), (''gte'', compare_numbers (\<lambda>a b. a \<ge> b)),
     (''lt'', compare_numbers (\<lambda>a b. a < b)), (''lte'', compare_numbers (\<lambda>a b. a \<le> b)),
     (''eq'', compare_numbers (\<lambda>a b. a = b)), (''neq'', \<lambda>a b. \<not> compare_numbers (\<lambda>a b. a = b) a b)]"

definition evalCondition :: "rat option \<Rightarrow> string \<Rightarrow> rat option \<Rightarrow> bool" where
  "evalCondition v op threshold = (case map_of OPS op of None \<Rightarrow> False | Some f \<Rightarrow> f v threshold)"


section \<open>The tables\<close>

record alert_rule =
  ar_id :: int
  ar_name :: string
  ar_enabled :: bool
  ar_type :: string
  ar_op :: string
  ar_value :: "rat option"
  ar_severity :: "string option"
  ar_scope :: "string option"
  ar_cooldown :: "int option"
  ar_emails :: "string option"
  ar_created :: int

record 't alert_row =
  ah_rule :: int
  ah_device :: string
  ah_severity :: string
  ah_message :: string
  ah_time :: 't

record 't alert_state =
  as_rules :: "alert_rule list"
  as_history :: "'t alert_row list"
  as_mail :: "(string \<times> 't alert_row) list"

definition getAlertRules :: "string \<Rightarrow> alert_rule list \<Rightarrow> alert_rule list" where
  "getAlertRules condition_type rules =
     sort_key (\<lambda>r. - ar_created r) (filter (\<lambda>r. ar_enabled r \<and> ar_type r = condition_type) rules)"

text \<open>The latest of the rows.\<close>

fun latest :: "('t \<Rightarrow> 't \<Rightarrow> bool) \<Rightarrow> 't alert_row list \<Rightarrow> 't alert_row option" where
  "latest earlier [] = None"
| "latest earlier (r # rs) =
     (case latest earlier rs of None \<Rightarrow> Some r | Some b \<Rightarrow> Some (if earlier (ah_time r) (ah_time b) then b else r))"

definition recent_alert :: "('t \<Rightarrow> 't \<Rightarrow> bool) \<Rightarrow> 't \<Rightarrow> int \<Rightarrow> string \<Rightarrow> 't alert_row list \<Rightarrow> 't alert_row option" where
  "recent_alert earlier since rule device rows =
     latest earlier (filter (\<lambda>a. ah_rule a = rule \<and> ah_device a = device \<and> earlier since (ah_time a)) rows)"

text \<open>The text of an instant: \<open>toISOString\<close> and SQLite's \<open>datetime\<close>, from the day and the millisecond of the day, for the
  years 0 to 9999.\<close>

definition pad_left :: "nat \<Rightarrow> int \<Rightarrow> string" where
  "pad_left w n = (let s = show_nat (nat n) in replicate (w - length s) CHR ''0'' @ s)"

definition civil_date :: "int \<Rightarrow> int \<times> int \<times> int" where
  "civil_date days =
     (let z = days + 719468; era = z div 146097; doe = z mod 146097;
          yoe = (doe - doe div 1460 + doe div 36524 - doe div 146096) div 365;
          doy = doe - (365 * yoe + yoe div 4 - yoe div 100);
          mp = (5 * doy + 2) div 153;
          m = (if mp < 10 then mp + 3 else mp - 9)
      in (yoe + era * 400 + (if m \<le> 2 then 1 else 0), m, doy - (153 * mp + 2) div 5 + 1))"

definition day_text :: "int \<Rightarrow> string" where
  "day_text days = (case civil_date days of (y, m, d) \<Rightarrow> pad_left 4 y @ ''-'' @ pad_left 2 m @ ''-'' @ pad_left 2 d)"

definition time_text :: "int \<Rightarrow> string" where
  "time_text secs = pad_left 2 (secs div 3600) @ '':'' @ pad_left 2 (secs div 60 mod 60) @ '':'' @ pad_left 2 (secs mod 60)"

definition DAY_MS :: int where "DAY_MS = 86400000"

definition toISOString :: "int \<Rightarrow> string" where
  "toISOString ms =
     day_text (ms div DAY_MS) @ ''T'' @ time_text (ms mod DAY_MS div 1000) @ ''.'' @ pad_left 3 (ms mod 1000) @ ''Z''"

definition sqlite_datetime :: "int \<Rightarrow> string" where
  "sqlite_datetime ms = day_text (ms div DAY_MS) @ '' '' @ time_text (ms mod DAY_MS div 1000)"

fun byte_less :: "string \<Rightarrow> string \<Rightarrow> bool" where
  "byte_less _ [] = False"
| "byte_less [] (y # ys) = True"
| "byte_less (x # xs) (y # ys) = ((of_char x :: nat) < of_char y \<or> x = y \<and> byte_less xs ys)"

definition sqlite_getRecentAlert :: "int \<Rightarrow> int \<Rightarrow> string \<Rightarrow> int \<Rightarrow> string alert_row list \<Rightarrow> string alert_row option" where
  "sqlite_getRecentAlert now rule device cooldown = recent_alert byte_less (sqlite_datetime (now - cooldown * 1000)) rule device"

definition pg_getRecentAlert :: "int \<Rightarrow> int \<Rightarrow> string \<Rightarrow> int \<Rightarrow> int alert_row list \<Rightarrow> int alert_row option" where
  "pg_getRecentAlert now rule device cooldown = recent_alert (<) (now - cooldown * 1000) rule device"


section \<open>Evaluation\<close>

text \<open>What a store brings, and which of its calls succeed during an evaluation.\<close>

record 't alert_store =
  sr_text :: "int \<Rightarrow> 't"
  sr_recent :: "int \<Rightarrow> int \<Rightarrow> string \<Rightarrow> int \<Rightarrow> 't alert_row list \<Rightarrow> 't alert_row option"
  sr_rules_ok :: bool
  sr_recent_ok :: "int \<Rightarrow> bool"
  sr_create_ok :: "int \<Rightarrow> bool"

definition sqlite_alerts :: "string alert_store" where
  "sqlite_alerts = \<lparr>sr_text = toISOString, sr_recent = sqlite_getRecentAlert, sr_rules_ok = True,
     sr_recent_ok = (\<lambda>i. True), sr_create_ok = (\<lambda>i. True)\<rparr>"

definition pg_alerts :: "int alert_store" where
  "pg_alerts = \<lparr>sr_text = (\<lambda>ms. ms), sr_recent = pg_getRecentAlert, sr_rules_ok = True,
     sr_recent_ok = (\<lambda>i. True), sr_create_ok = (\<lambda>i. True)\<rparr>"

record metric =
  me_device :: string
  me_type :: string
  me_value :: "rat option"

definition in_scope :: "string \<Rightarrow> alert_rule \<Rightarrow> bool" where
  "in_scope device r = (case Option.bind (ar_scope r) null_if_empty of None \<Rightarrow> True | Some d \<Rightarrow> d = device)"

definition cooldown_of :: "alert_rule \<Rightarrow> int" where
  "cooldown_of r = (case ar_cooldown r of Some n \<Rightarrow> if n = 0 then DEFAULT_COOLDOWN_SECS else n | None \<Rightarrow> DEFAULT_COOLDOWN_SECS)"

definition alert_message :: "(rat option \<Rightarrow> string) \<Rightarrow> metric \<Rightarrow> alert_rule \<Rightarrow> string" where
  "alert_message show_number m r =
     ar_name r @ '': '' @ me_type m @ '' = '' @ show_number (me_value m) @ '' ('' @ ar_op r @ '' '' @ show_number (ar_value r) @ '')''"

definition evaluate_rule ::
    "(rat option \<Rightarrow> string) \<Rightarrow> 't alert_store \<Rightarrow> int \<Rightarrow> metric \<Rightarrow> alert_rule \<Rightarrow> 't alert_state \<Rightarrow> 't alert_state" where
  "evaluate_rule show_number S now m r st =
     (if \<not> in_scope (me_device m) r then st
      else if \<not> evalCondition (me_value m) (ar_op r) (ar_value r) then st
      else if sr_recent_ok S (ar_id r) \<and> sr_recent S now (ar_id r) (me_device m) (cooldown_of r) (as_history st) \<noteq> None then st
      else
        let alert = \<lparr>ah_rule = ar_id r, ah_device = me_device m, ah_severity = or_str (ar_severity r) ''warning'',
                     ah_message = alert_message show_number m r, ah_time = sr_text S now\<rparr> in
        if \<not> sr_create_ok S (ar_id r) then st
        else st\<lparr>as_history := as_history st @ [alert],
                as_mail := as_mail st @ (case Option.bind (ar_emails r) null_if_empty of None \<Rightarrow> [] | Some e \<Rightarrow> [(e, alert)])\<rparr>)"

definition evaluateRules ::
    "(rat option \<Rightarrow> string) \<Rightarrow> 't alert_store \<Rightarrow> int \<Rightarrow> metric \<Rightarrow> 't alert_state \<Rightarrow> 't alert_state" where
  "evaluateRules show_number S now m st =
     (if \<not> sr_rules_ok S then st
      else fold (evaluate_rule show_number S now m) (getAlertRules (me_type m) (as_rules st)) st)"

record telemetry =
  te_cpu :: "rat option option"
  te_memory_used :: int
  te_memory_total :: int

definition memory_percent :: "telemetry \<Rightarrow> rat" where
  "memory_percent t = of_int \<lfloor>rat_of_int (te_memory_used t) / rat_of_int (te_memory_total t) * 100 + 1 / 2\<rfloor>"

definition evaluateTelemetry ::
    "(rat option \<Rightarrow> string) \<Rightarrow> 't alert_store \<Rightarrow> int \<Rightarrow> string \<Rightarrow> telemetry \<Rightarrow> 't alert_state \<Rightarrow> 't alert_state" where
  "evaluateTelemetry show_number S now device t st =
     (let st1 = (case te_cpu t of None \<Rightarrow> st
                 | Some v \<Rightarrow> evaluateRules show_number S now \<lparr>me_device = device, me_type = ''cpu_usage'', me_value = v\<rparr> st)
      in if te_memory_used t \<noteq> 0 \<and> te_memory_total t \<noteq> 0
         then evaluateRules show_number S now \<lparr>me_device = device, me_type = ''memory_usage'', me_value = Some (memory_percent t)\<rparr> st1
         else st1)"


section \<open>When alerts are raised\<close>

lemma latest_none: "latest earlier rs = None \<longleftrightarrow> rs = []"
  by (cases rs) (auto split: option.split)

lemma recent_none:
  "recent_alert earlier since rule device rows = None \<longleftrightarrow>
     (\<forall>a \<in> set rows. ah_rule a = rule \<longrightarrow> ah_device a = device \<longrightarrow> \<not> earlier since (ah_time a))"
  unfolding recent_alert_def latest_none by (auto simp: filter_empty_conv)

text \<open>An alert of a rule: it is of an enabled rule of the metric whose scope has the device and whose condition holds.\<close>

definition justified :: "alert_rule list \<Rightarrow> metric \<Rightarrow> 't alert_row \<Rightarrow> bool" where
  "justified rules m a = (\<exists>r \<in> set rules. ar_id r = ah_rule a \<and> ar_enabled r \<and> ar_type r = me_type m \<and> in_scope (me_device m) r
     \<and> evalCondition (me_value m) (ar_op r) (ar_value r) \<and> ah_device a = me_device m)"

lemma rule_effect:
  obtains "evaluate_rule f S now m r st = st"
  | a where "as_history (evaluate_rule f S now m r st) = as_history st @ [a]" "as_rules (evaluate_rule f S now m r st) = as_rules st"
      "ah_rule a = ar_id r" "ah_device a = me_device m" "ah_time a = sr_text S now" "in_scope (me_device m) r"
      "evalCondition (me_value m) (ar_op r) (ar_value r)"
      "sr_recent_ok S (ar_id r) \<Longrightarrow> sr_recent S now (ar_id r) (me_device m) (cooldown_of r) (as_history st) = None"
proof (cases "evaluate_rule f S now m r st = st")
  case False
  then show thesis using that(2) by (auto simp: evaluate_rule_def Let_def split: if_splits)
qed (rule that(1))

lemma rules_kept: "as_rules (evaluateRules f S now m st) = as_rules st"
proof -
  have "as_rules (evaluate_rule f S now m r st) = as_rules st" for r and st :: "'a alert_state"
    by (rule rule_effect [of f S now m r st]) simp_all
  then have "as_rules (fold (evaluate_rule f S now m) rs st) = as_rules st" for rs
    by (induction rs arbitrary: st) simp_all
  then show ?thesis by (simp add: evaluateRules_def)
qed

lemma getAlertRules_mem: "r \<in> set (getAlertRules t rules) \<longleftrightarrow> r \<in> set rules \<and> ar_enabled r \<and> ar_type r = t"
  by (auto simp: getAlertRules_def)

lemma fold_justified:
  "(\<And>r. r \<in> set rs \<Longrightarrow> r \<in> set rules \<and> ar_enabled r \<and> ar_type r = me_type m) \<Longrightarrow>
   \<exists>new. as_history (fold (evaluate_rule f S now m) rs st) = as_history st @ new \<and> list_all (justified rules m) new"
proof (induction rs arbitrary: st)
  case (Cons r rs)
  then obtain new where new: "as_history (fold (evaluate_rule f S now m) rs (evaluate_rule f S now m r st))
      = as_history (evaluate_rule f S now m r st) @ new" "list_all (justified rules m) new" by fastforce
  show ?case
  proof (rule rule_effect [of f S now m r st])
    fix a
    assume "as_history (evaluate_rule f S now m r st) = as_history st @ [a]" "ah_rule a = ar_id r" "ah_device a = me_device m"
      "in_scope (me_device m) r" "evalCondition (me_value m) (ar_op r) (ar_value r)"
    moreover from this have "justified rules m a" unfolding justified_def using Cons.prems [of r] by auto
    ultimately show ?thesis using new by (intro exI [of _ "a # new"]) simp
  qed (use new in auto)
qed simp

text \<open>Each new alert is of an enabled rule of the metric in whose scope the device is and whose condition holds.\<close>

theorem alerts_justified:
  "\<exists>new. as_history (evaluateRules f S now m st) = as_history st @ new \<and> list_all (justified (as_rules st) m) new"
proof (cases "sr_rules_ok S")
  case True
  then show ?thesis using fold_justified [of "getAlertRules (me_type m) (as_rules st)" "as_rules st" m f S now st]
    by (simp add: evaluateRules_def getAlertRules_mem)
qed (simp add: evaluateRules_def)


section \<open>The cooldown\<close>

text \<open>The alerts of a rule for a device are apart by the cooldown of the rule.\<close>

definition spaced :: "alert_rule list \<Rightarrow> int alert_row list \<Rightarrow> bool" where
  "spaced rules rows = sorted_wrt (\<lambda>a b. ah_rule a = ah_rule b \<longrightarrow> ah_device a = ah_device b \<longrightarrow>
     (\<forall>r \<in> set rules. ar_id r = ah_rule b \<longrightarrow> ah_time b - ah_time a \<ge> cooldown_of r * 1000)) rows"

lemma rule_spaced:
  assumes "spaced rules (as_history st)" "r \<in> set rules" "inj_on ar_id (set rules)"
  shows "spaced rules (as_history (evaluate_rule f pg_alerts now m r st))"
proof (rule rule_effect [of f pg_alerts now m r st])
  fix a
  assume a: "as_history (evaluate_rule f pg_alerts now m r st) = as_history st @ [a]" "ah_rule a = ar_id r"
    "ah_device a = me_device m" "ah_time a = sr_text pg_alerts now"
    and "sr_recent_ok pg_alerts (ar_id r) \<Longrightarrow>
      sr_recent pg_alerts now (ar_id r) (me_device m) (cooldown_of r) (as_history st) = None"
  then have "\<forall>b \<in> set (as_history st). ah_rule b = ar_id r \<longrightarrow> ah_device b = me_device m \<longrightarrow> \<not> now - cooldown_of r * 1000 < ah_time b"
    by (simp add: pg_alerts_def pg_getRecentAlert_def recent_none)
  moreover have "r' = r" if "r' \<in> set rules" "ar_id r' = ar_id r" for r' using assms(2,3) that by (auto dest: inj_onD)
  ultimately show ?thesis using assms(1) a unfolding spaced_def by (fastforce simp: sorted_wrt_append pg_alerts_def)
qed (use assms(1) in simp)

lemma fold_spaced:
  assumes "inj_on ar_id (set rules)"
  shows "set rs \<subseteq> set rules \<Longrightarrow> spaced rules (as_history st) \<Longrightarrow>
    spaced rules (as_history (fold (evaluate_rule f pg_alerts now m) rs st))"
proof (induction rs arbitrary: st)
  case (Cons r rs)
  then show ?case using rule_spaced [OF Cons.prems(2) _ assms, of r f now m] by simp
qed simp

definition alert_run :: "(rat option \<Rightarrow> string) \<Rightarrow> 't alert_store \<Rightarrow> (int \<times> metric) list \<Rightarrow> 't alert_state \<Rightarrow> 't alert_state" where
  "alert_run f S calls st = fold (\<lambda>(now, m). evaluateRules f S now m) calls st"

text \<open>on PostgreSQL, whatever metrics come in whatever order, two alerts of one rule for one device are apart by the
  cooldown of the rule.\<close>

theorem alerts_keep_cooldown:
  assumes "spaced (as_rules st) (as_history st)" "inj_on ar_id (set (as_rules st))"
  shows "spaced (as_rules st) (as_history (alert_run f pg_alerts calls st))"
  using assms
proof (induction calls arbitrary: st)
  case (Cons c calls)
  obtain now m where c: "c = (now, m)" by (cases c)
  have "set (getAlertRules (me_type m) (as_rules st)) \<subseteq> set (as_rules st)" using getAlertRules_mem by blast
  then have "spaced (as_rules st) (as_history (evaluateRules f pg_alerts now m st))"
    using fold_spaced [OF Cons.prems(2) _ Cons.prems(1), of "getAlertRules (me_type m) (as_rules st)" f now m] Cons.prems(1)
    by (simp add: evaluateRules_def)
  then show ?case using Cons.IH [of "evaluateRules f pg_alerts now m st"] Cons.prems(2)
    by (simp add: alert_run_def c rules_kept)
qed (simp add: alert_run_def)

definition demo_rule :: alert_rule where
  "demo_rule = \<lparr>ar_id = 1, ar_name = ''CPU'', ar_enabled = True, ar_type = ''cpu_usage'', ar_op = ''gt'', ar_value = Some 90,
     ar_severity = None, ar_scope = None, ar_cooldown = Some 300, ar_emails = None, ar_created = 0\<rparr>"

definition busy_cpu :: metric where
  "busy_cpu = \<lparr>me_device = ''D1'', me_type = ''cpu_usage'', me_value = Some 95\<rparr>"

definition no_alerts :: "'t alert_state" where
  "no_alerts = \<lparr>as_rules = [demo_rule], as_history = [], as_mail = []\<rparr>"

theorem alerts_keep_cooldown_witness:
  "let h = as_history (alert_run (\<lambda>n. []) pg_alerts [(300000, busy_cpu), (400000, busy_cpu), (82800000, busy_cpu)] no_alerts)
   in map ah_time h = [300000, 82800000] \<and> spaced [demo_rule] h"
proof -
  have "spaced (as_rules (no_alerts :: int alert_state)) (as_history (alert_run (\<lambda>n. []) pg_alerts
      [(300000, busy_cpu), (400000, busy_cpu), (82800000, busy_cpu)] no_alerts))"
    by (rule alerts_keep_cooldown) (simp_all add: no_alerts_def spaced_def)
  moreover have "map ah_time (as_history (alert_run (\<lambda>n. []) pg_alerts
      [(300000, busy_cpu), (400000, busy_cpu), (82800000, busy_cpu)] no_alerts)) = [300000, 82800000]"
    by code_simp
  ultimately show ?thesis by (simp add: no_alerts_def)
qed

text \<open>On SQLite the separator \<open>T\<close> of the stored time is greater than the space of \<open>datetime\<close>: an alert counts as recent
  as long as the time that lies the cooldown back is of the same day, so a rule fires once a day.\<close>

lemma byte_less_prefix: "byte_less (p @ a) (p @ b) = byte_less a b"
  by (induction p) auto

lemma same_day_is_recent:
  assumes "t div DAY_MS = since div DAY_MS"
  shows "byte_less (sqlite_datetime since) (toISOString t)"
  using assms by (simp add: sqlite_datetime_def toISOString_def byte_less_prefix)

theorem sqlite_cooldown_lasts_all_day:
  assumes "a \<in> set (as_history st)" "ah_rule a = ar_id r" "ah_device a = me_device m" "ah_time a = toISOString t"
    and "t div DAY_MS = (now - cooldown_of r * 1000) div DAY_MS"
  shows "evaluate_rule f sqlite_alerts now m r st = st"
proof -
  have "sqlite_getRecentAlert now (ar_id r) (me_device m) (cooldown_of r) (as_history st) \<noteq> None"
  proof
    assume "sqlite_getRecentAlert now (ar_id r) (me_device m) (cooldown_of r) (as_history st) = None"
    then have "\<not> byte_less (sqlite_datetime (now - cooldown_of r * 1000)) (ah_time a)"
      using assms(1-3) unfolding sqlite_getRecentAlert_def recent_none by blast
    then show False using same_day_is_recent [OF assms(5)] assms(4) by simp
  qed
  then show ?thesis by (simp add: evaluate_rule_def sqlite_alerts_def)
qed

lemma cpu_rules: "getAlertRules (me_type busy_cpu) [demo_rule] = [demo_rule]"
  by code_simp

lemma first_alert:
  "as_history (evaluateRules f sqlite_alerts now busy_cpu no_alerts)
     = [\<lparr>ah_rule = 1, ah_device = ''D1'', ah_severity = ''warning'', ah_message = alert_message f busy_cpu demo_rule,
         ah_time = toISOString now\<rparr>]"
proof -
  have applies: "in_scope (me_device busy_cpu) demo_rule" "evalCondition (me_value busy_cpu) (ar_op demo_rule) (ar_value demo_rule)"
    by (simp_all add: in_scope_def demo_rule_def busy_cpu_def evalCondition_def OPS_def compare_numbers_def)
  have none: "sr_recent sqlite_alerts now i d c [] = None" for i d c
    by (simp add: sqlite_alerts_def sqlite_getRecentAlert_def recent_none)
  have ok: "sr_rules_ok sqlite_alerts" "sr_create_ok sqlite_alerts i" "sr_text sqlite_alerts = toISOString" for i
    by (simp_all add: sqlite_alerts_def)
  have start: "as_rules no_alerts = [demo_rule]" "as_history no_alerts = ([] :: string alert_row list)" by (simp_all add: no_alerts_def)
  have "as_history (evaluateRules f sqlite_alerts now busy_cpu no_alerts)
      = [\<lparr>ah_rule = ar_id demo_rule, ah_device = me_device busy_cpu, ah_severity = or_str (ar_severity demo_rule) ''warning'',
         ah_message = alert_message f busy_cpu demo_rule, ah_time = toISOString now\<rparr>]"
    by (simp add: evaluateRules_def evaluate_rule_def ok start cpu_rules applies none Let_def)
  moreover have "ar_id demo_rule = 1" "me_device busy_cpu = ''D1''" "or_str (ar_severity demo_rule) ''warning'' = ''warning''"
    by (simp_all add: demo_rule_def busy_cpu_def or_str_def)
  ultimately show ?thesis by simp
qed

theorem cooldown_differs_between_databases:
  "length (as_history (alert_run (\<lambda>n. []) sqlite_alerts [(300000, busy_cpu), (82800000, busy_cpu)] no_alerts)) = 1"
  "length (as_history (alert_run (\<lambda>n. []) pg_alerts [(300000, busy_cpu), (82800000, busy_cpu)] no_alerts)) = 2"
proof -
  let ?f = "(\<lambda>n. []) :: rat option \<Rightarrow> string"
  let ?st = "evaluateRules ?f sqlite_alerts 300000 busy_cpu no_alerts"
  have "as_rules ?st = [demo_rule]" by (simp add: rules_kept no_alerts_def)
  moreover have "evaluate_rule ?f sqlite_alerts 82800000 busy_cpu demo_rule ?st = ?st"
    by (rule sqlite_cooldown_lasts_all_day [of _ _ _ _ 300000, OF _ _ _ _ _, of "hd (as_history ?st)"])
      (unfold first_alert, simp_all add: demo_rule_def busy_cpu_def cooldown_of_def DAY_MS_def)
  ultimately have "evaluateRules ?f sqlite_alerts 82800000 busy_cpu ?st = ?st"
    using cpu_rules unfolding evaluateRules_def [of _ _ 82800000] by (simp only: fold_simps comp_def id_apply if_cancel)
  then show "length (as_history (alert_run ?f sqlite_alerts [(300000, busy_cpu), (82800000, busy_cpu)] no_alerts)) = 1"
    by (simp add: alert_run_def first_alert)
  show "length (as_history (alert_run ?f pg_alerts [(300000, busy_cpu), (82800000, busy_cpu)] no_alerts)) = 2"
    by code_simp
qed

end
