(* ===== verification/Panel_Events.thy ===== *)
theory Panel_Events
  imports Complex_Main Ws_Upgrade Event_System Json_Values
begin

text \<open>
  What the console tells its users: the push of device and panel events to the browsers
  (\<open>services/deviceStatusPush.js\<close>), the mail on a request for help (\<open>services/helpRequestEmailService.js\<close> with the parts
  of \<open>services/emailService.js\<close> it needs) and the list of pending registrations
  (\<open>services/registrationNotifications.js\<close>).

  The push is an event system: sockets open and close, the connection to the Go server comes and goes and brings
  events.  The mail on a request for help is modelled twice, as the loop over the recipients and step by step, since
  requests are handled without waiting for the one before.
\<close>

section \<open>The push of events (deviceStatusPush.js)\<close>

definition RECONNECT_BASE :: nat where "RECONNECT_BASE = 3000"
definition RECONNECT_MAX :: nat where "RECONNECT_MAX = 60000"

datatype channel = StatusChannel | PanelChannel

record push =
  dp_clients :: "nat list"
  dp_panelClients :: "nat list"
  dp_open :: "nat \<Rightarrow> bool"
  dp_out :: "(nat \<times> channel \<times> json) list"
  dp_cascades :: "(json \<times> json) list"
  dp_retryDelay :: nat
  dp_connected :: bool
  dp_timer :: "nat option"

definition push_init :: push where
  "push_init = \<lparr>dp_clients = [], dp_panelClients = [], dp_open = (\<lambda>i. False), dp_out = [], dp_cascades = [],
     dp_retryDelay = RECONNECT_BASE, dp_connected = True, dp_timer = None\<rparr>"

text \<open>Events: an upgrade that was accepted gives a socket, sockets close or fail, the connection to the Go server opens,
  brings a message, closes, and is made again by the timer; the panel publishes events of its own.\<close>

datatype 't push_event =
    StatusUpgrade nat "'t ws_env" ws_request
  | PanelUpgrade nat "'t ws_env" ws_request
  | SocketClosing nat
  | SocketGone nat
  | GoOpen
  | GoMessage int "json option"
  | GoClosed
  | RetryTimer
  | PublishPanelEvent json

definition set_insert :: "nat \<Rightarrow> nat list \<Rightarrow> nat list" where
  "set_insert i xs = (if i \<in> set xs then xs else xs @ [i])"

definition broadcast_status :: "json \<Rightarrow> push \<Rightarrow> push" where
  "broadcast_status m p = p\<lparr>dp_out := dp_out p @ map (\<lambda>i. (i, StatusChannel, m)) (filter (dp_open p) (dp_clients p))\<rparr>"

definition broadcastPanelEvent :: "json \<Rightarrow> push \<Rightarrow> push" where
  "broadcastPanelEvent m p = p\<lparr>dp_out := dp_out p @ map (\<lambda>i. (i, PanelChannel, m)) (filter (dp_open p) (dp_panelClients p))\<rparr>"

text \<open>An object literal, properties that are \<open>undefined\<close> left out by \<open>JSON.stringify\<close>.\<close>

definition obj_of :: "(string \<times> json option) list \<Rightarrow> (string \<times> json) list" where
  "obj_of fs = concat (map (\<lambda>(k, v). case v of Some x \<Rightarrow> [(k, x)] | None \<Rightarrow> []) fs)"

definition spread :: "json \<Rightarrow> (string \<times> json) list \<Rightarrow> (string \<times> json) list" where
  "spread v fs = fold (\<lambda>(k, x). set_field k x) (case v of JObj gs \<Rightarrow> gs | _ \<Rightarrow> []) fs"

definition stamp :: "int \<Rightarrow> json \<Rightarrow> json option" where
  "stamp now event = or_else (field event ''timestamp'') (Some (JNum now))"

definition event_is :: "json \<Rightarrow> string list \<Rightarrow> bool" where
  "event_is event types = (field event ''type'' \<in> Some ` JStr ` set types)"

definition on_go_message :: "int \<Rightarrow> json \<Rightarrow> push \<Rightarrow> push" where
  "on_go_message now event p =
     (let payload = (case or_else (field event ''data'') (Some (JObj [])) of Some v \<Rightarrow> v | None \<Rightarrow> JObj []) in
      if event_is event [''peer_id_changed''] then
        let oldId = field payload ''old_id''; newId = field payload ''new_id'';
            p1 = (if truthy oldId \<and> truthy newId then p\<lparr>dp_cascades := dp_cascades p @ [(the oldId, the newId)]\<rparr> else p)
        in broadcast_status (JObj (obj_of [(''type'', Some (JStr ''device_id_changed'')), (''old_id'', oldId), (''new_id'', newId),
             (''source'', or_else (field payload ''source'') (Some (JStr []))), (''timestamp'', stamp now event)])) p1
      else if event_is event [''device_pending'', ''enrollment_pending''] then
        broadcastPanelEvent (JObj (obj_of [(''type'', Some (JStr ''registration_pending'')), (''registration'', Some payload),
          (''timestamp'', stamp now event)])) p
      else if event_is event [''device_approved'', ''device_rejected'', ''enrollment_rejection_cleared''] then
        broadcastPanelEvent (JObj (obj_of [(''type'', Some (JStr ''registration_changed'')), (''registration'', Some payload),
          (''timestamp'', stamp now event)])) p
      else if event_is event [''help_request''] then
        broadcastPanelEvent (JObj (case stamp now event of
            Some t \<Rightarrow> set_field ''timestamp'' t (spread payload [(''type'', JStr ''help_request'')])
          | None \<Rightarrow> spread payload [(''type'', JStr ''help_request'')])) p
      else if event_is event [''peer_online'', ''peer_offline'', ''peer_status_changed'', ''peer_registered''] then
        broadcast_status (JObj (obj_of [(''type'', Some (JStr ''device_status'')),
          (''device_id'', or_else (field payload ''peer_id'') (or_else (field payload ''id'') (or_else (field event ''peer_id'')
             (or_else (field event ''id'') (field event ''device_id''))))),
          (''status'', or_else (field payload ''status'') (or_else (field event ''status'')
             (Some (JStr (if event_is event [''peer_online''] then ''online'' else ''offline''))))),
          (''timestamp'', stamp now event), (''details'', Some event)])) p
      else p)"

text \<open>One event; an event that cannot happen in a state, such as a message without a connection, changes nothing.\<close>

definition push_step :: "'t push_event \<Rightarrow> push \<Rightarrow> push" where
  "push_step e p =
     (case e of
        StatusUpgrade i env req \<Rightarrow>
          if device_status_upgrade env req = Accepted EpDeviceStatus \<and> i \<notin> set (dp_panelClients p)
          then p\<lparr>dp_clients := set_insert i (dp_clients p), dp_open := (dp_open p)(i := True)\<rparr> else p
      | PanelUpgrade i env req \<Rightarrow>
          if panel_events_upgrade env req = Accepted EpPanelEvents \<and> i \<notin> set (dp_clients p)
          then p\<lparr>dp_panelClients := set_insert i (dp_panelClients p), dp_open := (dp_open p)(i := True)\<rparr> else p
      | SocketClosing i \<Rightarrow> p\<lparr>dp_open := (dp_open p)(i := False)\<rparr>
      | SocketGone i \<Rightarrow> p\<lparr>dp_clients := filter (\<lambda>j. j \<noteq> i) (dp_clients p), dp_panelClients := filter (\<lambda>j. j \<noteq> i) (dp_panelClients p),
          dp_open := (dp_open p)(i := False)\<rparr>
      | GoOpen \<Rightarrow> if dp_connected p then p\<lparr>dp_retryDelay := RECONNECT_BASE\<rparr> else p
      | GoMessage now ev \<Rightarrow> if dp_connected p then (case ev of None \<Rightarrow> p | Some v \<Rightarrow> on_go_message now v p) else p
      | GoClosed \<Rightarrow> if dp_connected p
          then p\<lparr>dp_connected := False, dp_timer := Some (dp_retryDelay p), dp_retryDelay := min (dp_retryDelay p * 2) RECONNECT_MAX\<rparr>
          else p
      | RetryTimer \<Rightarrow> if dp_timer p \<noteq> None then p\<lparr>dp_connected := True, dp_timer := None\<rparr> else p
      | PublishPanelEvent m \<Rightarrow> broadcastPanelEvent m p)"

definition push_run :: "'t push_event list \<Rightarrow> push \<Rightarrow> push" where
  "push_run es p = fold push_step es p"


section \<open>Mail on a request for help (helpRequestEmailService.js)\<close>

record mail_config =
  mc_help_requests_enabled :: bool
  mc_notify_assigned_operators :: bool
  mc_fallback_alert_email :: bool
  mc_include_folder_in_subject :: bool

definition DEFAULT_CONFIG :: mail_config where
  "DEFAULT_CONFIG = \<lparr>mc_help_requests_enabled = True, mc_notify_assigned_operators = True, mc_fallback_alert_email = True,
     mc_include_folder_in_subject = True\<rparr>"

definition not_false :: "json \<Rightarrow> string \<Rightarrow> bool" where
  "not_false v k = (field v k \<noteq> Some (JBool False))"

definition parseCommercializationEmailConfig :: "(string \<Rightarrow> json option) \<Rightarrow> string option \<Rightarrow> mail_config" where
  "parseCommercializationEmailConfig json_of raw =
     (case Option.bind raw null_if_empty of None \<Rightarrow> DEFAULT_CONFIG
      | Some t \<Rightarrow> (case json_of t of None \<Rightarrow> DEFAULT_CONFIG
          | Some v \<Rightarrow> if v = JNull then DEFAULT_CONFIG
              else \<lparr>mc_help_requests_enabled = not_false v ''help_requests_enabled'',
                    mc_notify_assigned_operators = not_false v ''notify_assigned_operators'',
                    mc_fallback_alert_email = not_false v ''fallback_alert_email'',
                    mc_include_folder_in_subject = not_false v ''include_folder_in_subject''\<rparr>))"

text \<open>\<open>users\<close> is the table of names and addresses.\<close>

definition getUsersEmailsByUsernames :: "(string \<times> string option) list \<Rightarrow> string list \<Rightarrow> (string \<times> string) list" where
  "getUsersEmailsByUsernames users names =
     (let cleaned = filter (\<lambda>n. n \<noteq> []) (map js_trim names) in
      concat (map (\<lambda>(n, e). case e of Some a \<Rightarrow> if n \<in> set cleaned \<and> a \<noteq> [] then [(n, a)] else [] | None \<Rightarrow> []) users))"

fun distinct_emails :: "string list \<Rightarrow> (string \<times> string) list \<Rightarrow> (string \<times> string) list" where
  "distinct_emails seen [] = []"
| "distinct_emails seen ((n, e) # rows) =
     (let email = js_trim e in
      if email = [] \<or> email \<in> set seen then distinct_emails seen rows
      else (n, email) # distinct_emails (email # seen) rows)"

definition resolveOperatorEmails :: "(string \<times> string option) list \<Rightarrow> string list \<Rightarrow> (string \<times> string) list" where
  "resolveOperatorEmails users names = (if names = [] then [] else distinct_emails [] (getUsersEmailsByUsernames users names))"

record help_event =
  he_id :: string
  he_device_id :: string
  he_message :: string
  he_hostname :: string

text \<open>\<open>names\<close> and \<open>folder\<close> are the results of the look-ups of \<open>deviceGroupService\<close> for the device: an exception stops the
  handling.  The result is the name of the folder for the subject and the recipients.\<close>

definition help_recipients ::
    "mail_config \<Rightarrow> (string \<times> string option) list \<Rightarrow> string option \<Rightarrow> (string \<Rightarrow> scope_error + string)
     \<Rightarrow> (string \<Rightarrow> scope_error + string list) \<Rightarrow> help_event \<Rightarrow> scope_error + (string \<times> string list) option" where
  "help_recipients c users alert_email folder names ev =
     (let requestId = js_trim (he_id ev); deviceId = js_trim (he_device_id ev) in
      if \<not> mc_help_requests_enabled c \<or> requestId = [] \<or> deviceId = [] then Inr None
      else case folder deviceId of Inl e \<Rightarrow> Inl e
      | Inr folderName \<Rightarrow>
         (case (if mc_notify_assigned_operators c then names deviceId else Inr []) of
            Inl e \<Rightarrow> Inl e
          | Inr ns \<Rightarrow>
              let operators = map snd (resolveOperatorEmails users ns);
                  recipients = (if operators = [] \<and> mc_fallback_alert_email c
                                then (case Option.bind alert_email null_if_empty of Some a \<Rightarrow> [a] | None \<Rightarrow> []) else operators)
              in if recipients = [] then Inr None
                 else Inr (Some (if mc_include_folder_in_subject c then folderName else [],
                                 js_unique (filter (\<lambda>r. r \<noteq> []) (map js_trim recipients))))))"

text \<open>The log and the mails that went out, of requests and recipients.\<close>

record mails =
  ml_log :: "(string \<times> string) list"
  ml_sent :: "(string \<times> string) list"

definition mail_one :: "(string \<Rightarrow> bool) \<Rightarrow> string \<Rightarrow> string \<Rightarrow> mails \<Rightarrow> mails" where
  "mail_one works requestId recipient m =
     (if (requestId, recipient) \<in> set (ml_log m) then m
      else if \<not> works recipient then m
      else m\<lparr>ml_sent := ml_sent m @ [(requestId, recipient)],
             ml_log := (if (requestId, recipient) \<in> set (ml_log m) then ml_log m else ml_log m @ [(requestId, recipient)])\<rparr>)"

definition mail_all :: "(string \<Rightarrow> bool) \<Rightarrow> string \<Rightarrow> string list \<Rightarrow> mails \<Rightarrow> mails" where
  "mail_all works requestId recipients m = fold (mail_one works requestId) recipients m"

text \<open>The same step by step: a request being handled waits for the look-up in the log, for the mail, for the entry.\<close>

datatype mail_phase = Checking | Sending | Logging

record mail_task =
  mt_id :: string
  mt_todo :: "string list"
  mt_phase :: mail_phase

definition mail_step :: "bool \<Rightarrow> mail_task \<Rightarrow> mails \<Rightarrow> mail_task \<times> mails" where
  "mail_step works t m =
     (case mt_todo t of [] \<Rightarrow> (t, m)
      | r # rs \<Rightarrow>
         (case mt_phase t of
            Checking \<Rightarrow> if (mt_id t, r) \<in> set (ml_log m) then (t\<lparr>mt_todo := rs\<rparr>, m) else (t\<lparr>mt_phase := Sending\<rparr>, m)
          | Sending \<Rightarrow> if works then (t\<lparr>mt_phase := Logging\<rparr>, m\<lparr>ml_sent := ml_sent m @ [(mt_id t, r)]\<rparr>)
                       else (t\<lparr>mt_todo := rs, mt_phase := Checking\<rparr>, m)
          | Logging \<Rightarrow> (t\<lparr>mt_todo := rs, mt_phase := Checking\<rparr>,
                       m\<lparr>ml_log := (if (mt_id t, r) \<in> set (ml_log m) then ml_log m else ml_log m @ [(mt_id t, r)])\<rparr>)))"


section \<open>Addresses and texts of the mail (emailService.js)\<close>

definition replace_char :: "char \<Rightarrow> string \<Rightarrow> string \<Rightarrow> string" where
  "replace_char c r s = concat (map (\<lambda>x. if x = c then r else [x]) s)"

definition escapeHtml :: "string \<Rightarrow> string" where
  "escapeHtml s = replace_char CHR 0x22 ''&quot;'' (replace_char CHR ''>'' ''&gt;''
     (replace_char CHR ''<'' ''&lt;'' (replace_char CHR ''&'' ''&amp;'' s)))"

definition countRecipients :: "string \<Rightarrow> nat" where
  "countRecipients to = length (filter (\<lambda>r. r \<noteq> []) (map js_trim (split_on CHR '','' to)))"

definition drop_slash :: "string \<Rightarrow> string" where
  "drop_slash s = (if endsWith s ''/'' then butlast s else s)"

record panel_config =
  pc_host :: string
  pc_port :: int
  pc_httpsEnabled :: bool
  pc_httpRedirect :: bool

definition getPanelBaseUrl :: "string option \<Rightarrow> string option \<Rightarrow> panel_config \<Rightarrow> string" where
  "getPanelBaseUrl panel_url public_url c =
     (let explicit = or_str panel_url (or_str public_url []) in
      if explicit \<noteq> [] then drop_slash explicit
      else (if pc_httpRedirect c then ''https'' else ''http'') @ ''://'' @ (if pc_host c = ''0.0.0.0'' then ''127.0.0.1'' else pc_host c)
             @ '':'' @ show_int (pc_port c))"


section \<open>Pending registrations (registrationNotifications.js)\<close>

record lan_registration =
  lr_id :: "int option"
  lr_device_id :: string
  lr_hostname :: string
  lr_platform :: string
  lr_ip :: string
  lr_created :: "int option"

record enrollment =
  en_device_id :: string
  en_hostname :: string
  en_platform :: string
  en_ip :: string
  en_created :: "int option"

record reg_note =
  rn_id :: string
  rn_title :: string
  rn_message :: string
  rn_created :: int
  rn_source :: string
  rn_device :: string

text \<open>Times in milliseconds; \<^term>\<open>None\<close> is a missing or unreadable date, for which the present time stands.\<close>

definition registrationMessage :: "string \<Rightarrow> string \<Rightarrow> string \<Rightarrow> string" where
  "registrationMessage deviceId platform ip = join_with [CHR '' '', CHR 0xB7, CHR '' ''] (filter (\<lambda>s. s \<noteq> []) [deviceId, platform, ip])"

definition lanRegistrationToNotification :: "int \<Rightarrow> lan_registration \<Rightarrow> reg_note option" where
  "lanRegistrationToNotification now r =
     (case lr_id r of None \<Rightarrow> None
      | Some i \<Rightarrow> Some \<lparr>rn_id = ''registration:lan:'' @ show_int i,
          rn_title = (if lr_hostname r \<noteq> [] then lr_hostname r else lr_device_id r),
          rn_message = registrationMessage (lr_device_id r) (lr_platform r) (lr_ip r),
          rn_created = (case lr_created r of Some t \<Rightarrow> t | None \<Rightarrow> now), rn_source = ''lan'', rn_device = lr_device_id r\<rparr>)"

definition enrollmentToNotification :: "int \<Rightarrow> enrollment \<Rightarrow> reg_note option" where
  "enrollmentToNotification now e =
     (if en_device_id e = [] then None
      else Some \<lparr>rn_id = ''registration:enrollment:'' @ en_device_id e,
          rn_title = (if en_hostname e \<noteq> [] then en_hostname e else en_device_id e),
          rn_message = registrationMessage (en_device_id e) (en_platform e) (en_ip e),
          rn_created = (case en_created e of Some t \<Rightarrow> t | None \<Rightarrow> now), rn_source = ''enrollment'', rn_device = en_device_id e\<rparr>)"

text \<open>A source that fails is \<^term>\<open>None\<close>.\<close>

definition listRegistrationNotifications ::
    "int \<Rightarrow> lan_registration list option \<Rightarrow> enrollment list option \<Rightarrow> reg_note list \<times> nat" where
  "listRegistrationNotifications now lan enrollments =
     (let lanItems = List.map_filter (lanRegistrationToNotification now) (case lan of Some rs \<Rightarrow> rs | None \<Rightarrow> []);
          enrollmentItems = List.map_filter (enrollmentToNotification now) (case enrollments of Some es \<Rightarrow> es | None \<Rightarrow> []);
          items = sort_key (\<lambda>n. - rn_created n) (lanItems @ enrollmentItems)
      in (items, length items))"


section \<open>Who hears what\<close>

definition approves :: "'t push_event list \<Rightarrow> nat \<Rightarrow> bool" where
  "approves es i = (\<exists>env req. PanelUpgrade i env req \<in> set es \<and> ws_logged_in req
     \<and> roleHasEffectivePermission (we_resolved env) (user_role req) ''enrollment.approve'' = Inr True)"

definition status_message :: "json \<Rightarrow> bool" where
  "status_message m = (field m ''type'' \<in> {Some (JStr ''device_status''), Some (JStr ''device_id_changed'')})"

definition push_ok :: "(nat \<Rightarrow> bool) \<Rightarrow> push \<Rightarrow> bool" where
  "push_ok approved p =
     (list_all approved (dp_panelClients p) \<and> set (dp_clients p) \<inter> set (dp_panelClients p) = {}
      \<and> list_all (\<lambda>(i, c, m). case c of PanelChannel \<Rightarrow> approved i | StatusChannel \<Rightarrow> status_message m) (dp_out p))"

lemma broadcast_status_ok: "push_ok A p \<Longrightarrow> status_message m \<Longrightarrow> push_ok A (broadcast_status m p)"
  by (auto simp: push_ok_def broadcast_status_def list_all_iff)

lemma broadcastPanelEvent_ok: "push_ok A p \<Longrightarrow> push_ok A (broadcastPanelEvent m p)"
  by (auto simp: push_ok_def broadcastPanelEvent_def list_all_iff)

lemma status_types:
  "status_message (JObj (obj_of ((''type'', Some (JStr ''device_status'')) # fs)))"
  "status_message (JObj (obj_of ((''type'', Some (JStr ''device_id_changed'')) # fs)))"
  by (simp_all add: status_message_def field_def obj_of_def)

lemma cascade_ok: "push_ok A (p\<lparr>dp_cascades := cs\<rparr>) = push_ok A p"
  by (simp add: push_ok_def)

lemma go_message_ok: "push_ok A p \<Longrightarrow> push_ok A (on_go_message now ev p)"
proof -
  assume ok: "push_ok A p"
  have s: "push_ok A (broadcast_status (JObj (obj_of ((''type'', Some (JStr ''device_status'')) # fs))) q)"
    "push_ok A (broadcast_status (JObj (obj_of ((''type'', Some (JStr ''device_id_changed'')) # fs))) q)"
    if "push_ok A q" for fs q
    by (rule broadcast_status_ok [OF that status_types(1)], rule broadcast_status_ok [OF that status_types(2)])
  have c: "push_ok A (if b then p\<lparr>dp_cascades := cs\<rparr> else p)" for b cs using ok by (simp add: cascade_ok)
  have branch: "push_ok A x \<Longrightarrow> push_ok A y \<Longrightarrow> push_ok A (if b then x else y)" for b x y by simp
  show ?thesis
    unfolding on_go_message_def Let_def
    by (intro branch s c broadcastPanelEvent_ok ok)
qed

lemma accepted_panel:
  "panel_events_upgrade env req = Accepted EpPanelEvents \<Longrightarrow> ws_logged_in req
     \<and> roleHasEffectivePermission (we_resolved env) (user_role req) ''enrollment.approve'' = Inr True"
  by (auto simp: panel_events_upgrade_def split: if_splits sum.splits)

lemma push_step_ok:
  assumes "push_ok A p" "\<And>i env req. e = PanelUpgrade i env req \<Longrightarrow> panel_events_upgrade env req = Accepted EpPanelEvents \<Longrightarrow> A i"
  shows "push_ok A (push_step e p)"
proof (cases e)
  case (PanelUpgrade i env req)
  then show ?thesis using assms by (auto simp: push_step_def push_ok_def set_insert_def list_all_iff)
next
  case (StatusUpgrade i env req)
  then show ?thesis using assms(1) by (auto simp: push_step_def push_ok_def set_insert_def list_all_iff)
next
  case (GoMessage now ev)
  then show ?thesis using assms(1) go_message_ok by (auto simp: push_step_def split: option.split)
next
  case (PublishPanelEvent m)
  then show ?thesis using assms(1) broadcastPanelEvent_ok by (simp add: push_step_def)
next
  case (SocketGone i)
  then show ?thesis using assms(1) by (auto simp: push_step_def push_ok_def list_all_iff)
qed (use assms(1) in \<open>simp_all add: push_step_def push_ok_def\<close>)

lemma push_run_ok:
  "push_ok A p \<Longrightarrow> (\<And>i env req. PanelUpgrade i env req \<in> set es \<Longrightarrow> panel_events_upgrade env req = Accepted EpPanelEvents \<Longrightarrow> A i)
     \<Longrightarrow> push_ok A (push_run es p)"
  unfolding push_run_def
proof (induction es arbitrary: p)
  case (Cons e es)
  have "push_ok A (push_step e p)" using Cons.prems by (intro push_step_ok) auto
  moreover have "\<And>i env req. PanelUpgrade i env req \<in> set es \<Longrightarrow> panel_events_upgrade env req = Accepted EpPanelEvents \<Longrightarrow> A i"
    using Cons.prems(2) by auto
  ultimately have "push_ok A (fold push_step es (push_step e p))" by (rule Cons.IH)
  then show ?case by simp
qed simp

lemma push_init_ok: "push_ok A push_init" by (simp add: push_ok_def push_init_def)

text \<open>C30: whatever happens, the news of registrations and requests for help go only to sockets whose upgrade was made by a
  signed-in user whose role may approve enrollments; all that goes to other sockets is the status of a device or the
  change of its id.\<close>

theorem registrations_reach_approvers_only:
  "list_all (\<lambda>(i, c, m). case c of PanelChannel \<Rightarrow> approves es i | StatusChannel \<Rightarrow> status_message m)
     (dp_out (push_run es push_init))"
proof -
  have "push_ok (approves es) (push_run es push_init)"
    by (rule push_run_ok [OF push_init_ok]) (use accepted_panel in \<open>auto simp: approves_def\<close>)
  then show ?thesis by (simp add: push_ok_def)
qed

text \<open>The console is connected to the Go server or waits to connect again, and never waits less than three seconds or more
  than a minute.\<close>

definition retry_ok :: "push \<Rightarrow> bool" where
  "retry_ok p = (RECONNECT_BASE \<le> dp_retryDelay p \<and> dp_retryDelay p \<le> RECONNECT_MAX \<and> (dp_connected p = (dp_timer p = None))
     \<and> pred_option (\<lambda>d. RECONNECT_BASE \<le> d \<and> d \<le> RECONNECT_MAX) (dp_timer p))"

lemma go_message_retry:
  "dp_retryDelay (on_go_message now ev p) = dp_retryDelay p" "dp_connected (on_go_message now ev p) = dp_connected p"
  "dp_timer (on_go_message now ev p) = dp_timer p"
  by (simp_all add: on_go_message_def broadcast_status_def broadcastPanelEvent_def Let_def)

lemma push_step_retry: "retry_ok p \<Longrightarrow> retry_ok (push_step e p)"
  by (cases e) (auto simp: push_step_def retry_ok_def RECONNECT_BASE_def RECONNECT_MAX_def go_message_retry
      broadcastPanelEvent_def split: option.split)

interpretation push_events: event_invariant "\<lambda>e p. Some (push_step e p)" push_init retry_ok
proof (unfold_locales, goal_cases)
  case 1
  show ?case by (simp add: push_init_def retry_ok_def RECONNECT_BASE_def RECONNECT_MAX_def)
next
  case (2 s ev s')
  then show ?case using push_step_retry by (metis option.inject)
qed

lemma push_run_events: "run_events (\<lambda>e p. Some (push_step e p)) es p = Some (push_run es p)"
  by (induction es arbitrary: p) (simp_all add: push_run_def)

theorem reconnect_delay_bounds: "retry_ok (push_run es push_init)"
  by (rule push_events.inv_run [OF push_events.inv_init push_run_events])


section \<open>The mails\<close>

text \<open>Handled one after the other, whatever mails fail, a request is mailed to a recipient at most once.\<close>

definition mails_ok :: "mails \<Rightarrow> bool" where
  "mails_ok m = (distinct (ml_sent m) \<and> set (ml_sent m) \<subseteq> set (ml_log m))"

lemma mail_one_ok: "mails_ok m \<Longrightarrow> mails_ok (mail_one w i r m)"
  by (auto simp: mails_ok_def mail_one_def)

lemma mail_all_ok: "mails_ok m \<Longrightarrow> mails_ok (mail_all w i rs m)"
  unfolding mail_all_def by (induction rs arbitrary: m) (simp_all add: mail_one_ok)

theorem help_request_mailed_once:
  "distinct (ml_sent (fold (\<lambda>(w, i, rs). mail_all w i rs) requests \<lparr>ml_log = [], ml_sent = []\<rparr>))"
proof -
  have "mails_ok m \<Longrightarrow> mails_ok (fold (\<lambda>(w, i, rs). mail_all w i rs) requests m)" for m
    by (induction requests arbitrary: m) (auto simp: mail_all_ok)
  then show ?thesis by (simp add: mails_ok_def)
qed

text \<open>The step-by-step handling of one request does what the loop does.\<close>

lemma mail_steps_of_one:
  assumes "mt_todo t = r # rs" "mt_phase t = Checking"
  shows "\<exists>n. ((\<lambda>(t, m). mail_step (w r) t m) ^^ n) (t, m) = (t\<lparr>mt_todo := rs\<rparr>, mail_one w (mt_id t) r m)"
proof (cases "(mt_id t, r) \<in> set (ml_log m)")
  case True
  then show ?thesis using assms by (intro exI [of _ 1]) (simp add: mail_step_def mail_one_def)
next
  case logged: False
  show ?thesis
  proof (cases "w r")
    case True
    then show ?thesis using assms logged
      by (intro exI [of _ 3]) (simp add: mail_step_def mail_one_def eval_nat_numeral)
  next
    case False
    then show ?thesis using assms logged
      by (intro exI [of _ 2]) (simp add: mail_step_def mail_one_def eval_nat_numeral)
  qed
qed

text \<open>Two notices of one request handled at the same time both find no entry in the log, and both send.\<close>

theorem concurrent_notices_mail_twice:
  "(let t = \<lparr>mt_id = ''7'', mt_todo = [''a@x''], mt_phase = Checking\<rparr>; m = \<lparr>ml_log = [], ml_sent = []\<rparr>;
        (t1, m) = mail_step True t m; (t2, m) = mail_step True t m; (t1, m) = mail_step True t1 m; (t2, m) = mail_step True t2 m
    in ml_sent m) = [(''7'', ''a@x''), (''7'', ''a@x'')]"
  by code_simp

text \<open>With the adapters as they are the look-up of the folder throws for every device, so no request for help is ever
  mailed.\<close>

theorem help_request_never_mailed:
  assumes "mc_help_requests_enabled c" "js_trim (he_id ev) \<noteq> []" "js_trim (he_device_id ev) \<noteq> []"
  shows "help_recipients c users alert_email (resolveFolderNameForDevice (getAllFolderAssignments db) db)
      (resolveOperatorUsernamesForDevice json (getAllFolderAssignments db) db devices) ev = Inl NotIterable"
proof -
  have "js_trim (js_trim (he_device_id ev)) \<noteq> []" using assms(3) by simp
  then have "resolveFolderNameForDevice (getAllFolderAssignments db) db (js_trim (he_device_id ev)) = Inl NotIterable"
    by (rule operator_lookup_always_throws [THEN conjunct2])
  then show ?thesis using assms unfolding help_recipients_def Let_def by (simp only: simp_thms if_False sum.case)
qed


section \<open>Texts\<close>

text \<open>The four replacements are the escape of each character, which can be undone and leaves no markup.\<close>

definition escape_char :: "char \<Rightarrow> string" where
  "escape_char c = (if c = CHR ''&'' then ''&amp;'' else if c = CHR ''<'' then ''&lt;'' else if c = CHR ''>'' then ''&gt;''
     else if c = CHR 0x22 then ''&quot;'' else [c])"

lemma replace_char_append: "replace_char c r (a @ b) = replace_char c r a @ replace_char c r b"
  by (simp add: replace_char_def)

theorem escapeHtml_by_character: "escapeHtml s = concat (map escape_char s)"
proof (induction s)
  case (Cons c s)
  have "escapeHtml (c # s) = escapeHtml [c] @ escapeHtml s"
    using replace_char_append [of _ _ "[c]" s] by (simp add: escapeHtml_def replace_char_append)
  moreover have "escapeHtml [c] = escape_char c" by (simp add: escapeHtml_def replace_char_def escape_char_def)
  ultimately show ?case using Cons by simp
qed (simp add: escapeHtml_def replace_char_def)

fun unescapeHtml :: "string \<Rightarrow> string" where
  "unescapeHtml [] = []"
| "unescapeHtml (c # s) =
     (if startsWith (c # s) ''&amp;'' then CHR ''&'' # unescapeHtml (drop 4 s)
      else if startsWith (c # s) ''&lt;'' then CHR ''<'' # unescapeHtml (drop 3 s)
      else if startsWith (c # s) ''&gt;'' then CHR ''>'' # unescapeHtml (drop 3 s)
      else if startsWith (c # s) ''&quot;'' then CHR 0x22 # unescapeHtml (drop 5 s)
      else c # unescapeHtml s)"

theorem escapeHtml_roundtrip: "unescapeHtml (escapeHtml s) = s"
  unfolding escapeHtml_by_character
proof (induction s)
  case (Cons c s)
  show ?case
  proof (cases "c \<in> {CHR ''&'', CHR ''<'', CHR ''>'', CHR 0x22}")
    case True
    then show ?thesis using Cons by (auto simp: escape_char_def startsWith_def)
  next
    case False
    then show ?thesis using Cons by (auto simp: escape_char_def startsWith_def)
  qed
qed simp

theorem escaped_without_markup: "c \<in> set (escapeHtml s) \<Longrightarrow> c \<notin> {CHR ''<'', CHR ''>'', CHR 0x22}"
  unfolding escapeHtml_by_character by (auto simp: escape_char_def split: if_splits)

text \<open>Links in mails: without a public address and with the defaults they name a protocol the panel does not speak.\<close>

theorem default_panel_link:
  "getPanelBaseUrl None None \<lparr>pc_host = ''0.0.0.0'', pc_port = port, pc_httpsEnabled = False, pc_httpRedirect = True\<rparr>
     = ''https://127.0.0.1:'' @ show_int port"
  by (simp add: getPanelBaseUrl_def or_str_def)


section \<open>The list of registrations\<close>

text \<open>The list holds the registrations of both sources, the newest first; a source that fails hides none of the other.\<close>

lemma map_filter_concat: "set (List.map_filter f xs) = {y. \<exists>x \<in> set xs. f x = Some y}"
  by (force simp: map_filter_def)

theorem registrations_of_both_sources:
  "let r = listRegistrationNotifications now lan enrollments in
     set (fst r) = {n. \<exists>rs x. lan = Some rs \<and> x \<in> set rs \<and> lanRegistrationToNotification now x = Some n}
                 \<union> {n. \<exists>es x. enrollments = Some es \<and> x \<in> set es \<and> enrollmentToNotification now x = Some n}
     \<and> sorted_wrt (\<lambda>a b. rn_created b \<le> rn_created a) (fst r) \<and> snd r = length (fst r)"
proof -
  have "sorted (map (\<lambda>n. - rn_created n) (sort_key (\<lambda>n. - rn_created n) xs))" for xs :: "reg_note list" by (rule sorted_sort_key)
  then have "sorted_wrt (\<lambda>a b. rn_created b \<le> rn_created a) (sort_key (\<lambda>n. - rn_created n) xs)" for xs :: "reg_note list"
    by (simp add: sorted_wrt_map)
  moreover have "set (fst (listRegistrationNotifications now lan enrollments))
      = {n. \<exists>rs x. lan = Some rs \<and> x \<in> set rs \<and> lanRegistrationToNotification now x = Some n}
      \<union> {n. \<exists>es x. enrollments = Some es \<and> x \<in> set es \<and> enrollmentToNotification now x = Some n}"
    by (cases lan; cases enrollments)
      (simp_all add: listRegistrationNotifications_def Let_def map_filter_concat, blast+)
  ultimately show ?thesis by (simp add: listRegistrationNotifications_def Let_def)
qed

end
