(* ===== verification/Update_Policy.thy ===== *)
theory Update_Policy
  imports Complex_Main BD_Prelude
begin

text \<open>
  Decisions around an update of the console: which failures stop it (\<open>lib/updateFailurePolicy.js\<close>), what is shown of the
  last one (\<open>lib/updateResultStore.js\<close>), which files the console needs to start (\<open>lib/consoleDeployGraph.js\<close>), and the
  ports and the capability in the service unit (\<open>lib/privilegedPorts.js\<close>).

  The files are arguments: whether a path below the root exists, whether it is a directory, its text.  Texts are split
  into lines at line feeds and, where a pattern is matched line by line, at carriage returns too.
\<close>

section \<open>Failures of an update (updateFailurePolicy.js)\<close>

definition NON_CRITICAL_UPDATE_FAILURES :: "string list" where
  "NON_CRITICAL_UPDATE_FAILURES =
    [''betterdesk-server'', ''betterdesk-server-deploy'', ''betterdesk-server.service'', ''server-source'', ''npm install'',
     ''support-agent-source-sync'', ''support-agent-rebuild-defer'', ''betterdesk.sh'', ''betterdesk.ps1'',
     ''betterdesk-docker.sh'', ''docker-compose.yml'', ''docker-compose.single.yml'', ''docker-compose.quick.yml'',
     ''docker-compose.quick.single.yml'', ''docker-compose.quick.single.macvlan.yml'', ''Dockerfile'', ''Dockerfile.server'',
     ''Dockerfile.console'', ''VERSION'']"

definition isNonCriticalUpdateFailure :: "string \<Rightarrow> bool" where
  "isNonCriticalUpdateFailure fileKey = (fileKey \<in> set NON_CRITICAL_UPDATE_FAILURES)"

definition localPathFromFailureFile :: "string \<Rightarrow> string" where
  "localPathFromFailureFile fileKey = (if startsWith fileKey ''web-nodejs/'' then drop 11 fileKey else fileKey)"

definition drop_js :: "string \<Rightarrow> string" where
  "drop_js p = take (length p - 3) p"

text \<open>The root is \<^term>\<open>None\<close> when it is not known.\<close>

definition isPhantomRepairFailure :: "(string \<Rightarrow> bool) option \<Rightarrow> string \<Rightarrow> bool" where
  "isPhantomRepairFailure rootDir fileKey =
     (let localPath = localPathFromFailureFile fileKey in
      case rootDir of None \<Rightarrow> False
      | Some exists \<Rightarrow>
          if localPath = [] then False
          else if localPath = ''routes.js'' then exists ''routes/index.js''
          else if startsWith localPath ''scripts/scripts/'' then True
          else endsWith localPath ''.js'' \<and> exists (drop_js localPath @ ''/index.js''))"

record update_failure =
  uf_file :: string
  uf_nonCritical :: bool
  uf_nodeModulesOk :: bool

definition isFailureNonCritical :: "(string \<Rightarrow> bool) option \<Rightarrow> update_failure \<Rightarrow> bool" where
  "isFailureNonCritical rootDir e =
     (uf_nonCritical e \<or> isNonCriticalUpdateFailure (uf_file e) \<or> (uf_file e = ''npm install'' \<and> uf_nodeModulesOk e)
      \<or> isPhantomRepairFailure rootDir (uf_file e))"

fun splitUpdateFailures :: "(string \<Rightarrow> bool) option \<Rightarrow> update_failure list \<Rightarrow> update_failure list \<times> update_failure list" where
  "splitUpdateFailures rootDir [] = ([], [])"
| "splitUpdateFailures rootDir (e # es) =
     (case splitUpdateFailures rootDir es of (critical, nonCritical) \<Rightarrow>
        if isFailureNonCritical rootDir e then (critical, e # nonCritical) else (e # critical, nonCritical))"

datatype restart_decision = RestartNotNeeded | RestartAllowed bool | RestartBlocked string

text \<open>\<open>permissions\<close> is \<open>servicePatch.consolePermissionsOk\<close>; the flag of \<open>RestartAllowed\<close> is the note on the warning.\<close>

definition canScheduleConsoleRestart :: "bool \<Rightarrow> bool option \<Rightarrow> string option \<Rightarrow> bool \<Rightarrow> string \<Rightarrow> restart_decision" where
  "canScheduleConsoleRestart needed permissions userError writable dataDir =
     (if \<not> needed then RestartNotNeeded
      else if permissions \<noteq> Some False then RestartAllowed False
      else if writable then RestartAllowed True
      else RestartBlocked (or_str userError (''Console data directory is not writable: '' @ dataDir)))"


section \<open>The last update (updateResultStore.js)\<close>

record update_record =
  ur_sha :: "string option"
  ur_failed :: "update_failure list"
  ur_servicesFailed :: bool
  ur_restartBlocked :: bool

definition shaMatches :: "string option \<Rightarrow> string option \<Rightarrow> bool" where
  "shaMatches a b =
     (let left = js_lower (js_trim (or_str a [])); right = js_lower (js_trim (or_str b [])) in
      left \<noteq> [] \<and> right \<noteq> [] \<and> (left = right \<or> startsWith left (take 7 right) \<or> startsWith right (take 7 left)))"

record shown_update =
  su_record :: update_record
  su_critical :: "update_failure list"
  su_nonCritical :: "update_failure list"

text \<open>What is shown, and the stored record afterwards; \<open>deletes\<close> is whether the file can be removed.\<close>

definition resolveLastUpdateResultForDisplay ::
    "bool \<Rightarrow> (string \<Rightarrow> bool) option \<Rightarrow> string option \<Rightarrow> string option \<Rightarrow> update_record option
     \<Rightarrow> shown_update option \<times> update_record option" where
  "resolveLastUpdateResultForDisplay deletes rootDir localSHA remoteSHA stored =
     (let cleared = (if deletes then None else stored) in
      case stored of None \<Rightarrow> (None, None)
      | Some r \<Rightarrow>
         (case splitUpdateFailures rootDir (ur_failed r) of (critical, nonCritical) \<Rightarrow>
            if Option.bind localSHA null_if_empty \<noteq> None \<and> Option.bind (ur_sha r) null_if_empty \<noteq> None \<and> shaMatches localSHA (ur_sha r)
            then (None, cleared)
            else if Option.bind localSHA null_if_empty \<noteq> None \<and> Option.bind remoteSHA null_if_empty \<noteq> None \<and> shaMatches localSHA remoteSHA
                   \<and> Option.bind (ur_sha r) null_if_empty \<noteq> None \<and> \<not> shaMatches (ur_sha r) remoteSHA
            then (None, cleared)
            else if critical = [] \<and> \<not> ur_servicesFailed r \<and> \<not> ur_restartBlocked r
            then (None, if ur_failed r \<noteq> [] \<or> nonCritical \<noteq> [] then cleared else stored)
            else (Some \<lparr>su_record = r, su_critical = critical, su_nonCritical = nonCritical\<rparr>, stored)))"


section \<open>The files the console needs (consoleDeployGraph.js)\<close>

definition CONSOLE_SKIP_PATH_PREFIXES :: "string list" where
  "CONSOLE_SKIP_PATH_PREFIXES = [''node_modules/'', ''test/'', ''tests/'']"

definition CONSOLE_INTEGRITY_SEEDS :: "string list" where
  "CONSOLE_INTEGRITY_SEEDS = [''server.js'', ''routes/index.js'', ''routes/auth.routes.js'', ''routes/server-attestation.routes.js'']"

definition isConsoleDeployLocalPath :: "string \<Rightarrow> bool" where
  "isConsoleDeployLocalPath p = (p \<noteq> [] \<and> p \<noteq> ''package-lock.json'' \<and> \<not> list_ex (startsWith p) CONSOLE_SKIP_PATH_PREFIXES)"

text \<open>The text after the first end of a comment; the whole is \<^term>\<open>None\<close> when the comment does not end.\<close>

fun after_block :: "string \<Rightarrow> string option" where
  "after_block (a # b # s) = (if a = CHR ''*'' \<and> b = CHR ''/'' then Some s else after_block (b # s))"
| "after_block _ = None"

lemma after_block_length: "after_block s = Some r \<Longrightarrow> length r < length s"
  by (induction s rule: after_block.induct) (auto split: if_splits)

function strip_blocks :: "string \<Rightarrow> string" where
  "strip_blocks [] = []"
| "strip_blocks (c # s) =
     (if startsWith (c # s) ''/*'' then (case after_block (drop 1 s) of Some r \<Rightarrow> strip_blocks r | None \<Rightarrow> c # strip_blocks s)
      else c # strip_blocks s)"
  by pat_completeness auto
termination
  by (relation "measure length") (auto dest!: after_block_length)

function strip_line_comments :: "string \<Rightarrow> string" where
  "strip_line_comments [] = []"
| "strip_line_comments (c # s) =
     (if startsWith (c # s) ''//'' then strip_line_comments (dropWhile (\<lambda>x. x \<notin> {CHR 0x0A, CHR 0x0D}) s)
      else c # strip_line_comments s)"
  by pat_completeness auto
termination
  by (relation "measure length") (auto simp: le_imp_less_Suc length_dropWhile_le)

definition stripJsCommentsForRequireScan :: "string \<Rightarrow> string" where
  "stripJsCommentsForRequireScan s = strip_line_comments (strip_blocks s)"

definition quote_char :: "char \<Rightarrow> bool" where
  "quote_char c = (c = CHR 0x27 \<or> c = CHR 0x22)"

text \<open>One match of the pattern for \<open>require('./path')\<close> at the start of a text: the path and the rest.\<close>

definition match_require :: "string \<Rightarrow> (string \<times> string) option" where
  "match_require s =
     (if \<not> startsWith s ''require'' then None
      else let a = dropWhile js_ws (drop 7 s) in
        if a = [] \<or> hd a \<noteq> CHR ''('' then None
        else let b = dropWhile js_ws (tl a) in
          if b = [] \<or> \<not> quote_char (hd b) then None
          else let p = takeWhile (\<lambda>c. \<not> quote_char c) (tl b); rest = dropWhile (\<lambda>c. \<not> quote_char c) (tl b) in
            if length p < 2 \<or> hd p \<noteq> CHR ''.'' \<or> rest = [] then None
            else let d = dropWhile js_ws (tl rest) in
              if d = [] \<or> hd d \<noteq> CHR '')'' then None else Some (p, tl d))"

lemma match_require_length: "match_require s = Some (p, r) \<Longrightarrow> length r < length s"
proof -
  assume m: "match_require s = Some (p, r)"
  define a where "a = dropWhile js_ws (drop 7 s)"
  define b where "b = dropWhile js_ws (tl a)"
  define q where "q = dropWhile (\<lambda>c. \<not> quote_char c) (tl b)"
  define d where "d = dropWhile js_ws (tl q)"
  have r: "r = tl d" "a \<noteq> []" using m unfolding match_require_def a_def [symmetric] Let_def b_def [symmetric] q_def [symmetric] d_def [symmetric]
    by (auto split: if_splits)
  have "length a \<le> length s" "length b \<le> length a - 1" "length q \<le> length b - 1" "length d \<le> length q - 1"
    using length_dropWhile_le [of js_ws "drop 7 s"] length_dropWhile_le [of js_ws "tl a"]
      length_dropWhile_le [of "\<lambda>c. \<not> quote_char c" "tl b"] length_dropWhile_le [of js_ws "tl q"]
    by (simp_all add: a_def b_def q_def d_def)
  then show ?thesis using r by (cases a) auto
qed

function required_paths :: "string \<Rightarrow> string list" where
  "required_paths [] = []"
| "required_paths (c # s) = (case match_require (c # s) of Some (p, r) \<Rightarrow> p # required_paths r | None \<Rightarrow> required_paths s)"
  by pat_completeness auto
termination
  by (relation "measure length") (auto dest!: match_require_length)

text \<open>\<open>path.posix.normalize\<close> of a relative path, and \<open>dirname\<close>.\<close>

fun norm_rel :: "string list \<Rightarrow> string list \<Rightarrow> string list" where
  "norm_rel acc [] = rev acc"
| "norm_rel acc (p # ps) =
     (if p = [] \<or> p = ''.'' then norm_rel acc ps
      else if p = ''..'' \<and> acc \<noteq> [] \<and> hd acc \<noteq> ''..'' then norm_rel (tl acc) ps
      else norm_rel (p # acc) ps)"

definition posix_normalize :: "string \<Rightarrow> string" where
  "posix_normalize p =
     (let n = join_with ''/'' (norm_rel [] (split_on CHR ''/'' p)) in
      (if n = [] then ''.'' else n) @ (if endsWith p ''/'' then ''/'' else []))"

definition posix_dirname :: "string \<Rightarrow> string" where
  "posix_dirname p =
     (let parts = split_on CHR ''/'' p in if length parts \<le> 1 then ''.'' else join_with ''/'' (butlast parts))"

definition plain_extension :: "string \<Rightarrow> bool" where
  "plain_extension p = list_ex (\<lambda>e. endsWith (js_lower p) e)
     [''.json'', ''.yml'', ''.yaml'', ''.css'', ''.htm'', ''.html'', ''.txt'', ''.svg'', ''.xml'', ''.toml'', ''.ini'']"

record console_files =
  cf_exists :: "string \<Rightarrow> bool"
  cf_directory :: "string \<Rightarrow> bool"
  cf_text :: "string \<Rightarrow> string option"

definition resolveConsoleRequire :: "console_files \<Rightarrow> string \<Rightarrow> string \<Rightarrow> string option" where
  "resolveConsoleRequire F fromLocalPath requirePath =
     (if \<not> startsWith requirePath ''.'' then None
      else
        let dir = posix_dirname (map (\<lambda>c. if c = CHR 0x5C then CHR ''/'' else c) fromLocalPath);
            resolved = posix_normalize (dir @ ''/'' @ requirePath) in
        if startsWith resolved ''../'' \<or> startsWith resolved ''/'' then None
        else if cf_exists F resolved \<and> cf_directory F resolved then Some (posix_normalize (resolved @ ''/index.js''))
        else if plain_extension resolved then Some resolved
        else
          let js = (if endsWith resolved ''.js'' then resolved else resolved @ ''.js'');
              index = posix_normalize (drop_js js @ ''/index.js'') in
          Some (if \<not> cf_exists F js \<and> cf_exists F index then index else js))"

definition isResolvedByIndexModule :: "console_files \<Rightarrow> string \<Rightarrow> bool" where
  "isResolvedByIndexModule F p = (endsWith p ''.js'' \<and> cf_exists F (drop_js p @ ''/index.js''))"

definition scanned :: "string \<Rightarrow> bool" where
  "scanned p = (endsWith p ''.js'' \<or> endsWith p ''.mjs'' \<or> endsWith p ''.cjs'')"

text \<open>The files a file requires, as the loop finds them.\<close>

definition requires_of :: "console_files \<Rightarrow> string \<Rightarrow> string list" where
  "requires_of F p =
     (if \<not> cf_exists F p \<or> \<not> scanned p then []
      else case cf_text F p of None \<Rightarrow> []
        | Some t \<Rightarrow> filter (\<lambda>q. q \<noteq> []) (List.map_filter (resolveConsoleRequire F p) (required_paths (stripJsCommentsForRequireScan t))))"

text \<open>The loop over the queue; it need not end when there is no end of files.\<close>

partial_function (option) collect_loop :: "(string \<Rightarrow> string list) \<Rightarrow> string list \<Rightarrow> string list \<Rightarrow> string list option" where
  "collect_loop reqs queue visited =
     (case queue of
        [] \<Rightarrow> Some visited
      | p # rest \<Rightarrow>
          if p = [] \<or> p \<in> set visited then collect_loop reqs rest visited
          else collect_loop reqs (rest @ filter (\<lambda>q. q \<notin> set (visited @ [p])) (reqs p)) (visited @ [p]))"

record changed_file =
  ch_localPath :: string
  ch_removed :: bool

definition collectConsoleRequiredFiles :: "console_files \<Rightarrow> changed_file list \<Rightarrow> string list option" where
  "collectConsoleRequiredFiles F changed =
     (let seeds = remdups (CONSOLE_INTEGRITY_SEEDS
                    @ List.map_filter (\<lambda>c. if ch_localPath c \<noteq> [] \<and> \<not> ch_removed c then Some (ch_localPath c) else None) changed)
      in collect_loop (requires_of F) seeds [])"


section \<open>Ports (privilegedPorts.js)\<close>

definition PRIVILEGED_PORT_MAX :: int where "PRIVILEGED_PORT_MAX = 1023"
definition CAP_NET_BIND_SERVICE :: nat where "CAP_NET_BIND_SERVICE = 12"

text \<open>A port is \<^term>\<open>None\<close> when it converts to no integer.\<close>

definition isPrivilegedPort :: "int option \<Rightarrow> bool" where
  "isPrivilegedPort port = (case port of Some n \<Rightarrow> n > 0 \<and> n \<le> PRIVILEGED_PORT_MAX | None \<Rightarrow> False)"

definition isTruthyEnvFlag :: "string option \<Rightarrow> bool" where
  "isTruthyEnvFlag v = (js_lower (js_trim (or_str v [])) \<in> {''1'', ''true'', ''yes'', ''y''})"

text \<open>\<open>cap_eff\<close> is the number read from \<open>/proc/self/status\<close>, \<^term>\<open>None\<close> where there is none.\<close>

definition processHasBindServiceCapability :: "string option \<Rightarrow> nat option \<Rightarrow> bool" where
  "processHasBindServiceCapability flag cap_eff =
     (isTruthyEnvFlag flag \<or> (case cap_eff of None \<Rightarrow> False | Some n \<Rightarrow> odd (n div 2 ^ CAP_NET_BIND_SERVICE)))"

definition canBindPrivilegedPorts :: "bool \<Rightarrow> string option \<Rightarrow> nat option \<Rightarrow> bool" where
  "canBindPrivilegedPorts is_root flag cap_eff = (is_root \<or> processHasBindServiceCapability flag cap_eff)"

definition resolvePortForCurrentUser :: "bool \<Rightarrow> int option \<Rightarrow> int \<Rightarrow> int" where
  "resolvePortForCurrentUser can_bind configured fallback =
     (case configured of None \<Rightarrow> fallback
      | Some port \<Rightarrow> if port \<le> 0 then fallback else if \<not> can_bind \<and> isPrivilegedPort (Some port) then fallback else port)"

fun js_lines :: "string \<Rightarrow> string list" where
  "js_lines [] = [[]]"
| "js_lines (c # s) = (if c \<in> {CHR 0x0A, CHR 0x0D} then [] # js_lines s
     else case js_lines s of [] \<Rightarrow> [[c]] | l # ls \<Rightarrow> (c # l) # ls)"

definition drop_quotes :: "string \<Rightarrow> string" where
  "drop_quotes v =
     (let q = (\<lambda>c. c = CHR 0x22 \<or> c = CHR 0x27); a = (if v \<noteq> [] \<and> q (hd v) then tl v else v)
      in if a \<noteq> [] \<and> q (last a) then butlast a else a)"

definition env_value :: "string \<Rightarrow> string \<Rightarrow> string \<Rightarrow> string" where
  "env_value content key fallback =
     (case find (\<lambda>l. startsWith l (key @ ''='') \<and> length l > length key + 1) (js_lines content) of
        None \<Rightarrow> fallback | Some l \<Rightarrow> drop_quotes (js_trim (drop (length key + 1) l)))"

record port_settings =
  ps_port :: int
  ps_httpsPort :: int
  ps_httpsEnabled :: bool
  ps_httpRedirect :: bool

definition parseEnvPortSettings :: "string \<Rightarrow> port_settings" where
  "parseEnvPortSettings content =
     (let get = env_value content; true = (\<lambda>v d. js_lower (if v \<noteq> [] then v else d) = ''true'') in
      \<lparr>ps_port = num_or (parseInt (get ''PORT'' ''5000'')) 5000, ps_httpsPort = num_or (parseInt (get ''HTTPS_PORT'' ''5443'')) 5443,
       ps_httpsEnabled = true (get ''HTTPS_ENABLED'' ''false'') ''false'',
       ps_httpRedirect = true (get ''HTTP_REDIRECT_HTTPS'' ''true'') ''true''\<rparr>)"

definition resolvePanelHealthPort :: "port_settings \<Rightarrow> int" where
  "resolvePanelHealthPort s =
     (if ps_httpsEnabled s then (if ps_httpsPort s > 0 then ps_httpsPort s else 5443)
      else if ps_port s > 0 then ps_port s else 5000)"

definition consoleEnvUsesPrivilegedPorts :: "port_settings \<Rightarrow> bool" where
  "consoleEnvUsesPrivilegedPorts s =
     (if ps_httpsEnabled s
      then isPrivilegedPort (Some (ps_httpsPort s)) \<or> (ps_httpRedirect s \<and> isPrivilegedPort (Some (ps_port s)))
      else isPrivilegedPort (Some (ps_port s)))"

definition BIND_CAPABILITY_LINES :: "string list" where
  "BIND_CAPABILITY_LINES = [''AmbientCapabilities=CAP_NET_BIND_SERVICE'', ''CapabilityBoundingSet=CAP_NET_BIND_SERVICE'']"

definition BIND_SERVICE_ENV_LINE :: string where
  "BIND_SERVICE_ENV_LINE = ''Environment=BETTERDESK_HAS_BIND_SERVICE=1''"

fun has_part :: "string \<Rightarrow> string \<Rightarrow> bool" where
  "has_part p [] = (p = [])"
| "has_part p (c # s) = (startsWith (c # s) p \<or> has_part p s)"

definition serviceUnitHasBindCapability :: "string \<Rightarrow> bool" where
  "serviceUnitHasBindCapability content =
     list_ex (\<lambda>l. startsWith l ''AmbientCapabilities='' \<and> has_part ''CAP_NET_BIND_SERVICE'' (drop 20 l)) (js_lines content)"

definition serviceUnitHasBindServiceEnv :: "string \<Rightarrow> bool" where
  "serviceUnitHasBindServiceEnv content = list_ex (\<lambda>l. startsWith l BIND_SERVICE_ENV_LINE) (js_lines content)"

definition index_of :: "('a \<Rightarrow> bool) \<Rightarrow> 'a list \<Rightarrow> nat option" where
  "index_of P xs = (if list_ex P xs then Some (length (takeWhile (\<lambda>x. \<not> P x) xs)) else None)"

definition splice_in :: "nat \<Rightarrow> 'a list \<Rightarrow> 'a list \<Rightarrow> 'a list" where
  "splice_in i new xs = take i xs @ new @ drop i xs"

definition ensureBindCapabilityInServiceUnit :: "string \<Rightarrow> string \<times> bool" where
  "ensureBindCapabilityInServiceUnit content =
     (if js_trim content = [] then (content, False)
      else
        let lines = split_on (CHR 0x0A) content;
            insertAt = (case index_of (\<lambda>l. startsWith l ''User='') lines of Some i \<Rightarrow> Some (i + 1)
              | None \<Rightarrow> map_option (\<lambda>i. i + 1) (index_of (\<lambda>l. js_trim l = ''[Service]'') lines)) in
        case insertAt of None \<Rightarrow> (content, False)
        | Some i \<Rightarrow>
            let missing = \<not> serviceUnitHasBindCapability content;
                lines1 = (if missing then splice_in i BIND_CAPABILITY_LINES lines else lines);
                i1 = (if missing then i + 2 else i);
                no_env = \<not> serviceUnitHasBindServiceEnv (join_with [CHR 0x0A] lines1);
                lines2 = (if no_env then splice_in i1 [BIND_SERVICE_ENV_LINE] lines1 else lines1)
            in (join_with [CHR 0x0A] lines2, missing \<or> no_env))"

definition formatHttpsRedirectUrl :: "string option \<Rightarrow> int option \<Rightarrow> string option \<Rightarrow> string" where
  "formatHttpsRedirectUrl hostname httpsPort urlPath =
     ''https://'' @ or_str hostname ''localhost''
       @ (case httpsPort of Some n \<Rightarrow> if n > 0 \<and> n \<noteq> 443 then '':'' @ show_int n else [] | None \<Rightarrow> [])
       @ or_str urlPath ''/''"


section \<open>Failures are split, none is lost\<close>

theorem failures_split:
  "splitUpdateFailures rootDir es = (filter (\<lambda>e. \<not> isFailureNonCritical rootDir e) es, filter (isFailureNonCritical rootDir) es)"
  by (induction es) auto

text \<open>The test whether a failed installation left usable modules is never reached: the installation is in the list.\<close>

theorem failed_installation_never_critical:
  "uf_file e = ''npm install'' \<Longrightarrow> isFailureNonCritical rootDir e"
  by (simp add: isFailureNonCritical_def isNonCriticalUpdateFailure_def NON_CRITICAL_UPDATE_FAILURES_def)

text \<open>A critical failure of an update whose commit is neither installed nor outdated is shown and stays stored.\<close>

theorem critical_failure_shown:
  assumes "e \<in> set (ur_failed r)" "\<not> isFailureNonCritical rootDir e" "\<not> shaMatches localSHA (ur_sha r)" "\<not> shaMatches localSHA remoteSHA"
  shows "\<exists>v. resolveLastUpdateResultForDisplay deletes rootDir localSHA remoteSHA (Some r) = (Some v, Some r) \<and> e \<in> set (su_critical v)"
proof -
  have "e \<in> set (filter (\<lambda>e. \<not> isFailureNonCritical rootDir e) (ur_failed r))" using assms(1,2) by simp
  then have "filter (\<lambda>e. \<not> isFailureNonCritical rootDir e) (ur_failed r) \<noteq> []" by force
  then show ?thesis using assms by (simp add: resolveLastUpdateResultForDisplay_def failures_split Let_def)
qed


section \<open>The files the console needs\<close>

definition require_graph :: "(string \<Rightarrow> string list) \<Rightarrow> (string \<times> string) set" where
  "require_graph reqs = {(p, q). q \<in> set (reqs p)}"

definition required_from :: "(string \<Rightarrow> string list) \<Rightarrow> string list \<Rightarrow> string set" where
  "required_from reqs seeds = (require_graph reqs)\<^sup>* `` set seeds"

lemma required_closed: "p \<in> required_from reqs seeds \<Longrightarrow> q \<in> set (reqs p) \<Longrightarrow> q \<in> required_from reqs seeds"
  unfolding required_from_def require_graph_def by (auto intro: rtrancl_into_rtrancl)

lemma closed_superset:
  assumes "set seeds \<subseteq> V" "\<And>p. p \<in> V \<Longrightarrow> set (reqs p) \<subseteq> V"
  shows "required_from reqs seeds \<subseteq> V"
proof
  fix q assume "q \<in> required_from reqs seeds"
  then obtain s where "s \<in> set seeds" "(s, q) \<in> (require_graph reqs)\<^sup>*" unfolding required_from_def by blast
  from this(2) \<open>s \<in> set seeds\<close> show "q \<in> V"
    by (induction rule: rtrancl_induct) (use assms in \<open>auto simp: require_graph_def\<close>)
qed

lemma collect_loop_returns:
  assumes "finite U" "[] \<notin> U" "\<And>p. p \<in> U \<Longrightarrow> set (reqs p) \<subseteq> U"
    and "set queue \<subseteq> U" "set visited \<subseteq> U" "distinct visited" "\<And>p. p \<in> set visited \<Longrightarrow> set (reqs p) \<subseteq> set visited \<union> set queue"
  shows "\<exists>vs. collect_loop reqs queue visited = Some vs \<and> distinct vs \<and> set visited \<union> set queue \<subseteq> set vs \<and> set vs \<subseteq> U
    \<and> (\<forall>p \<in> set vs. set (reqs p) \<subseteq> set vs)"
  using assms(4-7)
proof (induction "(card (U - set visited), length queue)" arbitrary: queue visited rule: wf_induct_rule [OF wf_lex_prod [OF wf_less_than wf_less_than]])
  case (1 queue visited)
  show ?case
  proof (cases queue)
    case Nil
    then show ?thesis using 1(2-5) by (subst collect_loop.simps) auto
  next
    case (Cons p rest)
    show ?thesis
    proof (cases "p \<in> set visited")
      case True
      have "\<exists>vs. collect_loop reqs rest visited = Some vs \<and> distinct vs \<and> set visited \<union> set rest \<subseteq> set vs \<and> set vs \<subseteq> U
          \<and> (\<forall>p \<in> set vs. set (reqs p) \<subseteq> set vs)"
        using 1(2-5) Cons True by (intro 1(1)) auto
      moreover have "collect_loop reqs queue visited = collect_loop reqs rest visited"
        using Cons True by (subst collect_loop.simps) simp
      ultimately show ?thesis using Cons True by auto
    next
      case False
      let ?q = "rest @ filter (\<lambda>q. q \<notin> set (visited @ [p])) (reqs p)" and ?v = "visited @ [p]"
      have p: "p \<in> U" "p \<noteq> []" using 1(2) Cons assms(2) by auto
      then have less: "card (U - set ?v) < card (U - set visited)"
        using False assms(1) by (intro psubset_card_mono) auto
      have sub: "set ?q \<subseteq> U" "set ?v \<subseteq> U" "distinct ?v" using 1(2-4) Cons False p assms(3) by auto
      have closed: "set (reqs r) \<subseteq> set ?v \<union> set ?q" if r: "r \<in> set ?v" for r
      proof (cases "r = p")
        case False
        then have "r \<in> set visited" using r by simp
        then have "set (reqs r) \<subseteq> set visited \<union> set queue" by (rule 1(5))
        then show ?thesis using Cons by auto
      qed auto
      have "\<exists>vs. collect_loop reqs ?q ?v = Some vs \<and> distinct vs \<and> set ?v \<union> set ?q \<subseteq> set vs \<and> set vs \<subseteq> U
          \<and> (\<forall>p \<in> set vs. set (reqs p) \<subseteq> set vs)"
        by (rule 1(1) [OF _ sub closed]) (use less in auto)
      moreover have "collect_loop reqs queue visited = collect_loop reqs ?q ?v"
        using Cons False p(2) by (subst collect_loop.simps) simp
      ultimately show ?thesis using Cons by auto
    qed
  qed
qed

lemma requires_of_nonempty: "[] \<notin> set (requires_of F p)"
  by (auto simp: requires_of_def split: option.split)

lemma requires_of_missing: "\<not> cf_exists F p \<Longrightarrow> requires_of F p = []"
  by (simp add: requires_of_def)

lemma required_finite: "finite {p. cf_exists F p} \<Longrightarrow> finite (required_from (requires_of F) seeds)"
proof -
  assume f: "finite {p. cf_exists F p}"
  let ?V = "set seeds \<union> (\<Union>p \<in> {p. cf_exists F p}. set (requires_of F p))"
  have "required_from (requires_of F) seeds \<subseteq> ?V"
    by (rule closed_superset) (use requires_of_missing in force)+
  moreover have "finite ?V" using f by simp
  ultimately show ?thesis by (rule finite_subset)
qed

definition console_seeds :: "changed_file list \<Rightarrow> string list" where
  "console_seeds changed = CONSOLE_INTEGRITY_SEEDS
     @ List.map_filter (\<lambda>c. if ch_localPath c \<noteq> [] \<and> \<not> ch_removed c then Some (ch_localPath c) else None) changed"

lemma console_seeds_nonempty: "[] \<notin> set (console_seeds changed)"
  by (auto simp: console_seeds_def CONSOLE_INTEGRITY_SEEDS_def map_filter_def)

text \<open>On a file system with finitely many paths the search for the files the console needs ends, cycles
  included. It gives each file once, and exactly those that can be reached from the seeds and the changed files that
  were not removed over the requires that the code's own scan finds in a file; what the scan misses is missed
  (\<open>required_after_address_missed\<close>).\<close>

theorem required_files_found:
  assumes "finite {p. cf_exists F p}"
  shows "\<exists>vs. collectConsoleRequiredFiles F changed = Some vs \<and> distinct vs
    \<and> set vs = required_from (requires_of F) (console_seeds changed)"
proof -
  let ?U = "required_from (requires_of F) (console_seeds changed)" and ?seeds = "remdups (console_seeds changed)"
  have seeds: "set ?seeds \<subseteq> ?U" by (auto simp: required_from_def)
  have closed: "set (requires_of F p) \<subseteq> ?U" if p: "p \<in> ?U" for p using required_closed [OF p] by blast
  have "p \<noteq> []" if "p \<in> ?U" for p
  proof -
    from that obtain s where s: "s \<in> set (console_seeds changed)" "(s, p) \<in> (require_graph (requires_of F))\<^sup>*"
      unfolding required_from_def by blast
    from s(2) show ?thesis
      by (cases rule: rtranclE) (use s(1) console_seeds_nonempty requires_of_nonempty in \<open>auto simp: require_graph_def\<close>)
  qed
  then have "[] \<notin> ?U" by blast
  then obtain vs where vs: "collect_loop (requires_of F) ?seeds [] = Some vs" "distinct vs" "set ?seeds \<subseteq> set vs" "set vs \<subseteq> ?U"
      "\<forall>p \<in> set vs. set (requires_of F p) \<subseteq> set vs"
    using collect_loop_returns [OF required_finite [OF assms, of "console_seeds changed"] _ _ seeds, where visited = "[]" and reqs = "requires_of F"]
      closed by auto
  have "?U \<subseteq> set vs" by (rule closed_superset) (use vs(3,5) in auto)
  then show ?thesis using vs by (simp add: collectConsoleRequiredFiles_def console_seeds_def [symmetric] Let_def)
qed


section \<open>The service unit\<close>

lemma js_lines_ne [simp]: "js_lines s \<noteq> []"
  by (induction s) (auto split: list.splits)

lemma js_lines_append: "js_lines (a @ CHR 0x0A # b) = js_lines a @ js_lines b"
  by (induction a) (auto split: list.splits simp: append_eq_Cons_conv)

lemma js_lines_line: "CHR 0x0A \<notin> set l \<Longrightarrow> CHR 0x0D \<notin> set l \<Longrightarrow> js_lines l = [l]"
  by (induction l) auto

lemma js_lines_join: "ls \<noteq> [] \<Longrightarrow> js_lines (join_with [CHR 0x0A] ls) = concat (map js_lines ls)"
proof (induction ls rule: induct_list012)
  case (3 a b ls)
  then show ?case using js_lines_append [of a "join_with [CHR 0x0A] (b # ls)"] by simp
qed simp_all

lemma set_splice_in: "set (splice_in i new xs) = set xs \<union> set new"
proof -
  have "set xs = set (take i xs) \<union> set (drop i xs)" by (metis append_take_drop_id set_append)
  then show ?thesis by (auto simp: splice_in_def)
qed

lemma lines_mono:
  assumes "ls \<noteq> []" "set ls \<subseteq> set ls'"
  shows "set (js_lines (join_with [CHR 0x0A] ls)) \<subseteq> set (js_lines (join_with [CHR 0x0A] ls'))"
proof -
  have "ls' \<noteq> []" using assms by auto
  then show ?thesis using assms by (auto simp: js_lines_join)
qed

lemma capability_mono:
  assumes "set (js_lines a) \<subseteq> set (js_lines b)"
  shows "serviceUnitHasBindCapability a \<Longrightarrow> serviceUnitHasBindCapability b"
    and "serviceUnitHasBindServiceEnv a \<Longrightarrow> serviceUnitHasBindServiceEnv b"
  using assms unfolding serviceUnitHasBindCapability_def serviceUnitHasBindServiceEnv_def list_ex_iff by blast+

lemma line_in_join:
  assumes "l \<in> set ls" "CHR 0x0A \<notin> set l" "CHR 0x0D \<notin> set l"
  shows "l \<in> set (js_lines (join_with [CHR 0x0A] ls))"
proof -
  have "ls \<noteq> []" using assms(1) by auto
  then show ?thesis using assms js_lines_line [of l] by (force simp: js_lines_join)
qed

lemma bind_line: "''AmbientCapabilities=CAP_NET_BIND_SERVICE'' \<in> set (js_lines u) \<Longrightarrow> serviceUnitHasBindCapability u"
proof -
  assume "''AmbientCapabilities=CAP_NET_BIND_SERVICE'' \<in> set (js_lines u)"
  moreover have "startsWith ''AmbientCapabilities=CAP_NET_BIND_SERVICE'' ''AmbientCapabilities=''
      \<and> has_part ''CAP_NET_BIND_SERVICE'' (drop 20 ''AmbientCapabilities=CAP_NET_BIND_SERVICE'')" by code_simp
  ultimately show ?thesis unfolding serviceUnitHasBindCapability_def list_ex_iff by blast
qed

lemma env_line: "BIND_SERVICE_ENV_LINE \<in> set (js_lines u) \<Longrightarrow> serviceUnitHasBindServiceEnv u"
  unfolding serviceUnitHasBindServiceEnv_def list_ex_iff by (metis append_Nil2 startsWith_append)

lemma settled_unit:
  assumes "serviceUnitHasBindCapability u" "serviceUnitHasBindServiceEnv u"
  shows "ensureBindCapabilityInServiceUnit u = (u, False)"
  using assms by (auto simp: ensureBindCapabilityInServiceUnit_def Let_def join_split_on split: option.split)

text \<open>Putting the capability into a unit twice is the same as once.\<close>

theorem bind_capability_idempotent:
  "ensureBindCapabilityInServiceUnit (fst (ensureBindCapabilityInServiceUnit u)) = (fst (ensureBindCapabilityInServiceUnit u), False)"
proof (cases "ensureBindCapabilityInServiceUnit u = (u, False)")
  case False
  define ls where "ls = split_on (CHR 0x0A) u"
  have u: "join_with [CHR 0x0A] ls = u" "ls \<noteq> []" by (simp_all add: ls_def join_split_on)
  obtain i where ens: "ensureBindCapabilityInServiceUnit u =
      (let missing = \<not> serviceUnitHasBindCapability u;
           lines1 = (if missing then splice_in i BIND_CAPABILITY_LINES ls else ls);
           i1 = (if missing then i + 2 else i);
           no_env = \<not> serviceUnitHasBindServiceEnv (join_with [CHR 0x0A] lines1);
           lines2 = (if no_env then splice_in i1 [BIND_SERVICE_ENV_LINE] lines1 else lines1)
       in (join_with [CHR 0x0A] lines2, missing \<or> no_env))"
    using False unfolding ensureBindCapabilityInServiceUnit_def ls_def Let_def by (auto split: if_splits option.splits)
  define l1 where "l1 = (if \<not> serviceUnitHasBindCapability u then splice_in i BIND_CAPABILITY_LINES ls else ls)"
  define l2 where "l2 = (if \<not> serviceUnitHasBindServiceEnv (join_with [CHR 0x0A] l1)
     then splice_in (if \<not> serviceUnitHasBindCapability u then i + 2 else i) [BIND_SERVICE_ENV_LINE] l1 else l1)"
  have res: "fst (ensureBindCapabilityInServiceUnit u) = join_with [CHR 0x0A] l2" by (simp add: ens l1_def l2_def Let_def)
  have sets: "set ls \<subseteq> set l1" "set l1 \<subseteq> set l2" by (auto simp: l1_def l2_def set_splice_in)
  have l1: "l1 \<noteq> []" using sets(1) u(2) by auto
  have "serviceUnitHasBindCapability (join_with [CHR 0x0A] l1)"
  proof (cases "serviceUnitHasBindCapability u")
    case True
    then show ?thesis using u by (simp add: l1_def)
  next
    case False
    then have "''AmbientCapabilities=CAP_NET_BIND_SERVICE'' \<in> set l1" by (simp add: l1_def set_splice_in BIND_CAPABILITY_LINES_def)
    then show ?thesis by (intro bind_line line_in_join) simp_all
  qed
  then have cap: "serviceUnitHasBindCapability (join_with [CHR 0x0A] l2)" by (rule capability_mono(1) [OF lines_mono [OF l1 sets(2)]])
  have "serviceUnitHasBindServiceEnv (join_with [CHR 0x0A] l2)"
  proof (cases "serviceUnitHasBindServiceEnv (join_with [CHR 0x0A] l1)")
    case True
    then show ?thesis by (simp add: l2_def)
  next
    case False
    then have "BIND_SERVICE_ENV_LINE \<in> set l2" by (simp add: l2_def set_splice_in)
    then show ?thesis by (intro env_line line_in_join) (simp_all add: BIND_SERVICE_ENV_LINE_def)
  qed
  then show ?thesis using cap settled_unit unfolding res by simp
qed simp

text \<open>The port that is used can be bound, whenever the fallback can.\<close>

theorem resolved_port_bindable:
  assumes "0 < fallback" "can_bind \<or> \<not> isPrivilegedPort (Some fallback)"
  shows "0 < resolvePortForCurrentUser can_bind p fallback
    \<and> (can_bind \<or> \<not> isPrivilegedPort (Some (resolvePortForCurrentUser can_bind p fallback)))"
  using assms by (auto simp: resolvePortForCurrentUser_def split: option.splits)


section \<open>Examples\<close>

definition demo_console :: console_files where
  "demo_console = \<lparr>cf_exists = (\<lambda>p. p \<in> {''server.js'', ''lib/a.js''}), cf_directory = (\<lambda>p. False),
     cf_text = (\<lambda>p. Some (if p = ''server.js'' then ''require('' @ [CHR 0x27] @ ''./lib/a'' @ [CHR 0x27] @ '')''
                           else ''require('' @ [CHR 0x27] @ ''../server'' @ [CHR 0x27] @ '')''))\<rparr>"

theorem required_files_found_witness:
  "\<exists>vs. collectConsoleRequiredFiles demo_console [] = Some vs \<and> distinct vs
     \<and> set vs = required_from (requires_of demo_console) (console_seeds []) \<and> ''lib/a.js'' \<in> set vs"
proof -
  have "finite {p. cf_exists demo_console p}" by (simp add: demo_console_def)
  from required_files_found [OF this, of "[]"] obtain vs where
    vs: "collectConsoleRequiredFiles demo_console [] = Some vs" "distinct vs"
      "set vs = required_from (requires_of demo_console) (console_seeds [])" by blast
  have "requires_of demo_console ''server.js'' = [''lib/a.js'']" by code_simp
  moreover have "''server.js'' \<in> set vs" unfolding vs(3) required_from_def console_seeds_def CONSOLE_INTEGRITY_SEEDS_def by auto
  ultimately have "''lib/a.js'' \<in> set vs" using required_closed [of "''server.js''" "requires_of demo_console" _ "''lib/a.js''"]
    unfolding vs(3) by simp
  then show ?thesis using vs by blast
qed

text \<open>A comment marker inside a text hides a file the line requires.\<close>

theorem required_after_address_missed:
  "required_paths (stripJsCommentsForRequireScan (''f('' @ [CHR 0x27] @ ''http://x'' @ [CHR 0x27] @ '');require('' @ [CHR 0x27] @ ''./b'' @ [CHR 0x27] @ '')'')) = []"
  by code_simp

end
