(* ===== verification/Backup_Archive.thy ===== *)
theory Backup_Archive
  imports Complex_Main "HOL-Library.AList" Json_Values
begin

text \<open>
  The archive of a full backup: the tar writer and reader of \<open>services/backupArchive.js\<close>, byte by byte, and what
  \<open>services/backupService.js\<close> puts into an archive, checks and writes back.

  Texts and file contents are lists of bytes; names are of ASCII characters, for which characters and bytes are the same.
  gzip, JSON, the dump of the database and the reading of files are arguments.  The reader works on offsets that may
  become negative, and its loop need not end.
\<close>

section \<open>Headers (backupArchive.js)\<close>

definition BLOCK_SIZE :: nat where "BLOCK_SIZE = 512"

abbreviation NUL :: char where "NUL \<equiv> CHR 0x00"

fun to_octal :: "nat \<Rightarrow> string" where
  "to_octal n = (if n < 8 then [char_of (48 + n)] else to_octal (n div 8) @ [char_of (48 + n mod 8)])"

declare to_octal.simps [simp del]

definition pad_start :: "nat \<Rightarrow> string \<Rightarrow> string" where
  "pad_start w s = replicate (w - length s) CHR ''0'' @ s"

definition last_chars :: "nat \<Rightarrow> string \<Rightarrow> string" where
  "last_chars k s = drop (length s - k) s"

text \<open>\<open>buf.write\<close> of at most \<open>n\<close> bytes.\<close>

definition write_at :: "nat \<Rightarrow> nat \<Rightarrow> string \<Rightarrow> string \<Rightarrow> string" where
  "write_at off n s buf = (let t = take n s in take off buf @ t @ drop (off + length t) buf)"

definition writeOctal :: "nat \<Rightarrow> nat \<Rightarrow> nat \<Rightarrow> string \<Rightarrow> string" where
  "writeOctal value off n buf =
     write_at (off + n - 1) 1 [NUL] (write_at off (n - 1) (last_chars (n - 1) (pad_start (n - 1) (to_octal value))) buf)"

text \<open>\<open>lastIndexOf\<close> from a position on.\<close>

definition last_index :: "char \<Rightarrow> nat \<Rightarrow> string \<Rightarrow> nat option" where
  "last_index c last_pos s =
     (let ps = filter (\<lambda>i. s ! i = c) [0..<min (Suc last_pos) (length s)] in if ps = [] then None else Some (last ps))"

definition split_name :: "string \<Rightarrow> string \<times> string" where
  "split_name name =
     (if length name > 100
      then case last_index CHR ''/'' 155 name of
             Some idx \<Rightarrow> if idx > 0 then (take idx name, drop (idx + 1) name) else ([], name)
           | None \<Rightarrow> ([], name)
      else ([], name))"

definition USTAR_MAGIC :: string where "USTAR_MAGIC = ''ustar'' @ [NUL]"

definition header_fields :: "string \<Rightarrow> string \<Rightarrow> nat \<Rightarrow> nat \<Rightarrow> nat \<Rightarrow> string" where
  "header_fields pre filename size_bytes mode mtime =
     (let h = write_at 0 100 filename (replicate BLOCK_SIZE NUL);
          h = writeOctal (mode mod 4096) 100 8 h;
          h = writeOctal 0 108 8 h;
          h = writeOctal 0 116 8 h;
          h = writeOctal size_bytes 124 12 h;
          h = writeOctal mtime 136 12 h;
          h = write_at 148 8 ''        '' h;
          h = write_at 156 1 ''0'' h;
          h = write_at 257 6 USTAR_MAGIC h;
          h = write_at 263 2 ''00'' h
      in if pre \<noteq> [] then write_at 345 155 pre h else h)"

definition with_checksum :: "string \<Rightarrow> string" where
  "with_checksum h =
     (let chksum = last_chars 6 (pad_start 6 (to_octal (sum_list (map of_char h)))) in
      write_at 155 1 '' '' (write_at 154 1 [NUL] (write_at 148 6 chksum h)))"

text \<open>\<^term>\<open>None\<close> is the exception for a name that is too long.\<close>

definition buildHeader :: "string \<Rightarrow> nat \<Rightarrow> nat \<Rightarrow> nat \<Rightarrow> string option" where
  "buildHeader name size_bytes mode mtime =
     (case split_name name of (pre, filename) \<Rightarrow>
        if length filename > 100 then None else Some (with_checksum (header_fields pre filename size_bytes mode mtime)))"

definition padToBlock :: "int \<Rightarrow> int" where
  "padToBlock n = (let rem = (if n < 0 then - (- n mod int BLOCK_SIZE) else n mod int BLOCK_SIZE) in
     if rem = 0 then 0 else int BLOCK_SIZE - rem)"

record tar_entry =
  te_name :: string
  te_data :: string
  te_mode :: nat
  te_mtime :: nat

definition entry_name :: "tar_entry \<Rightarrow> string" where
  "entry_name e = dropWhile (\<lambda>c. c = CHR ''/'') (map (\<lambda>c. if c = CHR 0x5C then CHR ''/'' else c) (te_name e))"

definition zeros :: "nat \<Rightarrow> string" where
  "zeros n = replicate n NUL"

fun tar_entries :: "nat \<Rightarrow> tar_entry list \<Rightarrow> string option" where
  "tar_entries now [] = Some []"
| "tar_entries now (e # es) =
     (if te_name e = [] then tar_entries now es
      else case buildHeader (entry_name e) (length (te_data e)) (if te_mode e = 0 then 420 else te_mode e)
                  (if te_mtime e = 0 then now else te_mtime e) of
        None \<Rightarrow> None
      | Some h \<Rightarrow> map_option (\<lambda>rest. h @ te_data e @ zeros (nat (padToBlock (int (length (te_data e))))) @ rest) (tar_entries now es))"

definition createTarGz :: "(string \<Rightarrow> string) \<Rightarrow> nat \<Rightarrow> tar_entry list \<Rightarrow> string option" where
  "createTarGz gzip now es = map_option (\<lambda>t. gzip (t @ zeros (2 * BLOCK_SIZE))) (tar_entries now es)"


section \<open>Reading an archive\<close>

definition is_octal :: "char \<Rightarrow> bool" where
  "is_octal c = (48 \<le> (of_char c :: nat) \<and> (of_char c :: nat) \<le> 55)"

definition octal_value :: "string \<Rightarrow> nat" where
  "octal_value s = foldl (\<lambda>a c. 8 * a + (of_char c - 48)) 0 s"

definition parseInt8 :: "string \<Rightarrow> int option" where
  "parseInt8 s =
     (case parse_sign (js_trim_start s) of (negative, r) \<Rightarrow>
        let ds = takeWhile is_octal r in
        if ds = [] then None else Some (if negative then - int (octal_value ds) else int (octal_value ds)))"

definition slice :: "nat \<Rightarrow> nat \<Rightarrow> string \<Rightarrow> string" where
  "slice off n s = take n (drop off s)"

text \<open>\<open>toString('ascii')\<close> unsets the highest bit of every byte.\<close>

definition ascii_decode :: "string \<Rightarrow> string" where
  "ascii_decode s = map (\<lambda>c. char_of (of_char c mod 128 :: nat)) s"

definition parseOctal :: "string \<Rightarrow> nat \<Rightarrow> nat \<Rightarrow> int" where
  "parseOctal buf off n =
     (let str = filter (\<lambda>c. c \<noteq> NUL \<and> c \<noteq> CHR '' '') (ascii_decode (slice off n buf)) in
      if str = [] then 0 else case parseInt8 str of None \<Rightarrow> 0 | Some v \<Rightarrow> v)"

text \<open>\<open>buffer.slice\<close>, where negative positions count from the end.\<close>

definition position :: "int \<Rightarrow> string \<Rightarrow> nat" where
  "position i s = nat (if i < 0 then max 0 (int (length s) + i) else min i (int (length s)))"

definition js_slice :: "int \<Rightarrow> int \<Rightarrow> string \<Rightarrow> string" where
  "js_slice a b s = take (position b s - position a s) (drop (position a s) s)"

text \<open>The name up to the first zero byte that no line terminator follows.\<close>

fun strip_nul :: "string \<Rightarrow> string" where
  "strip_nul [] = []"
| "strip_nul (c # s) = (if c = NUL \<and> CHR 0x0A \<notin> set s \<and> CHR 0x0D \<notin> set s then [] else c # strip_nul s)"

definition header_name :: "string \<Rightarrow> string" where
  "header_name h =
     (let name = strip_nul (slice 0 100 h); pre = strip_nul (slice 345 155 h) in
      if pre \<noteq> [] then pre @ ''/'' @ name else name)"

definition regular :: "string \<Rightarrow> bool" where
  "regular h = (let typeflag = ascii_decode (slice 156 1 h) in typeflag = ''0'' \<or> typeflag = [NUL] \<or> typeflag = [])"

partial_function (option) extract_loop :: "string \<Rightarrow> int \<Rightarrow> (string \<times> string) list \<Rightarrow> (string \<times> string) list option" where
  "extract_loop tar offset files =
     (if \<not> offset + int BLOCK_SIZE \<le> int (length tar) then Some files
      else
        let header = js_slice offset (offset + int BLOCK_SIZE) tar in
        if list_all (\<lambda>b. b = NUL) header then Some files
        else
          let size_bytes = parseOctal header 124 12; start = offset + int BLOCK_SIZE in
          extract_loop tar (start + size_bytes + padToBlock size_bytes)
            (if regular header then AList.update (header_name header) (js_slice start (start + size_bytes) tar) files else files))"

text \<open>\<open>Inl\<close> is the exception for a buffer that is no gzip, \<^term>\<open>None\<close> a loop without end.\<close>

definition extractTarGz :: "(string \<Rightarrow> string option) \<Rightarrow> string \<Rightarrow> (unit + (string \<times> string) list) option" where
  "extractTarGz gunzip buffer =
     (case gunzip buffer of None \<Rightarrow> Some (Inl ()) | Some tar \<Rightarrow> map_option Inr (extract_loop tar 0 []))"


section \<open>Fields\<close>

lemma to_octal_octal: "list_all is_octal (to_octal n)"
proof (induction n rule: to_octal.induct)
  case (1 n)
  have digit: "is_octal (char_of (48 + m :: nat))" if "m < 8" for m using that by (simp add: is_octal_def of_char_of)
  show ?case
  proof (cases "n < 8")
    case True
    then show ?thesis using digit [of n] by (subst to_octal.simps) simp
  next
    case False
    then show ?thesis using digit [of "n mod 8"] 1 [OF False] by (subst to_octal.simps) simp
  qed
qed

lemma octal_value_snoc: "octal_value (s @ [c]) = 8 * octal_value s + (of_char c - 48)"
  by (simp add: octal_value_def)

lemma octal_value_to_octal: "octal_value (to_octal n) = n"
proof (induction n rule: to_octal.induct)
  case (1 n)
  show ?case
  proof (cases "n < 8")
    case True
    then show ?thesis by (subst to_octal.simps) (simp add: octal_value_def of_char_of)
  next
    case False
    then have "octal_value (to_octal (n div 8)) = n div 8" by (rule 1)
    then show ?thesis using False by (subst to_octal.simps) (simp add: octal_value_snoc of_char_of)
  qed
qed

lemma to_octal_length: "n < 8 ^ k \<Longrightarrow> 0 < k \<Longrightarrow> length (to_octal n) \<le> k"
proof (induction n arbitrary: k rule: to_octal.induct)
  case (1 n)
  show ?case
  proof (cases "n < 8")
    case True
    then show ?thesis using 1(3) by (subst to_octal.simps) simp
  next
    case False
    then obtain j where k: "k = Suc j" "0 < j" using 1(2,3) by (cases k; cases "k = 1") auto
    then have "n div 8 < 8 ^ j" using 1(2) by (simp add: less_mult_imp_div_less mult.commute)
    then have "length (to_octal (n div 8)) \<le> j" using 1(1) [OF False] k(2) by simp
    then show ?thesis using False k by (subst to_octal.simps) simp
  qed
qed

lemma octal_value_pad: "octal_value (replicate k CHR ''0'' @ s) = octal_value s"
proof -
  have "foldl (\<lambda>a c. 8 * a + (of_char c - 48)) 0 (replicate k CHR ''0'') = (0 :: nat)" by (induction k) simp_all
  then show ?thesis by (simp add: octal_value_def)
qed

text \<open>The digits of a field: as many as it holds, and of the value as long as it is small enough.\<close>

definition octal_field :: "nat \<Rightarrow> nat \<Rightarrow> string" where
  "octal_field k n = last_chars k (pad_start k (to_octal n))"

lemma magic_length: "length USTAR_MAGIC = 6"
  by (simp add: USTAR_MAGIC_def)

lemma octal_field_length: "length (octal_field k n) = k"
  by (simp add: octal_field_def last_chars_def pad_start_def)

lemma octal_field_octal: "list_all is_octal (octal_field k n)"
proof -
  have "list_all is_octal (pad_start k (to_octal n))"
    using to_octal_octal [of n] by (auto simp: pad_start_def list_all_iff is_octal_def)
  then show ?thesis unfolding octal_field_def last_chars_def list_all_iff by (meson in_set_dropD)
qed

lemma octal_field_value: "n < 8 ^ k \<Longrightarrow> 0 < k \<Longrightarrow> octal_value (octal_field k n) = n"
  using to_octal_length [of n k] by (simp add: octal_field_def last_chars_def pad_start_def octal_value_pad octal_value_to_octal)

lemma writeOctal_field:
  "0 < n \<Longrightarrow> writeOctal v off n buf = write_at (off + n - 1) 1 [NUL] (write_at off (n - 1) (octal_field (n - 1) v) buf)"
  by (simp add: writeOctal_def octal_field_def)

lemma write_length [simp]: "off + length (take n s) \<le> length buf \<Longrightarrow> length (write_at off n s buf) = length buf"
  by (simp add: write_at_def Let_def)

text \<open>Writes that fit leave the length as it is and change nothing outside their place.\<close>

definition write_all :: "(nat \<times> string) list \<Rightarrow> string \<Rightarrow> string" where
  "write_all ws h = fold (\<lambda>(off, s). write_at off (length s) s) ws h"

lemma write_all_simps [simp]:
  "write_all [] h = h" "write_all ((off, s) # ws) h = write_all ws (write_at off (length s) s h)"
  "write_all (ws @ ws') h = write_all ws' (write_all ws h)"
  by (simp_all add: write_all_def)

lemma write_fits: "off + length s \<le> length h \<Longrightarrow> length (write_at off (length s) s h) = length h"
  by (simp add: write_at_def Let_def)

lemma write_all_length: "list_all (\<lambda>(off, s). off + length s \<le> length h) ws \<Longrightarrow> length (write_all ws h) = length h"
  by (induction ws arbitrary: h) (auto simp: write_fits)

lemma slice_append: "a + m \<le> length xs \<Longrightarrow> slice a m (xs @ ys) = slice a m xs"
  by (simp add: slice_def)

lemma slice_take: "a + m \<le> off \<Longrightarrow> slice a m (take off h) = slice a m h"
  by (simp add: slice_def take_drop min.absorb1)

lemma slice_write_other:
  assumes "off + length s \<le> length h" "a + m \<le> off \<or> off + length s \<le> a"
  shows "slice a m (write_at off (length s) s h) = slice a m h"
  using assms(2)
proof
  assume a: "a + m \<le> off"
  have "slice a m (write_at off (length s) s h) = slice a m (take off h)"
    unfolding write_at_def Let_def by (rule slice_append) (use a assms(1) in simp)
  then show ?thesis using slice_take [OF a] by simp
next
  assume "off + length s \<le> a"
  then show ?thesis using assms(1) by (simp add: slice_def write_at_def Let_def)
qed

lemma slice_write_all:
  "list_all (\<lambda>(off, s). off + length s \<le> length h \<and> (a + m \<le> off \<or> off + length s \<le> a)) ws \<Longrightarrow>
     slice a m (write_all ws h) = slice a m h"
proof (induction ws arbitrary: h)
  case (Cons w ws)
  obtain off s where w: "w = (off, s)" by (cases w)
  have fits: "off + length s \<le> length h" "a + m \<le> off \<or> off + length s \<le> a" using Cons.prems w by simp_all
  have "slice a m (write_all ws (write_at off (length s) s h)) = slice a m (write_at off (length s) s h)"
    by (rule Cons.IH) (use Cons.prems w write_fits [OF fits(1)] in simp)
  then show ?case using slice_write_other [OF fits] w by simp
qed simp

lemma slice_write_here:
  assumes "length s \<le> m" "off + length s \<le> length h"
  shows "slice off m (write_at off (length s) s h) = s @ slice (off + length s) (m - length s) h"
  using assms by (simp add: slice_def write_at_def Let_def)

lemma slice_replicate: "a + m \<le> n \<Longrightarrow> slice a m (replicate n c) = replicate m c"
  by (simp add: slice_def)

definition header_writes :: "string \<Rightarrow> string \<Rightarrow> nat \<Rightarrow> nat \<Rightarrow> nat \<Rightarrow> (nat \<times> string) list" where
  "header_writes pre filename z mode mtime =
     [(0, filename), (100, octal_field 7 (mode mod 4096)), (107, [NUL]), (108, octal_field 7 0), (115, [NUL]),
      (116, octal_field 7 0), (123, [NUL])] @ [(124, octal_field 11 z), (135, [NUL])]
     @ [(136, octal_field 11 mtime), (147, [NUL]), (148, ''        '')] @ [(156, ''0'')]
     @ [(257, USTAR_MAGIC)] @ [(263, ''00'')] @ (if pre \<noteq> [] then [(345, pre)] else [])"

lemma write_at_cong: "length s \<le> n \<Longrightarrow> write_at off n s h = write_at off (length s) s h"
  by (simp add: write_at_def)

lemma header_fields_writes:
  assumes "length filename \<le> 100" "length pre \<le> 155"
  shows "header_fields pre filename z mode mtime = write_all (header_writes pre filename z mode mtime) (replicate 512 NUL)"
proof -
  have octal: "writeOctal v off (Suc k) h = write_all [(off, octal_field k v), (off + k, [NUL])] h" for v off k h
    by (simp add: writeOctal_field octal_field_length)
  have o8: "writeOctal v off 8 h = write_all [(off, octal_field 7 v), (off + 7, [NUL])] h" for v off h
    using octal [of v off 7 h] by simp
  have o12: "writeOctal v off 12 h = write_all [(off, octal_field 11 v), (off + 11, [NUL])] h" for v off h
    using octal [of v off 11 h] by simp
  have lit: "write_at off 8 ''        '' h = write_all [(off, ''        '')] h" "write_at off 1 ''0'' h = write_all [(off, ''0'')] h"
    "write_at off 6 USTAR_MAGIC h = write_all [(off, USTAR_MAGIC)] h" "write_at off 2 ''00'' h = write_all [(off, ''00'')] h" for off h
    by (simp_all add: write_at_def USTAR_MAGIC_def)
  have fit: "write_at 0 100 filename h = write_all [(0, filename)] h" "write_at 345 155 pre h = write_all [(345, pre)] h" for h
    using assms write_at_cong [of filename 100] write_at_cong [of pre 155] by simp_all
  show ?thesis
    by (simp only: header_fields_def header_writes_def Let_def o8 o12 lit fit BLOCK_SIZE_def write_all_simps if_distrib
        append_Cons append_Nil simp_thms) (simp add: BLOCK_SIZE_def)
qed

lemma header_length_fields:
  assumes "length filename \<le> 100" "length pre \<le> 155"
  shows "length (header_fields pre filename z mode mtime) = 512"
  unfolding header_fields_writes [OF assms]
  by (subst write_all_length) (use assms in \<open>simp_all add: header_writes_def octal_field_length magic_length\<close>)

lemma checksum_writes:
  "with_checksum h = write_all [(148, last_chars 6 (pad_start 6 (to_octal (sum_list (map of_char h))))), (154, [NUL]), (155, '' '')] h"
proof -
  have "length (last_chars 6 s) \<le> 6" for s by (simp add: last_chars_def)
  then show ?thesis by (simp add: with_checksum_def Let_def write_at_cong [of _ 6])
qed

lemma checksum_slice:
  assumes "length h = 512" "a + m \<le> 148 \<or> 156 \<le> a"
  shows "slice a m (with_checksum h) = slice a m h" "length (with_checksum h) = 512"
proof -
  have l: "length (last_chars 6 s) \<le> 6" for s by (simp add: last_chars_def)
  show "slice a m (with_checksum h) = slice a m h"
    unfolding checksum_writes
    by (rule slice_write_all) (use assms l [of "pad_start 6 (to_octal (sum_list (map of_char h)))"] in auto)
  show "length (with_checksum h) = 512"
    unfolding checksum_writes
    by (subst write_all_length) (use assms(1) l [of "pad_start 6 (to_octal (sum_list (map of_char h)))"] in auto)
qed

text \<open>A write that is followed by others elsewhere is read back.\<close>

lemma slice_written:
  assumes "length h = 512" "list_all (\<lambda>(off, s). off + length s \<le> 512) ws" "off + m \<le> 512" "length s = m"
    and "list_all (\<lambda>(o', s). o' + length s \<le> 512 \<and> (off + m \<le> o' \<or> o' + length s \<le> off)) ws'"
  shows "slice off m (write_all (ws @ (off, s) # ws') h) = s"
proof -
  have l: "length (write_all ws h) = 512" using write_all_length [of h ws] assms(1,2) by simp
  have l2: "length (write_at off (length s) s (write_all ws h)) = 512" using write_fits [of off s "write_all ws h"] l assms(3,4) by simp
  have "slice off m (write_all ws' (write_at off (length s) s (write_all ws h))) = slice off m (write_at off (length s) s (write_all ws h))"
    by (rule slice_write_all) (use assms(5) l2 in simp)
  also have "\<dots> = s" using slice_write_here [of s m off "write_all ws h"] assms(3,4) l by (simp add: slice_def)
  finally show ?thesis by simp
qed

lemma slice_plus: "slice a (m + n) h = slice a m h @ slice (a + m) n h"
  by (simp add: slice_def take_add add.commute)

definition fixed_writes :: "string \<Rightarrow> nat \<Rightarrow> nat \<Rightarrow> nat \<Rightarrow> (nat \<times> string) list" where
  "fixed_writes filename z mode mtime =
     [(0, filename), (100, octal_field 7 (mode mod 4096)), (107, [NUL]), (108, octal_field 7 0), (115, [NUL]),
      (116, octal_field 7 0), (123, [NUL]), (124, octal_field 11 z), (135, [NUL]),
      (136, octal_field 11 mtime), (147, [NUL]), (148, ''        ''), (156, ''0''), (257, USTAR_MAGIC), (263, ''00'')]"

lemma header_writes_fixed: "header_writes pre filename z mode mtime = fixed_writes filename z mode mtime @ (if pre \<noteq> [] then [(345, pre)] else [])"
  by (simp add: header_writes_def fixed_writes_def)

lemma slice_fixed:
  assumes "length pre \<le> 155" "fixed_writes filename z mode mtime = us @ (off, s) # vs" "length s = m" "off + m \<le> 345"
    "list_all (\<lambda>(off, s). off + length s \<le> 512) us"
    "list_all (\<lambda>(o', s). o' + length s \<le> 512 \<and> (off + m \<le> o' \<or> o' + length s \<le> off)) vs"
  shows "slice off m (write_all (fixed_writes filename z mode mtime @ (if pre \<noteq> [] then [(345, pre)] else [])) (replicate 512 NUL)) = s"
proof -
  have "slice off m (write_all (us @ (off, s) # (vs @ (if pre \<noteq> [] then [(345, pre)] else []))) (replicate 512 NUL)) = s"
    by (rule slice_written) (use assms in simp_all)
  then show ?thesis unfolding assms(2) by simp
qed

lemma slice_fields:
  assumes "length filename \<le> 100" "length pre \<le> 155"
  shows "slice 0 100 (header_fields pre filename z mode mtime) = filename @ zeros (100 - length filename)"
    and "slice 124 12 (header_fields pre filename z mode mtime) = octal_field 11 z @ [NUL]"
    and "slice 156 1 (header_fields pre filename z mode mtime) = ''0''"
    and "slice 257 6 (header_fields pre filename z mode mtime) = USTAR_MAGIC"
    and "slice 345 155 (header_fields pre filename z mode mtime) = pre @ zeros (155 - length pre)"
proof -
  let ?f = "fixed_writes filename z mode mtime" and ?z = "replicate 512 NUL"
  let ?p = "if pre \<noteq> [] then [(345, pre)] else []"
  have whole: "header_fields pre filename z mode mtime = write_all (?f @ ?p) ?z"
    using header_fields_writes [OF assms] by (simp only: header_writes_fixed)
  have "slice 0 100 (write_all (tl ?f @ ?p) (write_at 0 (length filename) filename ?z)) = slice 0 100 (write_at 0 (length filename) filename ?z)"
    by (rule slice_write_all) (use assms in \<open>simp add: fixed_writes_def octal_field_length magic_length write_fits\<close>)
  moreover have "write_all (?f @ ?p) ?z = write_all (tl ?f @ ?p) (write_at 0 (length filename) filename ?z)"
    by (simp add: fixed_writes_def)
  ultimately show "slice 0 100 (header_fields pre filename z mode mtime) = filename @ zeros (100 - length filename)"
    unfolding whole using assms(1) by (simp add: slice_write_here slice_replicate zeros_def)
  have "slice 124 11 (write_all (?f @ ?p) ?z) = octal_field 11 z"
    by (rule slice_fixed [where us = "take 7 ?f" and vs = "drop 8 ?f"]) (use assms in \<open>simp_all add: fixed_writes_def octal_field_length magic_length\<close>)
  moreover have "slice 135 1 (write_all (?f @ ?p) ?z) = [NUL]"
    by (rule slice_fixed [where us = "take 8 ?f" and vs = "drop 9 ?f"]) (use assms in \<open>simp_all add: fixed_writes_def octal_field_length magic_length\<close>)
  ultimately show "slice 124 12 (header_fields pre filename z mode mtime) = octal_field 11 z @ [NUL]"
    unfolding whole using slice_plus [of 124 11 1 "write_all (?f @ ?p) ?z"] by simp
  show "slice 156 1 (header_fields pre filename z mode mtime) = ''0''" unfolding whole
    by (rule slice_fixed [where us = "take 12 ?f" and vs = "drop 13 ?f"]) (use assms in \<open>simp_all add: fixed_writes_def octal_field_length magic_length\<close>)
  show "slice 257 6 (header_fields pre filename z mode mtime) = USTAR_MAGIC" unfolding whole
    by (rule slice_fixed [where us = "take 13 ?f" and vs = "drop 14 ?f"]) (use assms in \<open>simp_all add: fixed_writes_def octal_field_length magic_length\<close>)
  have l: "length (write_all ?f ?z) = 512"
    by (subst write_all_length) (use assms(1) in \<open>simp_all add: fixed_writes_def octal_field_length magic_length\<close>)
  have untouched: "slice a m (write_all ?f ?z) = replicate m NUL" if "345 \<le> a" "a + m \<le> 512" for a m
  proof -
    have "slice a m (write_all ?f ?z) = slice a m ?z"
      by (rule slice_write_all) (use that assms(1) in \<open>simp add: fixed_writes_def octal_field_length magic_length\<close>)
    then show ?thesis using that slice_replicate by simp
  qed
  show "slice 345 155 (header_fields pre filename z mode mtime) = pre @ zeros (155 - length pre)"
  proof (cases "pre = []")
    case True
    then show ?thesis unfolding whole using untouched [of 345 155] by (simp add: zeros_def)
  next
    case False
    have "slice 345 155 (write_at 345 (length pre) pre (write_all ?f ?z)) = pre @ slice (345 + length pre) (155 - length pre) (write_all ?f ?z)"
      by (rule slice_write_here) (use assms(2) l in simp_all)
    then show ?thesis unfolding whole using False untouched [of "345 + length pre" "155 - length pre"] assms(2) by (simp add: zeros_def)
  qed
qed


section \<open>What the reader finds in a header\<close>

lemma octal_char: "is_octal c \<Longrightarrow> char_of (of_char c mod 128 :: nat) = c \<and> c \<noteq> NUL \<and> c \<noteq> CHR '' '' \<and> \<not> js_ws c \<and> c \<noteq> CHR ''-'' \<and> c \<noteq> CHR ''+''"
proof -
  assume "is_octal c"
  then have r: "48 \<le> (of_char c :: nat)" "(of_char c :: nat) \<le> 55" by (simp_all add: is_octal_def)
  then have k: "(of_char c :: nat) mod 128 = of_char c" by simp
  have "c \<noteq> d" if "(of_char d :: nat) < 48" for d using r that by auto
  then show ?thesis using r unfolding k by (simp add: js_ws_def)
qed

lemma ascii_octal: "list_all is_octal ds \<Longrightarrow> ascii_decode ds = ds"
  by (induction ds) (simp_all add: ascii_decode_def octal_char)

lemma parse_octal_digits:
  assumes "list_all is_octal ds" "ds \<noteq> []"
  shows "parseInt8 ds = Some (int (octal_value ds))"
proof -
  obtain c r where ds: "ds = c # r" "is_octal c" using assms by (cases ds) auto
  have tw: "takeWhile is_octal ds = ds" using assms(1) by (simp add: takeWhile_eq_all_conv list_all_iff)
  have "js_trim_start ds = ds" "parse_sign ds = (False, ds)" using ds octal_char [OF ds(2)] by (simp_all add: js_trim_start_def parse_sign_def)
  then show ?thesis using assms(2) by (simp only: parseInt8_def Let_def tw prod.case if_False)
qed

lemma parse_octal_field:
  assumes "slice off (k + 1) h = octal_field k z @ [NUL]" "z < 8 ^ k" "0 < k"
  shows "parseOctal h off (k + 1) = int z"
proof -
  have "filter (\<lambda>c. c \<noteq> NUL \<and> c \<noteq> CHR '' '') (octal_field k z) = octal_field k z"
    by (rule filter_True) (use octal_field_octal [of k z] octal_char in \<open>auto simp: list_all_iff\<close>)
  moreover have "ascii_decode (octal_field k z @ [NUL]) = octal_field k z @ [NUL]"
    using ascii_octal [OF octal_field_octal [of k z]] by (simp add: ascii_decode_def char_of_eq_iff)
  moreover have "octal_field k z \<noteq> []" using octal_field_length [of k z] assms(3) by auto
  ultimately show ?thesis
    using assms parse_octal_digits [OF octal_field_octal] octal_field_value by (simp add: parseOctal_def Let_def)
qed

lemma strip_zeros: "NUL \<notin> set s \<Longrightarrow> strip_nul (s @ zeros k) = s"
proof (induction s)
  case Nil
  show ?case by (cases k) (simp_all add: zeros_def)
next
  case (Cons a s)
  then have "a \<noteq> NUL" "strip_nul (s @ zeros k) = s" by auto
  then show ?case by simp
qed

text \<open>Where a long name is cut.\<close>

lemma split_name_joins:
  assumes "split_name name = (pre, filename)"
  shows "length pre \<le> 155" "pre \<noteq> [] \<Longrightarrow> pre @ ''/'' @ filename = name" "pre = [] \<Longrightarrow> filename = name"
proof -
  have "length pre \<le> 155 \<and> (pre \<noteq> [] \<longrightarrow> pre @ ''/'' @ filename = name) \<and> (pre = [] \<longrightarrow> filename = name)"
  proof (cases "length name > 100 \<and> (case last_index CHR ''/'' 155 name of None \<Rightarrow> False | Some idx \<Rightarrow> idx > 0)")
    case False
    then show ?thesis using assms by (auto simp: split_name_def split: option.splits if_splits)
  next
    case True
    then obtain idx where idx: "last_index CHR ''/'' 155 name = Some idx" "idx > 0" by (auto split: option.splits)
    let ?ps = "filter (\<lambda>i. name ! i = CHR ''/'') [0..<min (Suc 155) (length name)]"
    have "?ps \<noteq> [] \<and> idx = last ?ps" using idx(1) by (simp add: last_index_def Let_def split: if_splits)
    then have "idx \<in> set ?ps" using last_in_set by blast
    then have at: "name ! idx = CHR ''/''" "idx \<le> 155" "idx < length name" by auto
    have cut: "pre = take idx name" "filename = drop (idx + 1) name" using assms True idx by (simp_all add: split_name_def)
    have "pre @ ''/'' @ filename = name" using cut at id_take_nth_drop [OF at(3)] by simp
    then show ?thesis using cut at idx(2) by auto
  qed
  then show "length pre \<le> 155" "pre \<noteq> [] \<Longrightarrow> pre @ ''/'' @ filename = name" "pre = [] \<Longrightarrow> filename = name" by simp_all
qed

lemma buildHeader_reads:
  assumes "buildHeader name z mode mtime = Some h" "NUL \<notin> set name" "z < 8 ^ 11"
  shows "length h = 512" "header_name h = name" "regular h" "parseOctal h 124 12 = int z" "\<not> list_all (\<lambda>b. b = NUL) h"
proof -
  obtain pre filename where sp: "split_name name = (pre, filename)" by (cases "split_name name")
  let ?f = "header_fields pre filename z mode mtime"
  have b: "length filename \<le> 100" "h = with_checksum ?f" using assms(1) sp by (simp_all add: buildHeader_def split: if_splits)
  note joins = split_name_joins [OF sp]
  have fields: "slice a m h = slice a m ?f" if "a + m \<le> 148 \<or> 156 \<le> a" for a m
    unfolding b(2) using checksum_slice(1) [OF header_length_fields [OF b(1) joins(1)] that] by simp
  show "length h = 512" unfolding b(2) by (rule checksum_slice(2) [where a = 0 and m = 0]) (simp_all add: header_length_fields [OF b(1) joins(1)])
  have no_nul: "NUL \<notin> set pre" "NUL \<notin> set filename" using assms(2) joins(2,3) by (cases "pre = []"; auto)+
  have "strip_nul (slice 0 100 h) = filename" "strip_nul (slice 345 155 h) = pre"
    using fields slice_fields [OF b(1) joins(1)] strip_zeros no_nul by simp_all
  then show "header_name h = name" using joins(2,3) by (cases "pre = []") (simp_all add: header_name_def Let_def)
  have t: "slice 156 1 h = ''0''" using fields slice_fields(3) [OF b(1) joins(1)] by simp
  then show "regular h" by (simp add: regular_def ascii_decode_def Let_def char_of_eq_iff)
  have "slice 124 (11 + 1) h = octal_field 11 z @ [NUL]" using fields slice_fields(2) [OF b(1) joins(1)] by simp
  then show "parseOctal h 124 12 = int z" using parse_octal_field [of 124 11 h z] assms(3) by simp
  have "CHR ''0'' \<in> set h" using t unfolding slice_def by (metis in_set_dropD in_set_takeD list.set_intros(1))
  then show "\<not> list_all (\<lambda>b. b = NUL) h" by (auto simp: list_all_iff)
qed


section \<open>What is written is read back\<close>

lemma js_slice_nat: "js_slice (int a) (int a + int m) s = slice a m s"
proof -
  have p: "position (int k) s = min k (length s)" for k by (simp add: position_def min_def)
  have "js_slice (int a) (int (a + m)) s = take (min (a + m) (length s) - min a (length s)) (drop (min a (length s)) s)"
    unfolding js_slice_def p by simp
  also have "\<dots> = slice a m s" by (cases "a \<le> length s") (simp_all add: slice_def min_def)
  finally show ?thesis by simp
qed

lemma slice_after: "slice (length b) m (b @ s) = take m s"
  by (simp add: slice_def)

lemma padToBlock_nonneg: "0 \<le> padToBlock (int n)"
proof -
  have "int n mod int BLOCK_SIZE < int BLOCK_SIZE" by (simp add: BLOCK_SIZE_def)
  then show ?thesis by (simp add: padToBlock_def Let_def)
qed

definition set_file :: "tar_entry \<Rightarrow> (string \<times> string) list \<Rightarrow> (string \<times> string) list" where
  "set_file e = AList.update (entry_name e) (te_data e)"

text \<open>One entry of the archive is one step of the reader.\<close>

lemma extract_entry:
  assumes h: "buildHeader name (length d) mode mtime = Some h" "NUL \<notin> set name" "length d < 8 ^ 11"
    and p: "length p = nat (padToBlock (int (length d)))"
  shows "extract_loop (before @ h @ d @ p @ rest) (int (length before)) files =
    extract_loop (before @ h @ d @ p @ rest) (int (length (before @ h @ d @ p))) (AList.update name d files)"
proof -
  note r = buildHeader_reads [OF h]
  let ?tar = "before @ h @ d @ p @ rest"
  have hd: "js_slice (int (length before)) (int (length before) + int BLOCK_SIZE) ?tar = h"
    unfolding js_slice_nat slice_after using r(1) by (simp add: BLOCK_SIZE_def)
  have start: "int (length before) + int BLOCK_SIZE = int (length (before @ h))" using r(1) by (simp add: BLOCK_SIZE_def)
  have data: "js_slice (int (length (before @ h))) (int (length (before @ h)) + int (length d)) ?tar = d"
    unfolding js_slice_nat using slice_after [of "before @ h" "length d" "d @ p @ rest"] by simp
  have fits: "int (length before) + int BLOCK_SIZE \<le> int (length ?tar)" using r(1) by (simp add: BLOCK_SIZE_def)
  have next_at: "int (length (before @ h)) + int (length d) + padToBlock (int (length d)) = int (length (before @ h @ d @ p))"
    using p padToBlock_nonneg [of "length d"] by simp
  show ?thesis
    by (subst extract_loop.simps)
      (simp only: hd [unfolded start] fits [unfolded start] r(2,3,4,5) Let_def start data next_at if_True if_False simp_thms)
qed

lemma extract_entries:
  assumes "tar_entries now es = Some t" "\<forall>e \<in> set es. te_name e \<noteq> [] \<longrightarrow> NUL \<notin> set (te_name e) \<and> length (te_data e) < 8 ^ 11"
  shows "extract_loop (before @ t @ rest) (int (length before)) files =
    extract_loop (before @ t @ rest) (int (length (before @ t))) (fold set_file (filter (\<lambda>e. te_name e \<noteq> []) es) files)"
  using assms
proof (induction es arbitrary: t before files)
  case (Cons e es)
  note ok = Cons.prems(2)
  show ?case
  proof (cases "te_name e = []")
    case True
    then show ?thesis using Cons.IH [of t before files] Cons.prems by simp
  next
    case False
    obtain h where h: "buildHeader (entry_name e) (length (te_data e)) (if te_mode e = 0 then 420 else te_mode e)
        (if te_mtime e = 0 then now else te_mtime e) = Some h"
      using Cons.prems(1) False by (cases "buildHeader (entry_name e) (length (te_data e)) (if te_mode e = 0 then 420 else te_mode e)
        (if te_mtime e = 0 then now else te_mtime e)") simp_all
    define p where "p = zeros (nat (padToBlock (int (length (te_data e)))))"
    obtain u where u: "tar_entries now es = Some u" "t = h @ te_data e @ p @ u"
      using Cons.prems(1) False h by (auto simp: p_def)
    have ok_e: "NUL \<notin> set (te_name e)" "length (te_data e) < 8 ^ 11" using ok False by simp_all
    have nul: "NUL \<notin> set (entry_name e)"
    proof
      assume "NUL \<in> set (entry_name e)"
      then have "NUL \<in> set (map (\<lambda>c. if c = CHR 0x5C then CHR ''/'' else c) (te_name e))"
        unfolding entry_name_def by (auto dest: set_dropWhileD)
      then show False using ok_e(1) by (auto split: if_splits)
    qed
    have pl: "length p = nat (padToBlock (int (length (te_data e))))" by (simp add: p_def zeros_def)
    have "extract_loop (before @ t @ rest) (int (length before)) files =
      extract_loop (before @ h @ te_data e @ p @ u @ rest) (int (length (before @ h @ te_data e @ p)))
        (set_file e files)"
      using extract_entry [OF h nul ok_e(2) pl, of before "u @ rest" files] u(2) by (simp add: set_file_def)
    also have "\<dots> = extract_loop (before @ t @ rest) (int (length (before @ t)))
        (fold set_file (filter (\<lambda>e. te_name e \<noteq> []) es) (set_file e files))"
      using Cons.IH [OF u(1), of "before @ h @ te_data e @ p" "set_file e files"] ok u(2) by simp
    finally show ?thesis using False by simp
  qed
qed simp

lemma extract_end: "extract_loop (before @ zeros (2 * BLOCK_SIZE)) (int (length before)) files = Some files"
proof -
  have hd: "js_slice (int (length before)) (int (length before) + int BLOCK_SIZE) (before @ zeros (2 * BLOCK_SIZE)) = zeros BLOCK_SIZE"
    unfolding js_slice_nat slice_after by (simp add: zeros_def BLOCK_SIZE_def)
  have z: "list_all (\<lambda>b. b = NUL) (zeros BLOCK_SIZE)" by (simp add: zeros_def list_all_iff)
  have fits: "int (length before) + int BLOCK_SIZE \<le> int (length (before @ zeros (2 * BLOCK_SIZE)))" by (simp add: zeros_def)
  show ?thesis by (subst extract_loop.simps) (simp only: hd z fits Let_def if_True if_False simp_thms)
qed

text \<open>Reading what was written gives every file of the archive, the last one where a name occurs twice.\<close>

lemma archive_roundtrip:
  assumes "createTarGz gzip now es = Some b" "\<And>t. gunzip (gzip t) = Some t"
    and "\<forall>e \<in> set es. te_name e \<noteq> [] \<longrightarrow> NUL \<notin> set (te_name e) \<and> length (te_data e) < 8 ^ 11"
  shows "extractTarGz gunzip b = Some (Inr (fold set_file (filter (\<lambda>e. te_name e \<noteq> []) es) []))"
proof -
  obtain t where t: "tar_entries now es = Some t" "b = gzip (t @ zeros (2 * BLOCK_SIZE))"
    using assms(1) by (auto simp: createTarGz_def)
  have "extract_loop (t @ zeros (2 * BLOCK_SIZE)) 0 [] = Some (fold set_file (filter (\<lambda>e. te_name e \<noteq> []) es) [])"
    using extract_entries [OF t(1) assms(3), of "[]" "zeros (2 * BLOCK_SIZE)" "[]"] extract_end [of t] by simp
  then show ?thesis unfolding t(2) extractTarGz_def by (simp add: assms(2))
qed


text \<open>An archive cannot be made exactly when a name is too long for its fields.\<close>

definition name_fits :: "string \<Rightarrow> bool" where
  "name_fits name = (length (snd (split_name name)) \<le> 100)"

lemma buildHeader_fits: "(buildHeader name z mode mtime = None) = (\<not> name_fits name)"
  by (simp add: buildHeader_def name_fits_def split: prod.split)

lemma short_name_fits: "length name \<le> 100 \<Longrightarrow> name_fits name"
  by (simp add: name_fits_def split_name_def)

lemma tar_entries_none: "(tar_entries now es = None) = (\<exists>e \<in> set es. te_name e \<noteq> [] \<and> \<not> name_fits (entry_name e))"
proof (induction es)
  case (Cons e es)
  show ?case
  proof (cases "te_name e = []")
    case False
    let ?h = "buildHeader (entry_name e) (length (te_data e)) (if te_mode e = 0 then 420 else te_mode e) (if te_mtime e = 0 then now else te_mtime e)"
    have fits: "(?h = None) = (\<not> name_fits (entry_name e))" by (rule buildHeader_fits)
    then show ?thesis using False Cons.IH by (cases ?h) auto
  qed (use Cons.IH in simp)
qed simp

lemma createTarGz_throws_iff: "(createTarGz gzip now es = None) = (\<exists>e \<in> set es. te_name e \<noteq> [] \<and> \<not> name_fits (entry_name e))"
  by (simp add: createTarGz_def tar_entries_none)


section \<open>When the reader returns\<close>

definition size_at :: "string \<Rightarrow> int \<Rightarrow> int" where
  "size_at tar offset = parseOctal (js_slice offset (offset + int BLOCK_SIZE) tar) 124 12"

text \<open>The reader returns on every archive without a negative size.\<close>

lemma extract_loop_returns:
  assumes "\<forall>off. 0 \<le> size_at tar off"
  shows "0 \<le> offset \<Longrightarrow> \<exists>fs. extract_loop tar offset files = Some fs"
proof (induction "nat (int (length tar) - offset)" arbitrary: offset files rule: less_induct)
  case less
  let ?next = "offset + int BLOCK_SIZE + size_at tar offset + padToBlock (size_at tar offset)"
  have z: "0 \<le> size_at tar offset" using assms by simp
  then have "0 \<le> padToBlock (size_at tar offset)" using padToBlock_nonneg [of "nat (size_at tar offset)"] by simp
  then have further: "0 \<le> ?next" "offset < ?next" using z less.prems by (simp_all add: BLOCK_SIZE_def)
  show ?case
  proof (cases "offset + int BLOCK_SIZE \<le> int (length tar)")
    case False
    then show ?thesis by (subst extract_loop.simps) simp
  next
    case True
    then have closer: "nat (int (length tar) - ?next) < nat (int (length tar) - offset)" using further by (simp add: BLOCK_SIZE_def)
    have again: "\<exists>fs. extract_loop tar ?next fs0 = Some fs" for fs0 using less.hyps [OF closer further(1)] by blast
    show ?thesis
    proof (cases "list_all (\<lambda>b. b = NUL) (js_slice offset (offset + int BLOCK_SIZE) tar)")
      case True
      then show ?thesis by (subst extract_loop.simps) (simp add: Let_def)
    next
      case False
      then show ?thesis using again by (subst extract_loop.simps) (simp only: Let_def size_at_def [symmetric] if_False if_cancel True simp_thms)
    qed
  qed
qed

text \<open>A size of \<open>-512\<close> takes the reader back to the header it has just read.\<close>

definition stuck :: "string \<Rightarrow> int \<Rightarrow> bool" where
  "stuck tar offset = (offset = 0 \<and> BLOCK_SIZE \<le> length tar \<and> \<not> list_all (\<lambda>b. b = NUL) (take BLOCK_SIZE tar) \<and> size_at tar 0 = - 512)"

lemma extract_loop_stuck:
  assumes result: "extract_loop tar offset files = Some fs"
  shows "\<not> stuck tar offset"
proof (induction rule: extract_loop.raw_induct)
  case (1 loop tar offset files fs)
  show ?case
  proof
    assume s: "stuck tar offset"
    have hd: "js_slice 0 (0 + int BLOCK_SIZE) tar = take BLOCK_SIZE tar" using js_slice_nat [of 0 BLOCK_SIZE tar] by (simp add: slice_def)
    have again: "0 + int BLOCK_SIZE + (- 512) + padToBlock (- 512) = 0" by (simp add: BLOCK_SIZE_def padToBlock_def)
    have here: "offset = 0" "\<not> list_all (\<lambda>b. b = NUL) (take BLOCK_SIZE tar)" using s by (simp_all add: stuck_def)
    have size: "parseOctal (take BLOCK_SIZE tar) 124 12 = - 512" using s hd by (simp add: size_at_def stuck_def)
    have fits: "0 + int BLOCK_SIZE \<le> int (length tar)" using s by (simp add: stuck_def)
    obtain files' where "loop tar 0 files' = Some fs"
      using 1(2) unfolding here(1) by (simp only: Let_def hd size again fits here(2) simp_thms if_False)
    then have "\<not> stuck tar 0" by (rule 1(1))
    then show False using s here(1) by simp
  qed
qed (rule result)

text \<open>A tar file of one header with that size.\<close>

definition endless_tar :: string where
  "endless_tar = replicate 124 CHR ''a'' @ ''-1000'' @ zeros 383"

lemma endless_archive: "extractTarGz Some endless_tar = None"
proof -
  have l: "BLOCK_SIZE \<le> length endless_tar" by (simp add: endless_tar_def zeros_def BLOCK_SIZE_def)
  have a: "\<not> list_all (\<lambda>b. b = NUL) (take BLOCK_SIZE endless_tar)"
    by (simp add: endless_tar_def BLOCK_SIZE_def list_all_iff)
  have t: "take BLOCK_SIZE endless_tar = endless_tar" by (simp add: endless_tar_def zeros_def BLOCK_SIZE_def)
  have s: "slice 124 12 endless_tar = ''-1000'' @ zeros 7" by (simp add: endless_tar_def slice_def zeros_def)
  have v: "parseOctal endless_tar 124 12 = - 512" unfolding parseOctal_def s by code_simp
  have "size_at endless_tar 0 = - 512"
    using js_slice_nat [of 0 BLOCK_SIZE endless_tar] v t by (simp add: size_at_def slice_def)
  then have "stuck endless_tar 0" using l a by (simp add: stuck_def)
  then have "extract_loop endless_tar 0 [] = None" using extract_loop_stuck by (cases "extract_loop endless_tar 0 []") auto
  then show ?thesis by (simp add: extractTarGz_def)
qed

end
