(* ===== verification/Table_Dump.thy ===== *)
theory Table_Dump
  imports Complex_Main "HOL-Library.AList" Json_Values
begin

text \<open>
  The logical dump of the console database: \<open>dumpAllTables\<close> and \<open>importAllTables\<close> of both engines of
  \<open>services/dbAdapter.js\<close> and the identifiers of \<open>lib/safeSqlIdent.js\<close>.

  A database is its tables in the order of the catalog.  What the engine does on \<open>DELETE FROM\<close> and on inserting a row is
  an argument (\<open>engine\<close>): it may refuse, and a delete may reach other tables through foreign keys.  A table that cannot be
  read is left out by the code; base64 is an argument.  A value is what JSON can carry, or bytes.
\<close>

section \<open>Identifiers (safeSqlIdent.js)\<close>

definition ident_start :: "char \<Rightarrow> bool" where
  "ident_start c = (let n = of_char c :: nat in 65 \<le> n \<and> n \<le> 90 \<or> 97 \<le> n \<and> n \<le> 122 \<or> n = 95)"

definition isSafeSqlIdent :: "string \<Rightarrow> bool" where
  "isSafeSqlIdent name = (case name of [] \<Rightarrow> False | c # cs \<Rightarrow> ident_start c \<and> list_all (\<lambda>d. ident_start d \<or> is_digit d) cs)"


section \<open>Databases\<close>

datatype dbval = Val json | Bytes string

type_synonym db_row = "(string \<times> dbval) list"

record db_table =
  tb_cols :: "string list"
  tb_rows :: "db_row list"

type_synonym db = "(string \<times> db_table) list"

record engine =
  en_delete :: "string \<Rightarrow> db \<Rightarrow> db option"
  en_insert :: "db \<Rightarrow> string \<Rightarrow> db_row \<Rightarrow> db_row list \<Rightarrow> db_row list option"


section \<open>The dump\<close>

definition dump_value :: "(string \<Rightarrow> string) \<Rightarrow> dbval \<Rightarrow> json" where
  "dump_value enc v = (case v of Bytes b \<Rightarrow> JObj [(''__buf__'', JStr (enc b))] | Val j \<Rightarrow> j)"

definition dump_row :: "(string \<Rightarrow> string) \<Rightarrow> db_row \<Rightarrow> json" where
  "dump_row enc r = JObj (map (\<lambda>(k, v). (k, dump_value enc v)) r)"

definition dump_tables :: "(string \<Rightarrow> string) \<Rightarrow> (string \<Rightarrow> bool) \<Rightarrow> db \<Rightarrow> (string \<times> json) list" where
  "dump_tables enc readable d =
     map (\<lambda>(n, t). (n, JArr (map (dump_row enc) (tb_rows t)))) (filter (\<lambda>(n, t). isSafeSqlIdent n \<and> readable n) d)"

text \<open>\<open>NOT LIKE 'sqlite_%'\<close>, where the underscore is any character and case is ignored.\<close>

definition sqlite_internal :: "string \<Rightarrow> bool" where
  "sqlite_internal n = (7 \<le> length n \<and> js_lower (take 6 n) = ''sqlite'')"

definition sqlite_dumpAllTables :: "(string \<Rightarrow> string) \<Rightarrow> (string \<Rightarrow> bool) \<Rightarrow> db \<Rightarrow> json" where
  "sqlite_dumpAllTables enc readable d =
     JObj [(''_engine'', JStr ''sqlite''), (''tables'', JObj (dump_tables enc readable (filter (\<lambda>(n, t). \<not> sqlite_internal n) d)))]"

definition pg_dumpAllTables :: "(string \<Rightarrow> string) \<Rightarrow> (string \<Rightarrow> bool) \<Rightarrow> db \<Rightarrow> json" where
  "pg_dumpAllTables enc readable d =
     JObj [(''_engine'', JStr ''postgres''), (''tables'', JObj (dump_tables enc readable d))]"


section \<open>The import\<close>

text \<open>\<open>Object.entries\<close>; the indices of arrays and strings are no safe identifiers.\<close>

definition entries :: "json \<Rightarrow> (string \<times> json) list" where
  "entries v = (case v of
     JObj fs \<Rightarrow> fs
   | JArr xs \<Rightarrow> map (\<lambda>i. (show_nat i, xs ! i)) [0..<length xs]
   | JStr s \<Rightarrow> map (\<lambda>i. (show_nat i, JStr [s ! i])) [0..<length s]
   | _ \<Rightarrow> [])"

definition load_value :: "(string \<Rightarrow> string) \<Rightarrow> json \<Rightarrow> dbval" where
  "load_value dec v = (case field v ''__buf__'' of Some (JStr s) \<Rightarrow> Bytes (dec s) | _ \<Rightarrow> Val v)"

definition load_row :: "(string \<Rightarrow> string) \<Rightarrow> string list \<Rightarrow> json \<Rightarrow> db_row" where
  "load_row dec cols row =
     map (\<lambda>(k, v). (k, load_value dec v)) (filter (\<lambda>(k, v). k \<in> set cols \<and> isSafeSqlIdent k) (entries row))"

text \<open>The rows of a table, one insert each; \<open>Object.keys(null)\<close> throws.\<close>

fun insert_rows :: "engine \<Rightarrow> db \<Rightarrow> (string \<Rightarrow> string) \<Rightarrow> string \<Rightarrow> string list \<Rightarrow> json list \<Rightarrow> db_row list \<Rightarrow> db_row list option" where
  "insert_rows E d dec name cols [] acc = Some acc"
| "insert_rows E d dec name cols (row # rows) acc =
     (if row = JNull then None
      else let r = load_row dec cols row in
        if r = [] then insert_rows E d dec name cols rows acc
        else case en_insert E d name r acc of
               None \<Rightarrow> None
             | Some acc' \<Rightarrow> insert_rows E d dec name cols rows acc')"

record import_result =
  im_restored :: "string list"
  im_skipped :: "string list"
  im_warnings :: "string list"

text \<open>One table, in a transaction: a failure leaves the database as it was.\<close>

definition import_rows :: "engine \<Rightarrow> (string \<Rightarrow> string) \<Rightarrow> string \<Rightarrow> json list \<Rightarrow> db \<Rightarrow> db option" where
  "import_rows E dec name rows d =
     (case map_of d name of
        None \<Rightarrow> None
      | Some t \<Rightarrow> (case en_delete E name d of
          None \<Rightarrow> None
        | Some d' \<Rightarrow> (case insert_rows E d' dec name (tb_cols t) rows [] of
            None \<Rightarrow> None
          | Some rs \<Rightarrow> Some (AList.update name (t\<lparr>tb_rows := rs\<rparr>) d'))))"

definition import_table :: "engine \<Rightarrow> (string \<Rightarrow> string) \<Rightarrow> string \<times> json \<Rightarrow> import_result \<times> db \<Rightarrow> import_result \<times> db" where
  "import_table E dec = (\<lambda>(name, rows) (r, d).
     case rows of
       JArr xs \<Rightarrow>
         if \<not> isSafeSqlIdent name \<or> name \<notin> fst ` set d then (r\<lparr>im_skipped := im_skipped r @ [name]\<rparr>, d)
         else (case import_rows E dec name xs d of
                 Some d' \<Rightarrow> (r\<lparr>im_restored := im_restored r @ [name]\<rparr>, d')
               | None \<Rightarrow> (r\<lparr>im_warnings := im_warnings r @ [name]\<rparr>, d))
     | _ \<Rightarrow> (r\<lparr>im_skipped := im_skipped r @ [name]\<rparr>, d))"

definition dumped_tables :: "json \<Rightarrow> (string \<times> json) list" where
  "dumped_tables dump =
     (case field dump ''tables'' of Some ts \<Rightarrow> if truthy (Some ts) then entries ts else [] | None \<Rightarrow> [])"

definition no_import :: import_result where
  "no_import = \<lparr>im_restored = [], im_skipped = [], im_warnings = []\<rparr>"

definition import_tables :: "engine \<Rightarrow> (string \<Rightarrow> string) \<Rightarrow> json \<Rightarrow> db \<Rightarrow> import_result \<times> db" where
  "import_tables E dec dump d = fold (import_table E dec) (dumped_tables dump) (no_import, d)"

text \<open>SQLite switches the foreign keys off for the time of the import; PostgreSQL asks for a role whose deletes and
  inserts fire no triggers, which it may be refused.\<close>

record connection =
  cn_checked :: engine
  cn_unchecked :: engine
  cn_may_replicate :: bool

definition sqlite_importAllTables :: "connection \<Rightarrow> (string \<Rightarrow> string) \<Rightarrow> json \<Rightarrow> db \<Rightarrow> import_result \<times> db" where
  "sqlite_importAllTables C dec dump d = import_tables (cn_unchecked C) dec dump d"

definition pg_importAllTables :: "connection \<Rightarrow> (string \<Rightarrow> string) \<Rightarrow> json \<Rightarrow> db \<Rightarrow> import_result \<times> db" where
  "pg_importAllTables C dec dump d =
     import_tables (if cn_may_replicate C then cn_unchecked C else cn_checked C) dec dump d"


section \<open>A dump restores the tables\<close>

definition plain_value :: "dbval \<Rightarrow> bool" where
  "plain_value v = (case v of Bytes b \<Rightarrow> True | Val j \<Rightarrow> (case field j ''__buf__'' of Some (JStr s) \<Rightarrow> False | _ \<Rightarrow> True))"

definition row_ok :: "string list \<Rightarrow> db_row \<Rightarrow> bool" where
  "row_ok cols r = (r \<noteq> [] \<and> list_all (\<lambda>(k, v). k \<in> set cols \<and> isSafeSqlIdent k \<and> plain_value v) r)"

lemma load_dump_value: "plain_value v \<Longrightarrow> (\<And>b. dec (enc b) = b) \<Longrightarrow> load_value dec (dump_value enc v) = v"
  by (cases v) (auto simp: load_value_def dump_value_def field_def plain_value_def split: option.splits json.splits)

lemma load_dump_row:
  assumes "row_ok cols r" "\<And>b. dec (enc b) = b"
  shows "load_row dec cols (dump_row enc r) = r" "dump_row enc r \<noteq> JNull"
proof -
  have "load_row dec cols (dump_row enc r) = r" if "list_all (\<lambda>(k, v). k \<in> set cols \<and> isSafeSqlIdent k \<and> plain_value v) r" for r
    using that
  proof (induction r)
    case Nil
    show ?case by (simp add: load_row_def dump_row_def entries_def)
  next
    case (Cons kv r)
    obtain k v where kv: "kv = (k, v)" by (cases kv)
    then have "load_value dec (dump_value enc v) = v" using Cons.prems assms(2) by (simp add: load_dump_value)
    then show ?case using Cons kv by (simp add: load_row_def dump_row_def entries_def)
  qed
  then show "load_row dec cols (dump_row enc r) = r" using assms(1) by (simp add: row_ok_def)
  show "dump_row enc r \<noteq> JNull" by (simp add: dump_row_def)
qed

text \<open>The engine takes the rows of a table one after the other.\<close>

definition accepts :: "engine \<Rightarrow> string \<Rightarrow> db_row list \<Rightarrow> bool" where
  "accepts E n rows = (\<forall>d k. k < length rows \<longrightarrow> en_insert E d n (rows ! k) (take k rows) = Some (take (Suc k) rows))"

text \<open>Clearing a table never fails and reaches no other.\<close>

definition clears_only :: "engine \<Rightarrow> bool" where
  "clears_only E = (\<forall>m d. \<exists>d'. en_delete E m d = Some d' \<and> (\<forall>n. n \<noteq> m \<longrightarrow> map_of d' n = map_of d n))"

lemma insert_rows_dump:
  assumes "accepts E n (acc @ rows)" "\<forall>r \<in> set rows. row_ok cols r" "\<And>b. dec (enc b) = b"
  shows "insert_rows E d dec n cols (map (dump_row enc) rows) acc = Some (acc @ rows)"
  using assms
proof (induction rows arbitrary: acc)
  case (Cons r rows)
  have r: "load_row dec cols (dump_row enc r) = r" "dump_row enc r \<noteq> JNull" "r \<noteq> []"
    using load_dump_row [of cols r dec enc] Cons.prems(2,3) by (auto simp: row_ok_def)
  have "en_insert E d n ((acc @ r # rows) ! length acc) (take (length acc) (acc @ r # rows))
      = Some (take (Suc (length acc)) (acc @ r # rows))"
    using Cons.prems(1) [unfolded accepts_def, rule_format, of "length acc" d] by simp
  then have ins: "en_insert E d n r acc = Some (acc @ [r])" by simp
  have "insert_rows E d dec n cols (map (dump_row enc) rows) (acc @ [r]) = Some ((acc @ [r]) @ rows)"
    by (rule Cons.IH) (use Cons.prems in simp_all)
  then show ?case using r ins by simp
qed simp

lemma import_other:
  assumes "clears_only E" "n \<noteq> m"
  shows "map_of (snd (import_table E dec (m, rows) (r, d))) n = map_of d n"
    "set (im_restored r) \<subseteq> set (im_restored (fst (import_table E dec (m, rows) (r, d))))"
proof -
  have other: "map_of d' n = map_of d n" if i: "import_rows E dec m xs d = Some d'" for xs d'
  proof -
    obtain d2 where d2: "en_delete E m d = Some d2" "map_of d2 n = map_of d n" using assms unfolding clears_only_def by blast
    obtain t rs where "d' = AList.update m (t\<lparr>tb_rows := rs\<rparr>) d2"
      using i d2(1) by (auto simp: import_rows_def split: option.splits)
    then show ?thesis using d2(2) assms(2) by (simp add: update_conv')
  qed
  show "map_of (snd (import_table E dec (m, rows) (r, d))) n = map_of d n"
    unfolding import_table_def using other by (auto split: json.splits option.splits)
  show "set (im_restored r) \<subseteq> set (im_restored (fst (import_table E dec (m, rows) (r, d))))"
    unfolding import_table_def by (auto split: json.splits option.splits)
qed

lemma import_others:
  assumes "clears_only E" "n \<notin> fst ` set ts"
  shows "map_of (snd (fold (import_table E dec) ts (r, d))) n = map_of d n \<and>
    set (im_restored r) \<subseteq> set (im_restored (fst (fold (import_table E dec) ts (r, d))))"
  using assms(2)
proof (induction ts arbitrary: r d)
  case (Cons mt ts)
  obtain m rows where mt: "mt = (m, rows)" by (cases mt)
  obtain r2 d2 where step: "import_table E dec (m, rows) (r, d) = (r2, d2)" by (cases "import_table E dec (m, rows) (r, d)")
  have "n \<noteq> m" "n \<notin> fst ` set ts" using Cons.prems mt by auto
  then show ?case
    using Cons.IH [of r2 d2] import_other [OF assms(1) \<open>n \<noteq> m\<close>, where dec = dec and rows = rows and r = r and d = d] step mt by auto
qed simp

lemma import_here:
  assumes "clears_only E" "accepts E n (tb_rows t)" "\<forall>r \<in> set (tb_rows t). row_ok (tb_cols t2) r" "\<And>b. dec (enc b) = b"
    "isSafeSqlIdent n" "map_of d n = Some t2"
  shows "map_of (snd (import_table E dec (n, JArr (map (dump_row enc) (tb_rows t))) (r, d))) n = Some (t2\<lparr>tb_rows := tb_rows t\<rparr>)"
    "n \<in> set (im_restored (fst (import_table E dec (n, JArr (map (dump_row enc) (tb_rows t))) (r, d))))"
proof -
  obtain d' where "en_delete E n d = Some d'" using assms(1) unfolding clears_only_def by blast
  moreover have "insert_rows E d' dec n (tb_cols t2) (map (dump_row enc) (tb_rows t)) [] = Some (tb_rows t)"
    using insert_rows_dump [of E n "[]" "tb_rows t" "tb_cols t2" dec enc d'] assms(2,3,4) by simp
  ultimately have i: "import_rows E dec n (map (dump_row enc) (tb_rows t)) d = Some (AList.update n (t2\<lparr>tb_rows := tb_rows t\<rparr>) d')"
    using assms(6) by (simp add: import_rows_def)
  have "n \<in> fst ` set d" using assms(6) by (metis domI dom_map_of_conv_image_fst)
  then show "map_of (snd (import_table E dec (n, JArr (map (dump_row enc) (tb_rows t))) (r, d))) n = Some (t2\<lparr>tb_rows := tb_rows t\<rparr>)"
    "n \<in> set (im_restored (fst (import_table E dec (n, JArr (map (dump_row enc) (tb_rows t))) (r, d))))"
    using assms(5) i by (simp_all add: import_table_def update_conv')
qed

lemma import_tables_restores:
  assumes "clears_only E" "accepts E n (tb_rows t)" "\<forall>r \<in> set (tb_rows t). row_ok (tb_cols t2) r" "\<And>b. dec (enc b) = b"
    "isSafeSqlIdent n" "map_of d n = Some t2" "distinct (map fst ts)" "(n, JArr (map (dump_row enc) (tb_rows t))) \<in> set ts"
  shows "map_of (snd (fold (import_table E dec) ts (r, d))) n = Some (t2\<lparr>tb_rows := tb_rows t\<rparr>) \<and>
    n \<in> set (im_restored (fst (fold (import_table E dec) ts (r, d))))"
proof -
  let ?x = "(n, JArr (map (dump_row enc) (tb_rows t)))"
  obtain us vs where ts: "ts = us @ ?x # vs" using assms(8) by (meson split_list)
  then have away: "n \<notin> fst ` set us" "n \<notin> fst ` set vs" using assms(7) by auto
  obtain r1 d1 where one: "fold (import_table E dec) us (r, d) = (r1, d1)" by (cases "fold (import_table E dec) us (r, d)")
  have "map_of d1 n = Some t2" using import_others [OF assms(1) away(1), of dec r d] one assms(6) by simp
  note here = import_here [where dec = dec and enc = enc and r = r1, OF assms(1-5) this]
  obtain r2 d2 where two: "import_table E dec ?x (r1, d1) = (r2, d2)" by (cases "import_table E dec ?x (r1, d1)")
  have "map_of d2 n = Some (t2\<lparr>tb_rows := tb_rows t\<rparr>)" "n \<in> set (im_restored r2)" using here two by simp_all
  moreover have "fold (import_table E dec) ts (r, d) = fold (import_table E dec) vs (r2, d2)" using ts one two by simp
  ultimately show ?thesis using import_others [OF assms(1) away(2), of dec r2 d2] by auto
qed

lemma dump_tables_member:
  assumes "distinct (map fst src)" "(n, t) \<in> set src" "isSafeSqlIdent n" "readable n"
  shows "distinct (map fst (dump_tables enc readable src))" "(n, JArr (map (dump_row enc) (tb_rows t))) \<in> set (dump_tables enc readable src)"
proof -
  have "map fst (dump_tables enc readable src) = map fst (filter (\<lambda>(n, t). isSafeSqlIdent n \<and> readable n) src)"
    by (simp add: dump_tables_def split_def comp_def)
  then show "distinct (map fst (dump_tables enc readable src))" using assms(1) by (simp add: distinct_map_filter)
  show "(n, JArr (map (dump_row enc) (tb_rows t))) \<in> set (dump_tables enc readable src)"
    using assms(2-) by (force simp: dump_tables_def)
qed

text \<open>A table comes back from a dump, on either engine and from either engine's dump; on PostgreSQL if the role may switch the
  triggers off.\<close>

lemma dump_restores_table:
  assumes "dump = sqlite_dumpAllTables enc readable src \<or> dump = pg_dumpAllTables enc readable src"
    and "result = sqlite_importAllTables C dec dump d \<or> cn_may_replicate C \<and> result = pg_importAllTables C dec dump d"
    and "distinct (map fst src)" "(n, t) \<in> set src" "isSafeSqlIdent n" "readable n" "\<not> sqlite_internal n"
    and "clears_only (cn_unchecked C)" "accepts (cn_unchecked C) n (tb_rows t)" "\<forall>r \<in> set (tb_rows t). row_ok (tb_cols t2) r"
    and "map_of d n = Some t2" "\<And>b. dec (enc b) = b"
  shows "map_of (snd result) n = Some (t2\<lparr>tb_rows := tb_rows t\<rparr>) \<and> n \<in> set (im_restored (fst result))"
proof -
  let ?visible = "filter (\<lambda>(n, t). \<not> sqlite_internal n) src"
  have visible: "distinct (map fst ?visible)" "(n, t) \<in> set ?visible" using assms(3,4,7) by (simp_all add: distinct_map_filter)
  have result: "result = fold (import_table (cn_unchecked C) dec) (dumped_tables dump) (no_import, d)"
    using assms(2) by (auto simp: sqlite_importAllTables_def pg_importAllTables_def import_tables_def)
  have tables: "distinct (map fst (dumped_tables dump)) \<and> (n, JArr (map (dump_row enc) (tb_rows t))) \<in> set (dumped_tables dump)"
    using assms(1)
  proof
    assume "dump = sqlite_dumpAllTables enc readable src"
    then show ?thesis using dump_tables_member [of ?visible n t readable enc] visible assms(5,6)
      by (simp add: dumped_tables_def sqlite_dumpAllTables_def field_def truthy_def entries_def)
  next
    assume "dump = pg_dumpAllTables enc readable src"
    then show ?thesis using dump_tables_member [of src n t readable enc] assms(3-6)
      by (simp add: dumped_tables_def pg_dumpAllTables_def field_def truthy_def entries_def)
  qed
  show ?thesis unfolding result
    by (rule import_tables_restores [where enc = enc]) (use assms(5,8-12) tables in simp_all)
qed

text \<open>An engine without constraints, and one with a foreign key whose delete cascades.\<close>

definition free_engine :: engine where
  "free_engine = \<lparr>en_delete = (\<lambda>n d. Some (map (\<lambda>(m, t). (m, if m = n then t\<lparr>tb_rows := []\<rparr> else t)) d)),
    en_insert = (\<lambda>d n r rows. Some (rows @ [r]))\<rparr>"

definition cascade_engine :: "string \<Rightarrow> string \<Rightarrow> engine" where
  "cascade_engine parent child = free_engine\<lparr>en_delete :=
     (\<lambda>n d. Some (map (\<lambda>(m, t). (m, if m = n \<or> n = parent \<and> m = child then t\<lparr>tb_rows := []\<rparr> else t)) d))\<rparr>"

definition demo_tables :: db where
  "demo_tables = [(''device_folders'', \<lparr>tb_cols = [''id'', ''folder''], tb_rows = [[(''id'', Val (JStr ''d1'')), (''folder'', Val (JNum 1))]]\<rparr>),
    (''folders'', \<lparr>tb_cols = [''id''], tb_rows = [[(''id'', Val (JNum 1))]]\<rparr>)]"

lemma free_engine_lawful: "clears_only free_engine" "accepts free_engine n rows"
proof -
  have "map_of (map (\<lambda>(m, t). (m, if m = k then t\<lparr>tb_rows := []\<rparr> else t)) d) n = map_of d n" if "n \<noteq> k" for d :: db and n k
    using that by (induction d) auto
  then show "clears_only free_engine" by (simp add: clears_only_def free_engine_def)
  show "accepts free_engine n rows" by (simp add: accepts_def free_engine_def take_Suc_conv_app_nth)
qed

text \<open>If it may not, a delete that cascades takes rows that were restored before, and the table is still reported as
  restored.\<close>

lemma cascade_loses_rows:
  defines "C \<equiv> \<lparr>cn_checked = cascade_engine ''folders'' ''device_folders'', cn_unchecked = free_engine, cn_may_replicate = False\<rparr>"
  shows "pg_importAllTables C id (pg_dumpAllTables id (\<lambda>n. True) demo_tables) demo_tables =
    (\<lparr>im_restored = [''device_folders'', ''folders''], im_skipped = [], im_warnings = []\<rparr>,
     [(''device_folders'', \<lparr>tb_cols = [''id'', ''folder''], tb_rows = []\<rparr>),
      (''folders'', \<lparr>tb_cols = [''id''], tb_rows = [[(''id'', Val (JNum 1))]]\<rparr>)])"
  unfolding C_def by code_simp

end
