(* ===== verification/Full_Backup.thy ===== *)
theory Full_Backup
  imports Safe_Path Backup_Archive Table_Dump
begin

text \<open>
  The disaster-recovery backup of \<open>services/backupService.js\<close> (\<open>createFullBackup\<close>, \<open>validateFullBackup\<close>,
  \<open>restoreFullBackup\<close>) over the archive of \<open>Backup_Archive\<close> and the tables of \<open>Table_Dump\<close>.

  Paths are absolute POSIX paths, contents lists of bytes, names ASCII.  The files of the machine that is backed up are a
  function from paths to the content of the regular files that can be read, its directory of uploads a tree.  A restore
  changes a machine: the files on its disk, with their modes, and its database.  gzip, JSON and the clock are arguments,
  and so is which paths can be written.
\<close>

section \<open>Where the components are\<close>

record console_config =
  cc_dirname :: string
  cc_dataDir :: string
  cc_keysPath :: string
  cc_rustdeskDir :: string
  cc_dbPath :: string
  cc_authDbPath :: string
  cc_pubKeyPath :: string
  cc_apiKeyPath :: string
  cc_appVersion :: string
  cc_dbType :: string
  cc_consolidated :: bool

definition text_or :: "string \<Rightarrow> string \<Rightarrow> string" where
  "text_or a b = (if a \<noteq> [] then a else b)"

text \<open>\<open>getDatabaseFilePath\<close> of the two engines; the empty text stands for \<open>null\<close>.\<close>

definition sqlite_getDatabaseFilePath :: "console_config \<Rightarrow> string" where
  "sqlite_getDatabaseFilePath C =
     (if cc_consolidated C then cc_dbPath C else text_or (cc_authDbPath C) (path_join (cc_dataDir C) [''auth.db'']))"

definition pg_getDatabaseFilePath :: "console_config \<Rightarrow> string" where
  "pg_getDatabaseFilePath C = []"

definition getDatabaseFilePath :: "console_config \<Rightarrow> string" where
  "getDatabaseFilePath C = (if cc_dbType C = ''postgres'' then pg_getDatabaseFilePath C else sqlite_getDatabaseFilePath C)"

record backup_paths =
  bp_env :: string
  bp_sessionSecret :: string
  bp_uploadsDir :: string
  bp_consoleDb :: string
  bp_goPrivKey :: string
  bp_goPubKey :: string
  bp_goApiKey :: string
  bp_goDb :: string
  bp_meshAgentCert :: string

definition resolveBackupPaths :: "console_config \<Rightarrow> backup_paths" where
  "resolveBackupPaths C =
     \<lparr>bp_env = path_join (cc_dirname C) [''..'', ''.env''],
      bp_sessionSecret = path_join (cc_dataDir C) [''.session_secret''],
      bp_uploadsDir = path_join (cc_dataDir C) [''uploads''],
      bp_consoleDb = getDatabaseFilePath C,
      bp_goPrivKey = path_join (cc_keysPath C) [''id_ed25519''],
      bp_goPubKey = cc_pubKeyPath C,
      bp_goApiKey = cc_apiKeyPath C,
      bp_goDb = cc_dbPath C,
      bp_meshAgentCert = path_join (text_or (cc_rustdeskDir C) (cc_keysPath C)) [''mesh_agent_server.pem'']\<rparr>"


section \<open>What goes into the archive\<close>

definition entry :: "nat \<Rightarrow> string \<Rightarrow> string \<Rightarrow> tar_entry" where
  "entry mode name d = \<lparr>te_name = name, te_data = d, te_mode = mode, te_mtime = 0\<rparr>"

definition addFileIfExists :: "(string \<Rightarrow> string option) \<Rightarrow> string \<Rightarrow> string \<Rightarrow> tar_entry list" where
  "addFileIfExists files archiveName filePath =
     (if filePath = [] then [] else case files filePath of Some d \<Rightarrow> [entry 384 archiveName d] | None \<Rightarrow> [])"

text \<open>A directory tree; a node without content cannot be read, and a node may be gone when it is looked at.\<close>

datatype node = Regular "string option" | Directory "(string \<times> node) list option" | Special | Gone

text \<open>The walk, with whether it ran to its end: an exception ends all of it, but what was added stays.\<close>

fun walk :: "string \<Rightarrow> (string \<times> node) list \<Rightarrow> (string \<times> string) list \<times> bool" where
  "walk rel [] = ([], True)"
| "walk rel ((name, nd) # rest) =
     (let child = (if rel = [] then name else rel @ ''/'' @ name) in
      case nd of
        Regular (Some d) \<Rightarrow> (case walk rel rest of (fs, ok) \<Rightarrow> ((child, d) # fs, ok))
      | Directory (Some kids) \<Rightarrow>
          (case walk child kids of
             (fs, True) \<Rightarrow> (case walk rel rest of (fs', ok) \<Rightarrow> (fs @ fs', ok))
           | (fs, False) \<Rightarrow> (fs, False))
      | Special \<Rightarrow> walk rel rest
      | _ \<Rightarrow> ([], False))"

definition addDirIfExists :: "string \<Rightarrow> node \<Rightarrow> tar_entry list" where
  "addDirIfExists archivePrefix nd =
     (case nd of
        Directory (Some kids) \<Rightarrow> map (\<lambda>(rel, d). entry 420 (archivePrefix @ ''/'' @ rel) d) (fst (walk [] kids))
      | _ \<Rightarrow> [])"

text \<open>\<open>fetchGoServerData\<close>: a request that fails counts as empty, and so does a falsy answer.\<close>

definition answer_or :: "json \<Rightarrow> json option \<Rightarrow> json" where
  "answer_or d a = (if truthy a then the a else d)"

record go_answers =
  ga_peers :: "json option"
  ga_blocklist :: "json option"
  ga_audit :: "json option"
  ga_health :: "json option"

definition fetchGoServerData :: "go_answers \<Rightarrow> json" where
  "fetchGoServerData A =
     JObj [(''peers'', answer_or (JArr []) (ga_peers A)), (''blocklist'', answer_or (JArr []) (ga_blocklist A)),
           (''auditEvents'', answer_or (JArr []) (ga_audit A)), (''serverHealth'', answer_or (JObj []) (ga_health A))]"

definition FULL_BACKUP_FORMAT :: string where "FULL_BACKUP_FORMAT = ''betterdesk-full-backup''"
definition FULL_BACKUP_VERSION :: int where "FULL_BACKUP_VERSION = 1"

text \<open>The only backend there is (\<open>serverBackend.js\<close>).\<close>

definition getActiveBackend :: string where "getActiveBackend = ''betterdesk''"

definition full_manifest :: "console_config \<Rightarrow> string \<Rightarrow> string list \<Rightarrow> json" where
  "full_manifest C timestamp present =
     JObj [(''_format'', JStr FULL_BACKUP_FORMAT), (''_version'', JNum FULL_BACKUP_VERSION), (''_created'', JStr timestamp),
           (''_console_version'', JStr (cc_appVersion C)), (''_backend'', JStr getActiveBackend),
           (''dbType'', JStr (cc_dbType C)), (''components'', JArr (map JStr present))]"

definition buildRecoveryReadme :: "console_config \<Rightarrow> string \<Rightarrow> string list \<Rightarrow> string" where
  "buildRecoveryReadme C timestamp present = join_with [CHR 0x0A]
    [''BetterDesk Console '' @ [CHR 0xE2, CHR 0x80, CHR 0x94] @ '' Full Disaster-Recovery Backup'',
     ''=================================================='',
     [],
     ''Created:          '' @ timestamp,
     ''Console version:  '' @ cc_appVersion C,
     ''Database engine:  '' @ cc_dbType C,
     ''Components:        '' @ join_with '', '' present,
     [],
     ''WARNING: This archive contains SECRETS (Ed25519 server keys, .env with'',
     ''SESSION_SECRET / API key / database credentials, user password hashes and'',
     ''2FA secrets). Store it securely and never share it.'',
     [],
     ''How to restore on a fresh machine'',
     ''---------------------------------'',
     ''1. Install BetterDesk using the ALL-IN-ONE installer (betterdesk.sh / .ps1).'',
     ''2. Stop the console and Go server services.'',
     ''3. Open the web console Settings page and use \"Restore from backup\",'',
     ''   OR extract this archive manually with: tar -xzf <backup>.tar.gz'',
     ''   and copy each component back to its location:'',
     ''     console/.env            -> web-nodejs/.env'',
     ''     console/.session_secret -> <dataDir>/.session_secret'',
     ''     console/auth.db         -> <dataDir>/auth.db   (SQLite backend only)'',
     ''     console/uploads/*       -> <dataDir>/uploads/'',
     ''     goserver/id_ed25519     -> <keysPath>/id_ed25519'',
     ''     goserver/id_ed25519.pub -> <keysPath>/id_ed25519.pub'',
     ''     goserver/.api_key       -> <keysPath>/.api_key'',
     ''     goserver/mesh_agent_server.pem -> <keysPath>/mesh_agent_server.pem'',
     ''     goserver/db_v2.sqlite3  -> Go server DB path (SQLite backend only)'',
     ''4. For PostgreSQL backends, the logical dump in console/data.json is'',
     ''   re-imported through the console Restore action.'',
     ''5. Restart both services. Clients keep trusting the server because the'',
     ''   Ed25519 identity key was preserved.'',
     []]"

record backup_source =
  bs_config :: console_config
  bs_timestamp :: string
  bs_now :: nat
  bs_dump :: "json option"
  bs_go :: "go_answers option"
  bs_files :: "string \<Rightarrow> string option"
  bs_uploads :: node

text \<open>The entries between the manifest and the read-me; each is a component of the manifest.\<close>

definition components :: "(json \<Rightarrow> string) \<Rightarrow> backup_source \<Rightarrow> tar_entry list" where
  "components stringify S =
     (let paths = resolveBackupPaths (bs_config S); file_entry = addFileIfExists (bs_files S) in
        (case bs_dump S of Some dump \<Rightarrow> [entry 0 ''console/data.json'' (stringify dump)] | None \<Rightarrow> [])
      @ (case bs_go S of Some A \<Rightarrow> [entry 0 ''goserver/data.json'' (stringify (fetchGoServerData A))] | None \<Rightarrow> [])
      @ file_entry ''console/.env'' (bp_env paths)
      @ file_entry ''console/.session_secret'' (bp_sessionSecret paths)
      @ file_entry ''console/auth.db'' (bp_consoleDb paths)
      @ addDirIfExists ''console/uploads'' (bs_uploads S)
      @ file_entry ''goserver/id_ed25519'' (bp_goPrivKey paths)
      @ file_entry ''goserver/id_ed25519.pub'' (bp_goPubKey paths)
      @ file_entry ''goserver/.api_key'' (bp_goApiKey paths)
      @ file_entry ''goserver/db_v2.sqlite3'' (bp_goDb paths)
      @ file_entry ''goserver/mesh_agent_server.pem'' (bp_meshAgentCert paths))"

definition full_entries :: "(json \<Rightarrow> string) \<Rightarrow> (json \<Rightarrow> string) \<Rightarrow> backup_source \<Rightarrow> tar_entry list" where
  "full_entries stringify pretty S =
     (let C = bs_config S; parts = components stringify S; present = map te_name parts in
      entry 0 ''manifest.json'' (pretty (full_manifest C (bs_timestamp S) present)) # parts
      @ [entry 0 ''README.txt'' (buildRecoveryReadme C (bs_timestamp S) present)])"

definition full_filename :: "string \<Rightarrow> string" where
  "full_filename timestamp =
     ''betterdesk-backup-'' @ map (\<lambda>c. if c = CHR '':'' \<or> c = CHR ''T'' then CHR ''-'' else c) (take 19 timestamp) @ ''.tar.gz''"

text \<open>\<^term>\<open>None\<close> is the exception of \<open>createTarGz\<close>.\<close>

definition createFullBackup ::
    "(string \<Rightarrow> string) \<Rightarrow> (json \<Rightarrow> string) \<Rightarrow> (json \<Rightarrow> string) \<Rightarrow> backup_source \<Rightarrow> (string \<times> string) option" where
  "createFullBackup gzip stringify pretty S =
     map_option (\<lambda>buffer. (buffer, full_filename (bs_timestamp S))) (createTarGz gzip (bs_now S) (full_entries stringify pretty S))"


section \<open>Checking an archive\<close>

datatype full_error = NotAnArchive | MissingManifest | ManifestNotJson | WrongFormat | UnsupportedVersion "json option"

record validation =
  vd_errors :: "full_error list"
  vd_manifest :: "json option"
  vd_files :: "(string \<times> string) list"

definition vd_valid :: "validation \<Rightarrow> bool" where
  "vd_valid v = (vd_errors v = [])"

definition version_ok :: "int \<Rightarrow> json option \<Rightarrow> bool" where
  "version_ok newest v = (case v of Some (JNum n) \<Rightarrow> n \<le> newest | _ \<Rightarrow> False)"

text \<open>\<^term>\<open>None\<close> for a reader that never returns, \<open>Inl\<close> for the \<open>TypeError\<close> on a manifest that is \<open>null\<close>.\<close>

definition check_files :: "(string \<Rightarrow> json option) \<Rightarrow> (string \<times> string) list \<Rightarrow> unit + validation" where
  "check_files parse_json files =
     (case map_of files ''manifest.json'' of
        None \<Rightarrow> Inr \<lparr>vd_errors = [MissingManifest], vd_manifest = None, vd_files = []\<rparr>
      | Some raw \<Rightarrow>
         (case parse_json raw of
            None \<Rightarrow> Inr \<lparr>vd_errors = [ManifestNotJson], vd_manifest = None, vd_files = []\<rparr>
          | Some m \<Rightarrow> if m = JNull then Inl () else Inr \<lparr>vd_errors = (if field m ''_format'' = Some (JStr FULL_BACKUP_FORMAT) then [] else [WrongFormat])
                 @ (if version_ok FULL_BACKUP_VERSION (field m ''_version'') then [] else [UnsupportedVersion (field m ''_version'')]),
               vd_manifest = Some m, vd_files = files\<rparr>))"

definition validateFullBackup ::
    "(string \<Rightarrow> string option) \<Rightarrow> (string \<Rightarrow> json option) \<Rightarrow> string \<Rightarrow> (unit + validation) option" where
  "validateFullBackup gunzip parse_json buffer =
     (case extractTarGz gunzip buffer of
        None \<Rightarrow> None
      | Some (Inl u) \<Rightarrow> Some (Inr \<lparr>vd_errors = [NotAnArchive], vd_manifest = None, vd_files = []\<rparr>)
      | Some (Inr files) \<Rightarrow> Some (check_files parse_json files))"


section \<open>Writing it back\<close>

type_synonym disk = "string \<rightharpoonup> string \<times> nat"

record machine =
  mc_disk :: disk
  mc_db :: db

record restore_env =
  re_config :: console_config
  re_writable :: "string \<Rightarrow> bool"
  re_import :: "json \<Rightarrow> db \<Rightarrow> (import_result \<times> db) option"
  re_parse :: "string \<Rightarrow> json option"

text \<open>A file that exists keeps its mode.\<close>

definition write_file :: "(string \<Rightarrow> bool) \<Rightarrow> string \<Rightarrow> string \<Rightarrow> nat \<Rightarrow> disk \<Rightarrow> disk option" where
  "write_file writable p d mode disk =
     (if writable p then Some (disk(p \<mapsto> (d, case disk p of Some (_, m) \<Rightarrow> m | None \<Rightarrow> mode))) else None)"

record restore_options =
  ro_database :: bool
  ro_env :: bool
  ro_secrets :: bool
  ro_uploads :: bool
  ro_goDb :: bool

datatype restore_warning =
    TableWarning string | DatabaseFailed | UploadsFailed | SecretFailed string | EnvFailed | GoDbFailed

record restore_result =
  rr_restored :: "string list"
  rr_skipped :: "string list"
  rr_warnings :: "restore_warning list"
  rr_restart :: bool

definition no_restore :: restore_result where
  "no_restore = \<lparr>rr_restored = [], rr_skipped = [], rr_warnings = [], rr_restart = False\<rparr>"

definition add_restored :: "string \<Rightarrow> restore_result \<Rightarrow> restore_result" where
  "add_restored n r = r\<lparr>rr_restored := rr_restored r @ [n]\<rparr>"

definition add_skipped :: "string \<Rightarrow> restore_result \<Rightarrow> restore_result" where
  "add_skipped n r = r\<lparr>rr_skipped := rr_skipped r @ [n]\<rparr>"

definition add_warning :: "restore_warning \<Rightarrow> restore_result \<Rightarrow> restore_result" where
  "add_warning w r = r\<lparr>rr_warnings := rr_warnings r @ [w]\<rparr>"

definition restart :: "restore_result \<Rightarrow> restore_result" where
  "restart r = r\<lparr>rr_restart := True\<rparr>"

definition restore_database :: "restore_env \<Rightarrow> restore_options \<Rightarrow> (string \<times> string) list \<Rightarrow> restore_result \<times> machine \<Rightarrow> restore_result \<times> machine" where
  "restore_database E opts files = (\<lambda>(r, M).
     case (ro_database opts, map_of files ''console/data.json'') of
       (True, Some raw) \<Rightarrow>
         (case Option.bind (re_parse E raw) (\<lambda>dump. re_import E dump (mc_db M)) of
            None \<Rightarrow> (add_warning DatabaseFailed r, M)
          | Some (im, d) \<Rightarrow>
              (fold add_warning (map TableWarning (im_warnings im))
                 (add_restored (''database ('' @ show_nat (length (im_restored im)) @ '' tables)'') r), M\<lparr>mc_db := d\<rparr>))
     | _ \<Rightarrow> (add_skipped ''database'' r, M))"

fun has_dots :: "string \<Rightarrow> bool" where
  "has_dots (c # d # s) = (c = CHR ''.'' \<and> d = CHR ''.'' \<or> has_dots (d # s))"
| "has_dots s = False"

text \<open>Whether a file of the archive is an upload that is written, and where.\<close>

definition upload_rel :: "string \<Rightarrow> string option" where
  "upload_rel name =
     (if startsWith name ''console/uploads/'' \<and> drop 16 name \<noteq> [] \<and> \<not> has_dots (drop 16 name) then Some (drop 16 name) else None)"

fun write_uploads :: "(string \<Rightarrow> bool) \<Rightarrow> string \<Rightarrow> (string \<times> string) list \<Rightarrow> nat \<Rightarrow> disk \<Rightarrow> nat option \<times> disk" where
  "write_uploads writable dir [] n disk = (Some n, disk)"
| "write_uploads writable dir ((name, d) # files) n disk =
     (case upload_rel name of
        None \<Rightarrow> write_uploads writable dir files n disk
      | Some rel \<Rightarrow> (case write_file writable (path_join dir [rel]) d 420 disk of
            None \<Rightarrow> (None, disk)
          | Some disk' \<Rightarrow> write_uploads writable dir files (n + 1) disk'))"

definition restore_uploads :: "restore_env \<Rightarrow> restore_options \<Rightarrow> (string \<times> string) list \<Rightarrow> restore_result \<times> machine \<Rightarrow> restore_result \<times> machine" where
  "restore_uploads E opts files = (\<lambda>(r, M).
     if ro_uploads opts then
       (case write_uploads (re_writable E) (bp_uploadsDir (resolveBackupPaths (re_config E))) files 0 (mc_disk M) of
          (None, disk) \<Rightarrow> (add_warning UploadsFailed r, M\<lparr>mc_disk := disk\<rparr>)
        | (Some n, disk) \<Rightarrow>
            ((if n > 0 then add_restored (''uploads ('' @ show_nat n @ '' files)'') r else add_skipped ''uploads'' r), M\<lparr>mc_disk := disk\<rparr>))
     else (add_skipped ''uploads'' r, M))"

definition secret_files :: "backup_paths \<Rightarrow> (string \<times> string \<times> nat) list" where
  "secret_files P =
     [(''console/.session_secret'', bp_sessionSecret P, 384), (''goserver/id_ed25519'', bp_goPrivKey P, 384),
      (''goserver/id_ed25519.pub'', bp_goPubKey P, 420), (''goserver/.api_key'', bp_goApiKey P, 384),
      (''goserver/mesh_agent_server.pem'', bp_meshAgentCert P, 384)]"

definition write_secret :: "(string \<Rightarrow> bool) \<Rightarrow> (string \<times> string) list \<Rightarrow> string \<times> string \<times> nat \<Rightarrow>
    bool \<times> restore_result \<times> disk \<Rightarrow> bool \<times> restore_result \<times> disk" where
  "write_secret writable files = (\<lambda>(name, target, mode) (any, r, disk).
     case map_of files name of
       None \<Rightarrow> (any, r, disk)
     | Some d \<Rightarrow>
        if target = [] then (any, r, disk)
        else (case write_file writable target d mode disk of
                None \<Rightarrow> (any, add_warning (SecretFailed name) r, disk)
              | Some disk' \<Rightarrow> (True, r, disk')))"

definition restore_secrets :: "restore_env \<Rightarrow> restore_options \<Rightarrow> (string \<times> string) list \<Rightarrow> restore_result \<times> machine \<Rightarrow> restore_result \<times> machine" where
  "restore_secrets E opts files = (\<lambda>(r, M).
     if ro_secrets opts then
       (case fold (write_secret (re_writable E) files) (secret_files (resolveBackupPaths (re_config E))) (False, r, mc_disk M) of
          (any, r', disk) \<Rightarrow>
            ((if any then restart (add_restored ''secrets/keys'' r') else add_skipped ''secrets/keys'' r'), M\<lparr>mc_disk := disk\<rparr>))
     else (add_skipped ''secrets/keys'' r, M))"

text \<open>A single file that needs a restart: \<open>.env\<close> and the database of the Go server.\<close>

definition restore_file :: "restore_env \<Rightarrow> bool \<Rightarrow> (string \<times> string) list \<Rightarrow> string \<Rightarrow> string \<Rightarrow> string \<Rightarrow> restore_warning \<Rightarrow>
    restore_result \<times> machine \<Rightarrow> restore_result \<times> machine" where
  "restore_file E wanted files archiveName target label failed = (\<lambda>(r, M).
     case map_of files archiveName of
       Some d \<Rightarrow>
         if wanted then
           (case write_file (re_writable E) target d 384 (mc_disk M) of
              None \<Rightarrow> (add_warning failed r, M)
            | Some disk \<Rightarrow> (restart (add_restored label r), M\<lparr>mc_disk := disk\<rparr>))
         else (add_skipped label r, M)
     | None \<Rightarrow> (add_skipped label r, M))"

definition restore_steps :: "restore_env \<Rightarrow> restore_options \<Rightarrow> (string \<times> string) list \<Rightarrow> machine \<Rightarrow> restore_result \<times> machine" where
  "restore_steps E opts files M =
     (let P = resolveBackupPaths (re_config E) in
      restore_file E (ro_goDb opts \<and> bp_goDb P \<noteq> []) files ''goserver/db_v2.sqlite3'' (bp_goDb P) ''goserver-db'' GoDbFailed
       (restore_file E (ro_env opts) files ''console/.env'' (bp_env P) ''.env'' EnvFailed
         (restore_secrets E opts files (restore_uploads E opts files (restore_database E opts files (no_restore, M))))))"

datatype restore_error = InvalidArchive "full_error list" | ManifestNull

definition restoreFullBackup ::
    "(string \<Rightarrow> string option) \<Rightarrow> restore_env \<Rightarrow> restore_options \<Rightarrow> string \<Rightarrow> machine \<Rightarrow> ((restore_error + restore_result) \<times> machine) option" where
  "restoreFullBackup gunzip E opts buffer M =
     (case validateFullBackup gunzip (re_parse E) buffer of
        None \<Rightarrow> None
      | Some (Inl u) \<Rightarrow> Some (Inl ManifestNull, M)
      | Some (Inr v) \<Rightarrow>
          if \<not> vd_valid v then Some (Inl (InvalidArchive (vd_errors v)), M)
          else (case restore_steps E opts (vd_files v) M of (r, M') \<Rightarrow> Some (Inr r, M')))"


section \<open>What an archive holds\<close>

lemma lookup_files:
  "map_of (fold set_file es fs) k =
     (case filter (\<lambda>e. entry_name e = k) es of [] \<Rightarrow> map_of fs k | x # xs \<Rightarrow> Some (te_data (last (x # xs))))"
proof (induction es arbitrary: fs)
  case (Cons e es)
  show ?case
    using Cons.IH [of "set_file e fs"] by (auto simp: set_file_def update_conv' split: list.splits)
qed simp

definition archive_name :: "string \<Rightarrow> string" where
  "archive_name n = dropWhile (\<lambda>c. c = CHR ''/'') (map (\<lambda>c. if c = CHR 0x5C then CHR ''/'' else c) n)"

lemma entry_name_entry [simp]: "entry_name (entry m n d) = archive_name n" "te_data (entry m n d) = d" "te_name (entry m n d) = n"
  by (simp_all add: entry_def entry_name_def archive_name_def)

lemma filter_file:
  "filter (\<lambda>e. entry_name e = k) (addFileIfExists files n p) = (if archive_name n = k then addFileIfExists files n p else [])"
  by (simp add: addFileIfExists_def split: option.splits)

lemma upload_names:
  assumes "e \<in> set (addDirIfExists ''console/uploads'' nd)"
  shows "\<exists>rel. entry_name e = ''console/uploads/'' @ rel" "te_name e \<noteq> []"
proof -
  obtain rel d where e: "e = entry 420 (''console/uploads'' @ ''/'' @ rel) d"
    using assms by (cases nd) (auto simp: addDirIfExists_def split: option.splits)
  have "archive_name (''console/uploads/'' @ rel) = ''console/uploads/'' @ map (\<lambda>c. if c = CHR 0x5C then CHR ''/'' else c) rel"
    by (simp add: archive_name_def)
  then show "\<exists>rel. entry_name e = ''console/uploads/'' @ rel" "te_name e \<noteq> []" using e by simp_all
qed

lemma filter_uploads:
  "\<not> startsWith k ''console/uploads/'' \<Longrightarrow> filter (\<lambda>e. entry_name e = k) (addDirIfExists ''console/uploads'' nd) = []"
proof (rule filter_False, rule ballI, rule notI)
  fix e
  assume k: "\<not> startsWith k ''console/uploads/''" and e: "e \<in> set (addDirIfExists ''console/uploads'' nd)" "entry_name e = k"
  obtain rel where "entry_name e = ''console/uploads/'' @ rel" using upload_names(1) [OF e(1)] by blast
  then show False using k e(2) by (simp add: startsWith_def)
qed

definition archived :: "(json \<Rightarrow> string) \<Rightarrow> (json \<Rightarrow> string) \<Rightarrow> backup_source \<Rightarrow> (string \<times> string) list" where
  "archived stringify pretty S = fold set_file (full_entries stringify pretty S) []"

definition readable_file :: "(string \<Rightarrow> string option) \<Rightarrow> string \<Rightarrow> string option" where
  "readable_file files p = (if p = [] then None else files p)"

lemma lookup_single:
  "(case addFileIfExists files n p of [] \<Rightarrow> map_of [] k | x # xs \<Rightarrow> Some (te_data (last (x # xs)))) = readable_file files p"
  by (simp add: addFileIfExists_def readable_file_def split: option.splits)

lemma lookup_archived:
  "map_of (archived stringify pretty S) ''manifest.json'' =
     Some (pretty (full_manifest (bs_config S) (bs_timestamp S) (map te_name (components stringify S))))"
  "map_of (archived stringify pretty S) ''console/data.json'' = map_option stringify (bs_dump S)"
  "map_of (archived stringify pretty S) ''console/.session_secret'' = readable_file (bs_files S) (bp_sessionSecret (resolveBackupPaths (bs_config S)))"
  "map_of (archived stringify pretty S) ''goserver/id_ed25519'' = readable_file (bs_files S) (bp_goPrivKey (resolveBackupPaths (bs_config S)))"
  "map_of (archived stringify pretty S) ''goserver/id_ed25519.pub'' = readable_file (bs_files S) (bp_goPubKey (resolveBackupPaths (bs_config S)))"
  "map_of (archived stringify pretty S) ''goserver/.api_key'' = readable_file (bs_files S) (bp_goApiKey (resolveBackupPaths (bs_config S)))"
  "map_of (archived stringify pretty S) ''goserver/mesh_agent_server.pem'' = readable_file (bs_files S) (bp_meshAgentCert (resolveBackupPaths (bs_config S)))"
  "map_of (archived stringify pretty S) ''console/.env'' = readable_file (bs_files S) (bp_env (resolveBackupPaths (bs_config S)))"
  "map_of (archived stringify pretty S) ''goserver/db_v2.sqlite3'' = readable_file (bs_files S) (bp_goDb (resolveBackupPaths (bs_config S)))"
  unfolding archived_def full_entries_def components_def Let_def lookup_files
  by (simp_all add: filter_file filter_uploads lookup_single archive_name_def startsWith_def split: option.split)

text \<open>The archive of a backup is valid, and holds what was put in.\<close>

lemma names_not_empty: "e \<in> set (full_entries stringify pretty S) \<Longrightarrow> te_name e \<noteq> []"
proof -
  have f: "te_name e \<noteq> []" if "e \<in> set (addFileIfExists files n p)" "n \<noteq> []" for n p and files :: "string \<Rightarrow> string option"
    using that by (auto simp: addFileIfExists_def split: if_splits option.splits)
  assume "e \<in> set (full_entries stringify pretty S)"
  then show ?thesis
    unfolding full_entries_def components_def Let_def
    by (auto dest: upload_names(2) f split: option.splits)
qed

definition storable :: "tar_entry \<Rightarrow> bool" where
  "storable e = (NUL \<notin> set (te_name e) \<and> length (te_data e) < 8 ^ 11)"

lemma full_backup_extracts:
  assumes "createFullBackup gzip stringify pretty S = Some (buffer, name)" "\<And>t. gunzip (gzip t) = Some t"
    "list_all storable (full_entries stringify pretty S)"
  shows "extractTarGz gunzip buffer = Some (Inr (archived stringify pretty S))"
proof -
  have "createTarGz gzip (bs_now S) (full_entries stringify pretty S) = Some buffer"
    using assms(1) by (auto simp: createFullBackup_def)
  moreover have "\<forall>e \<in> set (full_entries stringify pretty S). te_name e \<noteq> [] \<longrightarrow> NUL \<notin> set (te_name e) \<and> length (te_data e) < 8 ^ 11"
    using assms(3) by (simp add: list_all_iff storable_def)
  ultimately have "extractTarGz gunzip buffer = Some (Inr (fold set_file (filter (\<lambda>e. te_name e \<noteq> []) (full_entries stringify pretty S)) []))"
    using archive_roundtrip [where gzip = gzip and gunzip = gunzip] assms(2) by blast
  moreover have "filter (\<lambda>e. te_name e \<noteq> []) (full_entries stringify pretty S) = full_entries stringify pretty S"
    by (rule filter_True) (use names_not_empty in blast)
  ultimately show ?thesis by (simp add: archived_def)
qed

definition manifest_of :: "(json \<Rightarrow> string) \<Rightarrow> backup_source \<Rightarrow> json" where
  "manifest_of stringify S = full_manifest (bs_config S) (bs_timestamp S) (map te_name (components stringify S))"

lemma full_backup_valid:
  assumes "createFullBackup gzip stringify pretty S = Some (buffer, name)" "\<And>t. gunzip (gzip t) = Some t"
    "list_all storable (full_entries stringify pretty S)" "parse_json (pretty (manifest_of stringify S)) = Some (manifest_of stringify S)"
  shows "validateFullBackup gunzip parse_json buffer =
    Some (Inr \<lparr>vd_errors = [], vd_manifest = Some (manifest_of stringify S), vd_files = archived stringify pretty S\<rparr>)"
proof -
  have m: "map_of (archived stringify pretty S) ''manifest.json'' = Some (pretty (manifest_of stringify S))"
    by (simp add: lookup_archived(1) manifest_of_def)
  have f: "field (manifest_of stringify S) ''_format'' = Some (JStr FULL_BACKUP_FORMAT)"
    "field (manifest_of stringify S) ''_version'' = Some (JNum FULL_BACKUP_VERSION)"
    "manifest_of stringify S \<noteq> JNull"
    by (simp_all add: manifest_of_def full_manifest_def field_def)
  have "check_files parse_json (archived stringify pretty S) =
    Inr \<lparr>vd_errors = [], vd_manifest = Some (manifest_of stringify S), vd_files = archived stringify pretty S\<rparr>"
    by (simp add: check_files_def m assms(4) f version_ok_def)
  then show ?thesis using full_backup_extracts [where gunzip = gunzip, OF assms(1-3)] by (simp add: validateFullBackup_def)
qed

lemma full_backup_restores:
  assumes "createFullBackup gzip stringify pretty S = Some (buffer, name)" "\<And>t. gunzip (gzip t) = Some t"
    "list_all storable (full_entries stringify pretty S)" "re_parse E (pretty (manifest_of stringify S)) = Some (manifest_of stringify S)"
  shows "restoreFullBackup gunzip E opts buffer M =
    (case restore_steps E opts (archived stringify pretty S) M of (r, M') \<Rightarrow> Some (Inr r, M'))"
  using full_backup_valid [where gunzip = gunzip and parse_json = "re_parse E", OF assms] by (simp add: restoreFullBackup_def vd_valid_def)


section \<open>What a restore writes\<close>

lemma write_file_other: "write_file w t d m disk = Some disk' \<Longrightarrow> p \<noteq> t \<Longrightarrow> disk' p = disk p"
  by (auto simp: write_file_def split: if_splits)

lemma restore_file_other:
  "p \<noteq> target \<Longrightarrow> mc_disk (snd (restore_file E wanted files archiveName target label failed rM)) p = mc_disk (snd rM) p"
  using write_file_other [of "re_writable E" target _ 384 "mc_disk (snd rM)" _ p]
  by (cases rM) (auto simp: restore_file_def split: option.splits)



lemma write_secret_other:
  assumes "p \<noteq> t"
  shows "snd (snd (write_secret w files (n, t, m) (any, r, disk))) p = disk p"
  using write_file_other [OF _ assms, of w _ m disk] by (auto simp: write_secret_def split: option.splits)

lemma write_secrets_other:
  "p \<notin> fst ` snd ` set ts \<Longrightarrow> snd (snd (fold (write_secret w files) ts x)) p = snd (snd x) p"
proof (induction ts arbitrary: x)
  case (Cons s ts)
  obtain n t m where s: "s = (n, t, m)" by (cases s)
  obtain any r disk where x: "x = (any, r, disk)" by (cases x)
  have "p \<noteq> t" "p \<notin> fst ` snd ` set ts" using Cons.prems s by auto
  then show ?case using Cons.IH [of "write_secret w files s x"] write_secret_other [of p t w files n m any r disk] s x by simp
qed simp

lemma write_secrets_here:
  assumes "distinct (map (fst \<circ> snd) ts)" "(n, t, m) \<in> set ts" "map_of files n = Some d" "t \<noteq> []" "w t"
  shows "\<exists>k. snd (snd (fold (write_secret w files) ts x)) t = Some (d, k)"
proof -
  obtain us vs where ts: "ts = us @ (n, t, m) # vs" using assms(2) by (meson split_list)
  have away: "t \<notin> fst ` snd ` set vs" using assms(1) ts by (auto simp: image_image)
  obtain any r disk where y: "fold (write_secret w files) us x = (any, r, disk)" by (cases "fold (write_secret w files) us x")
  have "\<exists>k. snd (snd (write_secret w files (n, t, m) (any, r, disk))) t = Some (d, k)"
    using assms(3-5) by (simp add: write_secret_def write_file_def)
  then show ?thesis using write_secrets_other [OF away] ts y by simp
qed

lemma restore_secrets_here:
  assumes "ro_secrets opts" "distinct (map (fst \<circ> snd) (secret_files (resolveBackupPaths (re_config E))))"
    "(n, t, m) \<in> set (secret_files (resolveBackupPaths (re_config E)))" "map_of files n = Some d" "t \<noteq> []" "re_writable E t"
  shows "\<exists>k. mc_disk (snd (restore_secrets E opts files rM)) t = Some (d, k)"
proof -
  obtain r M where rM: "rM = (r, M)" by (cases rM)
  obtain any r' disk where f: "fold (write_secret (re_writable E) files) (secret_files (resolveBackupPaths (re_config E))) (False, r, mc_disk M)
      = (any, r', disk)" by (cases "fold (write_secret (re_writable E) files) (secret_files (resolveBackupPaths (re_config E))) (False, r, mc_disk M)")
  have "\<exists>k. disk t = Some (d, k)" using write_secrets_here [where w = "re_writable E", OF assms(2-6), of "(False, r, mc_disk M)"] f by simp
  then show ?thesis using assms(1) rM f by (simp add: restore_secrets_def)
qed

text \<open>The single files of a backup, by the place they have on a machine, and which of them a restore is asked for.\<close>

definition secret_places :: "(backup_paths \<Rightarrow> string) list" where
  "secret_places = [bp_sessionSecret, bp_goPrivKey, bp_goPubKey, bp_goApiKey, bp_meshAgentCert]"

definition asked_for :: "restore_options \<Rightarrow> (backup_paths \<Rightarrow> string) \<Rightarrow> bool" where
  "asked_for opts place =
     (place \<in> set secret_places \<and> ro_secrets opts \<or> place = bp_env \<and> ro_env opts \<or> place = bp_goDb \<and> ro_goDb opts)"

lemma secret_place_listed:
  assumes "place \<in> set secret_places"
  shows "\<exists>n m. \<forall>P. (n, place P, m) \<in> set (secret_files P)"
proof -
  consider "place = bp_sessionSecret" | "place = bp_goPrivKey" | "place = bp_goPubKey" | "place = bp_goApiKey" | "place = bp_meshAgentCert"
    using assms by (auto simp: secret_places_def)
  then show ?thesis
  proof cases
    case 1
    then show ?thesis by (intro exI [of _ "''console/.session_secret''"] exI [of _ 384]) (simp add: secret_files_def)
  next
    case 2
    then show ?thesis by (intro exI [of _ "''goserver/id_ed25519''"] exI [of _ 384]) (simp add: secret_files_def)
  next
    case 3
    then show ?thesis by (intro exI [of _ "''goserver/id_ed25519.pub''"] exI [of _ 420]) (simp add: secret_files_def)
  next
    case 4
    then show ?thesis by (intro exI [of _ "''goserver/.api_key''"] exI [of _ 384]) (simp add: secret_files_def)
  next
    case 5
    then show ?thesis by (intro exI [of _ "''goserver/mesh_agent_server.pem''"] exI [of _ 384]) (simp add: secret_files_def)
  qed
qed

lemma secret_targets: "map (fst \<circ> snd) (secret_files P) = map (\<lambda>f. f P) secret_places"
  by (simp add: secret_files_def secret_places_def)

lemma archived_secret:
  assumes "(n, src, m) \<in> set (secret_files (resolveBackupPaths (bs_config S)))" "bs_files S src = Some d" "src \<noteq> []"
  shows "map_of (archived stringify pretty S) n = Some d"
  using assms by (auto simp: secret_files_def lookup_archived readable_file_def)

lemma restore_file_here:
  assumes "map_of files archiveName = Some d" "wanted" "re_writable E target"
  shows "\<exists>k. mc_disk (snd (restore_file E wanted files archiveName target label failed rM)) target = Some (d, k)"
  using assms by (cases rM) (simp add: restore_file_def write_file_def)

lemma restore_steps_place:
  assumes "asked_for opts place" "bs_files S (place (resolveBackupPaths (bs_config S))) = Some d" "place (resolveBackupPaths (bs_config S)) \<noteq> []"
    and "place (resolveBackupPaths (re_config E)) \<noteq> []" "re_writable E (place (resolveBackupPaths (re_config E)))"
    and "distinct (map (\<lambda>f. f (resolveBackupPaths (re_config E))) (secret_places @ [bp_env, bp_goDb]))"
  shows "\<exists>k. mc_disk (snd (restore_steps E opts (archived stringify pretty S) M)) (place (resolveBackupPaths (re_config E))) = Some (d, k)"
proof -
  let ?P = "resolveBackupPaths (re_config E)" and ?files = "archived stringify pretty S"
  have apart: "distinct (map (fst \<circ> snd) (secret_files ?P))" "bp_env ?P \<noteq> bp_goDb ?P"
    using assms(6) unfolding secret_targets by simp_all
  have off: "f ?P \<noteq> bp_env ?P" "f ?P \<noteq> bp_goDb ?P" if "f \<in> set secret_places" for f
    using assms(6) imageI [OF that, of "\<lambda>f. f ?P"] by auto
  consider (secret) "place \<in> set secret_places" "ro_secrets opts" | (env) "place = bp_env" "ro_env opts" | (db) "place = bp_goDb" "ro_goDb opts"
    using assms(1) unfolding asked_for_def by blast
  then show ?thesis
  proof cases
    case secret
    then obtain n m where listed: "(n, place (resolveBackupPaths (bs_config S)), m) \<in> set (secret_files (resolveBackupPaths (bs_config S)))"
      "(n, place ?P, m) \<in> set (secret_files ?P)" using secret_place_listed by blast
    have "map_of ?files n = Some d" using archived_secret [OF listed(1) assms(2,3)] .
    from restore_secrets_here [OF secret(2) apart(1) listed(2) this assms(4,5)] show ?thesis
      using restore_file_other off [OF secret(1)] by (simp add: restore_steps_def Let_def)
  next
    case env
    then have "map_of ?files ''console/.env'' = Some d" using assms(2,3) by (simp add: lookup_archived readable_file_def)
    from restore_file_here [OF this env(2)] show ?thesis
      using restore_file_other apart(2) assms(5) env(1) by (simp add: restore_steps_def Let_def)
  next
    case db
    then have "map_of ?files ''goserver/db_v2.sqlite3'' = Some d" using assms(2,3) by (simp add: lookup_archived readable_file_def)
    from restore_file_here [OF this, of "ro_goDb opts \<and> bp_goDb ?P \<noteq> []" E] show ?thesis
      using assms(4,5) db by (simp add: restore_steps_def Let_def)
  qed
qed

text \<open>C25: A disaster-recovery backup brings the secrets of a server back, byte for byte.  Take the session secret, the key
  pair of the Go server, its API key, the certificate of the mesh agents, \<open>.env\<close> or the database file of the Go server:
  if the machine that was backed up had the file and it could be read, then restoring the archive with the option for it on any other machine,
  whatever was there, succeeds and puts the same content at the place which that machine's configuration gives to the
  file.  This needs that the place can be written and that the places of these files are different from each other, that
  every entry of the archive is smaller than 8 GB (eleven octal digits of the size) and has no zero byte in its name, and that
  unzipping and parsing undo zipping and printing.  Names are ASCII.  A backup with a name that does not fit the header of
  the archive is not created at all.\<close>

theorem full_backup_restores_files:
  assumes "createFullBackup gzip stringify pretty S = Some (buffer, name)" "\<And>t. gunzip (gzip t) = Some t"
    and "list_all storable (full_entries stringify pretty S)" "re_parse E (pretty (manifest_of stringify S)) = Some (manifest_of stringify S)"
    and "asked_for opts place" "bs_files S (place (resolveBackupPaths (bs_config S))) = Some d" "place (resolveBackupPaths (bs_config S)) \<noteq> []"
    and "place (resolveBackupPaths (re_config E)) \<noteq> []" "re_writable E (place (resolveBackupPaths (re_config E)))"
    and "distinct (map (\<lambda>f. f (resolveBackupPaths (re_config E))) (secret_places @ [bp_env, bp_goDb]))"
  shows "\<exists>r M' k. restoreFullBackup gunzip E opts buffer M = Some (Inr r, M')
    \<and> mc_disk M' (place (resolveBackupPaths (re_config E))) = Some (d, k)"
proof -
  obtain r M' where steps: "restore_steps E opts (archived stringify pretty S) M = (r, M')"
    by (cases "restore_steps E opts (archived stringify pretty S) M")
  have "\<exists>k. mc_disk M' (place (resolveBackupPaths (re_config E))) = Some (d, k)"
    using restore_steps_place [OF assms(5-10), of stringify pretty M] steps by simp
  then show ?thesis using full_backup_restores [where gunzip = gunzip, OF assms(1-4)] steps by simp
qed










section \<open>The database\<close>

lemma restore_file_db: "mc_db (snd (restore_file E wanted files archiveName target label failed rM)) = mc_db (snd rM)"
  by (cases rM) (simp add: restore_file_def split: option.split)

lemma restore_secrets_db: "mc_db (snd (restore_secrets E opts files rM)) = mc_db (snd rM)"
  by (cases rM) (simp add: restore_secrets_def split: prod.split)

lemma restore_uploads_db: "mc_db (snd (restore_uploads E opts files rM)) = mc_db (snd rM)"
  by (cases rM) (simp add: restore_uploads_def split: prod.split option.split)

lemma restore_database_here:
  assumes "ro_database opts" "map_of files ''console/data.json'' = Some raw" "re_parse E raw = Some dump" "re_import E dump (mc_db M) = Some result"
  shows "mc_db (snd (restore_database E opts files (r, M))) = snd result"
  using assms by (cases result) (simp add: restore_database_def)

text \<open>A table that the archive holds comes back with all its rows: the table was read for the dump, its rows are what JSON can
  carry, the engine takes the rows of the old table one after the other, clearing a table reaches no other one, and the
  columns are those of the machine that is restored.\<close>

lemma full_backup_restores_tables:
  assumes "createFullBackup gzip stringify pretty S = Some (buffer, name)" "\<And>t. gunzip (gzip t) = Some t"
    and "list_all storable (full_entries stringify pretty S)" "re_parse E (pretty (manifest_of stringify S)) = Some (manifest_of stringify S)"
    and "bs_dump S = Some dump" "dump = sqlite_dumpAllTables enc readable src \<or> dump = pg_dumpAllTables enc readable src"
    and "re_parse E (stringify dump) = Some dump" "ro_database opts" "re_import E dump (mc_db M) = Some result"
    and "result = sqlite_importAllTables C dec dump (mc_db M) \<or> cn_may_replicate C \<and> result = pg_importAllTables C dec dump (mc_db M)"
    and "distinct (map fst src)" "(n, t) \<in> set src" "isSafeSqlIdent n" "readable n" "\<not> sqlite_internal n"
    and "clears_only (cn_unchecked C)" "accepts (cn_unchecked C) n (tb_rows t)" "\<forall>r \<in> set (tb_rows t). row_ok (tb_cols t2) r"
    and "map_of (mc_db M) n = Some t2" "\<And>b. dec (enc b) = b"
  shows "\<exists>r M'. restoreFullBackup gunzip E opts buffer M = Some (Inr r, M') \<and> map_of (mc_db M') n = Some (t2\<lparr>tb_rows := tb_rows t\<rparr>)"
proof -
  let ?files = "archived stringify pretty S"
  have raw: "map_of ?files ''console/data.json'' = Some (stringify dump)" using assms(5) by (simp add: lookup_archived(2))
  obtain r M' where steps: "restore_steps E opts ?files M = (r, M')" by (cases "restore_steps E opts ?files M")
  have "mc_db M' = mc_db (snd (restore_steps E opts ?files M))" using steps by simp
  also have "\<dots> = snd result"
    unfolding restore_steps_def Let_def restore_file_db restore_secrets_db restore_uploads_db
    by (rule restore_database_here [OF assms(8) raw assms(7,9)])
  finally have db: "mc_db M' = snd result" .
  have "map_of (snd result) n = Some (t2\<lparr>tb_rows := tb_rows t\<rparr>)"
    using dump_restores_table [where enc = enc and dec = dec, OF assms(6,10-20)] by simp
  moreover have "restoreFullBackup gunzip E opts buffer M = Some (Inr r, M')"
    using full_backup_restores [where gunzip = gunzip, OF assms(1-4)] steps by simp
  ultimately show ?thesis using db by auto
qed

text \<open>An archive whose reader does not return keeps the restore from returning.\<close>

lemma endless_restore: "restoreFullBackup Some E opts endless_tar M = None"
  by (simp add: restoreFullBackup_def validateFullBackup_def endless_archive)


section \<open>A small server\<close>

definition demo_config :: console_config where
  "demo_config = \<lparr>cc_dirname = ''/o/web/services'', cc_dataDir = ''/d'', cc_keysPath = ''/k'', cc_rustdeskDir = [], cc_dbPath = ''/k/db_v2.sqlite3'',
    cc_authDbPath = ''/d/auth.db'', cc_pubKeyPath = ''/k/id_ed25519.pub'', cc_apiKeyPath = ''/k/.api_key'', cc_appVersion = ''1.0'',
    cc_dbType = ''sqlite'', cc_consolidated = False\<rparr>"

definition demo_dump :: json where
  "demo_dump = sqlite_dumpAllTables id (\<lambda>n. True) demo_tables"

definition demo_source :: backup_source where
  "demo_source = \<lparr>bs_config = demo_config, bs_timestamp = ''2026-01-02T03:04:05.000Z'', bs_now = 1767322800, bs_dump = Some demo_dump, bs_go = None,
    bs_files = (\<lambda>p. if p = ''/k/id_ed25519'' then Some ''KEY'' else None),
    bs_uploads = Directory (Some [(''logo.png'', Regular (Some ''PNG''))])\<rparr>"

definition demo_stringify :: "json \<Rightarrow> string" where "demo_stringify j = ''D''"
definition demo_pretty :: "json \<Rightarrow> string" where "demo_pretty j = ''M''"

definition demo_connection :: connection where
  "demo_connection = \<lparr>cn_checked = free_engine, cn_unchecked = free_engine, cn_may_replicate = False\<rparr>"

definition demo_restore :: restore_env where
  "demo_restore = \<lparr>re_config = demo_config, re_writable = (\<lambda>p. True),
    re_import = (\<lambda>j d. Some (sqlite_importAllTables demo_connection id j d)),
    re_parse = (\<lambda>s. if s = ''M'' then Some (manifest_of demo_stringify demo_source) else if s = ''D'' then Some demo_dump else None)\<rparr>"

definition demo_machine :: machine where
  "demo_machine = \<lparr>mc_disk = (\<lambda>p. None), mc_db = map (\<lambda>(n, t). (n, t\<lparr>tb_rows := []\<rparr>)) demo_tables\<rparr>"

definition all_parts :: restore_options where
  "all_parts = \<lparr>ro_database = True, ro_env = True, ro_secrets = True, ro_uploads = True, ro_goDb = True\<rparr>"

lemma demo_paths:
  "resolveBackupPaths demo_config = \<lparr>bp_env = ''/o/web/.env'', bp_sessionSecret = ''/d/.session_secret'', bp_uploadsDir = ''/d/uploads'',
    bp_consoleDb = ''/d/auth.db'', bp_goPrivKey = ''/k/id_ed25519'', bp_goPubKey = ''/k/id_ed25519.pub'', bp_goApiKey = ''/k/.api_key'',
    bp_goDb = ''/k/db_v2.sqlite3'', bp_meshAgentCert = ''/k/mesh_agent_server.pem''\<rparr>"
  by code_simp

lemma demo_components: "components demo_stringify demo_source =
  [entry 0 ''console/data.json'' ''D'', entry 420 ''console/uploads/logo.png'' ''PNG'', entry 384 ''goserver/id_ed25519'' ''KEY'']"
  unfolding components_def demo_source_def Let_def backup_source.simps demo_paths backup_paths.simps
  by (simp add: addFileIfExists_def addDirIfExists_def demo_stringify_def)

lemma demo_storable: "list_all storable (full_entries demo_stringify demo_pretty demo_source)"
  unfolding full_entries_def Let_def demo_components
  by (simp add: storable_def entry_def demo_pretty_def buildRecoveryReadme_def demo_source_def demo_config_def)

lemma demo_created: "\<exists>buffer name. createFullBackup id demo_stringify demo_pretty demo_source = Some (buffer, name)"
proof -
  have "\<forall>e \<in> set (full_entries demo_stringify demo_pretty demo_source). length (entry_name e) \<le> 100"
    unfolding full_entries_def Let_def demo_components by (simp add: archive_name_def)
  then have "createTarGz id (bs_now demo_source) (full_entries demo_stringify demo_pretty demo_source) \<noteq> None"
    using short_name_fits by (auto simp: createTarGz_throws_iff)
  then show ?thesis by (auto simp: createFullBackup_def)
qed


lemma demo_parse: "re_parse demo_restore (demo_pretty (manifest_of demo_stringify demo_source)) = Some (manifest_of demo_stringify demo_source)"
  by (simp add: demo_restore_def demo_pretty_def)

lemma full_backup_restores_files_witness:
  "\<exists>buffer name r M' k. createFullBackup id demo_stringify demo_pretty demo_source = Some (buffer, name) \<and>
     restoreFullBackup Some demo_restore all_parts buffer demo_machine = Some (Inr r, M') \<and> mc_disk M' ''/k/id_ed25519'' = Some (''KEY'', k)"
proof -
  obtain buffer name where c: "createFullBackup id demo_stringify demo_pretty demo_source = Some (buffer, name)" using demo_created by blast
  have "\<exists>r M' k. restoreFullBackup Some demo_restore all_parts buffer demo_machine = Some (Inr r, M') \<and>
      mc_disk M' (bp_goPrivKey (resolveBackupPaths (re_config demo_restore))) = Some (''KEY'', k)"
    by (rule full_backup_restores_files [OF c _ demo_storable demo_parse])
      (simp_all add: asked_for_def secret_places_def demo_paths demo_source_def demo_restore_def all_parts_def)
  then show ?thesis using c by (simp add: demo_paths demo_restore_def)
qed

lemma full_backup_restores_tables_witness:
  "\<exists>buffer name r M'. createFullBackup id demo_stringify demo_pretty demo_source = Some (buffer, name) \<and>
     restoreFullBackup Some demo_restore all_parts buffer demo_machine = Some (Inr r, M') \<and>
     map_of (mc_db M') ''folders'' = Some \<lparr>tb_cols = [''id''], tb_rows = [[(''id'', Val (JNum 1))]]\<rparr>"
proof -
  obtain buffer name where c: "createFullBackup id demo_stringify demo_pretty demo_source = Some (buffer, name)" using demo_created by blast
  let ?t = "\<lparr>tb_cols = [''id''], tb_rows = [[(''id'', Val (JNum 1))]]\<rparr>"
  have row: "row_ok [''id''] [(''id'', Val (JNum 1))]" by code_simp
  have name: "isSafeSqlIdent ''folders''" "\<not> sqlite_internal ''folders''" by code_simp+
  have "\<exists>r M'. restoreFullBackup Some demo_restore all_parts buffer demo_machine = Some (Inr r, M') \<and>
      map_of (mc_db M') ''folders'' = Some (\<lparr>tb_cols = [''id''], tb_rows = []\<rparr>\<lparr>tb_rows := tb_rows ?t\<rparr>)"
    by (rule full_backup_restores_tables [OF c _ demo_storable demo_parse,
          where dump = demo_dump and enc = id and readable = "\<lambda>n. True" and src = demo_tables and C = demo_connection and dec = id
            and result = "sqlite_importAllTables demo_connection id demo_dump (mc_db demo_machine)"])
      (simp_all add: name row free_engine_lawful demo_connection_def demo_dump_def [symmetric], simp_all add: demo_source_def demo_restore_def
        all_parts_def demo_stringify_def demo_machine_def demo_tables_def row free_engine_lawful demo_connection_def)
  then show ?thesis using c by auto
qed





end
