(* ===== verification/Config_Backup.thy ===== *)
theory Config_Backup
  imports Full_Backup
begin

text \<open>
  The JSON snapshot of the console's configuration: \<open>createBackup\<close>, \<open>validateBackup\<close>, \<open>restoreBackup\<close> and
  \<open>restoreGroupsData\<close> of \<open>services/backupService.js\<close>, with the operations of the SQLite adapter and the wrappers of
  \<open>services/database.js\<close> they go through.

  The database is the tables the snapshot is about; a row is its columns, an address book is kept under its owner and its
  type.  What SQLite does with an insert (defaults and constraints), which values it takes and what \<open>saveBranding\<close> stores
  are arguments (\<open>config_engine\<close>).  Reading a table does not fail, and rows are read in the order of the table.
\<close>

section \<open>The tables\<close>

type_synonym jrow = "(string \<times> json) list"

record config_tables =
  ct_settings :: "(string \<times> json) list"
  ct_branding :: json
  ct_users :: "jrow list"
  ct_folders :: "jrow list"
  ct_userGroups :: "jrow list"
  ct_deviceGroups :: "jrow list"
  ct_strategies :: "jrow list"
  ct_books :: "((json \<times> json) \<times> json) list"

record config_engine =
  ce_insert :: "string \<Rightarrow> jrow \<Rightarrow> jrow list \<Rightarrow> jrow list option"
  ce_replace :: "jrow \<Rightarrow> jrow list \<Rightarrow> jrow list option"
  ce_bind :: "json \<Rightarrow> json option"
  ce_branding :: "json \<Rightarrow> json \<Rightarrow> json option"
  ce_user_cols :: "string list"
  ce_by_username :: bool
  ce_computed :: "string \<Rightarrow> jrow \<Rightarrow> jrow"
  ce_stringify :: "json \<Rightarrow> string"
  ce_parse :: "string \<Rightarrow> json option"

definition or_json :: "json \<Rightarrow> json option \<Rightarrow> json" where
  "or_json d v = (if truthy v then the v else d)"

definition given :: "json option \<Rightarrow> json" where
  "given v = (case v of Some x \<Rightarrow> x | None \<Rightarrow> JNull)"

text \<open>\<open>safeJsonParse\<close> with the fallback \<open>{}\<close>; a column that holds no text parses as the text of its value.\<close>

definition read_permissions :: "config_engine \<Rightarrow> json option \<Rightarrow> json" where
  "read_permissions E v =
     (case Option.bind v js_string of
        None \<Rightarrow> JObj []
      | Some s \<Rightarrow> (case ce_parse E s of None \<Rightarrow> JObj [] | Some p \<Rightarrow> p))"

definition getAllStrategies :: "config_engine \<Rightarrow> config_tables \<Rightarrow> jrow list" where
  "getAllStrategies E T = map (\<lambda>r. set_field ''permissions'' (read_permissions E (map_of r ''permissions'')) r) (ct_strategies T)"

text \<open>Groups are read with columns that are computed from other tables (member counts, access lists).\<close>

definition with_computed :: "config_engine \<Rightarrow> string \<Rightarrow> jrow \<Rightarrow> jrow" where
  "with_computed E tbl r = fold (\<lambda>(k, v). set_field k v) (ce_computed E tbl r) r"

definition getAllUserGroups :: "config_engine \<Rightarrow> config_tables \<Rightarrow> jrow list" where
  "getAllUserGroups E T = map (with_computed E ''user_groups'') (ct_userGroups T)"

definition config_getAllDeviceGroups :: "config_engine \<Rightarrow> config_tables \<Rightarrow> jrow list" where
  "config_getAllDeviceGroups E T = map (with_computed E ''device_groups'') (ct_deviceGroups T)"

definition user_id_of :: "jrow list \<Rightarrow> json \<Rightarrow> json option" where
  "user_id_of users name = (case find (\<lambda>u. map_of u ''username'' = Some name) users of Some u \<Rightarrow> map_of u ''id'' | None \<Rightarrow> None)"

definition usernameForUserId :: "jrow list \<Rightarrow> json \<Rightarrow> json option" where
  "usernameForUserId users uid = (case find (\<lambda>u. map_of u ''id'' = Some uid) users of Some u \<Rightarrow> map_of u ''username'' | None \<Rightarrow> None)"

definition getAllAddressBooks :: "config_engine \<Rightarrow> config_tables \<Rightarrow> jrow list" where
  "getAllAddressBooks E T =
     List.map_filter (\<lambda>((owner, ab_type), d).
       map_option (\<lambda>uid. [(''user_id'', uid), (''ab_type'', ab_type), (''data'', d)])
         (if ce_by_username E then user_id_of (ct_users T) owner else Some owner)) (ct_books T)"


section \<open>The snapshot\<close>

definition BACKUP_FORMAT_VERSION :: int where "BACKUP_FORMAT_VERSION = 1"

text \<open>As JSON has it: \<open>getActiveBackend()\<close> is not awaited, and a promise is written as an empty object; the promise of
  \<open>isBetterDesk()\<close> is always truthy.\<close>

definition createBackup :: "config_engine \<Rightarrow> string \<Rightarrow> string \<Rightarrow> go_answers option \<Rightarrow> config_tables \<Rightarrow> json" where
  "createBackup E timestamp version go T =
     JObj [(''_format'', JStr ''betterdesk-backup''), (''_version'', JNum BACKUP_FORMAT_VERSION), (''_created'', JStr timestamp),
       (''_console_version'', JStr version), (''_backend'', JObj []),
       (''console'', JObj
          [(''settings'', JObj (ct_settings T)), (''branding'', ct_branding T), (''users'', JArr (map JObj (ct_users T))),
           (''folders'', JArr (map JObj (ct_folders T))), (''userGroups'', JArr (map JObj (getAllUserGroups E T))),
           (''deviceGroups'', JArr (map JObj (config_getAllDeviceGroups E T))), (''strategies'', JArr (map JObj (getAllStrategies E T))),
           (''addressBooks'', JArr (map JObj (getAllAddressBooks E T)))]),
       (''goServer'', case go of Some A \<Rightarrow> fetchGoServerData A | None \<Rightarrow> JNull)]"

datatype config_backup_error = NotAnObject | WrongBackupFormat | UnsupportedBackupVersion "json option" | MissingConsole

definition is_json_object :: "json option \<Rightarrow> bool" where
  "is_json_object v = (case v of Some (JObj fs) \<Rightarrow> True | Some (JArr xs) \<Rightarrow> True | _ \<Rightarrow> False)"

text \<open>The errors that \<open>validateBackup\<close> finds; the snapshot is valid when there are none.\<close>

definition validateBackup :: "json \<Rightarrow> config_backup_error list" where
  "validateBackup data =
     (if \<not> is_json_object (Some data) then [NotAnObject]
      else (if field data ''_format'' = Some (JStr ''betterdesk-backup'') then [] else [WrongBackupFormat])
         @ (if version_ok BACKUP_FORMAT_VERSION (field data ''_version'') then [] else [UnsupportedBackupVersion (field data ''_version'')])
         @ (if is_json_object (field data ''console'') then [] else [MissingConsole]))"


section \<open>Restoring\<close>

record config_options =
  co_settings :: bool
  co_branding :: bool
  co_users :: bool
  co_folders :: bool
  co_groups :: bool
  co_addressBooks :: bool

record config_result =
  cr_restored :: "string list"
  cr_skipped :: "string list"
  cr_warnings :: "string list"

text \<open>One part: its body says whether it ran to its end, and what it has done stays.\<close>

definition restore_part :: "string \<Rightarrow> bool \<Rightarrow> (config_tables \<Rightarrow> bool \<times> config_tables) \<Rightarrow> config_result \<times> config_tables \<Rightarrow>
    config_result \<times> config_tables" where
  "restore_part label wanted body = (\<lambda>(r, T).
     if wanted then
       (case body T of
          (True, T') \<Rightarrow> (r\<lparr>cr_restored := cr_restored r @ [label]\<rparr>, T')
        | (False, T') \<Rightarrow> (r\<lparr>cr_warnings := cr_warnings r @ [label]\<rparr>, T'))
     else (r\<lparr>cr_skipped := cr_skipped r @ [label]\<rparr>, T))"

fun set_settings :: "(json \<Rightarrow> json option) \<Rightarrow> (string \<times> json) list \<Rightarrow> (string \<times> json) list \<Rightarrow> bool \<times> (string \<times> json) list" where
  "set_settings bind_value [] s = (True, s)"
| "set_settings bind_value ((k, v) # es) s =
     (case bind_value v of None \<Rightarrow> (False, s) | Some v' \<Rightarrow> set_settings bind_value es (AList.update k v' s))"

text \<open>\<open>restoreUsers\<close>: in one transaction, columns the table does not have left out.\<close>

fun insert_users :: "config_engine \<Rightarrow> json list \<Rightarrow> jrow list \<Rightarrow> jrow list option" where
  "insert_users E [] rows = Some rows"
| "insert_users E (u # us) rows =
     (if u = JNull then None
      else let cols = filter (\<lambda>(k, v). k \<in> set (ce_user_cols E)) (entries u) in
        if cols = [] then insert_users E us rows
        else case ce_replace E cols rows of None \<Rightarrow> None | Some rows' \<Rightarrow> insert_users E us rows')"

definition restoreUsers :: "config_engine \<Rightarrow> json list \<Rightarrow> jrow list \<Rightarrow> jrow list option" where
  "restoreUsers E us rows = insert_users E us []"

fun restore_folders :: "config_engine \<Rightarrow> json option list \<Rightarrow> json list \<Rightarrow> jrow list \<Rightarrow> bool \<times> jrow list" where
  "restore_folders E existing [] rows = (True, rows)"
| "restore_folders E existing (f # fs) rows =
     (case get_prop f ''name'' of
        Inl u \<Rightarrow> (False, rows)
      | Inr name \<Rightarrow>
          if name \<in> set existing then restore_folders E existing fs rows
          else (case ce_insert E ''folders''
                   [(''name'', given name), (''color'', or_json (JStr ''#6366f1'') (field f ''color'')),
                    (''icon'', or_json (JStr ''folder'') (field f ''icon'')), (''sort_order'', JNum 0)] rows of
                  None \<Rightarrow> (False, rows)
                | Some rows' \<Rightarrow> restore_folders E existing fs rows'))"

text \<open>Rows that are known by their guid; a refused insert is passed over.\<close>

fun restore_guids :: "config_engine \<Rightarrow> string \<Rightarrow> (json \<Rightarrow> jrow) \<Rightarrow> json option list \<Rightarrow> json list \<Rightarrow> jrow list \<Rightarrow> bool \<times> jrow list" where
  "restore_guids E tbl columns existing [] rows = (True, rows)"
| "restore_guids E tbl columns existing (g # gs) rows =
     (case get_prop g ''guid'' of
        Inl u \<Rightarrow> (False, rows)
      | Inr guid \<Rightarrow>
          restore_guids E tbl columns existing gs
            (if truthy guid \<and> guid \<notin> set existing then (case ce_insert E tbl (columns g) rows of None \<Rightarrow> rows | Some rows' \<Rightarrow> rows')
             else rows))"

definition createUserGroup_columns :: "json \<Rightarrow> jrow" where
  "createUserGroup_columns g =
     [(''guid'', given (field g ''guid'')), (''name'', given (field g ''name'')), (''note'', or_json (JStr []) (field g ''note'')), (''team_id'', JStr [])]"

text \<open>The restore hands on no \<open>source_type\<close> and no \<open>tag_filter\<close>, so every group is a manual one.\<close>

definition createDeviceGroup_columns :: "json \<Rightarrow> jrow" where
  "createDeviceGroup_columns g =
     [(''guid'', given (field g ''guid'')), (''name'', given (field g ''name'')), (''note'', or_json (JStr []) (field g ''note'')), (''team_id'', JStr []),
      (''source_type'', JStr ''manual''), (''tag_filter'', JStr [])]"

text \<open>The permissions that the service hands on are a text, and the adapter writes that text as JSON once more.\<close>

definition handed_permissions :: "config_engine \<Rightarrow> json \<Rightarrow> string" where
  "handed_permissions E s =
     (case field s ''permissions'' of Some (JStr p) \<Rightarrow> p | v \<Rightarrow> ce_stringify E (or_json (JObj []) v))"

definition createStrategy_columns :: "config_engine \<Rightarrow> json \<Rightarrow> jrow" where
  "createStrategy_columns E s =
     [(''guid'', given (field s ''guid'')), (''name'', given (field s ''name'')),
      (''user_group_guid'', or_json (JStr []) (field s ''user_group_guid'')), (''device_group_guid'', or_json (JStr []) (field s ''device_group_guid'')),
      (''enabled'', JNum (if field s ''enabled'' = None \<or> truthy (field s ''enabled'') then 1 else 0)),
      (''permissions'', JStr (ce_stringify E (or_json (JObj []) (Some (JStr (handed_permissions E s))))))]"

definition elements :: "json option \<Rightarrow> json list" where
  "elements v = (case v of Some (JArr xs) \<Rightarrow> xs | _ \<Rightarrow> [])"

definition guids :: "jrow list \<Rightarrow> json option list" where
  "guids rows = map (\<lambda>r. map_of r ''guid'') rows"

definition restoreGroupsData :: "config_engine \<Rightarrow> json \<Rightarrow> config_tables \<Rightarrow> bool \<times> config_tables" where
  "restoreGroupsData E con T =
     (case restore_guids E ''user_groups'' createUserGroup_columns (guids (ct_userGroups T)) (elements (field con ''userGroups'')) (ct_userGroups T) of
        (ok1, ug) \<Rightarrow>
          let T1 = T\<lparr>ct_userGroups := ug\<rparr> in
          if \<not> ok1 then (False, T1)
          else (case restore_guids E ''device_groups'' createDeviceGroup_columns (guids (ct_deviceGroups T1)) (elements (field con ''deviceGroups'')) (ct_deviceGroups T1) of
                  (ok2, dg) \<Rightarrow>
                    let T2 = T1\<lparr>ct_deviceGroups := dg\<rparr> in
                    if \<not> ok2 then (False, T2)
                    else (case restore_guids E ''strategies'' (createStrategy_columns E) (guids (ct_strategies T2)) (elements (field con ''strategies'')) (ct_strategies T2) of
                            (ok3, st) \<Rightarrow> (ok3, T2\<lparr>ct_strategies := st\<rparr>))))"

text \<open>The adapter's \<open>saveAddressBook\<close>, and the wrapper of \<open>database.js\<close>, whose second argument is the data.\<close>

definition adapter_saveAddressBook :: "config_engine \<Rightarrow> json \<Rightarrow> json \<Rightarrow> json \<Rightarrow> config_tables \<Rightarrow> config_tables option" where
  "adapter_saveAddressBook E userId abType d T =
     (case (ce_bind E abType, ce_bind E d) of
        (Some ty, Some dt) \<Rightarrow>
          if ce_by_username E then
            (case usernameForUserId (ct_users T) userId of
               None \<Rightarrow> Some T
             | Some u \<Rightarrow> if truthy (Some u) then Some (T\<lparr>ct_books := AList.update (u, ty) dt (ct_books T)\<rparr>) else Some T)
          else (case ce_bind E userId of
                  Some uid \<Rightarrow> Some (T\<lparr>ct_books := AList.update (uid, ty) dt (ct_books T)\<rparr>)
                | None \<Rightarrow> None)
      | _ \<Rightarrow> None)"

definition saveAddressBook :: "config_engine \<Rightarrow> json \<Rightarrow> json \<Rightarrow> json \<Rightarrow> config_tables \<Rightarrow> config_tables option" where
  "saveAddressBook E userId data abType T = adapter_saveAddressBook E userId (or_json (JStr ''legacy'') (Some abType)) data T"

fun restore_books :: "config_engine \<Rightarrow> json list \<Rightarrow> config_tables \<Rightarrow> bool \<times> config_tables" where
  "restore_books E [] T = (True, T)"
| "restore_books E (ab # rest) T =
     (case get_prop ab ''user_id'' of
        Inl u \<Rightarrow> (False, T)
      | Inr uid \<Rightarrow>
          if truthy uid \<and> truthy (field ab ''ab_type'') then
            (case saveAddressBook E (the uid) (the (field ab ''ab_type'')) (or_json (JStr ''{}'') (field ab ''data'')) T of
               None \<Rightarrow> (False, T)
             | Some T' \<Rightarrow> restore_books E rest T')
          else restore_books E rest T)"

definition settings_body :: "config_engine \<Rightarrow> json \<Rightarrow> config_tables \<Rightarrow> bool \<times> config_tables" where
  "settings_body E con T =
     (case set_settings (ce_bind E) (entries (given (field con ''settings''))) (ct_settings T) of (ok, s) \<Rightarrow> (ok, T\<lparr>ct_settings := s\<rparr>))"

definition branding_body :: "config_engine \<Rightarrow> json \<Rightarrow> config_tables \<Rightarrow> bool \<times> config_tables" where
  "branding_body E con T =
     (case ce_branding E (given (field con ''branding'')) (ct_branding T) of None \<Rightarrow> (False, T) | Some b \<Rightarrow> (True, T\<lparr>ct_branding := b\<rparr>))"

definition users_body :: "config_engine \<Rightarrow> json \<Rightarrow> config_tables \<Rightarrow> bool \<times> config_tables" where
  "users_body E con T =
     (case restoreUsers E (elements (field con ''users'')) (ct_users T) of None \<Rightarrow> (False, T) | Some us \<Rightarrow> (True, T\<lparr>ct_users := us\<rparr>))"

definition folders_body :: "config_engine \<Rightarrow> json \<Rightarrow> config_tables \<Rightarrow> bool \<times> config_tables" where
  "folders_body E con T =
     (case restore_folders E (map (\<lambda>r. map_of r ''name'') (ct_folders T)) (elements (field con ''folders'')) (ct_folders T) of
        (ok, fs) \<Rightarrow> (ok, T\<lparr>ct_folders := fs\<rparr>))"

definition no_config_result :: config_result where
  "no_config_result = \<lparr>cr_restored = [], cr_skipped = [], cr_warnings = []\<rparr>"

definition restoreBackup :: "config_engine \<Rightarrow> config_options \<Rightarrow> json \<Rightarrow> config_tables \<Rightarrow> config_result \<times> config_tables" where
  "restoreBackup E opts data T =
     (let con = given (field data ''console'') in
      restore_part ''addressBooks'' (co_addressBooks opts \<and> is_array (field con ''addressBooks''))
          (\<lambda>T. restore_books E (elements (field con ''addressBooks'')) T)
        (restore_part ''groups'' (co_groups opts) (restoreGroupsData E con)
          (restore_part ''folders'' (co_folders opts \<and> is_array (field con ''folders'')) (folders_body E con)
            (restore_part ''users'' (co_users opts \<and> elements (field con ''users'') \<noteq> []) (users_body E con)
              (restore_part ''branding'' (co_branding opts \<and> truthy (field con ''branding'')) (branding_body E con)
                (restore_part ''settings'' (co_settings opts \<and> truthy (field con ''settings'')) (settings_body E con)
                  (no_config_result, T)))))))"


section \<open>Settings\<close>

lemma set_settings_bound:
  assumes "\<forall>(k, v) \<in> set es. bind_value v = Some v"
  shows "set_settings bind_value es s = (True, fold (\<lambda>(k, v). AList.update k v) es s)"
  using assms by (induction es arbitrary: s) auto

lemma fold_update_lookup:
  "distinct (map fst es) \<Longrightarrow> (k, v) \<in> set es \<Longrightarrow> map_of (fold (\<lambda>(k, v). AList.update k v) es s) k = Some v"
proof (induction es arbitrary: s)
  case (Cons e es)
  obtain k' v' where e: "e = (k', v')" by (cases e)
  have other: "map_of (fold (\<lambda>(k, v). AList.update k v) es s) k = map_of s k" if "k \<notin> fst ` set es" for s
    using that by (induction es arbitrary: s) (auto simp: update_conv')
  show ?case
  proof (cases "(k, v) \<in> set es")
    case True
    then show ?thesis using Cons e by simp
  next
    case False
    then have "k = k'" "v = v'" using Cons.prems e by auto
    then show ?thesis using other [of "AList.update k' v' s"] Cons.prems e by (simp add: update_conv')
  qed
qed simp


lemma console_fields:
  "field (given (field (createBackup E ts v go T) ''console'')) ''settings'' = Some (JObj (ct_settings T))"
  "field (given (field (createBackup E ts v go T) ''console'')) ''folders'' = Some (JArr (map JObj (ct_folders T)))"
  "field (given (field (createBackup E ts v go T) ''console'')) ''userGroups'' = Some (JArr (map JObj (getAllUserGroups E T)))"
  by (simp_all add: createBackup_def field_def given_def)

lemma restore_part_keeps:
  "(\<And>T. g (snd (body T)) = g T) \<Longrightarrow> g (snd (restore_part label wanted body rT)) = g (snd rT)"
proof -
  assume keeps: "\<And>T. g (snd (body T)) = g T"
  obtain r T where rT: "rT = (r, T)" by (cases rT)
  obtain ok T' where "body T = (ok, T')" by (cases "body T")
  then show ?thesis using keeps [of T] rT by (simp add: restore_part_def split: bool.split)
qed

lemma restore_part_relates:
  assumes "\<And>T. P T (snd (body T))" "\<And>T. P T T"
  shows "P (snd rT) (snd (restore_part label wanted body rT))"
proof -
  obtain r T where rT: "rT = (r, T)" by (cases rT)
  obtain ok T' where "body T = (ok, T')" by (cases "body T")
  then show ?thesis using assms(1) [of T] assms(2) [of T] rT by (simp add: restore_part_def split: bool.split)
qed

lemma groups_keep:
  "ct_settings (snd (restoreGroupsData E con T)) = ct_settings T" "ct_folders (snd (restoreGroupsData E con T)) = ct_folders T"
  "ct_users (snd (restoreGroupsData E con T)) = ct_users T"
  by (simp_all add: restoreGroupsData_def Let_def split: prod.split)

lemma save_book_shape:
  "saveAddressBook E u d ty T = Some T' \<Longrightarrow> \<exists>bs. T' = T\<lparr>ct_books := bs\<rparr>"
proof -
  assume "saveAddressBook E u d ty T = Some T'"
  then have "T' = T \<or> (\<exists>bs. T' = T\<lparr>ct_books := bs\<rparr>)"
    unfolding saveAddressBook_def adapter_saveAddressBook_def by (auto split: option.splits if_splits)
  moreover have "T = T\<lparr>ct_books := ct_books T\<rparr>" by simp
  ultimately show ?thesis by metis
qed

lemma books_keep: "\<exists>bs. snd (restore_books E xs T) = T\<lparr>ct_books := bs\<rparr>"
proof (induction xs arbitrary: T)
  case Nil
  show ?case by (auto intro: exI [of _ "ct_books T"])
next
  case (Cons ab rest)
  have same: "\<exists>bs. T = T\<lparr>ct_books := bs\<rparr>" by (rule exI [of _ "ct_books T"]) simp
  show ?case
  proof (cases "get_prop ab ''user_id''")
    case (Inl u)
    then have "restore_books E (ab # rest) T = (False, T)" by (simp only: restore_books.simps sum.case)
    then show ?thesis using same by simp
  next
    case (Inr uid)
    let ?save = "saveAddressBook E (the uid) (the (field ab ''ab_type'')) (or_json (JStr ''{}'') (field ab ''data'')) T"
    show ?thesis
    proof (cases "truthy uid \<and> truthy (field ab ''ab_type'')")
      case False
      have "restore_books E (ab # rest) T = restore_books E rest T"
        unfolding restore_books.simps Inr sum.case using False by (rule if_not_P)
      then show ?thesis using Cons.IH [of T] by simp
    next
      case t: True
      show ?thesis
      proof (cases ?save)
        case None
        then show ?thesis using Inr t same by simp
      next
        case (Some T')
        then obtain bs where "T' = T\<lparr>ct_books := bs\<rparr>" using save_book_shape by blast
        then show ?thesis using Cons.IH [of T'] Inr t Some by auto
      qed
    qed
  qed
qed

lemma books_keep_tables:
  "ct_settings (snd (restore_books E xs T)) = ct_settings T" "ct_folders (snd (restore_books E xs T)) = ct_folders T"
  "ct_users (snd (restore_books E xs T)) = ct_users T" "ct_userGroups (snd (restore_books E xs T)) = ct_userGroups T"
  "ct_deviceGroups (snd (restore_books E xs T)) = ct_deviceGroups T" "ct_strategies (snd (restore_books E xs T)) = ct_strategies T"
  using books_keep [of E xs T] by auto

text \<open>Every setting of the snapshot has its old value after a restore with settings, if its value can be bound to a
  statement as it is.\<close>

lemma config_settings_restored:
  assumes "co_settings opts" "distinct (map fst (ct_settings T))" "\<forall>(k, v) \<in> set (ct_settings T). ce_bind E v = Some v"
    and "(k, v) \<in> set (ct_settings T)"
  shows "map_of (ct_settings (snd (restoreBackup E opts (createBackup E' timestamp version go T) T'))) k = Some v"
proof -
  let ?con = "given (field (createBackup E' timestamp version go T) ''console'')"
  have keeps: "ct_settings (snd (branding_body E ?con T)) = ct_settings T" "ct_settings (snd (users_body E ?con T)) = ct_settings T"
    "ct_settings (snd (folders_body E ?con T)) = ct_settings T" for T
    by (simp_all add: branding_body_def users_body_def folders_body_def split: option.split prod.split)
  have "given (field ?con ''settings'') = JObj (ct_settings T)" unfolding console_fields by (simp add: given_def)
  then have "entries (given (field ?con ''settings'')) = ct_settings T" by (simp add: entries_def)
  then have body: "settings_body E ?con T' = (True, T'\<lparr>ct_settings := fold (\<lambda>(k, v). AList.update k v) (ct_settings T) (ct_settings T')\<rparr>)"
    using set_settings_bound [OF assms(3)] by (simp add: settings_body_def)
  have wanted: "co_settings opts \<and> truthy (field ?con ''settings'')" using assms(1) by (simp add: console_fields truthy_def)
  have "ct_settings (snd (restoreBackup E opts (createBackup E' timestamp version go T) T'))
      = ct_settings (snd (restore_part ''settings'' (co_settings opts \<and> truthy (field ?con ''settings'')) (settings_body E ?con) (no_config_result, T')))"
    unfolding restoreBackup_def Let_def
    by (simp only: restore_part_keeps [of ct_settings, OF books_keep_tables(1)] restore_part_keeps [of ct_settings, OF groups_keep(1)]
        restore_part_keeps [of ct_settings, OF keeps(1)] restore_part_keeps [of ct_settings, OF keeps(2)] restore_part_keeps [of ct_settings, OF keeps(3)])
  also have "\<dots> = fold (\<lambda>(k, v). AList.update k v) (ct_settings T) (ct_settings T')"
    using wanted body by (simp add: restore_part_def)
  finally show ?thesis using fold_update_lookup [OF assms(2,4)] by simp
qed



section \<open>A restore only adds\<close>

definition only_appends :: "config_engine \<Rightarrow> bool" where
  "only_appends E = (\<forall>tbl r rows rows'. ce_insert E tbl r rows = Some rows' \<longrightarrow> prefix rows rows')"

lemma insert_appends: "only_appends E \<Longrightarrow> ce_insert E tbl r rows = Some rows' \<Longrightarrow> prefix rows rows'"
  by (simp add: only_appends_def)

lemma restore_folders_appends:
  assumes "only_appends E"
  shows "prefix rows (snd (restore_folders E existing fs rows))"
proof (induction fs arbitrary: rows)
  case (Cons f fs)
  show ?case
  proof (cases "get_prop f ''name''")
    case (Inl u)
    then have "restore_folders E existing (f # fs) rows = (False, rows)" by (simp only: restore_folders.simps sum.case)
    then show ?thesis by simp
  next
    case (Inr name)
    let ?cols = "[(''name'', given name), (''color'', or_json (JStr ''#6366f1'') (field f ''color'')),
      (''icon'', or_json (JStr ''folder'') (field f ''icon'')), (''sort_order'', JNum 0)]"
    show ?thesis
    proof (cases "name \<in> set existing")
      case True
      then have "restore_folders E existing (f # fs) rows = restore_folders E existing fs rows" by (simp only: restore_folders.simps Inr sum.case if_True)
      then show ?thesis using Cons.IH [of rows] by simp
    next
      case False
      then show ?thesis
        using Cons.IH insert_appends [OF assms, of "''folders''" ?cols rows]
        by (cases "ce_insert E ''folders'' ?cols rows") (simp_all only: restore_folders.simps Inr sum.case if_False option.case snd_conv, simp,
          meson prefix_order.trans)
    qed
  qed
qed simp

lemma restore_guids_appends:
  assumes "only_appends E"
  shows "prefix rows (snd (restore_guids E tbl columns existing gs rows))"
proof (induction gs arbitrary: rows)
  case (Cons g gs)
  show ?case
  proof (cases "get_prop g ''guid''")
    case (Inl u)
    then have "restore_guids E tbl columns existing (g # gs) rows = (False, rows)" by (simp only: restore_guids.simps sum.case)
    then show ?thesis by simp
  next
    case (Inr guid)
    let ?rows = "if truthy guid \<and> guid \<notin> set existing then (case ce_insert E tbl (columns g) rows of None \<Rightarrow> rows | Some rows' \<Rightarrow> rows') else rows"
    have "prefix rows ?rows" using insert_appends [OF assms, of tbl "columns g" rows] by (simp split: option.split)
    then have "prefix rows (snd (restore_guids E tbl columns existing gs ?rows))" using Cons.IH [of ?rows] by (rule prefix_order.trans)
    then show ?thesis by (simp only: restore_guids.simps Inr sum.case)
  qed
qed simp

definition grown :: "config_tables \<Rightarrow> config_tables \<Rightarrow> bool" where
  "grown T T' = (prefix (ct_folders T) (ct_folders T') \<and> prefix (ct_userGroups T) (ct_userGroups T') \<and>
     prefix (ct_deviceGroups T) (ct_deviceGroups T') \<and> prefix (ct_strategies T) (ct_strategies T'))"

lemma grown_refl: "grown T T"
  by (simp add: grown_def)

lemma grown_trans: "grown T T' \<Longrightarrow> grown T' T'' \<Longrightarrow> grown T T''"
  unfolding grown_def by (meson prefix_order.trans)

lemma groups_grow: "only_appends E \<Longrightarrow> grown T (snd (restoreGroupsData E con T))"
proof -
  assume a: "only_appends E"
  obtain ok1 ug where 1: "restore_guids E ''user_groups'' createUserGroup_columns (guids (ct_userGroups T)) (elements (field con ''userGroups'')) (ct_userGroups T)
      = (ok1, ug)" by (cases "restore_guids E ''user_groups'' createUserGroup_columns (guids (ct_userGroups T)) (elements (field con ''userGroups'')) (ct_userGroups T)")
  obtain ok2 dg where 2: "restore_guids E ''device_groups'' createDeviceGroup_columns (guids (ct_deviceGroups T)) (elements (field con ''deviceGroups'')) (ct_deviceGroups T)
      = (ok2, dg)" by (cases "restore_guids E ''device_groups'' createDeviceGroup_columns (guids (ct_deviceGroups T)) (elements (field con ''deviceGroups'')) (ct_deviceGroups T)")
  obtain ok3 st where 3: "restore_guids E ''strategies'' (createStrategy_columns E) (guids (ct_strategies T)) (elements (field con ''strategies'')) (ct_strategies T)
      = (ok3, st)" by (cases "restore_guids E ''strategies'' (createStrategy_columns E) (guids (ct_strategies T)) (elements (field con ''strategies'')) (ct_strategies T)")
  have "prefix (ct_userGroups T) ug" "prefix (ct_deviceGroups T) dg" "prefix (ct_strategies T) st"
    using restore_guids_appends [OF a] 1 2 3 by (metis snd_conv)+
  then show ?thesis by (simp add: restoreGroupsData_def 1 2 3 Let_def grown_def)
qed

lemma bodies_grow:
  "grown T (snd (settings_body E con T))" "grown T (snd (branding_body E con T))" "grown T (snd (users_body E con T))"
  "only_appends E \<Longrightarrow> grown T (snd (folders_body E con T))" "grown T (snd (restore_books E xs T))"
proof -
  show "grown T (snd (settings_body E con T))" "grown T (snd (branding_body E con T))" "grown T (snd (users_body E con T))"
    by (simp_all add: settings_body_def branding_body_def users_body_def grown_def split: prod.split option.split)
  show "grown T (snd (restore_books E xs T))" by (simp add: grown_def books_keep_tables)
  assume "only_appends E"
  from restore_folders_appends [OF this] show "grown T (snd (folders_body E con T))"
    by (simp add: folders_body_def grown_def split: prod.split) (metis snd_conv)
qed

lemma parts_grow:
  assumes "\<And>T. grown T (snd (body T))" "grown T0 (snd rT)"
  shows "grown T0 (snd (restore_part label wanted body rT))"
  using restore_part_relates [where P = grown, OF assms(1) grown_refl] grown_trans [OF assms(2)] by blast

lemma users_untouched:
  assumes "\<not> co_users opts"
  shows "ct_users (snd (restoreBackup E opts data T)) = ct_users T"
proof -
  have keeps: "ct_users (snd (settings_body E con T)) = ct_users T" "ct_users (snd (branding_body E con T)) = ct_users T"
    "ct_users (snd (folders_body E con T)) = ct_users T" for con T
    by (simp_all add: settings_body_def branding_body_def folders_body_def split: prod.split option.split)
  have off: "snd (restore_part ''users'' (co_users opts \<and> w) body rT) = snd rT" for w body rT
    using assms by (cases rT) (simp add: restore_part_def)
  show ?thesis unfolding restoreBackup_def Let_def
    by (simp only: off restore_part_keeps [of ct_users, OF books_keep_tables(3)] restore_part_keeps [of ct_users, OF groups_keep(3)]
        restore_part_keeps [of ct_users, OF keeps(1)] restore_part_keeps [of ct_users, OF keeps(2)] restore_part_keeps [of ct_users, OF keeps(3)] snd_conv)
qed

text \<open>A restore never removes a folder, a group or a strategy, whatever the snapshot says, and it does not touch the accounts
  unless it is asked to.\<close>

lemma config_restore_merges:
  assumes "only_appends E" "restoreBackup E opts data T = (r, T')"
  shows "prefix (ct_folders T) (ct_folders T') \<and> prefix (ct_userGroups T) (ct_userGroups T') \<and>
    prefix (ct_deviceGroups T) (ct_deviceGroups T') \<and> prefix (ct_strategies T) (ct_strategies T') \<and>
    (co_users opts \<or> ct_users T' = ct_users T)"
proof -
  have "grown T (snd (restoreBackup E opts data T))"
    unfolding restoreBackup_def Let_def
    by (intro parts_grow bodies_grow groups_grow assms(1)) (simp add: grown_refl)
  moreover have "co_users opts \<or> ct_users T' = ct_users T" using users_untouched [of opts E data T] assms(2) by auto
  ultimately show ?thesis using assms(2) by (simp add: grown_def)
qed


section \<open>What does not come back\<close>

text \<open>The service hands the type where the wrapper has the data: the book is kept under its data as its type.\<close>

lemma book_restored_under_its_data:
  assumes "ce_bind E = Some" "\<not> ce_by_username E" "truthy (Some uid)" "truthy (Some ty)" "truthy (Some d)"
  shows "restore_books E [JObj [(''user_id'', uid), (''ab_type'', ty), (''data'', d)]] T
    = (True, T\<lparr>ct_books := AList.update (uid, d) ty (ct_books T)\<rparr>)"
  using assms by (simp add: get_prop_def field_def saveAddressBook_def adapter_saveAddressBook_def or_json_def)

text \<open>Permissions that were an object are read back as a text.\<close>

lemma permissions_restored_as_text:
  assumes "field s ''permissions'' = Some (JObj p)" "ce_stringify E (JObj p) \<noteq> []"
    and "ce_parse E (ce_stringify E (JStr (ce_stringify E (JObj p)))) = Some (JStr (ce_stringify E (JObj p)))"
  shows "read_permissions E (map_of (createStrategy_columns E s) ''permissions'') = JStr (ce_stringify E (JObj p))"
  using assms by (simp add: createStrategy_columns_def handed_permissions_def or_json_def truthy_def read_permissions_def)

end
