(* ===== verification/Spec2Isabelle.thy ===== *)
theory Spec2Isabelle
  imports Session_Runs Permissions Auth_Tokens Auth_Accounts Auth_Routes Device_Scope Ssrf_Guard Env_Config Ws_Upgrade
    Bd_Relay Chat_Relay Rd_Rendezvous Rd_File Restart_Coordinator
    File_Manager File_Transfer Branding_Css Device_Tags Scheduled_Backup
    Api_Guards Alert_Rules Panel_Events Update_Policy Config_Backup
begin

text \<open>
  BetterDesk web console: a model of the parts of \<open>src/web-nodejs\<close> that decide who may do what, and
  the theorems that make them correct.

  The program.  BetterDesk is a remote-desktop server.  Its console is a Node.js (Express) application:
  middleware (\<open>server.js\<close>, \<open>middleware/\<close>) guards the routes, services (\<open>services/\<close>) hold the logic,
  \<open>services/dbAdapter.js\<close> gives the same operations on SQLite and on PostgreSQL, and the Go server
  (\<open>betterdesk-server\<close>) is consulted over HTTP for accounts, directory logins and role permissions.
  A login passes \<open>authService.authenticate\<close>, then \<open>panelSessionService\<close> activates one session in
  \<open>databaseSessionStore\<close> and ends the account's others; each later request passes the session
  middleware of \<open>server.js\<close>, then the guards of \<open>middleware/auth.js\<close>, which read the cached
  permissions of the role; the device lists are cut down by \<open>deviceGroupService\<close>.  The remote sessions
  themselves run over WebSockets: one router hands each upgrade to its service, and the services
  (the proxy to the RustDesk servers, the relays for remote desktop, native clients and chat) keep
  their state in memory and answer to events.

  The theories, in the order they build on each other:

  \<^item> \<open>BD_Prelude\<close>: JavaScript's strings and numbers as far as the code uses them (\<open>trim\<close>,
    \<open>toLowerCase\<close>, \<open>split\<close>, \<open>join\<close>, \<open>parseInt\<close>, the \<open>||\<close> defaults) and their lemmas.  A string is
    a list of 8-bit characters, a number that the code keeps integral is an \<open>int\<close>.
  \<^item> \<open>Sql_Tables\<close>: a table with a primary key as an association list with distinct keys, with the
    statements the adapters use and the lemmas on look-ups that the stores share.
  \<^item> \<open>Session_Policy\<close>: \<open>lib/sessionPolicy.js\<close>.  The environment is a function from names to optional
    texts; every environment gives timeouts within the documented bounds.
  \<^item> \<open>Session_Store\<close>: \<open>services/databaseSessionStore.js\<close>, one definition per operation and engine.
    Time is an argument in milliseconds; where the code compares with the clock of the database it
    is an argument of its own.
  \<^item> \<open>Session_Spec\<close>: the abstract store (a partial function from ids to sessions) and the
    simulation: every operation of either engine is the abstract operation through its view.  The
    locale \<open>session_backend\<close> states this contract, its interpretations discharge it for the two
    engines, and what holds of the abstract store holds of both.
  \<^item> \<open>Panel_Session\<close>: \<open>services/panelSessionService.js\<close> and the session middleware of \<open>server.js\<close>.
  \<^item> \<open>Session_Runs\<close>: arbitrary sequences of operations.  One active session per account, agreement
    of the engines, finality of an ended session, retention of the history, the idle and absolute
    windows, a middleware that fails closed.
  \<^item> \<open>Permissions\<close>: \<open>services/rolePermissionService.js\<close> and \<open>middleware/auth.js\<close>.  The cache with its
    shared request is a state machine whose steps (a call, the answer of the Go server, an
    invalidation, the passing of time) interleave freely; its invariant gives the freshness of what
    is served.  The guards are functions of the request and the looked-up set.
  \<^item> \<open>Auth_Db\<close>, \<open>Groups_Db\<close>: the account, token, lockout, group, folder and grant tables of
    \<open>services/dbAdapter.js\<close> with the constraints and cascades of the schema, as one record of tables.
  \<^item> \<open>Auth_Tokens\<close>: client tokens and the brute-force protection of \<open>services/authService.js\<close> over the
    interface of \<open>services/database.js\<close>; the locale \<open>auth_adapter\<close> holds its laws and is interpreted
    for both engines.  Texts of time stamps are compared as the engines do, which shows where a UTC
    text stored in a zoned column goes wrong.
  \<^item> \<open>Auth_Service\<close>, \<open>Auth_Accounts\<close>: the login flow with its providers, the bootstrap
    administrator, password changes, TOTP and recovery codes.
  \<^item> \<open>Auth_Routes\<close>: \<open>routes/auth.routes.js\<close>, the handlers of login, second factor, OIDC exchange, logout,
    password change and TOTP, composed with the session middleware and the guards.  A visit of a
    browser is a list of requests, between which anybody else may change the console; every open
    session goes back to a login that proved what the account demands.
  \<^item> \<open>Device_Scope\<close>: \<open>services/deviceGroupService.js\<close> and \<open>services/userScopeService.js\<close>, with a
    characterisation of the devices a user can reach.
  \<^item> \<open>Ssrf_Guard\<close>: \<open>lib/ssrfGuard.js\<close> and \<open>lib/parseTrustProxy.js\<close>.
  \<^item> \<open>Env_Config\<close>: \<open>lib/envMerge.js\<close> and the configuration half of \<open>lib/managementCapabilities.js\<close>;
    the locale \<open>line_reader\<close> holds what every line-wise reader of a text satisfies and is
    interpreted for both parsers.
  \<^item> \<open>Relay_Frames\<close>: the framing of \<open>services/wsRelay.js\<close>, bytes as 8-bit words, with the buffer that
    the decoder reuses; it is equivalent to a parser of the whole stream, and encoding followed by
    decoding in any chunks is the identity.
  \<^item> \<open>Guest_Bridge\<close>: the proxy connections of \<open>services/wsRelay.js\<close> as a state machine: limits per
    address, the checks on the traffic of a guest, consumption, revalidation and revocation of a
    guest grant, the promises a handler waits for.
  \<^item> \<open>Ws_Upgrade\<close>: \<open>middleware/wsOrigin.js\<close>, \<open>services/wsUpgradeRouter.js\<close>, \<open>lib/deviceTokenAuth.js\<close> and the
    upgrade handler of every WebSocket service, routed in the order of \<open>server.js\<close>; an accepted
    upgrade had the authority that its endpoint demands.
  \<^item> \<open>Event_System\<close>: reachable states and runs of a system of handlers; its locale \<open>event_invariant\<close> is
    interpreted for each relay.  \<open>Json_Values\<close>: parsed JSON and what the handlers do with it.
  \<^item> \<open>Remote_Relay\<close>, \<open>Bd_Relay\<close>, \<open>Chat_Relay\<close>: \<open>services/remoteRelay.js\<close>, \<open>services/bdRelay.js\<close> and
    \<open>services/chatRelay.js\<close>.  Their invariants, who receives what, and the messages that stop the
    process.

  \<^item> \<open>Rd_Sha256\<close>, \<open>Rd_Crypto\<close>: \<open>public/js/rdclient/crypto.js\<close>.  The SHA-256 fallback on JavaScript numbers
    against SHA-256 on words; the formats of public keys, signed identities, and the counters of the
    encrypted stream.
  \<^item> \<open>Rd_Client\<close>: the session of \<open>public/js/rdclient/client.js\<close> with a peer, as a state machine of frames,
    user actions and closings: deferred key exchange, speculative decryption, login.  The invariant,
    what encryption guarantees once it is on, and what the handshake leaves open.
  \<^item> \<open>Rd_Frames\<close>, \<open>Rd_Rendezvous\<close>: the framing of \<open>public/js/rdclient/protocol.js\<close>, related to the one of
    the proxy, and the search for a relay (\<open>client.js\<close>, \<open>punchhole-response.js\<close>) over it.  The locale
    \<open>chunk_decoder\<close> holds what makes a decoder independent of the chunks.
  \<^item> \<open>Rd_File\<close>: \<open>public/js/rdclient/file-connection.js\<close>, composed with the proxy.
  \<^item> \<open>Restart_Coordinator\<close>: \<open>services/restartCoordinator.js\<close>, the persisted transaction of settings that need a
    restart, with the rollbacks of the services as an argument.  Its invariant over overlapping requests, and that
    cancelling brings every setting back, also where several settings share one file whose whole text is the snapshot.
  \<^item> \<open>Safe_Path\<close>: \<open>lib/safePath.js\<close> on POSIX paths, with the file system as an argument (\<open>fsys\<close>); what the check
    accepts is characterised by the components of the resolved paths.  Where the system puts a path is defined apart
    from the code (\<open>lands\<close>).  \<open>File_Manager\<close>: the file browser and the service control of
    \<open>services/serverManagement.js\<close>; every change stays inside the mutable roots, except through a link to nothing.
  \<^item> \<open>File_Transfer\<close>: \<open>services/fileTransferService.js\<close> and \<open>routes/fileTransfer.routes.js\<close>; the registry's
    invariant, and that the chunks of a transfer become the file whatever else happens in between.
  \<^item> \<open>Branding_Css\<close>: \<open>lib/stripUntilStable.js\<close> and the sanitisers of styles in \<open>services/brandingService.js\<close>.
    Regular expressions are matchers, the loops that run until nothing changes are partial functions and are
    proved to end.
  \<^item> \<open>Device_Tags\<close>: \<open>services/tagManagementService.js\<close> with its pool of workers as a state machine, and the address
    books of \<open>services/rustdeskAddressBookSync.js\<close> as \<open>routes/rustdesk-api.routes.js\<close> builds them.
  \<^item> \<open>Scheduled_Backup\<close>: \<open>services/scheduledBackupService.js\<close>, from the settings over one run with its checks and its
    pruning to the test whether a run is due.  The archive itself and the environment are an argument.
  \<^item> \<open>Api_Guards\<close>: the guards in front of the routes: the stack of the client API (\<open>middleware/wanSecurity.js\<close>), the choice
    of a rate limiter (\<open>rateLimiter.js\<close>), \<open>csrf.js\<close>, the proxy to the Go server (\<open>goApiProxy.js\<close>), guest links
    (\<open>guestAccess.js\<close>) and the headers of \<open>security.js\<close>.  The libraries that count requests and check tokens are
    arguments; what is assumed of the limiter stands at the theorem.
  \<^item> \<open>Alert_Rules\<close>: \<open>services/alertRulesEngine.js\<close> on both databases, with the text of a date as SQLite compares it.
  \<^item> \<open>Panel_Events\<close>: what the console tells its users: \<open>services/deviceStatusPush.js\<close> as an event system on top of the
    upgrades of \<open>Ws_Upgrade\<close>, the mails of \<open>services/helpRequestEmailService.js\<close> and the pending registrations of
    \<open>services/registrationNotifications.js\<close>.
  \<^item> \<open>Update_Policy\<close>: the decisions around an update: \<open>lib/updateFailurePolicy.js\<close>, \<open>lib/updateResultStore.js\<close>, the search for
    the files the console requires (\<open>lib/consoleDeployGraph.js\<close>, a loop over a queue that is shown to end), and the
    ports and the service unit of \<open>lib/privilegedPorts.js\<close>.

  \<^item> \<open>Backup_Archive\<close>: the tar writer and reader of \<open>services/backupArchive.js\<close>, byte by byte.  What is written is read
    back; the reader is a loop over offsets that may become negative, and a theorem says when it returns and that
    it need not.  \<open>Table_Dump\<close>: \<open>dumpAllTables\<close> and \<open>importAllTables\<close> of both engines, with the engine's answer to a statement
    as an argument; a dump restores a table, and where a delete cascades it loses rows.
  \<^item> \<open>Full_Backup\<close>: \<open>createFullBackup\<close>, \<open>validateFullBackup\<close> and \<open>restoreFullBackup\<close> of \<open>services/backupService.js\<close> on top of both:
    the secrets come back byte for byte on another machine, the tables do, and without the dangerous options nothing outside
    the directory of uploads is written.  \<open>Config_Backup\<close>: the JSON snapshot of the configuration, what its restore brings
    back, that it only adds, and two parts that do not come back.

  Parameters.  Code outside the repository is an argument: bcrypt and PBKDF2 (\<open>crypto_ops\<close>),
  otplib, the random generator, the answers of the Go server (\<open>go_server\<close>), DNS, the URL parser, tweetnacl
  (\<open>nacl\<close>) and the generated protobuf codec (\<open>proto\<close>).
  What is assumed of them is written at the theorem: a bcrypt hash verifies the password it was made
  from, PBKDF2 derives as many bytes as it is asked for, the random generator does not
  repeat a token, \<open>realpath\<close> gives an existing path that is its own real path.  Each has a concrete instance in the witness of the theorem.

  Errors are values of a sum type, an \<open>async\<close> operation is its state transition, and no definition
  needs fuel: a loop runs over a list or has a measure, and the loops of \<open>Branding_Css\<close> and \<open>Update_Policy\<close>, which might not
  end, are partial functions with a theorem that they return; the reader of \<open>Backup_Archive\<close> is one that may not.  The theorems that show a defect of
  the code say so in their text.

  Not modelled: input and output as such (HTTP, files, sockets, child processes), logging,
  rendering, the schema migrations, the tables of the adapter outside accounts, groups and sessions,
  what the terminal and media proxies forward, the user interface, and video, audio and input of the
  web client.  Next in the plan:
  strategies, the protocol helpers of the web client.
\<close>

end
